(* ===== verification/Prelude.thy ===== *)
theory Prelude
  imports Main "HOL-Library.Word" "HOL-Library.Monad_Syntax"
begin

text \<open>
  Shared vocabulary of the development: the machine types, byte buffers with checked
  access, the bit view of a buffer, and the small calculus in which every memory
  operation of the program is specified.

  A C buffer is a \<^typ>\<open>8 word list\<close>. Reading or writing outside it is undefined
  behaviour in C, so the checked accessors below return \<open>None\<close> there: an operation
  whose result is shown to be \<open>Some\<close> performs no access outside its buffers.

  Bit \<open>p\<close> of a buffer is bit \<open>7 - p mod 8\<close> of byte \<open>p div 8\<close> (the first bit of a
  byte is its most significant one), as in every file under src/ that addresses the
  space. \<open>yields r L f\<close> says that the operation \<open>r\<close> succeeds with a buffer of \<open>L\<close>
  bytes whose bit view is \<open>f\<close>; by \<open>mem_eqI\<close> this determines the result.
\<close>

unbundle bit_operations_syntax

type_synonym u8 = "8 word"
type_synonym u32 = "32 word"
type_synonym u64 = "64 word"
type_synonym mem = "u8 list"

named_theorems yields_intros "introduction rules of the memory calculus"

section \<open>Checked byte access\<close>

definition mem_get :: "mem \<Rightarrow> nat \<Rightarrow> u8 option" where
  "mem_get m i = (if i < length m then Some (m ! i) else None)"

definition mem_set :: "mem \<Rightarrow> nat \<Rightarrow> u8 \<Rightarrow> mem option" where
  "mem_set m i b = (if i < length m then Some (m[i := b]) else None)"

text \<open>
  \<open>memmove\<close> and \<open>memset\<close> of the C library: the source bytes are read before any byte
  is written. \<open>mem_move n s si m di\<close> copies \<open>n\<close> bytes from offset \<open>si\<close> of \<open>s\<close> to
  offset \<open>di\<close> of \<open>m\<close>.
\<close>

definition mem_move :: "nat \<Rightarrow> mem \<Rightarrow> nat \<Rightarrow> mem \<Rightarrow> nat \<Rightarrow> mem option" where
  "mem_move n s si m di =
     (if si + n \<le> length s \<and> di + n \<le> length m
      then Some (take di m @ take n (drop si s) @ drop (di + n) m) else None)"

definition mem_fill :: "nat \<Rightarrow> u8 \<Rightarrow> mem \<Rightarrow> nat \<Rightarrow> mem option" where
  "mem_fill n b m di =
     (if di + n \<le> length m then Some (take di m @ replicate n b @ drop (di + n) m) else None)"

section \<open>The bit view of a buffer\<close>

definition bit_at :: "mem \<Rightarrow> nat \<Rightarrow> bool" where
  "bit_at m p \<longleftrightarrow> p div 8 < length m \<and> bit (m ! (p div 8)) (7 - p mod 8)"

lemma bit_at_bound: "bit_at m p \<Longrightarrow> p < 8 * length m"
  by (auto simp: bit_at_def)

lemma bit_at_out: "8 * length m \<le> p \<Longrightarrow> \<not> bit_at m p"
  by (auto simp: bit_at_def)

lemma bit_at_byte: "i < length m \<Longrightarrow> j < 8 \<Longrightarrow> bit_at m (8 * i + j) \<longleftrightarrow> bit (m ! i) (7 - j)"
  by (simp add: bit_at_def)

lemma mem_eqI:
  assumes len: "length m = length m'" and bits: "bit_at m = bit_at m'"
  shows "m = m'"
proof (rule nth_equalityI [OF len])
  fix i assume i: "i < length m"
  show "m ! i = m' ! i"
  proof (rule bit_word_eqI)
    fix k assume "k < LENGTH(8)"
    then have k: "k < 8" by simp
    have "bit_at m (8 * i + (7 - k)) = bit_at m' (8 * i + (7 - k))"
      using bits by simp
    then show "bit (m ! i) k \<longleftrightarrow> bit (m' ! i) k"
      using i len k bit_at_byte [of i m "7 - k"] bit_at_byte [of i m' "7 - k"] by simp
  qed
qed

text \<open>The bit view as a list, for statements that talk about whole memories.\<close>

definition bits_of :: "mem \<Rightarrow> bool list" where
  "bits_of m = map (bit_at m) [0..<8 * length m]"

lemma length_bits_of [simp]: "length (bits_of m) = 8 * length m"
  by (simp add: bits_of_def)

lemma nth_bits_of [simp]: "p < 8 * length m \<Longrightarrow> bits_of m ! p = bit_at m p"
  by (simp add: bits_of_def)

section \<open>Moving a bit range\<close>

text \<open>
  \<open>blit n s d f g\<close> is the bit view \<open>g\<close> after bits \<open>s .. s + n - 1\<close> of the bit view \<open>f\<close>
  have replaced its bits \<open>d .. d + n - 1\<close>, all of them read beforehand.
\<close>

definition blit :: "nat \<Rightarrow> nat \<Rightarrow> nat \<Rightarrow> (nat \<Rightarrow> bool) \<Rightarrow> (nat \<Rightarrow> bool) \<Rightarrow> nat \<Rightarrow> bool" where
  "blit n s d f g p = (if d \<le> p \<and> p < d + n then f (s + (p - d)) else g p)"

lemma blit_0 [simp]: "blit 0 s d f g = g"
  by (auto simp: blit_def fun_eq_iff)

lemma blit_id [simp]: "blit n s s f f = f"
  by (auto simp: blit_def fun_eq_iff)

lemma blit_append:
  "blit n2 (s + n1) (d + n1) f (blit n1 s d f g) = blit (n1 + n2) s d f g"
  by (rule ext) (auto simp: blit_def)

lemma blit_cong:
  "(\<And>i. i < n \<Longrightarrow> f (s + i) = f' (s + i)) \<Longrightarrow> blit n s d f g = blit n s d f' g"
proof (rule ext)
  fix p
  assume eq: "\<And>i. i < n \<Longrightarrow> f (s + i) = f' (s + i)"
  show "blit n s d f g p = blit n s d f' g p"
    using eq [of "p - d"] by (auto simp: blit_def)
qed

lemma blit_in: "i < n \<Longrightarrow> blit n s d f g (d + i) = f (s + i)"
  by (simp add: blit_def)

lemma blit_out: "p < d \<or> d + n \<le> p \<Longrightarrow> blit n s d f g p = g p"
  by (auto simp: blit_def)

lemma blit_Suc: "blit (Suc n) s d f g = (blit n s d f g)(d + n := f (s + n))"
  by (rule ext) (auto simp: blit_def)

lemma blit_Suc_front:
  "blit (Suc n) s d f g = (blit n (Suc s) (Suc d) f g)(d := f s)"
  by (rule ext) (auto simp: blit_def Suc_diff_Suc dest: le_neq_implies_less)

section \<open>The memory calculus\<close>

definition yields :: "mem option \<Rightarrow> nat \<Rightarrow> (nat \<Rightarrow> bool) \<Rightarrow> bool" where
  "yields r L f \<longleftrightarrow> (\<exists>m. r = Some m \<and> length m = L \<and> bit_at m = f)"

lemma yieldsI: "r = Some m \<Longrightarrow> length m = L \<Longrightarrow> bit_at m = f \<Longrightarrow> yields r L f"
  by (auto simp: yields_def)

lemma yieldsE:
  assumes "yields r L f"
  obtains m where "r = Some m" and "length m = L" and "bit_at m = f"
  using assms by (auto simp: yields_def)

lemma yields_Some [yields_intros]: "length m = L \<Longrightarrow> bit_at m = f \<Longrightarrow> yields (Some m) L f"
  by (simp add: yields_def)

lemma yields_bind:
  assumes "yields r L f"
    and "\<And>m. length m = L \<Longrightarrow> bit_at m = f \<Longrightarrow> yields (k m) L' f'"
  shows "yields (Option.bind r k) L' f'"
  using assms by (auto simp: yields_def)

lemma yields_unique: "yields r L f \<Longrightarrow> yields r' L f \<Longrightarrow> r = r'"
  by (auto simp: yields_def intro: mem_eqI)

lemma yields_cong: "yields r L f \<Longrightarrow> f = f' \<Longrightarrow> yields r L f'"
  by simp

section \<open>Counting loops\<close>

text \<open>
  \<open>for_up body i k\<close> is the loop \<open>for(; k > 0; ++i, --k) body(i)\<close> over a state that may
  become undefined, \<open>for_down body n\<close> the loop \<open>for(i = n; i-- > 0;) body(i)\<close>.
\<close>

fun for_up :: "(nat \<Rightarrow> 's \<Rightarrow> 's option) \<Rightarrow> nat \<Rightarrow> nat \<Rightarrow> 's \<Rightarrow> 's option" where
  "for_up body i 0 s = Some s"
| "for_up body i (Suc k) s = Option.bind (body i s) (for_up body (Suc i) k)"

fun for_down :: "(nat \<Rightarrow> 's \<Rightarrow> 's option) \<Rightarrow> nat \<Rightarrow> 's \<Rightarrow> 's option" where
  "for_down body 0 s = Some s"
| "for_down body (Suc i) s = Option.bind (body i s) (for_down body i)"

lemma yields_for_up:
  assumes "\<And>i m. \<lbrakk>a \<le> i; i < a + k; length m = L; bit_at m = f i\<rbrakk> \<Longrightarrow> yields (body i m) L (f (Suc i))"
    and "length m = L" and "bit_at m = f a"
  shows "yields (for_up body a k m) L (f (a + k))"
  using assms
proof (induction k arbitrary: a m)
  case 0
  then show ?case by (simp add: yields_def)
next
  case (Suc k)
  have "yields (for_up body (Suc a) k m') L (f (Suc a + k))"
    if "length m' = L" "bit_at m' = f (Suc a)" for m'
    by (rule Suc.IH) (use Suc.prems(1) that in auto)
  moreover have "yields (body a m) L (f (Suc a))"
    using Suc.prems by simp
  ultimately show ?case by (auto intro: yields_bind)
qed

text \<open>A loop whose body cannot fail runs through the values of \<open>g\<close>.\<close>

lemma for_up_Some:
  "\<lbrakk>\<And>i. a \<le> i \<Longrightarrow> i < a + k \<Longrightarrow> body i (g i) = Some (g (Suc i)); s = g a\<rbrakk>
    \<Longrightarrow> for_up body a k s = Some (g (a + k))"
proof (induction k arbitrary: a s)
  case (Suc k)
  have "for_up body (Suc a) k (g (Suc a)) = Some (g (Suc a + k))"
    by (rule Suc.IH) (use Suc.prems(1) in auto)
  then show ?case using Suc.prems by simp
qed simp

lemma yields_for_down:
  assumes "\<And>i m. \<lbrakk>i < n; length m = L; bit_at m = f (Suc i)\<rbrakk> \<Longrightarrow> yields (body i m) L (f i)"
    and "length m = L" and "bit_at m = f n"
  shows "yields (for_down body n m) L (f 0)"
  using assms
proof (induction n arbitrary: m)
  case 0
  then show ?case by (simp add: yields_def)
next
  case (Suc n)
  have "yields (for_down body n m') L (f 0)"
    if "length m' = L" "bit_at m' = f n" for m'
    by (rule Suc.IH) (use Suc.prems(1) that in auto)
  moreover have "yields (body n m) L (f n)"
    using Suc.prems by simp
  ultimately show ?case by (auto intro: yields_bind)
qed

section \<open>Byte operations in the calculus\<close>

lemma mem_get_in [simp]: "i < length m \<Longrightarrow> mem_get m i = Some (m ! i)"
  by (simp add: mem_get_def)

lemma mem_set_bits:
  assumes "i < length m"
  shows "yields (mem_set m i b) (length m)
           (\<lambda>p. if p div 8 = i then bit b (7 - p mod 8) else bit_at m p)"
  using assms by (auto simp: yields_def mem_set_def bit_at_def fun_eq_iff)

lemma nth_splice:
  assumes "di + n \<le> length m" and "length xs = n" and "i < length m"
  shows "(take di m @ xs @ drop (di + n) m) ! i
       = (if di \<le> i \<and> i < di + n then xs ! (i - di) else m ! i)"
  using assms by (auto simp: nth_append min_def)

lemma mem_move_bits:
  assumes "si + n \<le> length s" and "di + n \<le> length m"
  shows "yields (mem_move n s si m di) (length m)
           (blit (8 * n) (8 * si) (8 * di) (bit_at s) (bit_at m))"
proof (rule yieldsI)
  let ?r = "take di m @ take n (drop si s) @ drop (di + n) m"
  show "mem_move n s si m di = Some ?r" using assms by (simp add: mem_move_def)
  show len: "length ?r = length m" using assms by simp
  show "bit_at ?r = blit (8 * n) (8 * si) (8 * di) (bit_at s) (bit_at m)"
  proof (rule ext)
    fix p
    have nth: "p div 8 < length m \<Longrightarrow> ?r ! (p div 8)
        = (if di \<le> p div 8 \<and> p div 8 < di + n then take n (drop si s) ! (p div 8 - di)
           else m ! (p div 8))"
      by (rule nth_splice) (use assms in auto)
    have range: "8 * di \<le> p \<and> p < 8 * di + 8 * n \<longleftrightarrow> di \<le> p div 8 \<and> p div 8 < di + n"
      by linarith
    show "bit_at ?r p = blit (8 * n) (8 * si) (8 * di) (bit_at s) (bit_at m) p"
    proof (cases "di \<le> p div 8 \<and> p div 8 < di + n")
      case True
      then have dp: "8 * di \<le> p" by linarith
      have sd: "(8 * si + (p - 8 * di)) div 8 = si + (p div 8 - di)"
        using dp by linarith
      have sm: "(8 * si + (p - 8 * di)) mod 8 = p mod 8"
      proof -
        from dp obtain k where "p = 8 * di + k" by (auto simp: le_iff_add)
        then show ?thesis by simp
      qed
      have "p div 8 - di < n" using True by linarith
      then have src: "take n (drop si s) ! (p div 8 - di) = s ! (si + (p div 8 - di))"
          "si + (p div 8 - di) < length s"
        using assms by simp_all
      show ?thesis
        using True range nth len assms sd sm src by (simp add: blit_def bit_at_def del: length_append)
    next
      case False
      then have "bit_at ?r p = bit_at m p"
        using nth len unfolding bit_at_def by (auto simp del: length_append)
      moreover have "blit (8 * n) (8 * si) (8 * di) (bit_at s) (bit_at m) p = bit_at m p"
        using False range by (intro blit_out) linarith
      ultimately show ?thesis by simp
    qed
  qed
qed

lemma and_7_eq_mod_8: "x AND 7 = x mod 8" for x :: nat
proof -
  have "x AND mask 3 = take_bit 3 x" by (simp add: take_bit_eq_mask)
  then show ?thesis by (simp add: mask_eq_exp_minus_1 take_bit_eq_mod)
qed

end
