(* ===== verification/Bitcopy.thy ===== *)
theory Bitcopy
  imports Prelude
begin

text \<open>
  src/bitcopy.c: the copy of a bit range, the one primitive of the machine.

  \<open>bitcpy\<close> chooses between a bit-by-bit loop in the safe direction, a byte copy, a byte
  copy behind an aligned head and a sliding byte window. The pointers \<open>src_org\<close> and
  \<open>dst_org\<close> are compared by the code; the model says whether they are the same buffer
  (\<open>Aliased\<close>: the source is read from the buffer being written) or two disjoint ones
  (\<open>Separate\<close>). Offsets and lengths are \<open>size_t\<close> values; all of them stay below the
  size of a buffer in bits, so they are natural numbers here.

  The main results: every path is the same bit-range move (\<open>bitcpy_spec\<close>), which reads
  all bits before it writes any, and no path leaves the two buffers.
\<close>

section \<open>Single bits\<close>

definition bit_get_ptr :: "mem \<Rightarrow> nat \<Rightarrow> u32 option" where
  "bit_get_ptr p bitpos = do {
     byte \<leftarrow> mem_get p (bitpos div 8);
     let shift = 7 - bitpos mod 8;
     Some (drop_bit shift (ucast byte) AND 1)
   }"

definition bit_set_ptr :: "mem \<Rightarrow> nat \<Rightarrow> u32 \<Rightarrow> mem option" where
  "bit_set_ptr p bitpos v = do {
     b \<leftarrow> mem_get p (bitpos div 8);
     let shift = 7 - bitpos mod 8;
     let mask = (push_bit shift 1 :: u8);
     mem_set p (bitpos div 8) (if v \<noteq> 0 then b OR mask else b AND NOT mask)
   }"

text \<open>
  The contract of single-bit access, which the loops of every component rely on, as an
  interface. A bit writer may ignore all of \<open>v\<close> but whether it is zero.
\<close>

locale bit_writer =
  fixes setb :: "mem \<Rightarrow> nat \<Rightarrow> u32 \<Rightarrow> mem option"
  assumes setb_bits: "p < 8 * length m \<Longrightarrow> yields (setb m p v) (length m) ((bit_at m)(p := (v \<noteq> 0)))"
begin

text \<open>A loop that writes bit \<open>i\<close> of a value at position \<open>at + i\<close> stores the value there.\<close>

lemma write_loop:
  assumes "at + width \<le> 8 * length m"
  shows "yields (for_up (\<lambda>i m. setb m (at + i) (g i)) 0 width m) (length m)
           (blit width 0 at (\<lambda>i. g i \<noteq> 0) (bit_at m))"
proof -
  have "yields (for_up (\<lambda>i m. setb m (at + i) (g i)) 0 width m) (length m)
      (blit (0 + width) 0 at (\<lambda>i. g i \<noteq> 0) (bit_at m))"
  proof (rule yields_for_up)
    fix i m'
    assume i: "i < 0 + width" and len: "length m' = length m"
      and bits: "bit_at m' = blit i 0 at (\<lambda>i. g i \<noteq> 0) (bit_at m)"
    have "yields (setb m' (at + i) (g i)) (length m') ((bit_at m')(at + i := (g i \<noteq> 0)))"
      by (rule setb_bits) (use i len assms in simp)
    then show "yields (setb m' (at + i) (g i)) (length m)
        (blit (Suc i) 0 at (\<lambda>i. g i \<noteq> 0) (bit_at m))"
      by (simp add: blit_Suc len bits)
  qed simp_all
  then show ?thesis by simp
qed

end

locale bit_store = bit_writer setb
  for setb :: "mem \<Rightarrow> nat \<Rightarrow> u32 \<Rightarrow> mem option" +
  fixes getb :: "mem \<Rightarrow> nat \<Rightarrow> u32 option"
  assumes getb_bit: "p < 8 * length m \<Longrightarrow> getb m p = Some (of_bool (bit_at m p))"
begin

lemma get_set_same:
  assumes "p < 8 * length m"
  shows "Option.bind (setb m p v) (\<lambda>m'. getb m' p) = Some (of_bool (v \<noteq> 0))"
  using setb_bits [OF assms, of v] assms by (auto simp: getb_bit elim!: yieldsE)

lemma get_set_other:
  assumes "p < 8 * length m" and "q < 8 * length m" and "p \<noteq> q"
  shows "Option.bind (setb m p v) (\<lambda>m'. getb m' q) = getb m q"
  using setb_bits [OF assms(1), of v] assms by (auto simp: getb_bit elim!: yieldsE)

end

lemma drop_bit_and_1: "drop_bit n w AND 1 = of_bool (bit w n)" for w :: "'a::len word"
  by (simp add: and_one_eq mod_2_eq_odd bit_iff_odd_drop_bit)

lemma bit_mask_u8: "s < 8 \<Longrightarrow> bit (push_bit s 1 :: u8) k \<longleftrightarrow> k = s"
  by (auto simp: bit_simps)

lemma bit_position_eq: "(q::nat) = p \<longleftrightarrow> q div 8 = p div 8 \<and> 7 - q mod 8 = 7 - p mod 8"
proof
  assume "q div 8 = p div 8 \<and> 7 - q mod 8 = 7 - p mod 8"
  moreover have "q mod 8 < 8" "p mod 8 < 8" by simp_all
  ultimately have "q div 8 = p div 8" "q mod 8 = p mod 8" by linarith+
  then show "q = p" by (metis div_mult_mod_eq)
qed simp

interpretation ptr_bits: bit_store bit_set_ptr bit_get_ptr
proof unfold_locales
  fix p :: nat and m :: mem and v :: u32
  assume p: "p < 8 * length m"
  then have i: "p div 8 < length m" by linarith
  show "bit_get_ptr m p = Some (of_bool (bit_at m p))"
    using i less_imp_diff_less [of 7 32 "p mod 8"]
    by (simp add: bit_get_ptr_def bit_at_def drop_bit_and_1 bit_ucast_iff)
  show "yields (bit_set_ptr m p v) (length m) ((bit_at m)(p := (v \<noteq> 0)))"
    unfolding bit_set_ptr_def using i
    by (auto simp: Let_def fun_eq_iff bit_at_def bit_position_eq [of _ p] bit_simps bit_mask_u8
        intro!: yields_cong [OF mem_set_bits])
qed

section \<open>The bit-by-bit copy\<close>

datatype src_org = Aliased | Separate mem

definition src_mem :: "src_org \<Rightarrow> mem \<Rightarrow> mem" where
  "src_mem so dst = (case so of Aliased \<Rightarrow> dst | Separate s \<Rightarrow> s)"

definition copy_bit :: "src_org \<Rightarrow> nat \<Rightarrow> nat \<Rightarrow> nat \<Rightarrow> mem \<Rightarrow> mem option" where
  "copy_bit so src_bit dst_bit i dst = do {
     v \<leftarrow> bit_get_ptr (src_mem so dst) (src_bit + i);
     bit_set_ptr dst (dst_bit + i) v
   }"

definition bitcpy_overlap_fallback :: "nat \<Rightarrow> src_org \<Rightarrow> nat \<Rightarrow> mem \<Rightarrow> nat \<Rightarrow> mem option" where
  "bitcpy_overlap_fallback n_bits so src_bit dst dst_bit =
     (if dst_bit < src_bit then for_up (copy_bit so src_bit dst_bit) 0 n_bits dst
      else for_down (copy_bit so src_bit dst_bit) n_bits dst)"

section \<open>The byte paths\<close>

definition keep_hi :: "u8 list" where
  "keep_hi = [0x00, 0x80, 0xC0, 0xE0, 0xF0, 0xF8, 0xFC, 0xFE, 0xFF]"

definition keep_lo :: "u8 list" where
  "keep_lo = [0xFF, 0x7F, 0x3F, 0x1F, 0x0F, 0x07, 0x03, 0x01, 0x00]"

text \<open>
  Whole bytes by \<open>memmove\<close>, then the last \<open>n_bits mod 8\<close> bits under a mask: the end of
  both byte-copying paths.
\<close>

definition copy_bytes :: "nat \<Rightarrow> src_org \<Rightarrow> nat \<Rightarrow> mem \<Rightarrow> nat \<Rightarrow> mem option" where
  "copy_bytes nbytes so src dst0 dst =
     (if nbytes \<noteq> 0 then mem_move nbytes (src_mem so dst0) src dst0 dst else Some dst0)"

definition copy_tail :: "nat \<Rightarrow> src_org \<Rightarrow> nat \<Rightarrow> mem \<Rightarrow> nat \<Rightarrow> mem option" where
  "copy_tail tail so src dst0 dst =
     (if tail \<noteq> 0 then do {
        let mask = keep_hi ! tail;
        d \<leftarrow> mem_get dst0 dst;
        s \<leftarrow> mem_get (src_mem so dst0) src;
        mem_set dst0 dst ((d AND NOT mask) OR (s AND mask))
      } else Some dst0)"

definition bitcpy_aligned :: "nat \<Rightarrow> src_org \<Rightarrow> nat \<Rightarrow> mem \<Rightarrow> nat \<Rightarrow> mem option" where
  "bitcpy_aligned n_bits so src dst0 dst = do {
     let nbytes = n_bits div 8;
     dst1 \<leftarrow> copy_bytes nbytes so src dst0 dst;
     copy_tail (n_bits mod 8) so (src + nbytes) dst1 (dst + nbytes)
   }"

definition copy_head :: "nat \<Rightarrow> src_org \<Rightarrow> nat \<Rightarrow> mem \<Rightarrow> nat \<Rightarrow> nat \<Rightarrow> mem option" where
  "copy_head head so src dst0 dst dst_mod = do {
     b \<leftarrow> mem_get (src_mem so dst0) src;
     let s = b AND keep_lo ! dst_mod;
     let mask_keep = keep_hi ! dst_mod OR keep_lo ! (dst_mod + head);
     d \<leftarrow> mem_get dst0 dst;
     mem_set dst0 dst ((d AND mask_keep) OR (s AND NOT mask_keep))
   }"

definition bitcpy_same_offset :: "nat \<Rightarrow> src_org \<Rightarrow> nat \<Rightarrow> mem \<Rightarrow> nat \<Rightarrow> nat \<Rightarrow> mem option" where
  "bitcpy_same_offset n_bits so src dst0 dst dst_mod =
     (if dst_mod \<noteq> 0 then do {
        let head = (if 8 - dst_mod > n_bits then n_bits else 8 - dst_mod);
        dst1 \<leftarrow> copy_head head so src dst0 dst dst_mod;
        bitcpy_aligned (n_bits - head) so (Suc src) dst1 (Suc dst)
      } else bitcpy_aligned n_bits so src dst0 dst)"

text \<open>The sliding window: one destination byte from two neighbouring source bytes.\<close>

fun sliding :: "src_org \<Rightarrow> nat \<Rightarrow> nat \<Rightarrow> nat \<Rightarrow> nat \<Rightarrow> nat \<Rightarrow> nat \<Rightarrow> mem \<Rightarrow> mem option" where
  "sliding so src_mod n_bits src dst src_bit dst_bit dst0 =
     (if 8 \<le> n_bits then do {
        s0 \<leftarrow> mem_get (src_mem so dst0) src;
        let c = push_bit src_mod s0;
        c \<leftarrow> (if src_mod \<noteq> 0
              then do { s1 \<leftarrow> mem_get (src_mem so dst0) (Suc src); Some (c OR drop_bit (8 - src_mod) s1) }
              else Some c);
        dst1 \<leftarrow> mem_set dst0 dst c;
        sliding so src_mod (n_bits - 8) (Suc src) (Suc dst) (src_bit + 8) (dst_bit + 8) dst1
      }
      else if n_bits \<noteq> 0 then bitcpy_overlap_fallback n_bits so src_bit dst0 dst_bit
      else Some dst0)"

declare sliding.simps [simp del]

definition bitcpy_shifted :: "nat \<Rightarrow> src_org \<Rightarrow> nat \<Rightarrow> mem \<Rightarrow> nat \<Rightarrow> mem option" where
  "bitcpy_shifted n_bits so src_bit dst0 dst_bit = do {
     let dst_mod = dst_bit mod 8;
     let head = (if dst_mod \<noteq> 0 then (if 8 - dst_mod > n_bits then n_bits else 8 - dst_mod) else 0);
     dst1 \<leftarrow> (if dst_mod \<noteq> 0 then bitcpy_overlap_fallback head so src_bit dst0 dst_bit else Some dst0);
     sliding so ((src_bit + head) mod 8) (n_bits - head) ((src_bit + head) div 8)
       ((dst_bit + head) div 8) (src_bit + head) (dst_bit + head) dst1
   }"

section \<open>The whole primitive\<close>

definition bitcpy :: "nat \<Rightarrow> src_org \<Rightarrow> nat \<Rightarrow> mem \<Rightarrow> nat \<Rightarrow> mem option" where
  "bitcpy n_bits so src_bit dst0 dst_bit =
     (if n_bits = 0 then Some dst0
      else if so = Aliased \<and> src_bit = dst_bit then Some dst0
      else if n_bits < 8 then bitcpy_overlap_fallback n_bits so src_bit dst0 dst_bit
      else if so = Aliased \<and> src_bit < dst_bit + n_bits \<and> dst_bit < src_bit + n_bits
      then bitcpy_overlap_fallback n_bits so src_bit dst0 dst_bit
      else if (src_bit OR dst_bit) AND 7 = 0
      then bitcpy_aligned n_bits so (src_bit div 8) dst0 (dst_bit div 8)
      else if src_bit mod 8 = dst_bit mod 8
      then bitcpy_same_offset n_bits so (src_bit div 8) dst0 (dst_bit div 8) (dst_bit mod 8)
      else bitcpy_shifted n_bits so src_bit dst0 dst_bit)"

section \<open>The contract of a copy\<close>

text \<open>
  \<open>copied_range r n so sb dst db\<close>: the operation \<open>r\<close> succeeds, and leaves in the destination
  buffer \<open>dst\<close> the \<open>n\<close> source bits from \<open>sb\<close>, as they were before, at \<open>db\<close>, and nothing
  else changed.
\<close>

definition copied_range :: "mem option \<Rightarrow> nat \<Rightarrow> src_org \<Rightarrow> nat \<Rightarrow> mem \<Rightarrow> nat \<Rightarrow> bool" where
  "copied_range r n so sb dst db \<longleftrightarrow>
     yields r (length dst) (blit n sb db (bit_at (src_mem so dst)) (bit_at dst))"

definition in_range :: "nat \<Rightarrow> src_org \<Rightarrow> nat \<Rightarrow> mem \<Rightarrow> nat \<Rightarrow> bool" where
  "in_range n so sb dst db \<longleftrightarrow> sb + n \<le> 8 * length (src_mem so dst) \<and> db + n \<le> 8 * length dst"

definition disjoint :: "nat \<Rightarrow> src_org \<Rightarrow> nat \<Rightarrow> nat \<Rightarrow> bool" where
  "disjoint n so sb db \<longleftrightarrow> so = Separate (src_mem so []) \<or> sb + n \<le> db \<or> db + n \<le> sb"

lemma src_mem_simps [simp]: "src_mem Aliased d = d" "src_mem (Separate s) d = s"
  by (simp_all add: src_mem_def)

lemma disjoint_simps [simp]:
  "disjoint n Aliased sb db \<longleftrightarrow> sb + n \<le> db \<or> db + n \<le> sb" "disjoint n (Separate s) sb db"
  by (simp_all add: disjoint_def)

lemma length_src_mem: "length d1 = length d \<Longrightarrow> length (src_mem so d1) = length (src_mem so d)"
  by (cases so) simp_all

text \<open>
  A copy in two stages: while source and destination are disjoint, the second stage
  still finds its source bits.
\<close>

lemma copied_seq:
  assumes "copied_range r n1 so sb dst db"
    and "\<And>d1. length d1 = length dst \<Longrightarrow> copied_range (k d1) n2 so (sb + n1) d1 (db + n1)"
    and disj: "disjoint (n1 + n2) so sb db"
  shows "copied_range (Option.bind r k) (n1 + n2) so sb dst db"
  unfolding copied_range_def
proof (rule yields_bind)
  let ?S = "bit_at (src_mem so dst)" and ?g = "blit n1 sb db (bit_at (src_mem so dst)) (bit_at dst)"
  show "yields r (length dst) ?g" using assms(1) by (simp add: copied_range_def)
  fix d1 assume len: "length d1 = length dst" and bits: "bit_at d1 = ?g"
  have same: "bit_at (src_mem so d1) (sb + n1 + i) = ?S (sb + n1 + i)" if "i < n2" for i
    using disj bits that by (cases so) (auto simp: blit_def)
  have "blit n2 (sb + n1) (db + n1) (bit_at (src_mem so d1)) ?g = blit (n1 + n2) sb db ?S ?g"
    by (subst blit_cong [where f' = ?S]) (use same in \<open>auto simp: blit_def fun_eq_iff\<close>)
  also have "\<dots> = blit (n1 + n2) sb db ?S (bit_at dst)"
    by (auto simp: blit_def fun_eq_iff)
  finally show "yields (k d1) (length dst) (blit (n1 + n2) sb db ?S (bit_at dst))"
    using assms(2) [OF len] len bits by (simp add: copied_range_def)
qed

lemma copied_nothing: "copied_range (Some dst) 0 so sb dst db"
  by (simp add: copied_range_def yields_def)

section \<open>The bit-by-bit copy meets the contract\<close>

lemma copy_bit_step:
  assumes "sb + i < 8 * length (src_mem so m)" and "db + i < 8 * length m"
  shows "yields (copy_bit so sb db i m) (length m)
           ((bit_at m)(db + i := bit_at (src_mem so m) (sb + i)))"
  unfolding copy_bit_def
  using ptr_bits.getb_bit [OF assms(1)]
    ptr_bits.setb_bits [OF assms(2), of "of_bool (bit_at (src_mem so m) (sb + i))"] by simp

lemma fallback_copied:
  assumes "in_range n so sb dst db"
  shows "copied_range (bitcpy_overlap_fallback n so sb dst db) n so sb dst db"
proof (cases "db < sb")
  case True
  let ?S = "bit_at (src_mem so dst)" and ?G = "bit_at dst"
  have "yields (for_up (copy_bit so sb db) 0 n dst) (length dst) (blit (0 + n) sb db ?S ?G)"
  proof (rule yields_for_up)
    fix i m assume i: "i < 0 + n" and len: "length m = length dst" and bits: "bit_at m = blit i sb db ?S ?G"
    have "bit_at (src_mem so m) (sb + i) = ?S (sb + i)"
      using True bits by (cases so) (auto simp: blit_def)
    then show "yields (copy_bit so sb db i m) (length dst) (blit (Suc i) sb db ?S ?G)"
      using copy_bit_step [of sb i so m db] assms i len length_src_mem [OF len, of so]
      by (simp add: in_range_def blit_Suc bits)
  qed simp_all
  then show ?thesis using True by (simp add: copied_range_def bitcpy_overlap_fallback_def)
next
  case False
  let ?S = "bit_at (src_mem so dst)" and ?G = "bit_at dst"
  let ?f = "\<lambda>i. blit (n - i) (sb + i) (db + i) ?S ?G"
  have "yields (for_down (copy_bit so sb db) n dst) (length dst) (?f 0)"
  proof (rule yields_for_down)
    fix i m assume i: "i < n" and len: "length m = length dst" and bits: "bit_at m = ?f (Suc i)"
    have src: "bit_at (src_mem so m) (sb + i) = ?S (sb + i)"
      using False bits by (cases so) (auto simp: blit_def)
    have "?f i = (?f (Suc i))(db + i := ?S (sb + i))"
      using i blit_Suc_front [of "n - Suc i" "sb + i" "db + i" ?S ?G] by (simp add: Suc_diff_Suc)
    then show "yields (copy_bit so sb db i m) (length dst) (?f i)"
      using copy_bit_step [of sb i so m db] assms i len length_src_mem [OF len, of so]
      by (simp add: in_range_def bits src)
  qed simp_all
  then show ?thesis using False by (simp add: copied_range_def bitcpy_overlap_fallback_def)
qed

section \<open>The byte paths meet the contract\<close>

text \<open>Bit \<open>7 - j\<close> is the \<open>j\<close>-th bit of a byte in the order of the space.\<close>

lemma all_less_Suc: "(\<forall>i < Suc n. P i) \<longleftrightarrow> P n \<and> (\<forall>i < n. P i)"
  by (auto simp: less_Suc_eq)

lemma keep_hi_bit:
  assumes "k \<le> 8" and "j < 8"
  shows "bit (keep_hi ! k) (7 - j) \<longleftrightarrow> j < k"
proof -
  have "\<forall>k \<in> set [0..<9]. \<forall>j \<in> set [0..<8]. bit (keep_hi ! k) (7 - j) \<longleftrightarrow> j < k"
    by (simp add: keep_hi_def upt_rec)
  then show ?thesis using assms by auto
qed

lemma keep_lo_bit:
  assumes "k \<le> 8" and "j < 8"
  shows "bit (keep_lo ! k) (7 - j) \<longleftrightarrow> k \<le> j"
proof -
  have "\<forall>k \<in> set [0..<9]. \<forall>j \<in> set [0..<8]. bit (keep_lo ! k) (7 - j) \<longleftrightarrow> k \<le> j"
    by (simp add: keep_lo_def upt_rec)
  then show ?thesis using assms by auto
qed

lemma bytes_copied:
  assumes "src + nbytes \<le> length (src_mem so dst0)" and "dst + nbytes \<le> length dst0"
  shows "copied_range (copy_bytes nbytes so src dst0 dst) (8 * nbytes) so (8 * src) dst0 (8 * dst)"
  using mem_move_bits [OF assms] by (auto simp: copied_range_def copy_bytes_def yields_def)

text \<open>A byte whose bits \<open>a .. a + w - 1\<close> are source bits and whose other bits are kept.\<close>

lemma merged_byte_copied:
  assumes dst: "dst < length dst0" and aw: "a + w \<le> 8"
    and new: "\<And>j. \<lbrakk>a \<le> j; j < a + w\<rbrakk> \<Longrightarrow> bit c (7 - j) \<longleftrightarrow> bit_at (src_mem so dst0) (sb + (j - a))"
    and old: "\<And>j. \<lbrakk>j < 8; j < a \<or> a + w \<le> j\<rbrakk> \<Longrightarrow> bit c (7 - j) \<longleftrightarrow> bit (dst0 ! dst) (7 - j)"
  shows "copied_range (mem_set dst0 dst c) w so sb dst0 (8 * dst + a)"
  unfolding copied_range_def
proof (rule yields_cong [OF mem_set_bits [OF dst]], rule ext)
  fix p
  show "(if p div 8 = dst then bit c (7 - p mod 8) else bit_at dst0 p)
      = blit w sb (8 * dst + a) (bit_at (src_mem so dst0)) (bit_at dst0) p"
  proof (cases "p div 8 = dst")
    case True
    then obtain j where p: "p = 8 * dst + j" and j: "j < 8"
      by (metis mod_less_divisor mult_div_mod_eq zero_less_numeral)
    then show ?thesis using new [of j] old [OF j] dst by (auto simp: blit_def bit_at_byte)
  next
    case False
    then have "p < 8 * dst + a \<or> 8 * dst + a + w \<le> p" using aw by linarith
    then show ?thesis using False by (simp add: blit_out)
  qed
qed

lemma tail_copied:
  assumes "tail < 8" and "tail = 0 \<or> (src < length (src_mem so dst0) \<and> dst < length dst0)"
  shows "copied_range (copy_tail tail so src dst0 dst) tail so (8 * src) dst0 (8 * dst)"
proof (cases "tail = 0")
  case True
  then show ?thesis by (simp add: copy_tail_def copied_nothing)
next
  case False
  let ?c = "(dst0 ! dst AND NOT (keep_hi ! tail)) OR (src_mem so dst0 ! src AND keep_hi ! tail)"
  have "copied_range (mem_set dst0 dst ?c) tail so (8 * src) dst0 (8 * dst + 0)"
    using assms False
    by (intro merged_byte_copied) (auto simp: bit_simps keep_hi_bit bit_at_byte)
  then show ?thesis using assms False by (simp add: copy_tail_def Let_def)
qed

lemma aligned_copied:
  assumes range: "8 * src + n \<le> 8 * length (src_mem so dst0)" "8 * dst + n \<le> 8 * length dst0"
    and disj: "disjoint n so (8 * src) (8 * dst)"
  shows "copied_range (bitcpy_aligned n so src dst0 dst) n so (8 * src) dst0 (8 * dst)"
proof -
  have n: "8 * (n div 8) + n mod 8 = n" by simp
  have "copied_range (bitcpy_aligned n so src dst0 dst) (8 * (n div 8) + n mod 8) so (8 * src) dst0 (8 * dst)"
    unfolding bitcpy_aligned_def Let_def
  proof (rule copied_seq)
    show "copied_range (copy_bytes (n div 8) so src dst0 dst) (8 * (n div 8)) so (8 * src) dst0 (8 * dst)"
      by (rule bytes_copied) (use range in linarith)+
    fix d1 :: mem assume len: "length d1 = length dst0"
    have "copied_range (copy_tail (n mod 8) so (src + n div 8) d1 (dst + n div 8)) (n mod 8) so
        (8 * (src + n div 8)) d1 (8 * (dst + n div 8))"
    proof (rule tail_copied)
      show "n mod 8 = 0 \<or> src + n div 8 < length (src_mem so d1) \<and> dst + n div 8 < length d1"
        unfolding length_src_mem [OF len] len using range by presburger
    qed simp
    then show "copied_range (copy_tail (n mod 8) so (src + n div 8) d1 (dst + n div 8)) (n mod 8) so
        (8 * src + 8 * (n div 8)) d1 (8 * dst + 8 * (n div 8))"
      by (simp add: algebra_simps)
  qed (use disj n in simp)
  then show ?thesis using n by simp
qed

lemma head_copied:
  assumes "src < length (src_mem so dst0)" and "dst < length dst0" and "a + w \<le> 8"
  shows "copied_range (copy_head w so src dst0 dst a) w so (8 * src + a) dst0 (8 * dst + a)"
proof -
  let ?keep = "keep_hi ! a OR keep_lo ! (a + w)"
  let ?c = "(dst0 ! dst AND ?keep) OR ((src_mem so dst0 ! src AND keep_lo ! a) AND NOT ?keep)"
  have keep: "bit ?keep (7 - j) \<longleftrightarrow> j < a \<or> a + w \<le> j" if "j < 8" for j
    using assms(3) that by (simp add: bit_or_iff keep_hi_bit keep_lo_bit)
  have "copied_range (mem_set dst0 dst ?c) w so (8 * src + a) dst0 (8 * dst + a)"
  proof (rule merged_byte_copied [OF assms(2,3)])
    fix j assume j: "a \<le> j" "j < a + w"
    then have "bit ?c (7 - j) \<longleftrightarrow> bit (src_mem so dst0 ! src) (7 - j)"
      using assms(3) keep [of j] less_imp_diff_less [of 7 8 j]
      by (simp add: bit_and_iff bit_or_iff bit_not_iff keep_lo_bit)
    also have "\<dots> \<longleftrightarrow> bit_at (src_mem so dst0) (8 * src + a + (j - a))"
      using j assms bit_at_byte [of src "src_mem so dst0" j] by simp
    finally show "bit ?c (7 - j) \<longleftrightarrow> bit_at (src_mem so dst0) (8 * src + a + (j - a))" .
  next
    fix j assume j: "j < 8" "j < a \<or> a + w \<le> j"
    then show "bit ?c (7 - j) \<longleftrightarrow> bit (dst0 ! dst) (7 - j)"
      using keep [of j] by (auto simp: bit_and_iff bit_or_iff bit_not_iff)
  qed
  then show ?thesis using assms by (simp add: copy_head_def Let_def)
qed

lemma same_offset_copied:
  assumes range: "8 * src + a + n \<le> 8 * length (src_mem so dst0)" "8 * dst + a + n \<le> 8 * length dst0"
    and a: "a < 8" and n: "8 \<le> n" and disj: "disjoint n so (8 * src + a) (8 * dst + a)"
  shows "copied_range (bitcpy_same_offset n so src dst0 dst a) n so (8 * src + a) dst0 (8 * dst + a)"
proof (cases "a = 0")
  case True
  then show ?thesis using aligned_copied [of src n so dst0 dst] range disj
    by (simp add: bitcpy_same_offset_def)
next
  case False
  have split: "8 - a + (n - (8 - a)) = n" using a n by simp
  have "copied_range (Option.bind (copy_head (8 - a) so src dst0 dst a)
      (\<lambda>d1. bitcpy_aligned (n - (8 - a)) so (Suc src) d1 (Suc dst)))
      (8 - a + (n - (8 - a))) so (8 * src + a) dst0 (8 * dst + a)"
  proof (rule copied_seq)
    show "copied_range (copy_head (8 - a) so src dst0 dst a) (8 - a) so (8 * src + a) dst0 (8 * dst + a)"
      by (rule head_copied) (use range a n in linarith)+
    fix d1 :: mem assume len: "length d1 = length dst0"
    have at: "8 * src + a + (8 - a) = 8 * Suc src" "8 * dst + a + (8 - a) = 8 * Suc dst"
      using a by simp_all
    show "copied_range (bitcpy_aligned (n - (8 - a)) so (Suc src) d1 (Suc dst)) (n - (8 - a)) so
        (8 * src + a + (8 - a)) d1 (8 * dst + a + (8 - a))"
      unfolding at
    proof (rule aligned_copied)
      show "disjoint (n - (8 - a)) so (8 * Suc src) (8 * Suc dst)"
        using disj a n by (cases so) auto
    qed (use range a n length_src_mem [OF len, of so] len in simp_all)
  qed (use disj split in simp)
  moreover have "\<not> 8 - a > n" using n by simp
  ultimately show ?thesis using False split by (simp only: bitcpy_same_offset_def Let_def if_False if_True simp_thms)
qed

section \<open>The sliding window meets the contract\<close>

lemma window_bit:
  fixes s0 s1 :: u8
  assumes "0 < m" and "m < 8" and "j < 8"
  shows "bit (push_bit m s0 OR drop_bit (8 - m) s1) (7 - j)
       \<longleftrightarrow> (if j + m < 8 then bit s0 (7 - (j + m)) else bit s1 (7 - (j + m - 8)))"
proof (cases "j + m < 8")
  case True
  have "\<not> bit s1 (8 - m + (7 - j))"
    using True bit_imp_le_length [of s1 "8 - m + (7 - j)"] by auto
  moreover have "m \<le> 7 - j" "7 - j < 8" using True by linarith+
  ultimately show ?thesis using True by (simp add: bit_simps)
next
  case False
  have "8 - m + (7 - j) = 7 - (j + m - 8)" "\<not> m \<le> 7 - j" using False assms by linarith+
  then show ?thesis using False assms by (simp add: bit_simps)
qed

text \<open>One iteration: the byte read at bit \<open>8 * src + m\<close>.\<close>

definition window_byte :: "mem \<Rightarrow> nat \<Rightarrow> nat \<Rightarrow> u8" where
  "window_byte s m src =
     (if m \<noteq> 0 then push_bit m (s ! src) OR drop_bit (8 - m) (s ! Suc src) else s ! src)"

lemma window_byte_bit:
  assumes "m < 8" and "8 * src + m + 8 \<le> 8 * length s" and "j < 8"
  shows "bit (window_byte s m src) (7 - j) \<longleftrightarrow> bit_at s (8 * src + m + j)"
proof (cases "j + m < 8")
  case True
  then show ?thesis
    using assms bit_at_byte [of src s "j + m"] window_bit [of m j]
    by (auto simp: window_byte_def ac_simps)
next
  case False
  then have "bit_at s (8 * Suc src + (j + m - 8)) \<longleftrightarrow> bit (s ! Suc src) (7 - (j + m - 8))"
    using assms by (intro bit_at_byte) linarith+
  moreover have "8 * Suc src + (j + m - 8) = 8 * src + m + j" "m \<noteq> 0" using False assms by simp_all
  ultimately show ?thesis
    using False assms window_bit [of m j "s ! src" "s ! Suc src"] by (simp only: window_byte_def) simp
qed

lemma window_copied:
  assumes "m < 8" and "8 * src + m + 8 \<le> 8 * length (src_mem so dst0)" and "dst < length dst0"
  shows "copied_range (mem_set dst0 dst (window_byte (src_mem so dst0) m src)) 8 so
           (8 * src + m) dst0 (8 * dst)"
proof -
  have "copied_range (mem_set dst0 dst (window_byte (src_mem so dst0) m src)) 8 so
      (8 * src + m) dst0 (8 * dst + 0)"
    using assms by (intro merged_byte_copied) (auto simp: window_byte_bit)
  then show ?thesis by simp
qed

lemma sliding_unfold:
  assumes "m < 8" and "8 * src + m + n \<le> 8 * length (src_mem so dst0)" and "8 \<le> n"
  shows "sliding so m n src dst sb db dst0 =
    Option.bind (mem_set dst0 dst (window_byte (src_mem so dst0) m src))
      (sliding so m (n - 8) (Suc src) (Suc dst) (sb + 8) (db + 8))"
proof -
  have "src < length (src_mem so dst0)" "m \<noteq> 0 \<Longrightarrow> Suc src < length (src_mem so dst0)"
    using assms by auto
  then show ?thesis
    using assms(3) by (subst sliding.simps) (auto simp: window_byte_def)
qed

lemma sliding_copied:
  assumes "m < 8" and "8 * src + m + n \<le> 8 * length (src_mem so dst0)" and "8 * dst + n \<le> 8 * length dst0"
    and "disjoint n so (8 * src + m) (8 * dst)"
  shows "copied_range (sliding so m n src dst (8 * src + m) (8 * dst) dst0) n so (8 * src + m) dst0 (8 * dst)"
  using assms
proof (induction n arbitrary: src dst dst0 rule: less_induct)
  case (less n)
  show ?case
  proof (cases "8 \<le> n")
    case True
    then have n: "8 + (n - 8) = n" by simp
    have "copied_range (Option.bind (mem_set dst0 dst (window_byte (src_mem so dst0) m src))
        (sliding so m (n - 8) (Suc src) (Suc dst) (8 * src + m + 8) (8 * dst + 8)))
        (8 + (n - 8)) so (8 * src + m) dst0 (8 * dst)"
    proof (rule copied_seq)
      show "copied_range (mem_set dst0 dst (window_byte (src_mem so dst0) m src)) 8 so
          (8 * src + m) dst0 (8 * dst)"
        using less.prems True by (intro window_copied) auto
      fix d1 :: mem assume len: "length d1 = length dst0"
      have at: "8 * src + m + 8 = 8 * Suc src + m" "8 * dst + 8 = 8 * Suc dst" by simp_all
      show "copied_range (sliding so m (n - 8) (Suc src) (Suc dst) (8 * src + m + 8) (8 * dst + 8) d1)
          (n - 8) so (8 * src + m + 8) d1 (8 * dst + 8)"
        unfolding at
      proof (rule less.IH)
        show "disjoint (n - 8) so (8 * Suc src + m) (8 * Suc dst)"
          using less.prems(4) True by (cases so) auto
      qed (use less.prems True len length_src_mem [OF len, of so] in simp_all)
    qed (use less.prems n in simp)
    then show ?thesis using less.prems True n by (simp only: sliding_unfold)
  next
    case False
    then show ?thesis
      using less.prems fallback_copied [of n so "8 * src + m" dst0 "8 * dst"]
      by (subst sliding.simps) (auto simp: in_range_def copied_nothing)
  qed
qed

lemma shifted_copied:
  assumes range: "in_range n so sb dst0 db" and n: "8 \<le> n" and disj: "disjoint n so sb db"
  shows "copied_range (bitcpy_shifted n so sb dst0 db) n so sb dst0 db"
proof -
  define h where "h = (if db mod 8 \<noteq> 0 then 8 - db mod 8 else 0)"
  have h: "h \<le> 8" "h + (n - h) = n" using n by (auto simp: h_def)
  have db8: "(db + h) mod 8 = 0"
    unfolding h_def by (auto simp: mod_eq_0_iff_dvd) presburger
  have head: "(if db mod 8 \<noteq> 0 then (if 8 - db mod 8 > n then n else 8 - db mod 8) else 0) = h"
    using n by (simp add: h_def)
  have "copied_range (Option.bind
      (if db mod 8 \<noteq> 0 then bitcpy_overlap_fallback h so sb dst0 db else Some dst0)
      (sliding so ((sb + h) mod 8) (n - h) ((sb + h) div 8) ((db + h) div 8) (sb + h) (db + h)))
      (h + (n - h)) so sb dst0 db"
  proof (rule copied_seq)
    show "copied_range (if db mod 8 \<noteq> 0 then bitcpy_overlap_fallback h so sb dst0 db else Some dst0) h so sb dst0 db"
      using range h fallback_copied [of h so sb dst0 db]
      by (auto simp: in_range_def h_def copied_nothing)
    fix d1 :: mem assume len: "length d1 = length dst0"
    have eq: "8 * ((sb + h) div 8) + (sb + h) mod 8 = sb + h" "8 * ((db + h) div 8) = db + h"
      using db8 by (simp_all add: mult_div_mod_eq) presburger
    have "copied_range (sliding so ((sb + h) mod 8) (n - h) ((sb + h) div 8) ((db + h) div 8)
        (8 * ((sb + h) div 8) + (sb + h) mod 8) (8 * ((db + h) div 8)) d1) (n - h) so
        (8 * ((sb + h) div 8) + (sb + h) mod 8) d1 (8 * ((db + h) div 8))"
    proof (rule sliding_copied)
      show "disjoint (n - h) so (8 * ((sb + h) div 8) + (sb + h) mod 8) (8 * ((db + h) div 8))"
        unfolding eq using disj h by (cases so) auto
    qed (use range h len length_src_mem [OF len, of so] in \<open>auto simp: eq in_range_def\<close>)
    then show "copied_range (sliding so ((sb + h) mod 8) (n - h) ((sb + h) div 8) ((db + h) div 8)
        (sb + h) (db + h) d1) (n - h) so (sb + h) d1 (db + h)"
      unfolding eq .
  qed (use disj h in simp)
  then show ?thesis unfolding bitcpy_shifted_def Let_def head h(2) .
qed

section \<open>The whole primitive meets the contract\<close>

lemma or_and_7: "(x OR y) AND 7 = 0 \<longleftrightarrow> x mod 8 = 0 \<and> y mod 8 = 0" for x y :: nat
proof -
  have "(x OR y) AND 7 = (x AND 7) OR (y AND 7)" by (simp add: bit_eq_iff bit_simps) blast
  then show ?thesis by (simp add: and_7_eq_mod_8 or_eq_0_iff)
qed

lemma bitcpy_copied:
  assumes range: "in_range n so sb dst db"
  shows "copied_range (bitcpy n so sb dst db) n so sb dst db"
proof (cases "n = 0 \<or> (so = Aliased \<and> sb = db)")
  case True
  then show ?thesis by (auto simp: bitcpy_def copied_range_def yields_def)
next
  case nontrivial: False
  show ?thesis
  proof (cases "n < 8 \<or> (so = Aliased \<and> sb < db + n \<and> db < sb + n)")
    case True
    then show ?thesis using nontrivial fallback_copied [OF range] by (auto simp: bitcpy_def)
  next
    case False
    then have n: "8 \<le> n" and disj: "disjoint n so sb db" by (cases so; auto)+
    have sb: "8 * (sb div 8) + sb mod 8 = sb" and db: "8 * (db div 8) + db mod 8 = db" by simp_all
    have general: "bitcpy n so sb dst db =
        (if sb mod 8 = 0 \<and> db mod 8 = 0 then bitcpy_aligned n so (sb div 8) dst (db div 8)
         else if sb mod 8 = db mod 8
         then bitcpy_same_offset n so (sb div 8) dst (db div 8) (db mod 8)
         else bitcpy_shifted n so sb dst db)"
      using nontrivial False n by (auto simp: bitcpy_def or_and_7)
    consider "sb mod 8 = db mod 8" | "sb mod 8 \<noteq> db mod 8" by blast
    then show ?thesis
    proof cases
      case 1
      then show ?thesis
        using same_offset_copied [of "sb div 8" "db mod 8" n so dst "db div 8"]
          aligned_copied [of "sb div 8" n so dst "db div 8"] sb db n disj range general
        by (auto simp: in_range_def)
    next
      case 2
      then show ?thesis using shifted_copied [OF range n disj] general by auto
    qed
  qed
qed

section \<open>The interface of the primitive\<close>

text \<open>
  What the emulators rely on: copying within one memory moves the range and fails only
  outside the memory.
\<close>

locale memory_copy =
  fixes copy :: "nat \<Rightarrow> mem \<Rightarrow> nat \<Rightarrow> nat \<Rightarrow> mem option"
  assumes copy_bits: "\<lbrakk>src + n \<le> 8 * length m; dst + n \<le> 8 * length m\<rbrakk> \<Longrightarrow>
      yields (copy n m src dst) (length m) (blit n src dst (bit_at m) (bit_at m))"
begin

lemma copy_total:
  assumes "src + n \<le> 8 * length m" and "dst + n \<le> 8 * length m"
  obtains m' where "copy n m src dst = Some m'" and "length m' = length m"
    and "bit_at m' = blit n src dst (bit_at m) (bit_at m)"
  using copy_bits [OF assms] by (rule yieldsE)

lemma copy_same: "src + n \<le> 8 * length m \<Longrightarrow> copy n m src src = Some m"
  using copy_bits [of src n m src] by (auto simp: yields_def intro: mem_eqI)

text \<open>Copying a range there and back restores the memory it was taken from.\<close>

lemma copy_back:
  assumes "src + n \<le> 8 * length m" and "dst + n \<le> 8 * length m" and "src + n \<le> dst \<or> dst + n \<le> src"
    and "copy n m src dst = Some m'"
  shows "copy n m' dst src = Some m'"
proof -
  have m': "length m' = length m" "bit_at m' = blit n src dst (bit_at m) (bit_at m)"
    using copy_bits [OF assms(1,2)] assms(4) by (auto simp: yields_def)
  have "yields (copy n m' dst src) (length m) (blit n dst src (bit_at m') (bit_at m'))"
    using copy_bits [of dst n m' src] assms(1,2) m' by simp
  moreover have "blit n dst src (bit_at m') (bit_at m') = bit_at m'"
    using assms(3) by (auto simp: m' blit_def fun_eq_iff)
  moreover have "yields (Some m') (length m) (bit_at m')" by (simp add: yields_def m')
  ultimately show ?thesis by (auto intro: yields_unique)
qed

end

definition space_copy :: "nat \<Rightarrow> mem \<Rightarrow> nat \<Rightarrow> nat \<Rightarrow> mem option" where
  "space_copy n m src dst = bitcpy n Aliased src m dst"

interpretation bitcpy: memory_copy space_copy
proof unfold_locales
  fix src n dst :: nat and m :: mem
  assume "src + n \<le> 8 * length m" and "dst + n \<le> 8 * length m"
  then show "yields (space_copy n m src dst) (length m) (blit n src dst (bit_at m) (bit_at m))"
    using bitcpy_copied [of n Aliased src m dst] by (simp add: in_range_def copied_range_def space_copy_def)
qed

section \<open>Properties\<close>

text \<open>
  C4. Inside its buffers, \<open>bitcpy\<close> succeeds without an access outside them and moves the
  bit range: every destination bit in the range receives the source bit as it was before
  the call, also when source and destination overlap, and every other bit is unchanged.
\<close>

theorem bitcpy_moves_bits:
  assumes "src_bit + n \<le> 8 * length (src_mem so dst)" and "dst_bit + n \<le> 8 * length dst"
  shows "\<exists>dst'. bitcpy n so src_bit dst dst_bit = Some dst' \<and> length dst' = length dst \<and>
    (\<forall>p. bit_at dst' p = (if dst_bit \<le> p \<and> p < dst_bit + n
       then bit_at (src_mem so dst) (src_bit + (p - dst_bit)) else bit_at dst p))"
  using bitcpy_copied [of n so src_bit dst dst_bit] assms
  by (auto simp: in_range_def copied_range_def yields_def blit_def)

text \<open>An overlapping move of ten bits by three positions within one three-byte buffer.\<close>

lemma bitcpy_moves_bits_witness:
  "let m = [0xA5, 0x3C, 0xF0] in
    \<exists>dst'. bitcpy 10 Aliased 4 m 7 = Some dst' \<and> length dst' = length m \<and>
    (\<forall>p. bit_at dst' p = (if 7 \<le> p \<and> p < 7 + 10 then bit_at m (4 + (p - 7)) else bit_at m p))"
  unfolding Let_def
  by (rule bitcpy_moves_bits [of 4 10 Aliased "[0xA5, 0x3C, 0xF0]" 7, unfolded src_mem_simps]) simp_all

text \<open>
  The optimised copy and the bit-by-bit loop in the safe direction are the same
  function on buffers that contain the two ranges: byte copies, masks and the sliding
  window change nothing but the speed.
\<close>

theorem bitcpy_eq_bitwise:
  assumes "src_bit + n \<le> 8 * length (src_mem so dst)" and "dst_bit + n \<le> 8 * length dst"
  shows "bitcpy n so src_bit dst dst_bit = bitcpy_overlap_fallback n so src_bit dst dst_bit"
  using bitcpy_copied [of n so src_bit dst dst_bit] fallback_copied [of n so src_bit dst dst_bit] assms
  by (auto simp: in_range_def copied_range_def intro: yields_unique)

lemma bitcpy_eq_bitwise_witness:
  "bitcpy 21 (Separate [0xDE, 0xAD, 0xBE, 0xEF]) 5 [0x12, 0x34, 0x56, 0x78] 2
   = bitcpy_overlap_fallback 21 (Separate [0xDE, 0xAD, 0xBE, 0xEF]) 5 [0x12, 0x34, 0x56, 0x78] 2"
  using bitcpy_eq_bitwise [of 5 21 "Separate [0xDE, 0xAD, 0xBE, 0xEF]" "[0x12, 0x34, 0x56, 0x78]" 2]
  by simp

end
