(* ===== verification/BitFields.thy ===== *)
theory BitFields
  imports Bitcopy
begin

text \<open>
  Numbers stored as bit fields. The space stores a number with its least significant bit
  first (\<open>write_field_bits\<close>, \<open>get_argument\<close>, \<open>field\<close>, \<open>encode\<close>), the legacy machine with
  its most significant bit first (\<open>vm_write_uint\<close>, \<open>vm_read_uint\<close>). The interface
  \<open>field_codec\<close> covers both: bit \<open>idx w i\<close> of the value lies \<open>i\<close> bits behind the start of
  a field of width \<open>w\<close>.

  \<open>word_field\<close> is the number a bit view holds in a field; with it, decoding is a function
  of the bit view alone.
\<close>

section \<open>Reading a number off a bit view\<close>

definition word_field :: "(nat \<Rightarrow> nat \<Rightarrow> nat) \<Rightarrow> (nat \<Rightarrow> bool) \<Rightarrow> nat \<Rightarrow> nat \<Rightarrow> 'a::len word" where
  "word_field idx f at w = horner_sum of_bool 2 (map (\<lambda>i. f (at + idx w i)) [0..<w])"

lemma bit_word_field [bit_simps]:
  "bit (word_field idx f at w :: 'a::len word) i \<longleftrightarrow> i < LENGTH('a) \<and> i < w \<and> f (at + idx w i)"
  by (auto simp: word_field_def bit_horner_sum_bit_word_iff)

lemma word_field_cong:
  "(\<And>i. i < w \<Longrightarrow> f (at + idx w i) = g (at' + idx w i)) \<Longrightarrow> word_field idx f at w = word_field idx g at' w"
  by (rule bit_word_eqI) (auto simp: bit_simps)

lemma word_field_bound:
  assumes "w < LENGTH('a)"
  shows "unat (word_field idx f at w :: 'a::len word) < 2 ^ w"
proof -
  have "take_bit w (word_field idx f at w :: 'a word) = word_field idx f at w"
    by (rule bit_word_eqI) (auto simp: bit_simps)
  then have "unat (word_field idx f at w :: 'a word) = take_bit w (unat (word_field idx f at w :: 'a word))"
    by (metis unsigned_take_bit_eq)
  then show ?thesis by (metis take_bit_nat_less_exp)
qed

section \<open>The codec interface\<close>

text \<open>
  \<open>put at v w m\<close> stores the low \<open>w\<close> bits of \<open>v\<close>, \<open>get m at w\<close> reads a field of width \<open>w\<close>;
  \<open>maxw\<close> is the largest width the pair supports.
\<close>

locale field_codec =
  fixes put :: "nat \<Rightarrow> 'a::len word \<Rightarrow> nat \<Rightarrow> mem \<Rightarrow> mem option"
    and get :: "mem \<Rightarrow> nat \<Rightarrow> nat \<Rightarrow> 'a word option"
    and idx :: "nat \<Rightarrow> nat \<Rightarrow> nat"
    and maxw :: nat
  assumes idx_less: "i < w \<Longrightarrow> idx w i < w"
    and idx_idx: "i < w \<Longrightarrow> idx w (idx w i) = i"
    and maxw_le: "maxw \<le> LENGTH('a)"
    and put_bits: "\<lbrakk>w \<le> maxw; at + w \<le> 8 * length m\<rbrakk> \<Longrightarrow>
      yields (put at v w m) (length m) (blit w 0 at (\<lambda>i. bit v (idx w i)) (bit_at m))"
    and get_field: "\<lbrakk>w \<le> maxw; at + w \<le> 8 * length m\<rbrakk> \<Longrightarrow>
      get m at w = Some (word_field idx (bit_at m) at w)"
begin

lemma put_total:
  assumes "w \<le> maxw" and "at + w \<le> 8 * length m"
  obtains m' where "put at v w m = Some m'" and "length m' = length m"
    and "bit_at m' = blit w 0 at (\<lambda>i. bit v (idx w i)) (bit_at m)"
  using put_bits [OF assms] by (rule yieldsE)

text \<open>A stored field reads back as the value, reduced to the width.\<close>

lemma get_put:
  assumes "w \<le> maxw" and "at + w \<le> 8 * length m" and "put at v w m = Some m'"
  shows "get m' at w = Some (take_bit w v)"
proof -
  have m': "length m' = length m" "bit_at m' = blit w 0 at (\<lambda>i. bit v (idx w i)) (bit_at m)"
    using put_bits [OF assms(1,2), of v] assms(3) by (auto simp: yields_def)
  have "word_field idx (bit_at m') at w = take_bit w v"
    using maxw_le assms(1)
    by (intro bit_word_eqI) (auto simp: m' bit_simps blit_in idx_less idx_idx)
  then show ?thesis using get_field [of w at m'] assms(1,2) m'(1) by simp
qed

text \<open>Storing a field does not touch fields elsewhere.\<close>

lemma get_put_other:
  assumes "w \<le> maxw" and "at + w \<le> 8 * length m" and "put at v w m = Some m'"
    and "u \<le> maxw" and "b + u \<le> 8 * length m" and "at + w \<le> b \<or> b + u \<le> at"
  shows "get m' b u = get m b u"
proof -
  have m': "length m' = length m" "bit_at m' = blit w 0 at (\<lambda>i. bit v (idx w i)) (bit_at m)"
    using put_bits [OF assms(1,2), of v] assms(3) by (auto simp: yields_def)
  have "word_field idx (bit_at m') b u = (word_field idx (bit_at m) b u :: 'a word)"
  proof (rule word_field_cong)
    fix i assume "i < u"
    then have "idx u i < u" by (rule idx_less)
    then show "bit_at m' (b + idx u i) = bit_at m (b + idx u i)"
      using assms(6) by (auto simp: m' blit_def)
  qed
  then show ?thesis using get_field [of u b m'] get_field [of u b m] assms m'(1) by simp
qed

lemma get_bound:
  assumes "w \<le> maxw" and "w < LENGTH('a)" and "at + w \<le> 8 * length m" and "get m at w = Some v"
  shows "unat v < 2 ^ w"
  using get_field [OF assms(1,3)] word_field_bound [OF assms(2)] assms(4) by auto

end

text \<open>The two bit orders.\<close>

definition lsb_first :: "nat \<Rightarrow> nat \<Rightarrow> nat" where
  "lsb_first w i = i"

definition msb_first :: "nat \<Rightarrow> nat \<Rightarrow> nat" where
  "msb_first w i = w - 1 - i"

lemma lsb_first_idx [simp]: "lsb_first w i = i"
  by (simp add: lsb_first_def)

lemma msb_first_less: "i < w \<Longrightarrow> msb_first w i < w"
  by (simp add: msb_first_def)

lemma msb_first_involution: "i < w \<Longrightarrow> msb_first w (msb_first w i) = i"
  by (simp add: msb_first_def)

end
