(* ===== verification/SpaceCodec.thy ===== *)
theory SpaceCodec
  imports BitFields
begin

text \<open>
  src/space.h, src/support.h and the field access of src/space.c: the configuration
  constants, the layout of an instruction, \<open>get_argument\<close> with its word-parallel fast path
  and \<open>write_field_bits\<close>.

  The compile-time choices \<open>VM_SPACE_BYTES\<close> and \<open>PROCESSOR_N\<close> are the record \<open>config\<close>;
  \<open>space_configuration_valid\<close> is the static assertion of src/space.h. The enumerators are
  modelled without wrap-around, and \<open>config_ok\<close> adds to the assertion that the space has at
  most \<open>2 ^ 31\<close> bits: \<open>CEIL_LOG2_U32\<close> never exceeds 31, so the assertion's own test
  \<open>ADDRESS_SIZE <= 31\<close> does not exclude larger spaces, whose upper part no address reaches
  (\<open>oversized_config_accepted\<close>).
\<close>

section \<open>The configuration\<close>

record config =
  vm_space_bytes :: nat
  processor_n :: nat

definition ceil_log2_u32 :: "nat \<Rightarrow> nat" where
  "ceil_log2_u32 x = (case find (\<lambda>k. x \<le> 2 ^ k) [0..<31] of Some k \<Rightarrow> k | None \<Rightarrow> 31)"

definition space_size :: "config \<Rightarrow> nat" where
  "space_size cfg = vm_space_bytes cfg * 8"

definition address_size :: "config \<Rightarrow> nat" where
  "address_size cfg = ceil_log2_u32 (space_size cfg)"

definition n_size :: "config \<Rightarrow> nat" where
  "n_size cfg = address_size cfg - 1"

definition instruction_size :: "config \<Rightarrow> nat" where
  "instruction_size cfg = n_size cfg + 2 * address_size cfg"

definition processor_start :: nat where
  "processor_start = 0"

definition processor_bits :: "config \<Rightarrow> nat" where
  "processor_bits cfg = processor_n cfg * instruction_size cfg"

definition space_configuration_valid :: "config \<Rightarrow> bool" where
  "space_configuration_valid cfg \<longleftrightarrow>
     4 \<le> processor_n cfg \<and> 1 < address_size cfg \<and> address_size cfg \<le> 31 \<and>
     processor_bits cfg < space_size cfg"

definition config_ok :: "config \<Rightarrow> bool" where
  "config_ok cfg \<longleftrightarrow> space_configuration_valid cfg \<and> space_size cfg \<le> 2 ^ 31"

text \<open>The field offsets \<open>o[]\<close> and widths \<open>s[]\<close> of an instruction.\<close>

definition o_tab :: "config \<Rightarrow> nat list" where
  "o_tab cfg = [0, n_size cfg, n_size cfg + address_size cfg]"

definition s_tab :: "config \<Rightarrow> nat list" where
  "s_tab cfg = [n_size cfg, address_size cfg, address_size cfg]"

text \<open>The default configuration, and the small one that the boundary test of the Makefile builds.\<close>

definition default_config :: config where
  "default_config = \<lparr>vm_space_bytes = 16 * 1024 * 1024 div 8, processor_n = 256\<rparr>"

definition boundary_config :: config where
  "boundary_config = \<lparr>vm_space_bytes = 512, processor_n = 117\<rparr>"

lemma ceil_log2_least:
  assumes "x \<le> 2 ^ 31"
  shows "x \<le> 2 ^ ceil_log2_u32 x" and "\<And>k. x \<le> 2 ^ k \<Longrightarrow> ceil_log2_u32 x \<le> k"
proof -
  have below: "x \<le> 2 ^ k \<Longrightarrow> k < 31 \<Longrightarrow> find (\<lambda>k. x \<le> 2 ^ k) [0..<31] \<noteq> None" for k
    by (auto simp: find_None_iff)
  show "x \<le> 2 ^ ceil_log2_u32 x"
    using assms by (auto simp: ceil_log2_u32_def find_Some_iff split: option.splits)
  show "ceil_log2_u32 x \<le> k" if "x \<le> 2 ^ k" for k
  proof (cases "find (\<lambda>k. x \<le> 2 ^ k) [0..<31]")
    case None
    then have "\<not> k < 31" using below [OF that] by blast
    then show ?thesis using None by (simp add: ceil_log2_u32_def)
  next
    case (Some j)
    then have "\<And>i. i < j \<Longrightarrow> \<not> x \<le> 2 ^ i" by (auto simp: find_Some_iff)
    then have "j \<le> k" using that not_less by blast
    then show ?thesis using Some by (simp add: ceil_log2_u32_def)
  qed
qed

lemma ceil_log2_le_31: "ceil_log2_u32 x \<le> 31"
  by (auto simp: ceil_log2_u32_def find_Some_iff split: option.splits)

lemma config_bounds:
  assumes "config_ok cfg"
  shows "4 \<le> processor_n cfg" and "1 < address_size cfg" and "address_size cfg \<le> 31"
    and "processor_bits cfg < space_size cfg" and "space_size cfg \<le> 2 ^ 31"
  using assms by (simp_all add: config_ok_def space_configuration_valid_def)

lemma config_space_min:
  assumes "config_ok cfg"
  shows "20 < space_size cfg"
proof -
  have "4 * 5 \<le> processor_n cfg * instruction_size cfg"
    using config_bounds(1,2) [OF assms] by (intro mult_le_mono) (auto simp: instruction_size_def n_size_def)
  then show ?thesis using config_bounds(4) [OF assms] by (simp add: processor_bits_def)
qed

lemma instruction_in_processor:
  assumes "i < processor_n cfg"
  shows "i * instruction_size cfg + instruction_size cfg \<le> processor_bits cfg"
proof -
  have "Suc i * instruction_size cfg \<le> processor_bits cfg"
    unfolding processor_bits_def by (rule mult_le_mono1) (use assms in simp)
  then show ?thesis by simp
qed

section \<open>Writing a field\<close>

definition bit_set_local :: "mem \<Rightarrow> nat \<Rightarrow> u32 \<Rightarrow> mem option" where
  "bit_set_local p bitpos v = do {
     b \<leftarrow> mem_get p (bitpos div 8);
     let shift = 7 - bitpos mod 8;
     let mask = (push_bit shift 1 :: u8);
     mem_set p (bitpos div 8) (if v \<noteq> 0 then b OR mask else b AND NOT mask)
   }"

definition write_field_bits :: "nat \<Rightarrow> u32 \<Rightarrow> nat \<Rightarrow> mem \<Rightarrow> mem option" where
  "write_field_bits dst_bit v width =
     for_up (\<lambda>i m. bit_set_local m (dst_bit + i) (drop_bit i v AND 1)) 0 width"

interpretation local_bits: bit_writer bit_set_local
proof -
  have "bit_set_local = bit_set_ptr" by (simp add: fun_eq_iff bit_set_local_def bit_set_ptr_def)
  then show "bit_writer bit_set_local" using ptr_bits.bit_writer_axioms by simp
qed

lemma write_field_bits_yields:
  assumes "at + width \<le> 8 * length m"
  shows "yields (write_field_bits at v width m) (length m) (blit width 0 at (bit v) (bit_at m))"
  using local_bits.write_loop [OF assms, of "\<lambda>i. drop_bit i v AND 1"]
  by (simp add: write_field_bits_def drop_bit_and_1)

section \<open>Reading a field\<close>

definition reverse_bits_in_bytes :: "u32 \<Rightarrow> u32" where
  "reverse_bits_in_bytes v0 =
     (let v1 = push_bit 1 (v0 AND 0x55555555) OR (drop_bit 1 v0 AND 0x55555555);
          v2 = push_bit 2 (v1 AND 0x33333333) OR (drop_bit 2 v1 AND 0x33333333)
      in push_bit 4 (v2 AND 0x0f0f0f0f) OR (drop_bit 4 v2 AND 0x0f0f0f0f))"

definition get_argument :: "mem \<Rightarrow> nat \<Rightarrow> nat \<Rightarrow> u32 option" where
  "get_argument space src n = (
     let byte = src div 8; offset = src mod 8
     in if byte + 4 > length space
        then for_up (\<lambda>i v. do {
               b \<leftarrow> mem_get space ((src + i) div 8);
               Some (v OR push_bit i (ucast (drop_bit (7 - (src + i) mod 8) b AND 1)))
             }) 0 n 0
        else do {
          p0 \<leftarrow> mem_get space byte;
          p1 \<leftarrow> mem_get space (byte + 1);
          p2 \<leftarrow> mem_get space (byte + 2);
          p3 \<leftarrow> mem_get space (byte + 3);
          let packed = ucast p0 OR push_bit 8 (ucast p1) OR push_bit 16 (ucast p2) OR push_bit 24 (ucast p3);
          let v = drop_bit offset (reverse_bits_in_bytes packed);
          v \<leftarrow> (if n + offset > 32
                then do { p4 \<leftarrow> mem_get space (byte + 4);
                          Some (v OR push_bit (32 - offset) (reverse_bits_in_bytes (ucast p4))) }
                else Some v);
          Some (v AND (push_bit n 1 - 1))
        })"

text \<open>One swap stage exchanges neighbouring groups of \<open>s\<close> bits.\<close>

lemma swap_stage_bit:
  fixes v m :: u32
  assumes mask: "\<And>k. k < 32 \<Longrightarrow> bit m k \<longleftrightarrow> even (k div s)" and s: "0 < s" and k: "k < 32"
  shows "bit (push_bit s (v AND m) OR (drop_bit s v AND m)) k
       \<longleftrightarrow> bit v (if even (k div s) then k + s else k - s)"
proof (cases "s \<le> k")
  case True
  then have "k div s = Suc ((k - s) div s)" using s by (simp add: le_div_geq)
  then show ?thesis using True mask [OF k] mask [of "k - s"] k by (auto simp: bit_simps add.commute)
next
  case False
  then show ?thesis using mask [OF k] k by (auto simp: bit_simps add.commute)
qed

lemma reverse_masks:
  assumes "k < 32"
  shows "bit (0x55555555 :: u32) k \<longleftrightarrow> even (k div 1)" and "bit (0x33333333 :: u32) k \<longleftrightarrow> even (k div 2)"
    and "bit (0x0f0f0f0f :: u32) k \<longleftrightarrow> even (k div 4)"
proof -
  have "\<forall>k \<in> set [0..<32]. (bit (0x55555555 :: u32) k \<longleftrightarrow> even (k div 1)) \<and>
      (bit (0x33333333 :: u32) k \<longleftrightarrow> even (k div 2)) \<and> (bit (0x0f0f0f0f :: u32) k \<longleftrightarrow> even (k div 4))"
    by (simp add: upt_rec)
  then show "bit (0x55555555 :: u32) k \<longleftrightarrow> even (k div 1)" and "bit (0x33333333 :: u32) k \<longleftrightarrow> even (k div 2)"
    and "bit (0x0f0f0f0f :: u32) k \<longleftrightarrow> even (k div 4)" using assms by simp_all
qed

lemma reverse_bits_in_bytes_bit:
  assumes "k < 32"
  shows "bit (reverse_bits_in_bytes v) k \<longleftrightarrow> bit v (8 * (k div 8) + (7 - k mod 8))"
proof -
  define g where "g s j = (if even (j div s) then j + s else j - s)" for s j :: nat
  have g: "\<forall>k \<in> set [0..<32]. g 4 k < 32 \<and> g 2 (g 4 k) < 32 \<and>
      g 1 (g 2 (g 4 k)) = 8 * (k div 8) + (7 - k mod 8)"
    by (simp add: upt_rec g_def)
  define v1 where "v1 = push_bit 1 (v AND 0x55555555) OR (drop_bit 1 v AND 0x55555555)"
  define v2 where "v2 = push_bit 2 (v1 AND 0x33333333) OR (drop_bit 2 v1 AND 0x33333333)"
  have v1: "bit v1 j \<longleftrightarrow> bit v (g 1 j)" if "j < 32" for j
    unfolding v1_def g_def by (rule swap_stage_bit [OF reverse_masks(1)]) (use that in simp_all)
  have v2: "bit v2 j \<longleftrightarrow> bit v1 (g 2 j)" if "j < 32" for j
    unfolding v2_def g_def by (rule swap_stage_bit [OF reverse_masks(2)]) (use that in simp_all)
  have "bit (reverse_bits_in_bytes v) k \<longleftrightarrow> bit v2 (g 4 k)"
    unfolding reverse_bits_in_bytes_def Let_def g_def v1_def [symmetric] v2_def [symmetric]
    by (rule swap_stage_bit [OF reverse_masks(3)]) (use assms in simp_all)
  then have "bit (reverse_bits_in_bytes v) k \<longleftrightarrow> bit v (g 1 (g 2 (g 4 k)))"
    using g assms v1 v2 by simp
  then show ?thesis using g assms by simp
qed

text \<open>
  Bit \<open>k\<close> of the four bytes at \<open>byte\<close>, once reversed, is the \<open>k\<close>-th bit from there.
\<close>

lemma packed_bit:
  fixes b0 b1 b2 b3 :: u8
  assumes "k < 32"
  shows "bit (ucast b0 OR push_bit 8 (ucast b1) OR push_bit 16 (ucast b2) OR push_bit 24 (ucast b3) :: u32) k
       \<longleftrightarrow> bit ([b0, b1, b2, b3] ! (k div 8)) (k mod 8)"
proof -
  have "k div 8 \<in> {0, 1, 2, 3}" using assms by auto
  moreover have "\<not> bit b j" if "8 \<le> j" for b :: u8 and j
    using that bit_imp_le_length [of b j] by auto
  moreover have "k = 8 * (k div 8) + k mod 8" by simp
  ultimately show ?thesis
    using assms by (elim insertE) (auto simp: bit_simps modulo_nat_def)
qed

text \<open>The slow path collects the field bit by bit.\<close>

lemma get_argument_slow:
  assumes "n \<le> 32" and "src + n \<le> 8 * length sp" and "src div 8 + 4 > length sp"
  shows "get_argument sp src n = Some (word_field lsb_first (bit_at sp) src n)"
proof -
  let ?g = "\<lambda>i. word_field lsb_first (bit_at sp) src i :: u32"
  let ?body = "\<lambda>i v. do {
      b \<leftarrow> mem_get sp ((src + i) div 8);
      Some (v OR push_bit i (ucast (drop_bit (7 - (src + i) mod 8) b AND 1)))
    }"
  have "for_up ?body 0 n 0 = Some (?g (0 + n))"
  proof (rule for_up_Some)
    fix i assume i: "i < 0 + n"
    have byte: "(src + i) div 8 < length sp" using i assms by linarith
    then have "drop_bit (7 - (src + i) mod 8) (sp ! ((src + i) div 8)) AND 1 = of_bool (bit_at sp (src + i))"
      by (simp add: drop_bit_and_1 bit_at_def)
    moreover have "?g i OR push_bit i (of_bool b) = ?g (Suc i)" if "b = bit_at sp (src + i)" for b
      using that i assms(1) by (intro bit_word_eqI) (auto simp: bit_simps less_Suc_eq)
    ultimately show "?body i (?g i) = Some (?g (Suc i))"
      using byte by (cases "bit_at sp (src + i)") simp_all
  next
    show "0 = ?g 0" by (rule bit_word_eqI) (simp add: bit_simps)
  qed
  then show ?thesis using assms by (simp add: get_argument_def Let_def)
qed

lemma reversed_position:
  fixes k :: nat
  shows "k < 32 \<Longrightarrow> 8 * (k div 8) + (7 - k mod 8) < 32"
    and "(8 * (k div 8) + (7 - k mod 8)) div 8 = k div 8"
    and "(8 * (k div 8) + (7 - k mod 8)) mod 8 = 7 - k mod 8"
proof -
  have m: "7 - k mod 8 < 8" by simp
  then show "(8 * (k div 8) + (7 - k mod 8)) div 8 = k div 8"
    and "(8 * (k div 8) + (7 - k mod 8)) mod 8 = 7 - k mod 8"
    by (simp_all only: div_mult_self4 mod_mult_self4 div_less mod_less)
  show "8 * (k div 8) + (7 - k mod 8) < 32" if "k < 32"
  proof -
    have "k div 8 < 4" using that by (simp add: less_mult_imp_div_less)
    then show ?thesis using m by linarith
  qed
qed

text \<open>The fast path reads four or five bytes and shifts.\<close>

lemma get_argument_fast:
  assumes n: "n \<le> 31" and range: "src + n \<le> 8 * length sp" and fast: "src div 8 + 4 \<le> length sp"
  shows "get_argument sp src n = Some (word_field lsb_first (bit_at sp) src n)"
proof -
  define B where "B = src div 8"
  define o' where "o' = src mod 8"
  have src: "src = 8 * B + o'" and o': "o' < 8" by (simp_all add: B_def o'_def)
  define R where "R = reverse_bits_in_bytes (ucast (sp ! B) OR push_bit 8 (ucast (sp ! (B + 1)))
    OR push_bit 16 (ucast (sp ! (B + 2))) OR push_bit 24 (ucast (sp ! (B + 3))))"
  define P where "P = push_bit (32 - o') (reverse_bits_in_bytes (ucast (sp ! (B + 4))))"
  have R: "bit R k \<longleftrightarrow> bit_at sp (8 * B + k)" if "k < 32" for k
  proof -
    have nth: "[sp ! B, sp ! (B + 1), sp ! (B + 2), sp ! (B + 3)] ! (k div 8) = sp ! (B + k div 8)"
    proof -
      have "k div 8 \<in> {0, 1, 2, 3}" using that by auto
      then show ?thesis by (elim insertE) auto
    qed
    have "bit R k \<longleftrightarrow> bit (sp ! (B + k div 8)) (7 - k mod 8)"
      unfolding R_def reverse_bits_in_bytes_bit [OF that]
        packed_bit [OF reversed_position(1) [OF that]] reversed_position(2,3) nth ..
    moreover have "(8 * B + k) div 8 = B + k div 8" "B + k div 8 < length sp"
      using that fast B_def by simp_all
    ultimately show ?thesis by (simp add: bit_at_def)
  qed
  have P: "bit P i \<longleftrightarrow> i < 32 \<and> 32 \<le> o' + i \<and> bit_at sp (8 * B + (o' + i))"
    if "n + o' > 32" "i < n" for i
  proof (cases "32 \<le> o' + i")
    case True
    have B4: "B + 4 < length sp" using that range src by linarith
    have j: "o' + i - 32 < 8" using True that n o' by linarith
    have "8 * B + (o' + i) = 8 * (B + 4) + (o' + i - 32)" using True by simp
    then have "bit_at sp (8 * B + (o' + i)) \<longleftrightarrow> bit (sp ! (B + 4)) (7 - (o' + i - 32))"
      using bit_at_byte [OF B4 j] by (simp only:)
    moreover have "i - (32 - o') = o' + i - 32" "32 - o' \<le> i" "i < 32" using True that n o' by linarith+
    ultimately show ?thesis
      using True j less_imp_diff_less [of 7 32 "o' + i - 32"]
      by (simp add: P_def bit_push_bit_iff reverse_bits_in_bytes_bit bit_ucast_iff)
  next
    case False
    then have "\<not> 32 - o' \<le> i" by linarith
    then show ?thesis using False by (simp add: P_def bit_push_bit_iff)
  qed
  define V where "V = (if n + o' > 32 then drop_bit o' R OR P else drop_bit o' R)"
  have V: "bit V i \<longleftrightarrow> bit_at sp (src + i)" if "i < n" for i
  proof (cases "o' + i < 32")
    case True
    then show ?thesis using that n R [of "o' + i"] P [of i] src
      by (auto simp: V_def bit_or_iff bit_drop_bit_eq add.assoc)
  next
    case False
    then have "\<not> bit R (o' + i)" using bit_imp_le_length [of R "o' + i"] by auto
    then show ?thesis using False that n P [of i] src
      by (auto simp: V_def bit_or_iff bit_drop_bit_eq add.assoc)
  qed
  have "get_argument sp src n = Some (V AND (push_bit n 1 - 1))"
  proof (cases "n + o' > 32")
    case True
    then have "B + 4 < length sp" using range src by linarith
    then show ?thesis using True fast
      by (simp add: get_argument_def Let_def V_def R_def P_def flip: B_def o'_def)
  next
    case False
    then show ?thesis using fast
      by (simp add: get_argument_def Let_def V_def R_def flip: B_def o'_def)
  qed
  also have "V AND (push_bit n 1 - 1) = word_field lsb_first (bit_at sp) src n"
    using n V by (intro bit_word_eqI)
      (auto simp: push_bit_of_1 bit_simps simp flip: mask_eq_exp_minus_1)
  finally show ?thesis .
qed

lemma get_argument_field:
  assumes "n \<le> 31" and "src + n \<le> 8 * length sp"
  shows "get_argument sp src n = Some (word_field lsb_first (bit_at sp) src n)"
  using get_argument_fast [OF assms] get_argument_slow [of n src sp] assms by linarith

interpretation space_field: field_codec write_field_bits get_argument lsb_first 31
  by unfold_locales (simp_all add: write_field_bits_yields get_argument_field)

section \<open>Properties\<close>

lemma default_config_ok: "config_ok default_config"
  by (simp add: config_ok_def space_configuration_valid_def default_config_def address_size_def
      ceil_log2_u32_def space_size_def processor_bits_def instruction_size_def n_size_def upt_rec)

lemma boundary_config_ok: "config_ok boundary_config"
  by (simp add: config_ok_def space_configuration_valid_def boundary_config_def address_size_def
      ceil_log2_u32_def space_size_def processor_bits_def instruction_size_def n_size_def upt_rec)

text \<open>
  C8. \<open>get_argument\<close> reads a field of up to 31 bits that lies in the space without an
  access outside it, at every alignment and also in the last bytes of the space; bit \<open>i\<close> of
  the number is the \<open>i\<close>-th bit of the field, and the bits above the field are clear.
\<close>

theorem get_argument_reads_field:
  assumes "n \<le> 31" and "src + n \<le> 8 * length sp"
  shows "\<exists>v. get_argument sp src n = Some v \<and> unat v < 2 ^ n \<and>
    (\<forall>i < 32. bit v i \<longleftrightarrow> i < n \<and> bit_at sp (src + i))"
  using get_argument_field [OF assms] word_field_bound [of n lsb_first "bit_at sp" src, where 'a = 32] assms(1)
  by (auto simp: bit_simps)

lemma get_argument_reads_field_witness:
  "\<exists>v. get_argument [1, 2, 3, 4, 5] 6 31 = Some v \<and> unat v < 2 ^ 31 \<and>
    (\<forall>i < 32. bit v i \<longleftrightarrow> i < 31 \<and> bit_at [1, 2, 3, 4, 5] (6 + i))"
  by (rule get_argument_reads_field) simp_all

text \<open>
  A field written by \<open>write_field_bits\<close> is read back by \<open>get_argument\<close> as the value
  reduced to the field's width, and a field that does not meet it reads as before.
\<close>

theorem field_roundtrip:
  assumes "w \<le> 31" and "at + w \<le> 8 * length sp" and "write_field_bits at v w sp = Some sp'"
    and "u \<le> 31" and "b + u \<le> 8 * length sp" and "at + w \<le> b \<or> b + u \<le> at"
  shows "get_argument sp' at w = Some (take_bit w v) \<and> get_argument sp' b u = get_argument sp b u"
  using space_field.get_put [OF assms(1-3)] space_field.get_put_other [OF assms] by simp

lemma field_roundtrip_witness:
  "\<exists>sp'. write_field_bits 5 0x1234 13 [0, 255, 7, 9] = Some sp' \<and>
    get_argument sp' 5 13 = Some (take_bit 13 0x1234) \<and>
    get_argument sp' 18 14 = get_argument [0, 255, 7, 9] 18 14"
proof -
  obtain sp' where sp': "write_field_bits 5 0x1234 13 [0, 255, 7, 9] = Some sp'"
    by (rule space_field.put_total [of 13 5 "[0, 255, 7, 9]"]) simp_all
  show ?thesis using sp' field_roundtrip [OF _ _ sp', of 14 18] by simp
qed

text \<open>
  The static assertion of src/space.h does not bound the space: \<open>CEIL_LOG2_U32\<close> stops
  at 31, so \<open>ADDRESS_SIZE <= 31\<close> always holds, and a configuration with more than \<open>2 ^ 31\<close>
  bits is accepted although no instruction can address its upper part.
\<close>

theorem oversized_config_accepted:
  "let cfg = \<lparr>vm_space_bytes = 2 ^ 28 + 2 ^ 20, processor_n = 256\<rparr>
   in space_configuration_valid cfg \<and> 2 ^ address_size cfg < space_size cfg"
  by (simp add: space_configuration_valid_def address_size_def ceil_log2_u32_def space_size_def
      processor_bits_def instruction_size_def n_size_def upt_rec)

end
