(* ===== verification/SpaceSpec.thy ===== *)
theory SpaceSpec
  imports Space
begin

text \<open>
  The meaning of the machine over bits alone, and the proof that src/space.c implements it.

  A \<open>bit_machine\<close> is a bit string with the device streams. \<open>decode\<close> reads instruction \<open>i\<close>
  off the bits; \<open>exec_slots\<close> executes instructions in order, each decoded from the bits as
  they are then; \<open>spec_step\<close> is a tick. \<open>abs_of\<close> forgets the byte buffer, the instruction
  cache and the event log. \<open>space_step_refines\<close>: from every well-formed machine the code's
  tick is defined, keeps the machine well-formed and commutes with \<open>abs_of\<close>.
\<close>

section \<open>Instructions as bits\<close>

definition field_value :: "(nat \<Rightarrow> bool) \<Rightarrow> nat \<Rightarrow> nat \<Rightarrow> nat" where
  "field_value f at w = unat (word_field lsb_first f at w :: u32)"

definition decode :: "config \<Rightarrow> (nat \<Rightarrow> bool) \<Rightarrow> nat \<Rightarrow> instruction" where
  "decode cfg f i =
     \<lparr>fld_n = field_value f (i * instruction_size cfg) (n_size cfg),
      fld_dst = field_value f (i * instruction_size cfg + n_size cfg) (address_size cfg),
      fld_src = field_value f (i * instruction_size cfg + n_size cfg + address_size cfg) (address_size cfg)\<rparr>"

fun exec_slots :: "config \<Rightarrow> nat list \<Rightarrow> (nat \<Rightarrow> bool) \<Rightarrow> (nat \<Rightarrow> bool) \<times> bool" where
  "exec_slots cfg [] f = (f, True)"
| "exec_slots cfg (i # is) f =
     (let ins = decode cfg f i
      in if fld_n ins = 0 then exec_slots cfg is f
         else if out_of_space cfg ins then (f, False)
         else exec_slots cfg is (blit (fld_n ins) (fld_src ins) (fld_dst ins) f f))"

text \<open>The instructions that a run of slots executes, for the observer.\<close>

fun executed :: "config \<Rightarrow> nat list \<Rightarrow> (nat \<Rightarrow> bool) \<Rightarrow> (nat \<times> instruction) list" where
  "executed cfg [] f = []"
| "executed cfg (i # is) f =
     (let ins = decode cfg f i
      in if fld_n ins = 0 then executed cfg is f
         else if out_of_space cfg ins then [(i, ins)]
         else (i, ins) # executed cfg is (blit (fld_n ins) (fld_src ins) (fld_dst ins) f f))"

definition copy_slots :: "nat \<Rightarrow> nat \<Rightarrow> nat list" where
  "copy_slots i k = filter (\<lambda>j. j \<noteq> 1 \<and> j \<noteq> 2) [i..<i + k]"

lemma copy_slots_0 [simp]: "copy_slots i 0 = []"
  by (simp add: copy_slots_def)

lemma copy_slots_Suc [simp]:
  "copy_slots i (Suc k) = (if i = 1 \<or> i = 2 then copy_slots (Suc i) k else i # copy_slots (Suc i) k)"
  by (simp add: copy_slots_def upt_conv_Cons del: upt_Suc)

section \<open>Fetching is decoding\<close>

lemma instruction_size_split: "instruction_size cfg = n_size cfg + address_size cfg + address_size cfg"
  by (simp add: instruction_size_def)

lemma machine_okD:
  assumes "machine_ok cfg st"
  shows "config_ok cfg" and "length (space st) = vm_space_bytes cfg"
    and "length (processor st) = processor_n cfg" and "8 * length (space st) = space_size cfg"
  using assms by (simp_all add: machine_ok_def space_size_def)

lemma slot_in_space:
  assumes "config_ok cfg" and "i < processor_n cfg"
  shows "i * instruction_size cfg + n_size cfg + address_size cfg + address_size cfg < space_size cfg"
  using instruction_in_processor [OF assms(2)] config_bounds(4) [OF assms(1)]
  unfolding instruction_size_split by linarith

lemma fetch_field_value:
  assumes ok: "machine_ok cfg st" and i: "i < processor_n cfg"
  shows "fetch_field cfg (space st) i 0
      = Some (word_field lsb_first (bit_at (space st)) (i * instruction_size cfg) (n_size cfg))"
    and "fetch_field cfg (space st) i 1
      = Some (word_field lsb_first (bit_at (space st)) (i * instruction_size cfg + n_size cfg) (address_size cfg))"
    and "fetch_field cfg (space st) i 2
      = Some (word_field lsb_first (bit_at (space st))
          (i * instruction_size cfg + n_size cfg + address_size cfg) (address_size cfg))"
proof -
  note slot = slot_in_space [OF machine_okD(1) [OF ok] i] and widths = config_bounds(2,3) [OF machine_okD(1) [OF ok]]
  show "fetch_field cfg (space st) i 0
      = Some (word_field lsb_first (bit_at (space st)) (i * instruction_size cfg) (n_size cfg))"
    using slot widths machine_okD(4) [OF ok]
    by (simp add: fetch_field_def processor_start_def o_tab_def s_tab_def get_argument_field n_size_def)
  show "fetch_field cfg (space st) i 1
      = Some (word_field lsb_first (bit_at (space st)) (i * instruction_size cfg + n_size cfg) (address_size cfg))"
    using slot widths machine_okD(4) [OF ok]
    by (simp add: fetch_field_def processor_start_def o_tab_def s_tab_def get_argument_field)
  show "fetch_field cfg (space st) i 2
      = Some (word_field lsb_first (bit_at (space st))
          (i * instruction_size cfg + n_size cfg + address_size cfg) (address_size cfg))"
    using slot widths machine_okD(4) [OF ok]
    by (simp add: fetch_field_def processor_start_def o_tab_def s_tab_def get_argument_field add.assoc)
qed

lemma fetch_instruction_decode:
  assumes "machine_ok cfg st" and "i < processor_n cfg"
  shows "fetch_instruction cfg i st
       = Some (st\<lparr>processor := (processor st)[i := decode cfg (bit_at (space st)) i]\<rparr>)"
  using assms machine_okD(3) [OF assms(1)]
  unfolding fetch_instruction_def fetch_field_value [OF assms]
  by (simp add: decode_def field_value_def)

lemma machine_ok_processor [simp]:
  "length ps = length (processor st) \<Longrightarrow> machine_ok cfg (st\<lparr>processor := ps\<rparr>) \<longleftrightarrow> machine_ok cfg st"
  by (simp add: machine_ok_def)

lemma space_read_processor_decode:
  assumes "machine_ok cfg st"
  shows "space_read_processor cfg st
       = Some (st\<lparr>processor := map (decode cfg (bit_at (space st))) [0..<processor_n cfg]\<rparr>)"
proof -
  let ?dec = "decode cfg (bit_at (space st))"
  let ?g = "\<lambda>i. st\<lparr>processor := map ?dec [0..<i] @ drop i (processor st)\<rparr>"
  have "for_up (fetch_instruction cfg) 0 (processor_n cfg) st = Some (?g (0 + processor_n cfg))"
  proof (rule for_up_Some)
    fix i assume i: "i < 0 + processor_n cfg"
    have len: "length (processor st) = processor_n cfg" by (rule machine_okD(3) [OF assms])
    have ok: "machine_ok cfg (?g i)" using assms i by (auto simp: machine_ok_def)
    have "drop i (processor st) = processor st ! i # drop (Suc i) (processor st)"
      using i len by (simp add: Cons_nth_drop_Suc)
    then have "(map ?dec [0..<i] @ drop i (processor st))[i := ?dec i]
        = map ?dec [0..<Suc i] @ drop (Suc i) (processor st)"
      by (simp add: list_update_append)
    then show "fetch_instruction cfg i (?g i) = Some (?g (Suc i))"
      using fetch_instruction_decode [OF ok, of i] i by simp
  qed simp
  then show ?thesis using machine_okD(3) [OF assms] by (simp add: space_read_processor_def)
qed

section \<open>Computation refines the execution of slots\<close>

lemma in_space_bounds:
  "\<not> out_of_space cfg ins \<Longrightarrow> fld_src ins + fld_n ins \<le> space_size cfg \<and> fld_dst ins + fld_n ins \<le> space_size cfg"
  by (auto simp: out_of_space_def)

definition copy_event :: "nat \<times> instruction \<Rightarrow> space_event" where
  "copy_event x = (case x of (i, ins) \<Rightarrow>
     \<lparr>ev_channel = False, ev_slot = i, ev_n = fld_n ins, ev_dst = fld_dst ins, ev_src = fld_src ins,
      ev_copied = 0, ev_error = False\<rparr>)"

text \<open>
  What a run of the loop establishes: it succeeds, keeps the machine well-formed, leaves
  the streams alone, and its bits, return code and events are those of \<open>exec_slots\<close>.
\<close>

definition computed :: "config \<Rightarrow> bool \<Rightarrow> nat list \<Rightarrow> machine \<Rightarrow> (machine \<times> int) option \<Rightarrow> bool" where
  "computed cfg observe slots st r \<longleftrightarrow> (\<exists>st' rc. r = Some (st', rc) \<and> machine_ok cfg st' \<and>
     in_stream st' = in_stream st \<and> out_bytes st' = out_bytes st \<and> out_faults st' = out_faults st \<and>
     (rc = 0 \<or> rc = -1) \<and> (bit_at (space st'), rc = 0) = exec_slots cfg slots (bit_at (space st)) \<and>
     events st' = events st @
       (if observe then map copy_event (executed cfg slots (bit_at (space st))) else []))"

lemma computation_loop_computed:
  assumes "machine_ok cfg st" and "i + k \<le> processor_n cfg"
  shows "computed cfg observe (copy_slots i k) st (computation_loop cfg observe i k st)"
  using assms
proof (induction k arbitrary: i st)
  case 0
  then show ?case by (simp add: computed_def)
next
  case (Suc k)
  show ?case
  proof (cases "i = 1 \<or> i = 2")
    case True
    then show ?thesis using Suc.IH [OF Suc.prems(1), of "Suc i"] Suc.prems(2)
      by (simp only: computation_loop.simps copy_slots_Suc if_True)
  next
    case False
    define ins where "ins = decode cfg (bit_at (space st)) i"
    define st1 where "st1 = st\<lparr>processor := (processor st)[i := ins]\<rparr>"
    have i: "i < processor_n cfg" using Suc.prems(2) by simp
    have fetch: "fetch_instruction cfg i st = Some st1"
      unfolding st1_def ins_def by (rule fetch_instruction_decode [OF Suc.prems(1) i])
    have st1: "processor st1 ! i = ins" "machine_ok cfg st1" "space st1 = space st"
      using Suc.prems(1) i machine_okD(3) [OF Suc.prems(1)] by (simp_all add: st1_def)
    show ?thesis
    proof (cases "fld_n ins = 0")
      case True
      have "computed cfg observe (copy_slots (Suc i) k) st1 (computation_loop cfg observe (Suc i) k st1)"
        by (rule Suc.IH [OF st1(2)]) (use Suc.prems(2) in simp)
      moreover have "computation_loop cfg observe i (Suc k) st = computation_loop cfg observe (Suc i) k st1"
        using False True fetch st1 by simp
      ultimately show ?thesis using False True
        by (cases observe) (simp_all add: computed_def st1_def flip: ins_def)
    next
      case nonzero: False
      define st2 where "st2 = observe_copy observe i ins st1"
      have st2: "space st2 = space st" "machine_ok cfg st2" "in_stream st2 = in_stream st"
        "out_bytes st2 = out_bytes st" "out_faults st2 = out_faults st"
        "events st2 = events st @ (if observe then [copy_event (i, ins)] else [])"
        using st1(2,3) by (auto simp: st2_def st1_def observe_copy_def machine_ok_def copy_event_def)
      show ?thesis
      proof (cases "out_of_space cfg ins")
        case True
        then have "computation_loop cfg observe i (Suc k) st = Some (st2, -1)"
          using False nonzero fetch st1 by (simp add: st2_def)
        then show ?thesis using False nonzero True st2
          by (cases observe) (simp_all add: computed_def del: computation_loop.simps flip: ins_def)
      next
        case in_space: False
        have len: "8 * length (space st2) = space_size cfg" by (rule machine_okD(4) [OF st2(2)])
        obtain sp where sp: "space_copy (fld_n ins) (space st2) (fld_src ins) (fld_dst ins) = Some sp"
          "length sp = length (space st2)"
          "bit_at sp = blit (fld_n ins) (fld_src ins) (fld_dst ins) (bit_at (space st)) (bit_at (space st))"
          using bitcpy.copy_total [of "fld_src ins" "fld_n ins" "space st2" "fld_dst ins"]
            in_space_bounds [OF in_space] len st2(1) by auto
        have ok: "machine_ok cfg (st2\<lparr>space := sp\<rparr>)" using st2(2) sp(2) by (simp add: machine_ok_def)
        have "computed cfg observe (copy_slots (Suc i) k) (st2\<lparr>space := sp\<rparr>)
            (computation_loop cfg observe (Suc i) k (st2\<lparr>space := sp\<rparr>))"
          by (rule Suc.IH [OF ok]) (use Suc.prems(2) in simp)
        moreover have "computation_loop cfg observe i (Suc k) st =
            computation_loop cfg observe (Suc i) k (st2\<lparr>space := sp\<rparr>)"
          using False nonzero in_space fetch st1 sp(1) by (simp add: Let_def flip: st2_def)
        ultimately show ?thesis using False nonzero in_space st2 sp
          by (cases observe) (simp_all add: computed_def Let_def del: computation_loop.simps flip: ins_def)
      qed
    qed
  qed
qed

lemma computation_computed:
  "machine_ok cfg st \<Longrightarrow>
    computed cfg observe (copy_slots 0 (processor_n cfg)) st (computation cfg observe st)"
  unfolding computation_def by (rule computation_loop_computed) simp_all

section \<open>The specification of a tick\<close>

record bit_machine =
  bm_bits :: "nat \<Rightarrow> bool"
  bm_in :: "getc_result list"
  bm_out :: mem
  bm_faults :: "bool list"

definition abs_of :: "machine \<Rightarrow> bit_machine" where
  "abs_of st = \<lparr>bm_bits = bit_at (space st), bm_in = in_stream st, bm_out = out_bytes st,
                bm_faults = out_faults st\<rparr>"

text \<open>The bytes that a bit string holds from a bit address on.\<close>

definition bytes_at :: "(nat \<Rightarrow> bool) \<Rightarrow> nat \<Rightarrow> nat \<Rightarrow> mem" where
  "bytes_at f a k = map (\<lambda>j. word_field msb_first f (a + 8 * j) 8) [0..<k]"

definition bad_channel :: "config \<Rightarrow> nat \<Rightarrow> nat \<Rightarrow> bool" where
  "bad_channel cfg n a \<longleftrightarrow>
     n mod 8 \<noteq> 0 \<or> a mod 8 \<noteq> 0 \<or> n \<ge> space_size cfg div 2 \<or> a \<ge> space_size cfg \<or> n > space_size cfg - a"

definition spec_out :: "nat \<Rightarrow> nat \<Rightarrow> bit_machine \<Rightarrow> bit_machine \<times> nat \<times> nat" where
  "spec_out n a b =
     (let (ws, faults) = fwrite_bytes (bytes_at (bm_bits b) a (n div 8)) (bm_faults b)
      in (b\<lparr>bm_out := bm_out b @ ws, bm_faults := faults\<rparr>, length ws,
          if length ws \<noteq> n div 8 then 2 else 0))"

definition spec_in :: "nat \<Rightarrow> nat \<Rightarrow> bit_machine \<Rightarrow> bit_machine \<times> nat \<times> nat" where
  "spec_in n a b =
     (let (bs, err, f) = fread_bytes (n div 8) (bm_in b)
      in (b\<lparr>bm_bits := blit (8 * length bs) 0 a (bit_at bs) (bm_bits b), bm_in := f\<rparr>, length bs,
          if length bs \<noteq> n div 8 then (if err then 2 else 1) else 0))"

text \<open>A channel served for its instruction: the transfer, then the status in its source field.\<close>

definition spec_channel :: "config \<Rightarrow> instruction \<Rightarrow> nat \<Rightarrow> bool \<Rightarrow> bit_machine \<Rightarrow> bit_machine" where
  "spec_channel cfg ins slot out b =
     (if fld_n ins = 0 then b
      else let (b, copied, code) =
             (if bad_channel cfg (fld_n ins) (fld_dst ins) then (b, 0, 2)
              else (if out then spec_out else spec_in) (fld_n ins) (fld_dst ins) b)
        in b\<lparr>bm_bits := blit (address_size cfg) 0
               (slot * instruction_size cfg + n_size cfg + address_size cfg)
               (bit (channel_status copied code)) (bm_bits b)\<rparr>)"

definition spec_step :: "config \<Rightarrow> bit_machine \<Rightarrow> bit_machine \<times> space_step_result" where
  "spec_step cfg b =
     (if \<forall>i < processor_n cfg. fld_n (decode cfg (bm_bits b) i) = 0 then (b, SPACE_STEP_IDLE)
      else let out_ins = decode cfg (bm_bits b) 2;
               in_ins = decode cfg (bm_bits b) 1;
               b = spec_channel cfg in_ins 1 False (spec_channel cfg out_ins 2 True b);
               (f, ok) = exec_slots cfg (copy_slots 0 (processor_n cfg)) (bm_bits b)
           in (b\<lparr>bm_bits := f\<rparr>, if ok then SPACE_STEP_DONE else SPACE_STEP_ERROR))"

section \<open>Channels refine their specification\<close>

lemma fread_bytes_length: "fread_bytes k f = (bs, err, f') \<Longrightarrow> length bs \<le> k"
proof (induction k f arbitrary: bs err f' rule: fread_bytes.induct)
  case (3 k b f)
  then show ?case by (cases "fread_bytes k f") auto
qed auto

lemma fwrite_bytes_length: "fwrite_bytes bs f = (ws, f') \<Longrightarrow> length ws \<le> length bs"
proof (induction bs f arbitrary: ws f' rule: fwrite_bytes.induct)
  case (3 b bs fault f)
  then show ?case by (cases fault; cases "fwrite_bytes bs f") auto
qed auto

lemma bytes_at_space:
  assumes "a mod 8 = 0" and "a div 8 + k \<le> length m"
  shows "take k (drop (a div 8) m) = bytes_at (bit_at m) a k"
proof (rule nth_equalityI)
  show "length (take k (drop (a div 8) m)) = length (bytes_at (bit_at m) a k)"
    using assms(2) by (simp add: bytes_at_def)
  fix j assume "j < length (take k (drop (a div 8) m))"
  then have j: "j < k" by simp
  have a: "a + 8 * j = 8 * (a div 8 + j)" using assms(1) by (simp add: algebra_simps mult_div_mod_eq) presburger
  have "m ! (a div 8 + j) = word_field msb_first (bit_at m) (a + 8 * j) 8"
  proof (rule bit_word_eqI)
    fix i assume "i < LENGTH(8)"
    then have i: "i < 8" by simp
    then have "7 - i < 8" "7 - (7 - i) = i" by simp_all
    then have "bit_at m (8 * (a div 8 + j) + (7 - i)) = bit (m ! (a div 8 + j)) i"
      using bit_at_byte [of "a div 8 + j" m "7 - i"] assms(2) j by simp
    then show "bit (m ! (a div 8 + j)) i = bit (word_field msb_first (bit_at m) (a + 8 * j) 8 :: u8) i"
      using i by (simp add: bit_word_field msb_first_def a)
  qed
  then show "take k (drop (a div 8) m) ! j = bytes_at (bit_at m) a k ! j"
    using j assms(2) by (simp add: bytes_at_def)
qed

text \<open>A result of the code against a result of the specification.\<close>

definition transferred :: "config \<Rightarrow> machine \<Rightarrow> (machine \<times> nat \<times> nat) option \<Rightarrow> bit_machine \<times> nat \<times> nat \<Rightarrow> bool" where
  "transferred cfg st r spec \<longleftrightarrow> (\<exists>st' copied code. r = Some (st', copied, code) \<and> machine_ok cfg st' \<and>
     processor st' = processor st \<and> events st' = events st \<and> (abs_of st', copied, code) = spec)"

lemma channel_transfer_out:
  assumes "machine_ok cfg st" and "\<not> bad_channel cfg n a"
  shows "transferred cfg st (channel_transfer True n a st) (spec_out n a (abs_of st))"
proof -
  have a: "a mod 8 = 0" and fits: "a div 8 + n div 8 \<le> length (space st)"
    using assms(2) machine_okD(4) [OF assms(1)] by (auto simp: bad_channel_def)
  then show ?thesis
    using assms(1) bytes_at_space [OF a fits]
    by (auto simp: transferred_def channel_transfer_def spec_out_def abs_of_def machine_ok_def
        split: prod.splits)
qed

lemma channel_transfer_in:
  assumes "machine_ok cfg st" and "\<not> bad_channel cfg n a"
  shows "transferred cfg st (channel_transfer False n a st) (spec_in n a (abs_of st))"
proof -
  obtain bs err f where r: "fread_bytes (n div 8) (in_stream st) = (bs, err, f)"
    by (metis prod_cases3)
  have a: "8 * (a div 8) = a" and fits: "a div 8 + length bs \<le> length (space st)"
    using assms(2) machine_okD(4) [OF assms(1)] fread_bytes_length [OF r]
    by (auto simp: bad_channel_def)
  obtain sp where "mem_move (length bs) bs 0 (space st) (a div 8) = Some sp"
    and "length sp = length (space st)"
    and "bit_at sp = blit (8 * length bs) 0 a (bit_at bs) (bit_at (space st))"
    using mem_move_bits [of 0 "length bs" bs "a div 8" "space st"] fits a by (auto elim: yieldsE)
  then show ?thesis
    using assms(1) r by (simp add: transferred_def channel_transfer_def spec_in_def abs_of_def machine_ok_def)
qed

lemma unat_of_nat_u32: "k < 2 ^ 32 \<Longrightarrow> unat (of_nat k :: u32) = k"
  by (simp add: unat_of_nat)

text \<open>The status word fits its field: no bit of the count is lost.\<close>

lemma channel_status_value:
  assumes "config_ok cfg" and "copied * 8 \<le> n" and "n < space_size cfg div 2"
  shows "unat (channel_status copied code) = 2 * (8 * copied) + of_bool (code = 2)"
    and "2 * (8 * copied) + of_bool (code = 2) < 2 ^ address_size cfg"
proof -
  have small: "2 * (8 * copied) + 1 < space_size cfg" using assms by linarith
  have "space_size cfg \<le> 2 ^ address_size cfg"
    unfolding address_size_def by (rule ceil_log2_least(1)) (use config_bounds(5) [OF assms(1)] in simp)
  then show "2 * (8 * copied) + of_bool (code = 2) < 2 ^ address_size cfg" using small by auto
  have "channel_status copied code = of_nat (2 * (8 * copied) + of_bool (code = 2))"
  proof -
    have "(of_nat (copied * 8 * 2) :: u32) AND of_bool b = 0" for b
      by (cases b) (simp_all add: and_one_eq mod_2_eq_odd)
    then have "(of_nat (copied * 8 * 2) :: u32) OR of_bool b = of_nat (copied * 8 * 2) + of_bool b" for b
      by (simp add: disjunctive_add_eq_or)
    then show ?thesis by (simp add: channel_status_def mult.commute)
  qed
  moreover have "2 * (8 * copied) + of_bool (code = 2) < (2 :: nat) ^ 32"
    using small config_bounds(5) [OF assms(1)] by auto
  ultimately show "unat (channel_status copied code) = 2 * (8 * copied) + of_bool (code = 2)"
    by (simp only: unat_of_nat_u32)
qed

lemma channel_refines:
  assumes ok: "machine_ok cfg st" and slot: "slot < processor_n cfg"
  shows "\<exists>st'. channel cfg observe slot out st = Some st' \<and> machine_ok cfg st' \<and>
    processor st' = processor st \<and> abs_of st' = spec_channel cfg (processor st ! slot) slot out (abs_of st)"
proof (cases "fld_n (processor st ! slot) = 0")
  case True
  then show ?thesis using ok by (simp add: channel_def spec_channel_def)
next
  case False
  define n where "n = fld_n (processor st ! slot)"
  define a where "a = fld_dst (processor st ! slot)"
  define spec where "spec = (if bad_channel cfg n a then (abs_of st, 0, 2)
    else (if out then spec_out else spec_in) n a (abs_of st))"
  have "transferred cfg st
      (if bad_channel cfg n a then Some (st, 0, 2) else channel_transfer out n a st) spec"
    using channel_transfer_out [OF ok, of n a] channel_transfer_in [OF ok, of n a] ok
    by (cases out) (auto simp: spec_def transferred_def)
  then obtain st1 copied code where st1:
      "(if bad_channel cfg n a then Some (st, 0, 2) else channel_transfer out n a st) = Some (st1, copied, code)"
      "machine_ok cfg st1" "processor st1 = processor st" "spec = (abs_of st1, copied, code)"
    by (auto simp: transferred_def)
  define at where "at = slot * instruction_size cfg + n_size cfg + address_size cfg"
  have at: "at + address_size cfg \<le> 8 * length (space st1)"
    using slot_in_space [OF machine_okD(1) [OF ok] slot] machine_okD(4) [OF st1(2)] by (simp add: at_def)
  obtain sp where sp: "write_field_bits at (channel_status copied code) (address_size cfg) (space st1) = Some sp"
      "length sp = length (space st1)"
      "bit_at sp = blit (address_size cfg) 0 at (bit (channel_status copied code)) (bit_at (space st1))"
    using write_field_bits_yields [OF at] by (rule yieldsE)
  have pos: "processor_start + slot * instruction_size cfg + o_tab cfg ! 2 = at" "s_tab cfg ! 2 = address_size cfg"
    by (simp_all add: processor_start_def o_tab_def s_tab_def at_def)
  let ?st' = "st1\<lparr>space := sp\<rparr>"
  have "\<exists>evs. channel cfg observe slot out st = Some (?st'\<lparr>events := evs\<rparr>)"
    using False st1(1,3) sp(1)
    unfolding channel_def Let_def pos n_def [symmetric] a_def [symmetric] bad_channel_def [symmetric]
    by (cases observe) (auto intro: exI [of _ "events st1"])
  then obtain evs where "channel cfg observe slot out st = Some (?st'\<lparr>events := evs\<rparr>)" ..
  moreover have "machine_ok cfg (?st'\<lparr>events := evs\<rparr>)"
    using st1(2) sp(2) by (simp add: machine_ok_def)
  moreover have "abs_of (?st'\<lparr>events := evs\<rparr>) = spec_channel cfg (processor st ! slot) slot out (abs_of st)"
    using False st1(4) sp(3)
    unfolding spec_channel_def n_def [symmetric] a_def [symmetric] spec_def [symmetric] at_def [symmetric]
    by (simp add: abs_of_def)
  ultimately show ?thesis using st1(3) by auto
qed

section \<open>A tick refines its specification\<close>

lemma space_active_decode:
  assumes "machine_ok cfg st"
  shows "space_active cfg st =
    Some (st\<lparr>processor := map (decode cfg (bit_at (space st))) [0..<processor_n cfg]\<rparr>,
          \<exists>i < processor_n cfg. fld_n (decode cfg (bit_at (space st)) i) \<noteq> 0)"
  by (auto simp: space_active_def space_read_processor_decode [OF assms] list_ex_iff)

lemma channels_refine:
  assumes ok: "machine_ok cfg st"
  shows "\<exists>st'. channels cfg observe st = Some st' \<and> machine_ok cfg st' \<and> abs_of st' =
    spec_channel cfg (decode cfg (bit_at (space st)) 1) 1 False
      (spec_channel cfg (decode cfg (bit_at (space st)) 2) 2 True (abs_of st))"
proof -
  let ?dec = "decode cfg (bit_at (space st))"
  have N: "4 \<le> processor_n cfg" by (rule config_bounds(1) [OF machine_okD(1) [OF ok]])
  then have slots: "2 < processor_n cfg" "1 < processor_n cfg" by simp_all
  have len: "length (processor st) = processor_n cfg" by (rule machine_okD(3) [OF ok])
  define st1 where "st1 = st\<lparr>processor := (processor st)[2 := ?dec 2]\<rparr>"
  define st2 where "st2 = st1\<lparr>processor := (processor st1)[1 := ?dec 1]\<rparr>"
  have st1: "fetch_instruction cfg 2 st = Some st1" "machine_ok cfg st1" "space st1 = space st"
    using fetch_instruction_decode [OF ok slots(1)] ok by (simp_all add: st1_def)
  have st2: "fetch_instruction cfg 1 st1 = Some st2" "machine_ok cfg st2" "abs_of st2 = abs_of st"
    "processor st2 ! 2 = ?dec 2" "processor st2 ! 1 = ?dec 1"
    using fetch_instruction_decode [OF st1(2) slots(2)] st1(2,3) slots len
    by (simp_all add: st2_def st1_def abs_of_def)
  obtain st3 where st3: "channel cfg observe 2 True st2 = Some st3" "machine_ok cfg st3"
      "processor st3 = processor st2" "abs_of st3 = spec_channel cfg (?dec 2) 2 True (abs_of st)"
    using channel_refines [OF st2(2) slots(1), of observe True] st2 by auto
  obtain st4 where st4: "channel cfg observe 1 False st3 = Some st4" "machine_ok cfg st4"
      "abs_of st4 = spec_channel cfg (?dec 1) 1 False (abs_of st3)"
    using channel_refines [OF st3(2) slots(2), of observe False] st2(5) st3(3) by auto
  show ?thesis
    unfolding channels_def st1(1) bind.bind_lunit st2(1) st3(1) using st4 st3(4) by simp
qed

lemma space_step_refines_spec:
  assumes ok: "machine_ok cfg st"
  shows "\<exists>st' r. space_step cfg observe st = Some (st', r) \<and> machine_ok cfg st' \<and>
    (abs_of st', r) = spec_step cfg (abs_of st)"
proof -
  let ?dec = "decode cfg (bit_at (space st))"
  define st0 where "st0 = st\<lparr>processor := map ?dec [0..<processor_n cfg]\<rparr>"
  have st0: "machine_ok cfg st0" "abs_of st0 = abs_of st" "space st0 = space st"
    using ok by (simp_all add: st0_def machine_ok_def abs_of_def)
  have active: "space_active cfg st = Some (st0, \<exists>i < processor_n cfg. fld_n (?dec i) \<noteq> 0)"
    unfolding st0_def by (rule space_active_decode [OF ok])
  have bits: "bm_bits (abs_of st) = bit_at (space st)" by (simp add: abs_of_def)
  show ?thesis
  proof (cases "\<exists>i < processor_n cfg. fld_n (?dec i) \<noteq> 0")
    case False
    then show ?thesis using active st0 by (auto simp: space_step_def spec_step_def bits)
  next
    case True
    obtain st1 where st1: "channels cfg observe st0 = Some st1" "machine_ok cfg st1"
        "abs_of st1 = spec_channel cfg (?dec 1) 1 False (spec_channel cfg (?dec 2) 2 True (abs_of st))"
      using channels_refine [OF st0(1)] st0 by auto
    obtain st2 rc where st2: "computation cfg observe st1 = Some (st2, rc)" "machine_ok cfg st2"
        "in_stream st2 = in_stream st1" "out_bytes st2 = out_bytes st1" "out_faults st2 = out_faults st1"
        "(bit_at (space st2), rc = 0) = exec_slots cfg (copy_slots 0 (processor_n cfg)) (bit_at (space st1))"
      using computation_computed [OF st1(2), of observe] by (auto simp: computed_def)
    have "space_step cfg observe st =
        Some (st2, if rc = 0 then SPACE_STEP_DONE else SPACE_STEP_ERROR)"
      using True active st1(1) st2(1) by (simp add: space_step_def)
    moreover have "spec_step cfg (abs_of st) =
        (abs_of st1\<lparr>bm_bits := bit_at (space st2)\<rparr>, if rc = 0 then SPACE_STEP_DONE else SPACE_STEP_ERROR)"
      unfolding spec_step_def Let_def bits st1(3) [symmetric]
      using True st2(6) [symmetric] by (auto simp: abs_of_def)
    moreover have "abs_of st1\<lparr>bm_bits := bit_at (space st2)\<rparr> = abs_of st2"
      using st2(3-5) by (simp add: abs_of_def)
    ultimately show ?thesis using st2(2) by simp
  qed
qed

lemma space_step_cases:
  assumes "machine_ok cfg st"
  obtains st' r where "space_step cfg observe st = Some (st', r)" and "machine_ok cfg st'"
    and "(abs_of st', r) = spec_step cfg (abs_of st)"
  using space_step_refines_spec [OF assms, of observe] by blast

section \<open>Runs of slots\<close>

lemma exec_slots_append:
  "exec_slots cfg (xs @ ys) f =
     (let (g, ok) = exec_slots cfg xs f in if ok then exec_slots cfg ys g else (g, False))"
  by (induction xs arbitrary: f) (auto simp: Let_def)

lemma decode_cong:
  assumes "\<And>p. i * instruction_size cfg \<le> p \<Longrightarrow> p < Suc i * instruction_size cfg \<Longrightarrow> f p = g p"
  shows "decode cfg f i = decode cfg g i"
proof -
  have split: "Suc i * instruction_size cfg = i * instruction_size cfg + n_size cfg + address_size cfg + address_size cfg"
    by (simp add: instruction_size_split)
  have "(word_field lsb_first f at w :: u32) = word_field lsb_first g at w"
    if "i * instruction_size cfg \<le> at" "at + w \<le> Suc i * instruction_size cfg" for at w
    by (rule word_field_cong) (use assms that in simp)
  then show ?thesis unfolding decode_def field_value_def using split by simp
qed

lemma decode_bounds:
  assumes "config_ok cfg"
  shows "fld_n (decode cfg f i) < 2 ^ n_size cfg" and "fld_dst (decode cfg f i) < 2 ^ address_size cfg"
    and "fld_src (decode cfg f i) < 2 ^ address_size cfg"
  using config_bounds(2,3) [OF assms]
  by (simp_all add: decode_def field_value_def word_field_bound n_size_def)

section \<open>Properties\<close>

text \<open>
  A machine with four instructions and 16 bytes, for the witnesses: slot 0 copies 8 bits
  from bit 112 to bit 120.
\<close>

definition demo_config :: config where
  "demo_config = \<lparr>vm_space_bytes = 16, processor_n = 4\<rparr>"

definition demo_machine :: machine where
  "demo_machine = \<lparr>space = [0x10, 0x78, 0x70, 0, 0, 0, 0, 0, 0, 0, 0, 0, 0, 0, 0xAB, 0],
     processor = replicate 4 nop, in_stream = [], out_bytes = [], out_faults = [], events = []\<rparr>"

lemma demo_config_ok: "config_ok demo_config"
  by (simp add: config_ok_def space_configuration_valid_def demo_config_def address_size_def
      ceil_log2_u32_def space_size_def processor_bits_def instruction_size_def n_size_def upt_rec)

lemma demo_machine_ok: "machine_ok demo_config demo_machine"
  using demo_config_ok by (simp add: machine_ok_def demo_machine_def demo_config_def)

text \<open>One tick of it, evaluated: the byte has been copied, and the observer was told.\<close>

lemma demo_step:
  "map_option (\<lambda>(st, r). (space st, r, map ev_slot (events st))) (space_step demo_config True demo_machine)
   = Some ([0x10, 0x78, 0x70, 0, 0, 0, 0, 0, 0, 0, 0, 0, 0, 0, 0xAB, 0xAB], SPACE_STEP_DONE, [0])"
  by code_simp

text \<open>
  C1. A tick of src/space.c is the tick of the bit machine: from every well-formed state it
  is free of undefined behaviour, leaves a well-formed state, and its bits, its device
  streams and its result are those of the specification, whatever the instructions are.
\<close>

theorem space_step_refines:
  assumes "machine_ok cfg st"
  shows "\<exists>st' r. space_step cfg observe st = Some (st', r) \<and> machine_ok cfg st' \<and>
    (abs_of st', r) = spec_step cfg (abs_of st)"
  using assms by (rule space_step_refines_spec)

lemma space_step_refines_witness:
  "\<exists>st' r. space_step demo_config True demo_machine = Some (st', r) \<and> machine_ok demo_config st' \<and>
    (abs_of st', r) = spec_step demo_config (abs_of demo_machine)"
  by (rule space_step_refines) (rule demo_machine_ok)

text \<open>
  A tick is idle exactly when no instruction of the processor has a length; it then
  changes neither the space nor the streams and reports nothing to the observer.
\<close>

theorem space_step_idle:
  assumes "machine_ok cfg st"
  shows "((\<exists>st'. space_step cfg observe st = Some (st', SPACE_STEP_IDLE)) \<longleftrightarrow>
      (\<forall>i < processor_n cfg. fld_n (decode cfg (bit_at (space st)) i) = 0)) \<and>
    (\<forall>st'. space_step cfg observe st = Some (st', SPACE_STEP_IDLE) \<longrightarrow>
      space st' = space st \<and> abs_of st' = abs_of st \<and> events st' = events st)"
proof (cases "\<forall>i < processor_n cfg. fld_n (decode cfg (bit_at (space st)) i) = 0")
  case True
  then show ?thesis
    by (simp add: space_step_def space_active_decode [OF assms] abs_of_def)
next
  case False
  obtain st' r where r: "space_step cfg observe st = Some (st', r)" "(abs_of st', r) = spec_step cfg (abs_of st)"
    using space_step_cases [OF assms] by metis
  have "r \<noteq> SPACE_STEP_IDLE"
    using r(2) False by (auto simp: spec_step_def abs_of_def Let_def split: prod.splits if_splits)
  then show ?thesis using r(1) False by simp
qed

lemma space_step_idle_witness:
  "\<exists>i < processor_n demo_config. fld_n (decode demo_config (bit_at (space demo_machine)) i) \<noteq> 0"
proof -
  have "\<not> (\<exists>st'. space_step demo_config True demo_machine = Some (st', SPACE_STEP_IDLE))"
    using demo_step by auto
  then show ?thesis using space_step_idle [OF demo_machine_ok, of True] by simp
qed

lemma exec_slots_error:
  "exec_slots cfg slots f = (g, False) \<Longrightarrow>
    \<exists>xs i ys. slots = xs @ i # ys \<and> exec_slots cfg xs f = (g, True) \<and>
      fld_n (decode cfg g i) \<noteq> 0 \<and> out_of_space cfg (decode cfg g i)"
proof (induction slots arbitrary: f)
  case (Cons i js)
  define ins where "ins = decode cfg f i"
  show ?case
  proof (cases "fld_n ins \<noteq> 0 \<and> out_of_space cfg ins")
    case True
    then show ?thesis using Cons.prems by (intro exI [of _ "[]"] exI [of _ i] exI [of _ js]) (simp add: ins_def)
  next
    case False
    define f' where "f' = (if fld_n ins = 0 then f else blit (fld_n ins) (fld_src ins) (fld_dst ins) f f)"
    have run: "exec_slots cfg (i # zs) f = exec_slots cfg zs f'" for zs
      using False by (cases "fld_n ins = 0") (simp_all add: f'_def Let_def flip: ins_def)
    then obtain xs j ys where "js = xs @ j # ys" "exec_slots cfg xs f' = (g, True)"
        "fld_n (decode cfg g j) \<noteq> 0 \<and> out_of_space cfg (decode cfg g j)"
      using Cons.IH [of f'] Cons.prems by metis
    then show ?thesis using run by (intro exI [of _ "i # xs"] exI [of _ j] exI [of _ ys]) simp
  qed
qed simp

text \<open>
  \<open>computation\<close> fails only at an instruction that leaves the space. The copies of the
  earlier slots have then been made, the failing one has not changed anything, and the
  slots after it have not been executed.
\<close>

theorem computation_error:
  assumes "machine_ok cfg st" and "computation cfg observe st = Some (st', -1)"
  shows "\<exists>xs i ys. copy_slots 0 (processor_n cfg) = xs @ i # ys \<and>
    exec_slots cfg xs (bit_at (space st)) = (bit_at (space st'), True) \<and>
    fld_n (decode cfg (bit_at (space st')) i) \<noteq> 0 \<and> out_of_space cfg (decode cfg (bit_at (space st')) i)"
  using computation_computed [OF assms(1), of observe] assms(2)
  by (intro exec_slots_error) (auto simp: computed_def)

text \<open>In this machine the source range of slot 0 runs past the end.\<close>

definition failing_machine :: machine where
  "failing_machine = demo_machine\<lparr>space := [0x10, 0x7F, 0xF0, 0, 0, 0, 0, 0, 0, 0, 0, 0, 0, 0, 0xAB, 0]\<rparr>"

lemma computation_error_witness:
  "\<exists>st'. computation demo_config False failing_machine = Some (st', -1) \<and>
    (\<exists>xs i ys. copy_slots 0 (processor_n demo_config) = xs @ i # ys \<and>
      exec_slots demo_config xs (bit_at (space failing_machine)) = (bit_at (space st'), True) \<and>
      fld_n (decode demo_config (bit_at (space st')) i) \<noteq> 0 \<and>
      out_of_space demo_config (decode demo_config (bit_at (space st')) i))"
proof -
  have ok: "machine_ok demo_config failing_machine"
    using demo_machine_ok by (simp add: failing_machine_def machine_ok_def demo_config_def)
  have "map_option snd (computation demo_config False failing_machine) = Some (-1)"
    by code_simp
  then obtain st' where st': "computation demo_config False failing_machine = Some (st', -1)" by auto
  then show ?thesis using computation_error [OF ok st'] by blast
qed

text \<open>
  The status a served channel leaves in its instruction: twice the number of copied
  bits, plus one on an error. A bad request (length or address not a whole number of
  bytes, or a range that does not fit) is answered with no transfer and the error bit, and
  a transfer never copies more than was asked.
\<close>

theorem channel_reports_status:
  assumes ok: "machine_ok cfg st" and slot: "slot < processor_n cfg"
    and active: "fld_n (processor st ! slot) \<noteq> 0"
  shows "\<exists>st' copied err. channel cfg observe slot out st = Some st' \<and> machine_ok cfg st' \<and>
    fld_src (decode cfg (bit_at (space st')) slot) = 2 * (8 * copied) + of_bool err \<and>
    8 * copied \<le> fld_n (processor st ! slot) \<and>
    (bad_channel cfg (fld_n (processor st ! slot)) (fld_dst (processor st ! slot)) \<longrightarrow> copied = 0 \<and> err)"
proof -
  define n where "n = fld_n (processor st ! slot)"
  define a where "a = fld_dst (processor st ! slot)"
  define b where "b = abs_of st"
  obtain st' where st': "channel cfg observe slot out st = Some st'" "machine_ok cfg st'"
      "abs_of st' = spec_channel cfg (processor st ! slot) slot out b"
    using channel_refines [OF ok slot, of observe out] by (auto simp: b_def)
  obtain b1 copied code where r: "(if bad_channel cfg n a then (b, 0, 2)
      else (if out then spec_out else spec_in) n a b) = (b1, copied, code)"
    by (metis prod_cases3)
  have bad: "bad_channel cfg n a \<Longrightarrow> copied = 0 \<and> code = 2" using r by simp
  have le: "copied * 8 \<le> n"
  proof (cases "bad_channel cfg n a")
    case False
    have "copied \<le> n div 8"
      using r False fread_bytes_length fwrite_bytes_length
      by (cases out) (fastforce simp: spec_out_def spec_in_def bytes_at_def split: prod.splits)+
    then show ?thesis by simp
  qed (simp add: bad)
  have size: "n < space_size cfg div 2" if "\<not> bad_channel cfg n a" using that by (auto simp: bad_channel_def)
  have "0 < space_size cfg div 2" using config_space_min [OF machine_okD(1) [OF ok]] by linarith
  then have status: "unat (channel_status copied code) = 2 * (8 * copied) + of_bool (code = 2)"
      "2 * (8 * copied) + of_bool (code = 2) < 2 ^ address_size cfg"
    using channel_status_value [OF machine_okD(1) [OF ok], of copied "8 * copied" code] bad le size
    by (cases "bad_channel cfg n a"; fastforce)+
  let ?at = "slot * instruction_size cfg + n_size cfg + address_size cfg"
  have "abs_of st' = b1\<lparr>bm_bits := blit (address_size cfg) 0 ?at (bit (channel_status copied code)) (bm_bits b1)\<rparr>"
    unfolding st'(3) spec_channel_def n_def [symmetric] a_def [symmetric] r using active by (simp add: n_def)
  then have bits: "bit_at (space st') = blit (address_size cfg) 0 ?at (bit (channel_status copied code)) (bm_bits b1)"
    by (auto simp: abs_of_def dest: arg_cong [where f = bm_bits])
  have "word_field lsb_first (bit_at (space st')) ?at (address_size cfg)
      = take_bit (address_size cfg) (channel_status copied code)"
    by (rule bit_word_eqI) (auto simp: bits bit_simps blit_in)
  then have "fld_src (decode cfg (bit_at (space st')) slot)
      = take_bit (address_size cfg) (unat (channel_status copied code))"
    by (simp add: decode_def field_value_def unsigned_take_bit_eq)
  then have "fld_src (decode cfg (bit_at (space st')) slot) = 2 * (8 * copied) + of_bool (code = 2)"
    using status by (simp add: take_bit_nat_eq_self)
  then show ?thesis
    using st'(1,2) le bad by (intro exI [of _ st'] exI [of _ copied] exI [of _ "code = 2"])
      (auto simp flip: n_def a_def)
qed

lemma channel_reports_status_witness:
  "let st = demo_machine\<lparr>processor := [nop, nop, \<lparr>fld_n = 8, fld_dst = 112, fld_src = 0\<rparr>, nop]\<rparr>
   in \<exists>st' copied err. channel demo_config False 2 True st = Some st' \<and> machine_ok demo_config st' \<and>
    fld_src (decode demo_config (bit_at (space st')) 2) = 2 * (8 * copied) + of_bool err \<and>
    8 * copied \<le> 8 \<and> (bad_channel demo_config 8 112 \<longrightarrow> copied = 0 \<and> err)"
proof -
  let ?st = "demo_machine\<lparr>processor := [nop, nop, \<lparr>fld_n = 8, fld_dst = 112, fld_src = 0\<rparr>, nop]\<rparr>"
  have "machine_ok demo_config ?st" using demo_machine_ok by (simp add: machine_ok_def demo_config_def)
  from channel_reports_status [OF this, of 2 False True] show ?thesis
    by (simp add: demo_config_def Let_def)
qed

text \<open>
  The observer watches and does not interfere: with it or without it a tick has the same
  bits, streams and result, and \<open>computation\<close> reports to it, in order, exactly the
  instructions that were executed (the failing one included).
\<close>

theorem observer_transparent:
  assumes "machine_ok cfg st"
  shows "map_option (\<lambda>(st', r). (abs_of st', r)) (space_step cfg True st)
       = map_option (\<lambda>(st', r). (abs_of st', r)) (space_step cfg False st) \<and>
    (\<exists>st' rc. computation cfg True st = Some (st', rc) \<and> events st' = events st @
       map copy_event (executed cfg (copy_slots 0 (processor_n cfg)) (bit_at (space st))))"
  using space_step_refines_spec [OF assms, of True] space_step_refines_spec [OF assms, of False]
    computation_computed [OF assms, of True]
  by (auto simp: computed_def)

lemma observer_transparent_witness:
  "map_option (\<lambda>(st', r). (abs_of st', r)) (space_step demo_config True demo_machine)
   = map_option (\<lambda>(st', r). (abs_of st', r)) (space_step demo_config False demo_machine)"
  using observer_transparent [OF demo_machine_ok] by blast

end
