(* ===== verification/CopyField.thy ===== *)
theory CopyField
  imports SpaceSpec
begin

text \<open>
  runtime/gcc/copy_emit.c, \<open>field\<close>: the generator of copy programs stores numbers byte by
  byte with a table of reversed bytes. The emulator reads them with \<open>get_argument\<close>; the
  interpretation at the end says that the two agree.

  \<open>uint32_t\<close> positions and widths are natural numbers: no sum of them exceeds the size of
  the buffer in bits.
\<close>

section \<open>Fields\<close>

definition reverse_byte :: "u8 list" where
  "reverse_byte =
  [0, 128, 64, 192, 32, 160, 96, 224, 16, 144, 80, 208, 48, 176, 112, 240,
   8, 136, 72, 200, 40, 168, 104, 232, 24, 152, 88, 216, 56, 184, 120, 248,
   4, 132, 68, 196, 36, 164, 100, 228, 20, 148, 84, 212, 52, 180, 116, 244,
   12, 140, 76, 204, 44, 172, 108, 236, 28, 156, 92, 220, 60, 188, 124, 252,
   2, 130, 66, 194, 34, 162, 98, 226, 18, 146, 82, 210, 50, 178, 114, 242,
   10, 138, 74, 202, 42, 170, 106, 234, 26, 154, 90, 218, 58, 186, 122, 250,
   6, 134, 70, 198, 38, 166, 102, 230, 22, 150, 86, 214, 54, 182, 118, 246,
   14, 142, 78, 206, 46, 174, 110, 238, 30, 158, 94, 222, 62, 190, 126, 254,
   1, 129, 65, 193, 33, 161, 97, 225, 17, 145, 81, 209, 49, 177, 113, 241,
   9, 137, 73, 201, 41, 169, 105, 233, 25, 153, 89, 217, 57, 185, 121, 249,
   5, 133, 69, 197, 37, 165, 101, 229, 21, 149, 85, 213, 53, 181, 117, 245,
   13, 141, 77, 205, 45, 173, 109, 237, 29, 157, 93, 221, 61, 189, 125, 253,
   3, 131, 67, 195, 35, 163, 99, 227, 19, 147, 83, 211, 51, 179, 115, 243,
   11, 139, 75, 203, 43, 171, 107, 235, 27, 155, 91, 219, 59, 187, 123, 251,
   7, 135, 71, 199, 39, 167, 103, 231, 23, 151, 87, 215, 55, 183, 119, 247,
   15, 143, 79, 207, 47, 175, 111, 239, 31, 159, 95, 223, 63, 191, 127, 255]"

definition chunk :: "nat \<Rightarrow> nat \<Rightarrow> nat" where
  "chunk offset width = (if 8 - offset > width then width else 8 - offset)"

definition chunk_mask :: "nat \<Rightarrow> nat \<Rightarrow> u8" where
  "chunk_mask offset count = drop_bit offset 255 AND push_bit (8 - offset - count) 255"

definition field_byte :: "nat \<Rightarrow> nat \<Rightarrow> u32 \<Rightarrow> mem \<Rightarrow> mem option" where
  "field_byte at count v m = do {
     let offset = at mod 8;
     let mask = chunk_mask offset count;
     b \<leftarrow> mem_get m (at div 8);
     mem_set m (at div 8)
       ((b AND NOT mask) OR (drop_bit offset (reverse_byte ! unat (v AND 255)) AND mask))
   }"

lemma chunk_less: "0 < width \<Longrightarrow> width - chunk (at mod 8) width < width"
  by (simp add: chunk_def)

function field_loop :: "nat \<Rightarrow> nat \<Rightarrow> u32 \<Rightarrow> mem \<Rightarrow> mem option" where
  "field_loop at width v m =
     (if width = 0 then Some m
      else let count = chunk (at mod 8) width in do {
        m \<leftarrow> field_byte at count v m;
        field_loop (at + count) (width - count) (drop_bit count v) m
      })"
  by pat_completeness auto

termination
  by (relation "measure (\<lambda>(at, width, v, m). width)") (simp_all add: chunk_less)

declare field_loop.simps [simp del]

definition field :: "nat \<Rightarrow> nat \<Rightarrow> u32 \<Rightarrow> mem \<Rightarrow> mem option" where
  "field at width v m =
     (if width = 1 then do {
        let mask = push_bit (7 - at mod 8) (1 :: u8);
        b \<leftarrow> mem_get m (at div 8);
        mem_set m (at div 8) ((b AND NOT mask) OR (if v AND 1 \<noteq> 0 then mask else 0))
      } else field_loop at width v m)"

lemma reverse_byte_table:
  "map (\<lambda>b. map (bit b) [0..<8]) reverse_byte
   = map (\<lambda>b. map (\<lambda>k. bit b (7 - k)) [0..<8]) (map of_nat [0..<256] :: u8 list)"
  by (simp add: reverse_byte_def upt_rec)

lemma length_reverse_byte: "length reverse_byte = 256"
  using arg_cong [OF reverse_byte_table, of length] by simp

lemma reverse_byte_bit:
  assumes "i < 256" and "k < 8"
  shows "bit (reverse_byte ! i) k \<longleftrightarrow> bit i (7 - k)"
proof -
  have "map (\<lambda>b. map (bit b) [0..<8]) reverse_byte ! i ! k
      = map (\<lambda>b. map (\<lambda>k. bit b (7 - k)) [0..<8]) (map of_nat [0..<256] :: u8 list) ! i ! k"
    by (simp only: reverse_byte_table)
  then have "bit (reverse_byte ! i) k \<longleftrightarrow> bit (of_nat i :: u8) (7 - k)"
    using assms by (simp only: nth_map length_reverse_byte length_map length_upt nth_upt) simp
  then show ?thesis by (simp add: bit_of_nat_iff less_imp_diff_less)
qed

lemma reverse_byte_u32:
  fixes v :: u32
  assumes "k < 8"
  shows "bit (reverse_byte ! unat (v AND 255)) k \<longleftrightarrow> bit v (7 - k)"
proof -
  have m: "v AND 255 = take_bit 8 v"
    by (simp add: take_bit_eq_mask mask_eq_exp_minus_1)
  have less: "unat (v AND 255) < 256"
    using take_bit_nat_less_exp [of 8 "unat v"] by (simp add: m unsigned_take_bit_eq)
  have "7 - k < 8" by simp
  then have "bit (unat (v AND 255)) (7 - k) \<longleftrightarrow> bit v (7 - k)"
    by (simp add: m unsigned_take_bit_eq bit_take_bit_iff bit_unsigned_iff)
  then show ?thesis using reverse_byte_bit [OF less assms] by simp
qed

lemma bit_255_u8: "bit (255 :: u8) n \<longleftrightarrow> n < 8"
proof -
  have "(255 :: u8) = mask 8" by (simp add: mask_eq_exp_minus_1)
  then show ?thesis by (simp only: bit_mask_iff) simp
qed

lemma chunk_mask_bit:
  assumes "0 < c" and "a + c \<le> 8" and "q < 8"
  shows "bit (chunk_mask a c) (7 - q) \<longleftrightarrow> a \<le> q \<and> q < a + c"
  using assms
  unfolding chunk_mask_def bit_and_iff bit_drop_bit_eq bit_push_bit_iff o_def bit_255_u8
  by auto

lemma field_byte_yields:
  assumes byte: "at div 8 < length m" and c: "0 < c" "at mod 8 + c \<le> 8"
  shows "yields (field_byte at c v m) (length m) (blit c 0 at (bit v) (bit_at m))"
proof -
  define a where "a = at mod 8"
  define b' where "b' = (m ! (at div 8) AND NOT (chunk_mask a c)) OR
    (drop_bit a (reverse_byte ! unat (v AND 255)) AND chunk_mask a c)"
  have ata: "at = 8 * (at div 8) + a" using mult_div_mod_eq [of 8 at] unfolding a_def by linarith
  have ac: "a + c \<le> 8" using c by (simp add: a_def)
  have bits: "bit b' (7 - p mod 8) = blit c 0 at (bit v) (bit_at m) p" if p: "p div 8 = at div 8" for p
  proof -
    define q where "q = p mod 8"
    have q: "q < 8" by (simp add: q_def)
    have pq: "p = 8 * (at div 8) + q" using mult_div_mod_eq [of 8 p] p unfolding q_def by linarith
    have rev: "bit (drop_bit a (reverse_byte ! unat (v AND 255))) (7 - q) \<longleftrightarrow> bit v (q - a)" if "a \<le> q"
    proof -
      have "a + (7 - q) < 8" "7 - (a + (7 - q)) = q - a" using that q by linarith+
      then show ?thesis by (simp add: bit_drop_bit_eq reverse_byte_u32)
    qed
    have old: "bit_at m p = bit (m ! (at div 8)) (7 - q)" using p byte by (simp add: bit_at_def q_def)
    have range: "at \<le> p \<and> p < at + c \<longleftrightarrow> a \<le> q \<and> q < a + c" "p - at = q - a"
      using pq ata by linarith+
    have "7 - q < 8" by simp
    then show ?thesis
      unfolding b'_def blit_def range old q_def [symmetric]
      using chunk_mask_bit [OF c(1) ac q] rev
      by (simp add: bit_or_iff bit_and_iff bit_not_iff) blast
  qed
  have same: "bit_at m p = blit c 0 at (bit v) (bit_at m) p" if "p div 8 \<noteq> at div 8" for p
  proof -
    have "\<not> (at \<le> p \<and> p < at + c)"
    proof
      assume "at \<le> p \<and> p < at + c"
      then have "at div 8 \<le> p div 8" "p < 8 * (at div 8) + 8" using ata ac by (auto intro: div_le_mono)
      then show False using that by linarith
    qed
    then show ?thesis by (auto simp: blit_def)
  qed
  have "field_byte at c v m = mem_set m (at div 8) b'"
    using byte by (simp add: field_byte_def b'_def a_def Let_def)
  moreover have "yields (mem_set m (at div 8) b') (length m) (blit c 0 at (bit v) (bit_at m))"
    by (rule yields_cong [OF mem_set_bits [OF byte]]) (auto simp: bits same fun_eq_iff)
  ultimately show ?thesis by simp
qed

lemma field_loop_yields:
  assumes "at + width \<le> 8 * length m"
  shows "yields (field_loop at width v m) (length m) (blit width 0 at (bit v) (bit_at m))"
  using assms
proof (induction width arbitrary: at v m rule: less_induct)
  case (less width)
  show ?case
  proof (cases "width = 0")
    case True
    then show ?thesis by (subst field_loop.simps) (simp add: yields_def)
  next
    case False
    define c where "c = chunk (at mod 8) width"
    have "at mod 8 < 8" by simp
    then have c: "0 < c" "at mod 8 + c \<le> 8" "c \<le> width" using False unfolding c_def chunk_def by auto
    have byte: "at div 8 < length m" using less.prems False by linarith
    have unfold: "field_loop at width v m =
        Option.bind (field_byte at c v m) (field_loop (at + c) (width - c) (drop_bit c v))"
      using False by (subst field_loop.simps) (simp add: Let_def c_def)
    have "yields (field_loop (at + c) (width - c) (drop_bit c v) m') (length m)
        (blit width 0 at (bit v) (bit_at m))"
      if m': "length m' = length m" "bit_at m' = blit c 0 at (bit v) (bit_at m)" for m'
    proof -
      have "yields (field_loop (at + c) (width - c) (drop_bit c v) m') (length m')
          (blit (width - c) 0 (at + c) (bit (drop_bit c v)) (bit_at m'))"
        by (rule less.IH) (use c less.prems m' in auto)
      moreover have "blit (width - c) 0 (at + c) (bit (drop_bit c v)) (bit_at m') = blit width 0 at (bit v) (bit_at m)"
        using c by (auto simp: m' blit_def fun_eq_iff bit_drop_bit_eq)
      ultimately show ?thesis using m' by simp
    qed
    then show ?thesis unfolding unfold by (rule yields_bind [OF field_byte_yields [OF byte c(1,2)]])
  qed
qed

lemma field_yields:
  assumes "at + width \<le> 8 * length m"
  shows "yields (field at width v m) (length m) (blit width 0 at (bit v) (bit_at m))"
proof (cases "width = 1")
  case True
  then have byte: "at div 8 < length m" using assms by linarith
  have "yields (bit_set_ptr m at (v AND 1)) (length m) (blit width 0 at (bit v) (bit_at m))"
    using True assms
    by (intro yields_cong [OF ptr_bits.setb_bits])
      (auto simp: blit_def fun_eq_iff and_one_eq mod_2_eq_odd bit_0)
  moreover have "field at width v m = bit_set_ptr m at (v AND 1)"
    using True byte unfolding field_def bit_set_ptr_def
    by (auto simp: Let_def intro!: arg_cong [where f = "mem_set m (at div 8)"] bit_word_eqI)
      (auto simp: bit_simps)
  ultimately show ?thesis by simp
next
  case False
  then show ?thesis using field_loop_yields [OF assms] by (simp add: field_def)
qed

text \<open>The generator's fields are the emulator's fields.\<close>

interpretation emit_field: field_codec "\<lambda>at v w. field at w v" get_argument lsb_first 31
  by unfold_locales (simp_all add: field_yields get_argument_field)

end
