(* ===== verification/CopyEmit.thy ===== *)
theory CopyEmit
  imports CopyField
begin

text \<open>
  runtime/gcc/copy_emit.c, layers: the generator of copy programs and what the instructions
  that it emits compute.

  The struct \<open>cs_copy_image\<close> describes a layer (256 instructions) of a program under
  construction inside a byte buffer. Several structs point to the same buffer, so the buffer
  is passed through the operations explicitly and the record holds the other fields only.
  \<open>uint32_t\<close> addresses and widths are natural numbers below \<open>2 ^ 32\<close>; the one place where
  a sum may wrap around, \<open>overlaps\<close>, has the reduction written out. The null checks of the
  pointers have no counterpart. \<open>None\<close> is undefined behaviour, an access outside the buffer;
  a rejected request is the return code -1.
\<close>

section \<open>Layers and rows\<close>

record cs_copy_image =
  im_bytes :: nat
  im_space_bits :: nat
  im_layer :: nat
  im_layer_bits :: nat
  im_address_bits :: nat
  im_count_bits :: nat
  im_instruction_bits :: nat
  im_slot :: nat

definition uint32_max :: nat where
  "uint32_max = 2 ^ 32 - 1"

definition fits :: "nat \<Rightarrow> nat \<Rightarrow> nat \<Rightarrow> bool" where
  "fits address width limit \<longleftrightarrow> address \<le> limit \<and> width \<le> limit - address"

definition overlaps :: "nat \<Rightarrow> nat \<Rightarrow> nat \<Rightarrow> nat \<Rightarrow> bool" where
  "overlaps a an b bn \<longleftrightarrow> a < (b + bn) mod 2 ^ 32 \<and> b < (a + an) mod 2 ^ 32"

text \<open>Initialisation: the new image, or \<open>None\<close> for the return code -1.\<close>

definition cs_copy_image_init ::
  "nat \<Rightarrow> nat \<Rightarrow> nat \<Rightarrow> mem \<Rightarrow> (mem \<times> cs_copy_image option) option" where
  "cs_copy_image_init bytes address_bits layer m =
     (if address_bits < 2 \<or> address_bits > 31 \<or> bytes > uint32_max div 8 then Some (m, None)
      else let instruction_bits = 3 * address_bits - 1;
               layer_bits = 256 * instruction_bits;
               space_bits = 2 ^ address_bits
      in if layer AND 7 \<noteq> 0 \<or> bytes * 8 > space_bits \<or> \<not> fits layer layer_bits (bytes * 8)
         then Some (m, None)
         else do {
           m \<leftarrow> mem_fill (layer_bits div 8) 0 m (layer div 8);
           Some (m, Some \<lparr>im_bytes = bytes, im_space_bits = space_bits, im_layer = layer,
             im_layer_bits = layer_bits, im_address_bits = address_bits, im_count_bits = address_bits - 1,
             im_instruction_bits = instruction_bits, im_slot = 3\<rparr>)
         })"

definition cs_copy_constant :: "cs_copy_image \<Rightarrow> nat \<Rightarrow> nat \<Rightarrow> u32 \<Rightarrow> mem \<Rightarrow> (mem \<times> int) option" where
  "cs_copy_constant img at width v m =
     (if width = 0 \<or> width > 32 \<or> \<not> fits at width (im_bytes img * 8) then Some (m, -1)
      else do { m \<leftarrow> field at width v m; Some (m, 0) })"

definition row_valid :: "cs_copy_image \<Rightarrow> nat \<Rightarrow> nat \<Rightarrow> nat \<Rightarrow> nat \<Rightarrow> bool" where
  "row_valid img slot count destination source \<longleftrightarrow>
     \<not> (slot \<ge> 256 \<or> count \<ge> 2 ^ im_count_bits img \<or> \<not> fits destination count (im_space_bits img) \<or>
        \<not> fits source count (im_space_bits img) \<or> destination \<ge> im_space_bits img \<or>
        source \<ge> im_space_bits img)"

definition cs_copy_row ::
  "cs_copy_image \<Rightarrow> nat \<Rightarrow> nat \<Rightarrow> nat \<Rightarrow> nat \<Rightarrow> mem \<Rightarrow> (mem \<times> int) option" where
  "cs_copy_row img slot count destination source m =
     (if \<not> row_valid img slot count destination source then Some (m, -1)
      else do {
        let at = im_layer img + slot * im_instruction_bits img;
        m \<leftarrow> field at (im_count_bits img) (of_nat count) m;
        m \<leftarrow> field (at + im_count_bits img) (im_address_bits img) (of_nat destination) m;
        m \<leftarrow> field (at + im_count_bits img + im_address_bits img) (im_address_bits img) (of_nat source) m;
        Some (m, 0)
      })"

definition cs_copy_emit ::
  "nat \<Rightarrow> nat \<Rightarrow> nat \<Rightarrow> cs_copy_image \<times> mem \<Rightarrow> ((cs_copy_image \<times> mem) \<times> int) option" where
  "cs_copy_emit count destination source = (\<lambda>(img, m).
     if im_slot img \<ge> 255 then Some ((img, m), -1)
     else do {
       (m, rc) \<leftarrow> cs_copy_row img (im_slot img) count destination source m;
       if rc \<noteq> 0 then Some ((img, m), -1)
       else Some ((img\<lparr>im_slot := im_slot img + 1\<rparr>, m), 0)
     })"

text \<open>A call whose return code is ignored.\<close>

definition emit_row :: "nat \<Rightarrow> nat \<Rightarrow> nat \<Rightarrow> cs_copy_image \<times> mem \<Rightarrow> (cs_copy_image \<times> mem) option" where
  "emit_row count destination source st = map_option fst (cs_copy_emit count destination source st)"

section \<open>Arithmetic\<close>

definition add_valid :: "cs_copy_image \<Rightarrow> nat \<Rightarrow> nat \<Rightarrow> nat \<Rightarrow> nat \<Rightarrow> nat \<Rightarrow> nat \<Rightarrow> bool" where
  "add_valid img destination left right table temporary carry \<longleftrightarrow>
     (let addresses = [destination, left, right, table, temporary, carry];
          widths = [32, 32, 32, 16, 2, 1]
      in \<not> (im_address_bits img < 5 \<or> im_slot img > 255 - 193 \<or> table AND 15 \<noteq> 0) \<and>
         list_all (\<lambda>i. fits (addresses ! i) (widths ! i) (im_space_bits img) \<and>
           \<not> overlaps (addresses ! i) (widths ! i) (im_layer img) (im_layer_bits img) \<and>
           \<not> overlaps (addresses ! i) (widths ! i) 0 (im_layer_bits img) \<and>
           list_all (\<lambda>j. \<not> ((i \<ge> 3 \<or> j \<ge> 3) \<and> overlaps (addresses ! i) (widths ! i) (addresses ! j) (widths ! j)))
             [0..<i]) [0..<6] \<and>
         list_all (\<lambda>i. \<not> (destination \<noteq> addresses ! i \<and> overlaps destination 32 (addresses ! i) 32)) [1..<3] \<and>
         fits table 16 (im_bytes img * 8) \<and> fits carry 1 (im_bytes img * 8))"

text \<open>Entry \<open>i\<close> of the truth table: sum or difference in bit 0, carry or borrow in bit 1.\<close>

definition arith_value :: "bool \<Rightarrow> nat \<Rightarrow> u32" where
  "arith_value subtract i =
     (let a = i AND 1; b = drop_bit 1 i AND 1; c = drop_bit 2 i AND 1
      in if subtract
         then ((of_nat a - of_nat b - of_nat c) AND 1) OR push_bit 1 (of_bool (a < b + c))
         else of_nat (a + b + c))"

definition arith_bit ::
  "nat \<Rightarrow> nat \<Rightarrow> nat \<Rightarrow> nat \<Rightarrow> nat \<Rightarrow> nat \<Rightarrow> nat \<Rightarrow> cs_copy_image \<times> mem \<Rightarrow> (cs_copy_image \<times> mem) option" where
  "arith_bit destination left right table temporary carry k = (\<lambda>(img, m). do {
     let read = (im_slot img + 3) * im_instruction_bits img;
     let source_field = read + im_count_bits img + im_address_bits img;
     st \<leftarrow> emit_row 1 (source_field + 1) (left + k) (img, m);
     st \<leftarrow> emit_row 1 (source_field + 2) (right + k) st;
     st \<leftarrow> emit_row 1 (source_field + 3) carry st;
     st \<leftarrow> emit_row 2 temporary table st;
     st \<leftarrow> emit_row 1 (destination + k) temporary st;
     emit_row 1 carry (temporary + 1) st
   })"

definition arithmetic32 ::
  "bool \<Rightarrow> nat \<Rightarrow> nat \<Rightarrow> nat \<Rightarrow> nat \<Rightarrow> nat \<Rightarrow> nat \<Rightarrow> cs_copy_image \<times> mem \<Rightarrow>
   ((cs_copy_image \<times> mem) \<times> int) option" where
  "arithmetic32 subtract destination left right table temporary carry = (\<lambda>(img, m).
     if \<not> add_valid img destination left right table temporary carry then Some ((img, m), -1)
     else do {
       m \<leftarrow> for_up (\<lambda>i. field (table + 2 * i) 2 (arith_value subtract i)) 0 8 m;
       m \<leftarrow> field carry 1 0 m;
       st \<leftarrow> emit_row 1 carry table (img, m);
       st \<leftarrow> for_up (arith_bit destination left right table temporary carry) 0 32 st;
       Some (st, 0)
     })"

definition cs_copy_add32 ::
  "nat \<Rightarrow> nat \<Rightarrow> nat \<Rightarrow> nat \<Rightarrow> nat \<Rightarrow> nat \<Rightarrow> cs_copy_image \<times> mem \<Rightarrow> ((cs_copy_image \<times> mem) \<times> int) option" where
  "cs_copy_add32 = arithmetic32 False"

definition cs_copy_sub32 ::
  "nat \<Rightarrow> nat \<Rightarrow> nat \<Rightarrow> nat \<Rightarrow> nat \<Rightarrow> nat \<Rightarrow> cs_copy_image \<times> mem \<Rightarrow> ((cs_copy_image \<times> mem) \<times> int) option" where
  "cs_copy_sub32 = arithmetic32 True"

section \<open>Bitwise operations\<close>

datatype cs_copy_bit_operation = CS_COPY_AND | CS_COPY_OR | CS_COPY_XOR

definition truth :: "cs_copy_bit_operation \<Rightarrow> u32" where
  "truth operation = (case operation of CS_COPY_AND \<Rightarrow> 8 | CS_COPY_OR \<Rightarrow> 14 | CS_COPY_XOR \<Rightarrow> 6)"

definition bits_valid :: "cs_copy_image \<Rightarrow> nat \<Rightarrow> nat \<Rightarrow> nat \<Rightarrow> nat \<Rightarrow> bool" where
  "bits_valid img destination left right table \<longleftrightarrow>
     (let addresses = [destination, left, right, table]; widths = [32, 32, 32, 4]
      in \<not> (im_slot img > 255 - 96 \<or> table AND 3 \<noteq> 0 \<or> \<not> fits table 4 (im_bytes img * 8)) \<and>
         list_all (\<lambda>i. fits (addresses ! i) (widths ! i) (im_space_bits img) \<and>
           \<not> overlaps (addresses ! i) (widths ! i) 0 (im_layer_bits img) \<and>
           \<not> overlaps (addresses ! i) (widths ! i) (im_layer img) (im_layer_bits img) \<and>
           \<not> (i < 3 \<and> overlaps (addresses ! i) 32 table 4)) [0..<4] \<and>
         list_all (\<lambda>i. \<not> (destination \<noteq> addresses ! i \<and> overlaps destination 32 (addresses ! i) 32)) [1..<3])"

definition bits_bit ::
  "nat \<Rightarrow> nat \<Rightarrow> nat \<Rightarrow> nat \<Rightarrow> nat \<Rightarrow> cs_copy_image \<times> mem \<Rightarrow> (cs_copy_image \<times> mem) option" where
  "bits_bit destination left right table k = (\<lambda>(img, m). do {
     let source_field = (im_slot img + 2) * im_instruction_bits img + im_count_bits img + im_address_bits img;
     st \<leftarrow> emit_row 1 source_field (left + k) (img, m);
     st \<leftarrow> emit_row 1 (source_field + 1) (right + k) st;
     emit_row 1 (destination + k) table st
   })"

definition cs_copy_bits32 ::
  "cs_copy_bit_operation \<Rightarrow> nat \<Rightarrow> nat \<Rightarrow> nat \<Rightarrow> nat \<Rightarrow> cs_copy_image \<times> mem \<Rightarrow>
   ((cs_copy_image \<times> mem) \<times> int) option" where
  "cs_copy_bits32 operation destination left right table = (\<lambda>(img, m).
     if \<not> bits_valid img destination left right table then Some ((img, m), -1)
     else do {
       m \<leftarrow> field table 4 (truth operation) m;
       st \<leftarrow> for_up (bits_bit destination left right table) 0 32 (img, m);
       Some (st, 0)
     })"

section \<open>Well-formed layers\<close>

definition image_ok :: "cs_copy_image \<Rightarrow> mem \<Rightarrow> bool" where
  "image_ok img m \<longleftrightarrow> 2 \<le> im_address_bits img \<and> im_address_bits img \<le> 31 \<and>
     im_space_bits img = 2 ^ im_address_bits img \<and> im_count_bits img = im_address_bits img - 1 \<and>
     im_instruction_bits img = 3 * im_address_bits img - 1 \<and>
     im_layer_bits img = 256 * im_instruction_bits img \<and> length m = im_bytes img \<and>
     im_bytes img * 8 \<le> im_space_bits img \<and> im_layer img mod 8 = 0 \<and>
     im_layer img + im_layer_bits img \<le> im_bytes img * 8 \<and> 3 \<le> im_slot img \<and> im_slot img \<le> 255"

text \<open>The emulator that runs the image: all of the address space, 256 instructions.\<close>

definition img_config :: "cs_copy_image \<Rightarrow> config" where
  "img_config img = \<lparr>vm_space_bytes = 2 ^ im_address_bits img div 8, processor_n = 256\<rparr>"

lemma image_okD:
  assumes "image_ok img m"
  shows "im_space_bits img = 2 ^ im_address_bits img" and "im_count_bits img = im_address_bits img - 1"
    and "im_instruction_bits img = 3 * im_address_bits img - 1"
    and "im_layer_bits img = 256 * im_instruction_bits img" and "length m = im_bytes img"
    and "im_layer img + im_layer_bits img \<le> 8 * length m" and "8 * length m \<le> im_space_bits img"
    and "im_layer img mod 8 = 0" and "3 \<le> im_slot img" and "im_slot img \<le> 255" and "im_address_bits img \<le> 31"
    and "im_space_bits img \<le> 2 ^ 31"
proof -
  have "im_address_bits img \<le> 31" "im_space_bits img = 2 ^ im_address_bits img"
    using assms by (simp_all add: image_ok_def)
  then show "im_space_bits img \<le> 2 ^ 31" by (simp only: power_increasing)
qed (use assms in \<open>simp_all add: image_ok_def mult.commute\<close>)

text \<open>A layer of 256 instructions only fits a space with addresses of 14 bits or more.\<close>

lemma image_address_bits:
  assumes "image_ok img m"
  shows "14 \<le> im_address_bits img"
proof (rule ccontr)
  assume "\<not> 14 \<le> im_address_bits img"
  then have ab: "im_address_bits img \<in> {2..13}" using assms by (auto simp: image_ok_def)
  have "256 * (3 * im_address_bits img - 1) \<le> 2 ^ im_address_bits img"
    using assms by (auto simp: image_ok_def)
  moreover have "\<forall>k \<in> set [2..<14]. \<not> 256 * (3 * k - 1) \<le> (2::nat) ^ k" by (simp add: upt_rec)
  moreover have "im_address_bits img \<in> set [2..<14]" using ab unfolding set_upt by auto
  ultimately show False by blast
qed

lemma img_config_simps:
  assumes ok: "image_ok img m"
  shows "space_size (img_config img) = im_space_bits img"
    and "address_size (img_config img) = im_address_bits img"
    and "n_size (img_config img) = im_count_bits img"
    and "instruction_size (img_config img) = im_instruction_bits img"
    and "processor_n (img_config img) = 256"
    and "processor_bits (img_config img) = im_layer_bits img"
proof -
  note ab = image_address_bits [OF ok]
  have "(2::nat) ^ im_address_bits img = 8 * 2 ^ (im_address_bits img - 3)"
    using ab power_add [of "2::nat" 3 "im_address_bits img - 3"] by simp
  then show size: "space_size (img_config img) = im_space_bits img"
    using image_okD(1) [OF ok] by (simp add: space_size_def img_config_def)
  show addr: "address_size (img_config img) = im_address_bits img"
  proof (rule antisym)
    have "(2::nat) ^ im_address_bits img \<le> 2 ^ 31" by (simp only: power_increasing image_okD(11) [OF ok])
    then have le: "space_size (img_config img) \<le> 2 ^ 31" using size image_okD(1) [OF ok] by simp
    show "address_size (img_config img) \<le> im_address_bits img"
      unfolding address_size_def using ceil_log2_least(2) [OF le] size image_okD(1) [OF ok] by simp
    have "(2::nat) ^ im_address_bits img \<le> 2 ^ address_size (img_config img)"
      unfolding address_size_def using ceil_log2_least(1) [OF le] size image_okD(1) [OF ok] by simp
    then show "im_address_bits img \<le> address_size (img_config img)" by simp
  qed
  show n: "n_size (img_config img) = im_count_bits img"
    using addr image_okD(2) [OF ok] by (simp add: n_size_def)
  show ins: "instruction_size (img_config img) = im_instruction_bits img"
    using addr n image_okD(2,3) [OF ok] ab by (simp add: instruction_size_def)
  show N: "processor_n (img_config img) = 256" by (simp add: img_config_def)
  show "processor_bits (img_config img) = im_layer_bits img"
    using image_okD(4) [OF ok] by (simp add: processor_bits_def ins N)
qed

lemma image_split:
  assumes "image_ok img m"
  shows "im_instruction_bits img = im_count_bits img + im_address_bits img + im_address_bits img"
  using assms image_address_bits [OF assms] by (simp add: image_ok_def)

section \<open>Rows\<close>

text \<open>The instruction in row \<open>i\<close> of the layer, as the emulator decodes it once it is active.\<close>

definition layer_row :: "cs_copy_image \<Rightarrow> mem \<Rightarrow> nat \<Rightarrow> instruction" where
  "layer_row img m i = decode (img_config img) (\<lambda>p. bit_at m (im_layer img + p)) i"

lemma field_valueI:
  assumes "\<And>i. i < w \<Longrightarrow> f (at + i) = bit v i" and "w \<le> 32" and "v < 2 ^ w"
  shows "field_value f at w = v"
proof -
  have "word_field lsb_first f at w = (of_nat v :: u32)"
  proof (rule bit_word_eqI)
    fix i assume i: "i < LENGTH(32)"
    have "bit v i \<Longrightarrow> i < w"
      using assms(3) by (metis bit_take_bit_iff take_bit_nat_eq_self)
    then show "bit (word_field lsb_first f at w :: u32) i = bit (of_nat v :: u32) i"
      using i assms(1) by (auto simp: bit_simps)
  qed
  moreover have "v < 2 ^ 32" using assms(2,3) power_increasing [of w 32 "2::nat"] by linarith
  ultimately show ?thesis by (simp add: field_value_def unat_of_nat_u32)
qed

lemma cs_copy_row_spec:
  assumes ok: "image_ok img m" and valid: "row_valid img i n d s"
  shows "\<exists>m'. cs_copy_row img i n d s m = Some (m', 0) \<and> length m' = length m \<and>
    layer_row img m' i = \<lparr>fld_n = n, fld_dst = d, fld_src = s\<rparr> \<and>
    (\<forall>p. p < im_layer img + i * im_instruction_bits img \<or> im_layer img + Suc i * im_instruction_bits img \<le> p \<longrightarrow>
      bit_at m' p = bit_at m p)"
proof -
  define at where "at = im_layer img + i * im_instruction_bits img"
  define cb where "cb = im_count_bits img"
  define ab where "ab = im_address_bits img"
  have ib: "im_instruction_bits img = cb + ab + ab" using image_split [OF ok] by (simp add: cb_def ab_def)
  have i: "i < 256" using valid by (simp add: row_valid_def)
  then have "Suc i * im_instruction_bits img \<le> 256 * im_instruction_bits img" by (intro mult_le_mono1) simp
  then have fits: "at + cb + ab + ab \<le> 8 * length m"
    using image_okD(4,6) [OF ok] ib by (simp add: at_def)
  obtain m1 where m1: "field at cb (of_nat n) m = Some m1" "length m1 = length m"
      "bit_at m1 = blit cb 0 at (bit (of_nat n :: u32)) (bit_at m)"
    using field_yields [of at cb m "of_nat n"] fits by (auto elim: yieldsE)
  obtain m2 where m2: "field (at + cb) ab (of_nat d) m1 = Some m2" "length m2 = length m"
      "bit_at m2 = blit ab 0 (at + cb) (bit (of_nat d :: u32)) (bit_at m1)"
    using field_yields [of "at + cb" ab m1 "of_nat d"] fits m1(2) by (auto elim: yieldsE)
  obtain m3 where m3: "field (at + cb + ab) ab (of_nat s) m2 = Some m3" "length m3 = length m"
      "bit_at m3 = blit ab 0 (at + cb + ab) (bit (of_nat s :: u32)) (bit_at m2)"
    using field_yields [of "at + cb + ab" ab m2 "of_nat s"] fits m2(2) by (auto elim: yieldsE)
  have le: "cb < 32" "ab < 32" using image_okD(2,11) [OF ok] by (simp_all add: cb_def ab_def)
  have small: "n < 2 ^ cb" "d < 2 ^ ab" "s < 2 ^ ab"
    using valid image_okD(1) [OF ok] by (auto simp: row_valid_def cb_def ab_def)
  have "field_value (\<lambda>p. bit_at m3 (im_layer img + p)) (i * im_instruction_bits img) cb = n"
    using small(1) le by (intro field_valueI) (auto simp: m3 m2 m1 blit_def at_def bit_simps)
  moreover have "field_value (\<lambda>p. bit_at m3 (im_layer img + p)) (i * im_instruction_bits img + cb) ab = d"
    using small(2) le by (intro field_valueI) (auto simp: m3 m2 m1 blit_def at_def bit_simps)
  moreover have "field_value (\<lambda>p. bit_at m3 (im_layer img + p)) (i * im_instruction_bits img + cb + ab) ab = s"
    using small(3) le by (intro field_valueI) (auto simp: m3 m2 m1 blit_def at_def bit_simps)
  ultimately have "layer_row img m3 i = \<lparr>fld_n = n, fld_dst = d, fld_src = s\<rparr>"
    by (simp add: layer_row_def decode_def img_config_simps [OF ok] cb_def ab_def)
  moreover have "cs_copy_row img i n d s m = Some (m3, 0)"
    using valid m1(1) m2(1) m3(1) by (simp add: cs_copy_row_def Let_def at_def cb_def ab_def)
  moreover have "bit_at m3 p = bit_at m p"
    if "p < im_layer img + i * im_instruction_bits img \<or> im_layer img + Suc i * im_instruction_bits img \<le> p" for p
    using that ib by (auto simp: m3 m2 m1 blit_def at_def)
  ultimately show ?thesis using m3(2) by blast
qed

lemma layer_row_cong:
  assumes "image_ok img m0"
    and "\<And>p. i * im_instruction_bits img \<le> p \<Longrightarrow> p < Suc i * im_instruction_bits img \<Longrightarrow>
      bit_at m' (im_layer img + p) = bit_at m (im_layer img + p)"
  shows "layer_row img m' i = layer_row img m i"
  unfolding layer_row_def by (rule decode_cong) (use assms img_config_simps(4) [OF assms(1)] in simp)

section \<open>Emitting a sequence of rows\<close>

text \<open>
  \<open>emits img m rows r\<close>: the operation \<open>r\<close> succeeds; it has put the given instructions into
  the next rows of the layer and changed no other bit.
\<close>

definition row_ok :: "cs_copy_image \<Rightarrow> instruction \<Rightarrow> bool" where
  "row_ok img ins \<longleftrightarrow> fld_n ins < 2 ^ im_count_bits img \<and>
     fld_dst ins + fld_n ins \<le> im_space_bits img \<and> fld_src ins + fld_n ins \<le> im_space_bits img \<and>
     fld_dst ins < im_space_bits img \<and> fld_src ins < im_space_bits img"

abbreviation row :: "nat \<Rightarrow> nat \<Rightarrow> nat \<Rightarrow> instruction" where
  "row n d s \<equiv> \<lparr>fld_n = n, fld_dst = d, fld_src = s\<rparr>"

abbreviation at_slot :: "cs_copy_image \<Rightarrow> nat \<Rightarrow> cs_copy_image" where
  "at_slot img k \<equiv> img\<lparr>im_slot := im_slot img + k\<rparr>"

definition emits :: "cs_copy_image \<Rightarrow> mem \<Rightarrow> instruction list \<Rightarrow> (cs_copy_image \<times> mem) option \<Rightarrow> bool" where
  "emits img m rows r \<longleftrightarrow> (\<exists>m'. r = Some (at_slot img (length rows), m') \<and> length m' = length m \<and>
     (\<forall>i < length rows. layer_row img m' (im_slot img + i) = rows ! i) \<and>
     (\<forall>p. p < im_layer img + im_slot img * im_instruction_bits img \<or>
          im_layer img + (im_slot img + length rows) * im_instruction_bits img \<le> p \<longrightarrow> bit_at m' p = bit_at m p))"

lemma image_ok_slot [simp]:
  "k \<le> 255 \<Longrightarrow> im_slot img \<le> k \<Longrightarrow> length m' = length m \<Longrightarrow> image_ok img m \<Longrightarrow>
    image_ok (img\<lparr>im_slot := k\<rparr>) m'"
  by (simp add: image_ok_def)

lemma layer_row_slot [simp]: "layer_row (img\<lparr>im_slot := k\<rparr>) m i = layer_row img m i"
  by (simp add: layer_row_def img_config_def)

lemma row_ok_slot [simp]: "row_ok (img\<lparr>im_slot := k\<rparr>) ins = row_ok img ins"
  by (simp add: row_ok_def)

lemma row_valid_row_ok: "row_valid img i n d s \<longleftrightarrow> i < 256 \<and> row_ok img (row n d s)"
  by (auto simp: row_valid_def row_ok_def fits_def)

lemma emit_row_emits:
  assumes ok: "image_ok img m" and slot: "im_slot img < 255" and row: "row_ok img (row n d s)"
  shows "emits img m [row n d s] (emit_row n d s (img, m))"
proof -
  obtain m' where "cs_copy_row img (im_slot img) n d s m = Some (m', 0)" "length m' = length m"
      "layer_row img m' (im_slot img) = row n d s"
      "\<forall>p. p < im_layer img + im_slot img * im_instruction_bits img \<or>
        im_layer img + Suc (im_slot img) * im_instruction_bits img \<le> p \<longrightarrow> bit_at m' p = bit_at m p"
    using cs_copy_row_spec [OF ok, of "im_slot img" n d s] slot row by (auto simp: row_valid_row_ok)
  then show ?thesis using slot by (simp add: emits_def emit_row_def cs_copy_emit_def)
qed

lemma emits_Nil: "emits img m [] (Some (img, m))"
  by (simp add: emits_def)

lemma emits_append:
  assumes ok: "image_ok img m" and xs: "emits img m xs r"
    and ys: "\<And>m'. length m' = length m \<Longrightarrow> emits (at_slot img (length xs)) m' ys (k (at_slot img (length xs), m'))"
  shows "emits img m (xs @ ys) (Option.bind r k)"
proof -
  define ib where "ib = im_instruction_bits img"
  define j where "j = im_slot img"
  define n where "n = length xs"
  obtain m1 where m1: "r = Some (at_slot img n, m1)" "length m1 = length m"
      "\<And>i. i < n \<Longrightarrow> layer_row img m1 (j + i) = xs ! i"
      "\<And>p. p < im_layer img + j * ib \<or> im_layer img + (j + n) * ib \<le> p \<Longrightarrow> bit_at m1 p = bit_at m p"
    using xs unfolding emits_def ib_def j_def n_def by blast
  obtain m2 where m2: "k (at_slot img n, m1) = Some (at_slot img (n + length ys), m2)"
      "length m2 = length m"
      "\<And>i. i < length ys \<Longrightarrow> layer_row img m2 (j + n + i) = ys ! i"
      "\<And>p. p < im_layer img + (j + n) * ib \<or> im_layer img + (j + n + length ys) * ib \<le> p \<Longrightarrow> bit_at m2 p = bit_at m1 p"
    using ys [OF m1(2)] m1(2) unfolding emits_def ib_def j_def n_def by (auto simp: add.assoc)
  have first: "layer_row img m2 (j + i) = xs ! i" if i: "i < n" for i
  proof -
    have "Suc (j + i) * ib \<le> (j + n) * ib" using i by (intro mult_le_mono1) simp
    then have "layer_row img m2 (j + i) = layer_row img m1 (j + i)"
      by (intro layer_row_cong [OF ok] m2(4)) (simp add: ib_def)
    then show ?thesis using m1(3) [OF i] by simp
  qed
  have "layer_row img m2 (j + i) = (xs @ ys) ! i" if "i < length (xs @ ys)" for i
  proof (cases "i < n")
    case True
    then show ?thesis using first by (simp add: nth_append n_def)
  next
    case False
    then show ?thesis using m2(3) [of "i - n"] that by (simp add: nth_append n_def)
  qed
  moreover have "bit_at m2 p = bit_at m p"
    if "p < im_layer img + j * ib \<or> im_layer img + (j + n + length ys) * ib \<le> p" for p
  proof -
    have "j * ib \<le> (j + n) * ib" "(j + n) * ib \<le> (j + n + length ys) * ib" by simp_all
    then have "p < im_layer img + (j + n) * ib \<or> im_layer img + (j + n + length ys) * ib \<le> p"
      "p < im_layer img + j * ib \<or> im_layer img + (j + n) * ib \<le> p"
      using that by linarith+
    then show ?thesis using m1(4) m2(4) by simp
  qed
  ultimately show ?thesis
    using m1(1) m2(1,2) unfolding emits_def ib_def j_def n_def by (auto simp: add.assoc)
qed

text \<open>A row, then the rest.\<close>

lemma emits_Cons:
  assumes "image_ok img m" and "im_slot img < 255" and "row_ok img (row n d s)"
    and "\<And>m'. length m' = length m \<Longrightarrow> emits (at_slot img 1) m' rows (k (at_slot img 1, m'))"
  shows "emits img m (row n d s # rows) (Option.bind (emit_row n d s (img, m)) k)"
  using emits_append [OF assms(1) emit_row_emits [OF assms(1-3)], of rows k] assms(4) by simp

text \<open>A loop whose iterations emit \<open>c\<close> rows each.\<close>

lemma emits_for_up:
  assumes "image_ok img m"
    and "\<And>i m'. i < k \<Longrightarrow> length m' = length m \<Longrightarrow>
      emits (at_slot img (c * i)) m' (rows (a + i)) (body (a + i) (at_slot img (c * i), m'))"
    and "\<And>i. i < k \<Longrightarrow> length (rows (a + i)) = c"
    and "im_slot img + c * k \<le> 255"
  shows "emits img m (concat (map rows [a..<a + k])) (for_up body a k (img, m))"
  using assms
proof (induction k arbitrary: a img m)
  case 0
  then show ?case by (simp add: emits_Nil)
next
  case (Suc k)
  have len0: "length (rows a) = c" using Suc.prems(3) [of 0] by simp
  have upt: "[a..<a + Suc k] = a # [Suc a..<Suc a + k]" by (simp add: upt_conv_Cons del: upt_Suc)
  have "emits img m (rows a @ concat (map rows [Suc a..<Suc a + k]))
      (Option.bind (body a (img, m)) (for_up body (Suc a) k))"
  proof (rule emits_append [OF Suc.prems(1)])
    show "emits img m (rows a) (body a (img, m))"
      using Suc.prems(2) [of 0 m] by simp
    fix m' :: mem assume len: "length m' = length m"
    show "emits (at_slot img (length (rows a))) m' (concat (map rows [Suc a..<Suc a + k]))
        (for_up body (Suc a) k (at_slot img (length (rows a)), m'))"
      unfolding len0
    proof (rule Suc.IH)
      show "image_ok (at_slot img c) m'" "im_slot (at_slot img c) + c * k \<le> 255"
        using Suc.prems(1,4) len by simp_all
      fix i assume i: "i < k"
      show "length (rows (Suc a + i)) = c" using Suc.prems(3) [of "Suc i"] i by simp
      fix m'' :: mem assume "length m'' = length m'"
      then show "emits (at_slot (at_slot img c) (c * i)) m'' (rows (Suc a + i))
          (body (Suc a + i) (at_slot (at_slot img c) (c * i), m''))"
        using Suc.prems(2) [of "Suc i" m''] i len by (simp add: add.assoc)
    qed
  qed
  then show ?case unfolding upt by simp
qed

text \<open>A straight sequence of calls.\<close>

fun emit_all :: "instruction list \<Rightarrow> cs_copy_image \<times> mem \<Rightarrow> (cs_copy_image \<times> mem) option" where
  "emit_all [] st = Some st"
| "emit_all (ins # rows) st = Option.bind (emit_row (fld_n ins) (fld_dst ins) (fld_src ins) st) (emit_all rows)"

lemma emit_all_emits:
  assumes "image_ok img m" and "im_slot img + length rows \<le> 255" and "\<And>ins. ins \<in> set rows \<Longrightarrow> row_ok img ins"
  shows "emits img m rows (emit_all rows (img, m))"
  using assms
proof (induction rows arbitrary: img m)
  case Nil
  then show ?case by (simp add: emits_Nil)
next
  case (Cons ins rows)
  obtain n d s where ins: "ins = row n d s" by (cases ins) simp
  have "emits (at_slot img 1) m' rows (emit_all rows (at_slot img 1, m'))" if "length m' = length m" for m'
  proof (rule Cons.IH)
    show "image_ok (at_slot img 1) m'"
      by (rule image_ok_slot [OF _ _ that Cons.prems(1)]) (use Cons.prems(2) in simp_all)
  qed (use Cons.prems in simp_all)
  then show ?case
    unfolding ins using Cons.prems(2) Cons.prems(3) [of "row n d s"]
    by (simp only: emit_all.simps instruction.simps) (rule emits_Cons [OF Cons.prems(1)], simp_all add: ins)
qed

end
