(* ===== verification/CopyArith.thy ===== *)
theory CopyArith
  imports CopyEmit
begin

text \<open>
  What the instruction sequences of runtime/gcc/copy_emit.c compute when the machine
  executes them. The sequences rewrite their own source addresses: for every bit position
  the two operand bits and the carry are copied into the address bits of an instruction
  that then looks its result up in a table.

  \<open>adder_layout\<close> collects the placement that \<open>add_valid\<close> checks. The lemmas here are about
  \<open>exec_slots\<close>, the execution of slots over the bit view.
\<close>

section \<open>Executing one row\<close>

lemma exec_row:
  assumes "decode cfg f i = row n d s" and "0 < n" and "d + n \<le> space_size cfg" and "s + n \<le> space_size cfg"
  shows "exec_slots cfg (i # is) f = exec_slots cfg is (blit n s d f f)"
proof -
  have "\<not> out_of_space cfg (row n d s)" using assms(2-4) by (auto simp: out_of_space_def)
  then show ?thesis using assms(1,2) by simp
qed

lemma blit_1: "blit 1 s d f g = g(d := f s)"
  using blit_Suc [of 0 s d f g] by simp

lemma blit_2: "blit 2 s d f g = g(d := f s, d + 1 := f (s + 1))"
  using blit_Suc [of 1 s d f g] blit_1 [of s d f g] by (simp add: numeral_2_eq_2)

lemma exec_row_bit:
  assumes "decode cfg f i = row 1 d s" and "d < space_size cfg" and "s < space_size cfg"
  shows "exec_slots cfg (i # is) f = exec_slots cfg is (f(d := f s))"
  using exec_row [OF assms(1), of "is"] assms(2,3) blit_1 [of s d f f] by simp

lemma exec_row_two:
  assumes "decode cfg f i = row 2 d s" and "d + 2 \<le> space_size cfg" and "s + 2 \<le> space_size cfg"
  shows "exec_slots cfg (i # is) f = exec_slots cfg is (f(d := f s, d + 1 := f (s + 1)))"
  using exec_row [OF assms(1), of "is"] assms(2,3) blit_2 [of s d f f] by simp

section \<open>Rewriting a source address\<close>

definition src_pos :: "config \<Rightarrow> nat \<Rightarrow> nat" where
  "src_pos cfg i = i * instruction_size cfg + n_size cfg + address_size cfg"

lemma field_valueD:
  assumes "field_value f at w = v" and "i < w" and "w \<le> 32"
  shows "f (at + i) = bit v i"
proof -
  have "bit (word_field lsb_first f at w :: u32) i = f (at + i)"
    using assms(2,3) by (simp add: bit_word_field)
  then show ?thesis using assms(1) by (auto simp: field_value_def bit_unsigned_iff)
qed

lemma field_value_cong:
  "(\<And>i. i < w \<Longrightarrow> f (at + i) = g (at + i)) \<Longrightarrow> field_value f at w = field_value g at w"
  unfolding field_value_def by (intro arg_cong [where f = unat] word_field_cong) simp

lemma src_pos_end: "src_pos cfg i + address_size cfg = Suc i * instruction_size cfg"
  by (simp add: src_pos_def instruction_size_split)

lemma src_pos_begin: "i * instruction_size cfg \<le> src_pos cfg i"
  by (simp add: src_pos_def)

text \<open>The low bits of an aligned address.\<close>

lemma aligned_bits:
  fixes t e :: nat
  assumes "t mod 2 ^ k = 0" and "e < 2 ^ k"
  shows "bit (t + e) i \<longleftrightarrow> (if i < k then bit e i else bit t i)"
proof -
  have "take_bit k (t + e) = e" "drop_bit k (t + e) = drop_bit k t"
    using assms by (simp_all add: take_bit_eq_mod drop_bit_eq_div mod_add_left_eq [symmetric] div_add1_eq)
  then have "bit (take_bit k (t + e)) i = bit e i" "bit (drop_bit k (t + e)) (i - k) = bit (drop_bit k t) (i - k)"
    by simp_all
  then show ?thesis by (cases "i < k") (simp_all add: bit_take_bit_iff bit_drop_bit_eq)
qed

lemma aligned_bound:
  fixes t e :: nat
  assumes "t mod 2 ^ k = 0" and "e < 2 ^ k" and "t < 2 ^ n" and "k \<le> n"
  shows "t + e < 2 ^ n"
proof -
  have "(2::nat) ^ n = 2 ^ k * 2 ^ (n - k)" using assms(4) by (simp flip: power_add)
  moreover obtain q where q: "t = 2 ^ k * q" using assms(1) by (auto simp: mod_eq_0_iff_dvd elim: dvdE)
  ultimately have "q < 2 ^ (n - k)" using assms(3) by simp
  then have "2 ^ k * Suc q \<le> 2 ^ k * 2 ^ (n - k)" by (intro mult_le_mono2) simp
  then show ?thesis using q assms(2) \<open>(2::nat) ^ n = 2 ^ k * 2 ^ (n - k)\<close> by simp
qed

text \<open>
  Overwriting the low \<open>k\<close> address bits of an instruction whose source is aligned adds the
  number in them to the address.
\<close>

lemma decode_patched:
  assumes ok: "config_ok cfg" and dec: "decode cfg f i = row n d t"
    and al: "t mod 2 ^ k = 0" "k \<le> address_size cfg" and e: "e < 2 ^ k"
    and low: "\<And>j. j < k \<Longrightarrow> g (src_pos cfg i + j) = bit e j"
    and same: "\<And>p. i * instruction_size cfg \<le> p \<Longrightarrow> p < Suc i * instruction_size cfg \<Longrightarrow>
      p < src_pos cfg i \<or> src_pos cfg i + k \<le> p \<Longrightarrow> g p = f p"
  shows "decode cfg g i = row n d (t + e)"
proof -
  have ab: "address_size cfg \<le> 31" by (rule config_bounds(3) [OF ok])
  have t: "field_value f (src_pos cfg i) (address_size cfg) = t"
    using dec by (simp add: decode_def src_pos_def)
  have bound: "t < 2 ^ address_size cfg" using decode_bounds(3) [OF ok, of f i] dec by simp
  have "field_value g (src_pos cfg i) (address_size cfg) = t + e"
  proof (rule field_valueI)
    fix j assume j: "j < address_size cfg"
    show "g (src_pos cfg i + j) = bit (t + e) j"
    proof (cases "j < k")
      case True
      then show ?thesis using low e al by (simp add: aligned_bits)
    next
      case False
      then have "g (src_pos cfg i + j) = f (src_pos cfg i + j)"
        using j src_pos_end [of cfg i] src_pos_begin [of i cfg] by (intro same) linarith+
      also have "\<dots> = bit t j" by (rule field_valueD [OF t j]) (use ab in simp)
      finally show ?thesis using False e al by (simp add: aligned_bits)
    qed
  next
    show "address_size cfg \<le> 32" using ab by simp
    show "t + e < 2 ^ address_size cfg" by (rule aligned_bound [OF al(1) e bound al(2)])
  qed
  moreover have "g p = f p" if "i * instruction_size cfg \<le> p" "p < src_pos cfg i" for p
    using that src_pos_end [of cfg i] by (intro same) linarith+
  then have "field_value g (i * instruction_size cfg) (n_size cfg) = n"
    "field_value g (i * instruction_size cfg + n_size cfg) (address_size cfg) = d"
    using dec field_value_cong [of _ g _ f] by (simp_all add: decode_def src_pos_def)
  ultimately show ?thesis by (simp add: decode_def src_pos_def)
qed

section \<open>One bit of an adder\<close>

definition apart :: "nat \<Rightarrow> nat \<Rightarrow> nat \<Rightarrow> nat \<Rightarrow> bool" where
  "apart a an b bn \<longleftrightarrow> a + an \<le> b \<or> b + bn \<le> a"

definition adder_layout :: "config \<Rightarrow> nat \<Rightarrow> nat \<Rightarrow> nat \<Rightarrow> nat \<Rightarrow> nat \<Rightarrow> nat \<Rightarrow> bool" where
  "adder_layout cfg dst l r table temp carry \<longleftrightarrow>
     config_ok cfg \<and> 5 \<le> address_size cfg \<and> table mod 16 = 0 \<and>
     (\<forall>(a, w) \<in> {(dst, 32), (l, 32), (r, 32), (table, 16), (temp, 2), (carry, 1)}.
        processor_bits cfg \<le> a \<and> a + w \<le> space_size cfg) \<and>
     apart dst 32 table 16 \<and> apart dst 32 temp 2 \<and> apart dst 32 carry 1 \<and>
     apart l 32 table 16 \<and> apart l 32 temp 2 \<and> apart l 32 carry 1 \<and>
     apart r 32 table 16 \<and> apart r 32 temp 2 \<and> apart r 32 carry 1 \<and>
     apart table 16 temp 2 \<and> apart table 16 carry 1 \<and> apart temp 2 carry 1 \<and>
     (dst = l \<or> apart dst 32 l 32) \<and> (dst = r \<or> apart dst 32 r 32)"

text \<open>The six instructions for bit \<open>k\<close>, in the slots from \<open>i\<close> on.\<close>

definition adder_rows :: "config \<Rightarrow> nat \<Rightarrow> nat \<Rightarrow> nat \<Rightarrow> nat \<Rightarrow> nat \<Rightarrow> nat \<Rightarrow> nat \<Rightarrow> nat \<Rightarrow> instruction list" where
  "adder_rows cfg dst l r table temp carry i k =
     [row 1 (src_pos cfg (i + 3) + 1) (l + k), row 1 (src_pos cfg (i + 3) + 2) (r + k),
      row 1 (src_pos cfg (i + 3) + 3) carry, row 2 temp table, row 1 (dst + k) temp,
      row 1 carry (temp + 1)]"

definition entry :: "bool \<Rightarrow> bool \<Rightarrow> bool \<Rightarrow> nat" where
  "entry a b c = 2 * of_bool a + 4 * of_bool b + 8 * of_bool c"

lemma entry_bit: "j < 4 \<Longrightarrow> bit (entry a b c) j \<longleftrightarrow> j = 1 \<and> a \<or> j = 2 \<and> b \<or> j = 3 \<and> c"
proof -
  assume "j < 4"
  then consider "j = 0" | "j = 1" | "j = 2" | "j = 3" by linarith
  then show ?thesis by cases (cases a; cases b; cases c; simp add: entry_def bit_0)+
qed

lemma entry_bound: "entry a b c + 1 < 16"
  by (simp add: entry_def of_bool_def)

definition adder_result :: "config \<Rightarrow> nat \<Rightarrow> nat \<Rightarrow> nat \<Rightarrow> nat \<Rightarrow> nat \<Rightarrow> nat \<Rightarrow> nat \<Rightarrow> nat \<Rightarrow> (nat \<Rightarrow> bool) \<Rightarrow> nat \<Rightarrow> bool" where
  "adder_result cfg dst l r table temp carry i k f =
     (let a = f (l + k); b = f (r + k); c = f carry; s = src_pos cfg (i + 3);
          lo = f (table + entry a b c); hi = f (table + entry a b c + 1)
      in f(s + 1 := a, s + 2 := b, s + 3 := c, temp := lo, temp + 1 := hi, dst + k := lo, carry := hi))"

lemma row_position:
  assumes "i * instruction_size cfg \<le> p" and "p < Suc i * instruction_size cfg"
    and "j * instruction_size cfg \<le> p" and "p < Suc j * instruction_size cfg"
  shows "i = j"
proof -
  have "i < Suc j" "j < Suc i" using assms by (metis le_less_trans mult_less_cancel2)+
  then show ?thesis by simp
qed

lemma adder_step:
  assumes lay: "adder_layout cfg dst l r table temp carry" and k: "k < 32" and i: "i + 6 \<le> processor_n cfg"
    and rows: "\<And>j. j < 6 \<Longrightarrow> decode cfg f (i + j) = adder_rows cfg dst l r table temp carry i k ! j"
  shows "exec_slots cfg [i..<i + 6] f = (adder_result cfg dst l r table temp carry i k f, True)"
proof -
  define P where "P = processor_bits cfg"
  define S where "S = space_size cfg"
  define s where "s = src_pos cfg (i + 3)"
  define a b c where "a = f (l + k)" and "b = f (r + k)" and "c = f carry"
  have ok: "config_ok cfg" and ab: "5 \<le> address_size cfg" and al: "table mod 2 ^ 4 = 0"
    using lay by (simp_all add: adder_layout_def)
  have data: "P \<le> l + k" "P \<le> r + k" "P \<le> carry" "P \<le> temp" "P \<le> dst + k" "P \<le> table"
    "l + k < S" "r + k < S" "carry < S" "temp + 2 \<le> S" "dst + k < S" "table + 16 \<le> S"
    using lay k by (auto simp: adder_layout_def P_def S_def)
  have rowP: "Suc j * instruction_size cfg \<le> P" if "j < processor_n cfg" for j
    using instruction_in_processor [OF that] by (simp add: P_def add.commute)
  have PS: "P < S" using config_bounds(4) [OF ok] by (simp add: P_def S_def)
  have s: "(i + 3) * instruction_size cfg \<le> s" "s + address_size cfg = Suc (i + 3) * instruction_size cfg"
    using src_pos_begin [of "i + 3" cfg] src_pos_end [of cfg "i + 3"] by (simp_all add: s_def)
  have sP: "s + 3 < P" using s(2) rowP [of "i + 3"] i ab by linarith
  have other: "p < s \<or> s + 4 \<le> p" if "j \<noteq> i + 3" "j * instruction_size cfg \<le> p" "p < Suc j * instruction_size cfg" for j p
    using row_position [of "i + 3" cfg p j] that s ab by linarith
  have R: "decode cfg f i = row 1 (s + 1) (l + k)" "decode cfg f (Suc i) = row 1 (s + 2) (r + k)"
    "decode cfg f (Suc (Suc i)) = row 1 (s + 3) carry" "decode cfg f (i + 3) = row 2 temp table"
    "decode cfg f (i + 4) = row 1 (dst + k) temp" "decode cfg f (i + 5) = row 1 carry (temp + 1)"
    using rows [of 0] rows [of 1] rows [of 2] rows [of 3] rows [of 4] rows [of 5]
    by (simp_all add: adder_rows_def s_def numeral_2_eq_2)
  have upt: "[i..<i + 6] = [i, Suc i, Suc (Suc i), i + 3, i + 4, i + 5]"
    by (simp add: upt_rec)
  define f1 f2 f3 where "f1 = f(s + 1 := a)" and "f2 = f1(s + 2 := b)" and "f3 = f2(s + 3 := c)"
  define lo hi where "lo = f (table + entry a b c)" and "hi = f (table + entry a b c + 1)"
  define f4 f5 where "f4 = f3(temp := lo, temp + 1 := hi)" and "f5 = f4(dst + k := lo)"
  note fs = f1_def f2_def f3_def f4_def f5_def
  have same: "f1 p = f p \<and> f2 p = f p \<and> f3 p = f p \<and> f4 p = f p \<and> f5 p = f p"
    if "p < P" "p \<noteq> s + 1" "p \<noteq> s + 2" "p \<noteq> s + 3" for p
    using that data by (auto simp: fs)
  have keep: "decode cfg g j = decode cfg f j"
    if "j < processor_n cfg" "j \<noteq> i + 3" "\<And>p. p < P \<Longrightarrow> p \<noteq> s + 1 \<Longrightarrow> p \<noteq> s + 2 \<Longrightarrow> p \<noteq> s + 3 \<Longrightarrow> g p = f p" for g j
  proof (rule decode_cong)
    fix p assume p: "j * instruction_size cfg \<le> p" "p < Suc j * instruction_size cfg"
    then have "p < P" using rowP [OF that(1)] by linarith
    then show "g p = f p" using other [OF that(2) p] by (intro that(3)) auto
  qed
  have x0: "exec_slots cfg (i # zs) f = exec_slots cfg zs f1" for zs
    using exec_row_bit [OF R(1)] sP PS data by (simp add: f1_def a_def S_def)
  have D: "decode cfg f1 (Suc i) = row 1 (s + 2) (r + k)" "decode cfg f2 (Suc (Suc i)) = row 1 (s + 3) carry"
    "decode cfg f4 (i + 4) = row 1 (dst + k) temp" "decode cfg f5 (i + 5) = row 1 carry (temp + 1)"
    unfolding R(2,3,5,6) [symmetric] by (rule keep; use i same in simp)+
  have data_s: "P \<le> p \<Longrightarrow> p \<noteq> s + 1 \<and> p \<noteq> s + 2 \<and> p \<noteq> s + 3" for p using sP by auto
  have val: "f1 (r + k) = b" "f2 carry = c" "f3 (table + entry a b c) = lo" "f3 (table + entry a b c + 1) = hi"
    "f4 temp = lo"
    using data_s [of "r + k"] data_s [of carry] data_s [of "table + entry a b c"]
      data_s [of "table + entry a b c + 1"] data
    by (simp_all add: fs a_def b_def c_def lo_def hi_def)
  have x1: "exec_slots cfg (Suc i # zs) f1 = exec_slots cfg zs f2" for zs
    using exec_row_bit [OF D(1), of zs] val(1) sP PS data by (simp add: f2_def S_def)
  have x2: "exec_slots cfg (Suc (Suc i) # zs) f2 = exec_slots cfg zs f3" for zs
    using exec_row_bit [OF D(2), of zs] val(2) sP PS data by (simp add: f3_def S_def)
  have D3: "decode cfg f3 (i + 3) = row 2 temp (table + entry a b c)"
  proof (rule decode_patched [OF ok R(4) al])
    show "4 \<le> address_size cfg" using ab by simp
    show "entry a b c < 2 ^ 4" using entry_bound [of a b c] by simp
    fix j :: nat assume j: "j < 4"
    have f0: "\<not> f (s + 0)"
    proof -
      have "f (s + 0) = bit table 0"
        using R(4) ab config_bounds(3) [OF ok] by (intro field_valueD [of f s "address_size cfg"])
          (simp_all add: decode_def s_def src_pos_def)
      then show ?thesis using al by (simp add: bit_0 mod_eq_0_iff_dvd) presburger
    qed
    have "j = 0 \<or> j = 1 \<or> j = 2 \<or> j = 3" using j by linarith
    then show "f3 (src_pos cfg (i + 3) + j) = bit (entry a b c) j"
      using f0 unfolding s_def [symmetric] entry_bit [OF j]
      by (elim disjE) (simp_all add: f1_def f2_def f3_def)
  qed (auto simp: f1_def f2_def f3_def s_def)
  note e = entry_bound [of a b c]
  have x3: "exec_slots cfg ((i + 3) # zs) f3 = exec_slots cfg zs f4" for zs
    using exec_row_two [OF D3, of zs] val(3,4) data e by (simp add: f4_def S_def)
  have x4: "exec_slots cfg ((i + 4) # zs) f4 = exec_slots cfg zs f5" for zs
    using exec_row_bit [OF D(3), of zs] val(5) data by (simp add: f5_def S_def)
  have "apart dst 32 temp 2" using lay by (simp add: adder_layout_def)
  then have "dst + k \<noteq> temp + 1" using k by (auto simp: apart_def)
  then have "f5 (temp + 1) = hi" by (simp add: f4_def f5_def)
  then have x5: "exec_slots cfg ((i + 5) # zs) f5 = exec_slots cfg zs (f5(carry := hi))" for zs
    using exec_row_bit [OF D(4), of zs] data by (simp add: S_def)
  have "f5(carry := hi) = adder_result cfg dst l r table temp carry i k f"
    by (simp add: adder_result_def Let_def fs lo_def hi_def a_def b_def c_def s_def)
  then show ?thesis unfolding upt x0 x1 x2 x3 x4 x5 by simp
qed

section \<open>All bits of an adder\<close>

definition word32 :: "(nat \<Rightarrow> bool) \<Rightarrow> nat \<Rightarrow> u32" where
  "word32 f at = word_field lsb_first f at 32"

definition low :: "(nat \<Rightarrow> bool) \<Rightarrow> nat \<Rightarrow> nat \<Rightarrow> nat" where
  "low f at k = (\<Sum>i<k. of_bool (f (at + i)) * 2 ^ i)"

lemma low_0 [simp]: "low f at 0 = 0"
  by (simp add: low_def)

lemma low_Suc: "low f at (Suc k) = low f at k + of_bool (f (at + k)) * 2 ^ k"
  by (simp add: low_def)

lemma low_cong: "(\<And>i. i < k \<Longrightarrow> f (at + i) = g (at + i)) \<Longrightarrow> low f at k = low g at k"
  by (simp add: low_def)

lemma low_take_bit: "k \<le> 32 \<Longrightarrow> low f at k = take_bit k (unat (word32 f at))"
proof (induction k)
  case (Suc k)
  have "bit (unat (word32 f at)) k = f (at + k)"
    using Suc.prems by (simp add: word32_def bit_unsigned_iff bit_word_field)
  then have "take_bit (Suc k) (unat (word32 f at)) = take_bit k (unat (word32 f at)) + of_bool (f (at + k)) * 2 ^ k"
    by (simp add: take_bit_Suc_from_most mult.commute)
  then show ?case using Suc by (simp add: low_Suc)
qed simp

lemma low_32: "low f at 32 = unat (word32 f at)"
proof -
  have "take_bit 32 (word32 f at) = word32 f at" by (rule bit_word_eqI) (simp add: bit_simps)
  then show ?thesis using low_take_bit [of 32 f at] by (simp flip: unsigned_take_bit_eq)
qed

definition bit_result :: "bool \<Rightarrow> bool \<Rightarrow> bool \<Rightarrow> bool \<Rightarrow> bool \<Rightarrow> bool \<Rightarrow> bool" where
  "bit_result subtract a b c lo hi \<longleftrightarrow>
     (if subtract then of_bool a + 2 * of_bool hi = (of_bool b + of_bool c + of_bool lo :: nat)
      else of_bool a + of_bool b + of_bool c = (of_bool lo + 2 * of_bool hi :: nat))"

definition table_holds :: "bool \<Rightarrow> (nat \<Rightarrow> bool) \<Rightarrow> nat \<Rightarrow> bool" where
  "table_holds subtract f table \<longleftrightarrow>
     (\<forall>a b c. bit_result subtract a b c (f (table + entry a b c)) (f (table + entry a b c + 1)))"

text \<open>The numbers after \<open>n\<close> bits: sum with carry, or difference with borrow.\<close>

definition partial_result :: "bool \<Rightarrow> nat \<Rightarrow> nat \<Rightarrow> nat \<Rightarrow> bool \<Rightarrow> nat \<Rightarrow> bool" where
  "partial_result subtract a b d c n \<longleftrightarrow>
     (if subtract then a + 2 ^ n * of_bool c = b + d else a + b = d + 2 ^ n * of_bool c)"

lemma partial_result_Suc:
  assumes "partial_result subtract A B D c n" and "bit_result subtract a b c lo hi"
  shows "partial_result subtract (A + of_bool a * 2 ^ n) (B + of_bool b * 2 ^ n) (D + of_bool lo * 2 ^ n) hi (Suc n)"
  using assms by (cases a; cases b; cases c; cases lo; cases hi)
    (auto simp: partial_result_def bit_result_def split: if_splits)

definition adder_inv ::
  "config \<Rightarrow> nat \<Rightarrow> nat \<Rightarrow> nat \<Rightarrow> nat \<Rightarrow> nat \<Rightarrow> bool \<Rightarrow> nat \<Rightarrow> nat \<Rightarrow> (nat \<Rightarrow> bool) \<Rightarrow> (nat \<Rightarrow> bool) \<Rightarrow> bool" where
  "adder_inv cfg dst l r temp carry subtract i n f g \<longleftrightarrow>
     (\<forall>p. (i + 6 * n) * instruction_size cfg \<le> p \<and> p < processor_bits cfg \<or>
          processor_bits cfg \<le> p \<and> p \<notin> {dst..<dst + n} \<union> {temp, temp + 1, carry} \<longrightarrow> g p = f p) \<and>
     partial_result subtract (low f l n) (low f r n) (low g dst n) (g carry) n"

lemma adder_layoutD:
  assumes "adder_layout cfg dst l r table temp carry"
  shows "config_ok cfg" and "5 \<le> address_size cfg" and "table mod 16 = 0"
    and "processor_bits cfg \<le> dst" and "processor_bits cfg \<le> l" and "processor_bits cfg \<le> r"
    and "processor_bits cfg \<le> table" and "processor_bits cfg \<le> temp" and "processor_bits cfg \<le> carry"
    and "dst + 32 \<le> space_size cfg" and "l + 32 \<le> space_size cfg" and "r + 32 \<le> space_size cfg"
    and "table + 16 \<le> space_size cfg" and "temp + 2 \<le> space_size cfg" and "carry + 1 \<le> space_size cfg"
    and "apart dst 32 table 16" and "apart dst 32 temp 2" and "apart dst 32 carry 1"
    and "apart l 32 table 16" and "apart l 32 temp 2" and "apart l 32 carry 1"
    and "apart r 32 table 16" and "apart r 32 temp 2" and "apart r 32 carry 1"
    and "apart table 16 temp 2" and "apart table 16 carry 1" and "apart temp 2 carry 1"
    and "dst = l \<or> apart dst 32 l 32" and "dst = r \<or> apart dst 32 r 32"
  using assms by (simp_all add: adder_layout_def)

lemma adder_loop:
  assumes lay: "adder_layout cfg dst l r table temp carry" and tab: "table_holds subtract f table"
    and c0: "\<not> f carry" and n: "n \<le> 32" and i: "i + 6 * n \<le> processor_n cfg"
    and rows: "\<And>k j. k < n \<Longrightarrow> j < 6 \<Longrightarrow>
      decode cfg f (i + 6 * k + j) = adder_rows cfg dst l r table temp carry (i + 6 * k) k ! j"
  shows "\<exists>g. exec_slots cfg [i..<i + 6 * n] f = (g, True) \<and> adder_inv cfg dst l r temp carry subtract i n f g"
  using n i rows
proof (induction n)
  case 0
  then show ?case by (auto simp: adder_inv_def partial_result_def c0)
next
  case (Suc n)
  note L = adder_layoutD [OF lay]
  define P where "P = processor_bits cfg"
  define i' where "i' = i + 6 * n"
  obtain g where g: "exec_slots cfg [i..<i'] f = (g, True)" "adder_inv cfg dst l r temp carry subtract i n f g"
    using Suc by (auto simp: i'_def)
  have same: "g p = f p"
    if "i' * instruction_size cfg \<le> p \<and> p < P \<or> P \<le> p \<and> p \<notin> {dst..<dst + n} \<union> {temp, temp + 1, carry}" for p
    using g(2) that unfolding adder_inv_def P_def i'_def by blast
  have n32: "n < 32" and i': "i' + 6 \<le> processor_n cfg" using Suc.prems by (simp_all add: i'_def)
  have rowsg: "decode cfg g (i' + j) = adder_rows cfg dst l r table temp carry i' n ! j" if j: "j < 6" for j
  proof -
    have "i' * instruction_size cfg \<le> (i' + j) * instruction_size cfg" by simp
    moreover have "Suc (i' + j) * instruction_size cfg \<le> P"
      using instruction_in_processor [of "i' + j" cfg] i' j by (simp add: P_def add.commute)
    ultimately have "decode cfg g (i' + j) = decode cfg f (i' + j)"
      by - (rule decode_cong, rule same, linarith)
    then show ?thesis using Suc.prems(3) [of n j] j by (simp add: i'_def)
  qed
  define h where "h = adder_result cfg dst l r table temp carry i' n g"
  have step: "exec_slots cfg [i'..<i' + 6] g = (h, True)"
    unfolding h_def by (rule adder_step [OF lay n32 i' rowsg])
  define s where "s = src_pos cfg (i' + 3)"
  have s: "i' * instruction_size cfg \<le> s" "s + 4 \<le> (i' + 6) * instruction_size cfg"
  proof -
    have "i' * instruction_size cfg \<le> (i' + 3) * instruction_size cfg" by simp
    also have "\<dots> \<le> s" unfolding s_def by (rule src_pos_begin)
    finally show "i' * instruction_size cfg \<le> s" .
    have "Suc (i' + 3) * instruction_size cfg \<le> (i' + 6) * instruction_size cfg" by (rule mult_le_mono1) simp
    then show "s + 4 \<le> (i' + 6) * instruction_size cfg"
      using src_pos_end [of cfg "i' + 3"] L(2) unfolding s_def by linarith
  qed
  have "(i' + 6) * instruction_size cfg \<le> P" unfolding P_def processor_bits_def by (rule mult_le_mono1) (rule i')
  then have sP: "s + 4 \<le> P" using s(2) by linarith
  define a b c where "a = g (l + n)" and "b = g (r + n)" and "c = g carry"
  define lo hi where "lo = g (table + entry a b c)" and "hi = g (table + entry a b c + 1)"
  have h: "h = g(s + 1 := a, s + 2 := b, s + 3 := c, temp := lo, temp + 1 := hi, dst + n := lo, carry := hi)"
    by (simp add: h_def adder_result_def Let_def s_def lo_def hi_def a_def b_def c_def)
  have old: "a = f (l + n)" "b = f (r + n)" "lo = f (table + entry a b c)" "hi = f (table + entry a b c + 1)"
  proof -
    have "l + n \<notin> {dst..<dst + n}" "r + n \<notin> {dst..<dst + n}"
      using L(28,29) n32 by (auto simp: apart_def)
    moreover have "l + n \<noteq> temp" "l + n \<noteq> temp + 1" "l + n \<noteq> carry" "r + n \<noteq> temp" "r + n \<noteq> temp + 1" "r + n \<noteq> carry"
      using L(20,21,23,24) n32 by (auto simp: apart_def)
    ultimately show "a = f (l + n)" "b = f (r + n)"
      unfolding a_def b_def using L(5,6) by (auto intro!: same simp: P_def)
    have "g (table + j) = f (table + j)" if "j < 16" for j
    proof (rule same)
      have "table + j \<notin> {dst..<dst + n} \<union> {temp, temp + 1, carry}"
        using L(16,25,26) n32 that by (auto simp: apart_def)
      then show "i' * instruction_size cfg \<le> table + j \<and> table + j < P \<or>
          P \<le> table + j \<and> table + j \<notin> {dst..<dst + n} \<union> {temp, temp + 1, carry}"
        using L(7) by (simp add: P_def)
    qed
    from this [of "entry a b c"] this [of "entry a b c + 1"] entry_bound [of a b c]
    show "lo = f (table + entry a b c)" "hi = f (table + entry a b c + 1)"
      by (simp_all add: lo_def hi_def add.assoc)
  qed
  have "bit_result subtract a b c lo hi" using tab old(3,4) by (simp add: table_holds_def)
  moreover have "partial_result subtract (low f l n) (low f r n) (low g dst n) c n"
    using g(2) by (simp add: adder_inv_def c_def)
  moreover have "low h dst n = low g dst n"
  proof (rule low_cong)
    fix j assume j: "j < n"
    have "dst + j \<noteq> temp" "dst + j \<noteq> temp + 1" "dst + j \<noteq> carry"
      using L(17,18) n32 j by (auto simp: apart_def)
    then show "h (dst + j) = g (dst + j)" using j sP L(4) by (simp add: h P_def)
  qed
  moreover have "h (dst + n) = lo" "h carry = hi"
    using L(18) n32 by (auto simp: h apart_def)
  ultimately have "partial_result subtract (low f l (Suc n)) (low f r (Suc n)) (low h dst (Suc n)) (h carry) (Suc n)"
    using old(1,2) partial_result_Suc by (simp add: low_Suc)
  moreover have "h p = f p"
    if p: "(i' + 6) * instruction_size cfg \<le> p \<and> p < P \<or> P \<le> p \<and> p \<notin> {dst..<dst + Suc n} \<union> {temp, temp + 1, carry}" for p
  proof -
    have "p \<noteq> s + 1" "p \<noteq> s + 2" "p \<noteq> s + 3" "p \<noteq> temp" "p \<noteq> temp + 1" "p \<noteq> carry" "p \<noteq> dst + n"
      using p s(2) sP L(4,8,9) by (auto simp: P_def)
    then have "h p = g p" by (simp add: h)
    moreover have "i' * instruction_size cfg \<le> p" if "(i' + 6) * instruction_size cfg \<le> p"
      by (rule le_trans [OF _ that]) simp
    then have "g p = f p" using p by (intro same) auto
    ultimately show ?thesis by simp
  qed
  moreover have next_i: "i + 6 * Suc n = i' + 6" by (simp add: i'_def)
  moreover have "[i..<i' + 6] = [i..<i'] @ [i'..<i' + 6]"
    by (rule upt_add_eq_append) (simp add: i'_def)
  ultimately show ?case
    using g(1) step unfolding adder_inv_def next_i P_def by (intro exI [of _ h]) (simp add: exec_slots_append)
qed

section \<open>The whole adder\<close>

lemma nth_concat_const:
  "(\<And>k. k < n \<Longrightarrow> length (rows k) = c) \<Longrightarrow> k < n \<Longrightarrow> j < c \<Longrightarrow>
    concat (map rows [0..<n]) ! (c * k + j) = rows k ! j"
proof (induction n)
  case (Suc n)
  have len: "length (concat (map rows [0..<n])) = c * n"
    using Suc.prems(1) by (simp add: length_concat o_def sum_list_triv interv_sum_list_conv_sum_set_nat)
  show ?case
  proof (cases "k < n")
    case True
    then have "Suc k * c \<le> n * c" by (intro mult_le_mono1) simp
    then have "c * k + j < c * n" using Suc.prems(3) by (simp add: mult.commute)
    then show ?thesis using Suc True len by (simp add: nth_append)
  next
    case False
    then have "k = n" using Suc.prems(2) by simp
    then show ?thesis using len by (simp add: nth_append)
  qed
qed simp

definition adder_program :: "config \<Rightarrow> nat \<Rightarrow> nat \<Rightarrow> nat \<Rightarrow> nat \<Rightarrow> nat \<Rightarrow> nat \<Rightarrow> nat \<Rightarrow> instruction list" where
  "adder_program cfg dst l r table temp carry i =
     row 1 carry table # concat (map (\<lambda>k. adder_rows cfg dst l r table temp carry (i + 1 + 6 * k) k) [0..<32])"

lemma length_adder_rows: "length (adder_rows cfg dst l r table temp carry i k) = 6"
  by (simp add: adder_rows_def)

lemma length_adder_program: "length (adder_program cfg dst l r table temp carry i) = 193"
  by (simp add: adder_program_def length_concat o_def length_adder_rows sum_list_triv)

lemma adder_program_nth:
  "k < 32 \<Longrightarrow> j < 6 \<Longrightarrow> adder_program cfg dst l r table temp carry i ! (1 + 6 * k + j)
    = adder_rows cfg dst l r table temp carry (i + 1 + 6 * k) k ! j"
  using nth_concat_const [of 32 "\<lambda>k. adder_rows cfg dst l r table temp carry (i + 1 + 6 * k) k" 6 k j]
  by (simp add: adder_program_def length_adder_rows)

definition arith_word :: "bool \<Rightarrow> u32 \<Rightarrow> u32 \<Rightarrow> u32" where
  "arith_word subtract a b = (if subtract then a - b else a + b)"

definition arith_carry :: "bool \<Rightarrow> u32 \<Rightarrow> u32 \<Rightarrow> bool" where
  "arith_carry subtract a b \<longleftrightarrow> (if subtract then a < b else 2 ^ 32 \<le> unat a + unat b)"

lemma partial_result_32:
  fixes a b d :: u32
  assumes "partial_result subtract (unat a) (unat b) (unat d) c 32"
  shows "d = arith_word subtract a b" and "c = arith_carry subtract a b"
proof -
  have bounds: "unat a < 2 ^ 32" "unat b < 2 ^ 32" "unat d < 2 ^ 32"
    using unsigned_less [of a] unsigned_less [of b] unsigned_less [of d] by simp_all
  have zero: "(4294967296 :: u32) = 0" by simp
  show "d = arith_word subtract a b"
  proof (cases subtract)
    case True
    then have "(of_nat (unat a + 2 ^ 32 * of_bool c) :: u32) = of_nat (unat b + unat d)"
      using assms by (simp add: partial_result_def)
    then have "a = b + d" by (cases c) (simp_all add: zero)
    then show ?thesis using True by (simp add: arith_word_def)
  next
    case False
    then have "(of_nat (unat a + unat b) :: u32) = of_nat (unat d + 2 ^ 32 * of_bool c)"
      using assms by (simp add: partial_result_def)
    then show ?thesis using False by (simp add: arith_word_def)
  qed
  show "c = arith_carry subtract a b"
    using assms bounds
    by (cases c; cases subtract) (auto simp: partial_result_def arith_carry_def word_less_nat_alt)
qed

lemma adder_exec:
  assumes lay: "adder_layout cfg dst l r table temp carry" and tab: "table_holds subtract f table"
    and i: "i + 193 \<le> processor_n cfg"
    and rows: "\<And>j. j < 193 \<Longrightarrow> decode cfg f (i + j) = adder_program cfg dst l r table temp carry i ! j"
  shows "\<exists>g. exec_slots cfg [i..<i + 193] f = (g, True) \<and>
    word32 g dst = arith_word subtract (word32 f l) (word32 f r) \<and>
    g carry = arith_carry subtract (word32 f l) (word32 f r) \<and>
    (\<forall>p. (i + 193) * instruction_size cfg \<le> p \<and> p \<notin> {dst..<dst + 32} \<union> {temp, temp + 1, carry} \<longrightarrow> g p = f p)"
proof -
  note L = adder_layoutD [OF lay]
  define P where "P = processor_bits cfg"
  define f1 where "f1 = f(carry := False)"
  have "bit_result subtract False False False (f (table + entry False False False)) (f (table + entry False False False + 1))"
    using tab by (simp add: table_holds_def)
  then have "\<not> f table" by (cases subtract) (auto simp: bit_result_def entry_def)
  moreover have "decode cfg f i = row 1 carry table" using rows [of 0] by (simp add: adder_program_def)
  ultimately have first: "exec_slots cfg (i # zs) f = exec_slots cfg zs f1" for zs
    using exec_row_bit [of cfg f i carry table zs] L(13,15) by (simp add: f1_def)
  have PS: "Suc j * instruction_size cfg \<le> P" if "j < processor_n cfg" for j
    using instruction_in_processor [OF that] by (simp add: P_def add.commute)
  have dec: "decode cfg f1 j = decode cfg f j" if "j < processor_n cfg" for j
    using PS [OF that] L(9) by (intro decode_cong) (auto simp: f1_def P_def)
  have "\<exists>g. exec_slots cfg [i + 1..<i + 1 + 6 * 32] f1 = (g, True) \<and>
      adder_inv cfg dst l r temp carry subtract (i + 1) 32 f1 g"
  proof (rule adder_loop [OF lay])
    show "table_holds subtract f1 table"
      unfolding table_holds_def
    proof (intro allI)
      fix a b c
      have "table + entry a b c \<noteq> carry" "table + entry a b c + 1 \<noteq> carry"
        using L(26) entry_bound [of a b c] by (auto simp: apart_def)
      then show "bit_result subtract a b c (f1 (table + entry a b c)) (f1 (table + entry a b c + 1))"
        using tab by (simp add: table_holds_def f1_def)
    qed
    fix k j :: nat assume kj: "k < 32" "j < 6"
    have "decode cfg f1 (i + 1 + 6 * k + j) = decode cfg f (i + (1 + 6 * k + j))"
      using i kj by (subst dec) (simp_all add: add.assoc)
    also have "\<dots> = adder_program cfg dst l r table temp carry i ! (1 + 6 * k + j)"
      by (rule rows) (use kj in simp)
    also have "\<dots> = adder_rows cfg dst l r table temp carry (i + 1 + 6 * k) k ! j"
      by (rule adder_program_nth [OF kj])
    finally show "decode cfg f1 (i + 1 + 6 * k + j) = adder_rows cfg dst l r table temp carry (i + 1 + 6 * k) k ! j" .
  qed (use i in \<open>simp_all add: f1_def\<close>)
  then obtain g where g: "exec_slots cfg [i + 1..<i + 193] f1 = (g, True)"
      "adder_inv cfg dst l r temp carry subtract (i + 1) 32 f1 g"
    using add.commute [of 193 i] by auto
  have "low f1 l 32 = low f l 32" "low f1 r 32 = low f r 32"
    using L(21,24) by (auto intro!: low_cong simp: f1_def apart_def)
  then have "partial_result subtract (unat (word32 f l)) (unat (word32 f r)) (unat (word32 g dst)) (g carry) 32"
    using g(2) by (simp add: adder_inv_def low_32)
  note res = partial_result_32 [OF this]
  have "[i..<i + 193] = i # [i + 1..<i + 193]" by (simp add: upt_conv_Cons)
  then have "exec_slots cfg [i..<i + 193] f = (g, True)" using first g(1) by simp
  moreover have "g p = f p"
    if "(i + 193) * instruction_size cfg \<le> p" "p \<notin> {dst..<dst + 32} \<union> {temp, temp + 1, carry}" for p
  proof -
    have eq: "i + 1 + 6 * 32 = i + 193" by simp
    have "p < P \<or> P \<le> p" by linarith
    then have "(i + 1 + 6 * 32) * instruction_size cfg \<le> p \<and> p < P \<or>
        P \<le> p \<and> p \<notin> {dst..<dst + 32} \<union> {temp, temp + 1, carry}"
      unfolding eq using that by blast
    then have "g p = f1 p" using g(2) unfolding adder_inv_def P_def by blast
    then show ?thesis using that(2) by (simp add: f1_def)
  qed
  ultimately show ?thesis using res by (intro exI [of _ g]) blast
qed

end
