(* ===== verification/CopyBits.thy ===== *)
theory CopyBits
  imports CopyArith
begin

text \<open>
  What the instruction sequence of \<open>cs_copy_bits32\<close> (runtime/gcc/copy_emit.c) computes: for
  every bit position two operand bits are copied into the low address bits of an
  instruction that then reads a four-entry truth table.
\<close>

definition bits_layout :: "config \<Rightarrow> nat \<Rightarrow> nat \<Rightarrow> nat \<Rightarrow> nat \<Rightarrow> bool" where
  "bits_layout cfg dst l r table \<longleftrightarrow>
     config_ok cfg \<and> 5 \<le> address_size cfg \<and> table mod 4 = 0 \<and>
     processor_bits cfg \<le> dst \<and> processor_bits cfg \<le> l \<and> processor_bits cfg \<le> r \<and> processor_bits cfg \<le> table \<and>
     dst + 32 \<le> space_size cfg \<and> l + 32 \<le> space_size cfg \<and> r + 32 \<le> space_size cfg \<and>
     table + 4 \<le> space_size cfg \<and> apart dst 32 table 4 \<and>
     (dst = l \<or> apart dst 32 l 32) \<and> (dst = r \<or> apart dst 32 r 32)"

definition bits_rows :: "config \<Rightarrow> nat \<Rightarrow> nat \<Rightarrow> nat \<Rightarrow> nat \<Rightarrow> nat \<Rightarrow> nat \<Rightarrow> instruction list" where
  "bits_rows cfg dst l r table i k =
     [row 1 (src_pos cfg (i + 2)) (l + k), row 1 (src_pos cfg (i + 2) + 1) (r + k), row 1 (dst + k) table]"

definition truth_entry :: "bool \<Rightarrow> bool \<Rightarrow> nat" where
  "truth_entry a b = of_bool a + 2 * of_bool b"

lemma truth_entry_bound: "truth_entry a b < 4"
  by (simp add: truth_entry_def of_bool_def)

lemma truth_entry_bit:
  assumes "j < 2"
  shows "bit (truth_entry a b) j \<longleftrightarrow> j = 0 \<and> a \<or> j = 1 \<and> b"
proof -
  have "j = 0 \<or> j = 1" using assms by linarith
  then show ?thesis by (cases a; cases b) (auto simp: truth_entry_def bit_iff_odd)
qed

definition truth_holds :: "(bool \<Rightarrow> bool \<Rightarrow> bool) \<Rightarrow> (nat \<Rightarrow> bool) \<Rightarrow> nat \<Rightarrow> bool" where
  "truth_holds F f table \<longleftrightarrow> (\<forall>a b. f (table + truth_entry a b) = F a b)"

lemma bits_step:
  assumes lay: "bits_layout cfg dst l r table" and k: "k < 32" and i: "i + 3 \<le> processor_n cfg"
    and rows: "\<And>j. j < 3 \<Longrightarrow> decode cfg f (i + j) = bits_rows cfg dst l r table i k ! j"
    and tab: "truth_holds F f table"
  shows "exec_slots cfg [i..<i + 3] f =
    (f(src_pos cfg (i + 2) := f (l + k), src_pos cfg (i + 2) + 1 := f (r + k), dst + k := F (f (l + k)) (f (r + k))), True)"
proof -
  define P where "P = processor_bits cfg"
  define S where "S = space_size cfg"
  define s where "s = src_pos cfg (i + 2)"
  define a b where "a = f (l + k)" and "b = f (r + k)"
  have ok: "config_ok cfg" and ab: "5 \<le> address_size cfg" and al: "table mod 2 ^ 2 = 0"
    using lay by (simp_all add: bits_layout_def)
  have data: "P \<le> l + k" "P \<le> r + k" "P \<le> dst + k" "P \<le> table" "l + k < S" "r + k < S" "dst + k < S" "table + 4 \<le> S"
    using lay k by (auto simp: bits_layout_def P_def S_def)
  have PS: "P < S" using config_bounds(4) [OF ok] by (simp add: P_def S_def)
  have "Suc (i + 2) * instruction_size cfg \<le> P"
    using instruction_in_processor [of "i + 2" cfg] i by (simp add: P_def add.commute)
  then have sP: "s + 4 \<le> P" using src_pos_end [of cfg "i + 2"] ab unfolding s_def by linarith
  have s: "(i + 2) * instruction_size cfg \<le> s" "s + address_size cfg = Suc (i + 2) * instruction_size cfg"
    using src_pos_begin [of "i + 2" cfg] src_pos_end [of cfg "i + 2"] by (simp_all add: s_def)
  have R: "decode cfg f i = row 1 s (l + k)" "decode cfg f (Suc i) = row 1 (s + 1) (r + k)"
    "decode cfg f (i + 2) = row 1 (dst + k) table"
    using rows [of 0] rows [of 1] rows [of 2] by (simp_all add: bits_rows_def s_def)
  define f1 f2 where "f1 = f(s := a)" and "f2 = f1(s + 1 := b)"
  have x0: "exec_slots cfg (i # zs) f = exec_slots cfg zs f1" for zs
    using exec_row_bit [OF R(1), of zs] sP PS data by (simp add: f1_def a_def S_def)
  have "decode cfg f1 (Suc i) = decode cfg f (Suc i)"
  proof (rule decode_cong)
    fix p assume p: "Suc i * instruction_size cfg \<le> p" "p < Suc (Suc i) * instruction_size cfg"
    have "p \<noteq> s" using row_position [of "i + 2" cfg s "Suc i"] s ab p by auto
    then show "f1 p = f p" by (simp add: f1_def)
  qed
  then have x1: "exec_slots cfg (Suc i # zs) f1 = exec_slots cfg zs f2" for zs
    using exec_row_bit [of cfg f1 "Suc i" "s + 1" "r + k" zs] R(2) sP PS data by (simp add: f1_def f2_def b_def S_def)
  have D: "decode cfg f2 (i + 2) = row 1 (dst + k) (table + truth_entry a b)"
  proof (rule decode_patched [OF ok R(3) al])
    show "2 \<le> address_size cfg" using ab by simp
    show "truth_entry a b < 2 ^ 2" using truth_entry_bound [of a b] by simp
    fix j :: nat assume j: "j < 2"
    then have "j = 0 \<or> j = 1" by linarith
    then show "f2 (src_pos cfg (i + 2) + j) = bit (truth_entry a b) j"
      unfolding s_def [symmetric] truth_entry_bit [OF j] by (auto simp: f1_def f2_def)
  qed (auto simp: f1_def f2_def s_def)
  have "f2 (table + truth_entry a b) = f (table + truth_entry a b)" using sP data by (simp add: f1_def f2_def)
  then have "f2 (table + truth_entry a b) = F a b" using tab by (simp add: truth_holds_def)
  then have x2: "exec_slots cfg ((i + 2) # zs) f2 = exec_slots cfg zs (f2(dst + k := F a b))" for zs
    using exec_row_bit [OF D, of zs] data truth_entry_bound [of a b] by (simp add: S_def)
  have "[i..<i + 3] = [i, Suc i, i + 2]" by (simp add: upt_rec)
  then have "exec_slots cfg [i..<i + 3] f = (f2(dst + k := F a b), True)"
    by (simp only: x0 x1 x2 exec_slots.simps(1))
  then show ?thesis by (simp only: f1_def f2_def a_def b_def s_def)
qed

definition bits_inv ::
  "config \<Rightarrow> nat \<Rightarrow> nat \<Rightarrow> nat \<Rightarrow> (bool \<Rightarrow> bool \<Rightarrow> bool) \<Rightarrow> nat \<Rightarrow> nat \<Rightarrow> (nat \<Rightarrow> bool) \<Rightarrow> (nat \<Rightarrow> bool) \<Rightarrow> bool" where
  "bits_inv cfg dst l r F i n f g \<longleftrightarrow>
     (\<forall>p. (i + 3 * n) * instruction_size cfg \<le> p \<and> p \<notin> {dst..<dst + n} \<longrightarrow> g p = f p) \<and>
     (\<forall>j < n. g (dst + j) = F (f (l + j)) (f (r + j)))"

lemma bits_loop:
  assumes lay: "bits_layout cfg dst l r table" and tab: "truth_holds F f table"
    and n: "n \<le> 32" and i: "i + 3 * n \<le> processor_n cfg"
    and rows: "\<And>k j. k < n \<Longrightarrow> j < 3 \<Longrightarrow>
      decode cfg f (i + 3 * k + j) = bits_rows cfg dst l r table (i + 3 * k) k ! j"
  shows "\<exists>g. exec_slots cfg [i..<i + 3 * n] f = (g, True) \<and> bits_inv cfg dst l r F i n f g"
  using n i rows
proof (induction n)
  case 0
  then show ?case by (auto simp: bits_inv_def)
next
  case (Suc n)
  define P where "P = processor_bits cfg"
  define i' where "i' = i + 3 * n"
  have data: "P \<le> l" "P \<le> r" "P \<le> dst" "P \<le> table" and ab: "5 \<le> address_size cfg"
    and ap: "apart dst 32 table 4" "dst = l \<or> apart dst 32 l 32" "dst = r \<or> apart dst 32 r 32"
    using lay by (simp_all add: bits_layout_def P_def)
  obtain g where g: "exec_slots cfg [i..<i'] f = (g, True)" "bits_inv cfg dst l r F i n f g"
    using Suc by (auto simp: i'_def)
  have same: "g p = f p" if "i' * instruction_size cfg \<le> p" "p \<notin> {dst..<dst + n}" for p
    using g(2) that unfolding bits_inv_def i'_def by blast
  have n32: "n < 32" and i': "i' + 3 \<le> processor_n cfg" using Suc.prems by (simp_all add: i'_def)
  have iP: "(i' + 3) * instruction_size cfg \<le> P" unfolding P_def processor_bits_def by (rule mult_le_mono1) (rule i')
  have "i' * instruction_size cfg \<le> (i' + 3) * instruction_size cfg" by simp
  then have iP': "i' * instruction_size cfg \<le> P" using iP by linarith
  have rowsg: "decode cfg g (i' + j) = bits_rows cfg dst l r table i' n ! j" if j: "j < 3" for j
  proof -
    have "Suc (i' + j) * instruction_size cfg \<le> P"
      using instruction_in_processor [of "i' + j" cfg] i' j by (simp add: P_def add.commute)
    moreover have "i' * instruction_size cfg \<le> (i' + j) * instruction_size cfg" by simp
    ultimately have "decode cfg g (i' + j) = decode cfg f (i' + j)"
      using data(3) by - (rule decode_cong, rule same, linarith, simp)
    then show ?thesis using Suc.prems(3) [of n j] j by (simp add: i'_def)
  qed
  have tabg: "truth_holds F g table"
    unfolding truth_holds_def
  proof (intro allI)
    fix a b
    have "table + truth_entry a b \<notin> {dst..<dst + n}"
      using ap(1) truth_entry_bound [of a b] n32 by (auto simp: apart_def)
    then have "g (table + truth_entry a b) = f (table + truth_entry a b)" using iP' data by (intro same) simp_all
    then show "g (table + truth_entry a b) = F a b" using tab by (simp add: truth_holds_def)
  qed
  define s where "s = src_pos cfg (i' + 2)"
  define h where "h = g(s := g (l + n), s + 1 := g (r + n), dst + n := F (g (l + n)) (g (r + n)))"
  have step: "exec_slots cfg [i'..<i' + 3] g = (h, True)"
    unfolding h_def s_def by (rule bits_step [OF lay n32 i' rowsg tabg])
  have s: "s + 2 \<le> (i' + 3) * instruction_size cfg"
  proof -
    have eq: "Suc (i' + 2) = i' + 3" by simp
    show ?thesis using src_pos_end [of cfg "i' + 2", unfolded eq] ab unfolding s_def by linarith
  qed
  have ops: "g (l + n) = f (l + n)" "g (r + n) = f (r + n)"
    using iP' data ap(2,3) n32 by (auto intro!: same simp: apart_def)
  have "h (dst + j) = F (f (l + j)) (f (r + j))" if "j < Suc n" for j
  proof (cases "j = n")
    case True
    then show ?thesis by (simp add: h_def ops)
  next
    case False
    then have "h (dst + j) = g (dst + j)" using that s iP data(3) by (simp add: h_def)
    then show ?thesis using g(2) that False by (simp add: bits_inv_def)
  qed
  moreover have "h p = f p" if "(i' + 3) * instruction_size cfg \<le> p" "p \<notin> {dst..<dst + Suc n}" for p
  proof -
    have "p \<noteq> s" "p \<noteq> s + 1" "p \<noteq> dst + n" using that s by auto
    then have "h p = g p" by (simp add: h_def)
    moreover have "i' * instruction_size cfg \<le> p" by (rule le_trans [OF _ that(1)]) simp
    moreover have "p \<notin> {dst..<dst + n}" using that(2) by auto
    ultimately show ?thesis using same [of p] by simp
  qed
  moreover have next_i: "i + 3 * Suc n = i' + 3" by (simp add: i'_def)
  moreover have "[i..<i' + 3] = [i..<i'] @ [i'..<i' + 3]"
    by (rule upt_add_eq_append) (simp add: i'_def)
  ultimately show ?case
    using g(1) step unfolding bits_inv_def next_i by (intro exI [of _ h]) (simp add: exec_slots_append)
qed

definition bits_program :: "config \<Rightarrow> nat \<Rightarrow> nat \<Rightarrow> nat \<Rightarrow> nat \<Rightarrow> nat \<Rightarrow> instruction list" where
  "bits_program cfg dst l r table i = concat (map (\<lambda>k. bits_rows cfg dst l r table (i + 3 * k) k) [0..<32])"

lemma bits_exec:
  assumes lay: "bits_layout cfg dst l r table" and tab: "truth_holds F f table" and i: "i + 96 \<le> processor_n cfg"
    and rows: "\<And>j. j < 96 \<Longrightarrow> decode cfg f (i + j) = bits_program cfg dst l r table i ! j"
  shows "\<exists>g. exec_slots cfg [i..<i + 96] f = (g, True) \<and>
    (\<forall>j < 32. bit (word32 g dst) j = F (bit (word32 f l) j) (bit (word32 f r) j)) \<and>
    (\<forall>p. (i + 96) * instruction_size cfg \<le> p \<and> p \<notin> {dst..<dst + 32} \<longrightarrow> g p = f p)"
proof -
  have "\<exists>g. exec_slots cfg [i..<i + 3 * 32] f = (g, True) \<and> bits_inv cfg dst l r F i 32 f g"
  proof (rule bits_loop [OF lay tab])
    fix k j :: nat assume kj: "k < 32" "j < 3"
    have "decode cfg f (i + 3 * k + j) = bits_program cfg dst l r table i ! (3 * k + j)"
      using rows [of "3 * k + j"] kj by (simp add: add.assoc)
    also have "\<dots> = bits_rows cfg dst l r table (i + 3 * k) k ! j"
      unfolding bits_program_def by (rule nth_concat_const) (use kj in \<open>simp_all add: bits_rows_def\<close>)
    finally show "decode cfg f (i + 3 * k + j) = bits_rows cfg dst l r table (i + 3 * k) k ! j" .
  qed (use i in simp_all)
  then obtain g where g: "exec_slots cfg [i..<i + 3 * 32] f = (g, True)" "bits_inv cfg dst l r F i 32 f g" by blast
  have slots: "i + 3 * 32 = i + 96" by simp
  have "bit (word32 g dst) j = F (bit (word32 f l) j) (bit (word32 f r) j)" if "j < 32" for j
    using g(2) that by (simp add: bits_inv_def word32_def bit_word_field)
  moreover have "g p = f p" if "(i + 96) * instruction_size cfg \<le> p \<and> p \<notin> {dst..<dst + 32}" for p
    using g(2) that unfolding bits_inv_def slots by blast
  ultimately show ?thesis using g(1) unfolding slots by blast
qed

end
