(* ===== verification/CopyCode.thy ===== *)
theory CopyCode
  imports CopyBits
begin

text \<open>
  runtime/gcc/copy_emit.c: the generated code is correct. \<open>arithmetic32_emits\<close> and
  \<open>bits32_emits\<close> say what the generator leaves in the buffer, and the properties combine
  them with the execution lemmas: a machine whose active layer is the generated one adds,
  subtracts and combines 32-bit words, whatever else its memory holds.
\<close>

section \<open>Placement\<close>

lemma overlaps_apart:
  assumes "\<not> overlaps a an b bn" and "a + an < 2 ^ 32" and "b + bn < 2 ^ 32"
  shows "apart a an b bn"
  using assms by (auto simp: overlaps_def apart_def)

lemma add_valid_layout:
  assumes ok: "image_ok img m" and valid: "add_valid img dst l r table temp carry"
  shows "adder_layout (img_config img) dst l r table temp carry"
    and "\<forall>(a, w) \<in> {(dst, 32), (l, 32), (r, 32), (table, 16), (temp, 2), (carry, 1)}.
      apart a w (im_layer img) (im_layer_bits img)"
    and "table + 16 \<le> 8 * length m" and "carry + 1 \<le> 8 * length m" and "im_slot img + 193 \<le> 255"
proof -
  note simps = img_config_simps [OF ok]
  have S: "im_space_bits img < 2 ^ 32" using image_okD(12) [OF ok] by simp
  have layer: "im_layer img + im_layer_bits img < 2 ^ 32"
    using image_okD(6,7) [OF ok] S by linarith
  have v: "\<forall>(a, w) \<in> {(dst, 32), (l, 32), (r, 32), (table, 16), (temp, 2), (carry, 1)}.
      fits a w (im_space_bits img) \<and> \<not> overlaps a w (im_layer img) (im_layer_bits img) \<and>
      \<not> overlaps a w 0 (im_layer_bits img)"
    using valid by (simp add: add_valid_def Let_def upt_rec)
  have fit: "a + w < 2 ^ 32" "a + w \<le> im_space_bits img"
    if "(a, w) \<in> {(dst, 32), (l, 32), (r, 32), (table, 16), (temp, 2), (carry, 1)}" for a w :: nat
  proof -
    have "fits a w (im_space_bits img)" using v that by fast
    then show "a + w \<le> im_space_bits img" by (auto simp: fits_def)
    then show "a + w < 2 ^ 32" using S by linarith
  qed
  have pos: "im_layer_bits img \<noteq> 0" using image_okD(3,4) [OF ok] image_address_bits [OF ok] by simp
  have active: "im_layer_bits img \<le> a"
    if "(a, w) \<in> {(dst, 32), (l, 32), (r, 32), (table, 16), (temp, 2), (carry, 1)}" for a w :: nat
  proof -
    have "\<not> overlaps a w 0 (im_layer_bits img)" using v that by fast
    then have "apart a w 0 (im_layer_bits img)"
      using fit [OF that] layer by (intro overlaps_apart) auto
    moreover have "0 < w" using that by auto
    ultimately show ?thesis by (auto simp: apart_def)
  qed
  show "\<forall>(a, w) \<in> {(dst, 32), (l, 32), (r, 32), (table, 16), (temp, 2), (carry, 1)}.
      apart a w (im_layer img) (im_layer_bits img)"
  proof (intro ballI, clarify)
    fix a w :: nat assume aw: "(a, w) \<in> {(dst, 32), (l, 32), (r, 32), (table, 16), (temp, 2), (carry, 1)}"
    show "apart a w (im_layer img) (im_layer_bits img)"
      by (rule overlaps_apart [OF _ fit(1) [OF aw] layer]) (use v aw in fast)
  qed
  have no: "\<not> overlaps table 16 dst 32" "\<not> overlaps table 16 l 32" "\<not> overlaps table 16 r 32"
    "\<not> overlaps temp 2 dst 32" "\<not> overlaps temp 2 l 32" "\<not> overlaps temp 2 r 32" "\<not> overlaps temp 2 table 16"
    "\<not> overlaps carry 1 dst 32" "\<not> overlaps carry 1 l 32" "\<not> overlaps carry 1 r 32"
    "\<not> overlaps carry 1 table 16" "\<not> overlaps carry 1 temp 2"
    "dst = l \<or> \<not> overlaps dst 32 l 32" "dst = r \<or> \<not> overlaps dst 32 r 32"
    using valid by (simp_all add: add_valid_def Let_def upt_rec)
  have sym: "apart b bn a an" if "\<not> overlaps a an b bn"
    "(a, an) \<in> {(dst, 32), (l, 32), (r, 32), (table, 16), (temp, 2), (carry, 1)}"
    "(b, bn) \<in> {(dst, 32), (l, 32), (r, 32), (table, 16), (temp, 2), (carry, 1)}" for a an b bn
    using overlaps_apart [OF that(1) fit(1) [OF that(2)] fit(1) [OF that(3)]] by (auto simp: apart_def)
  have "table mod 16 = 0"
  proof -
    have "table AND 15 = take_bit 4 table" by (simp add: take_bit_eq_mask mask_eq_exp_minus_1)
    then show ?thesis using valid by (simp add: add_valid_def Let_def take_bit_eq_mod)
  qed
  moreover have "config_ok (img_config img)"
    unfolding config_ok_def space_configuration_valid_def simps
    using image_okD [OF ok] image_address_bits [OF ok] active [of dst 32] fit(2) [of dst 32] by simp
  moreover have "dst = l \<or> apart dst 32 l 32" "dst = r \<or> apart dst 32 r 32"
    using no(13,14) sym [of dst 32 l 32] sym [of dst 32 r 32] by (auto simp: apart_def)
  moreover have "5 \<le> im_address_bits img" using image_address_bits [OF ok] by simp
  moreover have inside: "\<forall>(a, w) \<in> {(dst, 32), (l, 32), (r, 32), (table, 16), (temp, 2), (carry, 1)}.
      im_layer_bits img \<le> a \<and> a + w \<le> im_space_bits img"
  proof (intro ballI, clarify)
    fix a w :: nat assume aw: "(a, w) \<in> {(dst, 32), (l, 32), (r, 32), (table, 16), (temp, 2), (carry, 1)}"
    show "im_layer_bits img \<le> a \<and> a + w \<le> im_space_bits img" using active [OF aw] fit(2) [OF aw] ..
  qed
  ultimately show "adder_layout (img_config img) dst l r table temp carry"
    unfolding adder_layout_def simps
    using sym [OF no(1)] sym [OF no(2)] sym [OF no(3)] sym [OF no(4)] sym [OF no(5)] sym [OF no(6)]
      sym [OF no(7)] sym [OF no(8)] sym [OF no(9)] sym [OF no(10)] sym [OF no(11)] sym [OF no(12)] inside
    by simp
  show "table + 16 \<le> 8 * length m" "carry + 1 \<le> 8 * length m" "im_slot img + 193 \<le> 255"
    using valid image_okD(5) [OF ok] by (auto simp: add_valid_def Let_def fits_def)
qed

section \<open>The truth table of the adder\<close>

lemma arith_table_yields:
  assumes "table + 16 \<le> 8 * length m"
  shows "yields (for_up (\<lambda>i. field (table + 2 * i) 2 (arith_value subtract i)) 0 8 m) (length m)
    (\<lambda>p. if table \<le> p \<and> p < table + 16 then bit (arith_value subtract ((p - table) div 2)) ((p - table) mod 2)
         else bit_at m p)"
proof -
  let ?f = "\<lambda>i p. if table \<le> p \<and> p < table + 2 * i
    then bit (arith_value subtract ((p - table) div 2)) ((p - table) mod 2) else bit_at m p"
  have "yields (for_up (\<lambda>i. field (table + 2 * i) 2 (arith_value subtract i)) 0 8 m) (length m) (?f (0 + 8))"
  proof (rule yields_for_up)
    fix i m' assume i: "i < 0 + 8" and len: "length m' = length m" and bits: "bit_at m' = ?f i"
    have "yields (field (table + 2 * i) 2 (arith_value subtract i) m') (length m')
        (blit 2 0 (table + 2 * i) (bit (arith_value subtract i)) (bit_at m'))"
      by (rule field_yields) (use i assms len in simp)
    moreover have "blit 2 0 (table + 2 * i) (bit (arith_value subtract i)) (bit_at m') = ?f (Suc i)"
    proof (rule ext)
      fix p
      have split: "(p - table) div 2 = i \<and> (p - table) mod 2 = p - (table + 2 * i)"
        if "table + 2 * i \<le> p" "p < table + 2 * i + 2"
      proof -
        obtain d where d: "p = table + 2 * i + d" using \<open>table + 2 * i \<le> p\<close> le_iff_add by blast
        then have "d < 2" using that(2) by simp
        then show ?thesis by (simp add: d)
      qed
      show "blit 2 0 (table + 2 * i) (bit (arith_value subtract i)) (bit_at m') p = ?f (Suc i) p"
        using split by (auto simp: bits blit_def)
    qed
    ultimately show "yields (field (table + 2 * i) 2 (arith_value subtract i) m') (length m) (?f (Suc i))"
      by (simp add: len)
  qed (auto simp: fun_eq_iff)
  then show ?thesis by simp
qed

lemma arith_value_bits:
  "bit_result subtract a b c (bit (arith_value subtract (of_bool a + 2 * of_bool b + 4 * of_bool c)) 0)
     (bit (arith_value subtract (of_bool a + 2 * of_bool b + 4 * of_bool c)) 1)"
proof -
  have "\<forall>subtract a b c. bit_result subtract a b c
      (bit (arith_value subtract (of_bool a + 2 * of_bool b + 4 * of_bool c)) 0)
      (bit (arith_value subtract (of_bool a + 2 * of_bool b + 4 * of_bool c)) 1)"
    by code_simp
  then show ?thesis by blast
qed

lemma arith_table_holds:
  assumes "\<And>p. table \<le> p \<Longrightarrow> p < table + 16 \<Longrightarrow>
    f p = bit (arith_value subtract ((p - table) div 2)) ((p - table) mod 2)"
  shows "table_holds subtract f table"
  unfolding table_holds_def
proof (intro allI)
  fix a b c
  define e :: nat where "e = of_bool a + 2 * of_bool b + 4 * of_bool c"
  have entry: "entry a b c = 2 * e" by (simp add: entry_def e_def)
  have "entry a b c + 1 < 16" by (rule entry_bound)
  then have "f (table + entry a b c) = bit (arith_value subtract e) 0"
    "f (table + entry a b c + 1) = bit (arith_value subtract e) 1"
    using assms [of "table + entry a b c"] assms [of "table + entry a b c + 1"] by (simp_all add: entry)
  then show "bit_result subtract a b c (f (table + entry a b c)) (f (table + entry a b c + 1))"
    using arith_value_bits [of subtract a b c] by (simp only: e_def)
qed

section \<open>The emitted adder\<close>

lemma emit_layout:
  assumes "image_ok img m"
  shows "src_pos (img_config img) i = i * im_instruction_bits img + im_count_bits img + im_address_bits img"
  by (simp add: src_pos_def img_config_simps [OF assms])

lemma emit_all_eqs:
  "emit_all [] = Some"
  "emit_all (ins # rows) = (\<lambda>st. Option.bind (emit_row (fld_n ins) (fld_dst ins) (fld_src ins) st) (emit_all rows))"
  by (simp_all add: fun_eq_iff)

lemma arith_bit_emits:
  assumes ok: "image_ok img m" and lay: "adder_layout (img_config img) dst l r table temp carry"
    and k: "k < 32" and slot: "im_slot img + 6 \<le> 255"
  shows "emits img m (adder_rows (img_config img) dst l r table temp carry (im_slot img) k)
    (arith_bit dst l r table temp carry k (img, m))"
proof -
  note L = adder_layoutD [OF lay] and simps = img_config_simps [OF ok]
  have ab: "5 \<le> im_address_bits img" using L(2) simps by simp
  then have cb: "2 ^ 2 \<le> (2 :: nat) ^ im_count_bits img"
    using image_okD(2) [OF ok] by (intro power_increasing) simp_all
  define s where "s = (im_slot img + 3) * im_instruction_bits img + im_count_bits img + im_address_bits img"
  have "Suc (im_slot img + 3) * im_instruction_bits img \<le> im_layer_bits img"
    using slot image_okD(4) [OF ok] by (simp only:) (rule mult_le_mono1, simp)
  then have s: "s + 5 \<le> im_layer_bits img"
    using image_split [OF ok] ab unfolding s_def mult_Suc by linarith
  have "im_layer_bits img \<le> im_space_bits img" using L(4,10) simps by simp
  then have space: "s + 3 < im_space_bits img" "l + 32 \<le> im_space_bits img" "r + 32 \<le> im_space_bits img"
    "dst + 32 \<le> im_space_bits img" "carry + 1 \<le> im_space_bits img" "temp + 2 \<le> im_space_bits img"
    "table + 16 \<le> im_space_bits img"
    using s L(10-15) simps by auto
  have rows: "row_ok img (row 1 (s + 1) (l + k))" "row_ok img (row 1 (s + 2) (r + k))"
    "row_ok img (row 1 (s + 3) carry)" "row_ok img (row 2 temp table)" "row_ok img (row 1 (dst + k) temp)"
    "row_ok img (row 1 carry (temp + 1))"
    using space k cb by (auto simp: row_ok_def)
  have adder_rows: "adder_rows (img_config img) dst l r table temp carry (im_slot img) k =
      [row 1 (s + 1) (l + k), row 1 (s + 2) (r + k), row 1 (s + 3) carry, row 2 temp table,
       row 1 (dst + k) temp, row 1 carry (temp + 1)]"
    by (simp add: adder_rows_def emit_layout [OF ok] s_def)
  have code: "arith_bit dst l r table temp carry k (img, m) = emit_all
      [row 1 (s + 1) (l + k), row 1 (s + 2) (r + k), row 1 (s + 3) carry, row 2 temp table,
       row 1 (dst + k) temp, row 1 carry (temp + 1)] (img, m)"
    by (simp add: arith_bit_def Let_def s_def emit_all_eqs)
  show ?thesis
    unfolding adder_rows code
    by (rule emit_all_emits [OF ok]) (use slot rows in auto)
qed

text \<open>
  What a valid request leaves behind: 193 rows of the layer, the table, a clear carry, and
  nothing else changed.
\<close>

lemma arithmetic32_emits:
  assumes ok: "image_ok img m" and valid: "add_valid img dst l r table temp carry"
  shows "\<exists>m'. arithmetic32 subtract dst l r table temp carry (img, m) = Some ((at_slot img 193, m'), 0) \<and>
    length m' = length m \<and>
    (\<forall>j < 193. layer_row img m' (im_slot img + j) =
      adder_program (img_config img) dst l r table temp carry (im_slot img) ! j) \<and>
    table_holds subtract (bit_at m') table \<and>
    (\<forall>p. p \<notin> {table..<table + 16} \<union> {carry} \<and>
      (p < im_layer img + im_slot img * im_instruction_bits img \<or>
       im_layer img + (im_slot img + 193) * im_instruction_bits img \<le> p) \<longrightarrow> bit_at m' p = bit_at m p)"
proof -
  note V = add_valid_layout [OF ok valid] and L = adder_layoutD [OF add_valid_layout(1) [OF ok valid]]
  note simps = img_config_simps [OF ok]
  obtain m1 where m1: "for_up (\<lambda>i. field (table + 2 * i) 2 (arith_value subtract i)) 0 8 m = Some m1"
      "length m1 = length m"
      "bit_at m1 = (\<lambda>p. if table \<le> p \<and> p < table + 16
         then bit (arith_value subtract ((p - table) div 2)) ((p - table) mod 2) else bit_at m p)"
    using arith_table_yields [OF V(3), of subtract] by (rule yieldsE)
  obtain m2 where m2: "field carry 1 0 m1 = Some m2" "length m2 = length m"
      "bit_at m2 = (bit_at m1)(carry := False)"
    using field_yields [of carry 1 m1 0, unfolded blit_1] V(4) m1(2) by (auto elim: yieldsE)
  have ok2: "image_ok img m2" using ok m2(2) by (simp add: image_ok_def)
  have "row_ok img (row 1 carry table)"
    using L(10-15) simps image_okD(2) [OF ok] image_address_bits [OF ok]
    by (auto simp: row_ok_def intro: less_le_trans [OF _ power_increasing [of 1]])
  moreover have "emits (at_slot img 1) m3
      (concat (map (\<lambda>k. adder_rows (img_config img) dst l r table temp carry (im_slot img + 1 + 6 * k) k) [0..<0 + 32]))
      (for_up (arith_bit dst l r table temp carry) 0 32 (at_slot img 1, m3))" if m3: "length m3 = length m2" for m3
  proof (rule emits_for_up [where c = 6])
    show ok3: "image_ok (at_slot img 1) m3" by (rule image_ok_slot [OF _ _ m3 ok2]) (use V(5) in simp_all)
    show "im_slot (at_slot img 1) + 6 * 32 \<le> 255" using V(5) by simp
    fix i :: nat and m'' :: mem assume i: "i < 32" and len: "length m'' = length m3"
    have "image_ok (at_slot img (1 + 6 * i)) m''" using ok2 m3 len V(5) i by simp
    moreover have "img_config (at_slot img (1 + 6 * i)) = img_config img" by (simp add: img_config_def)
    ultimately show "emits (at_slot (at_slot img 1) (6 * i)) m''
        (adder_rows (img_config img) dst l r table temp carry (im_slot img + 1 + 6 * (0 + i)) (0 + i))
        (arith_bit dst l r table temp carry (0 + i) (at_slot (at_slot img 1) (6 * i), m''))"
      using arith_bit_emits [of "at_slot img (1 + 6 * i)" m'' dst l r table temp carry i] V(1,5) i
      by (simp add: add.assoc)
  qed (simp add: length_adder_rows)
  ultimately have "emits img m2 (adder_program (img_config img) dst l r table temp carry (im_slot img))
      (Option.bind (emit_row 1 carry table (img, m2)) (for_up (arith_bit dst l r table temp carry) 0 32))"
    unfolding adder_program_def using V(5) by (intro emits_Cons [OF ok2]) simp_all
  then obtain m3 where m3:
      "Option.bind (emit_row 1 carry table (img, m2)) (for_up (arith_bit dst l r table temp carry) 0 32)
        = Some (at_slot img 193, m3)" "length m3 = length m2"
      "\<forall>j < 193. layer_row img m3 (im_slot img + j) =
        adder_program (img_config img) dst l r table temp carry (im_slot img) ! j"
      "\<And>p. p < im_layer img + im_slot img * im_instruction_bits img \<or>
        im_layer img + (im_slot img + 193) * im_instruction_bits img \<le> p \<Longrightarrow> bit_at m3 p = bit_at m2 p"
    unfolding emits_def length_adder_program by blast
  have code: "arithmetic32 subtract dst l r table temp carry (img, m) = Some ((at_slot img 193, m3), 0)"
  proof -
    have "arithmetic32 subtract dst l r table temp carry (img, m) =
        Option.bind (Option.bind (emit_row 1 carry table (img, m2)) (for_up (arith_bit dst l r table temp carry) 0 32))
          (\<lambda>st. Some (st, 0))"
      using valid m1(1) m2(1) by (simp add: arithmetic32_def)
    then show ?thesis by (simp only: m3(1) bind.bind_lunit)
  qed
  have below: "im_layer img + (im_slot img + 193) * im_instruction_bits img \<le> im_layer img + im_layer_bits img"
    using V(5) image_okD(4) [OF ok] by (simp only: add_le_cancel_left) (rule mult_le_mono1, simp)
  have "bit_at m3 p = bit (arith_value subtract ((p - table) div 2)) ((p - table) mod 2)"
    if p: "table \<le> p" "p < table + 16" for p
  proof -
    have "apart table 16 (im_layer img) (im_layer_bits img)" using V(2) by simp
    then have "p < im_layer img \<or> im_layer img + im_layer_bits img \<le> p" using p by (auto simp: apart_def)
    then have "bit_at m3 p = bit_at m2 p" using below by (intro m3(4)) linarith
    moreover have "p \<noteq> carry" using L(26) p by (auto simp: apart_def)
    ultimately show ?thesis using p by (simp add: m2(3) m1(3))
  qed
  then have "table_holds subtract (bit_at m3) table" by (rule arith_table_holds)
  moreover have "bit_at m3 p = bit_at m p" if "p \<notin> {table..<table + 16} \<union> {carry}"
      "p < im_layer img + im_slot img * im_instruction_bits img \<or>
       im_layer img + (im_slot img + 193) * im_instruction_bits img \<le> p" for p
    using that m3(4) [OF that(2)] by (auto simp: m2(3) m1(3))
  ultimately show ?thesis using code m3(2,3) m2(2) by (intro exI [of _ m3]) simp
qed

lemma arithmetic32_rejects:
  "\<not> add_valid img dst l r table temp carry \<Longrightarrow>
    arithmetic32 subtract dst l r table temp carry (img, m) = Some ((img, m), -1)"
  by (simp add: arithmetic32_def)

section \<open>The emitted bitwise operations\<close>

lemma bits_valid_layout:
  assumes ok: "image_ok img m" and valid: "bits_valid img dst l r table"
  shows "bits_layout (img_config img) dst l r table" and "apart table 4 (im_layer img) (im_layer_bits img)"
    and "table + 4 \<le> 8 * length m" and "im_slot img + 96 \<le> 255"
proof -
  note simps = img_config_simps [OF ok]
  have S: "im_space_bits img < 2 ^ 32" using image_okD(12) [OF ok] by simp
  have layer: "im_layer img + im_layer_bits img < 2 ^ 32"
    using image_okD(6,7) [OF ok] S by linarith
  have v: "\<forall>(a, w) \<in> {(dst, 32), (l, 32), (r, 32), (table, 4)}.
      fits a w (im_space_bits img) \<and> \<not> overlaps a w 0 (im_layer_bits img) \<and>
      \<not> overlaps a w (im_layer img) (im_layer_bits img)"
    using valid by (simp add: bits_valid_def Let_def upt_rec)
  have inside: "im_layer_bits img \<le> a \<and> a + w \<le> im_space_bits img"
    if aw: "(a, w) \<in> {(dst, 32), (l, 32), (r, 32), (table, 4)}" for a w :: nat
  proof -
    have *: "fits a w (im_space_bits img)" "\<not> overlaps a w 0 (im_layer_bits img)" using v aw by fast+
    then have "a + w \<le> im_space_bits img" by (auto simp: fits_def)
    moreover have "apart a w 0 (im_layer_bits img)"
      using * calculation layer S by (intro overlaps_apart) auto
    moreover have "0 < w" using aw by auto
    ultimately show ?thesis by (auto simp: apart_def)
  qed
  note in_dst = inside [of dst 32, simplified] and in_l = inside [of l 32, simplified]
    and in_r = inside [of r 32, simplified] and in_t = inside [of table 4, simplified]
  have no: "\<not> overlaps dst 32 table 4" "dst = l \<or> \<not> overlaps dst 32 l 32" "dst = r \<or> \<not> overlaps dst 32 r 32"
    using valid by (simp_all add: bits_valid_def Let_def upt_rec)
  have "apart dst 32 table 4" "dst = l \<or> apart dst 32 l 32" "dst = r \<or> apart dst 32 r 32"
    using no in_dst in_l in_r in_t S overlaps_apart [of dst 32 table 4] overlaps_apart [of dst 32 l 32]
      overlaps_apart [of dst 32 r 32] by auto
  moreover have "table mod 4 = 0"
  proof -
    have "table AND 3 = take_bit 2 table" by (simp add: take_bit_eq_mask mask_eq_exp_minus_1)
    then show ?thesis using valid by (simp add: bits_valid_def Let_def take_bit_eq_mod)
  qed
  moreover have "config_ok (img_config img)"
    unfolding config_ok_def space_configuration_valid_def simps
    using image_okD [OF ok] image_address_bits [OF ok] in_dst by simp
  ultimately show "bits_layout (img_config img) dst l r table"
    unfolding bits_layout_def simps using in_dst in_l in_r in_t image_address_bits [OF ok] by simp
  have "\<not> overlaps table 4 (im_layer img) (im_layer_bits img)" using v by simp
  then show "apart table 4 (im_layer img) (im_layer_bits img)"
    using in_t S layer by (intro overlaps_apart) auto
  show "table + 4 \<le> 8 * length m" "im_slot img + 96 \<le> 255"
    using valid image_okD(5) [OF ok] by (auto simp: bits_valid_def Let_def fits_def)
qed

lemma bits_bit_emits:
  assumes ok: "image_ok img m" and lay: "bits_layout (img_config img) dst l r table"
    and k: "k < 32" and slot: "im_slot img + 3 \<le> 255"
  shows "emits img m (bits_rows (img_config img) dst l r table (im_slot img) k) (bits_bit dst l r table k (img, m))"
proof -
  note simps = img_config_simps [OF ok]
  have ab: "5 \<le> im_address_bits img" using lay simps by (simp add: bits_layout_def)
  then have cb: "2 ^ 1 \<le> (2 :: nat) ^ im_count_bits img"
    using image_okD(2) [OF ok] by (intro power_increasing) simp_all
  define s where "s = (im_slot img + 2) * im_instruction_bits img + im_count_bits img + im_address_bits img"
  have "Suc (im_slot img + 2) * im_instruction_bits img \<le> im_layer_bits img"
    using slot image_okD(4) [OF ok] by (simp only:) (rule mult_le_mono1, simp)
  then have s: "s + 5 \<le> im_layer_bits img"
    using image_split [OF ok] ab unfolding s_def mult_Suc by linarith
  have space: "im_layer_bits img \<le> dst" "dst + 32 \<le> im_space_bits img" "l + 32 \<le> im_space_bits img"
    "r + 32 \<le> im_space_bits img" "table + 4 \<le> im_space_bits img"
    using lay simps by (simp_all add: bits_layout_def)
  have rows: "bits_rows (img_config img) dst l r table (im_slot img) k =
      [row 1 s (l + k), row 1 (s + 1) (r + k), row 1 (dst + k) table]"
    by (simp add: bits_rows_def emit_layout [OF ok] s_def)
  have code: "bits_bit dst l r table k (img, m) =
      emit_all [row 1 s (l + k), row 1 (s + 1) (r + k), row 1 (dst + k) table] (img, m)"
    by (simp add: bits_bit_def Let_def s_def emit_all_eqs)
  have "row_ok img (row 1 s (l + k))" "row_ok img (row 1 (s + 1) (r + k))" "row_ok img (row 1 (dst + k) table)"
    using space s k cb by (auto simp: row_ok_def)
  then show ?thesis
    unfolding rows code by (intro emit_all_emits [OF ok]) (use slot in auto)
qed

fun bit_fun :: "cs_copy_bit_operation \<Rightarrow> bool \<Rightarrow> bool \<Rightarrow> bool" where
  "bit_fun CS_COPY_AND a b = (a \<and> b)"
| "bit_fun CS_COPY_OR a b = (a \<or> b)"
| "bit_fun CS_COPY_XOR a b = (a \<noteq> b)"

lemma truth_bits: "bit (truth operation) (truth_entry a b) = bit_fun operation a b"
  by (cases operation; cases a; cases b) (simp_all add: truth_def truth_entry_def)

lemma bits32_emits:
  assumes ok: "image_ok img m" and valid: "bits_valid img dst l r table"
  shows "\<exists>m'. cs_copy_bits32 operation dst l r table (img, m) = Some ((at_slot img 96, m'), 0) \<and>
    length m' = length m \<and>
    (\<forall>j < 96. layer_row img m' (im_slot img + j) = bits_program (img_config img) dst l r table (im_slot img) ! j) \<and>
    truth_holds (bit_fun operation) (bit_at m') table \<and>
    (\<forall>p. p \<notin> {table..<table + 4} \<and>
      (p < im_layer img + im_slot img * im_instruction_bits img \<or>
       im_layer img + (im_slot img + 96) * im_instruction_bits img \<le> p) \<longrightarrow> bit_at m' p = bit_at m p)"
proof -
  note V = bits_valid_layout [OF ok valid]
  obtain m1 where m1: "field table 4 (truth operation) m = Some m1" "length m1 = length m"
      "bit_at m1 = blit 4 0 table (bit (truth operation)) (bit_at m)"
    using field_yields [OF V(3)] by (rule yieldsE)
  have ok1: "image_ok img m1" using ok m1(2) by (simp add: image_ok_def)
  have "emits img m1 (concat (map (\<lambda>k. bits_rows (img_config img) dst l r table (im_slot img + 3 * k) k) [0..<0 + 32]))
      (for_up (bits_bit dst l r table) 0 32 (img, m1))"
  proof (rule emits_for_up [where c = 3, OF ok1])
    show "im_slot img + 3 * 32 \<le> 255" using V(4) by simp
    fix i :: nat and m' :: mem assume i: "i < 32" and len: "length m' = length m1"
    have "image_ok (at_slot img (3 * i)) m'"
      by (rule image_ok_slot [OF _ _ len ok1]) (use V(4) i in simp_all)
    moreover have "img_config (at_slot img (3 * i)) = img_config img" by (simp add: img_config_def)
    ultimately show "emits (at_slot img (3 * i)) m'
        (bits_rows (img_config img) dst l r table (im_slot img + 3 * (0 + i)) (0 + i))
        (bits_bit dst l r table (0 + i) (at_slot img (3 * i), m'))"
      using bits_bit_emits [of "at_slot img (3 * i)" m' dst l r table i] V(1,4) i by simp
  qed (simp add: bits_rows_def)
  moreover have "length (bits_program (img_config img) dst l r table (im_slot img)) = 96"
    by (simp add: bits_program_def length_concat o_def bits_rows_def sum_list_triv)
  ultimately obtain m2 where m2: "for_up (bits_bit dst l r table) 0 32 (img, m1) = Some (at_slot img 96, m2)"
      "length m2 = length m1"
      "\<forall>j < 96. layer_row img m2 (im_slot img + j) = bits_program (img_config img) dst l r table (im_slot img) ! j"
      "\<And>p. p < im_layer img + im_slot img * im_instruction_bits img \<or>
        im_layer img + (im_slot img + 96) * im_instruction_bits img \<le> p \<Longrightarrow> bit_at m2 p = bit_at m1 p"
    unfolding emits_def by (auto simp: bits_program_def)
  have below: "im_layer img + (im_slot img + 96) * im_instruction_bits img \<le> im_layer img + im_layer_bits img"
    using V(4) image_okD(4) [OF ok] by (simp only: add_le_cancel_left) (rule mult_le_mono1, simp)
  have "truth_holds (bit_fun operation) (bit_at m2) table"
    unfolding truth_holds_def
  proof (intro allI)
    fix a b
    note e = truth_entry_bound [of a b]
    have "table + truth_entry a b < im_layer img \<or> im_layer img + im_layer_bits img \<le> table + truth_entry a b"
      using V(2) e by (auto simp: apart_def)
    then have "bit_at m2 (table + truth_entry a b) = bit_at m1 (table + truth_entry a b)"
      using below by (intro m2(4)) linarith
    then show "bit_at m2 (table + truth_entry a b) = bit_fun operation a b"
      using e truth_bits [of operation a b] by (simp add: m1(3) blit_def)
  qed
  moreover have "cs_copy_bits32 operation dst l r table (img, m) = Some ((at_slot img 96, m2), 0)"
    using valid m1(1) m2(1) by (simp add: cs_copy_bits32_def)
  moreover have "bit_at m2 p = bit_at m p" if "p \<notin> {table..<table + 4}"
      "p < im_layer img + im_slot img * im_instruction_bits img \<or>
       im_layer img + (im_slot img + 96) * im_instruction_bits img \<le> p" for p
    using that(1) m2(4) [OF that(2)] by (auto simp: m1(3) blit_def)
  ultimately show ?thesis using m2(2,3) m1(2) by (intro exI [of _ m2]) simp
qed

section \<open>Properties\<close>

text \<open>The layer of an image is active: its bits are those at the start of the space.\<close>

definition loaded :: "cs_copy_image \<Rightarrow> mem \<Rightarrow> (nat \<Rightarrow> bool) \<Rightarrow> bool" where
  "loaded img m f \<longleftrightarrow> (\<forall>p < im_layer_bits img. f p = bit_at m (im_layer img + p))"

definition same_bits :: "nat \<Rightarrow> nat \<Rightarrow> mem \<Rightarrow> (nat \<Rightarrow> bool) \<Rightarrow> bool" where
  "same_bits at n m f \<longleftrightarrow> (\<forall>i < n. f (at + i) = bit_at m (at + i))"

lemma loaded_row:
  assumes ok: "image_ok img m" and "loaded img m' f" and i: "i < 256"
  shows "decode (img_config img) f i = layer_row img m' i"
  unfolding layer_row_def
proof (rule decode_cong)
  fix p
  assume "p < Suc i * instruction_size (img_config img)"
  moreover have "Suc i * im_instruction_bits img \<le> im_layer_bits img"
    unfolding image_okD(4) [OF ok] by (rule mult_le_mono1) (use i in simp)
  ultimately show "f p = bit_at m' (im_layer img + p)"
    using assms(2) img_config_simps(4) [OF ok] by (simp add: loaded_def)
qed

text \<open>
  A run of the emitted rows, wherever the rest of the layer comes from: the rows after them
  stay as they are.
\<close>

lemma arith_runs:
  assumes ok: "image_ok img m"
    and run: "arithmetic32 subtract dst l r table temp carry (img, m) = Some ((img', m'), 0)"
    and act: "\<And>j. j < 193 \<Longrightarrow> decode (img_config img) f (im_slot img + j) = layer_row img m' (im_slot img + j)"
    and tab: "same_bits table 16 m' f"
  shows "img' = at_slot img 193 \<and> (\<exists>g. exec_slots (img_config img) [im_slot img..<im_slot img + 193] f = (g, True) \<and>
    word32 g dst = arith_word subtract (word32 f l) (word32 f r) \<and>
    g carry = arith_carry subtract (word32 f l) (word32 f r) \<and>
    (\<forall>p. (im_slot img + 193) * im_instruction_bits img \<le> p \<and> p \<notin> {dst..<dst + 32} \<union> {temp, temp + 1, carry} \<longrightarrow>
      g p = f p))"
proof -
  have valid: "add_valid img dst l r table temp carry"
    using run arithmetic32_rejects [of img dst l r table temp carry subtract m] by (auto split: if_splits)
  note V = add_valid_layout [OF ok valid]
  have img': "img' = at_slot img 193"
    and rows: "\<And>j. j < 193 \<Longrightarrow> layer_row img m' (im_slot img + j) =
      adder_program (img_config img) dst l r table temp carry (im_slot img) ! j"
    and holds: "table_holds subtract (bit_at m') table"
    using arithmetic32_emits [OF ok valid, of subtract] run by auto
  have "table_holds subtract f table"
    unfolding table_holds_def
  proof (intro allI)
    fix a b c
    have "f (table + i) = bit_at m' (table + i)" if "i < 16" for i using tab that by (simp add: same_bits_def)
    from this [of "entry a b c"] this [of "entry a b c + 1"]
    show "bit_result subtract a b c (f (table + entry a b c)) (f (table + entry a b c + 1))"
      using holds entry_bound [of a b c] by (simp add: table_holds_def)
  qed
  moreover have "im_slot img + 193 \<le> processor_n (img_config img)"
    using V(5) by (simp add: img_config_simps [OF ok])
  moreover have "decode (img_config img) f (im_slot img + j) =
      adder_program (img_config img) dst l r table temp carry (im_slot img) ! j" if "j < 193" for j
    using act rows that by simp
  ultimately show ?thesis
    using adder_exec [OF V(1)] img' by (simp only: img_config_simps(4) [OF ok])
qed

lemma arith_correct:
  assumes ok: "image_ok img m"
    and run: "arithmetic32 subtract dst l r table temp carry (img, m) = Some ((img', m'), 0)"
    and act: "loaded img m' f" and tab: "same_bits table 16 m' f"
  shows "\<exists>g. exec_slots (img_config img) [im_slot img..<im_slot img'] f = (g, True) \<and>
    word32 g dst = arith_word subtract (word32 f l) (word32 f r) \<and>
    g carry = arith_carry subtract (word32 f l) (word32 f r) \<and>
    (\<forall>p. im_layer_bits img \<le> p \<and> p \<notin> {dst..<dst + 32} \<union> {temp, temp + 1, carry} \<longrightarrow> g p = f p)"
proof -
  have valid: "add_valid img dst l r table temp carry"
    using run arithmetic32_rejects [of img dst l r table temp carry subtract m] by (auto split: if_splits)
  note V = add_valid_layout [OF ok valid]
  have "decode (img_config img) f (im_slot img + j) = layer_row img m' (im_slot img + j)" if "j < 193" for j
    using V(5) that by (intro loaded_row [OF ok act]) simp
  note runs = arith_runs [OF ok run this tab]
  then obtain g where g: "exec_slots (img_config img) [im_slot img..<im_slot img + 193] f = (g, True)"
      "word32 g dst = arith_word subtract (word32 f l) (word32 f r)"
      "g carry = arith_carry subtract (word32 f l) (word32 f r)"
      "\<forall>p. (im_slot img + 193) * im_instruction_bits img \<le> p \<and>
        p \<notin> {dst..<dst + 32} \<union> {temp, temp + 1, carry} \<longrightarrow> g p = f p"
    by blast
  have "(im_slot img + 193) * im_instruction_bits img \<le> im_layer_bits img"
    unfolding image_okD(4) [OF ok] by (rule mult_le_mono1) (use V(5) in simp)
  then have "g p = f p" if "im_layer_bits img \<le> p" "p \<notin> {dst..<dst + 32} \<union> {temp, temp + 1, carry}" for p
    using g(4) that le_trans by blast
  then show ?thesis using g(1-3) runs by (intro exI [of _ g]) simp
qed

text \<open>An image for the witnesses: addresses of 15 bits, the layer behind the active one.\<close>

definition demo_image :: cs_copy_image where
  "demo_image = \<lparr>im_bytes = 4096, im_space_bits = 2 ^ 15, im_layer = 11264, im_layer_bits = 11264,
     im_address_bits = 15, im_count_bits = 14, im_instruction_bits = 44, im_slot = 3\<rparr>"

lemma demo_image_ok: "image_ok demo_image (replicate 4096 0)"
  by (simp add: image_ok_def demo_image_def)

lemma demo_add_valid: "add_valid demo_image 22528 22560 22592 22624 22640 22642"
  by (simp add: add_valid_def demo_image_def Let_def upt_rec fits_def overlaps_def)

text \<open>The memory of a machine that has just loaded the layer.\<close>

definition after_load :: "cs_copy_image \<Rightarrow> mem \<Rightarrow> nat \<Rightarrow> bool" where
  "after_load img m p = (if p < im_layer_bits img then bit_at m (im_layer img + p) else bit_at m p)"

lemma after_load_loaded: "loaded img m (after_load img m)"
  by (simp add: loaded_def after_load_def)

lemma after_load_same: "im_layer_bits img \<le> at \<Longrightarrow> same_bits at n m (after_load img m)"
  by (simp add: same_bits_def after_load_def)

text \<open>
  C24. The code that \<open>cs_copy_add32\<close> generates adds: on a machine whose active layer is the
  generated one and whose memory holds the generated table, the new instructions run without
  error, leave the 32-bit sum of the two operands at the destination (also when it is one of
  them), the carry out in the carry bit, and change nothing else outside the layer but the
  two temporary bits.
\<close>

theorem add32_correct:
  assumes "image_ok img m" and "cs_copy_add32 dst l r table temp carry (img, m) = Some ((img', m'), 0)"
    and "loaded img m' f" and "same_bits table 16 m' f"
  shows "\<exists>g. exec_slots (img_config img) [im_slot img..<im_slot img'] f = (g, True) \<and>
    word32 g dst = word32 f l + word32 f r \<and>
    (g carry \<longleftrightarrow> 2 ^ 32 \<le> unat (word32 f l) + unat (word32 f r)) \<and>
    (\<forall>p. im_layer_bits img \<le> p \<and> p \<notin> {dst..<dst + 32} \<union> {temp, temp + 1, carry} \<longrightarrow> g p = f p)"
  using arith_correct [OF assms(1) assms(2) [unfolded cs_copy_add32_def] assms(3,4)]
  by (simp add: arith_word_def arith_carry_def)

lemma add32_correct_witness:
  "\<exists>img' m' g. cs_copy_add32 22528 22560 22592 22624 22640 22642 (demo_image, replicate 4096 0) = Some ((img', m'), 0) \<and>
    exec_slots (img_config demo_image) [im_slot demo_image..<im_slot img'] (after_load demo_image m') = (g, True) \<and>
    word32 g 22528 = word32 (after_load demo_image m') 22560 + word32 (after_load demo_image m') 22592"
proof -
  obtain img' m' where run: "cs_copy_add32 22528 22560 22592 22624 22640 22642 (demo_image, replicate 4096 0)
      = Some ((img', m'), 0)"
    using arithmetic32_emits [OF demo_image_ok demo_add_valid, of False] by (auto simp: cs_copy_add32_def)
  have "same_bits 22624 16 m' (after_load demo_image m')"
    by (rule after_load_same) (simp add: demo_image_def)
  from add32_correct [OF demo_image_ok run after_load_loaded this] show ?thesis using run by blast
qed

text \<open>
  The code that \<open>cs_copy_sub32\<close> generates subtracts: under the same conditions it leaves
  the 32-bit difference and, as the borrow, whether the left operand is the smaller one.
\<close>

theorem sub32_correct:
  assumes "image_ok img m" and "cs_copy_sub32 dst l r table temp borrow (img, m) = Some ((img', m'), 0)"
    and "loaded img m' f" and "same_bits table 16 m' f"
  shows "\<exists>g. exec_slots (img_config img) [im_slot img..<im_slot img'] f = (g, True) \<and>
    word32 g dst = word32 f l - word32 f r \<and> (g borrow \<longleftrightarrow> word32 f l < word32 f r) \<and>
    (\<forall>p. im_layer_bits img \<le> p \<and> p \<notin> {dst..<dst + 32} \<union> {temp, temp + 1, borrow} \<longrightarrow> g p = f p)"
  using arith_correct [OF assms(1) assms(2) [unfolded cs_copy_sub32_def] assms(3,4)]
  by (simp add: arith_word_def arith_carry_def)

lemma sub32_correct_witness:
  "\<exists>img' m' g. cs_copy_sub32 22528 22560 22592 22624 22640 22642 (demo_image, replicate 4096 0) = Some ((img', m'), 0) \<and>
    exec_slots (img_config demo_image) [im_slot demo_image..<im_slot img'] (after_load demo_image m') = (g, True) \<and>
    word32 g 22528 = word32 (after_load demo_image m') 22560 - word32 (after_load demo_image m') 22592"
proof -
  obtain img' m' where run: "cs_copy_sub32 22528 22560 22592 22624 22640 22642 (demo_image, replicate 4096 0)
      = Some ((img', m'), 0)"
    using arithmetic32_emits [OF demo_image_ok demo_add_valid, of True] by (auto simp: cs_copy_sub32_def)
  have "same_bits 22624 16 m' (after_load demo_image m')"
    by (rule after_load_same) (simp add: demo_image_def)
  from sub32_correct [OF demo_image_ok run after_load_loaded this] show ?thesis using run by blast
qed

text \<open>
  C25. The code that \<open>cs_copy_bits32\<close> generates combines two words bit by bit with the chosen
  operation and changes nothing else outside the layer.
\<close>

theorem bits32_correct:
  assumes ok: "image_ok img m"
    and run: "cs_copy_bits32 operation dst l r table (img, m) = Some ((img', m'), 0)"
    and act: "loaded img m' f" and tab: "same_bits table 4 m' f"
  shows "\<exists>g. exec_slots (img_config img) [im_slot img..<im_slot img'] f = (g, True) \<and>
    word32 g dst = (case operation of CS_COPY_AND \<Rightarrow> word32 f l AND word32 f r
      | CS_COPY_OR \<Rightarrow> word32 f l OR word32 f r | CS_COPY_XOR \<Rightarrow> word32 f l XOR word32 f r) \<and>
    (\<forall>p. im_layer_bits img \<le> p \<and> p \<notin> {dst..<dst + 32} \<longrightarrow> g p = f p)"
proof -
  have valid: "bits_valid img dst l r table"
    using run by (auto simp: cs_copy_bits32_def split: if_splits)
  note V = bits_valid_layout [OF ok valid]
  have img': "img' = at_slot img 96"
    and rows: "\<And>j. j < 96 \<Longrightarrow> layer_row img m' (im_slot img + j) =
      bits_program (img_config img) dst l r table (im_slot img) ! j"
    and holds: "truth_holds (bit_fun operation) (bit_at m') table"
    using bits32_emits [OF ok valid, of operation] run by auto
  have "truth_holds (bit_fun operation) f table"
    unfolding truth_holds_def using holds tab truth_entry_bound by (simp add: truth_holds_def same_bits_def)
  moreover have "im_slot img + 96 \<le> processor_n (img_config img)"
    using V(4) by (simp add: img_config_simps [OF ok])
  moreover have "decode (img_config img) f (im_slot img + j) =
      bits_program (img_config img) dst l r table (im_slot img) ! j" if "j < 96" for j
    using loaded_row [OF ok act, of "im_slot img + j"] rows [OF that] V(4) that by simp
  ultimately obtain g where g: "exec_slots (img_config img) [im_slot img..<im_slot img + 96] f = (g, True)"
      "\<forall>j < 32. bit (word32 g dst) j = bit_fun operation (bit (word32 f l) j) (bit (word32 f r) j)"
      "\<forall>p. (im_slot img + 96) * instruction_size (img_config img) \<le> p \<and> p \<notin> {dst..<dst + 32} \<longrightarrow> g p = f p"
    using bits_exec [OF V(1)] by blast
  have "(im_slot img + 96) * instruction_size (img_config img) \<le> im_layer_bits img"
    unfolding image_okD(4) [OF ok] img_config_simps [OF ok] by (rule mult_le_mono1) (use V(4) in simp)
  then have "g p = f p" if "im_layer_bits img \<le> p" "p \<notin> {dst..<dst + 32}" for p
    using g(3) that le_trans by blast
  moreover have "word32 g dst = (case operation of CS_COPY_AND \<Rightarrow> word32 f l AND word32 f r
      | CS_COPY_OR \<Rightarrow> word32 f l OR word32 f r | CS_COPY_XOR \<Rightarrow> word32 f l XOR word32 f r)"
    using g(2) by (intro bit_word_eqI) (cases operation; auto simp: bit_simps)
  ultimately show ?thesis using g(1) by (intro exI [of _ g]) (simp add: img')
qed

lemma bits32_correct_witness:
  "\<exists>img' m' g. cs_copy_bits32 CS_COPY_XOR 22528 22560 22592 22624 (demo_image, replicate 4096 0) = Some ((img', m'), 0) \<and>
    exec_slots (img_config demo_image) [im_slot demo_image..<im_slot img'] (after_load demo_image m') = (g, True) \<and>
    word32 g 22528 = word32 (after_load demo_image m') 22560 XOR word32 (after_load demo_image m') 22592"
proof -
  have "bits_valid demo_image 22528 22560 22592 22624"
    by (simp add: bits_valid_def demo_image_def Let_def upt_rec fits_def overlaps_def)
  then obtain img' m' where run: "cs_copy_bits32 CS_COPY_XOR 22528 22560 22592 22624 (demo_image, replicate 4096 0)
      = Some ((img', m'), 0)"
    using bits32_emits [OF demo_image_ok, of 22528 22560 22592 22624 CS_COPY_XOR] by auto
  have "same_bits 22624 4 m' (after_load demo_image m')"
    by (rule after_load_same) (simp add: demo_image_def)
  from bits32_correct [OF demo_image_ok run after_load_loaded this] show ?thesis using run by fastforce
qed

text \<open>
  A row written by \<open>cs_copy_row\<close> is the instruction that the emulator decodes from the
  slot when the layer is active; no other bit of the buffer changes. A request is rejected,
  without a change, exactly when the emulator could not execute the row.
\<close>

theorem row_roundtrip:
  assumes ok: "image_ok img m" and slot: "i < 256"
  shows "\<exists>m' rc. cs_copy_row img i n d s m = Some (m', rc) \<and> length m' = length m \<and>
    (if n < 2 ^ im_count_bits img \<and> \<not> out_of_space (img_config img) (row n d s)
     then rc = 0 \<and> layer_row img m' i = row n d s \<and>
       (\<forall>p. p < im_layer img + i * im_instruction_bits img \<or>
         im_layer img + Suc i * im_instruction_bits img \<le> p \<longrightarrow> bit_at m' p = bit_at m p)
     else rc = -1 \<and> m' = m)"
proof -
  have "row_valid img i n d s \<longleftrightarrow> n < 2 ^ im_count_bits img \<and> \<not> out_of_space (img_config img) (row n d s)"
    using slot img_config_simps(1) [OF ok] by (auto simp: row_valid_def out_of_space_def fits_def)
  then show ?thesis
    using cs_copy_row_spec [OF ok, of i n d s] by (cases "row_valid img i n d s") (auto simp: cs_copy_row_def)
qed

lemma row_roundtrip_witness:
  "\<exists>m'. cs_copy_row demo_image 7 32 22528 22560 (replicate 4096 0) = Some (m', 0) \<and>
    layer_row demo_image m' 7 = row 32 22528 22560"
proof -
  have "(32 :: nat) < 2 ^ im_count_bits demo_image" "\<not> out_of_space (img_config demo_image) (row 32 22528 22560)"
    by (simp_all add: demo_image_def out_of_space_def space_size_def img_config_def)
  then show ?thesis using row_roundtrip [OF demo_image_ok, of 7 32 22528 22560] by auto
qed

end
