(* ===== verification/CopyProgram.thy ===== *)
theory CopyProgram
  imports CopyCode
begin

text \<open>
  runtime/gcc/copy_emit.c, programs: a growing sequence of layers in \<open>code_begin .. code_limit\<close>
  of the image. The last row of a finished layer loads the next one over the active layer,
  so the emulator executes one layer per tick.

  As in CopyEmit the byte buffer is passed beside the struct.
\<close>

section \<open>The operations\<close>

record cs_copy_program =
  pr_image :: cs_copy_image
  code_begin :: nat
  code_end :: nat
  code_limit :: nat

definition cs_copy_program_init ::
  "nat \<Rightarrow> nat \<Rightarrow> nat \<Rightarrow> nat \<Rightarrow> mem \<Rightarrow> (mem \<times> cs_copy_program option) option" where
  "cs_copy_program_init bytes address_bits begin limit m =
     (if address_bits < 2 \<or> address_bits > 31 \<or> bytes > uint32_max div 8 then Some (m, None)
      else let layer_bits = 256 * (3 * address_bits - 1)
      in if begin < layer_bits \<or> limit > bytes * 8 \<or> begin > limit \<or> \<not> fits begin layer_bits limit \<or>
            layer_bits \<ge> 2 ^ (address_bits - 1) then Some (m, None)
         else do {
           (m, img) \<leftarrow> cs_copy_image_init bytes address_bits begin m;
           Some (m, map_option (\<lambda>img. \<lparr>pr_image = img, code_begin = begin, code_end = begin + layer_bits,
             code_limit = limit\<rparr>) img)
         })"

definition cs_copy_program_next ::
  "cs_copy_program \<times> mem \<Rightarrow> ((cs_copy_program \<times> mem) \<times> int) option" where
  "cs_copy_program_next = (\<lambda>(pr, m).
     let img = pr_image pr
     in if \<not> fits (code_end pr) (im_layer_bits img) (code_limit pr) \<or>
           \<not> row_valid img 255 (im_layer_bits img) 0 (code_end pr) then Some ((pr, m), -1)
        else do {
          (m, nxt) \<leftarrow> cs_copy_image_init (im_bytes img) (im_address_bits img) (code_end pr) m;
          case nxt of
            None \<Rightarrow> Some ((pr, m), -1)
          | Some nxt \<Rightarrow> do {
              (m, rc) \<leftarrow> cs_copy_row img 255 (im_layer_bits img) 0 (code_end pr) m;
              Some ((pr\<lparr>pr_image := nxt, code_end := code_end pr + im_layer_bits nxt\<rparr>, m), 0)
            }
        })"

definition room :: "nat \<Rightarrow> cs_copy_program \<times> mem \<Rightarrow> ((cs_copy_program \<times> mem) \<times> int) option" where
  "room count = (\<lambda>(pr, m).
     if count > 252 then Some ((pr, m), -1)
     else if im_slot (pr_image pr) \<le> 255 - count then Some ((pr, m), 0)
     else cs_copy_program_next (pr, m))"

definition cs_copy_program_patch_jump ::
  "nat \<Rightarrow> nat \<Rightarrow> cs_copy_program \<times> mem \<Rightarrow> ((cs_copy_program \<times> mem) \<times> int) option" where
  "cs_copy_program_patch_jump layer target = (\<lambda>(pr, m).
     if layer < code_begin pr \<or> target < code_begin pr \<or> layer \<ge> code_end pr \<or> target \<ge> code_end pr \<or>
        (layer - code_begin pr) mod im_layer_bits (pr_image pr) \<noteq> 0 \<or>
        (target - code_begin pr) mod im_layer_bits (pr_image pr) \<noteq> 0 then Some ((pr, m), -1)
     else do {
       (m, rc) \<leftarrow> cs_copy_row ((pr_image pr)\<lparr>im_layer := layer\<rparr>) 255 (im_layer_bits (pr_image pr)) 0 target m;
       Some ((pr, m), rc)
     })"

definition cs_copy_program_emit ::
  "nat \<Rightarrow> nat \<Rightarrow> nat \<Rightarrow> cs_copy_program \<times> mem \<Rightarrow> ((cs_copy_program \<times> mem) \<times> int) option" where
  "cs_copy_program_emit count destination source = (\<lambda>(pr, m).
     if \<not> row_valid (pr_image pr) 3 count destination source then Some ((pr, m), -1)
     else do {
       ((pr, m), rc) \<leftarrow> room 1 (pr, m);
       if rc \<noteq> 0 then Some ((pr, m), -1)
       else do {
         ((img, m), rc) \<leftarrow> cs_copy_emit count destination source (pr_image pr, m);
         Some ((pr\<lparr>pr_image := img\<rparr>, m), rc)
       }
     })"

definition hits_code :: "cs_copy_program \<Rightarrow> nat list \<Rightarrow> nat list \<Rightarrow> bool" where
  "hits_code pr addresses widths \<longleftrightarrow>
     list_ex (\<lambda>i. overlaps (addresses ! i) (widths ! i) (code_begin pr) (code_limit pr - code_begin pr))
       [0..<length addresses]"

definition program_arithmetic32 ::
  "bool \<Rightarrow> nat \<Rightarrow> nat \<Rightarrow> nat \<Rightarrow> nat \<Rightarrow> nat \<Rightarrow> nat \<Rightarrow> cs_copy_program \<times> mem \<Rightarrow>
   ((cs_copy_program \<times> mem) \<times> int) option" where
  "program_arithmetic32 subtract destination left right table temporary carry = (\<lambda>(pr, m).
     if hits_code pr [destination, left, right, table, temporary, carry] [32, 32, 32, 16, 2, 1]
     then Some ((pr, m), -1)
     else if \<not> add_valid ((pr_image pr)\<lparr>im_slot := 3\<rparr>) destination left right table temporary carry
     then Some ((pr, m), -1)
     else do {
       ((pr, m), rc) \<leftarrow> room 193 (pr, m);
       if rc \<noteq> 0 then Some ((pr, m), -1)
       else do {
         ((img, m), rc) \<leftarrow> arithmetic32 subtract destination left right table temporary carry (pr_image pr, m);
         Some ((pr\<lparr>pr_image := img\<rparr>, m), rc)
       }
     })"

definition cs_copy_program_add32 ::
  "nat \<Rightarrow> nat \<Rightarrow> nat \<Rightarrow> nat \<Rightarrow> nat \<Rightarrow> nat \<Rightarrow> cs_copy_program \<times> mem \<Rightarrow> ((cs_copy_program \<times> mem) \<times> int) option" where
  "cs_copy_program_add32 = program_arithmetic32 False"

definition cs_copy_program_sub32 ::
  "nat \<Rightarrow> nat \<Rightarrow> nat \<Rightarrow> nat \<Rightarrow> nat \<Rightarrow> nat \<Rightarrow> cs_copy_program \<times> mem \<Rightarrow> ((cs_copy_program \<times> mem) \<times> int) option" where
  "cs_copy_program_sub32 = program_arithmetic32 True"

definition cs_copy_program_bits32 ::
  "cs_copy_bit_operation \<Rightarrow> nat \<Rightarrow> nat \<Rightarrow> nat \<Rightarrow> nat \<Rightarrow> cs_copy_program \<times> mem \<Rightarrow>
   ((cs_copy_program \<times> mem) \<times> int) option" where
  "cs_copy_program_bits32 operation destination left right table = (\<lambda>(pr, m).
     if hits_code pr [destination, left, right, table] [32, 32, 32, 4] then Some ((pr, m), -1)
     else if \<not> bits_valid ((pr_image pr)\<lparr>im_slot := 3\<rparr>) destination left right table then Some ((pr, m), -1)
     else do {
       ((pr, m), rc) \<leftarrow> room 96 (pr, m);
       if rc \<noteq> 0 then Some ((pr, m), -1)
       else do {
         ((img, m), rc) \<leftarrow> cs_copy_bits32 operation destination left right table (pr_image pr, m);
         Some ((pr\<lparr>pr_image := img\<rparr>, m), rc)
       }
     })"

definition cs_copy_program_finish ::
  "nat \<Rightarrow> cs_copy_program \<times> mem \<Rightarrow> ((cs_copy_program \<times> mem) \<times> int) option" where
  "cs_copy_program_finish zero_layer = (\<lambda>(pr, m).
     let img = pr_image pr
     in if zero_layer AND 7 \<noteq> 0 \<or> \<not> fits zero_layer (im_layer_bits img) (im_bytes img * 8) \<or>
           overlaps zero_layer (im_layer_bits img) 0 (im_layer_bits img) \<or>
           overlaps zero_layer (im_layer_bits img) (code_begin pr) (code_limit pr - code_begin pr)
        then Some ((pr, m), -1)
        else if zero_layer div 8 + im_layer_bits img div 8 > length m then None
        else if list_ex (\<lambda>i. m ! (zero_layer div 8 + i) \<noteq> 0) [0..<im_layer_bits img div 8]
        then Some ((pr, m), -1)
        else do {
          (m, boot) \<leftarrow> cs_copy_image_init (im_bytes img) (im_address_bits img) 0 m;
          case boot of
            None \<Rightarrow> Some ((pr, m), -1)
          | Some boot \<Rightarrow> do {
              (m, rc) \<leftarrow> cs_copy_row img 255 (im_layer_bits img) 0 zero_layer m;
              (m, rc) \<leftarrow> cs_copy_row boot 255 (im_layer_bits boot) 0 (code_begin pr) m;
              Some ((pr, m), rc)
            }
        })"

section \<open>The invariant of a program\<close>

abbreviation layer_size :: "cs_copy_program \<Rightarrow> nat" where
  "layer_size pr \<equiv> im_layer_bits (pr_image pr)"

definition layer_at :: "cs_copy_program \<Rightarrow> nat \<Rightarrow> nat" where
  "layer_at pr k = code_begin pr + k * layer_size pr"

text \<open>The last row of the layer at address \<open>at\<close>: the jump.\<close>

definition jump_row :: "cs_copy_program \<Rightarrow> mem \<Rightarrow> nat \<Rightarrow> instruction" where
  "jump_row pr m at = layer_row ((pr_image pr)\<lparr>im_layer := at\<rparr>) m 255"

text \<open>Every finished layer ends with a jump to a layer of the program.\<close>

definition chained :: "cs_copy_program \<Rightarrow> mem \<Rightarrow> bool" where
  "chained pr m \<longleftrightarrow> (\<forall>k. layer_at pr k < im_layer (pr_image pr) \<longrightarrow>
     (\<exists>j. layer_at pr j < code_end pr \<and> jump_row pr m (layer_at pr k) = row (layer_size pr) 0 (layer_at pr j)))"

definition program_ok :: "cs_copy_program \<Rightarrow> mem \<Rightarrow> bool" where
  "program_ok pr m \<longleftrightarrow> image_ok (pr_image pr) m \<and> code_end pr = im_layer (pr_image pr) + layer_size pr \<and>
     layer_size pr \<le> code_begin pr \<and> code_begin pr mod 8 = 0 \<and>
     (\<exists>k. im_layer (pr_image pr) = layer_at pr k) \<and> code_end pr \<le> code_limit pr \<and>
     code_limit pr \<le> 8 * length m \<and> layer_size pr < 2 ^ im_count_bits (pr_image pr) \<and> chained pr m"

lemma program_okD:
  assumes "program_ok pr m"
  shows "image_ok (pr_image pr) m" and "code_end pr = im_layer (pr_image pr) + layer_size pr"
    and "layer_size pr \<le> code_begin pr" and "code_begin pr mod 8 = 0" and "code_end pr \<le> code_limit pr"
    and "code_limit pr \<le> 8 * length m" and "layer_size pr < 2 ^ im_count_bits (pr_image pr)" and "chained pr m"
    and "code_begin pr \<le> im_layer (pr_image pr)" and "\<exists>k. im_layer (pr_image pr) = layer_at pr k"
  using assms by (auto simp: program_ok_def layer_at_def)

lemma image_ok_length: "length m' = length m \<Longrightarrow> image_ok img m' \<longleftrightarrow> image_ok img m"
  by (simp add: image_ok_def)

lemma program_ok_bits: "length m' = length m \<Longrightarrow> chained pr m' \<Longrightarrow> program_ok pr m \<Longrightarrow> program_ok pr m'"
  unfolding program_ok_def using image_ok_length [of m' m "pr_image pr"] by simp

lemma layer_size_pos: "image_ok img m \<Longrightarrow> 8 \<le> im_layer_bits img \<and> im_layer_bits img mod 8 = 0"
  using image_okD(3,4) [of img m] image_address_bits [of img m] by simp

lemma chained_cong:
  assumes ok: "image_ok (pr_image pr) m" and chain: "chained pr m"
    and layer: "\<exists>k. im_layer (pr_image pr) = layer_at pr k"
    and same: "\<And>p. code_begin pr \<le> p \<Longrightarrow> p < im_layer (pr_image pr) \<Longrightarrow> bit_at m' p = bit_at m p"
  shows "chained pr m'"
  unfolding chained_def
proof (intro allI impI)
  fix k assume k: "layer_at pr k < im_layer (pr_image pr)"
  obtain n where n: "im_layer (pr_image pr) = layer_at pr n" using layer ..
  have "k < n" using k n by (simp add: layer_at_def)
  then have "Suc k * layer_size pr \<le> n * layer_size pr" by (intro mult_le_mono1) simp
  then have "layer_at pr k + layer_size pr \<le> im_layer (pr_image pr)" using n by (simp add: layer_at_def)
  moreover have "256 * im_instruction_bits (pr_image pr) = layer_size pr" using image_okD(4) [OF ok] by simp
  moreover have cfg: "img_config ((pr_image pr)\<lparr>im_layer := layer_at pr k\<rparr>) = img_config (pr_image pr)"
    by (simp add: img_config_def)
  ultimately have "jump_row pr m' (layer_at pr k) = jump_row pr m (layer_at pr k)"
    unfolding jump_row_def layer_row_def cfg
    by (intro decode_cong) (use same in \<open>auto simp: layer_at_def img_config_simps [OF ok]\<close>)
  then show "\<exists>j. layer_at pr j < code_end pr \<and> jump_row pr m' (layer_at pr k) = row (layer_size pr) 0 (layer_at pr j)"
    using chain k by (simp add: chained_def)
qed

section \<open>Layers\<close>

lemma mem_fill_zero:
  assumes "di + n \<le> length m"
  shows "yields (mem_fill n 0 m di) (length m) (\<lambda>p. if 8 * di \<le> p \<and> p < 8 * di + 8 * n then False else bit_at m p)"
proof (rule yieldsI)
  let ?r = "take di m @ replicate n 0 @ drop (di + n) m"
  show "mem_fill n 0 m di = Some ?r" using assms by (simp add: mem_fill_def)
  show len: "length ?r = length m" using assms by simp
  show "bit_at ?r = (\<lambda>p. if 8 * di \<le> p \<and> p < 8 * di + 8 * n then False else bit_at m p)"
  proof (rule ext)
    fix p
    have range: "8 * di \<le> p \<and> p < 8 * di + 8 * n \<longleftrightarrow> di \<le> p div 8 \<and> p div 8 < di + n" by linarith
    have "p div 8 < length m \<Longrightarrow> ?r ! (p div 8) = (if di \<le> p div 8 \<and> p div 8 < di + n then replicate n 0 ! (p div 8 - di)
        else m ! (p div 8))"
      by (rule nth_splice) (use assms in simp_all)
    then show "bit_at ?r p = (if 8 * di \<le> p \<and> p < 8 * di + 8 * n then False else bit_at m p)"
      unfolding range bit_at_def len by auto
  qed
qed

definition fresh_image :: "nat \<Rightarrow> nat \<Rightarrow> nat \<Rightarrow> cs_copy_image" where
  "fresh_image bytes ab layer =
     \<lparr>im_bytes = bytes, im_space_bits = 2 ^ ab, im_layer = layer, im_layer_bits = 256 * (3 * ab - 1),
      im_address_bits = ab, im_count_bits = ab - 1, im_instruction_bits = 3 * ab - 1, im_slot = 3\<rparr>"

lemma and_7_zero: "x AND 7 = 0 \<longleftrightarrow> x mod 8 = 0" for x :: nat
  by (simp add: and_7_eq_mod_8)

lemma image_init_spec:
  assumes "2 \<le> ab" "ab \<le> 31" "bytes \<le> uint32_max div 8" "length m = bytes" "layer mod 8 = 0"
    and "bytes * 8 \<le> 2 ^ ab" "layer + 256 * (3 * ab - 1) \<le> bytes * 8"
  shows "\<exists>m'. cs_copy_image_init bytes ab layer m = Some (m', Some (fresh_image bytes ab layer)) \<and>
    length m' = length m \<and> image_ok (fresh_image bytes ab layer) m' \<and>
    (\<forall>p. bit_at m' p = (if layer \<le> p \<and> p < layer + 256 * (3 * ab - 1) then False else bit_at m p))"
proof -
  define n where "n = 32 * (3 * ab - 1)"
  have n: "256 * (3 * ab - 1) div 8 = n" "8 * n = 256 * (3 * ab - 1)" by (simp_all add: n_def)
  have l: "8 * (layer div 8) = layer" using assms(5) by (simp add: mod_eq_0_iff_dvd)
  have "layer div 8 + n \<le> length m" using assms(4,7) l n(2) by linarith
  then obtain m' where m': "mem_fill n 0 m (layer div 8) = Some m'" "length m' = length m"
      "bit_at m' = (\<lambda>p. if 8 * (layer div 8) \<le> p \<and> p < 8 * (layer div 8) + 8 * n then False else bit_at m p)"
    using mem_fill_zero by (blast elim: yieldsE)
  have "cs_copy_image_init bytes ab layer m = Some (m', Some (fresh_image bytes ab layer))"
    using assms m'(1) n(1)
    by (simp add: cs_copy_image_init_def Let_def fits_def and_7_zero fresh_image_def)
  moreover have "image_ok (fresh_image bytes ab layer) m'"
    using assms m'(2) by (simp add: image_ok_def fresh_image_def)
  ultimately show ?thesis using m'(2,3) l n(2) by auto
qed

section \<open>Every operation keeps the invariant\<close>

text \<open>
  \<open>keeps pr m A r\<close>: the operation is defined, keeps the invariant and the placement of the
  program, changes no bit outside the code region and \<open>A\<close>, and nothing at all when it
  reports a rejection.
\<close>

definition keeps :: "cs_copy_program \<Rightarrow> mem \<Rightarrow> nat set \<Rightarrow> ((cs_copy_program \<times> mem) \<times> int) option \<Rightarrow> bool" where
  "keeps pr m A r \<longleftrightarrow> (\<exists>pr' m' rc. r = Some ((pr', m'), rc) \<and> program_ok pr' m' \<and> length m' = length m \<and>
     code_begin pr' = code_begin pr \<and> code_limit pr' = code_limit pr \<and> code_end pr \<le> code_end pr' \<and>
     im_address_bits (pr_image pr') = im_address_bits (pr_image pr) \<and>
     (rc = 0 \<or> rc = -1 \<and> pr' = pr \<and> m' = m) \<and>
     (\<forall>p. p \<notin> {code_begin pr..<code_limit pr} \<union> A \<longrightarrow> bit_at m' p = bit_at m p))"

lemma keeps_reject: "program_ok pr m \<Longrightarrow> keeps pr m A (Some ((pr, m), -1))"
  by (simp add: keeps_def)

lemma keeps_nothing: "program_ok pr m \<Longrightarrow> keeps pr m A (Some ((pr, m), 0))"
  by (simp add: keeps_def)

lemma layer_range:
  assumes ok: "program_ok pr m" and "at = layer_at pr k" and "at < code_end pr"
  shows "code_begin pr \<le> at" and "at + layer_size pr \<le> code_end pr" and "at mod 8 = 0"
proof -
  obtain n where n: "im_layer (pr_image pr) = layer_at pr n" using program_okD(10) [OF ok] ..
  have "0 < layer_size pr" using layer_size_pos [OF program_okD(1) [OF ok]] by simp
  moreover have "code_begin pr + k * layer_size pr < code_begin pr + Suc n * layer_size pr"
    using assms(2,3) n program_okD(2) [OF ok] by (simp add: layer_at_def)
  ultimately have "k < Suc n" by (simp only: add_less_cancel_left mult_less_cancel2)
  then have "Suc k * layer_size pr \<le> Suc n * layer_size pr" by (intro mult_le_mono1) simp
  then show "at + layer_size pr \<le> code_end pr"
    using assms(2) n program_okD(2) [OF ok] by (simp add: layer_at_def)
  show "code_begin pr \<le> at" by (simp add: assms(2) layer_at_def)
  show "at mod 8 = 0"
    using layer_size_pos [OF program_okD(1) [OF ok]] program_okD(4) [OF ok]
    by (simp add: assms(2) layer_at_def mod_add_eq [symmetric] mod_mult_eq [symmetric])
qed

text \<open>The jump row of any layer of the program can be set.\<close>

lemma set_jump:
  assumes ok: "program_ok pr m" and at: "at = layer_at pr k" "at < code_end pr"
    and target: "target + layer_size pr \<le> im_space_bits (pr_image pr)"
  shows "\<exists>m'. cs_copy_row ((pr_image pr)\<lparr>im_layer := at\<rparr>) 255 (layer_size pr) 0 target m = Some (m', 0) \<and>
    length m' = length m \<and> jump_row pr m' at = row (layer_size pr) 0 target \<and>
    (\<forall>p. p < at + 255 * im_instruction_bits (pr_image pr) \<or> at + layer_size pr \<le> p \<longrightarrow> bit_at m' p = bit_at m p)"
proof -
  note L = layer_range [OF ok at] and I = image_okD [OF program_okD(1) [OF ok]]
  have img: "image_ok ((pr_image pr)\<lparr>im_layer := at\<rparr>) m"
    using program_okD(1,5,6) [OF ok] L by (simp add: image_ok_def)
  have "row_valid ((pr_image pr)\<lparr>im_layer := at\<rparr>) 255 (layer_size pr) 0 target"
    using program_okD(7) [OF ok] target layer_size_pos [OF program_okD(1) [OF ok]]
    by (auto simp: row_valid_def fits_def)
  from cs_copy_row_spec [OF img this] show ?thesis
    using I(4) by (simp add: jump_row_def)
qed

lemma program_next_keeps:
  assumes ok: "program_ok pr m"
  shows "keeps pr m {} (cs_copy_program_next (pr, m)) \<and>
    (\<forall>pr' m'. cs_copy_program_next (pr, m) = Some ((pr', m'), 0) \<longrightarrow> im_slot (pr_image pr') = 3 \<and>
      im_layer (pr_image pr') = code_end pr \<and> jump_row pr m' (im_layer (pr_image pr)) = row (layer_size pr) 0 (code_end pr))"
proof (cases "fits (code_end pr) (layer_size pr) (code_limit pr) \<and> row_valid (pr_image pr) 255 (layer_size pr) 0 (code_end pr)")
  case False
  then have "cs_copy_program_next (pr, m) = Some ((pr, m), -1)"
    by (auto simp: cs_copy_program_next_def Let_def)
  then show ?thesis using keeps_reject [OF ok] by simp
next
  case True
  note I = image_okD [OF program_okD(1) [OF ok]] and P = program_okD [OF ok]
  define img where "img = pr_image pr"
  define ab where "ab = im_address_bits img"
  define LB where "LB = layer_size pr"
  have ab: "2 \<le> ab" "ab \<le> 31" "LB = 256 * (3 * ab - 1)" "8 * length m \<le> 2 ^ ab"
    using image_address_bits [OF P(1)] I(1,3,4,7,11) by (simp_all add: ab_def LB_def img_def)
  have end8: "code_end pr mod 8 = 0"
    using P(2) I(8) layer_size_pos [OF P(1)] by (simp add: mod_add_eq [symmetric])
  have room: "code_end pr + LB \<le> code_limit pr" using True by (auto simp: fits_def LB_def)
  have "8 * length m \<le> 2 ^ 31" using I(7,12) by linarith
  then have bytes: "length m \<le> uint32_max div 8" by (simp add: uint32_max_def)
  define nxt where "nxt = fresh_image (length m) ab (code_end pr)"
  obtain m1 where m1: "cs_copy_image_init (length m) ab (code_end pr) m = Some (m1, Some nxt)"
      "length m1 = length m" "image_ok nxt m1"
      "\<And>p. bit_at m1 p = (if code_end pr \<le> p \<and> p < code_end pr + LB then False else bit_at m p)"
    using image_init_spec [of ab "length m" m "code_end pr"] ab bytes end8 room P(6)
    by (auto simp: nxt_def mult.commute)
  have chain1: "chained pr m1"
    by (rule chained_cong [OF P(1,8,10)]) (use m1(4) P(2) in auto)
  have ok1: "program_ok pr m1"
    by (rule program_ok_bits [OF m1(2) chain1 ok])
  obtain k where k: "im_layer img = layer_at pr k" using P(10) by (auto simp: img_def)
  have "im_layer img < code_end pr" using P(2) layer_size_pos [OF P(1)] by (simp add: img_def)
  from set_jump [OF ok1 k this, of "code_end pr"] obtain m2 where m2:
      "cs_copy_row img 255 LB 0 (code_end pr) m1 = Some (m2, 0)" "length m2 = length m"
      "jump_row pr m2 (im_layer img) = row LB 0 (code_end pr)"
      "\<And>p. p < im_layer img + 255 * im_instruction_bits img \<or> im_layer img + LB \<le> p \<Longrightarrow> bit_at m2 p = bit_at m1 p"
    using room P(6) I(7) m1(2) by (auto simp: img_def LB_def)
  define pr' where "pr' = pr\<lparr>pr_image := nxt, code_end := code_end pr + LB\<rparr>"
  have size: "im_layer_bits nxt = LB" "im_layer nxt = code_end pr" "im_slot nxt = 3"
    "im_count_bits nxt = im_count_bits img"
    using ab(3) I(2) by (simp_all add: nxt_def fresh_image_def ab_def img_def)
  have code: "cs_copy_program_next (pr, m) = Some ((pr', m2), 0)"
    using True m1(1) m2(1) I(5) size(1)
    by (simp add: cs_copy_program_next_def Let_def pr'_def ab_def img_def LB_def)
  have cfg: "im_address_bits nxt = im_address_bits img" by (simp add: nxt_def fresh_image_def ab_def)
  have at: "layer_at pr' j = layer_at pr j" for j by (simp add: layer_at_def pr'_def size LB_def)
  have jump: "jump_row pr' m' a = jump_row pr m' a" for m' a
    by (simp add: jump_row_def layer_row_def pr'_def img_config_def nxt_def fresh_image_def ab_def img_def)
  have next_at: "layer_at pr (Suc k) = code_end pr"
    using k P(2) by (simp add: layer_at_def img_def)
  have chain2: "chained pr m2"
    by (rule chained_cong [OF program_okD(1,8,10) [OF ok1]]) (use m2(4) in \<open>auto simp: img_def\<close>)
  have "chained pr' m2"
    unfolding chained_def at jump
  proof (intro allI impI)
    fix i assume i: "layer_at pr i < im_layer (pr_image pr')"
    show "\<exists>j. layer_at pr j < code_end pr' \<and>
        jump_row pr m2 (layer_at pr i) = row (layer_size pr') 0 (layer_at pr j)"
    proof (cases "layer_at pr i < im_layer img")
      case True
      then obtain j where "layer_at pr j < code_end pr"
          "jump_row pr m2 (layer_at pr i) = row (layer_size pr) 0 (layer_at pr j)"
        using chain2 by (auto simp: chained_def img_def)
      then show ?thesis by (intro exI [of _ j]) (simp add: pr'_def size LB_def)
    next
      case False
      have "layer_at pr i < layer_at pr (Suc k)" using i next_at by (simp add: pr'_def size)
      then have "i < Suc k" by (simp only: layer_at_def add_less_cancel_left mult_less_cancel2)
      then have "layer_at pr i \<le> layer_at pr k" by (simp add: layer_at_def)
      then have "layer_at pr i = im_layer img" using False k by simp
      then show ?thesis
        using m2(3) next_at ab layer_size_pos [OF P(1)] by (intro exI [of _ "Suc k"]) (simp add: pr'_def size LB_def)
    qed
  qed
  moreover have "image_ok nxt m2" using m1(2,3) m2(2) by (simp add: image_ok_def)
  moreover have "\<exists>j. im_layer (pr_image pr') = layer_at pr' j"
    using next_at at by (intro exI [of _ "Suc k"]) (simp add: pr'_def size)
  ultimately have ok': "program_ok pr' m2"
    using P room m2(2) by (auto simp: program_ok_def pr'_def size LB_def img_def)
  have "bit_at m2 p = bit_at m p" if "p \<notin> {code_begin pr..<code_limit pr}" for p
  proof -
    have "p < im_layer img + 255 * im_instruction_bits img \<or> im_layer img + LB \<le> p"
      using that P(2,5,9) by (auto simp: img_def LB_def)
    moreover have "\<not> (code_end pr \<le> p \<and> p < code_end pr + LB)"
      using that room P(2,9) by auto
    ultimately show ?thesis using m1(4) [of p] m2(4) [of p] by auto
  qed
  then have "keeps pr m {} (cs_copy_program_next (pr, m))"
    using code ok' m2(2) cfg by (simp add: keeps_def pr'_def img_def)
  then show ?thesis using code m2(3) size by (auto simp: pr'_def img_def LB_def)
qed

text \<open>Filling rows of the current layer, and data outside the code region.\<close>

lemma image_change_ok:
  assumes ok: "program_ok pr m" and len: "length m' = length m"
    and slot: "im_slot (pr_image pr) + n \<le> 255"
    and same: "\<And>p. p \<notin> A \<Longrightarrow> p < im_layer (pr_image pr) + im_slot (pr_image pr) * im_instruction_bits (pr_image pr) \<or>
      im_layer (pr_image pr) + (im_slot (pr_image pr) + n) * im_instruction_bits (pr_image pr) \<le> p \<Longrightarrow>
      bit_at m' p = bit_at m p"
    and data: "A \<inter> {code_begin pr..<code_limit pr} = {}"
  shows "program_ok (pr\<lparr>pr_image := at_slot (pr_image pr) n\<rparr>) m'"
    and "\<And>p. p \<notin> {code_begin pr..<code_limit pr} \<union> A \<Longrightarrow> bit_at m' p = bit_at m p"
proof -
  note P = program_okD [OF ok] and I = image_okD [OF program_okD(1) [OF ok]]
  define img where "img = pr_image pr"
  have "(im_slot img + n) * im_instruction_bits img \<le> im_layer_bits img"
    unfolding I(4) [folded img_def] by (rule mult_le_mono1) (use slot in \<open>simp add: img_def\<close>)
  then have rows: "im_layer img + (im_slot img + n) * im_instruction_bits img \<le> code_end pr"
    using P(2) by (simp add: img_def)
  show out: "bit_at m' p = bit_at m p" if "p \<notin> {code_begin pr..<code_limit pr} \<union> A" for p
  proof (rule same)
    show "p < im_layer (pr_image pr) + im_slot (pr_image pr) * im_instruction_bits (pr_image pr) \<or>
        im_layer (pr_image pr) + (im_slot (pr_image pr) + n) * im_instruction_bits (pr_image pr) \<le> p"
      using that rows P(5,9) unfolding img_def by auto
  qed (use that in simp)
  have "chained pr m'"
  proof (rule chained_cong [OF P(1,8,10)])
    fix p assume p: "code_begin pr \<le> p" "p < im_layer (pr_image pr)"
    have "p \<notin> A" using data p P(2,5) by auto
    then show "bit_at m' p = bit_at m p" using p by (intro same) auto
  qed
  then have "chained (pr\<lparr>pr_image := at_slot img n\<rparr>) m'"
    by (simp add: chained_def layer_at_def jump_row_def layer_row_def img_config_def img_def)
  moreover have "image_ok (at_slot img n) m'"
    by (rule image_ok_slot [OF _ _ len P(1) [folded img_def]]) (use slot in \<open>simp_all add: img_def\<close>)
  ultimately show "program_ok (pr\<lparr>pr_image := at_slot (pr_image pr) n\<rparr>) m'"
    using ok len by (simp add: program_ok_def img_def layer_at_def)
qed

lemma room_cases:
  assumes ok: "program_ok pr m" and n: "n \<le> 252"
  shows "room n (pr, m) = Some ((pr, m), -1) \<or>
    (\<exists>pr' m'. room n (pr, m) = Some ((pr', m'), 0) \<and> program_ok pr' m' \<and> length m' = length m \<and>
      code_begin pr' = code_begin pr \<and> code_limit pr' = code_limit pr \<and> code_end pr \<le> code_end pr' \<and>
      im_address_bits (pr_image pr') = im_address_bits (pr_image pr) \<and> im_slot (pr_image pr') + n \<le> 255 \<and>
      (\<forall>p. p \<notin> {code_begin pr..<code_limit pr} \<longrightarrow> bit_at m' p = bit_at m p))"
proof (cases "im_slot (pr_image pr) \<le> 255 - n")
  case True
  then have "im_slot (pr_image pr) + n \<le> 255" using n by linarith
  then show ?thesis using True ok n by (auto simp: room_def)
next
  case False
  then have "room n (pr, m) = cs_copy_program_next (pr, m)" using n by (simp add: room_def)
  then show ?thesis using program_next_keeps [OF ok] n unfolding keeps_def by fastforce
qed

lemma keeps_after_room:
  assumes ok: "program_ok pr m" and n: "n \<le> 252" and data: "A \<inter> {code_begin pr..<code_limit pr} = {}"
    and step: "\<And>pr' m'. \<lbrakk>program_ok pr' m'; code_begin pr' = code_begin pr; code_limit pr' = code_limit pr;
      im_address_bits (pr_image pr') = im_address_bits (pr_image pr); length m' = length m;
      im_slot (pr_image pr') + n \<le> 255\<rbrakk> \<Longrightarrow>
      \<exists>m''. f (pr_image pr', m') = Some ((at_slot (pr_image pr') n, m''), 0) \<and> length m'' = length m' \<and>
        (\<forall>p. p \<notin> A \<and> (p < im_layer (pr_image pr') + im_slot (pr_image pr') * im_instruction_bits (pr_image pr') \<or>
          im_layer (pr_image pr') + (im_slot (pr_image pr') + n) * im_instruction_bits (pr_image pr') \<le> p) \<longrightarrow>
          bit_at m'' p = bit_at m' p)"
  shows "keeps pr m A (do {
     ((pr, m), rc) \<leftarrow> room n (pr, m);
     if rc \<noteq> 0 then Some ((pr, m), -1)
     else do {
       ((img, m), rc) \<leftarrow> f (pr_image pr, m);
       Some ((pr\<lparr>pr_image := img\<rparr>, m), rc)
     }
   })"
proof (cases "room n (pr, m) = Some ((pr, m), -1)")
  case True
  then show ?thesis using keeps_reject [OF ok] by simp
next
  case False
  obtain pr' m' where r: "room n (pr, m) = Some ((pr', m'), 0)" "program_ok pr' m'" "length m' = length m"
      "code_begin pr' = code_begin pr" "code_limit pr' = code_limit pr" "code_end pr \<le> code_end pr'"
      "im_address_bits (pr_image pr') = im_address_bits (pr_image pr)" "im_slot (pr_image pr') + n \<le> 255"
      "\<forall>p. p \<notin> {code_begin pr..<code_limit pr} \<longrightarrow> bit_at m' p = bit_at m p"
    using room_cases [OF ok n] False by blast
  obtain m'' where m'': "f (pr_image pr', m') = Some ((at_slot (pr_image pr') n, m''), 0)" "length m'' = length m'"
      "\<And>p. p \<notin> A \<Longrightarrow> p < im_layer (pr_image pr') + im_slot (pr_image pr') * im_instruction_bits (pr_image pr') \<or>
        im_layer (pr_image pr') + (im_slot (pr_image pr') + n) * im_instruction_bits (pr_image pr') \<le> p \<Longrightarrow>
        bit_at m'' p = bit_at m' p"
    using step [OF r(2,4,5,7,3,8)] by blast
  have ok': "program_ok (pr'\<lparr>pr_image := at_slot (pr_image pr') n\<rparr>) m''"
    "\<And>p. p \<notin> {code_begin pr..<code_limit pr} \<union> A \<Longrightarrow> bit_at m'' p = bit_at m' p"
    using image_change_ok [OF r(2) m''(2) r(8) m''(3)] data r(4,5) by simp_all
  then show ?thesis using r m''(1,2) by (simp add: keeps_def)
qed

lemma program_emit_keeps:
  assumes ok: "program_ok pr m"
  shows "keeps pr m {} (cs_copy_program_emit count destination source (pr, m))"
proof (cases "row_valid (pr_image pr) 3 count destination source")
  case False
  then show ?thesis using keeps_reject [OF ok] by (simp add: cs_copy_program_emit_def)
next
  case True
  have "keeps pr m {} (do {
     ((pr, m), rc) \<leftarrow> room 1 (pr, m);
     if rc \<noteq> 0 then Some ((pr, m), -1)
     else do {
       ((img, m), rc) \<leftarrow> cs_copy_emit count destination source (pr_image pr, m);
       Some ((pr\<lparr>pr_image := img\<rparr>, m), rc)
     }
   })"
  proof (rule keeps_after_room [OF ok])
    fix pr' m' assume ok': "program_ok pr' m'" and ab: "im_address_bits (pr_image pr') = im_address_bits (pr_image pr)"
      and slot: "im_slot (pr_image pr') + 1 \<le> 255"
    have "row_ok (pr_image pr') (row count destination source)"
      using True ab image_okD(1,2) [OF program_okD(1) [OF ok]] image_okD(1,2) [OF program_okD(1) [OF ok']]
      by (simp add: row_valid_row_ok row_ok_def)
    then have valid: "row_valid (pr_image pr') (im_slot (pr_image pr')) count destination source"
      using slot by (simp add: row_valid_row_ok)
    show "\<exists>m''. cs_copy_emit count destination source (pr_image pr', m') = Some ((at_slot (pr_image pr') 1, m''), 0) \<and>
        length m'' = length m' \<and>
        (\<forall>p. p \<notin> {} \<and> (p < im_layer (pr_image pr') + im_slot (pr_image pr') * im_instruction_bits (pr_image pr') \<or>
          im_layer (pr_image pr') + (im_slot (pr_image pr') + 1) * im_instruction_bits (pr_image pr') \<le> p) \<longrightarrow>
          bit_at m'' p = bit_at m' p)"
      using cs_copy_row_spec [OF program_okD(1) [OF ok'] valid] slot by (auto simp: cs_copy_emit_def)
  qed simp_all
  then show ?thesis using True by (simp add: cs_copy_program_emit_def)
qed

section \<open>Arithmetic in a program\<close>

lemma not_overlaps:
  assumes "apart a w b n" and "a + w < 2 ^ 32" and "b + n < 2 ^ 32"
  shows "\<not> overlaps a w b n"
  using assms by (auto simp: apart_def overlaps_def)

text \<open>Addresses that miss the code region miss every layer in it.\<close>

lemma misses_layer:
  assumes ok: "program_ok pr m" and ok': "program_ok pr' m'" and len: "length m' = length m"
    and same: "code_begin pr' = code_begin pr" "code_limit pr' = code_limit pr"
    and fit: "a + w \<le> im_space_bits (pr_image pr)"
    and miss: "\<not> overlaps a w (code_begin pr) (code_limit pr - code_begin pr)"
  shows "\<not> overlaps a w (im_layer (pr_image pr')) (im_layer_bits (pr_image pr'))"
    and "{a..<a + w} \<inter> {code_begin pr..<code_limit pr} = {}"
proof -
  have S: "im_space_bits (pr_image pr) < 2 ^ 32" "code_limit pr < 2 ^ 32" "code_begin pr \<le> code_limit pr"
    using image_okD(7,12) [OF program_okD(1) [OF ok]] program_okD(2,5,6,9) [OF ok] by simp_all
  then have ap: "apart a w (code_begin pr) (code_limit pr - code_begin pr)"
    using fit by (intro overlaps_apart [OF miss]) simp_all
  then show "{a..<a + w} \<inter> {code_begin pr..<code_limit pr} = {}"
    using S(3) by (auto simp: apart_def)
  have "code_begin pr \<le> im_layer (pr_image pr')" "im_layer (pr_image pr') + im_layer_bits (pr_image pr') \<le> code_limit pr"
    using program_okD(2,5,9) [OF ok'] same by simp_all
  then show "\<not> overlaps a w (im_layer (pr_image pr')) (im_layer_bits (pr_image pr'))"
    using ap fit S by (intro not_overlaps) (auto simp: apart_def)
qed

lemma same_shape:
  assumes "program_ok pr m" and "program_ok pr' m'" and "length m' = length m"
    and "im_address_bits (pr_image pr') = im_address_bits (pr_image pr)"
  shows "im_space_bits (pr_image pr') = im_space_bits (pr_image pr)"
    and "im_layer_bits (pr_image pr') = im_layer_bits (pr_image pr)"
    and "im_bytes (pr_image pr') = im_bytes (pr_image pr)"
  using image_okD(1,3,4,5) [OF program_okD(1) [OF assms(1)]] image_okD(1,3,4,5) [OF program_okD(1) [OF assms(2)]]
    assms(3,4) by simp_all

lemma add_valid_move:
  assumes "add_valid (img\<lparr>im_slot := 3\<rparr>) dst l r table temp carry"
    and "im_address_bits img' = im_address_bits img" and "im_space_bits img' = im_space_bits img"
    and "im_layer_bits img' = im_layer_bits img" and "im_bytes img' = im_bytes img" and "im_slot img' \<le> 62"
    and "\<And>a w. (a, w) \<in> {(dst, 32), (l, 32), (r, 32), (table, 16), (temp, 2), (carry, 1)} \<Longrightarrow>
      \<not> overlaps a w (im_layer img') (im_layer_bits img')"
  shows "add_valid img' dst l r table temp carry"
  using assms(1-6) assms(7) [of dst 32] assms(7) [of l 32] assms(7) [of r 32] assms(7) [of table 16]
    assms(7) [of temp 2] assms(7) [of carry 1]
  by (simp add: add_valid_def Let_def upt_rec)

lemma program_arith_keeps:
  assumes ok: "program_ok pr m"
  shows "keeps pr m ({table..<table + 16} \<union> {carry}) (program_arithmetic32 subtract dst l r table temp carry (pr, m))"
proof (cases "hits_code pr [dst, l, r, table, temp, carry] [32, 32, 32, 16, 2, 1] \<or>
    \<not> add_valid ((pr_image pr)\<lparr>im_slot := 3\<rparr>) dst l r table temp carry")
  case True
  then show ?thesis using keeps_reject [OF ok] by (auto simp: program_arithmetic32_def)
next
  case False
  let ?D = "{(dst, 32), (l, 32), (r, 32), (table, 16), (temp, 2), (carry, 1)} :: (nat \<times> nat) set"
  have hits: "\<not> hits_code pr [dst, l, r, table, temp, carry] [32, 32, 32, 16, 2, 1]"
    and valid: "add_valid ((pr_image pr)\<lparr>im_slot := 3\<rparr>) dst l r table temp carry" using False by auto
  have miss: "\<forall>(a, w) \<in> ?D. \<not> overlaps a w (code_begin pr) (code_limit pr - code_begin pr)"
    using hits by (simp add: hits_code_def upt_rec)
  have fits: "\<forall>(a, w) \<in> ?D. fits a w (im_space_bits (pr_image pr))"
    using valid by (simp add: add_valid_def Let_def upt_rec)
  have D: "\<not> overlaps a w (code_begin pr) (code_limit pr - code_begin pr)" "a + w \<le> im_space_bits (pr_image pr)"
    if "(a, w) \<in> ?D" for a w
    using miss fits that by (fast, unfold fits_def, fastforce)
  have "keeps pr m ({table..<table + 16} \<union> {carry}) (do {
     ((pr, m), rc) \<leftarrow> room 193 (pr, m);
     if rc \<noteq> 0 then Some ((pr, m), -1)
     else do {
       ((img, m), rc) \<leftarrow> arithmetic32 subtract dst l r table temp carry (pr_image pr, m);
       Some ((pr\<lparr>pr_image := img\<rparr>, m), rc)
     }
   })"
  proof (rule keeps_after_room [OF ok])
    show "({table..<table + 16} \<union> {carry}) \<inter> {code_begin pr..<code_limit pr} = {}"
      using misses_layer(2) [OF ok ok refl refl refl D(2,1), of table 16]
        misses_layer(2) [OF ok ok refl refl refl D(2,1), of carry 1] by auto
    fix pr' m' assume ok': "program_ok pr' m'" and eq: "code_begin pr' = code_begin pr" "code_limit pr' = code_limit pr"
      "im_address_bits (pr_image pr') = im_address_bits (pr_image pr)" "length m' = length m"
      and slot: "im_slot (pr_image pr') + 193 \<le> 255"
    have "add_valid (pr_image pr') dst l r table temp carry"
    proof (rule add_valid_move [OF valid])
      show "\<And>a w. (a, w) \<in> ?D \<Longrightarrow> \<not> overlaps a w (im_layer (pr_image pr')) (im_layer_bits (pr_image pr'))"
        by (rule misses_layer(1) [OF ok ok' eq(4,1,2) D(2,1)])
    qed (use same_shape [OF ok ok' eq(4,3)] eq(3) slot in simp_all)
    from arithmetic32_emits [OF program_okD(1) [OF ok'] this, of subtract]
    show "\<exists>m''. arithmetic32 subtract dst l r table temp carry (pr_image pr', m') =
          Some ((at_slot (pr_image pr') 193, m''), 0) \<and> length m'' = length m' \<and>
        (\<forall>p. p \<notin> {table..<table + 16} \<union> {carry} \<and>
          (p < im_layer (pr_image pr') + im_slot (pr_image pr') * im_instruction_bits (pr_image pr') \<or>
           im_layer (pr_image pr') + (im_slot (pr_image pr') + 193) * im_instruction_bits (pr_image pr') \<le> p) \<longrightarrow>
          bit_at m'' p = bit_at m' p)" by blast
  qed simp_all
  then show ?thesis using hits valid by (simp add: program_arithmetic32_def)
qed

lemma bits_valid_move:
  assumes "bits_valid (img\<lparr>im_slot := 3\<rparr>) dst l r table"
    and "im_space_bits img' = im_space_bits img"
    and "im_layer_bits img' = im_layer_bits img" and "im_bytes img' = im_bytes img" and "im_slot img' \<le> 159"
    and "\<And>a w. (a, w) \<in> {(dst, 32), (l, 32), (r, 32), (table, 4)} \<Longrightarrow>
      \<not> overlaps a w (im_layer img') (im_layer_bits img')"
  shows "bits_valid img' dst l r table"
  using assms(1-5) assms(6) [of dst 32] assms(6) [of l 32] assms(6) [of r 32] assms(6) [of table 4]
  by (simp add: bits_valid_def Let_def upt_rec)

lemma program_bits_keeps:
  assumes ok: "program_ok pr m"
  shows "keeps pr m {table..<table + 4} (cs_copy_program_bits32 operation dst l r table (pr, m))"
proof (cases "hits_code pr [dst, l, r, table] [32, 32, 32, 4] \<or>
    \<not> bits_valid ((pr_image pr)\<lparr>im_slot := 3\<rparr>) dst l r table")
  case True
  then show ?thesis using keeps_reject [OF ok] by (auto simp: cs_copy_program_bits32_def)
next
  case False
  let ?D = "{(dst, 32), (l, 32), (r, 32), (table, 4)} :: (nat \<times> nat) set"
  have hits: "\<not> hits_code pr [dst, l, r, table] [32, 32, 32, 4]"
    and valid: "bits_valid ((pr_image pr)\<lparr>im_slot := 3\<rparr>) dst l r table" using False by auto
  have miss: "\<forall>(a, w) \<in> ?D. \<not> overlaps a w (code_begin pr) (code_limit pr - code_begin pr)"
    using hits by (simp add: hits_code_def upt_rec)
  have fits: "\<forall>(a, w) \<in> ?D. fits a w (im_space_bits (pr_image pr))"
    using valid by (simp add: bits_valid_def Let_def upt_rec)
  have D: "\<not> overlaps a w (code_begin pr) (code_limit pr - code_begin pr)" "a + w \<le> im_space_bits (pr_image pr)"
    if "(a, w) \<in> ?D" for a w
    using miss fits that by (fast, unfold fits_def, fastforce)
  have "keeps pr m {table..<table + 4} (do {
     ((pr, m), rc) \<leftarrow> room 96 (pr, m);
     if rc \<noteq> 0 then Some ((pr, m), -1)
     else do {
       ((img, m), rc) \<leftarrow> cs_copy_bits32 operation dst l r table (pr_image pr, m);
       Some ((pr\<lparr>pr_image := img\<rparr>, m), rc)
     }
   })"
  proof (rule keeps_after_room [OF ok])
    show "{table..<table + 4} \<inter> {code_begin pr..<code_limit pr} = {}"
      using misses_layer(2) [OF ok ok refl refl refl D(2,1), of table 4] by simp
    fix pr' m' assume ok': "program_ok pr' m'" and eq: "code_begin pr' = code_begin pr" "code_limit pr' = code_limit pr"
      "im_address_bits (pr_image pr') = im_address_bits (pr_image pr)" "length m' = length m"
      and slot: "im_slot (pr_image pr') + 96 \<le> 255"
    have "bits_valid (pr_image pr') dst l r table"
    proof (rule bits_valid_move [OF valid])
      show "\<And>a w. (a, w) \<in> ?D \<Longrightarrow> \<not> overlaps a w (im_layer (pr_image pr')) (im_layer_bits (pr_image pr'))"
        by (rule misses_layer(1) [OF ok ok' eq(4,1,2) D(2,1)])
    qed (use same_shape [OF ok ok' eq(4,3)] slot in simp_all)
    from bits32_emits [OF program_okD(1) [OF ok'] this, of operation]
    show "\<exists>m''. cs_copy_bits32 operation dst l r table (pr_image pr', m') =
          Some ((at_slot (pr_image pr') 96, m''), 0) \<and> length m'' = length m' \<and>
        (\<forall>p. p \<notin> {table..<table + 4} \<and>
          (p < im_layer (pr_image pr') + im_slot (pr_image pr') * im_instruction_bits (pr_image pr') \<or>
           im_layer (pr_image pr') + (im_slot (pr_image pr') + 96) * im_instruction_bits (pr_image pr') \<le> p) \<longrightarrow>
          bit_at m'' p = bit_at m' p)" by blast
  qed simp_all
  then show ?thesis using hits valid by (simp add: cs_copy_program_bits32_def)
qed

section \<open>Jumps and initialisation\<close>

lemma layer_index:
  assumes ok: "program_ok pr m" and "code_begin pr \<le> at" and "(at - code_begin pr) mod layer_size pr = 0"
  shows "at = layer_at pr ((at - code_begin pr) div layer_size pr)"
  using assms(2,3) by (simp add: layer_at_def minus_mod_eq_div_mult [symmetric])

lemma patch_jump_keeps:
  assumes ok: "program_ok pr m"
  shows "keeps pr m {} (cs_copy_program_patch_jump layer target (pr, m))"
proof (cases "layer < code_begin pr \<or> target < code_begin pr \<or> layer \<ge> code_end pr \<or> target \<ge> code_end pr \<or>
    (layer - code_begin pr) mod layer_size pr \<noteq> 0 \<or> (target - code_begin pr) mod layer_size pr \<noteq> 0")
  case True
  then show ?thesis using keeps_reject [OF ok] by (simp add: cs_copy_program_patch_jump_def)
next
  case False
  note P = program_okD [OF ok] and I = image_okD [OF program_okD(1) [OF ok]]
  define k where "k = (layer - code_begin pr) div layer_size pr"
  define j where "j = (target - code_begin pr) div layer_size pr"
  have k: "layer = layer_at pr k" "layer < code_end pr" and j: "target = layer_at pr j" "target < code_end pr"
    using False layer_index [OF ok] by (simp_all add: k_def j_def)
  have "target + layer_size pr \<le> im_space_bits (pr_image pr)"
    using layer_range(2) [OF ok j] P(5,6) I(7) by linarith
  from set_jump [OF ok k this] obtain m' where m':
      "cs_copy_row ((pr_image pr)\<lparr>im_layer := layer\<rparr>) 255 (layer_size pr) 0 target m = Some (m', 0)"
      "length m' = length m" "jump_row pr m' layer = row (layer_size pr) 0 target"
      "\<And>p. p < layer + 255 * im_instruction_bits (pr_image pr) \<or> layer + layer_size pr \<le> p \<Longrightarrow> bit_at m' p = bit_at m p"
    by blast
  have "chained pr m'"
    unfolding chained_def
  proof (intro allI impI)
    fix i assume i: "layer_at pr i < im_layer (pr_image pr)"
    show "\<exists>j. layer_at pr j < code_end pr \<and> jump_row pr m' (layer_at pr i) = row (layer_size pr) 0 (layer_at pr j)"
    proof (cases "i = k")
      case True
      then show ?thesis using m'(3) k j by blast
    next
      case False
      then have "Suc i * layer_size pr \<le> k * layer_size pr \<or> Suc k * layer_size pr \<le> i * layer_size pr"
        using mult_le_mono1 [of "Suc i" k "layer_size pr"] mult_le_mono1 [of "Suc k" i "layer_size pr"]
        by (cases "i < k") auto
      then have apart_layers: "layer_at pr i + layer_size pr \<le> layer \<or> layer + layer_size pr \<le> layer_at pr i"
        unfolding k(1) layer_at_def by (simp only: mult_Suc) linarith
      have "jump_row pr m' (layer_at pr i) = jump_row pr m (layer_at pr i)"
        unfolding jump_row_def layer_row_def
      proof (rule decode_cong)
        fix p
        have cfg: "img_config ((pr_image pr)\<lparr>im_layer := layer_at pr i\<rparr>) = img_config (pr_image pr)"
          by (simp add: img_config_def)
        assume "p < Suc 255 * instruction_size (img_config ((pr_image pr)\<lparr>im_layer := layer_at pr i\<rparr>))"
        then have "p < layer_size pr" unfolding cfg img_config_simps(4) [OF P(1)] using I(4) by simp
        then have "layer_at pr i + p < layer + 255 * im_instruction_bits (pr_image pr) \<or>
            layer + layer_size pr \<le> layer_at pr i + p"
          using apart_layers by auto
        then show "bit_at m' (im_layer ((pr_image pr)\<lparr>im_layer := layer_at pr i\<rparr>) + p) =
            bit_at m (im_layer ((pr_image pr)\<lparr>im_layer := layer_at pr i\<rparr>) + p)"
          by (simp add: m'(4))
      qed
      then show ?thesis using P(8) i by (simp add: chained_def)
    qed
  qed
  then have "program_ok pr m'" by (rule program_ok_bits [OF m'(2) _ ok])
  moreover have "bit_at m' p = bit_at m p" if "p \<notin> {code_begin pr..<code_limit pr}" for p
  proof (rule m'(4))
    show "p < layer + 255 * im_instruction_bits (pr_image pr) \<or> layer + layer_size pr \<le> p"
      using that layer_range(1,2) [OF ok k] P(5) by auto
  qed
  ultimately show ?thesis using False m'(1,2) by (simp add: cs_copy_program_patch_jump_def keeps_def)
qed

lemma program_init_spec:
  assumes len: "length m = bytes"
  shows "\<exists>m' r. cs_copy_program_init bytes ab begin limit m = Some (m', r) \<and> length m' = length m \<and>
    (case r of None \<Rightarrow> m' = m
     | Some pr \<Rightarrow> program_ok pr m' \<and> pr_image pr = fresh_image bytes ab begin \<and> code_begin pr = begin \<and>
         code_limit pr = limit \<and>
         (\<forall>p. bit_at m' p = (if begin \<le> p \<and> p < begin + layer_size pr then False else bit_at m p)))"
proof -
  define LB where "LB = 256 * (3 * ab - 1)"
  define bad where "bad \<longleftrightarrow> ab < 2 \<or> ab > 31 \<or> bytes > uint32_max div 8 \<or> begin < LB \<or> limit > bytes * 8 \<or>
    begin > limit \<or> \<not> fits begin LB limit \<or> LB \<ge> 2 ^ (ab - 1)"
  have init: "cs_copy_program_init bytes ab begin limit m =
      (if bad then Some (m, None) else do {
         (m, img) \<leftarrow> cs_copy_image_init bytes ab begin m;
         Some (m, map_option (\<lambda>img. \<lparr>pr_image = img, code_begin = begin, code_end = begin + LB, code_limit = limit\<rparr>) img) })"
    unfolding cs_copy_program_init_def Let_def LB_def [symmetric] bad_def by auto
  show ?thesis
  proof (cases "bad \<or> begin mod 8 \<noteq> 0 \<or> bytes * 8 > 2 ^ ab")
    case True
    have "cs_copy_program_init bytes ab begin limit m = Some (m, None)"
    proof (cases bad)
      case False
      then have "cs_copy_image_init bytes ab begin m = Some (m, None)"
        using True by (auto simp: cs_copy_image_init_def Let_def and_7_zero)
      then show ?thesis using False by (simp add: init)
    qed (simp add: init)
    then show ?thesis by simp
  next
    case False
    then have c: "2 \<le> ab" "ab \<le> 31" "bytes \<le> uint32_max div 8" "LB \<le> begin" "limit \<le> bytes * 8"
      "begin + LB \<le> limit" "LB < 2 ^ (ab - 1)" "begin mod 8 = 0" "bytes * 8 \<le> 2 ^ ab" "\<not> bad"
      by (auto simp: bad_def fits_def)
    define img where "img = fresh_image bytes ab begin"
    obtain m' where m': "cs_copy_image_init bytes ab begin m = Some (m', Some img)" "length m' = length m"
        "image_ok img m'" "\<forall>p. bit_at m' p = (if begin \<le> p \<and> p < begin + LB then False else bit_at m p)"
      using image_init_spec [OF c(1-3) len c(8,9)] c(5,6) by (auto simp: LB_def img_def)
    have img: "im_layer_bits img = LB" "im_layer img = begin" "im_count_bits img = ab - 1"
      by (simp_all add: img_def fresh_image_def LB_def)
    define pr where "pr = \<lparr>pr_image = img, code_begin = begin, code_end = begin + LB, code_limit = limit\<rparr>"
    have "chained pr m'" by (simp add: chained_def pr_def layer_at_def img)
    moreover have "\<exists>k. im_layer (pr_image pr) = layer_at pr k"
      by (rule exI [of _ 0]) (simp add: pr_def layer_at_def img)
    ultimately have "program_ok pr m'"
      using c m'(2,3) len by (simp add: program_ok_def pr_def img mult.commute)
    moreover have "cs_copy_program_init bytes ab begin limit m = Some (m', Some pr)"
      using c(10) m'(1) by (simp add: init pr_def)
    ultimately show ?thesis using m'(2,4) by (simp add: pr_def img flip: img_def)
  qed
qed

section \<open>Programs under construction\<close>

inductive program_step :: "cs_copy_program \<times> mem \<Rightarrow> cs_copy_program \<times> mem \<Rightarrow> bool" where
  step_emit: "cs_copy_program_emit count destination source st = Some (st', rc) \<Longrightarrow> program_step st st'"
| step_add: "cs_copy_program_add32 destination left right table temporary carry st = Some (st', rc) \<Longrightarrow> program_step st st'"
| step_sub: "cs_copy_program_sub32 destination left right table temporary borrow st = Some (st', rc) \<Longrightarrow> program_step st st'"
| step_bits: "cs_copy_program_bits32 operation destination left right table st = Some (st', rc) \<Longrightarrow> program_step st st'"
| step_next: "cs_copy_program_next st = Some (st', rc) \<Longrightarrow> program_step st st'"
| step_patch: "cs_copy_program_patch_jump layer target st = Some (st', rc) \<Longrightarrow> program_step st st'"

lemma keepsD:
  assumes "keeps pr m A r" and "r = Some ((pr', m'), rc)"
  shows "program_ok pr' m'" and "length m' = length m" and "code_begin pr' = code_begin pr"
    and "code_limit pr' = code_limit pr" and "im_address_bits (pr_image pr') = im_address_bits (pr_image pr)"
    and "rc \<noteq> 0 \<Longrightarrow> pr' = pr \<and> m' = m"
    and "\<And>p. p \<notin> {code_begin pr..<code_limit pr} \<union> A \<Longrightarrow> bit_at m' p = bit_at m p"
  using assms by (auto simp: keeps_def)

lemmas program_keeps = program_emit_keeps program_arith_keeps program_bits_keeps patch_jump_keeps
  conjunct1 [OF program_next_keeps]

lemma program_step_keeps:
  assumes "program_step (pr, m) st'" and ok: "program_ok pr m"
  shows "\<exists>A rc. keeps pr m A (Some (st', rc))"
  using assms(1)
proof cases
  case (step_emit count destination source rc)
  then show ?thesis using program_emit_keeps [OF ok, of count destination source] by (metis prod.collapse)
next
  case (step_add destination left right table temporary carry rc)
  then show ?thesis
    using program_arith_keeps [OF ok, of table carry False destination left right temporary]
    by (metis cs_copy_program_add32_def)
next
  case (step_sub destination left right table temporary borrow rc)
  then show ?thesis
    using program_arith_keeps [OF ok, of table borrow True destination left right temporary]
    by (metis cs_copy_program_sub32_def)
next
  case (step_bits operation destination left right table rc)
  then show ?thesis using program_bits_keeps [OF ok, of table operation destination left right] by metis
next
  case (step_next rc)
  then show ?thesis using program_next_keeps [OF ok] by metis
next
  case (step_patch layer target rc)
  then show ?thesis using patch_jump_keeps [OF ok, of layer target] by metis
qed

lemma program_steps_ok:
  "program_step\<^sup>*\<^sup>* st st' \<Longrightarrow> program_ok (fst st) (snd st) \<Longrightarrow>
    program_ok (fst st') (snd st') \<and> code_begin (fst st') = code_begin (fst st) \<and>
    code_limit (fst st') = code_limit (fst st) \<and> length (snd st') = length (snd st)"
proof (induction rule: rtranclp_induct)
  case (step st1 st2)
  then have "program_ok (fst st1) (snd st1)" by simp
  moreover have "program_step (fst st1, snd st1) st2" using step.hyps(2) by simp
  ultimately obtain A rc where "keeps (fst st1) (snd st1) A (Some ((fst st2, snd st2), rc))"
    using program_step_keeps by fastforce
  from keepsD(1-4) [OF this refl] step show ?case by simp
qed simp

section \<open>Properties\<close>

text \<open>
  C14. However a program is built from a successful initialisation, with rejected calls in
  between, its layer stays a layer of the image inside the code region, every finished layer
  ends with a jump to a layer of the program, and the region itself never moves.
\<close>

theorem program_reachable:
  assumes "cs_copy_program_init (length m) ab begin limit m = Some (m0, Some pr0)"
    and "program_step\<^sup>*\<^sup>* (pr0, m0) (pr, m')"
  shows "program_ok pr m' \<and> chained pr m' \<and> code_begin pr = begin \<and> code_limit pr = limit \<and>
    length m' = length m"
proof -
  have "program_ok pr0 m0" "code_begin pr0 = begin" "code_limit pr0 = limit" "length m0 = length m"
    using program_init_spec [OF refl, of m ab "begin" limit] assms(1) by auto
  then show ?thesis using program_steps_ok [OF assms(2)] program_okD(8) by auto
qed

text \<open>A program of a memory of 8 KiB with room for three layers, for the witnesses.\<close>

definition demo_memory :: mem where
  "demo_memory = replicate 8192 0"

lemma demo_init: "\<exists>m. cs_copy_program_init 8192 16 12032 36096 demo_memory =
  Some (m, Some \<lparr>pr_image = fresh_image 8192 16 12032, code_begin = 12032, code_end = 24064, code_limit = 36096\<rparr>)"
proof -
  obtain m where "mem_fill 1504 0 demo_memory 1504 = Some m"
    using mem_fill_zero [of 1504 1504 demo_memory] by (auto simp: demo_memory_def elim: yieldsE)
  then show ?thesis
    by (simp add: cs_copy_program_init_def cs_copy_image_init_def uint32_max_def fits_def Let_def fresh_image_def)
qed

lemma program_reachable_witness:
  "\<exists>pr m'. program_step\<^sup>*\<^sup>* (pr, m') (pr, m') \<and> program_ok pr m' \<and> code_begin pr = 12032"
proof -
  obtain m0 pr0 where i: "cs_copy_program_init (length demo_memory) 16 12032 36096 demo_memory = Some (m0, Some pr0)"
    using demo_init by (auto simp: demo_memory_def)
  from program_reachable [OF i rtranclp.rtrancl_refl] show ?thesis by blast
qed

text \<open>
  Adding an arithmetic operation to a program returns without undefined behaviour. It
  touches only the code region, the truth table and the carry bit, and a rejected call
  leaves no trace, also when it had found no room in the current layer.
\<close>

theorem program_arithmetic32_safe:
  assumes "program_ok pr m"
  shows "\<exists>pr' m' rc. program_arithmetic32 subtract dst l r table temp carry (pr, m) = Some ((pr', m'), rc) \<and>
    program_ok pr' m' \<and> code_end pr \<le> code_end pr' \<and> (rc = 0 \<or> rc = -1 \<and> pr' = pr \<and> m' = m) \<and>
    (\<forall>p. p \<notin> {code_begin pr..<code_limit pr} \<union> ({table..<table + 16} \<union> {carry}) \<longrightarrow> bit_at m' p = bit_at m p)"
  using program_arith_keeps [OF assms, of table carry subtract dst l r temp] unfolding keeps_def by blast

lemma program_arithmetic32_safe_witness:
  "\<exists>pr m pr' m' rc. program_arithmetic32 False 40000 40032 40064 40096 40112 40114 (pr, m) = Some ((pr', m'), rc) \<and>
    program_ok pr' m'"
proof -
  obtain m0 pr0 where "cs_copy_program_init (length demo_memory) 16 12032 36096 demo_memory = Some (m0, Some pr0)"
    using demo_init by (auto simp: demo_memory_def)
  then have "program_ok pr0 m0" using program_init_spec [OF refl, of demo_memory 16 12032 36096] by auto
  from program_arithmetic32_safe [OF this] show ?thesis by blast
qed

end
