(* ===== verification/Digits.thy ===== *)
theory Digits
  imports Prelude
begin

text \<open>
  Numbers as text: the decimal output of \<open>printf\<close>, the digits that the C library and the
  parsers under src/ accept, and \<open>strtoull\<close> with base 0. That printed decimals are read
  back is proved here once for every reader of them.
\<close>

text \<open>Decimal output, as \<open>printf\<close> writes an unsigned number.\<close>

definition digit_char :: "nat \<Rightarrow> char" where
  "digit_char d = char_of (48 + d)"

fun dec_string :: "nat \<Rightarrow> string" where
  "dec_string n = (if n < 10 then [digit_char n] else dec_string (n div 10) @ [digit_char (n mod 10)])"

declare dec_string.simps [simp del]

text \<open>
  \<open>strtoull(text, &end, 0)\<close> on a text that starts with a digit: the base is 16 after
  \<open>0x\<close> and a hexadecimal digit, 8 after any other leading \<open>0\<close>, and 10 otherwise; the
  result is the number, unbounded, and the text after its last digit.
\<close>

definition digit_value :: "char \<Rightarrow> nat option" where
  "digit_value c = (let k = of_char c :: nat in
     if 48 \<le> k \<and> k \<le> 57 then Some (k - 48)
     else if 97 \<le> k \<and> k \<le> 122 then Some (k - 87)
     else if 65 \<le> k \<and> k \<le> 90 then Some (k - 55) else None)"

definition is_digit :: "nat \<Rightarrow> char \<Rightarrow> bool" where
  "is_digit base c = (case digit_value c of Some d \<Rightarrow> d < base | None \<Rightarrow> False)"

fun take_digits :: "nat \<Rightarrow> nat \<Rightarrow> string \<Rightarrow> nat \<times> string" where
  "take_digits base acc [] = (acc, [])"
| "take_digits base acc (c # cs) =
     (if is_digit base c then take_digits base (acc * base + the (digit_value c)) cs else (acc, c # cs))"

fun strtoull0 :: "string \<Rightarrow> nat \<times> string" where
  "strtoull0 (z # x # d # cs) =
     (if z = CHR ''0'' \<and> (x = CHR ''x'' \<or> x = CHR ''X'') \<and> is_digit 16 d then take_digits 16 0 (d # cs)
      else take_digits (if z = CHR ''0'' then 8 else 10) 0 (z # x # d # cs))"
| "strtoull0 (z # cs) = take_digits (if z = CHR ''0'' then 8 else 10) 0 (z # cs)"
| "strtoull0 [] = (0, [])"

lemma digit_char_value:
  assumes "d < 10"
  shows "digit_value (digit_char d) = Some d" and "10 \<le> base \<Longrightarrow> is_digit base (digit_char d)"
    and "digit_char d = CHR ''0'' \<longleftrightarrow> d = 0"
proof -
  have code: "(of_char (digit_char d) :: nat) = 48 + d" using assms by (simp add: digit_char_def)
  then show "digit_value (digit_char d) = Some d" using assms by (simp add: digit_value_def Let_def)
  then show "10 \<le> base \<Longrightarrow> is_digit base (digit_char d)" using assms by (simp add: is_digit_def)
  have "digit_char d = CHR ''0'' \<longleftrightarrow> (of_char (digit_char d) :: nat) = of_char (CHR ''0'')"
    by (simp only: of_char_eq_iff)
  then show "digit_char d = CHR ''0'' \<longleftrightarrow> d = 0" by (simp add: code)
qed

lemma take_digits_dec:
  "take_digits 10 acc (dec_string n @ cs) = take_digits 10 (acc * 10 ^ length (dec_string n) + n) cs"
proof (induction n arbitrary: acc cs rule: dec_string.induct)
  case (1 n)
  show ?case
  proof (cases "n < 10")
    case True
    then show ?thesis by (simp add: dec_string.simps [of n] digit_char_value)
  next
    case False
    have "n mod 10 < 10" by simp
    have "n div 10 * 10 + n mod 10 = n" by simp
    then show ?thesis
      using False 1 [OF False] by (simp add: dec_string.simps [of n] digit_char_value algebra_simps)
  qed
qed

lemma dec_string_not_Nil [simp]: "dec_string n \<noteq> []"
  by (simp add: dec_string.simps [of n])

lemma dec_string_hd:
  "is_digit 10 (hd (dec_string n)) \<and> (hd (dec_string n) = CHR ''0'' \<longleftrightarrow> n = 0)"
proof (induction n rule: dec_string.induct)
  case (1 n)
  then show ?case by (cases "n < 10") (auto simp: dec_string.simps [of n] digit_char_value hd_append)
qed

lemma strtoull0_decimal: "cs \<noteq> [] \<Longrightarrow> hd cs \<noteq> CHR ''0'' \<Longrightarrow> strtoull0 cs = take_digits 10 0 cs"
  by (cases cs rule: strtoull0.cases) (auto simp del: take_digits.simps)

lemma strtoull0_dec: "strtoull0 (dec_string n) = (n, [])"
proof (cases "n = 0")
  case True
  have "is_digit 8 (digit_char 0)" "digit_value (digit_char 0) = Some 0" "digit_char 0 = CHR ''0''"
    by (simp_all add: is_digit_def digit_char_value)
  then show ?thesis using True by (simp add: dec_string.simps [of 0])
next
  case False
  then show ?thesis using strtoull0_decimal [of "dec_string n"] dec_string_hd [of n] take_digits_dec [of 0 n "[]"] by simp
qed

end
