(* ===== verification/SpaceRun.thy ===== *)
theory SpaceRun
  imports SpaceSpec Digits
begin

text \<open>
  src/space_run.c and src/space_trace.c: repeated ticks under an optional limit, the parsing
  of that limit, and the two event logs.

  \<open>space_run\<close> without a limit may run for ever, so it is a partial function: \<open>None\<close> means
  that it does not return, \<open>Some None\<close> would be undefined behaviour inside a tick. With a
  limit it always returns (\<open>space_run_limited\<close>), with the result of \<open>spec_run\<close>, the same
  number of ticks of the bit machine.
\<close>

section \<open>The run loop\<close>

datatype space_stop = SPACE_STOP_IDLE | SPACE_STOP_LIMIT | SPACE_STOP_ERROR

record run_result =
  res_machine :: machine
  res_ticks :: nat
  res_reason :: space_stop
  res_log :: "(nat \<times> space_event) list"

definition uint64_max :: nat where
  "uint64_max = 2 ^ 64 - 1"

definition space_stop_name :: "space_stop \<Rightarrow> string" where
  "space_stop_name r = (case r of SPACE_STOP_IDLE \<Rightarrow> ''idle'' | SPACE_STOP_LIMIT \<Rightarrow> ''limit''
     | SPACE_STOP_ERROR \<Rightarrow> ''error'')"

text \<open>
  \<open>forward_event\<close> passes each event of a tick on with the tick's number: the log of the run
  is the events of the ticks so far, so labelled.
\<close>

definition forward_events :: "nat \<Rightarrow> space_event list \<Rightarrow> (nat \<times> space_event) list" where
  "forward_events tick evs = map (Pair tick) evs"

definition next_tick :: "nat \<Rightarrow> nat" where
  "next_tick ticks = (if ticks \<noteq> uint64_max then ticks + 1 else ticks)"

partial_function (option) run_loop ::
  "config \<Rightarrow> nat option \<Rightarrow> bool \<Rightarrow> machine \<Rightarrow> nat \<Rightarrow> (nat \<times> space_event) list \<Rightarrow> run_result option option"
where
  "run_loop cfg limit observe st ticks log =
     (if limit = Some ticks then
        (case space_active cfg st of
           None \<Rightarrow> Some None
         | Some (st, active) \<Rightarrow> Some (Some \<lparr>res_machine = st, res_ticks = ticks,
             res_reason = (if active then SPACE_STOP_LIMIT else SPACE_STOP_IDLE), res_log = log\<rparr>))
      else
        (case space_step cfg observe (st\<lparr>events := []\<rparr>) of
           None \<Rightarrow> Some None
         | Some (st, r) \<Rightarrow>
             (let log = log @ forward_events ticks (events st)
              in if r = SPACE_STEP_IDLE
                 then Some (Some \<lparr>res_machine = st, res_ticks = ticks, res_reason = SPACE_STOP_IDLE, res_log = log\<rparr>)
                 else if r = SPACE_STEP_ERROR
                 then Some (Some \<lparr>res_machine = st, res_ticks = ticks, res_reason = SPACE_STOP_ERROR, res_log = log\<rparr>)
                 else run_loop cfg limit observe st (next_tick ticks) log)))"

definition space_run :: "config \<Rightarrow> nat option \<Rightarrow> bool \<Rightarrow> machine \<Rightarrow> run_result option option" where
  "space_run cfg limit observe st =
     (case run_loop cfg limit observe st 0 [] of
        None \<Rightarrow> None
      | Some None \<Rightarrow> Some None
      | Some (Some res) \<Rightarrow> Some (map_option (\<lambda>st. res\<lparr>res_machine := st\<rparr>)
          (space_read_processor cfg (res_machine res))))"

section \<open>The run of the specification\<close>

definition bits_active :: "config \<Rightarrow> (nat \<Rightarrow> bool) \<Rightarrow> bool" where
  "bits_active cfg f \<longleftrightarrow> (\<exists>i < processor_n cfg. fld_n (decode cfg f i) \<noteq> 0)"

fun spec_run :: "config \<Rightarrow> nat \<Rightarrow> bit_machine \<Rightarrow> bit_machine \<times> nat \<times> space_stop" where
  "spec_run cfg 0 b = (b, 0, if bits_active cfg (bm_bits b) then SPACE_STOP_LIMIT else SPACE_STOP_IDLE)"
| "spec_run cfg (Suc n) b =
     (let (b', r) = spec_step cfg b
      in if r = SPACE_STEP_IDLE then (b', 0, SPACE_STOP_IDLE)
         else if r = SPACE_STEP_ERROR then (b', 0, SPACE_STOP_ERROR)
         else let (b'', t, reason) = spec_run cfg n b' in (b'', Suc t, reason))"

definition run_is :: "config \<Rightarrow> run_result \<Rightarrow> nat \<Rightarrow> bit_machine \<times> nat \<times> space_stop \<Rightarrow> bool" where
  "run_is cfg res ticks spec \<longleftrightarrow> machine_ok cfg (res_machine res) \<and>
     (case spec of (b, t, reason) \<Rightarrow>
        abs_of (res_machine res) = b \<and> res_ticks res = ticks + t \<and> res_reason res = reason)"

lemma machine_ok_events [simp]: "machine_ok cfg (st\<lparr>events := evs\<rparr>) = machine_ok cfg st"
  by (simp add: machine_ok_def)

lemma abs_of_events [simp]: "abs_of (st\<lparr>events := evs\<rparr>) = abs_of st"
  by (simp add: abs_of_def)

lemma run_loop_limited:
  assumes "machine_ok cfg st" and "ticks + n \<le> uint64_max"
  shows "\<exists>res. run_loop cfg (Some (ticks + n)) observe st ticks log = Some (Some res) \<and>
    run_is cfg res ticks (spec_run cfg n (abs_of st))"
  using assms
proof (induction n arbitrary: st ticks log)
  case 0
  then show ?case
    by (subst run_loop.simps)
      (simp add: space_active_decode run_is_def bits_active_def machine_okD(3) abs_of_def)
next
  case (Suc n)
  obtain st' r where step: "space_step cfg observe (st\<lparr>events := []\<rparr>) = Some (st', r)" "machine_ok cfg st'"
      "(abs_of st', r) = spec_step cfg (abs_of st)"
    using space_step_cases [of cfg "st\<lparr>events := []\<rparr>" observe] Suc.prems(1) by auto
  define log' where "log' = log @ forward_events ticks (events st')"
  have limit: "Some (ticks + Suc n) \<noteq> Some ticks" by simp
  have tick: "next_tick ticks = Suc ticks" using Suc.prems(2) by (simp add: next_tick_def)
  show ?case
  proof (cases "r = SPACE_STEP_DONE")
    case True
    have "run_loop cfg (Some (ticks + Suc n)) observe st ticks log
        = run_loop cfg (Some (Suc ticks + n)) observe st' (Suc ticks) log'"
      by (subst run_loop.simps) (simp add: step(1) True tick log'_def)
    moreover obtain res where res: "run_loop cfg (Some (Suc ticks + n)) observe st' (Suc ticks) log' = Some (Some res)"
        "run_is cfg res (Suc ticks) (spec_run cfg n (abs_of st'))"
      using Suc.IH [OF step(2), of "Suc ticks" log'] Suc.prems(2) by auto
    moreover have "run_is cfg res ticks (spec_run cfg (Suc n) (abs_of st))"
      using res(2) True by (auto simp: run_is_def simp flip: step(3) split: prod.splits)
    ultimately show ?thesis by auto
  next
    case False
    then show ?thesis
      by (cases r; subst run_loop.simps)
        (simp_all add: step(1,2) run_is_def flip: step(3))
  qed
qed

lemma space_run_limited_spec:
  assumes "machine_ok cfg st" and "n \<le> uint64_max"
  shows "\<exists>res. space_run cfg (Some n) observe st = Some (Some res) \<and>
    run_is cfg res 0 (spec_run cfg n (abs_of st))"
proof -
  obtain res where res: "run_loop cfg (Some n) observe st 0 [] = Some (Some res)"
      "run_is cfg res 0 (spec_run cfg n (abs_of st))"
    using run_loop_limited [OF assms(1), of 0 n observe "[]"] assms(2) by auto
  have ok: "machine_ok cfg (res_machine res)" using res(2) by (simp add: run_is_def)
  show ?thesis
    using res ok machine_okD(3) [OF ok]
    by (auto simp: space_run_def space_read_processor_decode [OF ok] run_is_def abs_of_def split: prod.splits)
qed

lemma spec_step_idle_iff: "snd (spec_step cfg b) = SPACE_STEP_IDLE \<longleftrightarrow> \<not> bits_active cfg (bm_bits b)"
  by (auto simp: spec_step_def bits_active_def Let_def split: prod.splits)

lemma spec_step_idle_same: "spec_step cfg b = (b', SPACE_STEP_IDLE) \<Longrightarrow> b' = b"
  by (auto simp: spec_step_def Let_def split: prod.splits if_splits)

text \<open>A run stopped by its limit is resumed by another run.\<close>

lemma spec_run_add:
  "spec_run cfg (m + n) b =
     (let (b1, t1, reason) = spec_run cfg m b
      in if reason = SPACE_STOP_LIMIT
         then let (b2, t2, reason2) = spec_run cfg n b1 in (b2, t1 + t2, reason2)
         else (b1, t1, reason))"
proof (induction m arbitrary: b)
  case 0
  show ?case
  proof (cases "bits_active cfg (bm_bits b)")
    case True
    then show ?thesis by (auto simp: Let_def split: prod.splits)
  next
    case False
    then have "spec_step cfg b = (b, SPACE_STEP_IDLE)"
      using spec_step_idle_iff [of cfg b] spec_step_idle_same [of cfg b] by (cases "spec_step cfg b") auto
    then show ?thesis using False by (cases n) simp_all
  qed
next
  case (Suc m)
  show ?case
    by (cases "spec_step cfg b"; cases "snd (spec_step cfg b)")
      (auto simp: Suc.IH Let_def split: prod.splits)
qed

lemma spec_run_bound: "spec_run cfg n b = (b', t, reason) \<Longrightarrow> t \<le> n \<and> (reason = SPACE_STOP_LIMIT \<longrightarrow> t = n)"
proof (induction n arbitrary: b b' t reason)
  case (Suc n)
  then show ?case by (auto simp: Let_def split: prod.splits if_splits)
qed (auto split: if_splits)

lemma spec_run_reason:
  "spec_run cfg n b = (b', t, reason) \<Longrightarrow>
    (reason = SPACE_STOP_IDLE \<longrightarrow> \<not> bits_active cfg (bm_bits b')) \<and>
    (reason = SPACE_STOP_LIMIT \<longrightarrow> bits_active cfg (bm_bits b'))"
proof (induction n arbitrary: b b' t reason)
  case (Suc n)
  obtain b1 r where step: "spec_step cfg b = (b1, r)" by force
  then show ?case
    using Suc.prems Suc.IH spec_step_idle_iff [of cfg b] spec_step_idle_same [of cfg b b1]
    by (cases r) (auto simp: Let_def split: prod.splits)
qed (auto split: if_splits)

section \<open>The tick limit on the command line\<close>

text \<open>The parser of \<open>--ticks\<close>; a return value of -1 is \<open>None\<close>.\<close>

definition space_parse_ticks :: "string \<Rightarrow> nat option" where
  "space_parse_ticks text =
     (if text = [] \<or> \<not> is_digit 10 (hd text) then None
      else let (v, rest) = strtoull0 text
           in if v > uint64_max \<or> rest \<noteq> [] then None else Some v)"

section \<open>Event logs\<close>

definition trace_line :: "nat \<Rightarrow> space_event \<Rightarrow> string" where
  "trace_line tick ev =
     (if ev_channel ev
      then ''channel '' @ dec_string tick @ '' '' @ dec_string (ev_slot ev) @ '' '' @ dec_string (ev_n ev) @ '' ''
        @ dec_string (ev_dst ev) @ '' '' @ dec_string (ev_copied ev) @ '' '' @ dec_string (of_bool (ev_error ev))
      else ''copy '' @ dec_string tick @ '' '' @ dec_string (ev_slot ev) @ '' '' @ dec_string (ev_n ev) @ '' ''
        @ dec_string (ev_dst ev) @ '' '' @ dec_string (ev_src ev)) @ [CHR 0x0A]"

text \<open>\<open>space_trace_event\<close> appends a line to the file; the channel trace counts the copies instead.\<close>

definition space_trace_event :: "nat \<Rightarrow> space_event \<Rightarrow> string \<Rightarrow> string" where
  "space_trace_event tick ev file = file @ trace_line tick ev"

record space_channel_trace =
  tr_file :: string
  tr_copies :: u64
  tr_channels :: u64

definition space_trace_channel_event :: "nat \<Rightarrow> space_event \<Rightarrow> space_channel_trace \<Rightarrow> space_channel_trace" where
  "space_trace_channel_event tick ev tr =
     (if ev_channel ev
      then tr\<lparr>tr_channels := tr_channels tr + 1, tr_file := space_trace_event tick ev (tr_file tr)\<rparr>
      else tr\<lparr>tr_copies := tr_copies tr + 1\<rparr>)"

lemma channel_trace_fold:
  "fold (\<lambda>x. space_trace_channel_event (fst x) (snd x)) log tr =
     \<lparr>tr_file = tr_file tr @ concat (map (\<lambda>x. trace_line (fst x) (snd x)) (filter (\<lambda>x. ev_channel (snd x)) log)),
      tr_copies = tr_copies tr + of_nat (length (filter (\<lambda>x. \<not> ev_channel (snd x)) log)),
      tr_channels = tr_channels tr + of_nat (length (filter (\<lambda>x. ev_channel (snd x)) log))\<rparr>"
  by (induction log arbitrary: tr)
    (simp_all add: space_trace_channel_event_def space_trace_event_def)

section \<open>Properties\<close>

text \<open>
  C12. A run under a limit always returns, is free of undefined behaviour, and is that many
  ticks of the specification: it ends in the bits and streams, the tick count and the
  reason that \<open>spec_run\<close> computes, having made at most as many ticks as the limit allows.
\<close>

theorem space_run_limited:
  assumes "machine_ok cfg st" and "n \<le> uint64_max"
  shows "\<exists>res. space_run cfg (Some n) observe st = Some (Some res) \<and> machine_ok cfg (res_machine res) \<and>
    (abs_of (res_machine res), res_ticks res, res_reason res) = spec_run cfg n (abs_of st) \<and> res_ticks res \<le> n"
  using space_run_limited_spec [OF assms, of observe] spec_run_bound [of cfg n "abs_of st"]
  by (cases "spec_run cfg n (abs_of st)") (auto simp: run_is_def)

lemma space_run_limited_witness:
  "\<exists>res. space_run demo_config (Some 5) True demo_machine = Some (Some res) \<and>
    machine_ok demo_config (res_machine res) \<and>
    (abs_of (res_machine res), res_ticks res, res_reason res) = spec_run demo_config 5 (abs_of demo_machine) \<and>
    res_ticks res \<le> 5"
  by (rule space_run_limited [OF demo_machine_ok]) (simp add: uint64_max_def)

text \<open>
  A run that its limit stopped is continued by a second run: the two together end as one
  run under the sum of the limits.
\<close>

theorem space_run_resume:
  assumes "machine_ok cfg st" and "m + n \<le> uint64_max"
    and "space_run cfg (Some m) observe st = Some (Some r1)" and "res_reason r1 = SPACE_STOP_LIMIT"
    and "space_run cfg (Some n) observe (res_machine r1) = Some (Some r2)"
    and "space_run cfg (Some (m + n)) observe st = Some (Some r)"
  shows "abs_of (res_machine r) = abs_of (res_machine r2) \<and> res_reason r = res_reason r2 \<and>
    res_ticks r = res_ticks r1 + res_ticks r2"
proof -
  have r1: "machine_ok cfg (res_machine r1)"
      "spec_run cfg m (abs_of st) = (abs_of (res_machine r1), res_ticks r1, SPACE_STOP_LIMIT)"
    using space_run_limited_spec [OF assms(1), of m observe] assms(2-4)
    by (auto simp: run_is_def split: prod.splits)
  have "spec_run cfg n (abs_of (res_machine r1)) = (abs_of (res_machine r2), res_ticks r2, res_reason r2)"
    using space_run_limited_spec [OF r1(1), of n observe] assms(2,5)
    by (auto simp: run_is_def split: prod.splits)
  moreover have "spec_run cfg (m + n) (abs_of st) = (abs_of (res_machine r), res_ticks r, res_reason r)"
    using space_run_limited_spec [OF assms(1,2), of observe] assms(6)
    by (auto simp: run_is_def split: prod.splits)
  ultimately show ?thesis using r1(2) by (simp add: spec_run_add)
qed

lemma demo_active: "bits_active demo_config (bm_bits (abs_of demo_machine))"
proof -
  obtain st' where "space_step demo_config True demo_machine = Some (st', SPACE_STEP_DONE)"
    using demo_step by auto
  then have "snd (spec_step demo_config (abs_of demo_machine)) = SPACE_STEP_DONE"
    using space_step_refines_spec [OF demo_machine_ok, of True] by (auto dest: arg_cong [where f = snd])
  then show ?thesis using spec_step_idle_iff [of demo_config "abs_of demo_machine"] by auto
qed

text \<open>The demonstration machine, started and stopped by the limit 0.\<close>

lemma demo_run_0:
  obtains r where "space_run demo_config (Some 0) False demo_machine = Some (Some r)"
    and "res_reason r = SPACE_STOP_LIMIT" and "machine_ok demo_config (res_machine r)"
  using space_run_limited_spec [OF demo_machine_ok, of 0 False] demo_active by (auto simp: run_is_def)

lemma space_run_resume_witness:
  "\<exists>r1 r2 r. space_run demo_config (Some 0) False demo_machine = Some (Some r1) \<and>
    res_reason r1 = SPACE_STOP_LIMIT \<and>
    space_run demo_config (Some 3) False (res_machine r1) = Some (Some r2) \<and>
    space_run demo_config (Some (0 + 3)) False demo_machine = Some (Some r) \<and>
    abs_of (res_machine r) = abs_of (res_machine r2) \<and> res_reason r = res_reason r2 \<and>
    res_ticks r = res_ticks r1 + res_ticks r2"
proof -
  obtain r1 where r1: "space_run demo_config (Some 0) False demo_machine = Some (Some r1)"
      "res_reason r1 = SPACE_STOP_LIMIT" "machine_ok demo_config (res_machine r1)"
    by (rule demo_run_0)
  obtain r2 where r2: "space_run demo_config (Some 3) False (res_machine r1) = Some (Some r2)"
    using space_run_limited_spec [OF r1(3), of 3 False] by (auto simp: uint64_max_def)
  obtain r where r: "space_run demo_config (Some (0 + 3)) False demo_machine = Some (Some r)"
    using space_run_limited_spec [OF demo_machine_ok, of "0 + 3" False] by (auto simp: uint64_max_def)
  have "(0 :: nat) + 3 \<le> uint64_max" by (simp add: uint64_max_def)
  from space_run_resume [OF demo_machine_ok this r1(1,2) r2 r] show ?thesis using r1 r2 r by blast
qed

text \<open>
  The reported reason is true of the final state: \<open>limit\<close> means that the limit was used
  up and the processor still holds a copy, \<open>idle\<close> that it holds none, also when the limit
  was reached in the same moment.
\<close>

theorem space_run_reason:
  assumes "machine_ok cfg st" and "n \<le> uint64_max" and "space_run cfg (Some n) observe st = Some (Some res)"
  shows "(res_reason res = SPACE_STOP_LIMIT \<longrightarrow> res_ticks res = n \<and> bits_active cfg (bit_at (space (res_machine res)))) \<and>
    (res_reason res = SPACE_STOP_IDLE \<longrightarrow> \<not> bits_active cfg (bit_at (space (res_machine res))))"
proof -
  have "spec_run cfg n (abs_of st) = (abs_of (res_machine res), res_ticks res, res_reason res)"
    using space_run_limited_spec [OF assms(1,2), of observe] assms(3)
    by (auto simp: run_is_def split: prod.splits)
  from spec_run_bound [OF this] spec_run_reason [OF this] show ?thesis by (simp add: abs_of_def)
qed

lemma space_run_reason_witness:
  "\<exists>res. space_run demo_config (Some 0) False demo_machine = Some (Some res) \<and>
    res_ticks res = 0 \<and> bits_active demo_config (bit_at (space (res_machine res)))"
proof -
  obtain r where r: "space_run demo_config (Some 0) False demo_machine = Some (Some r)"
      "res_reason r = SPACE_STOP_LIMIT"
    by (rule demo_run_0)
  show ?thesis using space_run_reason [OF demo_machine_ok _ r(1)] r by auto
qed

text \<open>
  Every tick count that the program can hold is accepted in decimal and read as itself.
\<close>

theorem parse_ticks_decimal:
  assumes "n \<le> uint64_max"
  shows "space_parse_ticks (dec_string n) = Some n"
  using assms dec_string_hd [of n] by (simp add: space_parse_ticks_def strtoull0_dec)

lemma parse_ticks_decimal_witness:
  "space_parse_ticks (dec_string 18446744073709551615) = Some 18446744073709551615"
  by (rule parse_ticks_decimal) (simp add: uint64_max_def)

text \<open>
  The channel trace of a log: its file holds the lines of the channel events, in order
  and as the full trace writes them, and its counters hold the numbers of copies and of
  channel transfers, modulo \<open>2 ^ 64\<close>.
\<close>

theorem channel_trace_counts:
  "fold (\<lambda>x. space_trace_channel_event (fst x) (snd x)) log \<lparr>tr_file = f, tr_copies = 0, tr_channels = 0\<rparr> =
     \<lparr>tr_file = fold (\<lambda>x. space_trace_event (fst x) (snd x)) (filter (\<lambda>x. ev_channel (snd x)) log) f,
      tr_copies = of_nat (length (filter (\<lambda>x. \<not> ev_channel (snd x)) log)),
      tr_channels = of_nat (length (filter (\<lambda>x. ev_channel (snd x)) log))\<rparr>"
proof -
  have "fold (\<lambda>x. space_trace_event (fst x) (snd x)) evs f
      = f @ concat (map (\<lambda>x. trace_line (fst x) (snd x)) evs)" for evs
    by (induction evs arbitrary: f) (simp_all add: space_trace_event_def)
  then show ?thesis by (simp add: channel_trace_fold)
qed

end
