(* ===== verification/CopyRuns.thy ===== *)
theory CopyRuns
  imports CopyProgram SpaceRun
begin

text \<open>
  Generated programs in the emulator: what \<open>cs_copy_program_finish\<close> leaves in the image, and
  the run of the finished image by \<open>space_init\<close> and \<open>space_run\<close>. The active layer holds
  only the boot row at first; one tick loads the first layer of the program, the next tick
  executes it and loads the zero layer, which leaves the machine idle.
\<close>

section \<open>One tick executes one layer\<close>

lemma exec_slots_nops:
  "(\<And>i. i \<in> set slots \<Longrightarrow> fld_n (decode cfg f i) = 0) \<Longrightarrow> exec_slots cfg slots f = (f, True)"
  by (induction slots) simp_all

lemma exec_slots_nop_range:
  "(\<And>i. a \<le> i \<Longrightarrow> i < c \<Longrightarrow> fld_n (decode cfg f i) = 0) \<Longrightarrow> exec_slots cfg [a..<c] f = (f, True)"
  by (rule exec_slots_nops) simp

lemma copy_slots_256: "copy_slots 0 256 = 0 # [3..<255] @ [255]"
proof -
  have "[0..<256] = 0 # 1 # 2 # [3..<255] @ [255]"
    by (simp add: upt_conv_Cons numeral_2_eq_2 numeral_3_eq_3 flip: upt_Suc_append)
  then show ?thesis by (simp add: copy_slots_def del: upt_Suc)
qed

lemma layer_tick:
  assumes N: "processor_n cfg = 256"
    and zero: "fld_n (decode cfg f 0) = 0" "fld_n (decode cfg f 1) = 0" "fld_n (decode cfg f 2) = 0"
    and body: "exec_slots cfg [3..<255] f = (g, True)"
    and jump: "decode cfg f 255 = row n 0 t" "decode cfg g 255 = row n 0 t" "0 < n"
      "n \<le> space_size cfg" "t + n \<le> space_size cfg"
    and bits: "bm_bits b = f"
  shows "spec_step cfg b = (b\<lparr>bm_bits := blit n t 0 g g\<rparr>, SPACE_STEP_DONE)"
proof -
  have "255 < processor_n cfg" by (simp add: N)
  moreover have "fld_n (decode cfg f 255) \<noteq> 0" using jump(1,3) by simp
  ultimately have "\<exists>i < processor_n cfg. fld_n (decode cfg f i) \<noteq> 0" by (intro exI [of _ 255] conjI)
  then have active: "\<not> (\<forall>i < processor_n cfg. fld_n (decode cfg (bm_bits b) i) = 0)" by (simp add: bits)
  have chan: "spec_channel cfg (decode cfg f 1) 1 False (spec_channel cfg (decode cfg f 2) 2 True b) = b"
    using zero by (simp add: spec_channel_def)
  have "exec_slots cfg [255] g = (blit n t 0 g g, True)"
    using exec_row [OF jump(2,3), of "[]"] jump(4,5) by simp
  then have "exec_slots cfg ([3..<255] @ [255]) f = (blit n t 0 g g, True)"
    by (simp only: exec_slots_append body Let_def prod.case if_True)
  then have "exec_slots cfg (copy_slots 0 (processor_n cfg)) f = (blit n t 0 g g, True)"
    unfolding N copy_slots_256 by (simp only: exec_slots.simps zero(1) Let_def if_True simp_thms)
  then show ?thesis using active chan by (simp add: spec_step_def bits Let_def)
qed

section \<open>Finishing a program\<close>

lemma decode_zero:
  assumes "\<And>p. i * instruction_size cfg \<le> p \<Longrightarrow> p < Suc i * instruction_size cfg \<Longrightarrow> \<not> f p"
    and "n_size cfg \<le> 32"
  shows "fld_n (decode cfg f i) = 0"
proof -
  have "i * instruction_size cfg + n_size cfg \<le> Suc i * instruction_size cfg"
    by (simp add: instruction_size_split)
  then have "field_value f (i * instruction_size cfg) (n_size cfg) = 0"
    using assms by (intro field_valueI) auto
  then show ?thesis by (simp add: decode_def)
qed

text \<open>What a successful \<open>cs_copy_program_finish\<close> leaves behind.\<close>

definition boot_row :: "cs_copy_program \<Rightarrow> mem \<Rightarrow> nat \<Rightarrow> instruction" where
  "boot_row pr m i = decode (img_config (pr_image pr)) (bit_at m) i"

text \<open>The zero layer that the program ends in: where it may lie, and that it is empty.\<close>

definition zero_layer_ok :: "cs_copy_program \<Rightarrow> mem \<Rightarrow> nat \<Rightarrow> bool" where
  "zero_layer_ok pr m z \<longleftrightarrow> z mod 8 = 0 \<and> z + layer_size pr \<le> 8 * length m \<and> layer_size pr \<le> z \<and>
     apart z (layer_size pr) (code_begin pr) (code_limit pr - code_begin pr) \<and>
     (\<forall>p. z \<le> p \<and> p < z + layer_size pr \<longrightarrow> \<not> bit_at m p)"

lemma zero_bytes:
  assumes "at mod 8 = 0" and "n mod 8 = 0" and "at + n \<le> 8 * length m"
  shows "list_ex (\<lambda>i. m ! (at div 8 + i) \<noteq> 0) [0..<n div 8] \<longleftrightarrow> (\<exists>p. at \<le> p \<and> p < at + n \<and> bit_at m p)"
proof -
  obtain A N where A: "at = 8 * A" and N: "n = 8 * N" using assms(1,2) by (auto simp: mod_eq_0_iff_dvd dvd_def)
  have len: "A + N \<le> length m" using assms(3) by (simp add: A N)
  have "(\<exists>p. 8 * A \<le> p \<and> p < 8 * A + 8 * N \<and> bit_at m p)" if i: "i < N" "m ! (A + i) \<noteq> 0" for i
  proof -
    obtain k where k: "k < 8" "bit (m ! (A + i)) k"
      using i(2) bit_word_eqI [of "m ! (A + i)" 0] by auto
    have "A + i < length m" using i(1) len by simp
    moreover have "7 - (7 - k) = k" "7 - k < 8" using k(1) by simp_all
    ultimately have "bit_at m (8 * (A + i) + (7 - k))" using bit_at_byte [of "A + i" m "7 - k"] k(2) by simp
    moreover have "8 * A \<le> 8 * (A + i) + (7 - k)" "8 * (A + i) + (7 - k) < 8 * A + 8 * N"
      using i(1) by arith+
    ultimately show ?thesis by blast
  qed
  moreover have "\<exists>i < N. m ! (A + i) \<noteq> 0" if "8 * A \<le> p" "p < 8 * A + 8 * N" "bit_at m p" for p
  proof -
    have "m ! (A + (p div 8 - A)) \<noteq> 0" using that(1,3) by (auto simp: bit_at_def)
    moreover have "p div 8 - A < N" using that(1,2) by arith
    ultimately show ?thesis by blast
  qed
  ultimately have "(\<exists>i < N. m ! (A + i) \<noteq> 0) \<longleftrightarrow> (\<exists>p. 8 * A \<le> p \<and> p < 8 * A + 8 * N \<and> bit_at m p)"
    by blast
  then show ?thesis by (simp add: list_ex_iff A N Bex_def)
qed

lemma finish_cases:
  assumes ok: "program_ok pr m"
  shows "if zero_layer_ok pr m z then
      (\<exists>m'. cs_copy_program_finish z (pr, m) = Some ((pr, m'), 0) \<and> length m' = length m \<and>
        (\<forall>p < 255 * im_instruction_bits (pr_image pr). \<not> bit_at m' p) \<and>
        boot_row pr m' 255 = row (layer_size pr) 0 (code_begin pr) \<and>
        jump_row pr m' (im_layer (pr_image pr)) = row (layer_size pr) 0 z \<and>
        (\<forall>p. layer_size pr \<le> p \<and> (p < im_layer (pr_image pr) + 255 * im_instruction_bits (pr_image pr) \<or>
          code_end pr \<le> p) \<longrightarrow> bit_at m' p = bit_at m p))
    else cs_copy_program_finish z (pr, m) = Some ((pr, m), -1)"
proof -
  note P = program_okD [OF ok] and I = image_okD [OF program_okD(1) [OF ok]]
  define img where "img = pr_image pr"
  define LB where "LB = layer_size pr"
  have LB: "LB = im_layer_bits img" "8 \<le> LB" "LB mod 8 = 0" "LB = 256 * im_instruction_bits img"
    using layer_size_pos [OF P(1)] I(4) by (simp_all add: LB_def img_def)
  let ?reject = "z AND 7 \<noteq> 0 \<or> \<not> fits z LB (im_bytes img * 8) \<or> overlaps z LB 0 LB \<or>
      overlaps z LB (code_begin pr) (code_limit pr - code_begin pr)"
  let ?dirty = "list_ex (\<lambda>i. m ! (z div 8 + i) \<noteq> 0) [0..<LB div 8]"
  have code: "cs_copy_program_finish z (pr, m) =
      (if ?reject then Some ((pr, m), -1)
       else if z div 8 + LB div 8 > length m then None
       else if ?dirty then Some ((pr, m), -1)
       else do {
          (m, boot) \<leftarrow> cs_copy_image_init (im_bytes img) (im_address_bits img) 0 m;
          case boot of
            None \<Rightarrow> Some ((pr, m), -1)
          | Some boot \<Rightarrow> do {
              (m, rc) \<leftarrow> cs_copy_row img 255 LB 0 z m;
              (m, rc) \<leftarrow> cs_copy_row boot 255 (im_layer_bits boot) 0 (code_begin pr) m;
              Some ((pr, m), rc)
            }
        })"
    by (simp add: cs_copy_program_finish_def Let_def img_def LB_def)
  have S: "im_space_bits img < 2 ^ 32" "8 * length m \<le> im_space_bits img" "im_bytes img = length m"
    using I(5,7,12) by (simp_all add: img_def)
  have place: "?reject \<longleftrightarrow> \<not> (z mod 8 = 0 \<and> z + LB \<le> 8 * length m \<and> LB \<le> z \<and>
      apart z LB (code_begin pr) (code_limit pr - code_begin pr))"
  proof (cases "z mod 8 = 0 \<and> z + LB \<le> 8 * length m")
    case True
    have "overlaps z LB 0 LB \<longleftrightarrow> \<not> LB \<le> z"
      using True S LB(2) by (auto simp: overlaps_def)
    moreover have "overlaps z LB (code_begin pr) (code_limit pr - code_begin pr) \<longleftrightarrow>
        \<not> apart z LB (code_begin pr) (code_limit pr - code_begin pr)"
      using True S P(2,5,6,9) by (auto simp: overlaps_def apart_def)
    ultimately show ?thesis using True S(3) by (auto simp: fits_def and_7_zero)
  next
    case False
    then show ?thesis using S(3) by (auto simp: fits_def and_7_zero)
  qed
  show ?thesis
  proof (cases "zero_layer_ok pr m z")
    case False
    have "cs_copy_program_finish z (pr, m) = Some ((pr, m), -1)"
    proof (cases ?reject)
      case good: False
      then have "z mod 8 = 0" "z + LB \<le> 8 * length m" using place by simp_all
      then have "\<not> z div 8 + LB div 8 > length m" ?dirty
        using False good place zero_bytes [of z LB m] LB(3) by (auto simp: zero_layer_ok_def LB_def)
      then show ?thesis unfolding code if_not_P [OF good] by simp
    qed (simp add: code)
    then show ?thesis using False by simp
  next
    case True
    then have z: "z mod 8 = 0" "z + LB \<le> 8 * length m" "LB \<le> z" "apart z LB (code_begin pr) (code_limit pr - code_begin pr)"
      and clean: "\<And>p. z \<le> p \<Longrightarrow> p < z + LB \<Longrightarrow> \<not> bit_at m p"
      by (simp_all add: zero_layer_ok_def LB_def)
    have good: "\<not> ?reject" "\<not> z div 8 + LB div 8 > length m" "\<not> ?dirty"
      using place z clean zero_bytes [of z LB m] LB(3) by auto
    define ab where "ab = im_address_bits img"
    have ab: "2 \<le> ab" "ab \<le> 31" "LB = 256 * (3 * ab - 1)" "length m * 8 \<le> 2 ^ ab"
      using image_address_bits [OF P(1)] I(1,3,4,7,11) by (simp_all add: ab_def LB_def img_def mult.commute)
    have "8 * length m \<le> 2 ^ 31" using S(2) I(12) by (simp add: img_def)
    then have bytes: "length m \<le> uint32_max div 8" by (simp add: uint32_max_def)
    define boot where "boot = fresh_image (length m) ab 0"
    have "LB \<le> length m * 8" using z(2,3) by simp
    then obtain m1 where m1: "cs_copy_image_init (length m) ab 0 m = Some (m1, Some boot)" "length m1 = length m"
        "image_ok boot m1" "\<forall>p. bit_at m1 p = (if p < LB then False else bit_at m p)"
      using image_init_spec [of ab "length m" m 0] ab bytes by (auto simp: boot_def)
    have chain1: "chained pr m1"
      by (rule chained_cong [OF P(1,8,10)]) (use m1(4) P(3) in \<open>auto simp: LB_def\<close>)
    have ok1: "program_ok pr m1" by (rule program_ok_bits [OF m1(2) chain1 ok])
    obtain k where k: "im_layer img = layer_at pr k" using P(10) by (auto simp: img_def)
    have lt: "im_layer img < code_end pr" using P(2) LB(2) by (simp add: img_def LB_def)
    have sp: "z + layer_size pr \<le> im_space_bits (pr_image pr)" using z(2) S(2) by (simp add: img_def LB_def)
    from set_jump [OF ok1 k lt sp] obtain m2 where m2: "cs_copy_row img 255 LB 0 z m1 = Some (m2, 0)" "length m2 = length m"
        "jump_row pr m2 (im_layer img) = row LB 0 z"
        "\<And>p. p < im_layer img + 255 * im_instruction_bits img \<or> im_layer img + LB \<le> p \<Longrightarrow> bit_at m2 p = bit_at m1 p"
      using m1(2) by (auto simp: img_def LB_def)
    have boot: "im_layer_bits boot = LB" "im_layer boot = 0" "im_count_bits boot = im_count_bits img"
      "im_space_bits boot = im_space_bits img" "im_instruction_bits boot = im_instruction_bits img"
      "img_config boot = img_config img"
      using ab(3) I(1,2,3) by (simp_all add: boot_def fresh_image_def img_config_def ab_def img_def)
    have "code_begin pr + LB \<le> im_space_bits img"
      using P(2,5,6,9) S(2) by (simp add: LB_def)
    then have valid: "row_valid boot 255 LB 0 (code_begin pr)"
      using P(7) LB(2) by (auto simp: row_valid_def fits_def boot LB_def img_def)
    have okb: "image_ok boot m2" using m1(2,3) m2(2) by (simp add: image_ok_def)
    obtain m3 where m3: "cs_copy_row boot 255 LB 0 (code_begin pr) m2 = Some (m3, 0)" "length m3 = length m2"
        "layer_row boot m3 255 = row LB 0 (code_begin pr)"
        "\<And>p. p < 255 * im_instruction_bits img \<or> LB \<le> p \<Longrightarrow> bit_at m3 p = bit_at m2 p"
      using cs_copy_row_spec [OF okb valid] LB(4) by (auto simp: boot)
    have "cs_copy_program_finish z (pr, m) = Some ((pr, m3), 0)"
      unfolding code if_not_P [OF good(1)] if_not_P [OF good(2)] if_not_P [OF good(3)]
      using m1(1) m2(1) m3(1) by (simp add: ab_def boot(1) S(3))
    moreover have below: "LB \<le> im_layer img" "LB \<le> code_begin pr" using P(3,9) by (simp_all add: img_def LB_def)
    have small: "255 * im_instruction_bits img \<le> LB" using LB(4) by simp
    have "\<forall>p < 255 * im_instruction_bits (pr_image pr). \<not> bit_at m3 p"
      using m1(4) m2(4) m3(4) below small by (auto simp: img_def)
    moreover have "boot_row pr m3 255 = row (layer_size pr) 0 (code_begin pr)"
      using m3(3) by (simp add: boot_row_def layer_row_def boot LB_def img_def)
    moreover have "jump_row pr m3 (im_layer img) = jump_row pr m2 (im_layer img)"
      unfolding jump_row_def by (rule layer_row_cong [of _ m])
        (use P(1) m3(4) below in \<open>auto simp: image_ok_def img_def\<close>)
    then have "jump_row pr m3 (im_layer (pr_image pr)) = row (layer_size pr) 0 z"
      using m2(3) by (simp add: img_def LB_def)
    moreover have "\<forall>p. layer_size pr \<le> p \<and> (p < im_layer (pr_image pr) + 255 * im_instruction_bits (pr_image pr) \<or>
        code_end pr \<le> p) \<longrightarrow> bit_at m3 p = bit_at m p"
      using m1(4) m2(4) m3(4) P(2) by (auto simp: img_def LB_def)
    ultimately show ?thesis using True m3(2) m2(2) by (intro if_P [THEN iffD2]) auto
  qed
qed

lemma finish_spec:
  assumes ok: "program_ok pr m" and run: "cs_copy_program_finish z (pr, m) = Some ((pr', m'), 0)"
  shows "pr' = pr" and "length m' = length m" and "z mod 8 = 0" and "z + layer_size pr \<le> 8 * length m"
    and "layer_size pr \<le> z" and "apart z (layer_size pr) (code_begin pr) (code_limit pr - code_begin pr)"
    and "\<forall>p. z \<le> p \<and> p < z + layer_size pr \<longrightarrow> \<not> bit_at m p"
    and "\<forall>p < 255 * im_instruction_bits (pr_image pr). \<not> bit_at m' p"
    and "boot_row pr m' 255 = row (layer_size pr) 0 (code_begin pr)"
    and "jump_row pr m' (im_layer (pr_image pr)) = row (layer_size pr) 0 z"
    and "\<forall>p. layer_size pr \<le> p \<and> (p < im_layer (pr_image pr) + 255 * im_instruction_bits (pr_image pr) \<or>
      code_end pr \<le> p) \<longrightarrow> bit_at m' p = bit_at m p"
  using finish_cases [OF ok, of z] run by (auto simp: zero_layer_ok_def split: if_splits)

section \<open>From the generator to the emulator\<close>

lemma row_below: "p < Suc i * ib \<Longrightarrow> Suc i \<le> n \<Longrightarrow> p < n * ib" for p :: nat
  by (rule less_le_trans [OF _ mult_le_mono1])

lemma spec_run_idle: "\<not> bits_active cfg (bm_bits b) \<Longrightarrow> spec_run cfg n b = (b, 0, SPACE_STOP_IDLE)"
proof (cases n)
  case (Suc k)
  assume idle: "\<not> bits_active cfg (bm_bits b)"
  obtain b' r where "spec_step cfg b = (b', r)" by force
  then show ?thesis using Suc idle spec_step_idle_iff [of cfg b] spec_step_idle_same [of cfg b b'] by simp
qed simp

text \<open>A fresh program takes an arithmetic operation into its first layer.\<close>

lemma fresh_arith:
  assumes ok: "program_ok pr m" and slot: "im_slot (pr_image pr) = 3"
    and run: "program_arithmetic32 subtract dst l r table temp carry (pr, m) = Some ((pr', m'), 0)"
  shows "\<not> hits_code pr [dst, l, r, table, temp, carry] [32, 32, 32, 16, 2, 1]"
    and "add_valid (pr_image pr) dst l r table temp carry"
    and "arithmetic32 subtract dst l r table temp carry (pr_image pr, m) = Some ((at_slot (pr_image pr) 193, m'), 0)"
    and "pr' = pr\<lparr>pr_image := at_slot (pr_image pr) 193\<rparr>"
proof -
  have "(pr_image pr)\<lparr>im_slot := im_slot (pr_image pr)\<rparr> = pr_image pr" by simp
  then have probe: "(pr_image pr)\<lparr>im_slot := 3\<rparr> = pr_image pr" unfolding slot .
  have code: "program_arithmetic32 subtract dst l r table temp carry (pr, m) =
      (if hits_code pr [dst, l, r, table, temp, carry] [32, 32, 32, 16, 2, 1] \<or>
          \<not> add_valid (pr_image pr) dst l r table temp carry then Some ((pr, m), -1)
       else do {
         ((img, m), rc) \<leftarrow> arithmetic32 subtract dst l r table temp carry (pr_image pr, m);
         Some ((pr\<lparr>pr_image := img\<rparr>, m), rc) })"
    using slot by (simp add: program_arithmetic32_def room_def probe)
  show hits: "\<not> hits_code pr [dst, l, r, table, temp, carry] [32, 32, 32, 16, 2, 1]"
    and valid: "add_valid (pr_image pr) dst l r table temp carry"
    using run unfolding code by (auto split: if_splits)
  obtain m1 where m1: "arithmetic32 subtract dst l r table temp carry (pr_image pr, m)
      = Some ((at_slot (pr_image pr) 193, m1), 0)"
    using arithmetic32_emits [OF program_okD(1) [OF ok] valid] by blast
  then have "pr' = pr\<lparr>pr_image := at_slot (pr_image pr) 193\<rparr> \<and> m' = m1"
    using run hits valid unfolding code by simp
  then show "arithmetic32 subtract dst l r table temp carry (pr_image pr, m) = Some ((at_slot (pr_image pr) 193, m'), 0)"
    and "pr' = pr\<lparr>pr_image := at_slot (pr_image pr) 193\<rparr>" using m1 by simp_all
qed

text \<open>
  The two ticks of the finished one-layer program, over the bit machine: \<open>F\<close> is the image,
  \<open>pr\<close> the program before the arithmetic was emitted.
\<close>

lemma two_ticks:
  assumes ok: "image_ok img m1"
    and N: "n_size cfg \<le> 32" and cfg: "cfg = img_config img"
    and boot: "\<forall>p < 255 * im_instruction_bits img. \<not> F p" "decode cfg F 255 = row (im_layer_bits img) 0 (im_layer img)"
    and above: "im_layer_bits img \<le> im_layer img"
    and jump: "decode cfg (\<lambda>p. F (im_layer img + p)) 255 = row (im_layer_bits img) 0 z"
    and z: "im_layer_bits img \<le> z" "z + im_layer_bits img \<le> im_space_bits img"
    and zero: "\<forall>p. z \<le> p \<and> p < z + im_layer_bits img \<longrightarrow> \<not> F p"
    and nops: "\<And>i p. i < 3 \<or> 196 \<le> i \<and> i < 255 \<Longrightarrow> i * im_instruction_bits img \<le> p \<Longrightarrow>
      p < Suc i * im_instruction_bits img \<Longrightarrow> \<not> F (im_layer img + p)"
    and G: "G = blit (im_layer_bits img) (im_layer img) 0 F F"
    and body: "exec_slots cfg [3..<196] G = (H, True)"
    and after: "\<And>p. 196 * im_instruction_bits img \<le> p \<Longrightarrow> p < im_layer_bits img \<or> z \<le> p \<and> p < z + im_layer_bits img \<Longrightarrow> H p = G p"
    and bits: "bm_bits b = F" and n: "2 \<le> n"
  shows "\<exists>b'. spec_run cfg n b = (b', 2, SPACE_STOP_IDLE) \<and>
    (\<forall>p. im_layer_bits img \<le> p \<longrightarrow> bm_bits b' p = H p)"
proof -
  define LB where "LB = im_layer_bits img"
  define ib where "ib = im_instruction_bits img"
  note I = image_okD [OF ok] and C = img_config_simps [OF ok, folded cfg]
  have LB: "LB = 256 * ib" "0 < LB" using I(4) layer_size_pos [OF ok] by (simp_all add: LB_def ib_def)
  have row_end: "Suc i * ib \<le> LB" if "i < 256" for i
    unfolding LB(1) by (rule mult_le_mono1) (use that in simp)
  have layer_end: "im_layer img + LB \<le> space_size cfg" using I(6,7) C(1) by (simp add: LB_def)
  have F0: "fld_n (decode cfg F i) = 0" if "i < 255" for i
  proof (rule decode_zero [OF _ N])
    fix p assume p: "p < Suc i * instruction_size cfg"
    have "p < 255 * ib" using that p unfolding C(4) ib_def by (elim row_below) simp
    then show "\<not> F p" using boot(1) by (simp add: ib_def)
  qed
  have "exec_slots cfg [3..<255] F = (F, True)" by (rule exec_slots_nop_range) (use F0 in simp)
  then have tick1: "spec_step cfg b = (b\<lparr>bm_bits := G\<rparr>, SPACE_STEP_DONE)"
    using layer_tick [OF C(5), of F F LB "im_layer img" b] F0 boot(2) LB(2) layer_end bits
    by (simp add: G LB_def)
  have Gp: "G p = F (im_layer img + p)" if "p < LB" for p using that by (simp add: G blit_def LB_def)
  have GF: "decode cfg G i = decode cfg (\<lambda>p. F (im_layer img + p)) i" if "i < 256" for i
    using row_end [OF that] Gp C(4) by (intro decode_cong) (auto simp: ib_def)
  have G0: "fld_n (decode cfg G i) = 0" if "i < 3 \<or> 196 \<le> i \<and> i < 255" for i
  proof (rule decode_zero [OF _ N])
    fix p assume p: "i * instruction_size cfg \<le> p" "p < Suc i * instruction_size cfg"
    have "p < LB" using p row_end [of i] that C(4) by (auto simp: ib_def)
    moreover have "\<not> F (im_layer img + p)" by (rule nops [OF that]) (use p C(4) in simp_all)
    ultimately show "\<not> G p" using Gp by simp
  qed
  have HG: "decode cfg H i = decode cfg G i" if "196 \<le> i" "i < 256" for i
  proof (rule decode_cong)
    fix p assume p: "i * instruction_size cfg \<le> p" "p < Suc i * instruction_size cfg"
    have "196 * ib \<le> i * ib" by (rule mult_le_mono1) (use that in simp)
    also have "\<dots> \<le> p" using p(1) C(4) by (simp add: ib_def)
    finally have "196 * im_instruction_bits img \<le> p" by (simp add: ib_def)
    moreover have "p < im_layer_bits img" using p(2) row_end [OF that(2)] C(4) by (simp add: ib_def LB_def)
    ultimately show "H p = G p" using after by blast
  qed
  have "exec_slots cfg [196..<255] H = (H, True)"
    by (rule exec_slots_nop_range) (use HG G0 in simp)
  moreover have "[3..<255] = [3..<196] @ [196..<255]"
    using upt_add_eq_append [of 3 196 59] by simp
  ultimately have run: "exec_slots cfg [3..<255] G = (H, True)"
    by (simp only: exec_slots_append body Let_def prod.case if_True)
  define E where "E = blit LB z 0 H H"
  have tick2: "spec_step cfg (b\<lparr>bm_bits := G\<rparr>) = (b\<lparr>bm_bits := E\<rparr>, SPACE_STEP_DONE)"
    using layer_tick [OF C(5) _ _ _ run, of LB z "b\<lparr>bm_bits := G\<rparr>"] G0 GF [of 255] HG [of 255] jump LB(2) z C(1)
    by (simp add: E_def LB_def)
  have "\<not> E p" if "p < LB" for p
  proof -
    have "196 * ib \<le> LB" using LB(1) by simp
    then have "H (z + p) = G (z + p)" using that z(1) by (intro after) (auto simp: LB_def ib_def)
    moreover have "G (z + p) = F (z + p)" using z(1) by (simp add: G blit_def)
    ultimately show ?thesis using zero that by (simp add: E_def blit_def LB_def)
  qed
  then have "fld_n (decode cfg E i) = 0" if "i < 256" for i
    using row_end [OF that] C(4) by (intro decode_zero [OF _ N]) (auto simp: ib_def)
  then have idle: "\<not> bits_active cfg (bm_bits (b\<lparr>bm_bits := E\<rparr>))" by (simp add: bits_active_def C(5))
  obtain k where "n = Suc (Suc k)" using n by (metis Suc_le_D numeral_2_eq_2 Suc_le_mono)
  then have "spec_run cfg n b = (b\<lparr>bm_bits := E\<rparr>, 2, SPACE_STOP_IDLE)"
    using tick1 tick2 spec_run_idle [OF idle, of k] by simp
  then show ?thesis by (auto simp: E_def blit_def LB_def)
qed

section \<open>A whole program\<close>

lemma space_init_bits:
  assumes ok: "machine_ok cfg st" and fit: "length m \<le> vm_space_bytes cfg"
    and init: "space_init cfg (Some m) (length m) st = Some (st', rc)"
  shows "machine_ok cfg st'" and "bit_at (space st') = bit_at m"
proof -
  have len: "length (space st) = vm_space_bytes cfg" by (rule machine_okD(2) [OF ok])
  obtain sp1 where sp1: "(if length m \<noteq> 0 then mem_move (length m) m 0 (space st) 0 else Some (space st)) = Some sp1"
      "length sp1 = length (space st)"
      "bit_at sp1 = blit (8 * length m) 0 0 (bit_at m) (bit_at (space st))"
    using mem_move_bits [of 0 "length m" m 0 "space st"] fit len by (cases "length m = 0") (auto elim: yieldsE)
  have "length m + (vm_space_bytes cfg - length m) \<le> length sp1" using fit len sp1(2) by simp
  from mem_fill_zero [OF this] obtain sp2 where sp2: "mem_fill (vm_space_bytes cfg - length m) 0 sp1 (length m) = Some sp2"
      "length sp2 = length sp1"
      "bit_at sp2 = (\<lambda>p. if 8 * length m \<le> p \<and> p < 8 * length m + 8 * (vm_space_bytes cfg - length m) then False else bit_at sp1 p)"
    by (rule yieldsE)
  have "st' = st\<lparr>space := sp2\<rparr>" using init fit sp1(1) sp2(1) by (cases "m = []") (auto simp: space_init_def)
  moreover have "bit_at sp2 = bit_at m"
  proof (rule ext)
    fix p
    show "bit_at sp2 p = bit_at m p"
      using bit_at_out [of m p] bit_at_out [of "space st" p] fit len
      by (auto simp: sp2(3) sp1(3) blit_def not_less)
  qed
  ultimately show "machine_ok cfg st'" "bit_at (space st') = bit_at m"
    using ok sp1(2) sp2(2) by (simp_all add: machine_ok_def)
qed

lemma word32_cong: "(\<And>i. i < 32 \<Longrightarrow> f (at + i) = g (at + i)) \<Longrightarrow> word32 f at = word32 g at"
  unfolding word32_def by (rule word_field_cong) simp

lemma arith_program_runs:
  assumes init: "cs_copy_program_init (length m) ab begin limit m = Some (m0, Some pr0)"
    and arith: "program_arithmetic32 subtract dst l r table temp carry (pr0, m0) = Some ((pr1, m1), 0)"
    and fin: "cs_copy_program_finish z (pr1, m1) = Some ((pr2, m2), 0)"
    and data: "apart z (im_layer_bits (pr_image pr0)) dst 32" "apart z (im_layer_bits (pr_image pr0)) temp 2"
      "apart z (im_layer_bits (pr_image pr0)) carry 1"
    and st: "machine_ok (img_config (pr_image pr0)) st"
    and load: "space_init (img_config (pr_image pr0)) (Some m2) (length m2) st = Some (st', rc)"
    and n: "2 \<le> n" "n \<le> uint64_max"
  shows "\<exists>res. space_run (img_config (pr_image pr0)) (Some n) observe st' = Some (Some res) \<and>
    res_reason res = SPACE_STOP_IDLE \<and> res_ticks res = 2 \<and>
    word32 (bit_at (space (res_machine res))) dst = arith_word subtract (word32 (bit_at m) l) (word32 (bit_at m) r)"
proof -
  define img where "img = pr_image pr0"
  define cfg where "cfg = img_config img"
  have pr0: "program_ok pr0 m0" "img = fresh_image (length m) ab begin" "code_begin pr0 = begin"
      "code_limit pr0 = limit" "length m0 = length m"
      "\<And>p. bit_at m0 p = (if begin \<le> p \<and> p < begin + im_layer_bits img then False else bit_at m p)"
    using program_init_spec [OF refl, of m ab "begin" limit] init by (auto simp: img_def)
  have img: "im_layer img = begin" "im_slot img = 3" by (simp_all add: pr0(2) fresh_image_def)
  have ok: "image_ok img m0" using program_okD(1) [OF pr0(1)] by (simp add: img_def)
  note I = image_okD [OF ok] and C = img_config_simps [OF ok, folded cfg_def]
  note A = fresh_arith [OF pr0(1) _ arith, folded img_def, OF img(2)]
  have E: "arithmetic32 subtract dst l r table temp carry (img, m0) = Some ((at_slot img 193, m1), 0)"
      "length m1 = length m0"
      "\<And>p. p \<notin> {table..<table + 16} \<union> {carry} \<Longrightarrow>
        p < im_layer img + 3 * im_instruction_bits img \<or> im_layer img + 196 * im_instruction_bits img \<le> p \<Longrightarrow>
        bit_at m1 p = bit_at m0 p"
    using arithmetic32_emits [OF ok A(2), of subtract] A(3) img(2) by auto
  have keeps: "program_ok pr1 m1"
    using keepsD(1) [OF program_arith_keeps [OF pr0(1)] arith] .
  have pr1: "im_layer_bits (pr_image pr1) = im_layer_bits img" "im_layer (pr_image pr1) = begin"
      "im_instruction_bits (pr_image pr1) = im_instruction_bits img" "code_begin pr1 = begin" "code_limit pr1 = limit"
      "img_config (pr_image pr1) = cfg" "code_end pr1 = code_end pr0"
    using A(4) img pr0(3,4) by (simp_all add: img_def cfg_def img_config_def)
  define LB where "LB = im_layer_bits img"
  define ib where "ib = im_instruction_bits img"
  have LB: "LB = 256 * ib" using I(4) by (simp add: LB_def ib_def)
  have endp: "code_end pr0 = begin + LB" "LB \<le> begin" "begin + LB \<le> limit"
    using program_okD(2,3,5) [OF pr0(1)] img pr0(3,4) by (simp_all add: img_def LB_def)
  note fs = finish_spec [OF keeps fin, unfolded pr1, folded LB_def ib_def, unfolded endp]
  define F where "F = bit_at m2"
  note V = add_valid_layout [OF ok A(2)]
  note L = adder_layoutD [OF V(1), folded cfg_def, unfolded C, folded LB_def]
  have miss: "apart a w begin (limit - begin)"
    if "(a, w) \<in> {(dst, 32), (l, 32), (r, 32), (table, 16), (temp, 2), (carry, 1)}" "a + w \<le> im_space_bits img" for a w
  proof -
    have "\<not> overlaps a w begin (limit - begin)"
      using A(1) that(1) by (auto simp: hits_code_def upt_rec pr0(3,4))
    moreover have "limit < 2 ^ 32" "im_space_bits img < 2 ^ 32"
      using program_okD(6) [OF pr0(1)] I(7,12) pr0(4,5) by simp_all
    ultimately show ?thesis using that(2) endp by (intro overlaps_apart) simp_all
  qed
  have far: "apart a w begin LB" if "apart a w begin (limit - begin)" for a w
    using that endp by (auto simp: apart_def)
  have Fdata: "F p = bit_at m p"
    if "LB \<le> p" "p < begin \<or> begin + LB \<le> p" "p \<notin> {table..<table + 16} \<union> {carry}" for p
  proof -
    have small: "3 * ib \<le> LB" "196 * ib \<le> LB" "255 * ib \<le> LB" using LB by simp_all
    have "F p = bit_at m1 p" using fs(11) that(1,2) unfolding F_def by auto
    also have "\<dots> = bit_at m0 p" using that(2,3) small img(1) by (intro E(3)) (auto simp: ib_def)
    also have "\<dots> = bit_at m p" using that(2) pr0(6) by (auto simp: LB_def)
    finally show ?thesis .
  qed
  define G where "G = blit LB begin 0 F F"
  have Gp: "G p = F (begin + p)" if "p < LB" for p using that by (simp add: G_def blit_def)
  have GF: "G p = F p" if "LB \<le> p" for p using that by (simp add: G_def blit_def)
  have Frow: "F (begin + p) = bit_at m1 (begin + p)" if "p < 255 * ib" for p
    using fs(11) that endp(2) unfolding F_def by simp
  have dec: "decode cfg G (3 + j) = layer_row img m1 (3 + j)" if j: "j < 193" for j
    unfolding layer_row_def cfg_def [symmetric]
  proof (rule decode_cong)
    fix p assume p: "p < Suc (3 + j) * instruction_size cfg"
    have "p < 255 * ib" using j p unfolding C(4) ib_def by (elim row_below) simp
    moreover have "p < LB" using calculation LB by simp
    ultimately show "G p = bit_at m1 (im_layer img + p)" using Gp Frow img(1) by simp
  qed
  have tabG: "same_bits table 16 m1 G"
    unfolding same_bits_def
  proof (intro allI impI)
    fix i :: nat assume i: "i < 16"
    have "apart table 16 begin LB" using miss [of table 16] far L(13) by simp
    then have "table + i < begin \<or> begin + LB \<le> table + i" using i by (auto simp: apart_def)
    then show "G (table + i) = bit_at m1 (table + i)"
      using GF [of "table + i"] L(7) fs(11) LB unfolding F_def by auto
  qed
  obtain H where H: "exec_slots cfg [3..<196] G = (H, True)"
      "word32 H dst = arith_word subtract (word32 G l) (word32 G r)"
      "\<And>p. 196 * ib \<le> p \<Longrightarrow> p \<notin> {dst..<dst + 32} \<union> {temp, temp + 1, carry} \<Longrightarrow> H p = G p"
    using arith_runs [OF ok E(1), of G, folded cfg_def ib_def, unfolded img(2)] dec tabG by auto
  have dataLB: "p \<notin> {dst..<dst + 32} \<union> {temp, temp + 1, carry}" if "p < LB \<or> z \<le> p \<and> p < z + LB" for p
    using that L(4,8,9) data by (auto simp: apart_def simp flip: img_def LB_def)
  have "\<exists>b'. spec_run cfg n (abs_of st') = (b', 2, SPACE_STOP_IDLE) \<and> (\<forall>p. LB \<le> p \<longrightarrow> bm_bits b' p = H p)"
    unfolding LB_def
  proof (rule two_ticks [OF ok _ cfg_def, of F z G H])
    have lenm: "length m2 \<le> vm_space_bytes cfg"
      using fs(2) E(2) I(7) C(1) by (simp add: space_size_def)
    show "bm_bits (abs_of st') = F"
      using space_init_bits(2) [OF st [folded img_def cfg_def] lenm load [folded img_def cfg_def]]
      by (simp add: abs_of_def F_def)
    show "n_size cfg \<le> 32" using I(2,11) C(3) by simp
    show "\<forall>p < 255 * im_instruction_bits img. \<not> F p" using fs(8) by (simp add: F_def ib_def)
    show "decode cfg F 255 = row (im_layer_bits img) 0 (im_layer img)"
      using fs(9) pr1(6) by (simp add: boot_row_def F_def LB_def img(1))
    show "im_layer_bits img \<le> im_layer img" using endp(2) img(1) by (simp add: LB_def)
    show "decode cfg (\<lambda>p. F (im_layer img + p)) 255 = row (im_layer_bits img) 0 z"
      using fs(10) pr1(6) by (simp add: jump_row_def layer_row_def F_def LB_def img(1) img_config_def)
    show "im_layer_bits img \<le> z" "z + im_layer_bits img \<le> im_space_bits img"
      using fs(4,5) E(2) I(7) by (simp_all add: LB_def)
    show "\<forall>p. z \<le> p \<and> p < z + im_layer_bits img \<longrightarrow> \<not> F p"
    proof (intro allI impI)
      fix p assume p: "z \<le> p \<and> p < z + im_layer_bits img"
      then have "LB \<le> p \<and> (p < begin \<or> begin + LB \<le> p)"
        using fs(5,6) endp(3) by (auto simp: apart_def LB_def)
      then have "F p = bit_at m1 p" using fs(11) LB unfolding F_def by auto
      then show "\<not> F p" using fs(7) p by (simp add: LB_def)
    qed
    show "G = blit (im_layer_bits img) (im_layer img) 0 F F" by (simp add: G_def LB_def img(1))
    show "exec_slots cfg [3..<196] G = (H, True)" by (rule H(1))
    show "2 \<le> n" by (rule n(1))
    show "H p = G p" if "196 * im_instruction_bits img \<le> p"
      "p < im_layer_bits img \<or> z \<le> p \<and> p < z + im_layer_bits img" for p
      using that dataLB by (intro H(3)) (auto simp: LB_def ib_def)
    fix i p
    assume i: "i < 3 \<or> 196 \<le> i \<and> i < 255" and p: "i * im_instruction_bits img \<le> p" "p < Suc i * im_instruction_bits img"
    have p255: "p < 255 * ib" using p(2) unfolding ib_def by (rule row_below) (use i in auto)
    have "p < 3 * ib \<or> 196 * ib \<le> p"
    proof (cases "i < 3")
      case True
      then show ?thesis using row_below [OF p(2), of 3] by (simp add: ib_def)
    next
      case False
      then have "196 * ib \<le> i * ib" using i by (intro mult_le_mono1) simp
      then show ?thesis using p(1) unfolding ib_def by linarith
    qed
    moreover have "begin + p \<notin> {table..<table + 16} \<union> {carry}"
      using miss [of table 16] miss [of carry 1] far L(13,15) p255 LB by (fastforce simp: apart_def)
    ultimately have "bit_at m1 (begin + p) = bit_at m0 (begin + p)"
      using img(1) by (intro E(3)) (auto simp: ib_def)
    then show "\<not> F (im_layer img + p)" using Frow [OF p255] pr0(6) img(1) p255 LB by (simp add: LB_def)
  qed
  then obtain b' where b': "spec_run cfg n (abs_of st') = (b', 2, SPACE_STOP_IDLE)" "\<And>p. LB \<le> p \<Longrightarrow> bm_bits b' p = H p"
    by blast
  have same: "word32 G a = word32 (bit_at m) a" if a: "a = l \<or> a = r" for a
  proof (rule word32_cong)
    fix i :: nat assume i: "i < 32"
    have "apart a 32 begin LB" using a miss [of l 32] miss [of r 32] far L(11,12) by auto
    moreover have "a + i \<notin> {table..<table + 16} \<union> {carry}" using a i L(19,21,22,24) by (auto simp: apart_def)
    moreover have "LB \<le> a + i" using a L(5,6) by auto
    ultimately show "G (a + i) = bit_at m (a + i)"
      using GF Fdata [of "a + i"] i by (auto simp: apart_def)
  qed
  have "word32 (bm_bits b') dst = word32 H dst" using b'(2) L(4) by (intro word32_cong) simp
  then have "word32 (bm_bits b') dst = arith_word subtract (word32 (bit_at m) l) (word32 (bit_at m) r)"
    using H(2) same by simp
  moreover have "length m2 \<le> vm_space_bytes cfg"
    using fs(2) E(2) I(7) C(1) by (simp add: space_size_def)
  ultimately show ?thesis
    using space_run_limited_spec [OF space_init_bits(1) [OF st [folded img_def cfg_def] _ load [folded img_def cfg_def]] n(2), of observe]
      b'(1) by (auto simp: run_is_def abs_of_def simp flip: img_def cfg_def)
qed

section \<open>Properties\<close>

text \<open>
  \<open>cs_copy_program_finish\<close> accepts exactly a zero layer that is aligned, inside the
  buffer, clear of the active layer and of the code region, and really empty; otherwise it
  changes nothing. On success the active layer holds the boot row alone, the last layer
  jumps to the zero layer, and everything between the layers is as before.
\<close>

theorem finish_accepts:
  assumes "program_ok pr m"
  shows "if zero_layer_ok pr m z then
      (\<exists>m'. cs_copy_program_finish z (pr, m) = Some ((pr, m'), 0) \<and> length m' = length m \<and>
        (\<forall>p < 255 * im_instruction_bits (pr_image pr). \<not> bit_at m' p) \<and>
        boot_row pr m' 255 = row (layer_size pr) 0 (code_begin pr) \<and>
        jump_row pr m' (im_layer (pr_image pr)) = row (layer_size pr) 0 z \<and>
        (\<forall>p. layer_size pr \<le> p \<and> (p < im_layer (pr_image pr) + 255 * im_instruction_bits (pr_image pr) \<or>
          code_end pr \<le> p) \<longrightarrow> bit_at m' p = bit_at m p))
    else cs_copy_program_finish z (pr, m) = Some ((pr, m), -1)"
  by (rule finish_cases [OF assms])

lemma finish_accepts_witness:
  "\<exists>pr m. cs_copy_program_finish 4 (pr, m) = Some ((pr, m), -1) \<and> program_ok pr m"
proof -
  obtain m0 pr0 where "cs_copy_program_init (length demo_memory) 16 12032 36096 demo_memory = Some (m0, Some pr0)"
    using demo_init by (auto simp: demo_memory_def)
  then have ok: "program_ok pr0 m0" using program_init_spec [OF refl, of demo_memory 16 12032 36096] by auto
  moreover have "\<not> zero_layer_ok pr0 m0 4" by (simp add: zero_layer_ok_def)
  ultimately show ?thesis using finish_accepts [OF ok, of 4] by auto
qed

text \<open>
  C2. A program that was initialised, given one addition or subtraction, finished and loaded
  into the emulator stops idle after exactly two ticks, under any limit that allows them,
  and then the destination holds the sum or difference of the operands modulo \<open>2 ^ 32\<close>.
\<close>

theorem arithmetic_program_runs:
  assumes "cs_copy_program_init (length m) ab begin limit m = Some (m0, Some pr0)"
    and "program_arithmetic32 subtract dst l r table temp carry (pr0, m0) = Some ((pr1, m1), 0)"
    and "cs_copy_program_finish z (pr1, m1) = Some ((pr2, m2), 0)"
    and "apart z (im_layer_bits (pr_image pr0)) dst 32" "apart z (im_layer_bits (pr_image pr0)) temp 2"
      "apart z (im_layer_bits (pr_image pr0)) carry 1"
    and "machine_ok (img_config (pr_image pr0)) st"
    and "space_init (img_config (pr_image pr0)) (Some m2) (length m2) st = Some (st', rc)"
    and "2 \<le> n" "n \<le> uint64_max"
  shows "\<exists>res. space_run (img_config (pr_image pr0)) (Some n) observe st' = Some (Some res) \<and>
    res_reason res = SPACE_STOP_IDLE \<and> res_ticks res = 2 \<and>
    word32 (bit_at (space (res_machine res))) dst =
      (if subtract then word32 (bit_at m) l - word32 (bit_at m) r else word32 (bit_at m) l + word32 (bit_at m) r)"
  using arith_program_runs [OF assms] by (simp add: arith_word_def)

lemma demo_memory_bits: "\<not> bit_at demo_memory p"
  by (auto simp: bit_at_def demo_memory_def)

lemma demo_fresh:
  assumes i: "cs_copy_program_init 8192 16 12032 36096 demo_memory = Some (m0, Some pr0)"
  shows "program_ok pr0 m0" and "pr_image pr0 = fresh_image 8192 16 12032" and "code_begin pr0 = 12032"
    and "code_limit pr0 = 36096" and "length m0 = 8192" and "\<not> bit_at m0 p"
  using program_init_spec [of demo_memory 8192 16 12032 36096] i demo_memory_bits
  by (auto simp: demo_memory_def)

lemma demo_arith:
  assumes i: "cs_copy_program_init 8192 16 12032 36096 demo_memory = Some (m0, Some pr0)"
  obtains m1 where "program_arithmetic32 s 53024 53056 53088 53120 53136 53138 (pr0, m0) =
      Some ((pr0\<lparr>pr_image := at_slot (pr_image pr0) 193\<rparr>, m1), 0)"
    and "\<And>p. 40000 \<le> p \<Longrightarrow> p < 52032 \<Longrightarrow> \<not> bit_at m1 p" and "length m1 = 8192"
proof -
  note D = demo_fresh [OF i]
  have ok: "image_ok (pr_image pr0) m0" by (rule program_okD(1) [OF D(1)])
  have valid: "add_valid (pr_image pr0) 53024 53056 53088 53120 53136 53138"
    unfolding D(2) by (simp add: add_valid_def fresh_image_def Let_def upt_rec fits_def overlaps_def)
  have hits: "\<not> hits_code pr0 [53024, 53056, 53088, 53120, 53136, 53138] [32, 32, 32, 16, 2, 1]"
    by (simp add: hits_code_def D upt_rec overlaps_def)
  have slot: "(pr_image pr0)\<lparr>im_slot := 3\<rparr> = pr_image pr0" unfolding D(2) by (simp add: fresh_image_def)
  obtain m1 where m1: "arithmetic32 s 53024 53056 53088 53120 53136 53138 (pr_image pr0, m0)
      = Some ((at_slot (pr_image pr0) 193, m1), 0)" "length m1 = length m0"
      "\<forall>p. p \<notin> {53120..<53120 + 16} \<union> {53138} \<and>
        (p < im_layer (pr_image pr0) + im_slot (pr_image pr0) * im_instruction_bits (pr_image pr0) \<or>
         im_layer (pr_image pr0) + (im_slot (pr_image pr0) + 193) * im_instruction_bits (pr_image pr0) \<le> p) \<longrightarrow>
        bit_at m1 p = bit_at m0 p"
    using arithmetic32_emits [OF ok valid, of s] by blast
  show thesis
  proof (rule that [of m1])
    show "program_arithmetic32 s 53024 53056 53088 53120 53136 53138 (pr0, m0) =
        Some ((pr0\<lparr>pr_image := at_slot (pr_image pr0) 193\<rparr>, m1), 0)"
      using hits valid m1(1) slot by (simp add: program_arithmetic32_def room_def D(2) fresh_image_def)
    show "\<not> bit_at m1 p" if "40000 \<le> p" "p < 52032" for p
      using m1(3) that D(6) by (simp add: D(2) fresh_image_def)
    show "length m1 = 8192" using m1(2) D(5) by simp
  qed
qed

definition idle_machine :: "nat \<Rightarrow> nat \<Rightarrow> machine" where
  "idle_machine bytes slots = \<lparr>space = replicate bytes 0, processor = replicate slots nop, in_stream = [],
     out_bytes = [], out_faults = [], events = []\<rparr>"

lemma demo_config_valid: "config_ok (img_config (fresh_image 8192 16 12032))"
  by (simp add: config_ok_def space_configuration_valid_def img_config_def fresh_image_def address_size_def
      ceil_log2_u32_def space_size_def processor_bits_def instruction_size_def n_size_def upt_rec)

lemma demo_load:
  assumes "length m = 8192"
  obtains st where "space_init (img_config (fresh_image 8192 16 12032)) (Some m) (length m) (idle_machine 8192 256) = Some (st, 0)"
proof -
  have "\<exists>sp. mem_move (length m) m 0 (replicate 8192 0) 0 = Some sp \<and> length sp = 8192"
    using mem_move_bits [of 0 "length m" m 0 "replicate 8192 0"] assms by (auto elim: yieldsE)
  then obtain sp where sp: "mem_move 8192 m 0 (replicate 8192 0) 0 = Some sp" "length sp = 8192"
    using assms by auto
  have "mem_fill 0 0 sp 8192 = Some sp" using sp(2) by (simp add: mem_fill_def)
  then show thesis
    using assms sp(1) by (intro that) (simp add: space_init_def img_config_def fresh_image_def idle_machine_def)
qed

lemma arithmetic_program_runs_witness:
  "\<exists>m0 pr0 pr1 m1 m2 st res.
    cs_copy_program_init 8192 16 12032 36096 demo_memory = Some (m0, Some pr0) \<and>
    program_arithmetic32 False 53024 53056 53088 53120 53136 53138 (pr0, m0) = Some ((pr1, m1), 0) \<and>
    cs_copy_program_finish 40000 (pr1, m1) = Some ((pr1, m2), 0) \<and>
    space_init (img_config (pr_image pr0)) (Some m2) (length m2) (idle_machine 8192 256) = Some (st, 0) \<and>
    space_run (img_config (pr_image pr0)) (Some 2) True st = Some (Some res) \<and>
    res_reason res = SPACE_STOP_IDLE \<and> res_ticks res = 2"
proof -
  obtain m0 pr0 where i: "cs_copy_program_init 8192 16 12032 36096 demo_memory = Some (m0, Some pr0)"
    using demo_init by auto
  note D = demo_fresh [OF i]
  define pr1 where "pr1 = pr0\<lparr>pr_image := at_slot (pr_image pr0) 193\<rparr>"
  obtain m1 where m1: "program_arithmetic32 False 53024 53056 53088 53120 53136 53138 (pr0, m0) = Some ((pr1, m1), 0)"
      "\<And>p. 40000 \<le> p \<Longrightarrow> p < 52032 \<Longrightarrow> \<not> bit_at m1 p" "length m1 = 8192"
    unfolding pr1_def using demo_arith [OF i] by metis
  have ok1: "program_ok pr1 m1" using keepsD(1) [OF program_arith_keeps [OF D(1)] m1(1)] .
  have "zero_layer_ok pr1 m1 40000"
    using m1(2,3) by (simp add: zero_layer_ok_def pr1_def D fresh_image_def apart_def)
  then obtain m2 where m2: "cs_copy_program_finish 40000 (pr1, m1) = Some ((pr1, m2), 0)" "length m2 = 8192"
    using finish_cases [OF ok1, of 40000] m1(3) by auto
  obtain st where st: "space_init (img_config (pr_image pr0)) (Some m2) (length m2) (idle_machine 8192 256) = Some (st, 0)"
    using demo_load [OF m2(2)] D(2) by auto
  have "machine_ok (img_config (pr_image pr0)) (idle_machine 8192 256)"
    unfolding D(2) using demo_config_valid
    by (simp add: machine_ok_def idle_machine_def img_config_def fresh_image_def)
  moreover have "apart 40000 (im_layer_bits (pr_image pr0)) 53024 32" "apart 40000 (im_layer_bits (pr_image pr0)) 53136 2"
      "apart 40000 (im_layer_bits (pr_image pr0)) 53138 1"
    by (simp_all add: apart_def D(2) fresh_image_def)
  moreover have "cs_copy_program_init (length demo_memory) 16 12032 36096 demo_memory = Some (m0, Some pr0)"
    using i by (simp add: demo_memory_def)
  ultimately obtain res where "space_run (img_config (pr_image pr0)) (Some 2) True st = Some (Some res)"
      "res_reason res = SPACE_STOP_IDLE" "res_ticks res = 2"
    using arithmetic_program_runs [OF _ m1(1) m2(1) _ _ _ _ st, of demo_memory 16 12032 36096 2 True]
    by (auto simp: uint64_max_def)
  then show ?thesis using i m1(1) m2(1) st by blast
qed

end
