(* ===== verification/Core.thy ===== *)
theory Core
  imports SpaceRun
begin

text \<open>
  src/core.h and src/core.c: the boot core. The core is a layer of four instructions that reads
  another layer from the input stream and turns control over to it; a short or failing read
  ends in an error message on the output stream instead. The choice between the two is an
  indexed load: the status that the input channel leaves in slot 1 is copied into the address
  of a copy from a table with one layer for every status.

  The enumerators of src/core.h are functions of the configuration. They are computed without
  wrap-around; \<open>core_ok\<close>, the static assertion of src/core.h, bounds them by the size of the
  space. \<open>size\<close> values are natural numbers.
\<close>

section \<open>Constants\<close>

definition core_error_message :: "char list" where
  "core_error_message = CHR 0x0A # ''[space:C:00000001:00000000]'' @ [CHR 0x0A]"

definition core_layer_bits :: "config \<Rightarrow> nat" where
  "core_layer_bits cfg = 4 * instruction_size cfg"

definition core_input_bits :: "config \<Rightarrow> nat" where
  "core_input_bits cfg = ((core_layer_bits cfg + 8 - 1) div 8 + 1) * 8"

definition core_buffer_start :: "config \<Rightarrow> nat" where
  "core_buffer_start cfg = (processor_bits cfg + 8 - 1) div 8 * 8"

definition core_status_bits :: "config \<Rightarrow> nat" where
  "core_status_bits cfg = ceil_log2_u32 (2 * core_input_bits cfg + 2)"

definition core_entry_shift :: "config \<Rightarrow> nat" where
  "core_entry_shift cfg = ceil_log2_u32 (core_layer_bits cfg)"

definition core_boot_bits :: "config \<Rightarrow> nat" where
  "core_boot_bits cfg = 2 ^ core_entry_shift cfg"

definition core_restart_start :: "config \<Rightarrow> nat" where
  "core_restart_start cfg = core_buffer_start cfg + core_boot_bits cfg"

definition core_error_message_start :: "config \<Rightarrow> nat" where
  "core_error_message_start cfg = (core_restart_start cfg + core_layer_bits cfg + 8 - 1) div 8 * 8"

definition core_error_message_bits :: nat where
  "core_error_message_bits = length core_error_message * 8"

definition core_error_zero_start :: "config \<Rightarrow> nat" where
  "core_error_zero_start cfg = core_error_message_start cfg + core_error_message_bits"

definition core_table_bits :: "config \<Rightarrow> nat" where
  "core_table_bits cfg = 2 ^ (core_status_bits cfg + core_entry_shift cfg)"

definition core_table_start :: "config \<Rightarrow> nat" where
  "core_table_start cfg =
     (core_error_zero_start cfg + core_layer_bits cfg + core_table_bits cfg - 1) div core_table_bits cfg
     * core_table_bits cfg"

definition core_configuration_valid :: "config \<Rightarrow> bool" where
  "core_configuration_valid cfg \<longleftrightarrow>
     core_table_start cfg + core_table_bits cfg \<le> space_size cfg \<and>
     core_input_bits cfg < space_size cfg div 2"

section \<open>The layers\<close>

definition core_rows :: "config \<Rightarrow> nat list" where
  "core_rows cfg =
    [core_status_bits cfg,
     3 * instruction_size cfg + n_size cfg + address_size cfg + core_entry_shift cfg,
     instruction_size cfg + n_size cfg + address_size cfg,
     core_input_bits cfg, core_buffer_start cfg, 0,
     0, 0, 0,
     core_layer_bits cfg, processor_start, core_table_start cfg]"

definition activate_rows :: "config \<Rightarrow> nat list" where
  "activate_rows cfg =
    [0, 0, 0, 0, 0, 0, 0, 0, 0, core_layer_bits cfg, processor_start, core_buffer_start cfg]"

definition failure_rows :: "config \<Rightarrow> nat list" where
  "failure_rows cfg =
    [0, 0, 0, 0, 0, 0, core_error_message_bits, core_error_message_start cfg, 0,
     core_layer_bits cfg, processor_start, core_error_zero_start cfg]"

text \<open>\<open>encode\<close> ORs the bits of the twelve fields into the image; the loops are those of the code.\<close>

definition encode_bit :: "nat \<Rightarrow> nat \<Rightarrow> nat \<Rightarrow> mem \<Rightarrow> mem option" where
  "encode_bit at v i m = do {
     let position = at + i;
     b \<leftarrow> mem_get m (position div 8);
     mem_set m (position div 8)
       (b OR push_bit (8 - 1 - position mod 8) (of_nat (drop_bit i v AND 1)))
   }"

definition encode :: "config \<Rightarrow> nat \<Rightarrow> nat list \<Rightarrow> mem \<Rightarrow> mem option" where
  "encode cfg base rows =
     for_up (\<lambda>slot. for_up (\<lambda>fld.
       for_up (encode_bit (base + slot * instruction_size cfg + o_tab cfg ! fld) (rows ! (slot * 3 + fld)))
         0 (s_tab cfg ! fld)) 0 3) 0 4"

section \<open>Initialisation\<close>

text \<open>\<open>allocated\<close> is whether \<open>calloc\<close> returned memory.\<close>

definition core_table_entry :: "config \<Rightarrow> nat \<Rightarrow> mem \<Rightarrow> mem option" where
  "core_table_entry cfg entry =
     encode cfg (core_table_start cfg + entry * core_boot_bits cfg)
       (if entry = 2 * core_input_bits cfg then activate_rows cfg else failure_rows cfg)"

definition message_bytes :: mem where
  "message_bytes = map (\<lambda>c. of_nat (of_char c)) core_error_message"

definition core_image :: "config \<Rightarrow> mem option" where
  "core_image cfg = do {
     let bytes = (core_table_start cfg + core_table_bits cfg + 8 - 1) div 8;
     m \<leftarrow> encode cfg processor_start (core_rows cfg) (replicate bytes 0);
     m \<leftarrow> encode cfg (core_restart_start cfg) (core_rows cfg) m;
     m \<leftarrow> mem_move (length message_bytes) message_bytes 0 m (core_error_message_start cfg div 8);
     for_up (core_table_entry cfg) 0 (2 ^ core_status_bits cfg) m
   }"

definition core_init :: "config \<Rightarrow> bool \<Rightarrow> machine \<Rightarrow> (machine \<times> int) option" where
  "core_init cfg allocated st =
     (if \<not> allocated then Some (st, -1)
      else do { m \<leftarrow> core_image cfg; space_init cfg (Some m) (length m) st })"

text \<open>
  A file that is loaded as a core: the outcomes of \<open>fopen\<close> (no file), of reading (the bytes up to
  one more than the space, and whether an error ended them) and of \<open>fclose\<close>.
\<close>

record core_file =
  cf_stream :: "getc_result list"
  cf_close_fails :: bool

definition core_load_file :: "config \<Rightarrow> core_file option \<Rightarrow> bool \<Rightarrow> machine \<Rightarrow> (machine \<times> int) option" where
  "core_load_file cfg opened allocated st =
     (case opened of
        None \<Rightarrow> Some (st, -1)
      | Some f \<Rightarrow>
          if \<not> allocated then Some (st, -1)
          else do {
            let (bytes, failed, rest) = fread_bytes (vm_space_bytes cfg + 1) (cf_stream f);
            (st, result) \<leftarrow> (if failed then Some (st, -1) else space_init cfg (Some bytes) (length bytes) st);
            Some (st, if cf_close_fails f then -1 else result)
          })"

end
