(* ===== verification/CoreBoot.thy ===== *)
theory CoreBoot
  imports Core CopyRuns
begin

text \<open>
  The boot core at work. \<open>core_image_bits\<close> is the image that \<open>core_init\<close> lays out, \<open>core_reads\<close>
  and \<open>core_decides\<close> are the two ticks of the core over the bit machine.
\<close>

section \<open>Encoding a layer\<close>

text \<open>Bit \<open>r\<close> of the row \<open>slot\<close>, and bit \<open>q\<close> of the layer.\<close>

definition row_bit :: "config \<Rightarrow> nat list \<Rightarrow> nat \<Rightarrow> nat \<Rightarrow> bool" where
  "row_bit cfg rows slot r =
     (if r < n_size cfg then bit (rows ! (slot * 3)) r
      else if r < n_size cfg + address_size cfg then bit (rows ! (slot * 3 + 1)) (r - n_size cfg)
      else bit (rows ! (slot * 3 + 2)) (r - (n_size cfg + address_size cfg)))"

definition layer_bit :: "config \<Rightarrow> nat list \<Rightarrow> nat \<Rightarrow> bool" where
  "layer_bit cfg rows q = row_bit cfg rows (q div instruction_size cfg) (q mod instruction_size cfg)"

lemma layer_bit_row: "r < instruction_size cfg \<Longrightarrow> layer_bit cfg rows (slot * instruction_size cfg + r) = row_bit cfg rows slot r"
  by (simp add: layer_bit_def)

lemma encode_bit_yields:
  assumes "at + i < 8 * length m"
  shows "yields (encode_bit at v i m) (length m) (\<lambda>p. bit_at m p \<or> (p = at + i \<and> bit v i))"
proof -
  define P where "P = at + i"
  have P: "P div 8 < length m" using assms by (simp add: P_def)
  have "drop_bit i v AND 1 = of_bool (bit v i)" by (simp add: and_one_eq bit_iff_odd_drop_bit odd_iff_mod_2_eq_one)
  then have code: "encode_bit at v i m =
      mem_set m (P div 8) (m ! (P div 8) OR push_bit (7 - P mod 8) (of_bool (bit v i)))"
    using P by (cases "bit v i") (simp_all add: encode_bit_def Let_def P_def)
  have one: "bit (push_bit (7 - P mod 8) (of_bool B) :: u8) (7 - p mod 8) \<longleftrightarrow> B \<and> p mod 8 = P mod 8" for p B
  proof -
    have bit: "j < 8 \<Longrightarrow> bit (push_bit j (of_bool B) :: u8) k \<longleftrightarrow> B \<and> k = j" for j k
      by (cases B) (auto simp: bit_exp_iff)
    have key: "a < 8 \<Longrightarrow> b < 8 \<Longrightarrow> 7 - a = 7 - b \<longleftrightarrow> a = b" for a b :: nat by arith
    have "7 - P mod 8 < 8" by simp
    then show ?thesis using key [of "p mod 8" "P mod 8"] by (simp add: bit)
  qed
  show ?thesis
    unfolding code
  proof (rule yields_cong [OF mem_set_bits [OF P]], rule ext)
    fix p
    have "p = P \<longleftrightarrow> p div 8 = P div 8 \<and> p mod 8 = P mod 8" by (metis div_mod_decomp)
    then show "(if p div 8 = P div 8
        then bit (m ! (P div 8) OR push_bit (7 - P mod 8) (of_bool (bit v i))) (7 - p mod 8)
        else bit_at m p) = (bit_at m p \<or> (p = at + i \<and> bit v i))"
      using P unfolding P_def [symmetric] by (auto simp: bit_or_iff one bit_at_def)
  qed
qed

lemma encode_field_yields:
  assumes "at + w \<le> 8 * length m"
  shows "yields (for_up (encode_bit at v) 0 w m) (length m)
    (\<lambda>p. bit_at m p \<or> (at \<le> p \<and> p < at + w \<and> bit v (p - at)))"
proof -
  let ?f = "\<lambda>i p. bit_at m p \<or> (at \<le> p \<and> p < at + i \<and> bit v (p - at))"
  have "yields (for_up (encode_bit at v) 0 w m) (length m) (?f (0 + w))"
  proof (rule yields_for_up [where f = ?f])
    fix i m'
    assume i: "i < 0 + w" and m': "length m' = length m" "bit_at m' = ?f i"
    show "yields (encode_bit at v i m') (length m) (?f (Suc i))"
      by (rule yields_cong [OF encode_bit_yields [of at i m' v, unfolded m'(1)]])
        (use assms i in \<open>auto simp: m' fun_eq_iff less_Suc_eq\<close>)
  qed auto
  then show ?thesis by simp
qed

lemma for_up_1: "for_up body i (Suc 0) = body i"
proof
  show "for_up body i (Suc 0) s = body i s" for s by (cases "body i s") simp_all
qed

lemma for_up_3: "for_up body 0 3 s = do { s \<leftarrow> body 0 s; s \<leftarrow> body 1 s; body 2 s }"
proof -
  have "for_up body 1 2 = (\<lambda>s. do { s \<leftarrow> body 1 s; body 2 s })"
    by (rule ext) (simp add: numeral_2_eq_2 for_up_1)
  then show ?thesis by (simp add: numeral_3_eq_3 numeral_2_eq_2)
qed

lemma encode_row_yields:
  assumes "at + instruction_size cfg \<le> 8 * length m"
  shows "yields (for_up (\<lambda>fld. for_up (encode_bit (at + o_tab cfg ! fld) (rows ! (slot * 3 + fld))) 0 (s_tab cfg ! fld)) 0 3 m)
    (length m) (\<lambda>p. bit_at m p \<or> (at \<le> p \<and> p < at + instruction_size cfg \<and> row_bit cfg rows slot (p - at)))"
proof -
  define N where "N = n_size cfg"
  define A where "A = address_size cfg"
  have size: "instruction_size cfg = N + A + A" by (simp add: instruction_size_split N_def A_def)
  have tabs: "o_tab cfg ! 0 = 0" "o_tab cfg ! 1 = N" "o_tab cfg ! 2 = N + A"
    "s_tab cfg ! 0 = N" "s_tab cfg ! 1 = A" "s_tab cfg ! 2 = A"
    by (simp_all add: o_tab_def s_tab_def N_def A_def)
  have row: "row_bit cfg rows slot r = (if r < N then bit (rows ! (slot * 3)) r
      else if r < N + A then bit (rows ! (slot * 3 + 1)) (r - N) else bit (rows ! (slot * 3 + 2)) (r - (N + A)))" for r
    by (simp add: row_bit_def N_def A_def)
  show ?thesis
    unfolding for_up_3 tabs
  proof (rule yields_bind [OF encode_field_yields])
    fix m1 assume m1: "length m1 = length m"
      "bit_at m1 = (\<lambda>p. bit_at m p \<or> (at + 0 \<le> p \<and> p < at + 0 + N \<and> bit (rows ! (slot * 3 + 0)) (p - (at + 0))))"
    show "yields (for_up (encode_bit (at + N) (rows ! (slot * 3 + 1))) 0 A m1 \<bind>
        for_up (encode_bit (at + (N + A)) (rows ! (slot * 3 + 2))) 0 A) (length m)
        (\<lambda>p. bit_at m p \<or> (at \<le> p \<and> p < at + instruction_size cfg \<and> row_bit cfg rows slot (p - at)))"
    proof (rule yields_bind [OF encode_field_yields])
      fix m2 assume m2: "length m2 = length m1"
        "bit_at m2 = (\<lambda>p. bit_at m1 p \<or> (at + N \<le> p \<and> p < at + N + A \<and> bit (rows ! (slot * 3 + 1)) (p - (at + N))))"
      have "at + (N + A) + A \<le> 8 * length m2" using assms by (simp add: m1 m2 size)
      from encode_field_yields [OF this]
      show "yields (for_up (encode_bit (at + (N + A)) (rows ! (slot * 3 + 2))) 0 A m2) (length m)
          (\<lambda>p. bit_at m p \<or> (at \<le> p \<and> p < at + instruction_size cfg \<and> row_bit cfg rows slot (p - at)))"
        unfolding m1(1) m2(1)
        by (rule yields_cong) (auto simp: m1 m2 size row fun_eq_iff add.assoc)
    qed (use assms in \<open>simp add: m1 size\<close>)
  qed (use assms in \<open>simp add: size\<close>)
qed

lemma encode_yields:
  assumes "base + core_layer_bits cfg \<le> 8 * length m" and "0 < instruction_size cfg"
  shows "yields (encode cfg base rows m) (length m)
    (\<lambda>p. bit_at m p \<or> (base \<le> p \<and> p < base + core_layer_bits cfg \<and> layer_bit cfg rows (p - base)))"
proof -
  define I where "I = instruction_size cfg"
  let ?f = "\<lambda>i p. bit_at m p \<or> (base \<le> p \<and> p < base + i * I \<and> layer_bit cfg rows (p - base))"
  have "yields (encode cfg base rows m) (length m) (?f (0 + 4))"
    unfolding encode_def
  proof (rule yields_for_up [where f = ?f])
    fix i m'
    assume i: "i < 0 + 4" and m': "length m' = length m" "bit_at m' = ?f i"
    have "Suc i * I \<le> 4 * I" by (rule mult_le_mono1) (use i in simp)
    then have range: "base + i * I + I \<le> 8 * length m'"
      using assms(1) unfolding m'(1) core_layer_bits_def I_def [symmetric] mult_Suc by linarith
    have bit: "layer_bit cfg rows (p - base) = row_bit cfg rows i (p - (base + i * I))"
      if "base + i * I \<le> p" "p < base + i * I + I" for p
    proof -
      have "p - base = i * I + (p - (base + i * I))" using that by simp
      moreover have "p - (base + i * I) < I" using that by linarith
      ultimately show ?thesis using layer_bit_row [of "p - (base + i * I)" cfg rows i] by (simp add: I_def)
    qed
    show "yields (for_up (\<lambda>fld. for_up (encode_bit (base + i * instruction_size cfg + o_tab cfg ! fld)
        (rows ! (i * 3 + fld))) 0 (s_tab cfg ! fld)) 0 3 m') (length m) (?f (Suc i))"
      unfolding m'(1) [symmetric]
    proof (rule yields_cong [OF encode_row_yields])
      show "(\<lambda>p. bit_at m' p \<or> (base + i * instruction_size cfg \<le> p \<and>
            p < base + i * instruction_size cfg + instruction_size cfg \<and>
            row_bit cfg rows i (p - (base + i * instruction_size cfg)))) = ?f (Suc i)"
        unfolding I_def [symmetric] m'(2)
      proof (rule ext)
        fix p
        have "base + Suc i * I = base + i * I + I" by simp
        then show "((bit_at m p \<or> base \<le> p \<and> p < base + i * I \<and> layer_bit cfg rows (p - base)) \<or>
            base + i * I \<le> p \<and> p < base + i * I + I \<and> row_bit cfg rows i (p - (base + i * I))) = ?f (Suc i) p"
          using bit [of p] by (cases "base + i * I \<le> p"; cases "p < base + i * I + I") auto
      qed
    qed (use range in \<open>simp add: I_def\<close>)
  qed auto
  then show ?thesis by (simp add: core_layer_bits_def I_def)
qed

section \<open>The layout\<close>

definition core_ok :: "config \<Rightarrow> bool" where
  "core_ok cfg \<longleftrightarrow> config_ok cfg \<and> core_configuration_valid cfg"

lemma round_up_8: "(x + 8 - 1) div 8 * 8 = (x + 7) div 8 * (8 :: nat)"
  by simp

lemma core_sizes:
  assumes "core_ok cfg"
  shows "5 \<le> instruction_size cfg" and "20 \<le> core_layer_bits cfg" and "core_layer_bits cfg \<le> 368"
    and "core_layer_bits cfg + 8 \<le> core_input_bits cfg" and "core_input_bits cfg \<le> core_layer_bits cfg + 15"
    and "core_input_bits cfg mod 8 = 0"
    and "core_layer_bits cfg \<le> core_boot_bits cfg" and "2 * core_input_bits cfg + 2 \<le> 2 ^ core_status_bits cfg"
    and "core_layer_bits cfg \<le> processor_bits cfg"
    and "core_table_bits cfg = 2 ^ core_status_bits cfg * core_boot_bits cfg"
    and "0 < core_boot_bits cfg"
proof -
  have ok: "config_ok cfg" using assms by (simp add: core_ok_def)
  note C = config_bounds [OF ok]
  show I: "5 \<le> instruction_size cfg" using C(2) by (simp add: instruction_size_def n_size_def)
  show L: "20 \<le> core_layer_bits cfg" using I by (simp add: core_layer_bits_def)
  show L': "core_layer_bits cfg \<le> 368" using C(3) by (simp add: core_layer_bits_def instruction_size_def n_size_def)
  show "core_layer_bits cfg + 8 \<le> core_input_bits cfg" unfolding core_input_bits_def by presburger
  show IB: "core_input_bits cfg \<le> core_layer_bits cfg + 15" unfolding core_input_bits_def by presburger
  show "core_input_bits cfg mod 8 = 0" by (simp add: core_input_bits_def)
  show "core_layer_bits cfg \<le> core_boot_bits cfg"
    unfolding core_boot_bits_def core_entry_shift_def using L' by (intro ceil_log2_least) simp
  show "2 * core_input_bits cfg + 2 \<le> 2 ^ core_status_bits cfg"
    unfolding core_status_bits_def using L' IB by (intro ceil_log2_least) simp
  show "core_layer_bits cfg \<le> processor_bits cfg"
    unfolding core_layer_bits_def processor_bits_def by (rule mult_le_mono1 [OF C(1)])
  show "core_table_bits cfg = 2 ^ core_status_bits cfg * core_boot_bits cfg"
    by (simp add: core_table_bits_def core_boot_bits_def power_add)
  show "0 < core_boot_bits cfg" by (simp add: core_boot_bits_def)
qed

lemma core_places:
  assumes "core_ok cfg"
  shows "processor_bits cfg \<le> core_buffer_start cfg" and "core_buffer_start cfg mod 8 = 0"
    and "core_buffer_start cfg + core_input_bits cfg \<le> core_restart_start cfg + core_layer_bits cfg"
    and "core_restart_start cfg = core_buffer_start cfg + core_boot_bits cfg"
    and "core_restart_start cfg + core_layer_bits cfg \<le> core_error_message_start cfg"
    and "core_error_message_start cfg mod 8 = 0"
    and "core_error_zero_start cfg = core_error_message_start cfg + 232"
    and "core_error_zero_start cfg + core_layer_bits cfg \<le> core_table_start cfg"
    and "core_table_start cfg mod core_table_bits cfg = 0"
    and "core_table_start cfg + core_table_bits cfg \<le> space_size cfg"
proof -
  note S = core_sizes [OF assms]
  show "processor_bits cfg \<le> core_buffer_start cfg" unfolding core_buffer_start_def by presburger
  show "core_buffer_start cfg mod 8 = 0" by (simp add: core_buffer_start_def)
  show R: "core_restart_start cfg = core_buffer_start cfg + core_boot_bits cfg" by (rule core_restart_start_def)
  show "core_buffer_start cfg + core_input_bits cfg \<le> core_restart_start cfg + core_layer_bits cfg"
    using S(2,5,7) by (simp add: R)
  show "core_restart_start cfg + core_layer_bits cfg \<le> core_error_message_start cfg"
    unfolding core_error_message_start_def by presburger
  show "core_error_message_start cfg mod 8 = 0" by (simp add: core_error_message_start_def)
  show "core_error_zero_start cfg = core_error_message_start cfg + 232"
    by (simp add: core_error_zero_start_def core_error_message_bits_def core_error_message_def)
  define W where "W = core_table_bits cfg"
  have "0 < W" by (simp add: W_def core_table_bits_def)
  have "x \<le> (x + W - 1) div W * W" for x
    using \<open>0 < W\<close> div_mult_mod_eq [of "x + W - 1" W] mod_less_divisor [of W "x + W - 1"] by linarith
  then show "core_error_zero_start cfg + core_layer_bits cfg \<le> core_table_start cfg"
    by (simp add: core_table_start_def W_def)
  show "core_table_start cfg mod core_table_bits cfg = 0" by (simp add: core_table_start_def)
  show "core_table_start cfg + core_table_bits cfg \<le> space_size cfg"
    using assms by (simp add: core_ok_def core_configuration_valid_def)
qed

section \<open>The image\<close>

definition entry_rows :: "config \<Rightarrow> nat \<Rightarrow> nat list" where
  "entry_rows cfg e = (if e = 2 * core_input_bits cfg then activate_rows cfg else failure_rows cfg)"

definition table_bit :: "config \<Rightarrow> nat \<Rightarrow> bool" where
  "table_bit cfg q \<longleftrightarrow> q mod core_boot_bits cfg < core_layer_bits cfg \<and>
     layer_bit cfg (entry_rows cfg (q div core_boot_bits cfg)) (q mod core_boot_bits cfg)"

definition core_bits :: "config \<Rightarrow> nat \<Rightarrow> bool" where
  "core_bits cfg p \<longleftrightarrow>
     blit 232 0 (core_error_message_start cfg) (bit_at message_bytes)
       (\<lambda>p. p < core_layer_bits cfg \<and> layer_bit cfg (core_rows cfg) p \<or>
            core_restart_start cfg \<le> p \<and> p < core_restart_start cfg + core_layer_bits cfg \<and>
            layer_bit cfg (core_rows cfg) (p - core_restart_start cfg)) p \<or>
     core_table_start cfg \<le> p \<and> p < core_table_start cfg + core_table_bits cfg \<and>
       table_bit cfg (p - core_table_start cfg)"

lemma length_message_bytes [simp]: "length message_bytes = 29"
  by (simp add: message_bytes_def core_error_message_def)

lemma core_table_yields:
  assumes ok: "core_ok cfg" and len: "core_table_start cfg + core_table_bits cfg \<le> 8 * length m"
  shows "yields (for_up (core_table_entry cfg) 0 (2 ^ core_status_bits cfg) m) (length m)
    (\<lambda>p. bit_at m p \<or> core_table_start cfg \<le> p \<and> p < core_table_start cfg + core_table_bits cfg \<and>
       table_bit cfg (p - core_table_start cfg))"
proof -
  note S = core_sizes [OF ok]
  define T where "T = core_table_start cfg"
  define B where "B = core_boot_bits cfg"
  define L where "L = core_layer_bits cfg"
  let ?f = "\<lambda>e p. bit_at m p \<or> T \<le> p \<and> p < T + e * B \<and> table_bit cfg (p - T)"
  have table: "core_table_bits cfg = 2 ^ core_status_bits cfg * B" by (simp add: S(10) B_def)
  have "yields (for_up (core_table_entry cfg) 0 (2 ^ core_status_bits cfg) m) (length m) (?f (0 + 2 ^ core_status_bits cfg))"
  proof (rule yields_for_up [where f = ?f])
    fix e m'
    assume e: "e < 0 + 2 ^ core_status_bits cfg" and m': "length m' = length m" "bit_at m' = ?f e"
    have "Suc e * B \<le> 2 ^ core_status_bits cfg * B" by (rule mult_le_mono1) (use e in simp)
    then have range: "T + e * B + L \<le> 8 * length m'"
      using len S(7) unfolding m'(1) table mult_Suc T_def B_def L_def by linarith
    have inside: "table_bit cfg (p - T) \<longleftrightarrow> p < T + e * B + L \<and> layer_bit cfg (entry_rows cfg e) (p - (T + e * B))"
      if "T + e * B \<le> p" "p < T + e * B + B" for p
    proof -
      obtain r where r: "p = T + e * B + r" using \<open>T + e * B \<le> p\<close> by (auto simp: le_iff_add)
      then have "r < B" using that by simp
      then show ?thesis using S(7) by (simp add: table_bit_def r flip: B_def L_def)
    qed
    show "yields (core_table_entry cfg e m') (length m) (?f (Suc e))"
      unfolding m'(1) [symmetric] core_table_entry_def entry_rows_def [symmetric]
    proof (rule yields_cong [OF encode_yields])
      show "(\<lambda>p. bit_at m' p \<or> core_table_start cfg + e * core_boot_bits cfg \<le> p \<and>
            p < core_table_start cfg + e * core_boot_bits cfg + core_layer_bits cfg \<and>
            layer_bit cfg (entry_rows cfg e) (p - (core_table_start cfg + e * core_boot_bits cfg))) = ?f (Suc e)"
        unfolding T_def [symmetric] B_def [symmetric] L_def [symmetric] m'(2)
      proof (rule ext)
        fix p
        have "T + Suc e * B = T + e * B + B" "L \<le> B" using S(7) by (simp_all add: L_def B_def)
        then show "((bit_at m p \<or> T \<le> p \<and> p < T + e * B \<and> table_bit cfg (p - T)) \<or>
            T + e * B \<le> p \<and> p < T + e * B + L \<and> layer_bit cfg (entry_rows cfg e) (p - (T + e * B))) = ?f (Suc e) p"
          using inside [of p] by (cases "T + e * B \<le> p"; cases "p < T + e * B + B") auto
      qed
    qed (use range S(1) in \<open>simp_all add: T_def B_def L_def\<close>)
  qed auto
  then show ?thesis by (simp add: table T_def)
qed

lemma core_image_yields:
  assumes ok: "core_ok cfg"
  shows "yields (core_image cfg) ((core_table_start cfg + core_table_bits cfg + 7) div 8) (core_bits cfg)"
proof -
  note S = core_sizes [OF ok] and P = core_places [OF ok]
  define K where "K = (core_table_start cfg + core_table_bits cfg + 7) div 8"
  define L where "L = core_layer_bits cfg"
  define R where "R = core_restart_start cfg"
  define M where "M = core_error_message_start cfg"
  let ?lb = "layer_bit cfg (core_rows cfg)"
  have K: "core_table_start cfg + core_table_bits cfg \<le> 8 * K" unfolding K_def by presburger
  have fit: "R + L \<le> 8 * K" "M + 232 \<le> 8 * K" using K P(5,7,8) by (simp_all add: R_def L_def M_def)
  obtain A where A: "M = 8 * A" using P(6) by (auto simp: M_def mod_eq_0_iff_dvd dvd_def)
  have zero: "bit_at (replicate K 0) = (\<lambda>_. False)" by (auto simp: bit_at_def fun_eq_iff)
  have "yields (do { m \<leftarrow> encode cfg processor_start (core_rows cfg) (replicate K 0);
      m \<leftarrow> encode cfg R (core_rows cfg) m;
      m \<leftarrow> mem_move (length message_bytes) message_bytes 0 m (M div 8);
      for_up (core_table_entry cfg) 0 (2 ^ core_status_bits cfg) m }) K (core_bits cfg)"
  proof (rule yields_bind [OF encode_yields])
    fix m1
    assume m1: "length m1 = length (replicate K (0 :: u8))"
      "bit_at m1 = (\<lambda>p. bit_at (replicate K 0) p \<or> (processor_start \<le> p \<and> p < processor_start + core_layer_bits cfg \<and>
         ?lb (p - processor_start)))"
    show "yields (do { m \<leftarrow> encode cfg R (core_rows cfg) m1;
        m \<leftarrow> mem_move (length message_bytes) message_bytes 0 m (M div 8);
        for_up (core_table_entry cfg) 0 (2 ^ core_status_bits cfg) m }) K (core_bits cfg)"
    proof (rule yields_bind [OF encode_yields])
      fix m2
      assume m2: "length m2 = length m1"
        "bit_at m2 = (\<lambda>p. bit_at m1 p \<or> (R \<le> p \<and> p < R + core_layer_bits cfg \<and> ?lb (p - R)))"
      show "yields (do { m \<leftarrow> mem_move (length message_bytes) message_bytes 0 m2 (M div 8);
          for_up (core_table_entry cfg) 0 (2 ^ core_status_bits cfg) m }) K (core_bits cfg)"
      proof (rule yields_bind [OF mem_move_bits])
        fix m3
        assume m3: "length m3 = length m2"
          "bit_at m3 = blit (8 * length message_bytes) (8 * 0) (8 * (M div 8)) (bit_at message_bytes) (bit_at m2)"
        have len: "length m3 = K" using m1 m2 m3 by simp
        from core_table_yields [OF ok, of m3] K
        have "yields (for_up (core_table_entry cfg) 0 (2 ^ core_status_bits cfg) m3) K
            (\<lambda>p. bit_at m3 p \<or> core_table_start cfg \<le> p \<and> p < core_table_start cfg + core_table_bits cfg \<and>
              table_bit cfg (p - core_table_start cfg))"
          by (simp only: len)
        then show "yields (for_up (core_table_entry cfg) 0 (2 ^ core_status_bits cfg) m3) K (core_bits cfg)"
          by (rule yields_cong)
            (simp add: fun_eq_iff core_bits_def m3 m2 m1 A zero processor_start_def flip: R_def L_def M_def)
      qed (use fit m1 m2 in \<open>simp_all add: A\<close>)
    qed (use fit m1 S(1) in \<open>simp_all add: L_def\<close>)
  qed (use fit S(1) in \<open>simp_all add: L_def processor_start_def\<close>)
  moreover have "(core_table_start cfg + core_table_bits cfg + 8 - 1) div 8 = K" by (simp add: K_def add.commute)
  ultimately show ?thesis by (simp add: core_image_def Let_def R_def M_def flip: K_def)
qed

lemma space_init_total:
  assumes "length m \<le> vm_space_bytes cfg" and "machine_ok cfg st"
  shows "\<exists>st'. space_init cfg (Some m) (length m) st = Some (st', 0) \<and> in_stream st' = in_stream st \<and>
    out_bytes st' = out_bytes st \<and> out_faults st' = out_faults st \<and> events st' = events st"
  using assms(1) machine_okD(2) [OF assms(2)]
  by (cases "m = []") (auto simp: space_init_def mem_move_def mem_fill_def)

lemma core_init_bits:
  assumes ok: "core_ok cfg" and st: "machine_ok cfg st"
  obtains st' where "core_init cfg True st = Some (st', 0)" and "machine_ok cfg st'"
    and "abs_of st' = (abs_of st)\<lparr>bm_bits := core_bits cfg\<rparr>" and "events st' = events st"
proof -
  obtain m where m: "core_image cfg = Some m" "length m = (core_table_start cfg + core_table_bits cfg + 7) div 8"
      "bit_at m = core_bits cfg"
    using core_image_yields [OF ok] by (rule yieldsE)
  have "core_table_start cfg + core_table_bits cfg \<le> 8 * vm_space_bytes cfg"
    using core_places(10) [OF ok] by (simp add: space_size_def)
  then have fit: "length m \<le> vm_space_bytes cfg" unfolding m(2) by linarith
  obtain st' where st': "space_init cfg (Some m) (length m) st = Some (st', 0)" "in_stream st' = in_stream st"
      "out_bytes st' = out_bytes st" "out_faults st' = out_faults st" "events st' = events st"
    using space_init_total [OF fit st] by blast
  show thesis
    using that [of st'] st' space_init_bits [OF st fit st'(1)] m(1,3) by (simp add: core_init_def abs_of_def)
qed

text \<open>What the image holds where.\<close>

lemma core_bits_layer:
  assumes "core_ok cfg" and "p < core_layer_bits cfg"
  shows "core_bits cfg p = layer_bit cfg (core_rows cfg) p"
  using core_sizes [OF assms(1)] core_places [OF assms(1)] assms(2)
  by (auto simp: core_bits_def blit_def)

lemma core_bits_between:
  assumes "core_ok cfg" and "core_layer_bits cfg \<le> p" and "p < core_restart_start cfg"
  shows "\<not> core_bits cfg p"
  using core_sizes [OF assms(1)] core_places [OF assms(1)] assms(2,3)
  by (auto simp: core_bits_def blit_def)

lemma core_bits_restart:
  assumes "core_ok cfg" and "q < core_layer_bits cfg"
  shows "core_bits cfg (core_restart_start cfg + q) = layer_bit cfg (core_rows cfg) q"
  using core_sizes [OF assms(1)] core_places [OF assms(1)] assms(2)
  by (auto simp: core_bits_def blit_def)

lemma core_bits_message:
  assumes "core_ok cfg" and "q < 232"
  shows "core_bits cfg (core_error_message_start cfg + q) = bit_at message_bytes q"
  using core_sizes [OF assms(1)] core_places [OF assms(1)] assms(2)
  by (auto simp: core_bits_def blit_def)

lemma core_bits_zero:
  assumes "core_ok cfg" and "q < core_layer_bits cfg"
  shows "\<not> core_bits cfg (core_error_zero_start cfg + q)"
  using core_sizes [OF assms(1)] core_places [OF assms(1)] assms(2)
  by (auto simp: core_bits_def blit_def)

lemma core_bits_table:
  assumes ok: "core_ok cfg" and e: "e < 2 ^ core_status_bits cfg" and q: "q < core_layer_bits cfg"
  shows "core_bits cfg (core_table_start cfg + e * core_boot_bits cfg + q) = layer_bit cfg (entry_rows cfg e) q"
proof -
  note S = core_sizes [OF ok] and P = core_places [OF ok]
  have "Suc e * core_boot_bits cfg \<le> 2 ^ core_status_bits cfg * core_boot_bits cfg"
    by (rule mult_le_mono1) (use e in simp)
  then have "e * core_boot_bits cfg + q < core_table_bits cfg" using q S(7,10) by simp
  moreover have "table_bit cfg (e * core_boot_bits cfg + q) = layer_bit cfg (entry_rows cfg e) q"
    using q S(7) by (simp add: table_bit_def)
  ultimately show ?thesis using P(4,5,7,8) by (auto simp: core_bits_def blit_def add.assoc)
qed

section \<open>Decoding a layer\<close>

definition rows_fit :: "config \<Rightarrow> nat list \<Rightarrow> bool" where
  "rows_fit cfg rows \<longleftrightarrow> (\<forall>slot < 4. rows ! (slot * 3) < 2 ^ n_size cfg \<and>
     rows ! (slot * 3 + 1) < 2 ^ address_size cfg \<and> rows ! (slot * 3 + 2) < 2 ^ address_size cfg)"

lemma decode_row_bit:
  assumes f: "\<And>r. r < instruction_size cfg \<Longrightarrow> f (slot * instruction_size cfg + r) = row_bit cfg rows slot r"
    and fit: "rows_fit cfg rows" and slot: "slot < 4" and ok: "config_ok cfg"
  shows "decode cfg f slot = row (rows ! (slot * 3)) (rows ! (slot * 3 + 1)) (rows ! (slot * 3 + 2))"
proof -
  note C = config_bounds(3) [OF ok] and size = instruction_size_split [of cfg]
  have N: "n_size cfg \<le> 32" "address_size cfg \<le> 32" using C by (simp_all add: n_size_def)
  have vals: "rows ! (slot * 3) < 2 ^ n_size cfg" "rows ! (slot * 3 + 1) < 2 ^ address_size cfg"
    "rows ! (slot * 3 + 2) < 2 ^ address_size cfg"
    using fit slot by (simp_all add: rows_fit_def)
  have "field_value f (slot * instruction_size cfg) (n_size cfg) = rows ! (slot * 3)"
  proof (rule field_valueI)
    fix i assume "i < n_size cfg"
    then show "f (slot * instruction_size cfg + i) = bit (rows ! (slot * 3)) i"
      using f [of i] by (simp add: size row_bit_def)
  qed (use N vals in simp_all)
  moreover have "field_value f (slot * instruction_size cfg + n_size cfg) (address_size cfg) = rows ! (slot * 3 + 1)"
  proof (rule field_valueI)
    fix i assume "i < address_size cfg"
    then show "f (slot * instruction_size cfg + n_size cfg + i) = bit (rows ! (slot * 3 + 1)) i"
      using f [of "n_size cfg + i"] by (simp add: size row_bit_def add.assoc)
  qed (use N vals in simp_all)
  moreover have "field_value f (slot * instruction_size cfg + n_size cfg + address_size cfg) (address_size cfg) = rows ! (slot * 3 + 2)"
  proof (rule field_valueI)
    fix i assume "i < address_size cfg"
    then show "f (slot * instruction_size cfg + n_size cfg + address_size cfg + i) = bit (rows ! (slot * 3 + 2)) i"
      using f [of "n_size cfg + address_size cfg + i"] by (simp add: size row_bit_def add.assoc)
  qed (use N vals in simp_all)
  ultimately show ?thesis by (simp add: decode_def)
qed

lemma decode_layer_bit:
  assumes f: "\<And>q. q < core_layer_bits cfg \<Longrightarrow> f q = layer_bit cfg rows q"
    and fit: "rows_fit cfg rows" and slot: "slot < 4" and ok: "config_ok cfg"
  shows "decode cfg f slot = row (rows ! (slot * 3)) (rows ! (slot * 3 + 1)) (rows ! (slot * 3 + 2))"
proof (rule decode_row_bit [OF _ fit slot ok])
  fix r assume r: "r < instruction_size cfg"
  have "Suc slot * instruction_size cfg \<le> 4 * instruction_size cfg" by (rule mult_le_mono1) (use slot in simp)
  then have "slot * instruction_size cfg + r < core_layer_bits cfg"
    using r unfolding core_layer_bits_def mult_Suc by linarith
  then show "f (slot * instruction_size cfg + r) = row_bit cfg rows slot r"
    using f layer_bit_row [OF r] by simp
qed

section \<open>The three layers\<close>

lemma core_fields:
  assumes ok: "core_ok cfg"
  shows "core_input_bits cfg < 2 ^ n_size cfg" and "core_layer_bits cfg < 2 ^ n_size cfg"
    and "core_status_bits cfg < 2 ^ n_size cfg" and "232 < (2 :: nat) ^ n_size cfg"
    and "core_status_bits cfg + core_entry_shift cfg \<le> address_size cfg"
    and "space_size cfg \<le> 2 ^ address_size cfg" and "232 < space_size cfg div 2"
    and "core_input_bits cfg < space_size cfg div 2"
proof -
  have cfg: "config_ok cfg" using ok by (simp add: core_ok_def)
  note C = config_bounds [OF cfg] and S = core_sizes [OF ok] and P = core_places [OF ok]
  show space: "space_size cfg \<le> 2 ^ address_size cfg"
    unfolding address_size_def by (rule ceil_log2_least) (rule C(5))
  have "(2 :: nat) ^ address_size cfg = 2 * 2 ^ n_size cfg"
    using C(2) by (simp add: n_size_def flip: power_Suc)
  then have half: "space_size cfg div 2 \<le> 2 ^ n_size cfg" using space by simp
  show IB: "core_input_bits cfg < space_size cfg div 2"
    using ok by (simp add: core_ok_def core_configuration_valid_def)
  then show IB': "core_input_bits cfg < 2 ^ n_size cfg" using half by simp
  then show "core_layer_bits cfg < 2 ^ n_size cfg" using S(4) by simp
  have pos: "0 < core_table_bits cfg" by (simp add: core_table_bits_def)
  have "core_status_bits cfg \<le> core_input_bits cfg"
  proof -
    have "2 * k + 2 \<le> (2 :: nat) ^ k" if "28 \<le> k" for k
      using that by (induction k rule: dec_induct) simp_all
    then have "2 * core_input_bits cfg + 2 \<le> 2 ^ core_input_bits cfg" using S(2,4) by simp
    then show ?thesis
      unfolding core_status_bits_def using S(3,5) by (intro ceil_log2_least) simp_all
  qed
  then show "core_status_bits cfg < 2 ^ n_size cfg" using IB' by simp
  have "58 * 20 \<le> core_table_bits cfg"
    unfolding S(10) by (rule mult_le_mono) (use S(2,4,7,8) in linarith)+
  then show big: "232 < space_size cfg div 2" using P(10) by linarith
  then show "232 < (2 :: nat) ^ n_size cfg" using half by simp
  have "(2 :: nat) ^ (core_status_bits cfg + core_entry_shift cfg) \<le> 2 ^ address_size cfg"
    using P(10) space unfolding core_table_bits_def by linarith
  then show "core_status_bits cfg + core_entry_shift cfg \<le> address_size cfg"
    by (simp only: power_increasing_iff one_less_numeral_iff semiring_norm)
qed

lemma rows_fit_list:
  "rows_fit cfg [a0, a1, a2, b0, b1, b2, c0, c1, c2, d0, d1, d2] \<longleftrightarrow>
     a0 < 2 ^ n_size cfg \<and> b0 < 2 ^ n_size cfg \<and> c0 < 2 ^ n_size cfg \<and> d0 < 2 ^ n_size cfg \<and>
     (\<forall>a \<in> {a1, a2, b1, b2, c1, c2, d1, d2}. a < 2 ^ address_size cfg)"
proof -
  have "(\<forall>slot < (4 :: nat). Q slot) \<longleftrightarrow> Q 0 \<and> Q 1 \<and> Q 2 \<and> Q 3" for Q
    by (auto simp: numeral_eq_Suc less_Suc_eq)
  then show ?thesis by (auto simp: rows_fit_def)
qed

lemma message_bits: "core_error_message_bits = 232"
  by (simp add: core_error_message_bits_def core_error_message_def)

lemma rows_fit_core:
  assumes ok: "core_ok cfg"
  shows "rows_fit cfg (core_rows cfg)" and "rows_fit cfg (activate_rows cfg)" and "rows_fit cfg (failure_rows cfg)"
proof -
  note S = core_sizes [OF ok] and P = core_places [OF ok] and F = core_fields [OF ok]
  have I: "core_layer_bits cfg = 4 * instruction_size cfg" "instruction_size cfg = n_size cfg + address_size cfg + address_size cfg"
    by (simp_all add: core_layer_bits_def instruction_size_split)
  have addr: "x < space_size cfg \<Longrightarrow> x < 2 ^ address_size cfg" for x using F(6) by simp
  have pos: "0 < core_table_bits cfg" by (simp add: core_table_bits_def)
  have "core_table_start cfg < space_size cfg" "core_buffer_start cfg < space_size cfg"
    "core_error_message_start cfg < space_size cfg" "core_error_zero_start cfg < space_size cfg"
    "3 * instruction_size cfg + n_size cfg + address_size cfg + core_entry_shift cfg < space_size cfg"
    "instruction_size cfg + n_size cfg + address_size cfg < space_size cfg"
    using S(9) P(1,4,5,7,8,10) F(5) I pos by linarith+
  note T = this [THEN addr]
  show "rows_fit cfg (core_rows cfg)" "rows_fit cfg (activate_rows cfg)" "rows_fit cfg (failure_rows cfg)"
    using F T by (simp_all add: rows_fit_list core_rows_def activate_rows_def failure_rows_def
        processor_start_def message_bits)
qed

section \<open>The ticks of the core\<close>

lemma copy_slots_rest:
  assumes "4 \<le> n"
  shows "copy_slots 0 n = 0 # 3 # [4..<n]"
proof -
  obtain k where n: "n = Suc (Suc (Suc (Suc k)))"
    using assms by (metis Suc_le_D numeral_eq_Suc pred_numeral_simps Suc_le_mono BitM.simps semiring_norm(26-28))
  have "copy_slots 4 k = [4..<4 + k]" unfolding copy_slots_def by (rule filter_True) auto
  then show ?thesis by (simp add: n numeral_eq_Suc)
qed

text \<open>
  The instructions behind the fourth are empty as long as the rest of the processor is; a
  tick of such a machine is its two channels and two instructions.
\<close>

definition quiet_rest :: "config \<Rightarrow> (nat \<Rightarrow> bool) \<Rightarrow> bool" where
  "quiet_rest cfg f \<longleftrightarrow> (\<forall>p. core_layer_bits cfg \<le> p \<and> p < processor_bits cfg \<longrightarrow> \<not> f p)"

lemma quiet_slots:
  assumes cfg: "config_ok cfg" and quiet: "quiet_rest cfg f"
  shows "exec_slots cfg [4..<processor_n cfg] f = (f, True)"
proof (rule exec_slots_nops)
  fix i assume "i \<in> set [4..<processor_n cfg]"
  then have i: "4 \<le> i" "i < processor_n cfg" by simp_all
  have "4 * instruction_size cfg \<le> i * instruction_size cfg" by (rule mult_le_mono1 [OF i(1)])
  then have "core_layer_bits cfg \<le> p \<and> p < processor_bits cfg"
    if "i * instruction_size cfg \<le> p" "p < Suc i * instruction_size cfg" for p
    using that instruction_in_processor [OF i(2)] unfolding core_layer_bits_def mult_Suc by linarith
  then show "fld_n (decode cfg f i) = 0"
    using quiet config_bounds(3) [OF cfg] by (intro decode_zero) (auto simp: quiet_rest_def n_size_def)
qed

lemma quiet_tick:
  assumes cfg: "config_ok cfg" and active: "i < processor_n cfg" "fld_n (decode cfg (bm_bits b) i) \<noteq> 0"
    and chan: "spec_channel cfg (decode cfg (bm_bits b) 1) 1 False
      (spec_channel cfg (decode cfg (bm_bits b) 2) 2 True b) = c"
    and exec: "exec_slots cfg [0, 3] (bm_bits c) = (g, True)" and quiet: "quiet_rest cfg g"
  shows "spec_step cfg b = (c\<lparr>bm_bits := g\<rparr>, SPACE_STEP_DONE)"
proof -
  have slots: "copy_slots 0 (processor_n cfg) = [0, 3] @ [4..<processor_n cfg]"
    using copy_slots_rest [OF config_bounds(1) [OF cfg]] by simp
  have all: "exec_slots cfg (copy_slots 0 (processor_n cfg)) (bm_bits c) = (g, True)"
    unfolding slots exec_slots_append exec using quiet_slots [OF cfg quiet] by simp
  have "\<not> (\<forall>i < processor_n cfg. fld_n (decode cfg (bm_bits b) i) = 0)"
    using active by (metis (no_types))
  then show ?thesis by (simp only: spec_step_def if_not_P Let_def chan all prod.case if_True if_False)
qed

text \<open>The instruction fields that the first tick rewrites lie in the first layer.\<close>

definition status_field :: "config \<Rightarrow> nat \<Rightarrow> nat" where
  "status_field cfg slot = slot * instruction_size cfg + n_size cfg + address_size cfg"

lemma row_at_decode:
  assumes "decode cfg f i = row n d s" and "\<And>p. i * instruction_size cfg \<le> p \<Longrightarrow> p < Suc i * instruction_size cfg \<Longrightarrow> g p = f p"
  shows "decode cfg g i = row n d s"
  using assms by (metis decode_cong)

text \<open>
  The layer that \<open>core_reads\<close> selects by the outcome of the read: \<open>got\<close> bytes were read, \<open>err\<close>
  says whether a read error ended them.
\<close>

definition read_status :: "config \<Rightarrow> nat \<Rightarrow> bool \<Rightarrow> nat" where
  "read_status cfg got err = 2 * (8 * got) + of_bool (got \<noteq> core_input_bits cfg div 8 \<and> err)"

lemma read_status_less:
  assumes "core_ok cfg" and "got \<le> core_input_bits cfg div 8"
  shows "read_status cfg got err < 2 ^ core_status_bits cfg"
    and "read_status cfg got err = 2 * core_input_bits cfg \<longleftrightarrow> got = core_input_bits cfg div 8"
proof -
  obtain k where k: "core_input_bits cfg = 8 * k"
    using core_sizes(6) [OF assms(1)] by (auto simp: mod_eq_0_iff_dvd dvd_def)
  have "2 * (8 * k) + 2 \<le> 2 ^ core_status_bits cfg" using core_sizes(8) [OF assms(1)] by (simp add: k)
  moreover have "got \<le> k" using assms(2) by (simp add: k)
  ultimately show "read_status cfg got err < 2 ^ core_status_bits cfg"
    by (auto simp: read_status_def k)
  show "read_status cfg got err = 2 * core_input_bits cfg \<longleftrightarrow> got = core_input_bits cfg div 8"
    using \<open>got \<le> k\<close> by (auto simp: read_status_def k)
qed

lemma bit_unat_u32: "bit (unat (w :: u32)) i \<longleftrightarrow> bit w i"
  by (auto simp: bit_unsigned_iff dest: bit_imp_le_length)

lemma patched_entry:
  assumes ok: "core_ok cfg" and s: "s < 2 ^ core_status_bits cfg"
  shows "bit (core_table_start cfg + s * core_boot_bits cfg) i \<longleftrightarrow>
    (if core_entry_shift cfg \<le> i \<and> i < core_entry_shift cfg + core_status_bits cfg
     then bit s (i - core_entry_shift cfg) else bit (core_table_start cfg) i)"
proof -
  let ?k = "core_status_bits cfg + core_entry_shift cfg"
  have e: "s * core_boot_bits cfg = push_bit (core_entry_shift cfg) s"
    by (simp add: core_boot_bits_def push_bit_eq_mult)
  have T: "core_table_start cfg mod 2 ^ ?k = 0"
    using core_places(9) [OF ok] by (simp add: core_table_bits_def)
  have "s * core_boot_bits cfg < 2 ^ core_status_bits cfg * core_boot_bits cfg"
    using s core_sizes(11) [OF ok] by simp
  then have lt: "s * core_boot_bits cfg < 2 ^ ?k" by (simp add: core_boot_bits_def power_add)
  have low: "\<not> bit (core_table_start cfg) i" if "i < ?k"
    using aligned_bits [OF T, of 0 i] that by simp
  show ?thesis
    using aligned_bits [OF T lt, of i] low by (auto simp: e bit_push_bit_iff)
qed

lemma core_slots:
  assumes ok: "core_ok cfg"
  shows "decode cfg (core_bits cfg) 0 = row (core_status_bits cfg) (status_field cfg 3 + core_entry_shift cfg) (status_field cfg 1)"
    and "decode cfg (core_bits cfg) 1 = row (core_input_bits cfg) (core_buffer_start cfg) 0"
    and "decode cfg (core_bits cfg) 2 = row 0 0 0"
    and "decode cfg (core_bits cfg) 3 = row (core_layer_bits cfg) 0 (core_table_start cfg)"
  using decode_layer_bit [OF core_bits_layer [OF ok] rows_fit_core(1) [OF ok], of 0]
    decode_layer_bit [OF core_bits_layer [OF ok] rows_fit_core(1) [OF ok], of 1]
    decode_layer_bit [OF core_bits_layer [OF ok] rows_fit_core(1) [OF ok], of 2]
    decode_layer_bit [OF core_bits_layer [OF ok] rows_fit_core(1) [OF ok], of 3] ok
  by (simp_all add: core_ok_def core_rows_def status_field_def processor_start_def)

text \<open>The input channel in front of the core.\<close>

definition read_bits :: "config \<Rightarrow> mem \<Rightarrow> nat \<Rightarrow> bool" where
  "read_bits cfg bs = blit (8 * length bs) 0 (core_buffer_start cfg) (bit_at bs) (core_bits cfg)"

lemma core_channel:
  assumes ok: "core_ok cfg" and bits: "bm_bits b = core_bits cfg"
    and read: "fread_bytes (core_input_bits cfg div 8) (bm_in b) = (bs, err, rest)"
  obtains g where "spec_channel cfg (decode cfg (bm_bits b) 1) 1 False
      (spec_channel cfg (decode cfg (bm_bits b) 2) 2 True b) = b\<lparr>bm_bits := g, bm_in := rest\<rparr>"
    and "\<And>p. p < status_field cfg 1 \<or> status_field cfg 1 + address_size cfg \<le> p \<Longrightarrow> g p = read_bits cfg bs p"
    and "\<And>i. i < address_size cfg \<Longrightarrow> g (status_field cfg 1 + i) = bit (read_status cfg (length bs) err) i"
proof -
  note S = core_sizes [OF ok] and P = core_places [OF ok] and F = core_fields [OF ok]
  define code :: nat where "code = (if length bs \<noteq> core_input_bits cfg div 8 then (if err then 2 else 1) else 0)"
  have len: "length bs * 8 \<le> core_input_bits cfg"
    using fread_bytes_length [OF read] by linarith
  have good: "\<not> bad_channel cfg (core_input_bits cfg) (core_buffer_start cfg)"
    using S P F(8) by (auto simp: bad_channel_def)
  have d: "decode cfg (bm_bits b) 1 = row (core_input_bits cfg) (core_buffer_start cfg) 0"
    "decode cfg (bm_bits b) 2 = row 0 0 0"
    by (simp_all only: bits core_slots [OF ok])
  have input: "spec_in (core_input_bits cfg) (core_buffer_start cfg) b
      = (b\<lparr>bm_bits := read_bits cfg bs, bm_in := rest\<rparr>, length bs, code)"
    by (simp add: spec_in_def read code_def read_bits_def bits)
  have chan: "spec_channel cfg (decode cfg (bm_bits b) 1) 1 False
      (spec_channel cfg (decode cfg (bm_bits b) 2) 2 True b) =
      b\<lparr>bm_bits := blit (address_size cfg) 0 (status_field cfg 1) (bit (channel_status (length bs) code)) (read_bits cfg bs),
        bm_in := rest\<rparr>"
    unfolding d using S(2,4) good input by (cases b) (simp add: spec_channel_def status_field_def)
  have status: "unat (channel_status (length bs) code) = read_status cfg (length bs) err"
    using channel_status_value(1) [of cfg "length bs" "core_input_bits cfg" code] ok F(8) len
    by (simp add: core_ok_def read_status_def code_def)
  show thesis
  proof (rule that [OF chan])
    show "blit (address_size cfg) 0 (status_field cfg 1) (bit (channel_status (length bs) code)) (read_bits cfg bs)
        (status_field cfg 1 + i) = bit (read_status cfg (length bs) err) i" if "i < address_size cfg" for i
      using that by (simp add: blit_in flip: status bit_unat_u32)
  qed (auto simp: blit_def)
qed

lemma status_places:
  assumes ok: "core_ok cfg"
  shows "status_field cfg 1 + address_size cfg = 2 * instruction_size cfg"
    and "status_field cfg 3 + address_size cfg = core_layer_bits cfg"
    and "core_status_bits cfg + core_entry_shift cfg \<le> address_size cfg"
    and "instruction_size cfg \<le> status_field cfg 1" and "core_layer_bits cfg = 4 * instruction_size cfg"
    and "status_field cfg 3 = 3 * instruction_size cfg + (n_size cfg + address_size cfg)"
  using core_fields(5) [OF ok]
  by (simp_all add: status_field_def core_layer_bits_def instruction_size_split)

lemma entry_place:
  assumes ok: "core_ok cfg" and s: "s < 2 ^ core_status_bits cfg"
  shows "core_table_start cfg + s * core_boot_bits cfg + core_layer_bits cfg \<le> space_size cfg"
proof -
  have "Suc s * core_boot_bits cfg \<le> 2 ^ core_status_bits cfg * core_boot_bits cfg"
    by (rule mult_le_mono1) (use s in simp)
  then show ?thesis
    using core_sizes(7,10) [OF ok] core_places(10) [OF ok] unfolding mult_Suc by linarith
qed

text \<open>Slot 0 patches the address in slot 3, and slot 3 loads the entry.\<close>

lemma core_selects:
  assumes ok: "core_ok cfg" and len: "length bs \<le> core_input_bits cfg div 8"
    and s: "s < 2 ^ core_status_bits cfg"
    and g: "\<And>p. p < status_field cfg 1 \<or> status_field cfg 1 + address_size cfg \<le> p \<Longrightarrow> g p = read_bits cfg bs p"
      "\<And>i. i < address_size cfg \<Longrightarrow> g (status_field cfg 1 + i) = bit s i"
  shows "exec_slots cfg [0, 3] g =
    (\<lambda>p. if p < core_layer_bits cfg then layer_bit cfg (entry_rows cfg s) p else read_bits cfg bs p, True)"
proof -
  note S = core_sizes [OF ok] and P = core_places [OF ok] and F = core_fields [OF ok] and Q = status_places [OF ok]
  have cfg: "config_ok cfg" using ok by (simp add: core_ok_def)
  define ST where "ST = core_status_bits cfg"
  define SH where "SH = core_entry_shift cfg"
  define E where "E = core_table_start cfg + s * core_boot_bits cfg"
  define L where "L = core_layer_bits cfg"
  define g2 where "g2 = blit ST (status_field cfg 1) (status_field cfg 3 + SH) g g"
  have below: "read_bits cfg bs p = core_bits cfg p" if "p < core_buffer_start cfg" for p
    using that by (simp add: read_bits_def blit_def)
  have above: "read_bits cfg bs p = core_bits cfg p" if "core_error_message_start cfg \<le> p" for p
    using that len P(3,5) by (auto simp: read_bits_def blit_def)
  have ST: "0 < ST" using S(2,4,8) by (cases ST) (simp_all add: ST_def)
  have "decode cfg g 0 = row ST (status_field cfg 3 + SH) (status_field cfg 1)"
    unfolding ST_def SH_def
    by (rule row_at_decode [OF core_slots(1) [OF ok]]) (use g(1) below P(1) Q S(9) in auto)
  then have "exec_slots cfg [0, 3] g = exec_slots cfg [3] g2"
    unfolding g2_def
    by (rule exec_row) (use ST Q S(9) config_bounds(4) [OF cfg] in \<open>simp_all add: ST_def SH_def\<close>)
  moreover have "exec_slots cfg [3] g2 = exec_slots cfg [] (blit L E 0 g2 g2)"
  proof (rule exec_row)
    let ?rows = "[0, 0, 0, 0, 0, 0, 0, 0, 0, L, 0, E] :: nat list"
    have slot3: "decode cfg g2 3 = row (?rows ! (3 * 3)) (?rows ! (3 * 3 + 1)) (?rows ! (3 * 3 + 2))"
    proof (rule decode_row_bit)
      fix r assume r: "r < instruction_size cfg"
      define p where "p = 3 * instruction_size cfg + r"
      have p: "p < L" "p < core_buffer_start cfg" "status_field cfg 1 + address_size cfg \<le> p"
        using r P(1) S(9) Q(1,5) by (simp_all add: p_def L_def)
      have f: "g p = row_bit cfg (core_rows cfg) 3 r"
        using g(1) [of p] p below [of p] core_bits_layer [OF ok, of p] layer_bit_row [OF r, of "core_rows cfg" 3]
        by (simp add: p_def L_def)
      show "g2 (3 * instruction_size cfg + r) = row_bit cfg ?rows 3 r"
      proof (cases "r < n_size cfg + address_size cfg")
        case True
        then have "g2 p = g p" using Q(6) by (simp add: g2_def blit_def p_def)
        then show ?thesis using True by (simp add: p_def f [unfolded p_def] row_bit_def core_rows_def L_def processor_start_def)
      next
        case False
        then obtain i where i: "r = n_size cfg + address_size cfg + i" by (auto simp: le_iff_add not_less)
        have "g2 p = (if SH \<le> i \<and> i < SH + ST then bit s (i - SH) else bit (core_table_start cfg) i)"
        proof (cases "SH \<le> i \<and> i < SH + ST")
          case True
          then obtain j where j: "i = SH + j" "j < ST" by (auto simp: le_iff_add)
          have "p = status_field cfg 3 + SH + j" using Q(6) by (simp add: p_def i j)
          then have "g2 p = g (status_field cfg 1 + j)" using j(2) by (simp add: g2_def blit_in)
          also have "\<dots> = bit s j" by (rule g(2)) (use j(2) Q(3) in \<open>simp add: ST_def\<close>)
          finally show ?thesis using j by simp
        next
          case outside: False
          have "g2 p = g p" using outside Q(6) by (auto simp: g2_def blit_def p_def i)
          also have "\<dots> = bit (core_table_start cfg) i" by (simp add: f row_bit_def core_rows_def i)
          finally show ?thesis using outside by auto
        qed
        then show ?thesis using patched_entry [OF ok s, of i]
          by (simp add: p_def row_bit_def i E_def ST_def SH_def)
      qed
    next
      have "E < space_size cfg" using entry_place [OF ok s] S(2) by (simp add: E_def)
      then show "rows_fit cfg ?rows" using F(2,6) by (simp add: rows_fit_list L_def)
    qed (simp_all add: cfg)
    then show "decode cfg g2 3 = row L 0 E" by simp
    show "0 < L" "0 + L \<le> space_size cfg" "E + L \<le> space_size cfg"
      using entry_place [OF ok s] S(2,9) config_bounds(4) [OF cfg] by (simp_all add: L_def E_def)
  qed
  moreover have "blit L E 0 g2 g2 =
      (\<lambda>p. if p < core_layer_bits cfg then layer_bit cfg (entry_rows cfg s) p else read_bits cfg bs p)"
  proof (rule ext)
    fix p
    have same: "g2 q = read_bits cfg bs q" if "L \<le> q" for q
      using that g(1) [of q] Q by (auto simp: g2_def blit_def L_def ST_def SH_def)
    show "blit L E 0 g2 g2 p = (if p < core_layer_bits cfg then layer_bit cfg (entry_rows cfg s) p else read_bits cfg bs p)"
    proof (cases "p < L")
      case True
      have "core_error_message_start cfg \<le> E + p" "L \<le> E + p"
        using P(1,4,5,7,8) S(9) by (simp_all add: E_def L_def)
      then have "g2 (E + p) = core_bits cfg (E + p)" using same [of "E + p"] above by simp
      also have "\<dots> = layer_bit cfg (entry_rows cfg s) p"
        unfolding E_def by (rule core_bits_table [OF ok s]) (use True in \<open>simp add: L_def\<close>)
      finally show ?thesis using True by (simp add: blit_def L_def)
    qed (simp add: blit_def same flip: L_def)
  qed
  ultimately show ?thesis by simp
qed

text \<open>The state of the space after the first tick.\<close>

definition chosen_bits :: "config \<Rightarrow> mem \<Rightarrow> nat list \<Rightarrow> nat \<Rightarrow> bool" where
  "chosen_bits cfg bs rows p =
     (if p < core_layer_bits cfg then layer_bit cfg rows p else read_bits cfg bs p)"

lemma quiet_read_bits:
  assumes ok: "core_ok cfg"
  shows "quiet_rest cfg (\<lambda>p. if p < core_layer_bits cfg then h p else read_bits cfg bs p)"
  using core_bits_between [OF ok] core_places [OF ok]
  by (auto simp: quiet_rest_def read_bits_def blit_def)

lemma core_reads:
  assumes ok: "core_ok cfg" and bits: "bm_bits b = core_bits cfg"
    and read: "fread_bytes (core_input_bits cfg div 8) (bm_in b) = (bs, err, rest)"
  shows "spec_step cfg b = (b\<lparr>bm_bits := chosen_bits cfg bs (if length bs = core_input_bits cfg div 8
    then activate_rows cfg else failure_rows cfg), bm_in := rest\<rparr>, SPACE_STEP_DONE)"
proof -
  have cfg: "config_ok cfg" using ok by (simp add: core_ok_def)
  have len: "length bs \<le> core_input_bits cfg div 8" by (rule fread_bytes_length [OF read])
  note s = read_status_less [OF ok len, of err]
  obtain g where g: "spec_channel cfg (decode cfg (bm_bits b) 1) 1 False
      (spec_channel cfg (decode cfg (bm_bits b) 2) 2 True b) = b\<lparr>bm_bits := g, bm_in := rest\<rparr>"
    "\<And>p. p < status_field cfg 1 \<or> status_field cfg 1 + address_size cfg \<le> p \<Longrightarrow> g p = read_bits cfg bs p"
    "\<And>i. i < address_size cfg \<Longrightarrow> g (status_field cfg 1 + i) = bit (read_status cfg (length bs) err) i"
    using core_channel [OF ok bits read] by metis
  have rows: "entry_rows cfg (read_status cfg (length bs) err) =
      (if length bs = core_input_bits cfg div 8 then activate_rows cfg else failure_rows cfg)"
    using s(2) by (simp add: entry_rows_def)
  have exec: "exec_slots cfg [0, 3] g = (chosen_bits cfg bs (entry_rows cfg (read_status cfg (length bs) err)), True)"
    using core_selects [OF ok len s(1) g(2,3)] by (simp add: chosen_bits_def [abs_def])
  have "decode cfg (bm_bits b) 3 = row (core_layer_bits cfg) 0 (core_table_start cfg)"
    by (simp only: bits core_slots [OF ok])
  then have "fld_n (decode cfg (bm_bits b) 3) \<noteq> 0" using core_sizes(2) [OF ok] by simp
  moreover have "3 < processor_n cfg" using config_bounds(1) [OF cfg] by simp
  moreover have "quiet_rest cfg (chosen_bits cfg bs (entry_rows cfg (read_status cfg (length bs) err)))"
    unfolding chosen_bits_def [abs_def] by (rule quiet_read_bits [OF ok])
  moreover have "exec_slots cfg [0, 3] (bm_bits (b\<lparr>bm_bits := g, bm_in := rest\<rparr>)) =
      (chosen_bits cfg bs (entry_rows cfg (read_status cfg (length bs) err)), True)"
    using exec by simp
  ultimately have "spec_step cfg b = (b\<lparr>bm_bits := g, bm_in := rest\<rparr>
      \<lparr>bm_bits := chosen_bits cfg bs (entry_rows cfg (read_status cfg (length bs) err))\<rparr>, SPACE_STEP_DONE)"
    by (intro quiet_tick [OF cfg _ _ g(1)])
  then show ?thesis unfolding rows by (cases b) simp
qed

lemma chosen_slots:
  assumes ok: "core_ok cfg" and fit: "rows_fit cfg rows" and slot: "slot < 4"
  shows "decode cfg (chosen_bits cfg bs rows) slot = row (rows ! (slot * 3)) (rows ! (slot * 3 + 1)) (rows ! (slot * 3 + 2))"
  by (rule decode_layer_bit) (use assms in \<open>simp_all add: chosen_bits_def core_ok_def\<close>)

text \<open>The second tick of a complete read moves the buffer into the processor.\<close>

lemma core_activates:
  assumes ok: "core_ok cfg" and bits: "bm_bits b = chosen_bits cfg bs (activate_rows cfg)"
    and len: "length bs = core_input_bits cfg div 8"
  shows "spec_step cfg b = (b\<lparr>bm_bits := \<lambda>p. if p < core_layer_bits cfg then bit_at bs p else read_bits cfg bs p\<rparr>,
    SPACE_STEP_DONE)"
proof -
  note S = core_sizes [OF ok] and P = core_places [OF ok]
  have cfg: "config_ok cfg" using ok by (simp add: core_ok_def)
  define f where "f = chosen_bits cfg bs (activate_rows cfg)"
  define L where "L = core_layer_bits cfg"
  define B where "B = core_buffer_start cfg"
  note slots = chosen_slots [OF ok rows_fit_core(2) [OF ok], of _ bs, folded f_def]
  have d: "decode cfg f 0 = row 0 0 0" "decode cfg f 1 = row 0 0 0" "decode cfg f 2 = row 0 0 0"
    "decode cfg f 3 = row L 0 B"
    using slots [of 0] slots [of 1] slots [of 2] slots [of 3]
    by (simp_all add: activate_rows_def processor_start_def L_def B_def)
  have range: "0 + L \<le> space_size cfg" "B + L \<le> space_size cfg" "L \<le> B"
    using S(9) P config_bounds(4) [OF cfg] by (simp_all add: L_def B_def)
  have result: "blit L B 0 f f = (\<lambda>p. if p < L then bit_at bs p else read_bits cfg bs p)"
  proof (rule ext)
    fix p
    have "L \<le> 8 * length bs" using len S(4,6) by (simp add: L_def)
    then have "read_bits cfg bs (B + p) = bit_at bs p" if "p < L" for p
      using that by (simp add: read_bits_def blit_def B_def)
    then show "blit L B 0 f f p = (if p < L then bit_at bs p else read_bits cfg bs p)"
      using range(3) by (simp add: blit_def f_def chosen_bits_def flip: L_def)
  qed
  have "exec_slots cfg [0, 3] f = exec_slots cfg [3] f" by (simp add: d)
  also have "\<dots> = exec_slots cfg [] (blit L B 0 f f)"
    by (rule exec_row) (use d(4) range S(2) in \<open>simp_all add: L_def\<close>)
  finally have exec: "exec_slots cfg [0, 3] (bm_bits b) = (\<lambda>p. if p < L then bit_at bs p else read_bits cfg bs p, True)"
    using bits result by (simp add: f_def)
  show ?thesis
    unfolding L_def [symmetric]
  proof (rule quiet_tick [OF cfg _ _ _ exec])
    show "3 < processor_n cfg" using config_bounds(1) [OF cfg] by simp
    show "fld_n (decode cfg (bm_bits b) 3) \<noteq> 0" using d(4) S(2) by (simp add: bits f_def L_def)
    show "spec_channel cfg (decode cfg (bm_bits b) 1) 1 False (spec_channel cfg (decode cfg (bm_bits b) 2) 2 True b) = b"
      unfolding bits f_def [symmetric] d by (simp add: spec_channel_def)
    show "quiet_rest cfg (\<lambda>p. if p < L then bit_at bs p else read_bits cfg bs p)"
      unfolding L_def by (rule quiet_read_bits [OF ok])
  qed
qed

text \<open>The second tick of a short read writes the message and clears the processor.\<close>

lemma core_fails:
  assumes ok: "core_ok cfg" and bits: "bm_bits b = chosen_bits cfg bs (failure_rows cfg)"
    and len: "length bs \<le> core_input_bits cfg div 8"
    and sent: "fwrite_bytes message_bytes (bm_faults b) = (ws, faults)"
  shows "spec_step cfg b = (b\<lparr>bm_bits := \<lambda>p. if p < core_layer_bits cfg then False else read_bits cfg bs p,
    bm_out := bm_out b @ ws, bm_faults := faults\<rparr>, SPACE_STEP_DONE)"
proof -
  note S = core_sizes [OF ok] and P = core_places [OF ok] and F = core_fields [OF ok]
  have cfg: "config_ok cfg" using ok by (simp add: core_ok_def)
  define f where "f = chosen_bits cfg bs (failure_rows cfg)"
  define L where "L = core_layer_bits cfg"
  define M where "M = core_error_message_start cfg"
  define Z where "Z = core_error_zero_start cfg"
  note slots = chosen_slots [OF ok rows_fit_core(3) [OF ok], of _ bs, folded f_def]
  have d: "decode cfg f 0 = row 0 0 0" "decode cfg f 1 = row 0 0 0" "decode cfg f 2 = row 232 M 0"
    "decode cfg f 3 = row L 0 Z"
    using slots [of 0] slots [of 1] slots [of 2] slots [of 3]
    by (simp_all add: failure_rows_def processor_start_def message_bits L_def M_def Z_def)
  have range: "0 + L \<le> space_size cfg" "Z + L \<le> space_size cfg" "L \<le> M" "M + 232 = Z" "M + 232 \<le> space_size cfg"
    using S(9) P config_bounds(4) [OF cfg] by (simp_all add: L_def M_def Z_def)
  have above: "f p = core_bits cfg p" if "M \<le> p" for p
    using that len P(3,5) range(3) by (auto simp: f_def chosen_bits_def read_bits_def blit_def L_def M_def)
  have bytes: "bytes_at f M 29 = message_bytes"
  proof (rule nth_equalityI)
    fix j assume "j < length (bytes_at f M 29)"
    then have j: "j < 29" by (simp add: bytes_at_def)
    have "word_field msb_first f (M + 8 * j) 8 = message_bytes ! j"
    proof (rule bit_word_eqI)
      fix k assume k: "k < LENGTH(8)"
      have "f (M + (8 * j + (7 - k))) = bit_at message_bytes (8 * j + (7 - k))"
        using above [of "M + (8 * j + (7 - k))"] core_bits_message [OF ok, of "8 * j + (7 - k)"] j by (simp add: M_def)
      also have "\<dots> = bit (message_bytes ! j) k" using bit_at_byte [of j message_bytes "7 - k"] j k by simp
      finally show "bit (word_field msb_first f (M + 8 * j) 8 :: u8) k = bit (message_bytes ! j) k"
        using k by (simp add: bit_simps msb_first_def add.assoc)
    qed
    then show "bytes_at f M 29 ! j = message_bytes ! j" using j by (simp add: bytes_at_def)
  qed (simp add: bytes_at_def)
  define status where "status = channel_status (length ws) (if length ws \<noteq> 29 then 2 else 0)"
  define g where "g = blit (address_size cfg) 0 (status_field cfg 2) (bit status) f"
  have good: "\<not> bad_channel cfg 232 M"
    using P(6) F(7) range(5) by (auto simp: bad_channel_def M_def)
  have out: "spec_out 232 M b = (b\<lparr>bm_out := bm_out b @ ws, bm_faults := faults\<rparr>, length ws, if length ws \<noteq> 29 then 2 else 0)"
    using bytes sent by (simp add: spec_out_def bits flip: f_def)
  have chan: "spec_channel cfg (decode cfg (bm_bits b) 1) 1 False (spec_channel cfg (decode cfg (bm_bits b) 2) 2 True b)
      = b\<lparr>bm_bits := g, bm_out := bm_out b @ ws, bm_faults := faults\<rparr>"
    unfolding bits f_def [symmetric] d
    using good out bits by (cases b) (simp add: spec_channel_def g_def status_def status_field_def flip: f_def)
  have field2: "2 * instruction_size cfg \<le> status_field cfg 2" "status_field cfg 2 + address_size cfg = 3 * instruction_size cfg"
    by (simp_all add: status_field_def instruction_size_split)
  have g0: "decode cfg g 0 = row 0 0 0"
    by (rule row_at_decode [OF d(1)]) (use field2 in \<open>auto simp: g_def blit_def\<close>)
  have g3: "decode cfg g 3 = row L 0 Z"
    by (rule row_at_decode [OF d(4)]) (use field2 in \<open>auto simp: g_def blit_def\<close>)
  have result: "blit L Z 0 g g = (\<lambda>p. if p < L then False else read_bits cfg bs p)"
  proof (rule ext)
    fix p
    have "4 * instruction_size cfg = L" by (simp add: L_def core_layer_bits_def)
    then have same: "g q = f q" if "L \<le> q" for q
      using that field2 by (simp add: g_def blit_def)
    have "\<not> g (Z + p)" if "p < L"
      using same [of "Z + p"] above [of "Z + p"] core_bits_zero [OF ok, of p] that range by (simp add: L_def Z_def)
    then show "blit L Z 0 g g p = (if p < L then False else read_bits cfg bs p)"
      using same [of p] by (simp add: blit_def f_def chosen_bits_def flip: L_def)
  qed
  have "exec_slots cfg [0, 3] g = exec_slots cfg [3] g" by (simp add: g0)
  also have "\<dots> = exec_slots cfg [] (blit L Z 0 g g)"
    by (rule exec_row [OF g3]) (use range S(2) in \<open>simp_all add: L_def\<close>)
  finally have exec: "exec_slots cfg [0, 3] (bm_bits (b\<lparr>bm_bits := g, bm_out := bm_out b @ ws, bm_faults := faults\<rparr>))
      = (\<lambda>p. if p < L then False else read_bits cfg bs p, True)"
    using result by simp
  have "fld_n (decode cfg (bm_bits b) 3) \<noteq> 0" using d(4) S(2) by (simp add: bits f_def L_def)
  moreover have "3 < processor_n cfg" using config_bounds(1) [OF cfg] by simp
  moreover have "quiet_rest cfg (\<lambda>p. if p < L then False else read_bits cfg bs p)"
    unfolding L_def by (rule quiet_read_bits [OF ok])
  ultimately have "spec_step cfg b = (b\<lparr>bm_bits := g, bm_out := bm_out b @ ws, bm_faults := faults\<rparr>
      \<lparr>bm_bits := \<lambda>p. if p < L then False else read_bits cfg bs p\<rparr>, SPACE_STEP_DONE)"
    using chan exec by (intro quiet_tick [OF cfg])
  then show ?thesis unfolding L_def by (cases b) simp
qed

section \<open>Properties\<close>

lemma spec_step_machine:
  assumes "machine_ok cfg st" and "spec_step cfg (abs_of st) = (b, r)"
  obtains st' where "space_step cfg observe st = Some (st', r)" and "machine_ok cfg st'" and "abs_of st' = b"
  using space_step_refines_spec [OF assms(1), of observe] assms(2) by (metis prod.inject)

lemma idle_after_clear:
  assumes ok: "core_ok cfg" and bits: "bm_bits b = (\<lambda>p. if p < core_layer_bits cfg then False else read_bits cfg bs p)"
  shows "spec_step cfg b = (b, SPACE_STEP_IDLE)"
proof -
  have cfg: "config_ok cfg" using ok by (simp add: core_ok_def)
  have "fld_n (decode cfg (bm_bits b) i) = 0" if i: "i < processor_n cfg" for i
  proof (rule decode_zero)
    fix p assume "p < Suc i * instruction_size cfg"
    then have "p < processor_bits cfg" using instruction_in_processor [OF i] by simp
    then show "\<not> bm_bits b p"
      using quiet_read_bits [OF ok, of "\<lambda>_. False" bs] by (auto simp: bits quiet_rest_def)
  qed (use config_bounds(3) [OF cfg] in \<open>simp add: n_size_def\<close>)
  then show ?thesis by (simp add: spec_step_def)
qed

text \<open>
  C3. The boot core loads a layer. After \<open>core_init\<close>, an input stream that holds a whole layer
  (rounded up to bytes, and one byte more) is read in the first tick, and after the second tick
  the bits of the layer are the first four instructions of the processor; all other instructions
  are empty, nothing was written, and the copy of the core that a program can restart is intact
  when the input does not reach it.
\<close>

theorem core_loads_layer:
  assumes "core_ok cfg" and "machine_ok cfg st"
    and "fread_bytes (core_input_bits cfg div 8) (in_stream st) = (bs, err, rest)"
    and "length bs = core_input_bits cfg div 8"
  shows "\<exists>st0 st1 st2. core_init cfg True st = Some (st0, 0) \<and>
    space_step cfg observe st0 = Some (st1, SPACE_STEP_DONE) \<and>
    space_step cfg observe st1 = Some (st2, SPACE_STEP_DONE) \<and> machine_ok cfg st2 \<and>
    (\<forall>p < processor_bits cfg. bit_at (space st2) p \<longleftrightarrow> p < core_layer_bits cfg \<and> bit_at bs p) \<and>
    in_stream st2 = rest \<and> out_bytes st2 = out_bytes st \<and>
    (core_input_bits cfg \<le> core_boot_bits cfg \<longrightarrow>
      (\<forall>q < core_layer_bits cfg. bit_at (space st2) (core_restart_start cfg + q) = bit_at (space st0) q))"
proof -
  note ok = assms(1)
  have len: "length bs \<le> core_input_bits cfg div 8" by (simp add: assms(4))
  obtain st0 where st0: "core_init cfg True st = Some (st0, 0)" "machine_ok cfg st0"
      "abs_of st0 = (abs_of st)\<lparr>bm_bits := core_bits cfg\<rparr>"
    by (rule core_init_bits [OF assms(1,2)])
  define b1 where "b1 = (abs_of st0)\<lparr>bm_bits := chosen_bits cfg bs (activate_rows cfg), bm_in := rest\<rparr>"
  have "spec_step cfg (abs_of st0) = (b1, SPACE_STEP_DONE)"
    using core_reads [OF ok, of "abs_of st0" bs err rest] st0(3) assms(3,4) by (simp add: b1_def abs_of_def)
  then obtain st1 where st1: "space_step cfg observe st0 = Some (st1, SPACE_STEP_DONE)" "machine_ok cfg st1" "abs_of st1 = b1"
    by (rule spec_step_machine [OF st0(2)])
  define b2 where "b2 = b1\<lparr>bm_bits := \<lambda>p. if p < core_layer_bits cfg then bit_at bs p else read_bits cfg bs p\<rparr>"
  have "spec_step cfg (abs_of st1) = (b2, SPACE_STEP_DONE)"
    using core_activates [OF ok, of b1 bs] assms(4) by (simp add: st1(3) b2_def b1_def)
  then obtain st2 where st2: "space_step cfg observe st1 = Some (st2, SPACE_STEP_DONE)" "machine_ok cfg st2" "abs_of st2 = b2"
    by (rule spec_step_machine [OF st1(2)])
  have view: "bit_at (space st2) = (\<lambda>p. if p < core_layer_bits cfg then bit_at bs p else read_bits cfg bs p)"
    "in_stream st2 = rest" "out_bytes st2 = out_bytes st" "bit_at (space st0) = core_bits cfg"
    using st2(3) st0(3) by (simp_all add: abs_of_def b2_def b1_def)
  have "\<forall>p < processor_bits cfg. bit_at (space st2) p \<longleftrightarrow> p < core_layer_bits cfg \<and> bit_at bs p"
    using quiet_read_bits [OF ok, of "\<lambda>_. False" bs] by (auto simp: view quiet_rest_def not_less)
  moreover have "bit_at (space st2) (core_restart_start cfg + q) = bit_at (space st0) q"
    if "core_input_bits cfg \<le> core_boot_bits cfg" "q < core_layer_bits cfg" for q
  proof -
    have "8 * length bs \<le> core_boot_bits cfg" using that(1) len by linarith
    then show ?thesis
      using that(2) core_bits_restart [OF ok that(2)] core_bits_layer [OF ok that(2)] core_places(1,4) [OF ok]
        core_sizes(9) [OF ok]
      by (simp add: view read_bits_def blit_def)
  qed
  ultimately show ?thesis using st0 st1 st2 view by blast
qed

lemma fread_bytes_all: "fread_bytes (length bs) (map Getc bs @ f) = (bs, False, f)"
  by (induction bs) simp_all

lemma fread_bytes_short: "length bs < n \<Longrightarrow> fread_bytes n (map Getc bs) = (bs, False, [])"
proof (induction bs arbitrary: n)
  case Nil
  then show ?case by (cases n) simp_all
next
  case (Cons b bs)
  then obtain k where "n = Suc k" "length bs < k" by (cases n) auto
  then show ?case using Cons.IH by simp
qed

definition core_machine :: "mem \<Rightarrow> machine" where
  "core_machine bs =
     \<lparr>space = replicate (vm_space_bytes default_config) 0, processor = replicate 256 nop,
      in_stream = map Getc bs, out_bytes = [], out_faults = [], events = []\<rparr>"

lemma core_machine_ok: "machine_ok default_config (core_machine bs)"
  by (simp add: machine_ok_def core_machine_def default_config_ok) (simp add: default_config_def)

lemma default_sizes:
  "instruction_size default_config = 71" "processor_bits default_config = 18176" "space_size default_config = 16777216"
  by (simp_all add: instruction_size_def n_size_def address_size_def processor_bits_def default_config_def space_size_def
      ceil_log2_u32_def upt_rec)

lemma default_core_sizes:
  "core_layer_bits default_config = 284" "core_input_bits default_config = 296" "core_status_bits default_config = 10"
  "core_entry_shift default_config = 9"
proof -
  show layer: "core_layer_bits default_config = 284" by (simp add: core_layer_bits_def default_sizes)
  show input: "core_input_bits default_config = 296" by (simp add: core_input_bits_def layer)
  show "core_status_bits default_config = 10" by (simp add: core_status_bits_def input ceil_log2_u32_def upt_rec)
  show "core_entry_shift default_config = 9" by (simp add: core_entry_shift_def layer ceil_log2_u32_def upt_rec)
qed

lemma default_core_ok: "core_ok default_config"
  by (simp add: core_ok_def default_config_ok core_configuration_valid_def core_table_start_def core_table_bits_def
      core_error_zero_start_def core_error_message_start_def core_restart_start_def core_boot_bits_def
      core_buffer_start_def message_bits default_sizes default_core_sizes)

lemma core_loads_layer_witness:
  "\<exists>st0 st1 st2. core_init default_config True (core_machine (replicate 37 0xAB)) = Some (st0, 0) \<and>
    space_step default_config False st0 = Some (st1, SPACE_STEP_DONE) \<and>
    space_step default_config False st1 = Some (st2, SPACE_STEP_DONE) \<and>
    (\<forall>p < 18176. bit_at (space st2) p \<longleftrightarrow> p < 284 \<and> bit_at (replicate 37 0xAB) p)"
proof -
  have "fread_bytes (core_input_bits default_config div 8) (in_stream (core_machine (replicate 37 0xAB)))
      = (replicate 37 0xAB, False, [])"
    using fread_bytes_all [of "replicate 37 0xAB" "[]"]
    by (simp add: core_machine_def default_core_sizes)
  from core_loads_layer [OF default_core_ok core_machine_ok this, of False] show ?thesis
    unfolding default_core_sizes default_sizes by simp blast
qed

text \<open>
  The boot core rejects a short input: when the stream ends or fails before a whole layer was
  read, the second tick writes the error message to the output, as far as the device takes it, and
  the machine is idle from then on.
\<close>

theorem core_rejects_short_input:
  assumes "core_ok cfg" and "machine_ok cfg st"
    and "fread_bytes (core_input_bits cfg div 8) (in_stream st) = (bs, err, rest)"
    and "length bs \<noteq> core_input_bits cfg div 8"
  shows "\<exists>st0 st1 st2. core_init cfg True st = Some (st0, 0) \<and>
    space_step cfg observe st0 = Some (st1, SPACE_STEP_DONE) \<and>
    space_step cfg observe st1 = Some (st2, SPACE_STEP_DONE) \<and> machine_ok cfg st2 \<and>
    out_bytes st2 = out_bytes st @ fst (fwrite_bytes message_bytes (out_faults st)) \<and> in_stream st2 = rest \<and>
    (\<exists>st3. space_step cfg observe st2 = Some (st3, SPACE_STEP_IDLE) \<and> abs_of st3 = abs_of st2)"
proof -
  note ok = assms(1)
  have len: "length bs \<le> core_input_bits cfg div 8" by (rule fread_bytes_length [OF assms(3)])
  obtain st0 where st0: "core_init cfg True st = Some (st0, 0)" "machine_ok cfg st0"
      "abs_of st0 = (abs_of st)\<lparr>bm_bits := core_bits cfg\<rparr>"
    by (rule core_init_bits [OF assms(1,2)])
  define b1 where "b1 = (abs_of st0)\<lparr>bm_bits := chosen_bits cfg bs (failure_rows cfg), bm_in := rest\<rparr>"
  have "spec_step cfg (abs_of st0) = (b1, SPACE_STEP_DONE)"
    using core_reads [OF ok, of "abs_of st0" bs err rest] st0(3) assms(3,4) by (simp add: b1_def abs_of_def)
  then obtain st1 where st1: "space_step cfg observe st0 = Some (st1, SPACE_STEP_DONE)" "machine_ok cfg st1" "abs_of st1 = b1"
    by (rule spec_step_machine [OF st0(2)])
  obtain ws faults where ws: "fwrite_bytes message_bytes (bm_faults b1) = (ws, faults)" by (metis surj_pair)
  define b2 where "b2 = b1\<lparr>bm_bits := \<lambda>p. if p < core_layer_bits cfg then False else read_bits cfg bs p,
    bm_out := bm_out b1 @ ws, bm_faults := faults\<rparr>"
  have "spec_step cfg (abs_of st1) = (b2, SPACE_STEP_DONE)"
    using core_fails [OF ok, of b1 bs ws faults] len ws by (simp add: st1(3) b2_def) (simp add: b1_def)
  then obtain st2 where st2: "space_step cfg observe st1 = Some (st2, SPACE_STEP_DONE)" "machine_ok cfg st2" "abs_of st2 = b2"
    by (rule spec_step_machine [OF st1(2)])
  have "spec_step cfg (abs_of st2) = (b2, SPACE_STEP_IDLE)"
    using idle_after_clear [OF ok, of b2 bs] by (simp add: st2(3) b2_def)
  then obtain st3 where "space_step cfg observe st2 = Some (st3, SPACE_STEP_IDLE)" "machine_ok cfg st3" "abs_of st3 = b2"
    by (rule spec_step_machine [OF st2(2)])
  moreover have "in_stream st2 = rest" "out_bytes st2 = out_bytes st @ fst (fwrite_bytes message_bytes (out_faults st))"
    using st2(3) st0(3) ws by (simp_all add: abs_of_def b2_def b1_def)
  ultimately show ?thesis using st0 st1 st2 by auto
qed

lemma core_rejects_short_input_witness:
  "\<exists>st0 st1 st2 st3. core_init default_config True (core_machine [1, 2, 3]) = Some (st0, 0) \<and>
    space_step default_config False st0 = Some (st1, SPACE_STEP_DONE) \<and>
    space_step default_config False st1 = Some (st2, SPACE_STEP_DONE) \<and> out_bytes st2 = message_bytes \<and>
    space_step default_config False st2 = Some (st3, SPACE_STEP_IDLE)"
proof -
  have read: "fread_bytes (core_input_bits default_config div 8) (in_stream (core_machine [1, 2, 3])) = ([1, 2, 3], False, [])"
    using fread_bytes_short [of "[1, 2, 3]" 37] by (simp add: core_machine_def default_core_sizes)
  have "length [1, 2, 3 :: u8] \<noteq> core_input_bits default_config div 8" by (simp add: default_core_sizes)
  moreover have "fst (fwrite_bytes bs []) = bs" for bs by (cases bs) simp_all
  ultimately show ?thesis
    using core_rejects_short_input [OF default_core_ok core_machine_ok read, of False]
    by (auto simp: core_machine_def)
qed

end
