(* ===== verification/Results.thy ===== *)
theory Results
  imports Main
begin

text \<open>
  The results of the programs that stop at their first error, and sequences of steps. A result is
  \<open>Done\<close> with the new state, \<open>Fail\<close> with the message of the error, or \<open>Undefined\<close> for undefined
  behaviour. A failure ends the program or discards its state, so \<open>Fail\<close> carries none.
\<close>

datatype 'a res = Undefined | Fail string | Done 'a

primrec andthen :: "'a res \<Rightarrow> ('a \<Rightarrow> 'b res) \<Rightarrow> 'b res" where
  "andthen Undefined f = Undefined"
| "andthen (Fail msg) f = Fail msg"
| "andthen (Done x) f = f x"

text \<open>A chain \<open>a || b || c\<close> of calls that return 0 on success.\<close>

primrec steps :: "('s \<Rightarrow> 's res) list \<Rightarrow> 's \<Rightarrow> 's res" where
  "steps [] st = Done st"
| "steps (f # fs) st = andthen (f st) (steps fs)"

text \<open>A call that stores a value beside its return code, and its continuation.\<close>

definition passing :: "('s \<Rightarrow> ('a \<times> 's) res) \<Rightarrow> ('a \<Rightarrow> 's \<Rightarrow> 'b res) \<Rightarrow> 's \<Rightarrow> 'b res" where
  "passing f k st = andthen (f st) (\<lambda>(x, st). k x st)"

definition ignoring :: "('s \<Rightarrow> ('a \<times> 's) res) \<Rightarrow> 's \<Rightarrow> 's res" where
  "ignoring f = passing f (\<lambda>x. Done)"

text \<open>\<open>if (f) return msg\<close>\<close>

primrec or_fail :: "string \<Rightarrow> 'a res \<Rightarrow> 'a res" where
  "or_fail msg Undefined = Undefined"
| "or_fail msg (Fail m) = Fail msg"
| "or_fail msg (Done x) = Done x"

definition expect :: "bool \<Rightarrow> string \<Rightarrow> 's \<Rightarrow> 's res" where
  "expect b msg st = (if b then Done st else Fail msg)"

definition from_option :: "string \<Rightarrow> 'a option \<Rightarrow> 'a res" where
  "from_option msg r = (case r of None \<Rightarrow> Fail msg | Some x \<Rightarrow> Done x)"

lemma andthen_Done [simp]: "andthen r Done = r"
  by (cases r) simp_all

lemma steps_append: "steps (fs @ gs) st = andthen (steps fs st) (steps gs)"
proof (induction fs arbitrary: st)
  case (Cons f fs)
  then show ?case by (cases "f st") simp_all
qed simp

end
