(* ===== verification/Tables.thy ===== *)
theory Tables
  imports Prelude
begin

text \<open>
  Tables of the C code that are searched from their first entry and changed in place (labels,
  constants and symbols of the linker, files and descriptors of the runtime), as lists.
\<close>

text \<open>The index of the first element with a property.\<close>

definition index_of :: "('a \<Rightarrow> bool) \<Rightarrow> 'a list \<Rightarrow> nat option" where
  "index_of P xs = (if list_ex P xs then Some (length (takeWhile (\<lambda>x. \<not> P x) xs)) else None)"

definition modify :: "nat \<Rightarrow> ('a \<Rightarrow> 'a) \<Rightarrow> 'a list \<Rightarrow> 'a list" where
  "modify i f xs = (if i < length xs then xs[i := f (xs ! i)] else xs)"

lemma index_of_Some:
  assumes "index_of P xs = Some i"
  shows "i < length xs" and "P (xs ! i)" and "j < i \<Longrightarrow> \<not> P (xs ! j)"
proof -
  have ex: "\<exists>x\<in>set xs. P x" and i: "i = length (takeWhile (\<lambda>x. \<not> P x) xs)"
    using assms by (auto simp: index_of_def list_ex_iff split: if_splits)
  show len: "i < length xs" unfolding i using ex by (induction xs) auto
  show "P (xs ! i)" using nth_length_takeWhile [of "\<lambda>x. \<not> P x" xs] len i by simp
  show "j < i \<Longrightarrow> \<not> P (xs ! j)"
    unfolding i by (metis nth_mem set_takeWhileD takeWhile_nth)
qed

lemma index_of_None: "index_of P xs = None \<longleftrightarrow> (\<forall>x\<in>set xs. \<not> P x)"
  by (auto simp: index_of_def list_ex_iff)

lemma length_modify [simp]: "length (modify i f xs) = length xs"
  by (simp add: modify_def)

lemma nth_modify: "j < length xs \<Longrightarrow> modify i f xs ! j = (if i = j then f (xs ! j) else xs ! j)"
  by (simp add: modify_def)

lemma index_of_map: "index_of P (map f xs) = index_of (\<lambda>x. P (f x)) xs"
  by (simp add: index_of_def list_ex_iff takeWhile_map o_def)

text \<open>A change that does not affect the property does not move its first element.\<close>

lemma index_of_modify:
  assumes "\<And>x. P (f x) \<longleftrightarrow> P x"
  shows "index_of P (modify i f xs) = index_of P xs"
proof -
  have "map P (modify i f xs) = map P xs"
    by (rule nth_equalityI) (simp_all add: nth_modify assms)
  then have "index_of (\<lambda>b. b) (map P (modify i f xs)) = index_of (\<lambda>b. b) (map P xs)" by simp
  then show ?thesis by (simp add: index_of_map)
qed


end
