(* ===== verification/Assembler.thy ===== *)
theory Assembler
  imports Core Results Tables
begin

text \<open>
  src/assembler.c: the assembler of the space. Every line of its input is blank, an include, the
  definition of a symbol or an instruction of three expressions, which it encodes into the next
  slot of the processor; the output is the encoded processor.

  Characters are classified as in the C locale. A line is a C string: it ends at a zero byte.
  \<open>unsigned long\<close> has 64 bits, \<open>size\<close> has 32. \<open>fail\<close> prints a message and ends the program, so
  the message is the result. The files that an include can open are a function from path to
  content, and the number of streams that the C library can still open is the bound of the
  recursion: when none is left, \<open>fopen\<close> fails. The order in which C evaluates the three
  arguments of \<open>emit_instruction\<close> is unspecified; it matters only for the message when two of
  them are wrong, and is left to right here. The copies of \<open>bit_set_local\<close> and
  \<open>write_field_bits\<close> in this file are those of src/space.c (SpaceCodec).

  A write to a buffer or table is checked against its size and is undefined outside it: the buffers
  of lines, tokens, atoms and paths, the table of symbols, the instructions and the space.
\<close>

section \<open>Lines and tokens\<close>

definition isspace :: "char \<Rightarrow> bool" where
  "isspace c \<longleftrightarrow> c = CHR '' '' \<or> (9 \<le> (of_char c :: nat) \<and> (of_char c :: nat) \<le> 13)"

definition isdigit :: "char \<Rightarrow> bool" where
  "isdigit c \<longleftrightarrow> 48 \<le> (of_char c :: nat) \<and> (of_char c :: nat) \<le> 57"

definition isalpha :: "char \<Rightarrow> bool" where
  "isalpha c \<longleftrightarrow> 65 \<le> (of_char c :: nat) \<and> (of_char c :: nat) \<le> 90 \<or> 97 \<le> (of_char c :: nat) \<and> (of_char c :: nat) \<le> 122"

definition is_name_start :: "char \<Rightarrow> bool" where
  "is_name_start c \<longleftrightarrow> isalpha c \<or> c = CHR ''_''"

definition skip_spaces :: "string \<Rightarrow> string" where
  "skip_spaces s = dropWhile isspace s"

definition strip_line :: "string \<Rightarrow> string" where
  "strip_line line = takeWhile (\<lambda>c. c \<noteq> CHR '';'') line"

text \<open>
  The writes to a buffer of \<open>cap\<close> bytes. A buffer that is filled from its start is the list of
  the bytes it holds; a write behind its end is undefined. \<open>put_char\<close> is \<open>buf[i++] = c\<close>,
  \<open>end_string\<close> is \<open>buf[i] = 0\<close>, \<open>append_string\<close> is \<open>strcpy(buf + i, s)\<close> with the terminator, and
  \<open>copy_string\<close> is \<open>strncpy(buf, s, n)\<close> followed by \<open>buf[n] = 0\<close>.
\<close>

definition put_char :: "nat \<Rightarrow> string \<Rightarrow> char \<Rightarrow> string res" where
  "put_char cap buf c = (if length buf < cap then Done (buf @ [c]) else Undefined)"

definition end_string :: "nat \<Rightarrow> string \<Rightarrow> string res" where
  "end_string cap buf = (if length buf < cap then Done buf else Undefined)"

definition append_string :: "nat \<Rightarrow> string \<Rightarrow> string \<Rightarrow> string res" where
  "append_string cap buf s = (if length buf + length s < cap then Done (buf @ s) else Undefined)"

definition copy_string :: "nat \<Rightarrow> nat \<Rightarrow> string \<Rightarrow> string res" where
  "copy_string cap n s = (if n < cap then Done (take n s) else Undefined)"

text \<open>
  \<open>read_token\<close> with a buffer of \<open>cap\<close> bytes: the token (\<open>None\<close> for the result 0) and the rest.
  \<open>token_chars\<close> is its copying loop.
\<close>

definition quote :: char where "quote = CHR 0x22"

primrec token_chars :: "(char \<Rightarrow> bool) \<Rightarrow> nat \<Rightarrow> string \<Rightarrow> string \<Rightarrow> (string \<times> string) res" where
  "token_chars stop cap buf [] = Done (buf, [])"
| "token_chars stop cap buf (c # cs) =
     (if \<not> stop c \<and> length buf + 1 < cap
      then andthen (put_char cap buf c) (\<lambda>buf. token_chars stop cap buf cs)
      else Done (buf, c # cs))"

definition read_token :: "nat \<Rightarrow> string \<Rightarrow> (string option \<times> string) res" where
  "read_token cap s =
     (let s = skip_spaces s
      in if s = [] then Done (None, s)
         else andthen
           (if hd s = quote then
              andthen (token_chars (\<lambda>c. c = quote) cap [] (tl s)) (\<lambda>(buf, s).
                Done (buf, if s \<noteq> [] \<and> hd s = quote then tl s else s))
            else token_chars isspace cap [] s)
           (\<lambda>(buf, s). andthen (end_string cap buf) (\<lambda>buf.
              Done (if buf = [] then None else Some buf, s))))"

text \<open>\<open>fgets\<close> with a cap: what it stores before the terminator, and the rest of the stream.\<close>

definition MAX_LINE :: nat where "MAX_LINE = 1024"

definition fgets :: "nat \<Rightarrow> string \<Rightarrow> string \<times> string" where
  "fgets cap s =
     (let line = takeWhile (\<lambda>c. c \<noteq> CHR 0x0A) s;
          k = min (cap - 1) (if length line < length s then length line + 1 else length line)
      in (take k s, drop k s))"

definition c_string :: "string \<Rightarrow> string" where
  "c_string s = takeWhile (\<lambda>c. c \<noteq> CHR 0x00) s"

section \<open>State\<close>

record asm_symbol =
  sym_name :: string
  sym_value :: u64

record assembly =
  as_symbols :: "asm_symbol list"
  as_processor :: "(u32 \<times> u32 \<times> u32) list"
  as_space :: mem
  as_n :: nat

definition MAX_SYMBOLS :: nat where "MAX_SYMBOLS = 2048"

text \<open>The line of text that \<open>fail\<close> prints, without and with a position.\<close>

definition fail :: "string \<Rightarrow> 'a res" where
  "fail msg = Fail (msg @ [CHR 0x0A])"

definition fail_at :: "string \<Rightarrow> nat \<Rightarrow> string \<Rightarrow> 'a res" where
  "fail_at path line_no msg = Fail (path @ '':'' @ dec_string line_no @ '': '' @ msg @ [CHR 0x0A])"

section \<open>Symbols and expressions\<close>

definition find_symbol :: "string \<Rightarrow> assembly \<Rightarrow> nat option" where
  "find_symbol name st = index_of (\<lambda>s. sym_name s = name) (as_symbols st)"

text \<open>The entry behind the last one; the table has \<open>MAX_SYMBOLS\<close> entries, a name 64 bytes.\<close>

definition add_symbol :: "string \<Rightarrow> u64 \<Rightarrow> assembly \<Rightarrow> assembly res" where
  "add_symbol name value st =
     (if length (as_symbols st) < MAX_SYMBOLS then
        andthen (copy_string 64 63 name) (\<lambda>name.
          Done (st\<lparr>as_symbols := as_symbols st @ [\<lparr>sym_name = name, sym_value = value\<rparr>]\<rparr>))
      else Undefined)"

definition define_symbol :: "string \<Rightarrow> u64 \<Rightarrow> assembly \<Rightarrow> assembly res" where
  "define_symbol name value st =
     (case find_symbol name st of
        Some i \<Rightarrow> Done (st\<lparr>as_symbols := modify i (\<lambda>s. s\<lparr>sym_value := value\<rparr>) (as_symbols st)\<rparr>)
      | None \<Rightarrow>
          if length (as_symbols st) \<ge> MAX_SYMBOLS then fail ''symbol table overflow''
          else add_symbol name value st)"

fun binary_value :: "u64 \<Rightarrow> string \<Rightarrow> u64 \<times> string" where
  "binary_value v [] = (v, [])"
| "binary_value v (c # cs) =
     (if c = CHR ''0'' \<or> c = CHR ''1'' then binary_value (push_bit 1 v OR of_bool (c = CHR ''1'')) cs
      else (v, c # cs))"

text \<open>The token starts with a digit, so \<open>strtoul\<close> sees no white space and no sign.\<close>

definition parse_number :: "string \<Rightarrow> u64 res" where
  "parse_number token =
     (if take 2 token = ''0b'' then
        (let (v, rest) = binary_value 0 (drop 2 token)
         in if rest \<noteq> [] then fail ''invalid binary literal'' else Done v)
      else
        (let (n, rest) = strtoull0 token
         in if n \<ge> 2 ^ 64 \<or> rest \<noteq> [] then fail ''invalid numeric literal'' else Done (of_nat n)))"

definition atom_value :: "assembly \<Rightarrow> string \<Rightarrow> u64 res" where
  "atom_value st token =
     (if token \<noteq> [] \<and> isdigit (hd token) then parse_number token
      else case find_symbol token st of
        None \<Rightarrow> fail ''unknown symbol''
      | Some i \<Rightarrow> Done (sym_value (as_symbols st ! i)))"

definition is_operator :: "char \<Rightarrow> bool" where
  "is_operator c \<longleftrightarrow> c = CHR ''+'' \<or> c = CHR ''-''"

text \<open>The loop that copies an atom to \<open>atom[128]\<close>; it fails before the buffer is full.\<close>

primrec atom_chars :: "string \<Rightarrow> string \<Rightarrow> string res" where
  "atom_chars buf [] = Done buf"
| "atom_chars buf (c # cs) =
     (if is_operator c then Done buf
      else if length buf + 1 \<ge> 128 then fail ''expression too long''
      else andthen (put_char 128 buf c) (\<lambda>buf. atom_chars buf cs))"

definition read_atom :: "assembly \<Rightarrow> string \<Rightarrow> u64 res" where
  "read_atom st s =
     andthen (atom_chars [] s) (\<lambda>atom. andthen (end_string 128 atom) (atom_value st))"

text \<open>Where the loop stops.\<close>

definition after_atom :: "string \<Rightarrow> string" where
  "after_atom s = dropWhile (\<lambda>c. \<not> is_operator c) s"

lemma after_atom_length: "length (after_atom s) \<le> length s"
  by (simp add: after_atom_def length_dropWhile_le)

text \<open>A sum or difference is reduced to a \<open>size\<close>; a single atom is not.\<close>

definition combine :: "char \<Rightarrow> u64 \<Rightarrow> u64 \<Rightarrow> u64" where
  "combine op v w = ucast (ucast (if op = CHR ''+'' then v + w else v - w) :: u32)"

function eval_rest :: "assembly \<Rightarrow> u64 \<Rightarrow> string \<Rightarrow> u64 res" where
  "eval_rest st v [] = Done v"
| "eval_rest st v (op # s) =
     (if s = [] then fail ''truncated expression''
      else andthen (read_atom st s) (\<lambda>w. eval_rest st (combine op v w) (after_atom s)))"
  by pat_completeness auto
termination
  by (relation "measure (\<lambda>(st, v, s). length s)") (auto simp: less_Suc_eq_le after_atom_length)

definition eval_expr :: "assembly \<Rightarrow> string \<Rightarrow> u64 res" where
  "eval_expr st expr =
     (if expr = [] then fail ''empty expression''
      else andthen (read_atom st expr) (\<lambda>v. eval_rest st v (after_atom expr)))"

definition init_predefined_symbols :: "config \<Rightarrow> assembly \<Rightarrow> assembly res" where
  "init_predefined_symbols cfg = steps
    [define_symbol ''SPACE_SIZE'' (of_nat (space_size cfg)),
     define_symbol ''PROCESSOR_N'' (of_nat (processor_n cfg)),
     define_symbol ''PROCESSOR_START'' (of_nat processor_start),
     define_symbol ''INSTRUCTION_SIZE'' (of_nat (instruction_size cfg)),
     define_symbol ''N_SIZE'' (of_nat (n_size cfg)),
     define_symbol ''ADDRESS_SIZE'' (of_nat (address_size cfg)),
     define_symbol ''PROCESSOR_BITS'' (of_nat (processor_bits cfg)),
     define_symbol ''CORE_LAYER_BITS'' (of_nat (core_layer_bits cfg)),
     define_symbol ''CORE_INPUT_BITS'' (of_nat (core_input_bits cfg)),
     define_symbol ''CORE_BUFFER_START'' (of_nat (core_buffer_start cfg)),
     define_symbol ''CORE_RESTART_START'' (of_nat (core_restart_start cfg))]"

section \<open>Instructions\<close>

definition write_code :: "config \<Rightarrow> nat \<Rightarrow> assembly \<Rightarrow> assembly res" where
  "write_code cfg i st =
     (if i < length (as_processor st) then
        (let (a, b, c) = as_processor st ! i
         in case do {
              m \<leftarrow> write_field_bits (instruction_size cfg * i + o_tab cfg ! 0) a (s_tab cfg ! 0) (as_space st);
              m \<leftarrow> write_field_bits (instruction_size cfg * i + o_tab cfg ! 1) b (s_tab cfg ! 1) m;
              write_field_bits (instruction_size cfg * i + o_tab cfg ! 2) c (s_tab cfg ! 2) m
            } of
              None \<Rightarrow> Undefined
            | Some m \<Rightarrow> Done (st\<lparr>as_space := m\<rparr>))
      else Undefined)"

definition emit_instruction ::
  "config \<Rightarrow> u32 \<Rightarrow> u32 \<Rightarrow> u32 \<Rightarrow> string \<Rightarrow> nat \<Rightarrow> assembly \<Rightarrow> assembly res" where
  "emit_instruction cfg a b c path line_no st =
     (if as_n st \<ge> processor_n cfg then fail_at path line_no ''too many instructions (PROCESSOR_N limit)''
      else andthen (write_code cfg (as_n st) (st\<lparr>as_processor := (as_processor st)[as_n st := (a, b, c)]\<rparr>))
        (\<lambda>st. Done (st\<lparr>as_n := as_n st + 1\<rparr>)))"

text \<open>An instruction from its three expressions; each value is cut to a \<open>size\<close>.\<close>

definition emit_exprs :: "config \<Rightarrow> string \<Rightarrow> string \<Rightarrow> string \<Rightarrow> string \<Rightarrow> nat \<Rightarrow> assembly \<Rightarrow> assembly res" where
  "emit_exprs cfg t1 t2 t3 path line_no st =
     andthen (eval_expr st t1) (\<lambda>a. andthen (eval_expr st t2) (\<lambda>b. andthen (eval_expr st t3) (\<lambda>c.
       emit_instruction cfg (ucast a) (ucast b) (ucast c) path line_no st)))"

section \<open>Files\<close>

text \<open>The directory of a path with its slash, empty when it has none.\<close>

definition directory_of :: "string \<Rightarrow> string" where
  "directory_of path = rev (dropWhile (\<lambda>c. c \<noteq> CHR ''/'') (rev path))"

text \<open>
  The buffer \<open>resolved\<close> has 1024 bytes: the directory is copied to it with \<open>memcpy\<close> and the name
  behind it with \<open>strcpy\<close>; when that file cannot be opened, the name alone is.
\<close>

definition resolved_path :: "string \<Rightarrow> string \<Rightarrow> string res" where
  "resolved_path dir include_name =
     (if length dir \<le> 1024 then append_string 1024 dir include_name else Undefined)"

definition open_include ::
  "(string \<Rightarrow> string option) \<Rightarrow> string \<Rightarrow> string \<Rightarrow> (string \<times> string) option res" where
  "open_include fs base_path include_name =
     (let dir = directory_of base_path
      in andthen
        (if dir \<noteq> [] \<and> length dir + length include_name + 1 < 1024
         then andthen (resolved_path dir include_name) (\<lambda>path. Done (map_option (Pair path) (fs path)))
         else Done None)
        (\<lambda>found. case found of
           Some r \<Rightarrow> Done (Some r)
         | None \<Rightarrow> andthen (copy_string 1024 1023 include_name) (\<lambda>path. Done (map_option (Pair path) (fs path)))))"

text \<open>\<open>inc\<close> compiles the file of an include: given the path of this file, the name and the state.\<close>

type_synonym includer = "string \<Rightarrow> string \<Rightarrow> nat \<Rightarrow> assembly \<Rightarrow> assembly res"

text \<open>A token that must be there, and one that must not; every token buffer has 256 bytes.\<close>

definition required_token ::
  "string \<Rightarrow> string \<Rightarrow> nat \<Rightarrow> string \<Rightarrow> (string \<Rightarrow> string \<Rightarrow> 'a res) \<Rightarrow> 'a res" where
  "required_token msg path line_no p k =
     andthen (read_token 256 p) (\<lambda>(t, p). case t of None \<Rightarrow> fail_at path line_no msg | Some t \<Rightarrow> k t p)"

definition no_extra_token :: "string \<Rightarrow> nat \<Rightarrow> string \<Rightarrow> 'a res \<Rightarrow> 'a res" where
  "no_extra_token path line_no p r =
     andthen (read_token 256 p) (\<lambda>(t, p).
       if t \<noteq> None then fail_at path line_no ''extra token after instruction'' else r)"

definition compile_line :: "includer \<Rightarrow> config \<Rightarrow> string \<Rightarrow> string \<Rightarrow> nat \<Rightarrow> assembly \<Rightarrow> assembly res" where
  "compile_line inc cfg line path line_no st =
     andthen (read_token 256 (strip_line (c_string line))) (\<lambda>(t0, p). case t0 of
       None \<Rightarrow> Done st
     | Some t0 \<Rightarrow>
         if t0 = ''include'' then
           required_token ''missing include path'' path line_no p (\<lambda>t1 p. inc path t1 line_no st)
         else if t0 = ''copy'' then
           required_token ''copy requires 3 arguments'' path line_no p (\<lambda>t1 p.
           required_token ''copy requires 3 arguments'' path line_no p (\<lambda>t2 p.
           required_token ''copy requires 3 arguments'' path line_no p (\<lambda>t3 p.
             no_extra_token path line_no p (emit_exprs cfg t1 t2 t3 path line_no st))))
         else
           required_token ''missing token'' path line_no p (\<lambda>t1 p.
             andthen (read_token 256 p) (\<lambda>(t2, p). case t2 of
               None \<Rightarrow>
                 if \<not> is_name_start (hd t0) then fail_at path line_no ''invalid symbol name''
                 else andthen (eval_expr st t1) (\<lambda>v. define_symbol t0 v st)
             | Some t2 \<Rightarrow> no_extra_token path line_no p (emit_exprs cfg t0 t1 t2 path line_no st))))"

lemma fgets_less: "1 < cap \<Longrightarrow> s \<noteq> [] \<Longrightarrow> length (snd (fgets cap s)) < length s"
  by (cases s) (auto simp: fgets_def Let_def min_def)

lemma fgets_fits: "0 < cap \<Longrightarrow> length (fst (fgets cap s)) < cap"
  by (auto simp: fgets_def Let_def)

text \<open>The loop over the lines, each in the buffer \<open>line[MAX_LINE]\<close>.\<close>

function compile_lines :: "includer \<Rightarrow> config \<Rightarrow> string \<Rightarrow> nat \<Rightarrow> string \<Rightarrow> assembly \<Rightarrow> assembly res" where
  "compile_lines inc cfg path line_no content st =
     (if content = [] then Done st
      else andthen (end_string MAX_LINE (fst (fgets MAX_LINE content))) (\<lambda>line.
        andthen (compile_line inc cfg line path (line_no + 1) st)
          (compile_lines inc cfg path (line_no + 1) (snd (fgets MAX_LINE content)))))"
  by pat_completeness auto
termination
  by (relation "measure (\<lambda>(inc, cfg, path, line_no, content, st). length content)")
    (auto simp: fgets_less MAX_LINE_def)

declare compile_lines.simps [simp del]

lemma compile_lines_Nil [simp]: "compile_lines inc cfg path line_no [] st = Done st"
  by (simp add: compile_lines.simps)

lemma compile_lines_step:
  "content \<noteq> [] \<Longrightarrow> compile_lines inc cfg path line_no content st =
     andthen (compile_line inc cfg (fst (fgets MAX_LINE content)) path (line_no + 1) st)
       (compile_lines inc cfg path (line_no + 1) (snd (fgets MAX_LINE content)))"
  by (subst compile_lines.simps) (simp add: end_string_def fgets_fits MAX_LINE_def)

primrec compile_include :: "nat \<Rightarrow> config \<Rightarrow> (string \<Rightarrow> string option) \<Rightarrow> includer" where
  "compile_include 0 cfg fs base_path include_name line_no st = fail_at base_path line_no ''cannot open include file''"
| "compile_include (Suc streams) cfg fs base_path include_name line_no st =
     andthen (open_include fs base_path include_name) (\<lambda>found. case found of
        None \<Rightarrow> fail_at base_path line_no ''cannot open include file''
      | Some (resolved, content) \<Rightarrow>
          compile_lines (compile_include streams cfg fs) cfg resolved 0 content st)"

definition compile_file :: "nat \<Rightarrow> config \<Rightarrow> (string \<Rightarrow> string option) \<Rightarrow> string \<Rightarrow> string \<Rightarrow> assembly \<Rightarrow> assembly res" where
  "compile_file streams cfg fs content path st =
     compile_lines (compile_include streams cfg fs) cfg path 0 content st"

definition flush_space :: "config \<Rightarrow> nat \<Rightarrow> assembly \<Rightarrow> mem res" where
  "flush_space cfg i st =
     (let k = (instruction_size cfg * i + 8 - 1) div 8
      in if k \<le> length (as_space st) then Done (take k (as_space st)) else Undefined)"

definition empty_assembly :: "config \<Rightarrow> assembly" where
  "empty_assembly cfg = \<lparr>as_symbols = [], as_processor = replicate (processor_n cfg) (0, 0, 0),
     as_space = replicate (vm_space_bytes cfg) 0, as_n = 0\<rparr>"

text \<open>The program: standard input to standard output, or the message of its failure.\<close>

definition assembler :: "nat \<Rightarrow> config \<Rightarrow> (string \<Rightarrow> string option) \<Rightarrow> string \<Rightarrow> mem res" where
  "assembler streams cfg fs input =
     andthen (init_predefined_symbols cfg (empty_assembly cfg))
       (\<lambda>st. andthen (compile_file streams cfg fs input ''<stdin>'' st)
         (\<lambda>st. flush_space cfg (as_n st) st))"

end
