(* ===== verification/AssemblerOk.thy ===== *)
theory AssemblerOk
  imports Assembler CoreBoot
begin

text \<open>
  The assembler is correct: its writes stay in their buffers, every operation keeps the invariant of
  its state, and the output holds the rows that were emitted. The meaning of
  programs and the symbol table are the subject of AssemblerText.
\<close>

section \<open>Buffers\<close>

text \<open>
  No write of the text operations leaves its buffer: the loops over checked writes have the closed
  forms below on every input. A definition that loses its bound check has none of them.
\<close>

lemma token_chars_eq:
  assumes "length buf < cap"
  shows "token_chars stop cap buf s =
    (let k = length (take (cap - 1 - length buf) (takeWhile (\<lambda>c. \<not> stop c) s))
     in Done (buf @ take k s, drop k s))"
  using assms
proof (induction s arbitrary: buf)
  case (Cons c s)
  show ?case
  proof (cases "\<not> stop c \<and> length buf + 1 < cap")
    case True
    then have "cap - 1 - length buf = Suc (cap - 1 - length (buf @ [c]))" by (simp add: Suc_diff_Suc)
    then show ?thesis using True Cons.IH [of "buf @ [c]"] by (simp add: put_char_def Let_def)
  next
    case False
    then have "length (take (cap - 1 - length buf) (takeWhile (\<lambda>c. \<not> stop c) (c # s))) = 0" using Cons.prems by auto
    then show ?thesis using False by (auto simp: Let_def)
  qed
qed simp

definition token_of :: "nat \<Rightarrow> string \<Rightarrow> string option \<times> string" where
  "token_of cap s =
     (let s = skip_spaces s
      in if s = [] then (None, s)
         else if hd s = quote then
           let tok = take (cap - 1) (takeWhile (\<lambda>c. c \<noteq> quote) (tl s));
               rest = drop (length tok) (tl s);
               rest = (if rest \<noteq> [] \<and> hd rest = quote then tl rest else rest)
           in (if tok = [] then None else Some tok, rest)
         else
           let tok = take (cap - 1) (takeWhile (\<lambda>c. \<not> isspace c) s)
           in (if tok = [] then None else Some tok, drop (length tok) s))"

lemma take_takeWhile_length: "take (length (take n (takeWhile P s))) s = take n (takeWhile P s)"
  by (induction s arbitrary: n) (auto simp: take_Cons split: nat.split)

lemma read_token_eq:
  assumes "0 < cap"
  shows "read_token cap s = Done (token_of cap s)"
proof -
  have fits: "length (take (cap - 1) x) < cap" for x :: string using assms by auto
  have chars: "token_chars stop cap [] s = Done (take (cap - 1) (takeWhile (\<lambda>c. \<not> stop c) s),
      drop (length (take (cap - 1) (takeWhile (\<lambda>c. \<not> stop c) s))) s)" for stop s
    using assms token_chars_eq [of "[]" cap stop s] by (simp only: take_takeWhile_length Let_def) simp
  have ended: "end_string cap (take (cap - 1) x) = Done (take (cap - 1) x)" for x
    using fits by (simp add: end_string_def)
  note loops = read_token_def token_of_def Let_def chars andthen.simps prod.case ended
  show ?thesis
  proof (cases "skip_spaces s = []")
    case True
    then show ?thesis by (simp add: read_token_def token_of_def)
  next
    case False
    then show ?thesis
      by (cases "hd (skip_spaces s) = quote") (simp_all only: loops simp_thms if_True if_False False)
  qed
qed

lemma read_token_256 [simp]: "read_token 256 s = Done (token_of 256 s)"
  by (rule read_token_eq) simp

lemma add_symbol_eq:
  assumes "length (as_symbols st) < MAX_SYMBOLS"
  shows "add_symbol name value st =
    Done (st\<lparr>as_symbols := as_symbols st @ [\<lparr>sym_name = take 63 name, sym_value = value\<rparr>]\<rparr>)"
  using assms by (simp add: add_symbol_def copy_string_def)

lemma define_symbol_eq:
  "define_symbol name value st =
     (case find_symbol name st of
        Some i \<Rightarrow> Done (st\<lparr>as_symbols := modify i (\<lambda>s. s\<lparr>sym_value := value\<rparr>) (as_symbols st)\<rparr>)
      | None \<Rightarrow>
          if length (as_symbols st) \<ge> MAX_SYMBOLS then fail ''symbol table overflow''
          else Done (st\<lparr>as_symbols := as_symbols st @ [\<lparr>sym_name = take 63 name, sym_value = value\<rparr>]\<rparr>))"
  by (simp add: define_symbol_def add_symbol_eq split: option.split)

lemma atom_chars_eq:
  assumes "length buf < 128"
  shows "atom_chars buf s =
    (let atom = takeWhile (\<lambda>c. \<not> is_operator c) s
     in if length buf + length atom \<ge> 128 then fail ''expression too long'' else Done (buf @ atom))"
  using assms
proof (induction s arbitrary: buf)
  case (Cons c s)
  then show ?case by (simp add: put_char_def Let_def)
qed simp

lemma read_atom_eq:
  "read_atom st s =
     (let atom = takeWhile (\<lambda>c. \<not> is_operator c) s
      in if length atom \<ge> 128 then fail ''expression too long'' else atom_value st atom)"
  by (simp add: read_atom_def atom_chars_eq Let_def end_string_def fail_def)

lemma open_include_eq:
  "open_include fs base_path include_name =
     (let dir = directory_of base_path; plain = take 1023 include_name
      in Done (case (if dir \<noteq> [] \<and> length dir + length include_name + 1 < 1024
               then map_option (Pair (dir @ include_name)) (fs (dir @ include_name)) else None) of
           Some r \<Rightarrow> Some r
         | None \<Rightarrow> map_option (Pair plain) (fs plain)))"
  by (auto simp: open_include_def Let_def resolved_path_def append_string_def copy_string_def split: option.split)

lemma compile_line_eq:
  "compile_line inc cfg line path line_no st =
     (let (t0, p) = token_of 256 (strip_line (c_string line))
      in case t0 of
           None \<Rightarrow> Done st
         | Some t0 \<Rightarrow>
             if t0 = ''include'' then
               (case fst (token_of 256 p) of
                  None \<Rightarrow> fail_at path line_no ''missing include path''
                | Some t1 \<Rightarrow> inc path t1 line_no st)
             else if t0 = ''copy'' then
               (let (t1, p) = token_of 256 p; (t2, p) = token_of 256 p; (t3, p) = token_of 256 p
                in case (t1, t2, t3) of
                     (Some t1, Some t2, Some t3) \<Rightarrow>
                       if fst (token_of 256 p) \<noteq> None then fail_at path line_no ''extra token after instruction''
                       else emit_exprs cfg t1 t2 t3 path line_no st
                   | _ \<Rightarrow> fail_at path line_no ''copy requires 3 arguments'')
             else
               (let (t1, p) = token_of 256 p
                in case t1 of
                     None \<Rightarrow> fail_at path line_no ''missing token''
                   | Some t1 \<Rightarrow>
                       (let (t2, p) = token_of 256 p
                        in case t2 of
                             None \<Rightarrow>
                               if \<not> is_name_start (hd t0) then fail_at path line_no ''invalid symbol name''
                               else andthen (eval_expr st t1) (\<lambda>v. define_symbol t0 v st)
                           | Some t2 \<Rightarrow>
                               if fst (token_of 256 p) \<noteq> None then fail_at path line_no ''extra token after instruction''
                               else emit_exprs cfg t0 t1 t2 path line_no st)))"
  by (simp add: compile_line_def required_token_def no_extra_token_def Let_def split_beta split: option.split)

section \<open>The encoded processor\<close>

type_synonym code_row = "u32 \<times> u32 \<times> u32"

definition code_bit :: "config \<Rightarrow> code_row \<Rightarrow> nat \<Rightarrow> bool" where
  "code_bit cfg x r = (case x of (a, b, c) \<Rightarrow>
     if r < n_size cfg then bit a r
     else if r < n_size cfg + address_size cfg then bit b (r - n_size cfg)
     else bit c (r - (n_size cfg + address_size cfg)))"

definition code_bits :: "config \<Rightarrow> code_row list \<Rightarrow> nat \<Rightarrow> bool" where
  "code_bits cfg rows p \<longleftrightarrow> p < length rows * instruction_size cfg \<and>
     code_bit cfg (rows ! (p div instruction_size cfg)) (p mod instruction_size cfg)"

text \<open>The instruction that the machine decodes from an encoded row: the fields cut to their widths.\<close>

definition code_row :: "config \<Rightarrow> code_row \<Rightarrow> instruction" where
  "code_row cfg x = (case x of (a, b, c) \<Rightarrow>
     row (unat (take_bit (n_size cfg) a)) (unat (take_bit (address_size cfg) b)) (unat (take_bit (address_size cfg) c)))"

lemma instruction_size_pos: "config_ok cfg \<Longrightarrow> 0 < instruction_size cfg"
  using config_bounds(2) [of cfg] by (simp add: instruction_size_split)

lemma code_bits_slot:
  assumes "i < length rows" and "r < instruction_size cfg"
  shows "code_bits cfg rows (i * instruction_size cfg + r) = code_bit cfg (rows ! i) r"
proof -
  have "Suc i * instruction_size cfg \<le> length rows * instruction_size cfg" by (rule mult_le_mono1) (use assms in simp)
  then have "i * instruction_size cfg + r < length rows * instruction_size cfg"
    using assms(2) unfolding mult_Suc by linarith
  then show ?thesis using assms(2) by (simp add: code_bits_def)
qed

lemma field_value_word:
  assumes "\<And>i. i < w \<Longrightarrow> f (at + i) = bit (v :: u32) i"
  shows "field_value f at w = unat (take_bit w v)"
proof -
  have "word_field lsb_first f at w = take_bit w v"
    by (rule bit_word_eqI) (auto simp: bit_simps assms)
  then show ?thesis by (simp add: field_value_def)
qed

lemma decode_code:
  assumes bits: "\<And>r. r < instruction_size cfg \<Longrightarrow> f (i * instruction_size cfg + r) = code_bit cfg x r"
  shows "decode cfg f i = code_row cfg x"
proof -
  obtain a b c where x: "x = (a, b, c)" by (cases x)
  note size = instruction_size_split [of cfg]
  have "field_value f (i * instruction_size cfg) (n_size cfg) = unat (take_bit (n_size cfg) a)"
  proof (rule field_value_word)
    fix j assume "j < n_size cfg"
    then show "f (i * instruction_size cfg + j) = bit a j"
      using bits [of j] by (simp add: size code_bit_def x)
  qed
  moreover have "field_value f (i * instruction_size cfg + n_size cfg) (address_size cfg) = unat (take_bit (address_size cfg) b)"
  proof (rule field_value_word)
    fix j assume "j < address_size cfg"
    then show "f (i * instruction_size cfg + n_size cfg + j) = bit b j"
      using bits [of "n_size cfg + j"] by (simp add: size code_bit_def x add.assoc)
  qed
  moreover have "field_value f (i * instruction_size cfg + n_size cfg + address_size cfg) (address_size cfg) =
      unat (take_bit (address_size cfg) c)"
  proof (rule field_value_word)
    fix j assume "j < address_size cfg"
    then show "f (i * instruction_size cfg + n_size cfg + address_size cfg + j) = bit c j"
      using bits [of "n_size cfg + address_size cfg + j"] by (simp add: size code_bit_def x add.assoc)
  qed
  ultimately show ?thesis by (simp add: decode_def code_row_def x)
qed

section \<open>The invariant\<close>

definition as_rows :: "assembly \<Rightarrow> code_row list" where
  "as_rows st = take (as_n st) (as_processor st)"

definition symbols_ok :: "asm_symbol list \<Rightarrow> bool" where
  "symbols_ok syms \<longleftrightarrow> length syms \<le> MAX_SYMBOLS \<and> (\<forall>s \<in> set syms. length (sym_name s) < 64)"

definition assembly_ok :: "config \<Rightarrow> assembly \<Rightarrow> bool" where
  "assembly_ok cfg st \<longleftrightarrow> symbols_ok (as_symbols st) \<and> length (as_processor st) = processor_n cfg \<and>
     length (as_space st) = vm_space_bytes cfg \<and> as_n st \<le> processor_n cfg \<and>
     bit_at (as_space st) = code_bits cfg (as_rows st)"

text \<open>What every step of the assembler keeps.\<close>

definition keeps_ok :: "config \<Rightarrow> assembly res \<Rightarrow> bool" where
  "keeps_ok cfg r \<longleftrightarrow> r \<noteq> Undefined \<and> (\<forall>st. r = Done st \<longrightarrow> assembly_ok cfg st)"

named_theorems keeps_intros "steps that keep the invariant of the assembler"

lemma keeps_Done [keeps_intros]: "assembly_ok cfg st \<Longrightarrow> keeps_ok cfg (Done st)"
  by (simp add: keeps_ok_def)

lemma keeps_fail [keeps_intros]: "keeps_ok cfg (fail msg)" "keeps_ok cfg (fail_at path line_no msg)"
  by (simp_all add: keeps_ok_def fail_def fail_at_def)

lemma keeps_andthen:
  assumes "r \<noteq> Undefined" and "\<And>x. r = Done x \<Longrightarrow> keeps_ok cfg (f x)"
  shows "keeps_ok cfg (andthen r f)"
  using assms by (cases r) (simp_all add: keeps_ok_def)

lemma keeps_then:
  assumes "keeps_ok cfg r" and "\<And>st. assembly_ok cfg st \<Longrightarrow> keeps_ok cfg (f st)"
  shows "keeps_ok cfg (andthen r f)"
  using assms by (cases r) (simp_all add: keeps_ok_def)

lemma set_modify:
  assumes "s \<in> set (modify i f xs)"
  shows "\<exists>x \<in> set xs. s = x \<or> s = f x"
proof (cases "i < length xs")
  case True
  then have "s = f (xs ! i) \<or> s \<in> set xs"
    using assms set_update_subset_insert [of xs i "f (xs ! i)"] by (auto simp: modify_def)
  then show ?thesis using True nth_mem by blast
qed (use assms in \<open>auto simp: modify_def\<close>)

lemma define_symbol_keeps [keeps_intros]:
  assumes "assembly_ok cfg st"
  shows "keeps_ok cfg (define_symbol name value st)"
proof (cases "find_symbol name st")
  case None
  show ?thesis
  proof (cases "length (as_symbols st) \<ge> MAX_SYMBOLS")
    case True
    then show ?thesis by (simp add: define_symbol_eq None keeps_fail)
  next
    case False
    then have "assembly_ok cfg (st\<lparr>as_symbols := as_symbols st @ [\<lparr>sym_name = take 63 name, sym_value = value\<rparr>]\<rparr>)"
      using assms by (simp add: assembly_ok_def symbols_ok_def as_rows_def)
    then show ?thesis using False by (simp add: define_symbol_eq None keeps_Done)
  qed
next
  case (Some i)
  let ?f = "\<lambda>s. s\<lparr>sym_value := value\<rparr>"
  have short: "\<forall>s \<in> set (as_symbols st). length (sym_name s) < 64"
    using assms by (simp add: assembly_ok_def symbols_ok_def)
  have "length (sym_name s) < 64" if "s \<in> set (modify i ?f (as_symbols st))" for s
    using set_modify [OF that] short by auto
  then have "assembly_ok cfg (st\<lparr>as_symbols := modify i (\<lambda>s. s\<lparr>sym_value := value\<rparr>) (as_symbols st)\<rparr>)"
    using assms by (simp add: assembly_ok_def symbols_ok_def as_rows_def)
  then show ?thesis by (simp add: define_symbol_eq Some keeps_Done)
qed

lemma atom_value_defined: "atom_value st token \<noteq> Undefined"
  by (auto simp: atom_value_def parse_number_def fail_def split: option.splits prod.splits)

lemma read_atom_defined: "read_atom st s \<noteq> Undefined"
  by (simp add: read_atom_eq Let_def atom_value_defined fail_def)

lemma eval_rest_defined: "eval_rest st v s \<noteq> Undefined"
proof (induction st v s rule: eval_rest.induct)
  case (2 st v op s)
  show ?case
  proof (cases "read_atom st s")
    case Undefined
    then show ?thesis using read_atom_defined by simp
  next
    case (Done w)
    then show ?thesis using 2 by (cases "s = []") (simp_all add: fail_def)
  qed (simp add: fail_def)
qed simp

lemma eval_expr_defined: "eval_expr st expr \<noteq> Undefined"
  using read_atom_defined eval_rest_defined
  by (cases "read_atom st expr") (simp_all add: eval_expr_def fail_def)

section \<open>Instructions\<close>

lemma code_bits_append:
  assumes I: "0 < instruction_size cfg"
  shows "code_bits cfg (rows @ [x]) p \<longleftrightarrow>
    (if p < length rows * instruction_size cfg then code_bits cfg rows p
     else p < length rows * instruction_size cfg + instruction_size cfg \<and>
       code_bit cfg x (p - length rows * instruction_size cfg))"
proof (cases "p < length rows * instruction_size cfg")
  case True
  then have "p div instruction_size cfg < length rows" using I by (simp add: less_mult_imp_div_less)
  then show ?thesis using True by (simp add: code_bits_def nth_append)
next
  case False
  then obtain r where r: "p = length rows * instruction_size cfg + r" by (auto simp: not_less le_iff_add)
  show ?thesis
  proof (cases "r < instruction_size cfg")
    case True
    then show ?thesis using False code_bits_slot [of "length rows" "rows @ [x]" r cfg] by (simp add: r)
  next
    case outside: False
    then show ?thesis using False by (simp add: r code_bits_def)
  qed
qed

lemma write_code_bits:
  assumes "at + instruction_size cfg \<le> 8 * length m"
  shows "yields (do {
      m \<leftarrow> write_field_bits (at + o_tab cfg ! 0) a (s_tab cfg ! 0) m;
      m \<leftarrow> write_field_bits (at + o_tab cfg ! 1) b (s_tab cfg ! 1) m;
      write_field_bits (at + o_tab cfg ! 2) c (s_tab cfg ! 2) m }) (length m)
    (\<lambda>p. if at \<le> p \<and> p < at + instruction_size cfg then code_bit cfg (a, b, c) (p - at) else bit_at m p)"
proof -
  define N where "N = n_size cfg"
  define A where "A = address_size cfg"
  have size: "instruction_size cfg = N + A + A" by (simp add: instruction_size_split N_def A_def)
  have tabs: "o_tab cfg ! 0 = 0" "o_tab cfg ! 1 = N" "o_tab cfg ! 2 = N + A"
    "s_tab cfg ! 0 = N" "s_tab cfg ! 1 = A" "s_tab cfg ! 2 = A"
    by (simp_all add: o_tab_def s_tab_def N_def A_def)
  have code: "code_bit cfg (a, b, c) r = (if r < N then bit a r else if r < N + A then bit b (r - N) else bit c (r - (N + A)))" for r
    by (simp add: code_bit_def N_def A_def)
  show ?thesis
    unfolding tabs
  proof (rule yields_bind [OF write_field_bits_yields])
    fix m1 assume m1: "length m1 = length m" "bit_at m1 = blit N 0 (at + 0) (bit a) (bit_at m)"
    show "yields (write_field_bits (at + N) b A m1 \<bind> write_field_bits (at + (N + A)) c A) (length m)
        (\<lambda>p. if at \<le> p \<and> p < at + instruction_size cfg then code_bit cfg (a, b, c) (p - at) else bit_at m p)"
    proof (rule yields_bind [OF write_field_bits_yields])
      fix m2 assume m2: "length m2 = length m1" "bit_at m2 = blit A 0 (at + N) (bit b) (bit_at m1)"
      have "at + (N + A) + A \<le> 8 * length m2" using assms by (simp add: m1 m2 size)
      from write_field_bits_yields [OF this, of c]
      show "yields (write_field_bits (at + (N + A)) c A m2) (length m)
          (\<lambda>p. if at \<le> p \<and> p < at + instruction_size cfg then code_bit cfg (a, b, c) (p - at) else bit_at m p)"
        unfolding m1(1) m2(1)
        by (rule yields_cong) (auto simp: m1 m2 size code blit_def fun_eq_iff)
    qed (use assms in \<open>simp add: m1 size\<close>)
  qed (use assms in \<open>simp add: size\<close>)
qed

lemma emit_instruction_ok:
  assumes cfg: "config_ok cfg" and ok: "assembly_ok cfg st" and room: "as_n st < processor_n cfg"
  obtains st' where "emit_instruction cfg a b c path line_no st = Done st'" and "assembly_ok cfg st'"
    and "as_rows st' = as_rows st @ [(a, b, c)]" and "as_symbols st' = as_symbols st"
proof -
  define i where "i = as_n st"
  define st1 where "st1 = st\<lparr>as_processor := (as_processor st)[i := (a, b, c)]\<rparr>"
  have A: "length (as_processor st) = processor_n cfg" "8 * length (as_space st) = space_size cfg"
    "bit_at (as_space st) = code_bits cfg (as_rows st)" "symbols_ok (as_symbols st)" "length (as_space st) = vm_space_bytes cfg"
    using ok by (simp_all add: assembly_ok_def space_size_def)
  have i: "i < length (as_processor st)" using room A(1) by (simp add: i_def)
  have rows: "length (as_rows st) = i" using i by (simp add: as_rows_def i_def)
  have "instruction_size cfg * i + instruction_size cfg \<le> 8 * length (as_space st)"
    using instruction_in_processor [of i cfg] room config_bounds(4) [OF cfg] unfolding i_def A(2)
    by (simp add: mult.commute)
  from write_code_bits [OF this, of a b c] obtain m where m:
    "do { m \<leftarrow> write_field_bits (instruction_size cfg * i + o_tab cfg ! 0) a (s_tab cfg ! 0) (as_space st);
          m \<leftarrow> write_field_bits (instruction_size cfg * i + o_tab cfg ! 1) b (s_tab cfg ! 1) m;
          write_field_bits (instruction_size cfg * i + o_tab cfg ! 2) c (s_tab cfg ! 2) m } = Some m"
    "length m = length (as_space st)"
    "bit_at m = (\<lambda>p. if instruction_size cfg * i \<le> p \<and> p < instruction_size cfg * i + instruction_size cfg
       then code_bit cfg (a, b, c) (p - instruction_size cfg * i) else bit_at (as_space st) p)"
    by (rule yieldsE)
  have "as_processor st1 ! i = (a, b, c)" "i < length (as_processor st1)" "as_space st1 = as_space st"
    using i by (simp_all add: st1_def)
  then have written: "write_code cfg i st1 = Done (st1\<lparr>as_space := m\<rparr>)" using m(1) by (simp add: write_code_def)
  define st' where "st' = st1\<lparr>as_space := m, as_n := i + 1\<rparr>"
  have "take (Suc i) ((as_processor st)[i := (a, b, c)]) = take i (as_processor st) @ [(a, b, c)]"
    using i by (simp add: take_Suc_conv_app_nth)
  then have rows': "as_rows st' = as_rows st @ [(a, b, c)]"
    by (simp add: as_rows_def st'_def st1_def flip: i_def)
  have "bit_at m = code_bits cfg (as_rows st')"
  proof (rule ext)
    fix p
    have "code_bits cfg (as_rows st) p = False" if "i * instruction_size cfg \<le> p"
      using that rows by (simp add: code_bits_def)
    then show "bit_at m p = code_bits cfg (as_rows st') p"
      unfolding rows' code_bits_append [OF instruction_size_pos [OF cfg]] rows
      by (auto simp: m(3) A(3) mult.commute)
  qed
  then have "assembly_ok cfg st'"
    using A i m(2) by (simp add: assembly_ok_def st'_def st1_def)
  moreover have "emit_instruction cfg a b c path line_no st = Done st'"
    using room written by (simp add: emit_instruction_def st'_def st1_def flip: i_def)
  moreover have "as_symbols st' = as_symbols st" by (simp add: st'_def st1_def)
  ultimately show thesis using that rows' by blast
qed

lemma emit_instruction_keeps [keeps_intros]:
  assumes "config_ok cfg" and "assembly_ok cfg st"
  shows "keeps_ok cfg (emit_instruction cfg a b c path line_no st)"
proof (cases "as_n st < processor_n cfg")
  case True
  then obtain st' where "emit_instruction cfg a b c path line_no st = Done st'" "assembly_ok cfg st'"
    by (rule emit_instruction_ok [OF assms])
  then show ?thesis by (simp add: keeps_Done)
qed (simp add: emit_instruction_def keeps_fail)

lemma emit_exprs_keeps [keeps_intros]:
  assumes "config_ok cfg" and "assembly_ok cfg st"
  shows "keeps_ok cfg (emit_exprs cfg t1 t2 t3 path line_no st)"
  unfolding emit_exprs_def
  by (intro keeps_andthen eval_expr_defined emit_instruction_keeps assms)

section \<open>Files\<close>

definition includer_ok :: "config \<Rightarrow> includer \<Rightarrow> bool" where
  "includer_ok cfg inc \<longleftrightarrow>
     (\<forall>path name line_no st. assembly_ok cfg st \<longrightarrow> keeps_ok cfg (inc path name line_no st))"

lemma compile_line_keeps:
  assumes inc: "includer_ok cfg inc" and cfg: "config_ok cfg" and ok: "assembly_ok cfg st"
  shows "keeps_ok cfg (compile_line inc cfg line path line_no st)"
proof -
  have def: "keeps_ok cfg (andthen (eval_expr st t) (\<lambda>v. define_symbol name v st))" for t name
    by (rule keeps_andthen [OF eval_expr_defined]) (rule define_symbol_keeps [OF ok])
  have inc': "keeps_ok cfg (inc path name line_no st)" for name
    using inc ok by (simp add: includer_ok_def)
  show ?thesis
    unfolding compile_line_eq Let_def
    by (auto split: prod.splits option.splits intro: keeps_intros def inc' cfg ok)
qed

lemma compile_lines_keeps:
  assumes inc: "includer_ok cfg inc" and cfg: "config_ok cfg" and ok: "assembly_ok cfg st"
  shows "keeps_ok cfg (compile_lines inc cfg path line_no content st)"
  using ok
proof (induction "length content" arbitrary: content line_no st rule: less_induct)
  case less
  show ?case
  proof (cases "content = []")
    case True
    then show ?thesis using less.prems by (simp add: keeps_Done)
  next
    case False
    have "keeps_ok cfg (andthen (compile_line inc cfg (fst (fgets MAX_LINE content)) path (line_no + 1) st)
        (compile_lines inc cfg path (line_no + 1) (snd (fgets MAX_LINE content))))"
      by (rule keeps_then [OF compile_line_keeps [OF inc cfg less.prems]])
        (rule less.hyps [OF fgets_less [OF _ False]], simp add: MAX_LINE_def)
    then show ?thesis by (simp add: compile_lines_step [OF False])
  qed
qed

lemma compile_include_ok: "config_ok cfg \<Longrightarrow> includer_ok cfg (compile_include streams cfg fs)"
proof (induction streams)
  case 0
  then show ?case by (simp add: includer_ok_def keeps_fail)
next
  case (Suc streams)
  then have "keeps_ok cfg (compile_lines (compile_include streams cfg fs) cfg path line_no content st)"
    if "assembly_ok cfg st" for path line_no content st
    using compile_lines_keeps that by blast
  then show ?case by (auto simp: includer_ok_def open_include_eq Let_def keeps_fail split: option.split)
qed

lemma compile_file_keeps:
  "config_ok cfg \<Longrightarrow> assembly_ok cfg st \<Longrightarrow> keeps_ok cfg (compile_file streams cfg fs content path st)"
  unfolding compile_file_def by (intro compile_lines_keeps compile_include_ok)

lemma empty_assembly_ok: "assembly_ok cfg (empty_assembly cfg)"
  by (auto simp: assembly_ok_def empty_assembly_def symbols_ok_def as_rows_def code_bits_def bit_at_def fun_eq_iff)

lemma steps_keeps:
  assumes "\<forall>f \<in> set fs. \<forall>st. assembly_ok cfg st \<longrightarrow> keeps_ok cfg (f st)" and "assembly_ok cfg st"
  shows "keeps_ok cfg (steps fs st)"
  using assms
proof (induction fs arbitrary: st)
  case (Cons f fs)
  then show ?case by (auto intro: keeps_then)
qed (simp add: keeps_Done)

lemma init_keeps: "assembly_ok cfg st \<Longrightarrow> keeps_ok cfg (init_predefined_symbols cfg st)"
  unfolding init_predefined_symbols_def
  by (rule steps_keeps) (simp_all add: define_symbol_keeps)

text \<open>The bytes of the output hold the rows of the final state.\<close>

definition output_of :: "config \<Rightarrow> code_row list \<Rightarrow> mem \<Rightarrow> bool" where
  "output_of cfg rows out \<longleftrightarrow> length rows \<le> processor_n cfg \<and>
     length out = (instruction_size cfg * length rows + 7) div 8 \<and> bit_at out = code_bits cfg rows"

lemma bit_at_take: "bit_at (take k m) p \<longleftrightarrow> p < 8 * k \<and> bit_at m p"
  by (auto simp: bit_at_def)

lemma flush_space_output:
  assumes cfg: "config_ok cfg" and ok: "assembly_ok cfg st"
  obtains out where "flush_space cfg (as_n st) st = Done out" and "output_of cfg (as_rows st) out"
proof -
  define k where "k = (instruction_size cfg * as_n st + 7) div 8"
  have A: "as_n st \<le> processor_n cfg" "length (as_processor st) = processor_n cfg" "8 * length (as_space st) = space_size cfg"
    "bit_at (as_space st) = code_bits cfg (as_rows st)"
    using ok by (simp_all add: assembly_ok_def space_size_def)
  have rows: "length (as_rows st) = as_n st" using A(1,2) by (simp add: as_rows_def)
  have "instruction_size cfg * as_n st \<le> processor_bits cfg"
    unfolding processor_bits_def by (subst mult.commute) (rule mult_le_mono1 [OF A(1)])
  then have "k \<le> length (as_space st)" using config_bounds(4) [OF cfg] A(3) unfolding k_def by linarith
  moreover have "bit_at (take k (as_space st)) = code_bits cfg (as_rows st)"
  proof (rule ext)
    fix p
    have "instruction_size cfg * as_n st \<le> 8 * k" unfolding k_def by presburger
    then show "bit_at (take k (as_space st)) p = code_bits cfg (as_rows st) p"
      using rows by (auto simp: bit_at_take A(4) code_bits_def mult.commute)
  qed
  moreover have "(instruction_size cfg * as_n st + 8 - 1) div 8 = k" by (simp add: k_def)
  ultimately show thesis
    using that [of "take k (as_space st)"] A(1) rows by (simp add: flush_space_def output_of_def k_def)
qed

lemma assembler_output:
  assumes cfg: "config_ok cfg"
  shows "assembler streams cfg fs input \<noteq> Undefined \<and>
    (assembler streams cfg fs input = Done out \<longrightarrow> (\<exists>rows. output_of cfg rows out))"
proof -
  have init: "keeps_ok cfg (init_predefined_symbols cfg (empty_assembly cfg))"
    by (rule init_keeps [OF empty_assembly_ok])
  show ?thesis
  proof (cases "init_predefined_symbols cfg (empty_assembly cfg)")
    case (Done st)
    then have "assembly_ok cfg st" using init by (simp add: keeps_ok_def)
    then have kept: "keeps_ok cfg (compile_file streams cfg fs input ''<stdin>'' st)" by (rule compile_file_keeps [OF cfg])
    show ?thesis
    proof (cases "compile_file streams cfg fs input ''<stdin>'' st")
      case done2: (Done st2)
      then have "assembly_ok cfg st2" using kept by (simp add: keeps_ok_def)
      then show ?thesis
        by (rule flush_space_output [OF cfg]) (auto simp: assembler_def Done done2)
    qed (use kept in \<open>simp_all add: assembler_def Done keeps_ok_def\<close>)
  qed (use init in \<open>simp_all add: assembler_def keeps_ok_def\<close>)
qed

end
