(* ===== verification/AssemblerText.thy ===== *)
theory AssemblerText
  imports AssemblerOk
begin

text \<open>
  What the text of an assembler program means, and that src/assembler.c implements it. A program
  is a list of definitions and instructions over expressions; its meaning is the list of rows it
  evaluates to in an environment of symbols. \<open>text_of_program\<close> writes it in the syntax that the
  assembler reads, with or without the mnemonic.
\<close>

section \<open>Programs and their meaning\<close>

datatype atom = Number nat | Name string
datatype expr = Expr atom "(char \<times> atom) list"
datatype statement = Symbol string expr | Instruction bool expr expr expr

type_synonym env = "string \<Rightarrow> u64 option"

primrec atom_meaning :: "env \<Rightarrow> atom \<Rightarrow> u64 option" where
  "atom_meaning env (Number n) = Some (of_nat n)"
| "atom_meaning env (Name s) = env s"

text \<open>Sums and differences of two or more atoms are taken modulo \<open>2 ^ 32\<close>.\<close>

primrec rest_meaning :: "env \<Rightarrow> u64 \<Rightarrow> (char \<times> atom) list \<Rightarrow> u64 option" where
  "rest_meaning env v [] = Some v"
| "rest_meaning env v (x # xs) = do {
     w \<leftarrow> atom_meaning env (snd x);
     rest_meaning env (combine (fst x) v w) xs
   }"

primrec expr_meaning :: "env \<Rightarrow> expr \<Rightarrow> u64 option" where
  "expr_meaning env (Expr a xs) = do { v \<leftarrow> atom_meaning env a; rest_meaning env v xs }"

fun program_meaning :: "env \<Rightarrow> statement list \<Rightarrow> code_row list option" where
  "program_meaning env [] = Some []"
| "program_meaning env (Symbol s e # p) = do { v \<leftarrow> expr_meaning env e; program_meaning (env(s \<mapsto> v)) p }"
| "program_meaning env (Instruction m e1 e2 e3 # p) = do {
     a \<leftarrow> expr_meaning env e1;
     b \<leftarrow> expr_meaning env e2;
     c \<leftarrow> expr_meaning env e3;
     rows \<leftarrow> program_meaning env p;
     Some ((ucast a, ucast b, ucast c) # rows)
   }"

section \<open>Their text\<close>

primrec text_of_atom :: "atom \<Rightarrow> string" where
  "text_of_atom (Number n) = dec_string n"
| "text_of_atom (Name s) = s"

primrec text_of_rest :: "(char \<times> atom) list \<Rightarrow> string" where
  "text_of_rest [] = []"
| "text_of_rest (x # xs) = fst x # text_of_atom (snd x) @ text_of_rest xs"

primrec text_of_expr :: "expr \<Rightarrow> string" where
  "text_of_expr (Expr a xs) = text_of_atom a @ text_of_rest xs"

primrec text_of_statement :: "statement \<Rightarrow> string" where
  "text_of_statement (Symbol s e) = s @ '' '' @ text_of_expr e"
| "text_of_statement (Instruction m e1 e2 e3) =
     (if m then ''copy '' else []) @ text_of_expr e1 @ '' '' @ text_of_expr e2 @ '' '' @ text_of_expr e3"

definition text_of_program :: "statement list \<Rightarrow> string" where
  "text_of_program p = concat (map (\<lambda>s. text_of_statement s @ [CHR 0x0A]) p)"

text \<open>A name, and the limits of the buffers.\<close>

definition plain :: "char \<Rightarrow> bool" where
  "plain c \<longleftrightarrow> \<not> isspace c \<and> c \<noteq> CHR '';'' \<and> c \<noteq> CHR 0x00 \<and> c \<noteq> quote"

definition name_ok :: "string \<Rightarrow> bool" where
  "name_ok s \<longleftrightarrow> s \<noteq> [] \<and> is_name_start (hd s) \<and> list_all (\<lambda>c. plain c \<and> \<not> is_operator c) s \<and> length s < 64 \<and>
     s \<noteq> ''include'' \<and> s \<noteq> ''copy''"

primrec atom_ok :: "atom \<Rightarrow> bool" where
  "atom_ok (Number n) \<longleftrightarrow> n < 2 ^ 64"
| "atom_ok (Name s) \<longleftrightarrow> name_ok s"

primrec expr_ok :: "expr \<Rightarrow> bool" where
  "expr_ok (Expr a xs) \<longleftrightarrow> atom_ok a \<and> list_all (\<lambda>x. is_operator (fst x) \<and> atom_ok (snd x)) xs \<and>
     length (text_of_expr (Expr a xs)) < 256"

primrec statement_ok :: "statement \<Rightarrow> bool" where
  "statement_ok (Symbol s e) \<longleftrightarrow> name_ok s \<and> expr_ok e"
| "statement_ok (Instruction m e1 e2 e3) \<longleftrightarrow> expr_ok e1 \<and> expr_ok e2 \<and> expr_ok e3"

section \<open>Characters and tokens\<close>

lemma isdigit_plain: "isdigit c \<Longrightarrow> plain c \<and> \<not> is_operator c"
  by (auto simp: isdigit_def plain_def isspace_def quote_def is_operator_def)

lemma operator_plain: "is_operator c \<Longrightarrow> plain c \<and> \<not> isdigit c"
  by (auto simp: isdigit_def plain_def isspace_def quote_def is_operator_def)

lemma name_start_not_digit: "is_name_start c \<Longrightarrow> \<not> isdigit c"
  by (auto simp: is_name_start_def isalpha_def isdigit_def)

lemma digit_char_isdigit: "d < 10 \<Longrightarrow> isdigit (digit_char d)"
  by (simp add: isdigit_def digit_char_def)

lemma dec_string_isdigit: "list_all isdigit (dec_string n)"
proof (induction n rule: dec_string.induct)
  case (1 n)
  then show ?case by (cases "n < 10") (simp_all add: dec_string.simps [of n] digit_char_isdigit)
qed

lemma dec_string_length: "n < 10 ^ Suc k \<Longrightarrow> length (dec_string n) \<le> Suc k"
proof (induction k arbitrary: n)
  case 0
  then show ?case by (simp add: dec_string.simps [of n])
next
  case (Suc k)
  show ?case
  proof (cases "n < 10")
    case False
    have "n div 10 < 10 ^ Suc k" using Suc.prems by (simp add: less_mult_imp_div_less)
    then show ?thesis using Suc.IH [of "n div 10"] False by (simp add: dec_string.simps [of n])
  qed (simp add: dec_string.simps [of n])
qed

lemma atom_text:
  assumes "atom_ok a"
  shows "text_of_atom a \<noteq> []" and "list_all (\<lambda>c. plain c \<and> \<not> is_operator c) (text_of_atom a)"
    and "length (text_of_atom a) < 128"
proof -
  have "list_all (\<lambda>c. plain c \<and> \<not> is_operator c) (dec_string n)" for n
    using dec_string_isdigit [of n] isdigit_plain by (auto simp: list_all_iff)
  moreover have "length (dec_string n) < 128" if "n < 2 ^ 64" for n :: nat
  proof -
    have "n < 10 ^ Suc 19" using that by simp
    then show ?thesis using dec_string_length [of n 19] by simp
  qed
  ultimately show "text_of_atom a \<noteq> []" "list_all (\<lambda>c. plain c \<and> \<not> is_operator c) (text_of_atom a)"
    "length (text_of_atom a) < 128"
    using assms by (cases a; simp add: name_ok_def)+
qed

lemma rest_text_plain:
  "list_all (\<lambda>x. is_operator (fst x) \<and> atom_ok (snd x)) xs \<Longrightarrow> list_all plain (text_of_rest xs)"
  using atom_text(2) operator_plain by (induction xs) (fastforce simp: list_all_iff)+

lemma expr_text:
  assumes "expr_ok e"
  shows "text_of_expr e \<noteq> []" and "list_all plain (text_of_expr e)" and "length (text_of_expr e) < 256"
proof -
  obtain a xs where e: "e = Expr a xs" by (cases e)
  have a: "atom_ok a" and xs: "list_all (\<lambda>x. is_operator (fst x) \<and> atom_ok (snd x)) xs"
    using assms by (simp_all add: e)
  show "text_of_expr e \<noteq> []" using atom_text(1) [OF a] by (simp add: e)
  show "list_all plain (text_of_expr e)"
    using atom_text(2) [OF a] rest_text_plain [OF xs] by (auto simp: e list_all_iff)
  show "length (text_of_expr e) < 256" using assms by (simp add: e)
qed

lemma read_plain_token:
  assumes "tok \<noteq> []" and "list_all plain tok" and "length tok < 256" and "rest = [] \<or> isspace (hd rest)"
  shows "token_of 256 (tok @ rest) = (Some tok, rest)"
proof -
  have hd: "\<not> isspace (hd tok)" "hd tok \<noteq> quote" using assms(1,2) by (cases tok; simp add: plain_def)+
  have "skip_spaces (tok @ rest) = tok @ rest"
    using hd(1) assms(1) by (cases tok) (simp_all add: skip_spaces_def)
  moreover have "takeWhile (\<lambda>c. \<not> isspace c) (tok @ rest) = tok"
  proof -
    have "takeWhile (\<lambda>c. \<not> isspace c) (tok @ rest) = tok @ takeWhile (\<lambda>c. \<not> isspace c) rest"
      by (rule takeWhile_append2) (use assms(2) in \<open>auto simp: list_all_iff plain_def\<close>)
    then show ?thesis using assms(4) by (cases rest) auto
  qed
  ultimately show ?thesis using hd(2) assms(1,3) by (simp add: token_of_def)
qed

lemma token_of_space: "isspace c \<Longrightarrow> token_of k (c # s) = token_of k s"
  by (simp add: token_of_def skip_spaces_def)

lemma token_of_Nil: "token_of k [] = (None, [])"
  by (simp add: token_of_def skip_spaces_def)

lemma isspace_blank [simp]: "isspace CHR '' ''" "isspace CHR 0x0A"
  by (simp_all add: isspace_def)

section \<open>Evaluation\<close>

definition env_of :: "assembly \<Rightarrow> env" where
  "env_of st name = map_option (\<lambda>i. sym_value (as_symbols st ! i)) (find_symbol name st)"

lemma parse_decimal: "n < 2 ^ 64 \<Longrightarrow> parse_number (dec_string n) = Done (of_nat n)"
proof -
  assume n: "n < 2 ^ 64"
  have "take 2 (dec_string n) \<noteq> ''0b''"
  proof
    assume "take 2 (dec_string n) = ''0b''"
    then have "CHR ''b'' \<in> set (dec_string n)" using in_set_takeD [of "CHR ''b''" 2 "dec_string n"] by simp
    then have "isdigit CHR ''b''" using dec_string_isdigit [of n] by (simp add: list_all_iff)
    then show False by (simp add: isdigit_def)
  qed
  then show ?thesis using n by (simp add: parse_number_def strtoull0_dec)
qed

lemma atom_value_meaning:
  assumes "atom_ok a" and "atom_meaning (env_of st) a = Some v"
  shows "atom_value st (text_of_atom a) = Done v"
proof (cases a)
  case (Number n)
  have "isdigit (hd (dec_string n))"
    using dec_string_isdigit [of n] by (cases "dec_string n") (simp_all del: dec_string.simps)
  then show ?thesis using assms parse_decimal [of n] by (simp add: Number atom_value_def)
next
  case (Name s)
  have "\<not> isdigit (hd s)" using assms(1) name_start_not_digit by (simp add: Name name_ok_def)
  then show ?thesis using assms(2) by (auto simp: Name atom_value_def env_of_def)
qed

lemma atom_split:
  assumes "atom_ok a" and "rest = [] \<or> is_operator (hd rest)"
  shows "takeWhile (\<lambda>c. \<not> is_operator c) (text_of_atom a @ rest) = text_of_atom a"
    and "after_atom (text_of_atom a @ rest) = rest"
proof -
  have no: "\<forall>c \<in> set (text_of_atom a). \<not> is_operator c"
    using atom_text(2) [OF assms(1)] by (auto simp: list_all_iff)
  show "takeWhile (\<lambda>c. \<not> is_operator c) (text_of_atom a @ rest) = text_of_atom a"
    using no assms(2) by (cases rest) (simp_all add: takeWhile_append)
  show "after_atom (text_of_atom a @ rest) = rest"
    using no assms(2) by (cases rest) (simp_all add: after_atom_def dropWhile_append3)
qed

lemma read_atom_meaning:
  assumes "atom_ok a" and "rest = [] \<or> is_operator (hd rest)" and "atom_meaning (env_of st) a = Some v"
  shows "read_atom st (text_of_atom a @ rest) = Done v"
  using atom_split(1) [OF assms(1,2)] atom_text(3) [OF assms(1)] atom_value_meaning [OF assms(1,3)]
  by (simp add: read_atom_eq Let_def)

lemma text_of_rest_hd:
  "list_all (\<lambda>x. is_operator (fst x) \<and> atom_ok (snd x)) xs \<Longrightarrow> text_of_rest xs = [] \<or> is_operator (hd (text_of_rest xs))"
  by (cases xs) simp_all

lemma eval_rest_meaning:
  assumes "list_all (\<lambda>x. is_operator (fst x) \<and> atom_ok (snd x)) xs"
    and "rest_meaning (env_of st) v xs = Some w"
  shows "eval_rest st v (text_of_rest xs) = Done w"
  using assms
proof (induction xs arbitrary: v)
  case (Cons x xs)
  then have x: "atom_ok (snd x)" and xs: "list_all (\<lambda>x. is_operator (fst x) \<and> atom_ok (snd x)) xs" by simp_all
  obtain u where u: "atom_meaning (env_of st) (snd x) = Some u"
      "rest_meaning (env_of st) (combine (fst x) v u) xs = Some w"
    using Cons.prems(2) by (auto split: bind_splits)
  show ?case
    using read_atom_meaning [OF x text_of_rest_hd [OF xs] u(1)] atom_split(2) [OF x text_of_rest_hd [OF xs]]
      Cons.IH [OF xs u(2)] atom_text(1) [OF x]
    by simp
qed simp

lemma eval_expr_meaning:
  assumes "expr_ok e" and "expr_meaning (env_of st) e = Some v"
  shows "eval_expr st (text_of_expr e) = Done v"
proof -
  obtain a xs where e: "e = Expr a xs" by (cases e)
  have a: "atom_ok a" and xs: "list_all (\<lambda>x. is_operator (fst x) \<and> atom_ok (snd x)) xs"
    using assms(1) by (simp_all add: e)
  obtain u where u: "atom_meaning (env_of st) a = Some u" "rest_meaning (env_of st) u xs = Some v"
    using assms(2) by (auto simp: e split: bind_splits)
  show ?thesis
    using read_atom_meaning [OF a text_of_rest_hd [OF xs] u(1)] atom_split(2) [OF a text_of_rest_hd [OF xs]]
      eval_rest_meaning [OF xs u(2)] atom_text(1) [OF a]
    by (simp add: e eval_expr_def)
qed

section \<open>Symbols\<close>

lemma define_symbol_known:
  assumes Some: "find_symbol name st = Some i"
  obtains st' where "define_symbol name value st = Done st'" and "env_of st' = (env_of st)(name \<mapsto> value)"
    and "length (as_symbols st') = length (as_symbols st)" and "as_rows st' = as_rows st"
proof -
  let ?f = "\<lambda>s. s\<lparr>sym_value := value\<rparr>"
  define st' where "st' = st\<lparr>as_symbols := modify i ?f (as_symbols st)\<rparr>"
  have find: "find_symbol x st' = find_symbol x st" for x
    by (simp add: find_symbol_def st'_def index_of_modify)
  have i: "i < length (as_symbols st)" "sym_name (as_symbols st ! i) = name"
    using index_of_Some(1,2) [OF Some [unfolded find_symbol_def]] by simp_all
  have "env_of st' x = ((env_of st)(name \<mapsto> value)) x" for x
  proof (cases "find_symbol x st")
    case None
    then have "x \<noteq> name" using assms by auto
    then show ?thesis by (simp add: env_of_def find None)
  next
    case (Some j)
    then have j: "j < length (as_symbols st)" "sym_name (as_symbols st ! j) = x"
      using index_of_Some(1,2) [OF Some [unfolded find_symbol_def]] by simp_all
    have "i = j \<longleftrightarrow> x = name"
    proof
      show "i = j" if "x = name" using assms Some that by simp
      show "x = name" if "i = j" using i(2) j(2) that by simp
    qed
    then show ?thesis using Some j(1) by (simp add: env_of_def find) (simp add: st'_def nth_modify)
  qed
  moreover have "define_symbol name value st = Done st'" by (simp add: define_symbol_eq Some st'_def)
  ultimately show thesis using that [of st'] by (simp add: fun_eq_iff as_rows_def st'_def)
qed

lemma define_symbol_env:
  assumes name: "length name < 64" and room: "length (as_symbols st) < MAX_SYMBOLS"
  obtains st' where "define_symbol name value st = Done st'" and "env_of st' = (env_of st)(name \<mapsto> value)"
    and "length (as_symbols st') \<le> length (as_symbols st) + 1" and "as_rows st' = as_rows st"
proof (cases "find_symbol name st")
  case None
  define st' where "st' = st\<lparr>as_symbols := as_symbols st @ [\<lparr>sym_name = name, sym_value = value\<rparr>]\<rparr>"
  have fresh: "\<forall>s \<in> set (as_symbols st). sym_name s \<noteq> name"
    using None by (simp add: find_symbol_def index_of_None)
  have find: "find_symbol x st' = (case find_symbol x st of Some i \<Rightarrow> Some i
      | None \<Rightarrow> if x = name then Some (length (as_symbols st)) else None)" for x
    by (auto simp: find_symbol_def index_of_def list_ex_iff st'_def takeWhile_append split: option.split)
  have "env_of st' x = ((env_of st)(name \<mapsto> value)) x" for x
  proof (cases "find_symbol x st")
    case (Some i)
    then have "i < length (as_symbols st)" "x \<noteq> name" using None by (auto simp: find_symbol_def dest: index_of_Some)
    then show ?thesis using Some by (simp add: env_of_def find) (simp add: st'_def nth_append)
  qed (simp add: env_of_def find None; simp add: st'_def)
  moreover have "define_symbol name value st = Done st'"
    using None room name by (simp add: define_symbol_eq st'_def)
  ultimately show thesis using that [of st'] by (simp add: fun_eq_iff as_rows_def st'_def)
next
  case (Some i)
  then show thesis by (rule define_symbol_known [of _ _ _ "value"]) (simp add: that)
qed

section \<open>Lines\<close>

lemma plain_safe: "list_all plain s \<Longrightarrow> \<forall>c \<in> set s. c \<noteq> CHR '';'' \<and> c \<noteq> CHR 0x00"
  by (simp add: list_all_iff plain_def)

lemma no_comment:
  assumes "\<forall>c \<in> set line. c \<noteq> CHR '';'' \<and> c \<noteq> CHR 0x00"
  shows "strip_line (c_string line) = line"
proof -
  have "c_string line = line" unfolding c_string_def takeWhile_eq_all_conv using assms by blast
  moreover have "strip_line line = line" unfolding strip_line_def takeWhile_eq_all_conv using assms by blast
  ultimately show ?thesis by simp
qed

lemma compile_definition:
  assumes ok: "statement_ok (Symbol s e)" and v: "expr_meaning (env_of st) e = Some v"
  shows "compile_line inc cfg (text_of_statement (Symbol s e) @ [CHR 0x0A]) path line_no st = define_symbol s v st"
proof -
  have s: "s \<noteq> []" "list_all plain s" "length s < 256" "is_name_start (hd s)" "s \<noteq> ''include''" "s \<noteq> ''copy''"
    using ok by (auto simp: name_ok_def list_all_iff)
  have e: "expr_ok e" using ok by simp
  let ?line = "s @ CHR '' '' # text_of_expr e @ [CHR 0x0A]"
  have "\<forall>c \<in> set ?line. c \<noteq> CHR '';'' \<and> c \<noteq> CHR 0x00"
    using s(2) expr_text(2) [OF e] by (auto simp: list_all_iff plain_def)
  then have line: "strip_line (c_string ?line) = ?line" by (rule no_comment)
  have t0: "token_of 256 ?line = (Some s, CHR '' '' # text_of_expr e @ [CHR 0x0A])"
    by (rule read_plain_token) (simp_all add: s)
  have t1: "token_of 256 (CHR '' '' # text_of_expr e @ [CHR 0x0A]) = (Some (text_of_expr e), [CHR 0x0A])"
    using read_plain_token [OF expr_text [OF e], of "[CHR 0x0A]"] by (simp add: token_of_space)
  have t2: "token_of 256 [CHR 0x0A] = (None, [])"
    by (simp add: token_of_space token_of_Nil)
  show ?thesis
    using s(4-6) eval_expr_meaning [OF e v] by (simp add: compile_line_eq line t0 t1 t2)
qed

lemma keyword_not_expr:
  assumes "expr_ok e"
  shows "text_of_expr e \<noteq> ''include'' \<and> text_of_expr e \<noteq> ''copy''"
proof -
  obtain a xs where e: "e = Expr a xs" by (cases e)
  have a: "atom_ok a" using assms by (simp add: e)
  have plain: "\<forall>c \<in> set (''include'' @ ''copy''). \<not> is_operator c \<and> \<not> isdigit c" by (simp add: is_operator_def isdigit_def)
  show ?thesis
  proof (cases xs)
    case Nil
    show ?thesis
    proof (cases a)
      case (Number n)
      have "hd (dec_string n) \<in> set (dec_string n)" by simp
      then have "isdigit (hd (dec_string n))" using dec_string_isdigit [of n] by (simp add: list_all_iff)
      then have "dec_string n \<noteq> ''include''" "dec_string n \<noteq> ''copy''" by (auto simp: isdigit_def)
      then show ?thesis by (simp add: e Nil Number)
    qed (use a in \<open>simp add: e Nil name_ok_def\<close>)
  next
    case (Cons x ys)
    then have "is_operator (fst x)" using assms by (simp add: e)
    moreover have "fst x \<in> set (text_of_expr e)" by (simp add: e Cons)
    ultimately show ?thesis using plain by (metis UnI1 UnI2 set_append)
  qed
qed

lemma compile_instruction:
  assumes ok: "statement_ok (Instruction m e1 e2 e3)"
    and v: "expr_meaning (env_of st) e1 = Some a" "expr_meaning (env_of st) e2 = Some b" "expr_meaning (env_of st) e3 = Some c"
  shows "compile_line inc cfg (text_of_statement (Instruction m e1 e2 e3) @ [CHR 0x0A]) path line_no st
       = emit_instruction cfg (ucast a) (ucast b) (ucast c) path line_no st"
proof -
  have e: "expr_ok e1" "expr_ok e2" "expr_ok e3" using ok by simp_all
  let ?x1 = "text_of_expr e1" and ?x2 = "text_of_expr e2" and ?x3 = "text_of_expr e3"
  let ?args = "?x1 @ CHR '' '' # ?x2 @ CHR '' '' # ?x3 @ [CHR 0x0A]"
  let ?line = "(if m then ''copy '' else []) @ ?args"
  have "\<forall>c \<in> set (?x1 @ ?x2 @ ?x3 @ (CHR 0x0A # ''copy '')). c \<noteq> CHR '';'' \<and> c \<noteq> CHR 0x00"
    using plain_safe [OF expr_text(2) [OF e(1)]] plain_safe [OF expr_text(2) [OF e(2)]] plain_safe [OF expr_text(2) [OF e(3)]]
    unfolding set_append ball_Un by simp
  moreover have "set ?line \<subseteq> set (?x1 @ ?x2 @ ?x3 @ (CHR 0x0A # ''copy ''))" by (cases m) auto
  ultimately have "\<forall>c \<in> set ?line. c \<noteq> CHR '';'' \<and> c \<noteq> CHR 0x00" by (meson subsetD)
  then have line: "strip_line (c_string ?line) = ?line" by (rule no_comment)
  have t1: "token_of 256 ?args = (Some ?x1, CHR '' '' # ?x2 @ CHR '' '' # ?x3 @ [CHR 0x0A])"
    by (rule read_plain_token) (simp_all add: expr_text [OF e(1)])
  have "token_of 256 (?x2 @ CHR '' '' # ?x3 @ [CHR 0x0A]) = (Some ?x2, CHR '' '' # ?x3 @ [CHR 0x0A])"
    by (rule read_plain_token) (simp_all add: expr_text [OF e(2)])
  then have t2: "token_of 256 (CHR '' '' # ?x2 @ CHR '' '' # ?x3 @ [CHR 0x0A]) = (Some ?x2, CHR '' '' # ?x3 @ [CHR 0x0A])"
    by (simp add: token_of_space)
  have t3: "token_of 256 (CHR '' '' # ?x3 @ [CHR 0x0A]) = (Some ?x3, [CHR 0x0A])"
    using read_plain_token [OF expr_text [OF e(3)], of "[CHR 0x0A]"] by (simp add: token_of_space)
  have t4: "token_of 256 [CHR 0x0A] = (None, [])"
    by (simp add: token_of_space token_of_Nil)
  have copy: "token_of 256 (''copy'' @ CHR '' '' # ?args) = (Some ''copy'', CHR '' '' # ?args)"
    by (rule read_plain_token) (simp_all add: plain_def isspace_def quote_def)
  have copy1: "token_of 256 (CHR '' '' # ?args) = token_of 256 ?args" by (simp add: token_of_space)
  have emit: "emit_exprs cfg ?x1 ?x2 ?x3 path line_no st = emit_instruction cfg (ucast a) (ucast b) (ucast c) path line_no st"
    using eval_expr_meaning [OF e(1) v(1)] eval_expr_meaning [OF e(2) v(2)] eval_expr_meaning [OF e(3) v(3)]
    by (simp add: emit_exprs_def)
  have src: "text_of_statement (Instruction m e1 e2 e3) @ [CHR 0x0A] = ?line" by simp
  show ?thesis
  proof (cases m)
    case True
    then have "?line = ''copy'' @ CHR '' '' # ?args" by simp
    then show ?thesis
      unfolding src compile_line_eq line
      using copy t1 t2 t3 t4 emit by (simp only: Let_def prod.case option.case copy1 fst_conv) simp
  next
    case False
    then have "?line = ?args" by simp
    then show ?thesis
      unfolding src compile_line_eq line
      using keyword_not_expr [OF e(1)] t1 t2 t3 t4 emit by (simp only: Let_def prod.case option.case fst_conv) simp
  qed
qed

lemma fgets_line:
  assumes "list_all (\<lambda>c. c \<noteq> CHR 0x0A) line" and "length line < 1023"
  shows "fgets MAX_LINE (line @ CHR 0x0A # rest) = (line @ [CHR 0x0A], rest)"
proof -
  have "takeWhile (\<lambda>c. c \<noteq> CHR 0x0A) (line @ CHR 0x0A # rest) = line"
    using assms(1) by (simp add: list_all_iff takeWhile_append)
  then show ?thesis using assms(2) by (simp add: fgets_def MAX_LINE_def)
qed

lemma fgets_last:
  assumes "\<forall>c \<in> set line. c \<noteq> CHR 0x0A" and "length line < 1023"
  shows "fgets MAX_LINE line = (line, [])"
proof -
  have all: "takeWhile (\<lambda>c. c \<noteq> CHR 0x0A) line = line" unfolding takeWhile_eq_all_conv by (rule assms(1))
  show ?thesis unfolding fgets_def Let_def all using assms(2) by (simp add: MAX_LINE_def)
qed

lemma plain_no_newline: "list_all plain t \<Longrightarrow> list_all (\<lambda>c. c \<noteq> CHR 0x0A) t"
  by (erule list.pred_mono_strong) (metis isspace_blank(2) plain_def)

lemma statement_text:
  assumes "statement_ok s"
  shows "list_all (\<lambda>c. c \<noteq> CHR 0x0A) (text_of_statement s)" and "length (text_of_statement s) < 1023"
proof -

  show "list_all (\<lambda>c. c \<noteq> CHR 0x0A) (text_of_statement s)"
  proof (cases s)
    case (Symbol n e)
    then have "list_all plain n" "expr_ok e" using assms by (auto simp: name_ok_def list_all_iff)
    then show ?thesis using expr_text(2) [of e] by (simp add: Symbol plain_no_newline)
  next
    case (Instruction m e1 e2 e3)
    then have "expr_ok e1" "expr_ok e2" "expr_ok e3" using assms by simp_all
    then show ?thesis by (simp add: Instruction plain_no_newline expr_text(2))
  qed
  show "length (text_of_statement s) < 1023"
  proof (cases s)
    case (Symbol n e)
    then have "length n < 64" "expr_ok e" using assms by (auto simp: name_ok_def)
    then show ?thesis using expr_text(3) [of e] by (simp add: Symbol)
  next
    case (Instruction m e1 e2 e3)
    then have "expr_ok e1" "expr_ok e2" "expr_ok e3" using assms by simp_all
    then show ?thesis using expr_text(3) [of e1] expr_text(3) [of e2] expr_text(3) [of e3] by (simp add: Instruction)
  qed
qed

section \<open>Programs\<close>

fun definitions :: "statement list \<Rightarrow> nat" where
  "definitions [] = 0"
| "definitions (Symbol s e # p) = definitions p + 1"
| "definitions (Instruction m e1 e2 e3 # p) = definitions p"

lemma compile_program:
  assumes cfg: "config_ok cfg" and "assembly_ok cfg st" and "list_all statement_ok p"
    and "program_meaning (env_of st) p = Some rows"
    and "length (as_rows st) + length rows \<le> processor_n cfg"
    and "length (as_symbols st) + definitions p \<le> MAX_SYMBOLS"
  shows "\<exists>st'. compile_lines inc cfg path line_no (text_of_program p) st = Done st' \<and> assembly_ok cfg st' \<and>
    as_rows st' = as_rows st @ rows"
  using assms(2-)
proof (induction p arbitrary: st rows line_no)
  case Nil
  then show ?case by (simp add: text_of_program_def)
next
  case (Cons s p)
  define line where "line = text_of_statement s @ [CHR 0x0A]"
  have s: "statement_ok s" and p: "list_all statement_ok p" using Cons.prems(2) by simp_all
  have split: "text_of_program (s # p) = text_of_statement s @ CHR 0x0A # text_of_program p"
    by (simp add: text_of_program_def)
  have "fgets MAX_LINE (text_of_program (s # p)) = (line, text_of_program p)"
    unfolding split line_def by (rule fgets_line [OF statement_text [OF s]])
  moreover have "text_of_program (s # p) \<noteq> []" by (simp add: split)
  ultimately have step: "compile_lines inc cfg path line_no (text_of_program (s # p)) st =
      andthen (compile_line inc cfg line path (line_no + 1) st)
        (compile_lines inc cfg path (line_no + 1) (text_of_program p))"
    by (simp add: compile_lines_step)
  show ?case
  proof (cases s)
    case (Symbol n e)
    then obtain v where v: "expr_meaning (env_of st) e = Some v"
        "program_meaning ((env_of st)(n \<mapsto> v)) p = Some rows"
      using Cons.prems(3) by (auto split: bind_splits)
    have n: "length n < 64" using s by (simp add: Symbol name_ok_def)
    have room: "length (as_symbols st) < MAX_SYMBOLS" using Cons.prems(5) by (simp add: Symbol)
    obtain st1 where st1: "define_symbol n v st = Done st1" "env_of st1 = (env_of st)(n \<mapsto> v)"
        "length (as_symbols st1) \<le> length (as_symbols st) + 1" "as_rows st1 = as_rows st"
      by (rule define_symbol_env [OF n room])
    have "assembly_ok cfg st1"
      using define_symbol_keeps [OF Cons.prems(1), of n v] st1(1) by (simp add: keeps_ok_def)
    moreover have "compile_line inc cfg line path (line_no + 1) st = Done st1"
      using compile_definition [OF s [unfolded Symbol] v(1)] st1(1) by (simp add: line_def Symbol)
    moreover have "program_meaning (env_of st1) p = Some rows" by (simp only: st1(2) v(2))
    moreover have "length (as_symbols st1) + definitions p \<le> MAX_SYMBOLS"
      using Cons.prems(5) st1(3) by (simp add: Symbol)
    ultimately show ?thesis
      using Cons.IH [of st1 rows "line_no + 1"] p st1(4) Cons.prems(4) by (simp add: step)
  next
    case (Instruction m e1 e2 e3)
    then obtain a b c rows' where v: "expr_meaning (env_of st) e1 = Some a" "expr_meaning (env_of st) e2 = Some b"
        "expr_meaning (env_of st) e3 = Some c" "program_meaning (env_of st) p = Some rows'"
        "rows = (ucast a, ucast b, ucast c) # rows'"
      using Cons.prems(3) by (auto split: bind_splits)
    have "length (as_rows st) = as_n st" using Cons.prems(1) by (simp add: assembly_ok_def as_rows_def)
    then have room: "as_n st < processor_n cfg" using Cons.prems(4) by (simp add: v(5))
    obtain st1 where st1: "emit_instruction cfg (ucast a) (ucast b) (ucast c) path (line_no + 1) st = Done st1"
        "assembly_ok cfg st1" "as_rows st1 = as_rows st @ [(ucast a, ucast b, ucast c)]" "as_symbols st1 = as_symbols st"
      by (rule emit_instruction_ok [OF cfg Cons.prems(1) room])
    have "compile_line inc cfg line path (line_no + 1) st = Done st1"
      using compile_instruction [OF s [unfolded Instruction] v(1-3)] st1(1) by (simp add: line_def Instruction)
    moreover have "env_of st1 = env_of st" using st1(4) by (simp add: env_of_def find_symbol_def fun_eq_iff)
    moreover have "length (as_symbols st1) + definitions p \<le> MAX_SYMBOLS"
      using Cons.prems(5) st1(4) by (simp add: Instruction)
    ultimately show ?thesis
      using Cons.IH [of st1 rows' "line_no + 1"] p st1(2,3) v(4,5) Cons.prems(4) by (simp add: step)
  qed
qed

text \<open>The symbols that every program can use.\<close>

definition predefined :: "config \<Rightarrow> (string \<times> u64) list" where
  "predefined cfg =
    [(''SPACE_SIZE'', of_nat (space_size cfg)), (''PROCESSOR_N'', of_nat (processor_n cfg)),
     (''PROCESSOR_START'', of_nat processor_start), (''INSTRUCTION_SIZE'', of_nat (instruction_size cfg)),
     (''N_SIZE'', of_nat (n_size cfg)), (''ADDRESS_SIZE'', of_nat (address_size cfg)),
     (''PROCESSOR_BITS'', of_nat (processor_bits cfg)), (''CORE_LAYER_BITS'', of_nat (core_layer_bits cfg)),
     (''CORE_INPUT_BITS'', of_nat (core_input_bits cfg)), (''CORE_BUFFER_START'', of_nat (core_buffer_start cfg)),
     (''CORE_RESTART_START'', of_nat (core_restart_start cfg))]"

definition bind_symbol :: "env \<Rightarrow> string \<times> u64 \<Rightarrow> env" where
  "bind_symbol env x = env(fst x \<mapsto> snd x)"

definition predefined_env :: "config \<Rightarrow> env" where
  "predefined_env cfg = foldl bind_symbol Map.empty (predefined cfg)"

lemma define_all:
  assumes "assembly_ok cfg st" and "\<forall>x \<in> set defs. length (fst x) < 64"
    and "length (as_symbols st) + length defs \<le> MAX_SYMBOLS"
  shows "\<exists>st'. steps (map (\<lambda>x. define_symbol (fst x) (snd x)) defs) st = Done st' \<and> assembly_ok cfg st' \<and>
    env_of st' = foldl bind_symbol (env_of st) defs \<and> as_rows st' = as_rows st \<and>
    length (as_symbols st') \<le> length (as_symbols st) + length defs"
  using assms
proof (induction defs arbitrary: st)
  case (Cons x defs)
  have x: "length (fst x) < 64" "length (as_symbols st) < MAX_SYMBOLS" using Cons.prems(2,3) by simp_all
  obtain st1 where st1: "define_symbol (fst x) (snd x) st = Done st1" "env_of st1 = bind_symbol (env_of st) x"
      "length (as_symbols st1) \<le> length (as_symbols st) + 1" "as_rows st1 = as_rows st"
    unfolding bind_symbol_def by (rule define_symbol_env [OF x])
  have "assembly_ok cfg st1"
    using define_symbol_keeps [OF Cons.prems(1), of "fst x" "snd x"] st1(1) by (simp add: keeps_ok_def)
  then obtain st2 where "steps (map (\<lambda>x. define_symbol (fst x) (snd x)) defs) st1 = Done st2" "assembly_ok cfg st2"
      "env_of st2 = foldl bind_symbol (env_of st1) defs" "as_rows st2 = as_rows st1"
      "length (as_symbols st2) \<le> length (as_symbols st1) + length defs"
    using Cons.IH [of st1] Cons.prems(2,3) st1(3) by auto
  then show ?case using st1 by simp
qed simp

lemma init_env:
  obtains st where "init_predefined_symbols cfg (empty_assembly cfg) = Done st" and "assembly_ok cfg st"
    and "env_of st = predefined_env cfg" and "as_rows st = []" and "length (as_symbols st) \<le> 11"
proof -
  have "env_of (empty_assembly cfg) = Map.empty" "as_rows (empty_assembly cfg) = []" "as_symbols (empty_assembly cfg) = []"
    by (simp_all add: env_of_def find_symbol_def index_of_def empty_assembly_def as_rows_def fun_eq_iff)
  moreover have "init_predefined_symbols cfg = steps (map (\<lambda>x. define_symbol (fst x) (snd x)) (predefined cfg))"
    by (simp only: init_predefined_symbols_def predefined_def list.map fst_conv snd_conv)
  moreover have "\<forall>x \<in> set (predefined cfg). length (fst x) < 64" "length (predefined cfg) = 11"
    by (simp_all add: predefined_def)
  ultimately show thesis
    using define_all [OF empty_assembly_ok, of "predefined cfg" cfg] that
    by (auto simp: predefined_env_def MAX_SYMBOLS_def)
qed

section \<open>Properties\<close>

lemma code_bits_empty_row: "code_bit cfg (0, 0, 0) r = False"
  by (simp add: code_bit_def)

lemma decode_output:
  assumes cfg: "config_ok cfg" and bits: "f = code_bits cfg rows"
  shows "decode cfg f i = (if i < length rows then code_row cfg (rows ! i) else row 0 0 0)"
proof (cases "i < length rows")
  case True
  then show ?thesis using decode_code [of cfg f i "rows ! i"] code_bits_slot [OF True] by (simp add: bits)
next
  case False
  have "f (i * instruction_size cfg + r) = code_bit cfg (0, 0, 0) r" for r
  proof -
    have "length rows * instruction_size cfg \<le> i * instruction_size cfg" by (rule mult_le_mono1) (use False in simp)
    then have "\<not> i * instruction_size cfg + r < length rows * instruction_size cfg" by linarith
    then show ?thesis unfolding bits code_bits_def code_bits_empty_row by blast
  qed
  then show ?thesis using False decode_code [of cfg f i "(0, 0, 0)"] by (simp add: code_row_def)
qed

text \<open>The text of a program is assembled from the predefined symbols, in whatever file it stands.\<close>

lemma text_assembled:
  assumes cfg: "config_ok cfg" and p: "list_all statement_ok p" "program_meaning (predefined_env cfg) p = Some rows"
    and fits: "length rows \<le> processor_n cfg" "definitions p + 11 \<le> MAX_SYMBOLS"
  obtains st0 st1 out where "init_predefined_symbols cfg (empty_assembly cfg) = Done st0"
    and "compile_lines inc cfg path 0 (text_of_program p) st0 = Done st1"
    and "flush_space cfg (as_n st1) st1 = Done out" and "output_of cfg rows out"
proof -
  obtain st0 where st0: "init_predefined_symbols cfg (empty_assembly cfg) = Done st0" "assembly_ok cfg st0"
      "env_of st0 = predefined_env cfg" "as_rows st0 = []" "length (as_symbols st0) \<le> 11"
    by (rule init_env)
  obtain st1 where st1: "compile_lines inc cfg path 0 (text_of_program p) st0 = Done st1" "assembly_ok cfg st1" "as_rows st1 = rows"
    using compile_program [OF cfg st0(2) p(1), of rows] p(2) fits st0(3-5) by fastforce
  obtain out where "flush_space cfg (as_n st1) st1 = Done out" "output_of cfg rows out"
    using flush_space_output [OF cfg st1(2)] st1(3) by metis
  then show thesis using that st0(1) st1(1) by blast
qed

text \<open>
  C7. The assembler implements the meaning of its programs: for every program of definitions and
  instructions whose expressions have a value and that fits the processor and the symbol table, the
  text of the program is assembled, and loading the output makes the emulator decode, slot by slot,
  the rows that the program means (each field cut to its width), and nothing behind them.
\<close>

theorem assembles_program:
  assumes "config_ok cfg" and "list_all statement_ok p" and "program_meaning (predefined_env cfg) p = Some rows"
    and "length rows \<le> processor_n cfg" and "definitions p + 11 \<le> MAX_SYMBOLS" and "machine_ok cfg st"
  shows "\<exists>out st'. assembler streams cfg fs (text_of_program p) = Done out \<and>
    length out = (instruction_size cfg * length rows + 7) div 8 \<and>
    space_init cfg (Some out) (length out) st = Some (st', 0) \<and>
    (\<forall>i. decode cfg (bit_at (space st')) i = (if i < length rows then code_row cfg (rows ! i) else row 0 0 0))"
proof -
  obtain st0 st1 out where st0: "init_predefined_symbols cfg (empty_assembly cfg) = Done st0"
      and st1: "compile_lines (compile_include streams cfg fs) cfg ''<stdin>'' 0 (text_of_program p) st0 = Done st1"
      and out: "flush_space cfg (as_n st1) st1 = Done out" "output_of cfg rows out"
    by (rule text_assembled [OF assms(1-5)])
  have assembled: "assembler streams cfg fs (text_of_program p) = Done out"
    using st0 st1 out(1) by (simp add: assembler_def compile_file_def)
  have len: "length out = (instruction_size cfg * length rows + 7) div 8" using out(2) by (simp add: output_of_def)
  have "instruction_size cfg * length rows \<le> processor_bits cfg"
    unfolding processor_bits_def by (subst mult.commute) (rule mult_le_mono1 [OF assms(4)])
  then have fit: "length out \<le> vm_space_bytes cfg"
    using config_bounds(4) [OF assms(1)] unfolding len space_size_def by linarith
  obtain st' where st': "space_init cfg (Some out) (length out) st = Some (st', 0)"
    using space_init_total [OF fit assms(6)] by blast
  have "bit_at (space st') = code_bits cfg rows"
    using space_init_bits(2) [OF assms(6) fit st'] out(2) by (simp add: output_of_def)
  then show ?thesis using assembled len st' decode_output [OF assms(1)] by blast
qed

definition sample_program :: "statement list" where
  "sample_program =
    [Symbol ''X'' (Expr (Number 5) []),
     Instruction False (Expr (Name ''X'') []) (Expr (Name ''SPACE_SIZE'') [(CHR ''-'', Number 8)]) (Expr (Number 0) []),
     Instruction True (Expr (Number 1) []) (Expr (Name ''X'') [(CHR ''+'', Name ''X'')]) (Expr (Number 7) [])]"

lemma sample_program_fits:
  "list_all statement_ok sample_program"
  "program_meaning (predefined_env default_config) sample_program = Some [(5, 16777208, 0), (1, 10, 7)]"
  "length [(5, 16777208, 0), (1, 10, 7) :: code_row] \<le> processor_n default_config"
  "definitions sample_program + 11 \<le> MAX_SYMBOLS"
proof -
  show "list_all statement_ok sample_program"
    by (simp add: sample_program_def name_ok_def is_name_start_def isalpha_def plain_def isspace_def quote_def
        is_operator_def dec_string.simps)
  have "predefined_env default_config ''SPACE_SIZE'' = Some 16777216" "predefined_env default_config ''X'' = None"
    by (simp_all add: predefined_env_def predefined_def bind_symbol_def default_sizes)
  then show "program_meaning (predefined_env default_config) sample_program = Some [(5, 16777208, 0), (1, 10, 7)]"
    by (simp add: sample_program_def combine_def)
  show "definitions sample_program + 11 \<le> MAX_SYMBOLS" by (simp add: sample_program_def MAX_SYMBOLS_def)
qed (simp add: default_config_def)

lemma assembles_program_witness:
  "\<exists>out st'. assembler 8 default_config (\<lambda>_. None) (text_of_program sample_program) = Done out \<and>
    space_init default_config (Some out) (length out) (core_machine []) = Some (st', 0) \<and>
    decode default_config (bit_at (space st')) 1 = code_row default_config (1, 10, 7)"
  using assembles_program [OF default_config_ok sample_program_fits core_machine_ok, of 8 "\<lambda>_. None" "[]"]
  by fastforce

text \<open>
  C9. On every input, whatever the files it includes, the assembler returns without undefined
  behaviour: every write to a line, token, atom or path buffer, to the table of symbols, to the
  instructions and to the space stays inside its array. A successful run writes exactly the whole
  bytes of at most \<open>PROCESSOR_N\<close> encoded rows.
\<close>

theorem assembler_safe:
  assumes "config_ok cfg"
  shows "assembler streams cfg fs input \<noteq> Undefined \<and>
    (\<forall>out. assembler streams cfg fs input = Done out \<longrightarrow>
      (\<exists>rows. length rows \<le> processor_n cfg \<and> length out = (instruction_size cfg * length rows + 7) div 8 \<and>
        bit_at out = code_bits cfg rows))"
  using assembler_output [OF assms, of streams fs input] by (auto simp: output_of_def)

text \<open>A run that includes a file and succeeds.\<close>

lemma compile_include_line:
  assumes "tok \<noteq> []" and "list_all plain tok" and "length tok < 256"
  shows "compile_lines inc cfg path line_no (''include '' @ tok) st = inc path tok (line_no + 1) st"
proof -
  have plain: "\<forall>c \<in> set (''include '' @ tok). c \<noteq> CHR 0x0A"
    using plain_no_newline [OF assms(2)] by (simp add: list_all_iff)
  have fgets: "fgets MAX_LINE (''include '' @ tok) = (''include '' @ tok, [])"
    by (rule fgets_last [OF plain]) (use assms(3) in simp)
  have "\<forall>c \<in> set (''include '' @ tok). c \<noteq> CHR '';'' \<and> c \<noteq> CHR 0x00"
    using plain_safe [OF assms(2)] by simp
  then have "strip_line (c_string (''include '' @ tok)) = ''include '' @ tok" by (rule no_comment)
  then have line: "strip_line (c_string (''include '' @ tok)) = ''include'' @ CHR '' '' # tok" by simp
  have t0: "token_of 256 (''include'' @ CHR '' '' # tok) = (Some ''include'', CHR '' '' # tok)"
    by (rule read_plain_token) (simp_all add: plain_def isspace_def quote_def)
  have t1: "token_of 256 (CHR '' '' # tok) = (Some tok, [])"
    using read_plain_token [OF assms, of "[]"] by (simp add: token_of_space)
  have "compile_line inc cfg (''include '' @ tok) path (line_no + 1) st = inc path tok (line_no + 1) st"
    unfolding compile_line_eq line using t0 t1 by (simp only: Let_def prod.case option.case fst_conv) simp
  moreover have "compile_lines inc cfg path (line_no + 1) [] = Done" by (simp add: fun_eq_iff)
  ultimately show ?thesis using compile_lines_step [of "''include '' @ tok"] by (simp only: fgets fst_conv snd_conv) simp
qed

lemma assembler_safe_witness:
  "\<exists>out rows. assembler 8 default_config (\<lambda>path. if path = ''lib'' then Some (text_of_program sample_program) else None)
      ''include lib'' = Done out \<and>
    length rows \<le> processor_n default_config \<and> length out = (instruction_size default_config * length rows + 7) div 8 \<and>
    bit_at out = code_bits default_config rows"
proof -
  let ?fs = "\<lambda>path. if path = ''lib'' then Some (text_of_program sample_program) else None"
  obtain st0 st1 out where st0: "init_predefined_symbols default_config (empty_assembly default_config) = Done st0"
      and st1: "compile_lines (compile_include 7 default_config ?fs) default_config ''lib'' 0 (text_of_program sample_program) st0 = Done st1"
      and out: "flush_space default_config (as_n st1) st1 = Done out"
    by (rule text_assembled [OF default_config_ok sample_program_fits])
  have "compile_lines (compile_include 8 default_config ?fs) default_config ''<stdin>'' 0 ''include lib'' st0 =
      compile_include 8 default_config ?fs ''<stdin>'' ''lib'' 1 st0"
    using compile_include_line [of "''lib''" "compile_include 8 default_config ?fs" default_config "''<stdin>''" 0 st0]
    by (simp add: plain_def isspace_def quote_def)
  moreover have "compile_include 8 default_config ?fs ''<stdin>'' ''lib'' 1 st0 = Done st1"
    using st1 by (simp add: eval_nat_numeral open_include_eq directory_of_def)
  ultimately have "assembler 8 default_config ?fs ''include lib'' = Done out"
    using st0 out by (simp add: assembler_def compile_file_def)
  then show ?thesis using assembler_safe [OF default_config_ok, of 8 ?fs "''include lib''"] by blast
qed

text \<open>
  What a definition of a symbol leaves. A name shorter than 64 characters is a symbol with the
  value from then on, and all other names keep theirs. A longer name is cut in the table, so it is
  unknown as soon as it has been defined.
\<close>

theorem define_symbol_effect:
  assumes "assembly_ok cfg st" and "name \<noteq> []" and "is_name_start (hd name)"
    and "define_symbol name value st = Done st'"
  shows "if length name < 64 then atom_value st' name = Done value \<and>
      (\<forall>other. other \<noteq> name \<longrightarrow> atom_value st' other = atom_value st other)
    else atom_value st' name = fail ''unknown symbol''"
proof (cases "length name < 64")
  case True
  have atoms: "atom_value x other = (if other \<noteq> [] \<and> isdigit (hd other) then parse_number other
      else case env_of x other of None \<Rightarrow> fail ''unknown symbol'' | Some v \<Rightarrow> Done v)" for x other
    by (simp add: atom_value_def env_of_def split: option.split)
  have "\<not> isdigit (hd name)" using assms(3) by (rule name_start_not_digit)
  moreover have "env_of st' = (env_of st)(name \<mapsto> value)"
  proof (cases "length (as_symbols st) < MAX_SYMBOLS")
    case room: True
    show ?thesis by (rule define_symbol_env [OF True room, of "value"]) (use assms(4) in simp)
  next
    case False
    then obtain i where "find_symbol name st = Some i"
      using assms(4) by (cases "find_symbol name st") (simp_all add: define_symbol_eq fail_def)
    then show ?thesis by (rule define_symbol_known [of _ _ _ "value"]) (use assms(4) in simp)
  qed
  ultimately show ?thesis using True assms(2) by (simp add: atoms)
next
  case False
  have "\<forall>s \<in> set (as_symbols st'). length (sym_name s) < 64"
    using define_symbol_keeps [OF assms(1), of name "value"] assms(4) by (simp add: keeps_ok_def assembly_ok_def symbols_ok_def)
  then have "find_symbol name st' = None" using False by (auto simp: find_symbol_def index_of_None)
  then show ?thesis using False assms(2) name_start_not_digit [OF assms(3)] by (simp add: atom_value_def)
qed

lemma define_symbol_effect_witness:
  "\<exists>st'. define_symbol (replicate 64 CHR ''a'') 5 (empty_assembly default_config) = Done st' \<and>
    atom_value st' (replicate 64 CHR ''a'') = fail ''unknown symbol''"
proof -
  have "find_symbol (replicate 64 CHR ''a'') (empty_assembly default_config) = None"
    by (simp add: find_symbol_def index_of_None empty_assembly_def)
  then obtain st' where st': "define_symbol (replicate 64 CHR ''a'') 5 (empty_assembly default_config) = Done st'"
    by (simp add: define_symbol_eq MAX_SYMBOLS_def empty_assembly_def)
  have "replicate 64 CHR ''a'' \<noteq> []" "is_name_start (hd (replicate 64 CHR ''a''))"
    by (simp_all add: is_name_start_def isalpha_def)
  from define_symbol_effect [OF empty_assembly_ok this st'] show ?thesis using st' by simp
qed

text \<open>
  A line that is longer than the buffer of \<open>fgets\<close> is compiled in pieces: after a comment that
  fills the buffer the rest of the same line is assembled as a line of its own.
\<close>

theorem long_comment_continues:
  "compile_lines inc cfg path line_no (CHR '';'' # replicate 1022 CHR ''-'' @ content) st =
     compile_lines inc cfg path (line_no + 1) content st"
proof -
  let ?comment = "CHR '';'' # replicate 1022 CHR ''-''"
  have all: "takeWhile (\<lambda>c. c \<noteq> CHR 0x0A) (?comment @ content) = ?comment @ takeWhile (\<lambda>c. c \<noteq> CHR 0x0A) content"
    by (rule takeWhile_append2) auto
  have "fgets MAX_LINE (?comment @ content) = (?comment, content)"
    unfolding fgets_def all by (simp add: MAX_LINE_def)
  moreover have "compile_line inc cfg ?comment path (line_no + 1) st = Done st"
    by (simp add: compile_line_eq c_string_def strip_line_def token_of_Nil)
  ultimately show ?thesis using compile_lines_step [of "?comment @ content" inc cfg path line_no st] by simp
qed

end
