(* ===== verification/SpaceMain.thy ===== *)
theory SpaceMain
  imports Core
begin

text \<open>
  src/space_main.c: the command line of the emulator. The options are read one after the other;
  then the core is loaded or built in, the machine runs between the standard streams, and the
  trace and the final space are written. The files are outcomes: what opening a core file gives,
  which paths can be opened for writing, and whether writing fails. A result holds the exit
  status, the message on standard error, what was written to the two files and the final machine.
\<close>

section \<open>Options\<close>

record main_options =
  op_core :: "string option"
  op_dump :: "string option"
  op_trace :: "string option"
  op_channels :: bool
  op_limit :: "nat option"

definition no_options :: main_options where
  "no_options = \<lparr>op_core = None, op_dump = None, op_trace = None, op_channels = False, op_limit = None\<rparr>"

definition usage :: string where
  "usage = ''usage: space [--core FILE] [--ticks N] [--dump-space FILE] [--trace FILE | --trace-channels FILE]'' @ [CHR 0x0A]"

definition one_trace :: string where
  "one_trace = ''choose one trace mode'' @ [CHR 0x0A]"

definition bad_ticks :: string where
  "bad_ticks = ''invalid tick count'' @ [CHR 0x0A]"

fun read_options :: "main_options \<Rightarrow> string list \<Rightarrow> string + main_options" where
  "read_options ops [] = Inr ops"
| "read_options ops [arg] = Inl usage"
| "read_options ops (arg # v # args) =
     (if arg = ''--core'' then read_options (ops\<lparr>op_core := Some v\<rparr>) args
      else if arg = ''--dump-space'' then read_options (ops\<lparr>op_dump := Some v\<rparr>) args
      else if arg = ''--trace'' then
        (if op_trace ops \<noteq> None \<and> op_channels ops then Inl one_trace
         else read_options (ops\<lparr>op_trace := Some v\<rparr>) args)
      else if arg = ''--trace-channels'' then
        (if op_trace ops \<noteq> None \<and> \<not> op_channels ops then Inl one_trace
         else read_options (ops\<lparr>op_trace := Some v, op_channels := True\<rparr>) args)
      else if arg = ''--ticks'' then
        (case space_parse_ticks v of
           None \<Rightarrow> Inl bad_ticks
         | Some n \<Rightarrow> read_options (ops\<lparr>op_limit := Some n\<rparr>) args)
      else Inl usage)"

section \<open>The program\<close>

record world =
  wd_core :: "string \<Rightarrow> core_file option"
  wd_memory :: bool
  wd_trace_opens :: "string \<Rightarrow> bool"
  wd_trace_fails :: bool
  wd_dump_opens :: "string \<Rightarrow> bool"
  wd_dump_fails :: bool

record main_result =
  mr_status :: nat
  mr_message :: string
  mr_trace :: "string option"
  mr_dump :: "mem option"
  mr_machine :: machine

definition failed :: "string \<Rightarrow> string option \<Rightarrow> machine \<Rightarrow> main_result" where
  "failed msg trace st =
     \<lparr>mr_status = 1, mr_message = msg @ [CHR 0x0A], mr_trace = trace, mr_dump = None, mr_machine = st\<rparr>"

definition load_core :: "config \<Rightarrow> world \<Rightarrow> main_options \<Rightarrow> machine \<Rightarrow> (machine \<times> int) option" where
  "load_core cfg w ops st =
     (case op_core ops of
        Some path \<Rightarrow> core_load_file cfg (wd_core w path) (wd_memory w) st
      | None \<Rightarrow> core_init cfg (wd_memory w) st)"

definition stop_line :: "run_result \<Rightarrow> string" where
  "stop_line res = ''stop '' @ dec_string (res_ticks res) @ '' '' @ space_stop_name (res_reason res) @ [CHR 0x0A]"

definition trace_text :: "main_options \<Rightarrow> run_result \<Rightarrow> string" where
  "trace_text ops res =
     (if op_channels ops then
        (let tr = fold (\<lambda>x. space_trace_channel_event (fst x) (snd x)) (res_log res)
               \<lparr>tr_file = [], tr_copies = 0, tr_channels = 0\<rparr>
         in tr_file tr @ ''counts '' @ dec_string (unat (tr_copies tr)) @ '' '' @
           dec_string (unat (tr_channels tr)) @ [CHR 0x0A])
      else fold (\<lambda>x. space_trace_event (fst x) (snd x)) (res_log res) []) @ stop_line res"

text \<open>After the run: the trace is closed first, then the space is dumped.\<close>

definition write_results :: "world \<Rightarrow> main_options \<Rightarrow> run_result \<Rightarrow> main_result" where
  "write_results w ops res =
     (let st = res_machine res; trace = map_option (\<lambda>_. trace_text ops res) (op_trace ops)
      in if op_trace ops \<noteq> None \<and> wd_trace_fails w then failed ''cannot write trace file'' trace st
         else case op_dump ops of
             Some path \<Rightarrow>
               if \<not> wd_dump_opens w path then failed ''cannot open space dump'' trace st
               else if wd_dump_fails w then failed ''cannot write space dump'' trace st
               else \<lparr>mr_status = (if res_reason res = SPACE_STOP_ERROR then 1 else 0), mr_message = [],
                      mr_trace = trace, mr_dump = Some (space st), mr_machine = st\<rparr>
           | None \<Rightarrow> \<lparr>mr_status = (if res_reason res = SPACE_STOP_ERROR then 1 else 0), mr_message = [],
                      mr_trace = trace, mr_dump = None, mr_machine = st\<rparr>)"

text \<open>\<open>None\<close>: the program does not return; \<open>Some None\<close>: undefined behaviour.\<close>

definition space_main :: "config \<Rightarrow> world \<Rightarrow> string list \<Rightarrow> machine \<Rightarrow> main_result option option" where
  "space_main cfg w args st =
     (case read_options no_options args of
        Inl msg \<Rightarrow> Some (Some \<lparr>mr_status = 1, mr_message = msg, mr_trace = None, mr_dump = None, mr_machine = st\<rparr>)
      | Inr ops \<Rightarrow>
          (case load_core cfg w ops st of
             None \<Rightarrow> Some None
           | Some (st, rc) \<Rightarrow>
               if rc \<noteq> 0 then Some (Some (failed ''cannot load core'' None st))
               else if (case op_trace ops of Some path \<Rightarrow> \<not> wd_trace_opens w path | None \<Rightarrow> False)
               then Some (Some (failed ''cannot open trace file'' None st))
               else map_option (map_option (write_results w ops))
                      (space_run cfg (op_limit ops) (op_trace ops \<noteq> None) st)))"

end
