(* ===== verification/SpaceTrace.thy ===== *)
theory SpaceTrace
  imports SpaceRun
begin

text \<open>
  What a trace of the emulator says: the actions of the bit machine, tick by tick, and their text.
  \<open>step_actions\<close> and \<open>run_actions\<close> are defined over the bits alone; the lemmas show that the
  observer of src/space.c and the log of src/space_run.c report exactly these actions, and that
  src/space_trace.c prints them.
\<close>

section \<open>Actions\<close>

text \<open>
  A channel in a slot transfers \<open>n\<close> bits at an address and reports the bits it moved and whether the
  device failed; a slot copies \<open>n\<close> bits to a destination from a source.
\<close>

datatype action =
    Transferred nat nat nat nat bool
  | Copied nat nat nat nat

definition channel_actions :: "config \<Rightarrow> instruction \<Rightarrow> nat \<Rightarrow> bool \<Rightarrow> bit_machine \<Rightarrow> action list" where
  "channel_actions cfg ins slot out b =
     (let n = fld_n ins; a = fld_dst ins
      in if n = 0 then []
         else if bad_channel cfg n a then [Transferred slot n a 0 True]
         else let (b', k, code) = (if out then spec_out n a b else spec_in n a b)
           in [Transferred slot n a (8 * k) (code = 2)])"

definition copy_action :: "nat \<times> instruction \<Rightarrow> action" where
  "copy_action x = Copied (fst x) (fld_n (snd x)) (fld_dst (snd x)) (fld_src (snd x))"

text \<open>The actions of a tick: the output channel, the input channel, the copies in the order of their slots.\<close>

definition step_actions :: "config \<Rightarrow> bit_machine \<Rightarrow> action list" where
  "step_actions cfg b =
     (if \<forall>i < processor_n cfg. fld_n (decode cfg (bm_bits b) i) = 0 then []
      else let out_ins = decode cfg (bm_bits b) 2;
               in_ins = decode cfg (bm_bits b) 1;
               b1 = spec_channel cfg out_ins 2 True b;
               b2 = spec_channel cfg in_ins 1 False b1
           in channel_actions cfg out_ins 2 True b @ channel_actions cfg in_ins 1 False b1 @
              map copy_action (executed cfg (copy_slots 0 (processor_n cfg)) (bm_bits b2)))"

fun run_actions :: "config \<Rightarrow> nat \<Rightarrow> nat \<Rightarrow> bit_machine \<Rightarrow> (nat \<times> action) list" where
  "run_actions cfg tick 0 b = []"
| "run_actions cfg tick (Suc n) b =
     (let (b', r) = spec_step cfg b
      in map (Pair tick) (step_actions cfg b) @
         (if r = SPACE_STEP_DONE then run_actions cfg (Suc tick) n b' else []))"

section \<open>Their text\<close>

definition numbers_line :: "string \<Rightarrow> nat list \<Rightarrow> string" where
  "numbers_line kind ns = kind @ concat (map (\<lambda>n. '' '' @ dec_string n) ns) @ [CHR 0x0A]"

fun action_line :: "nat \<times> action \<Rightarrow> string" where
  "action_line (tick, Transferred slot n a moved failed) =
     numbers_line ''channel'' [tick, slot, n, a, moved, if failed then 1 else 0]"
| "action_line (tick, Copied slot n dst src) = numbers_line ''copy'' [tick, slot, n, dst, src]"

fun is_transfer :: "action \<Rightarrow> bool" where
  "is_transfer (Transferred slot n a moved failed) = True"
| "is_transfer (Copied slot n dst src) = False"

text \<open>The channel trace prints the transfers alone, and at its end the numbers of copies and transfers.\<close>

definition trace_of :: "bool \<Rightarrow> (nat \<times> action) list \<Rightarrow> nat \<Rightarrow> space_stop \<Rightarrow> string" where
  "trace_of channels_only acts ticks reason =
     (let (transfers, copies) = partition (is_transfer \<circ> snd) acts
      in (if channels_only
          then concat (map action_line transfers) @
            numbers_line ''counts'' [length copies mod 2 ^ 64, length transfers mod 2 ^ 64]
          else concat (map action_line acts)) @
         ''stop '' @ dec_string ticks @ '' '' @ space_stop_name reason @ [CHR 0x0A])"

section \<open>The observer reports the actions\<close>

definition action_of :: "space_event \<Rightarrow> action" where
  "action_of ev =
     (if ev_channel ev then Transferred (ev_slot ev) (ev_n ev) (ev_dst ev) (ev_copied ev) (ev_error ev)
      else Copied (ev_slot ev) (ev_n ev) (ev_dst ev) (ev_src ev))"

lemma action_of_copy: "action_of (copy_event x) = copy_action x"
  by (cases x) (simp add: action_of_def copy_event_def copy_action_def)

lemma channel_reports:
  assumes ok: "machine_ok cfg st" and run: "channel cfg True slot out st = Some st'"
  shows "map action_of (events st') =
    map action_of (events st) @ channel_actions cfg (processor st ! slot) slot out (abs_of st)"
proof (cases "fld_n (processor st ! slot) = 0")
  case True
  then show ?thesis using run by (simp add: channel_def channel_actions_def)
next
  case False
  define n where "n = fld_n (processor st ! slot)"
  define a where "a = fld_dst (processor st ! slot)"
  define spec where "spec = (if bad_channel cfg n a then (abs_of st, 0, 2)
    else if out then spec_out n a (abs_of st) else spec_in n a (abs_of st))"
  have "transferred cfg st
      (if bad_channel cfg n a then Some (st, 0, 2) else channel_transfer out n a st) spec"
    using channel_transfer_out [OF ok, of n a] channel_transfer_in [OF ok, of n a] ok
    by (cases out) (auto simp: spec_def transferred_def)
  then obtain st1 copied code where st1:
      "(if bad_channel cfg n a then Some (st, 0, 2) else channel_transfer out n a st) = Some (st1, copied, code)"
      "events st1 = events st" "spec = (abs_of st1, copied, code)"
    by (auto simp: transferred_def)
  have "map action_of (events st') = map action_of (events st) @ [Transferred slot n a (8 * copied) (code = 2)]"
    using run False st1(1,2)
    unfolding channel_def Let_def n_def [symmetric] a_def [symmetric] bad_channel_def [symmetric]
    by (auto simp: action_of_def split: bind_splits)
  moreover have "channel_actions cfg (processor st ! slot) slot out (abs_of st) = [Transferred slot n a (8 * copied) (code = 2)]"
    using False st1(3) by (auto simp: channel_actions_def spec_def n_def a_def split: if_splits)
  ultimately show ?thesis by simp
qed

lemma channels_report:
  assumes ok: "machine_ok cfg st" and run: "channels cfg True st = Some st'"
  shows "map action_of (events st') = map action_of (events st) @
    channel_actions cfg (decode cfg (bit_at (space st)) 2) 2 True (abs_of st) @
    channel_actions cfg (decode cfg (bit_at (space st)) 1) 1 False
      (spec_channel cfg (decode cfg (bit_at (space st)) 2) 2 True (abs_of st))"
proof -
  let ?dec = "decode cfg (bit_at (space st))"
  have N: "4 \<le> processor_n cfg" by (rule config_bounds(1) [OF machine_okD(1) [OF ok]])
  then have slots: "2 < processor_n cfg" "1 < processor_n cfg" by simp_all
  have len: "length (processor st) = processor_n cfg" by (rule machine_okD(3) [OF ok])
  define st1 where "st1 = st\<lparr>processor := (processor st)[2 := ?dec 2]\<rparr>"
  define st2 where "st2 = st1\<lparr>processor := (processor st1)[1 := ?dec 1]\<rparr>"
  have st1: "fetch_instruction cfg 2 st = Some st1" "machine_ok cfg st1" "space st1 = space st"
    using fetch_instruction_decode [OF ok slots(1)] ok by (simp_all add: st1_def)
  have st2: "fetch_instruction cfg 1 st1 = Some st2" "machine_ok cfg st2" "abs_of st2 = abs_of st"
    "processor st2 ! 2 = ?dec 2" "processor st2 ! 1 = ?dec 1" "events st2 = events st"
    using fetch_instruction_decode [OF st1(2) slots(2)] st1(2,3) slots len
    by (simp_all add: st2_def st1_def abs_of_def)
  obtain st3 where st3: "channel cfg True 2 True st2 = Some st3" "machine_ok cfg st3"
      "processor st3 = processor st2" "abs_of st3 = spec_channel cfg (?dec 2) 2 True (abs_of st)"
    using channel_refines [OF st2(2) slots(1), of True True] st2 by auto
  have "channel cfg True 1 False st3 = Some st'"
    using run unfolding channels_def st1(1) bind.bind_lunit st2(1) st3(1) .
  from channel_reports [OF st3(2) this] channel_reports [OF st2(2) st3(1)] show ?thesis
    using st2(3-6) st3(3,4) by simp
qed

lemma step_reports:
  assumes ok: "machine_ok cfg st" and run: "space_step cfg True st = Some (st', r)"
  shows "map action_of (events st') = map action_of (events st) @ step_actions cfg (abs_of st)"
proof -
  let ?dec = "decode cfg (bit_at (space st))"
  define st0 where "st0 = st\<lparr>processor := map ?dec [0..<processor_n cfg]\<rparr>"
  have st0: "machine_ok cfg st0" "abs_of st0 = abs_of st" "space st0 = space st" "events st0 = events st"
    using ok by (simp_all add: st0_def machine_ok_def abs_of_def)
  have active: "space_active cfg st = Some (st0, \<exists>i < processor_n cfg. fld_n (?dec i) \<noteq> 0)"
    unfolding st0_def by (rule space_active_decode [OF ok])
  have bits: "bm_bits (abs_of x) = bit_at (space x)" for x by (simp add: abs_of_def)
  show ?thesis
  proof (cases "\<exists>i < processor_n cfg. fld_n (?dec i) \<noteq> 0")
    case False
    then show ?thesis using run active st0 by (auto simp: space_step_def step_actions_def bits)
  next
    case True
    obtain st1 where st1: "channels cfg True st0 = Some st1" "machine_ok cfg st1"
        "abs_of st1 = spec_channel cfg (?dec 1) 1 False (spec_channel cfg (?dec 2) 2 True (abs_of st))"
      using channels_refine [OF st0(1)] st0 by auto
    obtain st2 rc where st2: "computation cfg True st1 = Some (st2, rc)"
        "events st2 = events st1 @ map copy_event (executed cfg (copy_slots 0 (processor_n cfg)) (bit_at (space st1)))"
      using computation_computed [OF st1(2), of True] by (auto simp: computed_def)
    have "space_step cfg True st = Some (st2, if rc = 0 then SPACE_STEP_DONE else SPACE_STEP_ERROR)"
      using True active st1(1) st2(1) by (simp add: space_step_def)
    then have "st' = st2" using run by simp
    moreover have busy: "(\<forall>i < processor_n cfg. fld_n (?dec i) = 0) = False" using True by auto
    have "step_actions cfg (abs_of st) = channel_actions cfg (?dec 2) 2 True (abs_of st) @
        channel_actions cfg (?dec 1) 1 False (spec_channel cfg (?dec 2) 2 True (abs_of st)) @
        map copy_action (executed cfg (copy_slots 0 (processor_n cfg)) (bit_at (space st1)))"
      unfolding step_actions_def Let_def bits busy if_False st1(3) [symmetric] ..
    ultimately show ?thesis
      using channels_report [OF st0(1) st1(1)] st2(2) by (simp add: st0(2-4) action_of_copy)
  qed
qed

section \<open>The log of a run\<close>

abbreviation actions_of :: "(nat \<times> space_event) list \<Rightarrow> (nat \<times> action) list" where
  "actions_of log \<equiv> map (\<lambda>x. (fst x, action_of (snd x))) log"

lemma run_loop_reports:
  assumes "machine_ok cfg st" and "ticks + n \<le> uint64_max"
    and "run_loop cfg (Some (ticks + n)) True st ticks log = Some (Some res)"
  shows "actions_of (res_log res) = actions_of log @ run_actions cfg ticks n (abs_of st)"
  using assms
proof (induction n arbitrary: st ticks log)
  case 0
  then show ?case by (subst (asm) run_loop.simps) (auto split: option.splits)
next
  case (Suc n)
  obtain st' r where step: "space_step cfg True (st\<lparr>events := []\<rparr>) = Some (st', r)" "machine_ok cfg st'"
      "(abs_of st', r) = spec_step cfg (abs_of st)"
    using space_step_cases [of cfg "st\<lparr>events := []\<rparr>" True] Suc.prems(1) by auto
  define log' where "log' = log @ forward_events ticks (events st')"
  have "map action_of (events st') = step_actions cfg (abs_of st)"
    using step_reports [OF _ step(1)] Suc.prems(1) by simp
  then have log': "actions_of log' = actions_of log @ map (Pair ticks) (step_actions cfg (abs_of st))"
    by (simp add: log'_def forward_events_def o_def flip: \<open>_ = step_actions cfg (abs_of st)\<close>)
  have tick: "next_tick ticks = Suc ticks" using Suc.prems(2) by (simp add: next_tick_def)
  show ?case
  proof (cases "r = SPACE_STEP_DONE")
    case True
    have "run_loop cfg (Some (Suc ticks + n)) True st' (Suc ticks) log' = Some (Some res)"
      using Suc.prems(3) by (subst (asm) run_loop.simps) (simp add: step(1) True tick log'_def)
    from Suc.IH [OF step(2) _ this] Suc.prems(2) show ?thesis
      using True log' by (simp flip: step(3))
  next
    case False
    then have "res_log res = log'"
      using Suc.prems(3) by (cases r; subst (asm) run_loop.simps) (auto simp: step(1) log'_def)
    then show ?thesis using False log' by (simp flip: step(3))
  qed
qed

lemma space_run_reports:
  assumes "machine_ok cfg st" and "n \<le> uint64_max" and "space_run cfg (Some n) True st = Some (Some res)"
  shows "actions_of (res_log res) = run_actions cfg 0 n (abs_of st)"
proof -
  obtain res' where res': "run_loop cfg (Some n) True st 0 [] = Some (Some res')" "res_log res = res_log res'"
    using assms(3) by (auto simp: space_run_def split: option.splits)
  then show ?thesis using run_loop_reports [OF assms(1), of 0 n "[]" res'] assms(2) by simp
qed

lemma trace_line_action: "trace_line tick ev = action_line (tick, action_of ev)"
  by (simp add: trace_line_def action_of_def numbers_line_def)

lemma is_transfer_of: "is_transfer (action_of ev) = ev_channel ev"
  by (simp add: action_of_def)

end
