(* ===== verification/SpaceMainRuns.thy ===== *)
theory SpaceMainRuns
  imports SpaceMain SpaceTrace CoreBoot
begin

text \<open>
  The emulator as a program: with a limit it returns, and what it reports and writes is what the
  bit machine does from the built-in core on.
\<close>

lemma parse_ticks_bound: "space_parse_ticks v = Some n \<Longrightarrow> n \<le> uint64_max"
  by (auto simp: space_parse_ticks_def split: if_splits prod.splits)

lemma read_options_limit:
  assumes "read_options ops args = Inr ops'" and "op_limit ops' = Some n" and "\<And>k. op_limit ops = Some k \<Longrightarrow> k \<le> uint64_max"
  shows "n \<le> uint64_max"
  using assms
proof (induction ops args rule: read_options.induct)
  case (3 ops arg v args)
  note IH = 3(1-5) and run = 3(6) and rest = 3(7,8)
  show ?case
  proof (cases "arg = ''--core''")
    case True
    show ?thesis by (rule IH(1) [OF True]) (use run rest in \<open>simp_all add: True\<close>)
  next
    case c1: False
    show ?thesis
    proof (cases "arg = ''--dump-space''")
      case True
      show ?thesis by (rule IH(2) [OF c1 True]) (use run rest in \<open>simp_all add: True\<close>)
    next
      case c2: False
      show ?thesis
      proof (cases "arg = ''--trace''")
        case True
        then have "\<not> (op_trace ops \<noteq> None \<and> op_channels ops)" using run by (auto split: if_splits)
        then show ?thesis by (rule IH(3) [OF c1 c2 True]) (use run rest True in \<open>simp_all split: if_splits\<close>)
      next
        case c3: False
        show ?thesis
        proof (cases "arg = ''--trace-channels''")
          case True
          then have "\<not> (op_trace ops \<noteq> None \<and> \<not> op_channels ops)" using run by (auto split: if_splits)
          then show ?thesis by (rule IH(4) [OF c1 c2 c3 True]) (use run rest True in \<open>simp_all split: if_splits\<close>)
        next
          case c4: False
          then have ticks: "arg = ''--ticks''" using run c1 c2 c3 by (simp only: read_options.simps if_False split: if_splits) simp
          then obtain k where k: "space_parse_ticks v = Some k" using run by (cases "space_parse_ticks v") simp_all
          show ?thesis
            by (rule IH(5) [OF c1 c2 c3 c4 ticks k]) (use run rest k parse_ticks_bound in \<open>simp_all add: ticks\<close>)
        qed
      qed
    qed
  qed
qed simp_all

text \<open>The world in which no file operation and no allocation fails.\<close>

definition flawless :: "world \<Rightarrow> bool" where
  "flawless w \<longleftrightarrow> wd_memory w \<and> (\<forall>p. wd_trace_opens w p) \<and> \<not> wd_trace_fails w \<and>
     (\<forall>p. wd_dump_opens w p) \<and> \<not> wd_dump_fails w"

text \<open>The file of a trace is the text of the actions.\<close>

lemma trace_fold: "fold (\<lambda>x. space_trace_event (fst x) (snd x)) log out = out @ concat (map action_line (actions_of log))"
  by (induction log arbitrary: out) (simp_all add: space_trace_event_def trace_line_action)

lemma trace_text_actions:
  "trace_text ops res = trace_of (op_channels ops) (actions_of (res_log res)) (res_ticks res) (res_reason res)"
proof -
  have lines: "map (\<lambda>x. trace_line (fst x) (snd x)) xs = map action_line (actions_of xs)" for xs
    by (simp add: trace_line_action)
  have transfers: "actions_of (filter (\<lambda>x. ev_channel (snd x)) log) = filter (is_transfer \<circ> snd) (actions_of log)" for log
    by (simp add: filter_map o_def is_transfer_of)
  have copies: "length (filter (\<lambda>x. \<not> ev_channel (snd x)) log) = length (filter (Not \<circ> (is_transfer \<circ> snd)) (actions_of log))" for log
    by (simp add: filter_map o_def is_transfer_of)
  have count: "length (filter (\<lambda>x. ev_channel (snd x)) log) = length (filter (is_transfer \<circ> snd) (actions_of log))" for log
    by (simp add: filter_map o_def is_transfer_of)
  show ?thesis
    unfolding trace_text_def trace_of_def stop_line_def channel_trace_fold trace_fold lines transfers copies count
    by (simp add: numbers_line_def unat_of_nat)
qed

text \<open>
  C11. The emulator with a tick limit and the built-in core, when no file operation and no allocation
  fails: the program returns; its exit status is 1 exactly when a tick failed; the bytes it wrote to
  the output are those of the bit machine started on the core; a space dump holds its final bits. A
  trace holds, for every tick in order, one line for each action of the bit machine, its numbers the
  tick, the slot and the operands, then the number of ticks and the reason; the channel trace holds
  the lines of the transfers alone and counts both kinds.
\<close>

theorem space_main_limited:
  assumes "core_ok cfg" and "machine_ok cfg st" and "flawless w"
    and "read_options no_options args = Inr ops" and "op_core ops = None" and "op_limit ops = Some n"
    and "spec_run cfg n ((abs_of st)\<lparr>bm_bits := core_bits cfg\<rparr>) = (b, ticks, reason)"
  shows "\<exists>r. space_main cfg w args st = Some (Some r) \<and> mr_message r = [] \<and>
    (mr_status r = 1 \<longleftrightarrow> reason = SPACE_STOP_ERROR) \<and> mr_status r \<le> 1 \<and>
    out_bytes (mr_machine r) = bm_out b \<and>
    (mr_dump r = None \<longleftrightarrow> op_dump ops = None) \<and>
    (\<forall>m. mr_dump r = Some m \<longrightarrow> length m = vm_space_bytes cfg \<and> bit_at m = bm_bits b) \<and>
    mr_trace r = map_option (\<lambda>_. trace_of (op_channels ops)
      (run_actions cfg 0 n ((abs_of st)\<lparr>bm_bits := core_bits cfg\<rparr>)) ticks reason) (op_trace ops)"
proof -
  obtain st0 where st0: "core_init cfg True st = Some (st0, 0)" "machine_ok cfg st0"
      "abs_of st0 = (abs_of st)\<lparr>bm_bits := core_bits cfg\<rparr>"
    by (rule core_init_bits [OF assms(1,2)])
  have n: "n \<le> uint64_max"
    using read_options_limit [OF assms(4,6)] by (simp add: no_options_def)
  then obtain res where res: "space_run cfg (Some n) (op_trace ops \<noteq> None) st0 = Some (Some res)"
      "run_is cfg res 0 (b, ticks, reason)"
    using space_run_limited_spec [OF st0(2), of n "op_trace ops \<noteq> None"] assms(7) st0(3) by auto
  have world: "wd_memory w" "\<And>p. wd_trace_opens w p" "\<not> wd_trace_fails w" "\<And>p. wd_dump_opens w p" "\<not> wd_dump_fails w"
    using assms(3) by (simp_all add: flawless_def)
  have run: "space_main cfg w args st = Some (Some (write_results w ops res))"
    using assms(4-6) st0(1) res(1) world by (simp add: space_main_def load_core_def split: option.split)
  have final: "machine_ok cfg (res_machine res)" "abs_of (res_machine res) = b" "res_ticks res = ticks" "res_reason res = reason"
    using res(2) by (simp_all add: run_is_def)
  have view: "out_bytes (res_machine res) = bm_out b" "bit_at (space (res_machine res)) = bm_bits b"
    using final(2) by (auto simp: abs_of_def)
  have trace: "trace_text ops res = trace_of (op_channels ops)
      (run_actions cfg 0 n ((abs_of st)\<lparr>bm_bits := core_bits cfg\<rparr>)) ticks reason" if "op_trace ops \<noteq> None"
    using space_run_reports [OF st0(2) n] res(1) that by (simp add: trace_text_actions final(3,4) st0(3))
  then have "mr_trace (write_results w ops res) = map_option (\<lambda>_. trace_of (op_channels ops)
      (run_actions cfg 0 n ((abs_of st)\<lparr>bm_bits := core_bits cfg\<rparr>)) ticks reason) (op_trace ops)"
    using world(3-5) by (cases "op_trace ops") (simp_all add: write_results_def Let_def split: option.split)
  then show ?thesis
    using run world(3-5) final view machine_okD(2) [OF final(1)]
    by (auto simp: write_results_def Let_def split: option.split)
qed

definition quiet_world :: world where
  "quiet_world = \<lparr>wd_core = \<lambda>_. None, wd_memory = True, wd_trace_opens = \<lambda>_. True, wd_trace_fails = False,
     wd_dump_opens = \<lambda>_. True, wd_dump_fails = False\<rparr>"

text \<open>
  One tick of the core with 37 bytes of input: the trace starts with the line of the transfer that
  reads the layer to the buffer.
\<close>

lemma core_first_action:
  "\<exists>acts. step_actions default_config ((abs_of (core_machine (replicate 37 0xAB)))\<lparr>bm_bits := core_bits default_config\<rparr>) =
    Transferred 1 296 (core_buffer_start default_config) 296 False # acts"
proof -
  let ?f = "core_bits default_config" and ?bs = "replicate 37 (0xAB :: u8)"
  define b where "b = (abs_of (core_machine ?bs))\<lparr>bm_bits := ?f\<rparr>"
  have out: "fld_n (decode default_config ?f 2) = 0" using core_slots [OF default_core_ok] by simp
  have inp: "fld_n (decode default_config ?f 1) = 296" "fld_dst (decode default_config ?f 1) = core_buffer_start default_config"
    using core_slots [OF default_core_ok] by (simp_all add: default_core_sizes)
  have busy: "\<not> (\<forall>i < processor_n default_config. fld_n (decode default_config ?f i) = 0)"
    using inp(1) by (auto intro!: exI [of _ 1] simp: default_config_def)
  have good: "\<not> bad_channel default_config 296 (core_buffer_start default_config)"
    using core_places [OF default_core_ok] by (simp add: bad_channel_def core_buffer_start_def default_sizes)
  have read: "fread_bytes 37 (map Getc ?bs) = (?bs, False, [])"
    using fread_bytes_all [of ?bs "[]"] by simp
  have "bm_in b = map Getc ?bs" by (simp add: b_def abs_of_def core_machine_def)
  then obtain b' where spec_in: "spec_in 296 (core_buffer_start default_config) b = (b', 37, 0)"
    using read by (simp add: spec_in_def)
  have "channel_actions default_config (decode default_config ?f 2) 2 True b = []"
    "spec_channel default_config (decode default_config ?f 2) 2 True b = b"
    "channel_actions default_config (decode default_config ?f 1) 1 False b =
      [Transferred 1 296 (core_buffer_start default_config) 296 False]"
    using good spec_in by (simp_all add: channel_actions_def spec_channel_def out inp Let_def del: One_nat_def)
  moreover have "bm_bits b = ?f" by (simp add: b_def)
  ultimately show ?thesis
    unfolding b_def [symmetric] using busy by (simp add: step_actions_def Let_def del: One_nat_def)
qed

lemma small_numbers: "dec_string 0 = ''0''" "dec_string (Suc 0) = ''1''" "dec_string 296 = ''296''"
  by code_simp+

lemma space_main_limited_witness:
  "\<exists>r t. space_main default_config quiet_world [''--ticks'', ''1'', ''--trace'', ''t'', ''--dump-space'', ''d'']
      (core_machine (replicate 37 0xAB)) = Some (Some r) \<and>
    (\<exists>m. mr_dump r = Some m \<and> length m = vm_space_bytes default_config) \<and>
    mr_trace r = Some (''channel 0 1 296 '' @ dec_string (core_buffer_start default_config) @ '' 296 0'' @ CHR 0x0A # t)"
proof -
  have "space_parse_ticks ''1'' = Some 1"
    by (simp add: space_parse_ticks_def is_digit_def digit_value_def uint64_max_def)
  then have ops: "read_options no_options [''--ticks'', ''1'', ''--trace'', ''t'', ''--dump-space'', ''d''] =
      Inr (no_options\<lparr>op_limit := Some 1, op_trace := Some ''t'', op_dump := Some ''d''\<rparr>)"
    by (simp add: no_options_def)
  have quiet: "flawless quiet_world" by (simp add: flawless_def quiet_world_def)
  let ?b = "(abs_of (core_machine (replicate 37 0xAB)))\<lparr>bm_bits := core_bits default_config\<rparr>"
  obtain b ticks reason where run: "spec_run default_config 1 ?b = (b, ticks, reason)" by (metis prod_cases3)
  obtain acts where acts: "step_actions default_config ?b = Transferred 1 296 (core_buffer_start default_config) 296 False # acts"
    using core_first_action by blast
  obtain b' r' where step: "spec_step default_config ?b = (b', r')" by force
  have "run_actions default_config 0 1 ?b =
      (0, Transferred 1 296 (core_buffer_start default_config) 296 False) # map (Pair 0) acts"
    using acts step by simp
  then have "\<exists>t. trace_of False (run_actions default_config 0 1 ?b) ticks reason =
      ''channel 0 1 296 '' @ dec_string (core_buffer_start default_config) @ '' 296 0'' @ CHR 0x0A # t"
    by (simp add: trace_of_def numbers_line_def small_numbers)
  with space_main_limited [OF default_core_ok core_machine_ok quiet ops _ _ run]
  show ?thesis by (fastforce simp: no_options_def)
qed

end
