(* ===== verification/LinkText.thy ===== *)
theory LinkText
  imports Digits CopyEmit
begin

text \<open>
  runtime/gcc/copy_link.c, the text of an assembly file: statements, numbers, registers and
  names. A C string or a range of the file is a \<^typ>\<open>string\<close>; the linker rejects files that
  contain a zero byte, so a string ends where its list ends. A function that returns -1 is
  \<open>None\<close> here.
\<close>

section \<open>Characters\<close>

definition nl :: char where
  "nl = CHR 0x0A"

definition whitespace :: "char \<Rightarrow> bool" where
  "whitespace c \<longleftrightarrow> c = CHR '' '' \<or> c = CHR 0x09 \<or> c = CHR 0x0D"

definition skip_white :: "string \<Rightarrow> string" where
  "skip_white s = dropWhile whitespace s"

definition trim :: "string \<Rightarrow> string" where
  "trim s = rev (skip_white (rev (skip_white s)))"

definition in_range :: "char \<Rightarrow> char \<Rightarrow> char \<Rightarrow> bool" where
  "in_range a c b \<longleftrightarrow> (of_char a :: nat) \<le> of_char c \<and> (of_char c :: nat) \<le> of_char b"

definition dec_digit :: "char \<Rightarrow> bool" where
  "dec_digit c \<longleftrightarrow> in_range CHR ''0'' c CHR ''9''"

definition dec_value :: "char \<Rightarrow> nat" where
  "dec_value c = of_char c - 48"

definition hex_digit :: "char \<Rightarrow> nat option" where
  "hex_digit c =
     (if dec_digit c then Some (dec_value c)
      else if in_range CHR ''a'' c CHR ''f'' then Some (of_char c - 97 + 10)
      else if in_range CHR ''A'' c CHR ''F'' then Some (of_char c - 65 + 10) else None)"

definition name_start :: "char \<Rightarrow> bool" where
  "name_start c \<longleftrightarrow> c = CHR ''_'' \<or> c = CHR ''.'' \<or> c = CHR ''$'' \<or> in_range CHR ''a'' c CHR ''z'' \<or>
     in_range CHR ''A'' c CHR ''Z''"

definition name_char :: "char \<Rightarrow> bool" where
  "name_char c \<longleftrightarrow> name_start c \<or> dec_digit c"

section \<open>Statements\<close>

text \<open>
  The scan of \<open>statement_end\<close> from position \<open>i\<close> on: the end of the statement and the begin of
  the next one. A statement ends at a newline, at \<open>#\<close>, or at \<open>;\<close> and after \<open>:\<close>, the last three
  outside quotes only.
\<close>

fun scan :: "string \<Rightarrow> bool \<Rightarrow> bool \<Rightarrow> nat \<Rightarrow> nat \<times> nat" where
  "scan [] quoted escaped i = (i, i)"
| "scan (c # cs) quoted escaped i =
     (if c = nl then (i, i + 1)
      else if escaped then scan cs quoted False (i + 1)
      else if quoted \<and> c = CHR 0x5C then scan cs quoted True (i + 1)
      else if c = CHR 0x22 then scan cs (\<not> quoted) False (i + 1)
      else if quoted then scan cs quoted False (i + 1)
      else if c = CHR ''#'' then
        (i, i + length (takeWhile (\<lambda>d. d \<noteq> nl) (c # cs)) + of_bool (nl \<in> set cs))
      else if c = CHR '';'' then (i, i + 1)
      else if c = CHR '':'' then (i + 1, i + 1 + of_bool (cs \<noteq> [] \<and> hd cs = nl))
      else scan cs quoted False (i + 1))"

definition statement_end :: "string \<Rightarrow> nat \<Rightarrow> nat \<times> nat" where
  "statement_end assembly begin = scan (drop begin assembly) False False begin"

lemma take_to_newline: "x \<in> set cs \<Longrightarrow> length (takeWhile (\<lambda>d. d \<noteq> x) cs) < length cs"
  by (induction cs) auto

lemma comment_bound:
  assumes "c \<noteq> nl"
  shows "length (takeWhile (\<lambda>d. d \<noteq> nl) (c # cs)) + of_bool (nl \<in> set cs) \<le> Suc (length cs)"
  using assms take_to_newline [of nl cs] length_takeWhile_le [of "\<lambda>d. d \<noteq> nl" cs] by (cases "nl \<in> set cs") simp_all

lemma scan_bounds:
  "i \<le> fst (scan s q e i) \<and> fst (scan s q e i) \<le> snd (scan s q e i) \<and> snd (scan s q e i) \<le> i + length s \<and>
    (s \<noteq> [] \<longrightarrow> i < snd (scan s q e i))"
proof (induction s q e i rule: scan.induct)
  case (2 c cs q e i)
  have "cs \<noteq> [] \<Longrightarrow> 1 \<le> length cs" by (cases cs) auto
  then have colon: "of_bool (cs \<noteq> [] \<and> hd cs = nl) \<le> length cs" by (simp add: of_bool_def)
  show ?case
  proof (cases "c = nl \<or> \<not> e \<and> \<not> q \<and> c \<in> {CHR ''#'', CHR '';'', CHR '':''}")
    case True
    then show ?thesis using colon comment_bound [of c cs] by (auto simp: nl_def)
  next
    case False
    then consider "c \<noteq> nl" "e" | "c \<noteq> nl" "\<not> e" "q" "c = CHR 0x5C" | "c \<noteq> nl" "\<not> e" "\<not> (q \<and> c = CHR 0x5C)" "c = CHR 0x22"
      | "c \<noteq> nl" "\<not> e" "\<not> (q \<and> c = CHR 0x5C)" "c \<noteq> CHR 0x22" "q"
      | "c \<noteq> nl" "\<not> e" "\<not> (q \<and> c = CHR 0x5C)" "c \<noteq> CHR 0x22" "\<not> q" "c \<noteq> CHR ''#''" "c \<noteq> CHR '';''" "c \<noteq> CHR '':''"
      by blast
    then show ?thesis
    proof cases
      case 1 then show ?thesis using "2.IH"(1) by simp
    next
      case 2 then show ?thesis using "2.IH"(2) by simp
    next
      case 3 then show ?thesis using "2.IH"(3) by simp
    next
      case 4 then show ?thesis using "2.IH"(4) by simp
    next
      case 5 then show ?thesis using "2.IH"(5) by simp
    qed
  qed
qed simp

lemma statement_end_bounds:
  assumes "statement_end assembly begin = (stop, nxt)" and "begin \<le> length assembly"
  shows "begin \<le> stop" and "stop \<le> nxt" and "nxt \<le> length assembly" and "begin < length assembly \<Longrightarrow> begin < nxt"
  using scan_bounds [of "begin" "drop begin assembly" False False] assms(2)
  unfolding assms(1) [unfolded statement_end_def] by auto

text \<open>The statements of a file, with their offsets, as every loop over the file visits them.\<close>

definition text_between :: "string \<Rightarrow> nat \<Rightarrow> nat \<Rightarrow> string" where
  "text_between assembly begin end = take (end - begin) (drop begin assembly)"

function statement_capacity_from :: "string \<Rightarrow> nat \<Rightarrow> nat \<Rightarrow> nat" where
  "statement_capacity_from assembly offset capacity =
     (if offset < length assembly
      then let (stop, nxt) = statement_end assembly offset
           in statement_capacity_from assembly nxt
                (if stop - offset + 1 > capacity then stop - offset + 1 else capacity)
      else capacity)"
  by pat_completeness auto

termination
  by (relation "measure (\<lambda>(assembly, offset, capacity). length assembly - offset)")
    (auto dest: statement_end_bounds(4) [OF sym])

declare statement_capacity_from.simps [simp del]

definition statement_capacity :: "string \<Rightarrow> nat" where
  "statement_capacity assembly = statement_capacity_from assembly 0 1"

section \<open>Numbers\<close>

fun decimal_digits :: "nat \<Rightarrow> string \<Rightarrow> (string \<times> nat) option" where
  "decimal_digits n [] = Some ([], n)"
| "decimal_digits n (c # cs) =
     (if dec_digit c
      then if n > (uint32_max - dec_value c) div 10 then None else decimal_digits (n * 10 + dec_value c) cs
      else Some (c # cs, n))"

definition decimal_label :: "string \<Rightarrow> (string \<times> nat) option" where
  "decimal_label s = (if s = [] \<or> \<not> dec_digit (hd s) then None else decimal_digits 0 s)"

fun read_signs :: "nat \<Rightarrow> bool \<Rightarrow> string \<Rightarrow> (bool \<times> string) option" where
  "read_signs signs negative [] = Some (negative, [])"
| "read_signs signs negative (c # cs) =
     (if c = CHR ''+'' \<or> c = CHR ''-''
      then if signs + 1 > 2 then None else read_signs (signs + 1) (negative \<noteq> (c = CHR ''-'')) cs
      else Some (negative, c # cs))"

fun number_base :: "string \<Rightarrow> nat \<times> string" where
  "number_base (z # x # cs) =
     (if z = CHR ''0'' \<and> (x = CHR ''x'' \<or> x = CHR ''X'') then (16, cs)
      else if z = CHR ''0'' then (8, z # x # cs) else (10, z # x # cs))"
| "number_base s = (10, s)"

fun read_digits :: "nat \<Rightarrow> nat \<Rightarrow> nat \<Rightarrow> string \<Rightarrow> nat option" where
  "read_digits limit base n [] = Some n"
| "read_digits limit base n (c # cs) =
     (case hex_digit c of
        None \<Rightarrow> None
      | Some d \<Rightarrow> if d \<ge> base \<or> n > (limit - d) div base then None
                 else read_digits limit base (n * base + d) cs)"

text \<open>The magnitude and sign of a number of at most \<open>limit\<close>, shared by both widths.\<close>

definition read_number :: "nat \<Rightarrow> string \<Rightarrow> (bool \<times> nat) option" where
  "read_number limit s = do {
     (negative, s) \<leftarrow> read_signs 0 False s;
     let (base, s) = number_base s;
     n \<leftarrow> (if s = [] then None else read_digits limit base 0 s);
     if negative \<and> n > (limit + 1) div 2 then None else Some (negative, n)
   }"

definition integer :: "string \<Rightarrow> u32 option" where
  "integer s = map_option (\<lambda>(negative, n). if negative then 0 - of_nat n else of_nat n)
     (read_number uint32_max s)"

definition integer64 :: "string \<Rightarrow> u64 option" where
  "integer64 s = map_option (\<lambda>(negative, n). if negative then 0 - of_nat n else of_nat n)
     (read_number (2 ^ 64 - 1) s)"

text \<open>The decimal output of \<open>object_decimal\<close>: the digits are collected in reverse.\<close>

fun decimal_reversed :: "nat \<Rightarrow> string" where
  "decimal_reversed v =
     digit_char (v mod 10) # (if v div 10 = 0 then [] else decimal_reversed (v div 10))"

declare decimal_reversed.simps [simp del]

definition object_decimal :: "u32 \<Rightarrow> string" where
  "object_decimal v = rev (decimal_reversed (unat v))"

text \<open>
  The size field of an archive member: digits, then blanks only; no sign, base 10. The bound
  is \<open>SIZE_MAX\<close> of the platform: the linker runs both on the host and on the 32-bit guest.
\<close>

fun archive_digits :: "nat \<Rightarrow> nat \<Rightarrow> string \<Rightarrow> (string \<times> nat) option" where
  "archive_digits size_max n [] = Some ([], n)"
| "archive_digits size_max n (c # cs) =
     (if dec_digit c
      then if n > (size_max - dec_value c) div 10 then None else archive_digits size_max (n * 10 + dec_value c) cs
      else Some (c # cs, n))"

definition archive_decimal :: "nat \<Rightarrow> string \<Rightarrow> nat option" where
  "archive_decimal size_max s =
     (if s = [] \<or> \<not> dec_digit (hd s) then None
      else case archive_digits size_max 0 s of
          None \<Rightarrow> None
        | Some (rest, n) \<Rightarrow> if list_all (\<lambda>c. c = CHR '' '') rest then Some n else None)"

section \<open>Local numeric labels\<close>

text \<open>
  The target of \<open>1b\<close> or \<open>1f\<close>: the last definition \<open>1:\<close> before the statement at \<open>before\<close>, or
  the first one after it.
\<close>

definition numeric_definition :: "string \<Rightarrow> nat \<Rightarrow> bool" where
  "numeric_definition s number \<longleftrightarrow>
     (case decimal_label (skip_white s) of
        None \<Rightarrow> False
      | Some (rest, value) \<Rightarrow> (case skip_white rest of [] \<Rightarrow> False | c # _ \<Rightarrow> c = CHR '':'' \<and> value = number))"

function numeric_target_from :: "string \<Rightarrow> nat \<Rightarrow> nat \<Rightarrow> bool \<Rightarrow> nat \<Rightarrow> nat option \<Rightarrow> nat option" where
  "numeric_target_from assembly before number forward offset found =
     (if offset < length assembly
      then let (stop, nxt) = statement_end assembly offset;
               hit = numeric_definition (text_between assembly offset stop) number \<and>
                 (if forward then offset > before else offset < before)
           in if hit \<and> forward then Some offset
              else numeric_target_from assembly before number forward nxt (if hit then Some offset else found)
      else found)"
  by pat_completeness auto

termination
  by (relation "measure (\<lambda>(assembly, before, number, forward, offset, found). length assembly - offset)")
    (auto dest: statement_end_bounds(4) [OF sym])

declare numeric_target_from.simps [simp del]

definition numeric_target :: "string \<Rightarrow> nat \<Rightarrow> nat \<Rightarrow> bool \<Rightarrow> nat option" where
  "numeric_target assembly before number forward = numeric_target_from assembly before number forward 0 None"

section \<open>Registers, comments and metadata\<close>

text \<open>The register file of the program: 16 words at a fixed place of the image.\<close>

definition REG_BASE :: nat where [simp]: "REG_BASE = 32768"

fun reg_number :: "nat \<Rightarrow> nat \<Rightarrow> string \<Rightarrow> nat option" where
  "reg_number digits n [] = (if digits = 0 \<or> n > 13 then None else Some n)"
| "reg_number digits n (c # cs) =
     (if \<not> dec_digit c \<or> digits + 1 > 2 then None else reg_number (digits + 1) (n * 10 + dec_value c) cs)"

definition reg :: "string \<Rightarrow> nat option" where
  "reg s =
     (if s = ''$fp'' then Some REG_BASE
      else if s = ''$sp'' then Some (REG_BASE + 32)
      else case s of
          d # r # digits \<Rightarrow>
            if d = CHR ''$'' \<and> r = CHR ''r'' then map_option (\<lambda>n. REG_BASE + 32 * (n + 2)) (reg_number 0 0 digits)
            else None
        | _ \<Rightarrow> None)"

fun strip :: "bool \<Rightarrow> bool \<Rightarrow> string \<Rightarrow> string" where
  "strip quoted escaped [] = []"
| "strip quoted escaped (c # cs) =
     (if escaped then c # strip quoted False cs
      else if quoted \<and> c = CHR 0x5C then c # strip quoted True cs
      else if c = CHR 0x22 then c # strip (\<not> quoted) False cs
      else if \<not> quoted \<and> c = CHR ''#'' then []
      else c # strip quoted False cs)"

definition strip_comment :: "string \<Rightarrow> string" where
  "strip_comment s = strip False False s"

text \<open>\<open>starts s d P\<close>: the text starts with \<open>d\<close>, and then ends or goes on with a character in \<open>P\<close>.\<close>

definition starts :: "string \<Rightarrow> string \<Rightarrow> (char \<Rightarrow> bool) \<Rightarrow> bool" where
  "starts s d P \<longleftrightarrow> take (length d) s = d \<and> (length s = length d \<or> P (s ! length d))"

definition has_prefix :: "string \<Rightarrow> string \<Rightarrow> bool" where
  "has_prefix d s \<longleftrightarrow> take (length d) s = d"

text \<open>\<open>operator_is s d\<close>: the statement is \<open>d\<close> followed by white space, as in \<open>copy.jsra f\<close>.\<close>

definition operator_is :: "string \<Rightarrow> string \<Rightarrow> bool" where
  "operator_is s d \<longleftrightarrow> has_prefix d s \<and> length d < length s \<and> whitespace (s ! length d)"

definition metadata :: "string \<Rightarrow> bool" where
  "metadata s \<longleftrightarrow>
     list_ex (\<lambda>d. starts s d whitespace)
       [''.text'', ''.file'', ''.ident'', ''.p2align'', ''.align'', ''.global'', ''.globl'', ''.type'', ''.size''] \<or>
     (operator_is s ''.section'' \<and>
      (let t = skip_white (drop 8 s)
       in starts t ''.text'' (\<lambda>c. c = CHR ''.'' \<or> c = CHR '','' \<or> whitespace c) \<or>
          starts t ''.note.GNU-stack'' (\<lambda>c. c = CHR '','' \<or> whitespace c)))"

section \<open>Printed numbers are read back\<close>

lemma digit_char_code: "d < 10 \<Longrightarrow> (of_char (digit_char d) :: nat) = 48 + d"
  by (simp add: digit_char_def)

lemma digit_char_read:
  assumes "d < 10"
  shows "dec_digit (digit_char d)" and "dec_value (digit_char d) = d" and "hex_digit (digit_char d) = Some d"
    and "digit_char d \<noteq> CHR ''+''" and "digit_char d \<noteq> CHR ''-''"
proof -
  have ne: "digit_char d \<noteq> c" if "(of_char c :: nat) < 48" for c
    using digit_char_code [OF assms] that by auto
  show "dec_digit (digit_char d)" using assms by (simp add: dec_digit_def in_range_def digit_char_code)
  moreover show "dec_value (digit_char d) = d" using assms by (simp add: dec_value_def digit_char_code)
  ultimately show "hex_digit (digit_char d) = Some d" by (simp add: hex_digit_def)
  show "digit_char d \<noteq> CHR ''+''" "digit_char d \<noteq> CHR ''-''" by (rule ne, simp)+
qed

lemma overflow_check: "0 < base \<Longrightarrow> d \<le> limit \<Longrightarrow> n > (limit - d) div base \<longleftrightarrow> limit < n * base + d" for n :: nat
  by (simp add: div_less_iff_less_mult less_diff_conv2)

lemma read_digits_dec:
  assumes limit: "9 \<le> limit"
  shows "acc \<le> limit \<Longrightarrow> read_digits limit 10 acc (dec_string n @ cs) =
    (if acc * 10 ^ length (dec_string n) + n \<le> limit
     then read_digits limit 10 (acc * 10 ^ length (dec_string n) + n) cs else None)"
proof (induction n arbitrary: acc cs rule: dec_string.induct)
  case (1 n)
  have digit: "read_digits limit 10 a (digit_char d # cs) =
      (if a * 10 + d \<le> limit then read_digits limit 10 (a * 10 + d) cs else None)" if "d < 10" for a d cs
    using overflow_check [of 10 d limit a] that limit by (auto simp: digit_char_read)
  show ?case
  proof (cases "n < 10")
    case True
    then show ?thesis by (simp add: dec_string.simps [of n] digit del: read_digits.simps)
  next
    case False
    define q where "q = n div 10"
    define r where "r = n mod 10"
    define v where "v = acc * 10 ^ length (dec_string q) + q"
    have n: "n = q * 10 + r" "r < 10" "dec_string n = dec_string q @ [digit_char r]"
      using False by (simp_all add: q_def r_def dec_string.simps [of n])
    have len: "length (dec_string n) = Suc (length (dec_string q))" by (simp add: n(3))
    have total: "acc * 10 ^ length (dec_string n) + n = v * 10 + r"
      unfolding len v_def using n(1) by (simp add: algebra_simps)
    have "read_digits limit 10 acc (dec_string n @ cs) =
        (if v \<le> limit then read_digits limit 10 v (digit_char r # cs) else None)"
      using "1.IH" [OF False "1.prems", of "digit_char r # cs"] by (simp add: n(3) v_def q_def)
    then show ?thesis unfolding total digit [OF n(2)] by simp
  qed
qed

lemma dec_string_digits: "n < 10 \<or> hd (dec_string n) \<noteq> CHR ''0''"
  using dec_string_hd [of n] by auto

lemma read_signs_dec: "read_signs k neg (dec_string n) = Some (neg, dec_string n)"
proof -
  have "\<exists>d < 10. hd (dec_string n) = digit_char d"
  proof (induction n rule: dec_string.induct)
    case (1 n)
    then show ?case by (cases "n < 10") (auto simp: dec_string.simps [of n] hd_append)
  qed
  then obtain d where d: "d < 10" "hd (dec_string n) = digit_char d" by blast
  then show ?thesis using digit_char_read(4,5) [OF d(1)] by (cases "dec_string n") auto
qed

lemma number_base_dec: "number_base (dec_string n) = (10, dec_string n)"
proof (cases "n < 10")
  case True
  then show ?thesis by (simp add: dec_string.simps [of n])
next
  case False
  then have "hd (dec_string n) \<noteq> CHR ''0''" using dec_string_digits by blast
  then show ?thesis by (cases "dec_string n" rule: number_base.cases) auto
qed

lemma read_number_dec: "9 \<le> limit \<Longrightarrow> read_number limit (dec_string n) = (if n \<le> limit then Some (False, n) else None)"
  using read_digits_dec [of limit 0 n "[]"] by (simp add: read_number_def read_signs_dec number_base_dec)

lemma read_number_minus:
  "9 \<le> limit \<Longrightarrow> read_number limit (CHR ''-'' # dec_string n) =
    (if n \<le> (limit + 1) div 2 then Some (True, n) else None)"
  using read_digits_dec [of limit 0 n "[]"] by (auto simp: read_number_def read_signs_dec number_base_dec)

lemma decimal_reversed_dec: "rev (decimal_reversed v) = dec_string v"
proof (induction v rule: decimal_reversed.induct)
  case (1 v)
  then show ?case
    by (cases "v < 10") (simp_all add: decimal_reversed.simps [of v] dec_string.simps [of v] div_eq_0_iff)
qed

lemma object_decimal_dec: "object_decimal v = dec_string (unat v)"
  by (simp add: object_decimal_def decimal_reversed_dec)

section \<open>Properties\<close>

text \<open>
  The number parsers of the linker read every decimal number that fits, with or without a
  minus sign, as its value modulo the word size, and reject every number that does not fit:
  magnitudes up to \<open>2 ^ 32 - 1\<close>, and up to \<open>2 ^ 31\<close> below zero.
\<close>

theorem integer_decimal:
  "integer (dec_string n) = (if n < 2 ^ 32 then Some (of_nat n) else None) \<and>
   integer (CHR ''-'' # dec_string n) = (if n \<le> 2 ^ 31 then Some (- of_nat n) else None) \<and>
   integer64 (dec_string n) = (if n < 2 ^ 64 then Some (of_nat n) else None) \<and>
   integer64 (CHR ''-'' # dec_string n) = (if n \<le> 2 ^ 63 then Some (- of_nat n) else None)"
  by (auto simp: integer_def integer64_def uint32_max_def read_number_dec read_number_minus)

text \<open>
  The sizes that the linker prints when it merges common symbols are read back by the
  assembler of the linker as the same word.
\<close>

theorem object_decimal_read: "integer (object_decimal v) = Some v"
proof -
  have "unat v < 2 ^ LENGTH(32)" by (rule unsigned_less)
  then show ?thesis by (simp add: object_decimal_dec integer_def read_number_dec uint32_max_def)
qed

end
