(* ===== verification/LinkState.thy ===== *)
theory LinkState
  imports LinkText CopyProgram Tables Results
begin

text \<open>
  runtime/gcc/copy_link.c, the state of the linker: the struct \<open>context\<close> with its tables, the
  operations on labels, constants and sections, and the data directives.

  The tables of the struct are lists, so their counters are the lengths; capacities are checked
  as in the code. The capacities can be chosen when the linker is compiled, so they are a
  record, kept in the context. Allocation (\<open>malloc\<close>, \<open>grow_table\<close>) always succeeds. The
  image buffer is passed beside the context, as in CopyEmit. Addresses are natural numbers;
  values that the program computes with (constants, addends, symbol addresses) are words.

  A result is a \<open>res\<close> (theory Results). The message of \<open>Fail\<close> is empty where the C function just
  returns -1. After a failure the linker discards its state; the two parsers whose failure is
  followed by another attempt (\<open>expression\<close>, \<open>data_symbol\<close>) return their state with an option.
\<close>

section \<open>The layout of the image\<close>

definition CONSTANT_BASE :: nat where [simp]: "CONSTANT_BASE = 24576"
definition CONSTANT_CAPACITY :: nat where [simp]: "CONSTANT_CAPACITY = (REG_BASE - CONSTANT_BASE) div 32"
definition ADD_TABLE :: nat where [simp]: "ADD_TABLE = 33792"
definition SUB_TABLE :: nat where [simp]: "SUB_TABLE = 33808"
definition AND_TABLE :: nat where [simp]: "AND_TABLE = 33824"
definition OR_TABLE :: nat where [simp]: "OR_TABLE = 33828"
definition XOR_TABLE :: nat where [simp]: "XOR_TABLE = 33832"
definition TEMPORARY :: nat where [simp]: "TEMPORARY = 33840"
definition CARRY :: nat where [simp]: "CARRY = 33842"
definition SHIFT_WORD :: nat where [simp]: "SHIFT_WORD = 33856"
definition SHIFT_COUNT :: nat where [simp]: "SHIFT_COUNT = 33888"
definition SHIFT_PAIR :: nat where [simp]: "SHIFT_PAIR = 33894"
definition SHIFT_ZERO :: nat where [simp]: "SHIFT_ZERO = 33896"
definition CMP_EQ :: nat where [simp]: "CMP_EQ = 33900"
definition CMP_LTU :: nat where [simp]: "CMP_LTU = 33901"
definition CMP_LTS :: nat where [simp]: "CMP_LTS = 33902"
definition CMP_LEU :: nat where [simp]: "CMP_LEU = 33903"
definition CMP_LES :: nat where [simp]: "CMP_LES = 33904"
definition CMP_SIGN :: nat where [simp]: "CMP_SIGN = 33905"
definition EQ_TABLE :: nat where [simp]: "EQ_TABLE = 33920"
definition LT_TABLE :: nat where [simp]: "LT_TABLE = 33928"
definition BRANCH_TABLE :: nat where [simp]: "BRANCH_TABLE = 60032"
definition MUL_LEFT :: nat where [simp]: "MUL_LEFT = 34240"
definition MUL_RIGHT :: nat where [simp]: "MUL_RIGHT = 34272"
definition MUL_ACC :: nat where [simp]: "MUL_ACC = 34304"
definition MUL_ADDEND :: nat where [simp]: "MUL_ADDEND = 34336"
definition MUL_MARKER :: nat where [simp]: "MUL_MARKER = 34368"
definition MUL_STOP :: nat where [simp]: "MUL_STOP = 34400"
definition DIV_NUM :: nat where [simp]: "DIV_NUM = 34528"
definition DIV_DEN :: nat where [simp]: "DIV_DEN = 34560"
definition DIV_REM :: nat where [simp]: "DIV_REM = 34592"
definition DIV_QUO :: nat where [simp]: "DIV_QUO = 34624"
definition DIV_MARK :: nat where [simp]: "DIV_MARK = 34656"
definition DIV_OVERFLOW :: nat where [simp]: "DIV_OVERFLOW = 34688"
definition DIV_STOP :: nat where [simp]: "DIV_STOP = 34689"
definition DIV_FLAGS :: nat where [simp]: "DIV_FLAGS = 34690"
definition DIV_REDUCE :: nat where [simp]: "DIV_REDUCE = 34695"
definition DIV_NUM_SIGN :: nat where [simp]: "DIV_NUM_SIGN = 34696"
definition DIV_DEN_SIGN :: nat where [simp]: "DIV_DEN_SIGN = 34697"
definition DIV_SIGN :: nat where [simp]: "DIV_SIGN = 34698"
definition MEM_ADDRESS :: nat where [simp]: "MEM_ADDRESS = 34720"
definition MEM_FLAGS :: nat where [simp]: "MEM_FLAGS = 34752"
definition MEM_VALID :: nat where [simp]: "MEM_VALID = 34757"
definition MEM_BIT_ADDRESS :: nat where [simp]: "MEM_BIT_ADDRESS = 34784"
definition STACK_VALUE :: nat where [simp]: "STACK_VALUE = 34816"
definition RETURN_FP :: nat where [simp]: "RETURN_FP = 34848"
definition RETURN_PC :: nat where [simp]: "RETURN_PC = 34880"
definition CALL_TARGET :: nat where [simp]: "CALL_TARGET = 34912"
definition OUTPUT :: nat where [simp]: "OUTPUT = 34000"
definition STATUS :: nat where [simp]: "STATUS = 34100"
definition ZERO_LAYER :: nat where [simp]: "ZERO_LAYER = 36352"

text \<open>The capacities of the tables, and the parts of the image whose place depends on them.\<close>

record capacities =
  label_capacity :: nat
  jump_capacity :: nat
  call_capacity :: nat
  symbol_capacity :: nat
  relocation_capacity :: nat

definition default_capacities :: capacities where
  "default_capacities = \<lparr>label_capacity = 32, jump_capacity = 64, call_capacity = 32,
     symbol_capacity = 12, relocation_capacity = 64\<rparr>"

text \<open>The condition of the \<open>#error\<close> directive.\<close>

definition capacities_valid :: "capacities \<Rightarrow> bool" where
  "capacities_valid caps \<longleftrightarrow>
     list_all (\<lambda>n. 1 \<le> n \<and> n \<le> 1048576)
       [label_capacity caps, jump_capacity caps, call_capacity caps, symbol_capacity caps, relocation_capacity caps]"

definition CALL_TABLE :: "capacities \<Rightarrow> nat" where
  "CALL_TABLE caps = BRANCH_TABLE + 64 * jump_capacity caps"

definition SYMBOL_TABLE :: "capacities \<Rightarrow> nat" where
  "SYMBOL_TABLE caps = CALL_TABLE caps + 32 * call_capacity caps"

definition CODE_BEGIN :: "capacities \<Rightarrow> nat" where
  "CODE_BEGIN caps = SYMBOL_TABLE caps + 32 * symbol_capacity caps"

section \<open>The context\<close>

record data_section =
  se_name :: string
  se_position :: nat
  se_alignment :: nat
  se_base :: nat
  se_kind :: nat

record data_fragment =
  fr_staging :: nat
  fr_offset :: nat
  fr_count :: nat
  fr_section :: nat

record label_entry =
  lb_name :: string
  lb_address :: u32
  lb_defined :: bool
  lb_data :: int
  lb_alias :: bool
  lb_weak :: bool
  lb_missing_weak :: bool
  lb_numbered :: bool
  lb_offset :: nat

record jump_entry =
  jp_layer :: nat
  jp_table :: nat
  jp_fallthrough :: nat
  jp_label :: int
  jp_inverted :: bool
  jp_line :: nat

record symbol_entry =
  sy_label :: nat
  sy_addend :: u32

record relocation =
  rl_addend :: u64
  rl_destination :: nat
  rl_label :: nat
  rl_subtract :: "nat option"
  rl_bytes :: nat

record alias_entry =
  al_label :: nat
  al_target :: "nat option"
  al_addend :: u32

record link_context =
  ct_caps :: capacities
  ct_program :: cs_copy_program
  ct_constants :: "u32 list"
  ct_labels :: "label_entry list"
  ct_jumps :: "jump_entry list"
  ct_compared :: bool
  ct_data_begin :: nat
  ct_memory_bytes :: nat
  ct_memory_address_bits :: nat
  ct_memory_fault :: "nat option"
  ct_return_handler :: "nat option"
  ct_call_count :: nat
  ct_symbols :: "symbol_entry list"
  ct_program_mode :: bool
  ct_section :: nat
  ct_sections :: "data_section list"
  ct_active_section :: nat
  ct_previous_section :: nat
  ct_previous_valid :: bool
  ct_section_stack :: "nat list"
  ct_fragments :: "data_fragment list"
  ct_data_cursor :: nat
  ct_relocations :: "relocation list"
  ct_aliases :: "alias_entry list"
  ct_assembly :: string
  ct_statement_offset :: "nat option"

type_synonym link = "link_context \<times> mem"

section \<open>Writing into the image\<close>

text \<open>A call of the code generator on the program of the context.\<close>

definition emitting ::
  "(cs_copy_program \<times> mem \<Rightarrow> ((cs_copy_program \<times> mem) \<times> int) option) \<Rightarrow> link \<Rightarrow> link res" where
  "emitting f = (\<lambda>(ctx, m).
     case f (ct_program ctx, m) of
       None \<Rightarrow> Undefined
     | Some ((pr, m), rc) \<Rightarrow> if rc = 0 then Done (ctx\<lparr>ct_program := pr\<rparr>, m) else Fail [])"

abbreviation emit :: "nat \<Rightarrow> nat \<Rightarrow> nat \<Rightarrow> link \<Rightarrow> link res" where
  "emit count destination source \<equiv> emitting (cs_copy_program_emit count destination source)"

abbreviation next_layer :: "link \<Rightarrow> link res" where
  "next_layer \<equiv> emitting cs_copy_program_next"

text \<open>\<open>cs_copy_constant\<close> on the image of the program.\<close>

definition put :: "nat \<Rightarrow> nat \<Rightarrow> u32 \<Rightarrow> link \<Rightarrow> link res" where
  "put at width v = (\<lambda>(ctx, m).
     case cs_copy_constant (pr_image (ct_program ctx)) at width v m of
       None \<Rightarrow> Undefined
     | Some (m, rc) \<Rightarrow> if rc = 0 then Done (ctx, m) else Fail [])"

section \<open>Labels, constants and jumps\<close>

definition new_label :: label_entry where
  "new_label = \<lparr>lb_name = [], lb_address = 0, lb_defined = False, lb_data = 0, lb_alias = False,
     lb_weak = False, lb_missing_weak = False, lb_numbered = False, lb_offset = 0\<rparr>"

definition add_label :: "label_entry \<Rightarrow> link_context \<Rightarrow> link_context \<times> nat option" where
  "add_label l ctx =
     (if length (ct_labels ctx) = label_capacity (ct_caps ctx) then (ctx, None)
      else (ctx\<lparr>ct_labels := ct_labels ctx @ [l]\<rparr>, Some (length (ct_labels ctx))))"

definition numeric_label :: "nat \<Rightarrow> link_context \<Rightarrow> link_context \<times> nat option" where
  "numeric_label offset ctx =
     (case index_of (\<lambda>l. lb_numbered l \<and> lb_offset l = offset) (ct_labels ctx) of
        Some i \<Rightarrow> (ctx, Some i)
      | None \<Rightarrow> add_label (new_label\<lparr>lb_numbered := True, lb_offset := offset\<rparr>) ctx)"

text \<open>\<open>1b\<close> and \<open>1f\<close>: the number and whether the reference is forward.\<close>

definition numeric_reference :: "string \<Rightarrow> (nat \<times> bool) option" where
  "numeric_reference name =
     (case decimal_label name of
        Some ([c], number) \<Rightarrow>
          if c = CHR ''b'' \<or> c = CHR ''f'' then Some (number, c = CHR ''f'') else None
      | _ \<Rightarrow> None)"

definition valid_name :: "string \<Rightarrow> bool" where
  "valid_name name \<longleftrightarrow> name \<noteq> [] \<and> length name < 64 \<and> name_start (hd name) \<and> list_all name_char (tl name)"

definition label :: "string \<Rightarrow> link_context \<Rightarrow> link_context \<times> nat option" where
  "label name ctx =
     (case numeric_reference name of
        Some (number, forward) \<Rightarrow>
          (case ct_statement_offset ctx of
             None \<Rightarrow> (ctx, None)
           | Some before \<Rightarrow>
               (case numeric_target (ct_assembly ctx) before number forward of
                  None \<Rightarrow> (ctx, None)
                | Some target \<Rightarrow> numeric_label target ctx))
      | None \<Rightarrow>
          if \<not> valid_name name then (ctx, None)
          else case index_of (\<lambda>l. lb_name l = name) (ct_labels ctx) of
              Some i \<Rightarrow> (ctx, Some i)
            | None \<Rightarrow> add_label (new_label\<lparr>lb_name := name\<rparr>) ctx)"

text \<open>A label that must be valid.\<close>

definition some_label :: "string \<Rightarrow> link \<Rightarrow> (nat \<times> link) res" where
  "some_label name = (\<lambda>(ctx, m).
     case label name ctx of (ctx, None) \<Rightarrow> Fail [] | (ctx, Some i) \<Rightarrow> Done (i, ctx, m))"

definition jump :: "int \<Rightarrow> nat \<Rightarrow> link \<Rightarrow> link res" where
  "jump target line = (\<lambda>(ctx, m).
     if length (ct_jumps ctx) = jump_capacity (ct_caps ctx) then Fail []
     else let layer = im_layer (pr_image (ct_program ctx))
          in andthen (next_layer (ctx, m)) (\<lambda>(ctx, m).
            Done (ctx\<lparr>ct_jumps := ct_jumps ctx @ [\<lparr>jp_layer = layer, jp_table = 0, jp_fallthrough = 0,
              jp_label = target, jp_inverted = False, jp_line = line\<rparr>]\<rparr>, m)))"

definition link_constant :: "u32 \<Rightarrow> link \<Rightarrow> (nat \<times> link) res" where
  "link_constant v = (\<lambda>(ctx, m).
     case index_of (\<lambda>c. c = v) (ct_constants ctx) of
       Some i \<Rightarrow> Done (CONSTANT_BASE + 32 * i, ctx, m)
     | None \<Rightarrow>
         let i = length (ct_constants ctx)
         in if i = CONSTANT_CAPACITY then Fail []
            else andthen (put (CONSTANT_BASE + 32 * i) 32 v (ctx\<lparr>ct_constants := ct_constants ctx @ [v]\<rparr>, m))
              (\<lambda>st. Done (CONSTANT_BASE + 32 * i, st)))"

section \<open>Expressions\<close>

definition expression :: "string \<Rightarrow> link_context \<Rightarrow> link_context \<times> (nat \<times> u32) option" where
  "expression text ctx =
     (let sign = (\<lambda>c. c = CHR ''+'' \<or> c = CHR ''-'');
          name = takeWhile (\<lambda>c. \<not> sign c) text;
          rest = dropWhile (\<lambda>c. \<not> sign c) text
      in if name = [] \<or> length name \<ge> 64 then (ctx, None)
         else case label (trim name) ctx of
             (ctx, None) \<Rightarrow> (ctx, None)
           | (ctx, Some i) \<Rightarrow>
               if rest = [] then (ctx, Some (i, 0))
               else case integer (skip_white (tl rest)) of
                   None \<Rightarrow> (ctx, None)
                 | Some v \<Rightarrow> (ctx, Some (i, if hd rest = CHR ''-'' then 0 - v else v)))"

lemma length_skip_white: "length (skip_white s) \<le> length s"
  by (simp add: skip_white_def length_dropWhile_le)

function open_parentheses :: "nat \<Rightarrow> string \<Rightarrow> (nat \<times> string) option" where
  "open_parentheses k [] = Some (k, [])"
| "open_parentheses k (c # cs) =
     (if c = CHR ''('' then if k + 1 > 32 then None else open_parentheses (k + 1) (skip_white cs)
      else Some (k, c # cs))"
  by pat_completeness auto

termination
  by (relation "measure (\<lambda>(k, s). length s)") (auto simp: le_imp_less_Suc length_skip_white)

fun close_parentheses :: "nat \<Rightarrow> string \<Rightarrow> string option" where
  "close_parentheses 0 s = Some s"
| "close_parentheses (Suc k) [] = None"
| "close_parentheses (Suc k) (c # cs) = (if c = CHR '')'' then close_parentheses k (skip_white cs) else None)"

definition data_symbol :: "string \<Rightarrow> link_context \<Rightarrow> link_context \<times> (nat \<times> string) option" where
  "data_symbol text ctx =
     (case open_parentheses 0 (skip_white text) of
        None \<Rightarrow> (ctx, None)
      | Some (parentheses, at) \<Rightarrow>
          let stop = (\<lambda>c. whitespace c \<or> c \<in> set ''+-()'');
              name = takeWhile (\<lambda>c. \<not> stop c) at;
              rest = skip_white (dropWhile (\<lambda>c. \<not> stop c) at)
          in if name = [] \<or> length name \<ge> 64 then (ctx, None)
             else case label name ctx of
                 (ctx, None) \<Rightarrow> (ctx, None)
               | (ctx, Some i) \<Rightarrow> (ctx, map_option (\<lambda>r. (i, r)) (close_parentheses parentheses rest)))"

definition data_expression ::
  "string \<Rightarrow> link_context \<Rightarrow> link_context \<times> (nat \<times> nat option \<times> u64) option" where
  "data_expression text ctx =
     (case expression text ctx of
        (ctx, Some (i, offset)) \<Rightarrow> (ctx, Some (i, None, ucast offset))
      | (ctx, None) \<Rightarrow>
          (case data_symbol text ctx of
             (ctx, None) \<Rightarrow> (ctx, None)
           | (ctx, Some (i, rest)) \<Rightarrow>
               if rest = [] \<or> hd rest \<noteq> CHR ''-'' then (ctx, None)
               else case data_symbol (tl rest) ctx of
                   (ctx, None) \<Rightarrow> (ctx, None)
                 | (ctx, Some (j, rest)) \<Rightarrow>
                     if rest = [] then (ctx, Some (i, Some j, 0))
                     else if hd rest \<noteq> CHR ''+'' \<and> hd rest \<noteq> CHR ''-'' then (ctx, None)
                     else case integer64 (skip_white (tl rest)) of
                         None \<Rightarrow> (ctx, None)
                       | Some v \<Rightarrow> (ctx, Some (i, Some j, if hd rest = CHR ''-'' then 0 - v else v))))"

end
