(* ===== verification/LinkData.thy ===== *)
theory LinkData
  imports LinkState
begin

text \<open>
  runtime/gcc/copy_link.c, sections and data: the staging area that data directives fill, the
  layout of the sections when the whole file has been read, and the directives themselves.
\<close>

section \<open>Space in the active section\<close>

definition data_reserve :: "nat \<Rightarrow> link \<Rightarrow> (nat \<times> link) res" where
  "data_reserve count = (\<lambda>(ctx, m).
     let capacity = ct_memory_bytes ctx div 2;
         active = ct_active_section ctx;
         cursor = ct_data_cursor ctx;
         fragments = ct_fragments ctx
     in if cursor > capacity \<or> count > capacity - cursor then Fail []
        else if active \<ge> length (ct_sections ctx) then Undefined
        else let offset = se_position (ct_sections ctx ! active);
                 extend = (fragments \<noteq> [] \<and> fr_section (last fragments) = active \<and>
                   fr_staging (last fragments) + fr_count (last fragments) = cursor \<and>
                   fr_offset (last fragments) + fr_count (last fragments) = offset);
                 fragments = (if count = 0 then fragments
                   else if extend
                   then butlast fragments @ [(last fragments)\<lparr>fr_count := fr_count (last fragments) + count\<rparr>]
                   else fragments @ [\<lparr>fr_staging = cursor, fr_offset = offset, fr_count = count, fr_section = active\<rparr>])
             in Done (ct_data_begin ctx + cursor * 8,
                  ctx\<lparr>ct_fragments := fragments,
                     ct_sections := modify active (\<lambda>s. s\<lparr>se_position := se_position s + count\<rparr>) (ct_sections ctx),
                     ct_data_cursor := cursor + count\<rparr>, m))"

definition data_align :: "u32 \<Rightarrow> link \<Rightarrow> link res" where
  "data_align alignment = (\<lambda>(ctx, m).
     let active = ct_active_section ctx
     in if alignment = 0 \<or> unat alignment > ct_memory_bytes ctx div 2 \<or> alignment AND (alignment - 1) \<noteq> 0 then Fail []
        else if active \<ge> length (ct_sections ctx) then Undefined
        else let sections = modify active (\<lambda>s. if unat alignment > se_alignment s then s\<lparr>se_alignment := unat alignment\<rparr> else s)
                   (ct_sections ctx);
                 padding = unat ((0 - of_nat (se_position (ct_sections ctx ! active))) AND (alignment - 1))
             in ignoring (data_reserve padding) (ctx\<lparr>ct_sections := sections\<rparr>, m))"

definition select_section :: "string \<Rightarrow> nat \<Rightarrow> link \<Rightarrow> link res" where
  "select_section name kind = (\<lambda>(ctx, m).
     let previous_valid = (ct_sections ctx \<noteq> []);
         select = (\<lambda>i sections. Done (ctx\<lparr>ct_sections := sections, ct_previous_section := ct_active_section ctx,
           ct_previous_valid := previous_valid, ct_active_section := i, ct_section := kind\<rparr>, m))
     in case index_of (\<lambda>s. se_name s = name) (ct_sections ctx) of
          None \<Rightarrow>
            if length name \<ge> 64 then Fail []
            else select (length (ct_sections ctx)) (ct_sections ctx @
              [\<lparr>se_name = name, se_position = 0, se_alignment = 1, se_base = 0, se_kind = kind\<rparr>])
        | Some i \<Rightarrow> if se_kind (ct_sections ctx ! i) \<noteq> kind then Fail [] else select i (ct_sections ctx))"

fun contains :: "string \<Rightarrow> string \<Rightarrow> bool" where
  "contains d [] = (d = [])"
| "contains d (c # cs) = (has_prefix d (c # cs) \<or> contains d cs)"

definition skip_quote :: "string \<Rightarrow> string" where
  "skip_quote s = (case s of c # cs \<Rightarrow> if c = CHR 0x22 then cs else s | [] \<Rightarrow> [])"

text \<open>The kinds of the well-known sections: 0 code, 1 data, 2 zeroed data, 3 ignored.\<close>

definition known_section :: "string \<Rightarrow> nat option" where
  "known_section name =
     (let is = (\<lambda>d. name = d \<or> has_prefix (d @ ''.'') name)
      in if is ''.text'' then Some 0
         else if is ''.data'' \<or> is ''.rodata'' \<or> is ''.sdata'' then Some 1
         else if is ''.bss'' \<or> is ''.sbss'' then Some 2
         else if name = ''.note.GNU-stack'' then Some 3 else None)"

text \<open>The kind that the flags of a section choose; \<open>None\<close> when they are not well formed.\<close>

definition flagged_section :: "string \<Rightarrow> nat option" where
  "flagged_section p =
     (case p of [] \<Rightarrow> None | c # p \<Rightarrow>
        if c \<noteq> CHR '','' then None
        else case skip_white p of [] \<Rightarrow> None | c # p \<Rightarrow>
          if c \<noteq> CHR 0x22 then None
          else let flags = takeWhile (\<lambda>c. c \<noteq> CHR 0x22) p;
                   rest = dropWhile (\<lambda>c. c \<noteq> CHR 0x22) p;
                   alloc = CHR ''a'' \<in> set flags;
                   execute = CHR ''x'' \<in> set flags
               in if rest = [] then None
                  else if alloc \<and> \<not> execute \<and> contains ''nobits'' (tl rest) then Some 2
                  else Some (if alloc then if execute then 0 else 1 else 3))"

definition section_directive :: "string \<Rightarrow> link \<Rightarrow> link res" where
  "section_directive arguments = (\<lambda>(ctx, m).
     let stop = (\<lambda>c. c = CHR '','' \<or> c = CHR 0x22 \<or> whitespace c);
         name = takeWhile (\<lambda>c. \<not> stop c) (skip_quote arguments);
         rest = skip_white (skip_quote (dropWhile (\<lambda>c. \<not> stop c) (skip_quote arguments)))
     in if length name \<ge> 64 \<or> name = [] then Fail []
        else case known_section name of
            Some kind \<Rightarrow> select_section name kind (ctx, m)
          | None \<Rightarrow>
              if rest = []
              then (case index_of (\<lambda>s. se_name s = name) (ct_sections ctx) of
                      None \<Rightarrow> Fail []
                    | Some i \<Rightarrow> select_section name (se_kind (ct_sections ctx ! i)) (ctx, m))
              else case flagged_section rest of
                  None \<Rightarrow> Fail []
                | Some kind \<Rightarrow> select_section name kind (ctx, m))"

section \<open>Strings\<close>

text \<open>An escape sequence, after its backslash: the value and the rest.\<close>

fun octal_digits :: "nat \<Rightarrow> nat \<Rightarrow> string \<Rightarrow> nat \<times> string" where
  "octal_digits 0 v s = (v, s)"
| "octal_digits (Suc k) v [] = (v, [])"
| "octal_digits (Suc k) v (c # cs) =
     (if in_range CHR ''0'' c CHR ''7'' then octal_digits k (v * 8 + dec_value c) cs else (v, c # cs))"

fun hex_escape :: "nat \<Rightarrow> string \<Rightarrow> (nat \<times> string) option" where
  "hex_escape v [] = Some (v, [])"
| "hex_escape v (c # cs) =
     (case hex_digit c of
        None \<Rightarrow> Some (v, c # cs)
      | Some d \<Rightarrow> if v > (255 - d) div 16 then None else hex_escape (v * 16 + d) cs)"

definition simple_escape :: "char \<Rightarrow> nat option" where
  "simple_escape c = map_of
     [(CHR ''a'', 7), (CHR ''b'', 8), (CHR ''f'', 12), (CHR ''n'', 10), (CHR ''r'', 13), (CHR ''t'', 9),
      (CHR ''v'', 11), (CHR 0x5C, 92), (CHR 0x22, 34)] c"

definition escape_sequence :: "string \<Rightarrow> (nat \<times> string) option" where
  "escape_sequence s =
     (case s of
        [] \<Rightarrow> None
      | c # cs \<Rightarrow>
          if in_range CHR ''0'' c CHR ''7'' then Some (octal_digits 2 (dec_value c) cs)
          else if c = CHR ''x'' then
            (case cs of [] \<Rightarrow> None | h # _ \<Rightarrow> if hex_digit h = None then None else hex_escape 0 cs)
          else map_option (\<lambda>v. (v, cs)) (simple_escape c))"

lemma octal_digits_length: "length (snd (octal_digits k v s)) \<le> length s"
proof (induction k v s rule: octal_digits.induct)
  case (3 k v c cs)
  then show ?case by (simp add: le_Suc_eq)
qed simp_all

lemma hex_escape_length: "hex_escape v s = Some (u, r) \<Longrightarrow> length r \<le> length s"
proof (induction v s rule: hex_escape.induct)
  case (2 v c cs)
  then show ?case by (cases "hex_digit c") (auto split: if_splits intro: le_SucI)
qed simp

lemma escape_sequence_length:
  assumes "escape_sequence s = Some (v, r)"
  shows "length r \<le> length s"
proof (cases s)
  case (Cons c cs)
  then show ?thesis
    using assms octal_digits_length [of 2 "dec_value c" cs] hex_escape_length [of 0 cs v r]
    by (auto simp: escape_sequence_def split: if_splits list.splits)
qed (use assms in \<open>simp add: escape_sequence_def\<close>)

text \<open>The bytes of a literal up to its closing quote, and the rest after it.\<close>

function read_chars :: "string \<Rightarrow> (nat list \<times> string) option" where
  "read_chars [] = None"
| "read_chars (c # cs) =
     (if c = CHR 0x22 then Some ([], cs)
      else if c = CHR 0x5C then
        (case escape_sequence cs of
           None \<Rightarrow> None
         | Some (v, rest) \<Rightarrow>
             if v > 255 then None else map_option (\<lambda>(bytes, r). (v # bytes, r)) (read_chars rest))
      else map_option (\<lambda>(bytes, r). (of_char c # bytes, r)) (read_chars cs))"
  by pat_completeness auto

termination
  by (relation "measure length") (auto simp: le_imp_less_Suc dest: escape_sequence_length)

lemma read_chars_length: "read_chars s = Some (bytes, r) \<Longrightarrow> length r < length s"
proof (induction s arbitrary: bytes r rule: read_chars.induct)
  case (2 c cs)
  consider "c = CHR 0x22" | v rest where "c = CHR 0x5C" "escape_sequence cs = Some (v, rest)" "v \<le> 255"
    | "c \<noteq> CHR 0x22" "c \<noteq> CHR 0x5C"
    using 2(3) by (auto split: if_splits option.splits)
  then show ?case
  proof cases
    case 1
    with 2(3) show ?thesis by simp
  next
    case (2 v rest)
    with "2.prems" obtain bytes' where "read_chars rest = Some (bytes', r)" by auto
    then have "length r < length rest" using 2 by (intro "2.IH"(1)) auto
    then show ?thesis using escape_sequence_length [OF 2(2)] by simp
  next
    case 3
    with "2.prems" obtain bytes' where "read_chars cs = Some (bytes', r)" by auto
    then have "length r < length cs" using 3 by (intro "2.IH"(2)) auto
    then show ?thesis by simp
  qed
qed simp

lemma length_trim: "length (trim s) \<le> length s"
  using length_skip_white [of "rev (skip_white s)"] length_skip_white [of s] by (simp add: trim_def)

text \<open>A list of literals separated by commas: the bytes of each.\<close>

function read_strings :: "string \<Rightarrow> nat list list option" where
  "read_strings s =
     (case trim s of
        [] \<Rightarrow> None
      | c # cs \<Rightarrow>
          if c \<noteq> CHR 0x22 then None
          else case read_chars cs of
              None \<Rightarrow> None
            | Some (bytes, rest) \<Rightarrow>
                (case trim rest of
                   [] \<Rightarrow> Some [bytes]
                 | d # ds \<Rightarrow> if d \<noteq> CHR '','' then None else map_option (\<lambda>bs. bytes # bs) (read_strings ds)))"
  by pat_completeness auto

termination
proof (relation "measure length")
  fix s c cs pair bytes rest d ds
  assume a: "trim s = c # cs" "read_chars cs = Some pair" "(bytes, rest) = pair" "trim rest = d # ds"
  then have a: "trim s = c # cs" "read_chars cs = Some (bytes, rest)" "trim rest = d # ds" by simp_all
  have "Suc (length cs) \<le> length s" using length_trim [of s] a(1) by simp
  moreover have "length rest < length cs" using read_chars_length [OF a(2)] .
  moreover have "Suc (length ds) \<le> length rest" using length_trim [of rest] a(3) by simp
  ultimately show "(ds, s) \<in> measure length" by simp
qed auto

declare read_strings.simps [simp del]

definition data_byte :: "nat \<Rightarrow> link \<Rightarrow> link res" where
  "data_byte v = passing (data_reserve 1) (\<lambda>at. put at 8 (of_nat v))"

definition data_string :: "string \<Rightarrow> bool \<Rightarrow> link \<Rightarrow> link res" where
  "data_string s terminated st =
     (case read_strings s of
        None \<Rightarrow> Fail []
      | Some literals \<Rightarrow>
          steps (concat (map (\<lambda>bytes. map data_byte bytes @
            (if terminated then [ignoring (data_reserve 1)] else [])) literals)) st)"

section \<open>Directives\<close>

fun split_commas :: "string \<Rightarrow> string list" where
  "split_commas [] = [[]]"
| "split_commas (c # cs) =
     (if c = CHR '','' then [] # split_commas cs
      else (c # hd (split_commas cs)) # tl (split_commas cs))"

text \<open>\<open>strchr(s, ',')\<close>: the text before the first comma and, if there is one, after it.\<close>

definition before_comma :: "string \<Rightarrow> string" where
  "before_comma s = takeWhile (\<lambda>c. c \<noteq> CHR '','') s"

definition after_comma :: "string \<Rightarrow> string option" where
  "after_comma s = (if CHR '','' \<in> set s then Some (tl (dropWhile (\<lambda>c. c \<noteq> CHR '','') s)) else None)"

definition pop_section :: "bool \<Rightarrow> link \<Rightarrow> link res" where
  "pop_section pop = (\<lambda>(ctx, m).
     if pop \<and> ct_section_stack ctx = [] \<or> \<not> pop \<and> \<not> ct_previous_valid ctx then Fail []
     else let target = (if pop then hd (ct_section_stack ctx) else ct_previous_section ctx);
              stack = (if pop then tl (ct_section_stack ctx) else ct_section_stack ctx)
          in if target \<ge> length (ct_sections ctx) then Undefined
             else Done (ctx\<lparr>ct_section_stack := stack, ct_previous_section := ct_active_section ctx,
               ct_active_section := target, ct_section := se_kind (ct_sections ctx ! target),
               ct_previous_valid := True\<rparr>, m))"

definition push_section :: "bool \<Rightarrow> string \<Rightarrow> link \<Rightarrow> link res" where
  "push_section push arguments = (\<lambda>(ctx, m).
     if push \<and> length (ct_section_stack ctx) = 16 then Fail []
     else andthen (section_directive arguments (ctx, m)) (\<lambda>(ctx', m).
       Done (if push then ctx'\<lparr>ct_section_stack := ct_active_section ctx # ct_section_stack ctx'\<rparr> else ctx', m)))"

definition set_alias :: "string \<Rightarrow> link \<Rightarrow> link res" where
  "set_alias arguments = (\<lambda>(ctx, m).
     case after_comma arguments of
       None \<Rightarrow> Fail []
     | Some definition_text \<Rightarrow>
         if length (ct_aliases ctx) = label_capacity (ct_caps ctx) then Fail []
         else passing (some_label (trim (before_comma arguments))) (\<lambda>i (ctx, m).
           if lb_defined (ct_labels ctx ! i) \<or> lb_alias (ct_labels ctx ! i) then Fail []
           else let (ctx, r) = (case integer (trim definition_text) of
                      Some v \<Rightarrow> (ctx, Some (None, v))
                    | None \<Rightarrow> (case expression (trim definition_text) ctx of
                          (ctx, r) \<Rightarrow> (ctx, map_option (\<lambda>(j, v). (Some j, v)) r)))
                in case r of
                    None \<Rightarrow> Fail []
                  | Some (target, v) \<Rightarrow>
                      Done (ctx\<lparr>ct_aliases := ct_aliases ctx @ [\<lparr>al_label = i, al_target = target, al_addend = v\<rparr>],
                        ct_labels := modify i (\<lambda>l. l\<lparr>lb_alias := True\<rparr>) (ct_labels ctx)\<rparr>, m)) (ctx, m))"

text \<open>\<open>.comm name, size, alignment\<close> reserves zeroed data and leaves the section as it was.\<close>

definition common_place :: "nat \<Rightarrow> nat \<Rightarrow> link \<Rightarrow> link res" where
  "common_place i count = (\<lambda>(ctx, m).
     let active = ct_active_section ctx
     in if active \<ge> length (ct_sections ctx) then Undefined
        else ignoring (data_reserve count)
          (ctx\<lparr>ct_labels := modify i (\<lambda>l. l\<lparr>lb_address := of_nat (se_position (ct_sections ctx ! active)),
             lb_data := int active + 1, lb_defined := True\<rparr>) (ct_labels ctx)\<rparr>, m))"

definition common :: "string \<Rightarrow> link \<Rightarrow> link res" where
  "common arguments = (\<lambda>(ctx0, m).
     andthen (select_section ''.bss'' 2 (ctx0, m)) (\<lambda>(ctx, m).
       case after_comma arguments of
         None \<Rightarrow> Fail []
       | Some amounts \<Rightarrow>
           (case (case after_comma amounts of None \<Rightarrow> Some 4 | Some alignment \<Rightarrow> integer (trim alignment)) of
              None \<Rightarrow> Fail []
            | Some alignment \<Rightarrow>
                andthen (passing (some_label (trim (before_comma arguments))) (\<lambda>i (ctx, m).
                  if lb_defined (ct_labels ctx ! i) \<or> lb_alias (ct_labels ctx ! i) then Fail []
                  else case integer (trim (before_comma amounts)) of
                      None \<Rightarrow> Fail []
                    | Some count \<Rightarrow> steps [data_align alignment, common_place i (unat count)] (ctx, m)) (ctx, m))
                  (\<lambda>(ctx, m).
                    if ct_active_section ctx0 \<ge> length (ct_sections ctx) then Undefined
                    else Done (ctx\<lparr>ct_active_section := ct_active_section ctx0,
                      ct_previous_section := ct_previous_section ctx0,
                      ct_section := se_kind (ct_sections ctx ! ct_active_section ctx0),
                      ct_previous_valid := ct_previous_valid ctx0\<rparr>, m)))))"

definition weak_symbol :: "string \<Rightarrow> link \<Rightarrow> link res" where
  "weak_symbol name = passing (some_label (trim name)) (\<lambda>i (ctx, m).
     Done (ctx\<lparr>ct_labels := modify i (\<lambda>l. l\<lparr>lb_weak := True\<rparr>) (ct_labels ctx)\<rparr>, m))"

definition data_alignment :: "string \<Rightarrow> string \<Rightarrow> link \<Rightarrow> link res" where
  "data_alignment s arguments st =
     (case integer arguments of
        None \<Rightarrow> Fail []
      | Some count \<Rightarrow>
          if s \<noteq> ''.balign'' then if count > 30 then Fail [] else data_align (push_bit (unat count) 1) st
          else data_align count st)"

definition value_width :: "string \<Rightarrow> nat" where
  "value_width s =
     (if s = ''.byte'' then 1
      else if s = ''.short'' \<or> s = ''.2byte'' then 2
      else if s = ''.long'' \<or> s = ''.word'' \<or> s = ''.4byte'' then 4
      else if s = ''.quad'' \<or> s = ''.8byte'' then 8 else 0)"

definition add_relocation :: "nat \<Rightarrow> nat \<Rightarrow> string \<Rightarrow> link \<Rightarrow> link res" where
  "add_relocation bytes at v = (\<lambda>(ctx, m).
     if ct_section ctx = 2 \<or> bytes < 4 \<or> length (ct_relocations ctx) = relocation_capacity (ct_caps ctx) then Fail []
     else case data_expression v ctx of
         (ctx, None) \<Rightarrow> Fail []
       | (ctx, Some (i, subtract, addend)) \<Rightarrow>
           Done (ctx\<lparr>ct_relocations := ct_relocations ctx @ [\<lparr>rl_addend = addend, rl_destination = at,
             rl_label = i, rl_subtract = subtract, rl_bytes = bytes\<rparr>]\<rparr>, m))"

definition data_value :: "nat \<Rightarrow> string \<Rightarrow> link \<Rightarrow> link res" where
  "data_value bytes text = passing (data_reserve bytes) (\<lambda>at (ctx, m).
     case integer64 (trim text) of
       Some number \<Rightarrow>
         if ct_section ctx = 2 \<and> number \<noteq> 0 then Fail []
         else steps ([put at (if bytes > 4 then 32 else bytes * 8) (ucast number)] @
           (if bytes = 8 then [put (at + 32) 32 (ucast (drop_bit 32 number))] else [])) (ctx, m)
     | None \<Rightarrow> add_relocation bytes at (trim text) (ctx, m))"

text \<open>
  A directive: whether it was handled (the result 1, otherwise the caller looks at the
  metadata directives), and the new state.
\<close>

definition data_directive :: "string \<Rightarrow> link \<Rightarrow> (bool \<times> link) res" where
  "data_directive text = (\<lambda>(ctx, m).
     let s = takeWhile (\<lambda>c. \<not> whitespace c) text;
         arguments = trim (dropWhile (\<lambda>c. \<not> whitespace c) text);
         handled = (\<lambda>r. andthen r (\<lambda>st. Done (True, st)));
         st = (ctx, m)
     in if s \<in> {''.text'', ''.data'', ''.rodata'', ''.bss''}
        then handled (select_section s (if s = ''.text'' then 0 else if s = ''.bss'' then 2 else 1) st)
        else if s = ''.section'' \<or> s = ''.pushsection'' then handled (push_section (s = ''.pushsection'') arguments st)
        else if s = ''.popsection'' \<or> s = ''.previous''
        then if arguments \<noteq> [] then Fail [] else handled (pop_section (s = ''.popsection'') st)
        else if s = ''.set'' \<or> s = ''.equ'' then handled (set_alias arguments st)
        else if s = ''.comm'' then handled (common arguments st)
        else if s = ''.weak'' then handled (steps (map weak_symbol (split_commas arguments)) st)
        else if s \<in> {''.local'', ''.hidden'', ''.protected''} then if arguments = [] then Fail [] else Done (True, st)
        else if ct_section ctx = 1 \<or> ct_section ctx = 2
        then if s \<in> {''.align'', ''.p2align'', ''.balign''} then handled (data_alignment s arguments st)
             else if s \<in> {''.zero'', ''.space'', ''.skip''}
             then handled (case integer arguments of None \<Rightarrow> Fail []
               | Some count \<Rightarrow> ignoring (data_reserve (unat count)) st)
             else if s \<in> {''.ascii'', ''.string'', ''.asciz''}
             then if ct_section ctx = 2 then Fail [] else handled (data_string arguments (s \<noteq> ''.ascii'') st)
             else if value_width s = 0 then Done (False, st)
             else handled (steps (map (data_value (value_width s)) (split_commas arguments)) st)
        else Done (False, st))"

section \<open>Layout\<close>

text \<open>Rounding up to a power of two, as the code writes it.\<close>

definition align_up :: "nat \<Rightarrow> nat \<Rightarrow> nat" where
  "align_up cursor alignment =
     unat ((of_nat cursor + of_nat alignment - 1 :: u32) AND NOT (of_nat alignment - 1))"

fun layout_sections :: "nat \<Rightarrow> nat \<Rightarrow> data_section list \<Rightarrow> data_section list option" where
  "layout_sections capacity cursor [] = Some []"
| "layout_sections capacity cursor (s # sections) =
     (if se_kind s \<noteq> 1 \<and> se_kind s \<noteq> 2 then map_option (\<lambda>r. s # r) (layout_sections capacity cursor sections)
      else let base = align_up cursor (se_alignment s)
           in if base > capacity \<or> se_position s > capacity - base then None
              else map_option (\<lambda>r. s\<lparr>se_base := base\<rparr> # r) (layout_sections capacity (base + se_position s) sections))"

definition place_label :: "data_section list \<Rightarrow> label_entry \<Rightarrow> label_entry option" where
  "place_label sections l =
     (if lb_defined l \<and> lb_data l > 0
      then if nat (lb_data l - 1) < length sections
           then Some (l\<lparr>lb_address := lb_address l + of_nat (se_base (sections ! nat (lb_data l - 1)))\<rparr>)
           else None
      else Some l)"

definition missing_label :: "label_entry \<Rightarrow> label_entry" where
  "missing_label l =
     (if lb_weak l \<and> \<not> lb_defined l \<and> \<not> lb_alias l
      then l\<lparr>lb_defined := True, lb_data := -1, lb_address := 0, lb_missing_weak := True\<rparr> else l)"

text \<open>One alias in one pass: resolved once its target is.\<close>

definition resolve_alias :: "alias_entry \<Rightarrow> label_entry list \<Rightarrow> label_entry list" where
  "resolve_alias a labels =
     (let defined = (\<lambda>i. lb_defined (labels ! i))
      in if defined (al_label a) \<or> (case al_target a of None \<Rightarrow> False | Some t \<Rightarrow> \<not> defined t) then labels
         else modify (al_label a) (\<lambda>l. case al_target a of
             None \<Rightarrow> l\<lparr>lb_address := al_addend a, lb_data := -1, lb_missing_weak := False, lb_defined := True\<rparr>
           | Some t \<Rightarrow> l\<lparr>lb_address := al_addend a + lb_address (labels ! t), lb_data := lb_data (labels ! t),
               lb_missing_weak := lb_missing_weak (labels ! t), lb_defined := True\<rparr>) labels)"

definition resolve_aliases :: "alias_entry list \<Rightarrow> label_entry list \<Rightarrow> label_entry list" where
  "resolve_aliases aliases labels = ((\<lambda>ls. fold resolve_alias aliases ls) ^^ length aliases) labels"

definition layout_data :: "link \<Rightarrow> link res" where
  "layout_data = (\<lambda>(ctx, m).
     case layout_sections (ct_memory_bytes ctx div 2) 256 (ct_sections ctx) of
       None \<Rightarrow> Fail []
     | Some sections \<Rightarrow>
         (case those (map (place_label sections) (ct_labels ctx)) of
            None \<Rightarrow> Undefined
          | Some labels \<Rightarrow>
              let labels = resolve_aliases (ct_aliases ctx) (map missing_label labels)
              in if list_all (\<lambda>a. lb_defined (labels ! al_label a)) (ct_aliases ctx)
                 then Done (ctx\<lparr>ct_sections := sections, ct_labels := labels\<rparr>, m) else Fail []))"

section \<open>Packing\<close>

definition pack_fragment :: "nat \<Rightarrow> nat \<Rightarrow> data_section list \<Rightarrow> data_fragment \<Rightarrow> mem \<Rightarrow> mem option" where
  "pack_fragment staging packed sections f m =
     (if fr_section f \<ge> length sections then None
      else mem_move (fr_count f) m (staging + fr_staging f) m
        (packed + se_base (sections ! fr_section f) + fr_offset f))"

primrec pack_fragments :: "nat \<Rightarrow> nat \<Rightarrow> data_section list \<Rightarrow> data_fragment list \<Rightarrow> mem \<Rightarrow> mem option" where
  "pack_fragments staging packed sections [] m = Some m"
| "pack_fragments staging packed sections (f # fs) m = do {
     m \<leftarrow> pack_fragment staging packed sections f m;
     pack_fragments staging packed sections fs m
   }"

definition pack_data :: "link \<Rightarrow> link res" where
  "pack_data = (\<lambda>(ctx, m).
     let staging = ct_data_begin ctx div 8;
         capacity = ct_memory_bytes ctx div 2;
         packed = staging + capacity
     in case do {
          m \<leftarrow> mem_fill capacity 0 m packed;
          m \<leftarrow> pack_fragments staging packed (ct_sections ctx) (ct_fragments ctx) m;
          m \<leftarrow> mem_move capacity m packed m staging;
          mem_fill capacity 0 m packed
        } of None \<Rightarrow> Undefined | Some m \<Rightarrow> Done (ctx, m))"

end
