(* ===== verification/LinkCode.thy ===== *)
theory LinkCode
  imports LinkData
begin

text \<open>
  runtime/gcc/copy_link.c, the translation of one assembly operation into copy instructions.
  Every function here is a chain of calls of the code generator (CopyProgram) on the program
  of the context. A field address that the generated code patches at run time is computed from
  the slot that the next row will take, as in the code.
\<close>

section \<open>Fields of the next rows\<close>

abbreviation image_of :: "link \<Rightarrow> cs_copy_image" where
  "image_of st \<equiv> pr_image (ct_program (fst st))"

text \<open>A step that needs the state in which it runs.\<close>

definition at_state :: "(link \<Rightarrow> link \<Rightarrow> 'a res) \<Rightarrow> link \<Rightarrow> 'a res" where
  "at_state f st = f st st"

text \<open>The source field and the destination field of the row \<open>k\<close> slots ahead.\<close>

definition source_field :: "nat \<Rightarrow> link \<Rightarrow> nat" where
  "source_field k st = (im_slot (image_of st) + k) * im_instruction_bits (image_of st) +
     im_count_bits (image_of st) + im_address_bits (image_of st)"

definition destination_field :: "nat \<Rightarrow> link \<Rightarrow> nat" where
  "destination_field k st = (im_slot (image_of st) + k) * im_instruction_bits (image_of st) + im_count_bits (image_of st)"

text \<open>The source field of the jump of a layer.\<close>

definition jump_field :: "link \<Rightarrow> nat" where
  "jump_field st = 255 * im_instruction_bits (image_of st) + im_count_bits (image_of st) + im_address_bits (image_of st)"

definition room_for :: "nat \<Rightarrow> link \<Rightarrow> link res" where
  "room_for last_slot st = (if im_slot (image_of st) > last_slot then next_layer st else Done st)"

section \<open>Bits, comparisons and branches\<close>

definition lookup :: "nat \<Rightarrow> nat \<Rightarrow> nat \<Rightarrow> nat \<Rightarrow> nat \<Rightarrow> nat \<Rightarrow> link \<Rightarrow> link res" where
  "lookup destination table a b c inputs = steps [room_for (255 - inputs - 1),
     at_state (\<lambda>st. let field = source_field inputs st in
       steps ([emit 1 field a, emit 1 (field + 1) b] @ (if inputs = 3 then [emit 1 (field + 2) c] else []) @
         [emit 1 destination table]))]"

definition compare_bit :: "nat \<Rightarrow> nat \<Rightarrow> nat \<Rightarrow> (link \<Rightarrow> link res) list" where
  "compare_bit left right k =
     [lookup CMP_LTU LT_TABLE (left + k) (right + k) CMP_LTU 3,
      lookup CMP_EQ EQ_TABLE (left + k) (right + k) CMP_EQ 3]"

definition set_compared :: "bool \<Rightarrow> link \<Rightarrow> link res" where
  "set_compared b = (\<lambda>(ctx, m). Done (ctx\<lparr>ct_compared := b\<rparr>, m))"

definition compare32 :: "nat \<Rightarrow> nat \<Rightarrow> link \<Rightarrow> link res" where
  "compare32 left right = steps ([emit 1 CMP_EQ (EQ_TABLE + 7), emit 1 CMP_LTU EQ_TABLE] @
     concat (map (compare_bit left right) [0..<32]) @
     [lookup CMP_SIGN XOR_TABLE (left + 31) (right + 31) 0 2,
      lookup CMP_LTS XOR_TABLE CMP_SIGN CMP_LTU 0 2,
      lookup CMP_LEU OR_TABLE CMP_LTU CMP_EQ 0 2,
      lookup CMP_LES OR_TABLE CMP_LTS CMP_EQ 0 2,
      set_compared True])"

definition full :: string where
  "full = ''copy image capacity exceeded''"

text \<open>The last jump of the table becomes conditional.\<close>

definition condition_of_jump :: "nat \<Rightarrow> bool \<Rightarrow> nat \<Rightarrow> link \<Rightarrow> link res" where
  "condition_of_jump table inverted i = (\<lambda>(ctx, m).
     Done (ctx\<lparr>ct_jumps := modify i (\<lambda>j. j\<lparr>jp_table := table, jp_inverted := inverted,
       jp_fallthrough := im_layer (pr_image (ct_program ctx))\<rparr>) (ct_jumps ctx)\<rparr>, m))"

definition conditional_jump :: "nat \<Rightarrow> nat \<Rightarrow> bool \<Rightarrow> nat \<Rightarrow> link \<Rightarrow> link res" where
  "conditional_jump index flag inverted line = at_state (\<lambda>(ctx, m).
     let i = length (ct_jumps ctx); table = BRANCH_TABLE + 64 * i
     in if i = jump_capacity (ct_caps ctx) then (\<lambda>st. Fail ''jump capacity exceeded'')
        else (\<lambda>st. or_fail full (steps [room_for 253,
          at_state (\<lambda>st. steps [emit 1 (source_field 1 st + 5) flag,
            emit (im_address_bits (image_of st)) (jump_field st) table]),
          jump (int index) line,
          condition_of_jump table inverted i] st)))"

definition branch_conditions :: "(string \<times> nat \<times> bool) list" where
  "branch_conditions =
     [(''eq'', CMP_EQ, False), (''ne'', CMP_EQ, True), (''lt'', CMP_LTS, False), (''ge'', CMP_LTS, True),
      (''le'', CMP_LES, False), (''gt'', CMP_LES, True), (''ltu'', CMP_LTU, False), (''geu'', CMP_LTU, True),
      (''leu'', CMP_LEU, False), (''gtu'', CMP_LEU, True)]"

definition branch :: "string \<Rightarrow> nat \<Rightarrow> link \<Rightarrow> link res" where
  "branch s line = at_state (\<lambda>(ctx, m).
     let operator = takeWhile (\<lambda>c. \<not> whitespace c) s;
         operand = dropWhile (\<lambda>c. \<not> whitespace c) s
     in if \<not> ct_compared ctx then (\<lambda>st. Fail ''conditional branch without comparison'')
        else case map_of branch_conditions (drop 12 operator) of
            None \<Rightarrow> (\<lambda>st. Fail ''invalid branch condition'')
          | Some (flag, inverted) \<Rightarrow>
              passing (\<lambda>st. or_fail ''invalid copy jump label'' (some_label (trim operand) st))
                (\<lambda>i. conditional_jump i flag inverted line))"

section \<open>Labels of the generated code\<close>

definition internal_label :: "link \<Rightarrow> (nat \<times> link) res" where
  "internal_label = (\<lambda>(ctx, m).
     case add_label new_label ctx of (ctx, None) \<Rightarrow> Fail [] | (ctx, Some i) \<Rightarrow> Done (i, ctx, m))"

text \<open>The label stands for the layer that is being filled.\<close>

definition define_here :: "nat \<Rightarrow> link \<Rightarrow> link res" where
  "define_here i = (\<lambda>(ctx, m).
     Done (ctx\<lparr>ct_labels := modify i (\<lambda>l. l\<lparr>lb_defined := True,
       lb_address := of_nat (im_layer (pr_image (ct_program ctx)))\<rparr>) (ct_labels ctx)\<rparr>, m))"

definition bind_internal :: "nat \<Rightarrow> link \<Rightarrow> link res" where
  "bind_internal i = steps [next_layer, define_here i]"

section \<open>Arithmetic of the generated code\<close>

abbreviation add32 :: "nat \<Rightarrow> nat \<Rightarrow> nat \<Rightarrow> link \<Rightarrow> link res" where
  "add32 destination left right \<equiv> emitting (cs_copy_program_add32 destination left right ADD_TABLE TEMPORARY CARRY)"

abbreviation sub32 :: "nat \<Rightarrow> nat \<Rightarrow> nat \<Rightarrow> link \<Rightarrow> link res" where
  "sub32 destination left right \<equiv> emitting (cs_copy_program_sub32 destination left right SUB_TABLE TEMPORARY CARRY)"

abbreviation bits32 :: "cs_copy_bit_operation \<Rightarrow> nat \<Rightarrow> nat \<Rightarrow> nat \<Rightarrow> nat \<Rightarrow> link \<Rightarrow> link res" where
  "bits32 operation destination left right table \<equiv>
     emitting (cs_copy_program_bits32 operation destination left right table)"

text \<open>One word moved up by a bit, its lowest bit taken from \<open>lowest\<close>.\<close>

definition shift_up :: "nat \<Rightarrow> nat \<Rightarrow> (link \<Rightarrow> link res) list" where
  "shift_up w lowest = [emit 31 (w + 1) w, emit 1 w lowest]"

definition multiply32 :: "nat \<Rightarrow> nat \<Rightarrow> link \<Rightarrow> link res" where
  "multiply32 destination source = at_state (\<lambda>(ctx, m).
     if length (ct_labels ctx) = label_capacity (ct_caps ctx) then (\<lambda>st. Fail [])
     else passing (link_constant 0) (\<lambda>zero. passing (link_constant 1) (\<lambda>one. steps [
       emit 32 MUL_LEFT destination, emit 32 MUL_RIGHT source, emit 32 MUL_ACC zero, emit 32 MUL_MARKER one, next_layer,
       passing internal_label (\<lambda>loop. steps ([define_here loop] @
         map (\<lambda>k. lookup (MUL_ADDEND + k) AND_TABLE (MUL_LEFT + k) MUL_RIGHT 0 2) [0..<32] @
         [add32 MUL_ACC MUL_ACC MUL_ADDEND, emit 1 MUL_STOP (MUL_MARKER + 31)] @
         shift_up MUL_LEFT zero @
         [emit 31 MUL_RIGHT (MUL_RIGHT + 1), emit 1 (MUL_RIGHT + 31) zero] @
         shift_up MUL_MARKER zero @
         [conditional_jump loop MUL_STOP True 0])),
       emit 32 destination MUL_ACC])))"

text \<open>\<open>value := - value\<close> at run time when the sign bit is set.\<close>

definition absolute32 :: "nat \<Rightarrow> nat \<Rightarrow> nat \<Rightarrow> link \<Rightarrow> link res" where
  "absolute32 value sign zero = passing internal_label (\<lambda>skip. steps [
     conditional_jump skip sign True 0, sub32 value zero value, bind_internal skip])"

definition divide_loop :: "nat \<Rightarrow> nat \<Rightarrow> nat \<Rightarrow> nat \<Rightarrow> link \<Rightarrow> link res" where
  "divide_loop zero one loop skip = steps ([define_here loop, emit 1 DIV_OVERFLOW (DIV_REM + 31)] @
     shift_up DIV_REM (DIV_NUM + 31) @ shift_up DIV_NUM zero @ shift_up DIV_QUO zero @
     [compare32 DIV_REM DIV_DEN,
      lookup DIV_REDUCE XOR_TABLE CMP_LTU one 0 2,
      lookup DIV_REDUCE OR_TABLE DIV_REDUCE DIV_OVERFLOW 0 2,
      conditional_jump skip DIV_REDUCE True 0,
      sub32 DIV_REM DIV_REM DIV_DEN, emit 1 DIV_QUO one, bind_internal skip,
      emit 1 DIV_STOP (DIV_MARK + 31)] @
     shift_up DIV_MARK zero @ [conditional_jump loop DIV_STOP True 0])"

text \<open>The sign of a signed result; the quotient of a division by zero keeps its sentinel.\<close>

definition divide_sign :: "nat \<Rightarrow> nat \<Rightarrow> bool \<Rightarrow> (link \<Rightarrow> link res) list" where
  "divide_sign zero one remainder =
     (if remainder then [emit 1 DIV_SIGN DIV_NUM_SIGN, absolute32 DIV_REM DIV_SIGN zero]
      else [lookup DIV_SIGN XOR_TABLE DIV_NUM_SIGN DIV_DEN_SIGN 0 2,
        compare32 DIV_DEN zero,
        lookup DIV_DEN_SIGN XOR_TABLE CMP_EQ one 0 2,
        lookup DIV_SIGN AND_TABLE DIV_SIGN DIV_DEN_SIGN 0 2,
        absolute32 DIV_QUO DIV_SIGN zero])"

definition divide32 :: "nat \<Rightarrow> nat \<Rightarrow> bool \<Rightarrow> bool \<Rightarrow> link \<Rightarrow> link res" where
  "divide32 destination source signed_operation remainder = at_state (\<lambda>(ctx, m).
     passing (link_constant 0) (\<lambda>zero. passing (link_constant 1) (\<lambda>one. steps ([
       emit 5 DIV_FLAGS CMP_EQ, emit 32 DIV_NUM destination, emit 32 DIV_DEN source,
       emit 1 DIV_NUM_SIGN (DIV_NUM + 31), emit 1 DIV_DEN_SIGN (DIV_DEN + 31)] @
       (if signed_operation then [absolute32 DIV_NUM DIV_NUM_SIGN zero, absolute32 DIV_DEN DIV_DEN_SIGN zero] else []) @
       [emit 32 DIV_REM zero, emit 32 DIV_QUO zero, emit 32 DIV_MARK one, next_layer,
        passing internal_label (\<lambda>loop. passing internal_label (\<lambda>skip. divide_loop zero one loop skip))] @
       (if signed_operation then divide_sign zero one remainder else []) @
       [emit 32 destination (if remainder then DIV_REM else DIV_QUO), emit 5 CMP_EQ DIV_FLAGS,
        set_compared (ct_compared ctx)]))))"

definition shift_source :: "bool \<Rightarrow> bool \<Rightarrow> nat \<Rightarrow> nat \<Rightarrow> nat" where
  "shift_source right arithmetic step k =
     (if right then if k + step < 32 then SHIFT_WORD + k + step else if arithmetic then SHIFT_WORD + 31 else SHIFT_ZERO
      else if k \<ge> step then SHIFT_WORD + k - step else SHIFT_ZERO)"

definition shift_bit :: "bool \<Rightarrow> bool \<Rightarrow> nat \<Rightarrow> nat \<Rightarrow> nat \<Rightarrow> link \<Rightarrow> link res" where
  "shift_bit right arithmetic destination stage k = steps [room_for 251,
     at_state (\<lambda>st. steps [emit 1 SHIFT_PAIR (SHIFT_WORD + k),
       emit 1 (SHIFT_PAIR + 1) (shift_source right arithmetic (2 ^ stage) k),
       emit 1 (source_field 3 st) (SHIFT_COUNT + stage),
       emit 1 (destination + k) SHIFT_PAIR])]"

definition shift32 :: "bool \<Rightarrow> bool \<Rightarrow> nat \<Rightarrow> nat \<Rightarrow> link \<Rightarrow> link res" where
  "shift32 right arithmetic destination count = steps (emit 5 SHIFT_COUNT count #
     concat (map (\<lambda>stage. emit 32 SHIFT_WORD destination # map (shift_bit right arithmetic destination stage) [0..<32]) [0..<5]))"

section \<open>Memory\<close>

text \<open>A leaf gets its data memory with the first access: the last 64 Kibit of the image.\<close>

definition leaf_memory :: "link \<Rightarrow> link res" where
  "leaf_memory = (\<lambda>(ctx, m).
     if ct_data_begin ctx \<noteq> 0 then Done (ctx, m)
     else let pr = ct_program ctx; space_bits = im_bytes (pr_image pr) * 8; data_begin = space_bits - 65536
          in if space_bits < 524288 \<or> space_bits AND 65535 \<noteq> 0
             then Fail ''memory requires an aligned image of at least 64 KiB''
             else if code_end pr > data_begin then Fail ''memory overlaps generated code''
             else or_fail ''label capacity exceeded'' (passing internal_label
               (\<lambda>i (ctx, m). Done (ctx\<lparr>ct_memory_fault := Some i\<rparr>, m))
               (ctx\<lparr>ct_data_begin := data_begin, ct_program := pr\<lparr>code_limit := data_begin\<rparr>\<rparr>, m)))"

text \<open>The address of the access in \<open>MEM_ADDRESS\<close>, checked against the size of the memory.\<close>

definition memory_check :: "nat \<Rightarrow> nat \<Rightarrow> u32 \<Rightarrow> link \<Rightarrow> link res" where
  "memory_check width base offset = at_state (\<lambda>(ctx, m). steps ([
     emit 32 MEM_ADDRESS base] @
     (if offset \<noteq> 0 then [passing (link_constant offset) (\<lambda>addend. add32 MEM_ADDRESS MEM_ADDRESS addend)] else []) @
     [passing (link_constant (of_nat (ct_memory_bytes ctx - width div 8))) (\<lambda>limit. steps [
       emit 5 MEM_FLAGS CMP_EQ, compare32 MEM_ADDRESS limit, emit 1 MEM_VALID CMP_LEU, emit 5 CMP_EQ MEM_FLAGS,
       (case ct_memory_fault ctx of None \<Rightarrow> (\<lambda>st. Undefined) | Some fault \<Rightarrow> conditional_jump fault MEM_VALID True 0)]),
     set_compared (ct_compared ctx)]))"

text \<open>The transfer itself: its address field is patched from \<open>MEM_BIT_ADDRESS\<close>.\<close>

definition memory_transfer :: "bool \<Rightarrow> nat \<Rightarrow> nat \<Rightarrow> link \<Rightarrow> link res" where
  "memory_transfer store width v = at_state (\<lambda>(ctx, m).
     let ab = im_address_bits (pr_image (ct_program ctx)); data = ct_data_begin ctx
     in steps ([
       put MEM_BIT_ADDRESS ab (of_nat data),
       emit (ct_memory_address_bits ctx) (MEM_BIT_ADDRESS + 3) MEM_ADDRESS] @
       (if \<not> store \<and> width < 32 then [passing (link_constant 0) (\<lambda>zero. emit (32 - width) (v + width) zero)] else []) @
       [room_for 253,
        at_state (\<lambda>st. steps [
          emit ab (if store then destination_field 1 st else source_field 1 st) MEM_BIT_ADDRESS,
          emit width (if store then data else v) (if store then v else data)])]))"

definition memory_access :: "bool \<Rightarrow> nat \<Rightarrow> nat \<Rightarrow> nat \<Rightarrow> u32 \<Rightarrow> link \<Rightarrow> link res" where
  "memory_access store width v base offset = steps [leaf_memory,
     (\<lambda>st. or_fail full (steps [memory_check width base offset, memory_transfer store width v] st))]"

text \<open>A reference to a symbol goes through its word in the symbol table.\<close>

definition symbol :: "string \<Rightarrow> link \<Rightarrow> (nat \<times> link) res" where
  "symbol name = (\<lambda>(ctx, m).
     case expression name ctx of
       (ctx, None) \<Rightarrow> Fail []
     | (ctx, Some (i, addend)) \<Rightarrow>
         (case index_of (\<lambda>s. sy_label s = i \<and> sy_addend s = addend) (ct_symbols ctx) of
            Some j \<Rightarrow> Done (SYMBOL_TABLE (ct_caps ctx) + 32 * j, ctx, m)
          | None \<Rightarrow>
              let j = length (ct_symbols ctx)
              in if j = symbol_capacity (ct_caps ctx) then Fail []
                 else Done (SYMBOL_TABLE (ct_caps ctx) + 32 * j,
                   ctx\<lparr>ct_symbols := ct_symbols ctx @ [\<lparr>sy_label = i, sy_addend = addend\<rparr>]\<rparr>, m)))"

text \<open>An address operand \<open>displacement(base)\<close>: the two parts, if it is well formed.\<close>

definition base_operand :: "string \<Rightarrow> (u32 \<times> nat) option" where
  "base_operand address =
     (let displacement = trim (takeWhile (\<lambda>c. c \<noteq> CHR ''('') address);
          inner = tl (dropWhile (\<lambda>c. c \<noteq> CHR ''('') address);
          base = takeWhile (\<lambda>c. c \<noteq> CHR '')'') inner;
          rest = dropWhile (\<lambda>c. c \<noteq> CHR '')'') inner
      in if rest = [] \<or> trim (tl rest) \<noteq> [] then None
         else do {
           offset \<leftarrow> (if displacement = [] then Some 0 else integer displacement);
           b \<leftarrow> reg (trim base);
           Some (offset, b)
         })"

definition memory :: "string \<Rightarrow> string \<Rightarrow> string \<Rightarrow> link \<Rightarrow> link res" where
  "memory operator left right = at_state (\<lambda>(ctx, m).
     let width = (if last operator = CHR ''b'' then 8 else if last operator = CHR ''s'' then 16 else 32);
         store = (operator ! 5 = CHR ''s'');
         address = (if store then left else right)
     in case reg (if store then right else left) of
          None \<Rightarrow> (\<lambda>st. Fail ''invalid memory value register'')
        | Some v \<Rightarrow>
            if CHR ''('' \<in> set address
            then case base_operand address of
                None \<Rightarrow> (\<lambda>st. Fail ''invalid memory address'')
              | Some (offset, base) \<Rightarrow> memory_access store width v base offset
            else passing (case integer address of
                  Some absolute \<Rightarrow> (\<lambda>st. or_fail ''constant capacity exceeded'' (link_constant absolute st))
                | None \<Rightarrow> (\<lambda>st. or_fail ''invalid absolute memory address''
                    (if ct_program_mode ctx then symbol address st else Fail [])))
              (\<lambda>base. memory_access store width v base 0))"

section \<open>Stack and calls\<close>

definition with_reg :: "string \<Rightarrow> string \<Rightarrow> (nat \<Rightarrow> link \<Rightarrow> 'a res) \<Rightarrow> link \<Rightarrow> 'a res" where
  "with_reg msg name k = (case reg name of None \<Rightarrow> (\<lambda>st. Fail msg) | Some address \<Rightarrow> k address)"

definition with_constant :: "u32 \<Rightarrow> string \<Rightarrow> (nat \<Rightarrow> link \<Rightarrow> 'a res) \<Rightarrow> link \<Rightarrow> 'a res" where
  "with_constant v msg k = passing (\<lambda>st. or_fail msg (link_constant v st)) k"

definition stack :: "bool \<Rightarrow> string \<Rightarrow> string \<Rightarrow> link \<Rightarrow> link res" where
  "stack push cursor operand =
     with_reg ''invalid stack register'' cursor (\<lambda>pointer.
     with_reg ''invalid stack register'' operand (\<lambda>v.
     with_constant 4 ''constant capacity exceeded'' (\<lambda>four.
       if push
       then steps [(\<lambda>st. or_fail full (steps [emit 32 STACK_VALUE v, sub32 pointer pointer four] st)),
         memory_access True 32 STACK_VALUE pointer 0]
       else steps [memory_access False 32 STACK_VALUE pointer 0,
         (\<lambda>st. or_fail full (steps [add32 pointer pointer four, emit 32 v STACK_VALUE] st))])))"

text \<open>A jump to the layer whose address a word of the image holds.\<close>

definition dynamic_jump :: "nat \<Rightarrow> link \<Rightarrow> link res" where
  "dynamic_jump address = at_state (\<lambda>st. steps [emit (im_address_bits (image_of st)) (jump_field st) address, next_layer])"

definition put_layer :: "nat \<Rightarrow> link \<Rightarrow> link res" where
  "put_layer at = at_state (\<lambda>st. put at 32 (of_nat (im_layer (image_of st))))"

definition call_count_up :: "link \<Rightarrow> link res" where
  "call_count_up = (\<lambda>(ctx, m). Done (ctx\<lparr>ct_call_count := ct_call_count ctx + 1\<rparr>, m))"

text \<open>The frame of a call: the caller's FP and the layer to continue with, then the jump.\<close>

definition call_frame :: "nat \<Rightarrow> (link \<Rightarrow> link res) \<Rightarrow> link \<Rightarrow> link res" where
  "call_frame continuation transfer st = or_fail full (steps [call_count_up,
     passing (link_constant 12) (\<lambda>twelve. sub32 (REG_BASE + 32) (REG_BASE + 32) twelve),
     memory_access True 32 REG_BASE (REG_BASE + 32) 0,
     memory_access True 32 continuation (REG_BASE + 32) 4,
     emit 32 REG_BASE (REG_BASE + 32),
     transfer,
     put_layer continuation] st)"

definition call :: "string \<Rightarrow> nat \<Rightarrow> bool \<Rightarrow> link \<Rightarrow> link res" where
  "call name line indirect = at_state (\<lambda>(ctx, m).
     let continuation = CALL_TABLE (ct_caps ctx) + 32 * ct_call_count ctx
     in if ct_call_count ctx = call_capacity (ct_caps ctx) then (\<lambda>st. Fail ''call capacity exceeded'')
        else if indirect
        then with_reg ''invalid indirect function register'' name (\<lambda>source. steps [
          (\<lambda>st. or_fail full (emit 32 CALL_TARGET source st)),
          call_frame continuation (dynamic_jump CALL_TARGET)])
        else passing (\<lambda>st. or_fail ''invalid function label'' (some_label name st)) (\<lambda>target.
          call_frame continuation (jump (int target) line)))"

definition return_frame :: "link \<Rightarrow> link res" where
  "return_frame = passing (link_constant 12) (\<lambda>twelve. steps [
     memory_access False 32 RETURN_FP REG_BASE 0,
     memory_access False 32 RETURN_PC REG_BASE 4,
     add32 (REG_BASE + 32) REG_BASE twelve,
     emit 32 REG_BASE RETURN_FP,
     dynamic_jump RETURN_PC])"

section \<open>One operation\<close>

definition memory_operations :: "string list" where
  "memory_operations =
     [''copy.ld.b'', ''copy.ld.s'', ''copy.ld.l'', ''copy.lda.b'', ''copy.lda.s'', ''copy.lda.l'',
      ''copy.ldo.b'', ''copy.ldo.s'', ''copy.ldo.l'', ''copy.st.b'', ''copy.st.s'', ''copy.st.l'',
      ''copy.sta.b'', ''copy.sta.s'', ''copy.sta.l'', ''copy.sto.b'', ''copy.sto.s'', ''copy.sto.l'']"

definition extend :: "nat \<Rightarrow> bool \<Rightarrow> nat \<Rightarrow> nat \<Rightarrow> link \<Rightarrow> link res" where
  "extend width signed_extension destination source = steps (emit width destination source #
     (if signed_extension
      then map (\<lambda>k. emit 1 (destination + k) (destination + width - 1)) [width..<32]
      else [passing (link_constant 0) (\<lambda>zero. emit (32 - width) (destination + width) zero)]))"

text \<open>The operations with an immediate operand.\<close>

definition immediate_operation :: "string \<Rightarrow> nat \<Rightarrow> string \<Rightarrow> link \<Rightarrow> link res" where
  "immediate_operation s destination argument =
     (case integer argument of
        None \<Rightarrow> at_state (\<lambda>(ctx, m). passing (\<lambda>st. or_fail ''invalid 32-bit integer or symbol''
              (if ct_program_mode ctx \<and> s = ''copy.ldi.l'' then symbol argument st else Fail []))
            (\<lambda>source st. or_fail full (emit 32 destination source st)))
      | Some v \<Rightarrow>
          let v = (if s = ''copy.ldi.b'' then v AND 255 else if s = ''copy.ldi.s'' then v AND 65535 else v)
          in with_constant v ''constant capacity exceeded'' (\<lambda>source st. or_fail full
            (if s = ''copy.inc'' then add32 destination destination source st
             else if s = ''copy.dec'' then sub32 destination destination source st
             else emit 32 destination source st)))"

definition register_operation :: "string \<Rightarrow> nat \<Rightarrow> nat \<Rightarrow> (link \<Rightarrow> link res) option" where
  "register_operation s destination source =
     (if s = ''copy.mov'' then Some (emit 32 destination source)
      else if s = ''copy.zex.b'' then Some (extend 8 False destination source)
      else if s = ''copy.zex.s'' then Some (extend 16 False destination source)
      else if s = ''copy.sex.b'' then Some (extend 8 True destination source)
      else if s = ''copy.sex.s'' then Some (extend 16 True destination source)
      else if s = ''copy.cmp'' then Some (compare32 destination source)
      else if s = ''copy.mul'' then Some (multiply32 destination source)
      else if s \<in> {''copy.udiv'', ''copy.umod'', ''copy.div'', ''copy.mod''}
      then Some (divide32 destination source (s = ''copy.div'' \<or> s = ''copy.mod'') (s = ''copy.mod'' \<or> s = ''copy.umod''))
      else if s = ''copy.add'' then Some (add32 destination destination source)
      else if s = ''copy.sub'' then Some (sub32 destination destination source)
      else if s = ''copy.and'' then Some (bits32 CS_COPY_AND destination destination source AND_TABLE)
      else if s = ''copy.or'' then Some (bits32 CS_COPY_OR destination destination source OR_TABLE)
      else if s = ''copy.xor'' then Some (bits32 CS_COPY_XOR destination destination source XOR_TABLE)
      else if s = ''copy.ashl'' then Some (shift32 False False destination source)
      else if s = ''copy.lshr'' then Some (shift32 True False destination source)
      else if s = ''copy.ashr'' then Some (shift32 True True destination source)
      else None)"

definition negate_operation :: "string \<Rightarrow> nat \<Rightarrow> nat \<Rightarrow> link \<Rightarrow> link res" where
  "negate_operation s destination source =
     (let invert = (s = ''copy.not'')
      in with_constant (if invert then - 1 else 0) ''constant capacity exceeded'' (\<lambda>immutable st. or_fail full
        (if invert then bits32 CS_COPY_XOR destination source immutable XOR_TABLE st
         else sub32 destination immutable source st)))"

definition link_instruction :: "string \<Rightarrow> link \<Rightarrow> link res" where
  "link_instruction text =
     (let s = takeWhile (\<lambda>c. \<not> whitespace c) text;
          operands = trim (dropWhile (\<lambda>c. \<not> whitespace c) text);
          first = trim (before_comma operands)
      in if s = ''copy.nop'' then (\<lambda>st. if operands = [] then Done st else Fail ''unexpected operand'')
         else case after_comma operands of
             None \<Rightarrow> (\<lambda>st. Fail ''two operands required'')
           | Some second \<Rightarrow>
               if s = ''copy.push'' \<or> s = ''copy.pop'' then stack (s = ''copy.push'') first (trim second)
               else if s \<in> set memory_operations then memory s first (trim second)
               else with_reg ''invalid destination register'' first (\<lambda>destination.
                 if s \<in> {''copy.ldi.l'', ''copy.ldi.b'', ''copy.ldi.s'', ''copy.inc'', ''copy.dec''}
                 then immediate_operation s destination (trim second)
                 else with_reg ''invalid source register'' (trim second) (\<lambda>source.
                   if s = ''copy.neg'' \<or> s = ''copy.not'' then negate_operation s destination source
                   else case register_operation s destination source of
                       None \<Rightarrow> (\<lambda>st. Fail ''unsupported operation'')
                     | Some f \<Rightarrow> (\<lambda>st. or_fail full (f st)))))"

end
