(* ===== verification/LinkImage.thy ===== *)
theory LinkImage
  imports LinkCode
begin

text \<open>
  runtime/gcc/copy_link.c, \<open>link_image\<close>: one assembly file becomes a finished image. The image
  buffer is the argument and the result; the error reports the physical line of the statement
  (0 before the first one) and a message. Null pointers have no counterpart, and the buffer
  for one statement is as long as \<open>statement_capacity\<close> says.
\<close>

section \<open>Outcomes\<close>

datatype 'a outcome = Crash | Error nat string | Value 'a

primrec chain :: "'a outcome \<Rightarrow> ('a \<Rightarrow> 'b outcome) \<Rightarrow> 'b outcome" where
  "chain Crash f = Crash"
| "chain (Error line msg) f = Error line msg"
| "chain (Value x) f = f x"

primrec at_line :: "nat \<Rightarrow> 'a res \<Rightarrow> 'a outcome" where
  "at_line line Undefined = Crash"
| "at_line line (Fail msg) = Error line msg"
| "at_line line (Done x) = Value x"

section \<open>One statement\<close>

text \<open>The flags of the pass over the file.\<close>

record pass =
  ps_line :: nat
  ps_entered :: bool
  ps_returned :: bool
  ps_terminated :: bool
  ps_trapped :: bool

text \<open>A label in a data section, and a label in front of code.\<close>

definition data_label :: "nat \<Rightarrow> link \<Rightarrow> link res" where
  "data_label i = (\<lambda>(ctx, m).
     if ct_section ctx \<noteq> 1 \<and> ct_section ctx \<noteq> 2 then Fail ''label outside text or data section''
     else if ct_active_section ctx \<ge> length (ct_sections ctx) then Undefined
     else Done (ctx\<lparr>ct_labels := modify i (\<lambda>l. l\<lparr>
       lb_address := of_nat (se_position (ct_sections ctx ! ct_active_section ctx)),
       lb_data := int (ct_active_section ctx) + 1, lb_defined := True\<rparr>) (ct_labels ctx)\<rparr>, m))"

definition code_label :: "nat \<Rightarrow> bool \<Rightarrow> link \<Rightarrow> link res" where
  "code_label i function_start = steps [
     at_state (\<lambda>st. if im_slot (image_of st) \<noteq> 3 then (\<lambda>st. or_fail full (next_layer st)) else Done),
     define_here i,
     (if function_start then set_compared False else Done)]"

definition label_statement :: "string \<Rightarrow> string \<Rightarrow> pass \<times> link \<Rightarrow> (pass \<times> link) res" where
  "label_statement entry_name s = (\<lambda>(ps, ctx, m).
     let numbered = (case decimal_label s of Some ([], number) \<Rightarrow> True | _ \<Rightarrow> False);
         local = has_prefix ''.L'' s
     in if \<not> ct_program_mode ctx \<and> (\<not> ps_entered ps \<and> s \<noteq> entry_name \<or> ps_entered ps \<and> \<not> numbered \<and> \<not> local)
        then Fail ''only one function and local labels are supported''
        else case (if numbered
            then (case ct_statement_offset ctx of None \<Rightarrow> (ctx, None) | Some offset \<Rightarrow> numeric_label offset ctx)
            else label s ctx) of
          (ctx, None) \<Rightarrow> Fail ''invalid or duplicate copy label''
        | (ctx, Some i) \<Rightarrow>
            if lb_defined (ct_labels ctx ! i) \<or> lb_alias (ct_labels ctx ! i)
            then Fail ''invalid or duplicate copy label''
            else if ct_program_mode ctx \<and> ct_section ctx \<noteq> 0
            then andthen (data_label i (ctx, m)) (\<lambda>st. Done (ps, st))
            else andthen (code_label i (ct_program_mode ctx \<and> \<not> numbered \<and> \<not> local) (ctx, m))
              (\<lambda>st. Done (ps\<lparr>ps_entered := True, ps_terminated := False\<rparr>, st)))"

definition directive_statement :: "string \<Rightarrow> pass \<times> link \<Rightarrow> (pass \<times> link) res" where
  "directive_statement s = (\<lambda>(ps, ctx, m).
     let message = ''unsupported section or directive'';
         fallback = (\<lambda>st. if metadata s then Done (ps, st) else Fail message)
     in if ct_program_mode ctx
        then andthen (or_fail message (data_directive s (ctx, m)))
          (\<lambda>(handled, st). if handled then Done (ps, st) else fallback st)
        else fallback (ctx, m))"

definition trap :: "nat \<Rightarrow> link \<Rightarrow> link res" where
  "trap line = (\<lambda>(ctx, m).
     case ct_memory_fault ctx of
       Some fault \<Rightarrow> jump (int fault) line (ctx, m)
     | None \<Rightarrow> passing internal_label (\<lambda>fault (ctx, m).
         jump (int fault) line (ctx\<lparr>ct_memory_fault := Some fault\<rparr>, m)) (ctx, m))"

definition return_jump :: "nat \<Rightarrow> link \<Rightarrow> link res" where
  "return_jump line = (\<lambda>(ctx, m).
     if ct_program_mode ctx
     then (case ct_return_handler ctx of None \<Rightarrow> Undefined | Some handler \<Rightarrow> jump (int handler) line (ctx, m))
     else jump (-2) line (ctx, m))"

definition operation_statement :: "string \<Rightarrow> pass \<times> link \<Rightarrow> (pass \<times> link) res" where
  "operation_statement s = (\<lambda>(ps, ctx, m).
     let line = ps_line ps; program = ct_program_mode ctx; st = (ctx, m);
         continue = (\<lambda>r. andthen r (\<lambda>st. Done (ps, st)));
         terminate = (\<lambda>r. andthen r (\<lambda>st. Done (ps\<lparr>ps_terminated := True\<rparr>, st)))
     in if \<not> ps_entered ps \<or> ps_terminated ps \<or> program \<and> ct_section ctx \<noteq> 0
        then Fail ''operation outside leaf body''
        else if s = ''copy.trap''
        then andthen (or_fail full (trap line st)) (\<lambda>st. Done (ps\<lparr>ps_trapped := True, ps_terminated := True\<rparr>, st))
        else if s = ''copy.ret''
        then andthen (or_fail full (return_jump line st)) (\<lambda>st. Done (ps\<lparr>ps_returned := True, ps_terminated := True\<rparr>, st))
        else if program \<and> operator_is s ''copy.jsra'' then continue (call (trim (drop 9 s)) line False st)
        else if program \<and> operator_is s ''copy.jsr'' then continue (call (trim (drop 8 s)) line True st)
        else if program \<and> operator_is s ''copy.jmp''
        then terminate (with_reg ''invalid indirect jump register'' (trim (drop 8 s))
          (\<lambda>source st. or_fail full (dynamic_jump source st)) st)
        else if has_prefix ''copy.branch.'' s then continue (branch s line st)
        else if operator_is s ''copy.jmpa''
        then terminate (passing (\<lambda>st. or_fail ''invalid copy jump label'' (some_label (trim (drop 9 s)) st))
          (\<lambda>i st. or_fail full (jump (int i) line st)) st)
        else continue (link_instruction s st))"

definition statement :: "string \<Rightarrow> string \<Rightarrow> pass \<times> link \<Rightarrow> (pass \<times> link) res" where
  "statement entry_name text st =
     (let s = trim (strip_comment (trim text))
      in if s = [] then Done st
         else if last s = CHR '':'' then label_statement entry_name (trim (butlast s)) st
         else if hd s = CHR ''.'' then directive_statement s st
         else operation_statement s st)"

section \<open>The pass over the file\<close>

function read_statements ::
  "string \<Rightarrow> string \<Rightarrow> nat \<Rightarrow> nat \<Rightarrow> pass \<times> link \<Rightarrow> (pass \<times> link) outcome" where
  "read_statements assembly entry_name offset physical_line st =
     (if offset < length assembly
      then let (stop, nxt) = statement_end assembly offset;
               (ps, ctx, m) = st;
               here = (ps\<lparr>ps_line := physical_line\<rparr>, ctx\<lparr>ct_statement_offset := Some offset\<rparr>, m);
               newlines = length (filter (\<lambda>c. c = nl) (text_between assembly offset nxt))
           in chain (at_line physical_line (statement entry_name (text_between assembly offset stop) here))
                (read_statements assembly entry_name nxt (physical_line + newlines))
      else Value st)"
  by pat_completeness auto

termination
  by (relation "measure (\<lambda>(assembly, entry_name, offset, line, st). length assembly - offset)")
    (auto dest: statement_end_bounds(4) [OF sym])

declare read_statements.simps [simp del]

section \<open>Before the first statement\<close>

fun log2 :: "nat \<Rightarrow> nat" where
  "log2 n = (if n \<le> 1 then 0 else log2 (n div 2) + 1)"

declare log2.simps [simp del]

definition new_context :: "capacities \<Rightarrow> cs_copy_program \<Rightarrow> string \<Rightarrow> bool \<Rightarrow> nat \<Rightarrow> link_context" where
  "new_context caps program assembly program_mode memory_bytes =
     \<lparr>ct_caps = caps, ct_program = program, ct_constants = [], ct_labels = [], ct_jumps = [],
      ct_compared = False, ct_data_begin = 0, ct_memory_bytes = memory_bytes,
      ct_memory_address_bits = log2 memory_bytes, ct_memory_fault = None, ct_return_handler = None,
      ct_call_count = 0, ct_symbols = [], ct_program_mode = program_mode, ct_section = 0,
      ct_sections = [], ct_active_section = 0, ct_previous_section = 0, ct_previous_valid = False,
      ct_section_stack = [], ct_fragments = [], ct_data_cursor = 256, ct_relocations = [], ct_aliases = [],
      ct_assembly = assembly, ct_statement_offset = None\<rparr>"

definition initial_words :: "nat \<Rightarrow> u32 list \<Rightarrow> (link \<Rightarrow> link res) list" where
  "initial_words memory_bytes arguments =
     [put EQ_TABLE 8 144, put LT_TABLE 8 212, put XOR_TABLE 4 6, put AND_TABLE 4 8, put OR_TABLE 4 14,
      put REG_BASE 32 (of_nat memory_bytes), put (REG_BASE + 32) 32 (of_nat memory_bytes)] @
     map (\<lambda>i. put (REG_BASE + 32 * (i + 2)) 32 (arguments ! i)) [0..<length arguments]"

text \<open>The data memory of a program, its entry, and the two handlers; the result is the label of the entry.\<close>

definition program_setup :: "nat \<Rightarrow> string \<Rightarrow> link \<Rightarrow> (nat \<times> link) res" where
  "program_setup bytes entry_name = (\<lambda>(ctx, m).
     let memory_bytes = ct_memory_bytes ctx; data_begin = (bytes - memory_bytes) * 8
     in if bytes < 262144 \<or> bytes * 8 AND 65535 \<noteq> 0 then Fail ''invalid data/stack memory size''
        else or_fail ''memory requires an aligned image with room for code''
          (if memory_bytes \<ge> bytes \<or> bytes AND (memory_bytes - 1) \<noteq> 0 \<or> bytes - memory_bytes < 8192 then Fail []
           else andthen (select_section ''.text'' 0 (ctx\<lparr>ct_data_begin := data_begin,
                 ct_program := (ct_program ctx)\<lparr>code_limit := data_begin\<rparr>\<rparr>, m))
             (passing (some_label entry_name) (\<lambda>entry_label.
              passing internal_label (\<lambda>handler.
              passing internal_label (\<lambda>fault (ctx, m).
                andthen (steps [
                  put REG_BASE 32 (of_nat (memory_bytes - 36)),
                  put (REG_BASE + 32) 32 (of_nat (memory_bytes - 36)),
                  jump (int entry_label) 0]
                  (ctx\<lparr>ct_return_handler := Some handler, ct_memory_fault := Some fault\<rparr>, m))
                (\<lambda>st. Done (entry_label, st))))))))"

section \<open>After the last statement\<close>

text \<open>The layer that a memory fault jumps to: its own jump loads the zero layer.\<close>

definition stop_row :: "nat \<Rightarrow> link \<Rightarrow> link res" where
  "stop_row fault = (\<lambda>(ctx, m).
     let image = (pr_image (ct_program ctx))\<lparr>im_layer := fault\<rparr>
     in case cs_copy_row image 255 (im_layer_bits image) 0 ZERO_LAYER m of
          None \<Rightarrow> Undefined | Some (m, rc) \<Rightarrow> if rc = 0 then Done (ctx, m) else Fail [])"

definition fault_handler :: "link \<Rightarrow> link res" where
  "fault_handler = (\<lambda>(ctx, m).
     case ct_memory_fault ctx of
       None \<Rightarrow> Done (ctx, m)
     | Some fault \<Rightarrow> steps [jump (-2) 0, bind_internal fault,
         at_state (\<lambda>st. let layer = im_layer (image_of st) in steps [next_layer, stop_row layer])] (ctx, m))"

definition return_code :: "link \<Rightarrow> link res" where
  "return_code = (\<lambda>(ctx, m).
     if \<not> ct_program_mode ctx then Done (ctx, m)
     else case ct_return_handler ctx of
         None \<Rightarrow> Undefined
       | Some handler \<Rightarrow> steps [bind_internal handler, return_frame] (ctx, m))"

definition resolve_symbol :: "nat \<Rightarrow> link \<Rightarrow> link res" where
  "resolve_symbol i = (\<lambda>(ctx, m).
     let s = ct_symbols ctx ! i; l = ct_labels ctx ! sy_label s
     in or_fail ''undefined copy symbol''
          (if \<not> lb_defined l then Fail []
           else put (SYMBOL_TABLE (ct_caps ctx) + 32 * i) 32 (lb_address l + sy_addend s) (ctx, m)))"

definition relocation_value :: "label_entry list \<Rightarrow> relocation \<Rightarrow> u64" where
  "relocation_value labels r =
     (let address = lb_address (labels ! rl_label r)
      in case rl_subtract r of
           None \<Rightarrow> ucast (address + ucast (rl_addend r))
         | Some j \<Rightarrow> ucast address - ucast (lb_address (labels ! j)) + rl_addend r)"

definition resolve_relocation :: "relocation \<Rightarrow> link \<Rightarrow> link res" where
  "resolve_relocation r = (\<lambda>(ctx, m).
     let labels = ct_labels ctx; v = relocation_value labels r
     in or_fail ''undefined data initializer symbol''
          (if \<not> lb_defined (labels ! rl_label r) \<or>
              (case rl_subtract r of None \<Rightarrow> False | Some j \<Rightarrow> \<not> lb_defined (labels ! j)) then Fail []
           else steps (put (rl_destination r) 32 (ucast v) #
             (if rl_bytes r = 8 then [put (rl_destination r + 32) 32 (ucast (drop_bit 32 v))] else [])) (ctx, m)))"

definition resolve_words :: "link \<Rightarrow> link res" where
  "resolve_words = at_state (\<lambda>(ctx, m). steps
     (map resolve_symbol [0..<length (ct_symbols ctx)] @ map resolve_relocation (ct_relocations ctx)))"

text \<open>The message that is still set when the frame of the synthetic caller is written.\<close>

definition late_message :: "link_context \<Rightarrow> string" where
  "late_message ctx =
     (if ct_relocations ctx \<noteq> [] then ''undefined data initializer symbol''
      else if ct_symbols ctx \<noteq> [] then ''undefined copy symbol'' else full)"

definition data_image :: "nat \<Rightarrow> link \<Rightarrow> link res" where
  "data_image report = (\<lambda>(ctx, m).
     if \<not> ct_program_mode ctx then Done (ctx, m)
     else or_fail (late_message ctx) (steps [pack_data,
       put (ct_data_begin ctx + (ct_memory_bytes ctx - 36) * 8) 32 (of_nat (ct_memory_bytes ctx)),
       put (ct_data_begin ctx + (ct_memory_bytes ctx - 32) * 8) 32 (of_nat report)] (ctx, m)))"

definition jump_target :: "nat \<Rightarrow> link_context \<Rightarrow> jump_entry \<Rightarrow> u32 option" where
  "jump_target report ctx j =
     (if jp_label j = -2 then Some (of_nat report)
      else if jp_label j < 0 then None
      else let l = ct_labels ctx ! nat (jp_label j)
           in if lb_missing_weak l
              then map_option (\<lambda>fault. lb_address (ct_labels ctx ! fault)) (ct_memory_fault ctx)
              else Some (lb_address l))"

definition resolve_jump :: "nat \<Rightarrow> nat \<Rightarrow> jump_entry \<Rightarrow> link \<Rightarrow> link outcome" where
  "resolve_jump line report j = (\<lambda>(ctx, m).
     let l = ct_labels ctx ! nat (jp_label j)
     in if 0 \<le> jp_label j \<and> (\<not> lb_defined l \<or> lb_data l \<noteq> 0 \<and> \<not> lb_missing_weak l)
        then Error (jp_line j) ''undefined or non-code jump label''
        else case jump_target report ctx j of
            None \<Rightarrow> Crash
          | Some target \<Rightarrow>
              let fallthrough = of_nat (jp_fallthrough j)
              in if jp_table j \<noteq> 0
                 then at_line line (or_fail ''invalid conditional copy jump table'' (steps
                   [put (jp_table j) 32 (if jp_inverted j then target else fallthrough),
                    put (jp_table j + 32) 32 (if jp_inverted j then fallthrough else target)] (ctx, m)))
                 else at_line line (or_fail ''invalid copy jump target''
                   (emitting (cs_copy_program_patch_jump (jp_layer j) (unat target)) (ctx, m))))"

primrec resolve_jumps :: "nat \<Rightarrow> nat \<Rightarrow> jump_entry list \<Rightarrow> link \<Rightarrow> link outcome" where
  "resolve_jumps line report [] st = Value st"
| "resolve_jumps line report (j # js) st = chain (resolve_jump line report j st) (resolve_jumps line report js)"

text \<open>
  The code that reports register 0: its bits are copied to the output bytes, most significant
  bit first, and slot 2 of the last layer asks the output channel to send them.
\<close>

definition output_row :: "link \<Rightarrow> link res" where
  "output_row = (\<lambda>(ctx, m).
     case cs_copy_row (pr_image (ct_program ctx)) 2 32 OUTPUT STATUS m of
       None \<Rightarrow> Undefined | Some (m, rc) \<Rightarrow> if rc = 0 then Done (ctx, m) else Fail [])"

definition report_code :: "link \<Rightarrow> link res" where
  "report_code = at_state (\<lambda>(ctx, m) st. or_fail full (steps (
     (if ct_program_mode ctx then [emit 32 (REG_BASE + 32) REG_BASE] else []) @
     map (\<lambda>i. emit 1 (OUTPUT + i div 8 * 8 + 7 - i mod 8) (REG_BASE + 64 + i)) [0..<32] @
     [next_layer, output_row, emitting (cs_copy_program_finish ZERO_LAYER)]) st))"

section \<open>Linking one file\<close>

definition input_valid :: "nat \<Rightarrow> string \<Rightarrow> string \<Rightarrow> u32 list \<Rightarrow> bool" where
  "input_valid bytes assembly entry_name arguments \<longleftrightarrow>
     32768 \<le> bytes \<and> bytes \<le> uint32_max div 8 \<and> entry_name \<noteq> [] \<and> length arguments \<le> 6 \<and> CHR 0x00 \<notin> set assembly"

text \<open>The image and the context before the file is read, with the label of the entry.\<close>

definition link_start ::
  "capacities \<Rightarrow> mem \<Rightarrow> nat \<Rightarrow> string \<Rightarrow> string \<Rightarrow> u32 list \<Rightarrow> bool \<Rightarrow> nat \<Rightarrow> (nat \<times> link) res" where
  "link_start caps data address_bits assembly entry_name arguments program_mode memory_bytes =
     (let bytes = length data; message = ''invalid data/stack memory size''
      in if \<not> input_valid bytes assembly entry_name arguments then Fail ''invalid link input''
         else if memory_bytes < 8192 \<or> memory_bytes AND (memory_bytes - 1) \<noteq> 0 then Fail message
         else case cs_copy_program_init bytes address_bits (CODE_BEGIN caps) (bytes * 8) (replicate bytes 0) of
             None \<Rightarrow> Undefined
           | Some (m, None) \<Rightarrow> Fail message
           | Some (m, Some program) \<Rightarrow>
               andthen (or_fail message (steps (initial_words memory_bytes arguments)
                   (new_context caps program assembly program_mode memory_bytes, m)))
                 (\<lambda>st. if program_mode then program_setup bytes entry_name st else Done (0, st)))"

definition entry_ready :: "nat \<Rightarrow> link \<Rightarrow> link res" where
  "entry_ready entry_label = (\<lambda>(ctx, m).
     let l = ct_labels ctx ! entry_label
     in if ct_program_mode ctx \<and> (\<not> lb_defined l \<or> lb_data l \<noteq> 0) then Fail [] else Done (ctx, m))"

definition layout_program :: "link \<Rightarrow> link res" where
  "layout_program = (\<lambda>(ctx, m).
     if \<not> ct_program_mode ctx then Done (ctx, m)
     else if ct_section_stack ctx \<noteq> [] then Fail [] else layout_data (ctx, m))"

text \<open>Everything after the last statement: layout, handlers, tables, jumps and the report.\<close>

definition link_tail :: "nat \<Rightarrow> nat \<Rightarrow> link \<Rightarrow> link outcome" where
  "link_tail line entry_label st =
     chain (at_line line (or_fail ''invalid section layout or unresolved alias''
         (steps [layout_program, entry_ready entry_label] st))) (\<lambda>st.
     chain (at_line line (or_fail full (steps [return_code, fault_handler, next_layer] st))) (\<lambda>st.
     let report = im_layer (image_of st)
     in chain (at_line line (steps [resolve_words, data_image report] st)) (\<lambda>st.
        chain (resolve_jumps line report (ct_jumps (fst st)) st) (\<lambda>st.
        at_line line (report_code st)))))"

definition link_image ::
  "capacities \<Rightarrow> mem \<Rightarrow> nat \<Rightarrow> string \<Rightarrow> string \<Rightarrow> u32 list \<Rightarrow> bool \<Rightarrow> nat \<Rightarrow> mem outcome" where
  "link_image caps data address_bits assembly entry_name arguments program_mode memory_bytes =
     chain (at_line 0 (link_start caps data address_bits assembly entry_name arguments program_mode memory_bytes))
       (\<lambda>(entry_label, st).
     let ps = \<lparr>ps_line = 0, ps_entered = False, ps_returned = False, ps_terminated = False, ps_trapped = False\<rparr>
     in chain (read_statements assembly entry_name 0 1 (ps, st)) (\<lambda>(ps, st).
        if \<not> ps_entered ps \<or> \<not> ps_returned ps \<and> \<not> ps_trapped ps
        then Error (ps_line ps) ''missing leaf entry or return''
        else chain (link_tail (ps_line ps) entry_label st) (\<lambda>(ctx, m). Value m)))"

definition cs_copy_link_leaf ::
  "capacities \<Rightarrow> mem \<Rightarrow> nat \<Rightarrow> string \<Rightarrow> string \<Rightarrow> u32 list \<Rightarrow> mem outcome" where
  "cs_copy_link_leaf caps data address_bits assembly entry_name arguments =
     link_image caps data address_bits assembly entry_name arguments False 8192"

definition cs_copy_link_program_memory ::
  "capacities \<Rightarrow> mem \<Rightarrow> nat \<Rightarrow> nat \<Rightarrow> string \<Rightarrow> string \<Rightarrow> u32 list \<Rightarrow> mem outcome" where
  "cs_copy_link_program_memory caps data address_bits memory_bytes assembly entry_name arguments =
     link_image caps data address_bits assembly entry_name arguments True memory_bytes"

definition cs_copy_link_program ::
  "capacities \<Rightarrow> mem \<Rightarrow> nat \<Rightarrow> string \<Rightarrow> string \<Rightarrow> u32 list \<Rightarrow> mem outcome" where
  "cs_copy_link_program caps data address_bits assembly entry_name arguments =
     cs_copy_link_program_memory caps data address_bits 8192 assembly entry_name arguments"

end
