(* ===== verification/LinkObjects.thy ===== *)
theory LinkObjects
  imports LinkImage
begin

text \<open>
  runtime/gcc/copy_link.c, linking several assembly files: the names each file defines and
  refers to (\<open>object_scan\<close>), the choice among global definitions (\<open>object_winner\<close>), the renaming
  of local names (\<open>object_rewrite\<close>), and the text that \<open>link_image\<close> finally reads. An array
  \<open>struct object_names\<close> is the list of its used entries. The buffers of the C code have no
  counterpart: a text is written once, and its length is compared with the capacity that the
  counting pass compares. \<open>size_max\<close> is \<open>SIZE_MAX\<close> of the platform.
\<close>

section \<open>Names of one file\<close>

record object_symbol =
  os_name :: string
  os_defined :: bool
  os_external :: bool
  os_local :: bool
  os_common :: bool
  os_strong :: bool
  os_weak :: bool
  os_referenced :: bool
  os_common_size :: u32
  os_common_alignment :: u32

type_synonym object_names = "object_symbol list"

definition new_symbol :: "string \<Rightarrow> object_symbol" where
  "new_symbol name = \<lparr>os_name = name, os_defined = False, os_external = False, os_local = False, os_common = False,
     os_strong = False, os_weak = False, os_referenced = False, os_common_size = 0, os_common_alignment = 0\<rparr>"

definition object_name :: "nat \<Rightarrow> string \<Rightarrow> bool \<Rightarrow> object_names \<Rightarrow> object_names \<times> nat option" where
  "object_name capacity s create names =
     (if \<not> valid_name s then (names, None)
      else case index_of (\<lambda>e. os_name e = s) names of
          Some i \<Rightarrow> (names, Some i)
        | None \<Rightarrow> if \<not> create \<or> length names = capacity then (names, None)
                  else (names @ [new_symbol s], Some (length names)))"

text \<open>A name that is created when it is new, and then changed.\<close>

definition update_name :: "nat \<Rightarrow> string \<Rightarrow> (object_symbol \<Rightarrow> object_symbol) \<Rightarrow> object_names \<Rightarrow> object_names option" where
  "update_name capacity s f names =
     (case object_name capacity s True names of (names, None) \<Rightarrow> None | (names, Some i) \<Rightarrow> Some (modify i f names))"

text \<open>\<open>object_line\<close>: the text of a statement without its comment, and the begin of the next one.\<close>

definition object_line :: "string \<Rightarrow> nat \<Rightarrow> string \<times> nat" where
  "object_line assembly offset =
     (case statement_end assembly offset of (stop, nxt) \<Rightarrow> (strip_comment (text_between assembly offset stop), nxt))"

text \<open>The operator of a statement and what follows the blank behind it.\<close>

definition operator_of :: "string \<Rightarrow> string" where
  "operator_of s = takeWhile (\<lambda>c. \<not> whitespace c) s"

definition arguments_of :: "string \<Rightarrow> string" where
  "arguments_of s = tl (dropWhile (\<lambda>c. \<not> whitespace c) s)"

text \<open>Every loop over a file: its statements in order, each with its offset.\<close>

function object_statements :: "string \<Rightarrow> nat \<Rightarrow> (nat \<times> string) list" where
  "object_statements assembly offset =
     (if offset < length assembly
      then let (s, nxt) = object_line assembly offset in (offset, s) # object_statements assembly nxt else [])"
  by pat_completeness auto

termination
  by (relation "measure (\<lambda>(assembly, offset). length assembly - offset)")
    (auto simp: object_line_def split: prod.splits dest: statement_end_bounds(4))

declare object_statements.simps [simp del]

primrec each :: "('a \<Rightarrow> 's \<Rightarrow> 's option) \<Rightarrow> 'a list \<Rightarrow> 's \<Rightarrow> 's option" where
  "each f [] s = Some s"
| "each f (x # xs) s = (case f x s of None \<Rightarrow> None | Some s \<Rightarrow> each f xs s)"

lemma each_append: "each f (xs @ ys) s = Option.bind (each f xs s) (each f ys)"
  by (induction xs arbitrary: s) (simp_all split: option.splits)

section \<open>References\<close>

text \<open>
  The names in the arguments of a statement. \<open>symbolic\<close> tells, from the position of a name and
  whether it stands outside parentheses, if a register name there is a symbol; \<open>inside\<close> is true
  when the previous character belongs to a name.
\<close>

function scan_references ::
  "nat \<Rightarrow> (nat \<Rightarrow> bool \<Rightarrow> bool) \<Rightarrow> bool \<Rightarrow> bool \<Rightarrow> int \<Rightarrow> nat \<Rightarrow> string \<Rightarrow> object_names \<Rightarrow> object_names option" where
  "scan_references capacity symbolic inside quoted parentheses at [] names = (if quoted then None else Some names)"
| "scan_references capacity symbolic inside quoted parentheses at (c # cs) names =
     (let quoted = (if c = CHR 0x22 then \<not> quoted else quoted)
      in if quoted \<and> c = CHR 0x5C \<and> cs \<noteq> []
         then scan_references capacity symbolic (name_char (hd cs)) quoted parentheses (at + 2) (tl cs) names
         else if \<not> quoted \<and> name_start c \<and> \<not> inside
         then let name = c # takeWhile name_char cs; rest = dropWhile name_char cs
              in if length name \<ge> 64 then None
                 else if name \<noteq> ''.'' \<and> (symbolic at (parentheses = 0) \<or> reg name = None)
                 then case update_name capacity name (\<lambda>e. e\<lparr>os_referenced := True\<rparr>) names of
                        None \<Rightarrow> None
                      | Some names \<Rightarrow> scan_references capacity symbolic True quoted parentheses (at + length name) rest names
                 else scan_references capacity symbolic True quoted parentheses (at + length name) rest names
         else scan_references capacity symbolic (name_char c) quoted
                (parentheses + (if quoted then 0 else if c = CHR ''('' then 1 else if c = CHR '')'' then - 1 else 0))
                (at + 1) cs names)"
  by pat_completeness auto

termination
  by (relation "measure (\<lambda>(capacity, symbolic, inside, quoted, parentheses, at, s, names). length s)")
    (auto simp: less_Suc_eq_le length_dropWhile_le)

definition data_operators :: "string list" where
  "data_operators = [''.byte'', ''.short'', ''.2byte'', ''.long'', ''.word'', ''.4byte'', ''.quad'', ''.8byte'']"

definition symbolic_at :: "string \<Rightarrow> string \<Rightarrow> nat \<Rightarrow> bool \<Rightarrow> bool" where
  "symbolic_at s arguments at outside =
     (let data = (hd s = CHR ''.'');
          direct = (s = ''copy.jsra'' \<or> s = ''copy.jmpa'' \<or> has_prefix ''copy.branch.'' s);
          memory = (has_prefix ''copy.ld'' s \<or> has_prefix ''copy.st'' s);
          comma = CHR '','' \<in> set arguments;
          position = length (before_comma arguments)
      in data \<or> direct \<or> s = ''copy.ldi.l'' \<and> comma \<and> at > position \<or>
         memory \<and> comma \<and> outside \<and> (if s ! 5 = CHR ''s'' then at < position else at > position))"

definition statement_references :: "nat \<Rightarrow> nat \<times> string \<Rightarrow> object_names \<Rightarrow> object_names option" where
  "statement_references capacity = (\<lambda>(offset, text) names.
     let statement = trim text
     in if statement = [] \<or> last statement = CHR '':'' then Some names
        else let s = operator_of statement; arguments = arguments_of statement;
                 scan = (\<lambda>arguments. scan_references capacity (symbolic_at s arguments) False False 0 0 arguments names)
             in if s = ''.set'' \<or> s = ''.equ''
                then (case after_comma arguments of None \<Rightarrow> None | Some arguments \<Rightarrow> scan arguments)
                else if s \<noteq> [] \<and> hd s = CHR ''.'' \<and> s \<notin> set data_operators then Some names
                else scan arguments)"

definition object_references :: "nat \<Rightarrow> string \<Rightarrow> object_names \<Rightarrow> object_names option" where
  "object_references capacity assembly names = each (statement_references capacity) (object_statements assembly 0) names"

section \<open>Definitions and bindings\<close>

text \<open>The size and the alignment of a common symbol, from the text behind its name.\<close>

definition common_amounts :: "string \<Rightarrow> (u32 \<times> u32) option" where
  "common_amounts amounts =
     (let amount = trim (before_comma amounts)
      in if CHR ''-'' \<in> set amount then None
         else case integer amount of
             None \<Rightarrow> None
           | Some bytes \<Rightarrow>
               (case (case after_comma amounts of
                   None \<Rightarrow> Some 4
                 | Some alignment \<Rightarrow> if CHR ''-'' \<in> set (trim alignment) then None else integer (trim alignment)) of
                  None \<Rightarrow> None
                | Some align \<Rightarrow> if align = 0 \<or> align AND (align - 1) \<noteq> 0 then None else Some (bytes, align)))"

definition with_common :: "u32 \<Rightarrow> u32 \<Rightarrow> object_symbol \<Rightarrow> object_symbol" where
  "with_common bytes align e =
     e\<lparr>os_common_size := (if os_common_size e = 0 then bytes else os_common_size e),
       os_common_alignment := (if align > os_common_alignment e then align else os_common_alignment e)\<rparr>"

text \<open>\<open>.comm\<close>, \<open>.set\<close> and \<open>.equ\<close> define the name before their first comma.\<close>

definition define_name :: "nat \<Rightarrow> bool \<Rightarrow> string \<Rightarrow> object_names \<Rightarrow> object_names option" where
  "define_name capacity is_common arguments names =
     (case after_comma arguments of
        None \<Rightarrow> None
      | Some amounts \<Rightarrow>
          let bind = (\<lambda>e. e\<lparr>os_defined := True, os_common := os_common e \<or> is_common, os_strong := os_strong e \<or> \<not> is_common\<rparr>);
              name = trim (before_comma arguments)
          in if is_common
             then case common_amounts amounts of
                    None \<Rightarrow> None
                  | Some (bytes, align) \<Rightarrow> update_name capacity name (with_common bytes align \<circ> bind) names
             else update_name capacity name bind names)"

definition bind_name :: "nat \<Rightarrow> bool \<Rightarrow> bool \<Rightarrow> bool \<Rightarrow> string \<Rightarrow> object_names \<Rightarrow> object_names option" where
  "bind_name capacity external weak local name =
     update_name capacity (trim name) (\<lambda>e. e\<lparr>os_external := os_external e \<or> external, os_weak := os_weak e \<or> weak,
       os_local := os_local e \<or> local\<rparr>)"

definition directive_names :: "nat \<Rightarrow> string \<Rightarrow> string \<Rightarrow> object_names \<Rightarrow> object_names option" where
  "directive_names capacity s arguments names =
     (if s = ''.comm'' \<or> s = ''.set'' \<or> s = ''.equ'' then define_name capacity (s = ''.comm'') arguments names
      else if s \<in> {''.weak'', ''.global'', ''.globl'', ''.local''}
      then each (bind_name capacity (s \<noteq> ''.local'') (s = ''.weak'') (s = ''.local'')) (split_commas arguments) names
      else Some names)"

text \<open>One statement; the state is the depth of \<open>.pushsection\<close> and the names.\<close>

definition statement_names :: "nat \<Rightarrow> nat \<times> string \<Rightarrow> nat \<times> object_names \<Rightarrow> (nat \<times> object_names) option" where
  "statement_names capacity = (\<lambda>(offset, text) (depth, names).
     let statement = trim text
     in if statement = [] then Some (depth, names)
        else if last statement = CHR '':''
        then let s = trim (butlast statement)
             in if (case decimal_label s of Some ([], number) \<Rightarrow> True | _ \<Rightarrow> False) then Some (depth, names)
                else map_option (Pair depth) (update_name capacity s (\<lambda>e. e\<lparr>os_defined := True, os_strong := True\<rparr>) names)
        else let s = operator_of statement
             in if s = ''.weakref'' \<or> s = ''.pushsection'' \<and> depth \<ge> 16 \<or> s = ''.popsection'' \<and> depth = 0 then None
                else let depth = (if s = ''.pushsection'' then depth + 1 else if s = ''.popsection'' then depth - 1 else depth)
                     in map_option (Pair depth) (directive_names capacity s (trim (arguments_of statement)) names))"

text \<open>The checks and the implied bindings after the last statement.\<close>

definition settle_name :: "object_symbol \<Rightarrow> object_symbol option" where
  "settle_name e =
     (if os_local e \<and> os_external e \<or> os_common e \<and> os_strong e \<or> os_common e \<and> os_weak e then None
      else let external = (os_external e \<or> os_common e \<and> \<not> os_local e \<or> os_referenced e \<and> \<not> os_defined e \<and> \<not> os_local e)
           in if (os_defined e \<or> os_local e) \<and> \<not> external \<and> length (os_name e) + 7 \<ge> 64 then None
              else Some (e\<lparr>os_external := external\<rparr>))"

definition settle_names :: "object_names \<Rightarrow> object_names option" where
  "settle_names names = those (map settle_name names)"

definition object_scan :: "nat \<Rightarrow> string \<Rightarrow> object_names option" where
  "object_scan capacity assembly =
     (case each (statement_names capacity) (object_statements assembly 0) (0, []) of
        None \<Rightarrow> None
      | Some (depth, names) \<Rightarrow>
          if depth \<noteq> 0 then None
          else case object_references capacity assembly names of None \<Rightarrow> None | Some names \<Rightarrow> settle_names names)"

section \<open>Resolution among the files\<close>

text \<open>The priority of an entry: a definition before a common symbol before a weak definition.\<close>

definition priority :: "object_symbol \<Rightarrow> nat" where
  "priority e = (if os_strong e then if os_weak e then 1 else 3 else if os_common e then 2 else 0)"

text \<open>
  The unit with the entry of the highest priority for a global name, its rank, and whether some
  unit refers to the name strongly; \<open>None\<close> for a second strong definition.
\<close>

definition winner_entry :: "string \<Rightarrow> nat \<times> object_symbol \<Rightarrow> nat option \<times> nat \<times> bool \<Rightarrow> (nat option \<times> nat \<times> bool) option" where
  "winner_entry name = (\<lambda>(u, e) (winner, rank, strong).
     if \<not> os_external e \<or> name \<noteq> os_name e then Some (winner, rank, strong)
     else if priority e = 3 \<and> rank = 3 then None
     else Some (if priority e > rank then (Some u, priority e, strong \<or> \<not> os_weak e)
                else (winner, rank, strong \<or> \<not> os_weak e)))"

definition unit_entries :: "object_names list \<Rightarrow> (nat \<times> object_symbol) list" where
  "unit_entries units = concat (map (\<lambda>u. map (Pair u) (units ! u)) [0..<length units])"

definition object_winner :: "object_names list \<Rightarrow> string \<Rightarrow> (nat option \<times> nat \<times> bool) option" where
  "object_winner units name = each (winner_entry name) (unit_entries units) (None, 0, False)"

section \<open>Renaming\<close>

definition unit_chars :: string where
  "unit_chars = ''0123456789ABCDEFGHIJKLMNOPQRSTUVWXYZabcdefghijklmnopqrstuvwxyz_$''"

definition object_numeric_name :: "nat \<Rightarrow> char \<Rightarrow> nat \<Rightarrow> string option" where
  "object_numeric_name u tag offset =
     (if offset > uint32_max then None
      else Some (''.L.__c'' @ [tag, unit_chars ! u] @ ''.N'' @ object_decimal (of_nat offset)))"

definition prefixed :: "nat \<Rightarrow> char \<Rightarrow> string \<Rightarrow> string" where
  "prefixed u tag name =
     (let prefix = ''.__c'' @ [tag, unit_chars ! u] @ ''.''
      in if has_prefix ''.L'' name then ''.L'' @ prefix @ drop 2 name else prefix @ name)"

text \<open>A name in the text of unit \<open>u\<close>; \<open>defining\<close> is true in a label and in an alias.\<close>

definition rename_name :: "object_names list \<Rightarrow> nat \<Rightarrow> char \<Rightarrow> bool \<Rightarrow> string \<Rightarrow> string option" where
  "rename_name units u tag defining name =
     (case object_name 0 name False (units ! u) of
        (_, None) \<Rightarrow> Some name
      | (names, Some i) \<Rightarrow>
          let e = names ! i; renamed = (\<lambda>b. if b then prefixed u tag name else name);
              private = ((os_defined e \<or> os_local e) \<and> \<not> os_external e)
          in if os_weak e \<and> os_strong e \<and> defining
             then (case object_winner units (os_name e) of
                 None \<Rightarrow> None
               | Some (winner, _) \<Rightarrow> Some (renamed (private \<or> winner \<noteq> Some u)))
             else Some (renamed private))"

text \<open>A use \<open>1b\<close> or \<open>1f\<close> of a numeric label: the number, the direction and the text behind it.\<close>

definition numeric_use :: "string \<Rightarrow> (nat \<times> bool \<times> string) option" where
  "numeric_use s =
     (case decimal_label s of
        Some (d # rest, number) \<Rightarrow>
          if (d = CHR ''b'' \<or> d = CHR ''f'') \<and> (rest = [] \<or> \<not> name_char (hd rest))
          then Some (number, d = CHR ''f'', rest) else None
      | _ \<Rightarrow> None)"

lemma decimal_digits_shorter: "decimal_digits n s = Some (rest, v) \<Longrightarrow> length rest \<le> length s"
  by (induction n s rule: decimal_digits.induct) (fastforce split: if_splits)+

lemma numeric_use_shorter: "numeric_use s = Some (number, forward, rest) \<Longrightarrow> length rest < length s"
  by (auto simp: numeric_use_def decimal_label_def split: option.splits list.splits if_splits
      dest: decimal_digits_shorter)

function rewrite_text ::
  "(string \<Rightarrow> string option) \<Rightarrow> (nat \<Rightarrow> bool \<Rightarrow> string option) \<Rightarrow> bool \<Rightarrow> bool \<Rightarrow> string \<Rightarrow> string option" where
  "rewrite_text rename numeric inside quoted [] = (if quoted then None else Some [])"
| "rewrite_text rename numeric inside quoted (c # cs) =
     (let quoted = (if c = CHR 0x22 then \<not> quoted else quoted)
      in if quoted \<and> c = CHR 0x5C \<and> cs \<noteq> []
         then map_option (\<lambda>t. c # hd cs # t) (rewrite_text rename numeric (name_char (hd cs)) quoted (tl cs))
         else case (if quoted \<or> inside then None else numeric_use (c # cs)) of
             Some (number, forward, rest) \<Rightarrow>
               (case numeric number forward of
                  None \<Rightarrow> None | Some t \<Rightarrow> map_option ((@) t) (rewrite_text rename numeric True quoted rest))
           | None \<Rightarrow>
               if \<not> quoted \<and> name_start c \<and> \<not> inside
               then (case rename (c # takeWhile name_char cs) of
                  None \<Rightarrow> None
                | Some t \<Rightarrow> map_option ((@) t) (rewrite_text rename numeric True quoted (dropWhile name_char cs)))
               else map_option (Cons c) (rewrite_text rename numeric (name_char c) quoted cs))"
  by pat_completeness auto

termination
  by (relation "measure (\<lambda>(rename, numeric, inside, quoted, s). length s)")
    (auto simp: less_Suc_eq_le length_dropWhile_le split: if_splits dest!: numeric_use_shorter)

text \<open>A statement that is the definition of a numeric label.\<close>

definition numeric_line :: "string \<Rightarrow> bool" where
  "numeric_line line \<longleftrightarrow> line \<noteq> [] \<and> last line = CHR '':'' \<and>
     (case decimal_label line of None \<Rightarrow> False | Some (rest, number) \<Rightarrow> skip_white rest = '':'')"

definition rewrite_statement ::
  "object_names list \<Rightarrow> nat \<Rightarrow> char \<Rightarrow> string \<Rightarrow> nat \<times> string \<Rightarrow> string option" where
  "rewrite_statement units u tag assembly = (\<lambda>(offset, text).
     let line = trim text;
         defining = (line \<noteq> [] \<and> last line = CHR '':'' \<or> operator_is line ''.set'' \<or> operator_is line ''.equ'');
         common_name = takeWhile name_char (skip_white (drop 5 line));
         numeric = (\<lambda>number forward. case numeric_target assembly offset number forward of
            None \<Rightarrow> None | Some target \<Rightarrow> object_numeric_name u tag target);
         copied = map_option (\<lambda>t. t @ [nl])
           (rewrite_text (rename_name units u tag defining) numeric False False (takeWhile whitespace text @ line))
     in if operator_is line ''.weak'' then Some []
        else if numeric_line line then map_option (\<lambda>t. t @ [CHR '':'', nl]) (object_numeric_name u tag offset)
        else if operator_is line ''.comm''
        then (case object_name 0 common_name False (units ! u) of
            (_, None) \<Rightarrow> None
          | (names, Some i) \<Rightarrow> if os_external (names ! i) then Some [] else copied)
        else copied)"

definition object_rewrite :: "object_names list \<Rightarrow> nat \<Rightarrow> char \<Rightarrow> string \<Rightarrow> string option" where
  "object_rewrite units u tag assembly =
     map_option (\<lambda>ts. ''.text'' @ [nl] @ concat ts)
       (those (map (rewrite_statement units u tag assembly) (object_statements assembly 0)))"

section \<open>Common symbols and weak imports\<close>

text \<open>
  The directive for the common symbol that entry \<open>k\<close> declares: once for each name that no unit
  defines, with the largest size and alignment.
\<close>

definition common_directive :: "(nat \<times> object_symbol) list \<Rightarrow> nat \<Rightarrow> string" where
  "common_directive entries k =
     (let e = snd (entries ! k);
          same = (\<lambda>f. os_external f \<and> os_name f = os_name e);
          commons = filter (\<lambda>f. same f \<and> os_common f) (map snd entries);
          strong = list_ex (\<lambda>f. same f \<and> os_strong f \<and> \<not> os_weak f) (map snd entries);
          earlier = list_ex (\<lambda>f. same f \<and> os_common f) (map snd (take k entries))
      in if \<not> os_external e \<or> \<not> os_common e \<or> strong \<or> earlier then []
         else ''.comm '' @ os_name e @ '','' @ object_decimal (fold max (map os_common_size commons) 0) @ '','' @
           object_decimal (fold max (map os_common_alignment commons) 0) @ [nl])"

definition object_commons :: "object_names list \<Rightarrow> string" where
  "object_commons units =
     (let entries = unit_entries units in concat (map (common_directive entries) [0..<length entries]))"

definition weak_import :: "object_names list \<Rightarrow> nat \<times> object_symbol \<Rightarrow> string option" where
  "weak_import units = (\<lambda>(u, e).
     if \<not> os_external e then Some []
     else case object_winner units (os_name e) of
         None \<Rightarrow> None
       | Some (winner, rank, strong) \<Rightarrow>
           let earlier = list_ex (\<lambda>names. case object_name 0 (os_name e) False names of
                 (_, None) \<Rightarrow> False | (_, Some i) \<Rightarrow> os_external (names ! i) \<and> os_weak (names ! i)) (take u units)
           in if rank \<noteq> 0 \<or> strong \<or> \<not> os_weak e \<or> earlier then Some []
              else Some (''.weak '' @ os_name e @ [nl]))"

definition object_weak_imports :: "object_names list \<Rightarrow> string option" where
  "object_weak_imports units = map_option concat (those (map (weak_import units) (unit_entries units)))"

section \<open>Linking\<close>

text \<open>The letters behind \<open>.__c\<close> anywhere in a file; the linker takes the first free one.\<close>

definition occupied :: "string \<Rightarrow> char list" where
  "occupied assembly =
     map (\<lambda>j. assembly ! (j + 4)) (filter (\<lambda>j. take 4 (drop j assembly) = ''.__c'') [0..<length assembly - 4])"

definition free_tag :: "string list \<Rightarrow> char option" where
  "free_tag objects = find (\<lambda>c. \<not> list_ex (\<lambda>a. c \<in> set (occupied a)) objects)
     ''ABCDEFGHIJKLMNOPQRSTUVWXYZabcdefghijklmnopqrstuvwxyz''"

text \<open>The text of all files as one file.\<close>

definition merged_text :: "nat \<Rightarrow> nat \<Rightarrow> string list \<Rightarrow> string option" where
  "merged_text capacity size_max objects = do {
     units \<leftarrow> those (map (object_scan capacity) objects);
     tag \<leftarrow> free_tag objects;
     ts \<leftarrow> those (map (\<lambda>u. object_rewrite units u tag (objects ! u)) [0..<length objects]);
     imports \<leftarrow> object_weak_imports units;
     let text = concat ts @ object_commons units @ imports;
     if length text > size_max then None else Some text
   }"

definition CS_COPY_MAX_OBJECTS :: nat where
  "CS_COPY_MAX_OBJECTS = 64"

text \<open>The scratch buffer of the caller has a capacity; without one the linker allocates.\<close>

definition link_objects ::
  "capacities \<Rightarrow> nat \<Rightarrow> mem \<Rightarrow> nat \<Rightarrow> nat \<Rightarrow> string list \<Rightarrow> nat option \<Rightarrow> string \<Rightarrow> u32 list \<Rightarrow> mem outcome" where
  "link_objects caps size_max data address_bits memory_bytes objects scratch main arguments =
     (let invalid = Error 0 ''invalid separate link input'';
          link = (\<lambda>assembly. cs_copy_link_program_memory caps data address_bits memory_bytes assembly main arguments)
      in if objects = [] \<or> length objects > CS_COPY_MAX_OBJECTS then invalid
         else if length objects = 1 then link (hd objects)
         else if list_ex (\<lambda>a. CHR 0x00 \<in> set a) objects then invalid
         else case merged_text (label_capacity caps) size_max objects of
             None \<Rightarrow> Error 0 ''unsupported binding or invalid object assembly''
           | Some text \<Rightarrow>
               (case scratch of
                  None \<Rightarrow> if length text = size_max then Error 0 ''out of memory for separate link text'' else link text
                | Some available \<Rightarrow> if length text \<ge> available then Error 0 ''separate link scratch buffer too small'' else link text))"

definition cs_copy_link_objects_memory ::
  "capacities \<Rightarrow> nat \<Rightarrow> mem \<Rightarrow> nat \<Rightarrow> nat \<Rightarrow> string list \<Rightarrow> nat \<Rightarrow> string \<Rightarrow> u32 list \<Rightarrow> mem outcome" where
  "cs_copy_link_objects_memory caps size_max data address_bits memory_bytes objects available main arguments =
     link_objects caps size_max data address_bits memory_bytes objects (Some available) main arguments"

definition cs_copy_link_objects ::
  "capacities \<Rightarrow> nat \<Rightarrow> mem \<Rightarrow> nat \<Rightarrow> string list \<Rightarrow> nat \<Rightarrow> string \<Rightarrow> u32 list \<Rightarrow> mem outcome" where
  "cs_copy_link_objects caps size_max data address_bits objects available main arguments =
     cs_copy_link_objects_memory caps size_max data address_bits 8192 objects available main arguments"

definition cs_copy_link_objects_alloc ::
  "capacities \<Rightarrow> nat \<Rightarrow> mem \<Rightarrow> nat \<Rightarrow> nat \<Rightarrow> string list \<Rightarrow> string \<Rightarrow> u32 list \<Rightarrow> mem outcome" where
  "cs_copy_link_objects_alloc caps size_max data address_bits memory_bytes objects main arguments =
     link_objects caps size_max data address_bits memory_bytes objects None main arguments"

section \<open>Resolution\<close>

text \<open>What the search for a winner means, over all entries of a global name in the order of the units.\<close>

definition entries_of :: "object_names list \<Rightarrow> string \<Rightarrow> (nat \<times> object_symbol) list" where
  "entries_of units name = filter (\<lambda>(u, e). os_external e \<and> os_name e = name) (unit_entries units)"

definition best_rank :: "(nat \<times> object_symbol) list \<Rightarrow> nat" where
  "best_rank es = fold (\<lambda>(u, e) r. max r (priority e)) es 0"

definition resolution :: "(nat \<times> object_symbol) list \<Rightarrow> (nat option \<times> nat \<times> bool) option" where
  "resolution es =
     (if 2 \<le> length (filter (\<lambda>(u, e). priority e = 3) es) then None
      else Some (map_option fst (find (\<lambda>(u, e). priority e = best_rank es \<and> 0 < priority e) es), best_rank es,
        list_ex (\<lambda>(u, e). \<not> os_weak e) es))"

lemma best_rank_snoc: "best_rank (es @ [x]) = max (best_rank es) (priority (snd x))"
  by (simp add: best_rank_def split: prod.splits)

lemma best_rank_upper: "(u, e) \<in> set es \<Longrightarrow> priority e \<le> best_rank es"
  by (induction es rule: rev_induct) (auto simp: best_rank_snoc)

lemma find_append: "find P (xs @ ys) = (case find P xs of None \<Rightarrow> find P ys | Some x \<Rightarrow> Some x)"
  by (induction xs) auto

lemma best_rank_attained: "es \<noteq> [] \<Longrightarrow> \<exists>(u, e) \<in> set es. priority e = best_rank es"
proof (induction es rule: rev_induct)
  case (snoc x es)
  obtain u e where x: "x = (u, e)" by (cases x)
  show ?case
  proof (cases "best_rank es \<le> priority e")
    case True
    then show ?thesis by (auto simp: x best_rank_snoc max_def)
  next
    case False
    then have "es \<noteq> []" by (auto simp: best_rank_def)
    then show ?thesis using snoc.IH False by (fastforce simp: x best_rank_snoc max_def)
  qed
qed simp

lemma best_rank_3: "best_rank es = 3 \<longleftrightarrow> filter (\<lambda>(u, e). priority e = 3) es \<noteq> []"
proof -
  have "priority e \<le> 3" for e by (simp add: priority_def)
  moreover have "best_rank [] = 0" by (simp add: best_rank_def)
  ultimately have "best_rank es \<le> 3" by (induction es rule: rev_induct) (simp_all add: best_rank_snoc)
  then show ?thesis
    using best_rank_attained [of es] best_rank_upper [of _ _ es]
    by (cases "es = []") (fastforce simp: best_rank_def filter_empty_conv dest: le_antisym)+
qed

lemma find_best_raised:
  assumes "best_rank es < k"
  shows "find (\<lambda>(u, e). priority e = k \<and> 0 < priority e) es = None"
  using best_rank_upper [of _ _ es] assms by (fastforce simp: find_None_iff)

lemma resolution_snoc:
  "resolution (es @ [(u, e)]) =
    (case resolution es of
       None \<Rightarrow> None
     | Some (winner, rank, strong) \<Rightarrow>
         if priority e = 3 \<and> rank = 3 then None
         else Some (if priority e > rank then (Some u, priority e, strong \<or> \<not> os_weak e)
                else (winner, rank, strong \<or> \<not> os_weak e)))"
proof (cases "2 \<le> length (filter (\<lambda>(u, e). priority e = 3) es)")
  case True
  then show ?thesis by (simp add: resolution_def)
next
  case False
  have two: "2 \<le> length (filter (\<lambda>(u, e). priority e = 3) (es @ [(u, e)])) \<longleftrightarrow> priority e = 3 \<and> best_rank es = 3"
    using False by (auto simp: best_rank_3 Suc_le_eq)
  show ?thesis
  proof (cases "priority e > best_rank es")
    case True
    then show ?thesis using False two find_best_raised [OF True]
      by (simp add: resolution_def best_rank_snoc find_append max_def)
  next
    case False2: False
    have "find (\<lambda>(u, e). priority e = best_rank es \<and> 0 < priority e) (es @ [(u, e)]) =
        find (\<lambda>(u, e). priority e = best_rank es \<and> 0 < priority e) es"
    proof (cases "0 < best_rank es")
      case True
      then have "es \<noteq> []" by (auto simp: best_rank_def)
      then have "find (\<lambda>(u, e). priority e = best_rank es \<and> 0 < priority e) es \<noteq> None"
        using best_rank_attained [of es] True by (auto simp: find_None_iff)
      then show ?thesis by (auto simp: find_append)
    next
      case False
      then have "find (\<lambda>(u, e). priority e = best_rank es \<and> 0 < priority e) es' = None" for es' :: "(nat \<times> object_symbol) list"
        by (induction es') auto
      then show ?thesis by simp
    qed
    then show ?thesis using False False2 two
      by (simp add: resolution_def best_rank_snoc max_def)
  qed
qed

text \<open>
  C27. The choice among the definitions of a global name: two strong definitions are an error;
  otherwise the winner is the first unit that has an entry of the best kind, a strong definition
  before a common symbol before a weak definition, there is none when the name is only
  referenced, and the flag says whether some entry is not weak.
\<close>

theorem object_winner_resolves: "object_winner units name = resolution (entries_of units name)"
proof -
  have "each (winner_entry name) es (None, 0, False) =
      resolution (filter (\<lambda>(u, e). os_external e \<and> os_name e = name) es)" for es
  proof (induction es rule: rev_induct)
    case Nil
    then show ?case by (simp add: resolution_def best_rank_def)
  next
    case (snoc x es)
    obtain u e where "x = (u, e)" by (cases x)
    then show ?case using snoc
      by (auto simp: each_append winner_entry_def resolution_snoc split: option.splits)
  qed
  then show ?thesis by (simp add: object_winner_def entries_of_def)
qed

section \<open>New names\<close>

lemma unit_chars_distinct: "u < 64 \<Longrightarrow> v < 64 \<Longrightarrow> unit_chars ! u = unit_chars ! v \<longleftrightarrow> u = v"
proof -
  have "distinct unit_chars" "length unit_chars = 64" by (simp_all add: unit_chars_def)
  then show "u < 64 \<Longrightarrow> v < 64 \<Longrightarrow> ?thesis" using nth_eq_iff_index_eq by metis
qed

lemma dec_string_inject: "dec_string i = dec_string j \<longleftrightarrow> i = j"
proof
  assume "dec_string i = dec_string j"
  then show "i = j" using read_digits_dec [of "i + j + 9" 0 i "[]"] read_digits_dec [of "i + j + 9" 0 j "[]"] by simp
qed simp

lemma has_prefix_split: "has_prefix d s \<longleftrightarrow> (\<exists>r. s = d @ r)"
  by (metis append_eq_conv_conj append_take_drop_id has_prefix_def)

lemma prefixed_cases:
  obtains (local) r where "a = ''.L'' @ r" "prefixed u tag a = ''.L.__c'' @ [tag, unit_chars ! u] @ ''.'' @ r"
  | (other) "\<not> has_prefix ''.L'' a" "prefixed u tag a = ''.__c'' @ [tag, unit_chars ! u] @ ''.'' @ a"
proof (cases "has_prefix ''.L'' a")
  case True
  then obtain r where "a = ''.L'' @ r" unfolding has_prefix_split by blast
  then show ?thesis using local True by (simp add: prefixed_def)
next
  case False
  then show ?thesis using other by (simp add: prefixed_def)
qed

lemma prefixed_eq:
  assumes "u < 64" and "v < 64"
  shows "prefixed u tag a = prefixed v tag b \<longleftrightarrow> u = v \<and> a = b"
  by (cases rule: prefixed_cases [where a = a and u = u and tag = tag]; cases rule: prefixed_cases [where a = b and u = v and tag = tag])
    (auto simp: unit_chars_distinct [OF assms])

lemma numeric_prefixed_eq:
  assumes "u < 64" and "v < 64" and "i \<le> uint32_max"
  shows "object_numeric_name u tag i = Some (prefixed v tag b) \<longleftrightarrow> u = v \<and> b = ''.LN'' @ dec_string i"
proof -
  have "unat (of_nat i :: u32) = i" using assms(3) by (simp add: uint32_max_def unsigned_of_nat take_bit_nat_eq_self)
  then show ?thesis using assms(3)
    by (cases rule: prefixed_cases [where a = b and u = v and tag = tag])
      (auto simp: object_numeric_name_def object_decimal_dec unit_chars_distinct [OF assms(1,2)] has_prefix_def)
qed

lemma numeric_name_eq:
  assumes "u < 64" and "v < 64" and "i \<le> uint32_max" and "j \<le> uint32_max"
  shows "object_numeric_name u tag i = object_numeric_name v tag j \<longleftrightarrow> u = v \<and> i = j"
proof -
  have "unat (of_nat i :: u32) = i" "unat (of_nat j :: u32) = j"
    using assms(3,4) by (simp_all add: uint32_max_def unsigned_of_nat take_bit_nat_eq_self)
  then show ?thesis using assms(3,4)
    by (simp add: object_numeric_name_def object_decimal_dec unit_chars_distinct [OF assms(1,2)] dec_string_inject)
qed

text \<open>
  The names the linker makes for private symbols are distinct for distinct units and names, and
  the names for numeric labels are distinct for distinct units and offsets. The two kinds meet in
  exactly one case: a private name \<open>.LN\<close> followed by a number gets the name of the numeric label
  defined at that offset of the same file.
\<close>

theorem renamed_distinct:
  assumes "u < 64" and "v < 64" and "i \<le> uint32_max" and "j \<le> uint32_max"
  shows "(prefixed u tag a = prefixed v tag b \<longleftrightarrow> u = v \<and> a = b) \<and>
    (object_numeric_name u tag i = object_numeric_name v tag j \<longleftrightarrow> u = v \<and> i = j) \<and>
    (object_numeric_name u tag i = Some (prefixed v tag b) \<longleftrightarrow> u = v \<and> b = ''.LN'' @ dec_string i)"
  using prefixed_eq [OF assms(1,2)] numeric_name_eq [OF assms] numeric_prefixed_eq [OF assms(1-3)] by blast

lemma dec_string_12: "dec_string 12 = ''12''"
  by code_simp

theorem renamed_distinct_witness:
  "prefixed 0 CHR ''A'' ''.L3'' \<noteq> prefixed 1 CHR ''A'' ''.L3'' \<and>
   object_numeric_name 0 CHR ''A'' 12 = Some (prefixed 0 CHR ''A'' ''.LN12'')"
  using dec_string_12 renamed_distinct [of 0 1 12 12 "CHR ''A''" "''.L3''" "''.L3''"] renamed_distinct [of 0 0 12 12 "CHR ''A''" "''.L3''" "''.LN12''"]
  by (simp add: uint32_max_def)

end
