(* ===== verification/LinkArchive.thy ===== *)
theory LinkArchive
  imports LinkObjects "HOL-Library.Multiset" "HOL-Library.Code_Target_Nat"
begin

text \<open>
  runtime/gcc/copy_link.c, linking with archives: the members of an ar file, and the selection of
  the members that define an unresolved strong reference, until nothing more is needed. An
  archive is its bytes as a \<^typ>\<open>string\<close>.
\<close>

section \<open>The members of an archive\<close>

definition archive_magic :: string where
  "archive_magic = ''!<arch>'' @ [nl]"

definition header_end :: string where
  "header_end = [CHR 0x60, nl]"

text \<open>
  From the name field and the content of a member: whether it is a symbol index or a name table,
  and the length of a name that is stored in front of the data (BSD).
\<close>

definition member_kind :: "nat \<Rightarrow> string \<Rightarrow> nat \<Rightarrow> string \<Rightarrow> (bool \<times> nat) option" where
  "member_kind size_max name bytes content =
     (let is_index = (name = ''/'' \<or> name = ''//'' \<or> name = ''/SYM64/'')
      in if length name > 3 \<and> has_prefix ''#1/'' name
         then case archive_decimal size_max (drop 3 name) of
             None \<Rightarrow> None
           | Some filename \<Rightarrow>
               if filename > bytes then None
               else Some (is_index \<or> filename \<ge> 9 \<and> has_prefix ''__.SYMDEF'' content, filename)
         else Some (is_index \<or> has_prefix ''__.SYMDEF'' name, 0))"

definition field_name :: "string \<Rightarrow> string" where
  "field_name header = rev (dropWhile (\<lambda>c. c = CHR '' '') (rev (take 16 header)))"

function members_from :: "nat \<Rightarrow> nat \<Rightarrow> string \<Rightarrow> string list option" where
  "members_from size_max capacity s =
     (if s = [] then Some []
      else if length s < 60 then None
      else let header = take 60 s; rest = drop 60 s; name = field_name header
           in if drop 58 header \<noteq> header_end then None
              else case archive_decimal size_max (take 10 (drop 48 header)) of
                  None \<Rightarrow> None
                | Some bytes \<Rightarrow>
                    if bytes > length rest \<or> name = [] then None
                    else case member_kind size_max name bytes rest of
                        None \<Rightarrow> None
                      | Some (is_index, filename) \<Rightarrow>
                          if \<not> is_index \<and> capacity = 0 \<or> odd bytes \<and> (drop bytes rest = [] \<or> rest ! bytes \<noteq> nl) then None
                          else map_option (\<lambda>ms. if is_index then ms else take (bytes - filename) (drop filename rest) # ms)
                            (members_from size_max (if is_index then capacity else capacity - 1)
                              (drop (bytes + bytes mod 2) rest)))"
  by pat_completeness auto

termination
  by (relation "measure (\<lambda>(size_max, capacity, s). length s)") auto

declare members_from.simps [simp del]

definition archive_members :: "nat \<Rightarrow> nat \<Rightarrow> string \<Rightarrow> string list option" where
  "archive_members size_max capacity archive =
     (if has_prefix archive_magic archive then members_from size_max capacity (drop 8 archive) else None)"

text \<open>The members of all archives; the limit is total.\<close>

definition CS_COPY_MAX_ARCHIVE_MEMBERS :: nat where
  "CS_COPY_MAX_ARCHIVE_MEMBERS = 256"

primrec all_members :: "nat \<Rightarrow> nat \<Rightarrow> string list \<Rightarrow> string list option" where
  "all_members size_max capacity [] = Some []"
| "all_members size_max capacity (a # archives) =
     (case archive_members size_max capacity a of
        None \<Rightarrow> None
      | Some ms \<Rightarrow> map_option ((@) ms) (all_members size_max (capacity - length ms) archives))"

section \<open>Selection\<close>

text \<open>The global definitions and strong references of a unit; the first unit may define the entry as a local name.\<close>

definition require :: "nat \<Rightarrow> string \<Rightarrow> bool \<Rightarrow> object_symbol \<Rightarrow> object_names \<Rightarrow> object_names option" where
  "require capacity main first e required =
     (let referenced = (os_referenced e \<and> \<not> os_weak e);
          root_entry = (first \<and> os_defined e \<and> os_name e = main)
      in if \<not> root_entry \<and> (\<not> os_external e \<or> \<not> os_defined e \<and> \<not> referenced) then Some required
         else update_name capacity (os_name e) (\<lambda>r. r\<lparr>os_defined := os_defined r \<or> os_defined e,
           os_referenced := os_referenced r \<or> referenced\<rparr>) required)"

definition archive_requirements :: "nat \<Rightarrow> string \<Rightarrow> bool \<Rightarrow> object_names \<Rightarrow> object_names \<Rightarrow> object_names option" where
  "archive_requirements capacity main first unit required = each (require capacity main first) unit required"

definition archive_needed :: "object_names \<Rightarrow> object_names \<Rightarrow> bool" where
  "archive_needed required candidate =
     list_ex (\<lambda>e. os_external e \<and> os_defined e \<and>
       (case object_name 0 (os_name e) False required of
          (_, None) \<Rightarrow> False | (_, Some j) \<Rightarrow> os_referenced (required ! j) \<and> \<not> os_defined (required ! j))) candidate"

text \<open>
  The names required so far and the units selected so far; a member carries the flag that says
  whether it was extracted. One pass over the members also reports whether it selected one.
\<close>

type_synonym selection = "object_names \<times> string list"

fun closure_pass ::
  "nat \<Rightarrow> string \<Rightarrow> (bool \<times> string) list \<Rightarrow> selection \<Rightarrow> (bool \<times> (bool \<times> string) list \<times> selection) res" where
  "closure_pass capacity main [] st = Done (False, [], st)"
| "closure_pass capacity main ((extracted, m) # ms) (required, selected) =
     (let skip = andthen (closure_pass capacity main ms (required, selected))
            (\<lambda>(changed, ms, st). Done (changed, (extracted, m) # ms, st))
      in if extracted then skip
         else case object_scan capacity m of
             None \<Rightarrow> Fail ''unsupported binding or invalid archive assembly''
           | Some unit \<Rightarrow>
               if \<not> archive_needed required unit then skip
               else if length selected = CS_COPY_MAX_OBJECTS then Fail ''too many selected copy archive units''
               else case archive_requirements capacity main False unit required of
                   None \<Rightarrow> Fail ''too many selected copy archive units''
                 | Some required \<Rightarrow> andthen (closure_pass capacity main ms (required, selected @ [m]))
                     (\<lambda>(changed, ms, st). Done (True, (True, m) # ms, st)))"

definition open_members :: "(bool \<times> string) list \<Rightarrow> string list" where
  "open_members ms = map snd (filter (\<lambda>m. \<not> fst m) ms)"

lemma open_members_simps [simp]:
  "open_members [] = []" "open_members ((True, m) # ms) = open_members ms" "open_members ((False, m) # ms) = m # open_members ms"
  by (simp_all add: open_members_def)

lemma andthen_eq_Done: "andthen r f = Done y \<longleftrightarrow> (\<exists>x. r = Done x \<and> f x = Done y)"
  by (cases r) simp_all

lemma closure_pass_shrinks:
  "closure_pass capacity main ms st = Done (changed, ms', st') \<Longrightarrow>
    length (open_members ms') + of_bool changed \<le> length (open_members ms)"
proof (induction capacity main ms st arbitrary: changed ms' st' rule: closure_pass.induct)
  case (2 capacity main extracted m ms required selected)
  then show ?case
    by (cases extracted) (fastforce simp: andthen_eq_Done split: option.splits if_splits)+
qed simp

function closure :: "nat \<Rightarrow> string \<Rightarrow> (bool \<times> string) list \<Rightarrow> selection \<Rightarrow> ((bool \<times> string) list \<times> selection) res" where
  "closure capacity main ms st =
     (case closure_pass capacity main ms st of
        Undefined \<Rightarrow> Undefined
      | Fail msg \<Rightarrow> Fail msg
      | Done (changed, ms, st) \<Rightarrow> if changed then closure capacity main ms st else Done (ms, st))"
  by pat_completeness auto

termination
  by (relation "measure (\<lambda>(capacity, main, ms, st). length (open_members ms))")
    (auto dest: closure_pass_shrinks)

declare closure.simps [simp del]

text \<open>The names that the explicit objects leave required.\<close>

definition require_object :: "nat \<Rightarrow> string \<Rightarrow> bool \<times> string \<Rightarrow> object_names \<Rightarrow> object_names option" where
  "require_object capacity main = (\<lambda>(first, assembly) required.
     case object_scan capacity assembly of
       None \<Rightarrow> None | Some unit \<Rightarrow> archive_requirements capacity main first unit required)"

definition initial_requirements :: "nat \<Rightarrow> string \<Rightarrow> string list \<Rightarrow> object_names option" where
  "initial_requirements capacity main objects =
     (case update_name capacity main (\<lambda>r. r\<lparr>os_referenced := True\<rparr>) [] of
        None \<Rightarrow> None
      | Some required \<Rightarrow> each (require_object capacity main) (zip (map (\<lambda>i. i = 0) [0..<length objects]) objects) required)"

section \<open>Linking with archives\<close>

definition cs_copy_link_archives_alloc ::
  "capacities \<Rightarrow> nat \<Rightarrow> mem \<Rightarrow> nat \<Rightarrow> nat \<Rightarrow> string list \<Rightarrow> string list \<Rightarrow> string \<Rightarrow> u32 list \<Rightarrow> mem outcome" where
  "cs_copy_link_archives_alloc caps size_max data address_bits memory_bytes objects archives main arguments =
     (let invalid = Error 0 ''invalid copy archive input''
      in if objects = [] \<or> length objects > CS_COPY_MAX_OBJECTS \<or> main = [] \<or> archives = [] \<or>
            length archives > CS_COPY_MAX_ARCHIVE_MEMBERS then invalid
         else case all_members size_max CS_COPY_MAX_ARCHIVE_MEMBERS archives of
             None \<Rightarrow> invalid
           | Some ms \<Rightarrow>
               if list_ex (\<lambda>a. CHR 0x00 \<in> set a) (objects @ ms) then invalid
               else case initial_requirements (label_capacity caps) main objects of
                   None \<Rightarrow> Error 0 ''unsupported binding or invalid archive assembly''
                 | Some required \<Rightarrow>
                     chain (at_line 0 (closure (label_capacity caps) main (map (Pair False) ms) (required, objects)))
                       (\<lambda>(ms, required, selected).
                         cs_copy_link_objects_alloc caps size_max data address_bits memory_bytes selected main arguments))"

definition cs_copy_link_archive_alloc ::
  "capacities \<Rightarrow> nat \<Rightarrow> mem \<Rightarrow> nat \<Rightarrow> nat \<Rightarrow> string list \<Rightarrow> string \<Rightarrow> string \<Rightarrow> u32 list \<Rightarrow> mem outcome" where
  "cs_copy_link_archive_alloc caps size_max data address_bits memory_bytes objects archive main arguments =
     cs_copy_link_archives_alloc caps size_max data address_bits memory_bytes objects [archive] main arguments"

section \<open>The selection is closed\<close>

text \<open>A member that was not selected supplies nothing that is still required.\<close>

definition not_needed :: "nat \<Rightarrow> object_names \<Rightarrow> string \<Rightarrow> bool" where
  "not_needed capacity required m \<longleftrightarrow> (\<exists>u. object_scan capacity m = Some u \<and> \<not> archive_needed required u)"

lemma closure_pass_unchanged:
  "closure_pass capacity main ms st = Done (False, ms', st') \<Longrightarrow>
    ms' = ms \<and> st' = st \<and> (\<forall>m\<in>set (open_members ms). not_needed capacity (fst st) m)"
proof (induction capacity main ms st arbitrary: ms' st' rule: closure_pass.induct)
  case (2 capacity main extracted m ms required selected)
  then show ?case
    by (cases extracted) (fastforce simp: andthen_eq_Done not_needed_def split: option.splits if_splits)+
qed simp

text \<open>
  What a run of the selection does: the members stay in place, the selected ones are appended in
  the order of their selection, and the requirements are those of the selected units.
\<close>

definition extends :: "nat \<Rightarrow> string \<Rightarrow> (bool \<times> string) list \<Rightarrow> selection \<Rightarrow> (bool \<times> string) list \<Rightarrow> selection \<Rightarrow> bool" where
  "extends capacity main ms st ms' st' \<longleftrightarrow> map snd ms' = map snd ms \<and>
     (\<exists>new. snd st' = snd st @ new \<and> mset (open_members ms) = mset (open_members ms') + mset new \<and>
        each (require_object capacity main) (map (Pair False) new) (fst st) = Some (fst st')) \<and>
     (length (snd st) \<le> CS_COPY_MAX_OBJECTS \<longrightarrow> length (snd st') \<le> CS_COPY_MAX_OBJECTS)"

lemma extends_refl: "extends capacity main ms st ms st"
  by (simp add: extends_def)

lemma extends_trans:
  "extends capacity main ms st ms' st' \<Longrightarrow> extends capacity main ms' st' ms'' st'' \<Longrightarrow> extends capacity main ms st ms'' st''"
  by (fastforce simp: extends_def each_append)

lemma extends_skip:
  "extends capacity main ms st ms' st' \<Longrightarrow> extends capacity main ((x, m) # ms) st ((x, m) # ms') st'"
  by (cases x) (auto simp: extends_def)

lemma extends_take:
  assumes "extends capacity main ms (required', selected @ [m]) ms' st'" and "object_scan capacity m = Some u"
    and "archive_requirements capacity main False u required = Some required'" and "length selected \<noteq> CS_COPY_MAX_OBJECTS"
  shows "extends capacity main ((False, m) # ms) (required, selected) ((True, m) # ms') st'"
proof -
  obtain new where new: "snd st' = (selected @ [m]) @ new" "mset (open_members ms) = mset (open_members ms') + mset new"
      "each (require_object capacity main) (map (Pair False) new) required' = Some (fst st')"
    using assms(1) by (auto simp: extends_def)
  have "each (require_object capacity main) (map (Pair False) (m # new)) required = Some (fst st')"
    using new(3) assms(2,3) by (simp add: require_object_def)
  moreover have "snd st' = selected @ (m # new)" "mset (m # open_members ms) = mset (open_members ms') + mset (m # new)"
    using new by simp_all
  ultimately show ?thesis using assms(1,4) unfolding extends_def
    by (fastforce simp del: mset.simps append_Cons intro: exI [of _ "m # new"])
qed

lemma closure_pass_extends:
  "closure_pass capacity main ms st = Done (changed, ms', st') \<Longrightarrow> extends capacity main ms st ms' st'"
proof (induction capacity main ms st arbitrary: changed ms' st' rule: closure_pass.induct)
  case (2 capacity main extracted m ms required selected)
  show ?case
  proof (cases "\<exists>u required'. \<not> extracted \<and> object_scan capacity m = Some u \<and> archive_needed required u \<and>
      length selected \<noteq> CS_COPY_MAX_OBJECTS \<and> archive_requirements capacity main False u required = Some required'")
    case True
    then obtain u required' where u: "\<not> extracted" "object_scan capacity m = Some u" "archive_needed required u"
        "length selected \<noteq> CS_COPY_MAX_OBJECTS" "archive_requirements capacity main False u required = Some required'"
      by blast
    with "2.prems" obtain changed1 ms1 where *: "closure_pass capacity main ms (required', selected @ [m]) = Done (changed1, ms1, st')"
        "ms' = (True, m) # ms1"
      by (fastforce simp: andthen_eq_Done)
    have "extends capacity main ms (required', selected @ [m]) ms1 st'"
      using "2.IH"(2) [OF refl u(1,2) _ u(4,5) *(1)] u(3) by simp
    then show ?thesis unfolding *(2) using extends_take [OF _ u(2,5,4)] u(1) by simp
  next
    case False
    then have "andthen (closure_pass capacity main ms (required, selected))
        (\<lambda>(changed, ms, st). Done (changed, (extracted, m) # ms, st)) = Done (changed, ms', st')"
      using "2.prems" by (cases extracted) (simp_all add: Let_def split: option.splits if_splits)
    then obtain ms1 where "closure_pass capacity main ms (required, selected) = Done (changed, ms1, st')"
        and ms': "ms' = (extracted, m) # ms1"
      unfolding andthen_eq_Done by auto
    then show ?thesis using extends_skip "2.IH"(1) by blast
  qed
qed (simp add: extends_def)

lemma closure_extends:
  "closure capacity main ms st = Done (ms', st') \<Longrightarrow> extends capacity main ms st ms' st'"
proof (induction capacity main ms st rule: closure.induct)
  case (1 capacity main ms st)
  obtain changed ms1 st1 where pass: "closure_pass capacity main ms st = Done (changed, ms1, st1)"
    using "1.prems" by (subst (asm) closure.simps) (auto split: res.splits)
  show ?case
  proof (cases changed)
    case True
    then have "closure capacity main ms1 st1 = Done (ms', st')"
      using "1.prems" pass by (subst (asm) closure.simps) simp
    then show ?thesis
      using "1.IH" [OF pass refl refl True] closure_pass_extends [OF pass] extends_trans by blast
  next
    case False
    then show ?thesis
      using "1.prems" pass closure_pass_extends [OF pass] by (subst (asm) closure.simps) simp
  qed
qed

lemma closure_closed:
  "closure capacity main ms st = Done (ms', st') \<Longrightarrow> m \<in> set (open_members ms') \<Longrightarrow> not_needed capacity (fst st') m"
proof (induction capacity main ms st rule: closure.induct)
  case (1 capacity main ms st)
  obtain changed ms1 st1 where pass: "closure_pass capacity main ms st = Done (changed, ms1, st1)"
    using "1.prems"(1) by (subst (asm) closure.simps) (auto split: res.splits)
  show ?case
  proof (cases changed)
    case True
    then have "closure capacity main ms1 st1 = Done (ms', st')"
      using "1.prems"(1) pass by (subst (asm) closure.simps) simp
    then show ?thesis using "1.IH" [OF pass refl refl True] "1.prems"(2) by blast
  next
    case False
    then have "closure_pass capacity main ms st = Done (False, ms1, st1)" "ms' = ms1" "st' = st1"
      using "1.prems"(1) pass by (subst (asm) closure.simps; simp)+
    then show ?thesis using closure_pass_unchanged [of capacity main ms st ms1 st1] "1.prems"(2) by auto
  qed
qed

section \<open>Writing an archive\<close>

text \<open>An archive as \<open>ar\<close> writes it, for members with short names.\<close>

definition padded :: "nat \<Rightarrow> string \<Rightarrow> string" where
  "padded width s = s @ replicate (width - length s) (CHR '' '')"

definition member_header :: "string \<Rightarrow> nat \<Rightarrow> string" where
  "member_header name bytes = padded 16 name @ replicate 32 (CHR '' '') @ padded 10 (dec_string bytes) @ header_end"

definition member_file :: "string \<times> string \<Rightarrow> string" where
  "member_file = (\<lambda>(name, content).
     member_header name (length content) @ content @ (if odd (length content) then [nl] else []))"

definition archive_file :: "(string \<times> string) list \<Rightarrow> string" where
  "archive_file members = archive_magic @ concat (map member_file members)"

definition regular_name :: "string \<Rightarrow> bool" where
  "regular_name name \<longleftrightarrow> name \<noteq> [] \<and> length name \<le> 16 \<and> last name \<noteq> CHR '' '' \<and>
     name \<notin> {''/'', ''//'', ''/SYM64/''} \<and> \<not> has_prefix ''#1/'' name \<and> \<not> has_prefix ''__.SYMDEF'' name"

lemma archive_digits_read:
  "list_all dec_digit ds \<Longrightarrow> archive_digits limit v (ds @ cs) =
    (case read_digits limit 10 v ds of None \<Rightarrow> None | Some v \<Rightarrow> archive_digits limit v cs)"
  by (induction ds arbitrary: v) (auto simp: hex_digit_def dec_value_def dec_digit_def in_range_def)

lemma dec_string_all_digits: "list_all dec_digit (dec_string v)"
proof (induction v rule: dec_string.induct)
  case (1 v)
  then show ?case by (subst dec_string.simps) (auto simp: digit_char_read)
qed

lemma archive_decimal_padded:
  assumes "9 \<le> size_max" and "v \<le> size_max"
  shows "archive_decimal size_max (dec_string v @ replicate k (CHR '' '')) = Some v"
proof -
  have blanks: "archive_digits size_max v (replicate k (CHR '' '')) = Some (replicate k (CHR '' ''), v)"
    by (cases k) (simp_all add: dec_digit_def in_range_def)
  have "read_digits size_max 10 0 (dec_string v) = Some v"
    using read_digits_dec [OF assms(1), of 0 v "[]"] assms(2) by simp
  then have "archive_digits size_max 0 (dec_string v @ replicate k (CHR '' '')) = Some (replicate k (CHR '' ''), v)"
    using blanks by (simp add: archive_digits_read dec_string_all_digits)
  moreover have "dec_string v \<noteq> []" "dec_digit (hd (dec_string v))"
    using dec_string_all_digits [of v] by (simp_all add: list_all_iff)
  ultimately show ?thesis by (simp add: archive_decimal_def list_all_iff)
qed

lemma dec_string_short: "0 < k \<Longrightarrow> v < 10 ^ k \<Longrightarrow> length (dec_string v) \<le> k"
proof (induction k arbitrary: v)
  case (Suc k)
  show ?case
  proof (cases "v < 10")
    case True
    then show ?thesis by (simp add: dec_string.simps [of v])
  next
    case False
    then have "0 < k" using Suc.prems by (cases k) auto
    moreover have "v div 10 < 10 ^ k" using Suc.prems(2) by (simp add: div_less_iff_less_mult mult.commute)
    ultimately show ?thesis using Suc.IH [of "v div 10"] False by (simp add: dec_string.simps [of v])
  qed
qed simp

lemma member_header_fields:
  assumes name: "regular_name name" and bytes: "bytes < 10 ^ 10"
  shows "length (member_header name bytes) = 60" and "field_name (member_header name bytes) = name"
    and "drop 58 (member_header name bytes) = header_end"
    and "take 10 (drop 48 (member_header name bytes)) = padded 10 (dec_string bytes)"
proof -
  have len: "length (padded 16 name) = 16" "length (padded 10 (dec_string bytes)) = 10"
    using name dec_string_short [of 10 bytes] bytes by (simp_all add: padded_def regular_name_def)
  show "length (member_header name bytes) = 60"
    using len by (simp add: member_header_def header_end_def)
  show "drop 58 (member_header name bytes) = header_end"
    using len by (simp add: member_header_def header_end_def)
  show "take 10 (drop 48 (member_header name bytes)) = padded 10 (dec_string bytes)"
    using len by (simp add: member_header_def header_end_def)
  have "take 16 (member_header name bytes) = padded 16 name" using len by (simp add: member_header_def)
  moreover have "dropWhile (\<lambda>c. c = CHR '' '') (rev (padded 16 name)) = rev name"
    using name by (cases name rule: rev_cases) (simp_all add: padded_def regular_name_def dropWhile_append)
  ultimately show "field_name (member_header name bytes) = name" by (simp add: field_name_def)
qed

lemma members_from_member:
  assumes name: "regular_name name" and content: "length content < 10 ^ 10" "length content \<le> size_max" and "9 \<le> size_max"
  shows "members_from size_max capacity (member_file (name, content) @ s) =
    (if capacity = 0 then None else map_option ((#) content) (members_from size_max (capacity - 1) s))"
proof -
  define H where "H = member_header name (length content)"
  define R where "R = content @ (if odd (length content) then [nl] else []) @ s"
  have whole: "member_file (name, content) @ s = H @ R" by (simp add: member_file_def H_def R_def)
  note fields = member_header_fields [OF name content(1), folded H_def]
  have size: "archive_decimal size_max (padded 10 (dec_string (length content))) = Some (length content)"
    unfolding padded_def by (rule archive_decimal_padded [OF assms(4) content(2)])
  have kind: "member_kind size_max name (length content) R = Some (False, 0)"
    using name by (auto simp: member_kind_def regular_name_def)
  have rest: "drop (length content + length content mod 2) R = s"
    by (cases "odd (length content)") (simp_all add: R_def odd_iff_mod_2_eq_one)
  have "take (length content) R = content" "length content \<le> length R" by (simp_all add: R_def)
  moreover have "\<not> (odd (length content) \<and> (drop (length content) R = [] \<or> R ! length content \<noteq> nl))"
    by (auto simp: R_def nth_append)
  moreover have "H \<noteq> []" "name \<noteq> []" using fields(1) name by (auto simp: regular_name_def)
  ultimately show ?thesis
    unfolding whole using fields size kind rest
    by (subst members_from.simps) (auto simp: Let_def)
qed

lemma members_from_file:
  "9 \<le> size_max \<Longrightarrow>
    \<forall>(name, content) \<in> set members. regular_name name \<and> length content < 10 ^ 10 \<and> length content \<le> size_max \<Longrightarrow>
    members_from size_max capacity (concat (map member_file members)) =
      (if length members \<le> capacity then Some (map snd members) else None)"
proof (induction members arbitrary: capacity)
  case Nil
  then show ?case by (simp add: members_from.simps)
next
  case (Cons m members)
  obtain name content where m: "m = (name, content)" by (cases m)
  show ?case
    using Cons members_from_member [of name content size_max capacity "concat (map member_file members)"]
    by (auto simp: m Suc_le_eq)
qed

section \<open>Properties\<close>

text \<open>
  C26. When the selection of archive members succeeds, the selected units are the given objects
  followed by distinct members in the order of their extraction, at most 64 in all; the required
  names are what exactly these units leave required; and no remaining member defines a name that
  is still referenced and undefined.
\<close>

theorem closure_selects:
  assumes "closure capacity main (map (Pair False) ms) (required, objects) = Done (ms', required', selected)"
    and "length objects \<le> CS_COPY_MAX_OBJECTS"
  shows "(\<exists>new. selected = objects @ new \<and> mset ms = mset (open_members ms') + mset new \<and>
       each (require_object capacity main) (map (Pair False) new) required = Some required') \<and>
     length selected \<le> CS_COPY_MAX_OBJECTS \<and> (\<forall>m\<in>set (open_members ms'). not_needed capacity required' m)"
proof -
  have "open_members (map (Pair False) ms) = ms" by (induction ms) auto
  then show ?thesis
    using closure_extends [OF assms(1)] closure_closed [OF assms(1)] assms(2) by (auto simp: extends_def)
qed

definition demo_library :: "string list" where
  "demo_library = [''.global g'' @ [nl] @ ''g:'', ''.global f'' @ [nl] @ ''f:'']"

definition demo_required :: object_names where
  "demo_required = [(new_symbol ''m'')\<lparr>os_defined := True, os_referenced := True\<rparr>,
     (new_symbol ''f'')\<lparr>os_referenced := True\<rparr>]"

theorem closure_selects_witness:
  "not_needed 8 [(new_symbol ''m'')\<lparr>os_defined := True, os_referenced := True\<rparr>,
     (new_symbol ''f'')\<lparr>os_defined := True, os_referenced := True\<rparr>] (''.global g'' @ [nl] @ ''g:'')"
proof -
  have run: "closure 8 ''m'' (map (Pair False) demo_library) (demo_required, [''m:'' @ [nl] @ ''copy.jsra f'']) =
      Done ([(False, ''.global g'' @ [nl] @ ''g:''), (True, ''.global f'' @ [nl] @ ''f:'')],
        [(new_symbol ''m'')\<lparr>os_defined := True, os_referenced := True\<rparr>,
         (new_symbol ''f'')\<lparr>os_defined := True, os_referenced := True\<rparr>],
        [''m:'' @ [nl] @ ''copy.jsra f'', ''.global f'' @ [nl] @ ''f:''])"
    by code_simp
  show ?thesis using closure_selects [OF run] by (simp add: CS_COPY_MAX_OBJECTS_def)
qed

text \<open>
  The linker reads back the members of an archive as \<open>ar\<close> writes it: the contents in their
  order, without the padding of odd sizes; only an archive with more members than the limit is
  rejected.
\<close>

theorem archive_roundtrip:
  assumes "\<forall>(name, content) \<in> set members. regular_name name \<and> length content < 10 ^ 10 \<and> length content \<le> size_max"
    and "9 \<le> size_max"
  shows "archive_members size_max capacity (archive_file members) =
    (if length members \<le> capacity then Some (map snd members) else None)"
  using members_from_file [OF assms(2,1), of capacity]
  by (simp add: archive_members_def archive_file_def has_prefix_def archive_magic_def)

theorem archive_roundtrip_witness:
  "archive_members (2 ^ 32 - 1) 256 (archive_file [(''a.o'', ''f:''), (''b.o'', ''g: '')]) = Some [''f:'', ''g: '']"
  using archive_roundtrip [of "[(''a.o'', ''f:''), (''b.o'', ''g: '')]" "2 ^ 32 - 1" 256]
  by (simp add: regular_name_def has_prefix_def)

end
