(* ===== verification/PacketBytes.thy ===== *)
theory PacketBytes
  imports Prelude
begin

text \<open>
  The words of the packets that the gcc runtime reads and writes (job.c, response.c,
  copy_c/input_files.h): four bytes, least significant first; and bytes as text.
\<close>

definition le_word :: "u8 list \<Rightarrow> u32" where
  "le_word p = ucast (p ! 0) OR push_bit 8 (ucast (p ! 1)) OR push_bit 16 (ucast (p ! 2)) OR push_bit 24 (ucast (p ! 3))"

definition le_bytes :: "u32 \<Rightarrow> u8 list" where
  "le_bytes v = map (\<lambda>i. ucast (drop_bit (8 * i) v)) [0..<4]"

text \<open>A number at the begin of the remaining input, and what follows it.\<close>

definition take_word :: "u8 list \<Rightarrow> (nat \<times> u8 list) option" where
  "take_word rest = (if length rest < 4 then None else Some (unat (le_word (take 4 rest)), drop 4 rest))"

text \<open>A range of bytes of the given length.\<close>

definition take_bytes :: "nat \<Rightarrow> u8 list \<Rightarrow> (u8 list \<times> u8 list) option" where
  "take_bytes n rest = (if n > length rest then None else Some (take n rest, drop n rest))"

definition text_of :: "u8 list \<Rightarrow> string" where
  "text_of bytes = map (\<lambda>b. char_of (unat b)) bytes"

definition bytes_of :: "string \<Rightarrow> u8 list" where
  "bytes_of s = map (\<lambda>c. of_nat (of_char c)) s"

lemma le_bytes_list: "le_bytes v = [ucast v, ucast (drop_bit 8 v), ucast (drop_bit 16 v), ucast (drop_bit 24 v)]"
  by (simp add: le_bytes_def upt_rec)

lemma length_le_bytes [simp]: "length (le_bytes v) = 4"
  by (simp add: le_bytes_list)

lemma le_word_bytes [simp]: "le_word (le_bytes v) = v"
proof (rule bit_word_eqI)
  fix n assume n: "n < LENGTH(32)"
  then consider "n < 8" | "8 \<le> n" "n < 16" | "16 \<le> n" "n < 24" | "24 \<le> n" "n < 32" by fastforce
  then show "bit (le_word (le_bytes v)) n = bit v n"
    by cases (auto simp: le_word_def le_bytes_list bit_simps)
qed

lemma le_bytes_word: 
  assumes "length p = 4"
  shows "le_bytes (le_word p) = p"
proof -
  obtain a b c d where p: "p = [a, b, c, d]"
    using assms by (auto simp: length_Suc_conv eval_nat_numeral)
  have "ucast (le_word p) = a" "ucast (drop_bit 8 (le_word p)) = b" "ucast (drop_bit 16 (le_word p)) = c"
    "ucast (drop_bit 24 (le_word p)) = d"
    by (rule bit_word_eqI; auto simp: le_word_def p bit_simps dest: bit_imp_le_length)+
  then show ?thesis by (simp add: le_bytes_list p)
qed

lemma take_word_Some: "take_word rest = Some (v, more) \<longleftrightarrow> (\<exists>w. v = unat w \<and> rest = le_bytes w @ more)"
proof
  assume "take_word rest = Some (v, more)"
  then have "v = unat (le_word (take 4 rest))" "rest = le_bytes (le_word (take 4 rest)) @ more"
    by (auto simp: take_word_def le_bytes_word split: if_splits)
  then show "\<exists>w. v = unat w \<and> rest = le_bytes w @ more" by blast
qed (auto simp: take_word_def)

lemma take_word_le_bytes [simp]: "take_word (le_bytes w @ more) = Some (unat w, more)"
  by (auto simp: take_word_Some)

lemma take_bytes_Some: "take_bytes n rest = Some (bs, more) \<longleftrightarrow> rest = bs @ more \<and> length bs = n"
  by (auto simp: take_bytes_def)

lemma take_bytes_append [simp]: "take_bytes (length bs) (bs @ more) = Some (bs, more)"
  by (simp add: take_bytes_Some)

lemma text_of_bytes_of [simp]: "text_of (bytes_of s) = s"
  by (induction s) (simp_all add: text_of_def bytes_of_def unsigned_of_nat take_bit_nat_eq_self)

lemma bytes_of_text_of [simp]: "bytes_of (text_of bs) = bs"
proof (induction bs)
  case (Cons b bs)
  have "unat b < 2 ^ LENGTH(8)" by (rule unsigned_less)
  with Cons show ?case by (simp add: text_of_def bytes_of_def)
qed (simp_all add: text_of_def bytes_of_def)

lemma length_text_of [simp]: "length (text_of bs) = length bs"
  by (simp add: text_of_def)

lemma length_bytes_of [simp]: "length (bytes_of s) = length s"
  by (simp add: bytes_of_def)

end
