(* ===== verification/InputFiles.thy ===== *)
theory InputFiles
  imports PacketBytes
begin

text \<open>
  runtime/copy_c/input_files.h: the blob of input files that a job carries. The decoder keeps an
  offset into the blob; here it passes the bytes behind that offset. The names and contents of
  the C structs point into the blob; here they are copies of those bytes. The result is the
  main file, the distinct roots and the files, in their order.
\<close>

definition CC_FILES_MAX :: nat where [simp]: "CC_FILES_MAX = 1024"
definition CC_FILE_ROOTS_MAX :: nat where [simp]: "CC_FILE_ROOTS_MAX = 32"

definition magic_bytes :: "u8 list" where
  "magic_bytes = 0 # bytes_of ''CCFILES1''"

definition cc_files_magic :: "u8 list \<Rightarrow> bool" where
  "cc_files_magic data \<longleftrightarrow> length data \<ge> 9 \<and> take 9 data = magic_bytes"

text \<open>The components of a path: the parts between slashes.\<close>

fun split_on :: "'a \<Rightarrow> 'a list \<Rightarrow> 'a list list" where
  "split_on x [] = [[]]"
| "split_on x (y # ys) = (if y = x then [] # split_on x ys else (y # hd (split_on x ys)) # tl (split_on x ys))"

lemma split_on_head:
  "split_on x s = takeWhile (\<lambda>y. y \<noteq> x) s # (case dropWhile (\<lambda>y. y \<noteq> x) s of [] \<Rightarrow> [] | y # ys \<Rightarrow> split_on x ys)"
  by (induction s) auto

lemma split_on_not_Nil: "split_on x s \<noteq> []"
  by (subst split_on_head) simp

lemma split_on_no_sep: "p \<in> set (split_on x s) \<Longrightarrow> x \<notin> set p"
proof (induction s arbitrary: p)
  case (Cons y ys)
  then show ?case using split_on_not_Nil [of x ys] by (cases "split_on x ys") (auto split: if_splits)
qed simp

lemma split_on_append: "split_on x (a @ x # b) = split_on x a @ split_on x b"
proof (induction a)
  case (Cons y ys)
  then show ?case using split_on_not_Nil [of x ys] by (cases "split_on x ys") auto
qed simp

definition slash :: u8 where "slash = 47"
definition dot :: u8 where "dot = 46"

definition cc_file_name_valid :: "u8 list \<Rightarrow> bool \<Rightarrow> bool" where
  "cc_file_name_valid name root =
     (if name = [] then root
      else if length name > 4096 \<or> hd name = slash \<or> last name = slash then False
      else 0 \<notin> set name \<and> list_all (\<lambda>part. part \<noteq> [] \<and> part \<noteq> [dot] \<and> part \<noteq> [dot, dot]) (split_on slash name))"

type_synonym cc_input_file = "u8 list \<times> u8 list"

primrec read_roots :: "nat \<Rightarrow> u8 list list \<Rightarrow> u8 list \<Rightarrow> (u8 list list \<times> u8 list) option" where
  "read_roots 0 found rest = Some (found, rest)"
| "read_roots (Suc n) found rest = do {
     (length, rest) \<leftarrow> take_word rest;
     (name, rest) \<leftarrow> take_bytes length rest;
     if \<not> cc_file_name_valid name True then None
     else read_roots n (if name \<in> set found then found else found @ [name]) rest
   }"

primrec read_files :: "nat \<Rightarrow> cc_input_file list \<Rightarrow> u8 list \<Rightarrow> (cc_input_file list \<times> u8 list) option" where
  "read_files 0 found rest = Some (found, rest)"
| "read_files (Suc n) found rest = do {
     (length, rest) \<leftarrow> take_word rest;
     (bytes, rest) \<leftarrow> take_word rest;
     (name, rest) \<leftarrow> take_bytes length rest;
     if \<not> cc_file_name_valid name False \<or> name \<in> fst ` set found then None
     else do {
       (content, rest) \<leftarrow> take_bytes bytes rest;
       read_files n (found @ [(name, content)]) rest
     }
   }"

definition cc_files_decode :: "u8 list \<Rightarrow> (nat \<times> u8 list list \<times> cc_input_file list) option" where
  "cc_files_decode data =
     (if \<not> cc_files_magic data then None
      else do {
        (count, rest) \<leftarrow> take_word (drop 9 data);
        (main_file, rest) \<leftarrow> take_word rest;
        (roots, rest) \<leftarrow> take_word rest;
        if count = 0 \<or> count > CC_FILES_MAX \<or> main_file \<ge> count \<or> roots > CC_FILE_ROOTS_MAX then None
        else do {
          (found_roots, rest) \<leftarrow> read_roots roots [] rest;
          (files, rest) \<leftarrow> read_files count [] rest;
          if rest \<noteq> [] then None else Some (main_file, found_roots, files)
        }
      })"

section \<open>The format\<close>

text \<open>The blob for a main file, roots and files, as its writers lay it out.\<close>

definition root_bytes :: "u8 list \<Rightarrow> u8 list" where
  "root_bytes name = le_bytes (of_nat (length name)) @ name"

definition file_bytes :: "cc_input_file \<Rightarrow> u8 list" where
  "file_bytes = (\<lambda>(name, content).
     le_bytes (of_nat (length name)) @ le_bytes (of_nat (length content)) @ name @ content)"

definition blob :: "nat \<Rightarrow> u8 list list \<Rightarrow> cc_input_file list \<Rightarrow> u8 list" where
  "blob main_file roots files = magic_bytes @ le_bytes (of_nat (length files)) @ le_bytes (of_nat main_file) @
     le_bytes (of_nat (length roots)) @ concat (map root_bytes roots) @ concat (map file_bytes files)"

definition blob_ok :: "nat \<Rightarrow> u8 list list \<Rightarrow> cc_input_file list \<Rightarrow> bool" where
  "blob_ok main_file roots files \<longleftrightarrow>
     main_file < length files \<and> length files \<le> CC_FILES_MAX \<and> length roots \<le> CC_FILE_ROOTS_MAX \<and>
     (\<forall>r\<in>set roots. cc_file_name_valid r True) \<and>
     (\<forall>(name, content)\<in>set files. cc_file_name_valid name False \<and> length content < 2 ^ 32) \<and>
     distinct (map fst files)"

lemma unat_small [simp]: "n < 2 ^ 32 \<Longrightarrow> unat (of_nat n :: u32) = n"
  by (simp add: unsigned_of_nat take_bit_nat_eq_self)

lemma valid_short: "cc_file_name_valid name root \<Longrightarrow> length name \<le> 4096"
  by (auto simp: cc_file_name_valid_def split: if_splits)

text \<open>A length that was read back from its four bytes.\<close>

lemma take_counted: "take_word rest = Some (n, more) \<longleftrightarrow> rest = le_bytes (of_nat n) @ more \<and> n < 2 ^ 32"
proof -
  have "unat w < 2 ^ LENGTH(32)" for w :: u32 by (rule unsigned_less)
  then show ?thesis by (fastforce simp: take_word_Some intro: exI [of _ "of_nat n"])
qed

definition add_root :: "u8 list \<Rightarrow> u8 list list \<Rightarrow> u8 list list" where
  "add_root name found = (if name \<in> set found then found else found @ [name])"

lemma read_roots_iff:
  "read_roots n found rest = Some (r, more) \<longleftrightarrow>
    (\<exists>roots. length roots = n \<and> (\<forall>x\<in>set roots. cc_file_name_valid x True) \<and>
       rest = concat (map root_bytes roots) @ more \<and> r = fold add_root roots found)"
proof (induction n arbitrary: found rest)
  case (Suc n)
  have "read_roots (Suc n) found rest = Some (r, more) \<longleftrightarrow>
      (\<exists>name rest'. rest = root_bytes name @ rest' \<and> cc_file_name_valid name True \<and>
         read_roots n (add_root name found) rest' = Some (r, more))"
    using valid_short [of _ True]
    by (fastforce simp: bind_eq_Some_conv take_counted take_bytes_Some root_bytes_def add_root_def split: if_splits)
  also have "\<dots> \<longleftrightarrow> (\<exists>roots. length roots = Suc n \<and> (\<forall>x\<in>set roots. cc_file_name_valid x True) \<and>
       rest = concat (map root_bytes roots) @ more \<and> r = fold add_root roots found)"
    unfolding Suc.IH length_Suc_conv by fastforce
  finally show ?case .
qed auto

lemma read_files_iff:
  "read_files n found rest = Some (r, more) \<longleftrightarrow>
    (\<exists>files. length files = n \<and> (\<forall>(name, content)\<in>set files. cc_file_name_valid name False \<and> length content < 2 ^ 32) \<and>
       distinct (map fst files) \<and> fst ` set files \<inter> fst ` set found = {} \<and>
       rest = concat (map file_bytes files) @ more \<and> r = found @ files)"
proof (induction n arbitrary: found rest)
  case (Suc n)
  have "read_files (Suc n) found rest = Some (r, more) \<longleftrightarrow>
      (\<exists>name content rest'. rest = file_bytes (name, content) @ rest' \<and> cc_file_name_valid name False \<and>
         length content < 2 ^ 32 \<and> name \<notin> fst ` set found \<and>
         read_files n (found @ [(name, content)]) rest' = Some (r, more))"
    using valid_short [of _ False]
    by (fastforce simp: bind_eq_Some_conv take_counted take_bytes_Some file_bytes_def split: if_splits)
  also have "\<dots> \<longleftrightarrow>
    (\<exists>files. length files = Suc n \<and> (\<forall>(name, content)\<in>set files. cc_file_name_valid name False \<and> length content < 2 ^ 32) \<and>
       distinct (map fst files) \<and> fst ` set files \<inter> fst ` set found = {} \<and>
       rest = concat (map file_bytes files) @ more \<and> r = found @ files)" (is "?L \<longleftrightarrow> ?R")
  proof
    assume ?L
    then obtain name content rest' files where *: "rest = file_bytes (name, content) @ rest'" "cc_file_name_valid name False"
        "length content < 2 ^ 32" "name \<notin> fst ` set found" "length files = n"
        "\<forall>(name, content)\<in>set files. cc_file_name_valid name False \<and> length content < 2 ^ 32" "distinct (map fst files)"
        "fst ` set files \<inter> fst ` set (found @ [(name, content)]) = {}" "rest' = concat (map file_bytes files) @ more"
        "r = (found @ [(name, content)]) @ files"
      unfolding Suc.IH by blast
    then show ?R by (intro exI [of _ "(name, content) # files"]) auto
  next
    assume ?R
    then obtain name content files where "length files = n" "cc_file_name_valid name False" "length content < 2 ^ 32"
        "\<forall>(name, content)\<in>set files. cc_file_name_valid name False \<and> length content < 2 ^ 32"
        "distinct (map fst files)" "name \<notin> fst ` set files" "insert name (fst ` set files) \<inter> fst ` set found = {}"
        "rest = file_bytes (name, content) @ concat (map file_bytes files) @ more" "r = found @ (name, content) # files"
      by (auto simp: length_Suc_conv)
    then show ?L unfolding Suc.IH
      by (intro exI [of _ name] exI [of _ content] exI [of _ "concat (map file_bytes files) @ more"] conjI exI [of _ files]) auto
  qed
  finally show ?case .
qed auto

lemma files_decode_iff:
  "cc_files_decode data = Some (main_file, found_roots, files) \<longleftrightarrow>
    (\<exists>roots. blob_ok main_file roots files \<and> data = blob main_file roots files \<and> found_roots = fold add_root roots [])"
proof -
  have magic: "cc_files_magic data \<longleftrightarrow> (\<exists>rest. data = magic_bytes @ rest)"
  proof
    assume "cc_files_magic data"
    then have "data = magic_bytes @ drop 9 data" by (metis append_take_drop_id cc_files_magic_def)
    then show "\<exists>rest. data = magic_bytes @ rest" by blast
  qed (auto simp: cc_files_magic_def magic_bytes_def bytes_of_def)
  have len: "length magic_bytes = 9" by (simp add: magic_bytes_def)
  show ?thesis
  proof
    assume "cc_files_decode data = Some (main_file, found_roots, files)"
    then obtain count rest1 rest2 roots_count rest3 rest4 where
        "cc_files_magic data" and 1: "take_word (drop 9 data) = Some (count, rest1)" "take_word rest1 = Some (main_file, rest2)"
        "take_word rest2 = Some (roots_count, rest3)" and
        2: "count \<noteq> 0" "count \<le> 1024" "main_file < count" "roots_count \<le> 32" and
        3: "read_roots roots_count [] rest3 = Some (found_roots, rest4)" "read_files count [] rest4 = Some (files, [])"
      unfolding cc_files_decode_def by (auto simp: bind_eq_Some_conv split: if_splits)
    then obtain rest where "data = magic_bytes @ rest" unfolding magic by blast
    moreover obtain roots where "length roots = roots_count" "\<forall>x\<in>set roots. cc_file_name_valid x True"
        "rest3 = concat (map root_bytes roots) @ rest4" "found_roots = fold add_root roots []"
      using 3(1) unfolding read_roots_iff by blast
    moreover have "length files = count" "\<forall>(name, content)\<in>set files. cc_file_name_valid name False \<and> length content < 2 ^ 32"
        "distinct (map fst files)" "rest4 = concat (map file_bytes files)"
      using 3(2) unfolding read_files_iff by auto
    ultimately show "\<exists>roots. blob_ok main_file roots files \<and> data = blob main_file roots files \<and> found_roots = fold add_root roots []"
      using 1 2 by (intro exI [of _ roots]) (simp add: take_counted blob_def blob_ok_def len)
  next
    assume "\<exists>roots. blob_ok main_file roots files \<and> data = blob main_file roots files \<and> found_roots = fold add_root roots []"
    then obtain roots where ok: "blob_ok main_file roots files" and data: "data = blob main_file roots files"
        and found: "found_roots = fold add_root roots []" by blast
    have "cc_files_magic data" using magic data unfolding blob_def by blast
    moreover have "read_roots (length roots) [] (concat (map root_bytes roots) @ concat (map file_bytes files)) =
        Some (found_roots, concat (map file_bytes files))"
      using ok unfolding read_roots_iff found by (auto simp: blob_ok_def)
    moreover have "read_files (length files) [] (concat (map file_bytes files)) = Some (files, [])"
      using ok unfolding read_files_iff by (auto simp: blob_ok_def)
    moreover have "length files < 2 ^ 32" "length files \<noteq> 0" "main_file < 2 ^ 32" "length roots < 2 ^ 32"
      using ok by (auto simp: blob_ok_def)
    ultimately show "cc_files_decode data = Some (main_file, found_roots, files)"
      using ok by (simp add: cc_files_decode_def data blob_def blob_ok_def len)
  qed
qed

section \<open>Properties\<close>

text \<open>
  C37. The decoder accepts exactly the blobs of a main file, at most 32 valid roots and 1 to 1024
  files with valid distinct names, and returns them, each root once: nothing may precede, follow
  or lie between the parts, and no length is trusted beyond the input.
\<close>

theorem files_decode_exact:
  "cc_files_decode data = Some (main_file, found_roots, files) \<longleftrightarrow>
    (\<exists>roots. blob_ok main_file roots files \<and> data = blob main_file roots files \<and> found_roots = fold add_root roots [])"
  by (rule files_decode_iff)

end
