(* ===== verification/GccFiles.thy ===== *)
theory GccFiles
  imports InputFiles Tables
begin

text \<open>
  runtime/gcc/files.c: the file system in memory on which the compiler runs inside the space.
  Files are entries of the table \<open>objects\<close> and a pointer to one is its index; a free entry has no
  name. \<open>fi_data\<close> is the allocated buffer, so its length is the capacity; \<open>fi_size\<close> bytes of it
  are the content. Bytes that \<open>realloc\<close> adds are 0 here; they are written before any operation
  reads them. Allocation always succeeds, and null pointers are not modelled (a null path acts
  as the empty one). Sizes and positions are natural numbers; the invariant proved in GccFilesOk
  bounds them by \<open>INT_MAX\<close>, so no subtraction of the code wraps.
\<close>

datatype errno = ENOENT | ENAMETOOLONG | EBUSY | EINVAL | EFBIG | ENFILE | EISDIR | EEXIST | EACCES | EMFILE
  | EBADF | ENOTDIR | ERANGE | EIO | ESPIPE | ENOTTY | ENOSYS | ENOMEM | EOVERFLOW

definition FD_COUNT :: nat where [simp]: "FD_COUNT = 64"
definition PATH_BYTES :: nat where [simp]: "PATH_BYTES = 4097"
definition INT_MAX :: nat where "INT_MAX = 2147483647"

definition CS_FS_READ :: u32 where "CS_FS_READ = 1"
definition CS_FS_WRITE :: u32 where "CS_FS_WRITE = 2"
definition CS_FS_CREATE :: u32 where "CS_FS_CREATE = 4"
definition CS_FS_TRUNC :: u32 where "CS_FS_TRUNC = 8"
definition CS_FS_APPEND :: u32 where "CS_FS_APPEND = 16"
definition CS_FS_EXCL :: u32 where "CS_FS_EXCL = 32"

section \<open>State\<close>

record fs_file =
  fi_name :: "string option"
  fi_data :: "u8 list"
  fi_size :: nat
  fi_references :: nat
  fi_readonly :: bool
  fi_linked :: bool

definition no_file :: fs_file where
  "no_file = \<lparr>fi_name = None, fi_data = [], fi_size = 0, fi_references = 0, fi_readonly = False, fi_linked = False\<rparr>"

record descriptor =
  de_object :: "nat option"
  de_position :: nat
  de_flags :: u32

definition no_descriptor :: descriptor where
  "no_descriptor = \<lparr>de_object = None, de_position = 0, de_flags = 0\<rparr>"

record filesystem =
  fs_objects :: "fs_file list"
  fs_handles :: "descriptor list"
  fs_directories :: "string option list"
  fs_open_directories :: nat

definition empty_fs :: filesystem where
  "empty_fs = \<lparr>fs_objects = replicate CC_FILES_MAX no_file, fs_handles = replicate FD_COUNT no_descriptor,
     fs_directories = replicate CC_FILES_MAX None, fs_open_directories = 0\<rparr>"

type_synonym 'a fs_result = "filesystem \<times> (errno + 'a)"

section \<open>Paths\<close>

definition parent :: "string \<Rightarrow> string" where
  "parent out = rev (drop 1 (dropWhile (\<lambda>c. c \<noteq> CHR ''/'') (rev out)))"

definition path_tail :: "string \<Rightarrow> string" where
  "path_tail path = dropWhile (\<lambda>c. c \<noteq> CHR ''/'') (dropWhile (\<lambda>c. c = CHR ''/'') path)"

definition path_head :: "string \<Rightarrow> string" where
  "path_head path = takeWhile (\<lambda>c. c \<noteq> CHR ''/'') (dropWhile (\<lambda>c. c = CHR ''/'') path)"

lemma path_tail_shorter: "path \<noteq> [] \<Longrightarrow> length (path_tail path) < length path"
proof -
  assume "path \<noteq> []"
  then obtain c cs where path: "path = c # cs" by (cases path) auto
  show ?thesis
  proof (cases "c = CHR ''/''")
    case True
    have "length (path_tail path) \<le> length cs"
      using length_dropWhile_le [of "\<lambda>c. c \<noteq> CHR ''/''" "dropWhile (\<lambda>c. c = CHR ''/'') cs"]
        length_dropWhile_le [of "\<lambda>c. c = CHR ''/''" cs] True
      by (simp add: path_tail_def path)
    then show ?thesis by (simp add: path)
  next
    case False
    then show ?thesis using length_dropWhile_le [of "\<lambda>c. c \<noteq> CHR ''/''" cs] by (simp add: path_tail_def path)
  qed
qed

function normalize_from :: "string \<Rightarrow> string \<Rightarrow> errno + string" where
  "normalize_from out path =
     (if path = [] then Inr out
      else let part = path_head path; more = path_tail path
           in if part = [] \<or> part = ''.'' then normalize_from out more
              else if part = ''..'' then if out = [] then Inl ENOENT else normalize_from (parent out) more
              else let separator = (if out = [] then 0 else 1)
                   in if length out > PATH_BYTES - 1 - separator \<or> length part > PATH_BYTES - 1 - length out - separator
                      then Inl ENAMETOOLONG
                      else normalize_from ((if out = [] then [] else out @ ''/'') @ part) more)"
  by pat_completeness auto

termination
  by (relation "measure (\<lambda>(out, path). length path)") (auto simp: path_tail_shorter)

declare normalize_from.simps [simp del]

definition normalize :: "string \<Rightarrow> errno + string" where
  "normalize path = (if path = [] then Inl ENOENT else normalize_from [] path)"

definition with_path :: "string \<Rightarrow> (string \<Rightarrow> filesystem \<Rightarrow> 'a fs_result) \<Rightarrow> filesystem \<Rightarrow> 'a fs_result" where
  "with_path path f fs = (case normalize path of Inl e \<Rightarrow> (fs, Inl e) | Inr name \<Rightarrow> f name fs)"

definition file_lookup :: "string \<Rightarrow> filesystem \<Rightarrow> nat option" where
  "file_lookup name fs = index_of (\<lambda>f. fi_linked f \<and> fi_name f = Some name) (fs_objects fs)"

section \<open>Mounting the input files\<close>

definition mounted_file :: "cc_input_file \<Rightarrow> fs_file" where
  "mounted_file = (\<lambda>(name, content). \<lparr>fi_name = Some (text_of name), fi_data = content, fi_size = length content,
     fi_references = 0, fi_readonly = True, fi_linked = True\<rparr>)"

definition cs_gcc_fs_mount :: "u8 list \<Rightarrow> filesystem \<Rightarrow> unit fs_result" where
  "cs_gcc_fs_mount data fs =
     (if fs_open_directories fs \<noteq> 0 then (fs, Inl EBUSY)
      else if list_ex (\<lambda>h. de_object h \<noteq> None) (drop 3 (fs_handles fs)) then (fs, Inl EBUSY)
      else case cc_files_decode data of
          None \<Rightarrow> (fs, Inl EINVAL)
        | Some (main_file, roots, files) \<Rightarrow>
            if list_ex (\<lambda>(name, content). length content > INT_MAX) files then (fs, Inl EFBIG)
            else let released = map (\<lambda>f. if fi_name f = None then f else no_file) (fs_objects fs)
                 in (fs\<lparr>fs_objects := map mounted_file files @ drop (length files) released,
                        fs_directories := replicate CC_FILES_MAX None\<rparr>, Inr ()))"

section \<open>Directories and status\<close>

definition directory_inode :: "string \<Rightarrow> filesystem \<Rightarrow> nat fs_result" where
  "directory_inode name fs =
     (case index_of (\<lambda>d. d = Some name) (fs_directories fs) of
        Some i \<Rightarrow> (fs, Inr (CC_FILES_MAX + 1 + i))
      | None \<Rightarrow> (case index_of (\<lambda>d. d = None) (fs_directories fs) of
          Some i \<Rightarrow> (fs\<lparr>fs_directories := (fs_directories fs)[i := Some name]\<rparr>, Inr (CC_FILES_MAX + 1 + i))
        | None \<Rightarrow> (fs, Inl ENFILE)))"

text \<open>A name below a directory: the directory, a slash and a rest.\<close>

definition below :: "string \<Rightarrow> string \<Rightarrow> bool" where
  "below name p \<longleftrightarrow> take (length name + 1) p = name @ ''/''"

definition is_directory :: "string \<Rightarrow> filesystem \<Rightarrow> bool" where
  "is_directory name fs \<longleftrightarrow> name = [] \<or>
     list_ex (\<lambda>f. fi_linked f \<and> (case fi_name f of None \<Rightarrow> False | Some p \<Rightarrow> below name p)) (fs_objects fs)"

text \<open>The size, whether it is a directory, and the inode.\<close>

definition stat_name :: "string \<Rightarrow> filesystem \<Rightarrow> (nat \<times> bool \<times> nat) fs_result" where
  "stat_name name fs =
     (case file_lookup name fs of
        Some i \<Rightarrow> (fs, Inr (fi_size (fs_objects fs ! i), False, i + 1))
      | None \<Rightarrow>
          if is_directory name fs
          then (case directory_inode name fs of (fs, Inl e) \<Rightarrow> (fs, Inl e) | (fs, Inr inode) \<Rightarrow> (fs, Inr (0, True, inode)))
          else (fs, Inl ENOENT))"

definition cs_gcc_fs_stat :: "string \<Rightarrow> filesystem \<Rightarrow> (nat \<times> bool \<times> nat) fs_result" where
  "cs_gcc_fs_stat path = with_path path stat_name"

section \<open>Opening and closing\<close>

definition free_handle :: "filesystem \<Rightarrow> nat option" where
  "free_handle fs = find (\<lambda>fd. de_object (fs_handles fs ! fd) = None) [3..<FD_COUNT]"

text \<open>The file of an existing or new name; a new name takes the first free entry.\<close>

definition object_for :: "string \<Rightarrow> filesystem \<Rightarrow> nat fs_result" where
  "object_for name fs =
     (case file_lookup name fs of
        Some i \<Rightarrow> (fs, Inr i)
      | None \<Rightarrow> (case index_of (\<lambda>f. fi_name f = None) (fs_objects fs) of
          None \<Rightarrow> (fs, Inl ENFILE)
        | Some i \<Rightarrow> (fs\<lparr>fs_objects := modify i (\<lambda>f. f\<lparr>fi_name := Some name, fi_linked := True\<rparr>) (fs_objects fs)\<rparr>, Inr i)))"

definition open_object :: "nat \<Rightarrow> nat \<Rightarrow> u32 \<Rightarrow> filesystem \<Rightarrow> filesystem" where
  "open_object fd i flags fs =
     fs\<lparr>fs_objects := modify i (\<lambda>f. f\<lparr>fi_size := (if flags AND CS_FS_TRUNC \<noteq> 0 then 0 else fi_size f),
          fi_references := fi_references f + 1\<rparr>) (fs_objects fs),
        fs_handles := (fs_handles fs)[fd := \<lparr>de_object = Some i, de_position = 0, de_flags = flags\<rparr>]\<rparr>"

definition open_name :: "string \<Rightarrow> u32 \<Rightarrow> filesystem \<Rightarrow> nat fs_result" where
  "open_name name flags fs =
     (let found = file_lookup name fs
      in if found \<noteq> None \<and> flags AND CS_FS_CREATE \<noteq> 0 \<and> flags AND CS_FS_EXCL \<noteq> 0 then (fs, Inl EEXIST)
         else if (case found of None \<Rightarrow> False | Some i \<Rightarrow> fi_readonly (fs_objects fs ! i)) \<and> flags AND CS_FS_WRITE \<noteq> 0
         then (fs, Inl EACCES)
         else if found = None \<and> flags AND CS_FS_CREATE = 0 then (fs, Inl ENOENT)
         else case free_handle fs of
             None \<Rightarrow> (fs, Inl EMFILE)
           | Some fd \<Rightarrow> (case object_for name fs of
               (fs, Inl e) \<Rightarrow> (fs, Inl e)
             | (fs, Inr i) \<Rightarrow> (open_object fd i flags fs, Inr fd)))"

definition flags_valid :: "u32 \<Rightarrow> bool" where
  "flags_valid flags \<longleftrightarrow>
     flags AND NOT (CS_FS_READ OR CS_FS_WRITE OR CS_FS_CREATE OR CS_FS_TRUNC OR CS_FS_APPEND OR CS_FS_EXCL) = 0 \<and>
     flags AND (CS_FS_READ OR CS_FS_WRITE) \<noteq> 0 \<and>
     (flags AND (CS_FS_TRUNC OR CS_FS_APPEND) \<noteq> 0 \<longrightarrow> flags AND CS_FS_WRITE \<noteq> 0)"

definition cs_gcc_fs_open :: "string \<Rightarrow> u32 \<Rightarrow> filesystem \<Rightarrow> nat fs_result" where
  "cs_gcc_fs_open path flags fs =
     (if \<not> flags_valid flags then (fs, Inl EINVAL)
      else with_path path (\<lambda>name fs. case cs_gcc_fs_stat path fs of
          (fs, Inr (bytes, True, inode)) \<Rightarrow> (fs, Inl EISDIR)
        | (fs, r) \<Rightarrow> open_name name flags fs) fs)"

definition handle_object :: "int \<Rightarrow> filesystem \<Rightarrow> (nat \<times> nat) option" where
  "handle_object fd fs =
     (if fd < 3 \<or> fd \<ge> int FD_COUNT then None else map_option (Pair (nat fd)) (de_object (fs_handles fs ! nat fd)))"

text \<open>\<open>get\<close>: the descriptor and its file, or \<open>EBADF\<close>.\<close>

definition with_handle :: "int \<Rightarrow> (nat \<Rightarrow> nat \<Rightarrow> filesystem \<Rightarrow> 'a fs_result) \<Rightarrow> filesystem \<Rightarrow> 'a fs_result" where
  "with_handle fd f fs = (case handle_object fd fs of None \<Rightarrow> (fs, Inl EBADF) | Some (h, i) \<Rightarrow> f h i fs)"

definition close_object :: "fs_file \<Rightarrow> fs_file" where
  "close_object f =
     (let f = f\<lparr>fi_references := fi_references f - 1\<rparr> in if \<not> fi_linked f \<and> fi_references f = 0 then no_file else f)"

definition cs_gcc_fs_close :: "int \<Rightarrow> filesystem \<Rightarrow> unit fs_result" where
  "cs_gcc_fs_close fd = with_handle fd (\<lambda>h i fs.
     (fs\<lparr>fs_handles := (fs_handles fs)[h := no_descriptor], fs_objects := modify i close_object (fs_objects fs)\<rparr>, Inr ()))"

section \<open>Reading, writing and seeking\<close>

definition set_position :: "nat \<Rightarrow> nat \<Rightarrow> filesystem \<Rightarrow> filesystem" where
  "set_position h position fs = fs\<lparr>fs_handles := modify h (\<lambda>d. d\<lparr>de_position := position\<rparr>) (fs_handles fs)\<rparr>"

definition cs_gcc_fs_read :: "int \<Rightarrow> nat \<Rightarrow> filesystem \<Rightarrow> u8 list fs_result" where
  "cs_gcc_fs_read fd amount = with_handle fd (\<lambda>h i fs.
     let d = fs_handles fs ! h; f = fs_objects fs ! i;
         left = (if de_position d < fi_size f then fi_size f - de_position d else 0);
         count = (if amount < left then amount else left)
     in if de_flags d AND CS_FS_READ = 0 then (fs, Inl EBADF)
        else if amount > INT_MAX then (fs, Inl EINVAL)
        else (set_position h (de_position d + count) fs, Inr (take count (drop (de_position d) (fi_data f)))))"

text \<open>The buffer after the write: grown to \<open>end\<close>, a gap before \<open>position\<close> cleared, the bytes in place.\<close>

definition written :: "nat \<Rightarrow> u8 list \<Rightarrow> fs_file \<Rightarrow> fs_file" where
  "written position bytes f =
     (let stop = position + length bytes;
          grown = fi_data f @ replicate (stop - length (fi_data f)) 0;
          cleared = (if position > fi_size f
            then take (fi_size f) grown @ replicate (position - fi_size f) 0 @ drop position grown else grown)
      in f\<lparr>fi_data := take position cleared @ bytes @ drop stop cleared,
           fi_size := (if stop > fi_size f then stop else fi_size f)\<rparr>)"

definition cs_gcc_fs_write :: "int \<Rightarrow> u8 list \<Rightarrow> filesystem \<Rightarrow> nat fs_result" where
  "cs_gcc_fs_write fd bytes = with_handle fd (\<lambda>h i fs.
     let d = fs_handles fs ! h; f = fs_objects fs ! i;
         position = (if de_flags d AND CS_FS_APPEND \<noteq> 0 then fi_size f else de_position d)
     in if de_flags d AND CS_FS_WRITE = 0 then (fs, Inl EBADF)
        else if length bytes > INT_MAX then (fs, Inl EINVAL)
        else if bytes = [] then (fs, Inr 0)
        else if length bytes > INT_MAX - position then (fs, Inl EFBIG)
        else (set_position h (position + length bytes)
               (fs\<lparr>fs_objects := modify i (written position bytes) (fs_objects fs)\<rparr>), Inr (length bytes)))"

definition cs_gcc_fs_seek :: "int \<Rightarrow> int \<Rightarrow> int \<Rightarrow> filesystem \<Rightarrow> nat fs_result" where
  "cs_gcc_fs_seek fd offset origin = with_handle fd (\<lambda>h i fs.
     let base = (if origin = 0 then Some 0
            else if origin = 1 then Some (int (de_position (fs_handles fs ! h)))
            else if origin = 2 then Some (int (fi_size (fs_objects fs ! i))) else None)
     in case base of
          None \<Rightarrow> (fs, Inl EINVAL)
        | Some base \<Rightarrow>
            if offset < - base \<or> offset > int INT_MAX - base then (fs, Inl EINVAL)
            else (set_position h (nat (base + offset)) fs, Inr (nat (base + offset))))"

definition cs_gcc_fs_fstat :: "int \<Rightarrow> filesystem \<Rightarrow> (nat \<times> nat) fs_result" where
  "cs_gcc_fs_fstat fd = with_handle fd (\<lambda>h i fs. (fs, Inr (fi_size (fs_objects fs ! i), i + 1)))"

section \<open>Operations on paths\<close>

definition with_file :: "string \<Rightarrow> (nat \<Rightarrow> filesystem \<Rightarrow> 'a fs_result) \<Rightarrow> filesystem \<Rightarrow> 'a fs_result" where
  "with_file path f = with_path path (\<lambda>name fs. case file_lookup name fs of None \<Rightarrow> (fs, Inl ENOENT) | Some i \<Rightarrow> f i fs)"

definition unlink_object :: "fs_file \<Rightarrow> fs_file" where
  "unlink_object f = (if fi_references f = 0 then no_file else f\<lparr>fi_linked := False\<rparr>)"

definition cs_gcc_fs_unlink :: "string \<Rightarrow> filesystem \<Rightarrow> unit fs_result" where
  "cs_gcc_fs_unlink path = with_file path (\<lambda>i fs.
     if fi_readonly (fs_objects fs ! i) then (fs, Inl EACCES)
     else (fs\<lparr>fs_objects := modify i unlink_object (fs_objects fs)\<rparr>, Inr ()))"

definition content :: "fs_file \<Rightarrow> u8 list" where
  "content f = take (fi_size f) (fi_data f)"

definition cs_gcc_fs_output :: "string \<Rightarrow> filesystem \<Rightarrow> u8 list fs_result" where
  "cs_gcc_fs_output path = with_file path (\<lambda>i fs. (fs, Inr (content (fs_objects fs ! i))))"

text \<open>The buffer of the caller becomes the buffer of the file.\<close>

definition cs_gcc_fs_replace_owned :: "string \<Rightarrow> u8 list \<Rightarrow> filesystem \<Rightarrow> unit fs_result" where
  "cs_gcc_fs_replace_owned path data fs =
     (if length data > INT_MAX then (fs, Inl EFBIG)
      else with_file path (\<lambda>i fs.
        let f = fs_objects fs ! i
        in if fi_readonly f then (fs, Inl EACCES)
           else if fi_references f \<noteq> 0 then (fs, Inl EBUSY)
           else (fs\<lparr>fs_objects := modify i (\<lambda>f. f\<lparr>fi_data := data, fi_size := length data\<rparr>) (fs_objects fs)\<rparr>, Inr ())) fs)"

definition cs_gcc_fs_directory_open :: "string \<Rightarrow> filesystem \<Rightarrow> unit fs_result" where
  "cs_gcc_fs_directory_open path fs =
     (case cs_gcc_fs_stat path fs of
        (fs, Inl e) \<Rightarrow> (fs, Inl e)
      | (fs, Inr (bytes, directory, inode)) \<Rightarrow>
          if \<not> directory then (fs, Inl ENOTDIR)
          else if fs_open_directories fs = 2 ^ 32 - 1 then (fs, Inl EMFILE)
          else (fs\<lparr>fs_open_directories := fs_open_directories fs + 1\<rparr>, Inr ()))"

definition cs_gcc_fs_access :: "string \<Rightarrow> bool \<Rightarrow> bool \<Rightarrow> filesystem \<Rightarrow> unit fs_result" where
  "cs_gcc_fs_access path for_write execute fs =
     (case cs_gcc_fs_stat path fs of
        (fs, Inl e) \<Rightarrow> (fs, Inl e)
      | (fs, Inr (bytes, directory, inode)) \<Rightarrow>
          if directory then (fs, Inr ())
          else with_file path (\<lambda>i fs. if execute \<or> for_write \<and> fi_readonly (fs_objects fs ! i) then (fs, Inl EACCES)
            else (fs, Inr ())) fs)"

definition cs_gcc_fs_directory_close :: "filesystem \<Rightarrow> filesystem" where
  "cs_gcc_fs_directory_close fs = fs\<lparr>fs_open_directories := fs_open_directories fs - 1\<rparr>"

section \<open>Listing a directory\<close>

text \<open>The part of a linked name below the directory.\<close>

definition child :: "string \<Rightarrow> fs_file \<Rightarrow> string option" where
  "child base f =
     (case fi_name f of
        None \<Rightarrow> None
      | Some name \<Rightarrow> if \<not> fi_linked f then None else if base = [] then Some name
                    else if below base name then Some (drop (length base + 1) name) else None)"

definition first_part :: "string \<Rightarrow> string" where
  "first_part part = takeWhile (\<lambda>c. c \<noteq> CHR ''/'') part"

text \<open>An earlier entry of the table already has this name.\<close>

definition listed_before :: "string \<Rightarrow> fs_file list \<Rightarrow> string \<Rightarrow> bool" where
  "listed_before base earlier part = list_ex (\<lambda>f. case child base f of
     None \<Rightarrow> False
   | Some previous \<Rightarrow> take (length part) previous = part \<and>
       (length previous = length part \<or> previous ! length part = CHR ''/'')) earlier"

function next_entry :: "string \<Rightarrow> nat \<Rightarrow> nat \<Rightarrow> filesystem \<Rightarrow> (nat \<times> (string \<times> nat \<times> bool) option) fs_result" where
  "next_entry base i capacity fs =
     (if i \<ge> CC_FILES_MAX then (fs, Inr (CC_FILES_MAX, None))
      else case child base (fs_objects fs ! i) of
          None \<Rightarrow> next_entry base (i + 1) capacity fs
        | Some part \<Rightarrow>
            if part = [] then next_entry base (i + 1) capacity fs
            else let name = first_part part
                 in if listed_before base (take i (fs_objects fs)) name then next_entry base (i + 1) capacity fs
                    else if length name \<ge> capacity then (fs, Inl ERANGE)
                    else if length name < length part
                    then (case directory_inode ((if base = [] then [] else base @ ''/'') @ name) fs of
                        (fs, Inl e) \<Rightarrow> (fs, Inl e)
                      | (fs, Inr inode) \<Rightarrow> (fs, Inr (i + 1, Some (name, inode, True))))
                    else (fs, Inr (i + 1, Some (name, i + 1, False))))"
  by pat_completeness auto

termination
  by (relation "measure (\<lambda>(base, i, capacity, fs). CC_FILES_MAX - i)") auto

declare next_entry.simps [simp del]

text \<open>The next entry from a cursor: the new cursor, and the name, inode and kind, or nothing at the end.\<close>

definition cs_gcc_fs_directory_next ::
  "string \<Rightarrow> nat \<Rightarrow> nat \<Rightarrow> filesystem \<Rightarrow> (nat \<times> (string \<times> nat \<times> bool) option) fs_result" where
  "cs_gcc_fs_directory_next path cursor capacity fs =
     (if cursor > CC_FILES_MAX then (fs, Inl EINVAL)
      else with_path path (\<lambda>base. next_entry base cursor capacity) fs)"

end
