(* ===== verification/GccPaths.thy ===== *)
theory GccPaths
  imports GccFiles
begin

text \<open>
  The paths of the file system (\<open>normalize\<close> in runtime/gcc/files.c): the loop over the characters
  agrees with resolving the list of components, and its results are the normal names, on which
  it is the identity.
\<close>

section \<open>Components\<close>

fun join :: "string list \<Rightarrow> string" where
  "join [] = []"
| "join [p] = p"
| "join (p # q # ps) = p @ ''/'' @ join (q # ps)"

definition good_part :: "string \<Rightarrow> bool" where
  "good_part p \<longleftrightarrow> p \<noteq> [] \<and> p \<noteq> ''.'' \<and> p \<noteq> ''..'' \<and> CHR ''/'' \<notin> set p"

definition normal_name :: "string \<Rightarrow> bool" where
  "normal_name s \<longleftrightarrow> length s \<le> 4096 \<and> (\<exists>ps. list_all good_part ps \<and> s = join ps)"

text \<open>The reference: components are pushed on a stack and \<open>..\<close> pops it.\<close>

fun resolve :: "string list \<Rightarrow> string list \<Rightarrow> errno + string list" where
  "resolve acc [] = Inr acc"
| "resolve acc (p # ps) =
     (if p = [] \<or> p = ''.'' then resolve acc ps
      else if p = ''..'' then if acc = [] then Inl ENOENT else resolve (butlast acc) ps
      else if length (join (acc @ [p])) > 4096 then Inl ENAMETOOLONG
      else resolve (acc @ [p]) ps)"

lemma join_Cons: "join (p # ps) = (if ps = [] then p else p @ ''/'' @ join ps)"
  by (cases ps) auto

lemma join_snoc: "join (ps @ [p]) = (if ps = [] then p else join ps @ ''/'' @ p)"
  by (induction ps) (auto simp: join_Cons)

lemma join_Nil: "list_all good_part ps \<Longrightarrow> join ps = [] \<longleftrightarrow> ps = []"
  by (cases ps) (auto simp: join_Cons good_part_def)

lemma parent_join: "list_all good_part ps \<Longrightarrow> parent (join ps) = join (butlast ps)"
proof (cases ps rule: rev_cases)
  case (snoc qs p)
  assume "list_all good_part ps"
  then have p: "\<And>c. c \<in> set (rev p) \<Longrightarrow> c \<noteq> CHR ''/''" by (auto simp: snoc good_part_def)
  have drop: "dropWhile (\<lambda>c. c \<noteq> CHR ''/'') (rev p @ xs) = dropWhile (\<lambda>c. c \<noteq> CHR ''/'') xs" for xs
    by (rule dropWhile_append2) (use p in blast)
  show ?thesis
  proof (cases "qs = []")
    case True
    then show ?thesis using p by (simp add: snoc parent_def dropWhile_eq_Nil_conv [THEN iffD2])
  next
    case False
    then have "rev (join ps) = rev p @ CHR ''/'' # rev (join qs)" by (simp add: snoc join_snoc)
    then have "dropWhile (\<lambda>c. c \<noteq> CHR ''/'') (rev (join ps)) = CHR ''/'' # rev (join qs)" using drop by simp
    then show ?thesis by (simp add: snoc parent_def)
  qed
qed (simp add: parent_def)

section \<open>The loop and the reference\<close>

lemma resolve_slashes:
  "resolve acc (split_on CHR ''/'' s) = resolve acc (split_on CHR ''/'' (dropWhile (\<lambda>c. c = CHR ''/'') s))"
  by (induction s) auto

lemma resolve_path:
  "resolve acc (split_on CHR ''/'' s) = resolve acc (path_head s # split_on CHR ''/'' (path_tail s))"
proof -
  have *: "split_on CHR ''/'' (path_tail s) =
      [] # (case path_tail s of [] \<Rightarrow> [] | y # ys \<Rightarrow> split_on CHR ''/'' ys)"
  proof (cases "path_tail s")
    case (Cons y ys)
    then have "y = CHR ''/''" using hd_dropWhile [of "\<lambda>c. c \<noteq> CHR ''/''"] unfolding path_tail_def by (metis list.sel(1) list.discI)
    then show ?thesis by (simp add: Cons)
  qed simp
  have "resolve acc (split_on CHR ''/'' s) = resolve acc (path_head s # (case path_tail s of [] \<Rightarrow> [] | y # ys \<Rightarrow> split_on CHR ''/'' ys))"
    unfolding resolve_slashes [of acc s] by (subst split_on_head) (simp only: path_head_def path_tail_def)
  then show ?thesis unfolding * by simp
qed

lemma path_head_no_slash: "CHR ''/'' \<notin> set (path_head s)"
  unfolding path_head_def by (auto dest: set_takeWhileD)

lemma normalize_from_resolve:
  "list_all good_part acc \<Longrightarrow> length (join acc) \<le> 4096 \<Longrightarrow>
    normalize_from (join acc) path = map_sum id join (resolve acc (split_on CHR ''/'' path))"
proof (induction "length path" arbitrary: acc path rule: less_induct)
  case less
  show ?case
  proof (cases "path = []")
    case False
    define part where "part = path_head path"
    define more where "more = path_tail path"
    have IH: "list_all good_part acc' \<Longrightarrow> length (join acc') \<le> 4096 \<Longrightarrow>
        normalize_from (join acc') more = map_sum id join (resolve acc' (split_on CHR ''/'' more))" for acc'
      using less.hyps [OF path_tail_shorter [OF False]] by (simp add: more_def)
    have rhs: "resolve acc (split_on CHR ''/'' path) = resolve acc (part # split_on CHR ''/'' more)"
      by (simp add: part_def more_def resolve_path [of acc path])
    have lhs: "normalize_from (join acc) path =
      (if part = [] \<or> part = ''.'' then normalize_from (join acc) more
       else if part = ''..'' then if acc = [] then Inl ENOENT else normalize_from (join (butlast acc)) more
       else if length (join (acc @ [part])) > 4096 then Inl ENAMETOOLONG
       else normalize_from (join (acc @ [part])) more)"
      using False less.prems(2)
      by (subst normalize_from.simps)
        (auto simp: Let_def part_def more_def join_Nil less.prems(1) parent_join less.prems(1) join_snoc)
    have butlast: "list_all good_part (butlast acc)" "length (join (butlast acc)) \<le> 4096"
      using less.prems by (cases acc rule: rev_cases; auto simp: join_snoc split: if_splits)+
    have "part \<noteq> [] \<Longrightarrow> part \<noteq> ''.'' \<Longrightarrow> part \<noteq> ''..'' \<Longrightarrow> good_part part"
      by (simp add: good_part_def part_def path_head_no_slash)
    then show ?thesis unfolding lhs rhs
      using IH [OF less.prems] IH [OF butlast] IH [of "acc @ [part]"] less.prems(1) by (cases "acc = []") auto
  qed (simp add: normalize_from.simps)
qed

lemma resolve_good:
  "resolve acc ps = Inr qs \<Longrightarrow> list_all good_part acc \<Longrightarrow> \<forall>p\<in>set ps. CHR ''/'' \<notin> set p \<Longrightarrow> length (join acc) \<le> 4096 \<Longrightarrow>
    list_all good_part qs \<and> length (join qs) \<le> 4096"
proof (induction acc ps rule: resolve.induct)
  case (2 acc p ps)
  have "list_all good_part (butlast acc)" "length (join (butlast acc)) \<le> 4096"
    using "2.prems"(2,4) by (cases acc rule: rev_cases; auto simp: join_snoc split: if_splits)+
  moreover have "p \<noteq> [] \<Longrightarrow> p \<noteq> ''.'' \<Longrightarrow> p \<noteq> ''..'' \<Longrightarrow> good_part p" using "2.prems"(3) by (simp add: good_part_def)
  ultimately show ?case using "2.prems" "2.IH" by (simp split: if_splits)
qed auto

lemma resolve_parts:
  "list_all good_part ps \<Longrightarrow> length (join (acc @ ps)) \<le> 4096 \<Longrightarrow> resolve acc ps = Inr (acc @ ps)"
proof (induction ps arbitrary: acc)
  case (Cons p ps)
  have "length (join (acc @ [p])) \<le> length (join (acc @ p # ps))"
    by (induction acc) (auto simp: join_Cons)
  then show ?case using Cons by (auto simp: good_part_def)
qed simp

lemma split_on_join: "ps \<noteq> [] \<Longrightarrow> list_all good_part ps \<Longrightarrow> split_on CHR ''/'' (join ps) = ps"
proof (induction ps rule: join.induct)
  case (2 p)
  then have "\<forall>c\<in>set p. c \<noteq> CHR ''/''" by (auto simp: good_part_def)
  then show ?case by (subst split_on_head) (simp add: takeWhile_eq_all_conv [THEN iffD2] dropWhile_eq_Nil_conv [THEN iffD2])
next
  case (3 p q ps)
  then have p: "\<forall>c\<in>set p. c \<noteq> CHR ''/''" by (auto simp: good_part_def)
  then have "takeWhile (\<lambda>c. c \<noteq> CHR ''/'') (p @ CHR ''/'' # join (q # ps)) = p"
    "dropWhile (\<lambda>c. c \<noteq> CHR ''/'') (p @ CHR ''/'' # join (q # ps)) = CHR ''/'' # join (q # ps)"
    by (simp_all add: takeWhile_append2 dropWhile_append2)
  then show ?case using 3 by (subst split_on_head) simp
qed simp

lemma normalize_eq:
  "normalize path = (if path = [] then Inl ENOENT else map_sum id join (resolve [] (split_on CHR ''/'' path)))"
  using normalize_from_resolve [of "[]" path] by (simp add: normalize_def)

lemma normalize_normal_name: "normalize path = Inr name \<Longrightarrow> normal_name name"
  using resolve_good [of "[]" "split_on CHR ''/'' path"] split_on_no_sep [of _ "CHR ''/''" path]
  by (cases "resolve [] (split_on CHR ''/'' path)")
    (auto simp: normalize_eq normal_name_def split: if_splits)

lemma normalize_of_normal: "normal_name name \<Longrightarrow> name \<noteq> [] \<Longrightarrow> normalize name = Inr name"
proof -
  assume "normal_name name" and ne: "name \<noteq> []"
  then obtain ps where ps: "list_all good_part ps" "name = join ps" "length name \<le> 4096" by (auto simp: normal_name_def)
  with ne have "ps \<noteq> []" by auto
  then show "normalize name = Inr name"
    using ps ne resolve_parts [of ps "[]"] split_on_join [of ps] by (simp add: normalize_eq)
qed

lemma join_split_on: "join (split_on CHR ''/'' s) = s"
proof (induction s)
  case (Cons c cs)
  then show ?case using split_on_not_Nil [of "CHR ''/''" cs]
    by (cases "split_on CHR ''/'' cs") (auto simp: join_Cons)
qed simp

lemma split_on_map: "inj f \<Longrightarrow> split_on (f x) (map f s) = map (map f) (split_on x s)"
proof (induction s)
  case (Cons y ys)
  then show ?case using split_on_not_Nil [of x ys] by (cases "split_on x ys") (auto simp: inj_eq)
qed simp

section \<open>Properties\<close>

text \<open>
  C38. The loop of \<open>normalize\<close>, which copies the path character by character and backs up over
  \<open>..\<close>, computes what resolving the list of components on a stack computes, with the same errors:
  going above the root, and a name that grows beyond 4096 characters.
\<close>

theorem normalize_resolves:
  "normalize path = (if path = [] then Inl ENOENT else map_sum id join (resolve [] (split_on CHR ''/'' path)))"
  by (rule normalize_eq)

text \<open>
  A normalized name has no empty component, no \<open>.\<close> or \<open>..\<close>, no leading or trailing slash and at
  most 4096 characters; and normalizing a normal name changes nothing, so two paths lead to the
  same file exactly when their normal names are equal.
\<close>

theorem normalize_normal:
  assumes "normalize path = Inr name"
  shows "normal_name name \<and> (name = [] \<or> normalize name = Inr name)"
  using normalize_normal_name [OF assms] normalize_of_normal by blast

theorem normalize_normal_witness:
  "normal_name ''a/c'' \<and> normalize ''a/c'' = Inr ''a/c''"
proof -
  have "normalize ''//a/./b/../c/'' = Inr ''a/c''" by (simp add: normalize_eq)
  from normalize_normal [OF this] show ?thesis by simp
qed

end
