(* ===== verification/GccFilesOk.thy ===== *)
theory GccFilesOk
  imports GccPaths
begin

text \<open>
  The invariant of the file system of runtime/gcc/files.c and what its operations mean. The
  invariant ties the two tables together: reference counts are the numbers of open descriptors,
  descriptors point to live files, linked names are distinct normal names, sizes stay within the
  buffers and \<open>INT_MAX\<close>, and no descriptor writes to a read-only file.
\<close>

section \<open>The invariant\<close>

definition object_ok :: "fs_file \<Rightarrow> bool" where
  "object_ok f \<longleftrightarrow> fi_size f \<le> length (fi_data f) \<and> length (fi_data f) \<le> INT_MAX \<and>
     (case fi_name f of None \<Rightarrow> f = no_file | Some name \<Rightarrow> normal_name name \<and> (fi_linked f \<or> 0 < fi_references f))"

definition handle_ok :: "fs_file list \<Rightarrow> descriptor \<Rightarrow> bool" where
  "handle_ok objects d \<longleftrightarrow>
     (case de_object d of
        None \<Rightarrow> True
      | Some i \<Rightarrow> i < CC_FILES_MAX \<and> fi_name (objects ! i) \<noteq> None \<and> de_position d \<le> INT_MAX \<and>
          (de_flags d AND CS_FS_WRITE \<noteq> 0 \<longrightarrow> \<not> fi_readonly (objects ! i)))"

definition open_count :: "descriptor list \<Rightarrow> nat \<Rightarrow> nat" where
  "open_count handles i = length (filter (\<lambda>d. de_object d = Some i) handles)"

definition names_distinct :: "fs_file list \<Rightarrow> bool" where
  "names_distinct objects \<longleftrightarrow>
     (\<forall>i < length objects. \<forall>j < length objects. fi_linked (objects ! i) \<and> fi_linked (objects ! j) \<and>
        fi_name (objects ! i) = fi_name (objects ! j) \<longrightarrow> i = j)"

definition fs_ok :: "filesystem \<Rightarrow> bool" where
  "fs_ok fs \<longleftrightarrow>
     length (fs_objects fs) = CC_FILES_MAX \<and> length (fs_handles fs) = FD_COUNT \<and>
     length (fs_directories fs) = CC_FILES_MAX \<and>
     (\<forall>f\<in>set (fs_objects fs). object_ok f) \<and>
     (\<forall>d\<in>set (fs_handles fs). handle_ok (fs_objects fs) d) \<and>
     (\<forall>i < CC_FILES_MAX. fi_references (fs_objects fs ! i) = open_count (fs_handles fs) i) \<and>
     names_distinct (fs_objects fs) \<and> (\<forall>h < 3. de_object (fs_handles fs ! h) = None)"

lemma fs_okD:
  assumes "fs_ok fs"
  shows "length (fs_objects fs) = CC_FILES_MAX" and "length (fs_handles fs) = FD_COUNT"
    and "length (fs_directories fs) = CC_FILES_MAX"
    and "i < CC_FILES_MAX \<Longrightarrow> object_ok (fs_objects fs ! i)"
    and "h < FD_COUNT \<Longrightarrow> handle_ok (fs_objects fs) (fs_handles fs ! h)"
    and "i < CC_FILES_MAX \<Longrightarrow> fi_references (fs_objects fs ! i) = open_count (fs_handles fs) i"
    and "names_distinct (fs_objects fs)" and "h < 3 \<Longrightarrow> de_object (fs_handles fs ! h) = None"
  using assms by (auto simp: fs_ok_def)

lemma fs_okI:
  assumes "length (fs_objects fs) = CC_FILES_MAX" and "length (fs_handles fs) = FD_COUNT"
    and "length (fs_directories fs) = CC_FILES_MAX"
    and "\<And>i. i < CC_FILES_MAX \<Longrightarrow> object_ok (fs_objects fs ! i)"
    and "\<And>h. h < FD_COUNT \<Longrightarrow> handle_ok (fs_objects fs) (fs_handles fs ! h)"
    and "\<And>i. i < CC_FILES_MAX \<Longrightarrow> fi_references (fs_objects fs ! i) = open_count (fs_handles fs) i"
    and "names_distinct (fs_objects fs)" and "\<And>h. h < 3 \<Longrightarrow> de_object (fs_handles fs ! h) = None"
  shows "fs_ok fs"
  using assms by (auto simp: fs_ok_def in_set_conv_nth)

lemma open_count_update:
  "h < length hs \<Longrightarrow>
    open_count (hs[h := d]) i + of_bool (de_object (hs ! h) = Some i) = open_count hs i + of_bool (de_object d = Some i)"
proof -
  assume h: "h < length hs"
  have "open_count (take h hs @ x # drop (Suc h) hs) i =
      open_count (take h hs) i + of_bool (de_object x = Some i) + open_count (drop (Suc h) hs) i" for x
    by (simp add: open_count_def)
  from this [of d] this [of "hs ! h"] show ?thesis
    using h by (simp add: upd_conv_take_nth_drop id_take_nth_drop [symmetric])
qed

lemma empty_fs_ok: "fs_ok empty_fs"
  by (rule fs_okI) (auto simp: empty_fs_def no_file_def no_descriptor_def object_ok_def handle_ok_def open_count_def
      names_distinct_def INT_MAX_def)

section \<open>Changes of one file\<close>

lemma names_distinct_modify:
  assumes distinct: "names_distinct objects"
    and new: "\<And>j. i < length objects \<Longrightarrow> j < length objects \<Longrightarrow> j \<noteq> i \<Longrightarrow> fi_linked (g (objects ! i)) \<Longrightarrow> fi_linked (objects ! j) \<Longrightarrow>
        fi_name (g (objects ! i)) \<noteq> fi_name (objects ! j)"
  shows "names_distinct (modify i g objects)"
  unfolding names_distinct_def length_modify
proof (intro allI impI, elim conjE)
  fix j k
  assume jk: "j < length objects" "k < length objects" and linked: "fi_linked (modify i g objects ! j)" "fi_linked (modify i g objects ! k)"
    and same: "fi_name (modify i g objects ! j) = fi_name (modify i g objects ! k)"
  show "j = k"
  proof (cases "j = i \<or> k = i")
    case True
    then show ?thesis using jk linked same new [of j] new [of k] by (auto simp: nth_modify split: if_splits)
  next
    case False
    then show ?thesis using jk linked same distinct unfolding names_distinct_def by (auto simp: nth_modify)
  qed
qed

text \<open>A change of the content alone.\<close>

lemma fs_ok_modify:
  assumes ok: "fs_ok fs" and i: "i < CC_FILES_MAX"
    and g: "object_ok (g (fs_objects fs ! i))" "fi_name (g (fs_objects fs ! i)) = fi_name (fs_objects fs ! i)"
      "fi_linked (g (fs_objects fs ! i)) = fi_linked (fs_objects fs ! i)"
      "fi_references (g (fs_objects fs ! i)) = fi_references (fs_objects fs ! i)"
      "fi_readonly (g (fs_objects fs ! i)) = fi_readonly (fs_objects fs ! i)"
  shows "fs_ok (fs\<lparr>fs_objects := modify i g (fs_objects fs)\<rparr>)"
proof (rule fs_okI)
  note D = fs_okD [OF ok]
  have nth: "modify i g (fs_objects fs) ! j = (if i = j then g (fs_objects fs ! j) else fs_objects fs ! j)"
    if "j < CC_FILES_MAX" for j using that D(1) by (simp add: nth_modify)
  show "handle_ok (fs_objects (fs\<lparr>fs_objects := modify i g (fs_objects fs)\<rparr>))
      (fs_handles (fs\<lparr>fs_objects := modify i g (fs_objects fs)\<rparr>) ! h)" if "h < FD_COUNT" for h
    using D(5) [OF that] g by (auto simp: handle_ok_def nth split: option.splits)
  show "names_distinct (fs_objects (fs\<lparr>fs_objects := modify i g (fs_objects fs)\<rparr>))"
    using names_distinct_modify [OF D(7), of i g] D(1,7) g i by (fastforce simp: names_distinct_def)
qed (use fs_okD [OF ok] g i in \<open>auto simp: nth_modify\<close>)

lemma fs_ok_directories:
  assumes "fs_ok fs" and "length ds = CC_FILES_MAX"
  shows "fs_ok (fs\<lparr>fs_directories := ds\<rparr>)"
  using assms by (auto simp: fs_ok_def)

lemma fs_ok_open_directories: "fs_ok fs \<Longrightarrow> fs_ok (fs\<lparr>fs_open_directories := n\<rparr>)"
  by (auto simp: fs_ok_def)

lemma fs_ok_position:
  assumes ok: "fs_ok fs" and "position \<le> INT_MAX" and h: "h < FD_COUNT"
  shows "fs_ok (set_position h position fs)"
proof (rule fs_okI)
  note D = fs_okD [OF ok]
  show "handle_ok (fs_objects (set_position h position fs)) (fs_handles (set_position h position fs) ! k)"
    if "k < FD_COUNT" for k
    using D(5) [OF that] D(2) that assms(2) by (auto simp: set_position_def handle_ok_def nth_modify split: option.splits)
  have "open_count (modify h (\<lambda>d. d\<lparr>de_position := position\<rparr>) (fs_handles fs)) i = open_count (fs_handles fs) i" for i
    using open_count_update [of h "fs_handles fs" "(fs_handles fs ! h)\<lparr>de_position := position\<rparr>" i] D(2) h
    by (simp add: modify_def)
  then show "fi_references (fs_objects (set_position h position fs) ! i) =
      open_count (fs_handles (set_position h position fs)) i" if "i < CC_FILES_MAX" for i
    using D(6) [OF that] by (simp add: set_position_def)
  show "de_object (fs_handles (set_position h position fs) ! k) = None" if "k < 3" for k
    using D(8) [OF that] D(2) that by (simp add: set_position_def nth_modify)
qed (use fs_okD(1-7) [OF ok] in \<open>auto simp: set_position_def\<close>)


section \<open>Looking up, opening and closing\<close>

lemma file_lookup_Some:
  assumes "fs_ok fs" and "file_lookup name fs = Some i"
  shows "i < CC_FILES_MAX" and "fi_linked (fs_objects fs ! i)" and "fi_name (fs_objects fs ! i) = Some name"
  using index_of_Some [OF assms(2) [unfolded file_lookup_def]] fs_okD(1) [OF assms(1)] by auto

lemma file_lookup_None:
  assumes "fs_ok fs" and "file_lookup name fs = None" and "i < CC_FILES_MAX" and "fi_linked (fs_objects fs ! i)"
  shows "fi_name (fs_objects fs ! i) \<noteq> Some name"
  using assms fs_okD(1) [OF assms(1)] by (auto simp: file_lookup_def index_of_None)

lemma object_for_ok:
  assumes ok: "fs_ok fs" and name: "normal_name name" and result: "object_for name fs = (fs', Inr i)"
  shows "fs_ok fs' \<and> i < CC_FILES_MAX \<and> fi_name (fs_objects fs' ! i) = Some name \<and>
    fi_linked (fs_objects fs' ! i) \<and> fs_handles fs' = fs_handles fs \<and>
    (file_lookup name fs = None \<longrightarrow> \<not> fi_readonly (fs_objects fs' ! i)) \<and> (file_lookup name fs \<noteq> None \<longrightarrow> fs' = fs \<and> file_lookup name fs = Some i)"
proof (cases "file_lookup name fs")
  case (Some k)
  then show ?thesis using result file_lookup_Some [OF ok Some] ok by (simp add: object_for_def)
next
  case None
  define g where "g = (\<lambda>f::fs_file. f\<lparr>fi_name := Some name, fi_linked := True\<rparr>)"
  from result None have k: "index_of (\<lambda>f. fi_name f = None) (fs_objects fs) = Some i"
      and fs': "fs' = fs\<lparr>fs_objects := modify i g (fs_objects fs)\<rparr>"
    by (auto simp: object_for_def g_def split: option.splits)
  note D = fs_okD [OF ok]
  have i: "i < CC_FILES_MAX" "fi_name (fs_objects fs ! i) = None" using index_of_Some [OF k] D(1) by auto
  then have free: "fs_objects fs ! i = no_file" using D(4) [OF i(1)] by (simp add: object_ok_def)
  have gi: "g (fs_objects fs ! i) = no_file\<lparr>fi_name := Some name, fi_linked := True\<rparr>" by (simp add: g_def free)
  have "fs_ok fs'"
  proof (rule fs_okI)
    have "object_ok (g (fs_objects fs ! i))" unfolding gi using name by (simp add: object_ok_def no_file_def)
    then show "object_ok (fs_objects fs' ! j)" if "j < CC_FILES_MAX" for j
      using D(1) D(4) [OF that] that by (cases "i = j") (simp_all add: fs' nth_modify)
    show "handle_ok (fs_objects fs') (fs_handles fs' ! h)" if "h < FD_COUNT" for h
      using D(5) [OF that] D(1) i(2) by (auto simp: fs' handle_ok_def nth_modify split: option.splits)
    show "fi_references (fs_objects fs' ! j) = open_count (fs_handles fs') j" if "j < CC_FILES_MAX" for j
      using D(6) [OF that] D(1) that by (auto simp: fs' nth_modify g_def)
    show "names_distinct (fs_objects fs')"
      unfolding fs' using names_distinct_modify [OF D(7), of i g] file_lookup_None [OF ok None] D(1)
      by (fastforce simp: g_def)
  qed (simp_all add: fs' D(1-3,8))
  then show ?thesis using i(1) D(1) by (simp add: fs' nth_modify gi no_file_def None)
qed

lemma find_upt_Some: "find P [a..<b] = Some i \<Longrightarrow> a \<le> i \<and> i < b \<and> P i" for a b :: nat
  by (auto simp: find_Some_iff)

lemma free_handle_Some:
  assumes "free_handle fs = Some fd"
  shows "3 \<le> fd" and "fd < FD_COUNT" and "de_object (fs_handles fs ! fd) = None"
  using find_upt_Some [OF assms [unfolded free_handle_def]] by simp_all

lemma open_object_ok:
  assumes ok: "fs_ok fs" and i: "i < CC_FILES_MAX" and fd: "fd < FD_COUNT" "3 \<le> fd" "de_object (fs_handles fs ! fd) = None"
    and name: "fi_name (fs_objects fs ! i) \<noteq> None" and writable: "flags AND CS_FS_WRITE \<noteq> 0 \<longrightarrow> \<not> fi_readonly (fs_objects fs ! i)"
  shows "fs_ok (open_object fd i flags fs)"
proof (rule fs_okI)
  note D = fs_okD [OF ok]
  define g where "g = (\<lambda>f::fs_file. f\<lparr>fi_size := (if flags AND CS_FS_TRUNC \<noteq> 0 then 0 else fi_size f), fi_references := fi_references f + 1\<rparr>)"
  have objects: "fs_objects (open_object fd i flags fs) = modify i g (fs_objects fs)"
    and handles: "fs_handles (open_object fd i flags fs) = (fs_handles fs)[fd := \<lparr>de_object = Some i, de_position = 0, de_flags = flags\<rparr>]"
    and directories: "fs_directories (open_object fd i flags fs) = fs_directories fs"
    by (simp_all add: open_object_def g_def)
  show "object_ok (fs_objects (open_object fd i flags fs) ! j)" if "j < CC_FILES_MAX" for j
    using D(4) [OF that] D(1) that name by (auto simp: objects nth_modify g_def object_ok_def)
  show "handle_ok (fs_objects (open_object fd i flags fs)) (fs_handles (open_object fd i flags fs) ! h)" if "h < FD_COUNT" for h
    using D(5) [OF that] D(1,2) that i name writable
    by (cases "h = fd") (auto simp: objects handles handle_ok_def nth_modify g_def split: option.splits)
  show "fi_references (fs_objects (open_object fd i flags fs) ! j) = open_count (fs_handles (open_object fd i flags fs)) j"
    if "j < CC_FILES_MAX" for j
    using D(6) [OF that] D(1,2) that fd open_count_update [of fd "fs_handles fs" "\<lparr>de_object = Some i, de_position = 0, de_flags = flags\<rparr>" j]
    by (auto simp: objects handles nth_modify g_def)
  show "names_distinct (fs_objects (open_object fd i flags fs))"
    unfolding objects by (rule names_distinct_modify [OF D(7)]) (use D(7) in \<open>auto simp: g_def names_distinct_def\<close>)
  show "de_object (fs_handles (open_object fd i flags fs) ! h) = None" if "h < 3" for h
    using D(8) [OF that] fd(2) that by (simp add: handles)
qed (use fs_okD(1-3) [OF ok] in \<open>simp_all add: open_object_def\<close>)

lemma handle_object_Some:
  assumes ok: "fs_ok fs" and "handle_object fd fs = Some (h, i)"
  shows "h < FD_COUNT" and "3 \<le> h" and "i < CC_FILES_MAX" and "de_object (fs_handles fs ! h) = Some i"
    and "fi_name (fs_objects fs ! i) \<noteq> None" and "de_position (fs_handles fs ! h) \<le> INT_MAX"
    and "de_flags (fs_handles fs ! h) AND CS_FS_WRITE \<noteq> 0 \<Longrightarrow> \<not> fi_readonly (fs_objects fs ! i)"
proof -
  have h: "h < FD_COUNT" "3 \<le> h" "de_object (fs_handles fs ! h) = Some i" using assms(2) by (auto simp: handle_object_def split: if_splits)
  then show "h < FD_COUNT" "3 \<le> h" "de_object (fs_handles fs ! h) = Some i" .
  from fs_okD(5) [OF ok h(1)] h(3) show "i < CC_FILES_MAX" "fi_name (fs_objects fs ! i) \<noteq> None"
    "de_position (fs_handles fs ! h) \<le> INT_MAX"
    "de_flags (fs_handles fs ! h) AND CS_FS_WRITE \<noteq> 0 \<Longrightarrow> \<not> fi_readonly (fs_objects fs ! i)"
    by (auto simp: handle_ok_def)
qed

lemma close_ok:
  assumes ok: "fs_ok fs" and handle: "handle_object fd fs = Some (h, i)"
  shows "fs_ok (fs\<lparr>fs_handles := (fs_handles fs)[h := no_descriptor], fs_objects := modify i close_object (fs_objects fs)\<rparr>)"
    (is "fs_ok ?fs")
proof (rule fs_okI)
  note D = fs_okD [OF ok]
  note H = handle_object_Some [OF ok handle]
  have count: "open_count ((fs_handles fs)[h := no_descriptor]) j + of_bool (j = i) = open_count (fs_handles fs) j" for j
    using open_count_update [of h "fs_handles fs" no_descriptor j] H(1,4) D(2) by (auto simp: no_descriptor_def)
  have refs: "fi_references (fs_objects fs ! i) = open_count ((fs_handles fs)[h := no_descriptor]) i + 1"
    using count [of i] D(6) [OF H(3)] by simp
  show "object_ok (fs_objects ?fs ! j)" if "j < CC_FILES_MAX" for j
    using D(4) [OF that] D(1) that H(5) refs
    by (auto simp: nth_modify close_object_def Let_def object_ok_def no_file_def INT_MAX_def split: option.splits)
  show "fi_references (fs_objects ?fs ! j) = open_count (fs_handles ?fs) j" if "j < CC_FILES_MAX" for j
    using D(6) [OF that] D(1) that count [of j] refs
    by (auto simp: nth_modify close_object_def Let_def no_file_def split: if_splits)
  have other: "de_object (fs_handles fs ! k) \<noteq> Some i" if "k < FD_COUNT" "k \<noteq> h"
      "\<not> fi_linked (fs_objects fs ! i) \<and> fi_references (fs_objects fs ! i) - 1 = 0" for k
  proof
    assume "de_object (fs_handles fs ! k) = Some i"
    then have "fs_handles fs ! k \<in> set (filter (\<lambda>d. de_object d = Some i) ((fs_handles fs)[h := no_descriptor]))"
      using that(1,2) D(2) nth_mem [of k "(fs_handles fs)[h := no_descriptor]"] by simp
    then show False using refs that(3) by (auto simp: open_count_def filter_empty_conv)
  qed
  show "handle_ok (fs_objects ?fs) (fs_handles ?fs ! k)" if k: "k < FD_COUNT" for k
  proof (cases "k = h")
    case True
    then show ?thesis using D(2) k by (simp add: handle_ok_def no_descriptor_def)
  next
    case False
    then show ?thesis using D(5) [OF k] D(1,2) k other [OF k False]
      by (auto simp: handle_ok_def nth_modify close_object_def Let_def split: option.splits)
  qed
  have linked: "fi_linked (close_object f) \<Longrightarrow> fi_linked f \<and> fi_name (close_object f) = fi_name f" for f
    by (auto simp: close_object_def no_file_def Let_def split: if_splits)
  show "names_distinct (fs_objects ?fs)"
    by (simp, rule names_distinct_modify [OF D(7)]) (use linked D(7) in \<open>fastforce simp: names_distinct_def\<close>)
  show "de_object (fs_handles ?fs ! k) = None" if "k < 3" for k
    using D(8) [OF that] H(2) that by simp
qed (use fs_okD(1-3) [OF ok] in simp_all)

lemma unlink_ok:
  assumes ok: "fs_ok fs" and i: "i < CC_FILES_MAX" and name: "fi_name (fs_objects fs ! i) \<noteq> None"
  shows "fs_ok (fs\<lparr>fs_objects := modify i unlink_object (fs_objects fs)\<rparr>)" (is "fs_ok ?fs")
proof (rule fs_okI)
  note D = fs_okD [OF ok]
  show "object_ok (fs_objects ?fs ! j)" if "j < CC_FILES_MAX" for j
    using D(4) [OF that] D(1) that name
    by (auto simp: nth_modify unlink_object_def object_ok_def no_file_def INT_MAX_def split: option.splits)
  show "fi_references (fs_objects ?fs ! j) = open_count (fs_handles ?fs) j" if "j < CC_FILES_MAX" for j
    using D(6) [OF that] D(1) that by (auto simp: nth_modify unlink_object_def no_file_def)
  have unused: "de_object (fs_handles fs ! k) \<noteq> Some i" if "k < FD_COUNT" "fi_references (fs_objects fs ! i) = 0" for k
    using that D(6) [OF i] D(2) by (auto simp: open_count_def filter_empty_conv)
  show "handle_ok (fs_objects ?fs) (fs_handles ?fs ! k)" if k: "k < FD_COUNT" for k
    using D(5) [OF k] D(1,2) k unused [OF k] by (auto simp: handle_ok_def nth_modify unlink_object_def split: option.splits)
  show "names_distinct (fs_objects ?fs)"
    by (simp, rule names_distinct_modify [OF D(7)]) (simp add: unlink_object_def no_file_def split: if_splits)
qed (use fs_okD(1-3,8) [OF ok] in simp_all)

section \<open>Mounting\<close>

lemma inj_byte_char: "inj (\<lambda>b::u8. char_of (unat b) :: char)"
proof (rule injI)
  fix a b :: u8
  assume "char_of (unat a) = (char_of (unat b) :: char)"
  then have "bytes_of (text_of [a]) = bytes_of (text_of [b])" by (simp only: text_of_def list.map)
  then show "a = b" by simp
qed

lemma text_of_eq: "text_of a = text_of b \<longleftrightarrow> a = b"
  by (metis bytes_of_text_of)

lemma valid_name_normal:
  assumes "cc_file_name_valid name False"
  shows "normal_name (text_of name)"
proof -
  have valid: "name \<noteq> []" "length name \<le> 4096"
      "\<And>part. part \<in> set (split_on slash name) \<Longrightarrow> part \<noteq> [] \<and> part \<noteq> [dot] \<and> part \<noteq> [dot, dot]"
    using assms by (auto simp: cc_file_name_valid_def list_all_iff split: if_splits)
  have ascii: "text_of [slash] = ''/''" "text_of [dot] = ''.''" "text_of [dot, dot] = ''..''"
    using text_of_bytes_of [of "''/''"] text_of_bytes_of [of "''.''"] text_of_bytes_of [of "''..''"]
    by (simp_all add: bytes_of_def slash_def dot_def)
  then have "char_of (unat slash) = CHR ''/''" by (simp add: text_of_def)
  then have parts: "split_on CHR ''/'' (text_of name) = map text_of (split_on slash name)"
    using split_on_map [OF inj_byte_char, of slash name] by (simp add: text_of_def)
  have "good_part p" if mem: "p \<in> set (split_on CHR ''/'' (text_of name))" for p
  proof -
    obtain part where part: "p = text_of part" "part \<in> set (split_on slash name)" using mem unfolding parts by auto
    have "text_of [] = []" by (simp add: text_of_def)
    then show ?thesis using ascii valid(3) [OF part(2)] split_on_no_sep [OF mem] text_of_eq
      unfolding good_part_def part(1) by metis
  qed
  then show ?thesis
    using valid(2) join_split_on [of "text_of name"] unfolding normal_name_def
    by (auto simp: list_all_iff intro!: exI [of _ "split_on CHR ''/'' (text_of name)"])
qed

lemma mount_ok:
  assumes ok: "fs_ok fs"
  shows "fs_ok (fst (cs_gcc_fs_mount data fs))"
proof (cases "\<exists>main_file roots files. fs_open_directories fs = 0 \<and> \<not> list_ex (\<lambda>h. de_object h \<noteq> None) (drop 3 (fs_handles fs)) \<and>
    cc_files_decode data = Some (main_file, roots, files) \<and> \<not> list_ex (\<lambda>(name, content). length content > INT_MAX) files")
  case False
  then have "fst (cs_gcc_fs_mount data fs) = fs" by (auto simp: cs_gcc_fs_mount_def split: option.splits)
  then show ?thesis using ok by simp
next
  case True
  then obtain main_file roots files where closed: "\<not> list_ex (\<lambda>h. de_object h \<noteq> None) (drop 3 (fs_handles fs))"
      and decode: "cc_files_decode data = Some (main_file, roots, files)"
      and short: "\<not> list_ex (\<lambda>(name, content). length content > INT_MAX) files" and "fs_open_directories fs = 0" by blast
  define released where "released = map (\<lambda>f. if fi_name f = None then f else no_file) (fs_objects fs)"
  define fs' where "fs' = fs\<lparr>fs_objects := map mounted_file files @ drop (length files) released,
    fs_directories := replicate CC_FILES_MAX None\<rparr>"
  have fs': "fst (cs_gcc_fs_mount data fs) = fs'"
    using True closed decode short by (simp add: cs_gcc_fs_mount_def fs'_def released_def)
  note D = fs_okD [OF ok]
  obtain roots0 where blob: "blob_ok main_file roots0 files" using decode unfolding files_decode_iff by blast
  have free: "de_object (fs_handles fs ! h) = None" if "h < FD_COUNT" for h
  proof (cases "h < 3")
    case False
    then have "fs_handles fs ! h \<in> set (drop 3 (fs_handles fs))"
      using nth_mem [of "h - 3" "drop 3 (fs_handles fs)"] that D(2) by simp
    then show ?thesis using closed by (auto simp: list_ex_iff)
  qed (use D(8) in blast)
  have object: "object_ok f \<and> fi_references f = 0 \<and> (fi_linked f \<longrightarrow> f \<in> set (map mounted_file files))" if mem: "f \<in> set (fs_objects fs')" for f
  proof -
    consider x where "x \<in> set files" "f = mounted_file x" | "f \<in> set released"
      using mem by (auto simp: fs'_def dest: in_set_dropD)
    then show ?thesis
    proof cases
      case 1
      then have "normal_name (text_of (fst x))" "length (snd x) \<le> INT_MAX"
        using blob short valid_name_normal by (auto simp: blob_ok_def list_ex_iff not_less)
      with 1 show ?thesis by (auto simp: mounted_file_def object_ok_def split: prod.splits)
    next
      case 2
      have "fs_objects fs ! i = no_file" if "i < CC_FILES_MAX" "fi_name (fs_objects fs ! i) = None" for i
        using D(4) [OF that(1)] that(2) by (simp add: object_ok_def)
      then have "f = no_file" using 2 D(1) unfolding released_def by (auto simp: in_set_conv_nth)
      then show ?thesis by (simp add: no_file_def object_ok_def INT_MAX_def)
    qed
  qed
  have len: "length (fs_objects fs') = CC_FILES_MAX" using D(1) blob by (simp add: fs'_def released_def blob_ok_def)
  have mounted: "fs_objects fs' ! i = mounted_file (files ! i)" if "i < length files" for i using that by (simp add: fs'_def nth_append)
  have rest: "\<not> fi_linked (fs_objects fs' ! i)" if "length files \<le> i" "i < CC_FILES_MAX" for i
  proof -
    have "fs_objects fs' ! i = released ! i" using that D(1) by (simp add: fs'_def nth_append released_def)
    then show ?thesis using D(4) [OF that(2)] D(1) that by (auto simp: released_def object_ok_def no_file_def split: option.splits)
  qed
  have "fs_ok fs'"
  proof (rule fs_okI)
    show "names_distinct (fs_objects fs')"
      unfolding names_distinct_def len
    proof (intro allI impI, elim conjE)
      fix i j assume ij: "i < CC_FILES_MAX" "j < CC_FILES_MAX" "fi_linked (fs_objects fs' ! i)" "fi_linked (fs_objects fs' ! j)"
        "fi_name (fs_objects fs' ! i) = fi_name (fs_objects fs' ! j)"
      then have "i < length files" "j < length files" using rest by (metis not_less)+
      then show "i = j" using ij(5) mounted blob nth_eq_iff_index_eq [of "map fst files" i j]
        by (auto simp: mounted_file_def text_of_eq blob_ok_def split: prod.splits)
    qed
    have "open_count (fs_handles fs') i = 0" for i
      using free D(2) by (auto simp: fs'_def open_count_def filter_empty_conv in_set_conv_nth)
    then show "fi_references (fs_objects fs' ! i) = open_count (fs_handles fs') i" if "i < CC_FILES_MAX" for i
      using object [of "fs_objects fs' ! i"] that len by simp
    show "handle_ok (fs_objects fs') (fs_handles fs' ! h)" if "h < FD_COUNT" for h
      using free [OF that] by (simp add: fs'_def handle_ok_def)
    show "de_object (fs_handles fs' ! h) = None" if "h < 3" for h using D(8) [OF that] by (simp add: fs'_def)
    show "object_ok (fs_objects fs' ! i)" if "i < CC_FILES_MAX" for i
      using object [of "fs_objects fs' ! i"] that len by simp
  qed (use len D(2) in \<open>simp_all add: fs'_def\<close>)
  then show ?thesis unfolding fs' .
qed

end
