(* ===== verification/GccFilesRun.thy ===== *)
theory GccFilesRun
  imports GccFilesOk
begin

text \<open>
  Runs of the file system of runtime/gcc/files.c: every operation keeps the invariant of
  GccFilesOk, and reading and writing have the effect on the content of a file that the
  descriptor position prescribes.
\<close>

section \<open>Steps\<close>

inductive fs_step :: "filesystem \<Rightarrow> filesystem \<Rightarrow> bool" where
  step_mount: "fs_step fs (fst (cs_gcc_fs_mount data fs))"
| step_stat: "fs_step fs (fst (cs_gcc_fs_stat path fs))"
| step_open: "fs_step fs (fst (cs_gcc_fs_open path flags fs))"
| step_close: "fs_step fs (fst (cs_gcc_fs_close fd fs))"
| step_read: "fs_step fs (fst (cs_gcc_fs_read fd amount fs))"
| step_write: "fs_step fs (fst (cs_gcc_fs_write fd bytes fs))"
| step_seek: "fs_step fs (fst (cs_gcc_fs_seek fd offset origin fs))"
| step_fstat: "fs_step fs (fst (cs_gcc_fs_fstat fd fs))"
| step_unlink: "fs_step fs (fst (cs_gcc_fs_unlink path fs))"
| step_output: "fs_step fs (fst (cs_gcc_fs_output path fs))"
| step_replace: "fs_step fs (fst (cs_gcc_fs_replace_owned path data fs))"
| step_access: "fs_step fs (fst (cs_gcc_fs_access path for_write execute fs))"
| step_directory_open: "fs_step fs (fst (cs_gcc_fs_directory_open path fs))"
| step_directory_next: "fs_step fs (fst (cs_gcc_fs_directory_next path cursor capacity fs))"
| step_directory_close: "fs_step fs (cs_gcc_fs_directory_close fs)"

inductive fs_reachable :: "filesystem \<Rightarrow> bool" where
  start: "fs_reachable empty_fs"
| step: "fs_reachable fs \<Longrightarrow> fs_step fs fs' \<Longrightarrow> fs_reachable fs'"

section \<open>Every operation keeps the invariant\<close>

lemma with_path_ok:
  "fs_ok fs \<Longrightarrow> (\<And>name. normal_name name \<Longrightarrow> fs_ok (fst (f name fs))) \<Longrightarrow> fs_ok (fst (with_path path f fs))"
  by (auto simp: with_path_def normalize_normal_name split: sum.splits)

lemma with_handle_ok:
  "fs_ok fs \<Longrightarrow> (\<And>h i. handle_object fd fs = Some (h, i) \<Longrightarrow> fs_ok (fst (f h i fs))) \<Longrightarrow> fs_ok (fst (with_handle fd f fs))"
  by (auto simp: with_handle_def split: option.splits)

lemma with_file_ok:
  assumes "fs_ok fs"
    and "\<And>name i. file_lookup name fs = Some i \<Longrightarrow> i < CC_FILES_MAX \<Longrightarrow> fi_name (fs_objects fs ! i) = Some name \<Longrightarrow> fs_ok (fst (f i fs))"
  shows "fs_ok (fst (with_file path f fs))"
  unfolding with_file_def
  by (rule with_path_ok [OF assms(1)])
    (use assms file_lookup_Some [OF assms(1)] in \<open>auto split: option.splits\<close>)

lemma directory_inode_ok: "fs_ok fs \<Longrightarrow> fs_ok (fst (directory_inode name fs))"
  using fs_okD(3) [of fs] by (auto simp: directory_inode_def fs_ok_directories split: option.splits)

lemma stat_name_ok: "fs_ok fs \<Longrightarrow> fs_ok (fst (stat_name name fs))"
  using directory_inode_ok [of fs name]
  by (auto simp: stat_name_def split: option.splits prod.splits sum.splits)

lemma stat_ok: "fs_ok fs \<Longrightarrow> fs_ok (fst (cs_gcc_fs_stat path fs))"
  unfolding cs_gcc_fs_stat_def by (rule with_path_ok) (auto intro: stat_name_ok)

lemma open_name_ok:
  assumes ok: "fs_ok fs" and name: "normal_name name"
  shows "fs_ok (fst (open_name name flags fs))"
proof -
  obtain fs1 r where object: "object_for name fs = (fs1, r)" by fastforce
  have failed: "fs1 = fs" if "r = Inl e" for e
    using object that by (auto simp: object_for_def split: option.splits)
  have opened: "fs_ok (open_object fd i flags fs1)"
    if handle: "free_handle fs = Some fd" and r: "r = Inr i"
      and writable: "flags AND CS_FS_WRITE \<noteq> 0 \<Longrightarrow> file_lookup name fs = Some i \<Longrightarrow> \<not> fi_readonly (fs_objects fs ! i)" for fd i
  proof -
    note F = object_for_ok [OF ok name object [unfolded r]]
    show ?thesis
      by (rule open_object_ok) (use F writable free_handle_Some [OF handle] in \<open>auto\<close>)
  qed
  show ?thesis
  proof (cases r)
    case (Inl e)
    then show ?thesis using ok object failed by (simp add: open_name_def Let_def split: option.split)
  next
    case (Inr i)
    have "file_lookup name fs \<noteq> None \<Longrightarrow> file_lookup name fs = Some i" using object_for_ok [OF ok name object [unfolded Inr]] by simp
    then show ?thesis using ok object Inr opened
      by (cases "file_lookup name fs") (auto simp: open_name_def Let_def split: option.split)
  qed
qed

lemma open_ok:
  assumes ok: "fs_ok fs"
  shows "fs_ok (fst (cs_gcc_fs_open path flags fs))"
proof (cases "flags_valid flags")
  case True
  obtain fs' r where stat: "cs_gcc_fs_stat path fs = (fs', r)" by fastforce
  have ok': "fs_ok fs'" using stat_ok [OF ok, of path] stat by simp
  show ?thesis
    unfolding cs_gcc_fs_open_def using True stat open_name_ok [OF ok'] ok'
    by (simp, intro with_path_ok [OF ok]) (auto split: sum.splits bool.splits prod.splits)
qed (simp add: cs_gcc_fs_open_def ok)

lemma close_file_ok: "fs_ok fs \<Longrightarrow> fs_ok (fst (cs_gcc_fs_close fd fs))"
  unfolding cs_gcc_fs_close_def by (rule with_handle_ok) (auto intro: close_ok)

lemma read_ok:
  assumes ok: "fs_ok fs"
  shows "fs_ok (fst (cs_gcc_fs_read fd amount fs))"
  unfolding cs_gcc_fs_read_def
proof (rule with_handle_ok [OF ok])
  fix h i assume handle: "handle_object fd fs = Some (h, i)"
  note H = handle_object_Some [OF ok handle]
  have "fi_size (fs_objects fs ! i) \<le> INT_MAX" using fs_okD(4) [OF ok H(3)] by (simp add: object_ok_def)
  then show "fs_ok (fst (let d = fs_handles fs ! h; f = fs_objects fs ! i;
       left = if de_position d < fi_size f then fi_size f - de_position d else 0; count = if amount < left then amount else left
     in if de_flags d AND CS_FS_READ = 0 then (fs, Inl EBADF) else if INT_MAX < amount then (fs, Inl EINVAL)
        else (set_position h (de_position d + count) fs, Inr (take count (drop (de_position d) (fi_data f))))))"
    using H(1,6) ok by (auto simp: Let_def intro!: fs_ok_position)
qed

lemma length_written:
  "fi_size f \<le> length (fi_data f) \<Longrightarrow> length (fi_data (written position bytes f)) = max (length (fi_data f)) (position + length bytes)"
  by (auto simp: written_def Let_def max_def)

lemma written_fields:
  "fi_name (written position bytes f) = fi_name f" "fi_linked (written position bytes f) = fi_linked f"
  "fi_references (written position bytes f) = fi_references f" "fi_readonly (written position bytes f) = fi_readonly f"
  "fi_size (written position bytes f) = max (fi_size f) (position + length bytes)"
  by (simp_all add: written_def Let_def max_def)

lemma written_ok:
  assumes "object_ok f" and "fi_name f \<noteq> None" and "position + length bytes \<le> INT_MAX"
  shows "object_ok (written position bytes f)"
  using assms length_written [of f position bytes] by (auto simp: object_ok_def written_fields split: option.splits)

lemma write_ok:
  assumes ok: "fs_ok fs"
  shows "fs_ok (fst (cs_gcc_fs_write fd bytes fs))"
  unfolding cs_gcc_fs_write_def
proof (rule with_handle_ok [OF ok])
  fix h i assume handle: "handle_object fd fs = Some (h, i)"
  note H = handle_object_Some [OF ok handle]
  have written: "fs_ok (set_position h (position + length bytes) (fs\<lparr>fs_objects := modify i (written position bytes) (fs_objects fs)\<rparr>))"
    if "\<not> length bytes > INT_MAX - position" "bytes \<noteq> []" for position
  proof -
    have bound: "position + length bytes \<le> INT_MAX" using that by (cases bytes) auto
    show ?thesis
      by (intro fs_ok_position fs_ok_modify ok H(1,3) written_ok fs_okD(4) [OF ok] bound H(5)) (simp_all add: written_fields)
  qed
  show "fs_ok (fst (let d = fs_handles fs ! h; f = fs_objects fs ! i;
         position = if de_flags d AND CS_FS_APPEND \<noteq> 0 then fi_size f else de_position d
       in if de_flags d AND CS_FS_WRITE = 0 then (fs, Inl EBADF) else if INT_MAX < length bytes then (fs, Inl EINVAL)
          else if bytes = [] then (fs, Inr 0) else if INT_MAX - position < length bytes then (fs, Inl EFBIG)
          else (set_position h (position + length bytes) (fs\<lparr>fs_objects := modify i (written position bytes) (fs_objects fs)\<rparr>),
                Inr (length bytes))))"
    using ok written by (simp add: Let_def)
qed

lemma seek_ok:
  assumes ok: "fs_ok fs"
  shows "fs_ok (fst (cs_gcc_fs_seek fd offset origin fs))"
  unfolding cs_gcc_fs_seek_def
  by (rule with_handle_ok [OF ok])
    (auto simp: Let_def ok split: option.splits intro!: fs_ok_position dest: handle_object_Some [OF ok])

lemma unlink_file_ok:
  assumes ok: "fs_ok fs"
  shows "fs_ok (fst (cs_gcc_fs_unlink path fs))"
  unfolding cs_gcc_fs_unlink_def by (rule with_file_ok [OF ok]) (auto simp: ok intro!: unlink_ok)

lemma replace_content_ok:
  assumes ok: "fs_ok fs" and i: "i < CC_FILES_MAX" "fi_name (fs_objects fs ! i) = Some name" and "length data \<le> INT_MAX"
  shows "fs_ok (fs\<lparr>fs_objects := modify i (\<lambda>f. f\<lparr>fi_data := data, fi_size := length data\<rparr>) (fs_objects fs)\<rparr>)"
  by (rule fs_ok_modify [OF ok i(1)]) (use fs_okD(4) [OF ok i(1)] i(2) assms(4) in \<open>simp_all add: object_ok_def\<close>)

lemma replace_ok:
  assumes ok: "fs_ok fs"
  shows "fs_ok (fst (cs_gcc_fs_replace_owned path data fs))"
proof (cases "length data > INT_MAX")
  case False
  have "fs_ok (fst (with_file path (\<lambda>i fs. let f = fs_objects fs ! i
        in if fi_readonly f then (fs, Inl EACCES)
           else if fi_references f \<noteq> 0 then (fs, Inl EBUSY)
           else (fs\<lparr>fs_objects := modify i (\<lambda>f. f\<lparr>fi_data := data, fi_size := length data\<rparr>) (fs_objects fs)\<rparr>, Inr ())) fs))"
    by (rule with_file_ok [OF ok]) (use replace_content_ok [OF ok] False ok in \<open>auto simp: Let_def\<close>)
  then show ?thesis using False by (simp add: cs_gcc_fs_replace_owned_def)
qed (simp add: cs_gcc_fs_replace_owned_def ok)

lemma directory_open_ok:
  assumes "fs_ok fs"
  shows "fs_ok (fst (cs_gcc_fs_directory_open path fs))"
  using stat_ok [OF assms, of path]
  by (auto simp: cs_gcc_fs_directory_open_def fs_ok_open_directories split: prod.splits sum.splits)

lemma access_ok:
  assumes "fs_ok fs"
  shows "fs_ok (fst (cs_gcc_fs_access path for_write execute fs))"
proof -
  obtain fs' r where stat: "cs_gcc_fs_stat path fs = (fs', r)" by fastforce
  have ok': "fs_ok fs'" using stat_ok [OF assms, of path] stat by simp
  have "fs_ok (fst (with_file path (\<lambda>i fs. if execute \<or> for_write \<and> fi_readonly (fs_objects fs ! i) then (fs, Inl EACCES) else (fs, Inr ())) fs'))"
    by (rule with_file_ok [OF ok']) (simp add: ok')
  then show ?thesis using stat ok' by (simp add: cs_gcc_fs_access_def split: sum.splits prod.splits)
qed

lemma next_entry_ok: "fs_ok fs \<Longrightarrow> fs_ok (fst (next_entry base i capacity fs))"
proof (induction base i capacity fs rule: next_entry.induct)
  case (1 base i capacity fs)
  note unfold = next_entry.simps [of base i capacity fs]
  show ?case
  proof (cases "i \<ge> CC_FILES_MAX")
    case False
    show ?thesis
    proof (cases "child base (fs_objects fs ! i)")
      case None
      then show ?thesis unfolding unfold using "1.IH"(1) [OF False None "1.prems"] False by simp
    next
      case (Some part)
      obtain fs' r where inode: "directory_inode ((if base = [] then [] else base @ ''/'') @ first_part part) fs = (fs', r)"
        by fastforce
      have "fs_ok fs'" using directory_inode_ok [OF "1.prems"] inode by (metis fst_conv)
      then show ?thesis unfolding unfold
        using "1.IH"(2) [OF False Some _ "1.prems"] "1.IH"(3) [OF False Some _ refl _ "1.prems"] "1.prems" False Some inode
        by (simp add: Let_def split: sum.split)
    qed
  qed (simp add: unfold "1.prems")
qed

lemma directory_next_ok:
  assumes "fs_ok fs"
  shows "fs_ok (fst (cs_gcc_fs_directory_next path cursor capacity fs))"
  unfolding cs_gcc_fs_directory_next_def using assms by (auto intro!: with_path_ok next_entry_ok)

lemma fs_step_ok: "fs_step fs fs' \<Longrightarrow> fs_ok fs \<Longrightarrow> fs_ok fs'"
  by (induction rule: fs_step.induct)
    (auto intro: mount_ok stat_ok open_ok close_file_ok read_ok write_ok seek_ok unlink_file_ok replace_ok directory_open_ok
      access_ok directory_next_ok with_handle_ok with_file_ok
      simp: cs_gcc_fs_fstat_def cs_gcc_fs_output_def cs_gcc_fs_directory_close_def fs_ok_open_directories)

section \<open>Contents\<close>

text \<open>Bytes written at a position of a content; a gap before the position is filled with zeros.\<close>

definition overlay :: "nat \<Rightarrow> u8 list \<Rightarrow> u8 list \<Rightarrow> u8 list" where
  "overlay position bytes c =
     take position (c @ replicate (position - length c) 0) @ bytes @ drop (position + length bytes) c"

lemma written_content:
  assumes "fi_size f \<le> length (fi_data f)"
  shows "content (written position bytes f) = overlay position bytes (content f)"
proof -
  define d where "d = fi_data f @ replicate (position + length bytes - length (fi_data f)) 0"
  have d: "position + length bytes \<le> length d" "take (fi_size f) d = take (fi_size f) (fi_data f)"
      "position \<le> fi_size f \<Longrightarrow> take position d = take position (fi_data f)"
      "drop (position + length bytes) d = drop (position + length bytes) (fi_data f)"
    using assms by (simp_all add: d_def)
  show ?thesis
  proof (cases "position \<le> fi_size f")
    case True
    then have "position \<le> length (fi_data f)" using assms by simp
    moreover have "fi_data (written position bytes f) = take position (fi_data f) @ bytes @ drop (position + length bytes) (fi_data f)"
      using True d assms by (simp add: written_def Let_def flip: d_def)
    ultimately show ?thesis using True assms
      by (cases "position + length bytes \<le> fi_size f")
        (simp_all add: content_def overlay_def written_fields max_def drop_take)
  next
    case False
    then have "fi_data (written position bytes f) =
        (take (fi_size f) (fi_data f) @ replicate (position - fi_size f) 0) @ bytes @ drop (position + length bytes)
          (take (fi_size f) d @ replicate (position - fi_size f) 0 @ drop position d)"
      using d(1,2) assms False by (simp add: written_def Let_def d_def)
    then show ?thesis using False assms
      by (simp add: content_def overlay_def written_fields max_def)
  qed
qed

text \<open>The position at which a descriptor writes.\<close>

definition write_position :: "nat \<Rightarrow> nat \<Rightarrow> filesystem \<Rightarrow> nat" where
  "write_position h i fs =
     (if de_flags (fs_handles fs ! h) AND CS_FS_APPEND \<noteq> 0 then fi_size (fs_objects fs ! i) else de_position (fs_handles fs ! h))"

lemma read_content:
  assumes "fs_ok fs" and "handle_object fd fs = Some (h, i)" and "cs_gcc_fs_read fd amount fs = (fs', Inr bytes)"
  shows "bytes = take amount (drop (de_position (fs_handles fs ! h)) (content (fs_objects fs ! i))) \<and>
    fs' = set_position h (de_position (fs_handles fs ! h) + length bytes) fs"
proof -
  define d where "d = fs_handles fs ! h"
  define f where "f = fs_objects fs ! i"
  have f: "fi_size f \<le> length (fi_data f)"
    using fs_okD(4) [OF assms(1) handle_object_Some(3) [OF assms(1,2)]] by (simp add: object_ok_def f_def)
  define count where "count = min amount (fi_size f - de_position d)"
  have "count = (if amount < (if de_position d < fi_size f then fi_size f - de_position d else 0) then amount
      else if de_position d < fi_size f then fi_size f - de_position d else 0)"
    by (simp add: count_def)
  then have r: "fs' = set_position h (de_position d + count) fs" "bytes = take count (drop (de_position d) (fi_data f))"
    using assms(2,3) unfolding cs_gcc_fs_read_def with_handle_def
    by (simp_all add: Let_def split: if_split_asm flip: d_def f_def)
  moreover have "take count (drop (de_position d) (fi_data f)) = take amount (drop (de_position d) (content f))"
    by (simp add: content_def drop_take count_def min.commute)
  moreover have "length (take count (drop (de_position d) (fi_data f))) = count" using f by (simp add: count_def)
  ultimately show ?thesis by (simp add: d_def f_def)
qed

lemma write_content:
  assumes "fs_ok fs" and "handle_object fd fs = Some (h, i)" and "bytes \<noteq> []"
    and "cs_gcc_fs_write fd bytes fs = (fs', Inr n)"
  shows "n = length bytes \<and>
    content (fs_objects fs' ! i) = overlay (write_position h i fs) bytes (content (fs_objects fs ! i)) \<and>
    de_position (fs_handles fs' ! h) = write_position h i fs + n \<and>
    (\<forall>j. j \<noteq> i \<longrightarrow> fs_objects fs' ! j = fs_objects fs ! j) \<and> (\<forall>k. k \<noteq> h \<longrightarrow> fs_handles fs' ! k = fs_handles fs ! k)"
proof -
  note H = handle_object_Some [OF assms(1,2)]
  note D = fs_okD [OF assms(1)]
  define f where "f = fs_objects fs ! i"
  have "fi_size f \<le> length (fi_data f)" using D(4) [OF H(3)] by (simp add: object_ok_def f_def)
  moreover have fs': "fs' = set_position h (write_position h i fs + length bytes)
      (fs\<lparr>fs_objects := modify i (written (write_position h i fs) bytes) (fs_objects fs)\<rparr>)" and n: "n = length bytes"
    using assms(2-4) by (auto simp: cs_gcc_fs_write_def with_handle_def Let_def write_position_def split: if_splits)
  moreover have "fs_objects fs' ! i = written (write_position h i fs) bytes f"
    using D(1) H(3) by (simp add: fs' set_position_def nth_modify f_def)
  ultimately show ?thesis
    using written_content [of f "write_position h i fs" bytes] D(2) H(1)
    by (simp add: f_def set_position_def nth_modify modify_def)
qed

section \<open>Properties\<close>

text \<open>
  C28. Whatever sequence of operations runs on the empty file system, with any arguments and any
  failures, the two tables stay consistent: a file is referenced by as many descriptors as its
  count says, every descriptor points to a named file at a position within \<open>INT_MAX\<close>, linked files
  have distinct normal names, sizes stay within the buffers, an unlinked file lives only while it
  is open, and nothing writes to a mounted file.
\<close>

theorem fs_reachable_ok:
  assumes "fs_reachable fs"
  shows "fs_ok fs"
  using assms by induction (auto intro: empty_fs_ok fs_step_ok)

theorem fs_reachable_ok_witness:
  "fs_ok (fst (cs_gcc_fs_unlink ''/a'' (fst (cs_gcc_fs_open ''a'' 7 empty_fs))))"
  by (rule fs_reachable_ok [OF fs_reachable.step [OF fs_reachable.step [OF fs_reachable.start step_open] step_unlink]])

text \<open>
  C39. A successful write through a descriptor replaces exactly the bytes from the write position on
  (the end of the file for an appending descriptor), fills a gap behind the old end with zeros, moves
  the descriptor behind the written bytes, and changes no other file and no other descriptor;
  bytes that were in the buffer behind the end of the file never become visible.
\<close>

theorem write_overlays:
  assumes "fs_ok fs" and "handle_object fd fs = Some (h, i)" and "bytes \<noteq> []"
    and "cs_gcc_fs_write fd bytes fs = (fs', Inr n)"
  shows "n = length bytes \<and>
    content (fs_objects fs' ! i) = overlay (write_position h i fs) bytes (content (fs_objects fs ! i)) \<and>
    de_position (fs_handles fs' ! h) = write_position h i fs + n \<and>
    (\<forall>j. j \<noteq> i \<longrightarrow> fs_objects fs' ! j = fs_objects fs ! j) \<and> (\<forall>k. k \<noteq> h \<longrightarrow> fs_handles fs' ! k = fs_handles fs ! k)"
  using write_content [OF assms] .

text \<open>
  A successful read returns the bytes of the content from the position of the descriptor on, as
  many as were asked for or as there are, moves the descriptor behind them and changes nothing else.
\<close>

theorem read_returns_content:
  assumes "fs_ok fs" and "handle_object fd fs = Some (h, i)" and "cs_gcc_fs_read fd amount fs = (fs', Inr bytes)"
  shows "bytes = take amount (drop (de_position (fs_handles fs ! h)) (content (fs_objects fs ! i))) \<and>
    fs' = set_position h (de_position (fs_handles fs ! h) + length bytes) fs"
  using read_content [OF assms] .

definition demo_fs :: filesystem where
  "demo_fs = fst (cs_gcc_fs_open ''a'' 7 empty_fs)"

lemma demo_fs_ok: "fs_ok demo_fs"
  unfolding demo_fs_def by (intro open_ok empty_fs_ok)

lemma demo_open:
  "demo_fs = open_object 3 0 7 (empty_fs\<lparr>fs_objects := modify 0 (\<lambda>f. f\<lparr>fi_name := Some ''a'', fi_linked := True\<rparr>)
     (fs_objects empty_fs)\<rparr>)"
proof -
  have "normalize ''a'' = Inr ''a''" by (simp add: normalize_eq)
  moreover have "file_lookup ''a'' empty_fs = None" by (simp add: file_lookup_def index_of_None empty_fs_def no_file_def)
  moreover have "\<not> is_directory ''a'' empty_fs"
    by (auto simp: is_directory_def empty_fs_def no_file_def list_ex_iff)
  moreover have "index_of (\<lambda>f. fi_name f = None) (fs_objects empty_fs) = Some 0"
    by (simp add: index_of_def empty_fs_def no_file_def list_ex_iff)
  moreover have "free_handle empty_fs = Some 3"
    by (simp add: free_handle_def upt_rec [of 3] empty_fs_def no_descriptor_def)
  moreover have "flags_valid 7" by (simp add: flags_valid_def CS_FS_READ_def CS_FS_WRITE_def CS_FS_CREATE_def
      CS_FS_TRUNC_def CS_FS_APPEND_def CS_FS_EXCL_def)
  ultimately show ?thesis
    by (simp add: demo_fs_def cs_gcc_fs_open_def with_path_def cs_gcc_fs_stat_def stat_name_def open_name_def
        object_for_def CS_FS_CREATE_def)
qed

lemma demo_handle: "handle_object 3 demo_fs = Some (3, 0)" and demo_descriptor: "fs_handles demo_fs ! 3 = \<lparr>de_object = Some 0, de_position = 0, de_flags = 7\<rparr>"
  and demo_object: "fs_objects demo_fs ! 0 = no_file\<lparr>fi_name := Some ''a'', fi_linked := True, fi_references := 1\<rparr>"
  by (simp_all add: demo_open handle_object_def open_object_def empty_fs_def modify_def no_file_def CS_FS_TRUNC_def)

lemma demo_objects:
  "fs_objects demo_fs = (no_file\<lparr>fi_name := Some ''a'', fi_linked := True, fi_references := 1\<rparr>) # replicate 1023 no_file"
  by (rule nth_equalityI) (auto simp: demo_open open_object_def empty_fs_def modify_def nth_Cons' nth_list_update no_file_def CS_FS_TRUNC_def)

lemmas demo_simps = demo_handle demo_descriptor demo_object with_handle_def Let_def INT_MAX_def
  CS_FS_READ_def CS_FS_WRITE_def CS_FS_APPEND_def

theorem write_overlays_witness:
  "content (fs_objects (fst (cs_gcc_fs_write 3 [1, 2] demo_fs)) ! 0) = [1, 2]"
proof -
  obtain fs' where w: "cs_gcc_fs_write 3 [1, 2] demo_fs = (fs', Inr 2)"
    by (simp add: cs_gcc_fs_write_def demo_simps no_file_def)
  show ?thesis using write_overlays [OF demo_fs_ok demo_handle _ w]
    by (simp add: w overlay_def content_def demo_simps write_position_def no_file_def)
qed

theorem read_returns_content_witness:
  "snd (cs_gcc_fs_read 3 5 demo_fs) = Inr []"
proof -
  obtain fs' bytes where r: "cs_gcc_fs_read 3 5 demo_fs = (fs', Inr bytes)"
    by (simp add: cs_gcc_fs_read_def demo_simps no_file_def)
  show ?thesis using read_returns_content [OF demo_fs_ok demo_handle r]
    by (simp add: r content_def demo_simps no_file_def)
qed

end
