(* ===== verification/GccListing.thy ===== *)
theory GccListing
  imports GccFilesRun
begin

text \<open>
  What a loop over \<open>cs_gcc_fs_directory_next\<close> lists: the entry of the table at which each name below the
  directory appears first; and when it fails, for the lack of a free inode for a directory among them.
\<close>

section \<open>The entries that are listed\<close>

definition part_at :: "string \<Rightarrow> fs_file list \<Rightarrow> nat \<Rightarrow> string option" where
  "part_at base objects k =
     (case child base (objects ! k) of None \<Rightarrow> None | Some p \<Rightarrow> if p = [] then None else Some (first_part p))"

definition first_at :: "string \<Rightarrow> fs_file list \<Rightarrow> nat \<Rightarrow> bool" where
  "first_at base objects k \<longleftrightarrow>
     (case part_at base objects k of None \<Rightarrow> False | Some name \<Rightarrow> \<not> listed_before base (take k objects) name)"

definition first_from :: "string \<Rightarrow> fs_file list \<Rightarrow> nat \<Rightarrow> nat list" where
  "first_from base objects i = filter (first_at base objects) [i..<CC_FILES_MAX]"

lemma first_from_end: "CC_FILES_MAX \<le> i \<Longrightarrow> first_from base objects i = []"
  by (simp add: first_from_def)

lemma first_from_step:
  assumes "i < CC_FILES_MAX"
  shows "first_from base objects i = (if first_at base objects i then [i] else []) @ first_from base objects (Suc i)"
  using upt_conv_Cons [OF assms] by (simp add: first_from_def del: upt_Suc)

lemma directory_inode_objects: "directory_inode name fs = (fs', r) \<Longrightarrow> fs_objects fs' = fs_objects fs \<and> (r = Inl e \<longrightarrow> e = ENFILE)"
  by (auto simp: directory_inode_def split: option.splits)

lemma next_entry_finds:
  assumes "next_entry base i capacity fs = (fs', r)" and "i \<le> CC_FILES_MAX"
  shows "fs_objects fs' = fs_objects fs \<and>
    (case r of
       Inr (j, None) \<Rightarrow> first_from base (fs_objects fs) i = []
     | Inr (j, Some (name, inode, dir)) \<Rightarrow> i < j \<and> j \<le> CC_FILES_MAX \<and> part_at base (fs_objects fs) (j - 1) = Some name \<and>
         first_from base (fs_objects fs) i = (j - 1) # first_from base (fs_objects fs) j
     | Inl e \<Rightarrow> e = ENFILE \<or> e = ERANGE \<and> (\<exists>k name. part_at base (fs_objects fs) k = Some name \<and> k < CC_FILES_MAX \<and> capacity \<le> length name))"
  using assms
proof (induction base i capacity fs rule: next_entry.induct)
  case (1 base i capacity fs)
  note unfold = next_entry.simps [of base i capacity fs]
  show ?case
  proof (cases "i \<ge> CC_FILES_MAX")
    case True
    then show ?thesis using "1.prems" by (auto simp: unfold first_from_end)
  next
    case False
    then have upt: "first_from base (fs_objects fs) i = (if first_at base (fs_objects fs) i then [i] else []) @
        first_from base (fs_objects fs) (Suc i)"
      by (intro first_from_step) simp
    have i: "Suc i \<le> CC_FILES_MAX" using False by simp
    show ?thesis
    proof (cases "child base (fs_objects fs ! i)")
      case None
      then have "next_entry base (i + 1) capacity fs = (fs', r)" using "1.prems"(1) False by (simp add: unfold)
      then show ?thesis
        using "1.IH"(1) [OF False None] i None
        by (auto simp: upt first_at_def part_at_def simp del: upt_Suc split: sum.splits option.splits)
    next
      case (Some part)
      define name where "name = first_part part"
      consider "part = []" | "part \<noteq> []" "listed_before base (take i (fs_objects fs)) name"
        | "part \<noteq> []" "\<not> listed_before base (take i (fs_objects fs)) name" by blast
      then show ?thesis
      proof cases
        case 1
        then have "next_entry base (i + 1) capacity fs = (fs', r)" using "1.prems"(1) False Some by (simp add: unfold)
        then show ?thesis
          using "1.IH"(2) [OF False Some 1] i Some 1
          by (auto simp: upt first_at_def part_at_def simp del: upt_Suc split: sum.splits option.splits)
      next
        case 2
        then have "next_entry base (i + 1) capacity fs = (fs', r)" using "1.prems"(1) False Some by (simp add: unfold name_def)
        then show ?thesis
          using "1.IH"(3) [OF False Some 2(1) name_def 2(2)] i Some 2
          by (auto simp: upt first_at_def part_at_def name_def simp del: upt_Suc split: sum.splits option.splits)
      next
        case 3
        have new: "part_at base (fs_objects fs) i = Some name" "first_at base (fs_objects fs) i"
          using Some 3 by (simp_all add: part_at_def first_at_def name_def)
        moreover have "first_from base (fs_objects fs) i = i # first_from base (fs_objects fs) (Suc i)"
          using upt new(2) by simp
        moreover have "\<exists>k n. part_at base (fs_objects fs) k = Some n \<and> k < CC_FILES_MAX \<and> capacity \<le> length n"
          if "capacity \<le> length name"
          using new(1) i that by (auto intro!: exI [of _ i])
        ultimately show ?thesis
          using "1.prems"(1) False Some 3
          by (auto simp: unfold Let_def simp flip: name_def dest: directory_inode_objects
              split: if_splits sum.splits prod.splits)
      qed
    qed
  qed
qed

section \<open>The loop\<close>

lemma directory_next_advances:
  "cs_gcc_fs_directory_next path i capacity fs = (fs', Inr (j, Some (name, inode, dir))) \<Longrightarrow> i < j \<and> j \<le> CC_FILES_MAX"
  using next_entry_finds [of _ i capacity fs fs' "Inr (j, Some (name, inode, dir))"]
  by (auto simp: cs_gcc_fs_directory_next_def with_path_def split: if_splits sum.splits)

text \<open>Calls from a cursor on until there is no further entry; an error ends the loop.\<close>

function list_directory :: "string \<Rightarrow> nat \<Rightarrow> filesystem \<Rightarrow> errno + string list" where
  "list_directory path i fs =
     (case cs_gcc_fs_directory_next path i PATH_BYTES fs of
        (fs, Inl e) \<Rightarrow> Inl e
      | (fs, Inr (j, None)) \<Rightarrow> Inr []
      | (fs, Inr (j, Some (name, inode, dir))) \<Rightarrow> map_sum id ((#) name) (list_directory path j fs))"
  by pat_completeness auto

termination
  by (relation "measure (\<lambda>(path, i, fs). CC_FILES_MAX - i)") (auto dest!: directory_next_advances [OF sym])

declare list_directory.simps [simp del]

text \<open>The loop lists the names of the first entries, in the order of the table.\<close>

lemma list_directory_names:
  assumes "normalize path = Inr base" and "i \<le> CC_FILES_MAX"
  shows "case list_directory path i fs of
      Inr names \<Rightarrow> map Some names = map (part_at base (fs_objects fs)) (first_from base (fs_objects fs) i)
    | Inl e \<Rightarrow> e = ENFILE \<or>
        e = ERANGE \<and> (\<exists>k name. part_at base (fs_objects fs) k = Some name \<and> k < CC_FILES_MAX \<and> PATH_BYTES \<le> length name)"
  using assms
proof (induction path i fs rule: list_directory.induct)
  case (1 path i fs)
  obtain fs' r where "next": "next_entry base i PATH_BYTES fs = (fs', r)" by fastforce
  have call: "cs_gcc_fs_directory_next path i PATH_BYTES fs = (fs', r)"
    using "1.prems" "next" by (simp add: cs_gcc_fs_directory_next_def with_path_def)
  note unfold = list_directory.simps [of path i fs]
  note finds = next_entry_finds [OF "next" "1.prems"(2)]
  show ?case
  proof (cases r)
    case (Inl e)
    then show ?thesis using finds call by (simp add: unfold)
  next
    case (Inr found)
    obtain j entry where found: "found = (j, entry)" by fastforce
    show ?thesis
    proof (cases entry)
      case None
      then show ?thesis using finds call Inr found by (simp add: unfold)
    next
      case (Some row)
      obtain name inode dir where row: "row = (name, inode, dir)" by (cases row)
      then have next_call: "cs_gcc_fs_directory_next path i PATH_BYTES fs = (fs', Inr (j, Some (name, inode, dir)))"
        using call Inr found Some by simp
      have step: "fs_objects fs' = fs_objects fs" "j \<le> CC_FILES_MAX" "part_at base (fs_objects fs) (j - 1) = Some name"
          "first_from base (fs_objects fs) i = (j - 1) # first_from base (fs_objects fs) j"
        using finds Inr found Some row by auto
      note IH = "1.IH" [OF next_call [symmetric] refl refl refl refl refl "1.prems"(1) step(2)]
      then show ?thesis
        using step next_call by (auto simp: unfold split: sum.splits)
    qed
  qed
qed

section \<open>Names below a directory\<close>

definition below_prefix :: "string \<Rightarrow> string" where
  "below_prefix base = (if base = [] then [] else base @ ''/'')"

text \<open>The names a listing is about: the next component of every linked name below the directory.\<close>

definition entry_names :: "string \<Rightarrow> fs_file list \<Rightarrow> string set" where
  "entry_names base objects =
     {name. \<exists>f\<in>set objects. \<exists>p. fi_linked f \<and> fi_name f = Some (below_prefix base @ p) \<and> p \<noteq> [] \<and> first_part p = name}"

lemma child_Some: "child base f = Some p \<longleftrightarrow> fi_linked f \<and> fi_name f = Some (below_prefix base @ p)"
  by (auto simp: child_def below_def below_prefix_def split: option.splits)
    (metis append.assoc append_take_drop_id append_Cons append_Nil)

lemma part_at_child: "part_at base objects k = Some name \<longleftrightarrow>
    (\<exists>p. child base (objects ! k) = Some p \<and> p \<noteq> [] \<and> first_part p = name)"
  by (auto simp: part_at_def split: option.splits)

lemma part_at_Some: "part_at base objects k = Some name \<longleftrightarrow>
    (\<exists>p. fi_linked (objects ! k) \<and> fi_name (objects ! k) = Some (below_prefix base @ p) \<and> p \<noteq> [] \<and> first_part p = name)"
  unfolding part_at_child child_Some by auto

lemma part_at_names:
  "length objects = CC_FILES_MAX \<Longrightarrow> name \<in> entry_names base objects \<longleftrightarrow> (\<exists>k<CC_FILES_MAX. part_at base objects k = Some name)"
  unfolding entry_names_def part_at_Some by (fastforce simp: in_set_conv_nth)

text \<open>A first component that was seen before, in other words.\<close>

lemma take_first_part:
  "CHR ''/'' \<notin> set name \<Longrightarrow>
    take (length name) p = name \<and> (length p = length name \<or> p ! length name = CHR ''/'') \<longleftrightarrow> first_part p = name"
proof (induction name arbitrary: p)
  case Nil
  then show ?case by (cases p) (auto simp: first_part_def)
next
  case (Cons c name)
  then show ?case by (cases p) (auto simp: first_part_def)
qed

lemma listed_before_iff:
  assumes "CHR ''/'' \<notin> set name" and "name \<noteq> []" and "i \<le> length objects"
  shows "listed_before base (take i objects) name \<longleftrightarrow> (\<exists>k<i. part_at base objects k = Some name)"
proof -
  have "listed_before base (take i objects) name \<longleftrightarrow> (\<exists>k<i. \<exists>p. child base (objects ! k) = Some p \<and> first_part p = name)"
    using assms(3) take_first_part [OF assms(1)]
    by (fastforce simp: listed_before_def list_ex_iff in_set_conv_nth split: option.splits)
  also have "\<dots> \<longleftrightarrow> (\<exists>k<i. part_at base objects k = Some name)"
    using assms(2) by (auto simp: part_at_def first_part_def split: option.splits)
  finally show ?thesis .
qed

lemma first_part_split: "first_part p \<in> set (split_on CHR ''/'' p)"
  by (subst split_on_head) (simp add: first_part_def)

lemma normal_below:
  assumes "normal_name (below_prefix base @ p)" and "p \<noteq> []"
  shows "good_part (first_part p)" and "length (first_part p) \<le> 4096"
proof -
  obtain ps where ps: "list_all good_part ps" "below_prefix base @ p = join ps" "length (join ps) \<le> 4096"
    using assms(1) unfolding normal_name_def by metis
  then have "ps \<noteq> []" using assms(2) by auto
  then have "split_on CHR ''/'' (below_prefix base @ p) = ps" using split_on_join ps by simp
  then have "set (split_on CHR ''/'' p) \<subseteq> set ps"
    by (auto simp: below_prefix_def split_on_append split: if_splits)
  then show "good_part (first_part p)" using first_part_split [of p] ps(1) by (auto simp: list_all_iff)
  have "length (first_part p) \<le> length p" by (simp add: first_part_def length_takeWhile_le)
  also have "length p \<le> length (join ps)" by (simp flip: ps(2))
  finally show "length (first_part p) \<le> 4096" using ps(3) by simp
qed

lemma part_at_good:
  assumes "fs_ok fs" and "k < CC_FILES_MAX" and "part_at base (fs_objects fs) k = Some name"
  shows "good_part name" and "length name \<le> 4096"
  using fs_okD(4) [OF assms(1,2)] assms(3) normal_below
  by (auto simp: part_at_Some object_ok_def)

lemma first_at_iff:
  assumes "fs_ok fs" and "k < CC_FILES_MAX"
  shows "first_at base (fs_objects fs) k \<longleftrightarrow>
    (\<exists>name. part_at base (fs_objects fs) k = Some name \<and> (\<forall>j<k. part_at base (fs_objects fs) j \<noteq> Some name))"
proof (cases "part_at base (fs_objects fs) k")
  case (Some name)
  have "CHR ''/'' \<notin> set name" "name \<noteq> []"
    using part_at_good(1) [OF assms Some] by (auto simp: good_part_def)
  then show ?thesis
    using Some listed_before_iff [of name k "fs_objects fs" base] assms(2) fs_okD(1) [OF assms(1)] by (auto simp: first_at_def)
qed (simp add: first_at_def)

lemma list_directory_once:
  assumes ok: "fs_ok fs" and base: "normalize path = Inr base"
  shows "case list_directory path 0 fs of
      Inr names \<Rightarrow> distinct names \<and> set names = entry_names base (fs_objects fs)
    | Inl e \<Rightarrow> e = ENFILE"
proof (cases "list_directory path 0 fs")
  case (Inl e)
  then show ?thesis using list_directory_names [OF base, of 0 fs] part_at_good(2) [OF ok] by fastforce
next
  case (Inr names)
  define F where "F = first_from base (fs_objects fs) 0"
  have F: "k \<in> set F \<longleftrightarrow> k < CC_FILES_MAX \<and> first_at base (fs_objects fs) k" for k
    by (auto simp: F_def first_from_def)
  have names: "map Some names = map (part_at base (fs_objects fs)) F"
    using list_directory_names [OF base, of 0 fs] Inr by (simp add: F_def)
  have "inj_on (part_at base (fs_objects fs)) (set F)"
  proof (rule inj_onI)
    fix j k assume "j \<in> set F" "k \<in> set F" and same: "part_at base (fs_objects fs) j = part_at base (fs_objects fs) k"
    then show "j = k" using first_at_iff [OF ok] unfolding F by (metis linorder_less_linear)
  qed
  moreover have "distinct F" by (simp add: F_def first_from_def)
  ultimately have "distinct (map Some names)" unfolding names by (simp add: distinct_map)
  then have "distinct names" by (simp add: distinct_map)
  moreover have "name \<in> set names \<longleftrightarrow> name \<in> entry_names base (fs_objects fs)" for name
  proof -
    have "name \<in> set names \<longleftrightarrow> Some name \<in> part_at base (fs_objects fs) ` set F"
      using names by (metis (no_types, lifting) image_iff list.set_map option.inject)
    also have "\<dots> \<longleftrightarrow> (\<exists>k<CC_FILES_MAX. part_at base (fs_objects fs) k = Some name)"
    proof
      assume "\<exists>k<CC_FILES_MAX. part_at base (fs_objects fs) k = Some name"
      then obtain k where k: "part_at base (fs_objects fs) k = Some name" "k < CC_FILES_MAX"
          "\<And>j. j < k \<Longrightarrow> part_at base (fs_objects fs) j \<noteq> Some name"
        using exists_least_iff [of "\<lambda>k. k < CC_FILES_MAX \<and> part_at base (fs_objects fs) k = Some name"]
        by (metis less_trans)
      then show "Some name \<in> part_at base (fs_objects fs) ` set F"
        using first_at_iff [OF ok k(2)] F [of k] by (metis imageI)
    qed (use F in force)
    finally show ?thesis using part_at_names fs_okD(1) [OF ok] by blast
  qed
  ultimately show ?thesis using Inr by auto
qed

section \<open>Directory numbers\<close>

text \<open>
  A directory below the listed one gets a number in a table of \<open>CC_FILES_MAX\<close> entries when it has none.
  The entry at \<open>k\<close> is a directory when its object lies properly below the name.
\<close>

definition dir_at :: "string \<Rightarrow> fs_file list \<Rightarrow> nat \<Rightarrow> string option" where
  "dir_at base objects k =
     (case child base (objects ! k) of
        None \<Rightarrow> None
      | Some p \<Rightarrow> if first_part p = p then None else Some (below_prefix base @ first_part p))"

definition dirs_from :: "string \<Rightarrow> fs_file list \<Rightarrow> nat \<Rightarrow> string set" where
  "dirs_from base objects i = {d. \<exists>k \<in> set (first_from base objects i). dir_at base objects k = Some d}"

definition numbered :: "filesystem \<Rightarrow> string set" where
  "numbered fs = {d. Some d \<in> set (fs_directories fs)}"

definition free_numbers :: "filesystem \<Rightarrow> nat" where
  "free_numbers fs = count_list (fs_directories fs) None"

lemma finite_dirs_from: "finite (dirs_from base objects i)"
proof -
  have "dirs_from base objects i \<subseteq> (\<lambda>k. the (dir_at base objects k)) ` set (first_from base objects i)"
    by (force simp: dirs_from_def)
  then show ?thesis by (rule finite_subset) simp
qed

lemma fill_entry:
  assumes "i < length ds" and "ds ! i = None"
  shows "{d. Some d \<in> set (ds[i := Some n])} = insert n {d. Some d \<in> set ds}"
    and "count_list ds None = Suc (count_list (ds[i := Some n]) None)"
proof -
  define xs ys where "xs = take i ds" and "ys = drop (Suc i) ds"
  have ds: "ds = xs @ None # ys" "i = length xs"
    using assms id_take_nth_drop [OF assms(1)] by (simp_all add: xs_def ys_def)
  show "{d. Some d \<in> set (ds[i := Some n])} = insert n {d. Some d \<in> set ds}" by (auto simp: ds)
  show "count_list ds None = Suc (count_list (ds[i := Some n]) None)" by (simp add: ds)
qed

text \<open>A name has a number, gets a free one, or fails when none is left.\<close>

lemma directory_inode_numbers:
  obtains (known) inode where "d \<in> numbered fs" and "directory_inode d fs = (fs, Inr inode)"
  | (new) fs' inode where "d \<notin> numbered fs" and "directory_inode d fs = (fs', Inr inode)" and "fs_objects fs' = fs_objects fs"
      and "numbered fs' = insert d (numbered fs)" and "free_numbers fs = Suc (free_numbers fs')"
  | (full) "d \<notin> numbered fs" and "free_numbers fs = 0" and "directory_inode d fs = (fs, Inl ENFILE)"
proof (cases "index_of (\<lambda>x. x = Some d) (fs_directories fs)")
  case (Some i)
  then have "d \<in> numbered fs" using index_of_Some(1,2) [OF Some] by (auto simp: numbered_def dest: nth_mem)
  then show ?thesis using Some by (intro known) (simp_all add: directory_inode_def)
next
  case None
  then have unknown: "d \<notin> numbered fs" by (auto simp: index_of_None numbered_def)
  show ?thesis
  proof (cases "index_of (\<lambda>x. x = None) (fs_directories fs)")
    case free: (Some i)
    let ?fs' = "fs\<lparr>fs_directories := (fs_directories fs)[i := Some d]\<rparr>"
    note i = index_of_Some(1,2) [OF free]
    show ?thesis
    proof (rule new [OF unknown])
      show "directory_inode d fs = (?fs', Inr (CC_FILES_MAX + 1 + i))" using None free by (simp add: directory_inode_def)
    qed (use fill_entry [OF i, of d] in \<open>simp_all add: numbered_def free_numbers_def\<close>)
  next
    case full_table: None
    then have "free_numbers fs = 0" by (auto simp: index_of_None free_numbers_def count_list_0_iff)
    then show ?thesis using full unknown None full_table by (simp add: directory_inode_def)
  qed
qed

text \<open>What the next entry does with the table, once no name is too long for the caller's buffer.\<close>

lemma next_entry_dir:
  assumes "i \<le> CC_FILES_MAX"
    and "\<forall>k < CC_FILES_MAX. \<forall>name. part_at base (fs_objects fs) k = Some name \<longrightarrow> length name < capacity"
  shows "next_entry base i capacity fs =
    (case first_from base (fs_objects fs) i of
       [] \<Rightarrow> (fs, Inr (CC_FILES_MAX, None))
     | k # ks \<Rightarrow>
         let name = the (part_at base (fs_objects fs) k)
         in case dir_at base (fs_objects fs) k of
              None \<Rightarrow> (fs, Inr (k + 1, Some (name, k + 1, False)))
            | Some d \<Rightarrow> (case directory_inode d fs of
                (fs, Inl e) \<Rightarrow> (fs, Inl e)
              | (fs, Inr inode) \<Rightarrow> (fs, Inr (k + 1, Some (name, inode, True)))))"
  using assms
proof (induction base i capacity fs rule: next_entry.induct)
  case (1 base i capacity fs)
  note unfold = next_entry.simps [of base i capacity fs]
  show ?case
  proof (cases "i \<ge> CC_FILES_MAX")
    case True
    show ?thesis unfolding first_from_end [OF True] unfold using True by simp
  next
    case False
    then have upt: "first_from base (fs_objects fs) i = (if first_at base (fs_objects fs) i then [i] else []) @
        first_from base (fs_objects fs) (Suc i)"
      by (intro first_from_step) simp
    have i: "i + 1 \<le> CC_FILES_MAX" using False by simp
    have short: "length name < capacity" if "part_at base (fs_objects fs) i = Some name" for name
      using "1.prems"(2) [rule_format, of i name] that False by simp
    show ?thesis
    proof (cases "child base (fs_objects fs ! i)")
      case None
      then have "\<not> first_at base (fs_objects fs) i" by (simp add: first_at_def part_at_def)
      then show ?thesis using "1.IH"(1) [OF False None i "1.prems"(2)] False None by (simp add: unfold upt)
    next
      case (Some part)
      define name where "name = first_part part"
      consider "part = []" | "part \<noteq> []" "listed_before base (take i (fs_objects fs)) name"
        | "part \<noteq> []" "\<not> listed_before base (take i (fs_objects fs)) name" by blast
      then show ?thesis
      proof cases
        case 1
        then have "\<not> first_at base (fs_objects fs) i" using Some by (simp add: first_at_def part_at_def)
        then show ?thesis using "1.IH"(2) [OF False Some 1 i "1.prems"(2)] False Some 1 by (simp add: unfold upt)
      next
        case 2
        then have "\<not> first_at base (fs_objects fs) i" using Some by (simp add: first_at_def part_at_def name_def)
        then show ?thesis
          using "1.IH"(3) [OF False Some 2(1) name_def 2(2) i "1.prems"(2)] False Some 2 by (simp add: unfold upt name_def)
      next
        case 3
        have new: "part_at base (fs_objects fs) i = Some name" "first_at base (fs_objects fs) i"
          using Some 3 by (simp_all add: part_at_def first_at_def name_def)
        have dir: "length name < length part \<longleftrightarrow> name \<noteq> part"
          unfolding name_def first_part_def by (metis length_takeWhile_le nat_less_le takeWhile_eq_take take_all_iff order_refl)
        show ?thesis
          using False Some 3 new short [OF new(1)] dir
          by (simp add: unfold upt dir_at_def below_prefix_def Let_def flip: name_def)
      qed
    qed
  qed
qed

lemma filter_upt_Cons:
  assumes "filter P [i..<n] = k # ks"
  shows "i \<le> k \<and> k < n \<and> P k \<and> ks = filter P [Suc k..<n]"
  using assms
proof (induction "n - i" arbitrary: i)
  case (Suc m)
  then have "[i..<n] = i # [Suc i..<n]" by (intro upt_conv_Cons) simp
  moreover have "m = n - Suc i" "i < n" using Suc.hyps(2) by simp_all
  ultimately show ?case using Suc.hyps(1) [of "Suc i"] Suc.prems by (cases "P i") (auto simp del: upt_Suc)
qed simp

lemma first_from_Cons:
  assumes "first_from base objects i = k # ks"
  shows "k < CC_FILES_MAX" and "ks = first_from base objects (k + 1)"
  using filter_upt_Cons [OF assms [unfolded first_from_def]] by (simp_all add: first_from_def del: upt_Suc)

lemma dirs_from_Cons:
  assumes "first_from base objects i = k # ks"
  shows "dirs_from base objects i =
    (case dir_at base objects k of None \<Rightarrow> dirs_from base objects (k + 1) | Some d \<Rightarrow> insert d (dirs_from base objects (k + 1)))"
  using first_from_Cons(2) [OF assms] by (auto simp: dirs_from_def assms split: option.split)

text \<open>The loop fails exactly when the directories without a number are more than the free numbers.\<close>

lemma list_directory_fails:
  assumes "normalize path = Inr base" and "i \<le> CC_FILES_MAX"
    and "\<forall>k < CC_FILES_MAX. \<forall>name. part_at base (fs_objects fs) k = Some name \<longrightarrow> length name < PATH_BYTES"
  shows "list_directory path i fs = Inl ENFILE \<longleftrightarrow>
    free_numbers fs < card (dirs_from base (fs_objects fs) i - numbered fs)"
  using assms
proof (induction path i fs rule: list_directory.induct)
  case (1 path i fs)
  have call: "cs_gcc_fs_directory_next path i PATH_BYTES fs = next_entry base i PATH_BYTES fs"
    unfolding cs_gcc_fs_directory_next_def with_path_def "1.prems"(1) using "1.prems"(2) by simp
  note unfold = list_directory.simps [of path i fs]
  note entry = next_entry_dir [OF "1.prems"(2,3)]
  show ?case
  proof (cases "first_from base (fs_objects fs) i")
    case Nil
    have "list_directory path i fs = Inr []" unfolding unfold call entry Nil by simp
    then show ?thesis by (simp add: Nil dirs_from_def)
  next
    case (Cons k ks)
    note k = first_from_Cons(1) [OF Cons] and dirs = dirs_from_Cons [OF Cons]
    define D where "D = dirs_from base (fs_objects fs) (k + 1)"
    define name where "name = the (part_at base (fs_objects fs) k)"
    have finite: "finite D" by (simp add: D_def finite_dirs_from)
    have rest: "list_directory path i fs = Inl ENFILE \<longleftrightarrow> free_numbers fs' < card (D - numbered fs')"
      if entry': "next_entry base i PATH_BYTES fs = (fs', Inr (k + 1, Some (name, inode, dir)))"
        and same: "fs_objects fs' = fs_objects fs"
      for fs' inode dir
    proof -
      have call': "cs_gcc_fs_directory_next path i PATH_BYTES fs = (fs', Inr (k + 1, Some (name, inode, dir)))"
        unfolding call entry' ..
      have "list_directory path i fs = map_sum id ((#) name) (list_directory path (k + 1) fs')"
        unfolding unfold call' by simp
      moreover have "list_directory path (k + 1) fs' = Inl ENFILE \<longleftrightarrow> free_numbers fs' < card (D - numbered fs')"
        unfolding D_def same [symmetric]
        by (rule "1.IH" [OF call' [symmetric] refl refl refl refl refl "1.prems"(1)])
          (use k "1.prems"(3) same in simp_all)
      ultimately show ?thesis by (cases "list_directory path (k + 1) fs'") simp_all
    qed
    show ?thesis
    proof (cases "dir_at base (fs_objects fs) k")
      case None
      have "next_entry base i PATH_BYTES fs = (fs, Inr (k + 1, Some (name, k + 1, False)))"
        unfolding entry Cons by (simp add: None name_def)
      from rest [OF this] show ?thesis by (simp add: dirs None D_def)
    next
      case (Some d)
      have D: "dirs_from base (fs_objects fs) i = insert d D" by (simp add: dirs Some D_def)
      show ?thesis
      proof (cases rule: directory_inode_numbers [of d fs])
        case (known inode)
        have "next_entry base i PATH_BYTES fs = (fs, Inr (k + 1, Some (name, inode, True)))"
          unfolding entry Cons by (simp add: Some name_def known(2))
        from rest [OF this] show ?thesis using known(1) by (simp add: D insert_Diff_if)
      next
        case (new fs' inode)
        have "next_entry base i PATH_BYTES fs = (fs', Inr (k + 1, Some (name, inode, True)))"
          unfolding entry Cons by (simp add: Some name_def new(2))
        note rest' = rest [OF this new(3)]
        have "insert d D - numbered fs = insert d (D - numbered fs')" using new(1,4) by auto
        moreover have "d \<notin> D - numbered fs'" using new(4) by simp
        ultimately have "card (insert d D - numbered fs) = Suc (card (D - numbered fs'))" using finite by simp
        then show ?thesis using rest' new(5) by (simp add: D)
      next
        case full
        have "list_directory path i fs = Inl ENFILE"
          unfolding unfold call entry Cons by (simp add: Some full(3))
        moreover have "card (insert d D - numbered fs) > 0" using full(1) finite by (auto simp: card_gt_0_iff)
        ultimately show ?thesis using full(2) by (simp add: D)
      qed
    qed
  qed
qed

section \<open>Property\<close>

text \<open>
  The directories among the entries: a name is listed as a directory when the first object of the
  table at that name lies below it.
\<close>

definition entry_directories :: "string \<Rightarrow> fs_file list \<Rightarrow> string set" where
  "entry_directories base objects =
     {d. \<exists>k < CC_FILES_MAX. \<exists>p. fi_linked (objects ! k) \<and> fi_name (objects ! k) = Some (below_prefix base @ p) \<and>
        first_part p \<noteq> p \<and> d = below_prefix base @ first_part p \<and>
        (\<forall>j < k. part_at base objects j \<noteq> Some (first_part p))}"

lemma entry_directories_dirs:
  assumes "fs_ok fs"
  shows "dirs_from base (fs_objects fs) 0 = entry_directories base (fs_objects fs)"
proof -
  have dirs: "d \<in> dirs_from base (fs_objects fs) 0 \<longleftrightarrow> (\<exists>k < CC_FILES_MAX. first_at base (fs_objects fs) k \<and>
      dir_at base (fs_objects fs) k = Some d)" for d
    by (auto simp: dirs_from_def first_from_def)
  have first: "first_at base (fs_objects fs) k \<and> dir_at base (fs_objects fs) k = Some d \<longleftrightarrow>
      (\<exists>p. child base (fs_objects fs ! k) = Some p \<and> first_part p \<noteq> p \<and> d = below_prefix base @ first_part p \<and>
        (\<forall>j < k. part_at base (fs_objects fs) j \<noteq> Some (first_part p)))" if "k < CC_FILES_MAX" for k d
    unfolding first_at_iff [OF assms that]
    by (auto simp: dir_at_def part_at_child first_part_def split: option.splits)
  have "d \<in> dirs_from base (fs_objects fs) 0 \<longleftrightarrow> (\<exists>k < CC_FILES_MAX. \<exists>p. child base (fs_objects fs ! k) = Some p \<and>
      first_part p \<noteq> p \<and> d = below_prefix base @ first_part p \<and>
      (\<forall>j < k. part_at base (fs_objects fs) j \<noteq> Some (first_part p)))" for d
    unfolding dirs by (intro ex_cong1 conj_cong refl first)
  then show ?thesis unfolding entry_directories_def child_Some conj_assoc by blast
qed

text \<open>
  C36. In every consistent state, a loop over the entries of a directory lists each name below it
  exactly once, whether it belongs to a file or to a directory that exists only because several
  files lie below it. It fails, with \<open>ENFILE\<close>, exactly when the directories among the entries that
  have no inode yet are more than the free entries of the table of directory inodes.
\<close>

theorem directory_lists_once:
  assumes "fs_ok fs" and "normalize path = Inr base"
  shows "if card (entry_directories base (fs_objects fs) - numbered fs) \<le> free_numbers fs
    then \<exists>names. list_directory path 0 fs = Inr names \<and> distinct names \<and> set names = entry_names base (fs_objects fs)
    else list_directory path 0 fs = Inl ENFILE"
proof -
  have "length name < PATH_BYTES" if "k < CC_FILES_MAX" "part_at base (fs_objects fs) k = Some name" for k name
    using part_at_good(2) [OF assms(1) that] by simp
  then have "list_directory path 0 fs = Inl ENFILE \<longleftrightarrow>
      free_numbers fs < card (entry_directories base (fs_objects fs) - numbered fs)"
    using list_directory_fails [OF assms(2), of 0 fs] by (simp add: entry_directories_dirs [OF assms(1)])
  then show ?thesis
    using list_directory_once [OF assms] by (cases "list_directory path 0 fs") (auto simp: not_le)
qed

lemma distinct_singleton: "distinct xs \<and> set xs = {x} \<longleftrightarrow> xs = [x]"
  by (cases xs) (auto simp: subset_singleton_iff)

text \<open>The root directory of a file system with the one file \<open>d/x\<close> lists the directory \<open>d\<close>.\<close>

definition nested_fs :: filesystem where
  "nested_fs = fst (cs_gcc_fs_open ''d/x'' 7 empty_fs)"

lemma nested_fs_ok: "fs_ok nested_fs"
  unfolding nested_fs_def by (intro open_ok empty_fs_ok)

lemma nested_open:
  "nested_fs = open_object 3 0 7 (empty_fs\<lparr>fs_objects := modify 0 (\<lambda>f. f\<lparr>fi_name := Some ''d/x'', fi_linked := True\<rparr>)
     (fs_objects empty_fs)\<rparr>)"
proof -
  have "normalize ''d/x'' = Inr ''d/x''" by (simp add: normalize_eq)
  moreover have "file_lookup ''d/x'' empty_fs = None" by (simp add: file_lookup_def index_of_None empty_fs_def no_file_def)
  moreover have "\<not> is_directory ''d/x'' empty_fs"
    by (auto simp: is_directory_def empty_fs_def no_file_def list_ex_iff)
  moreover have "index_of (\<lambda>f. fi_name f = None) (fs_objects empty_fs) = Some 0"
    by (simp add: index_of_def empty_fs_def no_file_def list_ex_iff)
  moreover have "free_handle empty_fs = Some 3"
    by (simp add: free_handle_def upt_rec [of 3] empty_fs_def no_descriptor_def)
  moreover have "flags_valid 7" by (simp add: flags_valid_def CS_FS_READ_def CS_FS_WRITE_def CS_FS_CREATE_def
      CS_FS_TRUNC_def CS_FS_APPEND_def CS_FS_EXCL_def)
  ultimately show ?thesis
    by (simp add: nested_fs_def cs_gcc_fs_open_def with_path_def cs_gcc_fs_stat_def stat_name_def open_name_def
        object_for_def CS_FS_CREATE_def)
qed

lemma nested_objects:
  "fs_objects nested_fs = (no_file\<lparr>fi_name := Some ''d/x'', fi_linked := True, fi_references := 1\<rparr>) # replicate 1023 no_file"
  by (rule nth_equalityI) (auto simp: nested_open open_object_def empty_fs_def modify_def nth_Cons' nth_list_update no_file_def CS_FS_TRUNC_def)

lemma nested_directories: "fs_directories nested_fs = replicate 1024 None"
  by (simp add: nested_open open_object_def empty_fs_def modify_def no_file_def CS_FS_TRUNC_def Let_def)

theorem directory_lists_once_witness:
  "list_directory ''/'' 0 nested_fs = Inr [''d'']"
proof -
  have base: "normalize ''/'' = Inr ''''" by (simp add: normalize_eq)
  have names: "entry_names '''' (fs_objects nested_fs) = {''d''}"
    by (auto simp: entry_names_def nested_objects below_prefix_def no_file_def first_part_def)
  have "entry_directories '''' (fs_objects nested_fs) \<subseteq> {''d''}"
    by (auto simp: entry_directories_def nested_objects below_prefix_def no_file_def first_part_def nth_Cons' split: if_splits)
  then have "card (entry_directories '''' (fs_objects nested_fs) - numbered nested_fs) \<le> card {''d''}"
    by (intro card_mono) auto
  moreover have "free_numbers nested_fs = 1024"
    by (simp add: free_numbers_def nested_directories count_list_eq_length_filter)
  ultimately have "card (entry_directories '''' (fs_objects nested_fs) - numbered nested_fs) \<le> free_numbers nested_fs" by simp
  then show ?thesis
    using directory_lists_once [OF nested_fs_ok base] names by (auto simp: distinct_singleton)
qed

end
