(* ===== verification/GccResponse.thy ===== *)
theory GccResponse
  imports GccFilesRun
begin

text \<open>
  runtime/gcc/response.c: what the compiler writes to its two output streams is captured, and at
  the end one response packet with the status, the two streams and the output file is sent to a
  writer. The capacity of a capture buffer doubles until it holds the new bytes; that loop is a
  partial function at the width of the code, so that it returns is a fact to be proved. A writer
  is a function from its state and the bytes offered to the count it returns and its next state.
\<close>

definition CAPTURE_LIMIT :: u32 where
  "CAPTURE_LIMIT = 16777216"

definition response_magic :: "u8 list" where
  "response_magic = bytes_of ''GCCOUT1'' @ [0]"

section \<open>Decoding\<close>

record gcc_result =
  gr_status :: u32
  gr_out :: "u8 list"
  gr_err :: "u8 list"
  gr_file :: "u8 list"

definition read_word :: "nat \<Rightarrow> u8 list \<Rightarrow> u32" where
  "read_word at data = le_word (take 4 (drop at data))"

definition cs_gcc_response_decode :: "u8 list \<Rightarrow> errno + gcc_result" where
  "cs_gcc_response_decode packet =
     (let status = read_word 8 packet; out_size = unat (read_word 12 packet); err_size = unat (read_word 16 packet);
          file_size = unat (read_word 20 packet); left = length packet - 24; limit = unat CAPTURE_LIMIT
      in if length packet < 24 then Inl EINVAL
         else if take 8 packet \<noteq> response_magic then Inl EINVAL
         else if out_size > left \<or> out_size > limit then Inl EINVAL
         else let left = left - out_size
              in if err_size > left \<or> err_size > limit - out_size then Inl EINVAL
                 else let left = left - err_size
                      in if file_size \<noteq> left \<or> status \<noteq> 0 \<and> file_size \<noteq> 0 then Inl EINVAL
                         else Inr \<lparr>gr_status = status, gr_out = take out_size (drop 24 packet),
                           gr_err = take err_size (drop (24 + out_size) packet),
                           gr_file = take file_size (drop (24 + out_size + err_size) packet)\<rparr>)"

section \<open>Capturing the streams\<close>

text \<open>A stream: the bytes of its buffer up to \<open>size\<close>, the size and the capacity.\<close>

record captured =
  ca_data :: "u8 list"
  ca_size :: u32
  ca_capacity :: u32

definition no_capture :: captured where
  "no_capture = \<lparr>ca_data = [], ca_size = 0, ca_capacity = 0\<rparr>"

definition cs_gcc_capture_reset :: "captured list \<Rightarrow> captured list" where
  "cs_gcc_capture_reset streams = [no_capture, no_capture]"

partial_function (option) grow :: "u32 \<Rightarrow> u32 \<Rightarrow> u32 option" where
  "grow required capacity = (if capacity < required then grow required (capacity * 2) else Some capacity)"

definition captured_more :: "u8 list \<Rightarrow> captured \<Rightarrow> captured option" where
  "captured_more data c =
     (let required = ca_size c + of_nat (length data)
      in do {
        capacity \<leftarrow> if required > ca_capacity c then grow required (if ca_capacity c \<noteq> 0 then ca_capacity c else 256)
          else Some (ca_capacity c);
        Some \<lparr>ca_data = take (unat (ca_size c)) (ca_data c) @ data, ca_size = required, ca_capacity = capacity\<rparr>
      })"

definition cs_gcc_capture_write :: "int \<Rightarrow> u8 list \<Rightarrow> captured list \<Rightarrow> (captured list \<times> (errno + nat)) option" where
  "cs_gcc_capture_write fd data streams =
     (if fd \<noteq> 1 \<and> fd \<noteq> 2 then Some (streams, Inl EBADF)
      else let total = ca_size (streams ! 0) + ca_size (streams ! 1); k = nat (fd - 1)
           in if length data > unat (CAPTURE_LIMIT - total) then Some (streams, Inl EFBIG)
              else do {
                c \<leftarrow> captured_more data (streams ! k);
                Some (streams[k := c], Inr (length data))
              })"

section \<open>Sending\<close>

type_synonym 's writer = "'s \<Rightarrow> u8 list \<Rightarrow> int \<times> 's"

function send :: "'s writer \<Rightarrow> u8 list \<Rightarrow> 's \<Rightarrow> 's \<times> (errno + unit)" where
  "send writer data s =
     (if data = [] then (s, Inr ())
      else case writer s data of (count, s) \<Rightarrow>
        if count \<le> 0 \<or> nat count > length data then (s, Inl EIO) else send writer (drop (nat count) data) s)"
  by pat_completeness auto

termination
  by (relation "measure (\<lambda>(writer, data, s). length data)") auto

declare send.simps [simp del]

text \<open>Several ranges one after the other, up to the first failure.\<close>

primrec send_all :: "'s writer \<Rightarrow> u8 list list \<Rightarrow> 's \<Rightarrow> 's \<times> (errno + unit)" where
  "send_all writer [] s = (s, Inr ())"
| "send_all writer (data # ranges) s =
     (case send writer data s of (s, Inl e) \<Rightarrow> (s, Inl e) | (s, Inr u) \<Rightarrow> send_all writer ranges s)"

definition response_header :: "u32 \<Rightarrow> u32 \<Rightarrow> u32 \<Rightarrow> u32 \<Rightarrow> u8 list" where
  "response_header status out_size err_size file_size =
     response_magic @ le_bytes status @ le_bytes out_size @ le_bytes err_size @ le_bytes file_size"

definition response_file :: "u32 \<Rightarrow> string option \<Rightarrow> filesystem \<Rightarrow> errno + u8 list" where
  "response_file status output_file fs =
     (case output_file of
        None \<Rightarrow> Inr []
      | Some path \<Rightarrow> if status \<noteq> 0 then Inr [] else snd (cs_gcc_fs_output path fs))"

definition response_ranges :: "u32 \<Rightarrow> captured list \<Rightarrow> u8 list \<Rightarrow> u8 list list" where
  "response_ranges status streams bytes =
     [response_header status (ca_size (streams ! 0)) (ca_size (streams ! 1)) (of_nat (length bytes)),
      take (unat (ca_size (streams ! 0))) (ca_data (streams ! 0)),
      take (unat (ca_size (streams ! 1))) (ca_data (streams ! 1)), bytes]"

definition cs_gcc_response ::
  "u32 \<Rightarrow> string option \<Rightarrow> captured list \<Rightarrow> filesystem \<Rightarrow> 's writer \<Rightarrow> 's \<Rightarrow> 's \<times> (errno + unit)" where
  "cs_gcc_response status output_file streams fs writer s =
     (case response_file status output_file fs of
        Inl e \<Rightarrow> (s, Inl e)
      | Inr bytes \<Rightarrow> send_all writer (response_ranges status streams bytes) s)"

section \<open>The format\<close>

definition response_packet :: "gcc_result \<Rightarrow> u8 list" where
  "response_packet r = response_header (gr_status r) (of_nat (length (gr_out r))) (of_nat (length (gr_err r)))
     (of_nat (length (gr_file r))) @ gr_out r @ gr_err r @ gr_file r"

definition result_ok :: "gcc_result \<Rightarrow> bool" where
  "result_ok r \<longleftrightarrow> length (gr_out r) + length (gr_err r) \<le> unat CAPTURE_LIMIT \<and> length (gr_file r) < 2 ^ 32 \<and>
     (gr_status r \<noteq> 0 \<longrightarrow> gr_file r = [])"

lemma response_magic_length [simp]: "length response_magic = 8"
  by (simp add: response_magic_def)

lemma length_response_header [simp]: "length (response_header status a b c) = 24"
  by (simp add: response_header_def)

lemma read_word_header [simp]:
  "read_word 8 (response_header status a b c @ rest) = status" "read_word 12 (response_header status a b c @ rest) = a"
  "read_word 16 (response_header status a b c @ rest) = b" "read_word 20 (response_header status a b c @ rest) = c"
  "take 8 (response_header status a b c) = response_magic"
  by (simp_all add: read_word_def response_header_def)

lemma header_decompose:
  assumes "24 \<le> length packet" and "take 8 packet = response_magic"
  shows "packet = response_header (read_word 8 packet) (read_word 12 packet) (read_word 16 packet) (read_word 20 packet) @ drop 24 packet"
proof -
  have split: "drop n packet = le_bytes (read_word n packet) @ drop (n + 4) packet" if "n + 4 \<le> length packet" for n
    using that append_take_drop_id [of 4 "drop n packet"] by (simp add: read_word_def le_bytes_word add.commute)
  have "packet = take 8 packet @ drop 8 packet" by simp
  then show ?thesis
    using assms split [of 8] split [of 12] split [of 16] split [of 20] by (simp add: response_header_def)
qed

lemma decode_response:
  assumes "result_ok r"
  shows "cs_gcc_response_decode (response_packet r) = Inr r"
proof -
  have sizes: "length (gr_out r) < 2 ^ 32" "length (gr_err r) < 2 ^ 32" "length (gr_file r) < 2 ^ 32"
      "length (gr_out r) + length (gr_err r) \<le> 16777216"
    using assms by (simp_all add: result_ok_def CAPTURE_LIMIT_def)
  then show ?thesis
    using assms by (auto simp: cs_gcc_response_decode_def response_packet_def Let_def unat_small result_ok_def CAPTURE_LIMIT_def)
qed

lemma response_decode:
  assumes "cs_gcc_response_decode packet = Inr r"
  shows "result_ok r \<and> packet = response_packet r"
proof -
  define a where "a = unat (read_word 12 packet)"
  define b where "b = unat (read_word 16 packet)"
  define c where "c = unat (read_word 20 packet)"
  have *: "24 \<le> length packet" "take 8 packet = response_magic" "a \<le> length packet - 24" "a \<le> unat CAPTURE_LIMIT"
      "b \<le> length packet - 24 - a" "b \<le> unat CAPTURE_LIMIT - a" "c = length packet - 24 - a - b"
      "read_word 8 packet \<noteq> 0 \<longrightarrow> c = 0"
      "r = \<lparr>gr_status = read_word 8 packet, gr_out = take a (drop 24 packet), gr_err = take b (drop (24 + a) packet),
         gr_file = take c (drop (24 + a + b) packet)\<rparr>"
    using assms by (auto simp: cs_gcc_response_decode_def Let_def a_def b_def c_def split: if_splits)
  have total: "24 + a + b + c = length packet" using * by simp
  then have all: "take c (drop (24 + a + b) packet) = drop (24 + a + b) packet" by simp
  have "drop 24 packet = take a (drop 24 packet) @ take b (drop (24 + a) packet) @ drop (24 + a + b) packet"
    by (metis append_take_drop_id drop_drop add.commute)
  moreover have "length (gr_out r) = a" "length (gr_err r) = b" "length (gr_file r) = c" using * total by auto
  moreover have "c < 2 ^ 32" using unsigned_less [of "read_word 20 packet"] by (simp add: c_def)
  moreover have "of_nat a = read_word 12 packet" "of_nat b = read_word 16 packet" "of_nat c = read_word 20 packet"
    by (simp_all add: a_def b_def c_def)
  ultimately have "response_packet r = packet"
    unfolding response_packet_def using header_decompose [OF *(1,2)] by (simp add: *(9) all)
  then show ?thesis
    using * \<open>c < 2 ^ 32\<close> \<open>length (gr_out r) = a\<close> \<open>length (gr_err r) = b\<close> \<open>length (gr_file r) = c\<close>
    by (auto simp: result_ok_def)
qed

section \<open>The captured streams\<close>

text \<open>
  The state between calls: the buffer holds \<open>size\<close> bytes, the capacity is zero or a power of two
  from 256 to the limit and covers the size, and both streams together stay within the limit.
\<close>

definition capacity_ok :: "u32 \<Rightarrow> bool" where
  "capacity_ok capacity \<longleftrightarrow> capacity = 0 \<or> (\<exists>k. 8 \<le> k \<and> k \<le> 24 \<and> capacity = 2 ^ k)"

definition capture_ok :: "captured \<Rightarrow> bool" where
  "capture_ok c \<longleftrightarrow> length (ca_data c) = unat (ca_size c) \<and> ca_size c \<le> ca_capacity c \<and> capacity_ok (ca_capacity c)"

definition captures_ok :: "captured list \<Rightarrow> bool" where
  "captures_ok streams \<longleftrightarrow> length streams = 2 \<and> capture_ok (streams ! 0) \<and> capture_ok (streams ! 1) \<and>
     unat (ca_size (streams ! 0)) + unat (ca_size (streams ! 1)) \<le> unat CAPTURE_LIMIT"

lemma reset_ok: "captures_ok (cs_gcc_capture_reset streams)"
  by (simp add: captures_ok_def cs_gcc_capture_reset_def capture_ok_def no_capture_def capacity_ok_def)

lemma grow_returns:
  assumes "8 \<le> k" and "k \<le> 24" and "required \<le> 2 ^ 24"
  shows "\<exists>j. k \<le> j \<and> j \<le> 24 \<and> grow required (2 ^ k) = Some (2 ^ j) \<and> required \<le> 2 ^ j"
  using assms(1,2)
proof (induction "24 - k" arbitrary: k)
  case 0
  then have k: "k = 24" by simp
  then have "\<not> (2 ^ k < required)" using assms(3) by (simp add: not_less)
  then have "grow required (2 ^ k) = Some (2 ^ k)" by (simp add: grow.simps [of required "2 ^ k"])
  then show ?case using k assms(3) by blast
next
  case (Suc n)
  show ?case
  proof (cases "2 ^ k < required")
    case True
    have "k < 24" using Suc.hyps(2) by simp
    then obtain j where "k + 1 \<le> j \<and> j \<le> 24 \<and> grow required (2 ^ (k + 1)) = Some (2 ^ j) \<and> required \<le> 2 ^ j"
      using Suc.hyps(1) [of "k + 1"] Suc.hyps(2) Suc.prems by fastforce
    then show ?thesis using True
      by (intro exI [of _ j]) (auto simp: grow.simps [of required "2 ^ k"] mult.commute)
  qed (use Suc.prems in \<open>auto simp: grow.simps [of required "2 ^ k"] not_less\<close>)
qed

lemma captured_more_ok:
  assumes ok: "capture_ok c" and room: "unat (ca_size c) + length data \<le> unat CAPTURE_LIMIT"
  shows "\<exists>c'. captured_more data c = Some c' \<and> capture_ok c' \<and> ca_data c' = ca_data c @ data \<and>
    unat (ca_size c') = unat (ca_size c) + length data"
proof -
  define required where "required = ca_size c + of_nat (length data)"
  have small: "length data < 2 ^ 32" "unat (ca_size c) + length data < 2 ^ 32" using room by (simp_all add: CAPTURE_LIMIT_def)
  then have size: "unat required = unat (ca_size c) + length data"
    by (simp add: required_def unat_word_ariths unat_small)
  have "required \<le> 2 ^ 24" using room size by (simp add: word_le_nat_alt CAPTURE_LIMIT_def)
  have "\<exists>capacity. (if required > ca_capacity c then grow required (if ca_capacity c \<noteq> 0 then ca_capacity c else 256)
      else Some (ca_capacity c)) = Some capacity \<and> required \<le> capacity \<and> capacity_ok capacity"
  proof (cases "required > ca_capacity c")
    case True
    define start where "start = (if ca_capacity c \<noteq> 0 then ca_capacity c else 256)"
    obtain k where k: "8 \<le> k" "k \<le> 24" "start = 2 ^ k"
    proof (cases "ca_capacity c = 0")
      case True
      then show ?thesis using that [of 8] by (simp add: start_def)
    next
      case False
      then show ?thesis using ok that by (auto simp: start_def capture_ok_def capacity_ok_def)
    qed
    from grow_returns [OF k(1,2) \<open>required \<le> 2 ^ 24\<close>] obtain j where
      "k \<le> j \<and> j \<le> 24 \<and> grow required (2 ^ k) = Some (2 ^ j) \<and> required \<le> 2 ^ j" by blast
    moreover from this k(1) have "capacity_ok (2 ^ j)" unfolding capacity_ok_def by (metis le_trans)
    ultimately show ?thesis using True k(3) by (intro exI [of _ "2 ^ j"]) (auto simp flip: start_def)
  qed (use ok in \<open>auto simp: capture_ok_def\<close>)
  then obtain capacity where "captured_more data c = Some \<lparr>ca_data = ca_data c @ data, ca_size = required, ca_capacity = capacity\<rparr>"
      "required \<le> capacity" "capacity_ok capacity"
    using ok by (auto simp: captured_more_def Let_def capture_ok_def simp flip: required_def)
  then show ?thesis using ok size by (auto simp: capture_ok_def)
qed

lemma captures_start_ok: "captures_ok [no_capture, no_capture]"
  using reset_ok by (simp add: cs_gcc_capture_reset_def)

lemma capture_write_total:
  assumes "captures_ok streams"
  shows "\<exists>streams' r. cs_gcc_capture_write fd data streams = Some (streams', r) \<and> captures_ok streams' \<and>
    (if fd \<noteq> 1 \<and> fd \<noteq> 2 then r = Inl EBADF \<and> streams' = streams
     else if unat (ca_size (streams ! 0)) + unat (ca_size (streams ! 1)) + length data > unat CAPTURE_LIMIT
     then r = Inl EFBIG \<and> streams' = streams
     else r = Inr (length data) \<and> ca_data (streams' ! nat (fd - 1)) = ca_data (streams ! nat (fd - 1)) @ data \<and>
       streams' ! nat (2 - fd) = streams ! nat (2 - fd))"
proof -
  define a where "a = streams ! 0"
  define b where "b = streams ! 1"
  have streams: "streams = [a, b]" and a: "capture_ok a" and b: "capture_ok b"
      and total: "unat (ca_size a) + unat (ca_size b) \<le> unat CAPTURE_LIMIT"
    using assms by (auto simp: captures_ok_def a_def b_def length_Suc_conv numeral_2_eq_2)
  have "unat (ca_size a) + unat (ca_size b) < 2 ^ 32" using total by (simp add: CAPTURE_LIMIT_def)
  then have sum: "unat (ca_size a + ca_size b) = unat (ca_size a) + unat (ca_size b)"
    by (simp add: unat_word_ariths)
  then have "ca_size a + ca_size b \<le> CAPTURE_LIMIT" using total by (simp add: word_le_nat_alt)
  then have room: "unat (CAPTURE_LIMIT - (ca_size a + ca_size b)) = unat CAPTURE_LIMIT - (unat (ca_size a) + unat (ca_size b))"
    by (simp add: unat_sub sum)
  show ?thesis
  proof (cases "(fd = 1 \<or> fd = 2) \<and> unat (ca_size a) + unat (ca_size b) + length data \<le> unat CAPTURE_LIMIT")
    case False
    then show ?thesis using assms total by (auto simp: cs_gcc_capture_write_def Let_def streams room)
  next
    case True
    then have fits: "length data \<le> unat (CAPTURE_LIMIT - (ca_size a + ca_size b))" using room by linarith
    obtain a' where "captured_more data a = Some a'" "capture_ok a'" "ca_data a' = ca_data a @ data"
        "unat (ca_size a') = unat (ca_size a) + length data"
      using captured_more_ok [OF a, of data] True by auto
    moreover obtain b' where "captured_more data b = Some b'" "capture_ok b'" "ca_data b' = ca_data b @ data"
        "unat (ca_size b') = unat (ca_size b) + length data"
      using captured_more_ok [OF b, of data] True by auto
    ultimately show ?thesis
      using True fits a b by (auto simp: cs_gcc_capture_write_def Let_def streams captures_ok_def)
  qed
qed

section \<open>The contract of a writer\<close>

text \<open>
  A writer that returns a count within the bytes offered has appended that many of them to its
  stream. \<open>ready\<close> is an invariant of its state.
\<close>

locale byte_writer =
  fixes writer :: "'s writer" and sent :: "'s \<Rightarrow> u8 list" and ready :: "'s \<Rightarrow> bool"
  assumes accepts: "ready s \<Longrightarrow> data \<noteq> [] \<Longrightarrow> writer s data = (count, s') \<Longrightarrow> 0 < count \<Longrightarrow> nat count \<le> length data \<Longrightarrow>
      sent s' = sent s @ take (nat count) data \<and> ready s'"
begin

lemma send_sent:
  "ready s \<Longrightarrow> send writer data s = (s', Inr u) \<Longrightarrow> sent s' = sent s @ data \<and> ready s'"
proof (induction data arbitrary: s rule: length_induct)
  case (1 data)
  show ?case
  proof (cases "data = []")
    case False
    obtain count s1 where call: "writer s data = (count, s1)" by (cases "writer s data")
    have count: "0 < count" "nat count \<le> length data" and more: "send writer (drop (nat count) data) s1 = (s', Inr u)"
      using "1.prems"(2) False call by (auto simp: send.simps [of writer data] split: if_splits)
    have step: "sent s1 = sent s @ take (nat count) data" "ready s1"
      using accepts [OF "1.prems"(1) False call count] by auto
    have "length (drop (nat count) data) < length data" using count(1) False by simp
    then have "sent s' = sent s1 @ drop (nat count) data \<and> ready s'"
      using "1.IH" step(2) more by blast
    then show ?thesis using step(1) by simp
  qed (use "1.prems" in \<open>simp add: send.simps\<close>)
qed

lemma send_all_sent:
  "ready s \<Longrightarrow> send_all writer ranges s = (s', Inr u) \<Longrightarrow> sent s' = sent s @ concat ranges \<and> ready s'"
proof (induction ranges arbitrary: s)
  case (Cons data ranges)
  obtain s1 v where first: "send writer data s = (s1, Inr v)" "send_all writer ranges s1 = (s', Inr u)"
    using Cons.prems(2) by (auto split: prod.splits sum.splits)
  then show ?case using send_sent [OF Cons.prems(1) first(1)] Cons.IH [of s1] by simp
qed simp

text \<open>A writer that always makes progress receives everything.\<close>

lemma send_completes:
  assumes progress: "\<And>s data. ready s \<Longrightarrow> data \<noteq> [] \<Longrightarrow> 0 < fst (writer s data) \<and> nat (fst (writer s data)) \<le> length data"
  shows "ready s \<Longrightarrow> \<exists>s'. send writer data s = (s', Inr ())"
proof (induction data arbitrary: s rule: length_induct)
  case (1 data)
  show ?case
  proof (cases "data = []")
    case False
    obtain count s1 where call: "writer s data = (count, s1)" by (cases "writer s data")
    have count: "0 < count" "nat count \<le> length data" using progress [OF "1.prems" False] call by simp_all
    have "ready s1" using accepts [OF "1.prems" False call count] by simp
    moreover have "length (drop (nat count) data) < length data" using count(1) False by simp
    ultimately have "\<exists>s'. send writer (drop (nat count) data) s1 = (s', Inr ())" using "1.IH" by blast
    then show ?thesis using False call count by (auto simp: send.simps [of writer data])
  qed (simp add: send.simps)
qed

lemma send_all_completes:
  assumes progress: "\<And>s data. ready s \<Longrightarrow> data \<noteq> [] \<Longrightarrow> 0 < fst (writer s data) \<and> nat (fst (writer s data)) \<le> length data"
  shows "ready s \<Longrightarrow> \<exists>s'. send_all writer ranges s = (s', Inr ())"
proof (induction ranges arbitrary: s)
  case (Cons data ranges)
  obtain s1 where first: "send writer data s = (s1, Inr ())" using send_completes [OF progress Cons.prems] by blast
  then show ?case using send_sent [OF Cons.prems first] Cons.IH [of s1] by simp
qed simp

end

text \<open>An open descriptor is a writer, whose stream is the content up to its write position.\<close>

definition file_writer :: "int \<Rightarrow> filesystem writer" where
  "file_writer fd fs data = (case cs_gcc_fs_write fd data fs of
     (fs, Inl e) \<Rightarrow> (- 1, fs) | (fs, Inr n) \<Rightarrow> (int n, fs))"

definition file_sent :: "int \<Rightarrow> filesystem \<Rightarrow> u8 list" where
  "file_sent fd fs = (case handle_object fd fs of
     None \<Rightarrow> [] | Some (h, i) \<Rightarrow> take (write_position h i fs) (content (fs_objects fs ! i)))"

definition file_writable :: "int \<Rightarrow> filesystem \<Rightarrow> bool" where
  "file_writable fd fs \<longleftrightarrow> fs_ok fs \<and> (case handle_object fd fs of
     None \<Rightarrow> False | Some (h, i) \<Rightarrow> write_position h i fs \<le> length (content (fs_objects fs ! i)))"

lemma content_length: "fs_ok fs \<Longrightarrow> i < CC_FILES_MAX \<Longrightarrow> length (content (fs_objects fs ! i)) = fi_size (fs_objects fs ! i)"
  using fs_okD(4) [of fs i] by (auto simp: content_def object_ok_def)

lemma file_writer_step:
  assumes "file_writable fd fs" and "data \<noteq> []" and "file_writer fd fs data = (count, fs')" and "0 < count"
  shows "nat count = length data \<and> file_sent fd fs' = file_sent fd fs @ data \<and> file_writable fd fs'"
proof -
  obtain h i where ok: "fs_ok fs" and handle: "handle_object fd fs = Some (h, i)"
      and inside: "write_position h i fs \<le> length (content (fs_objects fs ! i))"
    using assms(1) by (auto simp: file_writable_def split: option.splits)
  obtain n where call: "cs_gcc_fs_write fd data fs = (fs', Inr n)" and n: "count = int n"
    using assms(3,4) by (auto simp: file_writer_def split: prod.splits sum.splits)
  note W = write_content [OF ok handle assms(2) call]
  note H = handle_object_Some [OF ok handle]
  have ok': "fs_ok fs'" using write_ok [OF ok, of fd data] call by simp
  have flags: "de_flags (fs_handles fs' ! h) = de_flags (fs_handles fs ! h)"
      and object: "de_object (fs_handles fs' ! h) = de_object (fs_handles fs ! h)"
    using call handle assms(2) H(1) fs_okD(2) [OF ok]
    by (auto simp: cs_gcc_fs_write_def with_handle_def Let_def set_position_def nth_modify split: if_splits)
  have handle': "handle_object fd fs' = Some (h, i)"
    using handle H(4) object by (auto simp: handle_object_def split: if_splits)
  define c where "c = content (fs_objects fs ! i)"
  define p where "p = write_position h i fs"
  have c': "content (fs_objects fs' ! i) = take p c @ data @ drop (p + length data) c"
    using W inside by (simp add: overlay_def flip: c_def p_def)
  have p': "write_position h i fs' = p + length data"
  proof (cases "de_flags (fs_handles fs ! h) AND CS_FS_APPEND \<noteq> 0")
    case True
    then have "p = length c" using content_length [OF ok H(3)] by (simp add: write_position_def p_def c_def)
    then show ?thesis using True flags content_length [OF ok' H(3)] c' by (simp add: write_position_def)
  next
    case False
    then show ?thesis using flags W by (simp add: write_position_def p_def)
  qed
  have "n = length data" using W by simp
  then show ?thesis
    using n inside ok' handle handle' c' p'
    by (simp add: file_sent_def file_writable_def flip: c_def p_def)
qed

interpretation file_output: byte_writer "file_writer fd" "file_sent fd" "file_writable fd" for fd
  by unfold_locales (use file_writer_step in fastforce)

lemma response_sent:
  assumes "byte_writer writer sent ready" and "ready s" and "captures_ok streams" and "fs_ok fs"
    and "cs_gcc_response status output_file streams fs writer s = (s', Inr u)"
  shows "\<exists>packet bytes. sent s' = sent s @ packet \<and> response_file status output_file fs = Inr bytes \<and>
    cs_gcc_response_decode packet = Inr \<lparr>gr_status = status, gr_out = ca_data (streams ! 0),
      gr_err = ca_data (streams ! 1), gr_file = bytes\<rparr>"
proof -
  obtain bytes where bytes: "response_file status output_file fs = Inr bytes"
    using assms(5) by (auto simp: cs_gcc_response_def split: sum.splits)
  define r where "r = \<lparr>gr_status = status, gr_out = ca_data (streams ! 0), gr_err = ca_data (streams ! 1), gr_file = bytes\<rparr>"
  have ca: "length (ca_data (streams ! 0)) = unat (ca_size (streams ! 0))" "length (ca_data (streams ! 1)) = unat (ca_size (streams ! 1))"
      "unat (ca_size (streams ! 0)) + unat (ca_size (streams ! 1)) \<le> unat CAPTURE_LIMIT"
    using assms(3) by (simp_all add: captures_ok_def capture_ok_def)
  have "length bytes < 2 ^ 32 \<and> (status \<noteq> 0 \<longrightarrow> bytes = [])"
  proof (cases "status = 0 \<and> output_file \<noteq> None")
    case True
    then obtain path where path: "snd (cs_gcc_fs_output path fs) = Inr bytes"
      using bytes by (auto simp: response_file_def)
    then obtain name i where "file_lookup name fs = Some i" "bytes = content (fs_objects fs ! i)"
      by (auto simp: cs_gcc_fs_output_def with_file_def with_path_def split: sum.splits option.splits)
    then have "length bytes \<le> INT_MAX"
      using fs_okD(4) [OF assms(4), of i] file_lookup_Some [OF assms(4), of name i] by (auto simp: content_def object_ok_def)
    then show ?thesis using True by (simp add: INT_MAX_def)
  qed (use bytes in \<open>auto simp: response_file_def split: option.splits\<close>)
  then have "result_ok r" using ca by (simp add: result_ok_def r_def)
  moreover have "send_all writer (response_ranges status streams bytes) s = (s', Inr u)"
    using assms(5) bytes by (simp add: cs_gcc_response_def)
  then have "sent s' = sent s @ concat (response_ranges status streams bytes)"
    using byte_writer.send_all_sent [OF assms(1,2)] by blast
  then have "sent s' = sent s @ response_packet r"
    using ca by (simp add: response_packet_def r_def response_ranges_def)
  ultimately show ?thesis using decode_response [of r] bytes by (auto simp: r_def)
qed

section \<open>Properties\<close>

text \<open>
  C34. Writing to a captured stream always returns: the loop that doubles the capacity ends, for any
  call sequence since the last reset, with a power of two that no 32-bit step overflowed. Descriptors other than 1
  and 2 are rejected, a write beyond the common limit of both streams is rejected as a whole, and
  every other write appends exactly the bytes to its stream and leaves the other one alone.
\<close>

theorem capture_write_returns:
  assumes "captures_ok streams"
  shows "\<exists>streams' r. cs_gcc_capture_write fd data streams = Some (streams', r) \<and> captures_ok streams' \<and>
    (if fd \<noteq> 1 \<and> fd \<noteq> 2 then r = Inl EBADF \<and> streams' = streams
     else if unat (ca_size (streams ! 0)) + unat (ca_size (streams ! 1)) + length data > unat CAPTURE_LIMIT
     then r = Inl EFBIG \<and> streams' = streams
     else r = Inr (length data) \<and> ca_data (streams' ! nat (fd - 1)) = ca_data (streams ! nat (fd - 1)) @ data \<and>
       streams' ! nat (2 - fd) = streams ! nat (2 - fd))"
  using capture_write_total [OF assms] .

theorem capture_write_returns_witness:
  "\<exists>streams'. cs_gcc_capture_write 2 [7, 8] (cs_gcc_capture_reset []) = Some (streams', Inr 2) \<and> ca_data (streams' ! 1) = [7, 8]"
  using capture_write_returns [OF reset_ok, of 2 "[7, 8]" "[]"]
  by (auto simp: cs_gcc_capture_reset_def no_capture_def CAPTURE_LIMIT_def)

text \<open>
  The decoder accepts exactly the packets of the format and returns what they were made from;
  every other sequence of bytes is rejected with \<open>EINVAL\<close>.
\<close>

theorem response_decode_exact:
  "(cs_gcc_response_decode packet = Inr r \<longleftrightarrow> result_ok r \<and> packet = response_packet r) \<and>
   cs_gcc_response_decode packet \<in> insert (Inl EINVAL) (range Inr)"
proof
  show "cs_gcc_response_decode packet = Inr r \<longleftrightarrow> result_ok r \<and> packet = response_packet r"
    using decode_response response_decode by blast
  show "cs_gcc_response_decode packet \<in> insert (Inl EINVAL) (range Inr)"
    by (simp add: cs_gcc_response_decode_def Let_def)
qed

text \<open>
  C33. When a response is sent through a writer that appends what it accepts, in pieces of whatever
  size, the stream of the writer has grown by one packet, and that packet decodes to the status,
  the two captured streams and the content of the output file.
\<close>

theorem response_delivers:
  assumes "byte_writer writer sent ready" and "ready s" and "captures_ok streams" and "fs_ok fs"
    and "cs_gcc_response status output_file streams fs writer s = (s', Inr u)"
  shows "\<exists>packet bytes. sent s' = sent s @ packet \<and> response_file status output_file fs = Inr bytes \<and>
    cs_gcc_response_decode packet = Inr \<lparr>gr_status = status, gr_out = ca_data (streams ! 0),
      gr_err = ca_data (streams ! 1), gr_file = bytes\<rparr>"
  by (rule response_sent [OF assms])

text \<open>The bytes of a list, appended at once.\<close>

definition append_all :: "u8 list writer" where
  "append_all s data = (int (length data), s @ data)"

theorem response_delivers_witness:
  "\<exists>packet. fst (cs_gcc_response 3 None (cs_gcc_capture_reset []) empty_fs append_all [9]) = 9 # packet \<and>
    cs_gcc_response_decode packet = Inr \<lparr>gr_status = 3, gr_out = [], gr_err = [], gr_file = []\<rparr>"
proof -
  have writer: "byte_writer append_all (\<lambda>s. s) (\<lambda>s. True)"
    by unfold_locales (auto simp: append_all_def)
  obtain s' where call: "cs_gcc_response 3 None (cs_gcc_capture_reset []) empty_fs append_all [9] = (s', Inr ())"
    using byte_writer.send_all_completes [OF writer, where s = "[9]" and ranges = "response_ranges 3 (cs_gcc_capture_reset []) []"]
    by (auto simp: cs_gcc_response_def response_file_def append_all_def)
  show ?thesis using response_delivers [OF writer _ reset_ok empty_fs_ok call] call
    by (auto simp: response_file_def cs_gcc_capture_reset_def no_capture_def)
qed

end
