(* ===== verification/GccJob.thy ===== *)
theory GccJob
  imports GccFilesRun
begin

text \<open>
  runtime/gcc/job.c: a job packet holds the arguments of the compiler and the blob of its input
  files. Decoding checks the whole packet before it mounts the files; reading takes exactly one
  packet from a reader that may deliver it in pieces of any size. The packet is its bytes, the
  job is its list of arguments (\<open>None\<close> before and after its life), and a reader is a function from
  its state and the wanted size to the count it returns, the bytes it stored and its next state.
\<close>

definition CS_GCC_JOB_MAX :: nat where
  "CS_GCC_JOB_MAX = 16777216"

definition job_magic :: "u8 list" where
  "job_magic = bytes_of ''GCCJOB1'' @ [0]"

section \<open>Decoding\<close>

text \<open>The arguments between the header and the files; nothing may be left over.\<close>

primrec read_arguments :: "nat \<Rightarrow> bool \<Rightarrow> u8 list \<Rightarrow> string list option" where
  "read_arguments 0 first rest = (if rest = [] then Some [] else None)"
| "read_arguments (Suc n) first rest = do {
     (length, rest) \<leftarrow> take_word rest;
     if length > 4096 then None
     else do {
       (bytes, rest) \<leftarrow> take_bytes length rest;
       if first \<and> length = 0 \<or> 0 \<in> set bytes then None
       else map_option ((#) (text_of bytes)) (read_arguments n False rest)
     }
   }"

definition cs_gcc_job_release :: "string list option \<Rightarrow> string list option" where
  "cs_gcc_job_release job = None"

definition packet_word :: "nat \<Rightarrow> u8 list \<Rightarrow> nat" where
  "packet_word at packet = unat (le_word (take 4 (drop at packet)))"

definition cs_gcc_job_decode :: "u8 list \<Rightarrow> string list option \<Rightarrow> filesystem \<Rightarrow> string list fs_result" where
  "cs_gcc_job_decode packet job fs =
     (let bytes = length packet; argc = packet_word 8 packet; files = packet_word 12 packet; stop = bytes - files
      in if job \<noteq> None then (fs, Inl EINVAL)
         else if bytes < 16 \<or> bytes > CS_GCC_JOB_MAX \<or> take 8 packet \<noteq> job_magic then (fs, Inl EINVAL)
         else if argc = 0 \<or> argc > 256 \<or> files > bytes - 16 then (fs, Inl EINVAL)
         else case read_arguments argc True (take (stop - 16) (drop 16 packet)) of
             None \<Rightarrow> (fs, Inl EINVAL)
           | Some argv \<Rightarrow> (case cs_gcc_fs_mount (drop stop packet) fs of
               (fs, Inl e) \<Rightarrow> (fs, Inl e)
             | (fs, Inr u) \<Rightarrow> (fs, Inr argv)))"

section \<open>Reading from a stream\<close>

type_synonym 's reader = "'s \<Rightarrow> nat \<Rightarrow> int \<times> u8 list \<times> 's"

function read_exact :: "'s reader \<Rightarrow> nat \<Rightarrow> 's \<Rightarrow> 's \<times> (errno + u8 list)" where
  "read_exact reader n s =
     (if n = 0 then (s, Inr [])
      else case reader s n of (count, bytes, s) \<Rightarrow>
        if count \<le> 0 \<or> nat count > n then (s, Inl EIO)
        else (case read_exact reader (n - nat count) s of
            (s, Inl e) \<Rightarrow> (s, Inl e)
          | (s, Inr rest) \<Rightarrow> (s, Inr (take (nat count) bytes @ rest))))"
  by pat_completeness auto

termination
  by (relation "measure (\<lambda>(reader, n, s). n)") auto

declare read_exact.simps [simp del]

text \<open>The packet grows by \<open>extra\<close> bytes from the reader.\<close>

definition packet_append :: "'s reader \<Rightarrow> nat \<Rightarrow> u8 list \<Rightarrow> 's \<Rightarrow> 's \<times> (errno + u8 list)" where
  "packet_append reader extra packet s =
     (if extra > CS_GCC_JOB_MAX - length packet then (s, Inl EFBIG)
      else if extra = 0 then (s, Inr packet)
      else case read_exact reader extra s of
          (s, Inl e) \<Rightarrow> (s, Inl e)
        | (s, Inr bytes) \<Rightarrow> (s, Inr (packet @ bytes)))"

primrec append_arguments :: "'s reader \<Rightarrow> nat \<Rightarrow> u8 list \<Rightarrow> 's \<Rightarrow> 's \<times> (errno + u8 list)" where
  "append_arguments reader 0 packet s = (s, Inr packet)"
| "append_arguments reader (Suc n) packet s =
     (case packet_append reader 4 packet s of
        (s, Inl e) \<Rightarrow> (s, Inl e)
      | (s, Inr packet) \<Rightarrow>
          let length = packet_word (length packet - 4) packet
          in if length > 4096 then (s, Inl EINVAL)
             else (case packet_append reader length packet s of
                 (s, Inl e) \<Rightarrow> (s, Inl e)
               | (s, Inr packet) \<Rightarrow> append_arguments reader n packet s))"

definition job_packet_read :: "'s reader \<Rightarrow> 's \<Rightarrow> 's \<times> (errno + u8 list)" where
  "job_packet_read reader s =
     (case packet_append reader 16 [] s of
        (s, Inl e) \<Rightarrow> (s, Inl e)
      | (s, Inr packet) \<Rightarrow>
          let argc = packet_word 8 packet; files = packet_word 12 packet
          in if take 8 packet \<noteq> job_magic \<or> argc = 0 \<or> argc > 256 then (s, Inl EINVAL)
             else (case append_arguments reader argc packet s of
                 (s, Inl e) \<Rightarrow> (s, Inl e)
               | (s, Inr packet) \<Rightarrow> packet_append reader files packet s))"

text \<open>The result is the storage, which backs the mounted files, and the job.\<close>

definition cs_gcc_job_read ::
  "'s reader \<Rightarrow> 's \<Rightarrow> string list option \<Rightarrow> filesystem \<Rightarrow> 's \<times> filesystem \<times> (errno + u8 list \<times> string list)" where
  "cs_gcc_job_read reader s job fs =
     (if job \<noteq> None then (s, fs, Inl EINVAL)
      else case job_packet_read reader s of
          (s, Inl e) \<Rightarrow> (s, fs, Inl e)
        | (s, Inr packet) \<Rightarrow> (case cs_gcc_job_decode packet job fs of
            (fs, Inl e) \<Rightarrow> (s, fs, Inl e)
          | (fs, Inr argv) \<Rightarrow> (s, fs, Inr (packet, argv))))"

section \<open>The format\<close>

definition argument_bytes :: "string \<Rightarrow> u8 list" where
  "argument_bytes a = le_bytes (of_nat (length a)) @ bytes_of a"

definition job_packet :: "string list \<Rightarrow> u8 list \<Rightarrow> u8 list" where
  "job_packet argv files = job_magic @ le_bytes (of_nat (length argv)) @ le_bytes (of_nat (length files)) @
     concat (map argument_bytes argv) @ files"

definition arguments_ok :: "string list \<Rightarrow> bool" where
  "arguments_ok argv \<longleftrightarrow> (\<forall>a\<in>set argv. length a \<le> 4096 \<and> CHR 0x00 \<notin> set a)"

definition job_ok :: "string list \<Rightarrow> u8 list \<Rightarrow> bool" where
  "job_ok argv files \<longleftrightarrow> argv \<noteq> [] \<and> length argv \<le> 256 \<and> hd argv \<noteq> [] \<and> arguments_ok argv \<and>
     length (job_packet argv files) \<le> CS_GCC_JOB_MAX"

lemma zero_text: "0 \<in> set bytes \<longleftrightarrow> CHR 0x00 \<in> set (text_of bytes)"
proof -
  have "text_of [0] = [CHR 0x00]" using text_of_bytes_of [of "[CHR 0x00]"] by (simp add: bytes_of_def)
  then have "CHR 0x00 = char_of (unat (0 :: u8))" by (simp add: text_of_def)
  then show ?thesis using inj_image_mem_iff [OF inj_byte_char, of 0 "set bytes"] by (simp add: text_of_def)
qed

lemma ex_text: "(\<exists>bytes. P bytes) \<longleftrightarrow> (\<exists>a. P (bytes_of a))"
  by (metis bytes_of_text_of)

lemma bytes_of_Nil: "bytes_of a = [] \<longleftrightarrow> a = []"
  by (simp add: bytes_of_def)

lemma read_arguments_iff:
  "read_arguments n first rest = Some argv \<longleftrightarrow>
    length argv = n \<and> arguments_ok argv \<and> (first \<and> argv \<noteq> [] \<longrightarrow> hd argv \<noteq> []) \<and> rest = concat (map argument_bytes argv)"
proof (induction n arbitrary: first rest argv)
  case (Suc n)
  have "read_arguments (Suc n) first rest = Some argv \<longleftrightarrow>
      (\<exists>bytes rest' others. rest = le_bytes (of_nat (length bytes)) @ bytes @ rest' \<and> length bytes \<le> 4096 \<and>
         \<not> (first \<and> bytes = []) \<and> 0 \<notin> set bytes \<and> read_arguments n False rest' = Some others \<and> argv = text_of bytes # others)"
    by (fastforce simp: bind_eq_Some_conv take_counted take_bytes_Some split: if_splits)
  also have "\<dots> \<longleftrightarrow> (\<exists>a rest' others. rest = argument_bytes a @ rest' \<and> length a \<le> 4096 \<and>
         \<not> (first \<and> a = []) \<and> CHR 0x00 \<notin> set a \<and> read_arguments n False rest' = Some others \<and> argv = a # others)"
    by (subst ex_text) (simp add: argument_bytes_def zero_text bytes_of_Nil)
  also have "\<dots> \<longleftrightarrow> length argv = Suc n \<and> arguments_ok argv \<and> (first \<and> argv \<noteq> [] \<longrightarrow> hd argv \<noteq> []) \<and>
      rest = concat (map argument_bytes argv)"
    unfolding Suc.IH by (auto simp: length_Suc_conv arguments_ok_def)
  finally show ?case .
qed (auto simp: arguments_ok_def)

lemma job_magic_length: "length job_magic = 8"
  by (simp add: job_magic_def)

lemma job_packet_fields:
  assumes "length argv \<le> 256" and "length (job_packet argv files) \<le> CS_GCC_JOB_MAX"
  shows "packet_word 8 (job_packet argv files) = length argv" and "packet_word 12 (job_packet argv files) = length files"
    and "take 8 (job_packet argv files) = job_magic"
    and "length (job_packet argv files) = 16 + length (concat (map argument_bytes argv)) + length files"
    and "drop 16 (job_packet argv files) = concat (map argument_bytes argv) @ files"
proof -
  have "length files < 2 ^ 32" using assms(2) by (simp add: job_packet_def CS_GCC_JOB_MAX_def)
  then show "packet_word 8 (job_packet argv files) = length argv" "packet_word 12 (job_packet argv files) = length files"
    using assms(1) by (simp_all add: packet_word_def job_packet_def job_magic_length)
qed (simp_all add: job_packet_def job_magic_length)

lemma packet_decompose:
  assumes "16 \<le> length packet" and "take 8 packet = job_magic"
  shows "packet = job_magic @ le_bytes (of_nat (packet_word 8 packet)) @ le_bytes (of_nat (packet_word 12 packet)) @ drop 16 packet"
proof -
  have "drop 8 packet = take 4 (drop 8 packet) @ drop 12 packet" "drop 12 packet = take 4 (drop 12 packet) @ drop 16 packet"
    using append_take_drop_id [of 4 "drop 8 packet"] append_take_drop_id [of 4 "drop 12 packet"] by simp_all
  then have "packet = take 8 packet @ take 4 (drop 8 packet) @ take 4 (drop 12 packet) @ drop 16 packet"
    by (metis append_take_drop_id)
  moreover have "le_bytes (of_nat (packet_word at packet)) = take 4 (drop at packet)" if "at + 4 \<le> length packet" for at
    using that by (simp add: packet_word_def le_bytes_word)
  ultimately show ?thesis using assms by simp
qed

lemma decode_packet:
  assumes "job_ok argv files"
  shows "cs_gcc_job_decode (job_packet argv files) None fs =
    (case cs_gcc_fs_mount files fs of (fs', Inl e) \<Rightarrow> (fs', Inl e) | (fs', Inr u) \<Rightarrow> (fs', Inr argv))"
proof -
  have ok: "length argv \<le> 256" "length (job_packet argv files) \<le> CS_GCC_JOB_MAX" "argv \<noteq> []" "hd argv \<noteq> []" "arguments_ok argv"
    using assms by (auto simp: job_ok_def)
  note fields = job_packet_fields [OF ok(1,2)]
  define args where "args = concat (map argument_bytes argv)"
  have "read_arguments (length argv) True args = Some argv"
    unfolding read_arguments_iff args_def using ok by simp
  moreover have "drop (16 + length args) (job_packet argv files) = files"
    using fields(5) by (metis add.commute append_eq_conv_conj args_def drop_drop)
  ultimately show ?thesis
    using ok(1-3) fields by (simp add: cs_gcc_job_decode_def Let_def flip: args_def)
qed

lemma decode_other:
  assumes "cs_gcc_job_decode packet None fs \<noteq> (fs, Inl EINVAL)"
  shows "\<exists>argv files. job_ok argv files \<and> packet = job_packet argv files"
proof -
  define argc where "argc = packet_word 8 packet"
  define count where "count = packet_word 12 packet"
  define stop where "stop = length packet - count"
  have *: "16 \<le> length packet" "length packet \<le> CS_GCC_JOB_MAX" "take 8 packet = job_magic" "argc \<noteq> 0" "argc \<le> 256"
      "count \<le> length packet - 16" "read_arguments argc True (take (stop - 16) (drop 16 packet)) \<noteq> None"
    using assms by (auto simp: cs_gcc_job_decode_def Let_def argc_def count_def stop_def split: if_splits option.splits)
  then obtain argv where argv: "length argv = argc" "arguments_ok argv" "argv \<noteq> [] \<longrightarrow> hd argv \<noteq> []"
      "take (stop - 16) (drop 16 packet) = concat (map argument_bytes argv)"
    unfolding not_None_eq read_arguments_iff by auto
  define files where "files = drop stop packet"
  have "length files = count" using *(1,6) by (simp add: files_def stop_def)
  moreover have "drop 16 packet = concat (map argument_bytes argv) @ files"
  proof -
    have "drop (stop - 16) (drop 16 packet) = files" using *(1,6) by (simp add: files_def stop_def)
    then show ?thesis using append_take_drop_id [of "stop - 16" "drop 16 packet"] argv(4) by simp
  qed
  ultimately have "packet = job_packet argv files"
    using packet_decompose [OF *(1,3)] argv(1) by (simp add: job_packet_def argc_def count_def)
  moreover from this have "job_ok argv files" using * argv by (auto simp: job_ok_def)
  ultimately show ?thesis by blast
qed

section \<open>The contract of a reader\<close>

text \<open>
  A reader delivers the bytes of a stream in order, at least one at a time until the stream is
  exhausted. \<open>ready\<close> is an invariant of its state.
\<close>

locale byte_reader =
  fixes reader :: "'s reader" and stream :: "'s \<Rightarrow> u8 list" and ready :: "'s \<Rightarrow> bool"
  assumes delivers: "ready s \<Longrightarrow> 0 < n \<Longrightarrow> n \<le> CS_GCC_JOB_MAX \<Longrightarrow> stream s \<noteq> [] \<Longrightarrow> reader s n = (count, bytes, s') \<Longrightarrow>
      0 < count \<and> nat count \<le> n \<and> length bytes = nat count \<and> stream s = bytes @ stream s' \<and> ready s'"
    and ends: "ready s \<Longrightarrow> 0 < n \<Longrightarrow> n \<le> CS_GCC_JOB_MAX \<Longrightarrow> stream s = [] \<Longrightarrow> reader s n = (count, bytes, s') \<Longrightarrow> count \<le> 0"
begin

lemma read_exact_stream:
  "ready s \<Longrightarrow> n \<le> CS_GCC_JOB_MAX \<Longrightarrow> n \<le> length (stream s) \<Longrightarrow>
    \<exists>s'. read_exact reader n s = (s', Inr (take n (stream s))) \<and> stream s' = drop n (stream s) \<and> ready s'"
proof (induction n arbitrary: s rule: less_induct)
  case (less n)
  show ?case
  proof (cases "n = 0")
    case False
    obtain count bytes s1 where call: "reader s n = (count, bytes, s1)" by (cases "reader s n")
    have "0 < n" "stream s \<noteq> []" using False less.prems(3) by auto
    then have one: "0 < count" "nat count \<le> n" "length bytes = nat count" "stream s = bytes @ stream s1" "ready s1"
      using delivers [OF less.prems(1) _ less.prems(2) _ call] by auto
    have "n - nat count < n" "n - nat count \<le> CS_GCC_JOB_MAX" "n - nat count \<le> length (stream s1)"
      using one(1,3,4) less.prems(2,3) False by auto
    then obtain s' where "read_exact reader (n - nat count) s1 = (s', Inr (take (n - nat count) (stream s1)))"
        "stream s' = drop (n - nat count) (stream s1)" "ready s'"
      using less.IH [of "n - nat count" s1] one(5) by blast
    then show ?thesis using False call one by (subst read_exact.simps) simp
  qed (use less.prems(1) in \<open>simp add: read_exact.simps\<close>)
qed

lemma read_exact_short:
  "ready s \<Longrightarrow> n \<le> CS_GCC_JOB_MAX \<Longrightarrow> length (stream s) < n \<Longrightarrow> \<exists>s'. read_exact reader n s = (s', Inl EIO)"
proof (induction n arbitrary: s rule: less_induct)
  case (less n)
  then have n: "0 < n" by simp
  obtain count bytes s1 where call: "reader s n = (count, bytes, s1)" by (cases "reader s n")
  show ?case
  proof (cases "stream s = []")
    case True
    then show ?thesis using ends [OF less.prems(1) n less.prems(2) True call] n call by (subst read_exact.simps) simp
  next
    case False
    have one: "0 < count" "nat count \<le> n" "length bytes = nat count" "stream s = bytes @ stream s1" "ready s1"
      using delivers [OF less.prems(1) n less.prems(2) False call] by auto
    have "n - nat count < n" "n - nat count \<le> CS_GCC_JOB_MAX" "length (stream s1) < n - nat count"
      using one(1,3,4) less.prems(2,3) n by auto
    then obtain s' where "read_exact reader (n - nat count) s1 = (s', Inl EIO)"
      using less.IH [of "n - nat count" s1] one(5) by blast
    then show ?thesis using n call one by (subst read_exact.simps) simp
  qed
qed

lemma append_stream:
  assumes "ready s" and "length packet + length bytes \<le> CS_GCC_JOB_MAX" and "stream s = bytes @ rest"
  shows "\<exists>s'. packet_append reader (length bytes) packet s = (s', Inr (packet @ bytes)) \<and> stream s' = rest \<and> ready s'"
proof (cases "bytes = []")
  case False
  obtain s' where "read_exact reader (length bytes) s = (s', Inr bytes)" "stream s' = rest" "ready s'"
    using read_exact_stream [OF assms(1), of "length bytes"] assms(2,3) by auto
  then show ?thesis using assms(2) False by (auto simp: packet_append_def)
qed (use assms in \<open>simp add: packet_append_def\<close>)

lemma append_arguments_stream:
  "ready s \<Longrightarrow> arguments_ok argv \<Longrightarrow> length packet + length (concat (map argument_bytes argv)) \<le> CS_GCC_JOB_MAX \<Longrightarrow>
    stream s = concat (map argument_bytes argv) @ rest \<Longrightarrow>
    \<exists>s'. append_arguments reader (length argv) packet s = (s', Inr (packet @ concat (map argument_bytes argv))) \<and>
      stream s' = rest \<and> ready s'"
proof (induction argv arbitrary: s packet)
  case (Cons a argv)
  have a: "length a \<le> 4096" "arguments_ok argv" using Cons.prems(2) by (auto simp: arguments_ok_def)
  have first: "argument_bytes a = le_bytes (of_nat (length a)) @ bytes_of a" by (rule argument_bytes_def)
  define counted where "counted = packet @ le_bytes (of_nat (length a))"
  have sizes: "length packet + length (le_bytes (of_nat (length a))) \<le> CS_GCC_JOB_MAX"
      "length counted + length (bytes_of a) \<le> CS_GCC_JOB_MAX"
      "length (counted @ bytes_of a) + length (concat (map argument_bytes argv)) \<le> CS_GCC_JOB_MAX"
  proof -
    have "length (argument_bytes a) = 4 + length a" by (simp add: argument_bytes_def)
    then show "length packet + length (le_bytes (of_nat (length a))) \<le> CS_GCC_JOB_MAX"
      "length counted + length (bytes_of a) \<le> CS_GCC_JOB_MAX"
      "length (counted @ bytes_of a) + length (concat (map argument_bytes argv)) \<le> CS_GCC_JOB_MAX"
      using Cons.prems(3) by (simp_all add: counted_def)
  qed
  obtain s1 where s1: "packet_append reader 4 packet s = (s1, Inr counted)" "stream s1 = bytes_of a @ concat (map argument_bytes argv) @ rest" "ready s1"
    using append_stream [OF Cons.prems(1) sizes(1)] Cons.prems(4) by (auto simp: counted_def first)
  obtain s2 where s2: "packet_append reader (length a) counted s1 = (s2, Inr (counted @ bytes_of a))"
      "stream s2 = concat (map argument_bytes argv) @ rest" "ready s2"
    using append_stream [OF s1(3) sizes(2) s1(2)] by auto
  have "packet_word (length counted - 4) counted = length a" using a(1) by (simp add: packet_word_def counted_def)
  then show ?case
    using Cons.IH [OF s2(3) a(2) sizes(3) s2(2)] a(1) s1(1) s2(1) by (simp add: Let_def counted_def first)
qed simp

text \<open>Reading takes exactly the bytes of one packet.\<close>

lemma job_packet_read_stream:
  assumes ok: "job_ok argv files" and ready: "ready s" and stream: "stream s = job_packet argv files @ rest"
  shows "\<exists>s'. job_packet_read reader s = (s', Inr (job_packet argv files)) \<and> stream s' = rest \<and> ready s'"
proof -
  have len: "length argv \<le> 256" "length (job_packet argv files) \<le> CS_GCC_JOB_MAX" "argv \<noteq> []" "arguments_ok argv"
    using ok by (auto simp: job_ok_def)
  note fields = job_packet_fields [OF len(1,2)]
  define args where "args = concat (map argument_bytes argv)"
  define header where "header = take 16 (job_packet argv files)"
  have packet: "job_packet argv files = header @ args @ files" "length header = 16"
    using fields(4,5) append_take_drop_id [of 16 "job_packet argv files"] by (simp_all add: header_def args_def)
  have words: "packet_word 8 header = length argv" "packet_word 12 header = length files" "take 8 header = job_magic"
    using fields(1-3) packet by (simp_all add: packet_word_def)
  have sizes: "length [] + length header \<le> CS_GCC_JOB_MAX" "length header + length args \<le> CS_GCC_JOB_MAX"
      "length (header @ args) + length files \<le> CS_GCC_JOB_MAX"
    using len(2) packet by simp_all
  obtain s1 where s1: "packet_append reader 16 [] s = (s1, Inr header)" "stream s1 = args @ files @ rest" "ready s1"
    using append_stream [OF ready sizes(1), of "args @ files @ rest"] stream packet by auto
  obtain s2 where s2: "append_arguments reader (length argv) header s1 = (s2, Inr (header @ args))"
      "stream s2 = files @ rest" "ready s2"
    using append_arguments_stream [OF s1(3) len(4), of header] sizes(2) s1(2) by (auto simp: args_def)
  obtain s3 where "packet_append reader (length files) (header @ args) s2 = (s3, Inr ((header @ args) @ files))" "stream s3 = rest" "ready s3"
    using append_stream [OF s2(3) sizes(3) s2(2)] by auto
  then show ?thesis using s1(1) s2(1) words len(1,3) packet(1) by (simp add: job_packet_read_def Let_def)
qed

end

text \<open>The files of the file system satisfy the contract: an open descriptor is a reader.\<close>

definition file_reader :: "int \<Rightarrow> filesystem reader" where
  "file_reader fd fs n = (case cs_gcc_fs_read fd n fs of
     (fs, Inl e) \<Rightarrow> (- 1, [], fs) | (fs, Inr bytes) \<Rightarrow> (int (length bytes), bytes, fs))"

definition file_stream :: "int \<Rightarrow> filesystem \<Rightarrow> u8 list" where
  "file_stream fd fs = (case handle_object fd fs of
     None \<Rightarrow> [] | Some (h, i) \<Rightarrow> drop (de_position (fs_handles fs ! h)) (content (fs_objects fs ! i)))"

definition file_ready :: "int \<Rightarrow> filesystem \<Rightarrow> bool" where
  "file_ready fd fs \<longleftrightarrow> fs_ok fs \<and> (case handle_object fd fs of
     None \<Rightarrow> False | Some (h, i) \<Rightarrow> de_flags (fs_handles fs ! h) AND CS_FS_READ \<noteq> 0)"

lemma file_reader_step:
  assumes "file_ready fd fs" and "n \<le> CS_GCC_JOB_MAX" and "file_reader fd fs n = (count, bytes, fs')"
  shows "count = int (length bytes) \<and> bytes = take n (file_stream fd fs) \<and>
    file_stream fd fs' = drop (length bytes) (file_stream fd fs) \<and> file_ready fd fs'"
proof -
  obtain h i where ok: "fs_ok fs" and handle: "handle_object fd fs = Some (h, i)"
      and readable: "de_flags (fs_handles fs ! h) AND CS_FS_READ \<noteq> 0"
    using assms(1) by (auto simp: file_ready_def split: option.splits)
  have "n \<le> INT_MAX" using assms(2) by (simp add: CS_GCC_JOB_MAX_def INT_MAX_def)
  then obtain fs1 bytes1 where call: "cs_gcc_fs_read fd n fs = (fs1, Inr bytes1)"
    using readable by (auto simp: cs_gcc_fs_read_def with_handle_def handle Let_def)
  then have same: "fs1 = fs'" "bytes1 = bytes" "count = int (length bytes)" using assms(3) by (auto simp: file_reader_def)
  have r: "bytes = take n (drop (de_position (fs_handles fs ! h)) (content (fs_objects fs ! i)))"
      "fs' = set_position h (de_position (fs_handles fs ! h) + length bytes) fs"
    using read_content [OF ok handle call] same by simp_all
  have h: "h < FD_COUNT" "length (fs_handles fs) = FD_COUNT" using handle_object_Some(1) [OF ok handle] fs_okD(2) [OF ok] by auto
  have handle': "handle_object fd fs' = Some (h, i)"
    using handle h unfolding r(2) by (auto simp: handle_object_def set_position_def nth_modify split: if_splits)
  have "fs_ok fs'" using read_ok [OF ok, of fd n] call same by simp
  then show ?thesis
    using r(1) same(3) handle handle' readable h
    by (simp add: file_stream_def file_ready_def r(2) set_position_def nth_modify add.commute)
qed

interpretation file_input: byte_reader "file_reader fd" "file_stream fd" "file_ready fd" for fd
proof unfold_locales
  fix s n count bytes s'
  assume ready: "file_ready fd s" and n: "0 < n" "n \<le> CS_GCC_JOB_MAX" and call: "file_reader fd s n = (count, bytes, s')"
  note step = file_reader_step [OF ready n(2) call]
  show "file_stream fd s = [] \<Longrightarrow> count \<le> 0" using step by simp
  assume "file_stream fd s \<noteq> []"
  then show "0 < count \<and> nat count \<le> n \<and> length bytes = nat count \<and> file_stream fd s = bytes @ file_stream fd s' \<and> file_ready fd s'"
    using step n append_take_drop_id [of n "file_stream fd s"] by (cases "n \<le> length (file_stream fd s)") auto
qed

section \<open>Properties\<close>

text \<open>
  C32. A packet is decoded exactly when it has the format: the arguments are those it was made from
  and the files are mounted, or the error of the mount is passed on; every other packet, whatever
  its lengths claim, is rejected with \<open>EINVAL\<close> before the file system is touched.
\<close>

theorem job_decode_exact:
  "(job_ok argv files \<longrightarrow> cs_gcc_job_decode (job_packet argv files) None fs =
      (case cs_gcc_fs_mount files fs of (fs', Inl e) \<Rightarrow> (fs', Inl e) | (fs', Inr u) \<Rightarrow> (fs', Inr argv))) \<and>
   ((\<exists>argv files. job_ok argv files \<and> packet = job_packet argv files) \<or>
      cs_gcc_job_decode packet None fs = (fs, Inl EINVAL))"
  using decode_packet decode_other by blast

theorem job_decode_exact_witness:
  "cs_gcc_job_decode (job_packet [''gcc''] []) None empty_fs = (empty_fs, Inl EINVAL) \<and>
   cs_gcc_job_decode [71, 67, 67] None empty_fs = (empty_fs, Inl EINVAL)"
proof -
  have "job_ok [''gcc''] []"
    by (simp add: job_ok_def arguments_ok_def job_packet_def job_magic_def argument_bytes_def CS_GCC_JOB_MAX_def)
  moreover have "cs_gcc_fs_mount [] empty_fs = (empty_fs, Inl EINVAL)"
    by (simp add: cs_gcc_fs_mount_def empty_fs_def no_descriptor_def cc_files_decode_def cc_files_magic_def list_ex_iff)
  moreover have "length (job_packet argv files) > 3" for argv files by (simp add: job_packet_def job_magic_length)
  then have "\<nexists>argv files. [71, 67, 67] = job_packet argv files"
    by (metis length_Cons list.size(3) less_irrefl numeral_3_eq_3 One_nat_def Suc_1)
  ultimately show ?thesis
    using job_decode_exact [of "[''gcc'']" "[]" empty_fs "[71, 67, 67]"] by simp
qed

text \<open>
  C29. From any reader that delivers a stream in order, in pieces of whatever size, reading a job
  consumes exactly one packet, leaves the rest of the stream for the next reader, and returns what
  decoding that packet returns.
\<close>

theorem job_read_one_packet:
  assumes "byte_reader reader stream ready" and "ready s" and "stream s = job_packet argv files @ rest" and "job_ok argv files"
  shows "\<exists>s'. stream s' = rest \<and> ready s' \<and> cs_gcc_job_read reader s None fs =
    (case cs_gcc_fs_mount files fs of
       (fs', Inl e) \<Rightarrow> (s', fs', Inl e) | (fs', Inr u) \<Rightarrow> (s', fs', Inr (job_packet argv files, argv)))"
proof -
  obtain s' where "job_packet_read reader s = (s', Inr (job_packet argv files))" "stream s' = rest" "ready s'"
    using byte_reader.job_packet_read_stream [OF assms(1,4,2,3)] by blast
  then show ?thesis
    using decode_packet [OF assms(4), of fs] by (auto simp: cs_gcc_job_read_def split: sum.splits prod.splits)
qed

text \<open>The bytes of a list, one at a time.\<close>

definition one_byte :: "u8 list reader" where
  "one_byte s n = (if s = [] then (0, [], s) else (1, [hd s], tl s))"

theorem job_read_one_packet_witness:
  "snd (snd (cs_gcc_job_read one_byte (job_packet [''gcc''] [] @ [1, 2]) None empty_fs)) = Inl EINVAL"
proof -
  have reader: "byte_reader one_byte (\<lambda>s. s) (\<lambda>s. True)"
    by unfold_locales (auto simp: one_byte_def split: if_splits)
  have ok: "job_ok [''gcc''] []"
    by (simp add: job_ok_def arguments_ok_def job_packet_def job_magic_def argument_bytes_def CS_GCC_JOB_MAX_def)
  have "cs_gcc_fs_mount [] empty_fs = (empty_fs, Inl EINVAL)"
    by (simp add: cs_gcc_fs_mount_def empty_fs_def no_descriptor_def cc_files_decode_def cc_files_magic_def list_ex_iff)
  then show ?thesis using job_read_one_packet [OF reader _ refl ok, of "[1, 2]" empty_fs] by auto
qed

end
