(* ===== verification/GccSystem.thy ===== *)
theory GccSystem
  imports GccResponse GccJob
begin

text \<open>
  runtime/gcc/syscalls.c and directories.c: the operations of the C library of the guest, on top of
  the file system. Descriptors 0, 1 and 2 are the standard streams of the machine, descriptors from
  3 on are files. The device below is a parameter: \<open>cs_read\<close> and \<open>cs_write\<close> are functions of its
  state, as in GccJob and GccResponse. The header constants of the C library (\<open>O_CREAT\<close> and the like)
  are a parameter, too, and so is what the compile-time options choose.
\<close>

section \<open>State\<close>

text \<open>\<open>cf_framed\<close> is \<open>CS_GCC_FRAMED_OUTPUT\<close>; the defaults of the two sizes are 256 KiB and 64 MiB.\<close>

record 'd guest_config =
  cf_heap_bytes :: nat
  cf_memory_bytes :: nat
  cf_framed :: bool
  cf_read :: "'d reader"
  cf_write :: "'d writer"

record 'd guest =
  gu_fs :: filesystem
  gu_captures :: "captured list"
  gu_streams :: u32
  gu_heap_used :: nat
  gu_microseconds :: u64
  gu_device :: 'd

definition guest_start :: "'d \<Rightarrow> 'd guest" where
  "guest_start device = \<lparr>gu_fs = empty_fs, gu_captures = [no_capture, no_capture], gu_streams = 7, gu_heap_used = 0,
     gu_microseconds = 0, gu_device = device\<rparr>"

type_synonym ('d, 'a) call = "'d guest \<Rightarrow> 'd guest \<times> (errno + 'a)"

definition on_fs :: "(filesystem \<Rightarrow> 'a fs_result) \<Rightarrow> ('d, 'a) call" where
  "on_fs f g = (case f (gu_fs g) of (fs, r) \<Rightarrow> (g\<lparr>gu_fs := fs\<rparr>, r))"

definition fails :: "errno \<Rightarrow> ('d, 'a) call" where
  "fails e g = (g, Inl e)"

section \<open>The heap\<close>

text \<open>The result is the offset of the block in the heap.\<close>

definition sbrk :: "'d guest_config \<Rightarrow> int \<Rightarrow> ('d, nat) call" where
  "sbrk cf increment g =
     (let used = gu_heap_used g
      in if increment \<ge> 0
         then if nat increment > cf_heap_bytes cf - used then (g, Inl ENOMEM)
              else (g\<lparr>gu_heap_used := used + nat increment\<rparr>, Inr used)
         else let decrease = nat (- (increment + 1)) + 1
              in if decrease > used then (g, Inl ENOMEM)
                 else (g\<lparr>gu_heap_used := used - decrease\<rparr>, Inr used))"

section \<open>Reading, writing and closing\<close>

definition valid_stream :: "int \<Rightarrow> 'd guest \<Rightarrow> bool" where
  "valid_stream fd g \<longleftrightarrow> fd \<ge> 0 \<and> fd \<le> 2 \<and> gu_streams g AND push_bit (nat fd) 1 \<noteq> 0"

definition sys_read :: "'d guest_config \<Rightarrow> int \<Rightarrow> nat \<Rightarrow> ('d, u8 list) call" where
  "sys_read cf fd count g =
     (if fd \<ge> 3 then on_fs (cs_gcc_fs_read fd count) g
      else if fd \<noteq> 0 \<or> \<not> valid_stream fd g then fails EBADF g
      else if count > INT_MAX then fails EINVAL g
      else case cf_read cf (gu_device g) count of (result, bytes, device) \<Rightarrow>
        (g\<lparr>gu_device := device\<rparr>, if result < 0 then Inl EIO else Inr (take (nat result) bytes)))"

definition device_write :: "'d guest_config \<Rightarrow> u8 list \<Rightarrow> ('d, nat) call" where
  "device_write cf bytes g =
     (case cf_write cf (gu_device g) bytes of (result, device) \<Rightarrow>
        (g\<lparr>gu_device := device\<rparr>, if result < 0 then Inl EIO else Inr (nat result)))"

text \<open>A write to a captured stream returns, as GccResponse shows; \<open>None\<close> stands for a loop without end.\<close>

definition sys_write :: "'d guest_config \<Rightarrow> int \<Rightarrow> u8 list \<Rightarrow> 'd guest \<Rightarrow> ('d guest \<times> (errno + nat)) option" where
  "sys_write cf fd bytes g =
     (if fd \<ge> 3 then Some (on_fs (cs_gcc_fs_write fd bytes) g)
      else if fd \<noteq> 1 \<and> fd \<noteq> 2 \<or> \<not> valid_stream fd g then Some (fails EBADF g)
      else if length bytes > INT_MAX then Some (fails EINVAL g)
      else if cf_framed cf
      then do { (captures, r) \<leftarrow> cs_gcc_capture_write fd bytes (gu_captures g); Some (g\<lparr>gu_captures := captures\<rparr>, r) }
      else Some (device_write cf bytes g))"

definition sys_close :: "int \<Rightarrow> ('d, unit) call" where
  "sys_close fd g =
     (if fd \<ge> 3 then on_fs (cs_gcc_fs_close fd) g
      else if \<not> valid_stream fd g then fails EBADF g
      else (g\<lparr>gu_streams := gu_streams g AND NOT (push_bit (nat fd) 1)\<rparr>, Inr ()))"

section \<open>Status\<close>

datatype file_kind = Regular | Directory | Character

record stat =
  st_kind :: file_kind
  st_permissions :: nat
  st_nlink :: nat
  st_size :: nat
  st_dev :: nat
  st_ino :: nat

definition regular_stat :: "nat \<Rightarrow> nat \<Rightarrow> stat" where
  "regular_stat bytes inode = \<lparr>st_kind = Regular, st_permissions = 438, st_nlink = 1, st_size = bytes, st_dev = 1, st_ino = inode\<rparr>"

definition sys_fstat :: "int \<Rightarrow> ('d, stat) call" where
  "sys_fstat fd g =
     (if fd \<ge> 3
      then (case on_fs (cs_gcc_fs_fstat fd) g of
          (g, Inl e) \<Rightarrow> (g, Inl e)
        | (g, Inr (bytes, inode)) \<Rightarrow> (g, Inr (regular_stat bytes inode)))
      else if \<not> valid_stream fd g then fails EBADF g
      else (g, Inr \<lparr>st_kind = Character, st_permissions = 0, st_nlink = 1, st_size = 0, st_dev = 0, st_ino = 0\<rparr>))"

definition sys_stat :: "string \<Rightarrow> ('d, stat) call" where
  "sys_stat path g =
     (case on_fs (cs_gcc_fs_stat path) g of
        (g, Inl e) \<Rightarrow> (g, Inl e)
      | (g, Inr (bytes, directory, inode)) \<Rightarrow> (g, Inr (if directory
          then (regular_stat bytes inode)\<lparr>st_kind := Directory, st_permissions := 365\<rparr> else regular_stat bytes inode)))"

text \<open>A result and the error number it comes with.\<close>

definition sys_isatty :: "int \<Rightarrow> 'd guest \<Rightarrow> bool \<times> errno" where
  "sys_isatty fd g = (False, if valid_stream fd g then ENOTTY else EBADF)"

definition sys_lseek :: "int \<Rightarrow> int \<Rightarrow> int \<Rightarrow> ('d, nat) call" where
  "sys_lseek fd offset origin g =
     (if fd \<ge> 3 then on_fs (cs_gcc_fs_seek fd offset origin) g
      else fails (if valid_stream fd g then ESPIPE else EBADF) g)"

section \<open>Opening\<close>

text \<open>The constants of fcntl.h and unistd.h; \<open>hd_ignored\<close> are \<open>O_CLOEXEC\<close>, \<open>O_NOCTTY\<close> and \<open>O_BINARY\<close> where they exist.\<close>

record headers =
  hd_accmode :: u32
  hd_rdonly :: u32
  hd_wronly :: u32
  hd_creat :: u32
  hd_excl :: u32
  hd_trunc :: u32
  hd_append :: u32
  hd_ignored :: u32
  hd_r_ok :: u32
  hd_w_ok :: u32
  hd_x_ok :: u32

definition flag_if :: "u32 \<Rightarrow> u32 \<Rightarrow> u32 \<Rightarrow> u32" where
  "flag_if flags tested mapped = (if flags AND tested \<noteq> 0 then mapped else 0)"

definition mapped_flags :: "headers \<Rightarrow> u32 \<Rightarrow> u32" where
  "mapped_flags hdr flags =
     (if flags AND hd_accmode hdr = hd_rdonly hdr then CS_FS_READ
      else if flags AND hd_accmode hdr = hd_wronly hdr then CS_FS_WRITE else CS_FS_READ OR CS_FS_WRITE) OR
     flag_if flags (hd_creat hdr) CS_FS_CREATE OR flag_if flags (hd_excl hdr) CS_FS_EXCL OR
     flag_if flags (hd_trunc hdr) CS_FS_TRUNC OR flag_if flags (hd_append hdr) CS_FS_APPEND"

definition sys_open :: "headers \<Rightarrow> string \<Rightarrow> u32 \<Rightarrow> ('d, nat) call" where
  "sys_open hdr path flags g =
     (let allowed = hd_accmode hdr OR hd_creat hdr OR hd_excl hdr OR hd_trunc hdr OR hd_append hdr OR hd_ignored hdr
      in if flags AND NOT allowed \<noteq> 0 \<or> flags AND hd_accmode hdr = hd_accmode hdr then fails EINVAL g
         else on_fs (cs_gcc_fs_open path (mapped_flags hdr flags)) g)"

definition sys_unlink :: "string \<Rightarrow> ('d, unit) call" where
  "sys_unlink path = on_fs (cs_gcc_fs_unlink path)"

definition sys_access :: "headers \<Rightarrow> string \<Rightarrow> u32 \<Rightarrow> ('d, unit) call" where
  "sys_access hdr path mode g =
     (if mode AND NOT (hd_r_ok hdr OR hd_w_ok hdr OR hd_x_ok hdr) \<noteq> 0 then fails EINVAL g
      else on_fs (cs_gcc_fs_access path (mode AND hd_w_ok hdr \<noteq> 0) (mode AND hd_x_ok hdr \<noteq> 0)) g)"

section \<open>Process, limits and time\<close>

text \<open>\<open>given\<close> tells whether the caller passes a buffer; without one the buffer is allocated.\<close>

definition getcwd :: "bool \<Rightarrow> nat \<Rightarrow> errno + string" where
  "getcwd given bytes =
     (let bytes = (if \<not> given \<and> bytes = 0 then 2 else bytes) in if bytes < 2 then Inl ERANGE else Inr ''/'')"

definition sys_getpid :: nat where
  "sys_getpid = 1"

definition sys_kill :: "int \<Rightarrow> int \<Rightarrow> ('d, unit) call" where
  "sys_kill pid signal = fails ENOSYS"

datatype sysconf_name = SC_PAGESIZE | SC_PHYS_PAGES | SC_AVPHYS_PAGES | SC_OPEN_MAX | SC_CLK_TCK
  | SC_NPROCESSORS_ONLN | SC_NPROCESSORS_CONF | SC_OTHER int

fun sysconf :: "'d guest_config \<Rightarrow> sysconf_name \<Rightarrow> ('d, nat) call" where
  "sysconf cf SC_PAGESIZE g = (g, Inr 4096)"
| "sysconf cf SC_PHYS_PAGES g = (g, Inr (cf_memory_bytes cf div 4096))"
| "sysconf cf SC_AVPHYS_PAGES g = (g, Inr ((cf_heap_bytes cf - gu_heap_used g) div 4096))"
| "sysconf cf SC_OPEN_MAX g = (g, Inr 64)"
| "sysconf cf SC_CLK_TCK g = (g, Inr 100)"
| "sysconf cf SC_NPROCESSORS_ONLN g = (g, Inr 1)"
| "sysconf cf SC_NPROCESSORS_CONF g = (g, Inr 1)"
| "sysconf cf (SC_OTHER n) g = (g, Inl EINVAL)"

text \<open>Each query of the logical clock advances it by a microsecond; \<open>zone\<close> tells whether one is passed.\<close>

definition gettimeofday :: "bool \<Rightarrow> ('d, u64 \<times> u64) call" where
  "gettimeofday zone g =
     (let now = gu_microseconds g
      in if zone then fails EINVAL g
         else if now = - 1 then fails EOVERFLOW g
         else (g\<lparr>gu_microseconds := now + 1\<rparr>, Inr (now div 1000000, now mod 1000000)))"

section \<open>Directories\<close>

record directory =
  di_cursor :: nat
  di_path :: string

definition opendir :: "string \<Rightarrow> ('d, directory) call" where
  "opendir path g =
     (case on_fs (cs_gcc_fs_directory_open path) g of
        (g, Inl e) \<Rightarrow> (g, Inl e)
      | (g, Inr u) \<Rightarrow> (g, Inr \<lparr>di_cursor = 0, di_path = path\<rparr>))"

text \<open>An entry is its inode, its kind and its name; no entry at the end.\<close>

definition readdir :: "directory \<Rightarrow> ('d, directory \<times> (nat \<times> file_kind \<times> string) option) call" where
  "readdir d g =
     (case on_fs (cs_gcc_fs_directory_next (di_path d) (di_cursor d) PATH_BYTES) g of
        (g, Inl e) \<Rightarrow> (g, Inl e)
      | (g, Inr (cursor, entry)) \<Rightarrow> (g, Inr (d\<lparr>di_cursor := cursor\<rparr>,
          map_option (\<lambda>(name, inode, is_dir). (inode, if is_dir then Directory else Regular, name)) entry)))"

definition closedir :: "directory \<Rightarrow> ('d, unit) call" where
  "closedir d g = (g\<lparr>gu_fs := cs_gcc_fs_directory_close (gu_fs g)\<rparr>, Inr ())"

definition rewinddir :: "directory \<Rightarrow> directory" where
  "rewinddir d = d\<lparr>di_cursor := 0\<rparr>"

definition telldir :: "directory \<Rightarrow> int" where
  "telldir d = int (di_cursor d)"

text \<open>A position out of range changes nothing (and sets \<open>EINVAL\<close>).\<close>

definition seekdir :: "directory \<Rightarrow> int \<Rightarrow> directory" where
  "seekdir d position = (if position < 0 \<or> position > 1024 then d else d\<lparr>di_cursor := nat position\<rparr>)"

end
