(* ===== verification/GccSystemOk.thy ===== *)
theory GccSystemOk
  imports GccSystem
begin

text \<open>
  The state of the guest system stays consistent under every system call, in any order and with
  any arguments, and every call returns.
\<close>

definition guest_ok :: "'d guest_config \<Rightarrow> 'd guest \<Rightarrow> bool" where
  "guest_ok cf g \<longleftrightarrow> fs_ok (gu_fs g) \<and> captures_ok (gu_captures g) \<and> gu_heap_used g \<le> cf_heap_bytes cf \<and>
     gu_streams g AND NOT 7 = 0"

inductive guest_step :: "headers \<Rightarrow> 'd guest_config \<Rightarrow> 'd guest \<Rightarrow> 'd guest \<Rightarrow> bool" for hdr cf where
  call_sbrk: "guest_step hdr cf g (fst (sbrk cf increment g))"
| call_read: "guest_step hdr cf g (fst (sys_read cf fd count g))"
| call_write: "sys_write cf fd bytes g = Some (g', r) \<Longrightarrow> guest_step hdr cf g g'"
| call_close: "guest_step hdr cf g (fst (sys_close fd g))"
| call_fstat: "guest_step hdr cf g (fst (sys_fstat fd g))"
| call_stat: "guest_step hdr cf g (fst (sys_stat path g))"
| call_lseek: "guest_step hdr cf g (fst (sys_lseek fd offset origin g))"
| call_open: "guest_step hdr cf g (fst (sys_open hdr path flags g))"
| call_unlink: "guest_step hdr cf g (fst (sys_unlink path g))"
| call_access: "guest_step hdr cf g (fst (sys_access hdr path mode g))"
| call_kill: "guest_step hdr cf g (fst (sys_kill pid signal g))"
| call_sysconf: "guest_step hdr cf g (fst (sysconf cf name g))"
| call_time: "guest_step hdr cf g (fst (gettimeofday zone g))"
| call_opendir: "guest_step hdr cf g (fst (opendir path g))"
| call_readdir: "guest_step hdr cf g (fst (readdir d g))"
| call_closedir: "guest_step hdr cf g (fst (closedir d g))"

inductive guest_reachable :: "headers \<Rightarrow> 'd guest_config \<Rightarrow> 'd guest \<Rightarrow> bool" for hdr cf where
  start: "guest_reachable hdr cf (guest_start device)"
| step: "guest_reachable hdr cf g \<Longrightarrow> guest_step hdr cf g g' \<Longrightarrow> guest_reachable hdr cf g'"

section \<open>Every call keeps the state consistent\<close>

lemma on_fs_ok:
  assumes "guest_ok cf g" and "fs_ok (gu_fs g) \<Longrightarrow> fs_ok (fst (f (gu_fs g)))"
  shows "guest_ok cf (fst (on_fs f g))"
  using assms by (auto simp: guest_ok_def on_fs_def split: prod.splits)

lemma on_fs_result:
  assumes "guest_ok cf g" and "on_fs f g = (g', r)" and "fs_ok (gu_fs g) \<Longrightarrow> fs_ok (fst (f (gu_fs g)))"
  shows "guest_ok cf g'"
  using on_fs_ok [of cf g f] assms by simp

lemma fstat_ok: "fs_ok fs \<Longrightarrow> fs_ok (fst (cs_gcc_fs_fstat fd fs))"
  using fs_step_ok [OF step_fstat] .

lemma directory_close_ok: "fs_ok fs \<Longrightarrow> fs_ok (cs_gcc_fs_directory_close fs)"
  using fs_step_ok [OF step_directory_close] .

lemma guest_ok_same_fs:
  "guest_ok cf g \<Longrightarrow> guest_ok cf (g\<lparr>gu_device := device\<rparr>)" "guest_ok cf g \<Longrightarrow> guest_ok cf (g\<lparr>gu_microseconds := n\<rparr>)"
  "guest_ok cf g \<Longrightarrow> used \<le> cf_heap_bytes cf \<Longrightarrow> guest_ok cf (g\<lparr>gu_heap_used := used\<rparr>)"
  "guest_ok cf g \<Longrightarrow> captures_ok captures \<Longrightarrow> guest_ok cf (g\<lparr>gu_captures := captures\<rparr>)"
  "guest_ok cf g \<Longrightarrow> fs_ok fs \<Longrightarrow> guest_ok cf (g\<lparr>gu_fs := fs\<rparr>)"
  by (simp_all add: guest_ok_def)

lemma sbrk_ok: "guest_ok cf g \<Longrightarrow> guest_ok cf (fst (sbrk cf increment g))"
  by (auto simp: sbrk_def Let_def guest_ok_def)

lemma sys_read_ok: "guest_ok cf g \<Longrightarrow> guest_ok cf (fst (sys_read cf fd count g))"
  by (auto simp: sys_read_def fails_def guest_ok_same_fs intro: on_fs_ok GccFilesRun.read_ok split: prod.splits)

lemma sys_close_ok: "guest_ok cf g \<Longrightarrow> guest_ok cf (fst (sys_close fd g))"
proof -
  assume ok: "guest_ok cf g"
  have "(gu_streams g AND NOT m) AND NOT 7 = (gu_streams g AND NOT 7) AND NOT m" for m
    by (simp only: ac_simps)
  then have "guest_ok cf (g\<lparr>gu_streams := gu_streams g AND NOT m\<rparr>)" for m
    using ok by (simp add: guest_ok_def)
  then show ?thesis using ok by (auto simp: sys_close_def fails_def intro: on_fs_ok close_file_ok)
qed

lemma sys_fstat_ok: "guest_ok cf g \<Longrightarrow> guest_ok cf (fst (sys_fstat fd g))"
  by (auto simp: sys_fstat_def fails_def intro: on_fs_result fstat_ok split: prod.splits sum.splits)

lemma sys_stat_ok: "guest_ok cf g \<Longrightarrow> guest_ok cf (fst (sys_stat path g))"
  by (auto simp: sys_stat_def intro: on_fs_result stat_ok split: prod.splits sum.splits)

lemma sys_lseek_ok: "guest_ok cf g \<Longrightarrow> guest_ok cf (fst (sys_lseek fd offset origin g))"
  by (auto simp: sys_lseek_def fails_def intro: on_fs_ok seek_ok)

lemma sys_open_ok: "guest_ok cf g \<Longrightarrow> guest_ok cf (fst (sys_open hdr path flags g))"
  by (auto simp: sys_open_def fails_def Let_def intro: on_fs_ok open_ok)

lemma sys_unlink_ok: "guest_ok cf g \<Longrightarrow> guest_ok cf (fst (sys_unlink path g))"
  by (auto simp: sys_unlink_def intro: on_fs_ok unlink_file_ok)

lemma sys_access_ok: "guest_ok cf g \<Longrightarrow> guest_ok cf (fst (sys_access hdr path mode g))"
  by (auto simp: sys_access_def fails_def intro: on_fs_ok GccFilesRun.access_ok)

lemma opendir_ok: "guest_ok cf g \<Longrightarrow> guest_ok cf (fst (opendir path g))"
  by (auto simp: opendir_def intro: on_fs_result directory_open_ok split: prod.splits sum.splits)

lemma readdir_ok: "guest_ok cf g \<Longrightarrow> guest_ok cf (fst (readdir d g))"
  by (auto simp: readdir_def intro: on_fs_result directory_next_ok split: prod.splits sum.splits)

lemma sys_write_result:
  assumes "guest_ok cf g"
  shows "\<exists>g' r. sys_write cf fd bytes g = Some (g', r) \<and> guest_ok cf g'"
proof -
  have "captures_ok (gu_captures g)" using assms by (simp add: guest_ok_def)
  then obtain captures r where capture: "cs_gcc_capture_write fd bytes (gu_captures g) = Some (captures, r)" "captures_ok captures"
    using capture_write_total by blast
  have "guest_ok cf (fst (on_fs (cs_gcc_fs_write fd bytes) g))"
    using assms by (auto intro: on_fs_ok GccFilesRun.write_ok)
  moreover have "guest_ok cf (fst (device_write cf bytes g))"
    using assms by (auto simp: device_write_def guest_ok_same_fs split: prod.splits)
  moreover have "guest_ok cf (g\<lparr>gu_captures := captures\<rparr>)" using assms capture(2) by (rule guest_ok_same_fs)
  ultimately have "case sys_write cf fd bytes g of None \<Rightarrow> False | Some x \<Rightarrow> guest_ok cf (fst x)"
    using assms capture(1) by (simp add: sys_write_def fails_def)
  then show ?thesis by (auto split: option.splits)
qed

lemma guest_step_ok: "guest_step hdr cf g g' \<Longrightarrow> guest_ok cf g \<Longrightarrow> guest_ok cf g'"
proof (induction rule: guest_step.induct)
  case (call_write fd bytes g g' r)
  then show ?case using sys_write_result [of cf g fd bytes] by auto
next
  case (call_sysconf g name)
  then show ?case by (cases name) auto
next
  case (call_closedir g d)
  then show ?case by (auto simp: closedir_def guest_ok_def intro: directory_close_ok)
qed (auto simp: sys_kill_def fails_def gettimeofday_def Let_def guest_ok_same_fs
    intro: sbrk_ok sys_read_ok sys_close_ok sys_fstat_ok sys_stat_ok sys_lseek_ok sys_open_ok sys_unlink_ok
      sys_access_ok opendir_ok readdir_ok)

section \<open>Properties\<close>

text \<open>
  C13. After any sequence of system calls the file tables and the captured streams are consistent, the
  heap stays within its buffer and only the three standard streams are open as streams; and a
  write returns in every such state, for every descriptor and all bytes.
\<close>

theorem guest_reachable_ok:
  assumes "guest_reachable hdr cf g"
  shows "guest_ok cf g \<and> (\<exists>g' r. sys_write cf fd bytes g = Some (g', r))"
proof -
  have "guest_ok cf g"
    using assms
  proof induction
    case (start device)
    then show ?case
      by (simp add: guest_ok_def guest_start_def empty_fs_ok captures_start_ok)
  qed (auto intro: guest_step_ok)
  then show ?thesis using sys_write_result by blast
qed

text \<open>
  The heap pointer moves by the increment exactly when it stays inside the heap, in both
  directions and for the smallest increment, too; otherwise it stays and the error is \<open>ENOMEM\<close>.
\<close>

theorem sbrk_exact:
  assumes "gu_heap_used g \<le> cf_heap_bytes cf"
  shows "sbrk cf increment g =
    (let used = int (gu_heap_used g) + increment
     in if 0 \<le> used \<and> used \<le> int (cf_heap_bytes cf)
        then (g\<lparr>gu_heap_used := nat used\<rparr>, Inr (gu_heap_used g)) else (g, Inl ENOMEM))"
proof (cases "increment \<ge> 0")
  case True
  then have "nat increment > cf_heap_bytes cf - gu_heap_used g \<longleftrightarrow> int (gu_heap_used g) + increment > int (cf_heap_bytes cf)"
    using assms by linarith
  moreover have "gu_heap_used g + nat increment = nat (int (gu_heap_used g) + increment)" using True by simp
  ultimately show ?thesis using True by (simp add: sbrk_def Let_def)
next
  case False
  define decrease where "decrease = nat (- (increment + 1)) + 1"
  have d: "int decrease = - increment" using False by (simp add: decrease_def)
  then have "decrease > gu_heap_used g \<longleftrightarrow> int (gu_heap_used g) + increment < 0" by linarith
  moreover have "decrease \<le> gu_heap_used g \<Longrightarrow> gu_heap_used g - decrease = nat (int (gu_heap_used g) + increment)" using d by simp
  moreover have "int (gu_heap_used g) + increment \<le> int (cf_heap_bytes cf)" using assms False by simp
  ultimately show ?thesis using False by (auto simp: sbrk_def Let_def simp flip: decrease_def)
qed

definition silent :: "unit guest_config" where
  "silent = \<lparr>cf_heap_bytes = 100, cf_memory_bytes = 8192, cf_framed = True, cf_read = (\<lambda>s n. (0, [], s)),
     cf_write = (\<lambda>s bytes. (- 1, s))\<rparr>"

theorem guest_reachable_ok_witness:
  "guest_ok silent (fst (sbrk silent 60 (guest_start ())))"
  by (rule guest_reachable_ok [OF guest_reachable.step [OF guest_reachable.start call_sbrk], THEN conjunct1])

theorem sbrk_exact_witness:
  "snd (sbrk silent 60 ((guest_start ())\<lparr>gu_heap_used := 60\<rparr>)) = Inl ENOMEM"
  using sbrk_exact [of "(guest_start ())\<lparr>gu_heap_used := 60\<rparr>" silent 60]
  by (simp add: silent_def guest_start_def)

end
