(* ===== verification/GccMain.thy ===== *)
theory GccMain
  imports GccSystemOk LinkArchive
begin

text \<open>
  runtime/gcc/main.c: the program around the compiler. It reads one job, takes its own options from
  the front of the arguments, runs the compiler, lowers the assembly that the compiler wrote to a
  copy image when asked to, and sends the response. The compiler itself (\<open>__real_main\<close>), the flushing
  of its streams and \<open>fputs\<close> to the standard error are parameters; so is the target archive that the
  build may install. \<open>None\<close> stands for undefined behaviour of the linker or a loop without end.
\<close>

section \<open>Configuration and state\<close>

record 'd program =
  pg_fflush :: "'d guest \<Rightarrow> 'd guest"
  pg_fputs :: "string \<Rightarrow> 'd guest \<Rightarrow> 'd guest"
  pg_main :: "string list \<Rightarrow> 'd guest \<Rightarrow> u32 \<times> 'd guest"
  pg_copy_output :: bool
  pg_address_bits :: nat
  pg_program_bytes :: nat
  pg_capacities :: capacities
  pg_size_max :: nat
  pg_fresh :: "nat \<Rightarrow> mem"
  pg_archive :: "string option"

record options =
  op_output :: "string option"
  op_copy :: bool
  op_program :: bool
  op_entry :: string
  op_arguments :: "u32 list"
  op_memory :: u32
  op_objects :: "string list"
  op_library :: "string option"
  op_no_libgcc :: bool

definition default_options :: options where
  "default_options = \<lparr>op_output = None, op_copy = False, op_program = False, op_entry = ''main'', op_arguments = [],
     op_memory = 8192, op_objects = [], op_library = None, op_no_libgcc = False\<rparr>"

text \<open>The condition of the \<open>#error\<close> directive.\<close>

definition program_bytes_valid :: "nat \<Rightarrow> bool" where
  "program_bytes_valid n \<longleftrightarrow> 262144 \<le> n \<and> n \<le> 268435456 \<and> (of_nat n :: u32) AND (of_nat n - 1) = 0"

section \<open>Options\<close>

text \<open>\<open>strtoul\<close> with base 0 on a whole string that begins with neither white space nor a sign.\<close>

definition copy_number :: "string \<Rightarrow> u32 option" where
  "copy_number s =
     (if s = [] \<or> s ! 0 \<in> set [CHR ''-'', CHR ''+'', CHR '' '', CHR 0x09, CHR 0x0D, CHR 0x0A, CHR 0x0B, CHR 0x0C]
      then None
      else case strtoull0 s of (v, rest) \<Rightarrow> if rest \<noteq> [] \<or> v > 2 ^ 32 - 1 then None else Some (of_nat v))"

text \<open>The rest of a string behind a prefix.\<close>

definition after :: "string \<Rightarrow> string \<Rightarrow> string option" where
  "after prefix s = (if take (length prefix) s = prefix then Some (drop (length prefix) s) else None)"

text \<open>One option: \<open>None\<close> if the argument is none, \<open>Some None\<close> if it is rejected.\<close>

definition copy_option :: "nat \<Rightarrow> string \<Rightarrow> options \<Rightarrow> options option option" where
  "copy_option program_bytes arg op =
     (case after ''--space-entry='' arg of
        Some entry_name \<Rightarrow> Some (if entry_name = [] then None else Some (op\<lparr>op_entry := entry_name\<rparr>))
      | None \<Rightarrow> (case after ''--space-arg='' arg of
          Some number \<Rightarrow> Some (if length (op_arguments op) = 6 then None
            else map_option (\<lambda>v. op\<lparr>op_arguments := op_arguments op @ [v]\<rparr>) (copy_number number))
        | None \<Rightarrow> (case after ''--space-memory='' arg of
            Some number \<Rightarrow> Some (if \<not> op_program op then None
              else case copy_number number of
                  None \<Rightarrow> None
                | Some v \<Rightarrow> if v < 8192 \<or> unat v \<ge> program_bytes \<or> v AND (v - 1) \<noteq> 0 then None
                            else Some (op\<lparr>op_memory := v\<rparr>))
          | None \<Rightarrow> (case after ''--space-object='' arg of
              Some path \<Rightarrow> Some (if \<not> op_program op \<or> length (op_objects op) = 7 \<or> path = [] then None
                else Some (op\<lparr>op_objects := op_objects op @ [path]\<rparr>))
            | None \<Rightarrow> (case after ''--space-library='' arg of
                Some path \<Rightarrow> Some (if \<not> op_program op \<or> op_library op \<noteq> None \<or> path = [] then None
                  else Some (op\<lparr>op_library := Some path\<rparr>))
              | None \<Rightarrow>
                  if arg = ''--space-no-libgcc''
                  then Some (if \<not> op_program op \<or> op_no_libgcc op then None else Some (op\<lparr>op_no_libgcc := True\<rparr>))
                  else None)))))"

fun copy_options :: "nat \<Rightarrow> string list \<Rightarrow> options \<Rightarrow> (options \<times> string list) option" where
  "copy_options program_bytes [] op = Some (op, [])"
| "copy_options program_bytes (arg # args) op =
     (case copy_option program_bytes arg op of
        None \<Rightarrow> Some (op, arg # args)
      | Some None \<Rightarrow> None
      | Some (Some op) \<Rightarrow> copy_options program_bytes args op)"

text \<open>The output file of the copy modes, and whether a whole program is meant.\<close>

definition copy_mode :: "string \<Rightarrow> (bool \<times> string) option" where
  "copy_mode arg =
     (case after ''--space-program='' arg of
        Some path \<Rightarrow> Some (True, path)
      | None \<Rightarrow> map_option (Pair False) (after ''--space-copy='' arg))"

text \<open>
  The options and the arguments of the compiler, or the message (if any) with which the program
  ends with status 125.
\<close>

definition parse_arguments :: "'d program \<Rightarrow> string list \<Rightarrow> string option + options \<times> string list" where
  "parse_arguments pg argv =
     (let mode = (if pg_copy_output pg \<and> length argv > 1 then copy_mode (argv ! 1) else None)
      in case mode of
          Some (is_program, path) \<Rightarrow>
            if path = [] \<or> path = ''-'' then Inl None
            else (case copy_options (pg_program_bytes pg) (drop 2 argv)
                     (default_options\<lparr>op_output := Some path, op_copy := True, op_program := is_program\<rparr>) of
                None \<Rightarrow> Inl None
              | Some (op, args) \<Rightarrow> Inr (op, hd argv # args))
        | None \<Rightarrow>
            (case (if length argv > 1 then after ''--space-result='' (argv ! 1) else None) of
               None \<Rightarrow> Inr (default_options, argv)
             | Some path \<Rightarrow>
                 if path = [] then Inl (Some (''gcc: empty result path'' @ [CHR 0x0A]))
                 else Inr (default_options\<lparr>op_output := (if path = ''-'' then None else Some path)\<rparr>, hd argv # drop 2 argv)))"

section \<open>Lowering\<close>

text \<open>The text of a file, if it exists.\<close>

definition file_text :: "string \<Rightarrow> filesystem \<Rightarrow> string option" where
  "file_text path fs = (case snd (cs_gcc_fs_output path fs) of Inl e \<Rightarrow> None | Inr bytes \<Rightarrow> Some (text_of bytes))"

primrec file_texts :: "string list \<Rightarrow> filesystem \<Rightarrow> string list option" where
  "file_texts [] fs = Some []"
| "file_texts (path # paths) fs = do { t \<leftarrow> file_text path fs; ts \<leftarrow> file_texts paths fs; Some (t # ts) }"

definition linked :: "'d program \<Rightarrow> options \<Rightarrow> string \<Rightarrow> filesystem \<Rightarrow> mem outcome" where
  "linked pg op text fs =
     (let img = pg_fresh pg (if op_program op then pg_program_bytes pg else 65536);
          library = (case op_library op of None \<Rightarrow> Some [] | Some path \<Rightarrow> map_option (\<lambda>t. [t]) (file_text path fs));
          target = (case pg_archive pg of None \<Rightarrow> [] | Some a \<Rightarrow> if op_program op \<and> \<not> op_no_libgcc op then [a] else [])
      in case library of
          None \<Rightarrow> Error 0 ''missing copy library file''
        | Some library \<Rightarrow>
            let archives = library @ target; memory_bytes = unat (op_memory op); entry_name = op_entry op;
                arguments = op_arguments op; bits = pg_address_bits pg; caps = pg_capacities pg; size_max = pg_size_max pg
            in if op_objects op \<noteq> [] \<or> archives \<noteq> []
               then (case file_texts (op_objects op) fs of
                   None \<Rightarrow> Error 0 ''missing copy object file''
                 | Some objects \<Rightarrow>
                     if archives \<noteq> []
                     then cs_copy_link_archives_alloc caps size_max img bits memory_bytes (text # objects) archives entry_name arguments
                     else cs_copy_link_objects_alloc caps size_max img bits memory_bytes (text # objects) entry_name arguments)
               else if op_program op then cs_copy_link_program_memory caps img bits memory_bytes text entry_name arguments
               else cs_copy_link_leaf caps img bits text entry_name arguments)"

text \<open>The message of a failed lowering, cut to the buffer of 192 bytes with its terminator.\<close>

definition lowering_message :: "nat \<Rightarrow> string \<Rightarrow> string" where
  "lowering_message line message =
     take 191 (''gcc: copy lowering line '' @ dec_string line @ '': '' @ message @ [CHR 0x0A])"

text \<open>A message to the captured standard error; whether it fits does not matter.\<close>

definition capture_message :: "string \<Rightarrow> 'd guest \<Rightarrow> 'd guest option" where
  "capture_message message g =
     map_option (\<lambda>(captures, r). g\<lparr>gu_captures := captures\<rparr>) (cs_gcc_capture_write 2 (bytes_of message) (gu_captures g))"

definition lowering_failed :: "nat \<Rightarrow> string \<Rightarrow> 'd guest \<Rightarrow> ('d guest \<times> u32) option" where
  "lowering_failed line message g = map_option (\<lambda>g. (g, 126)) (capture_message (lowering_message line message) g)"

definition lower_copy :: "'d program \<Rightarrow> options \<Rightarrow> string \<Rightarrow> u8 list \<Rightarrow> 'd guest \<Rightarrow> ('d guest \<times> u32) option" where
  "lower_copy pg op path data g =
     (case linked pg op (text_of data) (gu_fs g) of
        Crash \<Rightarrow> None
      | Error line message \<Rightarrow> lowering_failed line message g
      | Value img \<Rightarrow> (case cs_gcc_fs_replace_owned path img (gu_fs g) of
          (fs, Inl e) \<Rightarrow> lowering_failed 0 ''output replacement failed'' (g\<lparr>gu_fs := fs\<rparr>)
        | (fs, Inr u) \<Rightarrow> Some (g\<lparr>gu_fs := fs\<rparr>, 0)))"

section \<open>The end of a run\<close>

text \<open>The output file and the status after the file was looked up and lowered.\<close>

definition finished_output :: "'d program \<Rightarrow> options \<Rightarrow> u32 \<Rightarrow> 'd guest \<Rightarrow> ('d guest \<times> u32 \<times> string option) option" where
  "finished_output pg op status g =
     (case op_output op of
        None \<Rightarrow> Some (g, status, None)
      | Some path \<Rightarrow>
          if status \<noteq> 0 then Some (g, status, Some path)
          else case snd (cs_gcc_fs_output path (gu_fs g)) of
              Inl e \<Rightarrow> map_option (\<lambda>g. (g, 126, None)) (capture_message (''gcc: missing output file'' @ [CHR 0x0A]) g)
            | Inr data \<Rightarrow> if op_copy op then map_option (\<lambda>(g, status). (g, status, Some path)) (lower_copy pg op path data g)
                          else Some (g, status, Some path))"

definition cs_gcc_finish :: "'d guest_config \<Rightarrow> 'd program \<Rightarrow> options \<Rightarrow> u32 \<Rightarrow> 'd guest \<Rightarrow> ('d guest \<times> u32) option" where
  "cs_gcc_finish cf pg op status g =
     map_option (\<lambda>(g, status, output_file).
       case cs_gcc_response status output_file (gu_captures g) (gu_fs g) (cf_write cf) (gu_device g) of
         (device, r) \<Rightarrow> (g\<lparr>gu_device := device\<rparr>, case r of Inl e \<Rightarrow> 126 | Inr u \<Rightarrow> status))
       (finished_output pg op status (pg_fflush pg g))"

section \<open>The whole run\<close>

text \<open>The status that \<open>main\<close> returns, with the options for the end of the run.\<close>

definition wrap_main :: "'d guest_config \<Rightarrow> 'd program \<Rightarrow> 'd guest \<Rightarrow> options \<times> u32 \<times> 'd guest" where
  "wrap_main cf pg g =
     (case cs_gcc_job_read (cf_read cf) (gu_device g) None (gu_fs g) of
        (device, fs, Inl e) \<Rightarrow>
          (default_options, 125, pg_fputs pg (''gcc: invalid input job'' @ [CHR 0x0A]) (g\<lparr>gu_device := device, gu_fs := fs\<rparr>))
      | (device, fs, Inr (packet, argv)) \<Rightarrow>
          let g = g\<lparr>gu_device := device, gu_fs := fs\<rparr>
          in if \<not> cf_framed cf then (case pg_main pg argv g of (status, g) \<Rightarrow> (default_options, status, g))
             else (case parse_arguments pg argv of
                 Inl None \<Rightarrow> (default_options, 125, g)
               | Inl (Some message) \<Rightarrow> (default_options, 125, pg_fputs pg message g)
               | Inr (op, args) \<Rightarrow> (case pg_main pg args g of (status, g) \<Rightarrow> (op, status, g))))"

text \<open>\<open>_exit\<close>: the code with which the guest leaves the machine.\<close>

definition sys_exit :: "'d guest_config \<Rightarrow> 'd program \<Rightarrow> options \<Rightarrow> u32 \<Rightarrow> 'd guest \<Rightarrow> ('d guest \<times> u32) option" where
  "sys_exit cf pg op code g = (if cf_framed cf then cs_gcc_finish cf pg op code g else Some (g, code))"

section \<open>The options are read back\<close>

text \<open>The arguments that select a set of options, and the sets that can be selected.\<close>

definition arg_option :: "u32 \<Rightarrow> string" where
  "arg_option v = ''--space-arg='' @ dec_string (unat v)"

definition object_option :: "string \<Rightarrow> string" where
  "object_option path = ''--space-object='' @ path"

definition mode_option :: "bool \<Rightarrow> string \<Rightarrow> string" where
  "mode_option is_program path = (if is_program then ''--space-program='' else ''--space-copy='') @ path"

definition entry_option :: "string \<Rightarrow> string" where
  "entry_option name = ''--space-entry='' @ name"

definition memory_option :: "u32 \<Rightarrow> string" where
  "memory_option v = ''--space-memory='' @ dec_string (unat v)"

definition library_option :: "string \<Rightarrow> string" where
  "library_option path = ''--space-library='' @ path"

definition no_libgcc_option :: string where
  "no_libgcc_option = ''--space-no-libgcc''"

definition program_strings :: "options \<Rightarrow> string list" where
  "program_strings op = memory_option (op_memory op) # map object_option (op_objects op) @
     map library_option (case op_library op of None \<Rightarrow> [] | Some path \<Rightarrow> [path]) @
     (if op_no_libgcc op then [no_libgcc_option] else [])"

definition option_strings :: "options \<Rightarrow> string list" where
  "option_strings op = entry_option (op_entry op) # map arg_option (op_arguments op) @
     (if op_program op then program_strings op else [])"

definition selectable :: "nat \<Rightarrow> options \<Rightarrow> bool" where
  "selectable program_bytes op \<longleftrightarrow> op_copy op \<and> (case op_output op of None \<Rightarrow> False | Some path \<Rightarrow> path \<noteq> [] \<and> path \<noteq> ''-'') \<and>
     op_entry op \<noteq> [] \<and> length (op_arguments op) \<le> 6 \<and>
     (if op_program op
      then 8192 \<le> op_memory op \<and> unat (op_memory op) < program_bytes \<and> op_memory op AND (op_memory op - 1) = 0 \<and>
        length (op_objects op) \<le> 7 \<and> [] \<notin> set (op_objects op) \<and> op_library op \<noteq> Some []
      else op_memory op = 8192 \<and> op_objects op = [] \<and> op_library op = None \<and> \<not> op_no_libgcc op)"

lemma after_prefix: "after p (p @ s) = Some s"
  by (simp add: after_def)

lemma copy_number_decimal: "copy_number (dec_string (unat v)) = Some v"
proof -
  have digit: "\<not> is_digit 10 c" if "c \<in> {CHR ''-'', CHR ''+'', CHR '' '', CHR 0x09, CHR 0x0D, CHR 0x0A, CHR 0x0B, CHR 0x0C}" for c
    using that by (auto simp: is_digit_def digit_value_def)
  have "strtoull0 (dec_string (unat v)) = (unat v, [])"
  proof (cases "unat v = 0")
    case True
    then show ?thesis by (simp add: dec_string.simps [of 0] digit_char_def is_digit_def digit_value_def)
  next
    case False
    then show ?thesis
      using strtoull0_decimal [of "dec_string (unat v)"] dec_string_hd [of "unat v"] take_digits_dec [of 0 "unat v" "[]"]
      by simp
  qed
  moreover have "dec_string (unat v) ! 0 = hd (dec_string (unat v))" by (simp add: hd_conv_nth)
  moreover have "unat v < 2 ^ LENGTH(32)" by (rule unsigned_less)
  ultimately show ?thesis
    using dec_string_hd [of "unat v"] digit by (auto simp: copy_number_def)
qed

text \<open>Each option adds to the options before it.\<close>

lemmas option_defs = entry_option_def arg_option_def memory_option_def object_option_def library_option_def no_libgcc_option_def

lemma copy_option_entry: "e \<noteq> [] \<Longrightarrow> copy_option n (entry_option e) op = Some (Some (op\<lparr>op_entry := e\<rparr>))"
  by (simp add: option_defs copy_option_def after_def)

lemma copy_option_arg:
  "length (op_arguments op) < 6 \<Longrightarrow>
    copy_option n (arg_option v) op = Some (Some (op\<lparr>op_arguments := op_arguments op @ [v]\<rparr>))"
  by (simp add: option_defs copy_option_def after_def copy_number_decimal)

lemma copy_option_memory:
  "op_program op \<Longrightarrow> 8192 \<le> v \<Longrightarrow> unat v < n \<Longrightarrow> v AND (v - 1) = 0 \<Longrightarrow>
    copy_option n (memory_option v) op = Some (Some (op\<lparr>op_memory := v\<rparr>))"
  by (simp add: option_defs copy_option_def after_def copy_number_decimal)

lemma copy_option_object:
  "op_program op \<Longrightarrow> length (op_objects op) < 7 \<Longrightarrow> path \<noteq> [] \<Longrightarrow>
    copy_option n (object_option path) op = Some (Some (op\<lparr>op_objects := op_objects op @ [path]\<rparr>))"
  by (simp add: option_defs copy_option_def after_def)

lemma copy_option_library:
  "op_program op \<Longrightarrow> op_library op = None \<Longrightarrow> path \<noteq> [] \<Longrightarrow>
    copy_option n (library_option path) op = Some (Some (op\<lparr>op_library := Some path\<rparr>))"
  by (simp add: option_defs copy_option_def after_def)

lemma copy_option_no_libgcc:
  "op_program op \<Longrightarrow> \<not> op_no_libgcc op \<Longrightarrow> copy_option n no_libgcc_option op = Some (Some (op\<lparr>op_no_libgcc := True\<rparr>))"
  by (simp add: option_defs copy_option_def after_def)

lemma copy_options_arguments:
  "length (op_arguments op) + length vs \<le> 6 \<Longrightarrow>
    copy_options n (map arg_option vs @ rest) op =
      copy_options n rest (op\<lparr>op_arguments := op_arguments op @ vs\<rparr>)"
  by (induction vs arbitrary: op) (simp_all add: copy_option_arg)

lemma copy_options_objects:
  "op_program op \<Longrightarrow> length (op_objects op) + length paths \<le> 7 \<Longrightarrow> [] \<notin> set paths \<Longrightarrow>
    copy_options n (map object_option paths @ rest) op =
      copy_options n rest (op\<lparr>op_objects := op_objects op @ paths\<rparr>)"
  by (induction paths arbitrary: op) (auto simp: copy_option_object)

lemma copy_options_rest: "rest = [] \<or> copy_option n (hd rest) op = None \<Longrightarrow> copy_options n rest op = Some (op, rest)"
  by (cases rest) auto

lemma copy_options_tail:
  assumes "op_program op" and "op_library op = None" and "\<not> op_no_libgcc op" and "library \<noteq> Some []"
    and "rest = [] \<or> copy_option n (hd rest) (op\<lparr>op_library := library, op_no_libgcc := b\<rparr>) = None"
  shows "copy_options n (map library_option (case library of None \<Rightarrow> [] | Some path \<Rightarrow> [path]) @
      (if b then [no_libgcc_option] else []) @ rest) op =
    Some (op\<lparr>op_library := library, op_no_libgcc := b\<rparr>, rest)"
proof (cases library)
  case None
  then show ?thesis
    using assms copy_options_rest [OF assms(5)] copy_option_no_libgcc [OF assms(1,3), of n]
    by (cases b; cases op) simp_all
next
  case (Some path)
  then have "copy_option n (library_option path) op = Some (Some (op\<lparr>op_library := Some path\<rparr>))"
    using assms(1,2,4) by (intro copy_option_library) auto
  then show ?thesis
    using assms Some copy_options_rest [OF assms(5)] copy_option_no_libgcc [of "op\<lparr>op_library := Some path\<rparr>" n]
    by (cases b; cases op) simp_all
qed

lemma copy_options_strings:
  assumes "selectable n op" and "rest = [] \<or> copy_option n (hd rest) op = None"
    and "start = default_options\<lparr>op_output := op_output op, op_copy := True, op_program := op_program op\<rparr>"
  shows "copy_options n (option_strings op @ rest) start = Some (op, rest)"
proof -
  have sel: "op_copy op" "op_entry op \<noteq> []" "length (op_arguments op) \<le> 6" using assms(1) by (auto simp: selectable_def)
  define op1 where "op1 = start\<lparr>op_entry := op_entry op, op_arguments := op_arguments op\<rparr>"
  have "copy_options n (option_strings op @ rest) start =
      copy_options n ((if op_program op then program_strings op else []) @ rest) op1"
    using sel by (simp add: option_strings_def copy_option_entry copy_options_arguments op1_def assms(3) default_options_def)
  also have "\<dots> = Some (op, rest)"
  proof (cases "op_program op")
    case False
    then have "op1 = op" using assms(1) sel by (simp add: op1_def assms(3) default_options_def selectable_def)
    then show ?thesis using False copy_options_rest [OF assms(2)] by simp
  next
    case True
    then have p: "8192 \<le> op_memory op" "unat (op_memory op) < n" "op_memory op AND (op_memory op - 1) = 0"
        "length (op_objects op) \<le> 7" "[] \<notin> set (op_objects op)" "op_library op \<noteq> Some []"
      using assms(1) by (auto simp: selectable_def)
    define op2 where "op2 = op1\<lparr>op_memory := op_memory op, op_objects := op_objects op\<rparr>"
    have op: "op2\<lparr>op_library := op_library op, op_no_libgcc := op_no_libgcc op\<rparr> = op"
      using True sel by (simp add: op2_def op1_def assms(3) default_options_def)
    have op1: "op_program op1" "op_objects op1 = []" "op_library op1 = None" "\<not> op_no_libgcc op1"
      using True by (simp_all add: op1_def assms(3) default_options_def)
    have "copy_options n (program_strings op @ rest) op1 =
        copy_options n (map library_option (case op_library op of None \<Rightarrow> [] | Some path \<Rightarrow> [path]) @
          (if op_no_libgcc op then [no_libgcc_option] else []) @ rest) op2"
      using op1 p by (simp add: program_strings_def copy_option_memory copy_options_objects op2_def)
    also have "\<dots> = Some (op, rest)"
      using copy_options_tail [of op2 "op_library op" rest n "op_no_libgcc op"] op op1 p assms(2) by (simp add: op2_def)
    finally show ?thesis using True by simp
  qed
  finally show ?thesis .
qed

text \<open>
  The options that select an output mode, an entry, its arguments, the memory size, further
  objects and a library are read back exactly, and the arguments of the compiler are what follows
  the last of them, behind the name of the program.
\<close>

theorem options_roundtrip:
  assumes "pg_copy_output pg" and "selectable (pg_program_bytes pg) op" and "op_output op = Some path"
    and "rest = [] \<or> copy_option (pg_program_bytes pg) (hd rest) op = None"
  shows "parse_arguments pg (cmd # mode_option (op_program op) path # option_strings op @ rest) = Inr (op, cmd # rest)"
proof -
  have "path \<noteq> []" "path \<noteq> ''-''" using assms(2,3) by (auto simp: selectable_def)
  moreover have "copy_mode (mode_option (op_program op) path) = Some (op_program op, path)"
    by (simp add: copy_mode_def mode_option_def after_def)
  moreover have "copy_options (pg_program_bytes pg) (option_strings op @ rest)
      (default_options\<lparr>op_output := Some path, op_copy := True, op_program := op_program op\<rparr>) = Some (op, rest)"
    using copy_options_strings [OF assms(2,4)] assms(3) by simp
  ultimately show ?thesis using assms(1) by (simp add: parse_arguments_def)
qed

section \<open>The output file is replaced\<close>

lemma output_lookup:
  "snd (cs_gcc_fs_output path fs) = (case normalize path of Inl e \<Rightarrow> Inl e
     | Inr name \<Rightarrow> (case file_lookup name fs of None \<Rightarrow> Inl ENOENT | Some i \<Rightarrow> Inr (content (fs_objects fs ! i))))"
  by (simp add: cs_gcc_fs_output_def with_file_def with_path_def split: sum.splits option.splits)

lemma replaced_output:
  assumes "fs_ok fs" and "cs_gcc_fs_replace_owned path img fs = (fs', Inr u)"
  shows "snd (cs_gcc_fs_output path fs') = Inr img \<and>
    (\<forall>other. normalize other \<noteq> normalize path \<longrightarrow> snd (cs_gcc_fs_output other fs') = snd (cs_gcc_fs_output other fs))"
proof -
  obtain name i where name: "normalize path = Inr name" and i: "file_lookup name fs = Some i"
      and fs': "fs' = fs\<lparr>fs_objects := modify i (\<lambda>f. f\<lparr>fi_data := img, fi_size := length img\<rparr>) (fs_objects fs)\<rparr>"
    using assms(2) by (auto simp: cs_gcc_fs_replace_owned_def with_file_def with_path_def Let_def
        split: if_splits sum.splits option.splits)
  have same: "file_lookup n fs' = file_lookup n fs" for n
    by (simp add: file_lookup_def fs' index_of_modify)
  have entry: "content (fs_objects fs' ! j) = (if j = i then img else content (fs_objects fs ! j))" if "j < CC_FILES_MAX" for j
    using that fs_okD(1) [OF assms(1)] by (simp add: fs' nth_modify content_def)
  have "snd (cs_gcc_fs_output path fs') = Inr img"
    using i entry file_lookup_Some(1) [OF assms(1) i] by (simp add: output_lookup name same)
  moreover have "snd (cs_gcc_fs_output other fs') = snd (cs_gcc_fs_output other fs)" if "normalize other \<noteq> normalize path" for other
    using that entry file_lookup_Some [OF assms(1)] file_lookup_Some(3) [OF assms(1) i]
    by (fastforce simp: output_lookup name same split: sum.splits option.splits)
  ultimately show ?thesis by blast
qed

lemma replace_failed: "cs_gcc_fs_replace_owned path img fs = (fs', Inl e) \<Longrightarrow> fs' = fs"
  by (auto simp: cs_gcc_fs_replace_owned_def with_file_def with_path_def Let_def split: if_splits sum.splits option.splits)

lemma lower_copy_result:
  assumes "fs_ok (gu_fs g)" and "lower_copy pg op path data g = Some (g', status)"
  shows "gu_device g' = gu_device g \<and>
    (if status = 0
     then gu_captures g' = gu_captures g \<and> (\<exists>img. linked pg op (text_of data) (gu_fs g) = Value img \<and>
       snd (cs_gcc_fs_output path (gu_fs g')) = Inr img \<and>
       (\<forall>other. normalize other \<noteq> normalize path \<longrightarrow>
          snd (cs_gcc_fs_output other (gu_fs g')) = snd (cs_gcc_fs_output other (gu_fs g))))
     else status = 126 \<and> gu_fs g' = gu_fs g)"
proof (cases "linked pg op (text_of data) (gu_fs g)")
  case (Value img)
  obtain fs r where call: "cs_gcc_fs_replace_owned path img (gu_fs g) = (fs, r)" by fastforce
  show ?thesis
  proof (cases r)
    case (Inr u)
    then show ?thesis using assms(2) Value call replaced_output [OF assms(1)] by (auto simp: lower_copy_def)
  qed (use assms(2) Value call replace_failed in \<open>auto simp: lower_copy_def lowering_failed_def capture_message_def\<close>)
qed (use assms(2) in \<open>auto simp: lower_copy_def lowering_failed_def capture_message_def\<close>)


section \<open>The response of a run\<close>

lemma finished_output_result:
  assumes "guest_ok cf g" and "op_output op = Some path" and "finished_output pg op status g = Some (g', 0, output_file)"
  shows "status = 0 \<and> output_file = Some path \<and> gu_device g' = gu_device g \<and> gu_captures g' = gu_captures g \<and>
    (\<exists>data delivered. snd (cs_gcc_fs_output path (gu_fs g)) = Inr data \<and>
      (if op_copy op then linked pg op (text_of data) (gu_fs g) = Value delivered else delivered = data) \<and>
      snd (cs_gcc_fs_output path (gu_fs g')) = Inr delivered)"
proof -
  have fs: "fs_ok (gu_fs g)" using assms(1) by (simp add: guest_ok_def)
  have status: "status = 0" using assms(2,3) by (auto simp: finished_output_def split: if_splits)
  then obtain data where data: "snd (cs_gcc_fs_output path (gu_fs g)) = Inr data"
    using assms(2,3) by (auto simp: finished_output_def split: sum.splits)
  show ?thesis
  proof (cases "op_copy op")
    case True
    then have "lower_copy pg op path data g = Some (g', 0)" "output_file = Some path"
      using assms(2,3) status data by (auto simp: finished_output_def)
    then show ?thesis using lower_copy_result [OF fs, of pg op path data g' 0] True status data by auto
  qed (use assms(2,3) status data in \<open>auto simp: finished_output_def\<close>)
qed

lemma finished_output_fs_ok:
  assumes "guest_ok cf g" and "finished_output pg op status g = Some (g', status', output_file)"
  shows "fs_ok (gu_fs g')"
proof -
  have fs: "fs_ok (gu_fs g)" using assms(1) by (simp add: guest_ok_def)
  have message: "fs_ok (gu_fs g1)" if "capture_message m g = Some g1" for m g1
    using that fs by (auto simp: capture_message_def)
  have "fs_ok (gu_fs g1)" if lower: "lower_copy pg op path data g = Some (g1, s)" for path data g1 s
  proof (cases "linked pg op (text_of data) (gu_fs g)")
    case (Value img)
    obtain fs r where call: "cs_gcc_fs_replace_owned path img (gu_fs g) = (fs, r)" by fastforce
    then have "fs_ok fs" using replace_ok [OF fs, of path img] by simp
    then show ?thesis using lower Value call
      by (cases r) (auto simp: lower_copy_def lowering_failed_def capture_message_def)
  qed (use lower fs in \<open>auto simp: lower_copy_def lowering_failed_def capture_message_def\<close>)
  then show ?thesis using assms(2) fs message
    by (auto simp: finished_output_def split: option.splits if_splits sum.splits)
qed

text \<open>
  C10. When a run ends with status 0 and an output file was asked for, the compiler had ended with
  status 0 and written the file; what the writer has received is one more packet, and that packet
  decodes to status 0, what the compiler wrote to its two streams, and the file, which in the
  copy modes is the image that the linker made from it.
\<close>

theorem finish_delivers:
  assumes "byte_writer (cf_write cf) sent ready" and "ready (gu_device (pg_fflush pg g))" and "guest_ok cf (pg_fflush pg g)"
    and "op_output op = Some path" and "cs_gcc_finish cf pg op status g = Some (g', 0)"
  shows "status = 0 \<and> (\<exists>data delivered packet.
    snd (cs_gcc_fs_output path (gu_fs (pg_fflush pg g))) = Inr data \<and>
    (if op_copy op then linked pg op (text_of data) (gu_fs (pg_fflush pg g)) = Value delivered else delivered = data) \<and>
    sent (gu_device g') = sent (gu_device (pg_fflush pg g)) @ packet \<and>
    cs_gcc_response_decode packet = Inr \<lparr>gr_status = 0, gr_out = ca_data (gu_captures (pg_fflush pg g) ! 0),
      gr_err = ca_data (gu_captures (pg_fflush pg g) ! 1), gr_file = delivered\<rparr>)"
proof -
  define g1 where "g1 = pg_fflush pg g"
  obtain g2 st output_file where fin: "finished_output pg op status g1 = Some (g2, st, output_file)"
    using assms(5) by (auto simp: cs_gcc_finish_def g1_def)
  obtain device r where resp: "cs_gcc_response st output_file (gu_captures g2) (gu_fs g2) (cf_write cf) (gu_device g2) = (device, r)"
    by fastforce
  have g': "g' = g2\<lparr>gu_device := device\<rparr>" and "(case r of Inl e \<Rightarrow> 126 | Inr u \<Rightarrow> st) = 0"
    using assms(5) fin resp by (auto simp: cs_gcc_finish_def simp flip: g1_def)
  then obtain u where u: "r = Inr u" and st: "st = 0" by (cases r) auto
  note F = finished_output_result [OF assms(3,4), folded g1_def, OF fin [unfolded st]]
  then obtain data delivered where D: "snd (cs_gcc_fs_output path (gu_fs g1)) = Inr data"
      "if op_copy op then linked pg op (text_of data) (gu_fs g1) = Value delivered else delivered = data"
      "snd (cs_gcc_fs_output path (gu_fs g2)) = Inr delivered" by blast
  have "captures_ok (gu_captures g2)" using F assms(3) by (simp add: guest_ok_def g1_def)
  moreover have "fs_ok (gu_fs g2)" using finished_output_fs_ok [OF assms(3)] fin by (simp add: g1_def)
  moreover have "ready (gu_device g2)" using F assms(2) by (simp add: g1_def)
  ultimately obtain packet bytes where "sent device = sent (gu_device g2) @ packet" "response_file st output_file (gu_fs g2) = Inr bytes"
      "cs_gcc_response_decode packet = Inr \<lparr>gr_status = st, gr_out = ca_data (gu_captures g2 ! 0),
        gr_err = ca_data (gu_captures g2 ! 1), gr_file = bytes\<rparr>"
    using response_sent [OF assms(1)] resp u by blast
  moreover have "bytes = delivered" using calculation(2) D(3) F st by (simp add: response_file_def)
  ultimately show ?thesis
    using D F st unfolding g' g1_def [symmetric] by (intro conjI exI [of _ data] exI [of _ delivered] exI [of _ packet]) simp_all
qed


definition plain_program :: "u8 list program" where
  "plain_program = \<lparr>pg_fflush = (\<lambda>g. g), pg_fputs = (\<lambda>s g. g), pg_main = (\<lambda>argv g. (0, g)), pg_copy_output = False,
     pg_address_bits = 24, pg_program_bytes = 262144, pg_capacities = default_capacities, pg_size_max = 2 ^ 32 - 1,
     pg_fresh = (\<lambda>n. replicate n 0), pg_archive = None\<rparr>"

definition list_device :: "u8 list guest_config" where
  "list_device = \<lparr>cf_heap_bytes = 262144, cf_memory_bytes = 8192, cf_framed = True, cf_read = one_byte, cf_write = append_all\<rparr>"

theorem options_roundtrip_witness:
  "parse_arguments (plain_program\<lparr>pg_copy_output := True\<rparr>)
     [''gcc'', ''--space-copy=a'', ''--space-entry=f'', ''--space-arg=7'', ''-S''] =
   Inr (default_options\<lparr>op_output := Some ''a'', op_copy := True, op_entry := ''f'', op_arguments := [7]\<rparr>, [''gcc'', ''-S''])"
proof -
  define op where "op = default_options\<lparr>op_output := Some ''a'', op_copy := True, op_entry := ''f'', op_arguments := [7]\<rparr>"
  have "selectable 262144 op" by (simp add: selectable_def op_def default_options_def)
  moreover have "copy_option 262144 ''-S'' op = None" by (simp add: copy_option_def after_def)
  moreover have "dec_string 7 = ''7''" by code_simp
  ultimately show ?thesis
    using options_roundtrip [of "plain_program\<lparr>pg_copy_output := True\<rparr>" op "''a''" "[''-S'']" "''gcc''"]
    by (simp add: plain_program_def op_def default_options_def mode_option_def option_strings_def entry_option_def
        arg_option_def)
qed

theorem finish_delivers_witness:
  "\<exists>packet. cs_gcc_response_decode packet = Inr \<lparr>gr_status = 0, gr_out = [], gr_err = [], gr_file = []\<rparr> \<and>
     gu_device (fst (the (cs_gcc_finish list_device plain_program (default_options\<lparr>op_output := Some ''a''\<rparr>) 0
       ((guest_start [])\<lparr>gu_fs := demo_fs\<rparr>)))) = packet"
proof -
  define g :: "u8 list guest" where "g = (guest_start [])\<lparr>gu_fs := demo_fs\<rparr>"
  define op where "op = default_options\<lparr>op_output := Some ''a''\<rparr>"
  have ok: "guest_ok list_device (pg_fflush plain_program g)"
    by (simp add: guest_ok_def g_def plain_program_def guest_start_def demo_fs_ok captures_start_ok)
  have writer: "byte_writer (cf_write list_device) (\<lambda>s. s) (\<lambda>s. True)"
    by unfold_locales (auto simp: append_all_def list_device_def)
  have "normalize ''a'' = Inr ''a''" by (simp add: normalize_eq)
  moreover have "file_lookup ''a'' demo_fs = Some 0" by (simp add: file_lookup_def index_of_def demo_objects)
  ultimately have out: "snd (cs_gcc_fs_output ''a'' demo_fs) = Inr []"
    by (simp add: output_lookup demo_objects content_def no_file_def)
  obtain s' where "send_all append_all (response_ranges 0 [no_capture, no_capture] []) [] = (s', Inr ())"
    using byte_writer.send_all_completes [OF writer, where s = "[]" and ranges = "response_ranges 0 [no_capture, no_capture] []"]
    by (auto simp: append_all_def list_device_def)
  then have "\<exists>g'. cs_gcc_finish list_device plain_program op 0 g = Some (g', 0)"
    by (simp add: cs_gcc_finish_def finished_output_def op_def default_options_def plain_program_def g_def guest_start_def
        out cs_gcc_response_def response_file_def list_device_def)
  then obtain g' where call: "cs_gcc_finish list_device plain_program op 0 g = Some (g', 0)" by blast
  have "op_output op = Some ''a''" by (simp add: op_def)
  from finish_delivers [OF writer _ ok this call] show ?thesis
    using call out by (auto simp: g_def op_def plain_program_def guest_start_def default_options_def no_capture_def)
qed


end
