(* ===== verification/GccTarget.thy ===== *)
theory GccTarget
  imports Prelude
begin

text \<open>
  The support library of compiled programs: the memory functions of runtime/rv32i/runtime.c, the
  64-bit product of runtime/gcc/target/muldi3.c and the atomic updates of target/sync_up.c.
  An address is an index into the memory of the program; an access outside it is \<open>None\<close>.
\<close>

section \<open>Memory functions\<close>

text \<open>\<open>out[i] = in[i]\<close>\<close>

definition copy_byte :: "nat \<Rightarrow> nat \<Rightarrow> nat \<Rightarrow> mem \<Rightarrow> mem option" where
  "copy_byte dst src i m = do { b \<leftarrow> mem_get m (src + i); mem_set m (dst + i) b }"

definition memcpy :: "nat \<Rightarrow> nat \<Rightarrow> nat \<Rightarrow> mem \<Rightarrow> mem option" where
  "memcpy dst src bytes m = for_up (copy_byte dst src) 0 bytes m"

definition memmove :: "nat \<Rightarrow> nat \<Rightarrow> nat \<Rightarrow> mem \<Rightarrow> mem option" where
  "memmove dst src bytes m =
     (if dst \<le> src then for_up (copy_byte dst src) 0 bytes m else for_down (copy_byte dst src) bytes m)"

definition memset :: "nat \<Rightarrow> u32 \<Rightarrow> nat \<Rightarrow> mem \<Rightarrow> mem option" where
  "memset dst v bytes m = for_up (\<lambda>i m. mem_set m (dst + i) (ucast v)) 0 bytes m"

text \<open>The remaining \<open>k\<close> bytes from offset \<open>i\<close> on.\<close>

fun memcmp_from :: "nat \<Rightarrow> nat \<Rightarrow> nat \<Rightarrow> nat \<Rightarrow> mem \<Rightarrow> int option" where
  "memcmp_from a b i 0 m = Some 0"
| "memcmp_from a b i (Suc k) m = do {
     left \<leftarrow> mem_get m (a + i);
     right \<leftarrow> mem_get m (b + i);
     if left \<noteq> right then Some (uint left - uint right) else memcmp_from a b (Suc i) k m
   }"

definition memcmp :: "nat \<Rightarrow> nat \<Rightarrow> nat \<Rightarrow> mem \<Rightarrow> int option" where
  "memcmp a b bytes m = memcmp_from a b 0 bytes m"

section \<open>System calls of the machine\<close>

text \<open>
  The environment answers an \<open>ecall\<close> with operation \<open>a7\<close>, argument \<open>a0\<close>, buffer \<open>a1\<close> and size \<open>a2\<close>;
  it may change the memory, and the result is the new \<open>a0\<close>, read as a signed number.
\<close>

type_synonym 's environment = "u32 \<Rightarrow> u32 \<Rightarrow> nat \<Rightarrow> u32 \<Rightarrow> 's \<Rightarrow> u32 \<times> 's"

definition ecall :: "'s environment \<Rightarrow> u32 \<Rightarrow> u32 \<Rightarrow> nat \<Rightarrow> u32 \<Rightarrow> 's \<Rightarrow> int \<times> 's" where
  "ecall env operation argument buffer bytes s =
     (case env operation argument buffer bytes s of (a0, s) \<Rightarrow> (sint a0, s))"

definition cs_read :: "'s environment \<Rightarrow> nat \<Rightarrow> u32 \<Rightarrow> 's \<Rightarrow> int \<times> 's" where
  "cs_read env buffer bytes = ecall env 63 0 buffer bytes"

definition cs_write :: "'s environment \<Rightarrow> nat \<Rightarrow> u32 \<Rightarrow> 's \<Rightarrow> int \<times> 's" where
  "cs_write env buffer bytes = ecall env 64 1 buffer bytes"

text \<open>After the call that ends the program the code loops without effect: the state is final.\<close>

definition cs_exit :: "'s environment \<Rightarrow> u32 \<Rightarrow> 's \<Rightarrow> 's" where
  "cs_exit env code s = snd (ecall env 93 code 0 0 s)"

section \<open>The 64-bit product\<close>

text \<open>The low and the high word of the union, on a little-endian machine.\<close>

definition low_word :: "u64 \<Rightarrow> u32" where
  "low_word v = ucast v"

definition high_word :: "u64 \<Rightarrow> u32" where
  "high_word v = ucast (drop_bit 32 v)"

definition double_word :: "u32 \<Rightarrow> u32 \<Rightarrow> u64" where
  "double_word low high = ucast low OR push_bit 32 (ucast high)"

definition muldi3 :: "u64 \<Rightarrow> u64 \<Rightarrow> u64" where
  "muldi3 left right =
     (let a0 = low_word left AND 65535; a1 = drop_bit 16 (low_word left);
          b0 = low_word right AND 65535; b1 = drop_bit 16 (low_word right);
          low = a0 * b0;
          middle = a1 * b0 + drop_bit 16 low;
          high = drop_bit 16 middle;
          middle = (middle AND 65535) + a0 * b1
      in double_word (push_bit 16 middle OR (low AND 65535))
           (a1 * b1 + high + drop_bit 16 middle + low_word left * high_word right + high_word left * low_word right))"

section \<open>Atomic updates\<close>

text \<open>
  The macros of sync_up.c at the width of the word; \<open>m\<close> is the memory of words of that width. Each
  function returns its result and the memory.
\<close>

type_synonym 'w cells = "nat \<Rightarrow> 'w"

definition fetch_and_update :: "('w \<Rightarrow> 'w \<Rightarrow> 'w) \<Rightarrow> nat \<Rightarrow> 'w \<Rightarrow> 'w cells \<Rightarrow> 'w \<times> 'w cells" where
  "fetch_and_update f p v m = (let old = m p in (old, m(p := f old v)))"

definition update_and_fetch :: "('w \<Rightarrow> 'w \<Rightarrow> 'w) \<Rightarrow> nat \<Rightarrow> 'w \<Rightarrow> 'w cells \<Rightarrow> 'w \<times> 'w cells" where
  "update_and_fetch f p v m = (let old = m p; new_value = f old v in (new_value, m(p := new_value)))"

definition bool_compare_and_swap :: "nat \<Rightarrow> 'w \<Rightarrow> 'w \<Rightarrow> 'w cells \<Rightarrow> bool \<times> 'w cells" where
  "bool_compare_and_swap p old new_value m =
     (let cur = m p in (cur = old, if cur = old then m(p := new_value) else m))"

definition val_compare_and_swap :: "nat \<Rightarrow> 'w \<Rightarrow> 'w \<Rightarrow> 'w cells \<Rightarrow> 'w \<times> 'w cells" where
  "val_compare_and_swap p old new_value m =
     (let cur = m p in (cur, if cur = old then m(p := new_value) else m))"

definition lock_test_and_set :: "nat \<Rightarrow> 'w \<Rightarrow> 'w cells \<Rightarrow> 'w \<times> 'w cells" where
  "lock_test_and_set p new_value m = (let cur = m p in (cur, m(p := new_value)))"

text \<open>The operations that the macros are instantiated with, at 4 and at 8 bytes.\<close>

datatype sync_operation = Sync_add | Sync_sub | Sync_or | Sync_and | Sync_xor | Sync_nand

fun sync_expression :: "sync_operation \<Rightarrow> 'n::len word \<Rightarrow> 'n word \<Rightarrow> 'n word" where
  "sync_expression Sync_add old v = old + v"
| "sync_expression Sync_sub old v = old - v"
| "sync_expression Sync_or old v = old OR v"
| "sync_expression Sync_and old v = old AND v"
| "sync_expression Sync_xor old v = old XOR v"
| "sync_expression Sync_nand old v = NOT (old AND v)"

section \<open>Overlapping copies\<close>

lemma for_down_Some:
  "\<lbrakk>\<And>i. i < n \<Longrightarrow> body i (g (Suc i)) = Some (g i); s = g n\<rbrakk> \<Longrightarrow> for_down body n s = Some (g 0)"
  by (induction n arbitrary: s) auto

lemma copy_byte_Some:
  "src + i < length m \<Longrightarrow> dst + i < length m \<Longrightarrow> copy_byte dst src i m = Some (m[dst + i := m ! (src + i)])"
  by (simp add: copy_byte_def mem_set_def)

text \<open>The memory after the first \<open>i\<close> bytes, and after the bytes from \<open>i\<close> on.\<close>

definition moved :: "nat \<Rightarrow> nat \<Rightarrow> nat \<Rightarrow> nat \<Rightarrow> mem \<Rightarrow> mem" where
  "moved dst src i j m = map (\<lambda>p. if dst + i \<le> p \<and> p < dst + j then m ! (src + (p - dst)) else m ! p) [0..<length m]"

lemma length_moved [simp]: "length (moved dst src i j m) = length m"
  by (simp add: moved_def)

lemma nth_moved: "p < length m \<Longrightarrow>
    moved dst src i j m ! p = (if dst + i \<le> p \<and> p < dst + j then m ! (src + (p - dst)) else m ! p)"
  by (simp add: moved_def)

lemma moved_nothing: "moved dst src i i m = m"
  by (rule nth_equalityI) (auto simp: nth_moved)

lemma moved_all:
  assumes "src + n \<le> length m" and "dst + n \<le> length m"
  shows "mem_move n m src m dst = Some (moved dst src 0 n m)"
proof -
  have "take dst m @ take n (drop src m) @ drop (dst + n) m = moved dst src 0 n m"
  proof (rule nth_equalityI)
    fix p assume "p < length (take dst m @ take n (drop src m) @ drop (dst + n) m)"
    then have "p < length m" using assms by simp
    then show "(take dst m @ take n (drop src m) @ drop (dst + n) m) ! p = moved dst src 0 n m ! p"
      using nth_splice [of dst n m "take n (drop src m)" p] assms
      by (cases "dst \<le> p \<and> p < dst + n") (auto simp: nth_moved)
  qed (use assms in simp)
  then show ?thesis using assms by (simp add: mem_move_def)
qed

lemma forward_copy:
  assumes "src + n \<le> length m" and "dst + n \<le> length m" and "dst \<le> src \<or> src + n \<le> dst"
  shows "for_up (copy_byte dst src) 0 n m = Some (moved dst src 0 n m)"
proof -
  have "for_up (copy_byte dst src) 0 n m = Some (moved dst src 0 (0 + n) m)"
  proof (rule for_up_Some [where g = "\<lambda>i. moved dst src 0 i m"])
    fix i assume i: "0 \<le> i" "i < 0 + n"
    have "(moved dst src 0 i m)[dst + i := moved dst src 0 i m ! (src + i)] = moved dst src 0 (Suc i) m"
      by (rule nth_equalityI) (use assms i in \<open>auto simp: nth_moved nth_list_update\<close>)
    then show "copy_byte dst src i (moved dst src 0 i m) = Some (moved dst src 0 (Suc i) m)"
      using assms i by (simp add: copy_byte_Some)
  qed (simp add: moved_nothing)
  then show ?thesis by simp
qed

lemma backward_copy:
  assumes "src + n \<le> length m" and "dst + n \<le> length m" and "src \<le> dst"
  shows "for_down (copy_byte dst src) n m = Some (moved dst src 0 n m)"
proof (rule for_down_Some [where g = "\<lambda>i. moved dst src i n m"])
  fix i assume i: "i < n"
  have "(moved dst src (Suc i) n m)[dst + i := moved dst src (Suc i) n m ! (src + i)] = moved dst src i n m"
    by (rule nth_equalityI) (use assms i in \<open>auto simp: nth_moved nth_list_update\<close>)
  then show "copy_byte dst src i (moved dst src (Suc i) n m) = Some (moved dst src i n m)"
    using assms i by (simp add: copy_byte_Some)
qed (simp add: moved_nothing)

section \<open>Products in halves\<close>

lemma low_word_value: "unat (low_word v) = unat v mod 2 ^ 32"
  by (simp add: low_word_def unsigned_ucast_eq take_bit_eq_mod)

lemma high_word_value: "unat (high_word v) = unat v div 2 ^ 32"
proof -
  have "unat v < 2 ^ LENGTH(64)" by (rule unsigned_less)
  then have "unat v div 2 ^ 32 < 2 ^ 32" by (simp add: less_mult_imp_div_less)
  then show ?thesis by (simp add: high_word_def unsigned_ucast_eq take_bit_eq_mod drop_bit_eq_div unat_div_distrib)
qed

lemma double_word_value: "unat (double_word low high) = unat low + 2 ^ 32 * unat high"
proof -
  have "double_word low high = ucast low + push_bit 32 (ucast high)"
    unfolding double_word_def by (rule disjunctive_add [symmetric]) (auto simp: bit_simps dest: bit_imp_le_length)
  moreover have bounds: "unat low < 2 ^ LENGTH(32)" "unat high < 2 ^ LENGTH(32)" by (rule unsigned_less)+
  moreover have "unat (push_bit 32 (ucast high :: u64)) = 2 ^ 32 * unat high"
    using bounds by (simp add: push_bit_eq_mult unat_word_ariths unsigned_ucast_eq take_bit_eq_mod)
  moreover have "unat low + 2 ^ 32 * unat high < 2 ^ 64" using bounds by simp
  ultimately show ?thesis
    by (simp add: unat_word_ariths unsigned_ucast_eq take_bit_eq_mod)
qed

text \<open>The schoolbook product of two words of two 16-bit digits, over the natural numbers.\<close>

lemma halves_product:
  fixes a0 a1 b0 b1 B :: nat
  defines "middle \<equiv> a1 * b0 + a0 * b0 div B"
  defines "middle2 \<equiv> middle mod B + a0 * b1"
  shows "(a1 * B + a0) * (b1 * B + b0) = (a1 * b1 + middle div B + middle2 div B) * (B * B) + (middle2 mod B * B + a0 * b0 mod B)"
proof -
  have "(a1 * B + a0) * (b1 * B + b0) = a1 * b1 * (B * B) + (a1 * b0) * B + a0 * b1 * B + a0 * b0"
    by (simp add: algebra_simps)
  also have "\<dots> = a1 * b1 * (B * B) + middle * B + a0 * b1 * B + a0 * b0 mod B"
    using div_mult_mod_eq [of "a0 * b0" B] unfolding middle_def by (simp add: algebra_simps)
  also have "middle * B = middle div B * (B * B) + middle mod B * B"
    by (metis add_mult_distrib div_mult_mod_eq mult.assoc)
  also have "a1 * b1 * (B * B) + (middle div B * (B * B) + middle mod B * B) + a0 * b1 * B + a0 * b0 mod B =
      (a1 * b1 + middle div B) * (B * B) + middle2 * B + a0 * b0 mod B"
    unfolding middle2_def by (simp add: algebra_simps)
  also have "middle2 * B = middle2 div B * (B * B) + middle2 mod B * B"
    by (metis add_mult_distrib div_mult_mod_eq mult.assoc)
  finally show ?thesis by (simp add: algebra_simps)
qed


lemma word_halves: "unat (v AND 65535) = unat v mod 65536" "unat (drop_bit 16 v) = unat v div 65536" for v :: u32
proof -
  have "v AND mask 16 = take_bit 16 v" by (simp add: take_bit_eq_mask)
  then have "v AND 65535 = take_bit 16 v" by (simp add: mask_eq_exp_minus_1)
  then show "unat (v AND 65535) = unat v mod 65536" by (simp add: take_bit_eq_mod unat_mod_distrib)
  show "unat (drop_bit 16 v) = unat v div 65536" by (simp add: drop_bit_eq_div unat_div_distrib)
qed

lemma half_product: "(x::nat) < 65536 \<Longrightarrow> y < 65536 \<Longrightarrow> z < 65536 \<Longrightarrow> x * y + z < 4294967296"
proof -
  assume "x < 65536" "y < 65536" "z < 65536"
  then have "x * y \<le> 65535 * 65535" by (intro mult_le_mono) auto
  then show ?thesis using \<open>z < 65536\<close> by simp
qed

lemma join_halves: "unat (push_bit 16 x OR (y AND 65535)) = (unat x mod 65536) * 65536 + unat y mod 65536" for x y :: u32
proof -
  have y: "y AND 65535 = take_bit 16 y" using take_bit_eq_mask [of 16 y] by (simp add: mask_eq_exp_minus_1)
  have "push_bit 16 x OR take_bit 16 y = push_bit 16 x + take_bit 16 y"
    by (rule disjunctive_add [symmetric]) (auto simp: bit_simps)
  moreover have "unat (push_bit 16 x) = (unat x mod 65536) * 65536"
    by (simp add: push_bit_eq_mult unat_word_ariths mult_mod_left)
  moreover have "unat (take_bit 16 y) = unat y mod 65536" by (simp add: take_bit_eq_mod unat_mod_distrib)
  moreover have "(unat x mod 65536) * 65536 + unat y mod 65536 < 2 ^ 32"
    using half_product [of "unat x mod 65536" 65535 "unat y mod 65536"] by simp
  ultimately show ?thesis by (simp add: y unat_word_ariths)
qed


lemma join_mod: "a < B \<Longrightarrow> a + B * (t mod C) = (a + B * t) mod (B * C)" for a B C t :: nat
  by (simp add: mod_mult2_eq)

lemma word_of_value: "unat x = n \<Longrightarrow> x = of_nat n"
  by auto

text \<open>What the word arithmetic of the code computes, with no intermediate overflow in the low half.\<close>

lemma muldi3_value:
  fixes left right :: u64
  defines "l \<equiv> unat left mod 2 ^ 32" and "r \<equiv> unat right mod 2 ^ 32"
  shows "unat (muldi3 left right) = (l * r + 2 ^ 32 * (l * (unat right div 2 ^ 32) + unat left div 2 ^ 32 * r)) mod 2 ^ 64"
proof -
  define a0 where "a0 = l mod 65536"
  define a1 where "a1 = l div 65536"
  define b0 where "b0 = r mod 65536"
  define b1 where "b1 = r div 65536"
  define middle where "middle = a1 * b0 + a0 * b0 div 65536"
  define middle2 where "middle2 = middle mod 65536 + a0 * b1"
  define cross where "cross = l * (unat right div 2 ^ 32) + unat left div 2 ^ 32 * r"
  have small: "a0 < 65536" "a1 < 65536" "b0 < 65536" "b1 < 65536"
    by (simp_all add: a0_def a1_def b0_def b1_def l_def r_def less_mult_imp_div_less)
  define low where "low = (low_word left AND 65535) * (low_word right AND 65535)"
  define m1 where "m1 = drop_bit 16 (low_word left) * (low_word right AND 65535) + drop_bit 16 low"
  define m2 where "m2 = (m1 AND 65535) + (low_word left AND 65535) * drop_bit 16 (low_word right)"
  note digits = word_halves low_word_value high_word_value
  have low: "unat low = a0 * b0"
    using half_product [of a0 b0 0] small
    by (simp add: low_def unat_word_ariths digits a0_def b0_def l_def r_def)
  have m1: "unat m1 = middle"
  proof -
    have "a0 * b0 div 65536 < 65536" using half_product [of a0 b0 0] small by (simp add: less_mult_imp_div_less)
    then have "a1 * b0 + a0 * b0 div 65536 < 4294967296" "a1 * b0 < 4294967296"
      using half_product [of a1 b0 "a0 * b0 div 65536"] half_product [of a1 b0 0] small by simp_all
    then show ?thesis
      by (simp add: m1_def unat_word_ariths low digits middle_def a1_def b0_def l_def r_def)
  qed
  have m2: "unat m2 = middle2"
    using half_product [of a0 b1 "middle mod 65536"] half_product [of a0 b1 0] small
    by (simp add: m2_def unat_word_ariths m1 digits middle2_def a0_def b1_def l_def r_def)
  define hi where "hi = drop_bit 16 (low_word left) * drop_bit 16 (low_word right) + drop_bit 16 m1 + drop_bit 16 m2 +
    low_word left * high_word right + high_word left * low_word right"
  define lo where "lo = push_bit 16 m2 OR (low AND 65535)"
  define top where "top = a1 * b1 + middle div 65536 + middle2 div 65536"
  have muldi3: "muldi3 left right = double_word lo hi"
    by (simp only: muldi3_def Let_def lo_def hi_def m2_def m1_def low_def)
  have parts: "drop_bit 16 (low_word left) = of_nat a1" "drop_bit 16 (low_word right) = of_nat b1"
      "drop_bit 16 m1 = of_nat (middle div 65536)" "drop_bit 16 m2 = of_nat (middle2 div 65536)"
      "low_word left = of_nat l" "low_word right = of_nat r"
      "high_word left = of_nat (unat left div 2 ^ 32)" "high_word right = of_nat (unat right div 2 ^ 32)"
    by (rule word_of_value; simp only: digits m1 m2 a1_def b1_def l_def r_def)+
  have "hi = of_nat (top + cross)"
    unfolding hi_def top_def cross_def by (simp only: parts(1-4)) (simp add: parts(5-8))
  then have hi: "unat hi = (top + cross) mod 2 ^ 32" by (simp only: unsigned_of_nat take_bit_eq_mod) simp
  have lo: "unat lo = middle2 mod 65536 * 65536 + a0 * b0 mod 65536"
    by (simp only: lo_def join_halves m2 low)
  have "unat lo < 2 ^ LENGTH(32)" by (rule unsigned_less)
  then have "unat lo < 2 ^ 32" by simp
  from join_mod [OF this, of "top + cross" "2 ^ 32"]
  have "unat lo + 2 ^ 32 * ((top + cross) mod 2 ^ 32) = (unat lo + 2 ^ 32 * (top + cross)) mod 2 ^ 64" by simp
  moreover have "l * r = top * (65536 * 65536) + unat lo"
    using halves_product [of a1 65536 a0 b1 b0] by (simp add: lo top_def middle2_def middle_def a0_def a1_def b0_def b1_def)
  then have "l * r + 2 ^ 32 * cross = unat lo + 2 ^ 32 * (top + cross)" by (simp add: algebra_simps)
  ultimately show ?thesis unfolding muldi3 double_word_value hi cross_def [symmetric] by (simp only:)
qed

section \<open>Properties\<close>

text \<open>
  The helper for 64-bit products, which uses 32-bit arithmetic only, computes the product modulo
  two to the 64 for all operands.
\<close>

theorem muldi3_product: "muldi3 left right = left * right"
proof -
  define l where "l = unat left mod 2 ^ 32"
  define h where "h = unat left div 2 ^ 32"
  define r where "r = unat right mod 2 ^ 32"
  define k where "k = unat right div 2 ^ 32"
  have split: "unat left = l + 2 ^ 32 * h" "unat right = r + 2 ^ 32 * k" by (simp_all add: l_def h_def r_def k_def)
  have "unat left * unat right = l * r + 2 ^ 32 * (l * k + h * r) + 2 ^ 64 * (h * k)"
    unfolding split by (simp add: algebra_simps)
  then have "(unat left * unat right) mod 2 ^ 64 = (l * r + 2 ^ 32 * (l * k + h * r)) mod 2 ^ 64" by simp
  moreover have "unat (muldi3 left right) = (l * r + 2 ^ 32 * (l * k + h * r)) mod 2 ^ 64"
    unfolding l_def h_def r_def k_def by (rule muldi3_value)
  ultimately have "unat (muldi3 left right) = unat (left * right)" by (simp add: unat_word_ariths)
  then show ?thesis by (rule word_unat_eq_iff [THEN iffD2])
qed

text \<open>
  Within the memory, \<open>memmove\<close> copies the range as it was before the call however the ranges
  overlap, and \<open>memcpy\<close> does so when the destination does not begin inside the source.
\<close>

theorem memmove_copies:
  assumes "src + n \<le> length m" and "dst + n \<le> length m"
  shows "memmove dst src n m = mem_move n m src m dst \<and>
    (dst \<le> src \<or> src + n \<le> dst \<longrightarrow> memcpy dst src n m = mem_move n m src m dst)"
  using forward_copy [OF assms] backward_copy [OF assms] moved_all [OF assms]
  by (simp add: memmove_def memcpy_def)

theorem memmove_copies_witness:
  "memmove 1 0 3 [1, 2, 3, 4] = Some [1, 1, 2, 3]"
  using memmove_copies [of 0 3 "[1, 2, 3, 4]" 1] by (simp add: mem_move_def)

end
