(* ===== verification/VmBitcpy.thy ===== *)
theory VmBitcpy
  imports Bitcopy
begin

text \<open>
  legacy/src/vm/bitcpy.c: the bit copy of the legacy machine. It shares its tables, its
  bit-by-bit loop and its contract (\<open>copied_range\<close>) with \<open>Bitcopy\<close>; what differs are the
  paths for ranges that are not byte aligned: a head byte taken from a two-byte window, a
  64-bit loop over little-endian words, a byte loop and a tail that always look one byte
  ahead. Offsets are natural numbers, a read or write outside a buffer is \<open>None\<close>.

  The overlapping and the byte-aligned path meet the contract. The unaligned paths meet it for
  ranges too short to reach the 64-bit loop whose source starts no earlier in its byte than
  the destination; the properties at the end say what the others do instead.
\<close>

section \<open>Words in memory\<close>

text \<open>\<open>memcpy\<close> between memory and an \<open>uint64_t\<close> on a little-endian host.\<close>

definition load64 :: "mem \<Rightarrow> nat \<Rightarrow> u64 option" where
  "load64 m i = (if i + 8 \<le> length m
     then Some (foldr (\<lambda>b w. ucast b OR push_bit 8 w) (take 8 (drop i m)) 0) else None)"

definition store64 :: "mem \<Rightarrow> nat \<Rightarrow> u64 \<Rightarrow> mem option" where
  "store64 m i w = mem_move 8 (map (\<lambda>k. ucast (drop_bit (8 * k) w)) [0..<8]) 0 m i"

section \<open>The paths\<close>

definition vm_overlap_fallback :: "nat \<Rightarrow> src_org \<Rightarrow> nat \<Rightarrow> mem \<Rightarrow> nat \<Rightarrow> mem option" where
  "vm_overlap_fallback n_bits so src_bit dst dst_bit =
     (if dst_bit < src_bit then for_up (copy_bit so src_bit dst_bit) 0 n_bits dst
      else for_down (copy_bit so src_bit dst_bit) n_bits dst)"

definition vm_copy_aligned :: "nat \<Rightarrow> src_org \<Rightarrow> nat \<Rightarrow> mem \<Rightarrow> nat \<Rightarrow> mem option" where
  "vm_copy_aligned n_bits so src dst0 dst = do {
     let nbytes = n_bits div 8;
     dst1 \<leftarrow> copy_bytes nbytes so src dst0 dst;
     copy_tail (n_bits mod 8) so (src + nbytes) dst1 (dst + nbytes)
   }"

fun vm_same_bulk :: "src_org \<Rightarrow> nat \<Rightarrow> nat \<Rightarrow> nat \<Rightarrow> nat \<Rightarrow> mem \<Rightarrow> (nat \<times> nat \<times> nat \<times> mem) option" where
  "vm_same_bulk so src_mod n_bits src dst dst0 =
     (if 64 \<le> n_bits then do {
        a \<leftarrow> load64 (src_mem so dst0) src;
        b \<leftarrow> load64 (src_mem so dst0) (src + 8);
        let w = (if src_mod = 0 then a else push_bit src_mod a OR drop_bit (64 - src_mod) b);
        dst1 \<leftarrow> store64 dst0 dst w;
        vm_same_bulk so src_mod (n_bits - 64) (src + 8) (dst + 8) dst1
      } else Some (n_bits, src, dst, dst0))"

declare vm_same_bulk.simps [simp del]

text \<open>The same offset in both bytes: a head up to the byte boundary, words, bytes and a tail.\<close>

definition vm_copy_same :: "nat \<Rightarrow> src_org \<Rightarrow> nat \<Rightarrow> mem \<Rightarrow> nat \<Rightarrow> nat \<Rightarrow> mem option" where
  "vm_copy_same n_bits so src dst0 dst dst_mod = do {
     (n, src, dst, dst1) \<leftarrow>
       (if dst_mod \<noteq> 0 then do {
          let head = (if 8 - dst_mod > n_bits then n_bits else 8 - dst_mod);
          dst1 \<leftarrow> copy_head head so src dst0 dst dst_mod;
          Some (n_bits - head, Suc src, Suc dst, dst1)
        } else Some (n_bits, src, dst, dst0));
     (n, src, dst, dst2) \<leftarrow> vm_same_bulk so dst_mod n src dst dst1;
     vm_copy_aligned n so src dst2 dst
   }"

text \<open>One byte out of two neighbouring source bytes; both are read.\<close>

definition vm_window :: "src_org \<Rightarrow> mem \<Rightarrow> nat \<Rightarrow> nat \<Rightarrow> u8 option" where
  "vm_window so dst0 left src = do {
     s0 \<leftarrow> mem_get (src_mem so dst0) src;
     s1 \<leftarrow> mem_get (src_mem so dst0) (Suc src);
     Some (push_bit left s0 OR drop_bit (8 - left) s1)
   }"

definition vm_left :: "nat \<Rightarrow> nat \<Rightarrow> nat" where
  "vm_left src_mod dst_mod = (if dst_mod < src_mod then src_mod - dst_mod else 8 - (dst_mod - src_mod))"

definition vm_shift_head :: "nat \<Rightarrow> src_org \<Rightarrow> nat \<Rightarrow> nat \<Rightarrow> mem \<Rightarrow> nat \<Rightarrow> nat \<Rightarrow> (nat \<times> nat \<times> nat \<times> mem) option" where
  "vm_shift_head n_bits so src src_mod dst0 dst dst_mod =
     (if dst_mod \<noteq> 0 then do {
        let head = (if 8 - dst_mod > n_bits then n_bits else 8 - dst_mod);
        c \<leftarrow> vm_window so dst0 (vm_left src_mod dst_mod) src;
        let mask_keep = keep_hi ! dst_mod OR keep_lo ! (dst_mod + head);
        d \<leftarrow> mem_get dst0 dst;
        dst1 \<leftarrow> mem_set dst0 dst ((d AND mask_keep) OR (c AND NOT mask_keep));
        Some (n_bits - head, (if dst_mod < src_mod then Suc src else src), Suc dst, dst1)
      } else Some (n_bits, src, dst, dst0))"

fun vm_shift_bulk :: "src_org \<Rightarrow> nat \<Rightarrow> nat \<Rightarrow> nat \<Rightarrow> nat \<Rightarrow> mem \<Rightarrow> (nat \<times> nat \<times> nat \<times> mem) option" where
  "vm_shift_bulk so left n_bits src dst dst0 =
     (if 64 \<le> n_bits then do {
        a \<leftarrow> load64 (src_mem so dst0) src;
        b \<leftarrow> load64 (src_mem so dst0) (src + 8);
        dst1 \<leftarrow> store64 dst0 dst (push_bit left a OR drop_bit (8 - left) b);
        vm_shift_bulk so left (n_bits - 64) (src + 8) (dst + 8) dst1
      } else Some (n_bits, src, dst, dst0))"

fun vm_shift_bytes :: "src_org \<Rightarrow> nat \<Rightarrow> nat \<Rightarrow> nat \<Rightarrow> nat \<Rightarrow> mem \<Rightarrow> mem option" where
  "vm_shift_bytes so left n_bits src dst dst0 =
     (if 8 \<le> n_bits then do {
        c \<leftarrow> vm_window so dst0 left src;
        dst1 \<leftarrow> mem_set dst0 dst c;
        vm_shift_bytes so left (n_bits - 8) (Suc src) (Suc dst) dst1
      }
      else if n_bits \<noteq> 0 then do {
        c \<leftarrow> vm_window so dst0 left src;
        d \<leftarrow> mem_get dst0 dst;
        mem_set dst0 dst ((d AND NOT (keep_hi ! n_bits)) OR (c AND keep_hi ! n_bits))
      }
      else Some dst0)"

declare vm_shift_bulk.simps [simp del] vm_shift_bytes.simps [simp del]

definition vm_copy_shifted :: "nat \<Rightarrow> src_org \<Rightarrow> nat \<Rightarrow> nat \<Rightarrow> mem \<Rightarrow> nat \<Rightarrow> nat \<Rightarrow> mem option" where
  "vm_copy_shifted n_bits so src src_mod dst0 dst dst_mod = do {
     (n, src, dst, dst1) \<leftarrow> vm_shift_head n_bits so src src_mod dst0 dst dst_mod;
     (n, src, dst, dst2) \<leftarrow> vm_shift_bulk so (vm_left src_mod dst_mod) n src dst dst1;
     vm_shift_bytes so (vm_left src_mod dst_mod) n src dst dst2
   }"

definition vm_bitcpy :: "nat \<Rightarrow> src_org \<Rightarrow> nat \<Rightarrow> mem \<Rightarrow> nat \<Rightarrow> mem option" where
  "vm_bitcpy n_bits so src_bit dst0 dst_bit =
     (if n_bits = 0 then Some dst0
      else if so = Aliased \<and> src_bit = dst_bit then Some dst0
      else if so = Aliased \<and> src_bit < dst_bit + n_bits \<and> dst_bit < src_bit + n_bits
      then vm_overlap_fallback n_bits so src_bit dst0 dst_bit
      else if (src_bit OR dst_bit) AND 7 = 0
      then vm_copy_aligned n_bits so (src_bit div 8) dst0 (dst_bit div 8)
      else if src_bit mod 8 = dst_bit mod 8
      then vm_copy_same n_bits so (src_bit div 8) dst0 (dst_bit div 8) (dst_bit mod 8)
      else vm_copy_shifted n_bits so (src_bit div 8) (src_bit mod 8) dst0 (dst_bit div 8) (dst_bit mod 8))"

section \<open>Paths shared with the current primitive\<close>

lemma vm_overlap_fallback_eq: "vm_overlap_fallback = bitcpy_overlap_fallback"
  by (simp add: fun_eq_iff vm_overlap_fallback_def bitcpy_overlap_fallback_def)

lemma vm_copy_aligned_eq: "vm_copy_aligned = bitcpy_aligned"
  by (simp add: fun_eq_iff vm_copy_aligned_def bitcpy_aligned_def)

lemma vm_same_bulk_short: "n < 64 \<Longrightarrow> vm_same_bulk so a n src dst m = Some (n, src, dst, m)"
  by (subst vm_same_bulk.simps) simp

lemma vm_shift_bulk_short: "n < 64 \<Longrightarrow> vm_shift_bulk so a n src dst m = Some (n, src, dst, m)"
  by (subst vm_shift_bulk.simps) simp

lemma vm_copy_same_short:
  assumes "n < 64"
  shows "vm_copy_same n so src dst0 dst a = bitcpy_same_offset n so src dst0 dst a"
  using assms
  by (cases "copy_head (if 8 - a > n then n else 8 - a) so src dst0 dst a")
    (auto simp: vm_copy_same_def bitcpy_same_offset_def vm_same_bulk_short vm_copy_aligned_eq Let_def)

section \<open>The shifted path\<close>

lemma vm_window_eq:
  assumes "Suc src < length (src_mem so d)" and "0 < l"
  shows "vm_window so d l src = Some (window_byte (src_mem so d) l src)"
  using assms by (simp add: vm_window_def window_byte_def)

lemma vm_left_bounds: "\<lbrakk>s \<noteq> a; s < 8; a < 8\<rbrakk> \<Longrightarrow> 0 < vm_left s a \<and> vm_left s a < 8"
  by (auto simp: vm_left_def)

text \<open>Masked bits of a window: the head and the tail.\<close>

lemma window_merged:
  assumes "l < 8" and "Suc src < length (src_mem so d)" and "dst < length d" and "a + w \<le> 8"
    and mask: "\<And>j. j < 8 \<Longrightarrow> bit keep (7 - j) \<longleftrightarrow> j < a \<or> a + w \<le> j"
  shows "copied_range (mem_set d dst ((d ! dst AND keep) OR (window_byte (src_mem so d) l src AND NOT keep)))
    w so (8 * src + l + a) d (8 * dst + a)"
proof (rule merged_byte_copied [OF assms(3,4)])
  fix j assume j: "a \<le> j" "j < a + w"
  then have j8: "j < 8" using assms(4) by simp
  have "bit (window_byte (src_mem so d) l src) (7 - j) \<longleftrightarrow> bit_at (src_mem so d) (8 * src + l + j)"
    by (rule window_byte_bit [OF assms(1) _ j8]) (use assms in simp)
  moreover have "8 * src + l + a + (j - a) = 8 * src + l + j" using j by simp
  ultimately show "bit ((d ! dst AND keep) OR (window_byte (src_mem so d) l src AND NOT keep)) (7 - j)
      \<longleftrightarrow> bit_at (src_mem so d) (8 * src + l + a + (j - a))"
    using mask [OF j8] j less_imp_diff_less [of 7 8 j]
    by (simp add: bit_and_iff bit_or_iff bit_not_iff add.assoc)
next
  fix j assume j: "j < 8" "j < a \<or> a + w \<le> j"
  then show "bit ((d ! dst AND keep) OR (window_byte (src_mem so d) l src AND NOT keep)) (7 - j)
      \<longleftrightarrow> bit (d ! dst) (7 - j)"
    using mask [of j] by (auto simp: bit_and_iff bit_or_iff bit_not_iff)
qed

lemma keep_mask: "\<lbrakk>a + w \<le> 8; j < 8\<rbrakk> \<Longrightarrow> bit (keep_hi ! a OR keep_lo ! (a + w)) (7 - j) \<longleftrightarrow> j < a \<or> a + w \<le> j"
  by (simp add: bit_or_iff keep_hi_bit keep_lo_bit)

text \<open>The byte loop and its tail move the bits from \<open>l\<close> bits behind the source byte on.\<close>

lemma vm_shift_bytes_copied:
  assumes "0 < l" and "l < 8" and "n = 0 \<or> 8 * src + n + 8 \<le> 8 * length (src_mem so d)"
    and "8 * dst + n \<le> 8 * length d" and "disjoint n so (8 * src + l) (8 * dst)"
  shows "copied_range (vm_shift_bytes so l n src dst d) n so (8 * src + l) d (8 * dst)"
  using assms
proof (induction n arbitrary: src dst d rule: less_induct)
  case (less n)
  consider "8 \<le> n" | "0 < n" "n < 8" | "n = 0" by linarith
  then show ?case
  proof cases
    case 1
    then have n: "8 + (n - 8) = n" by simp
    have src: "Suc src < length (src_mem so d)" using less.prems 1 by auto
    have step: "vm_shift_bytes so l n src dst d =
      Option.bind (mem_set d dst (window_byte (src_mem so d) l src)) (vm_shift_bytes so l (n - 8) (Suc src) (Suc dst))"
      using 1 by (subst vm_shift_bytes.simps) (simp add: vm_window_eq [OF src less.prems(1)])
    have "copied_range (Option.bind (mem_set d dst (window_byte (src_mem so d) l src))
        (vm_shift_bytes so l (n - 8) (Suc src) (Suc dst))) (8 + (n - 8)) so (8 * src + l) d (8 * dst)"
    proof (rule copied_seq)
      show "copied_range (mem_set d dst (window_byte (src_mem so d) l src)) 8 so (8 * src + l) d (8 * dst)"
        using less.prems 1 by (intro window_copied) auto
      fix d1 :: mem assume len: "length d1 = length d"
      have at: "8 * src + l + 8 = 8 * Suc src + l" "8 * dst + 8 = 8 * Suc dst" by simp_all
      show "copied_range (vm_shift_bytes so l (n - 8) (Suc src) (Suc dst) d1) (n - 8) so
          (8 * src + l + 8) d1 (8 * dst + 8)"
        unfolding at
      proof (rule less.IH)
        show "disjoint (n - 8) so (8 * Suc src + l) (8 * Suc dst)"
          using less.prems(5) 1 by (cases so) auto
      qed (use less.prems 1 len length_src_mem [OF len, of so] in auto)
    qed (use less.prems n in simp)
    then show ?thesis by (simp only: step n)
  next
    case 2
    have src: "Suc src < length (src_mem so d)" using less.prems(3) 2 by simp
    have dst: "dst < length d" using less.prems(4) 2 by simp
    have "copied_range (mem_set d dst ((d ! dst AND NOT (keep_hi ! n))
        OR (window_byte (src_mem so d) l src AND NOT (NOT (keep_hi ! n))))) n so (8 * src + l + 0) d (8 * dst + 0)"
      using 2 less.prems(2) src dst
      by (intro window_merged) (auto simp: bit_not_iff keep_hi_bit less_imp_diff_less)
    then show ?thesis
      using 2 dst by (subst vm_shift_bytes.simps) (simp add: vm_window_eq [OF src less.prems(1)])
  next
    case 3
    then show ?thesis by (subst vm_shift_bytes.simps) (simp add: copied_nothing)
  qed
qed

text \<open>
  The head takes its bits \<open>left\<close> bits behind the start of the source byte: at the source
  position when the source starts later in its byte than the destination, eight bits too late
  when it starts earlier.
\<close>

lemma vm_head_copied:
  assumes "s \<noteq> a" and "s < 8" and "a < 8" and "0 < a" and "h \<le> 8 - a"
    and "Suc src < length (src_mem so d)" and "dst < length d"
  shows "copied_range (mem_set d dst ((d ! dst AND (keep_hi ! a OR keep_lo ! (a + h)))
      OR (window_byte (src_mem so d) (vm_left s a) src AND NOT (keep_hi ! a OR keep_lo ! (a + h)))))
    h so (8 * src + s + (if s < a then 8 else 0)) d (8 * dst + a)"
proof -
  have l: "vm_left s a < 8" using vm_left_bounds assms(1-3) by blast
  have ah: "a + h \<le> 8" using assms(3,5) by simp
  have at: "8 * src + vm_left s a + a = 8 * src + s + (if s < a then 8 else 0)"
    using assms(1-4) by (auto simp: vm_left_def)
  show ?thesis
    using window_merged [OF l assms(6,7) ah keep_mask [OF ah]] unfolding at .
qed

lemma vm_shift_head_eq:
  assumes "s \<noteq> a" and "s < 8" and "a < 8" and "0 < a"
    and "Suc src < length (src_mem so d)" and "dst < length d"
  shows "vm_shift_head n so src s d dst a =
    (let h = min n (8 - a) in
     Option.bind (mem_set d dst ((d ! dst AND (keep_hi ! a OR keep_lo ! (a + h)))
        OR (window_byte (src_mem so d) (vm_left s a) src AND NOT (keep_hi ! a OR keep_lo ! (a + h)))))
      (\<lambda>d1. Some (n - h, (if a < s then Suc src else src), Suc dst, d1)))"
proof -
  have l: "0 < vm_left s a" using vm_left_bounds assms(1-3) by blast
  have "(if 8 - a > n then n else 8 - a) = min n (8 - a)" by simp
  then show ?thesis
    using assms(4,6) by (simp add: vm_shift_head_def vm_window_eq [OF assms(5) l] Let_def)
qed

lemma vm_copy_shifted_copied:
  assumes "a < s" and "s < 8" and "0 < n" and "n < 64 + (8 - a) mod 8"
    and range: "8 * src + s + n + 8 \<le> 8 * length (src_mem so d)" "8 * dst + a + n \<le> 8 * length d"
    and disj: "disjoint n so (8 * src + s) (8 * dst + a)"
  shows "copied_range (vm_copy_shifted n so src s d dst a) n so (8 * src + s) d (8 * dst + a)"
proof (cases "a = 0")
  case True
  have left: "vm_left s 0 = s" using assms(1) True by (simp add: vm_left_def)
  have "vm_copy_shifted n so src s d dst a = vm_shift_bytes so s n src dst d"
    using True assms(4) by (simp add: vm_copy_shifted_def vm_shift_head_def vm_shift_bulk_short left)
  then show ?thesis
    using vm_shift_bytes_copied [of s n src so d dst] assms True by simp
next
  case False
  let ?h = "min n (8 - a)"
  let ?c = "(d ! dst AND (keep_hi ! a OR keep_lo ! (a + ?h)))
        OR (window_byte (src_mem so d) (vm_left s a) src AND NOT (keep_hi ! a OR keep_lo ! (a + ?h)))"
  have src: "Suc src < length (src_mem so d)" and dst: "dst < length d" using range assms(3) by auto
  have rest: "n - ?h < 64" using assms(1,2,4) False by (auto simp: min_def split: if_splits)
  have left: "vm_left s a = s - a" using assms(1) by (simp add: vm_left_def)
  have eq: "vm_copy_shifted n so src s d dst a =
    Option.bind (mem_set d dst ?c) (vm_shift_bytes so (s - a) (n - ?h) (Suc src) (Suc dst))"
    using vm_shift_head_eq [of s a src so d dst n] src dst assms(1,2) False
    by (cases "mem_set d dst ?c")
      (simp_all add: vm_copy_shifted_def vm_shift_bulk_short [OF rest] Let_def left)
  have h: "?h + (n - ?h) = n" by simp
  have "copied_range (Option.bind (mem_set d dst ?c) (vm_shift_bytes so (s - a) (n - ?h) (Suc src) (Suc dst)))
      (?h + (n - ?h)) so (8 * src + s) d (8 * dst + a)"
  proof (rule copied_seq)
    have "copied_range (mem_set d dst ?c) ?h so (8 * src + s + (if s < a then 8 else 0)) d (8 * dst + a)"
      by (rule vm_head_copied) (use assms(1,2) False src dst in auto)
    then show "copied_range (mem_set d dst ?c) ?h so (8 * src + s) d (8 * dst + a)"
      using assms(1) by simp
    fix d1 :: mem assume len: "length d1 = length d"
    show "copied_range (vm_shift_bytes so (s - a) (n - ?h) (Suc src) (Suc dst) d1) (n - ?h) so
        (8 * src + s + ?h) d1 (8 * dst + a + ?h)"
    proof (cases "8 - a \<le> n")
      case True
      then have hh: "?h = 8 - a" by simp
      have at: "8 * src + s + ?h = 8 * Suc src + (s - a)" "8 * dst + a + ?h = 8 * Suc dst"
        unfolding hh using assms(1,2) by simp_all
      show ?thesis
        unfolding at
      proof (rule vm_shift_bytes_copied)
        show "disjoint (n - ?h) so (8 * Suc src + (s - a)) (8 * Suc dst)"
          unfolding hh using disj True assms(1,2) by (cases so) auto
      qed (use range hh True assms(1,2) len length_src_mem [OF len, of so] in auto)
    next
      case False
      then show ?thesis by (subst vm_shift_bytes.simps) (simp add: copied_nothing)
    qed
  qed (use disj h in simp)
  then show ?thesis by (simp only: eq h)
qed

section \<open>The whole primitive\<close>

text \<open>
  The copies the legacy primitive gets right: nothing to do, overlapping ranges, byte-aligned
  ranges, and unaligned ranges that end before the 64-bit loop, with the source no earlier in its
  byte than the destination and a byte of memory behind the source range to look ahead into.
\<close>

definition vm_copy_regular :: "nat \<Rightarrow> src_org \<Rightarrow> nat \<Rightarrow> mem \<Rightarrow> nat \<Rightarrow> bool" where
  "vm_copy_regular n so sb dst db \<longleftrightarrow>
     n = 0 \<or> so = Aliased \<and> (sb = db \<or> sb < db + n \<and> db < sb + n)
     \<or> sb mod 8 = 0 \<and> db mod 8 = 0
     \<or> sb mod 8 = db mod 8 \<and> n < 64
     \<or> db mod 8 < sb mod 8 \<and> n < 64 + (8 - db mod 8) mod 8 \<and> sb + n + 8 \<le> 8 * length (src_mem so dst)"

lemma same_offset_short_copied:
  assumes range: "8 * src + a + n \<le> 8 * length (src_mem so dst0)" "8 * dst + a + n \<le> 8 * length dst0"
    and a: "a < 8" "a \<noteq> 0" and n: "0 < n" "n < 8" and disj: "disjoint n so (8 * src + a) (8 * dst + a)"
  shows "copied_range (bitcpy_same_offset n so src dst0 dst a) n so (8 * src + a) dst0 (8 * dst + a)"
proof -
  let ?h = "min n (8 - a)"
  have split: "?h + (n - ?h) = n" and h: "(if 8 - a > n then n else 8 - a) = ?h" by simp_all
  have "copied_range (Option.bind (copy_head ?h so src dst0 dst a)
      (\<lambda>d1. bitcpy_aligned (n - ?h) so (Suc src) d1 (Suc dst)))
      (?h + (n - ?h)) so (8 * src + a) dst0 (8 * dst + a)"
  proof (rule copied_seq)
    show "copied_range (copy_head ?h so src dst0 dst a) ?h so (8 * src + a) dst0 (8 * dst + a)"
      by (rule head_copied) (use range a n in linarith)+
    fix d1 :: mem assume len: "length d1 = length dst0"
    show "copied_range (bitcpy_aligned (n - ?h) so (Suc src) d1 (Suc dst)) (n - ?h) so
        (8 * src + a + ?h) d1 (8 * dst + a + ?h)"
    proof (cases "8 - a \<le> n")
      case True
      then have hh: "?h = 8 - a" by simp
      have at: "8 * src + a + ?h = 8 * Suc src" "8 * dst + a + ?h = 8 * Suc dst"
        unfolding hh using a by simp_all
      show ?thesis
        unfolding at
      proof (rule aligned_copied)
        show "disjoint (n - ?h) so (8 * Suc src) (8 * Suc dst)"
          unfolding hh using disj a True by (cases so) auto
      qed (use hh True range a n length_src_mem [OF len, of so] len in simp_all)
    next
      case False
      then show ?thesis by (simp add: bitcpy_aligned_def copy_bytes_def copy_tail_def copied_nothing)
    qed
  qed (use disj split in simp)
  then show ?thesis using a(2) by (simp only: bitcpy_same_offset_def Let_def if_True h split simp_thms)
qed

lemma vm_bitcpy_regular:
  assumes range: "in_range n so sb dst db" and reg: "vm_copy_regular n so sb dst db"
  shows "copied_range (vm_bitcpy n so sb dst db) n so sb dst db"
proof (cases "n = 0 \<or> (so = Aliased \<and> (sb = db \<or> sb < db + n \<and> db < sb + n))")
  case True
  then show ?thesis
    using fallback_copied [OF range]
    by (auto simp: vm_bitcpy_def vm_overlap_fallback_eq copied_range_def yields_def)
next
  case False
  then have n: "0 < n" and disj: "disjoint n so sb db" by (cases so; auto)+
  have sb: "8 * (sb div 8) + sb mod 8 = sb" and db: "8 * (db div 8) + db mod 8 = db" by simp_all
  have general: "vm_bitcpy n so sb dst db =
      (if sb mod 8 = 0 \<and> db mod 8 = 0 then bitcpy_aligned n so (sb div 8) dst (db div 8)
       else if sb mod 8 = db mod 8
       then vm_copy_same n so (sb div 8) dst (db div 8) (db mod 8)
       else vm_copy_shifted n so (sb div 8) (sb mod 8) dst (db div 8) (db mod 8))"
    using False n by (auto simp: vm_bitcpy_def or_and_7 vm_copy_aligned_eq)
  consider "sb mod 8 = 0" "db mod 8 = 0"
    | "sb mod 8 = db mod 8" "db mod 8 \<noteq> 0" "n < 64"
    | "db mod 8 < sb mod 8" "n < 64 + (8 - db mod 8) mod 8" "sb + n + 8 \<le> 8 * length (src_mem so dst)"
    using reg False n unfolding vm_copy_regular_def by metis
  then show ?thesis
  proof cases
    case 1
    then show ?thesis
      using aligned_copied [of "sb div 8" n so dst "db div 8"] sb db disj range general
      by (auto simp: in_range_def)
  next
    case 2
    have "copied_range (bitcpy_same_offset n so (sb div 8) dst (db div 8) (db mod 8)) n so
        (8 * (sb div 8) + db mod 8) dst (8 * (db div 8) + db mod 8)"
    proof (cases "8 \<le> n")
      case True
      then show ?thesis
        using 2 range disj sb db by (intro same_offset_copied) (auto simp: in_range_def)
    next
      case False
      then show ?thesis
        using 2 n range disj sb db by (intro same_offset_short_copied) (auto simp: in_range_def)
    qed
    then show ?thesis using general 2 sb db by (simp add: vm_copy_same_short)
  next
    case 3
    have "copied_range (vm_copy_shifted n so (sb div 8) (sb mod 8) dst (db div 8) (db mod 8)) n so
        (8 * (sb div 8) + sb mod 8) dst (8 * (db div 8) + db mod 8)"
      using 3 n range disj sb db by (intro vm_copy_shifted_copied) (auto simp: in_range_def)
    then show ?thesis using general 3 sb db by simp
  qed
qed

text \<open>A short unaligned copy from an earlier position in the byte takes the bits eight too late.\<close>

lemma vm_bitcpy_late:
  assumes "sb mod 8 < db mod 8" and "0 < n" and "n \<le> 8 - db mod 8" and "disjoint n so sb db"
    and "so = Aliased \<Longrightarrow> sb \<noteq> db" and "Suc (sb div 8) < length (src_mem so dst)"
    and "db + n \<le> 8 * length dst"
  shows "copied_range (vm_bitcpy n so sb dst db) n so (sb + 8) dst db"
proof -
  let ?s = "sb mod 8" and ?a = "db mod 8"
  have sb: "8 * (sb div 8) + ?s = sb" and db: "8 * (db div 8) + ?a = db" by simp_all
  let ?c = "(dst ! (db div 8) AND (keep_hi ! ?a OR keep_lo ! (?a + n)))
      OR (window_byte (src_mem so dst) (vm_left ?s ?a) (sb div 8) AND NOT (keep_hi ! ?a OR keep_lo ! (?a + n)))"
  have dst: "db div 8 < length dst" using assms(2,7) by linarith
  have "vm_bitcpy n so sb dst db = vm_copy_shifted n so (sb div 8) ?s dst (db div 8) ?a"
    using assms(1,2,4,5) by (cases so) (auto simp: vm_bitcpy_def or_and_7)
  also have "\<dots> = mem_set dst (db div 8) ?c"
    using vm_shift_head_eq [of ?s ?a "sb div 8" so dst "db div 8" n] assms(1,3,6) dst
    by (cases "mem_set dst (db div 8) ?c")
      (simp_all add: vm_copy_shifted_def Let_def vm_shift_bulk_short min_def vm_shift_bytes.simps)
  finally have eq: "vm_bitcpy n so sb dst db = mem_set dst (db div 8) ?c" .
  have "copied_range (mem_set dst (db div 8) ?c) n so
      (8 * (sb div 8) + ?s + (if ?s < ?a then 8 else 0)) dst (8 * (db div 8) + ?a)"
    by (rule vm_head_copied) (use assms dst in auto)
  then show ?thesis using eq assms(1) sb db by simp
qed

section \<open>Properties\<close>

text \<open>
  C35. Inside its buffers a regular copy of the legacy primitive succeeds, moves the bit range as
  it was before the call and changes nothing else.
\<close>

theorem vm_bitcpy_moves_bits:
  assumes "src_bit + n \<le> 8 * length (src_mem so dst)" and "dst_bit + n \<le> 8 * length dst"
    and "vm_copy_regular n so src_bit dst dst_bit"
  shows "\<exists>dst'. vm_bitcpy n so src_bit dst dst_bit = Some dst' \<and> length dst' = length dst \<and>
    (\<forall>p. bit_at dst' p = (if dst_bit \<le> p \<and> p < dst_bit + n
       then bit_at (src_mem so dst) (src_bit + (p - dst_bit)) else bit_at dst p))"
  using vm_bitcpy_regular [OF _ assms(3)] assms(1,2)
  by (auto simp: in_range_def copied_range_def yields_def blit_def)

lemma vm_bitcpy_moves_bits_witness:
  "let m = [0xA5, 0x3C, 0xF0, 0x11, 0x22] in
    \<exists>dst'. vm_bitcpy 13 Aliased 3 m 25 = Some dst' \<and> length dst' = length m \<and>
    (\<forall>p. bit_at dst' p = (if 25 \<le> p \<and> p < 25 + 13 then bit_at m (3 + (p - 25)) else bit_at m p))"
  unfolding Let_def
  by (rule vm_bitcpy_moves_bits [of 3 13 Aliased "[0xA5, 0x3C, 0xF0, 0x11, 0x22]" 25, unfolded src_mem_simps])
    (simp_all add: vm_copy_regular_def)

text \<open>
  C40. An unaligned copy of up to a byte whose source starts earlier in its byte than the
  destination moves the wrong bits: the destination receives the source bits eight positions
  behind the requested ones.
\<close>

theorem vm_bitcpy_takes_later_bits:
  assumes "src_bit mod 8 < dst_bit mod 8" and "0 < n" and "n \<le> 8 - dst_bit mod 8"
    and "src_bit + n \<le> dst_bit \<or> dst_bit + n \<le> src_bit"
    and "Suc (src_bit div 8) < length m" and "dst_bit + n \<le> 8 * length m"
  shows "\<exists>m'. vm_bitcpy n Aliased src_bit m dst_bit = Some m' \<and>
    (\<forall>i < n. bit_at m' (dst_bit + i) = bit_at m (src_bit + 8 + i))"
proof -
  have "copied_range (vm_bitcpy n Aliased src_bit m dst_bit) n Aliased (src_bit + 8) m dst_bit"
    by (rule vm_bitcpy_late) (use assms in auto)
  then show ?thesis by (auto simp: copied_range_def yields_def blit_def)
qed

text \<open>Bit 0 is set and bit 8 is not; the copy of one bit from 0 to 17 leaves 0 there.\<close>

lemma vm_bitcpy_takes_later_bits_witness:
  "\<exists>m'. vm_bitcpy 1 Aliased 0 [0x80, 0x00, 0x00] 17 = Some m' \<and>
    (\<forall>i < 1. bit_at m' (17 + i) = bit_at [0x80, 0x00, 0x00] (0 + 8 + i))
    \<and> bit_at [0x80, 0x00, 0x00] 0 \<and> \<not> bit_at [0x80, 0x00, 0x00] 8"
  using vm_bitcpy_takes_later_bits [of 0 17 1 "[0x80, 0x00, 0x00]"] by (simp add: bit_at_def)

text \<open>
  The 64-bit loops: with equal offsets the words are shifted although the head has aligned them,
  and the last iteration reads past the source range, possibly past the memory.
\<close>

lemma vm_bulk_shifts:
  "vm_bitcpy 71 Aliased 1 (replicate 10 0xFF @ replicate 15 0) 97
   \<noteq> bitcpy 71 Aliased 1 (replicate 10 0xFF @ replicate 15 0) 97"
  by code_simp

lemma vm_bulk_reads_outside:
  "vm_bitcpy 71 Aliased 97 (replicate 21 0) 1 = None"
  "bitcpy 71 Aliased 97 (replicate 21 0) 1 = Some (replicate 21 0)"
  by code_simp+

end
