(* ===== verification/Vm.thy ===== *)
theory Vm
  imports BitFields VmBitcpy
begin

text \<open>
  legacy/src/vm/space.h and the first half of space.c: the state of the legacy machine, its bit
  and field accessors, the instruction encoding, the layout of the MMIO mailbox and
  \<open>vm_init\<close>.

  A \<open>vm_t\<close> is the record \<open>vm\<close>. The forty bit addresses of \<open>vm_mmio_layout_t\<close> are one function
  from field names to addresses, filled in field by field as \<open>vm_compute_mmio_layout\<close> does.
  Bit addresses (\<open>uint64_t\<close>) are natural numbers: a space is below \<open>2 ^ 56\<close> bits
  (\<open>vm_wf\<close>), so no sum of addresses the code forms wraps. Counters that do wrap are taken
  modulo \<open>2 ^ 64\<close> or \<open>2 ^ 32\<close> where they are incremented.

  The mailbox algebra (\<open>vm_get\<close>, \<open>vm_put\<close>): in a well-formed machine every access of the code
  to a field is one of the two, and a field reads back what was last put into it, whatever was
  put into the others.
\<close>

section \<open>The state\<close>

datatype vm_err_kind = VM_E_NONE | VM_E_SRC_BOUNDS | VM_E_DST_BOUNDS | VM_E_ALIGN32
  | VM_E_POOL_EXHAUSTED | VM_E_TOKEN_EOF | VM_E_INVALID_TOKEN

definition vm_err_code :: "vm_err_kind \<Rightarrow> nat" where
  "vm_err_code k = (case k of VM_E_NONE \<Rightarrow> 0 | VM_E_SRC_BOUNDS \<Rightarrow> 1 | VM_E_DST_BOUNDS \<Rightarrow> 2
     | VM_E_ALIGN32 \<Rightarrow> 3 | VM_E_POOL_EXHAUSTED \<Rightarrow> 4 | VM_E_TOKEN_EOF \<Rightarrow> 5 | VM_E_INVALID_TOKEN \<Rightarrow> 6)"

datatype vm_rc = VM_OK | VM_HALT | VM_ERR

datatype rv_stop_reason = RV_STOP_NONE | RV_STOP_HALT | RV_STOP_UNSUPPORTED | RV_STOP_ALIGN | RV_STOP_BOUNDS

definition rv_stop_code :: "rv_stop_reason \<Rightarrow> nat" where
  "rv_stop_code r = (case r of RV_STOP_NONE \<Rightarrow> 0 | RV_STOP_HALT \<Rightarrow> 1 | RV_STOP_UNSUPPORTED \<Rightarrow> 2
     | RV_STOP_ALIGN \<Rightarrow> 3 | RV_STOP_BOUNDS \<Rightarrow> 4)"

record vm_inst =
  inst_n :: nat
  inst_dst :: nat
  inst_src :: nat

record vm_err =
  err_kind :: vm_err_kind
  err_tick :: nat
  err_slot :: nat
  err_ins :: vm_inst
  err_space_bits :: nat

record rv_trace_record =
  tr_step :: u32
  tr_pc :: u32
  tr_instr :: u32
  tr_imm :: u32
  tr_rd_value :: u32
  tr_mem_addr :: u32
  tr_mem_value :: u32
  tr_meta :: u32
  tr_flags :: u32

datatype mmio_field =
    In_req | In_done | In_eof | In_err | In_dst | In_len | In_got
  | Out_req | Out_done | Out_err | Out_src | Out_len | Out_got
  | Halt_bit
  | In_src_mode | In_src_addr | In_src_end
  | Load_req | Load_done | Load_err | Load_src | Load_bits
  | Wd_enable | Wd_fired | Wd_limit | Wd_ticks
  | Ch_req | Ch_done | Ch_err | Ch_op | Ch_a | Ch_b | Ch_c | Ch_abi_version

record vm =
  vm_space :: mem
  vm_space_bits :: nat
  vm_processor_n :: nat
  vm_addr_bits :: nat
  vm_n_bits :: nat
  vm_instr_bits :: nat
  vm_instr_bytes :: nat
  vm_processor_start :: nat
  vm_processor_bits :: nat
  vm_off_n :: nat
  vm_off_dst :: nat
  vm_off_src :: nat
  vm_mmio :: "mmio_field \<Rightarrow> nat"
  vm_mmio_base :: nat
  vm_mmio_end :: nat
  vm_workspace_base :: nat
  vm_tick_counter :: nat
  vm_last_err :: vm_err
  rv_guest_loaded :: bool
  rv_guest_running :: bool
  rv_guest_steps :: nat
  rv_guest_stop_reason :: rv_stop_reason
  rv_trace_records :: "rv_trace_record list"
  rv_trace_capacity :: nat
  rv_trace_dropped :: nat

definition on_space :: "(mem \<Rightarrow> mem option) \<Rightarrow> vm \<Rightarrow> vm option" where
  "on_space f vm = do { m \<leftarrow> f (vm_space vm); Some (vm\<lparr>vm_space := m\<rparr>) }"

section \<open>Bits and numbers\<close>

definition vm_bit_get :: "mem \<Rightarrow> nat \<Rightarrow> u32 option" where
  "vm_bit_get sp pos = do {
     byte \<leftarrow> mem_get sp (pos div 8);
     let shift = 7 - pos mod 8;
     Some (drop_bit shift (ucast byte) AND 1)
   }"

definition vm_bit_set :: "mem \<Rightarrow> nat \<Rightarrow> u32 \<Rightarrow> mem option" where
  "vm_bit_set sp pos v = do {
     b \<leftarrow> mem_get sp (pos div 8);
     let shift = 7 - pos mod 8;
     let mask = (push_bit shift 1 :: u8);
     mem_set sp (pos div 8) (if v \<noteq> 0 then b OR mask else b AND NOT mask)
   }"

definition vm_read_uint :: "mem \<Rightarrow> nat \<Rightarrow> nat \<Rightarrow> u64 option" where
  "vm_read_uint sp pos width =
     (if width = 0 \<or> width > 64 then Some 0
      else for_up (\<lambda>i v. do { b \<leftarrow> vm_bit_get sp (pos + i); Some (push_bit 1 v OR ucast b) }) 0 width 0)"

definition vm_write_uint :: "mem \<Rightarrow> nat \<Rightarrow> nat \<Rightarrow> u64 \<Rightarrow> mem option" where
  "vm_write_uint sp pos width v =
     (if width = 0 \<or> width > 64 then Some sp
      else for_up (\<lambda>i sp. vm_bit_set sp (pos + i) (ucast (drop_bit (width - 1 - i) v AND 1))) 0 width sp)"

section \<open>Instructions\<close>

definition vm_read_inst :: "vm \<Rightarrow> nat \<Rightarrow> vm_inst option" where
  "vm_read_inst vm ip = do {
     n \<leftarrow> vm_read_uint (vm_space vm) (ip + vm_off_n vm) (vm_n_bits vm);
     dst \<leftarrow> vm_read_uint (vm_space vm) (ip + vm_off_dst vm) (vm_addr_bits vm);
     src \<leftarrow> vm_read_uint (vm_space vm) (ip + vm_off_src vm) (vm_addr_bits vm);
     Some \<lparr>inst_n = unat n, inst_dst = unat dst, inst_src = unat src\<rparr>
   }"

definition vm_write_inst :: "nat \<Rightarrow> vm_inst \<Rightarrow> vm \<Rightarrow> vm option" where
  "vm_write_inst ip ins vm = do {
     vm \<leftarrow> on_space (\<lambda>m. vm_write_uint m (ip + vm_off_n vm) (vm_n_bits vm) (of_nat (inst_n ins))) vm;
     vm \<leftarrow> on_space (\<lambda>m. vm_write_uint m (ip + vm_off_dst vm) (vm_addr_bits vm) (of_nat (inst_dst ins))) vm;
     on_space (\<lambda>m. vm_write_uint m (ip + vm_off_src vm) (vm_addr_bits vm) (of_nat (inst_src ins))) vm
   }"

definition vm_proc_slot_ip :: "vm \<Rightarrow> nat \<Rightarrow> nat" where
  "vm_proc_slot_ip vm slot = vm_processor_start vm + slot * vm_instr_bits vm"

definition vm_proc_slot_field_ip :: "vm \<Rightarrow> nat \<Rightarrow> nat \<Rightarrow> nat" where
  "vm_proc_slot_field_ip vm slot field_off_bits = vm_proc_slot_ip vm slot + field_off_bits"

section \<open>The layout of the mailbox\<close>

definition mmio_widths :: "nat \<Rightarrow> nat \<Rightarrow> (mmio_field \<times> nat) list" where
  "mmio_widths a n =
    [(In_req, 1), (In_done, 1), (In_eof, 1), (In_err, 1), (In_dst, a), (In_len, n), (In_got, n),
     (Out_req, 1), (Out_done, 1), (Out_err, 1), (Out_src, a), (Out_len, n), (Out_got, n),
     (Halt_bit, 1),
     (In_src_mode, 1), (In_src_addr, a), (In_src_end, a),
     (Load_req, 1), (Load_done, 1), (Load_err, 1), (Load_src, a), (Load_bits, n),
     (Wd_enable, 1), (Wd_fired, 1), (Wd_limit, n), (Wd_ticks, n),
     (Ch_req, 1), (Ch_done, 1), (Ch_err, 1), (Ch_op, 8), (Ch_a, a), (Ch_b, a), (Ch_c, n), (Ch_abi_version, 8)]"

fun mmio_place :: "('f \<times> nat) list \<Rightarrow> nat \<Rightarrow> ('f \<Rightarrow> nat) \<Rightarrow> ('f \<Rightarrow> nat) \<times> nat" where
  "mmio_place [] p layout = (layout, p)"
| "mmio_place ((f, w) # fs) p layout = mmio_place fs (p + w) (layout(f := p))"

definition rv_guest_mmio_guard :: nat where
  "rv_guest_mmio_guard = 0x1600"

definition vm_compute_mmio_layout :: "vm \<Rightarrow> vm" where
  "vm_compute_mmio_layout vm =
     (let p = (if vm_processor_bits vm < rv_guest_mmio_guard then rv_guest_mmio_guard else vm_processor_bits vm);
          (layout, e) = mmio_place (mmio_widths (vm_addr_bits vm) (vm_n_bits vm)) p (vm_mmio vm);
          e8 = (e + 7) div 8 * 8
      in vm\<lparr>vm_mmio_base := p, vm_mmio := layout, vm_mmio_end := e8, vm_workspace_base := e8\<rparr>)"

section \<open>Initialisation\<close>

function ceil_log2_from :: "nat \<Rightarrow> nat \<Rightarrow> nat \<Rightarrow> nat" where
  "ceil_log2_from x p k = (if p < x \<and> 0 < p then ceil_log2_from x (2 * p) (Suc k) else k)"
  by auto
termination by (relation "measure (\<lambda>(x, p, k). x - p)") auto

declare ceil_log2_from.simps [simp del]

definition ceil_log2 :: "nat \<Rightarrow> nat" where
  "ceil_log2 x = ceil_log2_from x 1 0"

definition round_up_to_8 :: "nat \<Rightarrow> nat" where
  "round_up_to_8 x = (x + 7) div 8 * 8"

definition vm_rv_trace_max_records :: nat where
  "vm_rv_trace_max_records = 4096"

definition vm_no_err :: "nat \<Rightarrow> nat \<Rightarrow> vm_err" where
  "vm_no_err tick space_bits =
     \<lparr>err_kind = VM_E_NONE, err_tick = tick, err_slot = 0,
      err_ins = \<lparr>inst_n = 0, inst_dst = 0, inst_src = 0\<rparr>, err_space_bits = space_bits\<rparr>"

text \<open>\<open>None\<close>: the result -1. \<open>calloc n sz\<close> says whether the C library grants the request.\<close>

definition vm_init :: "(nat \<Rightarrow> nat \<Rightarrow> bool) \<Rightarrow> nat \<Rightarrow> nat \<Rightarrow> vm option" where
  "vm_init calloc space_bytes processor_n =
     (if space_bytes = 0 then None
      else if processor_n = 0 then None
      else if \<not> calloc 1 space_bytes then None
      else if \<not> calloc vm_rv_trace_max_records 36 then None
      else do {
        let space_bits = 8 * space_bytes;
        let raw = ceil_log2 space_bits;
        let addr_bits = (if round_up_to_8 raw < 8 then 8 else round_up_to_8 raw);
        let vm = \<lparr>vm_space = replicate space_bytes 0, vm_space_bits = space_bits,
          vm_processor_n = processor_n, vm_addr_bits = addr_bits, vm_n_bits = addr_bits,
          vm_instr_bits = 3 * addr_bits, vm_instr_bytes = 3 * addr_bits div 8,
          vm_processor_start = 0, vm_processor_bits = processor_n * (3 * addr_bits),
          vm_off_n = 0, vm_off_dst = addr_bits, vm_off_src = addr_bits + addr_bits,
          vm_mmio = \<lambda>_. 0, vm_mmio_base = 0, vm_mmio_end = 0, vm_workspace_base = 0,
          vm_tick_counter = 0, vm_last_err = vm_no_err 0 0,
          rv_guest_loaded = False, rv_guest_running = False, rv_guest_steps = 0,
          rv_guest_stop_reason = RV_STOP_NONE, rv_trace_records = [],
          rv_trace_capacity = vm_rv_trace_max_records, rv_trace_dropped = 0\<rparr>;
        if vm_processor_bits vm > space_bits then None
        else do {
          let vm = vm_compute_mmio_layout vm;
          if vm_mmio_end vm > space_bits then None
          else on_space (\<lambda>m. vm_write_uint m (vm_mmio vm Ch_abi_version) 8 1) vm
        }
      })"

section \<open>Accesses to the mailbox\<close>

text \<open>
  \<open>vm_bit_get(vm, vm->mmio.f)\<close> as a condition, \<open>vm_bit_set(vm, vm->mmio.f, b)\<close>, and the two
  widths at which \<open>vm_read_uint\<close> and \<open>vm_write_uint\<close> are called on mailbox fields.
\<close>

definition m_bit :: "vm \<Rightarrow> mmio_field \<Rightarrow> bool option" where
  "m_bit vm f = do { b \<leftarrow> vm_bit_get (vm_space vm) (vm_mmio vm f); Some (b \<noteq> 0) }"

definition m_set :: "mmio_field \<Rightarrow> bool \<Rightarrow> vm \<Rightarrow> vm option" where
  "m_set f b vm = on_space (\<lambda>m. vm_bit_set m (vm_mmio vm f) (of_bool b)) vm"

definition m_addr :: "vm \<Rightarrow> mmio_field \<Rightarrow> nat option" where
  "m_addr vm f = do { v \<leftarrow> vm_read_uint (vm_space vm) (vm_mmio vm f) (vm_addr_bits vm); Some (unat v) }"

definition m_num :: "vm \<Rightarrow> mmio_field \<Rightarrow> nat option" where
  "m_num vm f = do { v \<leftarrow> vm_read_uint (vm_space vm) (vm_mmio vm f) (vm_n_bits vm); Some (unat v) }"

definition m_put_addr :: "mmio_field \<Rightarrow> nat \<Rightarrow> vm \<Rightarrow> vm option" where
  "m_put_addr f v vm = on_space (\<lambda>m. vm_write_uint m (vm_mmio vm f) (vm_addr_bits vm) (of_nat v)) vm"

definition m_put_num :: "mmio_field \<Rightarrow> nat \<Rightarrow> vm \<Rightarrow> vm option" where
  "m_put_num f v vm = on_space (\<lambda>m. vm_write_uint m (vm_mmio vm f) (vm_n_bits vm) (of_nat v)) vm"

end
