(* ===== verification/Rv32.thy ===== *)
theory Rv32
  imports Vm
begin

text \<open>
  legacy/src/vm/rv32.c: the RV32I executor of the legacy machine. The guest's program counter,
  registers and memory are bytes of the space at the bit addresses \<open>0x1000\<close>, \<open>0x1200\<close> and
  \<open>0x2000\<close>; every step also appends a trace record. An \<open>int32_t\<close> is the word with its signed
  comparisons and shifts. Signed additions of the code that overflow are undefined in C; they
  are the wrapping additions here, which is what the casts around them ask for.
\<close>

section \<open>Little-endian accesses\<close>

definition rd_u32_le :: "mem \<Rightarrow> nat \<Rightarrow> u32 option" where
  "rd_u32_le sp bit_addr = do {
     let b = bit_addr div 8;
     b0 \<leftarrow> mem_get sp b;
     b1 \<leftarrow> mem_get sp (b + 1);
     b2 \<leftarrow> mem_get sp (b + 2);
     b3 \<leftarrow> mem_get sp (b + 3);
     Some (ucast b0 OR push_bit 8 (ucast b1) OR push_bit 16 (ucast b2) OR push_bit 24 (ucast b3))
   }"

definition rd_u16_le :: "mem \<Rightarrow> nat \<Rightarrow> u32 option" where
  "rd_u16_le sp bit_addr = do {
     let b = bit_addr div 8;
     b0 \<leftarrow> mem_get sp b;
     b1 \<leftarrow> mem_get sp (b + 1);
     Some (ucast b0 OR push_bit 8 (ucast b1))
   }"

definition rd_u8 :: "mem \<Rightarrow> nat \<Rightarrow> u32 option" where
  "rd_u8 sp bit_addr = do { b \<leftarrow> mem_get sp (bit_addr div 8); Some (ucast b) }"

definition wr_u32_le :: "nat \<Rightarrow> u32 \<Rightarrow> mem \<Rightarrow> mem option" where
  "wr_u32_le bit_addr v sp = do {
     let b = bit_addr div 8;
     sp \<leftarrow> mem_set sp b (ucast (v AND 0xFF));
     sp \<leftarrow> mem_set sp (b + 1) (ucast (drop_bit 8 v AND 0xFF));
     sp \<leftarrow> mem_set sp (b + 2) (ucast (drop_bit 16 v AND 0xFF));
     mem_set sp (b + 3) (ucast (drop_bit 24 v AND 0xFF))
   }"

definition wr_u16_le :: "nat \<Rightarrow> u32 \<Rightarrow> mem \<Rightarrow> mem option" where
  "wr_u16_le bit_addr v sp = do {
     let b = bit_addr div 8;
     sp \<leftarrow> mem_set sp b (ucast (v AND 0xFF));
     mem_set sp (b + 1) (ucast (drop_bit 8 v AND 0xFF))
   }"

definition wr_u8 :: "nat \<Rightarrow> u32 \<Rightarrow> mem \<Rightarrow> mem option" where
  "wr_u8 bit_addr v sp = mem_set sp (bit_addr div 8) (ucast v)"

section \<open>Sign extension\<close>

definition sext_imm12 :: "u32 \<Rightarrow> u32" where
  "sext_imm12 x = signed_drop_bit 20 (push_bit 20 x)"

definition sext_imm13 :: "u32 \<Rightarrow> u32" where
  "sext_imm13 x = signed_drop_bit 19 (push_bit 19 x)"

definition sext_imm21 :: "u32 \<Rightarrow> u32" where
  "sext_imm21 x = signed_drop_bit 11 (push_bit 11 x)"

definition sext_imm16 :: "u32 \<Rightarrow> u32" where
  "sext_imm16 x = signed_drop_bit 16 (push_bit 16 x)"

definition sext_imm8 :: "u32 \<Rightarrow> u32" where
  "sext_imm8 x = signed_drop_bit 24 (push_bit 24 x)"

section \<open>The trace\<close>

definition rv_trace_pack_meta :: "u32 \<Rightarrow> u32 \<Rightarrow> u32 \<Rightarrow> u32 \<Rightarrow> u32 \<Rightarrow> u32 \<Rightarrow> u32" where
  "rv_trace_pack_meta opcode funct3 funct7 rd rs1 rs2 =
     (opcode AND 0x7F) OR push_bit 7 (funct3 AND 0x7) OR push_bit 10 (funct7 AND 0x7F)
     OR push_bit 17 (rd AND 0x1F) OR push_bit 22 (rs1 AND 0x1F) OR push_bit 27 (rs2 AND 0x1F)"

definition rv_trace_pack_flags :: "bool \<Rightarrow> bool \<Rightarrow> bool \<Rightarrow> u32 \<Rightarrow> u32 \<Rightarrow> u32" where
  "rv_trace_pack_flags has_rd has_mem_write has_stop_reason mem_width_bytes stop_reason =
     (if has_rd then 1 else 0) OR (if has_mem_write then 2 else 0) OR (if has_stop_reason then 4 else 0)
     OR push_bit 8 (mem_width_bytes AND 0xFF) OR push_bit 16 (stop_reason AND 0xFF)"

definition rv32_trace_reset :: "vm \<Rightarrow> vm" where
  "rv32_trace_reset vm = vm\<lparr>rv_trace_records := [], rv_trace_dropped := 0\<rparr>"

definition rv32_trace_append :: "rv_trace_record \<Rightarrow> vm \<Rightarrow> vm" where
  "rv32_trace_append rec vm =
     (if length (rv_trace_records vm) < rv_trace_capacity vm
      then vm\<lparr>rv_trace_records := rv_trace_records vm @ [rec]\<rparr>
      else vm\<lparr>rv_trace_dropped := (rv_trace_dropped vm + 1) mod 2 ^ 32\<rparr>)"

section \<open>Stopping and committing\<close>

definition g_pc :: nat where "g_pc = 0x1000"

definition g_reg_base :: nat where "g_reg_base = 0x1200"

definition g_mem_base :: nat where "g_mem_base = 0x2000"

definition rv32_guest_stop :: "rv_stop_reason \<Rightarrow> vm \<Rightarrow> vm option" where
  "rv32_guest_stop reason vm = do {
     vm \<leftarrow> m_set Halt_bit True (vm\<lparr>rv_guest_stop_reason := reason\<rparr>);
     Some (vm\<lparr>rv_guest_running := False\<rparr>)
   }"

definition rv32_guest_commit :: "u32 \<Rightarrow> vm \<Rightarrow> vm option" where
  "rv32_guest_commit next_pc vm = do {
     vm \<leftarrow> on_space (wr_u32_le g_pc next_pc) vm;
     on_space (wr_u32_le (g_reg_base + 0) 0) vm
   }"

text \<open>\<open>None\<close> as the second result: the check failed and the guest was stopped.\<close>

definition rv32_addr_check :: "u32 \<Rightarrow> nat \<Rightarrow> nat \<Rightarrow> vm \<Rightarrow> (vm \<times> nat option) option" where
  "rv32_addr_check addr width_bytes align_bytes vm = do {
     let guest_addr = g_mem_base + unat addr * 8;
     if align_bytes > 1 \<and> addr AND of_nat (align_bytes - 1) \<noteq> 0
     then do { vm \<leftarrow> rv32_guest_stop RV_STOP_ALIGN vm; Some (vm, None) }
     else if guest_addr + width_bytes * 8 > vm_space_bits vm
     then do { vm \<leftarrow> rv32_guest_stop RV_STOP_BOUNDS vm; Some (vm, None) }
     else Some (vm, Some guest_addr)
   }"

text \<open>The stop of an instruction the executor does not know, and of a failed address check.\<close>

definition rv32_unsupported :: "rv_trace_record \<Rightarrow> vm \<Rightarrow> vm option" where
  "rv32_unsupported tr vm =
     rv32_guest_stop RV_STOP_UNSUPPORTED
       (rv32_trace_append (tr\<lparr>tr_flags := rv_trace_pack_flags False False True 0
         (of_nat (rv_stop_code RV_STOP_UNSUPPORTED))\<rparr>) vm)"

definition rv32_mem_fault :: "u32 \<Rightarrow> rv_trace_record \<Rightarrow> vm \<Rightarrow> vm" where
  "rv32_mem_fault width tr vm =
     rv32_trace_append (tr\<lparr>tr_flags := rv_trace_pack_flags False False True width
       (of_nat (rv_stop_code (rv_guest_stop_reason vm)))\<rparr>) vm"

section \<open>Registers\<close>

definition rv_reg_get :: "vm \<Rightarrow> u32 \<Rightarrow> u32 option" where
  "rv_reg_get vm r = rd_u32_le (vm_space vm) (g_reg_base + unat r * 32)"

definition rv_reg_put :: "u32 \<Rightarrow> u32 \<Rightarrow> vm \<Rightarrow> vm option" where
  "rv_reg_put rd v vm = (if rd \<noteq> 0 then on_space (wr_u32_le (g_reg_base + unat rd * 32) v) vm else Some vm)"

text \<open>The common end of the instructions that write a register.\<close>

definition rv32_write_rd :: "u32 \<Rightarrow> u32 \<Rightarrow> u32 \<Rightarrow> u32 \<Rightarrow> rv_trace_record \<Rightarrow> vm \<Rightarrow> vm option" where
  "rv32_write_rd rd v width next_pc tr vm = do {
     vm \<leftarrow> rv_reg_put rd v vm;
     let tr = tr\<lparr>tr_rd_value := v, tr_flags := rv_trace_pack_flags (rd \<noteq> 0) False False width 0\<rparr>;
     rv32_guest_commit next_pc (rv32_trace_append tr vm)
   }"

section \<open>Instructions\<close>

definition rv32_lui :: "u32 \<Rightarrow> u32 \<Rightarrow> rv_trace_record \<Rightarrow> vm \<Rightarrow> vm option" where
  "rv32_lui pc insn tr vm = do {
     let rd = drop_bit 7 insn AND 0x1F;
     let imm = insn AND 0xFFFFF000;
     let tr = tr\<lparr>tr_imm := imm, tr_meta := rv_trace_pack_meta (insn AND 0x7F) 0 0 rd 0 0\<rparr>;
     rv32_write_rd rd imm 0 (pc + 4) tr vm
   }"

definition rv32_auipc :: "u32 \<Rightarrow> u32 \<Rightarrow> rv_trace_record \<Rightarrow> vm \<Rightarrow> vm option" where
  "rv32_auipc pc insn tr vm = do {
     let rd = drop_bit 7 insn AND 0x1F;
     let imm = insn AND 0xFFFFF000;
     let tr = tr\<lparr>tr_imm := imm, tr_meta := rv_trace_pack_meta (insn AND 0x7F) 0 0 rd 0 0\<rparr>;
     rv32_write_rd rd (pc + imm) 0 (pc + 4) tr vm
   }"

text \<open>The value of an OP-IMM instruction; \<open>None\<close>: unsupported.\<close>

definition rv32_imm_value :: "u32 \<Rightarrow> u32 \<Rightarrow> u32 \<Rightarrow> u32 \<Rightarrow> u32 option" where
  "rv32_imm_value insn funct3 rs1v imm =
     (let funct7 = drop_bit 25 insn AND 0x7F; shamt = unat (drop_bit 20 insn AND 0x1F) in
      if funct3 = 0 then Some (rs1v + imm)
      else if funct3 = 2 then Some (if rs1v <s imm then 1 else 0)
      else if funct3 = 3 then Some (if rs1v < imm then 1 else 0)
      else if funct3 = 4 then Some (rs1v XOR imm)
      else if funct3 = 6 then Some (rs1v OR imm)
      else if funct3 = 7 then Some (rs1v AND imm)
      else if funct3 = 1 then (if drop_bit 25 insn \<noteq> 0 then None else Some (push_bit shamt rs1v))
      else if funct3 = 5 then
        (if funct7 = 0x00 then Some (drop_bit shamt rs1v)
         else if funct7 = 0x20 then Some (signed_drop_bit shamt rs1v)
         else None)
      else None)"

definition rv32_op_imm :: "u32 \<Rightarrow> u32 \<Rightarrow> rv_trace_record \<Rightarrow> vm \<Rightarrow> vm option" where
  "rv32_op_imm pc insn tr vm = do {
     let funct3 = drop_bit 12 insn AND 0x7;
     let rd = drop_bit 7 insn AND 0x1F;
     let rs1 = drop_bit 15 insn AND 0x1F;
     let imm = sext_imm12 (drop_bit 20 insn);
     let funct7 = drop_bit 25 insn AND 0x7F;
     rs1v \<leftarrow> rv_reg_get vm rs1;
     let tr = tr\<lparr>tr_imm := imm, tr_meta := rv_trace_pack_meta (insn AND 0x7F) funct3 funct7 rd rs1 0\<rparr>;
     case rv32_imm_value insn funct3 rs1v imm of
       None \<Rightarrow> rv32_unsupported tr vm
     | Some rdv \<Rightarrow> rv32_write_rd rd rdv 0 (pc + 4) tr vm
   }"

definition rv32_op_value :: "u32 \<Rightarrow> u32 \<Rightarrow> u32 \<Rightarrow> u32 \<Rightarrow> u32 option" where
  "rv32_op_value funct7 funct3 a b =
     (if funct7 = 0x00 \<and> funct3 = 0 then Some (a + b)
      else if funct7 = 0x20 \<and> funct3 = 0 then Some (a - b)
      else if funct7 = 0x00 \<and> funct3 = 1 then Some (push_bit (unat (b AND 0x1F)) a)
      else if funct7 = 0x00 \<and> funct3 = 2 then Some (if a <s b then 1 else 0)
      else if funct7 = 0x00 \<and> funct3 = 3 then Some (if a < b then 1 else 0)
      else if funct7 = 0x00 \<and> funct3 = 4 then Some (a XOR b)
      else if funct7 = 0x00 \<and> funct3 = 5 then Some (drop_bit (unat (b AND 0x1F)) a)
      else if funct7 = 0x20 \<and> funct3 = 5 then Some (signed_drop_bit (unat (b AND 0x1F)) a)
      else if funct7 = 0x00 \<and> funct3 = 6 then Some (a OR b)
      else if funct7 = 0x00 \<and> funct3 = 7 then Some (a AND b)
      else None)"

definition rv32_op :: "u32 \<Rightarrow> u32 \<Rightarrow> rv_trace_record \<Rightarrow> vm \<Rightarrow> vm option" where
  "rv32_op pc insn tr vm = do {
     let funct3 = drop_bit 12 insn AND 0x7;
     let funct7 = drop_bit 25 insn AND 0x7F;
     let rd = drop_bit 7 insn AND 0x1F;
     let rs1 = drop_bit 15 insn AND 0x1F;
     let rs2 = drop_bit 20 insn AND 0x1F;
     a \<leftarrow> rv_reg_get vm rs1;
     b \<leftarrow> rv_reg_get vm rs2;
     let tr = tr\<lparr>tr_meta := rv_trace_pack_meta (insn AND 0x7F) funct3 funct7 rd rs1 rs2\<rparr>;
     case rv32_op_value funct7 funct3 a b of
       None \<Rightarrow> rv32_unsupported tr vm
     | Some rdv \<Rightarrow> rv32_write_rd rd rdv 0 (pc + 4) tr vm
   }"

text \<open>
  Loads: the width (also the alignment) of each \<open>funct3\<close> and the value read. The unsigned byte
  and half-word loads share their widths with the signed ones.
\<close>

definition rv32_load_width :: "u32 \<Rightarrow> nat option" where
  "rv32_load_width funct3 =
     (if funct3 = 0 then Some 1 else if funct3 = 1 then Some 2 else if funct3 = 2 then Some 4
      else if funct3 = 4 then Some 1 else if funct3 = 5 then Some 2 else None)"

definition rv32_load_value :: "u32 \<Rightarrow> mem \<Rightarrow> nat \<Rightarrow> u32 option" where
  "rv32_load_value funct3 sp ga =
     (if funct3 = 0 then do { v \<leftarrow> rd_u8 sp ga; Some (sext_imm8 v) }
      else if funct3 = 1 then do { v \<leftarrow> rd_u16_le sp ga; Some (sext_imm16 v) }
      else if funct3 = 2 then rd_u32_le sp ga
      else if funct3 = 4 then rd_u8 sp ga
      else rd_u16_le sp ga)"

definition rv32_load :: "u32 \<Rightarrow> u32 \<Rightarrow> rv_trace_record \<Rightarrow> vm \<Rightarrow> vm option" where
  "rv32_load pc insn tr vm = do {
     let funct3 = drop_bit 12 insn AND 0x7;
     let rd = drop_bit 7 insn AND 0x1F;
     let rs1 = drop_bit 15 insn AND 0x1F;
     let imm = sext_imm12 (drop_bit 20 insn);
     base \<leftarrow> rv_reg_get vm rs1;
     let addr = base + imm;
     let tr = tr\<lparr>tr_imm := imm, tr_meta := rv_trace_pack_meta (insn AND 0x7F) funct3 0 rd rs1 0\<rparr>;
     case rv32_load_width funct3 of
       None \<Rightarrow> rv32_unsupported tr vm
     | Some w \<Rightarrow> do {
         (vm, ga) \<leftarrow> rv32_addr_check addr w w vm;
         case ga of
           None \<Rightarrow> Some (rv32_mem_fault (of_nat w) tr vm)
         | Some ga \<Rightarrow> do {
             v \<leftarrow> rv32_load_value funct3 (vm_space vm) ga;
             rv32_write_rd rd v (if funct3 = 1 \<or> funct3 = 5 then 2 else if funct3 = 2 then 4 else 1)
               (pc + 4) tr vm
           }
       }
   }"

definition rv32_store_width :: "u32 \<Rightarrow> nat option" where
  "rv32_store_width funct3 =
     (if funct3 = 0 then Some 1 else if funct3 = 1 then Some 2 else if funct3 = 2 then Some 4 else None)"

definition rv32_store_value :: "u32 \<Rightarrow> nat \<Rightarrow> u32 \<Rightarrow> mem \<Rightarrow> mem option" where
  "rv32_store_value funct3 ga v =
     (if funct3 = 0 then wr_u8 ga (v AND 0xFF)
      else if funct3 = 1 then wr_u16_le ga (v AND 0xFFFF)
      else wr_u32_le ga v)"

definition rv32_store :: "u32 \<Rightarrow> u32 \<Rightarrow> rv_trace_record \<Rightarrow> vm \<Rightarrow> vm option" where
  "rv32_store pc insn tr vm = do {
     let funct3 = drop_bit 12 insn AND 0x7;
     let rs1 = drop_bit 15 insn AND 0x1F;
     let rs2 = drop_bit 20 insn AND 0x1F;
     let imm_u = (drop_bit 7 insn AND 0x1F) OR push_bit 5 (drop_bit 25 insn AND 0x7F);
     let imm = sext_imm12 imm_u;
     base \<leftarrow> rv_reg_get vm rs1;
     let addr = base + imm;
     v \<leftarrow> rv_reg_get vm rs2;
     let tr = tr\<lparr>tr_imm := imm, tr_meta := rv_trace_pack_meta (insn AND 0x7F) funct3 0 0 rs1 rs2\<rparr>;
     case rv32_store_width funct3 of
       None \<Rightarrow> rv32_unsupported tr vm
     | Some w \<Rightarrow> do {
         (vm, ga) \<leftarrow> rv32_addr_check addr w w vm;
         case ga of
           None \<Rightarrow> Some (rv32_mem_fault (of_nat w) tr vm)
         | Some ga \<Rightarrow> do {
             vm \<leftarrow> on_space (rv32_store_value funct3 ga v) vm;
             let tr = tr\<lparr>tr_mem_addr := addr, tr_mem_value := v,
               tr_flags := rv_trace_pack_flags False True False (of_nat w) 0\<rparr>;
             rv32_guest_commit (pc + 4) (rv32_trace_append tr vm)
           }
       }
   }"

definition rv32_take :: "u32 \<Rightarrow> u32 \<Rightarrow> u32 \<Rightarrow> bool option" where
  "rv32_take funct3 a b =
     (if funct3 = 0 then Some (a = b)
      else if funct3 = 1 then Some (a \<noteq> b)
      else if funct3 = 4 then Some (a <s b)
      else if funct3 = 5 then Some (b \<le>s a)
      else if funct3 = 6 then Some (a < b)
      else if funct3 = 7 then Some (a \<ge> b)
      else None)"

definition rv32_branch :: "u32 \<Rightarrow> u32 \<Rightarrow> rv_trace_record \<Rightarrow> vm \<Rightarrow> vm option" where
  "rv32_branch pc insn tr vm = do {
     let funct3 = drop_bit 12 insn AND 0x7;
     let rs1 = drop_bit 15 insn AND 0x1F;
     let rs2 = drop_bit 20 insn AND 0x1F;
     let imm_u = push_bit 12 (drop_bit 31 insn AND 0x1) OR push_bit 11 (drop_bit 7 insn AND 0x1)
       OR push_bit 5 (drop_bit 25 insn AND 0x3F) OR push_bit 1 (drop_bit 8 insn AND 0xF);
     let imm = sext_imm13 imm_u;
     a \<leftarrow> rv_reg_get vm rs1;
     b \<leftarrow> rv_reg_get vm rs2;
     let tr = tr\<lparr>tr_imm := imm, tr_meta := rv_trace_pack_meta (insn AND 0x7F) funct3 0 0 rs1 rs2\<rparr>;
     case rv32_take funct3 a b of
       None \<Rightarrow> rv32_unsupported tr vm
     | Some taken \<Rightarrow> do {
         let tr = tr\<lparr>tr_flags := rv_trace_pack_flags False False False 0 0\<rparr>;
         rv32_guest_commit (if taken then pc + imm else pc + 4) (rv32_trace_append tr vm)
       }
   }"

definition rv32_jal :: "u32 \<Rightarrow> u32 \<Rightarrow> rv_trace_record \<Rightarrow> vm \<Rightarrow> vm option" where
  "rv32_jal pc insn tr vm = do {
     let rd = drop_bit 7 insn AND 0x1F;
     let imm_u = push_bit 20 (drop_bit 31 insn AND 0x1) OR push_bit 12 (drop_bit 12 insn AND 0xFF)
       OR push_bit 11 (drop_bit 20 insn AND 0x1) OR push_bit 1 (drop_bit 21 insn AND 0x3FF);
     let imm = sext_imm21 imm_u;
     let tr = tr\<lparr>tr_imm := imm, tr_meta := rv_trace_pack_meta (insn AND 0x7F) 0 0 rd 0 0\<rparr>;
     rv32_write_rd rd (pc + 4) 0 (pc + imm) tr vm
   }"

definition rv32_jalr :: "u32 \<Rightarrow> u32 \<Rightarrow> rv_trace_record \<Rightarrow> vm \<Rightarrow> vm option" where
  "rv32_jalr pc insn tr vm = do {
     let rd = drop_bit 7 insn AND 0x1F;
     let rs1 = drop_bit 15 insn AND 0x1F;
     let funct3 = drop_bit 12 insn AND 0x7;
     let imm = sext_imm12 (drop_bit 20 insn);
     base \<leftarrow> rv_reg_get vm rs1;
     let target = (base + imm) AND NOT 1;
     let tr = tr\<lparr>tr_imm := imm, tr_meta := rv_trace_pack_meta (insn AND 0x7F) funct3 0 rd rs1 0\<rparr>;
     if funct3 \<noteq> 0 then rv32_unsupported tr vm
     else rv32_write_rd rd (pc + 4) 0 target tr vm
   }"

section \<open>A step\<close>

definition rv_empty_record :: rv_trace_record where
  "rv_empty_record = \<lparr>tr_step = 0, tr_pc = 0, tr_instr = 0, tr_imm = 0, tr_rd_value = 0,
     tr_mem_addr = 0, tr_mem_value = 0, tr_meta = 0, tr_flags = 0\<rparr>"

definition rv32_execute :: "u32 \<Rightarrow> u32 \<Rightarrow> rv_trace_record \<Rightarrow> vm \<Rightarrow> vm option" where
  "rv32_execute pc insn tr vm =
     (let opcode = insn AND 0x7F in
      if opcode = 0x37 then rv32_lui pc insn tr vm
      else if opcode = 0x17 then rv32_auipc pc insn tr vm
      else if opcode = 0x13 then rv32_op_imm pc insn tr vm
      else if opcode = 0x33 then rv32_op pc insn tr vm
      else if opcode = 0x03 then rv32_load pc insn tr vm
      else if opcode = 0x23 then rv32_store pc insn tr vm
      else if opcode = 0x63 then rv32_branch pc insn tr vm
      else if opcode = 0x6F then rv32_jal pc insn tr vm
      else if opcode = 0x67 then rv32_jalr pc insn tr vm
      else rv32_unsupported tr vm)"

definition rv32_guest_step :: "vm \<Rightarrow> vm option" where
  "rv32_guest_step vm = do {
     pc \<leftarrow> rd_u32_le (vm_space vm) g_pc;
     let insn_addr = g_mem_base + unat pc * 8;
     let tr = rv_empty_record\<lparr>tr_pc := pc, tr_step := of_nat (rv_guest_steps vm)\<rparr>;
     if insn_addr + 32 > vm_space_bits vm
     then rv32_guest_stop RV_STOP_BOUNDS
       (rv32_trace_append (tr\<lparr>tr_flags := rv_trace_pack_flags False False True 0
          (of_nat (rv_stop_code RV_STOP_BOUNDS))\<rparr>) vm)
     else do {
       insn \<leftarrow> rd_u32_le (vm_space vm) insn_addr;
       let tr = tr\<lparr>tr_instr := insn\<rparr>;
       if insn = 0
       then rv32_guest_stop RV_STOP_HALT
         (rv32_trace_append (tr\<lparr>tr_flags := rv_trace_pack_flags False False True 0
            (of_nat (rv_stop_code RV_STOP_HALT))\<rparr>) vm)
       else do {
         let vm = vm\<lparr>rv_guest_steps := (rv_guest_steps vm + 1) mod 2 ^ 64\<rparr>;
         let tr = tr\<lparr>tr_step := of_nat (rv_guest_steps vm)\<rparr>;
         rv32_execute pc insn tr vm
       }
     }
   }"

end
