(* ===== verification/Rv32Spec.thy ===== *)
theory Rv32Spec
  imports Prelude Vm
begin

text \<open>
  The RV32I base instruction set as an abstract machine: program counter, 32 registers with a
  constant zero, a byte memory; instructions as a datatype, decoding by fields of their own
  width, execution by one equation per instruction. It is the specification \<open>rv32_guest_step\<close>
  is measured against. Conventions of the executor that are not part of the instruction set:
  the all-zero word halts, unknown instructions stop, and the program counter may be any
  address inside the memory.
\<close>

type_synonym reg = "5 word"

datatype alu_op = Alu_add | Alu_sub | Alu_sll | Alu_slt | Alu_sltu | Alu_xor | Alu_srl | Alu_sra | Alu_or | Alu_and

datatype branch_cond = Beq | Bne | Blt | Bge | Bltu | Bgeu

datatype rv_insn =
    Lui reg u32
  | Auipc reg u32
  | Alu_imm alu_op reg reg u32
  | Alu_reg alu_op reg reg reg
  | Load_mem nat bool reg reg u32
  | Store_mem nat reg reg u32
  | Branch_if branch_cond reg reg u32
  | Jal reg u32
  | Jalr reg reg u32

section \<open>Decoding\<close>

definition rv_opcode :: "u32 \<Rightarrow> 7 word" where "rv_opcode w = ucast w"
definition rv_rd :: "u32 \<Rightarrow> reg" where "rv_rd w = ucast (drop_bit 7 w)"
definition rv_rs1 :: "u32 \<Rightarrow> reg" where "rv_rs1 w = ucast (drop_bit 15 w)"
definition rv_rs2 :: "u32 \<Rightarrow> reg" where "rv_rs2 w = ucast (drop_bit 20 w)"
definition rv_funct3 :: "u32 \<Rightarrow> 3 word" where "rv_funct3 w = ucast (drop_bit 12 w)"
definition rv_funct7 :: "u32 \<Rightarrow> 7 word" where "rv_funct7 w = ucast (drop_bit 25 w)"

definition imm_I :: "u32 \<Rightarrow> u32" where
  "imm_I w = scast (ucast (drop_bit 20 w) :: 12 word)"

definition imm_S :: "u32 \<Rightarrow> u32" where
  "imm_S w = scast (word_cat (rv_funct7 w) (rv_rd w) :: 12 word)"

definition imm_B :: "u32 \<Rightarrow> u32" where
  "imm_B w = scast (word_cat (word_cat (ucast (drop_bit 31 w) :: 1 word) (ucast (drop_bit 7 w) :: 1 word) :: 2 word)
     (word_cat (ucast (drop_bit 25 w) :: 6 word) (word_cat (ucast (drop_bit 8 w) :: 4 word) (0 :: 1 word) :: 5 word) :: 11 word) :: 13 word)"

definition imm_U :: "u32 \<Rightarrow> u32" where
  "imm_U w = push_bit 12 (ucast (ucast (drop_bit 12 w) :: 20 word))"

definition imm_J :: "u32 \<Rightarrow> u32" where
  "imm_J w = scast (word_cat (word_cat (ucast (drop_bit 31 w) :: 1 word) (ucast (drop_bit 12 w) :: 8 word) :: 9 word)
     (word_cat (ucast (drop_bit 20 w) :: 1 word) (word_cat (ucast (drop_bit 21 w) :: 10 word) (0 :: 1 word) :: 11 word) :: 12 word) :: 21 word)"

definition decode_alu_imm :: "3 word \<Rightarrow> 7 word \<Rightarrow> alu_op option" where
  "decode_alu_imm f3 f7 =
     (if f3 = 0 then Some Alu_add
      else if f3 = 1 then (if f7 = 0 then Some Alu_sll else None)
      else if f3 = 2 then Some Alu_slt
      else if f3 = 3 then Some Alu_sltu
      else if f3 = 4 then Some Alu_xor
      else if f3 = 5 then (if f7 = 0 then Some Alu_srl else if f7 = 0x20 then Some Alu_sra else None)
      else if f3 = 6 then Some Alu_or
      else Some Alu_and)"

definition decode_alu_reg :: "3 word \<Rightarrow> 7 word \<Rightarrow> alu_op option" where
  "decode_alu_reg f3 f7 =
     (if f7 = 0x20 then (if f3 = 0 then Some Alu_sub else if f3 = 5 then Some Alu_sra else None)
      else if f7 = 0 then Some
        (if f3 = 0 then Alu_add else if f3 = 1 then Alu_sll else if f3 = 2 then Alu_slt
         else if f3 = 3 then Alu_sltu else if f3 = 4 then Alu_xor else if f3 = 5 then Alu_srl
         else if f3 = 6 then Alu_or else Alu_and)
      else None)"

definition decode_load :: "3 word \<Rightarrow> (nat \<times> bool) option" where
  "decode_load f3 =
     (if f3 = 0 then Some (1, True) else if f3 = 1 then Some (2, True) else if f3 = 2 then Some (4, False)
      else if f3 = 4 then Some (1, False) else if f3 = 5 then Some (2, False) else None)"

definition decode_store :: "3 word \<Rightarrow> nat option" where
  "decode_store f3 = (if f3 = 0 then Some 1 else if f3 = 1 then Some 2 else if f3 = 2 then Some 4 else None)"

definition decode_branch :: "3 word \<Rightarrow> branch_cond option" where
  "decode_branch f3 =
     (if f3 = 0 then Some Beq else if f3 = 1 then Some Bne else if f3 = 4 then Some Blt
      else if f3 = 5 then Some Bge else if f3 = 6 then Some Bltu else if f3 = 7 then Some Bgeu else None)"

definition rv_decode :: "u32 \<Rightarrow> rv_insn option" where
  "rv_decode w =
     (let opc = rv_opcode w; rd = rv_rd w; rs1 = rv_rs1 w; rs2 = rv_rs2 w; f3 = rv_funct3 w; f7 = rv_funct7 w in
      if opc = 0x37 then Some (Lui rd (imm_U w))
      else if opc = 0x17 then Some (Auipc rd (imm_U w))
      else if opc = 0x13 then map_option (\<lambda>a. Alu_imm a rd rs1 (imm_I w)) (decode_alu_imm f3 f7)
      else if opc = 0x33 then map_option (\<lambda>a. Alu_reg a rd rs1 rs2) (decode_alu_reg f3 f7)
      else if opc = 0x03 then map_option (\<lambda>(n, signed_read). Load_mem n signed_read rd rs1 (imm_I w)) (decode_load f3)
      else if opc = 0x23 then map_option (\<lambda>n. Store_mem n rs1 rs2 (imm_S w)) (decode_store f3)
      else if opc = 0x63 then map_option (\<lambda>c. Branch_if c rs1 rs2 (imm_B w)) (decode_branch f3)
      else if opc = 0x6F then Some (Jal rd (imm_J w))
      else if opc = 0x67 then (if f3 = 0 then Some (Jalr rd rs1 (imm_I w)) else None)
      else None)"

section \<open>Execution\<close>

record rv_state =
  rv_pc :: u32
  rv_regs :: "reg \<Rightarrow> u32"
  rv_mem :: mem

datatype rv_result = Rv_next rv_state | Rv_stop rv_stop_reason

definition le_word :: "mem \<Rightarrow> u32" where
  "le_word bs = foldr (\<lambda>b w. ucast b OR push_bit 8 w) bs 0"

definition le_bytes :: "nat \<Rightarrow> u32 \<Rightarrow> mem" where
  "le_bytes n v = map (\<lambda>k. ucast (drop_bit (8 * k) v)) [0..<n]"

definition put_bytes :: "mem \<Rightarrow> nat \<Rightarrow> mem \<Rightarrow> mem" where
  "put_bytes m a bs = take a m @ bs @ drop (a + length bs) m"

definition rv_alu :: "alu_op \<Rightarrow> u32 \<Rightarrow> u32 \<Rightarrow> u32" where
  "rv_alu a x y = (case a of
     Alu_add \<Rightarrow> x + y | Alu_sub \<Rightarrow> x - y
   | Alu_sll \<Rightarrow> push_bit (unat (ucast y :: 5 word)) x
   | Alu_slt \<Rightarrow> of_bool (sint x < sint y) | Alu_sltu \<Rightarrow> of_bool (unat x < unat y)
   | Alu_xor \<Rightarrow> x XOR y
   | Alu_srl \<Rightarrow> drop_bit (unat (ucast y :: 5 word)) x
   | Alu_sra \<Rightarrow> word_of_int (sint x div 2 ^ unat (ucast y :: 5 word))
   | Alu_or \<Rightarrow> x OR y | Alu_and \<Rightarrow> x AND y)"

definition rv_cond :: "branch_cond \<Rightarrow> u32 \<Rightarrow> u32 \<Rightarrow> bool" where
  "rv_cond c x y = (case c of
     Beq \<Rightarrow> x = y | Bne \<Rightarrow> x \<noteq> y | Blt \<Rightarrow> sint x < sint y | Bge \<Rightarrow> sint x \<ge> sint y
   | Bltu \<Rightarrow> unat x < unat y | Bgeu \<Rightarrow> unat x \<ge> unat y)"

definition rv_set :: "reg \<Rightarrow> u32 \<Rightarrow> rv_state \<Rightarrow> rv_state" where
  "rv_set r v st = (if r = 0 then st else st\<lparr>rv_regs := (rv_regs st)(r := v)\<rparr>)"

definition rv_jump :: "u32 \<Rightarrow> rv_state \<Rightarrow> rv_result" where
  "rv_jump target st = Rv_next (st\<lparr>rv_pc := target\<rparr>)"

definition rv_access :: "rv_state \<Rightarrow> u32 \<Rightarrow> nat \<Rightarrow> rv_result \<Rightarrow> rv_result" where
  "rv_access st a n r =
     (if unat a mod n \<noteq> 0 then Rv_stop RV_STOP_ALIGN
      else if unat a + n > length (rv_mem st) then Rv_stop RV_STOP_BOUNDS
      else r)"

definition rv_loaded :: "rv_state \<Rightarrow> u32 \<Rightarrow> nat \<Rightarrow> bool \<Rightarrow> u32" where
  "rv_loaded st a n signed_read =
     (let v = le_word (take n (drop (unat a) (rv_mem st)))
      in if signed_read then signed_take_bit (8 * n - 1) v else v)"

fun rv_exec :: "rv_insn \<Rightarrow> rv_state \<Rightarrow> rv_result" where
  "rv_exec (Lui rd imm) st = rv_jump (rv_pc st + 4) (rv_set rd imm st)"
| "rv_exec (Auipc rd imm) st = rv_jump (rv_pc st + 4) (rv_set rd (rv_pc st + imm) st)"
| "rv_exec (Alu_imm a rd rs1 imm) st = rv_jump (rv_pc st + 4) (rv_set rd (rv_alu a (rv_regs st rs1) imm) st)"
| "rv_exec (Alu_reg a rd rs1 rs2) st =
     rv_jump (rv_pc st + 4) (rv_set rd (rv_alu a (rv_regs st rs1) (rv_regs st rs2)) st)"
| "rv_exec (Load_mem n signed_read rd rs1 imm) st =
     (let a = rv_regs st rs1 + imm in
      rv_access st a n (rv_jump (rv_pc st + 4) (rv_set rd (rv_loaded st a n signed_read) st)))"
| "rv_exec (Store_mem n rs1 rs2 imm) st =
     (let a = rv_regs st rs1 + imm in
      rv_access st a n (rv_jump (rv_pc st + 4)
        (st\<lparr>rv_mem := put_bytes (rv_mem st) (unat a) (le_bytes n (rv_regs st rs2))\<rparr>)))"
| "rv_exec (Branch_if c rs1 rs2 imm) st =
     rv_jump (if rv_cond c (rv_regs st rs1) (rv_regs st rs2) then rv_pc st + imm else rv_pc st + 4) st"
| "rv_exec (Jal rd imm) st = rv_jump (rv_pc st + imm) (rv_set rd (rv_pc st + 4) st)"
| "rv_exec (Jalr rd rs1 imm) st = rv_jump ((rv_regs st rs1 + imm) AND NOT 1) (rv_set rd (rv_pc st + 4) st)"

definition rv_step :: "rv_state \<Rightarrow> rv_result" where
  "rv_step st =
     (if unat (rv_pc st) + 4 > length (rv_mem st) then Rv_stop RV_STOP_BOUNDS
      else let w = le_word (take 4 (drop (unat (rv_pc st)) (rv_mem st))) in
        if w = 0 then Rv_stop RV_STOP_HALT
        else case rv_decode w of
          None \<Rightarrow> Rv_stop RV_STOP_UNSUPPORTED
        | Some i \<Rightarrow> rv_exec i st)"

end
