(* ===== verification/VmMailbox.thy ===== *)
theory VmMailbox
  imports Vm
begin

text \<open>
  The accessors of the legacy machine meet the interfaces of the bit and field stores, the
  mailbox layout keeps its fields apart, and \<open>vm_init\<close> establishes the well-formedness every
  operation relies on.
\<close>

section \<open>Bits and fields\<close>

lemma vm_bit_get_eq: "vm_bit_get = bit_get_ptr"
  by (simp add: fun_eq_iff vm_bit_get_def bit_get_ptr_def)

lemma vm_bit_set_eq: "vm_bit_set = bit_set_ptr"
  by (simp add: fun_eq_iff vm_bit_set_def bit_set_ptr_def)

interpretation vm_bits: bit_store vm_bit_set vm_bit_get
  unfolding vm_bit_get_eq vm_bit_set_eq by unfold_locales

lemma push_or_bit: "bit (push_bit 1 v OR ucast (of_bool b :: u32)) j \<longleftrightarrow> j < 64 \<and> (if j = 0 then b else bit v (j - 1))"
  for v :: u64
  unfolding bit_or_iff bit_push_bit_iff
  by (cases j) (auto simp: bit_simps of_bool_def dest: bit_imp_le_length)

lemma vm_read_uint_field:
  assumes "w \<le> 64" and "at + w \<le> 8 * length m"
  shows "vm_read_uint m at w = Some (word_field msb_first (bit_at m) at w)"
proof -
  let ?body = "\<lambda>i v :: u64. do { b \<leftarrow> vm_bit_get m (at + i); Some (push_bit 1 v OR ucast b) }"
  let ?g = "\<lambda>i. word_field msb_first (bit_at m) at i :: u64"
  have step: "push_bit 1 (?g i) OR ucast (of_bool (bit_at m (at + i)) :: u32) = ?g (Suc i)" if "i < w" for i
  proof (rule bit_word_eqI)
    fix j assume "j < LENGTH(64)"
    then have j: "j < 64" by simp
    show "bit (push_bit 1 (?g i) OR ucast (of_bool (bit_at m (at + i)) :: u32)) j \<longleftrightarrow> bit (?g (Suc i)) j"
    proof (cases j)
      case 0
      then show ?thesis by (subst push_or_bit) (simp add: bit_word_field msb_first_def)
    next
      case (Suc k)
      then show ?thesis
        using j by (subst push_or_bit) (auto simp: bit_word_field msb_first_def)
    qed
  qed
  have "for_up ?body 0 w (0 :: u64) = Some (?g (0 + w))"
  proof (rule for_up_Some)
    fix i assume "0 \<le> i" "i < 0 + w"
    then show "?body i (?g i) = Some (?g (Suc i))"
      using vm_bits.getb_bit [of "at + i" m] assms(2) step [of i] by simp
  qed (simp add: word_field_def)
  then show ?thesis using assms(1) by (simp add: vm_read_uint_def word_field_def)
qed

interpretation vm_fields: field_codec "\<lambda>at v w m. vm_write_uint m at w v" vm_read_uint msb_first 64
proof unfold_locales
  fix at w :: nat and m :: mem and v :: u64
  assume w: "w \<le> 64" and range: "at + w \<le> 8 * length m"
  have "(ucast (drop_bit (w - 1 - i) v AND 1) :: u32) \<noteq> 0 \<longleftrightarrow> bit v (w - 1 - i)" for i
    by (simp add: drop_bit_and_1)
  then have "yields (for_up (\<lambda>i sp. vm_bit_set sp (at + i) (ucast (drop_bit (w - 1 - i) v AND 1))) 0 w m)
      (length m) (blit w 0 at (\<lambda>i. bit v (msb_first w i)) (bit_at m))"
    using vm_bits.write_loop [OF range, of "\<lambda>i. ucast (drop_bit (w - 1 - i) v AND 1)"] by (simp add: msb_first_def)
  then show "yields (vm_write_uint m at w v) (length m) (blit w 0 at (\<lambda>i. bit v (msb_first w i)) (bit_at m))"
    using w by (auto simp: vm_write_uint_def yields_def)
next
  fix at w :: nat and m :: mem
  assume "w \<le> 64" and "at + w \<le> 8 * length m"
  then show "vm_read_uint m at w = Some (word_field msb_first (bit_at m) at w)"
    by (rule vm_read_uint_field)
qed (auto intro: msb_first_less msb_first_involution)

section \<open>Placing fields one behind the other\<close>

lemma mmio_place_other: "f \<notin> fst ` set fs \<Longrightarrow> fst (mmio_place fs p l) f = l f"
  by (induction fs arbitrary: p l) auto

lemma mmio_place_end: "snd (mmio_place fs p l) = p + sum_list (map snd fs)"
  by (induction fs arbitrary: p l) auto

lemma mmio_place_range:
  assumes "distinct (map fst fs)" and "(f, w) \<in> set fs"
  shows "p \<le> fst (mmio_place fs p l) f \<and> fst (mmio_place fs p l) f + w \<le> p + sum_list (map snd fs)"
  using assms
proof (induction fs arbitrary: p l)
  case (Cons e fs)
  obtain f' w' where e: "e = (f', w')" by (cases e)
  note prems = Cons.prems [unfolded e]
  show ?case
  proof (cases "f = f'")
    case True
    then have "f \<notin> fst ` set fs" using prems(1) by simp
    moreover have "w = w'" using prems True by (auto simp: image_iff)
    ultimately show ?thesis using True by (simp add: e mmio_place_other)
  next
    case False
    have "p + w' \<le> fst (mmio_place fs (p + w') (l(f' := p))) f
        \<and> fst (mmio_place fs (p + w') (l(f' := p))) f + w \<le> p + w' + sum_list (map snd fs)"
      by (rule Cons.IH) (use Cons.prems False in \<open>simp_all add: e\<close>)
    then show ?thesis unfolding e mmio_place.simps list.map sum_list.Cons snd_conv by linarith
  qed
qed simp

lemma mmio_place_disjoint:
  assumes "distinct (map fst fs)" and "(f, w) \<in> set fs" and "(g, u) \<in> set fs" and "f \<noteq> g"
  shows "fst (mmio_place fs p l) f + w \<le> fst (mmio_place fs p l) g
    \<or> fst (mmio_place fs p l) g + u \<le> fst (mmio_place fs p l) f"
  using assms
proof (induction fs arbitrary: p l)
  case (Cons e fs)
  obtain f' w' where e: "e = (f', w')" by (cases e)
  note prems = Cons.prems [unfolded e]
  have tail: "(h, x) \<in> set fs \<Longrightarrow> p + w' \<le> fst (mmio_place fs (p + w') (l(f' := p))) h" for h x
    using mmio_place_range [of fs h x "p + w'" "l(f' := p)"] prems(1) by simp
  have head: "f' \<notin> fst ` set fs" using prems(1) by simp
  have at: "fst (mmio_place fs (p + w') (l(f' := p))) f' = p"
    using mmio_place_other [OF head] by simp
  consider "f = f'" "w = w'" | "g = f'" "u = w'" | "(f, w) \<in> set fs" "(g, u) \<in> set fs"
    using prems by auto
  then show ?case
  proof cases
    case 1
    then show ?thesis using tail [of g u] prems(3,4) at by (auto simp: e)
  next
    case 2
    then show ?thesis using tail [of f w] prems(2,4) at by (auto simp: e)
  next
    case 3
    then show ?thesis using Cons.IH Cons.prems e by simp
  qed
qed simp

section \<open>Well-formed machines\<close>

definition mmio_width :: "nat \<Rightarrow> mmio_field \<Rightarrow> nat" where
  "mmio_width a f = the (map_of (mmio_widths a a) f)"

definition vm_wf :: "vm \<Rightarrow> bool" where
  "vm_wf vm \<longleftrightarrow>
     vm_space_bits vm = 8 * length (vm_space vm)
     \<and> 8 \<le> vm_addr_bits vm \<and> vm_addr_bits vm \<le> 56 \<and> vm_addr_bits vm mod 8 = 0
     \<and> vm_space_bits vm \<le> 2 ^ vm_addr_bits vm
     \<and> 0 < vm_processor_n vm
     \<and> vm_n_bits vm = vm_addr_bits vm \<and> vm_instr_bits vm = 3 * vm_addr_bits vm
     \<and> vm_processor_start vm = 0 \<and> vm_processor_bits vm = vm_processor_n vm * (3 * vm_addr_bits vm)
     \<and> vm_off_n vm = 0 \<and> vm_off_dst vm = vm_addr_bits vm \<and> vm_off_src vm = 2 * vm_addr_bits vm
     \<and> vm_mmio_base vm = max (vm_processor_bits vm) 0x1600
     \<and> vm_mmio vm = fst (mmio_place (mmio_widths (vm_addr_bits vm) (vm_addr_bits vm)) (vm_mmio_base vm) (\<lambda>_. 0))
     \<and> vm_mmio_end vm = (vm_mmio_base vm + sum_list (map snd (mmio_widths (vm_addr_bits vm) (vm_addr_bits vm))) + 7) div 8 * 8
     \<and> vm_workspace_base vm = vm_mmio_end vm
     \<and> vm_mmio_end vm \<le> vm_space_bits vm"

lemma mmio_widths_distinct: "distinct (map fst (mmio_widths a n))"
  by (simp add: mmio_widths_def)

lemma mmio_width_in: "(f, mmio_width a f) \<in> set (mmio_widths a a)"
  by (cases f) (simp_all add: mmio_width_def mmio_widths_def)

lemma mmio_width_bounds: "8 \<le> a \<Longrightarrow> 0 < mmio_width a f \<and> mmio_width a f \<le> a"
  by (cases f) (simp_all add: mmio_width_def mmio_widths_def)

lemma round_up_ge: "x \<le> (x + 7) div 8 * 8" for x :: nat
  by presburger

lemma mmio_range:
  assumes "vm_wf vm"
  shows "vm_mmio_base vm \<le> vm_mmio vm f"
    and "vm_mmio vm f + mmio_width (vm_addr_bits vm) f \<le> vm_mmio_end vm"
    and "vm_mmio_end vm \<le> 8 * length (vm_space vm)"
proof -
  show "vm_mmio_base vm \<le> vm_mmio vm f" "vm_mmio_end vm \<le> 8 * length (vm_space vm)"
    using assms mmio_place_range [OF mmio_widths_distinct mmio_width_in] by (auto simp: vm_wf_def)
  have "vm_mmio vm f + mmio_width (vm_addr_bits vm) f
      \<le> vm_mmio_base vm + sum_list (map snd (mmio_widths (vm_addr_bits vm) (vm_addr_bits vm)))"
    using assms mmio_place_range [OF mmio_widths_distinct mmio_width_in] by (auto simp: vm_wf_def)
  also have "\<dots> \<le> vm_mmio_end vm" using assms round_up_ge by (auto simp: vm_wf_def)
  finally show "vm_mmio vm f + mmio_width (vm_addr_bits vm) f \<le> vm_mmio_end vm" .
qed

lemma mmio_disjoint:
  assumes "vm_wf vm" and "f \<noteq> g"
  shows "vm_mmio vm f + mmio_width (vm_addr_bits vm) f \<le> vm_mmio vm g
    \<or> vm_mmio vm g + mmio_width (vm_addr_bits vm) g \<le> vm_mmio vm f"
  using assms mmio_place_disjoint [OF mmio_widths_distinct mmio_width_in mmio_width_in assms(2)]
  by (auto simp: vm_wf_def)

section \<open>The mailbox algebra\<close>

definition vm_get :: "vm \<Rightarrow> mmio_field \<Rightarrow> nat" where
  "vm_get vm f = unat (word_field msb_first (bit_at (vm_space vm)) (vm_mmio vm f) (mmio_width (vm_addr_bits vm) f) :: u64)"

definition vm_put :: "vm \<Rightarrow> mmio_field \<Rightarrow> nat \<Rightarrow> vm" where
  "vm_put vm f v = vm\<lparr>vm_space :=
     the (vm_write_uint (vm_space vm) (vm_mmio vm f) (mmio_width (vm_addr_bits vm) f) (of_nat v))\<rparr>"

lemma vm_put_simps [simp]:
  "vm_space_bits (vm_put vm f v) = vm_space_bits vm" "vm_processor_n (vm_put vm f v) = vm_processor_n vm"
  "vm_addr_bits (vm_put vm f v) = vm_addr_bits vm" "vm_n_bits (vm_put vm f v) = vm_n_bits vm"
  "vm_instr_bits (vm_put vm f v) = vm_instr_bits vm" "vm_processor_start (vm_put vm f v) = vm_processor_start vm"
  "vm_processor_bits (vm_put vm f v) = vm_processor_bits vm" "vm_off_n (vm_put vm f v) = vm_off_n vm"
  "vm_off_dst (vm_put vm f v) = vm_off_dst vm" "vm_off_src (vm_put vm f v) = vm_off_src vm"
  "vm_mmio (vm_put vm f v) = vm_mmio vm" "vm_mmio_base (vm_put vm f v) = vm_mmio_base vm"
  "vm_mmio_end (vm_put vm f v) = vm_mmio_end vm" "vm_workspace_base (vm_put vm f v) = vm_workspace_base vm"
  "vm_tick_counter (vm_put vm f v) = vm_tick_counter vm" "vm_last_err (vm_put vm f v) = vm_last_err vm"
  "rv_guest_loaded (vm_put vm f v) = rv_guest_loaded vm" "rv_guest_running (vm_put vm f v) = rv_guest_running vm"
  "rv_guest_steps (vm_put vm f v) = rv_guest_steps vm" "rv_guest_stop_reason (vm_put vm f v) = rv_guest_stop_reason vm"
  "rv_trace_records (vm_put vm f v) = rv_trace_records vm" "rv_trace_capacity (vm_put vm f v) = rv_trace_capacity vm"
  "rv_trace_dropped (vm_put vm f v) = rv_trace_dropped vm"
  by (simp_all add: vm_put_def)

lemma mmio_access:
  assumes "vm_wf vm"
  shows "mmio_width (vm_addr_bits vm) f \<le> 64"
    and "vm_mmio vm f + mmio_width (vm_addr_bits vm) f \<le> 8 * length (vm_space vm)"
    and "0 < mmio_width (vm_addr_bits vm) f"
  using assms mmio_width_bounds [of "vm_addr_bits vm" f] mmio_range(2) [OF assms, of f] mmio_range(3) [OF assms]
  by (auto simp: vm_wf_def)

lemma vm_put_space:
  assumes "vm_wf vm"
  shows "length (vm_space (vm_put vm f v)) = length (vm_space vm)"
    and "bit_at (vm_space (vm_put vm f v)) =
      blit (mmio_width (vm_addr_bits vm) f) 0 (vm_mmio vm f)
        (\<lambda>i. bit (of_nat v :: u64) (msb_first (mmio_width (vm_addr_bits vm) f) i)) (bit_at (vm_space vm))"
  using vm_fields.put_bits [OF mmio_access(1,2) [OF assms], of f "of_nat v"]
  by (auto simp: vm_put_def yields_def)

lemma vm_put_wf [simp]:
  assumes "vm_wf vm"
  shows "vm_wf (vm_put vm f v)"
  using assms vm_put_space(1) [OF assms, of f v] unfolding vm_wf_def vm_put_simps by metis

lemma vm_put_write:
  assumes "vm_wf vm"
  shows "vm_write_uint (vm_space vm) (vm_mmio vm f) (mmio_width (vm_addr_bits vm) f) (of_nat v) = Some (vm_space (vm_put vm f v))"
  using vm_fields.put_bits [OF mmio_access(1,2) [OF assms], of f "of_nat v"]
  by (auto simp: vm_put_def yields_def)

lemma unat_of_nat_u64: "w \<le> 64 \<Longrightarrow> unat (take_bit w (of_nat v :: u64)) = take_bit w v"
  by (simp add: unsigned_take_bit_eq unsigned_of_nat)

lemma vm_get_put_same:
  assumes "vm_wf vm"
  shows "vm_get (vm_put vm f v) f = take_bit (mmio_width (vm_addr_bits vm) f) v"
proof -
  let ?w = "mmio_width (vm_addr_bits vm) f"
  have "vm_read_uint (vm_space (vm_put vm f v)) (vm_mmio vm f) ?w = Some (take_bit ?w (of_nat v))"
    by (rule vm_fields.get_put [OF mmio_access(1,2) [OF assms] vm_put_write [OF assms]])
  moreover have "vm_read_uint (vm_space (vm_put vm f v)) (vm_mmio vm f) ?w
      = Some (word_field msb_first (bit_at (vm_space (vm_put vm f v))) (vm_mmio vm f) ?w)"
    using mmio_access(1,2) [OF assms, of f] vm_put_space(1) [OF assms, of f v] by (intro vm_read_uint_field) simp_all
  ultimately show ?thesis
    using mmio_access(1) [OF assms, of f] by (simp add: vm_get_def unat_of_nat_u64)
qed

lemma vm_get_put_other:
  assumes "vm_wf vm" and "f \<noteq> g"
  shows "vm_get (vm_put vm f v) g = vm_get vm g"
proof -
  have "word_field msb_first (bit_at (vm_space (vm_put vm f v))) (vm_mmio vm g) (mmio_width (vm_addr_bits vm) g)
      = (word_field msb_first (bit_at (vm_space vm)) (vm_mmio vm g) (mmio_width (vm_addr_bits vm) g) :: u64)"
  proof (rule word_field_cong)
    fix i assume "i < mmio_width (vm_addr_bits vm) g"
    then have "msb_first (mmio_width (vm_addr_bits vm) g) i < mmio_width (vm_addr_bits vm) g" by (rule msb_first_less)
    then show "bit_at (vm_space (vm_put vm f v)) (vm_mmio vm g + msb_first (mmio_width (vm_addr_bits vm) g) i)
        = bit_at (vm_space vm) (vm_mmio vm g + msb_first (mmio_width (vm_addr_bits vm) g) i)"
      using mmio_disjoint [OF assms] by (auto simp: vm_put_space(2) [OF assms(1)] blit_def)
  qed
  then show ?thesis by (simp add: vm_get_def)
qed

lemma vm_get_put:
  "vm_wf vm \<Longrightarrow> vm_get (vm_put vm f v) g = (if f = g then take_bit (mmio_width (vm_addr_bits vm) f) v else vm_get vm g)"
  by (simp add: vm_get_put_same vm_get_put_other)

text \<open>Memory outside the mailbox is untouched.\<close>

lemma vm_put_outside:
  assumes "vm_wf vm" and "p < vm_mmio_base vm \<or> vm_mmio_end vm \<le> p"
  shows "bit_at (vm_space (vm_put vm f v)) p = bit_at (vm_space vm) p"
  using assms(2) mmio_range(1,2) [OF assms(1), of f]
  by (auto simp: vm_put_space(2) [OF assms(1)] blit_def)

lemma vm_get_less: "vm_wf vm \<Longrightarrow> vm_get vm f < 2 ^ mmio_width (vm_addr_bits vm) f"
  unfolding vm_get_def
  using mmio_width_bounds [of "vm_addr_bits vm" f] by (intro word_field_bound) (auto simp: vm_wf_def)

lemma vm_get_addr_less:
  assumes "vm_wf vm"
  shows "vm_get vm f < 2 ^ vm_addr_bits vm"
proof -
  have "mmio_width (vm_addr_bits vm) f \<le> vm_addr_bits vm"
    using assms mmio_width_bounds by (simp add: vm_wf_def)
  then have "(2 :: nat) ^ mmio_width (vm_addr_bits vm) f \<le> 2 ^ vm_addr_bits vm" by simp
  then show ?thesis using vm_get_less [OF assms, of f] by linarith
qed

lemma mmio_width_simps [simp]:
  "mmio_width a In_req = 1" "mmio_width a In_done = 1" "mmio_width a In_eof = 1" "mmio_width a In_err = 1"
  "mmio_width a In_dst = a" "mmio_width a In_len = a" "mmio_width a In_got = a"
  "mmio_width a Out_req = 1" "mmio_width a Out_done = 1" "mmio_width a Out_err = 1"
  "mmio_width a Out_src = a" "mmio_width a Out_len = a" "mmio_width a Out_got = a"
  "mmio_width a Halt_bit = 1" "mmio_width a In_src_mode = 1" "mmio_width a In_src_addr = a" "mmio_width a In_src_end = a"
  "mmio_width a Load_req = 1" "mmio_width a Load_done = 1" "mmio_width a Load_err = 1"
  "mmio_width a Load_src = a" "mmio_width a Load_bits = a"
  "mmio_width a Wd_enable = 1" "mmio_width a Wd_fired = 1" "mmio_width a Wd_limit = a" "mmio_width a Wd_ticks = a"
  "mmio_width a Ch_req = 1" "mmio_width a Ch_done = 1" "mmio_width a Ch_err = 1" "mmio_width a Ch_op = 8"
  "mmio_width a Ch_a = a" "mmio_width a Ch_b = a" "mmio_width a Ch_c = a" "mmio_width a Ch_abi_version = 8"
  by (simp_all add: mmio_width_def mmio_widths_def)

section \<open>The accesses of the code are gets and puts\<close>

lemma vm_wf_n_bits [simp]: "vm_wf vm \<Longrightarrow> vm_n_bits vm = vm_addr_bits vm"
  by (simp add: vm_wf_def)

lemma m_addr_get:
  assumes "vm_wf vm" and "mmio_width (vm_addr_bits vm) f = vm_addr_bits vm"
  shows "m_addr vm f = Some (vm_get vm f)" and "m_num vm f = Some (vm_get vm f)"
  using mmio_access(1,2) [OF assms(1), of f] assms
  by (simp_all add: m_addr_def m_num_def vm_get_def vm_read_uint_field)

lemma m_put_addr_put:
  assumes "vm_wf vm" and "mmio_width (vm_addr_bits vm) f = vm_addr_bits vm"
  shows "m_put_addr f v vm = Some (vm_put vm f v)" and "m_put_num f v vm = Some (vm_put vm f v)"
  using vm_put_write [OF assms(1), of f v] assms
  by (simp_all add: m_put_addr_def m_put_num_def on_space_def) (simp_all add: vm_put_def)

lemma word_field_1: "(word_field msb_first h at 1 :: u64) = of_bool (h at)"
  by (rule bit_word_eqI) (auto simp: bit_word_field msb_first_def bit_simps)

lemma m_bit_get:
  assumes "vm_wf vm" and "mmio_width (vm_addr_bits vm) f = 1"
  shows "m_bit vm f = Some (vm_get vm f \<noteq> 0)"
proof -
  have p: "vm_mmio vm f < 8 * length (vm_space vm)" using mmio_access(2,3) [OF assms(1), of f] by simp
  show ?thesis
    unfolding m_bit_def vm_get_def assms(2) word_field_1 using vm_bits.getb_bit [OF p] by simp
qed

lemma m_set_put:
  assumes "vm_wf vm" and "mmio_width (vm_addr_bits vm) f = 1"
  shows "m_set f b vm = Some (vm_put vm f (of_bool b))"
proof -
  have p: "vm_mmio vm f < 8 * length (vm_space vm)" using mmio_access(2,3) [OF assms(1), of f] by simp
  obtain m where m: "vm_bit_set (vm_space vm) (vm_mmio vm f) (of_bool b) = Some m"
      "length m = length (vm_space vm)" "bit_at m = (bit_at (vm_space vm))(vm_mmio vm f := b)"
    using vm_bits.setb_bits [OF p, of "of_bool b"] by (auto elim!: yieldsE)
  have "m = vm_space (vm_put vm f (of_bool b))"
  proof (rule mem_eqI)
    show "bit_at m = bit_at (vm_space (vm_put vm f (of_bool b)))"
      using vm_put_space(2) [OF assms(1), of f "of_bool b"] unfolding assms(2) m(3)
      by (auto simp: blit_def msb_first_def fun_eq_iff)
  qed (simp add: m(2) vm_put_space(1) [OF assms(1)])
  then show ?thesis by (simp add: m_set_def on_space_def m(1) vm_put_def)
qed

lemmas mailbox = m_addr_get m_put_addr_put m_bit_get m_set_put vm_get_put

lemma vm_get_bit: "\<lbrakk>vm_wf vm; mmio_width (vm_addr_bits vm) f = 1\<rbrakk> \<Longrightarrow> vm_get vm f = 0 \<or> vm_get vm f = 1"
  using vm_get_less [of vm f] by auto

lemma take_bit_of_bool [simp]: "take_bit (Suc 0) (of_bool b :: nat) = of_bool b"
  by (simp add: of_bool_def)

text \<open>The state of the run is no part of the memory or its layout.\<close>

lemma vm_wf_run [simp]:
  "vm_wf (vm\<lparr>vm_tick_counter := t\<rparr>) \<longleftrightarrow> vm_wf vm" "vm_wf (vm\<lparr>vm_last_err := e\<rparr>) \<longleftrightarrow> vm_wf vm"
  "vm_wf (vm\<lparr>rv_guest_loaded := b\<rparr>) \<longleftrightarrow> vm_wf vm" "vm_wf (vm\<lparr>rv_guest_running := b\<rparr>) \<longleftrightarrow> vm_wf vm"
  "vm_wf (vm\<lparr>rv_guest_steps := k\<rparr>) \<longleftrightarrow> vm_wf vm" "vm_wf (vm\<lparr>rv_guest_stop_reason := r\<rparr>) \<longleftrightarrow> vm_wf vm"
  "vm_wf (vm\<lparr>rv_trace_records := rs\<rparr>) \<longleftrightarrow> vm_wf vm" "vm_wf (vm\<lparr>rv_trace_dropped := k\<rparr>) \<longleftrightarrow> vm_wf vm"
  by (cases vm; simp only: vm_wf_def vm.update_convs vm.select_convs)+

lemma vm_get_run [simp]:
  "vm_get (vm\<lparr>vm_tick_counter := t\<rparr>) f = vm_get vm f" "vm_get (vm\<lparr>vm_last_err := e\<rparr>) f = vm_get vm f"
  "vm_get (vm\<lparr>rv_guest_loaded := b\<rparr>) f = vm_get vm f" "vm_get (vm\<lparr>rv_guest_running := b\<rparr>) f = vm_get vm f"
  "vm_get (vm\<lparr>rv_guest_steps := k\<rparr>) f = vm_get vm f" "vm_get (vm\<lparr>rv_guest_stop_reason := r\<rparr>) f = vm_get vm f"
  "vm_get (vm\<lparr>rv_trace_records := rs\<rparr>) f = vm_get vm f" "vm_get (vm\<lparr>rv_trace_dropped := k\<rparr>) f = vm_get vm f"
  by (simp_all add: vm_get_def)

lemma vm_wf_space: "length m = length (vm_space vm) \<Longrightarrow> vm_wf (vm\<lparr>vm_space := m\<rparr>) \<longleftrightarrow> vm_wf vm"
  by (simp add: vm_wf_def)

lemma vm_wf_base: "vm_wf vm \<Longrightarrow> 0x1600 \<le> vm_mmio_base vm"
  by (simp add: vm_wf_def)

lemma vm_wf_fields:
  assumes "vm_wf vm"
  shows "vm_space_bits vm = 8 * length (vm_space vm)" and "8 \<le> vm_addr_bits vm" and "vm_addr_bits vm \<le> 56"
    and "vm_space_bits vm \<le> 2 ^ vm_addr_bits vm" and "0 < vm_processor_n vm"
    and "vm_instr_bits vm = 3 * vm_addr_bits vm" and "vm_processor_start vm = 0"
    and "vm_processor_bits vm = vm_processor_n vm * (3 * vm_addr_bits vm)"
    and "vm_off_n vm = 0" and "vm_off_dst vm = vm_addr_bits vm" and "vm_off_src vm = 2 * vm_addr_bits vm"
    and "vm_mmio_base vm = max (vm_processor_bits vm) 0x1600" and "vm_workspace_base vm = vm_mmio_end vm"
    and "vm_mmio_end vm \<le> vm_space_bits vm" and "vm_addr_bits vm mod 8 = 0"
  using assms unfolding vm_wf_def by blast+

section \<open>Initialisation\<close>

lemma ceil_log2_from_bounds:
  assumes "k = 0 \<or> 2 ^ (k - 1) < x"
  shows "x \<le> 2 ^ ceil_log2_from x (2 ^ k) k
    \<and> (ceil_log2_from x (2 ^ k) k = 0 \<or> 2 ^ (ceil_log2_from x (2 ^ k) k - 1) < x)"
  using assms
proof (induction "x - 2 ^ k" arbitrary: k rule: less_induct)
  case less
  show ?case
  proof (cases "2 ^ k < x")
    case True
    have "x - 2 ^ Suc k < x - 2 ^ k" using True by (simp add: diff_less_mono2)
    then have "x \<le> 2 ^ ceil_log2_from x (2 ^ Suc k) (Suc k)
      \<and> (ceil_log2_from x (2 ^ Suc k) (Suc k) = 0 \<or> 2 ^ (ceil_log2_from x (2 ^ Suc k) (Suc k) - 1) < x)"
      by (rule less.hyps) (use True in simp)
    moreover have "ceil_log2_from x (2 ^ k) k = ceil_log2_from x (2 ^ Suc k) (Suc k)"
      using True by (subst ceil_log2_from.simps) simp
    ultimately show ?thesis by simp
  next
    case False
    then show ?thesis using less.prems by (subst (1 2 3) ceil_log2_from.simps) simp
  qed
qed

lemma ceil_log2_bounds: "x \<le> 2 ^ ceil_log2 x" "ceil_log2 x = 0 \<or> 2 ^ (ceil_log2 x - 1) < x"
  using ceil_log2_from_bounds [of 0 x] by (simp_all add: ceil_log2_def)

lemma ceil_log2_le: "x \<le> 2 ^ k \<Longrightarrow> ceil_log2 x \<le> k"
proof (rule ccontr)
  assume x: "x \<le> 2 ^ k" and "\<not> ceil_log2 x \<le> k"
  then have "k \<le> ceil_log2 x - 1" "ceil_log2 x \<noteq> 0" by auto
  then have "2 ^ k \<le> (2 :: nat) ^ (ceil_log2 x - 1)" "2 ^ (ceil_log2 x - 1) < x"
    using ceil_log2_bounds(2) [of x] by (auto intro: power_increasing)
  then show False using x by linarith
qed

definition vm_addr_width :: "nat \<Rightarrow> nat" where
  "vm_addr_width space_bytes = max 8 (round_up_to_8 (ceil_log2 (8 * space_bytes)))"

definition vm_mmio_end_at :: "nat \<Rightarrow> nat \<Rightarrow> nat" where
  "vm_mmio_end_at a processor_n = (max (processor_n * (3 * a)) 0x1600 + (33 + 15 * a) + 7) div 8 * 8"

lemma vm_addr_width_bounds:
  assumes "space_bytes \<le> 2 ^ 53"
  shows "8 \<le> vm_addr_width space_bytes" "vm_addr_width space_bytes \<le> 56"
    "vm_addr_width space_bytes mod 8 = 0" "8 * space_bytes \<le> 2 ^ vm_addr_width space_bytes"
proof -
  let ?r = "ceil_log2 (8 * space_bytes)"
  have "8 * space_bytes \<le> 2 ^ 56" using assms by simp
  then have "?r \<le> 56" by (rule ceil_log2_le)
  then show "vm_addr_width space_bytes \<le> 56" by (simp add: vm_addr_width_def round_up_to_8_def)
  show "8 \<le> vm_addr_width space_bytes" by (simp add: vm_addr_width_def)
  show "vm_addr_width space_bytes mod 8 = 0" by (simp add: vm_addr_width_def round_up_to_8_def max_def)
  have "?r \<le> vm_addr_width space_bytes"
    using round_up_ge [of ?r] by (simp add: vm_addr_width_def round_up_to_8_def le_max_iff_disj)
  then have "(2 :: nat) ^ ?r \<le> 2 ^ vm_addr_width space_bytes" by simp
  then show "8 * space_bytes \<le> 2 ^ vm_addr_width space_bytes"
    using ceil_log2_bounds(1) [of "8 * space_bytes"] by linarith
qed

lemma mmio_widths_sum: "sum_list (map snd (mmio_widths a a)) = 33 + 15 * a"
  by (simp add: mmio_widths_def)

definition vm_before_abi :: "nat \<Rightarrow> nat \<Rightarrow> vm" where
  "vm_before_abi space_bytes processor_n =
     (let a = vm_addr_width space_bytes;
          base = max (processor_n * (3 * a)) 0x1600
      in \<lparr>vm_space = replicate space_bytes 0, vm_space_bits = 8 * space_bytes,
          vm_processor_n = processor_n, vm_addr_bits = a, vm_n_bits = a,
          vm_instr_bits = 3 * a, vm_instr_bytes = 3 * a div 8,
          vm_processor_start = 0, vm_processor_bits = processor_n * (3 * a),
          vm_off_n = 0, vm_off_dst = a, vm_off_src = 2 * a,
          vm_mmio = fst (mmio_place (mmio_widths a a) base (\<lambda>_. 0)), vm_mmio_base = base,
          vm_mmio_end = vm_mmio_end_at a processor_n, vm_workspace_base = vm_mmio_end_at a processor_n,
          vm_tick_counter = 0, vm_last_err = vm_no_err 0 0,
          rv_guest_loaded = False, rv_guest_running = False, rv_guest_steps = 0,
          rv_guest_stop_reason = RV_STOP_NONE, rv_trace_records = [],
          rv_trace_capacity = vm_rv_trace_max_records, rv_trace_dropped = 0\<rparr>)"

lemma vm_before_abi_wf:
  assumes "space_bytes \<le> 2 ^ 53" and "0 < processor_n"
    and "vm_mmio_end_at (vm_addr_width space_bytes) processor_n \<le> 8 * space_bytes"
  shows "vm_wf (vm_before_abi space_bytes processor_n)"
  using vm_addr_width_bounds [OF assms(1)] assms(2,3)
  by (simp add: vm_wf_def vm_before_abi_def Let_def mmio_widths_sum vm_mmio_end_at_def add.assoc)

lemma vm_init_eq:
  assumes "space_bytes \<le> 2 ^ 53"
  shows "vm_init calloc space_bytes processor_n =
    (if 0 < space_bytes \<and> 0 < processor_n \<and> calloc 1 space_bytes \<and> calloc 4096 36
        \<and> vm_mmio_end_at (vm_addr_width space_bytes) processor_n \<le> 8 * space_bytes
     then Some (vm_put (vm_before_abi space_bytes processor_n) Ch_abi_version 1) else None)"
proof (cases "0 < space_bytes \<and> 0 < processor_n \<and> calloc 1 space_bytes \<and> calloc 4096 36")
  case False
  then show ?thesis by (auto simp: vm_init_def vm_rv_trace_max_records_def)
next
  case True
  let ?a = "vm_addr_width space_bytes"
  let ?r = "round_up_to_8 (ceil_log2 (8 * space_bytes))"
  have a: "(if ?r < 8 then 8 else ?r) = ?a" by (simp add: vm_addr_width_def max_def)
  have base: "(if p < 0x1600 then 0x1600 else p) = max p 0x1600" for p :: nat by simp
  have e: "snd (mmio_place (mmio_widths ?a ?a) p l) = p + (33 + 15 * ?a)" for p l
    by (simp add: mmio_place_end mmio_widths_sum)
  have fits: "processor_n * (3 * ?a) \<le> vm_mmio_end_at ?a processor_n"
    unfolding vm_mmio_end_at_def by linarith
  have layout: "vm_compute_mmio_layout \<lparr>vm_space = replicate space_bytes 0, vm_space_bits = 8 * space_bytes,
          vm_processor_n = processor_n, vm_addr_bits = ?a, vm_n_bits = ?a,
          vm_instr_bits = 3 * ?a, vm_instr_bytes = 3 * ?a div 8,
          vm_processor_start = 0, vm_processor_bits = processor_n * (3 * ?a),
          vm_off_n = 0, vm_off_dst = ?a, vm_off_src = ?a + ?a,
          vm_mmio = \<lambda>_. 0, vm_mmio_base = 0, vm_mmio_end = 0, vm_workspace_base = 0,
          vm_tick_counter = 0, vm_last_err = vm_no_err 0 0,
          rv_guest_loaded = False, rv_guest_running = False, rv_guest_steps = 0,
          rv_guest_stop_reason = RV_STOP_NONE, rv_trace_records = [],
          rv_trace_capacity = vm_rv_trace_max_records, rv_trace_dropped = 0\<rparr> = vm_before_abi space_bytes processor_n"
    by (simp add: vm_compute_mmio_layout_def rv_guest_mmio_guard_def vm_before_abi_def Let_def base e
        split_def vm_mmio_end_at_def)
  show ?thesis
  proof (cases "vm_mmio_end_at ?a processor_n \<le> 8 * space_bytes")
    case False
    then show ?thesis
      using True layout
      by (auto simp: vm_init_def vm_rv_trace_max_records_def Let_def a) (simp_all add: vm_before_abi_def Let_def)
  next
    case fit: True
    let ?vm = "vm_before_abi space_bytes processor_n"
    have wf: "vm_wf ?vm" by (rule vm_before_abi_wf [OF assms]) (use True fit in auto)
    have "vm_write_uint (vm_space ?vm) (vm_mmio ?vm Ch_abi_version) 8 1 = Some (vm_space (vm_put ?vm Ch_abi_version 1))"
      using vm_put_write [OF wf, of Ch_abi_version 1] by simp
    then have "on_space (\<lambda>m. vm_write_uint m (vm_mmio ?vm Ch_abi_version) 8 1) ?vm = Some (vm_put ?vm Ch_abi_version 1)"
      by (simp add: on_space_def) (simp add: vm_put_def)
    moreover have "vm_mmio_end ?vm = vm_mmio_end_at ?a processor_n" by (simp add: vm_before_abi_def Let_def)
    ultimately show ?thesis
      using True fit fits layout by (simp add: vm_init_def vm_rv_trace_max_records_def Let_def a)
  qed
qed

lemma bit_at_zeros [simp]: "\<not> bit_at (replicate k 0) p"
  by (simp add: bit_at_def)

lemma vm_get_zeros:
  assumes "vm_space vm = replicate k 0"
  shows "vm_get vm f = 0"
proof -
  have "word_field msb_first (bit_at (vm_space vm)) p w = (0 :: u64)" for p w
    by (rule bit_word_eqI) (simp add: bit_word_field assms)
  then show ?thesis by (simp add: vm_get_def)
qed

section \<open>Properties\<close>

text \<open>
  C31. For a space of at most \<open>2 ^ 53\<close> bytes \<open>vm_init\<close> succeeds exactly when memory is granted
  and the processor and the mailbox fit into the space. Then the machine is well formed: all
  mailbox fields lie apart inside the space, behind the processor and behind the guest's
  register window. The ABI version reads 1, every other field 0, and so does every bit outside
  the mailbox: all slots are idle.
\<close>

theorem vm_init_ready:
  assumes "space_bytes \<le> 2 ^ 53"
  shows "case vm_init calloc space_bytes processor_n of
      None \<Rightarrow> space_bytes = 0 \<or> processor_n = 0 \<or> \<not> calloc 1 space_bytes \<or> \<not> calloc 4096 36
        \<or> 8 * space_bytes < vm_mmio_end_at (vm_addr_width space_bytes) processor_n
    | Some vm \<Rightarrow> vm_wf vm \<and> length (vm_space vm) = space_bytes \<and> vm_processor_n vm = processor_n
        \<and> max (vm_processor_bits vm) 0x1600 \<le> vm_mmio_base vm
        \<and> (\<forall>f. vm_get vm f = (if f = Ch_abi_version then 1 else 0))
        \<and> (\<forall>p. p < vm_mmio_base vm \<or> vm_mmio_end vm \<le> p \<longrightarrow> \<not> bit_at (vm_space vm) p)"
proof (cases "vm_init calloc space_bytes processor_n")
  case None
  then show ?thesis using vm_init_eq [OF assms, of calloc processor_n] by (auto split: if_splits)
next
  case (Some vm)
  let ?b = "vm_before_abi space_bytes processor_n"
  have vm: "vm = vm_put ?b Ch_abi_version 1" and ok: "0 < processor_n"
      "vm_mmio_end_at (vm_addr_width space_bytes) processor_n \<le> 8 * space_bytes"
    using vm_init_eq [OF assms, of calloc processor_n] Some by (auto split: if_splits)
  have wf: "vm_wf ?b" by (rule vm_before_abi_wf [OF assms ok])
  have zeros: "vm_space ?b = replicate space_bytes 0" "vm_processor_n ?b = processor_n"
    by (simp_all add: vm_before_abi_def Let_def)
  have base: "vm_mmio_base ?b = max (vm_processor_bits ?b) 0x1600" using wf by (simp add: vm_wf_def)
  have "vm_get vm f = (if f = Ch_abi_version then 1 else 0)" for f
    using wf vm_get_zeros [OF zeros(1)] by (simp add: vm vm_get_put take_bit_nat_eq_self)
  moreover have "\<not> bit_at (vm_space vm) p" if "p < vm_mmio_base vm \<or> vm_mmio_end vm \<le> p" for p
    using vm_put_outside [OF wf, of p Ch_abi_version 1] that by (simp add: vm zeros)
  ultimately show ?thesis
    using Some wf zeros vm_put_space(1) [OF wf, of Ch_abi_version 1] base by (simp add: vm)
qed

text \<open>The default machine: 64 slots in 1.9 MiB.\<close>

lemma vm_init_ready_witness:
  "(case vm_init (\<lambda>_ _. True) 1992294 64 of
      None \<Rightarrow> (1992294 :: nat) = 0 \<or> (64 :: nat) = 0 \<or> \<not> True \<or> \<not> True
        \<or> 8 * 1992294 < vm_mmio_end_at (vm_addr_width 1992294) 64
    | Some vm \<Rightarrow> vm_wf vm \<and> length (vm_space vm) = 1992294 \<and> vm_processor_n vm = 64
        \<and> max (vm_processor_bits vm) 0x1600 \<le> vm_mmio_base vm
        \<and> (\<forall>f. vm_get vm f = (if f = Ch_abi_version then 1 else 0))
        \<and> (\<forall>p. p < vm_mmio_base vm \<or> vm_mmio_end vm \<le> p \<longrightarrow> \<not> bit_at (vm_space vm) p))
   \<and> vm_addr_width 1992294 = 24 \<and> vm_mmio_end_at 24 64 = 0x1790"
  using vm_init_ready [where space_bytes = 1992294 and calloc = "\<lambda>_ _. True" and processor_n = 64]
  by (simp add: vm_addr_width_def round_up_to_8_def ceil_log2_def ceil_log2_from.simps vm_mmio_end_at_def)

end
