(* ===== verification/Rv32Refines.thy ===== *)
theory Rv32Refines
  imports Rv32 Rv32Spec VmMailbox
begin

text \<open>
  The executor of rv32.c refines the RV32I machine: with the guest's registers and memory read
  off the space, a step of the code is a step of the specification, a stop of the specification
  is a stop of the code with the same reason, and nothing but the guest's own window, its
  memory and the halt bit changes.
\<close>

section \<open>Immediates and fields\<close>


lemma sext_imm12_eq: "sext_imm12 x = scast (ucast x :: 12 word)"
  unfolding sext_imm12_def
  by (rule bit_word_eqI) (auto simp: bit_signed_drop_bit_iff bit_push_bit_iff bit_word_scast_iff bit_ucast_iff)

lemma sext_imm13_eq: "sext_imm13 x = scast (ucast x :: 13 word)"
  unfolding sext_imm13_def
  by (rule bit_word_eqI) (auto simp: bit_signed_drop_bit_iff bit_push_bit_iff bit_word_scast_iff bit_ucast_iff)

lemma sext_imm21_eq: "sext_imm21 x = scast (ucast x :: 21 word)"
  unfolding sext_imm21_def
  by (rule bit_word_eqI) (auto simp: bit_signed_drop_bit_iff bit_push_bit_iff bit_word_scast_iff bit_ucast_iff)

lemma sext_imm16_eq: "sext_imm16 x = signed_take_bit 15 x"
proof (rule bit_word_eqI)
  fix n assume "n < LENGTH(32)"
  then consider "n < 15" | "n = 15" | "16 \<le> n" "n < 32" by force
  then show "bit (sext_imm16 x) n \<longleftrightarrow> bit (signed_take_bit 15 x) n"
    by cases (auto simp: sext_imm16_def bit_signed_drop_bit_iff bit_push_bit_iff bit_signed_take_bit_iff min_def)
qed

lemma sext_imm8_eq: "sext_imm8 x = signed_take_bit 7 x"
proof (rule bit_word_eqI)
  fix n assume "n < LENGTH(32)"
  then consider "n < 7" | "n = 7" | "8 \<le> n" "n < 32" by force
  then show "bit (sext_imm8 x) n \<longleftrightarrow> bit (signed_take_bit 7 x) n"
    by cases (auto simp: sext_imm8_def bit_signed_drop_bit_iff bit_push_bit_iff bit_signed_take_bit_iff min_def)
qed

lemma and_masks:
  "x AND 1 = take_bit 1 x" "x AND 3 = take_bit 2 x" "x AND 7 = take_bit 3 x" "x AND 0xF = take_bit 4 x"
  "x AND 0x1F = take_bit 5 x" "x AND 0x3F = take_bit 6 x" "x AND 0x7F = take_bit 7 x" "x AND 0xFF = take_bit 8 x"
  "x AND 0x3FF = take_bit 10 x" "x AND 0xFFFF = take_bit 16 x"
  for x :: u32
  by (simp_all add: take_bit_eq_mask mask_eq_exp_minus_1)

lemma imm_I_eq: "sext_imm12 (drop_bit 20 insn) = imm_I insn"
  by (simp add: sext_imm12_eq imm_I_def)

lemma imm_S_eq: "sext_imm12 ((drop_bit 7 insn AND 0x1F) OR push_bit 5 (drop_bit 25 insn AND 0x7F)) = imm_S insn"
proof -
  have "ucast ((drop_bit 7 insn AND 0x1F) OR push_bit 5 (drop_bit 25 insn AND 0x7F)) =
      (word_cat (rv_funct7 insn) (rv_rd insn) :: 12 word)"
    unfolding and_masks rv_funct7_def rv_rd_def
    by (rule bit_word_eqI) (auto simp: bit_simps bit_word_cat_iff)
  then show ?thesis by (simp add: sext_imm12_eq imm_S_def)
qed

lemma imm_B_eq:
  "sext_imm13 (push_bit 12 (drop_bit 31 insn AND 0x1) OR push_bit 11 (drop_bit 7 insn AND 0x1)
       OR push_bit 5 (drop_bit 25 insn AND 0x3F) OR push_bit 1 (drop_bit 8 insn AND 0xF)) = imm_B insn"
  unfolding imm_B_def sext_imm13_eq and_masks
proof (rule arg_cong [where f = scast], rule bit_word_eqI)
  fix n assume "n < LENGTH(13)"
  then have "n < 13" by simp
  then consider "n = 0" | "0 < n" "n < 5" | "5 \<le> n" "n < 11" | "n = 11" | "n = 12" by force
  then show "bit (ucast (push_bit 12 (take_bit 1 (drop_bit 31 insn)) OR push_bit 11 (take_bit 1 (drop_bit 7 insn))
       OR push_bit 5 (take_bit 6 (drop_bit 25 insn)) OR push_bit 1 (take_bit 4 (drop_bit 8 insn))) :: 13 word) n
    \<longleftrightarrow> bit (word_cat (word_cat (ucast (drop_bit 31 insn) :: 1 word) (ucast (drop_bit 7 insn) :: 1 word) :: 2 word)
     (word_cat (ucast (drop_bit 25 insn) :: 6 word) (word_cat (ucast (drop_bit 8 insn) :: 4 word) (0 :: 1 word) :: 5 word) :: 11 word) :: 13 word) n"
    by cases (simp_all only: bit_or_iff bit_push_bit_iff bit_take_bit_iff bit_drop_bit_eq bit_ucast_iff bit_word_cat_iff, auto)
qed

lemma imm_J_eq:
  "sext_imm21 (push_bit 20 (drop_bit 31 insn AND 0x1) OR push_bit 12 (drop_bit 12 insn AND 0xFF)
       OR push_bit 11 (drop_bit 20 insn AND 0x1) OR push_bit 1 (drop_bit 21 insn AND 0x3FF)) = imm_J insn"
  unfolding imm_J_def sext_imm21_eq and_masks
proof (rule arg_cong [where f = scast], rule bit_word_eqI)
  fix n assume "n < LENGTH(21)"
  then have "n < 21" by simp
  then consider "n = 0" | "0 < n" "n < 11" | "n = 11" | "12 \<le> n" "n < 20" | "n = 20" by force
  then show "bit (ucast (push_bit 20 (take_bit 1 (drop_bit 31 insn)) OR push_bit 12 (take_bit 8 (drop_bit 12 insn))
       OR push_bit 11 (take_bit 1 (drop_bit 20 insn)) OR push_bit 1 (take_bit 10 (drop_bit 21 insn))) :: 21 word) n
    \<longleftrightarrow> bit (word_cat (word_cat (ucast (drop_bit 31 insn) :: 1 word) (ucast (drop_bit 12 insn) :: 8 word) :: 9 word)
     (word_cat (ucast (drop_bit 20 insn) :: 1 word) (word_cat (ucast (drop_bit 21 insn) :: 10 word) (0 :: 1 word) :: 11 word) :: 12 word) :: 21 word) n"
    by cases (simp_all only: bit_or_iff bit_push_bit_iff bit_take_bit_iff bit_drop_bit_eq bit_ucast_iff bit_word_cat_iff, auto)
qed

lemma imm_U_eq: "insn AND 0xFFFFF000 = imm_U insn"
proof -
  have m: "(0xFFFFF000 :: u32) = NOT (mask 12)" by (simp add: mask_eq_exp_minus_1)
  show ?thesis
    unfolding imm_U_def m by (rule bit_word_eqI) (auto simp: bit_simps)
qed

text \<open>Fields cut out with masks and fields as words of their own width.\<close>

lemma field_unat:
  "unat (x AND 0x1F) = unat (ucast x :: 5 word)"
  for x :: u32
  by (simp add: and_masks unsigned_take_bit_eq unsigned_ucast_eq)

lemma field_ucast:
  "x AND 0x7 = ucast (ucast x :: 3 word)" "x AND 0x7F = ucast (ucast x :: 7 word)"
  "x AND 0x1F = ucast (ucast x :: 5 word)"
  for x :: u32
  unfolding and_masks by (rule bit_word_eqI, auto simp: bit_simps)+

lemma unat_ucast_up:
  "unat (ucast (y :: 3 word) :: u32) = unat y" "unat (ucast (z :: 7 word) :: u32) = unat z"
  "unat (ucast (r :: 5 word) :: u32) = unat r"
  using unsigned_less [of y, where ?'a = nat] unsigned_less [of z, where ?'a = nat] unsigned_less [of r, where ?'a = nat]
  by (simp_all add: unsigned_ucast_eq take_bit_nat_eq_self)

lemma ucast_eq_iff:
  "(ucast (y :: 3 word) :: u32) = ucast y' \<longleftrightarrow> y = y'" "(ucast (z :: 7 word) :: u32) = ucast z' \<longleftrightarrow> z = z'"
  "(ucast (r :: 5 word) :: u32) = ucast r' \<longleftrightarrow> r = r'"
  by (metis unat_ucast_up word_unat_eq_iff)+

section \<open>Little-endian values in memory\<close>

lemma length_put_bytes [simp]: "a + length bs \<le> length m \<Longrightarrow> length (put_bytes m a bs) = length m"
  by (simp add: put_bytes_def)

lemma nth_put_bytes:
  "\<lbrakk>a + length bs \<le> length m; i < length m\<rbrakk> \<Longrightarrow>
    put_bytes m a bs ! i = (if a \<le> i \<and> i < a + length bs then bs ! (i - a) else m ! i)"
  unfolding put_bytes_def by (rule nth_splice) simp_all

lemma take_drop_put_bytes_other:
  assumes "a + length bs \<le> length m" and "j + n \<le> a \<or> a + length bs \<le> j"
  shows "take n (drop j (put_bytes m a bs)) = take n (drop j m)"
proof (rule nth_equalityI)
  fix i assume "i < length (take n (drop j (put_bytes m a bs)))"
  then have i: "i < n" "j + i < length m" using assms(1) by auto
  have "put_bytes m a bs ! (j + i) = m ! (j + i)"
    using nth_put_bytes [OF assms(1) i(2)] assms(2) i(1) by auto
  then show "take n (drop j (put_bytes m a bs)) ! i = take n (drop j m) ! i"
    using i assms(1) by simp
qed (use assms(1) in simp)

lemma take_drop_put_bytes_same:
  assumes "a + length bs \<le> length m"
  shows "take (length bs) (drop a (put_bytes m a bs)) = bs"
  using assms by (simp add: put_bytes_def min_def)

lemma drop_put_bytes:
  assumes a: "a \<le> i" and "i \<le> length m"
  shows "drop a (put_bytes m i bs) = put_bytes (drop a m) (i - a) bs"
proof -
  have "drop a (take i m) = take (i - a) (drop a m)" by (simp add: drop_take)
  moreover have "a + (i - a + length bs) = i + length bs" using a by simp
  ultimately show ?thesis
    using assms by (simp add: put_bytes_def min_def)
qed

lemma take_put_bytes: "\<lbrakk>n \<le> a; a + length bs \<le> length m\<rbrakk> \<Longrightarrow> take n (put_bytes m a bs) = take n m"
  using take_drop_put_bytes_other [of a bs m 0 n] by simp

lemma drop_put_bytes_before: "\<lbrakk>a + length bs \<le> n; a + length bs \<le> length m\<rbrakk> \<Longrightarrow> drop n (put_bytes m a bs) = drop n m"
  using take_drop_put_bytes_other [of a bs m n "length m - n"] by simp

lemma take_4_drop: "i + 4 \<le> length sp \<Longrightarrow> take 4 (drop i sp) = [sp ! i, sp ! (i + 1), sp ! (i + 2), sp ! (i + 3)]"
  by (rule nth_equalityI) (auto simp: nth_Cons' numeral_eq_Suc less_Suc_eq)

lemma take_2_drop: "i + 2 \<le> length sp \<Longrightarrow> take 2 (drop i sp) = [sp ! i, sp ! (i + 1)]"
  by (rule nth_equalityI) (auto simp: nth_Cons' numeral_eq_Suc less_Suc_eq)

lemma take_1_drop: "i + 1 \<le> length sp \<Longrightarrow> take 1 (drop i sp) = [sp ! i]"
  by (simp add: take_Suc_conv_app_nth)

lemma rd_u32: "i + 4 \<le> length sp \<Longrightarrow> rd_u32_le sp (8 * i) = Some (le_word (take 4 (drop i sp)))"
  by (simp add: rd_u32_le_def take_4_drop le_word_def push_bit_or or.assoc)

lemma rd_u16: "i + 2 \<le> length sp \<Longrightarrow> rd_u16_le sp (8 * i) = Some (le_word (take 2 (drop i sp)))"
  by (simp add: rd_u16_le_def take_2_drop le_word_def)

lemma rd_u8: "i + 1 \<le> length sp \<Longrightarrow> rd_u8 sp (8 * i) = Some (le_word (take 1 (drop i sp)))"
  unfolding take_1_drop by (simp add: rd_u8_def le_word_def)

lemma byte_of_masked: "(ucast (x AND 0xFF) :: u8) = ucast x" for x :: u32
  unfolding and_masks by (rule bit_word_eqI) (simp add: bit_simps)

lemma wr_u32: "i + 4 \<le> length sp \<Longrightarrow> wr_u32_le (8 * i) v sp = Some (put_bytes sp i (le_bytes 4 v))"
  by (simp add: wr_u32_le_def mem_set_def byte_of_masked)
    (rule nth_equalityI, auto simp: nth_put_bytes le_bytes_def upt_rec nth_list_update nth_Cons')

lemma wr_u16: "i + 2 \<le> length sp \<Longrightarrow> wr_u16_le (8 * i) v sp = Some (put_bytes sp i (le_bytes 2 v))"
  by (simp add: wr_u16_le_def mem_set_def byte_of_masked)
    (rule nth_equalityI, auto simp: nth_put_bytes le_bytes_def upt_rec nth_list_update nth_Cons')

lemma wr_u8: "i + 1 \<le> length sp \<Longrightarrow> wr_u8 (8 * i) v sp = Some (put_bytes sp i (le_bytes 1 v))"
  by (simp add: wr_u8_def mem_set_def byte_of_masked)
    (rule nth_equalityI, auto simp: nth_put_bytes le_bytes_def upt_rec nth_list_update nth_Cons')

lemma le_bytes_length [simp]: "length (le_bytes n v) = n"
  by (simp add: le_bytes_def)

lemma guest_word_bytes: "le_word (le_bytes 4 v) = v"
proof (rule bit_word_eqI)
  fix n assume "n < LENGTH(32)"
  then consider "n < 8" | "8 \<le> n" "n < 16" | "16 \<le> n" "n < 24" | "24 \<le> n" "n < 32" by force
  then show "bit (le_word (le_bytes 4 v)) n \<longleftrightarrow> bit v n"
    by cases (auto simp: le_word_def le_bytes_def upt_rec bit_simps)
qed

lemma le_bytes_masked:
  "le_bytes 1 (v AND 0xFF) = le_bytes 1 v" "le_bytes 2 (v AND 0xFFFF) = le_bytes 2 v"
  unfolding and_masks le_bytes_def
  by (auto simp: upt_rec intro!: bit_word_eqI simp: bit_simps)

section \<open>The guest in the space\<close>

definition rv_abs :: "vm \<Rightarrow> rv_state" where
  "rv_abs vm =
     \<lparr>rv_pc = le_word (take 4 (drop 0x200 (vm_space vm))),
      rv_regs = (\<lambda>r. if r = 0 then 0 else le_word (take 4 (drop (0x240 + 4 * unat r) (vm_space vm)))),
      rv_mem = drop 0x400 (vm_space vm)\<rparr>"

text \<open>The mailbox ends below the guest memory, and the cell of register 0 holds zero.\<close>

definition rv_ready :: "vm \<Rightarrow> bool" where
  "rv_ready vm \<longleftrightarrow> vm_wf vm \<and> vm_mmio_end vm \<le> 0x2000 \<and> 0x400 \<le> length (vm_space vm)
     \<and> le_word (take 4 (drop 0x240 (vm_space vm))) = 0"

text \<open>What a guest instruction leaves alone: the processor, the mailbox, the state of the run.\<close>

definition rv_keeps :: "vm \<Rightarrow> vm \<Rightarrow> bool" where
  "rv_keeps vm vm' \<longleftrightarrow> take 0x200 (vm_space vm') = take 0x200 (vm_space vm)
     \<and> (\<forall>f. vm_get vm' f = vm_get vm f) \<and> rv_guest_running vm' = rv_guest_running vm
     \<and> rv_guest_stop_reason vm' = rv_guest_stop_reason vm \<and> rv_guest_loaded vm' = rv_guest_loaded vm
     \<and> vm_processor_n vm' = vm_processor_n vm \<and> vm_addr_bits vm' = vm_addr_bits vm
     \<and> vm_space_bits vm' = vm_space_bits vm \<and> vm_tick_counter vm' = vm_tick_counter vm"

lemma rv_keeps_refl: "rv_keeps vm vm"
  by (simp add: rv_keeps_def)

lemma rv_keeps_trans: "rv_keeps a b \<Longrightarrow> rv_keeps b c \<Longrightarrow> rv_keeps a c"
  by (simp add: rv_keeps_def)

text \<open>Writing into the register window or the guest memory.\<close>

lemma vm_get_cong:
  assumes "vm_mmio vm' = vm_mmio vm" and "vm_addr_bits vm' = vm_addr_bits vm"
    and "\<And>p. \<lbrakk>vm_mmio vm f \<le> p; p < vm_mmio vm f + mmio_width (vm_addr_bits vm) f\<rbrakk>
      \<Longrightarrow> bit_at (vm_space vm') p = bit_at (vm_space vm) p"
  shows "vm_get vm' f = vm_get vm f"
proof -
  have "word_field msb_first (bit_at (vm_space vm')) (vm_mmio vm f) (mmio_width (vm_addr_bits vm) f)
      = (word_field msb_first (bit_at (vm_space vm)) (vm_mmio vm f) (mmio_width (vm_addr_bits vm) f) :: u64)"
  proof (rule word_field_cong)
    fix i assume "i < mmio_width (vm_addr_bits vm) f"
    then have "msb_first (mmio_width (vm_addr_bits vm) f) i < mmio_width (vm_addr_bits vm) f" by (rule msb_first_less)
    then show "bit_at (vm_space vm') (vm_mmio vm f + msb_first (mmio_width (vm_addr_bits vm) f) i)
        = bit_at (vm_space vm) (vm_mmio vm f + msb_first (mmio_width (vm_addr_bits vm) f) i)"
      by (intro assms(3)) simp_all
  qed
  then show ?thesis by (simp add: vm_get_def assms(1,2))
qed

definition guest_range :: "nat \<Rightarrow> nat \<Rightarrow> bool" where
  "guest_range i n \<longleftrightarrow> 0x200 \<le> i \<and> i + n \<le> 0x2C0 \<or> 0x400 \<le> i"

lemma guest_write:
  assumes "vm_wf vm" and "vm_mmio_end vm \<le> 0x2000" and "guest_range i (length bs)"
    and "i + length bs \<le> length (vm_space vm)"
  shows "vm_wf (vm\<lparr>vm_space := put_bytes (vm_space vm) i bs\<rparr>)"
    and "rv_keeps vm (vm\<lparr>vm_space := put_bytes (vm_space vm) i bs\<rparr>)"
proof -
  show "vm_wf (vm\<lparr>vm_space := put_bytes (vm_space vm) i bs\<rparr>)"
    using assms(1,4) by (simp add: vm_wf_space)
  have "vm_get (vm\<lparr>vm_space := put_bytes (vm_space vm) i bs\<rparr>) f = vm_get vm f" for f
  proof (rule vm_get_cong)
    fix p assume "vm_mmio vm f \<le> p" "p < vm_mmio vm f + mmio_width (vm_addr_bits vm) f"
    moreover have "0x1600 \<le> vm_mmio_base vm" using assms(1) by (simp add: vm_wf_def)
    ultimately have "0x1600 \<le> p" "p < 0x2000" using mmio_range(1,2) [OF assms(1), of f] assms(2) by linarith+
    then have "0x2C0 \<le> p div 8" "p div 8 < 0x400" by linarith+
    then have "\<not> (i \<le> p div 8 \<and> p div 8 < i + length bs)" using assms(3) by (auto simp: guest_range_def)
    then show "bit_at (vm_space (vm\<lparr>vm_space := put_bytes (vm_space vm) i bs\<rparr>)) p = bit_at (vm_space vm) p"
      using assms(4) by (auto simp: bit_at_def nth_put_bytes)
  qed simp_all
  moreover have "take 0x200 (put_bytes (vm_space vm) i bs) = take 0x200 (vm_space vm)"
    using assms(3,4) by (intro take_put_bytes) (auto simp: guest_range_def)
  ultimately show "rv_keeps vm (vm\<lparr>vm_space := put_bytes (vm_space vm) i bs\<rparr>)"
    by (simp add: rv_keeps_def)
qed

lemma rv_pc_write:
  assumes "rv_ready vm"
  shows "on_space (wr_u32_le g_pc v) vm = Some (vm\<lparr>vm_space := put_bytes (vm_space vm) 0x200 (le_bytes 4 v)\<rparr>)"
    and "rv_ready (vm\<lparr>vm_space := put_bytes (vm_space vm) 0x200 (le_bytes 4 v)\<rparr>)"
    and "rv_keeps vm (vm\<lparr>vm_space := put_bytes (vm_space vm) 0x200 (le_bytes 4 v)\<rparr>)"
    and "rv_abs (vm\<lparr>vm_space := put_bytes (vm_space vm) 0x200 (le_bytes 4 v)\<rparr>) = rv_abs vm\<lparr>rv_pc := v\<rparr>"
proof -
  let ?sp = "vm_space vm"
  have len: "0x204 \<le> length ?sp" using assms by (simp add: rv_ready_def)
  show "on_space (wr_u32_le g_pc v) vm = Some (vm\<lparr>vm_space := put_bytes ?sp 0x200 (le_bytes 4 v)\<rparr>)"
    using wr_u32 [of "0x200" ?sp v] len by (simp add: on_space_def g_pc_def)
  have other: "take n (drop j (put_bytes ?sp 0x200 (le_bytes 4 v))) = take n (drop j ?sp)" if "0x204 \<le> j" for j n
    using len that by (intro take_drop_put_bytes_other) simp_all
  have same: "take 4 (drop 0x200 (put_bytes ?sp 0x200 (le_bytes 4 v))) = le_bytes 4 v"
    using take_drop_put_bytes_same [of "0x200" "le_bytes 4 v" ?sp] len by simp
  show "rv_keeps vm (vm\<lparr>vm_space := put_bytes ?sp 0x200 (le_bytes 4 v)\<rparr>)"
    using assms len by (intro guest_write) (simp_all add: rv_ready_def guest_range_def)
  have "vm_wf (vm\<lparr>vm_space := put_bytes ?sp 0x200 (le_bytes 4 v)\<rparr>)"
    using assms len by (intro guest_write) (simp_all add: rv_ready_def guest_range_def)
  then show "rv_ready (vm\<lparr>vm_space := put_bytes ?sp 0x200 (le_bytes 4 v)\<rparr>)"
    using assms len by (simp add: rv_ready_def other)
  show "rv_abs (vm\<lparr>vm_space := put_bytes ?sp 0x200 (le_bytes 4 v)\<rparr>) = rv_abs vm\<lparr>rv_pc := v\<rparr>"
    using len by (simp add: rv_abs_def same guest_word_bytes other drop_put_bytes_before fun_eq_iff)
qed

text \<open>The three writes of an instruction: a register other than 0, memory, and the commit.\<close>

lemma rv_reg_index: "unat (r :: reg) < 32"
  using unsigned_less [of r, where ?'a = nat] by simp

lemma rv_reg_write:
  assumes "rv_ready vm" and "r \<noteq> 0"
  shows "on_space (wr_u32_le (g_reg_base + unat r * 32) v) vm
      = Some (vm\<lparr>vm_space := put_bytes (vm_space vm) (0x240 + 4 * unat r) (le_bytes 4 v)\<rparr>)"
    and "rv_ready (vm\<lparr>vm_space := put_bytes (vm_space vm) (0x240 + 4 * unat r) (le_bytes 4 v)\<rparr>)"
    and "rv_keeps vm (vm\<lparr>vm_space := put_bytes (vm_space vm) (0x240 + 4 * unat r) (le_bytes 4 v)\<rparr>)"
    and "rv_abs (vm\<lparr>vm_space := put_bytes (vm_space vm) (0x240 + 4 * unat r) (le_bytes 4 v)\<rparr>) = rv_set r v (rv_abs vm)"
proof -
  let ?sp = "vm_space vm" and ?i = "0x240 + 4 * unat r"
  have r: "unat r < 32" "0 < unat r" using rv_reg_index assms(2) by (auto simp: unat_gt_0)
  have len: "0x400 \<le> length ?sp" using assms(1) by (simp add: rv_ready_def)
  have at: "g_reg_base + unat r * 32 = 8 * ?i" by (simp add: g_reg_base_def)
  have fit: "?i + 4 \<le> length ?sp" using len r by simp
  show "on_space (wr_u32_le (g_reg_base + unat r * 32) v) vm
      = Some (vm\<lparr>vm_space := put_bytes ?sp ?i (le_bytes 4 v)\<rparr>)"
    unfolding on_space_def at wr_u32 [OF fit] by simp
  have other: "take n (drop j (put_bytes ?sp ?i (le_bytes 4 v))) = take n (drop j ?sp)"
    if "j + n \<le> ?i \<or> ?i + 4 \<le> j" for j n
    using fit that by (intro take_drop_put_bytes_other) simp_all
  have same: "take 4 (drop ?i (put_bytes ?sp ?i (le_bytes 4 v))) = le_bytes 4 v"
    using take_drop_put_bytes_same [of ?i "le_bytes 4 v" ?sp] fit by simp
  have range: "guest_range ?i 4" using r by (simp add: guest_range_def)
  show "rv_keeps vm (vm\<lparr>vm_space := put_bytes ?sp ?i (le_bytes 4 v)\<rparr>)"
    using assms(1) fit range by (intro guest_write) (simp_all add: rv_ready_def)
  have "vm_wf (vm\<lparr>vm_space := put_bytes ?sp ?i (le_bytes 4 v)\<rparr>)"
    using assms(1) fit range by (intro guest_write) (simp_all add: rv_ready_def)
  then show "rv_ready (vm\<lparr>vm_space := put_bytes ?sp ?i (le_bytes 4 v)\<rparr>)"
    using assms(1) fit r by (simp add: rv_ready_def other)
  have regs: "take 4 (drop (0x240 + 4 * unat q) (put_bytes ?sp ?i (le_bytes 4 v)))
      = (if q = r then le_bytes 4 v else take 4 (drop (0x240 + 4 * unat q) ?sp))" for q :: reg
  proof (cases "q = r")
    case True
    then show ?thesis using same by simp
  next
    case False
    then have "unat q \<noteq> unat r" by (simp add: word_unat_eq_iff)
    then have "0x240 + 4 * unat q + 4 \<le> ?i \<or> ?i + 4 \<le> 0x240 + 4 * unat q" by linarith
    then show ?thesis using False other by simp
  qed
  have pc: "take 4 (drop 0x200 (put_bytes ?sp ?i (le_bytes 4 v))) = take 4 (drop 0x200 ?sp)"
    by (rule other) simp
  have mem: "drop 0x400 (put_bytes ?sp ?i (le_bytes 4 v)) = drop 0x400 ?sp"
    using r fit by (intro drop_put_bytes_before) simp_all
  show "rv_abs (vm\<lparr>vm_space := put_bytes ?sp ?i (le_bytes 4 v)\<rparr>) = rv_set r v (rv_abs vm)"
    unfolding rv_abs_def rv_set_def using assms(2) by (simp add: pc mem regs guest_word_bytes fun_eq_iff)
qed

lemma rv_mem_write:
  assumes "rv_ready vm" and "a + length bs \<le> length (rv_mem (rv_abs vm))"
  shows "rv_ready (vm\<lparr>vm_space := put_bytes (vm_space vm) (0x400 + a) bs\<rparr>)"
    and "rv_keeps vm (vm\<lparr>vm_space := put_bytes (vm_space vm) (0x400 + a) bs\<rparr>)"
    and "rv_abs (vm\<lparr>vm_space := put_bytes (vm_space vm) (0x400 + a) bs\<rparr>)
      = rv_abs vm\<lparr>rv_mem := put_bytes (rv_mem (rv_abs vm)) a bs\<rparr>"
proof -
  let ?sp = "vm_space vm" and ?i = "0x400 + a"
  have fit: "?i + length bs \<le> length ?sp" using assms by (auto simp: rv_abs_def rv_ready_def)
  have other: "take n (drop j (put_bytes ?sp ?i bs)) = take n (drop j ?sp)" if "j + n \<le> ?i" for j n
    using fit that by (intro take_drop_put_bytes_other) simp_all
  have range: "guest_range ?i (length bs)" by (simp add: guest_range_def)
  show "rv_keeps vm (vm\<lparr>vm_space := put_bytes ?sp ?i bs\<rparr>)"
    using assms(1) fit range by (intro guest_write) (simp_all add: rv_ready_def)
  have "vm_wf (vm\<lparr>vm_space := put_bytes ?sp ?i bs\<rparr>)"
    using assms(1) fit range by (intro guest_write) (simp_all add: rv_ready_def)
  then show "rv_ready (vm\<lparr>vm_space := put_bytes ?sp ?i bs\<rparr>)"
    using assms(1) fit by (simp add: rv_ready_def other)
  have regs: "take 4 (drop (0x240 + 4 * unat q) (put_bytes ?sp ?i bs)) = take 4 (drop (0x240 + 4 * unat q) ?sp)"
    for q :: reg
    by (rule other) (use rv_reg_index [of q] in simp)
  have pc: "take 4 (drop 0x200 (put_bytes ?sp ?i bs)) = take 4 (drop 0x200 ?sp)" by (rule other) simp
  have mem: "drop 0x400 (put_bytes ?sp ?i bs) = put_bytes (drop 0x400 ?sp) a bs"
    using fit drop_put_bytes [of "0x400" ?i ?sp bs] by simp
  show "rv_abs (vm\<lparr>vm_space := put_bytes ?sp ?i bs\<rparr>)
      = rv_abs vm\<lparr>rv_mem := put_bytes (rv_mem (rv_abs vm)) a bs\<rparr>"
    unfolding rv_abs_def by (simp add: pc mem regs fun_eq_iff)
qed

lemma put_bytes_id: "a + length bs \<le> length m \<Longrightarrow> take (length bs) (drop a m) = bs \<Longrightarrow> put_bytes m a bs = m"
  by (metis add.commute append_take_drop_id drop_drop put_bytes_def)

lemma u8_high: "8 \<le> k \<Longrightarrow> \<not> bit (b :: u8) k"
  using bit_imp_le_length [of b k] by auto

lemma guest_bytes_word: "length bs = 4 \<Longrightarrow> le_bytes 4 (le_word bs) = bs"
proof -
  assume "length bs = 4"
  then obtain a b c d where bs: "bs = [a, b, c, d]" by (auto simp: numeral_eq_Suc length_Suc_conv)
  show ?thesis
    unfolding bs le_word_def le_bytes_def
    by (auto simp: upt_rec intro!: bit_word_eqI simp: bit_simps u8_high)
qed

lemma rv_commit:
  assumes "rv_ready vm"
  obtains vm' where "rv32_guest_commit v vm = Some vm'" and "rv_ready vm'" and "rv_keeps vm vm'"
    and "rv_abs vm' = rv_abs vm\<lparr>rv_pc := v\<rparr>"
proof -
  let ?vm1 = "vm\<lparr>vm_space := put_bytes (vm_space vm) 0x200 (le_bytes 4 v)\<rparr>"
  note w = rv_pc_write [OF assms, of v]
  have z: "le_word (take 4 (drop 0x240 (vm_space ?vm1))) = 0" and len: "0x400 \<le> length (vm_space ?vm1)"
    using w(2) by (simp_all add: rv_ready_def)
  then have "take 4 (drop 0x240 (vm_space ?vm1)) = le_bytes 4 0"
    using guest_bytes_word [of "take 4 (drop 0x240 (vm_space ?vm1))"] by simp
  then have "put_bytes (vm_space ?vm1) 0x240 (le_bytes 4 0) = vm_space ?vm1"
    using len by (intro put_bytes_id) simp_all
  moreover have "wr_u32_le (g_reg_base + 0) 0 (vm_space ?vm1) = Some (put_bytes (vm_space ?vm1) 0x240 (le_bytes 4 0))"
    using wr_u32 [of "0x240" "vm_space ?vm1" 0] len by (simp add: g_reg_base_def)
  ultimately have "on_space (wr_u32_le (g_reg_base + 0) 0) ?vm1 = Some ?vm1"
    by (simp add: on_space_def)
  then have "rv32_guest_commit v vm = Some ?vm1" by (simp add: rv32_guest_commit_def w(1))
  then show ?thesis using w(2,3,4) by (rule that)
qed

text \<open>Trace and step counter do not show in the guest.\<close>

lemma rv_trace_append_same:
  "rv_ready (rv32_trace_append tr vm) \<longleftrightarrow> rv_ready vm" "rv_abs (rv32_trace_append tr vm) = rv_abs vm"
  "rv_keeps vm (rv32_trace_append tr vm)"
proof -
  consider rs where "rv32_trace_append tr vm = vm\<lparr>rv_trace_records := rs\<rparr>"
    | d where "rv32_trace_append tr vm = vm\<lparr>rv_trace_dropped := d\<rparr>"
    by (cases "length (rv_trace_records vm) < rv_trace_capacity vm") (auto simp: rv32_trace_append_def)
  note cases = this
  from cases show "rv_ready (rv32_trace_append tr vm) \<longleftrightarrow> rv_ready vm"
    by cases (simp_all add: rv_ready_def)
  from cases show "rv_abs (rv32_trace_append tr vm) = rv_abs vm"
    by cases (simp_all add: rv_abs_def fun_eq_iff)
  from cases show "rv_keeps vm (rv32_trace_append tr vm)"
    by cases (simp_all add: rv_keeps_def)
qed

lemma rv_steps_same:
  "rv_ready (vm\<lparr>rv_guest_steps := k\<rparr>) \<longleftrightarrow> rv_ready vm" "rv_abs (vm\<lparr>rv_guest_steps := k\<rparr>) = rv_abs vm"
  "rv_keeps vm (vm\<lparr>rv_guest_steps := k\<rparr>)"
  by (simp_all add: rv_ready_def rv_abs_def rv_keeps_def fun_eq_iff)

section \<open>Stopping\<close>

text \<open>What the guest observes when it is stopped.\<close>

definition rv_stopped :: "vm \<Rightarrow> rv_stop_reason \<Rightarrow> vm \<Rightarrow> bool" where
  "rv_stopped vm r vm' \<longleftrightarrow> rv_ready vm' \<and> rv_abs vm' = rv_abs vm
     \<and> take 0x200 (vm_space vm') = take 0x200 (vm_space vm)
     \<and> (\<forall>f. vm_get vm' f = (if f = Halt_bit then 1 else vm_get vm f))
     \<and> \<not> rv_guest_running vm' \<and> rv_guest_stop_reason vm' = r"

lemma vm_put_bytes_outside:
  assumes "vm_wf vm" and "i < vm_mmio_base vm div 8 \<or> vm_mmio_end vm \<le> 8 * i" and "i < length (vm_space vm)"
  shows "vm_space (vm_put vm f v) ! i = vm_space vm ! i"
proof (rule bit_word_eqI)
  fix k assume "k < LENGTH(8)"
  then have k: "k < 8" by simp
  have "bit_at (vm_space (vm_put vm f v)) (8 * i + (7 - k)) = bit_at (vm_space vm) (8 * i + (7 - k))"
    using assms(2) by (intro vm_put_outside [OF assms(1)]) auto
  then show "bit (vm_space (vm_put vm f v) ! i) k \<longleftrightarrow> bit (vm_space vm ! i) k"
    using k assms(3) bit_at_byte [of i _ "7 - k"] vm_put_space(1) [OF assms(1), of f v] by simp
qed

lemma rv_put_space:
  assumes "rv_ready vm"
  shows "take 0x2C0 (vm_space (vm_put vm f v)) = take 0x2C0 (vm_space vm)"
    and "drop 0x400 (vm_space (vm_put vm f v)) = drop 0x400 (vm_space vm)"
proof -
  have wf: "vm_wf vm" and e: "vm_mmio_end vm \<le> 0x2000" using assms by (simp_all add: rv_ready_def)
  note b = vm_wf_base [OF wf]
  note len = vm_put_space(1) [OF wf, of f v]
  have low: "i < 0x2C0 \<Longrightarrow> i < vm_mmio_base vm div 8" for i using b by linarith
  have high: "0x400 \<le> i \<Longrightarrow> vm_mmio_end vm \<le> 8 * i" for i using e by linarith
  show "take 0x2C0 (vm_space (vm_put vm f v)) = take 0x2C0 (vm_space vm)"
    by (rule nth_equalityI) (use low len in \<open>auto simp: vm_put_bytes_outside [OF wf]\<close>)
  show "drop 0x400 (vm_space (vm_put vm f v)) = drop 0x400 (vm_space vm)"
  proof (rule nth_equalityI)
    fix i assume "i < length (drop 0x400 (vm_space (vm_put vm f v)))"
    then have i: "0x400 + i < length (vm_space vm)" using len by simp
    show "drop 0x400 (vm_space (vm_put vm f v)) ! i = drop 0x400 (vm_space vm) ! i"
      using vm_put_bytes_outside [OF wf disjI2 [OF high] i, of f v] i len by simp
  qed (simp add: len)
qed

lemma take_drop_below: "j + n \<le> k \<Longrightarrow> take k xs = take k ys \<Longrightarrow> take n (drop j xs) = take n (drop j ys)"
proof -
  assume *: "j + n \<le> k" "take k xs = take k ys"
  have "take n (drop j zs) = take n (drop j (take k zs))" for zs :: "'a list"
    using *(1) by (simp add: drop_take min_def)
  then show ?thesis using *(2) by metis
qed

lemma rv_halt:
  assumes "rv_ready vm"
  obtains vm' where "rv32_guest_stop r vm = Some vm'" and "rv_stopped vm r vm'"
proof -
  let ?vm1 = "vm\<lparr>rv_guest_stop_reason := r\<rparr>"
  have ready1: "rv_ready ?vm1" using assms by (simp add: rv_ready_def)
  then have wf: "vm_wf ?vm1" unfolding rv_ready_def by blast
  let ?vm2 = "vm_put ?vm1 Halt_bit 1"
  note sp = rv_put_space [OF ready1, of Halt_bit 1]
  have low: "take n (drop j (vm_space ?vm2)) = take n (drop j (vm_space vm))" if "j + n \<le> 0x2C0" for j n
    using take_drop_below [OF that sp(1)] by simp
  have regs: "take 4 (drop (0x240 + 4 * unat q) (vm_space ?vm2)) = take 4 (drop (0x240 + 4 * unat q) (vm_space vm))"
    for q :: reg
    by (rule low) (use rv_reg_index [of q] in simp)
  have wf2: "vm_wf ?vm2" using wf by simp
  have r2: "rv_ready (?vm2\<lparr>rv_guest_running := False\<rparr>)"
    using assms low [of "0x240" 4] wf2 vm_put_space(1) [OF wf, of Halt_bit 1]
    by (simp add: rv_ready_def)
  have abs: "rv_abs (?vm2\<lparr>rv_guest_running := False\<rparr>) = rv_abs vm"
    unfolding rv_abs_def using low [of "0x200" 4] sp(2) regs by (simp add: fun_eq_iff)
  have "vm_get ?vm2 f = (if f = Halt_bit then 1 else vm_get ?vm1 f)" for f
    using wf by (simp add: vm_get_put)
  then have "rv_stopped vm r (?vm2\<lparr>rv_guest_running := False\<rparr>)"
    using r2 abs low [of 0 "0x200"] unfolding rv_stopped_def by simp
  moreover have "m_set Halt_bit True ?vm1 = Some ?vm2"
    using m_set_put [OF wf, of Halt_bit True] by simp
  ultimately show ?thesis using that by (simp add: rv32_guest_stop_def)
qed

text \<open>
  The result of a step of the code against that of the specification, from the machine \<open>vm\<close>
  whose guest is \<open>rv_abs vm\<close>.
\<close>

definition rv_simulates :: "vm \<Rightarrow> vm option \<Rightarrow> rv_result \<Rightarrow> bool" where
  "rv_simulates vm res spec \<longleftrightarrow> (case res of None \<Rightarrow> False | Some vm' \<Rightarrow>
     (case spec of
        Rv_next st \<Rightarrow> rv_ready vm' \<and> rv_abs vm' = st \<and> rv_keeps vm vm'
      | Rv_stop r \<Rightarrow> rv_stopped vm r vm'))"

lemma rv_stopped_keeps: "rv_keeps vm vm1 \<Longrightarrow> rv_abs vm1 = rv_abs vm \<Longrightarrow> rv_stopped vm1 r vm' \<Longrightarrow> rv_stopped vm r vm'"
  by (simp add: rv_stopped_def rv_keeps_def)

lemma rv_simulates_keeps:
  "\<lbrakk>rv_keeps vm vm1; rv_abs vm1 = rv_abs vm; rv_simulates vm1 res spec\<rbrakk> \<Longrightarrow> rv_simulates vm res spec"
  by (auto simp: rv_simulates_def intro: rv_keeps_trans rv_stopped_keeps split: option.splits rv_result.splits)

lemma rv_stop_simulates:
  assumes "rv_ready vm"
  shows "rv_simulates vm (rv32_guest_stop r (rv32_trace_append tr vm)) (Rv_stop r)"
proof -
  obtain vm' where "rv32_guest_stop r (rv32_trace_append tr vm) = Some vm'"
      "rv_stopped (rv32_trace_append tr vm) r vm'"
    by (rule rv_halt [of "rv32_trace_append tr vm" r]) (use assms in \<open>simp_all add: rv_trace_append_same\<close>)
  then show ?thesis
    using rv_stopped_keeps [OF rv_trace_append_same(3,2)] by (simp add: rv_simulates_def)
qed

lemma rv_unsupported_simulates: "rv_ready vm \<Longrightarrow> rv_simulates vm (rv32_unsupported tr vm) (Rv_stop RV_STOP_UNSUPPORTED)"
  unfolding rv32_unsupported_def by (rule rv_stop_simulates)

lemma rv_commit_simulates:
  assumes "rv_ready vm" and "rv_abs vm = st"
  shows "rv_simulates vm (rv32_guest_commit v (rv32_trace_append tr vm)) (rv_jump v st)"
proof -
  obtain vm' where "rv32_guest_commit v (rv32_trace_append tr vm) = Some vm'" "rv_ready vm'"
      "rv_keeps (rv32_trace_append tr vm) vm'"
      "rv_abs vm' = rv_abs (rv32_trace_append tr vm)\<lparr>rv_pc := v\<rparr>"
    by (rule rv_commit [of "rv32_trace_append tr vm" v]) (use assms in \<open>simp_all add: rv_trace_append_same\<close>)
  then show ?thesis
    using assms rv_keeps_trans [OF rv_trace_append_same(3)]
    by (simp add: rv_simulates_def rv_jump_def rv_trace_append_same)
qed

lemma rv_access_check:
  assumes "rv_ready vm" and "rv_abs vm = st" and n: "n = 1 \<or> n = 2 \<or> n = 4"
    and ok: "\<And>ga. \<lbrakk>unat a + n \<le> length (rv_mem st); ga = 8 * (0x400 + unat a)\<rbrakk> \<Longrightarrow>
      rv_simulates vm (g vm ga) r"
  shows "rv_simulates vm (do {
       (vm, ga) \<leftarrow> rv32_addr_check a n n vm;
       case ga of None \<Rightarrow> Some (rv32_mem_fault w tr vm) | Some ga \<Rightarrow> g vm ga }) (rv_access st a n r)"
proof -
  have align: "n > 1 \<and> a AND of_nat (n - 1) \<noteq> 0 \<longleftrightarrow> unat a mod n \<noteq> 0"
  proof -
    have "unat (a AND 1) = take_bit 1 (unat a)" "unat (a AND 3) = take_bit 2 (unat a)"
      by (simp_all only: and_masks unsigned_take_bit_eq)
    then have "unat (a AND 1) = unat a mod 2" "unat (a AND 3) = unat a mod 4"
      by (simp_all add: take_bit_eq_mod)
    then show ?thesis using n by (auto simp: unat_eq_zero [symmetric] simp del: unat_eq_zero)
  qed
  have fault: "rv_simulates vm (do { vm \<leftarrow> rv32_guest_stop q vm; Some (rv32_mem_fault w tr vm) }) (Rv_stop q)" for q
  proof -
    obtain vm' where vm': "rv32_guest_stop q vm = Some vm'" "rv_stopped vm q vm'"
      by (rule rv_halt [OF assms(1)])
    have k: "rv_keeps vm' (rv32_mem_fault w tr vm')" "rv_abs (rv32_mem_fault w tr vm') = rv_abs vm'"
        "rv_ready (rv32_mem_fault w tr vm') = rv_ready vm'"
      by (simp_all add: rv32_mem_fault_def rv_trace_append_same)
    have "rv_stopped vm q (rv32_mem_fault w tr vm')"
      using vm'(2) k by (simp add: rv_stopped_def rv_keeps_def)
    then show ?thesis by (simp add: vm'(1) rv_simulates_def)
  qed
  have len: "vm_space_bits vm = 8 * length (vm_space vm)" "length (rv_mem st) = length (vm_space vm) - 0x400"
    "0x400 \<le> length (vm_space vm)"
    using assms(1,2) by (auto simp: rv_ready_def rv_abs_def vm_wf_fields(1))
  have bound: "vm_space_bits vm < g_mem_base + unat a * 8 + n * 8 \<longleftrightarrow> length (rv_mem st) < unat a + n"
    using len by (auto simp: g_mem_base_def)
  have ga: "g_mem_base + unat a * 8 = 8 * (0x400 + unat a)" by (simp add: g_mem_base_def)
  have check: "rv32_addr_check a n n vm =
     (if unat a mod n \<noteq> 0 then do { vm \<leftarrow> rv32_guest_stop RV_STOP_ALIGN vm; Some (vm, None) }
      else if length (rv_mem st) < unat a + n then do { vm \<leftarrow> rv32_guest_stop RV_STOP_BOUNDS vm; Some (vm, None) }
      else Some (vm, Some (8 * (0x400 + unat a))))"
    unfolding rv32_addr_check_def Let_def align bound unfolding ga ..
  consider "unat a mod n \<noteq> 0" | "unat a mod n = 0" "length (rv_mem st) < unat a + n"
    | "unat a mod n = 0" "unat a + n \<le> length (rv_mem st)" by linarith
  then show ?thesis
  proof cases
    case 1
    then show ?thesis
      using fault [of RV_STOP_ALIGN] unfolding check
      by (cases "rv32_guest_stop RV_STOP_ALIGN vm") (simp_all add: rv_access_def)
  next
    case 2
    then show ?thesis
      using fault [of RV_STOP_BOUNDS] unfolding check
      by (cases "rv32_guest_stop RV_STOP_BOUNDS vm") (simp_all add: rv_access_def)
  next
    case 3
    then show ?thesis using ok [OF 3(2) refl] unfolding check by (simp add: rv_access_def)
  qed
qed

section \<open>Instructions\<close>

lemma rv_reg_read:
  assumes "rv_ready vm"
  shows "rv_reg_get vm (x AND 0x1F) = Some (rv_regs (rv_abs vm) (ucast x))"
proof -
  let ?r = "ucast x :: reg"
  have r: "unat (x AND 0x1F) = unat ?r" by (rule field_unat)
  have at: "g_reg_base + unat ?r * 32 = 8 * (0x240 + 4 * unat ?r)" by (simp add: g_reg_base_def)
  have fit: "0x240 + 4 * unat ?r + 4 \<le> length (vm_space vm)"
    using assms rv_reg_index [of ?r] by (simp add: rv_ready_def)
  have "rv_reg_get vm (x AND 0x1F) = Some (le_word (take 4 (drop (0x240 + 4 * unat ?r) (vm_space vm))))"
    unfolding rv_reg_get_def r at by (rule rd_u32 [OF fit])
  then show ?thesis using assms by (auto simp: rv_abs_def rv_ready_def)
qed

lemma rv_jump_keeps:
  "\<lbrakk>rv_keeps vm vm1; rv_simulates vm1 res (rv_jump v st)\<rbrakk> \<Longrightarrow> rv_simulates vm res (rv_jump v st)"
  by (cases res) (auto simp: rv_simulates_def rv_jump_def intro: rv_keeps_trans)

lemma rv_write_rd_simulates:
  assumes "rv_ready vm" and "rv_abs vm = st"
  shows "rv_simulates vm (rv32_write_rd (x AND 0x1F) v w next_pc tr vm) (rv_jump next_pc (rv_set (ucast x) v st))"
proof (cases "(ucast x :: reg) = 0")
  case True
  then have z: "x AND 0x1F = 0" by (simp add: field_ucast)
  have "rv_set (ucast x) v st = st" using True by (simp add: rv_set_def)
  then show ?thesis
    using rv_commit_simulates [OF assms] by (simp add: rv32_write_rd_def rv_reg_put_def z Let_def)
next
  case False
  let ?vm = "vm\<lparr>vm_space := put_bytes (vm_space vm) (0x240 + 4 * unat (ucast x :: reg)) (le_bytes 4 v)\<rparr>"
  note w = rv_reg_write [OF assms(1) False, of v]
  have z: "x AND 0x1F \<noteq> 0" using False ucast_eq_iff(3) [of "ucast x" 0] by (simp add: field_ucast)
  have "rv_simulates ?vm (rv32_guest_commit next_pc (rv32_trace_append tr' ?vm))
      (rv_jump next_pc (rv_set (ucast x) v st))" for tr'
    by (rule rv_commit_simulates) (use w(2,4) assms(2) in simp_all)
  then have "rv_simulates vm (rv32_guest_commit next_pc (rv32_trace_append tr' ?vm))
      (rv_jump next_pc (rv_set (ucast x) v st))" for tr'
    by (rule rv_jump_keeps [OF w(3)])
  then show ?thesis
    using z w(1) by (simp add: rv32_write_rd_def rv_reg_put_def field_unat Let_def)
qed

lemmas rv_fields = rv_rd_def rv_rs1_def rv_rs2_def rv_funct3_def rv_funct7_def rv_opcode_def

lemma funct3_eq:
  "drop_bit 12 insn AND 0x7 = ucast (rv_funct3 insn)" for insn :: u32
  by (simp add: field_ucast rv_funct3_def)

lemma funct7_eq: "drop_bit 25 insn AND 0x7F = ucast (rv_funct7 insn)" for insn :: u32
  by (simp add: field_ucast rv_funct7_def)

lemma funct7_zero: "drop_bit 25 insn \<noteq> 0 \<longleftrightarrow> rv_funct7 insn \<noteq> 0" for insn :: u32
proof -
  have "drop_bit 25 insn = ucast (rv_funct7 insn)"
    unfolding rv_funct7_def by (rule bit_word_eqI) (auto simp: bit_simps dest: bit_imp_le_length)
  then show ?thesis using ucast_eq_iff(2) [of "rv_funct7 insn" 0] by simp
qed

lemma funct3_cases:
  fixes f :: "3 word"
  obtains "f = 0" | "f = 1" | "f = 2" | "f = 3" | "f = 4" | "f = 5" | "f = 6" | "f = 7"
proof -
  have "unat f < 8" using unsigned_less [of f, where ?'a = nat] by simp
  then have "unat f = 0 \<or> unat f = 1 \<or> unat f = 2 \<or> unat f = 3 \<or> unat f = 4 \<or> unat f = 5 \<or> unat f = 6 \<or> unat f = 7"
    by linarith
  then have "f = 0 \<or> f = 1 \<or> f = 2 \<or> f = 3 \<or> f = 4 \<or> f = 5 \<or> f = 6 \<or> f = 7"
    by (simp add: word_unat_eq_iff)
  then show thesis using that by blast
qed

lemma ucast_7_eq: "(ucast (z :: 7 word) :: u32) = 0 \<longleftrightarrow> z = 0" "(ucast z :: u32) = 0x20 \<longleftrightarrow> z = 0x20"
  using ucast_eq_iff(2) [of z 0] ucast_eq_iff(2) [of z "0x20"] by simp_all

lemma shamt_eq: "unat (b AND 0x1F) = unat (ucast b :: 5 word)" for b :: u32
  by (rule field_unat)

lemma signed_shift: "signed_drop_bit n x = (word_of_int (sint x div 2 ^ n) :: u32)"
proof -
  have "signed_drop_bit n x = word_of_int (sint (signed_drop_bit n x))" by simp
  then show ?thesis by (simp only: sint_signed_drop_bit_eq drop_bit_eq_div)
qed

lemma alu_imm_value:
  "rv32_imm_value insn (ucast (rv_funct3 insn)) a (imm_I insn)
    = map_option (\<lambda>alu. rv_alu alu a (imm_I insn)) (decode_alu_imm (rv_funct3 insn) (rv_funct7 insn))"
proof -
  have sh: "unat (ucast (imm_I insn) :: 5 word) = unat (drop_bit 20 insn AND 0x1F)"
  proof -
    have "(ucast (imm_I insn) :: 5 word) = ucast (drop_bit 20 insn)"
      unfolding imm_I_def by (rule bit_word_eqI) (auto simp: bit_simps bit_word_scast_iff)
    then show ?thesis by (simp add: field_unat)
  qed
  define f where "f = rv_funct3 insn"
  define i where "i = imm_I insn"
  note defs = rv32_imm_value_def decode_alu_imm_def rv_alu_def funct7_eq funct7_zero ucast_7_eq Let_def
    sh [folded i_def, symmetric] option.map alu_op.case
  have "rv32_imm_value insn (ucast f) a i = map_option (\<lambda>alu. rv_alu alu a i) (decode_alu_imm f (rv_funct7 insn))"
  proof (cases rule: funct3_cases [of f])
    case 3
    then show ?thesis unfolding defs by (simp add: word_sless_alt of_bool_def)
  next
    case 4
    then show ?thesis unfolding defs by (simp add: word_less_nat_alt of_bool_def)
  next
    case 6
    then show ?thesis unfolding defs by (simp add: signed_shift)
  qed (unfold defs, simp_all)
  then show ?thesis unfolding f_def i_def .
qed

lemma alu_reg_value:
  "rv32_op_value (ucast (rv_funct7 insn)) (ucast (rv_funct3 insn)) a b
    = map_option (\<lambda>alu. rv_alu alu a b) (decode_alu_reg (rv_funct3 insn) (rv_funct7 insn))"
  by (cases rule: funct3_cases [of "rv_funct3 insn"])
    (simp_all add: rv32_op_value_def decode_alu_reg_def rv_alu_def ucast_7_eq shamt_eq
      signed_shift word_sless_alt word_less_nat_alt of_bool_def)

lemma branch_value:
  "rv32_take (ucast (rv_funct3 insn)) a b = map_option (\<lambda>c. rv_cond c a b) (decode_branch (rv_funct3 insn))"
  by (cases rule: funct3_cases [of "rv_funct3 insn"])
    (simp_all add: rv32_take_def decode_branch_def rv_cond_def word_sless_alt word_sle_eq word_less_nat_alt word_le_nat_alt)

lemma load_width: "rv32_load_width (ucast (rv_funct3 insn)) = map_option fst (decode_load (rv_funct3 insn))"
  by (cases rule: funct3_cases [of "rv_funct3 insn"]) (simp_all add: rv32_load_width_def decode_load_def)

lemma store_width: "rv32_store_width (ucast (rv_funct3 insn)) = decode_store (rv_funct3 insn)"
  by (cases rule: funct3_cases [of "rv_funct3 insn"]) (simp_all add: rv32_store_width_def decode_store_def)

lemma exec_lui: "\<lbrakk>rv_ready vm; rv_abs vm = st; rv_pc st = pc\<rbrakk> \<Longrightarrow>
    rv_simulates vm (rv32_lui pc insn tr vm) (rv_exec (Lui (rv_rd insn) (imm_U insn)) st)"
  by (auto simp: rv32_lui_def Let_def rv_rd_def imm_U_eq intro: rv_write_rd_simulates)

lemma exec_auipc: "\<lbrakk>rv_ready vm; rv_abs vm = st; rv_pc st = pc\<rbrakk> \<Longrightarrow>
    rv_simulates vm (rv32_auipc pc insn tr vm) (rv_exec (Auipc (rv_rd insn) (imm_U insn)) st)"
  by (auto simp: rv32_auipc_def Let_def rv_rd_def imm_U_eq intro: rv_write_rd_simulates)

lemma exec_jal: "\<lbrakk>rv_ready vm; rv_abs vm = st; rv_pc st = pc\<rbrakk> \<Longrightarrow>
    rv_simulates vm (rv32_jal pc insn tr vm) (rv_exec (Jal (rv_rd insn) (imm_J insn)) st)"
  unfolding rv32_jal_def Let_def imm_J_eq by (auto simp: rv_rd_def intro: rv_write_rd_simulates)

text \<open>The result of the specification for an instruction that may not decode.\<close>

definition rv_run :: "rv_insn option \<Rightarrow> rv_state \<Rightarrow> rv_result" where
  "rv_run i st = (case i of None \<Rightarrow> Rv_stop RV_STOP_UNSUPPORTED | Some i \<Rightarrow> rv_exec i st)"

lemma exec_jalr:
  assumes "rv_ready vm" and "rv_abs vm = st" and "rv_pc st = pc"
  shows "rv_simulates vm (rv32_jalr pc insn tr vm)
    (rv_run (if rv_funct3 insn = 0 then Some (Jalr (rv_rd insn) (rv_rs1 insn) (imm_I insn)) else None) st)"
proof -
  have f3: "drop_bit 12 insn AND 0x7 \<noteq> 0 \<longleftrightarrow> rv_funct3 insn \<noteq> 0"
    using ucast_eq_iff(1) [of "rv_funct3 insn" 0] by (simp add: funct3_eq)
  show ?thesis
    using assms f3
    by (auto simp: rv32_jalr_def Let_def rv_run_def rv_rd_def rv_rs1_def imm_I_eq rv_reg_read
        intro: rv_write_rd_simulates rv_unsupported_simulates)
qed

lemma exec_op_imm:
  assumes "rv_ready vm" and "rv_abs vm = st" and "rv_pc st = pc"
  shows "rv_simulates vm (rv32_op_imm pc insn tr vm)
    (rv_run (map_option (\<lambda>a. Alu_imm a (rv_rd insn) (rv_rs1 insn) (imm_I insn))
      (decode_alu_imm (rv_funct3 insn) (rv_funct7 insn))) st)"
  unfolding rv32_op_imm_def Let_def rv_reg_read [OF assms(1)] imm_I_eq funct3_eq
  using assms
  by (cases "decode_alu_imm (rv_funct3 insn) (rv_funct7 insn)")
    (auto simp: alu_imm_value rv_run_def rv_rd_def rv_rs1_def
      intro: rv_write_rd_simulates rv_unsupported_simulates)

lemma exec_op:
  assumes "rv_ready vm" and "rv_abs vm = st" and "rv_pc st = pc"
  shows "rv_simulates vm (rv32_op pc insn tr vm)
    (rv_run (map_option (\<lambda>a. Alu_reg a (rv_rd insn) (rv_rs1 insn) (rv_rs2 insn))
      (decode_alu_reg (rv_funct3 insn) (rv_funct7 insn))) st)"
  unfolding rv32_op_def Let_def rv_reg_read [OF assms(1)] funct3_eq funct7_eq
  using assms
  by (cases "decode_alu_reg (rv_funct3 insn) (rv_funct7 insn)")
    (auto simp: alu_reg_value rv_run_def rv_rd_def rv_rs1_def rv_rs2_def
      intro: rv_write_rd_simulates rv_unsupported_simulates)

lemma exec_branch:
  assumes "rv_ready vm" and "rv_abs vm = st" and "rv_pc st = pc"
  shows "rv_simulates vm (rv32_branch pc insn tr vm)
    (rv_run (map_option (\<lambda>c. Branch_if c (rv_rs1 insn) (rv_rs2 insn) (imm_B insn))
      (decode_branch (rv_funct3 insn))) st)"
  unfolding rv32_branch_def Let_def rv_reg_read [OF assms(1)] imm_B_eq funct3_eq
  using assms
  by (cases "decode_branch (rv_funct3 insn)")
    (auto simp: branch_value rv_run_def rv_rs1_def rv_rs2_def
      intro: rv_commit_simulates rv_unsupported_simulates)

text \<open>Loads and stores.\<close>

lemma decode_load_cases:
  assumes "decode_load f = Some (n, s)"
  obtains "f = 0" "n = 1" "s" | "f = 1" "n = 2" "s" | "f = 2" "n = 4" "\<not> s" | "f = 4" "n = 1" "\<not> s"
    | "f = 5" "n = 2" "\<not> s"
  using assms by (auto simp: decode_load_def split: if_splits)

lemma load_value:
  assumes "decode_load (rv_funct3 insn) = Some (n, s)" and "i + n \<le> length sp"
  shows "rv32_load_value (ucast (rv_funct3 insn)) sp (8 * i)
    = Some (let v = le_word (take n (drop i sp)) in if s then signed_take_bit (8 * n - 1) v else v)"
  using assms(1)
  by (cases rule: decode_load_cases)
    (use assms(2) in \<open>simp_all add: rv32_load_value_def rd_u8 rd_u16 rd_u32 sext_imm8_eq sext_imm16_eq Let_def
      del: take_Suc_conv_app_nth\<close>)

lemma exec_load:
  assumes "rv_ready vm" and "rv_abs vm = st" and "rv_pc st = pc"
  shows "rv_simulates vm (rv32_load pc insn tr vm)
    (rv_run (map_option (\<lambda>(n, s). Load_mem n s (rv_rd insn) (rv_rs1 insn) (imm_I insn))
      (decode_load (rv_funct3 insn))) st)"
proof (cases "decode_load (rv_funct3 insn)")
  case None
  then show ?thesis
    unfolding rv32_load_def Let_def rv_reg_read [OF assms(1)] imm_I_eq funct3_eq load_width
    using assms(1) by (auto simp: rv_run_def intro: rv_unsupported_simulates)
next
  case (Some p)
  obtain n s where p: "p = (n, s)" by (cases p)
  note dec = Some [unfolded p]
  have n: "n = 1 \<or> n = 2 \<or> n = 4" using dec by (cases rule: decode_load_cases) auto
  let ?a = "rv_regs st (rv_rs1 insn) + imm_I insn"
  have "rv_simulates vm (do {
       (vm, ga) \<leftarrow> rv32_addr_check ?a n n vm;
       case ga of None \<Rightarrow> Some (rv32_mem_fault w tr' vm) | Some ga \<Rightarrow> do {
         v \<leftarrow> rv32_load_value (ucast (rv_funct3 insn)) (vm_space vm) ga;
         rv32_write_rd (drop_bit 7 insn AND 0x1F) v w' (pc + 4) tr' vm } })
     (rv_access st ?a n (rv_jump (rv_pc st + 4) (rv_set (rv_rd insn) (rv_loaded st ?a n s) st)))" for w w' tr'
  proof (rule rv_access_check [OF assms(1,2) n])
    fix ga assume fit: "unat ?a + n \<le> length (rv_mem st)" and ga: "ga = 8 * (0x400 + unat ?a)"
    have mem: "rv_mem st = drop 0x400 (vm_space vm)" using assms(2) by (auto simp: rv_abs_def)
    have len: "0x400 + unat ?a + n \<le> length (vm_space vm)"
      using fit assms(1) by (auto simp: mem rv_ready_def)
    have "rv32_load_value (ucast (rv_funct3 insn)) (vm_space vm) ga = Some (rv_loaded st ?a n s)"
      unfolding ga using load_value [OF dec len] by (simp add: rv_loaded_def mem add.commute)
    then show "rv_simulates vm (do {
         v \<leftarrow> rv32_load_value (ucast (rv_funct3 insn)) (vm_space vm) ga;
         rv32_write_rd (drop_bit 7 insn AND 0x1F) v w' (pc + 4) tr' vm })
       (rv_jump (rv_pc st + 4) (rv_set (rv_rd insn) (rv_loaded st ?a n s) st))"
      using rv_write_rd_simulates [OF assms(1,2)] by (simp add: assms(3) rv_rd_def)
  qed
  then show ?thesis
    unfolding rv32_load_def Let_def rv_reg_read [OF assms(1)] imm_I_eq funct3_eq load_width
    using assms(2) dec by (simp add: rv_run_def rv_rs1_def Let_def)
qed

lemma decode_store_cases:
  assumes "decode_store f = Some n"
  obtains "f = 0" "n = 1" | "f = 1" "n = 2" | "f = 2" "n = 4"
  using assms by (auto simp: decode_store_def split: if_splits)

lemma store_value:
  assumes "decode_store (rv_funct3 insn) = Some n" and "i + n \<le> length sp"
  shows "rv32_store_value (ucast (rv_funct3 insn)) (8 * i) v sp = Some (put_bytes sp i (le_bytes n v))"
  using assms(1)
  by (cases rule: decode_store_cases)
    (use assms(2) in \<open>simp_all add: rv32_store_value_def wr_u8 wr_u16 wr_u32 le_bytes_masked [unfolded One_nat_def] le_bytes_masked\<close>)

lemma exec_store:
  assumes "rv_ready vm" and "rv_abs vm = st" and "rv_pc st = pc"
  shows "rv_simulates vm (rv32_store pc insn tr vm)
    (rv_run (map_option (\<lambda>n. Store_mem n (rv_rs1 insn) (rv_rs2 insn) (imm_S insn))
      (decode_store (rv_funct3 insn))) st)"
proof (cases "decode_store (rv_funct3 insn)")
  case None
  then show ?thesis
    unfolding rv32_store_def Let_def rv_reg_read [OF assms(1)] imm_S_eq funct3_eq store_width
    using assms(1) by (auto simp: rv_run_def intro: rv_unsupported_simulates)
next
  case (Some n)
  have n: "n = 1 \<or> n = 2 \<or> n = 4" using Some by (cases rule: decode_store_cases) auto
  let ?a = "rv_regs st (rv_rs1 insn) + imm_S insn" and ?v = "rv_regs st (rv_rs2 insn)"
  have "rv_simulates vm (do {
       (vm, ga) \<leftarrow> rv32_addr_check ?a n n vm;
       case ga of None \<Rightarrow> Some (rv32_mem_fault w tr' vm) | Some ga \<Rightarrow> do {
         vm \<leftarrow> on_space (rv32_store_value (ucast (rv_funct3 insn)) ga ?v) vm;
         rv32_guest_commit (pc + 4) (rv32_trace_append tr'' vm) } })
     (rv_access st ?a n (rv_jump (rv_pc st + 4)
       (st\<lparr>rv_mem := put_bytes (rv_mem st) (unat ?a) (le_bytes n ?v)\<rparr>)))" for w tr' tr''
  proof (rule rv_access_check [OF assms(1,2) n])
    fix ga assume fit: "unat ?a + n \<le> length (rv_mem st)" and ga: "ga = 8 * (0x400 + unat ?a)"
    have mem: "rv_mem st = drop 0x400 (vm_space vm)" using assms(2) by (auto simp: rv_abs_def)
    have len: "0x400 + unat ?a + n \<le> length (vm_space vm)"
      using fit assms(1) by (auto simp: mem rv_ready_def)
    let ?vm = "vm\<lparr>vm_space := put_bytes (vm_space vm) (0x400 + unat ?a) (le_bytes n ?v)\<rparr>"
    have store: "on_space (rv32_store_value (ucast (rv_funct3 insn)) ga ?v) vm = Some ?vm"
      unfolding on_space_def ga store_value [OF Some len] by simp
    have "unat ?a + length (le_bytes n ?v) \<le> length (rv_mem (rv_abs vm))" using fit assms(2) by simp
    note w = rv_mem_write [OF assms(1) this]
    have "rv_simulates ?vm (rv32_guest_commit (pc + 4) (rv32_trace_append tr'' ?vm))
       (rv_jump (rv_pc st + 4) (st\<lparr>rv_mem := put_bytes (rv_mem st) (unat ?a) (le_bytes n ?v)\<rparr>))"
      unfolding assms(3) by (rule rv_commit_simulates [OF w(1)]) (use w(3) assms(2) in simp)
    then show "rv_simulates vm (do {
         vm \<leftarrow> on_space (rv32_store_value (ucast (rv_funct3 insn)) ga ?v) vm;
         rv32_guest_commit (pc + 4) (rv32_trace_append tr'' vm) })
       (rv_jump (rv_pc st + 4) (st\<lparr>rv_mem := put_bytes (rv_mem st) (unat ?a) (le_bytes n ?v)\<rparr>))"
      using rv_jump_keeps [OF w(2)] by (simp add: store)
  qed
  then show ?thesis
    unfolding rv32_store_def Let_def rv_reg_read [OF assms(1)] imm_S_eq funct3_eq store_width
    using assms(2) Some unfolding rv_run_def rv_rs1_def rv_rs2_def by (simp add: Let_def)
qed

section \<open>The step\<close>

lemma opcode_eq:
  "insn AND 0x7F = ucast (rv_opcode insn)"
  "(ucast (z :: 7 word) :: u32) = 0x37 \<longleftrightarrow> z = 0x37" "(ucast z :: u32) = 0x17 \<longleftrightarrow> z = 0x17"
  "(ucast z :: u32) = 0x13 \<longleftrightarrow> z = 0x13" "(ucast z :: u32) = 0x33 \<longleftrightarrow> z = 0x33"
  "(ucast z :: u32) = 0x03 \<longleftrightarrow> z = 0x03" "(ucast z :: u32) = 0x23 \<longleftrightarrow> z = 0x23"
  "(ucast z :: u32) = 0x63 \<longleftrightarrow> z = 0x63" "(ucast z :: u32) = 0x6F \<longleftrightarrow> z = 0x6F"
  "(ucast z :: u32) = 0x67 \<longleftrightarrow> z = 0x67"
  using ucast_eq_iff(2) [of z "0x37"] ucast_eq_iff(2) [of z "0x17"] ucast_eq_iff(2) [of z "0x13"]
    ucast_eq_iff(2) [of z "0x33"] ucast_eq_iff(2) [of z "0x03"] ucast_eq_iff(2) [of z "0x23"]
    ucast_eq_iff(2) [of z "0x63"] ucast_eq_iff(2) [of z "0x6F"] ucast_eq_iff(2) [of z "0x67"]
  by (simp_all add: field_ucast rv_opcode_def)

lemma sim_if:
  "\<lbrakk>b \<Longrightarrow> rv_simulates vm x (rv_run p st); \<not> b \<Longrightarrow> rv_simulates vm y (rv_run q st)\<rbrakk>
    \<Longrightarrow> rv_simulates vm (if b then x else y) (rv_run (if b then p else q) st)"
  by simp

lemma execute_simulates:
  assumes "rv_ready vm" and "rv_abs vm = st" and "rv_pc st = pc"
  shows "rv_simulates vm (rv32_execute pc insn tr vm) (rv_run (rv_decode insn) st)"
proof -
  note ex = exec_lui [OF assms, of insn tr] exec_auipc [OF assms, of insn tr] exec_op_imm [OF assms, of insn tr]
    exec_op [OF assms, of insn tr] exec_load [OF assms, of insn tr] exec_store [OF assms, of insn tr]
    exec_branch [OF assms, of insn tr] exec_jal [OF assms, of insn tr] exec_jalr [OF assms, of insn tr]
    rv_unsupported_simulates [OF assms(1), of tr]
  have some: "rv_run (Some i) st = rv_exec i st" and none: "rv_run None st = Rv_stop RV_STOP_UNSUPPORTED" for i
    by (simp_all add: rv_run_def)
  show ?thesis
    unfolding rv32_execute_def rv_decode_def Let_def opcode_eq
    by (intro sim_if) (simp_all only: some none ex)
qed

lemma rv_step_run:
  "rv_step st = (if unat (rv_pc st) + 4 > length (rv_mem st) then Rv_stop RV_STOP_BOUNDS
    else if le_word (take 4 (drop (unat (rv_pc st)) (rv_mem st))) = 0 then Rv_stop RV_STOP_HALT
    else rv_run (rv_decode (le_word (take 4 (drop (unat (rv_pc st)) (rv_mem st))))) st)"
  by (simp add: rv_step_def rv_run_def Let_def)

lemma step_simulates:
  assumes "rv_ready vm"
  shows "rv_simulates vm (rv32_guest_step vm) (rv_step (rv_abs vm))"
proof -
  let ?st = "rv_abs vm" and ?pc = "rv_pc (rv_abs vm)"
  have len: "0x400 \<le> length (vm_space vm)" and wf: "vm_wf vm" using assms by (simp_all add: rv_ready_def)
  have pc: "rd_u32_le (vm_space vm) g_pc = Some ?pc"
    using rd_u32 [of "0x200" "vm_space vm"] len by (simp add: g_pc_def rv_abs_def)
  have mem: "rv_mem ?st = drop 0x400 (vm_space vm)" by (simp add: rv_abs_def)
  have bound: "g_mem_base + unat ?pc * 8 + 32 > vm_space_bits vm \<longleftrightarrow> unat ?pc + 4 > length (rv_mem ?st)"
    using len by (auto simp: vm_wf_fields(1) [OF wf] g_mem_base_def mem)
  show ?thesis
  proof (cases "unat ?pc + 4 > length (rv_mem ?st)")
    case True
    then show ?thesis
      using rv_stop_simulates [OF assms] by (simp add: rv32_guest_step_def pc bound rv_step_run Let_def)
  next
    case False
    let ?insn = "le_word (take 4 (drop (unat ?pc) (rv_mem ?st)))"
    have at: "g_mem_base + unat ?pc * 8 = 8 * (0x400 + unat ?pc)" by (simp add: g_mem_base_def)
    have "0x400 + unat ?pc + 4 \<le> length (vm_space vm)" using False len by (simp add: mem)
    then have insn: "rd_u32_le (vm_space vm) (g_mem_base + unat ?pc * 8) = Some ?insn"
      unfolding at using rd_u32 [of "0x400 + unat ?pc" "vm_space vm"] by (simp add: mem add.commute)
    let ?vm = "vm\<lparr>rv_guest_steps := (rv_guest_steps vm + 1) mod 2 ^ 64\<rparr>"
    have "rv_simulates ?vm (rv32_execute ?pc ?insn tr ?vm) (rv_run (rv_decode ?insn) ?st)" for tr
      by (rule execute_simulates) (use assms in \<open>simp_all only: rv_steps_same\<close>)
    then have "rv_simulates vm (rv32_execute ?pc ?insn tr ?vm) (rv_run (rv_decode ?insn) ?st)" for tr
      by (rule rv_simulates_keeps [OF rv_steps_same(3) rv_steps_same(2)])
    then show ?thesis
      using False rv_stop_simulates [OF assms] bound
      by (simp add: rv32_guest_step_def pc insn rv_step_run Let_def)
  qed
qed

section \<open>A loaded machine\<close>

lemma guest_zero_bytes:
  assumes "\<And>p. \<lbrakk>8 * a \<le> p; p < 8 * (a + n)\<rbrakk> \<Longrightarrow> \<not> bit_at m p" and "a + n \<le> length m"
  shows "take n (drop a m) = replicate n 0"
proof (rule nth_equalityI)
  fix i assume "i < length (take n (drop a m))"
  then have i: "i < n" using assms(2) by simp
  have "m ! (a + i) = 0"
  proof (rule bit_word_eqI)
    fix k assume "k < LENGTH(8)"
    then have k: "k < 8" by simp
    have "\<not> bit_at m (8 * (a + i) + (7 - k))" using i k by (intro assms(1)) auto
    then show "bit (m ! (a + i)) k \<longleftrightarrow> bit (0 :: u8) k"
      using bit_at_byte [of "a + i" m "7 - k"] i k assms(2) by simp
  qed
  then show "take n (drop a m) ! i = replicate n 0 ! i" using i assms(2) by simp
qed (use assms(2) in simp)

lemma init_ready:
  assumes "vm_wf vm" and "vm_mmio_end vm \<le> 0x2000" and "0x400 \<le> length (vm_space vm)"
    and "\<And>p. p < vm_mmio_base vm \<Longrightarrow> \<not> bit_at (vm_space vm) p"
  shows "rv_ready vm"
proof -
  have "take 4 (drop 0x240 (vm_space vm)) = replicate 4 0"
    using assms(3,4) vm_wf_base [OF assms(1)] by (intro guest_zero_bytes) simp_all
  then show ?thesis using assms(1-3) by (simp add: rv_ready_def le_word_def numeral_eq_Suc)
qed

text \<open>The machine after \<open>vm_init\<close> with 2048 bytes and one slot, and a program put into the guest memory.\<close>

definition guest_machine :: "mem \<Rightarrow> vm" where
  "guest_machine code =
     (let vm = vm_put (vm_before_abi 2048 1) Ch_abi_version 1
      in vm\<lparr>vm_space := put_bytes (vm_space vm) 0x400 code\<rparr>)"

lemma guest_machine_ready:
  assumes "length code \<le> 0x400"
  shows "rv_ready (guest_machine code)"
    and "rv_abs (guest_machine code) = \<lparr>rv_pc = 0, rv_regs = (\<lambda>_. 0), rv_mem = put_bytes (replicate 0x400 0) 0 code\<rparr>"
proof -
  define b where "b = vm_before_abi 2048 1"
  define vm where "vm = vm_put b Ch_abi_version 1"
  have gm: "guest_machine code = vm\<lparr>vm_space := put_bytes (vm_space vm) 0x400 code\<rparr>"
    by (simp add: guest_machine_def vm_def b_def Let_def)
  have aw: "vm_addr_width 2048 = 16"
    by (simp add: vm_addr_width_def round_up_to_8_def ceil_log2_def ceil_log2_from.simps)
  have e: "vm_mmio_end_at 16 (Suc 0) = 0x1718" by (simp add: vm_mmio_end_at_def)
  have wf: "vm_wf b" unfolding b_def by (rule vm_before_abi_wf) (simp_all add: aw e)
  have sp: "vm_space b = replicate 2048 0" "vm_mmio_end b = 0x1718" "vm_mmio_base b = 0x1600"
    by (simp_all add: b_def vm_before_abi_def Let_def aw e)
  note len = vm_put_space(1) [OF wf, of Ch_abi_version 1, folded vm_def, unfolded sp(1) length_replicate]
  have zero: "\<not> bit_at (vm_space vm) p" if "p < 0x1600 \<or> 0x1718 \<le> p" for p
    using vm_put_outside [OF wf, of p Ch_abi_version 1] that by (simp add: sp vm_def)
  have ready: "rv_ready vm"
    by (rule init_ready) (use wf len zero in \<open>simp_all add: sp vm_def\<close>)
  have zeros: "take n (drop a (vm_space vm)) = replicate n 0" if "a + n \<le> 0x2C0 \<or> 0x400 \<le> a" "a + n \<le> 2048" for a n
    using that len by (intro guest_zero_bytes zero) auto
  have mem: "drop 0x400 (vm_space vm) = replicate 0x400 0"
    using zeros [of "0x400" "0x400"] len by simp
  have zero_word: "le_word (replicate 4 0) = 0" by (simp add: le_word_def numeral_eq_Suc)
  have abs: "rv_abs vm = \<lparr>rv_pc = 0, rv_regs = (\<lambda>_. 0), rv_mem = replicate 0x400 0\<rparr>"
  proof -
    have "take 4 (drop (0x240 + 4 * unat r) (vm_space vm)) = replicate 4 0" for r :: reg
      by (rule zeros) (use rv_reg_index [of r] in simp_all)
    then show ?thesis
      unfolding rv_abs_def using zeros [of "0x200" 4] by (simp add: mem zero_word fun_eq_iff)
  qed
  have fit: "0 + length code \<le> length (rv_mem (rv_abs vm))" using assms by (simp add: abs)
  note w = rv_mem_write [OF ready fit]
  show "rv_ready (guest_machine code)" using w(1) by (simp add: gm)
  show "rv_abs (guest_machine code) = \<lparr>rv_pc = 0, rv_regs = (\<lambda>_. 0), rv_mem = put_bytes (replicate 0x400 0) 0 code\<rparr>"
    using w(3) by (simp add: gm abs)
qed

section \<open>Properties\<close>

text \<open>
  C5. Refinement of the instruction set. A step of the executor is never undefined, and with the
  guest read off the space (\<open>rv_abs\<close>) it is the step of the RV32I machine: same registers, same
  memory, same program counter. Processor, mailbox and run state are unchanged. When the machine
  stops, the guest is left as it was, the halt bit is set, and the reason is the one of the
  specification.
\<close>

theorem rv32_step_refines:
  assumes "rv_ready vm"
  shows "\<exists>vm'. rv32_guest_step vm = Some vm' \<and> rv_ready vm' \<and>
    (case rv_step (rv_abs vm) of
       Rv_next st \<Rightarrow> rv_abs vm' = st \<and> rv_keeps vm vm'
     | Rv_stop r \<Rightarrow> rv_abs vm' = rv_abs vm \<and> rv_guest_stop_reason vm' = r \<and> \<not> rv_guest_running vm'
         \<and> (\<forall>f. vm_get vm' f = (if f = Halt_bit then 1 else vm_get vm f)))"
  using step_simulates [OF assms]
  by (auto simp: rv_simulates_def rv_stopped_def split: option.splits rv_result.splits)

text \<open>The instruction \<open>addi x1, x0, 5\<close> at address 0 of a fresh machine.\<close>

lemma rv32_step_refines_witness:
  "\<exists>vm'. rv32_guest_step (guest_machine [0x93, 0x00, 0x50, 0x00]) = Some vm' \<and> rv_ready vm'
    \<and> rv_pc (rv_abs vm') = 4 \<and> rv_regs (rv_abs vm') 1 = 5"
proof -
  note m = guest_machine_ready [of "[0x93, 0x00, 0x50, 0x00]"]
  have dec: "rv_decode 0x00500093 = Some (Alu_imm Alu_add 1 0 5)" by code_simp
  have fetch: "le_word [0x93, 0x00, 0x50, 0x00] = 0x00500093" by (simp add: le_word_def)
  have mem: "take 4 (drop 0 (put_bytes (replicate 0x400 0) 0 [0x93, 0x00, 0x50, 0x00])) = [0x93, 0x00, 0x50, 0x00]"
    by (simp add: put_bytes_def)
  have len: "length (put_bytes (replicate 0x400 0) 0 [0x93, 0x00, 0x50, 0x00]) = 0x400" by simp
  let ?st = "rv_abs (guest_machine [0x93, 0x00, 0x50, 0x00])"
  have pc: "unat (rv_pc ?st) = 0" by (simp add: m(2))
  have "rv_step ?st = rv_jump 4 (rv_set 1 5 ?st)"
    unfolding rv_step_run pc using mem len by (simp add: m(2) fetch dec rv_run_def rv_alu_def)
  then show ?thesis
    using rv32_step_refines [OF m(1)] by (auto simp: rv_jump_def rv_set_def)
qed

end
