(* ===== verification/VmService.thy ===== *)
theory VmService
  imports Rv32 Rv32Spec
begin

text \<open>
  legacy/src/vm/space.c, second half: the devices behind the mailbox (input, output, loader and
  the channel with its operations 0 to 14), the watchdog, the tick, the run and the boot layer.

  The host side is the record \<open>vm_io\<close>: the bytes the input stream still holds and whether it
  ends in an error, for each output file how many bytes it still takes (\<open>None\<close>: any number), the
  log of what was written, and the calls made to the hooks. Every operation is a function of the
  machine and the host to both, \<open>None\<close> where the C code would read or write outside the space.
  The message a failing slot prints on the error stream has no part in the state and is left
  out; its numbers are those of \<open>vm_last_err\<close>.
\<close>

section \<open>The host\<close>

datatype vm_file = Out_file | Stdout_file

datatype vm_hook_event = Tick_begin nat | Note_copy nat nat nat nat | Tick_end

record vm_io =
  io_in :: mem
  io_in_fails :: bool
  io_room :: "vm_file \<Rightarrow> nat option"
  io_log :: "(vm_file \<times> mem) list"
  io_hooks :: bool
  io_events :: "vm_hook_event list"

definition vm_fread :: "nat \<Rightarrow> vm_io \<Rightarrow> mem \<times> bool \<times> bool \<times> vm_io" where
  "vm_fread n io =
     (let bytes = take n (io_in io); short = length bytes < n
      in (bytes, short \<and> \<not> io_in_fails io, short \<and> io_in_fails io, io\<lparr>io_in := drop n (io_in io)\<rparr>))"

definition vm_fwrite :: "vm_file \<Rightarrow> mem \<Rightarrow> vm_io \<Rightarrow> nat \<times> vm_io" where
  "vm_fwrite f bytes io =
     (let put = (case io_room io f of None \<Rightarrow> length bytes | Some r \<Rightarrow> min r (length bytes))
      in (put, io\<lparr>io_room := (io_room io)(f := map_option (\<lambda>r. r - put) (io_room io f)),
                  io_log := io_log io @ [(f, take put bytes)]\<rparr>))"

definition vm_hook :: "vm_hook_event \<Rightarrow> vm_io \<Rightarrow> vm_io" where
  "vm_hook e io = (if io_hooks io then io\<lparr>io_events := io_events io @ [e]\<rparr> else io)"

definition vm_bytes :: "vm \<Rightarrow> nat \<Rightarrow> nat \<Rightarrow> mem option" where
  "vm_bytes vm i n = (if i + n \<le> length (vm_space vm) then Some (take n (drop i (vm_space vm))) else None)"

definition vm_copy :: "nat \<Rightarrow> nat \<Rightarrow> nat \<Rightarrow> vm \<Rightarrow> vm option" where
  "vm_copy n src dst vm = on_space (\<lambda>m. vm_bitcpy n Aliased src m dst) vm"

section \<open>Ending a request\<close>

definition m_finish :: "mmio_field \<Rightarrow> mmio_field \<Rightarrow> vm \<Rightarrow> vm option" where
  "m_finish done_f req vm = do { vm \<leftarrow> m_set done_f True vm; m_set req False vm }"

definition m_reject :: "mmio_field \<Rightarrow> mmio_field \<Rightarrow> mmio_field \<Rightarrow> vm \<Rightarrow> vm option" where
  "m_reject err done_f req vm = do { vm \<leftarrow> m_set err True vm; m_finish done_f req vm }"

section \<open>Input\<close>

definition service_in_space :: "nat \<Rightarrow> nat \<Rightarrow> vm \<Rightarrow> vm option" where
  "service_in_space dst len vm = do {
     src \<leftarrow> m_addr vm In_src_addr;
     e \<leftarrow> m_addr vm In_src_end;
     vm \<leftarrow> (if src + len > e \<or> src \<ge> e then m_set In_eof True vm
           else do {
             vm \<leftarrow> vm_copy len src dst vm;
             vm \<leftarrow> m_put_num In_got len vm;
             m_put_addr In_src_addr (src + len) vm
           });
     m_finish In_done In_req vm
   }"

definition service_in_file :: "nat \<Rightarrow> nat \<Rightarrow> vm \<Rightarrow> vm_io \<Rightarrow> (vm \<times> vm_io) option" where
  "service_in_file dst len vm io = do {
     let nbytes = len div 8;
     (got, vm, io) \<leftarrow>
       (if nbytes \<noteq> 0 then do {
          let (bytes, eof, err, io) = vm_fread nbytes io;
          vm \<leftarrow> on_space (\<lambda>m. mem_move (length bytes) bytes 0 m (dst div 8)) vm;
          vm \<leftarrow> (if bytes = [] \<and> eof then m_set In_eof True vm else Some vm);
          vm \<leftarrow> (if err then m_set In_err True vm else Some vm);
          Some (length bytes, vm, io)
        } else Some (0, vm, io));
     vm \<leftarrow> m_put_num In_got (got * 8) vm;
     vm \<leftarrow> m_finish In_done In_req vm;
     Some (vm, io)
   }"

definition service_in :: "vm \<Rightarrow> vm_io \<Rightarrow> (vm \<times> vm_io) option" where
  "service_in vm io = do {
     req \<leftarrow> m_bit vm In_req;
     if \<not> req then Some (vm, io)
     else do {
       vm \<leftarrow> m_set In_done False vm;
       vm \<leftarrow> m_set In_eof False vm;
       vm \<leftarrow> m_set In_err False vm;
       vm \<leftarrow> m_put_num In_got 0 vm;
       dst \<leftarrow> m_addr vm In_dst;
       len \<leftarrow> m_num vm In_len;
       if dst mod 8 \<noteq> 0 \<or> len mod 8 \<noteq> 0
       then do { vm \<leftarrow> m_reject In_err In_done In_req vm; Some (vm, io) }
       else if dst + len > vm_space_bits vm
       then do { vm \<leftarrow> m_reject In_err In_done In_req vm; Some (vm, io) }
       else do {
         mode \<leftarrow> m_bit vm In_src_mode;
         if mode then do { vm \<leftarrow> service_in_space dst len vm; Some (vm, io) }
         else service_in_file dst len vm io
       }
     }
   }"

section \<open>Output\<close>

definition service_out :: "vm \<Rightarrow> vm_io \<Rightarrow> (vm \<times> vm_io) option" where
  "service_out vm io = do {
     req \<leftarrow> m_bit vm Out_req;
     if \<not> req then Some (vm, io)
     else do {
       vm \<leftarrow> m_set Out_done False vm;
       vm \<leftarrow> m_set Out_err False vm;
       vm \<leftarrow> m_put_num Out_got 0 vm;
       src \<leftarrow> m_addr vm Out_src;
       len \<leftarrow> m_num vm Out_len;
       if src mod 8 \<noteq> 0 \<or> len mod 8 \<noteq> 0
       then do { vm \<leftarrow> m_reject Out_err Out_done Out_req vm; Some (vm, io) }
       else if src + len > vm_space_bits vm
       then do { vm \<leftarrow> m_reject Out_err Out_done Out_req vm; Some (vm, io) }
       else do {
         let nbytes = len div 8;
         (put, vm, io) \<leftarrow>
           (if nbytes \<noteq> 0 then do {
              bytes \<leftarrow> vm_bytes vm (src div 8) nbytes;
              let (put, io) = vm_fwrite Out_file bytes io;
              vm \<leftarrow> (if put \<noteq> nbytes then m_set Out_err True vm else Some vm);
              Some (put, vm, io)
            } else Some (0, vm, io));
         vm \<leftarrow> m_put_num Out_got (put * 8) vm;
         vm \<leftarrow> m_finish Out_done Out_req vm;
         Some (vm, io)
       }
     }
   }"

section \<open>Loader\<close>

definition service_loader :: "vm \<Rightarrow> vm option" where
  "service_loader vm = do {
     req \<leftarrow> m_bit vm Load_req;
     if \<not> req then Some vm
     else do {
       vm \<leftarrow> m_set Load_done False vm;
       vm \<leftarrow> m_set Load_err False vm;
       src \<leftarrow> m_addr vm Load_src;
       nbits \<leftarrow> m_num vm Load_bits;
       if nbits \<noteq> vm_processor_bits vm \<or> src + nbits > vm_space_bits vm \<or> src < vm_workspace_base vm
       then m_reject Load_err Load_done Load_req vm
       else do {
         vm \<leftarrow> vm_copy nbits src (vm_processor_start vm) vm;
         m_finish Load_done Load_req vm
       }
     }
   }"

section \<open>Channel operations\<close>

definition ch_e_bounds :: nat where "ch_e_bounds = 1"
definition ch_e_align :: nat where "ch_e_align = 2"
definition ch_e_protocol :: nat where "ch_e_protocol = 3"

definition reg_file_bits :: nat where "reg_file_bits = 32 * 32"

definition ch_fail :: "nat \<Rightarrow> vm \<Rightarrow> vm option" where
  "ch_fail code vm = do { vm \<leftarrow> m_set Ch_err True vm; m_put_num Ch_c code vm }"

definition ch_step_budget :: "vm \<Rightarrow> vm option" where
  "ch_step_budget vm = do {
     lim \<leftarrow> m_num vm Ch_c;
     vm \<leftarrow> m_put_num Wd_limit lim vm;
     vm \<leftarrow> m_put_num Wd_ticks 0 vm;
     vm \<leftarrow> m_set Wd_fired False vm;
     m_set Wd_enable True vm
   }"

definition ch_load_image :: "vm \<Rightarrow> vm option" where
  "ch_load_image vm = do {
     src \<leftarrow> m_addr vm Ch_a;
     nbits \<leftarrow> m_addr vm Ch_b;
     if nbits \<noteq> vm_processor_bits vm \<or> src + nbits > vm_space_bits vm \<or> src < vm_workspace_base vm
     then m_set Ch_err True vm
     else vm_copy nbits src (vm_processor_start vm) vm
   }"

definition ch_load_ack :: "vm \<Rightarrow> vm option" where
  "ch_load_ack vm = do {
     _ \<leftarrow> m_addr vm Ch_a;
     vm \<leftarrow> m_set Wd_enable False vm;
     vm \<leftarrow> m_set Wd_fired False vm;
     m_put_num Wd_ticks 0 vm
   }"

definition ch_io_write :: "vm \<Rightarrow> vm_io \<Rightarrow> (vm \<times> vm_io) option" where
  "ch_io_write vm io = do {
     src \<leftarrow> m_addr vm Ch_a;
     blen \<leftarrow> m_addr vm Ch_b;
     if src mod 8 \<noteq> 0 \<or> src + 8 * blen > vm_space_bits vm
     then do { vm \<leftarrow> ch_fail (if src mod 8 \<noteq> 0 then ch_e_align else ch_e_bounds) vm; Some (vm, io) }
     else if blen \<noteq> 0 then do {
       bytes \<leftarrow> vm_bytes vm (src div 8) blen;
       let (put, io) = vm_fwrite Stdout_file bytes io;
       vm \<leftarrow> (if put \<noteq> blen then ch_fail ch_e_protocol vm else Some vm);
       Some (vm, io)
     }
     else Some (vm, io)
   }"

definition ch_status :: "vm \<Rightarrow> vm option" where
  "ch_status vm = do {
     vm \<leftarrow> m_put_addr Ch_a (vm_tick_counter vm) vm;
     halt \<leftarrow> m_bit vm Halt_bit;
     vm \<leftarrow> m_set Ch_b halt vm;
     m_put_num Ch_c (vm_err_code (err_kind (vm_last_err vm))) vm
   }"

definition ch_load_code :: "vm \<Rightarrow> vm option" where
  "ch_load_code vm = do {
     src \<leftarrow> m_addr vm Ch_a;
     off \<leftarrow> m_addr vm Ch_b;
     nbits \<leftarrow> m_num vm Ch_c;
     let dst = g_mem_base + off;
     if src + nbits > vm_space_bits vm \<or> dst + nbits > vm_space_bits vm
     then ch_fail ch_e_bounds vm
     else do {
       vm \<leftarrow> vm_copy nbits src dst vm;
       let vm = rv32_trace_reset (vm\<lparr>rv_guest_loaded := True, rv_guest_running := False, rv_guest_steps := 0,
         rv_guest_stop_reason := RV_STOP_NONE\<rparr>);
       vm \<leftarrow> m_set Halt_bit False vm;
       on_space (\<lambda>m. vm_write_uint m g_pc 32 0) vm
     }
   }"

definition ch_run :: "vm \<Rightarrow> vm option" where
  "ch_run vm =
     (if \<not> rv_guest_loaded vm then ch_fail ch_e_protocol vm
      else do {
        lim \<leftarrow> m_num vm Ch_c;
        vm \<leftarrow> m_put_num Wd_limit lim vm;
        vm \<leftarrow> m_put_num Wd_ticks 0 vm;
        vm \<leftarrow> m_set Wd_fired False vm;
        vm \<leftarrow> m_set Wd_enable (lim > 0) vm;
        let vm = vm\<lparr>rv_guest_running := (lim > 0), rv_guest_stop_reason := RV_STOP_NONE\<rparr>;
        vm \<leftarrow> m_set Halt_bit False vm;
        Some (if lim = 0 then vm\<lparr>rv_guest_running := False\<rparr> else vm)
      })"

definition ch_read_regs :: "vm \<Rightarrow> vm option" where
  "ch_read_regs vm = do {
     dst \<leftarrow> m_addr vm Ch_a;
     if g_reg_base + reg_file_bits > vm_space_bits vm \<or> dst + reg_file_bits > vm_space_bits vm
     then ch_fail ch_e_bounds vm
     else vm_copy reg_file_bits g_reg_base dst vm
   }"

definition ch_read_mem :: "vm \<Rightarrow> vm option" where
  "ch_read_mem vm = do {
     off \<leftarrow> m_addr vm Ch_a;
     dst \<leftarrow> m_addr vm Ch_b;
     nbits \<leftarrow> m_num vm Ch_c;
     let src = g_mem_base + off;
     if src + nbits > vm_space_bits vm \<or> dst + nbits > vm_space_bits vm
     then ch_fail ch_e_bounds vm
     else vm_copy nbits src dst vm
   }"

definition ch_write_mem :: "vm \<Rightarrow> vm option" where
  "ch_write_mem vm = do {
     src \<leftarrow> m_addr vm Ch_a;
     off \<leftarrow> m_addr vm Ch_b;
     nbits \<leftarrow> m_num vm Ch_c;
     let dst = g_mem_base + off;
     if src + nbits > vm_space_bits vm \<or> dst + nbits > vm_space_bits vm
     then ch_fail ch_e_bounds vm
     else vm_copy nbits src dst vm
   }"

text \<open>Trace records as \<open>memcpy\<close> sees them: nine little-endian words, 36 bytes.\<close>

definition rv_record_bytes :: "rv_trace_record \<Rightarrow> mem" where
  "rv_record_bytes r = concat (map (le_bytes 4)
     [tr_step r, tr_pc r, tr_instr r, tr_imm r, tr_rd_value r, tr_mem_addr r, tr_mem_value r, tr_meta r, tr_flags r])"

definition rv_info_bytes :: "vm \<Rightarrow> mem" where
  "rv_info_bytes vm = concat (map (le_bytes 4)
     [1, 36, of_nat (length (rv_trace_records vm)), of_nat (length (rv_trace_records vm)) * 36, of_nat (rv_trace_dropped vm)])"

definition ch_trace_info :: "vm \<Rightarrow> vm option" where
  "ch_trace_info vm = do {
     dst \<leftarrow> m_addr vm Ch_a;
     if dst + 20 * 8 > vm_space_bits vm then ch_fail ch_e_bounds vm
     else on_space (\<lambda>m. mem_move 20 (rv_info_bytes vm) 0 m (dst div 8)) vm
   }"

definition ch_trace_read :: "vm \<Rightarrow> vm option" where
  "ch_trace_read vm = do {
     byte_off \<leftarrow> m_addr vm Ch_a;
     dst \<leftarrow> m_addr vm Ch_b;
     nbits \<leftarrow> m_num vm Ch_c;
     let used = length (rv_trace_records vm) * 36;
     if nbits mod 8 \<noteq> 0 \<or> dst + nbits > vm_space_bits vm \<or> byte_off * 8 + nbits > used * 8
     then ch_fail ch_e_bounds vm
     else on_space (\<lambda>m. mem_move (nbits div 8) (concat (map rv_record_bytes (rv_trace_records vm))) byte_off m (dst div 8)) vm
   }"

definition channel_op :: "nat \<Rightarrow> vm \<Rightarrow> vm option" where
  "channel_op op vm =
     (if op = 0 then Some vm
      else if op = 1 then m_set Halt_bit True vm
      else if op = 2 then ch_step_budget vm
      else if op = 3 then ch_load_image vm
      else if op = 4 then ch_load_ack vm
      else if op = 6 then ch_status vm
      else if op = 7 then ch_load_code vm
      else if op = 8 \<or> op = 9 then ch_run vm
      else if op = 10 then ch_read_regs vm
      else if op = 11 then ch_read_mem vm
      else if op = 12 then ch_write_mem vm
      else if op = 13 then ch_trace_info vm
      else if op = 14 then ch_trace_read vm
      else ch_fail ch_e_protocol vm)"

definition service_channel :: "vm \<Rightarrow> vm_io \<Rightarrow> (vm \<times> vm_io) option" where
  "service_channel vm io = do {
     req \<leftarrow> m_bit vm Ch_req;
     if \<not> req then Some (vm, io)
     else do {
       vm \<leftarrow> m_set Ch_done False vm;
       vm \<leftarrow> m_set Ch_err False vm;
       op \<leftarrow> vm_read_uint (vm_space vm) (vm_mmio vm Ch_op) 8;
       (vm, io) \<leftarrow> (if op = 5 then ch_io_write vm io
                   else do { vm \<leftarrow> channel_op (unat op) vm; Some (vm, io) });
       vm \<leftarrow> m_finish Ch_done Ch_req vm;
       Some (vm, io)
     }
   }"

section \<open>The tick\<close>

definition vm_watchdog :: "vm \<Rightarrow> vm option" where
  "vm_watchdog vm = do {
     en \<leftarrow> m_bit vm Wd_enable;
     if \<not> en then Some vm
     else do {
       ticks \<leftarrow> m_num vm Wd_ticks;
       limit \<leftarrow> m_num vm Wd_limit;
       vm \<leftarrow> m_put_num Wd_ticks (ticks + 1) vm;
       if limit > 0 \<and> ticks + 1 \<ge> limit then do {
         vm \<leftarrow> m_set Wd_fired True vm;
         vm \<leftarrow> m_set Halt_bit True vm;
         Some (vm\<lparr>rv_guest_running := False\<rparr>)
       } else Some vm
     }
   }"

definition vm_slot_error :: "vm_err_kind \<Rightarrow> nat \<Rightarrow> vm_inst \<Rightarrow> vm \<Rightarrow> vm" where
  "vm_slot_error kind i ins vm = vm\<lparr>vm_last_err :=
     \<lparr>err_kind = kind, err_tick = vm_tick_counter vm, err_slot = i, err_ins = ins, err_space_bits = vm_space_bits vm\<rparr>\<rparr>"

text \<open>One slot; the first result says whether the loop goes on.\<close>

definition vm_slot :: "nat \<Rightarrow> vm \<Rightarrow> vm_io \<Rightarrow> (bool \<times> vm \<times> vm_io) option" where
  "vm_slot i vm io = do {
     ins \<leftarrow> vm_read_inst vm (vm_proc_slot_ip vm i);
     let n = inst_n ins;
     let src = inst_src ins;
     let dst = inst_dst ins;
     if n = 0 then Some (True, vm, io)
     else if src + n > vm_space_bits vm then Some (False, vm_slot_error VM_E_SRC_BOUNDS i ins vm, io)
     else if dst + n > vm_space_bits vm then Some (False, vm_slot_error VM_E_DST_BOUNDS i ins vm, io)
     else do {
       let io = vm_hook (Note_copy i dst n src) io;
       vm \<leftarrow> vm_copy n src dst vm;
       Some (True, vm, io)
     }
   }"

fun vm_slots :: "nat \<Rightarrow> nat \<Rightarrow> vm \<Rightarrow> vm_io \<Rightarrow> (bool \<times> vm \<times> vm_io) option" where
  "vm_slots i 0 vm io = Some (True, vm, io)"
| "vm_slots i (Suc k) vm io = do {
     (go, vm, io) \<leftarrow> vm_slot i vm io;
     if go then vm_slots (Suc i) k vm io else Some (False, vm, io)
   }"

definition vm_halted :: "vm \<Rightarrow> vm" where
  "vm_halted vm = vm\<lparr>rv_guest_running := False, vm_tick_counter := (vm_tick_counter vm + 1) mod 2 ^ 64\<rparr>"

definition vm_execute :: "vm \<Rightarrow> vm_io \<Rightarrow> (vm_rc \<times> vm \<times> vm_io) option" where
  "vm_execute vm io = do {
     let io = vm_hook (Tick_begin (vm_processor_n vm)) io;
     (ok, vm, io) \<leftarrow> vm_slots 0 (vm_processor_n vm) vm io;
     if \<not> ok then Some (VM_ERR, vm, io)
     else Some (VM_OK, vm\<lparr>vm_tick_counter := (vm_tick_counter vm + 1) mod 2 ^ 64\<rparr>, vm_hook Tick_end io)
   }"

definition vm_tick :: "vm \<Rightarrow> vm_io \<Rightarrow> (vm_rc \<times> vm \<times> vm_io) option" where
  "vm_tick vm io = do {
     let vm = vm\<lparr>vm_last_err := vm_no_err (vm_tick_counter vm) (vm_space_bits vm)\<rparr>;
     (vm, io) \<leftarrow> service_out vm io;
     (vm, io) \<leftarrow> service_in vm io;
     vm \<leftarrow> service_loader vm;
     (vm, io) \<leftarrow> service_channel vm io;
     vm \<leftarrow> vm_watchdog vm;
     halt \<leftarrow> m_bit vm Halt_bit;
     if halt then Some (VM_HALT, vm_halted vm, io)
     else if rv_guest_running vm then do {
       vm \<leftarrow> rv32_guest_step vm;
       halt \<leftarrow> m_bit vm Halt_bit;
       if halt then Some (VM_HALT, vm_halted vm, io) else vm_execute vm io
     }
     else vm_execute vm io
   }"

fun vm_run :: "nat \<Rightarrow> vm \<Rightarrow> vm_io \<Rightarrow> (vm_rc \<times> vm \<times> vm_io) option" where
  "vm_run 0 vm io = Some (VM_OK, vm, io)"
| "vm_run (Suc life) vm io = do {
     (rc, vm, io) \<leftarrow> vm_tick vm io;
     if rc \<noteq> VM_OK then Some (rc, vm, io) else vm_run life vm io
   }"

section \<open>The boot layer\<close>

definition clear_processor :: "vm \<Rightarrow> vm option" where
  "clear_processor vm =
     for_up (\<lambda>i vm. vm_write_inst (vm_proc_slot_ip vm i) \<lparr>inst_n = 0, inst_dst = 0, inst_src = 0\<rparr> vm)
       0 (vm_processor_n vm) vm"

text \<open>The result is the return code (\<open>False\<close>: -1) and the machine.\<close>

definition vm_build_boot_loader_layer :: "nat \<Rightarrow> vm \<Rightarrow> (bool \<times> vm) option" where
  "vm_build_boot_loader_layer next_layer_ptr vm =
     (if next_layer_ptr \<ge> 2 ^ vm_addr_bits vm then Some (False, vm)
      else do {
        vm \<leftarrow> clear_processor vm;
        vm \<leftarrow> vm_write_inst (vm_proc_slot_ip vm 0) \<lparr>inst_n = 0, inst_dst = next_layer_ptr, inst_src = 0\<rparr> vm;
        let patch_slot = (vm_processor_n vm + 2 ^ 32 - 2) mod 2 ^ 32;
        let load_slot = (vm_processor_n vm + 2 ^ 32 - 1) mod 2 ^ 32;
        let src_field_of_load = vm_proc_slot_field_ip vm load_slot (vm_off_src vm);
        let dst_field_of_slot0 = vm_proc_slot_field_ip vm 0 (vm_off_dst vm);
        let patch = \<lparr>inst_n = vm_addr_bits vm, inst_dst = src_field_of_load, inst_src = dst_field_of_slot0\<rparr>;
        let load = \<lparr>inst_n = vm_processor_bits vm, inst_dst = vm_processor_start vm, inst_src = 0\<rparr>;
        vm \<leftarrow> vm_write_inst (vm_proc_slot_ip vm patch_slot) patch vm;
        vm \<leftarrow> vm_write_inst (vm_proc_slot_ip vm load_slot) load vm;
        Some (True, vm)
      })"

end
