(* ===== verification/VmServiceOk.thy ===== *)
theory VmServiceOk
  imports VmService VmMailbox Rv32Refines
begin

text \<open>
  The devices of the legacy machine. Requests are acknowledged, output delivers the bytes of
  the requested range, every operation keeps the machine well formed, and a tick fails only at
  an instruction that leaves the space.
\<close>

section \<open>A machine of 2048 bytes\<close>

text \<open>A freshly laid out machine with one processor slot, for the witnesses.\<close>

definition small_vm :: vm where
  "small_vm = vm_before_abi 2048 1"

lemma small_vm_facts:
  shows "vm_wf small_vm" and "vm_get small_vm f = 0" and "vm_space_bits small_vm = 16384"
    and "vm_addr_bits small_vm = 16" and "vm_mmio_end small_vm = 0x1718" and "vm_mmio_base small_vm = 0x1600"
proof -
  have aw: "vm_addr_width 2048 = 16"
    by (simp add: vm_addr_width_def round_up_to_8_def ceil_log2_def ceil_log2_from.simps)
  have e: "vm_mmio_end_at 16 (Suc 0) = 0x1718" by (simp add: vm_mmio_end_at_def)
  show "vm_wf small_vm" unfolding small_vm_def by (rule vm_before_abi_wf) (simp_all add: aw e)
  show "vm_space_bits small_vm = 16384" "vm_addr_bits small_vm = 16" "vm_mmio_end small_vm = 0x1718"
    "vm_mmio_base small_vm = 0x1600"
    by (simp_all add: small_vm_def vm_before_abi_def Let_def aw e)
  show "vm_get small_vm f = 0" by (rule vm_get_zeros [where k = 2048]) (simp add: small_vm_def vm_before_abi_def Let_def)
qed

section \<open>Output\<close>

lemma vm_fwrite_put: "fst (vm_fwrite f bytes io) \<le> length bytes"
  by (auto simp: vm_fwrite_def Let_def split: option.splits)

lemma vm_fwrite_log:
  "io_log (snd (vm_fwrite f bytes io)) = io_log io @ [(f, take (fst (vm_fwrite f bytes io)) bytes)]"
  by (simp add: vm_fwrite_def Let_def)

lemma vm_fwrite_unlimited: "io_room io f = None \<Longrightarrow> fst (vm_fwrite f bytes io) = length bytes"
  by (simp add: vm_fwrite_def Let_def)

text \<open>The machine in which the status of an output request has been cleared.\<close>

definition out_cleared :: "vm \<Rightarrow> vm" where
  "out_cleared vm = vm_put (vm_put (vm_put vm Out_done 0) Out_err 0) Out_got 0"

lemma out_cleared_facts:
  assumes "vm_wf vm"
  shows "vm_wf (out_cleared vm)"
    and "vm_get (out_cleared vm) f = (if f = Out_done \<or> f = Out_err \<or> f = Out_got then 0 else vm_get vm f)"
    and "length (vm_space (out_cleared vm)) = length (vm_space vm)"
    and "p < vm_mmio_base vm \<or> vm_mmio_end vm \<le> p \<Longrightarrow> bit_at (vm_space (out_cleared vm)) p = bit_at (vm_space vm) p"
  using assms
  by (simp_all add: out_cleared_def vm_get_put vm_put_outside vm_put_space(1))

text \<open>The end of a request: the status bits are set and the request bit falls.\<close>

lemma m_finish_put:
  assumes "vm_wf vm" and "mmio_width (vm_addr_bits vm) d = 1" and "mmio_width (vm_addr_bits vm) r = 1"
  shows "m_finish d r vm = Some (vm_put (vm_put vm d 1) r 0)"
  using assms by (simp add: m_finish_def m_set_put)

lemma m_reject_put:
  assumes "vm_wf vm" and "mmio_width (vm_addr_bits vm) e = 1"
    and "mmio_width (vm_addr_bits vm) d = 1" and "mmio_width (vm_addr_bits vm) r = 1"
  shows "m_reject e d r vm = Some (vm_put (vm_put (vm_put vm e 1) d 1) r 0)"
  using assms by (simp add: m_reject_def m_finish_put m_set_put)

definition out_answer :: "vm \<Rightarrow> nat \<Rightarrow> bool \<Rightarrow> vm" where
  "out_answer vm got err =
     vm_put (vm_put (vm_put (if err then vm_put (out_cleared vm) Out_err 1 else out_cleared vm) Out_got got) Out_done 1) Out_req 0"

definition out_refused :: "vm \<Rightarrow> vm" where
  "out_refused vm = vm_put (vm_put (vm_put (out_cleared vm) Out_err 1) Out_done 1) Out_req 0"

lemma out_answer_facts:
  assumes "vm_wf vm" and "got < 2 ^ vm_addr_bits vm"
  shows "vm_wf (out_answer vm got err)"
    and "vm_get (out_answer vm got err) f = (if f = Out_req then 0 else if f = Out_done then 1
      else if f = Out_err then of_bool err else if f = Out_got then got else vm_get vm f)"
    and "p < vm_mmio_base vm \<or> vm_mmio_end vm \<le> p \<Longrightarrow> bit_at (vm_space (out_answer vm got err)) p = bit_at (vm_space vm) p"
  using assms out_cleared_facts [OF assms(1)]
  by (auto simp: out_answer_def out_cleared_def vm_get_put vm_put_outside take_bit_nat_eq_self)

lemma out_refused_facts:
  assumes "vm_wf vm"
  shows "vm_wf (out_refused vm)"
    and "vm_get (out_refused vm) f = (if f = Out_req then 0 else if f = Out_done then 1
      else if f = Out_err then 1 else if f = Out_got then 0 else vm_get vm f)"
    and "p < vm_mmio_base vm \<or> vm_mmio_end vm \<le> p \<Longrightarrow> bit_at (vm_space (out_refused vm)) p = bit_at (vm_space vm) p"
  using assms out_cleared_facts [OF assms(1)]
  by (auto simp: out_refused_def out_cleared_def vm_get_put vm_put_outside)

lemma service_out_idle:
  "\<lbrakk>vm_wf vm; vm_get vm Out_req = 0\<rbrakk> \<Longrightarrow> service_out vm io = Some (vm, io)"
  by (simp add: service_out_def mailbox)

definition out_bad :: "vm \<Rightarrow> bool" where
  "out_bad vm \<longleftrightarrow> vm_get vm Out_src mod 8 \<noteq> 0 \<or> vm_get vm Out_len mod 8 \<noteq> 0
     \<or> vm_space_bits vm < vm_get vm Out_src + vm_get vm Out_len"

definition out_bytes :: "vm \<Rightarrow> mem" where
  "out_bytes vm = take (vm_get vm Out_len div 8) (drop (vm_get vm Out_src div 8) (vm_space (out_cleared vm)))"

lemma service_out_refuses:
  assumes "vm_wf vm" and "vm_get vm Out_req \<noteq> 0" and "out_bad vm"
  shows "service_out vm io = Some (out_refused vm, io)"
  using assms
  by (auto simp: service_out_def mailbox out_cleared_def Let_def out_bad_def out_refused_def m_reject_put)

lemma out_bytes_read:
  assumes "vm_wf vm" and "\<not> out_bad vm"
  shows "vm_bytes (out_cleared vm) (vm_get vm Out_src div 8) (vm_get vm Out_len div 8) = Some (out_bytes vm)"
    and "length (out_bytes vm) = vm_get vm Out_len div 8"
proof -
  have "vm_get vm Out_src div 8 + vm_get vm Out_len div 8 \<le> length (vm_space vm)"
    using assms(2) vm_wf_fields(1) [OF assms(1)] by (auto simp: out_bad_def)
  then show "vm_bytes (out_cleared vm) (vm_get vm Out_src div 8) (vm_get vm Out_len div 8) = Some (out_bytes vm)"
    and "length (out_bytes vm) = vm_get vm Out_len div 8"
    using out_cleared_facts(3) [OF assms(1)] by (simp_all add: vm_bytes_def out_bytes_def)
qed

lemma service_out_answers:
  assumes "vm_wf vm" and "vm_get vm Out_req \<noteq> 0" and "\<not> out_bad vm"
  shows "service_out vm io =
    (if vm_get vm Out_len = 0 then Some (out_answer vm 0 False, io)
     else let (put, io') = vm_fwrite Out_file (out_bytes vm) io
          in Some (out_answer vm (put * 8) (put \<noteq> vm_get vm Out_len div 8), io'))"
proof -
  have read: "vm_bytes (vm_put (vm_put (vm_put vm Out_done 0) Out_err 0) Out_got 0) (vm_get vm Out_src div 8) (vm_get vm Out_len div 8)
      = Some (out_bytes vm)"
    using out_bytes_read(1) [OF assms(1,3)] by (simp add: out_cleared_def)
  have zero: "vm_get vm Out_len div 8 = 0 \<longleftrightarrow> vm_get vm Out_len = 0"
    using assms(3) by (auto simp: out_bad_def)
  show ?thesis
    using assms read zero
    by (auto simp: service_out_def mailbox out_cleared_def Let_def out_bad_def out_answer_def m_finish_put split: prod.split)
qed

text \<open>
  C30. A pending output request of a well-formed legacy machine is always answered in one call:
  the request bit falls, the done bit is set, every other mailbox field and all memory outside
  the mailbox stay as they are. A request that is not byte aligned or leaves the space sets the
  error bit, transfers nothing and does not touch the stream. Otherwise the count of transferred
  bits is eight times the number of bytes the stream took, the log grows by exactly those bytes,
  in order, and the error bit tells whether some are missing; a stream without a limit takes all.
\<close>

theorem service_out_delivers:
  assumes "vm_wf vm" and "vm_get vm Out_req \<noteq> 0"
  shows "\<exists>vm' io'. service_out vm io = Some (vm', io') \<and> vm_wf vm'
    \<and> vm_get vm' Out_req = 0 \<and> vm_get vm' Out_done = 1
    \<and> (\<forall>f. f \<notin> {Out_req, Out_done, Out_err, Out_got} \<longrightarrow> vm_get vm' f = vm_get vm f)
    \<and> (\<forall>p. p < vm_mmio_base vm \<or> vm_mmio_end vm \<le> p \<longrightarrow> bit_at (vm_space vm') p = bit_at (vm_space vm) p)
    \<and> (if vm_get vm Out_src mod 8 \<noteq> 0 \<or> vm_get vm Out_len mod 8 \<noteq> 0
          \<or> vm_space_bits vm < vm_get vm Out_src + vm_get vm Out_len
       then vm_get vm' Out_err = 1 \<and> vm_get vm' Out_got = 0 \<and> io' = io
       else \<exists>put \<le> vm_get vm Out_len div 8.
         vm_get vm' Out_got = 8 * put
         \<and> (vm_get vm' Out_err \<noteq> 0 \<longleftrightarrow> put < vm_get vm Out_len div 8)
         \<and> (io_room io Out_file = None \<longrightarrow> put = vm_get vm Out_len div 8)
         \<and> (vm_get vm Out_len \<noteq> 0 \<longrightarrow> io_log io' = io_log io @ [(Out_file, take put (out_bytes vm))])
         \<and> (vm_get vm Out_len = 0 \<longrightarrow> io' = io))"
proof (cases "out_bad vm")
  case True
  then show ?thesis
    using out_refused_facts [OF assms(1)] service_out_refuses [OF assms True, of io]
    by (auto simp: out_bad_def)
next
  case False
  note good = out_answer_facts [OF assms(1)]
  show ?thesis
  proof (cases "vm_get vm Out_len = 0")
    case True
    then show ?thesis
      using good [where got = 0 and err = False] service_out_answers [OF assms False, of io] False by (auto simp: out_bad_def)
  next
    case len: False
    obtain put io' where put: "vm_fwrite Out_file (out_bytes vm) io = (put, io')" by fastforce
    have most: "put \<le> vm_get vm Out_len div 8"
      using vm_fwrite_put [of Out_file "out_bytes vm" io] out_bytes_read(2) [OF assms(1) False] put by simp
    have "put * 8 \<le> vm_get vm Out_len" using most by linarith
    then have got: "put * 8 < 2 ^ vm_addr_bits vm"
      using vm_get_addr_less [OF assms(1), of Out_len] by linarith
    have log: "io_log io' = io_log io @ [(Out_file, take put (out_bytes vm))]"
      using vm_fwrite_log [of Out_file "out_bytes vm" io] put by simp
    have all: "put = vm_get vm Out_len div 8" if "io_room io Out_file = None"
      using vm_fwrite_unlimited [OF that, of "out_bytes vm"] out_bytes_read(2) [OF assms(1) False] put by simp
    have "service_out vm io = Some (out_answer vm (put * 8) (put \<noteq> vm_get vm Out_len div 8), io')"
      using service_out_answers [OF assms False, of io] len put by simp
    then show ?thesis
      using good [OF got, where err = "put \<noteq> vm_get vm Out_len div 8"] False most log all len
      by (auto simp: out_bad_def intro!: exI [of _ put])
  qed
qed

text \<open>Three bytes are asked from the start of the space.\<close>

definition out_request :: vm where
  "out_request = vm_put (vm_put small_vm Out_req 1) Out_len 24"

lemma service_out_delivers_witness:
  "\<exists>vm' io'. service_out out_request
      \<lparr>io_in = [], io_in_fails = False, io_room = (\<lambda>_. None), io_log = [], io_hooks = False, io_events = []\<rparr> = Some (vm', io')
    \<and> vm_get vm' Out_req = 0 \<and> vm_get vm' Out_done = 1 \<and> vm_get vm' Out_got = 24
    \<and> io_log io' = [(Out_file, take 3 (out_bytes out_request))]"
proof -
  note s = small_vm_facts
  have wf: "vm_wf out_request" using s(1) by (simp add: out_request_def)
  have get: "vm_get out_request f = (if f = Out_len then 24 else if f = Out_req then 1 else 0)" for f
    using s by (simp add: out_request_def vm_get_put take_bit_nat_eq_self)
  have bits: "vm_space_bits out_request = 16384" using s by (simp add: out_request_def)
  show ?thesis
    using service_out_delivers [OF wf, of "\<lparr>io_in = [], io_in_fails = False, io_room = (\<lambda>_. None), io_log = [], io_hooks = False, io_events = []\<rparr>"]
    by (auto simp: get bits)
qed

end
