(* ===== verification/VmGuestRun.thy ===== *)
theory VmGuestRun
  imports VmServiceOk
begin

text \<open>
  A guest run of the legacy machine from the channel request to the halt: the request arms the
  watchdog, every tick executes one guest instruction, and the run ends when the guest stops or
  when the budget is used up.
\<close>

section \<open>The guest of the specification, run for a number of steps\<close>

fun rv_iter :: "nat \<Rightarrow> rv_state \<Rightarrow> rv_state \<times> rv_stop_reason option" where
  "rv_iter 0 st = (st, None)"
| "rv_iter (Suc k) st = (case rv_step st of Rv_next st' \<Rightarrow> rv_iter k st' | Rv_stop r \<Rightarrow> (st, Some r))"

section \<open>What mailbox writes and the state of the run leave alone\<close>

lemma rv_ready_wf: "rv_ready vm \<Longrightarrow> vm_wf vm"
  by (simp add: rv_ready_def)

lemma rv_put_same:
  assumes "rv_ready vm"
  shows "rv_ready (vm_put vm f v)" and "rv_abs (vm_put vm f v) = rv_abs vm"
proof -
  have wf: "vm_wf vm" using assms by (rule rv_ready_wf)
  note sp = rv_put_space [OF assms, of f v]
  have low: "take n (drop j (vm_space (vm_put vm f v))) = take n (drop j (vm_space vm))" if "j + n \<le> 0x2C0" for j n
    using take_drop_below [OF that sp(1)] .
  have regs: "take 4 (drop (0x240 + 4 * unat q) (vm_space (vm_put vm f v))) = take 4 (drop (0x240 + 4 * unat q) (vm_space vm))"
    for q :: reg
    by (rule low) (use rv_reg_index [of q] in simp)
  show "rv_ready (vm_put vm f v)"
    using assms vm_put_wf [OF wf] low [of "0x240" 4] vm_put_space(1) [OF wf, of f v] by (simp add: rv_ready_def)
  show "rv_abs (vm_put vm f v) = rv_abs vm"
    unfolding rv_abs_def using low [of "0x200" 4] sp(2) regs by (simp add: fun_eq_iff)
qed

lemma rv_run_state [simp]:
  "rv_ready (vm\<lparr>vm_last_err := e\<rparr>) \<longleftrightarrow> rv_ready vm" "rv_abs (vm\<lparr>vm_last_err := e\<rparr>) = rv_abs vm"
  "rv_ready (vm\<lparr>vm_tick_counter := t\<rparr>) \<longleftrightarrow> rv_ready vm" "rv_abs (vm\<lparr>vm_tick_counter := t\<rparr>) = rv_abs vm"
  "rv_ready (vm\<lparr>rv_guest_running := b\<rparr>) \<longleftrightarrow> rv_ready vm" "rv_abs (vm\<lparr>rv_guest_running := b\<rparr>) = rv_abs vm"
  "rv_ready (vm\<lparr>rv_guest_loaded := b\<rparr>) \<longleftrightarrow> rv_ready vm" "rv_abs (vm\<lparr>rv_guest_loaded := b\<rparr>) = rv_abs vm"
  "rv_ready (vm\<lparr>rv_guest_stop_reason := r\<rparr>) \<longleftrightarrow> rv_ready vm" "rv_abs (vm\<lparr>rv_guest_stop_reason := r\<rparr>) = rv_abs vm"
  by (simp_all add: rv_ready_def rv_abs_def fun_eq_iff)

section \<open>A processor without instructions\<close>

text \<open>Every slot lies below the guest's program counter and has length zero.\<close>

definition idle_processor :: "vm \<Rightarrow> bool" where
  "idle_processor vm \<longleftrightarrow> vm_processor_n vm * (3 * vm_addr_bits vm) \<le> 0x1000
     \<and> (\<forall>i<vm_processor_n vm. \<forall>k<vm_addr_bits vm. \<not> bit_at (take 0x200 (vm_space vm)) (i * (3 * vm_addr_bits vm) + k))"

lemma idle_processor_cong:
  "\<lbrakk>idle_processor vm; take 0x200 (vm_space vm') = take 0x200 (vm_space vm); vm_processor_n vm' = vm_processor_n vm;
    vm_addr_bits vm' = vm_addr_bits vm\<rbrakk> \<Longrightarrow> idle_processor vm'"
  by (simp add: idle_processor_def)

lemma idle_processor_put:
  assumes "rv_ready vm" and "idle_processor vm"
  shows "idle_processor (vm_put vm f v)"
proof (rule idle_processor_cong [OF assms(2)])
  show "take 0x200 (vm_space (vm_put vm f v)) = take 0x200 (vm_space vm)"
    using take_drop_below [of 0 "0x200" "0x2C0", OF _ rv_put_space(1) [OF assms(1), of f v]] by simp
qed simp_all

lemma idle_processor_run [simp]:
  "idle_processor (vm\<lparr>rv_guest_running := b\<rparr>) \<longleftrightarrow> idle_processor vm"
  "idle_processor (vm\<lparr>rv_guest_loaded := b\<rparr>) \<longleftrightarrow> idle_processor vm"
  "idle_processor (vm\<lparr>rv_guest_stop_reason := r\<rparr>) \<longleftrightarrow> idle_processor vm"
  "idle_processor (vm\<lparr>vm_last_err := e\<rparr>) \<longleftrightarrow> idle_processor vm"
  "idle_processor (vm\<lparr>vm_tick_counter := t\<rparr>) \<longleftrightarrow> idle_processor vm"
  by (simp_all add: idle_processor_def)

lemma bit_at_take_below: "p < 8 * n \<Longrightarrow> bit_at (take n m) p = bit_at m p"
  by (auto simp: bit_at_def)

lemma idle_slot:
  assumes "rv_ready vm" and "idle_processor vm" and "i < vm_processor_n vm"
  shows "vm_slot i vm io = Some (True, vm, io)"
proof -
  let ?a = "vm_addr_bits vm"
  have wf: "vm_wf vm" using assms(1) by (rule rv_ready_wf)
  note f = vm_wf_fields [OF wf]
  have "Suc i * (3 * ?a) \<le> vm_processor_n vm * (3 * ?a)" using assms(3) by (intro mult_le_mono1) simp
  then have below: "i * (3 * ?a) + 3 * ?a \<le> 0x1000" using assms(2) by (simp add: idle_processor_def)
  have len: "0x1000 \<le> 8 * length (vm_space vm)" using assms(1) by (simp add: rv_ready_def)
  have read: "vm_read_uint (vm_space vm) (i * (3 * ?a) + j) ?a
      = Some (word_field msb_first (bit_at (vm_space vm)) (i * (3 * ?a) + j) ?a)" if "j \<le> 2 * ?a" for j
    using that below len f(3) by (intro vm_read_uint_field) linarith+
  have "\<not> bit_at (vm_space vm) (i * (3 * ?a) + k)" if "k < ?a" for k
  proof -
    have "\<not> bit_at (take 0x200 (vm_space vm)) (i * (3 * ?a) + k)"
      using assms(2,3) that by (simp add: idle_processor_def)
    moreover have "i * (3 * ?a) + k < 8 * 0x200" using below that by simp
    ultimately show ?thesis using bit_at_take_below by blast
  qed
  then have clear: "\<not> bit_at (vm_space vm) q" if "i * (3 * ?a) \<le> q" "q < i * (3 * ?a) + ?a" for q
    using that by (metis add_diff_inverse_nat nat_add_left_cancel_less not_less)
  have "word_field msb_first (bit_at (vm_space vm)) (i * (3 * ?a)) ?a = (0 :: u64)"
  proof (rule bit_word_eqI)
    fix k assume "k < LENGTH(64)"
    show "bit (word_field msb_first (bit_at (vm_space vm)) (i * (3 * ?a)) ?a :: u64) k \<longleftrightarrow> bit (0 :: u64) k"
      unfolding bit_word_field msb_first_def using clear [of "i * (3 * ?a) + ?a - Suc k"] by fastforce
  qed
  then have n: "vm_read_uint (vm_space vm) (i * (3 * ?a)) ?a = Some 0"
    using read [of 0] by simp
  show ?thesis
    using read [of ?a] read [of "2 * ?a"] n wf
    by (simp add: vm_slot_def vm_read_inst_def vm_proc_slot_ip_def f Let_def)
qed

lemma idle_slots:
  assumes "rv_ready vm" and "idle_processor vm"
  shows "i + k \<le> vm_processor_n vm \<Longrightarrow> vm_slots i k vm io = Some (True, vm, io)"
  by (induction k arbitrary: i) (use assms in \<open>simp_all add: idle_slot\<close>)

definition idle_tick_io :: "nat \<Rightarrow> vm_io \<Rightarrow> vm_io" where
  "idle_tick_io n io = vm_hook Tick_end (vm_hook (Tick_begin n) io)"

lemma idle_tick_io_same [simp]:
  "io_log (idle_tick_io n io) = io_log io" "io_in (idle_tick_io n io) = io_in io"
  by (simp_all add: idle_tick_io_def vm_hook_def)

lemma idle_execute:
  assumes "rv_ready vm" and "idle_processor vm"
  shows "vm_execute vm io = Some (VM_OK, vm\<lparr>vm_tick_counter := (vm_tick_counter vm + 1) mod 2 ^ 64\<rparr>,
    idle_tick_io (vm_processor_n vm) io)"
  using idle_slots [OF assms, of 0 "vm_processor_n vm"] by (simp add: vm_execute_def idle_tick_io_def)

section \<open>A tick of an armed machine\<close>

text \<open>
  No request is pending, the guest runs, and the watchdog has counted \<open>k\<close> of its \<open>L\<close> ticks.
\<close>

definition armed :: "nat \<Rightarrow> nat \<Rightarrow> vm \<Rightarrow> bool" where
  "armed L k vm \<longleftrightarrow> rv_ready vm \<and> idle_processor vm \<and> rv_guest_running vm \<and> rv_guest_stop_reason vm = RV_STOP_NONE
     \<and> vm_get vm Out_req = 0 \<and> vm_get vm In_req = 0 \<and> vm_get vm Load_req = 0 \<and> vm_get vm Ch_req = 0
     \<and> vm_get vm Halt_bit = 0 \<and> vm_get vm Wd_fired = 0
     \<and> vm_get vm Wd_enable \<noteq> 0 \<and> vm_get vm Wd_limit = L \<and> vm_get vm Wd_ticks = k"

text \<open>The end of a run: stopped by the guest for a reason, or by the watchdog.\<close>

definition guest_ended :: "rv_state \<Rightarrow> rv_stop_reason option \<Rightarrow> vm \<Rightarrow> bool" where
  "guest_ended st r vm \<longleftrightarrow> rv_ready vm \<and> rv_abs vm = st \<and> \<not> rv_guest_running vm \<and> vm_get vm Halt_bit = 1
     \<and> (case r of None \<Rightarrow> rv_guest_stop_reason vm = RV_STOP_NONE \<and> vm_get vm Wd_fired = 1
        | Some r \<Rightarrow> rv_guest_stop_reason vm = r \<and> vm_get vm Wd_fired = 0)"

text \<open>A tick after its requests have been served.\<close>

definition tick_rest :: "vm \<Rightarrow> vm_io \<Rightarrow> (vm_rc \<times> vm \<times> vm_io) option" where
  "tick_rest vm io = do {
     vm \<leftarrow> vm_watchdog vm;
     halt \<leftarrow> m_bit vm Halt_bit;
     if halt then Some (VM_HALT, vm_halted vm, io)
     else if rv_guest_running vm then do {
       vm \<leftarrow> rv32_guest_step vm;
       halt \<leftarrow> m_bit vm Halt_bit;
       if halt then Some (VM_HALT, vm_halted vm, io) else vm_execute vm io
     }
     else vm_execute vm io
   }"

lemma watchdog_armed:
  assumes "armed L k vm" and "0 < L"
  shows "vm_watchdog vm = (if k + 1 < L then Some (vm_put vm Wd_ticks (k + 1))
    else Some ((vm_put (vm_put (vm_put vm Wd_ticks (k + 1)) Wd_fired 1) Halt_bit 1)\<lparr>rv_guest_running := False\<rparr>))"
proof -
  have "vm_wf vm" using assms(1) by (simp add: armed_def rv_ready_wf)
  then show ?thesis using assms by (auto simp: vm_watchdog_def armed_def mailbox)
qed

lemma tick_rest_fires:
  assumes "armed L k vm" and "0 < L" and "L \<le> k + 1"
  shows "\<exists>vm'. tick_rest vm io = Some (VM_HALT, vm', io) \<and> guest_ended (rv_abs vm) None vm'"
proof -
  let ?vm = "vm_put (vm_put (vm_put vm Wd_ticks (k + 1)) Wd_fired 1) Halt_bit 1"
  have ready: "rv_ready vm" using assms(1) by (simp add: armed_def)
  then have wf: "vm_wf vm" by (rule rv_ready_wf)
  have abs: "rv_ready ?vm" "rv_abs ?vm = rv_abs vm" using ready by (simp_all add: rv_put_same)
  have "guest_ended (rv_abs vm) None (vm_halted (?vm\<lparr>rv_guest_running := False\<rparr>))"
    using abs assms(1) wf by (simp add: guest_ended_def vm_halted_def vm_get_put armed_def)
  moreover have "tick_rest vm io = Some (VM_HALT, vm_halted (?vm\<lparr>rv_guest_running := False\<rparr>), io)"
    using watchdog_armed [OF assms(1,2)] assms(3) wf
    by (simp add: tick_rest_def mailbox)
  ultimately show ?thesis by blast
qed

lemma armed_counts:
  assumes "armed L k vm" and "k + 1 < L"
  shows "armed L (k + 1) (vm_put vm Wd_ticks (k + 1))" and "rv_abs (vm_put vm Wd_ticks (k + 1)) = rv_abs vm"
proof -
  have ready: "rv_ready vm" using assms(1) by (simp add: armed_def)
  then have wf: "vm_wf vm" by (rule rv_ready_wf)
  have "k + 1 < 2 ^ vm_addr_bits vm"
    using assms vm_get_addr_less [OF wf, of Wd_limit] by (simp add: armed_def)
  then show "armed L (k + 1) (vm_put vm Wd_ticks (k + 1))"
    using assms(1) wf ready by (simp add: armed_def rv_put_same idle_processor_put vm_get_put take_bit_nat_eq_self)
  show "rv_abs (vm_put vm Wd_ticks (k + 1)) = rv_abs vm" by (rule rv_put_same(2) [OF ready])
qed

lemma tick_rest_stops:
  assumes "armed L k vm" and "k + 1 < L" and "rv_step (rv_abs vm) = Rv_stop r"
  shows "\<exists>vm'. tick_rest vm io = Some (VM_HALT, vm', io) \<and> guest_ended (rv_abs vm) (Some r) vm'"
proof -
  let ?vm = "vm_put vm Wd_ticks (k + 1)"
  have armed: "armed L (k + 1) ?vm" and abs: "rv_abs ?vm = rv_abs vm" using armed_counts [OF assms(1,2)] by auto
  have "rv_simulates ?vm (rv32_guest_step ?vm) (Rv_stop r)"
    using step_simulates [of ?vm] armed assms(3) abs by (simp add: armed_def)
  then obtain vm1 where step: "rv32_guest_step ?vm = Some vm1" "rv_stopped ?vm r vm1"
    by (auto simp: rv_simulates_def split: option.splits)
  have wf: "vm_wf ?vm" "vm_wf vm1" "0 < L"
    using armed step(2) assms(2) by (auto simp: armed_def rv_stopped_def rv_ready_wf)
  have "guest_ended (rv_abs vm) (Some r) (vm_halted vm1)"
    using step(2) abs armed by (simp add: guest_ended_def vm_halted_def rv_stopped_def armed_def)
  moreover have "tick_rest vm io = Some (VM_HALT, vm_halted vm1, io)"
    using watchdog_armed [OF assms(1) wf(3)] assms(2) wf armed step
    by (simp add: tick_rest_def m_bit_get armed_def rv_stopped_def)
  ultimately show ?thesis by blast
qed

lemma armed_keeps:
  assumes "armed L k vm" and "rv_keeps vm vm'" and "rv_ready vm'"
  shows "armed L k vm'"
  using assms idle_processor_cong [of vm vm'] by (simp add: armed_def rv_keeps_def)

lemma armed_run_state [simp]:
  "armed L k (vm\<lparr>vm_tick_counter := t\<rparr>) \<longleftrightarrow> armed L k vm" "armed L k (vm\<lparr>vm_last_err := e\<rparr>) \<longleftrightarrow> armed L k vm"
  by (simp_all add: armed_def idle_processor_def)

lemma tick_rest_steps:
  assumes "armed L k vm" and "k + 1 < L" and "rv_step (rv_abs vm) = Rv_next st"
  shows "\<exists>vm'. tick_rest vm io = Some (VM_OK, vm', idle_tick_io (vm_processor_n vm) io)
    \<and> armed L (k + 1) vm' \<and> rv_abs vm' = st"
proof -
  let ?vm = "vm_put vm Wd_ticks (k + 1)"
  have armed: "armed L (k + 1) ?vm" and abs: "rv_abs ?vm = rv_abs vm" using armed_counts [OF assms(1,2)] by auto
  have "rv_simulates ?vm (rv32_guest_step ?vm) (Rv_next st)"
    using step_simulates [of ?vm] armed assms(3) abs by (simp add: armed_def)
  then obtain vm1 where step: "rv32_guest_step ?vm = Some vm1" "rv_ready vm1" "rv_abs vm1 = st" "rv_keeps ?vm vm1"
    by (auto simp: rv_simulates_def split: option.splits)
  have armed1: "armed L (k + 1) vm1" by (rule armed_keeps [OF armed step(4,2)])
  have n: "vm_processor_n vm1 = vm_processor_n vm" using step(4) by (simp add: rv_keeps_def)
  have wf: "vm_wf ?vm" "vm_wf vm1" "0 < L" "idle_processor vm1"
    using armed armed1 assms(2) by (auto simp: armed_def rv_ready_wf)
  let ?vm2 = "vm1\<lparr>vm_tick_counter := (vm_tick_counter vm1 + 1) mod 2 ^ 64\<rparr>"
  have "tick_rest vm io = Some (VM_OK, ?vm2, idle_tick_io (vm_processor_n vm) io)"
    using watchdog_armed [OF assms(1) wf(3)] assms(2) wf armed armed1 step(1) idle_execute [OF step(2) wf(4)]
    by (simp add: tick_rest_def m_bit_get armed_def n)
  moreover have "armed L (k + 1) ?vm2 \<and> rv_abs ?vm2 = st" using armed1 step(3) by simp
  ultimately show ?thesis by blast
qed

lemma services_idle:
  assumes "vm_wf vm"
  shows "vm_get vm In_req = 0 \<Longrightarrow> service_in vm io = Some (vm, io)"
    and "vm_get vm Load_req = 0 \<Longrightarrow> service_loader vm = Some vm"
    and "vm_get vm Ch_req = 0 \<Longrightarrow> service_channel vm io = Some (vm, io)"
  using assms by (simp_all add: service_in_def service_loader_def service_channel_def mailbox)

lemma tick_armed:
  assumes "armed L k vm"
  shows "vm_tick vm io = tick_rest (vm\<lparr>vm_last_err := vm_no_err (vm_tick_counter vm) (vm_space_bits vm)\<rparr>) io"
proof -
  let ?vm = "vm\<lparr>vm_last_err := vm_no_err (vm_tick_counter vm) (vm_space_bits vm)\<rparr>"
  have "armed L k ?vm" using assms by simp
  then have "vm_wf ?vm" "vm_get ?vm Out_req = 0" "vm_get ?vm In_req = 0" "vm_get ?vm Load_req = 0" "vm_get ?vm Ch_req = 0"
    unfolding armed_def using rv_ready_wf by blast+
  then show ?thesis
    by (simp only: vm_tick_def Let_def service_out_idle services_idle bind.bind_lunit prod.case tick_rest_def)
qed

text \<open>From the moment the run is armed it ends within the rest of its budget.\<close>

lemma armed_run:
  assumes "vm_tick vm io = tick_rest vm1 io" and "armed L k vm1" and "k < L" and "L - k \<le> life"
  shows "\<exists>vm' io'. vm_run life vm io = Some (VM_HALT, vm', io') \<and> io_log io' = io_log io \<and> io_in io' = io_in io
    \<and> guest_ended (fst (rv_iter (L - 1 - k) (rv_abs vm1))) (snd (rv_iter (L - 1 - k) (rv_abs vm1))) vm'"
  using assms
proof (induction life arbitrary: k vm vm1 io)
  case (Suc life)
  note tick = Suc.prems(1) and armed = Suc.prems(2)
  show ?case
  proof (cases "k + 1 < L")
    case False
    then obtain vm' where "tick_rest vm1 io = Some (VM_HALT, vm', io)" "guest_ended (rv_abs vm1) None vm'"
      using tick_rest_fires [OF armed] Suc.prems(3) by fastforce
    then show ?thesis using False Suc.prems(3) by (auto simp: tick)
  next
    case True
    then obtain d where d: "L - 1 - k = Suc d" "L - 1 - (k + 1) = d"
      by (metis Suc_diff_Suc add.commute diff_diff_left less_diff_conv plus_1_eq_Suc)
    show ?thesis
    proof (cases "rv_step (rv_abs vm1)")
      case (Rv_stop r)
      then obtain vm' where "tick_rest vm1 io = Some (VM_HALT, vm', io)" "guest_ended (rv_abs vm1) (Some r) vm'"
        using tick_rest_stops [OF armed True] by fastforce
      then show ?thesis using Rv_stop d by (auto simp: tick)
    next
      case (Rv_next st)
      let ?io = "idle_tick_io (vm_processor_n vm1) io"
      obtain vm' where vm': "tick_rest vm1 io = Some (VM_OK, vm', ?io)" "armed L (k + 1) vm'" "rv_abs vm' = st"
        using tick_rest_steps [OF armed True] Rv_next by fastforce
      let ?vm2 = "vm'\<lparr>vm_last_err := vm_no_err (vm_tick_counter vm') (vm_space_bits vm')\<rparr>"
      have "armed L (k + 1) ?vm2" "L - (k + 1) \<le> life" using vm'(2) Suc.prems(4) by auto
      then show ?thesis
        using Suc.IH [OF tick_armed [OF vm'(2)] _ True, of ?io] vm'(1,3) Rv_next d by (simp add: tick)
    qed
  qed
qed simp

section \<open>The request that starts a run\<close>

text \<open>The operations 8 and 9 of the channel.\<close>

definition run_request :: "vm \<Rightarrow> bool" where
  "run_request vm \<longleftrightarrow> vm_get vm Ch_req \<noteq> 0 \<and> (vm_get vm Ch_op = 8 \<or> vm_get vm Ch_op = 9) \<and> 0 < vm_get vm Ch_c
     \<and> vm_get vm Out_req = 0 \<and> vm_get vm In_req = 0 \<and> vm_get vm Load_req = 0"

lemma channel_op_read:
  assumes "vm_wf vm"
  shows "map_option unat (vm_read_uint (vm_space vm) (vm_mmio vm Ch_op) 8) = Some (vm_get vm Ch_op)"
  using mmio_access(1,2) [OF assms, of Ch_op] by (simp add: vm_read_uint_field vm_get_def)

lemma channel_starts_run:
  assumes "rv_ready vm" and "idle_processor vm" and "run_request vm" and "rv_guest_loaded vm"
  shows "\<exists>vm'. service_channel vm io = Some (vm', io) \<and> armed (vm_get vm Ch_c) 0 vm' \<and> rv_abs vm' = rv_abs vm"
proof -
  have wf: "vm_wf vm" using assms(1) by (rule rv_ready_wf)
  let ?vm0 = "vm_put (vm_put vm Ch_done 0) Ch_err 0"
  let ?vm1 = "vm_put (vm_put (vm_put (vm_put ?vm0 Wd_limit (vm_get vm Ch_c)) Wd_ticks 0) Wd_fired 0) Wd_enable 1"
  let ?vm2 = "?vm1\<lparr>rv_guest_running := True, rv_guest_stop_reason := RV_STOP_NONE\<rparr>"
  let ?vm3 = "vm_put (vm_put (vm_put ?vm2 Halt_bit 0) Ch_done 1) Ch_req 0"
  have wf1: "vm_wf ?vm0" "vm_wf ?vm2" using wf by simp_all
  obtain op where op: "vm_read_uint (vm_space ?vm0) (vm_mmio ?vm0 Ch_op) 8 = Some op" "unat op = vm_get vm Ch_op"
    using channel_op_read [OF wf1(1)] wf by (auto simp: vm_get_put)
  have ops: "(unat op = 8 \<or> unat op = 9) \<and> 0 < vm_get vm Ch_c" "op \<noteq> 5"
    using assms(3) op(2) by (auto simp: run_request_def)
  have run: "ch_run ?vm0 = Some (vm_put ?vm2 Halt_bit 0)"
    using wf assms(4) ops by (simp add: ch_run_def mailbox)
  have "channel_op (unat op) ?vm0 = Some (vm_put ?vm2 Halt_bit 0)"
    using ops(1) run by (auto simp: channel_op_def)
  then have "service_channel vm io = Some (?vm3, io)"
    using wf wf1 op(1) ops assms(3)
    by (simp add: service_channel_def mailbox run_request_def m_finish_put)
  moreover have "armed (vm_get vm Ch_c) 0 ?vm3"
    using assms(1-3) wf vm_get_addr_less [OF wf, of Ch_c]
    by (simp add: armed_def run_request_def rv_put_same vm_get_put take_bit_nat_eq_self idle_processor_put)
  moreover have "rv_abs ?vm3 = rv_abs vm" using assms(1) by (simp add: rv_put_same)
  ultimately show ?thesis by blast
qed


lemma tick_starts_run:
  assumes "rv_ready vm" and "idle_processor vm" and "run_request vm" and "rv_guest_loaded vm"
  shows "\<exists>vm1. vm_tick vm io = tick_rest vm1 io \<and> armed (vm_get vm Ch_c) 0 vm1 \<and> rv_abs vm1 = rv_abs vm"
proof -
  let ?vm = "vm\<lparr>vm_last_err := vm_no_err (vm_tick_counter vm) (vm_space_bits vm)\<rparr>"
  have ready: "rv_ready ?vm" "idle_processor ?vm" "rv_guest_loaded ?vm" "rv_abs ?vm = rv_abs vm"
    "vm_get ?vm Ch_c = vm_get vm Ch_c"
    using assms by simp_all
  have req: "run_request ?vm" using assms(3) by (simp add: run_request_def)
  have wf: "vm_wf ?vm" using ready(1) by (rule rv_ready_wf)
  have "vm_get ?vm Out_req = 0" "vm_get ?vm In_req = 0" "vm_get ?vm Load_req = 0"
    using req by (simp_all only: run_request_def)
  then have "vm_tick vm io = do { (vm, io) \<leftarrow> service_channel ?vm io; tick_rest vm io }"
    using wf by (simp only: vm_tick_def Let_def service_out_idle services_idle bind.bind_lunit prod.case tick_rest_def)
  moreover obtain vm1 where "service_channel ?vm io = Some (vm1, io)" "armed (vm_get ?vm Ch_c) 0 vm1" "rv_abs vm1 = rv_abs ?vm"
    using channel_starts_run [OF ready(1,2) req ready(3)] by blast
  ultimately show ?thesis using ready(4,5) by auto
qed

section \<open>Properties\<close>

text \<open>
  C6. A guest run always ends within its budget. When the processor slots are empty and the only
  request is RUN (or STEP) with a positive budget of \<open>L\<close> ticks, a loop of at least \<open>L\<close> ticks
  ends in the halt state, and the guest is what the instruction set makes of it in \<open>L - 1\<close>
  instructions or up to its own stop, whichever is first. The stop reason and the fired bit of
  the watchdog tell the two apart, and the streams are not touched.
\<close>

theorem guest_run_ends:
  assumes "rv_ready vm" and "idle_processor vm" and "rv_guest_loaded vm"
    and "run_request vm" and "vm_get vm Ch_c \<le> life"
  shows "\<exists>vm' io'. vm_run life vm io = Some (VM_HALT, vm', io') \<and> io_log io' = io_log io \<and> io_in io' = io_in io
    \<and> (case rv_iter (vm_get vm Ch_c - 1) (rv_abs vm) of (st, stop) \<Rightarrow> guest_ended st stop vm')"
proof -
  let ?L = "vm_get vm Ch_c"
  have L: "0 < ?L" using assms(4) by (simp add: run_request_def)
  obtain vm1 where vm1: "vm_tick vm io = tick_rest vm1 io" "armed ?L 0 vm1" "rv_abs vm1 = rv_abs vm"
    using tick_starts_run [OF assms(1,2,4,3)] by blast
  show ?thesis using armed_run [OF vm1(1,2) L, of life] assms(5) vm1(3) by (simp add: case_prod_beta)
qed


text \<open>The run of \<open>addi x1, x0, 5\<close> with a budget of two ticks: the watchdog ends it after one instruction.\<close>

definition addi_code :: mem where "addi_code = [0x93, 0x00, 0x50, 0x00]"

definition addi_run :: vm where
  "addi_run = (vm_put (vm_put (vm_put (guest_machine addi_code) Ch_req 1) Ch_op 8) Ch_c 2)\<lparr>rv_guest_loaded := True\<rparr>"

definition no_io :: vm_io where
  "no_io = \<lparr>io_in = [], io_in_fails = False, io_room = (\<lambda>_. None), io_log = [], io_hooks = False, io_events = []\<rparr>"

lemma addi_step:
  assumes "rv_abs vm = \<lparr>rv_pc = 0, rv_regs = (\<lambda>_. 0), rv_mem = put_bytes (replicate 0x400 0) 0 addi_code\<rparr>"
  shows "rv_step (rv_abs vm) = rv_jump 4 (rv_set 1 5 (rv_abs vm))"
proof -
  have dec: "rv_decode 0x00500093 = Some (Alu_imm Alu_add 1 0 5)" by code_simp
  have fetch: "le_word addi_code = 0x00500093" by (simp add: le_word_def addi_code_def)
  have mem: "take 4 (drop 0 (put_bytes (replicate 0x400 0) 0 addi_code)) = addi_code"
    by (simp add: put_bytes_def addi_code_def)
  have len: "length (put_bytes (replicate 0x400 0) 0 addi_code) = 0x400" by (simp add: addi_code_def)
  have pc: "unat (rv_pc (rv_abs vm)) = 0" by (simp add: assms)
  show ?thesis
    unfolding rv_step_run pc using mem len by (simp add: assms fetch dec rv_run_def rv_alu_def)
qed

lemma guest_machine_facts:
  assumes "length code \<le> 0x400"
  shows "vm_get (guest_machine code) f = (if f = Ch_abi_version then 1 else 0)"
    and "vm_addr_bits (guest_machine code) = 16" and "idle_processor (guest_machine code)"
proof -
  let ?vm = "vm_put small_vm Ch_abi_version 1"
  note wf = small_vm_facts(1)
  have gm: "guest_machine code = ?vm\<lparr>vm_space := put_bytes (vm_space ?vm) 0x400 code\<rparr>"
    by (simp add: guest_machine_def small_vm_def Let_def)
  have len: "length (vm_space small_vm) = 2048" using vm_wf_fields(1) [OF wf] small_vm_facts(3) by simp
  have "rv_ready (guest_machine [])" by (rule guest_machine_ready) simp
  then have ready: "rv_ready ?vm"
    by (simp add: guest_machine_def small_vm_def Let_def put_bytes_def)
  have "0x400 + 0 + length code \<le> length (vm_space ?vm)" using assms len vm_put_space(1) [OF wf] by simp
  then have keeps: "rv_keeps ?vm (guest_machine code)"
    unfolding gm using rv_mem_write(2) [OF ready, of 0 code] assms by (simp add: rv_abs_def)
  then show "vm_get (guest_machine code) f = (if f = Ch_abi_version then 1 else 0)"
    using wf by (simp add: rv_keeps_def vm_get_put small_vm_facts)
  show a: "vm_addr_bits (guest_machine code) = 16" using keeps by (simp add: rv_keeps_def small_vm_facts)
  have "vm_processor_n small_vm = 1" by (simp add: small_vm_def vm_before_abi_def Let_def)
  then have n: "vm_processor_n (guest_machine code) = 1" using keeps by (simp add: rv_keeps_def)
  have "\<not> bit_at (vm_space ?vm) k" if "k < 0x1000" for k
    using vm_put_outside [OF wf, of k Ch_abi_version 1] that
    by (simp add: small_vm_facts) (simp add: small_vm_def vm_before_abi_def Let_def)
  then have "\<not> bit_at (take 0x200 (vm_space (guest_machine code))) k" if "k < 16" for k
    using keeps that by (simp add: rv_keeps_def bit_at_take_below)
  then show "idle_processor (guest_machine code)" by (simp add: idle_processor_def n a)
qed

lemma guest_run_ends_witness:
  "\<exists>vm' io'. vm_run 3 addi_run no_io = Some (VM_HALT, vm', io') \<and> rv_regs (rv_abs vm') 1 = 5
    \<and> rv_guest_stop_reason vm' = RV_STOP_NONE \<and> vm_get vm' Wd_fired = 1"
proof -
  have code: "length addi_code \<le> 0x400" by (simp add: addi_code_def)
  note g = guest_machine_ready [OF code] guest_machine_facts [OF code]
  have wf: "vm_wf (guest_machine addi_code)" using g(1) by (rule rv_ready_wf)
  have ready: "rv_ready addi_run" using g(1) by (simp add: addi_run_def rv_put_same)
  have idle: "idle_processor addi_run" using g(1,5) by (simp add: addi_run_def idle_processor_put rv_put_same)
  have abs: "rv_abs addi_run = rv_abs (guest_machine addi_code)" using g(1) by (simp add: addi_run_def rv_put_same)
  have req: "run_request addi_run" "vm_get addi_run Ch_c = 2"
    using wf g(3,4) by (simp_all add: run_request_def addi_run_def vm_get_put)
  have "rv_step (rv_abs addi_run) = rv_jump 4 (rv_set 1 5 (rv_abs addi_run))"
    by (rule addi_step) (simp add: abs g(2))
  then have "rv_iter 1 (rv_abs addi_run) = ((rv_set 1 5 (rv_abs addi_run))\<lparr>rv_pc := 4\<rparr>, None)"
    by (simp add: rv_jump_def)
  then show ?thesis
    using guest_run_ends [OF ready idle _ req(1), of 3 no_io] req(2)
    by (auto simp: addi_run_def guest_ended_def rv_set_def)
qed

end
