(* ===== verification/Fold64.thy ===== *)
theory Fold64
  imports Prelude "HOL-Library.Signed_Division"
begin

text \<open>
  runtime/copy_c/integer64_fold.h: 64-bit arithmetic of the constant folder of the C compiler
  that runs in the space, computed with 32-bit cells only. The model is one function per
  function of the file; the loops of the file count a number of rounds and are iterated.
  The theorem says that every operation is the one of 64-bit machine words.
\<close>

record cc_u64 =
  c_lo :: u32
  c_hi :: u32

definition cc_u64_add :: "cc_u64 \<Rightarrow> cc_u64 \<Rightarrow> cc_u64" where
  "cc_u64_add a b =
     (let r = \<lparr>c_lo = c_lo a + c_lo b, c_hi = c_hi a + c_hi b\<rparr>
      in r\<lparr>c_hi := c_hi r + of_bool (c_lo r < c_lo a)\<rparr>)"

definition cc_u64_neg :: "cc_u64 \<Rightarrow> cc_u64" where
  "cc_u64_neg a = cc_u64_add \<lparr>c_lo = NOT (c_lo a), c_hi = NOT (c_hi a)\<rparr> \<lparr>c_lo = 1, c_hi = 0\<rparr>"

definition cc_u64_sub :: "cc_u64 \<Rightarrow> cc_u64 \<Rightarrow> cc_u64" where
  "cc_u64_sub a b = cc_u64_add a (cc_u64_neg b)"

definition cc_u64_less :: "cc_u64 \<Rightarrow> cc_u64 \<Rightarrow> bool" where
  "cc_u64_less a b \<longleftrightarrow> c_hi a < c_hi b \<or> (c_hi a = c_hi b \<and> c_lo a < c_lo b)"

definition cc_u64_left :: "cc_u64 \<Rightarrow> cc_u64" where
  "cc_u64_left a = \<lparr>c_lo = push_bit 1 (c_lo a), c_hi = push_bit 1 (c_hi a) OR drop_bit 31 (c_lo a)\<rparr>"

definition cc_u64_right :: "bool \<Rightarrow> cc_u64 \<Rightarrow> cc_u64" where
  "cc_u64_right sign a =
     (let r = \<lparr>c_lo = drop_bit 1 (c_lo a) OR push_bit 31 (c_hi a), c_hi = drop_bit 1 (c_hi a)\<rparr>
      in if sign then r\<lparr>c_hi := c_hi r OR (c_hi a AND 0x80000000)\<rparr> else r)"

text \<open>One round of the multiplication: result, multiplicand, multiplier.\<close>

definition mul_round :: "cc_u64 \<times> cc_u64 \<times> cc_u64 \<Rightarrow> cc_u64 \<times> cc_u64 \<times> cc_u64" where
  "mul_round = (\<lambda>(r, a, b).
     (if c_lo b AND 1 \<noteq> 0 then cc_u64_add r a else r, cc_u64_left a, cc_u64_right False b))"

text \<open>The rounds of the division for the bits below \<open>i\<close>, from the highest: remainder, quotient.\<close>

primrec div_rounds :: "nat \<Rightarrow> cc_u64 \<Rightarrow> cc_u64 \<Rightarrow> cc_u64 \<Rightarrow> cc_u64 \<Rightarrow> cc_u64 \<times> cc_u64" where
  "div_rounds 0 a b r q = (r, q)"
| "div_rounds (Suc i) a b r q =
     (let carry = drop_bit 31 (c_hi r);
          r = cc_u64_left r;
          r = r\<lparr>c_lo := c_lo r OR ((if i < 32 then drop_bit i (c_lo a) else drop_bit (i - 32) (c_hi a)) AND 1)\<rparr>
      in if carry \<noteq> 0 \<or> \<not> cc_u64_less r b
         then div_rounds i a b (cc_u64_sub r b)
           (if i < 32 then q\<lparr>c_lo := c_lo q OR push_bit i 1\<rparr> else q\<lparr>c_hi := c_hi q OR push_bit (i - 32) 1\<rparr>)
         else div_rounds i a b r q)"

definition cc_zero :: cc_u64 where "cc_zero = \<lparr>c_lo = 0, c_hi = 0\<rparr>"

definition cc_truth :: "bool \<Rightarrow> cc_u64" where "cc_truth b = \<lparr>c_lo = of_bool b, c_hi = 0\<rparr>"

definition cc_flip_sign :: "cc_u64 \<Rightarrow> cc_u64" where
  "cc_flip_sign a = a\<lparr>c_hi := c_hi a XOR 0x80000000\<rparr>"

text \<open>The division cases; \<open>None\<close> is the result 0 of the C function.\<close>

definition cc_divide :: "nat \<Rightarrow> cc_u64 \<Rightarrow> cc_u64 \<Rightarrow> cc_u64 option" where
  "cc_divide op a b =
     (if c_lo b OR c_hi b = 0 then None
      else if (op = 13 \<or> op = 15) \<and> c_hi a = 0x80000000 \<and> c_lo a = 0 \<and> c_hi b = 0xffffffff \<and> c_lo b = 0xffffffff then None
      else
        let signed = (op = 13 \<or> op = 15);
            sign_a = (if signed then drop_bit 31 (c_hi a) else 0);
            sign_b = (if signed then drop_bit 31 (c_hi b) else 0);
            a = (if sign_a \<noteq> 0 then cc_u64_neg a else a);
            b = (if sign_b \<noteq> 0 then cc_u64_neg b else b);
            (r, q) = div_rounds 64 a b cc_zero cc_zero
        in Some (if op = 13 \<or> op = 14 then (if sign_a \<noteq> sign_b then cc_u64_neg q else q)
                 else if sign_a \<noteq> 0 then cc_u64_neg r else r))"

definition cc_integer64_fold :: "nat \<Rightarrow> cc_u64 \<Rightarrow> cc_u64 \<Rightarrow> cc_u64 option" where
  "cc_integer64_fold op a b =
     (if op = 0 then Some (cc_u64_add a b)
      else if op = 1 then Some (cc_u64_sub a b)
      else if op = 2 then Some (cc_truth (c_lo a = c_lo b \<and> c_hi a = c_hi b))
      else if op = 3 then Some (cc_truth (cc_u64_less (cc_flip_sign a) (cc_flip_sign b)))
      else if op = 4 then Some (cc_truth (cc_u64_less a b))
      else if op = 5 then Some \<lparr>c_lo = c_lo a AND c_lo b, c_hi = c_hi a AND c_hi b\<rparr>
      else if op = 6 then Some \<lparr>c_lo = c_lo a OR c_lo b, c_hi = c_hi a OR c_hi b\<rparr>
      else if op = 7 then Some \<lparr>c_lo = c_lo a XOR c_lo b, c_hi = c_hi a XOR c_hi b\<rparr>
      else if op = 8 then Some \<lparr>c_lo = NOT (c_lo a), c_hi = NOT (c_hi a)\<rparr>
      else if op = 9 \<or> op = 10 \<or> op = 11 then
        (if c_hi b \<noteq> 0 \<or> c_lo b \<ge> 64 then None
         else Some (((if op = 9 then cc_u64_left else cc_u64_right (op = 11)) ^^ unat (c_lo b)) a))
      else if op = 12 then Some (fst ((mul_round ^^ 64) (cc_zero, a, b)))
      else if op = 13 \<or> op = 14 \<or> op = 15 \<or> op = 16 then cc_divide op a b
      else if op = 17 then Some (cc_truth (c_lo a OR c_hi a \<noteq> 0))
      else None)"

section \<open>The value of a pair of cells\<close>

definition u64_of :: "cc_u64 \<Rightarrow> u64" where
  "u64_of a = push_bit 32 (ucast (c_hi a)) OR ucast (c_lo a)"

lemma bit_u64_of: "bit (u64_of a) n \<longleftrightarrow> (if n < 32 then bit (c_lo a) n else bit (c_hi a) (n - 32))"
  unfolding u64_of_def
  by (auto simp: bit_simps dest: bit_imp_le_length)

lemma u64_of_sum: "u64_of a = 2 ^ 32 * ucast (c_hi a) + ucast (c_lo a)"
proof -
  have "push_bit 32 (ucast (c_hi a) :: u64) AND ucast (c_lo a) = 0"
    by (rule bit_word_eqI) (auto simp: bit_simps dest: bit_imp_le_length)
  then have "u64_of a = push_bit 32 (ucast (c_hi a)) + ucast (c_lo a)"
    by (simp add: u64_of_def disjunctive_add_eq_or)
  then show ?thesis by (simp add: push_bit_eq_mult)
qed

lemma of_nat_unat_u64: "(of_nat (unat x) :: u64) = ucast x" for x :: u32
  by simp

lemma unat_of_nat_64: "n < 2 ^ 64 \<Longrightarrow> unat (of_nat n :: u64) = n"
  by (simp add: unsigned_of_nat take_bit_nat_eq_self)

lemma unat_u64_of: "unat (u64_of a) = 2 ^ 32 * unat (c_hi a) + unat (c_lo a)"
proof -
  have "u64_of a = of_nat (2 ^ 32 * unat (c_hi a) + unat (c_lo a))"
    by (simp add: u64_of_sum)
  moreover have "unat (c_hi a) < 2 ^ 32" "unat (c_lo a) < 2 ^ 32"
    using unsigned_less [of "c_hi a"] unsigned_less [of "c_lo a"] by simp_all
  then have "2 ^ 32 * unat (c_hi a) + unat (c_lo a) < 2 ^ 64" by simp
  ultimately show ?thesis using unat_of_nat_64 by metis
qed

lemma u64_of_eq_iff: "u64_of a = u64_of b \<longleftrightarrow> a = b"
proof
  assume eq: "u64_of a = u64_of b"
  have "c_lo a = c_lo b"
  proof (rule bit_word_eqI)
    fix n assume "n < LENGTH(32)"
    then show "bit (c_lo a) n = bit (c_lo b) n" using bit_u64_of [of a n] bit_u64_of [of b n] eq by simp
  qed
  moreover have "c_hi a = c_hi b"
  proof (rule bit_word_eqI)
    fix n assume "n < LENGTH(32)"
    show "bit (c_hi a) n = bit (c_hi b) n" using bit_u64_of [of a "n + 32"] bit_u64_of [of b "n + 32"] eq by simp
  qed
  ultimately show "a = b" by simp
qed simp

section \<open>The operations on pairs\<close>

lemma of_nat_mod_64: "(of_nat (n mod 2 ^ 64) :: u64) = of_nat n"
proof -
  have "unat (of_nat (n mod 2 ^ 64) :: u64) = unat (of_nat n :: u64)"
    by (simp add: unsigned_of_nat take_bit_eq_mod)
  then show ?thesis by (simp only: word_unat_eq_iff)
qed

lemma high_cell_add: "(2 ^ 32 * ucast (x + y) :: u64) = 2 ^ 32 * (ucast x + ucast y)" for x y :: u32
proof -
  have "(2 ^ 32 * ucast (x + y) :: u64) = of_nat (2 ^ 32 * ((unat x + unat y) mod 2 ^ 32))"
    by (simp flip: of_nat_unat_u64 add: unat_word_ariths)
  also have "\<dots> = of_nat (2 ^ 32 * (unat x + unat y) mod 2 ^ 64)" by (simp add: mult_mod_right)
  also have "\<dots> = of_nat (2 ^ 32 * (unat x + unat y))"
    using of_nat_mod_64 .
  also have "\<dots> = 2 ^ 32 * (ucast x + ucast y)" by simp
  finally show ?thesis .
qed

lemma low_cell_add: "(ucast x + ucast y :: u64) = ucast (x + y) + 2 ^ 32 * of_bool (x + y < x)" for x y :: u32
proof -
  have less: "unat x < 2 ^ 32" "unat y < 2 ^ 32"
    using unsigned_less [of x] unsigned_less [of y] by simp_all
  show ?thesis
  proof (cases "unat x + unat y < 2 ^ 32")
    case True
    then have "unat (x + y) = unat x + unat y" by (simp add: unat_word_ariths)
    then have "(of_nat (unat (x + y)) :: u64) = of_nat (unat x) + of_nat (unat y)" "\<not> x + y < x"
      by (simp_all only: of_nat_add word_less_nat_alt)
    then show ?thesis by (simp only: of_nat_unat_u64) simp
  next
    case False
    have "unat (x + y) = (unat x + unat y) mod 2 ^ 32" by (simp add: unat_word_ariths)
    also have "\<dots> = unat x + unat y - 2 ^ 32" using False less by (simp add: le_mod_geq)
    finally have sum: "unat x + unat y = unat (x + y) + 2 ^ 32" using False by linarith
    have "(ucast x + ucast y :: u64) = of_nat (unat x + unat y)"
      by (simp only: of_nat_add of_nat_unat_u64)
    also have "\<dots> = ucast (x + y) + 2 ^ 32"
      unfolding sum by (simp only: of_nat_add of_nat_unat_u64 of_nat_power of_nat_numeral)
    finally have "(ucast x + ucast y :: u64) = ucast (x + y) + 2 ^ 32" .
    moreover have "x + y < x" unfolding word_less_nat_alt using sum less by linarith
    ultimately show ?thesis by (simp only: of_bool_eq(2) mult_1_right)
  qed
qed

lemma u64_of_add: "u64_of (cc_u64_add a b) = u64_of a + u64_of b"
proof -
  let ?c = "c_lo a + c_lo b < c_lo a"
  have "(2 ^ 32 * ucast (c_hi a + c_hi b + of_bool ?c) :: u64)
      = 2 ^ 32 * (ucast (c_hi a) + ucast (c_hi b)) + 2 ^ 32 * of_bool ?c"
    using high_cell_add [of "c_hi a + c_hi b" 1] high_cell_add [of "c_hi a" "c_hi b"]
    by (cases ?c) (simp_all add: distrib_left)
  then have "u64_of (cc_u64_add a b)
      = 2 ^ 32 * (ucast (c_hi a) + ucast (c_hi b)) + 2 ^ 32 * of_bool ?c + ucast (c_lo a + c_lo b)"
    unfolding u64_of_sum cc_u64_add_def Let_def by simp
  also have "\<dots> = u64_of a + u64_of b"
    using low_cell_add [of "c_lo a" "c_lo b"] by (simp add: u64_of_sum algebra_simps)
  finally show ?thesis .
qed

lemma u64_of_not: "u64_of \<lparr>c_lo = NOT (c_lo a), c_hi = NOT (c_hi a)\<rparr> = NOT (u64_of a)"
proof (rule bit_word_eqI)
  fix n assume "n < LENGTH(64)"
  then have "n - 32 < 32" by simp
  then show "bit (u64_of \<lparr>c_lo = NOT (c_lo a), c_hi = NOT (c_hi a)\<rparr>) n \<longleftrightarrow> bit (NOT (u64_of a)) n"
    using \<open>n < LENGTH(64)\<close> by (simp add: bit_u64_of bit_not_iff)
qed

lemma u64_of_neg: "u64_of (cc_u64_neg a) = - u64_of a"
  unfolding cc_u64_neg_def u64_of_add u64_of_not by (simp add: u64_of_def minus_eq_not_plus_1)

lemma u64_of_sub: "u64_of (cc_u64_sub a b) = u64_of a - u64_of b"
  by (simp add: cc_u64_sub_def u64_of_add u64_of_neg)

lemma u64_of_less: "cc_u64_less a b \<longleftrightarrow> u64_of a < u64_of b"
proof -
  have "unat x < 2 ^ 32" for x :: u32 using unsigned_less [of x] by simp
  then have "unat (c_lo a) < 2 ^ 32" "unat (c_lo b) < 2 ^ 32" by blast+
  then show ?thesis
    by (auto simp: cc_u64_less_def word_less_nat_alt unat_u64_of word_unat_eq_iff)
qed

text \<open>A bit of a pair lies in one of its cells.\<close>

lemma cell_cases:
  assumes "n < LENGTH(64)"
  obtains "n < 32" | k where "n = k + 32" "k < 32"
  using assms by (cases "n < 32") (auto intro: that(2) [of "n - 32"])

lemma u64_of_left: "u64_of (cc_u64_left a) = push_bit 1 (u64_of a)"
proof (rule bit_word_eqI)
  fix n assume n: "n < LENGTH(64)"
  from n show "bit (u64_of (cc_u64_left a)) n \<longleftrightarrow> bit (push_bit 1 (u64_of a)) n"
  proof (cases rule: cell_cases)
    case 1
    then show ?thesis
      unfolding cc_u64_left_def bit_u64_of cc_u64.select_convs bit_push_bit_iff by auto
  next
    case (2 k)
    then show ?thesis
      unfolding cc_u64_left_def bit_u64_of cc_u64.select_convs bit_push_bit_iff bit_or_iff bit_drop_bit_eq
      by (cases k) (auto dest: bit_imp_le_length)
  qed
qed

lemma u64_of_right: "u64_of (cc_u64_right False a) = drop_bit 1 (u64_of a)"
proof (rule bit_word_eqI)
  fix n assume n: "n < LENGTH(64)"
  from n show "bit (u64_of (cc_u64_right False a)) n \<longleftrightarrow> bit (drop_bit 1 (u64_of a)) n"
    by (cases rule: cell_cases)
      (auto simp: bit_u64_of cc_u64_right_def bit_simps dest: bit_imp_le_length)
qed

lemma u64_of_right_signed: "u64_of (cc_u64_right True a) = signed_drop_bit 1 (u64_of a)"
proof (rule bit_word_eqI)
  fix n assume n: "n < LENGTH(64)"
  have sign: "bit (0x80000000 :: int) k \<longleftrightarrow> k = 31" for k
  proof -
    have "(0x80000000 :: int) = push_bit 31 1" by simp
    then show ?thesis by (simp only: bit_push_bit_iff) (auto simp: bit_1_iff)
  qed
  from n show "bit (u64_of (cc_u64_right True a)) n \<longleftrightarrow> bit (signed_drop_bit 1 (u64_of a)) n"
  proof (cases rule: cell_cases)
    case 1
    then show ?thesis
      by (auto simp: bit_u64_of cc_u64_right_def bit_simps Let_def dest: bit_imp_le_length)
  next
    case (2 k)
    then show ?thesis
      by (cases "k = 31") (auto simp: bit_u64_of cc_u64_right_def bit_simps sign Let_def dest: bit_imp_le_length)
  qed
qed

section \<open>The loops\<close>

lemma u64_of_iterate:
  assumes "\<And>x. u64_of (f x) = g (u64_of x)"
  shows "u64_of ((f ^^ n) a) = (g ^^ n) (u64_of a)"
  by (induction n) (simp_all add: assms)

lemma push_bit_iterate: "(push_bit 1 ^^ n) x = push_bit n x" for x :: u64
  by (induction n) (simp_all add: push_bit_push_bit del: push_bit_Suc)

lemma drop_bit_iterate: "(drop_bit 1 ^^ n) x = drop_bit n x" for x :: u64
  by (induction n) (simp_all add: drop_bit_drop_bit del: drop_bit_Suc)

lemma signed_drop_bit_iterate: "(signed_drop_bit 1 ^^ n) x = signed_drop_bit n x" for x :: u64
proof (induction n)
  case (Suc n)
  have "signed_drop_bit 1 (signed_drop_bit n x) = signed_drop_bit (Suc n) x"
    by (rule bit_word_eqI) (auto simp: bit_signed_drop_bit_iff)
  then show ?case using Suc.IH by simp
qed simp

lemma mul_rounds:
  "\<exists>r a b. (mul_round ^^ k) (cc_zero, x, y) = (r, a, b) \<and> u64_of r = u64_of x * take_bit k (u64_of y)
    \<and> u64_of a = push_bit k (u64_of x) \<and> u64_of b = drop_bit k (u64_of y)"
proof (induction k)
  case 0
  show ?case by (simp add: cc_zero_def u64_of_def)
next
  case (Suc k)
  then obtain r a b where *: "(mul_round ^^ k) (cc_zero, x, y) = (r, a, b)" "u64_of r = u64_of x * take_bit k (u64_of y)"
      "u64_of a = push_bit k (u64_of x)" "u64_of b = drop_bit k (u64_of y)" by blast
  have "c_lo b AND 1 \<noteq> 0 \<longleftrightarrow> bit (c_lo b) 0"
    by (simp add: bit_0 and_one_eq odd_iff_mod_2_eq_one)
  also have "\<dots> \<longleftrightarrow> bit (u64_of b) 0" by (simp only: bit_u64_of) simp
  also have "\<dots> \<longleftrightarrow> bit (u64_of y) k" by (simp only: *(4) bit_drop_bit_eq) simp
  finally have low: "c_lo b AND 1 \<noteq> 0 \<longleftrightarrow> bit (u64_of y) k" .
  have "take_bit (Suc k) (u64_of y) = take_bit k (u64_of y) OR (if bit (u64_of y) k then 2 ^ k else 0)"
    by (rule bit_word_eqI) (auto simp: bit_or_iff bit_take_bit_iff bit_exp_iff less_Suc_eq)
  also have "\<dots> = take_bit k (u64_of y) + (if bit (u64_of y) k then 2 ^ k else 0)"
    by (rule disjunctive_add_eq_or [symmetric]) (rule bit_word_eqI, auto simp: bit_and_iff bit_take_bit_iff bit_exp_iff)
  finally have "u64_of x * take_bit (Suc k) (u64_of y)
      = u64_of x * take_bit k (u64_of y) + (if bit (u64_of y) k then push_bit k (u64_of x) else 0)"
    by (simp add: push_bit_eq_mult algebra_simps)
  moreover have "(mul_round ^^ Suc k) (cc_zero, x, y)
      = (if bit (u64_of y) k then cc_u64_add r a else r, cc_u64_left a, cc_u64_right False b)"
    using low by (simp add: *(1)) (simp add: mul_round_def)
  ultimately show ?case
    by (simp add: * u64_of_add u64_of_left u64_of_right push_bit_push_bit drop_bit_drop_bit del: push_bit_Suc drop_bit_Suc)
qed

lemma pair_bit_set:
  assumes "i < 64"
  shows "u64_of (if i < 32 then q\<lparr>c_lo := c_lo q OR push_bit i 1\<rparr> else q\<lparr>c_hi := c_hi q OR push_bit (i - 32) 1\<rparr>)
    = u64_of q OR push_bit i 1"
proof (rule bit_word_eqI)
  fix n assume "n < LENGTH(64)"
  then show "bit (u64_of (if i < 32 then q\<lparr>c_lo := c_lo q OR push_bit i 1\<rparr> else q\<lparr>c_hi := c_hi q OR push_bit (i - 32) 1\<rparr>)) n
      \<longleftrightarrow> bit (u64_of q OR push_bit i 1) n"
    using assms by (cases rule: cell_cases) (auto simp: bit_u64_of bit_or_iff bit_exp_iff)
qed

lemma pair_low_bit:
  assumes "i < 64"
  shows "u64_of ((cc_u64_left r)\<lparr>c_lo := c_lo (cc_u64_left r) OR
      ((if i < 32 then drop_bit i (c_lo a) else drop_bit (i - 32) (c_hi a)) AND 1)\<rparr>)
    = of_nat (2 * unat (u64_of r) + of_bool (bit (u64_of a) i))"
proof -
  let ?b = "bit (u64_of a) i"
  have one: "(if i < 32 then drop_bit i (c_lo a) else drop_bit (i - 32) (c_hi a)) AND 1 = (of_bool ?b :: u32)"
    by (rule bit_word_eqI) (auto simp: bit_u64_of bit_and_iff bit_drop_bit_eq bit_1_iff bit_of_bool_iff)
  have "u64_of ((cc_u64_left r)\<lparr>c_lo := c_lo (cc_u64_left r) OR of_bool ?b\<rparr>) = push_bit 1 (u64_of r) OR of_bool ?b"
  proof (rule bit_word_eqI)
    fix n assume "n < LENGTH(64)"
    then show "bit (u64_of ((cc_u64_left r)\<lparr>c_lo := c_lo (cc_u64_left r) OR of_bool ?b\<rparr>)) n
        \<longleftrightarrow> bit (push_bit 1 (u64_of r) OR of_bool ?b) n"
      by (simp only: u64_of_left [symmetric] bit_u64_of bit_or_iff bit_of_bool_iff cc_u64.select_convs cc_u64.update_convs)
        (cases ?b; simp add: bit_u64_of bit_or_iff bit_1_iff)
  qed
  also have "\<dots> = push_bit 1 (u64_of r) + of_bool ?b"
    by (rule disjunctive_add_eq_or [symmetric]) (rule bit_word_eqI, auto simp: bit_and_iff bit_0 bit_of_bool_iff)
  also have "\<dots> = of_nat (2 * unat (u64_of r) + of_bool ?b)"
    by (simp add: push_bit_eq_mult)
  finally show ?thesis unfolding one .
qed

text \<open>
  The division keeps the remainder and the quotient of the bits seen so far; \<open>B\<close> is the divisor.
\<close>

lemma div_step_word:
  fixes B :: u64 and R :: u64
  assumes "unat R < unat B" and "v \<le> 1" and "V = 2 * unat R + v"
  shows "bit R 63 \<or> \<not> (of_nat V :: u64) < B \<longleftrightarrow> unat B \<le> V"
    and "unat B \<le> V \<Longrightarrow> unat (of_nat V - B) = V - unat B"
    and "V < unat B \<Longrightarrow> unat (of_nat V :: u64) = V"
proof -
  have B: "unat B < 2 ^ 64" using unsigned_less [of B] by simp
  show small: "V < unat B \<Longrightarrow> unat (of_nat V :: u64) = V" using B by (intro unat_of_nat_64) simp
  have "bit R 63 \<longleftrightarrow> 2 ^ 63 \<le> unat R"
  proof -
    have "unat R < 2 ^ 64" using unsigned_less [of R] by simp
    then have "unat R div 2 ^ 63 < 2" by (simp add: less_mult_imp_div_less)
    then have "unat R div 2 ^ 63 = 0 \<or> unat R div 2 ^ 63 = 1" by linarith
    then have "odd (unat R div 2 ^ 63) \<longleftrightarrow> 2 ^ 63 \<le> unat R" by (auto simp: div_eq_0_iff)
    moreover have "bit R 63 \<longleftrightarrow> bit (unat R) 63" by (simp add: bit_unsigned_iff)
    ultimately show ?thesis by (simp add: bit_iff_odd)
  qed
  moreover have "unat B \<le> V" if "2 ^ 63 \<le> unat R"
  proof -
    have "(2 :: nat) ^ 64 = 2 * 2 ^ 63" by simp
    then show ?thesis using that B assms(3) by linarith
  qed
  moreover have "\<not> (of_nat V :: u64) < B \<longleftrightarrow> unat B \<le> V" if "\<not> 2 ^ 63 \<le> unat R"
  proof -
    have "V < 2 ^ 64" using that assms(2,3) by simp
    then show ?thesis using unat_of_nat_64 [of V] by (simp add: word_less_nat_alt not_less)
  qed
  ultimately show "bit R 63 \<or> \<not> (of_nat V :: u64) < B \<longleftrightarrow> unat B \<le> V" by blast
  show "unat B \<le> V \<Longrightarrow> unat (of_nat V - B) = V - unat B" 
  proof -
    assume le: "unat B \<le> V"
    have "(of_nat (V - unat B) :: u64) = of_nat V - B" using le by (simp add: of_nat_diff)
    moreover have "V - unat B < 2 ^ 64" using assms B by linarith
    ultimately show ?thesis using unat_of_nat_64 by metis
  qed
qed

lemma nat_div_step:
  fixes A B :: nat
  assumes "0 < B" and "V = 2 * (A div 2 ^ Suc i mod B) + of_bool (odd (A div 2 ^ i))"
  shows "B \<le> V \<Longrightarrow> V - B = A div 2 ^ i mod B \<and> A div 2 ^ i div B = 2 * (A div 2 ^ Suc i div B) + 1"
    and "V < B \<Longrightarrow> V = A div 2 ^ i mod B \<and> A div 2 ^ i div B = 2 * (A div 2 ^ Suc i div B)"
proof -
  let ?x = "A div 2 ^ i" and ?h = "A div 2 ^ Suc i"
  have half: "?h = ?x div 2" by (simp add: div_mult2_eq [symmetric] mult.commute)
  have x: "?x = 2 * ?h + of_bool (odd ?x)" unfolding half by (simp add: odd_two_times_div_two_succ)
  also have "\<dots> = 2 * (?h div B * B + ?h mod B) + of_bool (odd ?x)" by simp
  also have "\<dots> = 2 * (?h div B) * B + V"
    unfolding assms(2) by (simp only: distrib_left mult.assoc add.assoc)
  finally have eq: "?x = 2 * (?h div B) * B + V" .
  have "?h mod B < B" using assms(1) by simp
  then have V: "V < 2 * B" unfolding assms(2) by (cases "odd ?x") simp_all
  show "V - B = ?x mod B \<and> ?x div B = 2 * (?h div B) + 1" if "B \<le> V"
  proof -
    have "?x = (2 * (?h div B) + 1) * B + (V - B)" using eq that by (simp add: algebra_simps)
    moreover have "V - B < B" using V that by linarith
    ultimately show ?thesis by (metis div_mult_self3 mod_mult_self3 div_less mod_less add.commute add_0 assms(1) less_irrefl)
  qed
  show "V = ?x mod B \<and> ?x div B = 2 * (?h div B)" if "V < B"
    using eq that assms(1) by (metis div_mult_self3 mod_mult_self3 div_less mod_less add.commute add_0 less_irrefl)
qed

lemma top_cell_bit: "drop_bit 31 c = of_bool (bit c 31)" for c :: u32
proof (rule bit_word_eqI)
  fix n assume "n < LENGTH(32)"
  then show "bit (drop_bit 31 c) n \<longleftrightarrow> bit (of_bool (bit c 31) :: u32) n"
    by (cases n) (auto simp: bit_drop_bit_eq bit_of_bool_iff dest: bit_imp_le_length)
qed

lemma unat_set_bit:
  fixes x :: u64
  assumes "i < 64" and "\<not> bit (unat x) i"
  shows "unat (x OR 2 ^ i) = unat x + 2 ^ i"
proof -
  have "(2 :: nat) ^ i < 2 ^ 64" using assms(1) by (intro power_strict_increasing) simp_all
  then have "unat (2 ^ i :: u64) = 2 ^ i" using unat_of_nat_64 [of "2 ^ i"] by (simp only: of_nat_power of_nat_numeral)
  moreover have "unat x AND 2 ^ i = 0"
    by (rule bit_eqI) (use assms(2) in \<open>auto simp: bit_and_iff bit_exp_iff\<close>)
  then have "unat x OR 2 ^ i = unat x + 2 ^ i" by (simp add: disjunctive_add_eq_or)
  ultimately show ?thesis by (simp add: unsigned_or_eq)
qed

lemma div_rounds_divide:
  assumes "u64_of b \<noteq> 0" and "i \<le> 64"
    and "unat (u64_of r) = unat (u64_of a) div 2 ^ i mod unat (u64_of b)"
    and "unat (u64_of q) = unat (u64_of a) div 2 ^ i div unat (u64_of b) * 2 ^ i"
    and "div_rounds i a b r q = (r', q')"
  shows "unat (u64_of r') = unat (u64_of a) mod unat (u64_of b) \<and> unat (u64_of q') = unat (u64_of a) div unat (u64_of b)"
  using assms(2-5)
proof (induction i arbitrary: r q)
  case (Suc i)
  let ?A = "unat (u64_of a)" and ?B = "unat (u64_of b)"
  have B: "0 < ?B" using assms(1) by (simp add: unat_gt_0)
  have i: "i < 64" using Suc.prems(1) by simp
  have odd: "bit (u64_of a) i \<longleftrightarrow> odd (?A div 2 ^ i)"
  proof -
    have "bit (u64_of a) i \<longleftrightarrow> bit ?A i" using i by (simp add: bit_unsigned_iff)
    then show ?thesis by (simp add: bit_iff_odd)
  qed
  define V where "V = 2 * unat (u64_of r) + of_bool (bit (u64_of a) i)"
  define r1 where "r1 = (cc_u64_left r)\<lparr>c_lo := c_lo (cc_u64_left r) OR
      ((if i < 32 then drop_bit i (c_lo a) else drop_bit (i - 32) (c_hi a)) AND 1)\<rparr>"
  define q1 where "q1 = (if i < 32 then q\<lparr>c_lo := c_lo q OR push_bit i 1\<rparr> else q\<lparr>c_hi := c_hi q OR push_bit (i - 32) 1\<rparr>)"
  have r1: "u64_of r1 = of_nat V" unfolding r1_def V_def by (rule pair_low_bit [OF i])
  have rB: "unat (u64_of r) < ?B" using Suc.prems(2) B by simp
  have "of_bool (bit (u64_of a) i) \<le> (1 :: nat)" by simp
  note w = div_step_word [OF rB this V_def]
  have V: "V = 2 * (?A div 2 ^ Suc i mod ?B) + of_bool (odd (?A div 2 ^ i))"
    using Suc.prems(2) odd by (simp add: V_def)
  note n = nat_div_step [OF B V]
  have carry: "drop_bit 31 (c_hi r) \<noteq> 0 \<longleftrightarrow> bit (u64_of r) 63"
    by (simp add: top_cell_bit bit_u64_of)
  have unfold: "div_rounds (Suc i) a b r q = (if ?B \<le> V then div_rounds i a b (cc_u64_sub r1 b) q1 else div_rounds i a b r1 q)"
  proof -
    have "drop_bit 31 (c_hi r) \<noteq> 0 \<or> \<not> cc_u64_less r1 b \<longleftrightarrow> ?B \<le> V"
      using w(1) unfolding carry u64_of_less r1 .
    then show ?thesis by (simp only: div_rounds.simps Let_def flip: r1_def q1_def)
  qed
  have "\<not> bit (unat (u64_of q)) i" unfolding Suc.prems(3) by (simp add: bit_iff_odd)
  then have q1: "unat (u64_of q1) = unat (u64_of q) + 2 ^ i"
    unfolding q1_def pair_bit_set [OF i] using i by (simp add: unat_set_bit)
  show ?case
  proof (cases "?B \<le> V")
    case True
    show ?thesis
    proof (rule Suc.IH)
      show "div_rounds i a b (cc_u64_sub r1 b) q1 = (r', q')" using Suc.prems(4) True unfold by simp
      show "unat (u64_of (cc_u64_sub r1 b)) = ?A div 2 ^ i mod ?B"
        using w(2) [OF True] n(1) [OF True] by (simp add: u64_of_sub r1)
      show "unat (u64_of q1) = ?A div 2 ^ i div ?B * 2 ^ i"
        using n(1) [OF True] q1 Suc.prems(3) by (simp add: algebra_simps)
    qed (use i in simp)
  next
    case False
    show ?thesis
    proof (rule Suc.IH)
      show "div_rounds i a b r1 q = (r', q')" using Suc.prems(4) False unfold by simp
      show "unat (u64_of r1) = ?A div 2 ^ i mod ?B"
        using w(3) n(2) False by (simp add: r1)
      show "unat (u64_of q) = ?A div 2 ^ i div ?B * 2 ^ i"
        using n(2) False Suc.prems(3) by (simp add: algebra_simps)
    qed (use i in simp)
  qed
qed simp

lemma u64_of_zero: "u64_of cc_zero = 0"
  by (simp add: cc_zero_def u64_of_def)

lemma division:
  assumes "u64_of b \<noteq> 0" and "div_rounds 64 a b cc_zero cc_zero = (r, q)"
  shows "u64_of r = u64_of a mod u64_of b" and "u64_of q = u64_of a div u64_of b"
proof -
  have "unat (u64_of a) < 2 ^ 64" using unsigned_less [of "u64_of a"] by simp
  then have "unat (u64_of a) div 2 ^ 64 = 0" by (rule div_less)
  then have "unat (u64_of r) = unat (u64_of a) mod unat (u64_of b) \<and> unat (u64_of q) = unat (u64_of a) div unat (u64_of b)"
    by (intro div_rounds_divide [OF assms(1) _ _ _ assms(2)]) (simp_all add: u64_of_zero)
  then show "u64_of r = u64_of a mod u64_of b" "u64_of q = u64_of a div u64_of b"
    by (simp_all only: word_unat_eq_iff unat_mod_distrib unat_div_distrib)
qed

section \<open>Signed division\<close>

lemma uint_less_64: "uint x < 2 ^ 64" for x :: u64
  using uint_bounded [of x] by simp

lemma sint_if: "sint x = uint x - (if bit x 63 then 2 ^ 64 else 0)" for x :: u64
proof -
  have "sint x = take_bit (Suc 63) (uint x) - 2 ^ Suc 63 * of_bool (bit (uint x) 63)"
    unfolding sint_uint by (simp add: signed_take_bit_eq_take_bit_minus)
  moreover have "take_bit (Suc 63) (uint x) = uint x"
    using uint_less_64 [of x] by (intro take_bit_int_eq_self) simp_all
  moreover have "bit (uint x) 63 \<longleftrightarrow> bit x 63" by (simp add: bit_unsigned_iff)
  ultimately show ?thesis by simp
qed

lemma magnitude: "unat (if bit x 63 then - x else x) = nat \<bar>sint x\<bar>" for x :: u64
proof (cases "bit x 63")
  case True
  have less: "uint x < 2 ^ 64" by (rule uint_less_64)
  have "x \<noteq> 0" using True by auto
  then have "uint x \<noteq> 0" using word_uint_eqI [of x 0] by auto
  moreover have "0 \<le> uint x" by simp
  ultimately have "uint (- x) = 2 ^ 64 - uint x"
    using less by (simp add: uint_word_ariths zmod_zminus1_eq_if)
  then have "\<bar>sint x\<bar> = uint (- x)" using True less by (simp add: sint_if)
  then show ?thesis using True by simp
next
  case False
  then have "\<bar>sint x\<bar> = uint x" by (simp add: sint_if)
  then show ?thesis using False by simp
qed

lemma negative_iff: "bit x 63 \<longleftrightarrow> sint x < 0" for x :: u64
  using bit_last_iff [of x] by simp

lemma word_of_minus: "- (of_nat n :: u64) = word_of_int (- int n)"
  by simp

lemma of_nat_value: "unat x = n \<Longrightarrow> x = of_nat n" for x :: u64
  by auto

lemma divide_correct:
  assumes "b \<noteq> cc_zero"
    and "div_rounds 64 (if bit (u64_of a) 63 then cc_u64_neg a else a) (if bit (u64_of b) 63 then cc_u64_neg b else b)
      cc_zero cc_zero = (r, q)"
  shows "u64_of (if bit (u64_of a) 63 \<noteq> bit (u64_of b) 63 then cc_u64_neg q else q) = word_of_int (sint (u64_of a) sdiv sint (u64_of b))"
    and "u64_of (if bit (u64_of a) 63 then cc_u64_neg r else r) = word_of_int (sint (u64_of a) smod sint (u64_of b))"
proof -
  let ?x = "sint (u64_of a)" and ?y = "sint (u64_of b)"
  have mag: "unat (u64_of (if bit (u64_of c) 63 then cc_u64_neg c else c)) = nat \<bar>sint (u64_of c)\<bar>" for c
    using magnitude [of "u64_of c"] by (simp add: u64_of_neg split: if_splits)
  have b: "u64_of b \<noteq> 0" using assms(1) u64_of_zero u64_of_eq_iff by metis
  then have "u64_of (if bit (u64_of b) 63 then cc_u64_neg b else b) \<noteq> 0" by (simp add: u64_of_neg)
  note d = division [OF this assms(2)]
  have res: "unat (u64_of r) = nat \<bar>?x\<bar> mod nat \<bar>?y\<bar>" "unat (u64_of q) = nat \<bar>?x\<bar> div nat \<bar>?y\<bar>"
    unfolding d unat_mod_distrib unat_div_distrib mag by simp_all
  then have q: "u64_of q = of_nat (nat \<bar>?x\<bar> div nat \<bar>?y\<bar>)" and r: "u64_of r = of_nat (nat \<bar>?x\<bar> mod nat \<bar>?y\<bar>)"
    by (auto intro: of_nat_value)
  have y: "?y \<noteq> 0" using b by (simp add: signed_eq_0_iff)
  have n: "int (nat \<bar>?x\<bar> div nat \<bar>?y\<bar>) = \<bar>?x\<bar> div \<bar>?y\<bar>" "int (nat \<bar>?x\<bar> mod nat \<bar>?y\<bar>) = \<bar>?x\<bar> mod \<bar>?y\<bar>"
    by (simp_all add: zdiv_int zmod_int)
  have "?x sdiv ?y = (if bit (u64_of a) 63 \<noteq> bit (u64_of b) 63 then - int (nat \<bar>?x\<bar> div nat \<bar>?y\<bar>) else int (nat \<bar>?x\<bar> div nat \<bar>?y\<bar>))"
    unfolding n negative_iff signed_divide_int_def using y by (auto simp: sgn_if)
  then show "u64_of (if bit (u64_of a) 63 \<noteq> bit (u64_of b) 63 then cc_u64_neg q else q) = word_of_int (?x sdiv ?y)"
    by (simp only: q u64_of_neg word_of_minus if_distrib [of u64_of] if_distrib [of word_of_int] of_int_of_nat_eq)
  have "?x smod ?y = (if bit (u64_of a) 63 then - int (nat \<bar>?x\<bar> mod nat \<bar>?y\<bar>) else int (nat \<bar>?x\<bar> mod nat \<bar>?y\<bar>))"
    unfolding n negative_iff signed_modulo_int_def by (auto simp: sgn_if)
  then show "u64_of (if bit (u64_of a) 63 then cc_u64_neg r else r) = word_of_int (?x smod ?y)"
    by (simp only: r u64_of_neg word_of_minus if_distrib [of u64_of] if_distrib [of word_of_int] of_int_of_nat_eq)
qed

section \<open>The specification\<close>

definition fold_spec :: "nat \<Rightarrow> u64 \<Rightarrow> u64 \<Rightarrow> u64 option" where
  "fold_spec op a b =
     (if op = 0 then Some (a + b)
      else if op = 1 then Some (a - b)
      else if op = 2 then Some (of_bool (a = b))
      else if op = 3 then Some (of_bool (a <s b))
      else if op = 4 then Some (of_bool (a < b))
      else if op = 5 then Some (a AND b)
      else if op = 6 then Some (a OR b)
      else if op = 7 then Some (a XOR b)
      else if op = 8 then Some (NOT a)
      else if op = 9 \<and> b < 64 then Some (push_bit (unat b) a)
      else if op = 10 \<and> b < 64 then Some (drop_bit (unat b) a)
      else if op = 11 \<and> b < 64 then Some (signed_drop_bit (unat b) a)
      else if op = 12 then Some (a * b)
      else if op \<in> {13, 14, 15, 16} \<and> b = 0 then None
      else if op \<in> {13, 15} \<and> sint a = - (2 ^ 63) \<and> sint b = - 1 then None
      else if op = 13 then Some (word_of_int (sint a sdiv sint b))
      else if op = 14 then Some (a div b)
      else if op = 15 then Some (word_of_int (sint a smod sint b))
      else if op = 16 then Some (a mod b)
      else if op = 17 then Some (of_bool (a \<noteq> 0))
      else None)"

section \<open>Comparison and the small cases\<close>

lemma and_clear_bit: "\<not> bit x n \<Longrightarrow> x AND 2 ^ n = 0" for x :: u64
  by (rule bit_word_eqI) (auto simp: bit_and_iff bit_exp_iff)

lemma bit_flip: "n < 64 \<Longrightarrow> bit (x XOR 2 ^ n) n \<longleftrightarrow> \<not> bit x n" for x :: u64
  by (simp add: bit_xor_iff bit_exp_iff)

lemma flip_top: "x XOR 2 ^ 63 = x + 2 ^ 63" for x :: u64
proof (cases "bit x 63")
  case False
  then have "x AND 2 ^ 63 = 0" by (rule and_clear_bit)
  then show ?thesis by (rule disjunctive_add_eq_xor [symmetric])
next
  case True
  define y where "y = x XOR 2 ^ 63"
  have x: "x = y XOR 2 ^ 63" by (simp add: y_def xor.assoc)
  have "\<not> bit y 63" unfolding y_def using True by (subst bit_flip) simp_all
  then have "y AND 2 ^ 63 = 0" by (rule and_clear_bit)
  then have "y XOR 2 ^ 63 = y + 2 ^ 63" by (rule disjunctive_add_eq_xor [symmetric])
  then have "x + 2 ^ 63 = y" using x by simp
  then show ?thesis by (simp add: y_def)
qed

lemma uint_flip_top: "uint (x + 2 ^ 63) = sint x + 2 ^ 63" for x :: u64
proof -
  have "uint x + 2 ^ 63 = sint x + 2 ^ 63 + of_bool (bit x 63) * 2 ^ 64" by (simp add: sint_if)
  then have "(uint x + 2 ^ 63) mod 2 ^ 64 = (sint x + 2 ^ 63) mod 2 ^ 64" by (simp only: mod_mult_self1)
  moreover have "uint (x + 2 ^ 63) = (uint x + 2 ^ 63) mod 2 ^ 64" by (simp add: uint_word_ariths)
  moreover have "- (2 ^ 63) \<le> sint x" "sint x < 2 ^ 63"
    using sint_greater_eq [of x] sint_less [of x] by simp_all
  then have "(sint x + 2 ^ 63) mod 2 ^ 64 = sint x + 2 ^ 63" by (intro mod_pos_pos_trivial) simp_all
  ultimately show ?thesis by (simp only:)
qed

lemma u64_of_flip: "u64_of (cc_flip_sign a) = u64_of a + 2 ^ 63"
proof -
  have "u64_of (cc_flip_sign a) = u64_of a XOR 2 ^ 63"
  proof (rule bit_word_eqI)
    fix n assume n: "n < LENGTH(64)"
    have top: "bit (0x80000000 :: u32) k \<longleftrightarrow> k = 31" for k
    proof -
      have "(0x80000000 :: u32) = 2 ^ 31" by simp
      then show ?thesis by (simp only: bit_exp_iff) auto
    qed
    from n show "bit (u64_of (cc_flip_sign a)) n \<longleftrightarrow> bit (u64_of a XOR 2 ^ 63) n"
    proof (cases rule: cell_cases)
      case 1
      then show ?thesis
        unfolding cc_flip_sign_def bit_u64_of bit_xor_iff bit_exp_iff by simp
    next
      case (2 k)
      then show ?thesis
        unfolding cc_flip_sign_def bit_u64_of bit_xor_iff bit_exp_iff cc_u64.select_convs cc_u64.update_convs
        by (simp add: bit_xor_iff top del: bit_numeral_word_iff)
    qed
  qed
  then show ?thesis by (simp only: flip_top)
qed

lemma signed_less_flip: "cc_u64_less (cc_flip_sign a) (cc_flip_sign b) \<longleftrightarrow> u64_of a <s u64_of b"
  unfolding u64_of_less u64_of_flip word_less_def uint_flip_top by (simp add: word_sless_alt)

lemma u64_of_truth: "u64_of (cc_truth b) = of_bool b"
  by (cases b) (simp_all add: cc_truth_def u64_of_def)

lemma u64_of_cells:
  "u64_of \<lparr>c_lo = c_lo a AND c_lo b, c_hi = c_hi a AND c_hi b\<rparr> = u64_of a AND u64_of b"
  "u64_of \<lparr>c_lo = c_lo a OR c_lo b, c_hi = c_hi a OR c_hi b\<rparr> = u64_of a OR u64_of b"
  "u64_of \<lparr>c_lo = c_lo a XOR c_lo b, c_hi = c_hi a XOR c_hi b\<rparr> = u64_of a XOR u64_of b"
  by (rule bit_word_eqI; simp add: bit_u64_of bit_and_iff bit_or_iff bit_xor_iff)+

lemma small_shift: "\<not> (c_hi b \<noteq> 0 \<or> 64 \<le> c_lo b) \<longleftrightarrow> u64_of b < 64"
  "u64_of b < 64 \<Longrightarrow> unat (c_lo b) = unat (u64_of b)"
proof -
  have "unat (u64_of b) < 64 \<longleftrightarrow> unat (c_hi b) = 0 \<and> unat (c_lo b) < 64"
    by (cases "unat (c_hi b) = 0") (simp_all add: unat_u64_of)
  then show "\<not> (c_hi b \<noteq> 0 \<or> 64 \<le> c_lo b) \<longleftrightarrow> u64_of b < 64"
    by (simp add: word_less_nat_alt word_le_nat_alt not_le unat_eq_0)
  show "u64_of b < 64 \<Longrightarrow> unat (c_lo b) = unat (u64_of b)"
    by (simp add: word_less_nat_alt unat_u64_of)
qed

lemma zero_iff: "c_lo b OR c_hi b = 0 \<longleftrightarrow> u64_of b = 0"
proof -
  have "c_lo b OR c_hi b = 0 \<longleftrightarrow> b = cc_zero"
    by (cases b) (auto simp: cc_zero_def or_eq_0_iff)
  then show ?thesis using u64_of_zero u64_of_eq_iff by metis
qed

lemma overflow_iff:
  "c_hi a = 0x80000000 \<and> c_lo a = 0 \<and> c_hi b = 0xffffffff \<and> c_lo b = 0xffffffff
    \<longleftrightarrow> sint (u64_of a) = - (2 ^ 63) \<and> sint (u64_of b) = - 1"
proof -
  have least: "sint (2 ^ 63 :: u64) = - (2 ^ 63)"
  proof -
    have "uint (2 ^ 63 + 2 ^ 63 :: u64) = 0" by simp
    then show ?thesis unfolding uint_flip_top by linarith
  qed
  have "sint (u64_of a) = - (2 ^ 63) \<longleftrightarrow> u64_of a = u64_of \<lparr>c_lo = 0, c_hi = 0x80000000\<rparr>"
    unfolding least [symmetric] by (auto simp: u64_of_def intro: signed_word_eqI)
  moreover have "sint (u64_of b) = - 1 \<longleftrightarrow> u64_of b = u64_of \<lparr>c_lo = 0xffffffff, c_hi = 0xffffffff\<rparr>"
  proof -
    have "u64_of \<lparr>c_lo = 0xffffffff, c_hi = 0xffffffff\<rparr> = - 1" by (simp add: u64_of_def)
    moreover have "sint (- 1 :: u64) = - 1" by simp
    ultimately show ?thesis by (metis signed_word_eqI)
  qed
  ultimately show ?thesis
    unfolding u64_of_eq_iff by (cases a; cases b) auto
qed

lemma divide_spec:
  assumes "op \<in> {13, 14, 15, 16}"
  shows "map_option u64_of (cc_divide op a b) = fold_spec op (u64_of a) (u64_of b)"
proof -
  let ?s = "op = 13 \<or> op = 15"
  let ?over = "c_hi a = 0x80000000 \<and> c_lo a = 0 \<and> c_hi b = 0xffffffff \<and> c_lo b = 0xffffffff"
  let ?a = "if ?s \<and> bit (u64_of a) 63 then cc_u64_neg a else a"
  let ?b = "if ?s \<and> bit (u64_of b) 63 then cc_u64_neg b else b"
  obtain r q where rq: "div_rounds 64 ?a ?b cc_zero cc_zero = (r, q)" by fastforce
  have sign: "drop_bit 31 (c_hi c) = of_bool (bit (u64_of c) 63)" for c
    by (simp add: top_cell_bit bit_u64_of)
  have unfold: "cc_divide op a b =
     (if u64_of b = 0 then None
      else if ?s \<and> ?over then None
      else Some (if op = 13 \<or> op = 14 then (if (?s \<and> bit (u64_of a) 63) \<noteq> (?s \<and> bit (u64_of b) 63) then cc_u64_neg q else q)
                 else if ?s \<and> bit (u64_of a) 63 then cc_u64_neg r else r))"
  proof -
    have n: "(if ?s then drop_bit 31 (c_hi c) else 0) = of_bool (?s \<and> bit (u64_of c) 63)" for c
      by (simp add: sign)
    show ?thesis
      unfolding cc_divide_def Let_def n zero_iff of_bool_eq_0_iff of_bool_eq_iff not_not rq by simp blast
  qed
  show ?thesis
  proof (cases "u64_of b = 0 \<or> (?s \<and> ?over)")
    case True
    show ?thesis
    proof (cases "u64_of b = 0")
      case True
      then show ?thesis using assms unfolding unfold if_P [OF True] by (elim insertE) (simp_all add: fold_spec_def)
    next
      case False
      then have guards: "?s \<and> ?over" using True by blast
      then have "sint (u64_of a) = - (2 ^ 63) \<and> sint (u64_of b) = - 1" using overflow_iff [of a b] by blast
      then show ?thesis
        using assms guards unfolding unfold if_not_P [OF False] if_P [OF guards]
        by (elim insertE) (simp_all add: fold_spec_def)
    qed
  next
    case False
    then have b: "u64_of b \<noteq> 0" by simp
    then have bz: "b \<noteq> cc_zero" using u64_of_zero by auto
    show ?thesis
    proof (cases ?s)
      case True
      have over: "\<not> (sint (u64_of a) = - (2 ^ 63) \<and> sint (u64_of b) = - 1)"
        using False True overflow_iff [of a b] by blast
      have "div_rounds 64 (if bit (u64_of a) 63 then cc_u64_neg a else a) (if bit (u64_of b) 63 then cc_u64_neg b else b)
          cc_zero cc_zero = (r, q)"
        using rq True by (simp only: simp_thms if_True)
      note d = divide_correct [OF bz this]
      have guards: "\<not> (?s \<and> ?over)" using False by blast
      show ?thesis
        using True unfolding unfold if_not_P [OF b] if_not_P [OF guards]
      proof
        assume "op = 13"
        then show "map_option u64_of (Some (if op = 13 \<or> op = 14
            then (if (?s \<and> bit (u64_of a) 63) \<noteq> (?s \<and> bit (u64_of b) 63) then cc_u64_neg q else q)
            else if ?s \<and> bit (u64_of a) 63 then cc_u64_neg r else r)) = fold_spec op (u64_of a) (u64_of b)"
          using d(1) b over by (simp add: fold_spec_def)
      next
        assume "op = 15"
        then show "map_option u64_of (Some (if op = 13 \<or> op = 14
            then (if (?s \<and> bit (u64_of a) 63) \<noteq> (?s \<and> bit (u64_of b) 63) then cc_u64_neg q else q)
            else if ?s \<and> bit (u64_of a) 63 then cc_u64_neg r else r)) = fold_spec op (u64_of a) (u64_of b)"
          using d(2) b over by (simp add: fold_spec_def)
      qed
    next
      case False
      then have op: "op = 14 \<or> op = 16" using assms by auto
      then have "div_rounds 64 a b cc_zero cc_zero = (r, q)" using rq by auto
      note d = division [OF b this]
      then show ?thesis using op b by (auto simp: unfold fold_spec_def)
    qed
  qed
qed

section \<open>Properties\<close>

text \<open>
  C22. The constant folder is exact: for all pairs of cells and every operation code it returns what
  64-bit machine words give, for sums, differences, comparisons, bitwise operations, shifts,
  products, quotients and remainders, signed and unsigned; and it refuses exactly the shifts by 64
  and more, the divisions by zero, the signed divisions of the least number by minus one, and the
  unknown operation codes.
\<close>

theorem fold64_correct:
  "map_option u64_of (cc_integer64_fold op a b) = fold_spec op (u64_of a) (u64_of b)"
proof -
  consider "op \<in> {13, 14, 15, 16}" | "op \<in> {9, 10, 11}" | "op \<notin> {9, 10, 11, 13, 14, 15, 16}" by blast
  then show ?thesis
  proof cases
    case 1
    then show ?thesis using divide_spec [OF 1, of a b] by (auto simp: cc_integer64_fold_def)
  next
    case 2
    show ?thesis
    proof (cases "u64_of b < 64")
      case True
      then have guard: "\<not> (c_hi b \<noteq> 0 \<or> c_lo b \<ge> 64)" and n: "unat (c_lo b) = unat (u64_of b)"
        using small_shift [of b] by blast+
      note iterate = u64_of_iterate [of cc_u64_left, OF u64_of_left] u64_of_iterate [of "cc_u64_right False", OF u64_of_right]
        u64_of_iterate [of "cc_u64_right True", OF u64_of_right_signed]
      note iterate = iterate [unfolded push_bit_iterate drop_bit_iterate signed_drop_bit_iterate]
      show ?thesis
        using 2 True unfolding cc_integer64_fold_def if_not_P [OF guard] n
        by (elim insertE) (simp_all add: fold_spec_def iterate)
    next
      case False
      then have guard: "c_hi b \<noteq> 0 \<or> c_lo b \<ge> 64" using small_shift(1) [of b] by blast
      show ?thesis
        using 2 False unfolding cc_integer64_fold_def if_P [OF guard] by (elim insertE) (simp_all add: fold_spec_def)
    qed
  next
    case 3
    have mul: "u64_of (fst ((mul_round ^^ 64) (cc_zero, a, b))) = u64_of a * u64_of b"
      using mul_rounds [of 64 a b] by (auto simp: take_bit_word_eq_self)
    have eq: "c_lo a = c_lo b \<and> c_hi a = c_hi b \<longleftrightarrow> u64_of a = u64_of b"
      using u64_of_eq_iff [of a b] by (cases a; cases b) simp
    show ?thesis
      using 3 eq zero_iff [of a] signed_less_flip [of a b, unfolded u64_of_less]
      by (simp add: cc_integer64_fold_def fold_spec_def u64_of_add u64_of_sub u64_of_truth u64_of_less
        u64_of_cells u64_of_not mul del: funpow.simps)
  qed
qed

end
