(* ===== verification/Phase2.thy ===== *)
theory Phase2
  imports InputFiles
begin

text \<open>
  runtime/copy_c/preprocess_phase2.h: a backslash followed by blanks and the end of a line
  disappears together with it, and all line ends become line feeds. The C function works in
  place; the model follows it over a checked buffer with its two positions, and \<open>phase2\<close> is the
  same translation on lists.
\<close>

definition blank :: "u8 \<Rightarrow> bool" where
  "blank c \<longleftrightarrow> c = 32 \<or> c = 9 \<or> c = 11 \<or> c = 12"

text \<open>\<open>while (next < length && blank) ++next\<close>\<close>

function skip_blanks :: "mem \<Rightarrow> nat \<Rightarrow> nat \<Rightarrow> nat option" where
  "skip_blanks m len n =
     (if n < len then do { c \<leftarrow> mem_get m n; if blank c then skip_blanks m len (n + 1) else Some n } else Some n)"
  by auto
termination by (relation "measure (\<lambda>(m, len, n). len - n)") auto

declare skip_blanks.simps [simp del]

text \<open>The position behind a line splice that starts at the backslash at \<open>r\<close>, if there is one.\<close>

definition splice_at :: "mem \<Rightarrow> nat \<Rightarrow> nat \<Rightarrow> nat option option" where
  "splice_at m len r = do {
     n \<leftarrow> skip_blanks m len (r + 1);
     if n < len then do {
       c \<leftarrow> mem_get m n;
       if c = 10 then Some (Some (n + 1))
       else if c = 13 then
         (if n + 1 < len then do { d \<leftarrow> mem_get m (n + 1); Some (Some (if d = 10 then n + 2 else n + 1)) }
          else Some (Some (n + 1)))
       else Some None
     } else Some None
   }"

text \<open>The byte that is written for the one at \<open>r\<close>, and the next position to read.\<close>

definition plain_byte :: "mem \<Rightarrow> nat \<Rightarrow> nat \<Rightarrow> u8 \<Rightarrow> (u8 \<times> nat) option" where
  "plain_byte m len r byte =
     (if byte = 13 then
        (if r + 1 < len then do { d \<leftarrow> mem_get m (r + 1); Some (10, if d = 10 then r + 2 else r + 1) }
         else Some (10, r + 1))
      else Some (byte, r + 1))"

lemma skip_blanks_ge: "skip_blanks m len n = Some k \<Longrightarrow> n \<le> k"
  by (induction m len n rule: skip_blanks.induct)
    (subst (asm) (2) skip_blanks.simps, auto simp: bind_eq_Some_conv split: if_splits)

lemma splice_at_greater: "splice_at m len r = Some (Some k) \<Longrightarrow> r < k"
  by (auto simp: splice_at_def bind_eq_Some_conv split: if_splits dest!: skip_blanks_ge)

lemma plain_byte_greater: "plain_byte m len r b = Some (c, k) \<Longrightarrow> r < k"
  by (auto simp: plain_byte_def bind_eq_Some_conv split: if_splits)

function cc_preprocess_phase2_text :: "mem \<Rightarrow> nat \<Rightarrow> nat \<Rightarrow> nat \<Rightarrow> (mem \<times> nat) option" where
  "cc_preprocess_phase2_text m len r w =
     (if r < len then do {
        byte \<leftarrow> mem_get m r;
        splice \<leftarrow> (if byte = 92 then splice_at m len r else Some None);
        (case splice of
           Some r' \<Rightarrow> cc_preprocess_phase2_text m len r' w
         | None \<Rightarrow> do {
             (byte, r') \<leftarrow> plain_byte m len r byte;
             m \<leftarrow> mem_set m w byte;
             cc_preprocess_phase2_text m len r' (w + 1)
           })
      } else Some (m, w))"
  by auto
termination
  by (relation "measure (\<lambda>(m, len, r, w). len - r)")
    (auto dest: splice_at_greater plain_byte_greater split: if_splits)

declare cc_preprocess_phase2_text.simps [simp del]

text \<open>A blob of files is left alone, its files are translated one by one later.\<close>

definition cc_preprocess_phase2 :: "mem \<Rightarrow> nat \<Rightarrow> (mem \<times> nat) option" where
  "cc_preprocess_phase2 m len =
     (if cc_files_magic (take len m) then Some (m, len) else cc_preprocess_phase2_text m len 0 0)"

section \<open>The translation on lists\<close>

definition drop_lf :: "mem \<Rightarrow> mem" where
  "drop_lf cs = (case cs of [] \<Rightarrow> [] | c # ds \<Rightarrow> if c = 10 then ds else cs)"

text \<open>What follows a line splice whose backslash has been read.\<close>

definition after_splice :: "mem \<Rightarrow> mem option" where
  "after_splice cs = (case dropWhile blank cs of [] \<Rightarrow> None
     | d # ds \<Rightarrow> if d = 10 then Some ds else if d = 13 then Some (drop_lf ds) else None)"

lemma length_drop_lf: "length (drop_lf cs) \<le> length cs"
  by (auto simp: drop_lf_def split: list.splits)

lemma length_after_splice: "after_splice cs = Some ds \<Longrightarrow> length ds \<le> length cs"
proof -
  assume *: "after_splice cs = Some ds"
  have "length (dropWhile blank cs) \<le> length cs" by (rule length_dropWhile_le)
  then show ?thesis
    using * length_drop_lf by (auto simp: after_splice_def split: list.splits if_splits intro: le_trans dest: Suc_leD order_trans [OF length_drop_lf])
qed

function phase2 :: "mem \<Rightarrow> mem" where
  "phase2 [] = []"
| "phase2 (c # cs) =
     (if c = 92 then (case after_splice cs of Some ds \<Rightarrow> phase2 ds | None \<Rightarrow> c # phase2 cs)
      else if c = 13 then 10 # phase2 (drop_lf cs)
      else c # phase2 cs)"
  by pat_completeness auto
termination
  by (relation "measure length") (auto dest: length_after_splice simp: le_imp_less_Suc length_drop_lf)

section \<open>The loop in place is the translation\<close>

lemma rest_Cons: "\<lbrakk>r < len; len \<le> length m\<rbrakk> \<Longrightarrow> drop r (take len m) = m ! r # drop (r + 1) (take len m)"
  by (metis Cons_nth_drop_Suc Suc_eq_plus1 length_take min.absorb2 nth_take)

lemma skip_blanks_rest:
  assumes "n \<le> len" and "len \<le> length m"
  shows "\<exists>k. skip_blanks m len n = Some k \<and> n \<le> k \<and> k \<le> len
    \<and> dropWhile blank (drop n (take len m)) = drop k (take len m)"
  using assms
proof (induction m len n rule: skip_blanks.induct)
  case (1 m len n)
  show ?case
  proof (cases "n < len")
    case True
    then have get: "mem_get m n = Some (m ! n)" using 1 by (simp add: mem_get_def)
    show ?thesis
    proof (cases "blank (m ! n)")
      case b: True
      obtain k where "skip_blanks m len (n + 1) = Some k" "n + 1 \<le> k" "k \<le> len"
          "dropWhile blank (drop (n + 1) (take len m)) = drop k (take len m)"
        using "1.IH" [OF True get b] 1 True by auto
      then show ?thesis using True get b 1 by (subst skip_blanks.simps) (simp add: rest_Cons)
    next
      case False
      then show ?thesis using True get 1 by (subst skip_blanks.simps) (simp add: rest_Cons)
    qed
  next
    case False
    then show ?thesis using 1 by (subst skip_blanks.simps) simp
  qed
qed

lemma drop_lf_rest:
  assumes "r < len" and "len \<le> length m"
  shows "(if r + 1 < len \<and> m ! (r + 1) = 10 then drop (r + 2) (take len m) else drop (r + 1) (take len m))
    = drop_lf (drop (r + 1) (take len m))"
proof (cases "r + 1 < len")
  case True
  then show ?thesis using rest_Cons [of "r + 1" len m] assms by (simp add: drop_lf_def)
next
  case False
  then show ?thesis using assms by (simp add: drop_lf_def)
qed

lemma splice_at_rest:
  assumes "r < len" and "len \<le> length m"
  shows "\<exists>x. splice_at m len r = Some x \<and> (case after_splice (drop (r + 1) (take len m)) of
      None \<Rightarrow> x = None | Some ds \<Rightarrow> \<exists>k. x = Some k \<and> r < k \<and> k \<le> len \<and> ds = drop k (take len m))"
proof -
  obtain n where n: "skip_blanks m len (r + 1) = Some n" "r + 1 \<le> n" "n \<le> len"
      "dropWhile blank (drop (r + 1) (take len m)) = drop n (take len m)"
    using skip_blanks_rest [of "r + 1" len m] assms by auto
  show ?thesis
  proof (cases "n < len")
    case False
    then have "drop n (take len m) = []" by simp
    then have "after_splice (drop (r + 1) (take len m)) = None" unfolding after_splice_def n(4) by simp
    then show ?thesis using n(1) False by (simp add: splice_at_def)
  next
    case True
    note rest = rest_Cons [OF True assms(2)]
    have lf: "drop_lf (drop (n + 1) (take len m)) = drop (if n + 1 < len \<and> m ! (n + 1) = 10 then n + 2 else n + 1) (take len m)"
      using drop_lf_rest [OF True assms(2)] by (auto split: if_splits)
    have "mem_get m n = Some (m ! n)" "n + 1 < len \<Longrightarrow> mem_get m (n + 1) = Some (m ! (n + 1))"
      using True assms(2) by (simp_all add: mem_get_def)
    then show ?thesis
      using n True lf by (auto simp: splice_at_def after_splice_def rest)
  qed
qed

lemma plain_byte_rest:
  assumes "r < len" and "len \<le> length m"
  shows "\<exists>k. plain_byte m len r b = Some (if b = 13 then 10 else b, k) \<and> r < k \<and> k \<le> len
    \<and> drop k (take len m) = (if b = 13 then drop_lf (drop (r + 1) (take len m)) else drop (r + 1) (take len m))"
proof -
  have "r + 1 < len \<Longrightarrow> mem_get m (r + 1) = Some (m ! (r + 1))" using assms(2) by (simp add: mem_get_def)
  then show ?thesis
    using drop_lf_rest [OF assms] assms(1) by (auto simp: plain_byte_def split: if_splits)
qed

lemma phase2_text_rest:
  assumes "w \<le> r" and "r \<le> len" and "len \<le> length m"
  shows "\<exists>m' n. cc_preprocess_phase2_text m len r w = Some (m', n) \<and> w \<le> n \<and> n \<le> len \<and> length m' = length m
    \<and> take n m' = take w m @ phase2 (drop r (take len m)) \<and> drop len m' = drop len m"
  using assms
proof (induction "len - r" arbitrary: m r w rule: less_induct)
  case less
  show ?case
  proof (cases "r < len")
    case False
    then show ?thesis using less.prems by (subst cc_preprocess_phase2_text.simps) simp
  next
    case True
    have get: "mem_get m r = Some (m ! r)" using True less.prems by (simp add: mem_get_def)
    note rest = rest_Cons [OF True less.prems(3)]
    obtain x where x: "(if m ! r = 92 then splice_at m len r else Some None) = Some x"
        "case (if m ! r = 92 then after_splice (drop (r + 1) (take len m)) else None) of
          None \<Rightarrow> x = None | Some ds \<Rightarrow> \<exists>k. x = Some k \<and> r < k \<and> k \<le> len \<and> ds = drop k (take len m)"
      using splice_at_rest [OF True less.prems(3)] by (cases "m ! r = 92") auto
    show ?thesis
    proof (cases x)
      case (Some k)
      then have k: "m ! r = 92" "after_splice (drop (r + 1) (take len m)) = Some (drop k (take len m))" "r < k" "k \<le> len"
        using x(2) by (auto split: if_splits option.splits)
      obtain m' n where "cc_preprocess_phase2_text m len k w = Some (m', n)" "w \<le> n" "n \<le> len" "length m' = length m"
          "take n m' = take w m @ phase2 (drop k (take len m))" "drop len m' = drop len m"
        using less.hyps [of k w m, OF diff_less_mono2 [OF k(3) True]] k(3,4) less.prems by fastforce
      then show ?thesis
        using True get x(1) Some k by (subst cc_preprocess_phase2_text.simps) (simp add: rest)
    next
      case None
      obtain k where k: "plain_byte m len r (m ! r) = Some (if m ! r = 13 then 10 else m ! r, k)" "r < k" "k \<le> len"
          "drop k (take len m) = (if m ! r = 13 then drop_lf (drop (r + 1) (take len m)) else drop (r + 1) (take len m))"
        using plain_byte_rest [OF True less.prems(3)] by blast
      define c where "c = (if m ! r = 13 then 10 else m ! r)"
      let ?m = "m[w := c]"
      have w: "w < length m" using less.prems True by simp
      have set: "mem_set m w c = Some ?m" using w by (simp add: mem_set_def)
      have same: "drop k (take len ?m) = drop k (take len m)" "drop len ?m = drop len m"
        using less.prems(1) k(2) True by (simp_all add: take_update_swap)
      have front: "take (w + 1) ?m = take w m @ [c]" using w by (simp add: take_Suc_conv_app_nth)
      obtain m' n where m': "cc_preprocess_phase2_text ?m len k (w + 1) = Some (m', n)" "w + 1 \<le> n" "n \<le> len"
          "length m' = length m" "take n m' = take (w + 1) ?m @ phase2 (drop k (take len ?m))" "drop len m' = drop len ?m"
        using less.hyps [of k "w + 1" ?m, OF diff_less_mono2 [OF k(2) True]] k(2,3) less.prems by fastforce
      have "phase2 (drop r (take len m)) = c # phase2 (drop k (take len m))"
        using x(2) None k(4) by (auto simp: rest c_def split: option.splits if_splits)
      then show ?thesis
        using True get x(1) None k(1) set m' same front
        by (subst cc_preprocess_phase2_text.simps) (simp flip: c_def)
    qed
  qed
qed

section \<open>What the translation means\<close>

lemma phase2_no_cr: "13 \<notin> set (phase2 cs)"
  by (induction cs rule: phase2.induct) (auto split: option.splits)

lemma phase2_plain: "92 \<notin> set xs \<Longrightarrow> 13 \<notin> set xs \<Longrightarrow> phase2 (xs @ ys) = xs @ phase2 ys"
  by (induction xs) auto

text \<open>A line splice: a backslash, blanks, and a line end in one of its three forms.\<close>

inductive splice :: "mem \<Rightarrow> mem \<Rightarrow> bool" where
  "list_all blank bs \<Longrightarrow> splice (92 # bs @ [10]) ys"
| "list_all blank bs \<Longrightarrow> splice (92 # bs @ [13, 10]) ys"
| "\<lbrakk>list_all blank bs; ys = [] \<or> hd ys \<noteq> 10\<rbrakk> \<Longrightarrow> splice (92 # bs @ [13]) ys"

lemma dropWhile_blanks: "list_all blank bs \<Longrightarrow> \<not> blank c \<Longrightarrow> dropWhile blank (bs @ c # ys) = c # ys"
  by (induction bs) auto

lemma phase2_splice: "splice s ys \<Longrightarrow> phase2 (s @ ys) = phase2 ys"
  by (cases rule: splice.cases)
    (auto simp: after_splice_def dropWhile_blanks blank_def drop_lf_def split: list.splits)

text \<open>A text as written: pieces of logical lines, each followed by a splice, and a last piece.\<close>

inductive spliced :: "mem list \<Rightarrow> mem \<Rightarrow> bool" where
  "\<lbrakk>92 \<notin> set x; 13 \<notin> set x\<rbrakk> \<Longrightarrow> spliced [x] x"
| "\<lbrakk>92 \<notin> set x; 13 \<notin> set x; splice s ys; spliced xs ys\<rbrakk> \<Longrightarrow> spliced (x # xs) (x @ s @ ys)"

lemma phase2_spliced: "spliced xs text \<Longrightarrow> phase2 text = concat xs"
  by (induction rule: spliced.induct) (use phase2_plain [of _ "[]"] in \<open>auto simp: phase2_plain phase2_splice\<close>)

section \<open>Properties\<close>

text \<open>
  C23. Translation before the tokens. On every buffer the loop in place succeeds: it reads and
  writes nothing outside, never overtakes its reading position, leaves the bytes behind the text
  alone, and what it leaves at the front is the translated text. That text contains no carriage
  return, and a text cut by line splices in any of their forms comes out joined.
\<close>

theorem phase2_in_place:
  assumes "len \<le> length m"
  shows "\<exists>m' n. cc_preprocess_phase2_text m len 0 0 = Some (m', n) \<and> n \<le> len \<and> length m' = length m
    \<and> take n m' = phase2 (take len m) \<and> drop len m' = drop len m
    \<and> 13 \<notin> set (take n m') \<and> (\<forall>xs. spliced xs (take len m) \<longrightarrow> take n m' = concat xs)"
  using phase2_text_rest [of 0 0 len m] assms by (auto simp: phase2_no_cr phase2_spliced)

text \<open>The text \<open>a \ CR LF b\<close> with a byte behind it.\<close>

lemma phase2_in_place_witness:
  "\<exists>m' n. cc_preprocess_phase2_text [97, 92, 32, 13, 10, 98, 7] 6 0 0 = Some (m', n) \<and> take n m' = [97, 98] \<and> drop 6 m' = [7]"
proof -
  have "splice (92 # [32] @ [13, 10]) [98]" by (rule splice.intros) (simp add: blank_def)
  then have "spliced [[97], [98]] ([97] @ (92 # [32] @ [13, 10]) @ [98])"
    by (intro spliced.intros) simp_all
  then show ?thesis
    using phase2_in_place [of 6 "[97, 92, 32, 13, 10, 98, 7]"] by auto
qed


end
