(* ===== verification/PpTokens.thy ===== *)
theory PpTokens
  imports Phase2 "HOL-Library.Sublist"
begin

text \<open>
  runtime/copy_c/preprocess_macros.h, first part: the characters, tokens and the reader of the
  preprocessor. A token of the C code points into the text it was read from; here it carries
  its bytes (\<open>tok_text\<close>) and its offset in the text of its reader (\<open>tok_at\<close>), which is all the
  code compares of two pointers. The texts are never changed while tokens of them exist. The
  reader works on the bytes behind its position, so that a pattern on their list is the bounds
  check of the code. When it fails it keeps its position; no caller reads on.
\<close>

definition CC_PP_IDENT :: nat where [simp]: "CC_PP_IDENT = 256"
definition CC_PP_NUMBER :: nat where [simp]: "CC_PP_NUMBER = 257"
definition CC_PP_LITERAL :: nat where [simp]: "CC_PP_LITERAL = 258"
definition CC_PP_HEADER :: nat where [simp]: "CC_PP_HEADER = 259"

record pp_token =
  tok_text :: mem
  tok_at :: nat
  tok_kind :: nat
  tok_hidden :: nat
  tok_space :: bool

record pp_reader =
  rd_text :: mem
  rd_at :: nat
  rd_failed :: bool

definition cc_pp_digit :: "u8 \<Rightarrow> bool" where
  "cc_pp_digit c \<longleftrightarrow> 48 \<le> c \<and> c \<le> 57"

definition cc_pp_name :: "u8 \<Rightarrow> bool" where
  "cc_pp_name c \<longleftrightarrow> (97 \<le> c \<and> c \<le> 122) \<or> (65 \<le> c \<and> c \<le> 90) \<or> c = 95 \<or> c = 36"

definition cc_pp_equal :: "pp_token \<Rightarrow> pp_token \<Rightarrow> bool" where
  "cc_pp_equal a b \<longleftrightarrow> tok_text a = tok_text b"

definition cc_pp_is :: "pp_token \<Rightarrow> string \<Rightarrow> bool" where
  "cc_pp_is t s \<longleftrightarrow> tok_text t = bytes_of s"

section \<open>Blanks and comments\<close>

text \<open>What follows a comment; \<open>None\<close>: it is not closed or contains a zero byte.\<close>

fun skip_comment :: "mem \<Rightarrow> mem option" where
  "skip_comment (a # b # rest) =
     (if a = 42 \<and> b = 47 then Some rest else if a = 0 then None else skip_comment (b # rest))"
| "skip_comment rest = None"

lemma length_skip_comment: "skip_comment xs = Some ys \<Longrightarrow> length ys < length xs"
  by (induction xs rule: skip_comment.induct) (auto split: if_splits)

function skip_layout :: "mem \<Rightarrow> mem option" where
  "skip_layout [] = Some []"
| "skip_layout (c # cs) =
     (if blank c then skip_layout cs
      else if c = 47 \<and> cs \<noteq> [] \<and> hd cs = 47 then skip_layout (dropWhile (\<lambda>b. b \<noteq> 10) (tl cs))
      else if c = 47 \<and> cs \<noteq> [] \<and> hd cs = 42 then
        (case skip_comment (tl cs) of None \<Rightarrow> None | Some rest \<Rightarrow> skip_layout rest)
      else Some (c # cs))"
  by pat_completeness auto
termination
proof (relation "measure length")
  fix c :: u8 and cs :: mem
  have "length (dropWhile (\<lambda>b. b \<noteq> 10) (tl cs)) \<le> length cs"
    using length_dropWhile_le [of "\<lambda>b. b \<noteq> 10" "tl cs"] by simp
  then show "(dropWhile (\<lambda>b. b \<noteq> 10) (tl cs), c # cs) \<in> measure length" by simp
qed (auto dest!: length_skip_comment)

section \<open>The forms of tokens\<close>

text \<open>The length of an encoding prefix in front of a quote.\<close>

definition prefix_length :: "mem \<Rightarrow> nat" where
  "prefix_length rest =
     (case rest of
        a # b # cs \<Rightarrow>
          if (a = 76 \<or> a = 117 \<or> a = 85) \<and> (b = 34 \<or> b = 39) then 1
          else if a = 117 \<and> b = 56 \<and> cs \<noteq> [] \<and> hd cs = 34 then 2
          else 0
      | _ \<Rightarrow> 0)"

text \<open>What follows a literal whose opening quote has been read.\<close>

fun literal_rest :: "bool \<Rightarrow> u8 \<Rightarrow> mem \<Rightarrow> mem option" where
  "literal_rest skipping q [] = (if skipping then Some [] else None)"
| "literal_rest skipping q (c # cs) =
     (if c = q then Some cs
      else if c = 0 then None
      else if c = 10 then (if skipping then Some (c # cs) else None)
      else if c = 92 then
        (case cs of
           [] \<Rightarrow> if skipping then Some [] else None
         | d # ds \<Rightarrow> if d = 0 then None else literal_rest skipping q ds)
      else literal_rest skipping q cs)"

fun number_rest :: "u8 \<Rightarrow> mem \<Rightarrow> mem" where
  "number_rest previous [] = []"
| "number_rest previous (c # cs) =
     (if cc_pp_name c \<or> cc_pp_digit c \<or> c = 46
         \<or> (c = 43 \<or> c = 45) \<and> (previous = 101 \<or> previous = 69 \<or> previous = 112 \<or> previous = 80)
      then number_rest c cs else c # cs)"

definition operator_pairs :: "mem list" where
  "operator_pairs = map bytes_of [''++'', ''--'', ''->'', ''<<'', ''>>'', ''<='', ''>='', ''=='', ''!='', ''&&'', ''||'',
     ''+='', ''-='', ''*='', ''/='', ''%='', ''&='', ''|='', ''^='', ''##'']"

definition operator_length :: "mem \<Rightarrow> nat" where
  "operator_length rest =
     (if length rest \<ge> 3 \<and> (take 3 rest = [46, 46, 46]
           \<or> (hd rest = 60 \<or> hd rest = 62) \<and> rest ! 1 = hd rest \<and> rest ! 2 = 61) then 3
      else if length rest \<ge> 2 \<and> take 2 rest \<in> set operator_pairs then 2
      else 1)"

text \<open>The kind of the token at the begin of the rest, and what follows it.\<close>

definition token_end :: "bool \<Rightarrow> mem \<Rightarrow> (nat \<times> mem) option" where
  "token_end skipping rest =
     (let c = hd rest; quoted = drop (prefix_length rest) rest in
      if quoted \<noteq> [] \<and> (hd quoted = 34 \<or> hd quoted = 39)
      then (case literal_rest skipping (hd quoted) (tl quoted) of None \<Rightarrow> None | Some after \<Rightarrow> Some (CC_PP_LITERAL, after))
      else if cc_pp_name c then Some (CC_PP_IDENT, dropWhile (\<lambda>b. cc_pp_name b \<or> cc_pp_digit b) (tl rest))
      else if cc_pp_digit c \<or> c = 46 \<and> length rest \<ge> 2 \<and> cc_pp_digit (rest ! 1)
      then Some (CC_PP_NUMBER, number_rest c (tl rest))
      else if c = 0 then None
      else Some (unat c, drop (operator_length rest) rest))"

definition cc_pp_next :: "bool \<Rightarrow> pp_reader \<Rightarrow> pp_token \<times> pp_reader" where
  "cc_pp_next skipping r =
     (let size = length (rd_text r);
          nothing = (\<lambda>at. \<lparr>tok_text = [], tok_at = at, tok_kind = 0, tok_hidden = 0, tok_space = False\<rparr>)
      in case skip_layout (drop (rd_at r) (rd_text r)) of
        None \<Rightarrow> (nothing (rd_at r), r\<lparr>rd_failed := True\<rparr>)
      | Some rest \<Rightarrow>
          (if rest = [] then (nothing (rd_at r), r\<lparr>rd_at := size\<rparr>)
           else let first = size - length rest; space = (first \<noteq> rd_at r) in
             case token_end skipping rest of
               None \<Rightarrow> ((nothing first)\<lparr>tok_space := space\<rparr>, r\<lparr>rd_failed := True\<rparr>)
             | Some (kind, after) \<Rightarrow>
                 (\<lparr>tok_text = take (length rest - length after) rest, tok_at = first, tok_kind = kind,
                   tok_hidden = 0, tok_space = space\<rparr>,
                  r\<lparr>rd_at := size - length after\<rparr>)))"

section \<open>Reading makes progress\<close>

lemma skip_comment_suffix: "skip_comment xs = Some ys \<Longrightarrow> suffix ys xs"
  by (induction xs rule: skip_comment.induct) (auto intro: suffix_ConsI split: if_splits)

lemma skip_layout_suffix: "skip_layout xs = Some ys \<Longrightarrow> suffix ys xs"
proof (induction xs rule: skip_layout.induct)
  case (2 c cs)
  have tail: "suffix (tl cs) (c # cs)" by (cases cs) (auto intro: suffix_ConsI)
  consider "blank c" | "\<not> blank c" "c = 47 \<and> cs \<noteq> [] \<and> hd cs = 47"
    | "\<not> blank c" "\<not> (c = 47 \<and> cs \<noteq> [] \<and> hd cs = 47)" "c = 47 \<and> cs \<noteq> [] \<and> hd cs = 42"
    | "\<not> blank c" "\<not> (c = 47 \<and> cs \<noteq> [] \<and> hd cs = 47)" "\<not> (c = 47 \<and> cs \<noteq> [] \<and> hd cs = 42)"
    by blast
  then show ?case
  proof cases
    case 1
    then show ?thesis using 2 by (auto intro: suffix_ConsI)
  next
    case 2
    then have "suffix ys (dropWhile (\<lambda>b. b \<noteq> 10) (tl cs))" using "2.IH"(2) "2.prems" by simp
    then show ?thesis using tail suffix_dropWhile suffix_order.trans by blast
  next
    case 3
    then obtain r where r: "skip_comment (tl cs) = Some r" "skip_layout r = Some ys"
      using "2.prems" by (auto split: option.splits)
    then have "suffix ys r" "suffix r (tl cs)" using "2.IH"(3) [OF 3] skip_comment_suffix by auto
    then show ?thesis using tail suffix_order.trans by blast
  next
    case 4
    then show ?thesis using "2.prems" by auto
  qed
qed simp

lemma literal_rest_suffix: "literal_rest skipping q xs = Some ys \<Longrightarrow> suffix ys xs"
  by (induction skipping q xs rule: literal_rest.induct)
    (auto intro: suffix_ConsI split: if_splits list.splits)

lemma number_rest_suffix: "suffix (number_rest p xs) xs"
  by (induction p xs rule: number_rest.induct) (auto intro: suffix_ConsI)

lemma suffix_drop_Suc: "xs \<noteq> [] \<Longrightarrow> strict_suffix (drop (Suc n) xs) xs"
  by (cases xs) (auto simp: strict_suffix_def suffix_drop intro: suffix_ConsI dest: arg_cong [where f = length])

lemma token_end_suffix:
  assumes "token_end skipping rest = Some (kind, after)" and "rest \<noteq> []"
  shows "strict_suffix after rest" and "kind \<noteq> 0"
proof -
  have tl: "strict_suffix xs rest" if "suffix xs (tl rest)" for xs
    using suffix_drop_Suc [OF assms(2), of 0] that by (metis drop_0 drop_Suc suffix_order.le_less_trans)
  have quoted: "strict_suffix after rest"
    if "literal_rest skipping q (tl (drop (prefix_length rest) rest)) = Some after" for q
  proof -
    have "suffix after (drop (Suc (prefix_length rest)) rest)"
      using literal_rest_suffix [OF that] by (simp add: drop_Suc tl_drop)
    then show ?thesis using suffix_drop_Suc [OF assms(2)] by (metis suffix_order.le_less_trans)
  qed
  have "strict_suffix (drop (operator_length rest) rest) rest"
    using suffix_drop_Suc [OF assms(2)] by (auto simp: operator_length_def numeral_eq_Suc)
  then show "strict_suffix after rest"
    using assms(1) tl quoted
    by (auto simp: token_end_def Let_def suffix_dropWhile number_rest_suffix split: if_splits option.splits)
  show "kind \<noteq> 0"
    using assms(1) by (auto simp: token_end_def Let_def unat_gt_0 split: if_splits option.splits)
qed

text \<open>
  A token that is not the end is not empty, is the stretch of the text at its offset, and the
  reader stands behind it.
\<close>

lemma cc_pp_next_token:
  assumes "cc_pp_next skipping r = (t, r')" and "rd_at r \<le> length (rd_text r)"
  shows "rd_text r' = rd_text r" and "rd_at r' \<le> length (rd_text r)" and "rd_at r \<le> rd_at r'"
    and "tok_kind t \<noteq> 0 \<Longrightarrow> rd_failed r' = rd_failed r \<and> tok_text t \<noteq> [] \<and> rd_at r \<le> tok_at t
      \<and> rd_at r' = tok_at t + length (tok_text t) \<and> tok_text t = take (length (tok_text t)) (drop (tok_at t) (rd_text r))"
    and "\<not> rd_failed r' \<Longrightarrow> tok_kind t = 0 \<Longrightarrow> rd_at r' = length (rd_text r)"
proof -
  let ?text = "rd_text r" and ?at = "rd_at r"
  have *: "rd_text r' = ?text \<and> rd_at r' \<le> length ?text \<and> ?at \<le> rd_at r'
    \<and> (tok_kind t \<noteq> 0 \<longrightarrow> rd_failed r' = rd_failed r \<and> tok_text t \<noteq> [] \<and> ?at \<le> tok_at t
      \<and> rd_at r' = tok_at t + length (tok_text t) \<and> tok_text t = take (length (tok_text t)) (drop (tok_at t) ?text))
    \<and> (\<not> rd_failed r' \<longrightarrow> tok_kind t = 0 \<longrightarrow> rd_at r' = length ?text)"
  proof (cases "skip_layout (drop ?at ?text)")
    case None
    then show ?thesis using assms by (auto simp: cc_pp_next_def Let_def)
  next
    case (Some rest)
    note sfx = skip_layout_suffix [OF Some]
    show ?thesis
    proof (cases "rest = []")
      case True
      then show ?thesis using assms Some by (auto simp: cc_pp_next_def Let_def)
    next
      case rest: False
      have len: "length rest \<le> length ?text - ?at" using suffix_length_le [OF sfx] by simp
      have at: "drop (length ?text - length rest) ?text = rest"
      proof -
        obtain zs where "drop ?at ?text = zs @ rest" using sfx by (auto simp: suffix_def)
        then have "?text = (take ?at ?text @ zs) @ rest" by (metis append_assoc append_take_drop_id)
        then show ?thesis by (metis append_eq_conv_conj length_append add_diff_cancel_right')
      qed
      show ?thesis
      proof (cases "token_end skipping rest")
        case None
        then show ?thesis using assms Some rest by (auto simp: cc_pp_next_def Let_def)
      next
        case (Some ka)
        obtain kind after where ka: "ka = (kind, after)" by (cases ka)
        note e = token_end_suffix [OF Some [unfolded ka] rest]
        have less: "length after < length rest"
          using e(1) by (simp add: strict_suffix_def suffix_length_less)
        have "t = \<lparr>tok_text = take (length rest - length after) rest, tok_at = length ?text - length rest, tok_kind = kind,
              tok_hidden = 0, tok_space = (length ?text - length rest \<noteq> ?at)\<rparr>"
            "r' = r\<lparr>rd_at := length ?text - length after\<rparr>"
          using assms(1) \<open>skip_layout (drop ?at ?text) = Some rest\<close> rest Some ka
          by (simp_all add: cc_pp_next_def Let_def)
        then show ?thesis using less len at e(2) rest assms(2) by auto
      qed
    qed
  qed
  then show "rd_text r' = ?text" "rd_at r' \<le> length ?text" "?at \<le> rd_at r'" by blast+
  show "tok_kind t \<noteq> 0 \<Longrightarrow> rd_failed r' = rd_failed r \<and> tok_text t \<noteq> [] \<and> ?at \<le> tok_at t
      \<and> rd_at r' = tok_at t + length (tok_text t) \<and> tok_text t = take (length (tok_text t)) (drop (tok_at t) ?text)"
    using * by blast
  show "\<not> rd_failed r' \<Longrightarrow> tok_kind t = 0 \<Longrightarrow> rd_at r' = length ?text" using * by blast
qed

end
