(* ===== verification/PpHide.thy ===== *)
theory PpHide
  imports Prelude
begin

text \<open>
  runtime/copy_c/preprocess_macros.h, the hide sets: a token carries the number of the set of
  macros that must not be expanded in it. The sets are bit vectors of 512 macros, interned in a
  hash table with linear probing, so that every set has one number. The table of numbers is the
  record \<open>pp_hide\<close>; its specification is the set of macros behind a number (\<open>hide_set\<close>).
\<close>

definition CC_PP_MACROS :: nat where [simp]: "CC_PP_MACROS = 512"
definition CC_PP_HIDE_SETS :: nat where "CC_PP_HIDE_SETS = 4096"
definition CC_PP_HIDE_SLOTS :: nat where "CC_PP_HIDE_SLOTS = 8192"
definition CC_PP_HIDE_WORDS :: nat where "CC_PP_HIDE_WORDS = (CC_PP_MACROS + 31) div 32"

record pp_hide =
  hide_sets :: "u32 list list"
  hide_slots :: "nat list"

definition hide_hash :: "u32 list \<Rightarrow> u32" where
  "hide_hash bits = fold (\<lambda>b hash. (hash XOR b) * 16777619) bits 2166136261"

text \<open>The slot where the search for a set begins: \<open>hash & (CC_PP_HIDE_SLOTS - 1)\<close>.\<close>

definition hide_start :: "u32 list \<Rightarrow> nat" where
  "hide_start bits = unat (hide_hash bits AND (of_nat CC_PP_HIDE_SLOTS - 1))"

text \<open>
  The search: \<open>Inl\<close> is the number of the set, \<open>Inr\<close> an empty slot. The number of slots bounds
  the loop; with an empty slot in the table it is never reached.
\<close>

fun hide_probe :: "nat \<Rightarrow> pp_hide \<Rightarrow> u32 list \<Rightarrow> nat \<Rightarrow> (nat + nat) option" where
  "hide_probe 0 h bits slot = None"
| "hide_probe (Suc k) h bits slot =
     (let v = hide_slots h ! slot in
      if v = 0 then Some (Inr slot)
      else if hide_sets h ! (v - 1) = bits then Some (Inl (v - 1))
      else hide_probe k h bits ((slot + 1) mod CC_PP_HIDE_SLOTS))"

text \<open>\<open>None\<close> is the result -1.\<close>

definition cc_pp_hide_intern :: "u32 list \<Rightarrow> pp_hide \<Rightarrow> (nat \<times> pp_hide) option" where
  "cc_pp_hide_intern bits h =
     (case hide_probe CC_PP_HIDE_SLOTS h bits (hide_start bits) of
        None \<Rightarrow> None
      | Some (Inl index) \<Rightarrow> Some (index, h)
      | Some (Inr slot) \<Rightarrow>
          (if length (hide_sets h) = CC_PP_HIDE_SETS then None
           else let index = length (hide_sets h)
                in Some (index, h\<lparr>hide_sets := hide_sets h @ [bits], hide_slots := (hide_slots h)[slot := index + 1]\<rparr>)))"

definition cc_pp_hide_reset :: pp_hide where
  "cc_pp_hide_reset =
     (case cc_pp_hide_intern (replicate CC_PP_HIDE_WORDS 0)
        \<lparr>hide_sets = [], hide_slots = replicate CC_PP_HIDE_SLOTS 0\<rparr> of
        Some (_, h) \<Rightarrow> h | None \<Rightarrow> \<lparr>hide_sets = [], hide_slots = replicate CC_PP_HIDE_SLOTS 0\<rparr>)"

definition cc_pp_hide_contains :: "pp_hide \<Rightarrow> nat \<Rightarrow> nat \<Rightarrow> bool" where
  "cc_pp_hide_contains h s m \<longleftrightarrow>
     (if s \<ge> length (hide_sets h) \<or> m \<ge> CC_PP_MACROS then False
      else drop_bit (m mod 32) (hide_sets h ! s ! (m div 32)) AND 1 \<noteq> 0)"

definition cc_pp_hide_add :: "nat \<Rightarrow> nat \<Rightarrow> pp_hide \<Rightarrow> (nat \<times> pp_hide) option" where
  "cc_pp_hide_add s m h =
     (if s \<ge> length (hide_sets h) \<or> m \<ge> CC_PP_MACROS then None
      else let bits = hide_sets h ! s
           in cc_pp_hide_intern (bits[m div 32 := bits ! (m div 32) OR push_bit (m mod 32) 1]) h)"

definition cc_pp_hide_merge :: "nat \<Rightarrow> nat \<Rightarrow> bool \<Rightarrow> pp_hide \<Rightarrow> (nat \<times> pp_hide) option" where
  "cc_pp_hide_merge l r intersection h =
     (if l \<ge> length (hide_sets h) \<or> r \<ge> length (hide_sets h) then None
      else cc_pp_hide_intern (map2 (if intersection then (AND) else (OR)) (hide_sets h ! l) (hide_sets h ! r)) h)"

section \<open>The sets\<close>

definition bits_set :: "u32 list \<Rightarrow> nat set" where
  "bits_set bits = {m. m < CC_PP_MACROS \<and> bit (bits ! (m div 32)) (m mod 32)}"

definition hide_set :: "pp_hide \<Rightarrow> nat \<Rightarrow> nat set" where
  "hide_set h i = bits_set (hide_sets h ! i)"

lemma hide_words [simp]: "CC_PP_HIDE_WORDS = 16"
  by (simp add: CC_PP_HIDE_WORDS_def)

lemma bits_set_inject:
  assumes "length a = CC_PP_HIDE_WORDS" and "length b = CC_PP_HIDE_WORDS"
  shows "bits_set a = bits_set b \<longleftrightarrow> a = b"
proof
  assume eq: "bits_set a = bits_set b"
  show "a = b"
  proof (rule nth_equalityI)
    fix i assume i: "i < length a"
    show "a ! i = b ! i"
    proof (rule bit_word_eqI)
      fix n assume n: "n < LENGTH(32)"
      then have "32 * i + n < CC_PP_MACROS" "(32 * i + n) div 32 = i" "(32 * i + n) mod 32 = n"
        using i assms(1) by auto
      then have "32 * i + n \<in> bits_set x \<longleftrightarrow> bit (x ! i) n" for x by (simp add: bits_set_def)
      then show "bit (a ! i) n \<longleftrightarrow> bit (b ! i) n" using eq by blast
    qed
  qed (simp add: assms)
qed simp

section \<open>The table\<close>

text \<open>\<open>found_at h i k\<close>: the set \<open>i\<close> is the \<open>k\<close>-th that its search meets, with no gap before.\<close>

definition nth_slot :: "u32 list \<Rightarrow> nat \<Rightarrow> nat" where
  "nth_slot bits k = (hide_start bits + k) mod CC_PP_HIDE_SLOTS"

definition hide_ok :: "pp_hide \<Rightarrow> bool" where
  "hide_ok h \<longleftrightarrow> length (hide_slots h) = CC_PP_HIDE_SLOTS \<and> length (hide_sets h) \<le> CC_PP_HIDE_SETS
     \<and> (\<forall>bits\<in>set (hide_sets h). length bits = CC_PP_HIDE_WORDS) \<and> distinct (hide_sets h)
     \<and> (\<forall>s<CC_PP_HIDE_SLOTS. hide_slots h ! s \<le> length (hide_sets h))
     \<and> card {s. s < CC_PP_HIDE_SLOTS \<and> hide_slots h ! s \<noteq> 0} = length (hide_sets h)
     \<and> (\<forall>i<length (hide_sets h). \<exists>k<CC_PP_HIDE_SLOTS. hide_slots h ! nth_slot (hide_sets h ! i) k = i + 1
          \<and> (\<forall>j<k. hide_slots h ! nth_slot (hide_sets h ! i) j \<noteq> 0))"

lemma hide_start_less: "hide_start bits < CC_PP_HIDE_SLOTS"
proof -
  have "(of_nat CC_PP_HIDE_SLOTS - 1 :: u32) = mask 13" by (simp add: CC_PP_HIDE_SLOTS_def mask_eq_exp_minus_1)
  then have "hide_start bits = unat (take_bit 13 (hide_hash bits))"
    by (simp add: hide_start_def take_bit_eq_mask)
  also have "\<dots> = take_bit 13 (unat (hide_hash bits))" by (simp add: unsigned_take_bit_eq)
  also have "\<dots> < 2 ^ 13" by (rule take_bit_nat_less_exp)
  finally show ?thesis by (simp add: CC_PP_HIDE_SLOTS_def)
qed

text \<open>The search stops at the first slot that is empty or holds the set.\<close>

definition probe_hit :: "pp_hide \<Rightarrow> u32 list \<Rightarrow> nat \<Rightarrow> bool" where
  "probe_hit h bits s \<longleftrightarrow> hide_slots h ! s = 0 \<or> hide_sets h ! (hide_slots h ! s - 1) = bits"

lemma hide_probe_first:
  assumes "d < n" and "\<And>j. j < d \<Longrightarrow> \<not> probe_hit h bits ((s + j) mod CC_PP_HIDE_SLOTS)"
    and "probe_hit h bits ((s + d) mod CC_PP_HIDE_SLOTS)" and "s < CC_PP_HIDE_SLOTS"
  shows "hide_probe n h bits s = (let s = (s + d) mod CC_PP_HIDE_SLOTS; v = hide_slots h ! s in
    Some (if v = 0 then Inr s else Inl (v - 1)))"
  using assms
proof (induction n arbitrary: s d)
  case (Suc n)
  show ?case
  proof (cases d)
    case 0
    then show ?thesis using Suc.prems by (auto simp: probe_hit_def Let_def)
  next
    case (Suc e)
    have "\<not> probe_hit h bits s" using Suc.prems(2) [of 0] Suc Suc.prems(4) by simp
    then have step: "hide_probe (Suc n) h bits s = hide_probe n h bits ((s + 1) mod CC_PP_HIDE_SLOTS)"
      by (simp add: probe_hit_def Let_def)
    have shift: "((s + 1) mod CC_PP_HIDE_SLOTS + j) mod CC_PP_HIDE_SLOTS = (s + Suc j) mod CC_PP_HIDE_SLOTS" for j
      by (simp add: mod_simps)
    have "0 < CC_PP_HIDE_SLOTS" by (simp add: CC_PP_HIDE_SLOTS_def)
    then show ?thesis
      unfolding step Suc
    proof (intro Suc.IH [of e "(s + 1) mod CC_PP_HIDE_SLOTS", unfolded shift])
      fix j assume "j < e"
      then show "\<not> probe_hit h bits ((s + Suc j) mod CC_PP_HIDE_SLOTS)"
        using Suc.prems(2) [of "Suc j"] Suc by blast
    qed (use Suc.prems Suc \<open>0 < CC_PP_HIDE_SLOTS\<close> in simp_all)
  qed
qed simp

lemma empty_slot:
  assumes "hide_ok h"
  shows "\<exists>k<CC_PP_HIDE_SLOTS. hide_slots h ! nth_slot bits k = 0"
proof -
  let ?N = CC_PP_HIDE_SLOTS
  have "card {s. s < ?N \<and> hide_slots h ! s \<noteq> 0} = length (hide_sets h)" "length (hide_sets h) \<le> CC_PP_HIDE_SETS"
    using assms unfolding hide_ok_def by blast+
  then have "card {s. s < ?N \<and> hide_slots h ! s \<noteq> 0} \<le> CC_PP_HIDE_SETS" by (simp only:)
  also have "\<dots> < ?N" by (simp add: CC_PP_HIDE_SETS_def CC_PP_HIDE_SLOTS_def)
  also have "?N = card {s. s < ?N}" by simp
  finally have "card {s. s < ?N \<and> hide_slots h ! s \<noteq> 0} < card {s. s < ?N}" .
  then have "{s. s < ?N \<and> hide_slots h ! s \<noteq> 0} \<noteq> {s. s < ?N}" by (metis less_irrefl)
  then obtain s where s: "s < ?N" "hide_slots h ! s = 0" by blast
  let ?k = "(s + ?N - hide_start bits) mod ?N"
  have pos: "0 < ?N" by (simp add: CC_PP_HIDE_SLOTS_def)
  have "nth_slot bits ?k = (hide_start bits + (s + ?N - hide_start bits)) mod ?N"
    by (simp only: nth_slot_def mod_add_right_eq)
  also have "hide_start bits + (s + ?N - hide_start bits) = s + ?N" using hide_start_less [of bits] by linarith
  also have "(s + ?N) mod ?N = s" using s(1) by simp
  finally have "nth_slot bits ?k = s" .
  then have "hide_slots h ! nth_slot bits ?k = 0" using s(2) by (simp only:)
  moreover have "?k < ?N" using pos by (rule mod_less_divisor)
  ultimately show ?thesis by (intro exI [of _ ?k] conjI)
qed

text \<open>The first slot of the search that is a hit.\<close>

lemma first_hit:
  assumes "hide_ok h"
  obtains d where "d < CC_PP_HIDE_SLOTS" and "\<And>j. j < d \<Longrightarrow> \<not> probe_hit h bits (nth_slot bits j)"
    and "probe_hit h bits (nth_slot bits d)"
proof -
  obtain k where k: "k < CC_PP_HIDE_SLOTS" "probe_hit h bits (nth_slot bits k)"
    using empty_slot [OF assms, of bits] by (auto simp: probe_hit_def)
  define d where "d = (LEAST j. probe_hit h bits (nth_slot bits j))"
  have "probe_hit h bits (nth_slot bits d)" "d \<le> k"
    unfolding d_def using k(2) by (auto intro: LeastI Least_le)
  moreover have "\<And>j. j < d \<Longrightarrow> \<not> probe_hit h bits (nth_slot bits j)"
    unfolding d_def by (rule not_less_Least)
  ultimately show thesis using k(1) that by (meson le_less_trans)
qed

lemma intern_probe:
  assumes "d < CC_PP_HIDE_SLOTS" and "\<And>j. j < d \<Longrightarrow> \<not> probe_hit h bits (nth_slot bits j)"
    and "probe_hit h bits (nth_slot bits d)"
  shows "hide_probe CC_PP_HIDE_SLOTS h bits (hide_start bits) =
    Some (if hide_slots h ! nth_slot bits d = 0 then Inr (nth_slot bits d) else Inl (hide_slots h ! nth_slot bits d - 1))"
  using hide_probe_first [of d CC_PP_HIDE_SLOTS h bits "hide_start bits"] assms hide_start_less
  by (simp add: nth_slot_def Let_def)

section \<open>Interning\<close>

lemma hide_okD:
  assumes "hide_ok h"
  shows "length (hide_slots h) = CC_PP_HIDE_SLOTS" and "length (hide_sets h) \<le> CC_PP_HIDE_SETS"
    and "\<And>bits. bits \<in> set (hide_sets h) \<Longrightarrow> length bits = CC_PP_HIDE_WORDS" and "distinct (hide_sets h)"
    and "\<And>s. s < CC_PP_HIDE_SLOTS \<Longrightarrow> hide_slots h ! s \<le> length (hide_sets h)"
    and "card {s. s < CC_PP_HIDE_SLOTS \<and> hide_slots h ! s \<noteq> 0} = length (hide_sets h)"
    and "\<And>i. i < length (hide_sets h) \<Longrightarrow> \<exists>k<CC_PP_HIDE_SLOTS. hide_slots h ! nth_slot (hide_sets h ! i) k = i + 1
      \<and> (\<forall>j<k. hide_slots h ! nth_slot (hide_sets h ! i) j \<noteq> 0)"
  using assms unfolding hide_ok_def by blast+

lemma nth_slot_less: "nth_slot bits k < CC_PP_HIDE_SLOTS"
  by (simp add: nth_slot_def CC_PP_HIDE_SLOTS_def)

text \<open>A set in the table is found; the search for another one ends at an empty slot.\<close>

lemma intern_known:
  assumes "hide_ok h" and "i < length (hide_sets h)" and "hide_sets h ! i = bits"
  shows "cc_pp_hide_intern bits h = Some (i, h)"
proof -
  note ok = hide_okD [OF assms(1)]
  obtain k where k: "hide_slots h ! nth_slot bits k = i + 1" "\<And>j. j < k \<Longrightarrow> hide_slots h ! nth_slot bits j \<noteq> 0"
    using ok(7) [OF assms(2)] assms(3) by auto
  obtain d where d: "d < CC_PP_HIDE_SLOTS" "\<And>j. j < d \<Longrightarrow> \<not> probe_hit h bits (nth_slot bits j)"
      "probe_hit h bits (nth_slot bits d)"
    using first_hit [OF assms(1)] by blast
  have "probe_hit h bits (nth_slot bits k)" using k(1) assms(3) by (simp add: probe_hit_def)
  then have "d \<le> k" using d(2) by (meson not_le)
  then have v: "hide_slots h ! nth_slot bits d \<noteq> 0" using k by (cases "d = k") auto
  then have "hide_sets h ! (hide_slots h ! nth_slot bits d - 1) = bits" using d(3) by (simp add: probe_hit_def)
  moreover have "hide_slots h ! nth_slot bits d - 1 < length (hide_sets h)"
    using v ok(5) [OF nth_slot_less, of bits d] by linarith
  ultimately have "hide_slots h ! nth_slot bits d - 1 = i"
    using ok(4) assms(2,3) nth_eq_iff_index_eq by metis
  then show ?thesis using intern_probe [OF d] v by (simp add: cc_pp_hide_intern_def)
qed

lemma intern_new:
  assumes "hide_ok h" and "bits \<notin> set (hide_sets h)" and "length bits = CC_PP_HIDE_WORDS"
  shows "length (hide_sets h) = CC_PP_HIDE_SETS \<Longrightarrow> cc_pp_hide_intern bits h = None"
    and "length (hide_sets h) < CC_PP_HIDE_SETS \<Longrightarrow>
      \<exists>h'. cc_pp_hide_intern bits h = Some (length (hide_sets h), h') \<and> hide_ok h' \<and> hide_sets h' = hide_sets h @ [bits]"
proof -
  note ok = hide_okD [OF assms(1)]
  let ?n = "length (hide_sets h)"
  obtain d where d: "d < CC_PP_HIDE_SLOTS" "\<And>j. j < d \<Longrightarrow> \<not> probe_hit h bits (nth_slot bits j)"
      "probe_hit h bits (nth_slot bits d)"
    using first_hit [OF assms(1)] by blast
  let ?s = "nth_slot bits d"
  have "hide_slots h ! ?s = 0"
  proof (rule ccontr)
    assume v: "hide_slots h ! ?s \<noteq> 0"
    then have "hide_sets h ! (hide_slots h ! ?s - 1) = bits" using d(3) by (simp add: probe_hit_def)
    moreover have "hide_slots h ! ?s - 1 < ?n" using v ok(5) [OF nth_slot_less, of bits d] by linarith
    ultimately show False using assms(2) by (metis nth_mem)
  qed
  note empty = this
  have probe: "hide_probe CC_PP_HIDE_SLOTS h bits (hide_start bits) = Some (Inr ?s)"
    using intern_probe [OF d] empty by simp
  then show "?n = CC_PP_HIDE_SETS \<Longrightarrow> cc_pp_hide_intern bits h = None"
    by (simp add: cc_pp_hide_intern_def)
  assume less: "?n < CC_PP_HIDE_SETS"
  let ?h = "h\<lparr>hide_sets := hide_sets h @ [bits], hide_slots := (hide_slots h)[?s := ?n + 1]\<rparr>"
  have s: "?s < length (hide_slots h)" using ok(1) nth_slot_less by simp
  have slot: "hide_slots ?h ! x = (if x = ?s then ?n + 1 else hide_slots h ! x)" for x
    using s by (simp add: nth_list_update)
  have "hide_ok ?h"
    unfolding hide_ok_def
  proof (intro conjI allI impI ballI)
    show "length (hide_slots ?h) = CC_PP_HIDE_SLOTS" using ok(1) by simp
    show "length (hide_sets ?h) \<le> CC_PP_HIDE_SETS" using less by simp
    show "length b = CC_PP_HIDE_WORDS" if "b \<in> set (hide_sets ?h)" for b
      using that ok(3) assms(3) by auto
    show "distinct (hide_sets ?h)" using ok(4) assms(2) by simp
    show "hide_slots ?h ! x \<le> length (hide_sets ?h)" if "x < CC_PP_HIDE_SLOTS" for x
      using ok(5) [OF that] unfolding slot by simp
    have "{x. x < CC_PP_HIDE_SLOTS \<and> hide_slots ?h ! x \<noteq> 0} = insert ?s {x. x < CC_PP_HIDE_SLOTS \<and> hide_slots h ! x \<noteq> 0}"
      unfolding slot using nth_slot_less by auto
    then show "card {x. x < CC_PP_HIDE_SLOTS \<and> hide_slots ?h ! x \<noteq> 0} = length (hide_sets ?h)"
      using ok(6) empty by simp
  next
    fix i assume i: "i < length (hide_sets ?h)"
    show "\<exists>k<CC_PP_HIDE_SLOTS. hide_slots ?h ! nth_slot (hide_sets ?h ! i) k = i + 1
        \<and> (\<forall>j<k. hide_slots ?h ! nth_slot (hide_sets ?h ! i) j \<noteq> 0)"
    proof (cases "i < ?n")
      case True
      obtain k where k: "k < CC_PP_HIDE_SLOTS" "hide_slots h ! nth_slot (hide_sets h ! i) k = i + 1"
          "\<forall>j<k. hide_slots h ! nth_slot (hide_sets h ! i) j \<noteq> 0"
        using ok(7) [OF True] by blast
      have "nth_slot (hide_sets h ! i) k \<noteq> ?s" using k(2) empty by (metis add_is_0 one_neq_zero)
      then show ?thesis unfolding slot using True k by (intro exI [of _ k]) (simp add: nth_append)
    next
      case False
      then have i: "i = ?n" using i by simp
      have "hide_slots h ! nth_slot bits j \<noteq> 0" if "j < d" for j
        using d(2) [OF that] by (simp add: probe_hit_def)
      then show ?thesis unfolding slot using d(1) by (intro exI [of _ d]) (simp add: i)
    qed
  qed
  then show "\<exists>h'. cc_pp_hide_intern bits h = Some (?n, h') \<and> hide_ok h' \<and> hide_sets h' = hide_sets h @ [bits]"
    using probe less by (simp add: cc_pp_hide_intern_def Let_def)
qed

text \<open>What every operation of the table does: old numbers keep their sets.\<close>

definition hide_extends :: "pp_hide \<Rightarrow> pp_hide \<Rightarrow> bool" where
  "hide_extends h h' \<longleftrightarrow> hide_ok h' \<and> (\<exists>more. hide_sets h' = hide_sets h @ more)"

lemma hide_extends_refl: "hide_ok h \<Longrightarrow> hide_extends h h"
  by (simp add: hide_extends_def)

lemma hide_extends_trans: "hide_extends a b \<Longrightarrow> hide_extends b c \<Longrightarrow> hide_extends a c"
  by (auto simp: hide_extends_def)

lemma hide_extends_set:
  "hide_extends h h' \<Longrightarrow> i < length (hide_sets h) \<Longrightarrow> i < length (hide_sets h') \<and> hide_set h' i = hide_set h i"
  by (auto simp: hide_extends_def hide_set_def nth_append)

lemma intern_set:
  assumes "hide_ok h" and "length bits = CC_PP_HIDE_WORDS"
  shows "case cc_pp_hide_intern bits h of
      Some (i, h') \<Rightarrow> hide_extends h h' \<and> i < length (hide_sets h') \<and> hide_sets h' ! i = bits
    | None \<Rightarrow> length (hide_sets h) = CC_PP_HIDE_SETS \<and> bits \<notin> set (hide_sets h)"
proof (cases "bits \<in> set (hide_sets h)")
  case True
  then obtain i where "i < length (hide_sets h)" "hide_sets h ! i = bits" by (auto simp: in_set_conv_nth)
  then show ?thesis using intern_known [OF assms(1)] hide_extends_refl [OF assms(1)] by simp
next
  case False
  show ?thesis
  proof (cases "length (hide_sets h) < CC_PP_HIDE_SETS")
    case True
    then show ?thesis using intern_new(2) [OF assms(1) False assms(2)] by (auto simp: hide_extends_def)
  next
    case full: False
    then have "length (hide_sets h) = CC_PP_HIDE_SETS" using hide_okD(2) [OF assms(1)] by simp
    then show ?thesis using intern_new(1) [OF assms(1) False assms(2)] False by simp
  qed
qed

lemma hide_empty_ok: "hide_ok \<lparr>hide_sets = [], hide_slots = replicate CC_PP_HIDE_SLOTS 0\<rparr>"
proof -
  have none: "{s. s < CC_PP_HIDE_SLOTS \<and> replicate CC_PP_HIDE_SLOTS (0 :: nat) ! s \<noteq> 0} = {}" by auto
  show ?thesis unfolding hide_ok_def pp_hide.select_convs none by simp
qed

lemma hide_reset_ok: "hide_ok cc_pp_hide_reset \<and> hide_sets cc_pp_hide_reset = [replicate CC_PP_HIDE_WORDS 0]"
proof -
  have "(0 :: nat) < CC_PP_HIDE_SETS" by (simp add: CC_PP_HIDE_SETS_def)
  then show ?thesis
    using intern_new(2) [OF hide_empty_ok, of "replicate CC_PP_HIDE_WORDS 0"]
    by (auto simp: cc_pp_hide_reset_def)
qed

section \<open>The operations are those of sets\<close>

lemma hide_set_words:
  assumes "hide_ok h" and "i < length (hide_sets h)"
  shows "length (hide_sets h ! i) = CC_PP_HIDE_WORDS"
  by (rule hide_okD(3) [OF assms(1) nth_mem [OF assms(2)]])

lemma hide_contains_set:
  assumes "s < length (hide_sets h)"
  shows "cc_pp_hide_contains h s m \<longleftrightarrow> m \<in> hide_set h s"
proof -
  have "drop_bit k w AND 1 \<noteq> 0 \<longleftrightarrow> bit w k" for w :: u32 and k
    by (simp add: and_one_eq bit_iff_odd_drop_bit odd_iff_mod_2_eq_one)
  then show ?thesis using assms by (auto simp: cc_pp_hide_contains_def hide_set_def bits_set_def)
qed

lemma bits_set_add:
  assumes "length bits = CC_PP_HIDE_WORDS" and "m < CC_PP_MACROS"
  shows "bits_set (bits[m div 32 := bits ! (m div 32) OR push_bit (m mod 32) 1]) = insert m (bits_set bits)"
proof -
  have one: "bit (push_bit k 1 :: u32) j \<longleftrightarrow> j = k" if "j < 32" "k < 32" for j k
    using that by (auto simp: bit_exp_iff)
  have "bit (bits[m div 32 := bits ! (m div 32) OR push_bit (m mod 32) 1] ! (x div 32)) (x mod 32)
      \<longleftrightarrow> x = m \<or> bit (bits ! (x div 32)) (x mod 32)" if "x < CC_PP_MACROS" for x
  proof (cases "x div 32 = m div 32")
    case True
    then have "x = m \<longleftrightarrow> x mod 32 = m mod 32" by (metis div_mult_mod_eq)
    moreover have "m div 32 < length bits" using assms by simp
    moreover have "bit (push_bit (m mod 32) 1 :: u32) (x mod 32) \<longleftrightarrow> x mod 32 = m mod 32" by (rule one) simp_all
    ultimately show ?thesis using True by (auto simp only: nth_list_update_eq bit_or_iff)
  next
    case False
    then show ?thesis by (auto simp: nth_list_update)
  qed
  then show ?thesis using assms(2) by (auto simp: bits_set_def)
qed

lemma bits_set_merge:
  assumes "length a = CC_PP_HIDE_WORDS" and "length b = CC_PP_HIDE_WORDS"
  shows "bits_set (map2 (if c then (AND) else (OR)) a b) = (if c then bits_set a \<inter> bits_set b else bits_set a \<union> bits_set b)"
  using assms by (auto simp: bits_set_def bit_and_iff bit_or_iff)

lemma intern_for_set:
  assumes "hide_ok h" and "length bits = CC_PP_HIDE_WORDS"
  shows "case cc_pp_hide_intern bits h of
      Some (i, h') \<Rightarrow> hide_extends h h' \<and> i < length (hide_sets h') \<and> hide_set h' i = bits_set bits
    | None \<Rightarrow> length (hide_sets h) = CC_PP_HIDE_SETS \<and> (\<forall>i<length (hide_sets h). hide_set h i \<noteq> bits_set bits)"
proof (cases "cc_pp_hide_intern bits h")
  case None
  then have full: "length (hide_sets h) = CC_PP_HIDE_SETS" "bits \<notin> set (hide_sets h)"
    using intern_set [OF assms] by auto
  have "hide_set h i \<noteq> bits_set bits" if "i < length (hide_sets h)" for i
  proof -
    have "hide_sets h ! i \<noteq> bits" using full(2) that by (metis nth_mem)
    then show ?thesis
      unfolding hide_set_def bits_set_inject [OF hide_set_words [OF assms(1) that] assms(2)] .
  qed
  then show ?thesis using None full(1) by simp
next
  case (Some p)
  then show ?thesis using intern_set [OF assms] by (auto simp: hide_set_def)
qed

lemma hide_add_set:
  assumes "hide_ok h" and "s < length (hide_sets h)" and "m < CC_PP_MACROS"
  shows "case cc_pp_hide_add s m h of
        Some (i, h') \<Rightarrow> hide_extends h h' \<and> i < length (hide_sets h') \<and> hide_set h' i = insert m (hide_set h s)
      | None \<Rightarrow> length (hide_sets h) = CC_PP_HIDE_SETS \<and> (\<forall>i<length (hide_sets h). hide_set h i \<noteq> insert m (hide_set h s))"
proof -
  note words = hide_set_words [OF assms(1,2)]
  have "length ((hide_sets h ! s)[m div 32 := hide_sets h ! s ! (m div 32) OR push_bit (m mod 32) 1]) = CC_PP_HIDE_WORDS"
    using words by simp
  from intern_for_set [OF assms(1) this] show ?thesis
    using assms(2,3) unfolding bits_set_add [OF words assms(3)]
    by (simp only: cc_pp_hide_add_def Let_def hide_set_def not_le if_False not_less [symmetric] simp_thms)
qed

lemma hide_merge_set:
  assumes "hide_ok h" and "s < length (hide_sets h)" and "r < length (hide_sets h)"
  shows "case cc_pp_hide_merge s r c h of
        Some (i, h') \<Rightarrow> hide_extends h h' \<and> i < length (hide_sets h')
          \<and> hide_set h' i = (if c then hide_set h s \<inter> hide_set h r else hide_set h s \<union> hide_set h r)
      | None \<Rightarrow> length (hide_sets h) = CC_PP_HIDE_SETS
          \<and> (\<forall>i<length (hide_sets h). hide_set h i \<noteq> (if c then hide_set h s \<inter> hide_set h r else hide_set h s \<union> hide_set h r))"
proof -
  note words = hide_set_words [OF assms(1,2)] hide_set_words [OF assms(1,3)]
  have "length (map2 (if c then (AND) else (OR)) (hide_sets h ! s) (hide_sets h ! r)) = CC_PP_HIDE_WORDS"
    using words by simp
  from intern_for_set [OF assms(1) this] show ?thesis
    using assms(2,3) unfolding bits_set_merge [OF words]
    by (simp only: cc_pp_hide_merge_def hide_set_def not_le if_False not_less [symmetric] simp_thms)
qed

lemma hide_set_inject:
  assumes "hide_ok h" and "s < length (hide_sets h)" and "r < length (hide_sets h)"
  shows "hide_set h s = hide_set h r \<longleftrightarrow> s = r"
  unfolding hide_set_def bits_set_inject [OF hide_set_words [OF assms(1,2)] hide_set_words [OF assms(1,3)]]
  using hide_okD(4) [OF assms(1)] assms(2,3) by (simp add: nth_eq_iff_index_eq)

text \<open>
  C19. Hide sets are exact. In a well-formed table membership is membership in the set behind the
  number, adding a macro gives the number of the set with it, and merging gives the number of the
  intersection or the union; every step keeps the table well formed and the sets of all earlier
  numbers, and two numbers are equal exactly when their sets are. An operation fails only when
  the table holds its 4096 sets and none of them is the result.
\<close>

theorem hide_sets_exact:
  assumes "hide_ok h" and "s < length (hide_sets h)" and "r < length (hide_sets h)" and "m < CC_PP_MACROS"
  shows "(cc_pp_hide_contains h s m \<longleftrightarrow> m \<in> hide_set h s)
    \<and> (case cc_pp_hide_add s m h of
        Some (i, h') \<Rightarrow> hide_extends h h' \<and> i < length (hide_sets h') \<and> hide_set h' i = insert m (hide_set h s)
      | None \<Rightarrow> length (hide_sets h) = CC_PP_HIDE_SETS \<and> (\<forall>i<length (hide_sets h). hide_set h i \<noteq> insert m (hide_set h s)))
    \<and> (case cc_pp_hide_merge s r c h of
        Some (i, h') \<Rightarrow> hide_extends h h' \<and> i < length (hide_sets h')
          \<and> hide_set h' i = (if c then hide_set h s \<inter> hide_set h r else hide_set h s \<union> hide_set h r)
      | None \<Rightarrow> length (hide_sets h) = CC_PP_HIDE_SETS
          \<and> (\<forall>i<length (hide_sets h). hide_set h i \<noteq> (if c then hide_set h s \<inter> hide_set h r else hide_set h s \<union> hide_set h r)))
    \<and> (hide_set h s = hide_set h r \<longleftrightarrow> s = r)"
  by (intro conjI hide_contains_set hide_add_set hide_merge_set hide_set_inject assms)

text \<open>The macro 40 added to the empty set of a fresh table.\<close>

lemma hide_sets_exact_witness:
  "\<exists>i h'. cc_pp_hide_add 0 40 cc_pp_hide_reset = Some (i, h') \<and> hide_set h' i = {40}"
proof -
  have sets: "hide_sets cc_pp_hide_reset = [replicate CC_PP_HIDE_WORDS 0]" and ok: "hide_ok cc_pp_hide_reset"
    using hide_reset_ok by auto
  have "hide_set cc_pp_hide_reset 0 = {}" by (auto simp: hide_set_def sets bits_set_def)
  then show ?thesis
    using hide_sets_exact [OF ok, of 0 0 40 True, THEN conjunct2, THEN conjunct1]
    by (cases "cc_pp_hide_add 0 40 cc_pp_hide_reset") (auto simp: sets CC_PP_HIDE_SETS_def)
qed

end
