(* ===== verification/PpState.thy ===== *)
theory PpState
  imports PpTokens PpHide Tables Results
begin

text \<open>
  The state of the preprocessor: the static variables of runtime/copy_c/preprocess_macros.h,
  preprocess_condition.h and preprocess_include.h as the record \<open>pp\<close>, and the operations on
  tokens that use it (parameters, emission, pasting, stringizing, arguments).

  A count with an array beside it is a list with the array's size as a guard. The texts that
  pasting and stringizing produce live on in their tokens, so of the text buffer only the fill
  count is kept. Linked lists of nodes are lists; \<open>pp_nodes_used\<close> counts the nodes that are not
  on the free list, which decides whether one can be had, and \<open>pp_frozen_used\<close> does it for the
  frozen macros. \<open>None\<close> is the result 0 of the C functions; their callers all give up then.
\<close>

definition CC_PP_TOKENS :: nat where "CC_PP_TOKENS = 32768"
definition CC_PP_TEXT :: nat where "CC_PP_TEXT = 262144"
definition CC_PP_OUTPUT :: nat where "CC_PP_OUTPUT = 1048576"
definition CC_PP_PARAMETERS :: nat where "CC_PP_PARAMETERS = 4096"
definition CC_PP_NODES :: nat where "CC_PP_NODES = 32768"
definition CC_PP_INCLUDE_DEPTH :: nat where "CC_PP_INCLUDE_DEPTH = 64"

record pp_macro =
  mac_name :: pp_token
  mac_first :: nat
  mac_count :: nat
  mac_parameter_first :: nat
  mac_parameter_count :: nat
  mac_present :: bool
  mac_function :: bool
  mac_variadic :: bool

record pp_parameters =
  par_first :: nat
  par_count :: nat
  par_variadic :: bool

record pp_node =
  nd_token :: pp_token
  nd_frozen :: "(pp_macro \<times> nat) option"

record pp_group =
  gr_parent :: bool
  gr_taken :: bool
  gr_active :: bool
  gr_saw_else :: bool

record pp_include_frame =
  fr_reader :: pp_reader
  fr_file :: nat
  fr_floor :: nat
  fr_root :: "nat option"

record pp =
  pp_hide :: pp_hide
  pp_macros :: "pp_macro list"
  pp_tokens :: "pp_token list"
  pp_text_count :: nat
  pp_output :: mem
  pp_parameter_names :: "pp_token list"
  pp_nodes_used :: nat
  pp_frozen_used :: nat
  pp_enabled :: bool
  pp_skipping :: bool
  pp_in_condition :: bool
  pp_query_enabled :: "bool list"
  pp_groups :: "pp_group list"
  pp_group_floor :: nat
  pp_include_stack :: "pp_include_frame list"
  pp_current_file :: nat
  pp_current_root :: "nat option"
  pp_include_file :: "nat option"
  pp_include_root :: "nat option"
  pp_file_once :: "bool list"
  pp_files :: "cc_input_file list"
  pp_roots :: "mem list"

definition pp_next :: "pp \<Rightarrow> pp_reader \<Rightarrow> pp_token \<times> pp_reader" where
  "pp_next st r = cc_pp_next (pp_skipping st) r"

definition kind_newline :: nat where [simp]: "kind_newline = 10"
definition kind_open :: nat where [simp]: "kind_open = 40"
definition kind_close :: nat where [simp]: "kind_close = 41"
definition kind_comma :: nat where [simp]: "kind_comma = 44"

text \<open>Reading a token that is not the end leaves less to read.\<close>

lemma cc_pp_next_less:
  assumes "cc_pp_next skipping r = (t, r')" and "tok_kind t \<noteq> 0"
  shows "length (rd_text r') - rd_at r' < length (rd_text r) - rd_at r"
proof (cases "rd_at r \<le> length (rd_text r)")
  case True
  note n = cc_pp_next_token [OF assms(1) True]
  have "tok_text t \<noteq> []" "rd_at r \<le> tok_at t" "rd_at r' = tok_at t + length (tok_text t)"
    using n(4) assms(2) by auto
  then have "rd_at r < rd_at r'" by (metis add_strict_increasing2 le_less_trans length_greater_0_conv less_add_same_cancel1 order.strict_trans1)
  then show ?thesis using n(1,2) by simp
next
  case False
  then have "tok_kind t = 0" using assms(1) by (auto simp: cc_pp_next_def Let_def)
  then show ?thesis using assms(2) by simp
qed

lemma pp_next_less:
  "\<lbrakk>pp_next st r = (t, r'); tok_kind t \<noteq> 0\<rbrakk> \<Longrightarrow> length (rd_text r') - rd_at r' < length (rd_text r) - rd_at r"
  unfolding pp_next_def by (rule cc_pp_next_less)

lemma pp_next_le: "pp_next st r = (t, r') \<Longrightarrow> length (rd_text r') - rd_at r' \<le> length (rd_text r) - rd_at r"
proof (cases "rd_at r \<le> length (rd_text r)")
  case True
  assume "pp_next st r = (t, r')"
  then show ?thesis using cc_pp_next_token(1,3) [OF _ True, of "pp_skipping st" t r'] by (simp add: pp_next_def)
next
  case False
  assume "pp_next st r = (t, r')"
  then show ?thesis using False by (auto simp: pp_next_def cc_pp_next_def Let_def)
qed

lemma pp_next_comma:
  assumes "(t, r1) = pp_next st r" and "tok_kind t = 44" and "(t2, r2) = pp_next st r1"
  shows "length (rd_text r2) - rd_at r2 < length (rd_text r) - rd_at r"
  using pp_next_less [OF assms(1) [symmetric]] pp_next_le [OF assms(3) [symmetric]] assms(2) by simp

section \<open>Parameters\<close>

text \<open>
  The loop of \<open>cc_pp_read_parameters\<close> from the token \<open>t\<close>: the names read so far are those of the
  state behind \<open>first\<close>. The result holds whether the list is variadic.
\<close>

definition variadic_name :: "pp_token \<Rightarrow> pp_token" where
  "variadic_name t = t\<lparr>tok_text := bytes_of ''__VA_ARGS__'', tok_kind := CC_PP_IDENT\<rparr>"

function read_parameter :: "nat \<Rightarrow> pp_token \<Rightarrow> pp_reader \<Rightarrow> pp \<Rightarrow> (bool \<times> pp_reader \<times> pp) option" where
  "read_parameter first t r st =
     (if rd_failed r \<or> tok_kind t = 0 \<or> tok_kind t = kind_newline then None
      else if \<not> cc_pp_is t ''...'' \<and> tok_kind t \<noteq> CC_PP_IDENT then None
      else
        let dots = cc_pp_is t ''...''; name = (if dots then variadic_name t else t) in
        if list_ex (cc_pp_equal name) (drop first (pp_parameter_names st)) then None
        else if length (pp_parameter_names st) = CC_PP_PARAMETERS then None
        else
          let st1 = st\<lparr>pp_parameter_names := pp_parameter_names st @ [name]\<rparr> in
          (case pp_next st1 r of (t1, r1) \<Rightarrow>
            let more = (\<not> dots \<and> cc_pp_is t1 ''...'') in
            (case (if more then pp_next st1 r1 else (t1, r1)) of (t2, r2) \<Rightarrow>
              if dots \<or> more then (if tok_kind t2 \<noteq> kind_close then None else Some (True, r2, st1))
              else if tok_kind t2 = kind_close then Some (False, r2, st1)
              else if tok_kind t2 \<noteq> kind_comma then None
              else (case pp_next st1 r2 of (t3, r3) \<Rightarrow> read_parameter first t3 r3 st1))))"
  by auto
termination
proof (relation "measure (\<lambda>(first, t, r, st). length (rd_text r) - rd_at r)", goal_cases)
  case (2 first t r st)
  then show ?case
    by (auto elim: pp_next_comma)
qed simp

declare read_parameter.simps [simp del]

text \<open>The reader stands behind the opening parenthesis.\<close>

definition cc_pp_read_parameters :: "pp_reader \<Rightarrow> pp \<Rightarrow> (pp_parameters \<times> pp_reader \<times> pp) option" where
  "cc_pp_read_parameters r st =
     (let first = length (pp_parameter_names st) in
      case pp_next st r of (t, r) \<Rightarrow> do {
        (variadic, r, st) \<leftarrow>
          (if tok_kind t = kind_close then Some (False, r, st) else read_parameter first t r st);
        if rd_failed r then None
        else Some (\<lparr>par_first = first, par_count = length (pp_parameter_names st) - first, par_variadic = variadic\<rparr>, r, st)
      })"

section \<open>Macros and output\<close>

definition cc_pp_find :: "pp \<Rightarrow> pp_token \<Rightarrow> nat option" where
  "cc_pp_find st name = index_of (\<lambda>m. cc_pp_equal name (mac_name m)) (pp_macros st)"

definition macro_body :: "pp \<Rightarrow> pp_macro \<Rightarrow> pp_token list" where
  "macro_body st m = take (mac_count m) (drop (mac_first m) (pp_tokens st))"

definition macro_parameters :: "pp_macro \<Rightarrow> pp_parameters" where
  "macro_parameters m =
     \<lparr>par_first = mac_parameter_first m, par_count = mac_parameter_count m, par_variadic = mac_variadic m\<rparr>"

definition cc_pp_emit :: "pp_token \<Rightarrow> pp \<Rightarrow> pp option" where
  "cc_pp_emit t st =
     (let separator = (if tok_kind t \<noteq> kind_newline then [32] else []) in
      if length (tok_text t) > CC_PP_OUTPUT - length (pp_output st)
         \<or> length separator > CC_PP_OUTPUT - length (pp_output st) - length (tok_text t) then None
      else Some (st\<lparr>pp_output := pp_output st @ tok_text t @ separator\<rparr>))"

section \<open>Pasting and stringizing\<close>

text \<open>\<open>n\<close> more bytes in the text buffer.\<close>

definition text_room :: "nat \<Rightarrow> pp \<Rightarrow> pp option" where
  "text_room n st = (if n > CC_PP_TEXT - pp_text_count st then None else Some (st\<lparr>pp_text_count := pp_text_count st + n\<rparr>))"

definition on_hide :: "(pp_hide \<Rightarrow> (nat \<times> pp_hide) option) \<Rightarrow> pp \<Rightarrow> (nat \<times> pp) option" where
  "on_hide f st = do { (i, h) \<leftarrow> f (pp_hide st); Some (i, st\<lparr>pp_hide := h\<rparr>) }"

definition cc_pp_paste :: "pp_token \<Rightarrow> pp_token \<Rightarrow> pp \<Rightarrow> (pp_token \<times> pp) option" where
  "cc_pp_paste a b st = do {
     let text = tok_text a @ tok_text b;
     st \<leftarrow> text_room (length text) st;
     let (result, reader) = pp_next st \<lparr>rd_text = text, rd_at = 0, rd_failed = False\<rparr>;
     if tok_kind result = 0 \<or> rd_failed reader \<or> length (tok_text result) \<noteq> length text then None
     else do {
       let (tail, reader) = pp_next st reader;
       if rd_failed reader \<or> tok_kind tail \<noteq> 0 then None
       else do {
         (hidden, st) \<leftarrow> (if tok_hidden a \<noteq> 0 \<or> tok_hidden b \<noteq> 0
           then on_hide (cc_pp_hide_merge (tok_hidden a) (tok_hidden b) True) st else Some (0, st));
         Some (result\<lparr>tok_hidden := hidden, tok_space := tok_space a\<rparr>, st)
       }
     }
   }"

text \<open>The bytes of a token inside a string literal.\<close>

definition string_bytes :: "pp_token \<Rightarrow> mem" where
  "string_bytes t = concat (map (\<lambda>b. if tok_kind t = CC_PP_LITERAL \<and> (b = 34 \<or> b = 92) then [92, b] else [b]) (tok_text t))"

definition string_token :: "mem \<Rightarrow> pp \<Rightarrow> (pp_token \<times> pp) option" where
  "string_token body st = do {
     let text = 34 # body @ [34];
     st \<leftarrow> text_room (length text) st;
     Some (\<lparr>tok_text = text, tok_at = 0, tok_kind = CC_PP_LITERAL, tok_hidden = 0, tok_space = False\<rparr>, st)
   }"

text \<open>The text between the quotes, from a reader.\<close>

function string_body :: "bool \<Rightarrow> pp_reader \<Rightarrow> bool \<Rightarrow> bool \<Rightarrow> mem option" where
  "string_body skipping r previous space =
     (case cc_pp_next skipping r of (t, r1) \<Rightarrow>
        if rd_failed r1 then None
        else if tok_kind t = 0 then Some []
        else if tok_kind t = kind_newline then string_body skipping r1 previous True
        else do {
          rest \<leftarrow> string_body skipping r1 True False;
          Some ((if previous \<and> (space \<or> tok_at t \<noteq> rd_at r) then [32] else []) @ string_bytes t @ rest)
        })"
  by auto
termination
  by (relation "measure (\<lambda>(skipping, r, previous, space). length (rd_text r) - rd_at r)")
    (auto dest: cc_pp_next_less [OF sym])

declare string_body.simps [simp del]

definition cc_pp_stringify :: "pp_reader \<Rightarrow> pp \<Rightarrow> (pp_token \<times> pp) option" where
  "cc_pp_stringify r st = do { body \<leftarrow> string_body (pp_skipping st) r False False; string_token body st }"

fun string_tokens_body :: "pp_token list \<Rightarrow> bool \<Rightarrow> bool \<Rightarrow> mem" where
  "string_tokens_body [] previous space = []"
| "string_tokens_body (t # ts) previous space =
     (if tok_kind t = kind_newline then string_tokens_body ts previous True
      else (if previous \<and> (space \<or> tok_space t) then [32] else []) @ string_bytes t @ string_tokens_body ts True False)"

definition cc_pp_stringify_tokens :: "pp_token list \<Rightarrow> pp \<Rightarrow> (pp_token \<times> pp) option" where
  "cc_pp_stringify_tokens ts st = string_token (string_tokens_body ts False False) st"

section \<open>Arguments\<close>

text \<open>The end of an argument list: what an omitted or empty variadic argument adds.\<close>

definition close_arguments :: "pp_parameters \<Rightarrow> bool \<Rightarrow> 'a \<Rightarrow> ('a \<times> bool) list \<Rightarrow> ('a \<times> bool) list option" where
  "close_arguments p any nothing args =
     (let args =
        (if par_variadic p \<and> length args + 1 = par_count p then args @ [(nothing, True)]
         else if par_variadic p \<and> par_count p = 1 \<and> \<not> any then [(fst (hd args), True)]
         else args)
      in if length args = par_count p then Some args else None)"

text \<open>Arguments as stretches of a text, each with the mark that it was omitted.\<close>

function read_argument :: "pp \<Rightarrow> pp_parameters \<Rightarrow> pp_reader \<Rightarrow> nat \<Rightarrow> nat \<Rightarrow> bool \<Rightarrow> (mem \<times> bool) list
    \<Rightarrow> ((mem \<times> bool) list \<times> pp_reader) option" where
  "read_argument st p r first depth any args =
     (case pp_next st r of (t, r1) \<Rightarrow>
        if rd_failed r1 \<or> tok_kind t = 0 then None
        else if tok_kind t = kind_newline then read_argument st p r1 first depth any args
        else
          let closing = (tok_kind t = kind_close \<and> depth = 0);
              separator = (tok_kind t = kind_comma \<and> depth = 0) in
          if closing \<and> \<not> any \<and> args = [] \<and> par_count p = 0 then Some ([], r1)
          else if closing \<or> (separator \<and> \<not> (par_variadic p \<and> length args + 1 = par_count p)) then
            (if length args \<ge> par_count p then None
             else
               let args1 = args @ [(take (tok_at t - first) (drop first (rd_text r)), False)] in
               if closing then do { args \<leftarrow> close_arguments p any [] args1; Some (args, r1) }
               else read_argument st p r1 (rd_at r1) depth False args1)
          else if tok_kind t = kind_open then
            (if depth = 64 then None else read_argument st p r1 first (depth + 1) True args)
          else if tok_kind t = kind_close then read_argument st p r1 first (depth - 1) True args
          else read_argument st p r1 first depth True args)"
  by auto
termination
  by (relation "measure (\<lambda>(st, p, r, first, depth, any, args). length (rd_text r) - rd_at r)")
    (auto dest: pp_next_less [OF sym])

declare read_argument.simps [simp del]

definition cc_pp_read_arguments :: "pp_reader \<Rightarrow> pp_parameters \<Rightarrow> pp \<Rightarrow> ((mem \<times> bool) list \<times> pp_reader) option" where
  "cc_pp_read_arguments r p st =
     (if par_variadic p \<and> par_count p = 0 then None else read_argument st p r (rd_at r) 0 False [])"

definition parameter_names :: "pp \<Rightarrow> pp_parameters \<Rightarrow> pp_token list" where
  "parameter_names st p = take (par_count p) (drop (par_first p) (pp_parameter_names st))"

definition cc_pp_parameter_index :: "pp \<Rightarrow> pp_parameters \<Rightarrow> pp_token \<Rightarrow> nat option" where
  "cc_pp_parameter_index st p t =
     (if tok_kind t \<noteq> CC_PP_IDENT then None else index_of (cc_pp_equal t) (parameter_names st p))"

text \<open>The position of the parenthesis that closes a \<open>__VA_OPT__\<close> at the begin of the list.\<close>

fun va_opt_close :: "pp_token list \<Rightarrow> nat \<Rightarrow> nat \<Rightarrow> nat option" where
  "va_opt_close [] i depth = None"
| "va_opt_close (t # ts) i depth =
     (if cc_pp_is t ''__VA_OPT__'' then None
      else if tok_kind t = kind_open then va_opt_close ts (i + 1) (depth + 1)
      else if tok_kind t = kind_close then (if depth = 1 then Some i else va_opt_close ts (i + 1) (depth - 1))
      else va_opt_close ts (i + 1) depth)"

definition cc_pp_va_opt_end :: "pp_token list \<Rightarrow> nat option" where
  "cc_pp_va_opt_end body =
     (if length body \<le> 1 \<or> tok_kind (body ! 1) \<noteq> kind_open then None else va_opt_close (drop 2 body) 2 1)"

lemma va_opt_close_bounds: "va_opt_close ts i depth = Some k \<Longrightarrow> i \<le> k \<and> k < i + length ts"
  by (induction ts i depth rule: va_opt_close.induct) (auto split: if_splits)

lemma va_opt_end_bounds: "cc_pp_va_opt_end body = Some k \<Longrightarrow> 2 \<le> k \<and> k < length body"
  by (auto simp: cc_pp_va_opt_end_def dest!: va_opt_close_bounds split: if_splits)

end
