(* ===== verification/PpInclude.thy ===== *)
theory PpInclude
  imports PpState
begin

text \<open>
  runtime/copy_c/preprocess_include.h, the lookup: a header name is joined to a directory of the
  bundle, the components are compacted, and the file with that name is searched. All files are
  part of the input; nothing is opened.
\<close>

section \<open>Header names\<close>

definition header_bytes_ok :: "mem \<Rightarrow> bool" where
  "header_bytes_ok name \<longleftrightarrow> length name \<le> 4096 \<and> 0 \<notin> set name \<and> 10 \<notin> set name"

text \<open>The tokens between \<open><\<close> and \<open>>\<close>; the rest of the list must be empty.\<close>

fun angle_name :: "pp_token list \<Rightarrow> mem option" where
  "angle_name [] = None"
| "angle_name (t # ts) =
     (if cc_pp_is t ''>'' then (if ts = [] then Some [] else None)
      else do { rest \<leftarrow> angle_name ts; Some ((if tok_space t then [32] else []) @ tok_text t @ rest) })"

text \<open>The name and whether it was quoted.\<close>

definition cc_pp_header_tokens :: "pp_token list \<Rightarrow> (mem \<times> bool) option" where
  "cc_pp_header_tokens ts =
     (case ts of
        [] \<Rightarrow> None
      | t # rest \<Rightarrow>
          let text = tok_text t;
              quote = (length text \<ge> 1 \<and> hd text = 34);
              angle = (tok_kind t = CC_PP_HEADER \<and> length text \<ge> 1 \<and> hd text = 60) in
          if (tok_kind t = CC_PP_LITERAL \<or> tok_kind t = CC_PP_HEADER) \<and> length text \<ge> 2 \<and> (quote \<or> angle)
             \<and> last text = (if quote then 34 else 62) \<and> rest = []
          then (let name = butlast (tl text) in
                if header_bytes_ok name \<and> name \<noteq> [] then Some (name, quote) else None)
          else if cc_pp_is t ''<'' then
            (case angle_name rest of
               None \<Rightarrow> None
             | Some name \<Rightarrow> if header_bytes_ok name \<and> name \<noteq> [] then Some (name, False) else None)
          else None)"

section \<open>Paths\<close>

text \<open>A path without its last component and the slash before it.\<close>

definition drop_component :: "mem \<Rightarrow> mem" where
  "drop_component path = rev (tl (dropWhile (\<lambda>b. b \<noteq> slash) (rev path)))"

fun compact_path :: "mem list \<Rightarrow> mem \<Rightarrow> mem option" where
  "compact_path [] path = Some path"
| "compact_path (c # cs) path =
     (if c = [] \<or> c = [dot] then compact_path cs path
      else if c = [dot, dot] then (if path = [] then None else compact_path cs (drop_component path))
      else compact_path cs ((if path \<noteq> [] then path @ [slash] else []) @ c))"

definition cc_pp_include_candidate :: "pp \<Rightarrow> mem \<Rightarrow> mem \<Rightarrow> nat option" where
  "cc_pp_include_candidate st directory name =
     (if name = [] \<or> hd name = slash \<or> length directory + length name + 1 > 8193 then None
      else
        let path = directory @ (if directory \<noteq> [] then [slash] else []) @ name in
        case compact_path (split_on slash path) [] of
          None \<Rightarrow> None
        | Some path \<Rightarrow> index_of (\<lambda>f. path = fst f) (pp_files st))"

text \<open>The search in the roots from the number \<open>i\<close>.\<close>

fun find_in_roots :: "pp \<Rightarrow> mem \<Rightarrow> nat \<Rightarrow> mem list \<Rightarrow> (nat \<times> nat option) option" where
  "find_in_roots st name i [] = None"
| "find_in_roots st name i (root # roots) =
     (case cc_pp_include_candidate st root name of
        Some file \<Rightarrow> Some (file, Some i)
      | None \<Rightarrow> find_in_roots st name (i + 1) roots)"

text \<open>The file and the root it was found in; \<open>is_next\<close>: the search goes on behind the current root.\<close>

definition cc_pp_include_find :: "pp \<Rightarrow> mem \<Rightarrow> bool \<Rightarrow> bool \<Rightarrow> (nat \<times> nat option) option" where
  "cc_pp_include_find st name quote is_next =
     (let local =
        (if \<not> is_next \<and> quote \<and> pp_current_file st < length (pp_files st)
         then cc_pp_include_candidate st (drop_component (fst (pp_files st ! pp_current_file st))) name
         else None);
          start = (if is_next then (case pp_current_root st of Some r \<Rightarrow> r + 1 | None \<Rightarrow> 0) else 0)
      in case local of
           Some file \<Rightarrow> Some (file, None)
         | None \<Rightarrow> find_in_roots st name start (drop start (pp_roots st)))"

end
