(* ===== verification/PpMacros.thy ===== *)
theory PpMacros
  imports PpInclude
begin

text \<open>
  runtime/copy_c/preprocess_macros.h, expansion, and the queries of preprocess_queries.h that
  expansion evaluates. The loops over the body of a macro are recursions over the rest of the
  body. Rescanning calls itself for arguments and queries and repeats until nothing is left to
  expand; its recursion has a step count, and \<open>Undefined\<close> means that the count was too small.
  \<open>Fail\<close> is the result 0 of the C functions.
\<close>

definition stopped :: "'a res" where "stopped = Fail []"

primrec of_option :: "'a option \<Rightarrow> 'a res" where
  "of_option None = stopped"
| "of_option (Some x) = Done x"

section \<open>Substitution\<close>

record pp_argument =
  arg_spelling :: "pp_reader option"
  arg_raw :: "pp_token list"
  arg_expanded :: "pp_token list"
  arg_omitted :: bool

definition empty_token :: pp_token where
  "empty_token = \<lparr>tok_text = [], tok_at = 0, tok_kind = 0, tok_hidden = 0, tok_space = False\<rparr>"

text \<open>The locals of the loop: the output, and the three marks.\<close>

record substitution =
  sub_used :: "pp_token list"
  sub_paste :: bool
  sub_gap :: bool
  sub_comma_paste :: bool

text \<open>Joining the first token of a piece to the last of the output.\<close>

definition paste_piece :: "pp_token list \<Rightarrow> substitution \<Rightarrow> pp \<Rightarrow> (substitution \<times> pp) option" where
  "paste_piece piece s st =
     (if piece = [] then None
      else
        let left = last (sub_used s); right = hd piece; front = butlast (sub_used s) in
        if tok_kind left = 0 then Some (s\<lparr>sub_used := front @ [right], sub_paste := False\<rparr>, st)
        else if tok_kind right \<noteq> 0 then do {
          (joined, st) \<leftarrow> cc_pp_paste left right st;
          Some (s\<lparr>sub_used := front @ [joined], sub_paste := False\<rparr>, st)
        }
        else Some (s\<lparr>sub_paste := False\<rparr>, st))"

text \<open>The end of a round: paste if asked to, append the rest, keep a gap for the next token.\<close>

definition put_piece :: "nat \<Rightarrow> bool \<Rightarrow> pp_token list \<Rightarrow> substitution \<Rightarrow> pp \<Rightarrow> (substitution \<times> pp) option" where
  "put_piece capacity leading piece s st = do {
     (more, s, st) \<leftarrow>
       (if sub_paste s then do { (s, st) \<leftarrow> paste_piece piece s st; Some (tl piece, s, st) }
        else Some (case piece of [] \<Rightarrow> ([], s, st)
          | t # ts \<Rightarrow> (t\<lparr>tok_space := leading \<or> sub_gap s\<rparr> # ts, s\<lparr>sub_gap := False\<rparr>, st)));
     if length (sub_used s) + length more > capacity then None
     else Some (s\<lparr>sub_used := sub_used s @ more, sub_gap := (sub_gap s \<or> (piece = [] \<and> leading))\<rparr>, st)
   }"

function substitute_rest :: "pp_parameters \<Rightarrow> pp_argument list \<Rightarrow> nat \<Rightarrow> pp_token list \<Rightarrow> substitution \<Rightarrow> pp
    \<Rightarrow> (pp_token list \<times> pp) option" where
  "substitute_rest p args capacity [] s st = Some ([t \<leftarrow> sub_used s. tok_kind t \<noteq> 0], st)"
| "substitute_rest p args capacity (b # rest) s st =
     (if cc_pp_is b ''##'' then
        (if sub_comma_paste s then substitute_rest p args capacity rest (s\<lparr>sub_comma_paste := False\<rparr>) st
         else if sub_used s = [] \<or> rest = [] then None
         else substitute_rest p args capacity rest (s\<lparr>sub_paste := True\<rparr>) st)
      else
        let comma = (par_variadic p \<and> tok_kind b = kind_comma \<and> length rest \<ge> 2 \<and> cc_pp_is (rest ! 0) ''##''
          \<and> 0 < par_count p \<and> cc_pp_parameter_index st p (rest ! 1) = Some (par_count p - 1));
            s = (if comma then s\<lparr>sub_comma_paste := True\<rparr> else s) in
        if comma \<and> arg_omitted (args ! (par_count p - 1)) then substitute_rest p args capacity rest s st
        else
          let stringify = cc_pp_is b ''#'' in
          if stringify \<and> rest = [] then None
          else
            let token = (if stringify then hd rest else b);
                after = (if stringify then tl rest else rest);
                parameter = cc_pp_parameter_index st p token;
                adjacent = (\<lambda>after. sub_paste s \<or> after \<noteq> [] \<and> cc_pp_is (hd after) ''##'') in
            if par_variadic p \<and> cc_pp_is token ''__VA_OPT__'' then
              (case cc_pp_va_opt_end (token # after) of
                 None \<Rightarrow> None
               | Some e \<Rightarrow>
                   (case (if arg_expanded (args ! (par_count p - 1)) \<noteq> []
                          then substitute_rest p args capacity (take (e - 2) (drop 2 (token # after)))
                            \<lparr>sub_used = [], sub_paste = False, sub_gap = False, sub_comma_paste = False\<rparr> st
                          else Some ([], st)) of
                      None \<Rightarrow> None
                    | Some (inner, st) \<Rightarrow>
                        let after = drop (e + 1) (token # after) in
                        (case (if stringify then map_option (\<lambda>(t, st). ([t], st)) (cc_pp_stringify_tokens inner st)
                               else Some (if inner = [] \<and> adjacent after then [empty_token] else inner, st)) of
                           None \<Rightarrow> None
                         | Some (piece, st) \<Rightarrow>
                             (case put_piece capacity (tok_space b) piece s st of
                                None \<Rightarrow> None
                              | Some (s, st) \<Rightarrow> substitute_rest p args capacity after s st))))
            else
              (case (if stringify then
                       (case parameter of
                          None \<Rightarrow> None
                        | Some i \<Rightarrow> map_option (\<lambda>(t, st). ([t], st))
                            (case arg_spelling (args ! i) of
                               Some r \<Rightarrow> cc_pp_stringify r st
                             | None \<Rightarrow> cc_pp_stringify_tokens (arg_raw (args ! i)) st))
                     else
                       (case parameter of
                          None \<Rightarrow> Some ([token], st)
                        | Some i \<Rightarrow>
                            let piece = (if adjacent after then arg_raw (args ! i) else arg_expanded (args ! i))
                            in Some (if piece = [] \<and> adjacent after then [empty_token] else piece, st))) of
                 None \<Rightarrow> None
               | Some (piece, st) \<Rightarrow>
                   (case put_piece capacity (tok_space b) piece s st of
                      None \<Rightarrow> None
                    | Some (s, st) \<Rightarrow> substitute_rest p args capacity after s st)))"
  by pat_completeness auto
termination
  by (relation "measure (\<lambda>(p, args, capacity, rest, s, st). length rest)")
    (auto dest!: va_opt_end_bounds split: if_splits)

declare substitute_rest.simps [simp del]

definition cc_pp_substitute :: "pp_token list \<Rightarrow> pp_parameters \<Rightarrow> pp_argument list \<Rightarrow> nat \<Rightarrow> pp \<Rightarrow> (pp_token list \<times> pp) option" where
  "cc_pp_substitute body p args capacity st =
     substitute_rest p args capacity body
       \<lparr>sub_used = [], sub_paste = False, sub_gap = False, sub_comma_paste = False\<rparr> st"

section \<open>Nodes\<close>

definition new_node :: "pp_token \<Rightarrow> pp_node" where
  "new_node t = \<lparr>nd_token = t, nd_frozen = None\<rparr>"

definition cc_pp_node_new :: "pp_token list \<Rightarrow> pp \<Rightarrow> (pp_node list \<times> pp) option" where
  "cc_pp_node_new ts st =
     (if pp_nodes_used st + length ts > CC_PP_NODES then None
      else Some (map new_node ts, st\<lparr>pp_nodes_used := pp_nodes_used st + length ts\<rparr>))"

definition cc_pp_list_release :: "pp_node list \<Rightarrow> pp \<Rightarrow> pp" where
  "cc_pp_list_release ns st =
     st\<lparr>pp_nodes_used := pp_nodes_used st - length ns,
        pp_frozen_used := pp_frozen_used st - length [n \<leftarrow> ns. nd_frozen n \<noteq> None]\<rparr>"

definition cc_pp_freeze :: "pp \<Rightarrow> pp option" where
  "cc_pp_freeze st = (if pp_frozen_used st = 64 then None else Some (st\<lparr>pp_frozen_used := pp_frozen_used st + 1\<rparr>))"

section \<open>Calls of function-like macros\<close>

text \<open>
  The arguments of a call, from the nodes behind the opening parenthesis: the stretch of nodes of
  each argument with the mark that it was omitted, the closing parenthesis, and what follows.
\<close>

type_synonym view = "pp_node list \<times> bool"

fun call_views :: "pp_parameters \<Rightarrow> pp_node list \<Rightarrow> nat \<Rightarrow> bool \<Rightarrow> pp_node list \<Rightarrow> view list
    \<Rightarrow> (view list \<times> pp_node list \<times> pp_node \<times> pp_node list) option" where
  "call_views p [] depth any current views = None"
| "call_views p (n # ns) depth any current views =
     (let kind = tok_kind (nd_token n);
          consumed = map_option (\<lambda>(views, used, closing, rest). (views, n # used, closing, rest));
          closing = (kind = kind_close \<and> depth = 0);
          separator = (kind = kind_comma \<and> depth = 0) in
      if kind = kind_newline then consumed (call_views p ns depth any (current @ [n]) views)
      else if closing \<and> \<not> any \<and> views = [] \<and> par_count p = 0 then Some ([], [n], n, ns)
      else if closing \<or> (separator \<and> \<not> (par_variadic p \<and> length views + 1 = par_count p)) then
        (if length views \<ge> par_count p then None
         else
           let views1 = views @ [(current, False)] in
           if closing then map_option (\<lambda>views. (views, [n], n, ns)) (close_arguments p any [] views1)
           else consumed (call_views p ns depth False [] views1))
      else if kind = kind_open then
        (if depth = 64 then None else consumed (call_views p ns (depth + 1) True (current @ [n]) views))
      else consumed (call_views p ns (if kind = kind_close then depth - 1 else depth) True (current @ [n]) views))"

definition cc_pp_call_views :: "pp_parameters \<Rightarrow> pp_node list
    \<Rightarrow> (view list \<times> pp_node list \<times> pp_node \<times> pp_node list) option" where
  "cc_pp_call_views p ns = (if par_count p > 128 then None else call_views p ns 0 False [] [])"

text \<open>The tokens of an argument; a line end becomes a gap.\<close>

fun raw_tokens :: "bool \<Rightarrow> pp_node list \<Rightarrow> pp_token list" where
  "raw_tokens space [] = []"
| "raw_tokens space (n # ns) =
     (if tok_kind (nd_token n) = kind_newline then raw_tokens True ns
      else (nd_token n)\<lparr>tok_space := space \<or> tok_space (nd_token n)\<rparr> # raw_tokens False ns)"

text \<open>Does the body use the expanded argument \<open>i\<close>? The two tokens before the rest are passed along.\<close>

fun argument_needed :: "pp \<Rightarrow> pp_parameters \<Rightarrow> nat \<Rightarrow> pp_token \<Rightarrow> pp_token \<Rightarrow> pp_token list \<Rightarrow> bool" where
  "argument_needed st p i before2 before1 [] = False"
| "argument_needed st p i before2 before1 (b # rest) =
     (let last_one = (par_variadic p \<and> i + 1 = par_count p) in
      last_one \<and> cc_pp_is b ''__VA_OPT__'' \<or>
      (if cc_pp_is b ''#'' then
         (case rest of
            [] \<Rightarrow> False
          | x # rest \<Rightarrow> last_one \<and> cc_pp_is x ''__VA_OPT__'' \<or> argument_needed st p i b x rest)
       else
         cc_pp_parameter_index st p b = Some i
           \<and> \<not> (cc_pp_is before1 ''##'' \<and> \<not> (last_one \<and> tok_kind before2 = kind_comma))
           \<and> \<not> (rest \<noteq> [] \<and> cc_pp_is (hd rest) ''##'')
         \<or> argument_needed st p i before1 b rest))"

text \<open>
  \<open>sub\<close> stands for the rescan at the next depth; its result are the nodes of the list it was given.
\<close>

type_synonym rescan_fun = "pp_node list \<Rightarrow> pp \<Rightarrow> (pp_node list \<times> pp) res"

definition call_argument :: "rescan_fun \<Rightarrow> pp_parameters \<Rightarrow> pp_token list \<Rightarrow> nat \<Rightarrow> view \<Rightarrow> pp
    \<Rightarrow> (pp_argument \<times> pp) res" where
  "call_argument sub p body i v st =
     (let raw = raw_tokens False (fst v);
          argument = (\<lambda>expanded. \<lparr>arg_spelling = None, arg_raw = raw, arg_expanded = expanded, arg_omitted = snd v\<rparr>) in
      if \<not> argument_needed st p i empty_token empty_token body then Done (argument raw, st)
      else
        andthen (of_option (cc_pp_node_new raw st)) (\<lambda>(nodes, st).
          andthen (sub nodes st) (\<lambda>(nodes, st).
            Done (argument (map nd_token nodes), cc_pp_list_release nodes st))))"

fun call_arguments :: "rescan_fun \<Rightarrow> pp_parameters \<Rightarrow> pp_token list \<Rightarrow> nat \<Rightarrow> view list \<Rightarrow> pp
    \<Rightarrow> (pp_argument list \<times> pp) res" where
  "call_arguments sub p body i [] st = Done ([], st)"
| "call_arguments sub p body i (v # vs) st =
     andthen (call_argument sub p body i v st) (\<lambda>(a, st).
       andthen (call_arguments sub p body (i + 1) vs st) (\<lambda>(as, st). Done (a # as, st)))"

text \<open>How many tokens the substitution may produce.\<close>

fun call_capacity :: "pp \<Rightarrow> pp_parameters \<Rightarrow> pp_argument list \<Rightarrow> pp_token list \<Rightarrow> nat \<Rightarrow> nat option" where
  "call_capacity st p args [] capacity = Some capacity"
| "call_capacity st p args (b # rest) capacity =
     (case cc_pp_parameter_index st p b of
        None \<Rightarrow> call_capacity st p args rest capacity
      | Some i \<Rightarrow>
          let count = max (length (arg_raw (args ! i))) (length (arg_expanded (args ! i))) in
          if count > CC_PP_NODES - capacity then None else call_capacity st p args rest (capacity + count))"

text \<open>The replacement, the nodes of the call behind the name up to its end, the closing node and the rest.\<close>

definition cc_pp_function_replace :: "rescan_fun \<Rightarrow> pp_macro \<Rightarrow> pp_node list \<Rightarrow> nat \<Rightarrow> pp
    \<Rightarrow> ((pp_node list \<times> pp_node list \<times> pp_node \<times> pp_node list) \<times> pp) res" where
  "cc_pp_function_replace sub m ns depth st =
     (let p = macro_parameters m; body = macro_body st m in
      case cc_pp_call_views p ns of
        None \<Rightarrow> stopped
      | Some (views, used, closing, rest) \<Rightarrow>
          if depth = 64 then stopped
          else
            andthen (call_arguments sub p body 0 views st) (\<lambda>(args, st).
              case call_capacity st p args body (mac_count m) of
                None \<Rightarrow> stopped
              | Some capacity \<Rightarrow>
                  andthen (of_option (cc_pp_substitute body p args capacity st)) (\<lambda>(ts, st).
                    andthen (of_option (cc_pp_node_new ts st)) (\<lambda>(nodes, st).
                      Done ((nodes, used, closing, rest), st)))))"

text \<open>The tokens of an object-like macro: pasted where asked for, with the hide set joined to their own.\<close>

function object_tokens :: "nat \<Rightarrow> pp_token list \<Rightarrow> pp \<Rightarrow> (pp_token list \<times> pp) option" where
  "object_tokens hidden [] st = Some ([], st)"
| "object_tokens hidden (t # rest) st =
     (if rest \<noteq> [] \<and> cc_pp_is (hd rest) ''##'' then
        (case dropWhile (\<lambda>b. cc_pp_is b ''##'') rest of
           [] \<Rightarrow> None
         | right # rest \<Rightarrow>
             (case cc_pp_paste t right st of
                None \<Rightarrow> None
              | Some (joined, st) \<Rightarrow> object_tokens hidden (joined # rest) st))
      else
        (case on_hide (cc_pp_hide_merge (tok_hidden t) hidden False) st of
           None \<Rightarrow> None
         | Some (merged, st) \<Rightarrow>
             (case object_tokens hidden rest st of
                None \<Rightarrow> None
              | Some (ts, st) \<Rightarrow> Some (t\<lparr>tok_hidden := merged\<rparr> # ts, st))))"
  by pat_completeness auto
termination
proof (relation "measure (\<lambda>(hidden, ts, st). length ts)", goal_cases)
  case (2 hidden t rest st right rest1 x joined st1)
  then have "length (right # rest1) \<le> length rest"
    by (metis length_dropWhile_le)
  then show ?case by simp
qed auto

declare object_tokens.simps [simp del]

text \<open>Joining a hide set to those of the replacement of a call.\<close>

fun merge_hidden :: "nat \<Rightarrow> pp_node list \<Rightarrow> pp \<Rightarrow> (pp_node list \<times> pp) option" where
  "merge_hidden hidden [] st = Some ([], st)"
| "merge_hidden hidden (n # ns) st = do {
     (merged, st) \<leftarrow> on_hide (cc_pp_hide_merge (tok_hidden (nd_token n)) hidden False) st;
     (ns, st) \<leftarrow> merge_hidden hidden ns st;
     Some (n\<lparr>nd_token := (nd_token n)\<lparr>tok_hidden := merged\<rparr>\<rparr> # ns, st)
   }"

definition with_space :: "bool \<Rightarrow> pp_node list \<Rightarrow> pp_node list" where
  "with_space space ns = (case ns of [] \<Rightarrow> [] | n # ns \<Rightarrow> n\<lparr>nd_token := (nd_token n)\<lparr>tok_space := space\<rparr>\<rparr> # ns)"

end
