(* ===== verification/PpRescan.thy ===== *)
theory PpRescan
  imports PpMacros
begin

text \<open>
  The queries of runtime/copy_c/preprocess_queries.h and the rescan of preprocess_macros.h. A
  query replaces \<open>__has_include (...)\<close> and its relatives by 0 or 1; the rescan replaces the macros
  of a list of nodes until nothing is left to replace. \<open>fuel\<close> counts the calls and rounds left.
\<close>

section \<open>Queries\<close>

definition cc_pp_query_symbol :: "pp_token \<Rightarrow> nat" where
  "cc_pp_query_symbol t =
     (if tok_kind t \<noteq> CC_PP_IDENT then 0
      else if cc_pp_is t ''__has_include'' then 1
      else if cc_pp_is t ''__has_include_next'' then 2
      else if cc_pp_is t ''__has_attribute'' then 3
      else if cc_pp_is t ''__has_builtin'' then 4
      else if cc_pp_is t ''__COPYSPACE__'' then 5
      else 0)"

definition macro_present :: "pp \<Rightarrow> pp_token \<Rightarrow> bool" where
  "macro_present st t = (case cc_pp_find st t of None \<Rightarrow> False | Some i \<Rightarrow> mac_present (pp_macros st ! i))"

definition cc_pp_query_kind :: "pp \<Rightarrow> pp_token \<Rightarrow> nat" where
  "cc_pp_query_kind st t =
     (let symbol = cc_pp_query_symbol t in
      if symbol \<noteq> 0 \<and> pp_query_enabled st ! (symbol - 1) \<and> \<not> macro_present st t then symbol else 0)"

definition cc_pp_is_defined :: "pp \<Rightarrow> pp_token \<Rightarrow> bool" where
  "cc_pp_is_defined st t \<longleftrightarrow> macro_present st t \<or> cc_pp_query_kind st t \<noteq> 0"

text \<open>The query a name stands for, through at most \<open>n\<close> object-like macros of one token.\<close>

primrec lex_kind :: "nat \<Rightarrow> pp \<Rightarrow> pp_token \<Rightarrow> nat" where
  "lex_kind 0 st t = 0"
| "lex_kind (Suc n) st t =
     (if cc_pp_query_kind st t \<noteq> 0 then cc_pp_query_kind st t
      else
        case cc_pp_find st t of
          None \<Rightarrow> 0
        | Some i \<Rightarrow>
            let m = pp_macros st ! i in
            if \<not> mac_present m \<or> mac_function m \<or> mac_count m \<noteq> 1 then 0
            else lex_kind n st (pp_tokens st ! mac_first m))"


definition cc_pp_query_lex_kind :: "pp \<Rightarrow> pp_token \<Rightarrow> nat" where
  "cc_pp_query_lex_kind st t = (if tok_kind t \<noteq> CC_PP_IDENT then 0 else lex_kind (CC_PP_MACROS + 1) st t)"

text \<open>A literal token of the preprocessor's own.\<close>

definition digit_token :: "bool \<Rightarrow> pp_token" where
  "digit_token b = \<lparr>tok_text = bytes_of (if b then ''1'' else ''0''), tok_at = 0, tok_kind = CC_PP_NUMBER,
     tok_hidden = 0, tok_space = False\<rparr>"

text \<open>
  \<open>cc_pp_condition_token\<close>: behind the name of a header query (1) and its parenthesis (2) a header
  name is one token.
\<close>

definition query_state :: "pp \<Rightarrow> pp_token \<Rightarrow> nat \<Rightarrow> nat" where
  "query_state st t state =
     (let query = cc_pp_query_lex_kind st t in
      if query = 1 \<or> query = 2 then 1
      else if state = 1 then (if cc_pp_is t ''('' then 2 else 0)
      else state)"

definition cc_pp_condition_token :: "pp \<Rightarrow> pp_reader \<Rightarrow> nat \<Rightarrow> pp_token \<times> pp_reader \<times> nat" where
  "cc_pp_condition_token st r state =
     (let first = fst (pp_next st r); begin = tok_at first; text = drop begin (rd_text r);
          ordinary = (\<lambda>state. case pp_next st r of (t, r1) \<Rightarrow> (t, r1, query_state st t state)) in
      if state \<noteq> 2 then ordinary state
      else if text = [] \<or> (hd text \<noteq> 60 \<and> hd text \<noteq> 34) then ordinary 0
      else
        let close = (if hd text = 60 then 62 else 34);
            inner = takeWhile (\<lambda>b. b \<noteq> close \<and> b \<noteq> 0 \<and> b \<noteq> 10) (tl text);
            at = begin + 1 + length inner in
        if at \<ge> length (rd_text r) \<or> rd_text r ! at \<noteq> close
        then (empty_token\<lparr>tok_at := begin\<rparr>, r\<lparr>rd_failed := True\<rparr>, 0)
        else
          (\<lparr>tok_text = take (length inner + 2) text, tok_at = begin, tok_kind = CC_PP_HEADER, tok_hidden = 0,
            tok_space = tok_space first\<rparr>, r\<lparr>rd_at := at + 1\<rparr>, 0))"

text \<open>The nodes of a query's operand, its closing node and the rest; \<open>None\<close>: it is not closed.\<close>

fun query_operand :: "nat \<Rightarrow> pp_node list \<Rightarrow> (pp_node list \<times> pp_node \<times> pp_node list) option" where
  "query_operand nesting [] = None"
| "query_operand nesting (n # ns) =
     (let t = nd_token n;
          next_one = map_option (\<lambda>(ms, closing, rest). (n # ms, closing, rest)) in
      if cc_pp_is t '')'' then (if nesting = 0 then Some ([], n, ns) else next_one (query_operand (nesting - 1) ns))
      else if cc_pp_is t ''('' then next_one (query_operand (nesting + 1) ns)
      else next_one (query_operand nesting ns))"

definition is_one_of :: "pp_token \<Rightarrow> string list \<Rightarrow> bool" where
  "is_one_of t names \<longleftrightarrow> list_ex (cc_pp_is t) names"

text \<open>The attribute named by the tokens; \<open>Some None\<close>: one of an unknown scope.\<close>

definition attribute_name :: "pp_token list \<Rightarrow> pp_token option option" where
  "attribute_name ts =
     (let scoped = (\<lambda>scope rest. case rest of
            [t] \<Rightarrow> if tok_kind t = CC_PP_IDENT
                   then Some (if is_one_of scope [''gnu'', ''__gnu__''] then Some t else None) else None
          | _ \<Rightarrow> None) in
      case ts of
        [] \<Rightarrow> None
      | t # rest \<Rightarrow>
          if tok_kind t \<noteq> CC_PP_IDENT then None
          else case rest of
            [] \<Rightarrow> Some (Some t)
          | c # rest \<Rightarrow>
              if cc_pp_is c ''::'' then scoped t rest
              else if cc_pp_is c '':'' then
                (case rest of [] \<Rightarrow> None | d # rest \<Rightarrow> if cc_pp_is d '':'' then scoped t rest else None)
              else None)"

text \<open>The answer to a query about the expanded operand; \<open>None\<close> is an error.\<close>

definition query_answer :: "pp \<Rightarrow> nat \<Rightarrow> pp_token list \<Rightarrow> bool option" where
  "query_answer st kind ts =
     (if kind = 3 then
        map_option (\<lambda>a. case a of None \<Rightarrow> False
          | Some t \<Rightarrow> is_one_of t [''packed'', ''__packed__'', ''aligned'', ''__aligned__'']) (attribute_name ts)
      else if kind = 4 then
        (case ts of
           [t] \<Rightarrow> if tok_kind t = CC_PP_IDENT
             then Some (is_one_of t [''__builtin_offsetof'', ''__builtin_types_compatible_p'', ''__builtin_expect'',
               ''__builtin_va_start'', ''__builtin_va_copy'', ''__builtin_va_end'']) else None
         | _ \<Rightarrow> None)
      else
        (case cc_pp_header_tokens ts of
           None \<Rightarrow> None
         | Some (name, quote) \<Rightarrow>
             if kind = 2 \<and> (case pp_current_root st of Some r \<Rightarrow> r + 1 | None \<Rightarrow> 0) \<ge> length (pp_roots st) then None
             else Some (cc_pp_include_find st name quote (kind = 2) \<noteq> None)))"

text \<open>The list with the query at its begin replaced.\<close>

definition cc_pp_query_expand :: "rescan_fun \<Rightarrow> nat \<Rightarrow> nat \<Rightarrow> pp_node \<Rightarrow> pp_node list \<Rightarrow> pp
    \<Rightarrow> (pp_node list \<times> pp) res" where
  "cc_pp_query_expand sub kind depth n ns st =
     (if depth \<ge> 64 then stopped
      else if kind = 5 then Done (n\<lparr>nd_token := digit_token True\<rparr> # ns, st)
      else case ns of
        [] \<Rightarrow> stopped
      | opening # behind \<Rightarrow>
          if \<not> cc_pp_is (nd_token opening) ''('' then stopped
          else case query_operand 0 behind of
            None \<Rightarrow> stopped
          | Some (operand, closing, rest) \<Rightarrow>
              if operand = [] then stopped
              else
                andthen (of_option (cc_pp_node_new (map nd_token operand) st)) (\<lambda>(copies, st).
                  andthen (if tok_kind (nd_token (hd copies)) \<noteq> CC_PP_HEADER \<and> \<not> cc_pp_is (nd_token (hd copies)) ''<''
                           then sub copies st else Done (copies, st)) (\<lambda>(copies, st).
                    case query_answer st kind (map nd_token copies) of
                      None \<Rightarrow> stopped
                    | Some found \<Rightarrow>
                        Done (n\<lparr>nd_token := digit_token found\<rparr> # rest,
                          cc_pp_list_release (opening # operand @ [closing]) (cc_pp_list_release copies st)))))"

section \<open>Rescanning\<close>

text \<open>The macro a node stands for: the frozen one, or what is defined now.\<close>

definition node_macro :: "pp \<Rightarrow> pp_node \<Rightarrow> (pp_macro \<times> nat) option" where
  "node_macro st n =
     (case nd_frozen n of
        Some f \<Rightarrow> Some f
      | None \<Rightarrow>
          if tok_kind (nd_token n) \<noteq> CC_PP_IDENT then None
          else map_option (\<lambda>i. (pp_macros st ! i, i)) (cc_pp_find st (nd_token n)))"

text \<open>Is a call that starts behind these nodes still open at their end?\<close>

fun call_open :: "nat \<Rightarrow> pp_node list \<Rightarrow> bool" where
  "call_open balance [] = True"
| "call_open balance (n # ns) =
     (let kind = tok_kind (nd_token n) in
      if kind = kind_open then call_open (balance + 1) ns
      else if kind = kind_close then (if balance = 1 then False else call_open (balance - 1) ns)
      else call_open balance ns)"

definition is_newline :: "pp_node \<Rightarrow> bool" where
  "is_newline n \<longleftrightarrow> tok_kind (nd_token n) = kind_newline"

text \<open>The replacement of the macro use at the begin of the list, in front of the rest.\<close>

definition put_replacement :: "pp_node \<Rightarrow> pp_node list \<Rightarrow> pp_node list \<Rightarrow> pp_node list" where
  "put_replacement n replacement rest =
     (if replacement \<noteq> [] then with_space (tok_space (nd_token n)) replacement @ rest
      else if tok_space (nd_token n) then with_space True rest else rest)"

definition replace_object :: "pp_macro \<Rightarrow> nat \<Rightarrow> pp_node \<Rightarrow> pp_node list \<Rightarrow> pp \<Rightarrow> (pp_node list \<times> pp) option" where
  "replace_object m index n ns st = do {
     (hidden, st) \<leftarrow> on_hide (cc_pp_hide_add (tok_hidden (nd_token n)) index) st;
     (ts, st) \<leftarrow> object_tokens hidden (macro_body st m) st;
     (nodes, st) \<leftarrow> cc_pp_node_new ts st;
     Some (put_replacement n nodes ns, cc_pp_list_release [n] st)
   }"

definition replace_call :: "rescan_fun \<Rightarrow> nat \<Rightarrow> pp_macro \<Rightarrow> nat \<Rightarrow> pp_node \<Rightarrow> pp_node list \<Rightarrow> pp_node list \<Rightarrow> pp
    \<Rightarrow> (pp_node list \<times> pp) res" where
  "replace_call sub depth m index n gap behind st =
     andthen (of_option (on_hide (cc_pp_hide_add (tok_hidden (nd_token n)) index) st)) (\<lambda>(_, st).
       andthen (cc_pp_function_replace sub m (tl behind) depth st) (\<lambda>((nodes, used, closing, rest), st).
         of_option (do {
           (hidden, st) \<leftarrow> on_hide (cc_pp_hide_merge (tok_hidden (nd_token n)) (tok_hidden (nd_token closing)) True) st;
           (hidden, st) \<leftarrow> on_hide (cc_pp_hide_add hidden index) st;
           (nodes, st) \<leftarrow> merge_hidden hidden nodes st;
           Some (put_replacement n nodes rest, cc_pp_list_release (n # gap @ [hd behind] @ used) st)
         })))"

text \<open>
  The result: the nodes scanned, the nodes from a call on that the given text does not complete
  (only at depth 0 and when \<open>incomplete\<close> calls are allowed), and the state.
\<close>

definition scanned :: "pp_node \<Rightarrow> (pp_node list \<times> pp_node list \<times> pp) res \<Rightarrow> (pp_node list \<times> pp_node list \<times> pp) res" where
  "scanned n r = andthen r (\<lambda>(done, blocked, st). Done (n # done, blocked, st))"

fun cc_pp_rescan_depth :: "nat \<Rightarrow> bool \<Rightarrow> nat \<Rightarrow> pp_node list \<Rightarrow> pp \<Rightarrow> (pp_node list \<times> pp_node list \<times> pp) res" where
  "cc_pp_rescan_depth fuel incomplete depth [] st = Done ([], [], st)"
| "cc_pp_rescan_depth 0 incomplete depth (n # ns) st = Undefined"
| "cc_pp_rescan_depth (Suc fuel) incomplete depth (n # ns) st =
     (let query = cc_pp_query_kind st (nd_token n);
          sub = (\<lambda>ns st. andthen (cc_pp_rescan_depth fuel False (depth + 1) ns st) (\<lambda>(done, _, st). Done (done, st)));
          again = (\<lambda>(ns, st). cc_pp_rescan_depth fuel incomplete depth ns st);
          keep = scanned n (cc_pp_rescan_depth fuel incomplete depth ns st) in
      if query \<noteq> 0 then
        (if query \<le> 2 \<and> \<not> pp_in_condition st then stopped
         else andthen (cc_pp_query_expand sub query depth n ns st) again)
      else case node_macro st n of
        None \<Rightarrow> keep
      | Some (m, index) \<Rightarrow>
          if \<not> mac_present m \<or> cc_pp_hide_contains (pp_hide st) (tok_hidden (nd_token n)) index then keep
          else if \<not> mac_function m then andthen (of_option (replace_object m index n ns st)) again
          else
            let gap = takeWhile is_newline ns; behind = dropWhile is_newline ns;
                counted = on_hide (cc_pp_hide_add (tok_hidden (nd_token n)) index) st in
            (case counted of
               None \<Rightarrow> stopped
             | Some (_, st1) \<Rightarrow>
                 if behind = [] \<or> tok_kind (nd_token (hd behind)) \<noteq> kind_open
                 then scanned n (cc_pp_rescan_depth fuel incomplete depth ns st1)
                 else if incomplete \<and> depth = 0 \<and> call_open 1 (tl behind) then
                   (if nd_frozen n \<noteq> None then Done ([], n # ns, st1)
                    else andthen (of_option (cc_pp_freeze st1)) (\<lambda>st.
                      Done ([], n\<lparr>nd_frozen := Some (m, index)\<rparr> # ns, st)))
                 else andthen (replace_call sub depth m index n gap behind st) again))"

end
