(* ===== verification/PpCondition.thy ===== *)
theory PpCondition
  imports PpRescan "HOL-Library.Signed_Division"
begin

text \<open>
  runtime/copy_c/preprocess_condition.h: the values and the evaluator of the expressions of
  \<open>#if\<close>, the line of a condition, and the groups of conditional directives.

  A failing evaluation sets a flag and goes on to an end that nobody looks at; here it ends at
  once with \<open>stopped\<close>. The depth of the C code, at most 64, is the structural argument \<open>level\<close>,
  the number of calls still allowed. \<open>fuel\<close> bounds the rounds of the loop over operators; every
  round reads a token, so that the length of the text is enough.
\<close>

record pp_value =
  val_bits :: u64
  val_unsign :: bool

definition signed_value :: "u64 \<Rightarrow> pp_value" where
  "signed_value bits = \<lparr>val_bits = bits, val_unsign = False\<rparr>"

definition cc_pp_hex :: "u8 \<Rightarrow> nat" where
  "cc_pp_hex c =
     (if cc_pp_digit c then unat c - 48
      else if 97 \<le> c \<and> c \<le> 102 then unat c - 97 + 10
      else if 65 \<le> c \<and> c \<le> 70 then unat c - 65 + 10
      else 99)"

section \<open>Character constants\<close>

text \<open>The escape sequences with digits; the last byte is the closing quote and is never a digit.\<close>

fun octal_rest :: "nat \<Rightarrow> u32 \<Rightarrow> mem \<Rightarrow> u32 \<times> mem" where
  "octal_rest n v (c # d # rest) =
     (if n > 0 \<and> 48 \<le> c \<and> c \<le> 55 then octal_rest (n - 1) (push_bit 3 v + of_nat (unat c - 48)) (d # rest) else (v, c # d # rest))"
| "octal_rest n v rest = (v, rest)"

fun hex_rest :: "u32 \<Rightarrow> mem \<Rightarrow> u32 \<times> mem" where
  "hex_rest v (c # d # rest) =
     (if cc_pp_hex c < 16 then hex_rest (push_bit 4 v + of_nat (cc_pp_hex c)) (d # rest) else (v, c # d # rest))"
| "hex_rest v rest = (v, rest)"

lemma length_octal_rest: "octal_rest n v xs = (w, ys) \<Longrightarrow> length ys \<le> length xs"
  by (induction n v xs rule: octal_rest.induct) (fastforce split: if_splits)+

lemma length_hex_rest: "hex_rest v xs = (w, ys) \<Longrightarrow> length ys \<le> length xs"
  by (induction v xs rule: hex_rest.induct) (fastforce split: if_splits)+

text \<open>The value of an escape sequence whose backslash has been read.\<close>

definition escape :: "mem \<Rightarrow> (u32 \<times> mem) option" where
  "escape rest =
     (let c = hd rest; after = tl rest; simple = (\<lambda>v. Some (v, after)) in
      if 48 \<le> c \<and> c \<le> 55 then Some (octal_rest 2 (of_nat (unat c - 48)) after)
      else if c = 120 then
        (case hex_rest 0 after of (v, left) \<Rightarrow> if length left = length after then None else Some (v, left))
      else if c = 97 then simple 7
      else if c = 98 then simple 8
      else if c = 101 then simple 27
      else if c = 102 then simple 12
      else if c = 110 then simple 10
      else if c = 114 then simple 13
      else if c = 116 then simple 9
      else if c = 118 then simple 11
      else if c = 117 \<or> c = 85 then None
      else simple (ucast c))"

lemma length_escape: "escape rest = Some (v, left) \<Longrightarrow> rest \<noteq> [] \<Longrightarrow> length left < length rest"
  by (cases rest)
    (auto simp: escape_def Let_def split: if_splits prod.splits dest!: length_octal_rest length_hex_rest)

text \<open>The characters up to the last byte of the literal: their value and number.\<close>

function characters :: "bool \<Rightarrow> mem \<Rightarrow> u64 \<Rightarrow> nat \<Rightarrow> (u64 \<times> nat) option" where
  "characters wide rest bits count =
     (if length rest \<le> 1 then Some (bits, count)
      else
        (case (if hd rest = 92 then escape (tl rest) else Some (ucast (hd rest), tl rest)) of
           None \<Rightarrow> None
         | Some (c, left) \<Rightarrow>
             characters wide left (if wide then ucast c else push_bit 8 bits OR ucast (c AND 255)) (count + 1)))"
  by pat_completeness auto
termination
proof (relation "measure (\<lambda>(wide, rest, bits, count). length rest)", goal_cases)
  case (2 wide rest bits count x c left)
  then have "tl rest \<noteq> []" by (cases rest) auto
  with 2 show ?case by (auto split: if_splits dest!: length_escape)
qed simp

declare characters.simps [simp del]

definition character_constant :: "mem \<Rightarrow> pp_value option" where
  "character_constant text =
     (let wide = (hd text \<noteq> 39); rest = (if wide then tl text else text) in
      if rest = [] \<or> hd rest \<noteq> 39 then None
      else
        (case characters wide (tl rest) 0 0 of
           None \<Rightarrow> None
         | Some (bits, count) \<Rightarrow>
             if count = 0 then None
             else if \<not> wide \<and> count = 1 then Some (signed_value (scast (ucast bits :: 8 word)))
             else Some (signed_value (scast (ucast bits :: 32 word)))))"

section \<open>Numbers\<close>

text \<open>The digits: the value, how many, and the suffix.\<close>

fun digits :: "nat \<Rightarrow> mem \<Rightarrow> u64 \<Rightarrow> nat \<Rightarrow> (u64 \<times> nat \<times> mem) option" where
  "digits radix [] bits count = Some (bits, count, [])"
| "digits radix (c # rest) bits count =
     (if cc_pp_hex c \<ge> radix then Some (bits, count, c # rest)
      else
        let digit = of_nat (cc_pp_hex c) in
        if bits > (- 1 - digit) div of_nat radix then None
        else digits radix rest (bits * of_nat radix + digit) (count + 1))"

text \<open>The suffix: whether it has a \<open>u\<close>; \<open>previous\<close> is the byte before.\<close>

fun suffix_unsigned :: "mem \<Rightarrow> bool \<Rightarrow> nat \<Rightarrow> u8 \<Rightarrow> u8 \<Rightarrow> bool option" where
  "suffix_unsigned [] unsign longs long_case previous = Some unsign"
| "suffix_unsigned (c # rest) unsign longs long_case previous =
     (if c = 117 \<or> c = 85 then (if unsign then None else suffix_unsigned rest True longs long_case c)
      else if c = 108 \<or> c = 76 then
        (if longs \<noteq> 0 \<and> (longs \<noteq> 1 \<or> c \<noteq> long_case \<or> previous \<noteq> c) then None
         else suffix_unsigned rest unsign (longs + 1) c c)
      else None)"

definition number_constant :: "mem \<Rightarrow> pp_value option" where
  "number_constant text =
     (let zero = (hd text = 48); second = (if length text > 1 then text ! 1 else 0);
          (radix, start) = (if zero \<and> (second = 120 \<or> second = 88) then (16, 2)
            else if zero \<and> (second = 98 \<or> second = 66) then (2, 2)
            else if zero then (8, 0) else (10, 0)) in
      do {
        (bits, count, rest) \<leftarrow> digits radix (drop start text) 0 0;
        if count = 0 then None
        else do {
          unsign \<leftarrow> suffix_unsigned rest False 0 0 0;
          Some \<lparr>val_bits = bits, val_unsign = (unsign \<or> bit bits 63)\<rparr>
        }
      })"

definition cc_pp_constant :: "pp \<Rightarrow> pp_token \<Rightarrow> pp_value option" where
  "cc_pp_constant st t =
     (if tok_kind t = CC_PP_IDENT then (if cc_pp_query_kind st t \<noteq> 0 then None else Some (signed_value 0))
      else if tok_kind t = CC_PP_LITERAL then character_constant (tok_text t)
      else if tok_kind t = CC_PP_NUMBER then number_constant (tok_text t)
      else None)"

section \<open>Operators\<close>

definition operator_levels :: "(string \<times> nat) list" where
  "operator_levels = [('','', 1), (''?'', 2), (''||'', 3), (''&&'', 4), (''|'', 5), (''^'', 6), (''&'', 7),
     (''=='', 8), (''!='', 8), (''<'', 9), (''<='', 9), (''>'', 9), (''>='', 9), (''<<'', 10), (''>>'', 10),
     (''+'', 11), (''-'', 11), (''*'', 12), (''/'', 12), (''%'', 12)]"

definition cc_pp_precedence :: "pp_token \<Rightarrow> nat" where
  "cc_pp_precedence t = (case find (\<lambda>p. cc_pp_is t (fst p)) operator_levels of None \<Rightarrow> 0 | Some p \<Rightarrow> snd p)"

definition of_bool64 :: "bool \<Rightarrow> u64" where "of_bool64 b = (if b then 1 else 0)"

definition cc_pp_binary :: "pp_token \<Rightarrow> pp_value \<Rightarrow> pp_value \<Rightarrow> bool \<Rightarrow> pp_value option" where
  "cc_pp_binary op a b run =
     (let x = val_bits a; y = val_bits b; unsign = (val_unsign a \<or> val_unsign b);
          shift = (cc_pp_is op ''<<'' \<or> cc_pp_is op ''>>'');
          boolean = (cc_pp_precedence op = 8 \<or> cc_pp_precedence op = 9 \<or> cc_pp_is op ''&&'' \<or> cc_pp_is op ''||'');
          result = (\<lambda>bits. Some \<lparr>val_bits = bits,
            val_unsign = (if boolean then False else if shift then val_unsign a else unsign)\<rparr>);
          less = (if unsign then x < y else sint x < sint y) in
      if cc_pp_is op '','' then Some b
      else if \<not> run then result 0
      else if cc_pp_is op ''+'' then result (x + y)
      else if cc_pp_is op ''-'' then result (x - y)
      else if cc_pp_is op ''*'' then result (x * y)
      else if cc_pp_is op ''&'' then result (x AND y)
      else if cc_pp_is op ''|'' then result (x OR y)
      else if cc_pp_is op ''^'' then result (x XOR y)
      else if cc_pp_is op ''&&'' then result (of_bool64 (x \<noteq> 0 \<and> y \<noteq> 0))
      else if cc_pp_is op ''||'' then result (of_bool64 (x \<noteq> 0 \<or> y \<noteq> 0))
      else if cc_pp_is op ''=='' then result (of_bool64 (x = y))
      else if cc_pp_is op ''!='' then result (of_bool64 (x \<noteq> y))
      else if shift then
        (if y \<ge> 64 then None
         else if cc_pp_is op ''<<'' then result (push_bit (unat y) x)
         else if val_unsign a then result (drop_bit (unat y) x)
         else result (signed_drop_bit (unat y) x))
      else if cc_pp_is op ''/'' \<or> cc_pp_is op ''%'' then
        (if y = 0 \<or> \<not> unsign \<and> x = push_bit 63 1 \<and> y = - 1 then None
         else if unsign then result (if cc_pp_is op ''/'' then x div y else x mod y)
         else result (if cc_pp_is op ''/'' then word_of_int (sint x sdiv sint y) else word_of_int (sint x smod sint y)))
      else if cc_pp_is op ''<'' then result (of_bool64 less)
      else if cc_pp_is op ''<='' then result (of_bool64 (less \<or> x = y))
      else if cc_pp_is op ''>'' then result (of_bool64 (\<not> less \<and> x \<noteq> y))
      else if cc_pp_is op ''>='' then result (of_bool64 (\<not> less))
      else None)"

section \<open>The evaluator\<close>

text \<open>Where the evaluation stands: the token at hand and the reader behind it.\<close>

type_synonym pp_eval = "pp_token \<times> pp_reader"

definition cc_pp_eval_next :: "pp_eval \<Rightarrow> pp_eval res" where
  "cc_pp_eval_next e = (case cc_pp_next False (snd e) of (t, r) \<Rightarrow> if rd_failed r then stopped else Done (t, r))"

definition unary_operator :: "pp_token \<Rightarrow> bool \<Rightarrow> pp_value \<Rightarrow> pp_value" where
  "unary_operator t run v =
     (if cc_pp_is t ''!'' then signed_value (of_bool64 (run \<and> val_bits v = 0))
      else if run \<and> cc_pp_is t ''-'' then v\<lparr>val_bits := 0 - val_bits v\<rparr>
      else if run \<and> cc_pp_is t ''~'' then v\<lparr>val_bits := NOT (val_bits v)\<rparr>
      else v)"

definition is_unary :: "pp_token \<Rightarrow> bool" where
  "is_unary t \<longleftrightarrow> cc_pp_is t ''+'' \<or> cc_pp_is t ''-'' \<or> cc_pp_is t ''!'' \<or> cc_pp_is t ''~''"

fun cc_pp_unary :: "pp \<Rightarrow> nat \<Rightarrow> nat \<Rightarrow> bool \<Rightarrow> pp_eval \<Rightarrow> (pp_value \<times> pp_eval) res"
and cc_pp_evaluate :: "pp \<Rightarrow> nat \<Rightarrow> nat \<Rightarrow> nat \<Rightarrow> bool \<Rightarrow> pp_eval \<Rightarrow> (pp_value \<times> pp_eval) res"
and operators :: "pp \<Rightarrow> nat \<Rightarrow> nat \<Rightarrow> nat \<Rightarrow> bool \<Rightarrow> pp_value \<Rightarrow> pp_eval \<Rightarrow> (pp_value \<times> pp_eval) res" where
  "cc_pp_unary st 0 fuel run e = stopped"
| "cc_pp_unary st (Suc level) fuel run e =
     (let t = fst e in
      if cc_pp_is t ''('' then
        andthen (cc_pp_eval_next e) (\<lambda>e.
          andthen (cc_pp_evaluate st level fuel 1 run e) (\<lambda>(v, e).
            if \<not> cc_pp_is (fst e) '')'' then stopped
            else andthen (cc_pp_eval_next e) (\<lambda>e. Done (v, e))))
      else if is_unary t then
        andthen (cc_pp_eval_next e) (\<lambda>e.
          andthen (cc_pp_unary st level fuel run e) (\<lambda>(v, e). Done (unary_operator t run v, e)))
      else
        andthen (of_option (cc_pp_constant st t)) (\<lambda>v.
          andthen (cc_pp_eval_next e) (\<lambda>e. Done (if run then v else v\<lparr>val_bits := 0\<rparr>, e))))"
| "cc_pp_evaluate st 0 fuel minimum run e = stopped"
| "cc_pp_evaluate st (Suc level) fuel minimum run e =
     andthen (cc_pp_unary st level fuel run e) (\<lambda>(v, e). operators st level fuel minimum run v e)"
| "operators st level 0 minimum run v e = (if cc_pp_precedence (fst e) < minimum then Done (v, e) else Undefined)"
| "operators st level (Suc fuel) minimum run v e =
     (let op = fst e; priority = cc_pp_precedence op; selected = (val_bits v \<noteq> 0) in
      if priority < minimum then Done (v, e)
      else
        andthen (cc_pp_eval_next e) (\<lambda>e.
          if cc_pp_is op ''?'' then
            (if cc_pp_is (fst e) '':'' then stopped
             else
               andthen (cc_pp_evaluate st level fuel 1 (run \<and> selected) e) (\<lambda>(a, e).
                 if \<not> cc_pp_is (fst e) '':'' then stopped
                 else
                   andthen (cc_pp_eval_next e) (\<lambda>e.
                     andthen (cc_pp_evaluate st level fuel priority (run \<and> \<not> selected) e) (\<lambda>(b, e).
                       operators st level fuel minimum run
                         \<lparr>val_bits = (if selected then val_bits a else val_bits b),
                          val_unsign = (val_unsign a \<or> val_unsign b)\<rparr> e))))
          else
            let right_run = (run \<and> \<not> (cc_pp_is op ''&&'' \<and> \<not> selected) \<and> \<not> (cc_pp_is op ''||'' \<and> selected)) in
            andthen (cc_pp_evaluate st level fuel (priority + 1) right_run e) (\<lambda>(b, e).
              andthen (of_option (cc_pp_binary op v b run)) (\<lambda>v.
                operators st level fuel minimum run v e))))"

end
