(* ===== verification/PpDirectives.thy ===== *)
theory PpDirectives
  imports PpCondition
begin

text \<open>
  The directives and the main loop: cc_pp_flush, cc_pp_flush_prefix, cc_pp_directive and
  cc_preprocess_macros of runtime/copy_c/preprocess_macros.h, the condition lines and groups of
  preprocess_condition.h and the directives of preprocess_include.h. A directive reads from the
  reader it is given and returns it; \<open>stopped\<close> ends the whole run with -1. The group on top of
  the array of open groups is the head of \<open>pp_groups\<close>.
\<close>

section \<open>Flushing\<close>

fun emit_tokens :: "pp_token list \<Rightarrow> pp \<Rightarrow> pp option" where
  "emit_tokens [] st = Some st"
| "emit_tokens (t # ts) st = do { st \<leftarrow> cc_pp_emit t st; emit_tokens ts st }"

definition cc_pp_rescan :: "nat \<Rightarrow> rescan_fun" where
  "cc_pp_rescan fuel ns st = andthen (cc_pp_rescan_depth fuel False 0 ns st) (\<lambda>(done, _, st). Done (done, st))"

definition cc_pp_flush :: "nat \<Rightarrow> pp_node list \<Rightarrow> pp \<Rightarrow> pp res" where
  "cc_pp_flush fuel ns st =
     andthen (cc_pp_rescan fuel ns st) (\<lambda>(done, st).
       andthen (of_option (emit_tokens (map nd_token done) st)) (\<lambda>st. Done (cc_pp_list_release done st)))"

text \<open>What is left begins with the call that is not complete yet.\<close>

definition cc_pp_flush_prefix :: "nat \<Rightarrow> pp_node list \<Rightarrow> pp \<Rightarrow> (pp_node list \<times> pp) res" where
  "cc_pp_flush_prefix fuel ns st =
     andthen (cc_pp_rescan_depth fuel True 0 ns st) (\<lambda>(done, blocked, st).
       andthen (of_option (emit_tokens (map nd_token done) st)) (\<lambda>st. Done (blocked, cc_pp_list_release done st)))"

section \<open>Lines\<close>

definition line_end :: "pp_token \<Rightarrow> bool" where
  "line_end t \<longleftrightarrow> tok_kind t = 0 \<or> tok_kind t = kind_newline"

function skip_line :: "pp_reader \<Rightarrow> pp_reader option" where
  "skip_line r =
     (case cc_pp_next True r of (t, r1) \<Rightarrow>
        if rd_failed r1 then None else if line_end t then Some r1 else skip_line r1)"
  by auto
termination
  by (relation "measure (\<lambda>r. length (rd_text r) - rd_at r)")
    (auto simp: line_end_def dest: cc_pp_next_less [OF sym])

declare skip_line.simps [simp del]

definition cc_pp_skip_line :: "pp_reader \<Rightarrow> pp \<Rightarrow> (pp_reader \<times> pp) res" where
  "cc_pp_skip_line r st = andthen (of_option (skip_line r)) (\<lambda>r. Done (r, st))"

text \<open>The tokens up to the end of the line.\<close>

function line_tokens :: "pp \<Rightarrow> pp_reader \<Rightarrow> (pp_token list \<times> pp_reader) option" where
  "line_tokens st r =
     (case pp_next st r of (t, r1) \<Rightarrow>
        if rd_failed r1 then None
        else if line_end t then Some ([], r1)
        else map_option (\<lambda>(ts, r). (t # ts, r)) (line_tokens st r1))"
  by auto
termination
  by (relation "measure (\<lambda>(st, r). length (rd_text r) - rd_at r)")
    (auto simp: line_end_def dest: pp_next_less [OF sym])

declare line_tokens.simps [simp del]

text \<open>Nothing but the end of the line.\<close>

definition ends_line :: "pp_reader \<Rightarrow> pp \<Rightarrow> (pp_reader \<times> pp) res" where
  "ends_line r st =
     (case pp_next st r of (t, r) \<Rightarrow> if \<not> line_end t \<or> rd_failed r then stopped else Done (r, st))"

section \<open>Conditions\<close>

lemma cc_pp_next_at: "cc_pp_next skipping r = (t, r') \<Longrightarrow> rd_at r \<le> length (rd_text r) \<Longrightarrow> rd_at r \<le> tok_at t"
  by (auto simp: cc_pp_next_def Let_def split: option.splits if_splits dest!: skip_layout_suffix suffix_length_le)

lemma cc_pp_condition_token_less:
  assumes "cc_pp_condition_token st r state = (t, r', state')" and "tok_kind t \<noteq> 0"
  shows "length (rd_text r') - rd_at r' < length (rd_text r) - rd_at r"
proof (cases "rd_at r \<le> length (rd_text r)")
  case True
  obtain first r1 where n: "pp_next st r = (first, r1)" by fastforce
  have le: "rd_at r \<le> tok_at first"
    by (rule cc_pp_next_at [OF n [unfolded pp_next_def] True])
  show ?thesis
    using assms n le pp_next_less [of st r t r']
    by (auto simp: cc_pp_condition_token_def Let_def empty_token_def split: if_splits prod.splits)
next
  case False
  then show ?thesis using assms
    by (auto simp: cc_pp_condition_token_def pp_next_def cc_pp_next_def Let_def split: if_splits)
qed

text \<open>The operand of \<open>defined\<close>: the name, with or without parentheses.\<close>

definition defined_name :: "pp \<Rightarrow> pp_reader \<Rightarrow> (pp_token \<times> pp_reader) option" where
  "defined_name st r =
     (let (t, r1) = pp_next st r; parens = cc_pp_is t ''('';
          (name, r2) = (if parens then pp_next st r1 else (t, r1)) in
      if tok_kind name \<noteq> CC_PP_IDENT then None
      else if parens then (case pp_next st r2 of (close, r3) \<Rightarrow> if cc_pp_is close '')'' then Some (name, r3) else None)
      else Some (name, r2))"

lemma defined_name_le:
  "defined_name st r = Some (name, r') \<Longrightarrow> length (rd_text r') - rd_at r' \<le> length (rd_text r) - rd_at r"
  by (auto simp: defined_name_def Let_def split: prod.splits if_splits dest!: pp_next_le)

function condition_tokens :: "pp \<Rightarrow> pp_reader \<Rightarrow> nat \<Rightarrow> (pp_token list \<times> pp_reader) option" where
  "condition_tokens st r state =
     (case cc_pp_condition_token st r state of (t, r1, state1) \<Rightarrow>
        if rd_failed r1 then None
        else if line_end t then Some ([], r1)
        else if cc_pp_is t ''defined'' then
          (case defined_name st r1 of
             None \<Rightarrow> None
           | Some (name, r2) \<Rightarrow>
               map_option (\<lambda>(ts, r). (digit_token (cc_pp_is_defined st name) # ts, r)) (condition_tokens st r2 0))
        else map_option (\<lambda>(ts, r). (t # ts, r)) (condition_tokens st r1 state1))"
  by auto
termination
proof (relation "measure (\<lambda>(st, r, state). length (rd_text r) - rd_at r)", goal_cases)
  case (2 st r state t rest r1 state1 p name r2)
  then show ?case
    by (auto simp: line_end_def dest!: defined_name_le cc_pp_condition_token_less [OF sym])
next
  case (3 st r state t rest r1 state1)
  then show ?case
    by (auto simp: line_end_def dest!: cc_pp_condition_token_less [OF sym])
qed simp

declare condition_tokens.simps [simp del]

text \<open>The value of an expression, a text; \<open>level\<close> and \<open>fuel\<close> as in the evaluator.\<close>

definition expression_value :: "pp \<Rightarrow> mem \<Rightarrow> u64 res" where
  "expression_value st text =
     andthen (cc_pp_eval_next (empty_token, \<lparr>rd_text = text, rd_at = 0, rd_failed = False\<rparr>)) (\<lambda>e.
       andthen (cc_pp_evaluate st 64 (length text + 1) 1 True e) (\<lambda>(v, e).
         if tok_kind (fst e) \<noteq> 0 then stopped else Done (val_bits v)))"

definition cc_pp_condition_line_run :: "nat \<Rightarrow> pp_reader \<Rightarrow> pp \<Rightarrow> (bool \<times> pp_reader \<times> pp) res" where
  "cc_pp_condition_line_run fuel r st =
     (let st = st\<lparr>pp_skipping := False\<rparr>; start = length (pp_output st) in
      andthen (of_option (condition_tokens st r 0)) (\<lambda>(ts, r).
        andthen (of_option (cc_pp_node_new ts st)) (\<lambda>(nodes, st).
          andthen (cc_pp_flush fuel nodes st) (\<lambda>st.
            andthen (expression_value st (drop start (pp_output st))) (\<lambda>bits.
              Done (bits \<noteq> 0, r, st\<lparr>pp_output := take start (pp_output st)\<rparr>))))))"

definition cc_pp_condition_line :: "nat \<Rightarrow> pp_reader \<Rightarrow> bool \<Rightarrow> pp \<Rightarrow> (bool \<times> pp_reader \<times> pp) res" where
  "cc_pp_condition_line fuel r run st =
     (if run then
        andthen (cc_pp_condition_line_run fuel r (st\<lparr>pp_in_condition := True\<rparr>)) (\<lambda>(truth, r, st1).
          Done (truth, r, st1\<lparr>pp_in_condition := pp_in_condition st\<rparr>))
      else andthen (cc_pp_skip_line r st) (\<lambda>(r, st). Done (False, r, st)))"

text \<open>The operations on the groups; the top is looked at only when there is one.\<close>

definition top_group :: "pp \<Rightarrow> pp_group" where
  "top_group st = (case pp_groups st of g # _ \<Rightarrow> g
     | [] \<Rightarrow> \<lparr>gr_parent = True, gr_taken = False, gr_active = True, gr_saw_else = False\<rparr>)"

definition open_group :: "bool \<Rightarrow> pp \<Rightarrow> pp" where
  "open_group truth st =
     (let active = (pp_enabled st \<and> truth) in
      st\<lparr>pp_groups := \<lparr>gr_parent = pp_enabled st, gr_taken = truth, gr_active = active, gr_saw_else = False\<rparr> # pp_groups st,
         pp_enabled := active\<rparr>)"

definition set_group :: "pp_group \<Rightarrow> pp \<Rightarrow> pp" where
  "set_group g st = st\<lparr>pp_groups := g # tl (pp_groups st), pp_enabled := gr_active g\<rparr>"

definition elif_group :: "bool \<Rightarrow> pp_group \<Rightarrow> pp_group" where
  "elif_group truth g =
     (let active = (gr_parent g \<and> \<not> gr_taken g \<and> truth) in g\<lparr>gr_active := active, gr_taken := gr_taken g \<or> active\<rparr>)"

definition else_group :: "pp_group \<Rightarrow> pp_group" where
  "else_group g = g\<lparr>gr_saw_else := True, gr_active := gr_parent g \<and> \<not> gr_taken g, gr_taken := True\<rparr>"

definition close_group :: "pp \<Rightarrow> pp" where
  "close_group st = st\<lparr>pp_enabled := gr_parent (top_group st), pp_groups := tl (pp_groups st)\<rparr>"

text \<open>\<open>None\<close>: not a conditional directive.\<close>

definition cc_pp_condition_directive :: "nat \<Rightarrow> pp_reader \<Rightarrow> pp_token \<Rightarrow> pp \<Rightarrow> (pp_reader \<times> pp) res option" where
  "cc_pp_condition_directive fuel r d st =
     (let if_def = cc_pp_is d ''ifdef''; if_ndef = cc_pp_is d ''ifndef''; top = top_group st;
          full = (length (pp_groups st) = 64); none = (length (pp_groups st) = pp_group_floor st) in
      if cc_pp_is d ''if'' then
        Some (if full then stopped
          else andthen (cc_pp_condition_line fuel r (pp_enabled st) st) (\<lambda>(truth, r, st). Done (r, open_group truth st)))
      else if if_def \<or> if_ndef then
        Some (if full then stopped
          else if pp_enabled st then
            (case pp_next st r of (name, r) \<Rightarrow>
               if tok_kind name \<noteq> CC_PP_IDENT then stopped
               else andthen (ends_line r st) (\<lambda>(r, st).
                 Done (r, open_group (if if_ndef then \<not> cc_pp_is_defined st name else cc_pp_is_defined st name) st)))
          else andthen (cc_pp_skip_line r st) (\<lambda>(r, st). Done (r, open_group False st)))
      else if cc_pp_is d ''elif'' then
        Some (if none \<or> gr_saw_else top then stopped
          else andthen (cc_pp_condition_line fuel r (gr_parent top \<and> \<not> gr_taken top) st) (\<lambda>(truth, r, st).
            Done (r, set_group (elif_group truth top) st)))
      else if cc_pp_is d ''else'' then
        Some (if none then stopped
          else andthen (ends_line r st) (\<lambda>(r, st).
            if gr_saw_else top then stopped else Done (r, set_group (else_group top) st)))
      else if cc_pp_is d ''endif'' then
        Some (if none then stopped else andthen (ends_line r st) (\<lambda>(r, st). Done (r, close_group st)))
      else None)"

end
