(* ===== verification/PpLex.thy ===== *)
theory PpLex
  imports PpDirectives
begin

text \<open>
  What the preprocessor prints can be read back. A token is self-contained (\<open>token_ok\<close>) when its
  bytes alone are that token; every token that is read is, and a self-contained token is read
  back when blanks stand before it and a blank, a line end or nothing behind it. So the output of
  a condition line, on which the evaluator runs, is the list of tokens that was emitted.
\<close>

section \<open>Forms of tokens\<close>

definition quoted :: "mem \<Rightarrow> bool" where
  "quoted xs \<longleftrightarrow> (let ys = drop (prefix_length xs) xs in ys \<noteq> [] \<and> (hd ys = 34 \<or> hd ys = 39))"

text \<open>The list can stand behind a token.\<close>

definition separates :: "mem \<Rightarrow> mem \<Rightarrow> bool" where
  "separates text rest \<longleftrightarrow> rest = [] \<or> hd rest = 32 \<or> text = [10]"

lemma quoted_append: "quoted xs \<Longrightarrow> quoted (xs @ ys) \<and> prefix_length (xs @ ys) = prefix_length xs"
  by (cases xs; cases "tl xs"; cases "tl (tl xs)"; cases ys) (auto simp: quoted_def prefix_length_def Let_def split: list.splits if_splits)

lemma quoted_separated: "xs \<noteq> [] \<Longrightarrow> separates xs ys \<Longrightarrow> quoted (xs @ ys) \<Longrightarrow> quoted xs"
  by (cases xs; cases "tl xs"; cases "tl (tl xs)"; cases ys; cases "tl ys")
    (auto simp: quoted_def prefix_length_def separates_def Let_def split: list.splits if_splits)

lemma literal_rest_append: "literal_rest False q xs = Some [] \<Longrightarrow> literal_rest False q (xs @ ys) = Some ys"
  by (induction "False" q xs rule: literal_rest.induct) (auto split: if_splits list.splits)

lemma literal_rest_split:
  "literal_rest False q xs = Some ys \<Longrightarrow> \<exists>zs. xs = zs @ ys \<and> zs \<noteq> [] \<and> literal_rest False q zs = Some []"
proof (induction "False" q xs rule: literal_rest.induct)
  case (2 q c cs)
  show ?case
  proof (cases "c = q")
    case True
    then show ?thesis using 2 by (intro exI [of _ "[c]"]) auto
  next
    case c: False
    show ?thesis
    proof (cases "c = 92")
      case True
      then obtain d ds where ds: "cs = d # ds" "d \<noteq> 0" "literal_rest False q ds = Some ys"
        using 2 c by (auto split: list.splits if_splits)
      then obtain zs where "ds = zs @ ys \<and> zs \<noteq> [] \<and> literal_rest False q zs = Some []"
        using 2(1) [OF c] True by auto
      then show ?thesis using ds c True by (intro exI [of _ "c # d # zs"]) auto
    next
      case False
      then obtain zs where "cs = zs @ ys \<and> zs \<noteq> [] \<and> literal_rest False q zs = Some []"
        using 2 c by (auto split: if_splits)
      then show ?thesis using 2(3) c False by (intro exI [of _ "c # zs"]) (auto split: if_splits)
    qed
  qed
qed simp

lemma number_rest_split: "\<exists>zs. xs = zs @ number_rest p xs \<and> number_rest p zs = []"
proof (induction p xs rule: number_rest.induct)
  case (2 p c cs)
  then show ?case
    by (cases "number_rest p (c # cs) = c # cs") (auto split: if_splits intro: exI [of _ "c # _"])
qed simp

lemma number_rest_append:
  "number_rest p xs = [] \<Longrightarrow> ys = [] \<or> hd ys = 32 \<Longrightarrow> number_rest p (xs @ ys) = ys"
proof (induction p xs rule: number_rest.induct)
  case (1 p)
  then show ?case by (cases ys) (auto simp: cc_pp_name_def cc_pp_digit_def)
qed (auto split: if_splits)

section \<open>Self-contained tokens\<close>

lemma token_end_quoted:
  "token_end skipping rest =
     (if quoted rest then map_option (\<lambda>after. (CC_PP_LITERAL, after))
        (literal_rest skipping (hd (drop (prefix_length rest) rest)) (tl (drop (prefix_length rest) rest)))
      else if cc_pp_name (hd rest) then Some (CC_PP_IDENT, dropWhile (\<lambda>b. cc_pp_name b \<or> cc_pp_digit b) (tl rest))
      else if cc_pp_digit (hd rest) \<or> hd rest = 46 \<and> length rest \<ge> 2 \<and> cc_pp_digit (rest ! 1)
      then Some (CC_PP_NUMBER, number_rest (hd rest) (tl rest))
      else if hd rest = 0 then None
      else Some (unat (hd rest), drop (operator_length rest) rest))"
  by (auto simp: token_end_def quoted_def Let_def split: option.splits)

lemma operator_length_bounds: "rest \<noteq> [] \<Longrightarrow> 0 < operator_length rest \<and> operator_length rest \<le> length rest"
  by (cases rest) (auto simp: operator_length_def Suc_le_eq)

lemma operator_pairs_head: "[c, d] \<in> set operator_pairs \<Longrightarrow> d \<noteq> 32 \<and> c \<noteq> 10"
  by (auto simp: operator_pairs_def bytes_of_def)

lemma operator_length_take: "rest \<noteq> [] \<Longrightarrow> operator_length (take (operator_length rest) rest) = operator_length rest"
  by (cases rest; cases "tl rest"; cases "tl (tl rest)") (auto simp: operator_length_def)

lemma operator_length_append:
  assumes "tk \<noteq> []" and "operator_length tk = length tk" and "separates tk rest"
  shows "operator_length (tk @ rest) = length tk"
  using assms
  by (cases tk; cases "tl tk"; cases "tl (tl tk)"; cases rest; cases "tl rest")
    (auto simp: operator_length_def separates_def split: if_splits dest: operator_pairs_head)

lemma prefix_length_take: "prefix_length (take 3 xs) = prefix_length xs"
  by (cases xs; cases "tl xs"; cases "tl (tl xs)") (auto simp: prefix_length_def numeral_3_eq_3)

text \<open>The stretch that a token takes is that token.\<close>

lemma token_end_only:
  assumes "token_end False rest = Some (kind, after)" and "rest \<noteq> []"
  shows "\<exists>tk. rest = tk @ after \<and> token_end False tk = Some (kind, [])"
proof -
  have pair: "token_end False tk = Some (kind, []) \<Longrightarrow> rest = tk @ after \<Longrightarrow> ?thesis" for tk by blast
  let ?p = "prefix_length rest" and ?q = "hd (drop (prefix_length rest) rest)"
  consider "quoted rest" | "\<not> quoted rest" "cc_pp_name (hd rest)"
    | "\<not> quoted rest" "\<not> cc_pp_name (hd rest)" "cc_pp_digit (hd rest) \<or> hd rest = 46 \<and> length rest \<ge> 2 \<and> cc_pp_digit (rest ! 1)"
    | "\<not> quoted rest" "\<not> cc_pp_name (hd rest)" "\<not> (cc_pp_digit (hd rest) \<or> hd rest = 46 \<and> length rest \<ge> 2 \<and> cc_pp_digit (rest ! 1))"
    by blast
  then show ?thesis
  proof cases
    case 1
    then have "literal_rest False ?q (tl (drop ?p rest)) = Some after" and k: "kind = CC_PP_LITERAL"
      using assms by (auto simp: token_end_quoted)
    then obtain zs where zs: "tl (drop ?p rest) = zs @ after" "zs \<noteq> []" "literal_rest False ?q zs = Some []"
      using literal_rest_split by blast
    have "drop ?p rest = ?q # zs @ after" using 1 zs(1) by (simp add: quoted_def Let_def list.expand)
    then have rest: "rest = (take ?p rest @ ?q # zs) @ after"
      by (metis append.assoc append_Cons append_take_drop_id)
    define tk where "tk = take ?p rest @ ?q # zs"
    have tk: "rest = tk @ after" using rest by (simp add: tk_def)
    have "?p \<le> length rest" by (auto simp: prefix_length_def split: list.splits)
    then have "drop ?p tk = ?q # zs" by (simp add: tk_def)
    moreover have "?p = prefix_length tk"
    proof (cases "?p = 0")
      case True
      then have "tk = ?q # zs" "?q = 34 \<or> ?q = 39" using 1 by (auto simp: tk_def quoted_def Let_def)
      then have "prefix_length tk = 0" by (auto simp only: prefix_length_def list.case) (auto split: list.split)
      with True show ?thesis by simp
    next
      case False
      have "length tk = ?p + 1 + length zs" using \<open>?p \<le> length rest\<close> by (simp add: tk_def)
      then have "3 \<le> length tk" using False zs(2) by (cases zs) auto
      then have "take 3 (tk @ after) = take 3 tk" by simp
      then show ?thesis using tk by (metis prefix_length_take)
    qed
    ultimately show ?thesis
      using 1 zs k by (intro pair [OF _ tk]) (auto simp: token_end_quoted quoted_def Let_def)
  next
    case 2
    let ?P = "\<lambda>b. cc_pp_name b \<or> cc_pp_digit b"
    have rest: "rest = (hd rest # takeWhile ?P (tl rest)) @ after" and k: "kind = CC_PP_IDENT"
      using 2 assms by (auto simp: token_end_quoted)
    have "\<not> quoted (hd rest # takeWhile ?P (tl rest))" using 2(1) rest quoted_append by metis
    then show ?thesis using 2(2) k
      by (intro pair [OF _ rest]) (auto simp: token_end_quoted dropWhile_eq_Nil_conv dest: set_takeWhileD)
  next
    case 3
    have after: "number_rest (hd rest) (tl rest) = after" and k: "kind = CC_PP_NUMBER"
      using 3 assms by (auto simp: token_end_quoted)
    obtain zs where zs: "tl rest = zs @ after" "number_rest (hd rest) zs = []"
      using number_rest_split after by metis
    then have rest: "rest = (hd rest # zs) @ after" using assms(2) by (metis append_Cons hd_Cons_tl)
    have "\<not> quoted (hd rest # zs)" using 3(1) rest quoted_append by metis
    moreover have "zs \<noteq> [] \<and> zs ! 0 = rest ! 1" if d: "length rest \<ge> 2" "cc_pp_digit (rest ! 1)"
    proof -
      obtain c d ds where "rest = c # d # ds" using d(1) by (cases rest; cases "tl rest") auto
      moreover have "number_rest d ds \<noteq> d # ds"
        using suffix_length_le [OF number_rest_suffix [of d ds]] by auto
      ultimately show ?thesis using zs d(2) after by (cases zs) auto
    qed
    ultimately show ?thesis using 3 zs(2) k
      by (intro pair [OF _ rest]) (auto simp: token_end_quoted Suc_le_eq)
  next
    case 4
    let ?n = "operator_length rest"
    have after: "drop ?n rest = after" and k: "kind = unat (hd rest)" and c: "hd rest \<noteq> 0"
      using 4 assms by (auto simp: token_end_quoted split: if_splits)
    have n: "0 < ?n" "?n \<le> length rest" using operator_length_bounds [OF assms(2)] by auto
    have rest: "rest = take ?n rest @ after" using after by (metis append_take_drop_id)
    have "\<not> quoted (take ?n rest)" using 4(1) rest quoted_append by metis
    moreover have "hd (take ?n rest) = hd rest" using n(1) by simp
    moreover have "length (take ?n rest) \<ge> 2 \<Longrightarrow> take ?n rest ! 1 = rest ! 1" by simp
    moreover have "drop (operator_length (take ?n rest)) (take ?n rest) = []"
      by (simp add: operator_length_take [OF assms(2)])
    ultimately show ?thesis using 4(2,3) k c n
      by (intro pair [OF _ rest]) (auto simp: token_end_quoted)
  qed
qed

lemma token_end_append:
  assumes "token_end False tk = Some (kind, [])" and "tk \<noteq> []" and "separates tk rest"
  shows "token_end False (tk @ rest) = Some (kind, rest)"
proof -
  have sep: "rest = [] \<or> hd rest = 32" if "tk \<noteq> [10]" using assms(3) that by (auto simp: separates_def)
  have stop: "dropWhile (\<lambda>b. cc_pp_name b \<or> cc_pp_digit b) rest = rest" if "rest = [] \<or> hd rest = 32"
    using that by (cases rest) (auto simp: cc_pp_name_def cc_pp_digit_def)
  have hd: "hd (tk @ rest) = hd tk" "tl (tk @ rest) = tl tk @ rest" using assms(2) by simp_all
  consider "quoted tk" | "\<not> quoted tk" "cc_pp_name (hd tk)"
    | "\<not> quoted tk" "\<not> cc_pp_name (hd tk)" "cc_pp_digit (hd tk) \<or> hd tk = 46 \<and> length tk \<ge> 2 \<and> cc_pp_digit (tk ! 1)"
    | "\<not> quoted tk" "\<not> cc_pp_name (hd tk)" "\<not> (cc_pp_digit (hd tk) \<or> hd tk = 46 \<and> length tk \<ge> 2 \<and> cc_pp_digit (tk ! 1))"
    by blast
  then show ?thesis
  proof cases
    case 1
    let ?p = "prefix_length tk"
    have "?p \<le> length tk" by (auto simp: prefix_length_def split: list.splits)
    then have "drop ?p (tk @ rest) = drop ?p tk @ rest" by simp
    moreover have "literal_rest False (hd (drop ?p tk)) (tl (drop ?p tk)) = Some []" "kind = CC_PP_LITERAL"
      using 1 assms(1) by (auto simp: token_end_quoted)
    moreover have "drop ?p tk \<noteq> []" using 1 by (auto simp: quoted_def Let_def)
    ultimately show ?thesis
      using quoted_append [OF 1, of rest] by (simp add: token_end_quoted literal_rest_append)
  next
    case 2
    have nq: "\<not> quoted (tk @ rest)" using 2(1) quoted_separated [OF assms(2,3)] by blast
    have "tk \<noteq> [10]" using 2(2) by (auto simp: cc_pp_name_def)
    moreover have "\<forall>b\<in>set (tl tk). cc_pp_name b \<or> cc_pp_digit b" "kind = CC_PP_IDENT"
      using 2 assms(1) by (auto simp: token_end_quoted dropWhile_eq_Nil_conv)
    ultimately show ?thesis using nq 2(2) sep stop
      by (simp add: token_end_quoted hd dropWhile_append2)
  next
    case 3
    have nq: "\<not> quoted (tk @ rest)" using 3(1) quoted_separated [OF assms(2,3)] by blast
    have "tk \<noteq> [10]" using 3(3) by (auto simp: cc_pp_digit_def)
    moreover have "number_rest (hd tk) (tl tk) = []" "kind = CC_PP_NUMBER"
      using 3 assms(1) by (auto simp: token_end_quoted)
    moreover have "length tk \<ge> 2 \<Longrightarrow> (tk @ rest) ! 1 = tk ! 1" by (simp add: nth_append)
    ultimately show ?thesis using nq 3(2,3) sep
      by (auto simp: token_end_quoted hd number_rest_append)
  next
    case 4
    have nq: "\<not> quoted (tk @ rest)" using 4(1) quoted_separated [OF assms(2,3)] by blast
    have op: "drop (operator_length tk) tk = []" and k: "kind = unat (hd tk)" "hd tk \<noteq> 0"
      using 4 assms(1) by (auto simp: token_end_quoted split: if_splits)
    have len: "operator_length tk = length tk" using op operator_length_bounds [OF assms(2)] by simp
    have "\<not> (hd tk = 46 \<and> cc_pp_digit ((tk @ rest) ! 1) \<and> 2 \<le> length (tk @ rest))"
    proof (cases "length tk \<ge> 2")
      case True
      then show ?thesis using 4(3) by (auto simp: nth_append)
    next
      case False
      then have "length tk = 1" using assms(2) by (cases tk) (auto simp: not_le Suc_le_eq)
      moreover have "hd tk = 46 \<Longrightarrow> tk \<noteq> [10]" by auto
      ultimately show ?thesis using sep by (cases rest) (auto simp: nth_append cc_pp_digit_def)
    qed
    then show ?thesis
      using nq 4(2,3) k operator_length_append [OF assms(2) len assms(3)]
      by (auto simp: token_end_quoted hd)
  qed
qed

definition token_ok :: "pp_token \<Rightarrow> bool" where
  "token_ok t \<longleftrightarrow> tok_text t \<noteq> [] \<and> \<not> blank (hd (tok_text t)) \<and> token_end False (tok_text t) = Some (tok_kind t, [])"

lemma token_ok_newline: "token_ok t \<Longrightarrow> tok_kind t = kind_newline \<Longrightarrow> tok_text t = [10]"
proof -
  assume ok: "token_ok t" and k: "tok_kind t = kind_newline"
  let ?tk = "tok_text t"
  have e: "token_end False ?tk = Some (10, [])" "?tk \<noteq> []" using ok k by (auto simp: token_ok_def)
  then have "unat (hd ?tk) = 10" "drop (operator_length ?tk) ?tk = []"
    by (auto simp: token_end_quoted split: if_splits)
  moreover from this(1) have "hd ?tk = 10" by (simp add: word_unat_eq_iff)
  moreover have "operator_length ?tk = 1" if "hd ?tk = 10"
    using e(2) that by (cases ?tk; cases "tl ?tk") (auto simp: operator_length_def dest: operator_pairs_head)
  ultimately show "?tk = [10]" using e(2) by (cases ?tk) auto
qed

lemma skip_layout_head: "skip_layout xs = Some ys \<Longrightarrow> ys \<noteq> [] \<Longrightarrow> \<not> blank (hd ys)"
  by (induction xs rule: skip_layout.induct) (auto split: if_splits option.splits)

lemma cc_pp_next_ok:
  assumes "cc_pp_next False r = (t, r')" and "tok_kind t \<noteq> 0"
  shows "token_ok t"
proof -
  obtain rest kind after where s: "skip_layout (drop (rd_at r) (rd_text r)) = Some rest" "rest \<noteq> []"
      "token_end False rest = Some (kind, after)" and t: "tok_text t = take (length rest - length after) rest" "tok_kind t = kind"
    using assms by (auto simp: cc_pp_next_def Let_def split: option.splits if_splits)
  obtain tk where tk: "rest = tk @ after" "token_end False tk = Some (kind, [])"
    using token_end_only [OF s(3,2)] by blast
  have "tk \<noteq> []" using token_end_suffix(1) [OF s(3,2)] tk(1) by (auto simp: strict_suffix_def)
  then show ?thesis using tk t skip_layout_head [OF s(1,2)] by (auto simp: token_ok_def)
qed

lemma skip_layout_blanks: "\<forall>b\<in>set ws. blank b \<Longrightarrow> skip_layout (ws @ xs) = skip_layout xs"
  by (induction ws) auto

lemma skip_layout_token:
  assumes "token_ok t" and "separates (tok_text t) rest"
  shows "skip_layout (tok_text t @ rest) = Some (tok_text t @ rest)"
proof -
  obtain c cs where tk: "tok_text t = c # cs" using assms(1) by (cases "tok_text t") (auto simp: token_ok_def)
  have "\<not> (c = 47 \<and> cs @ rest \<noteq> [] \<and> (hd (cs @ rest) = 47 \<or> hd (cs @ rest) = 42))"
  proof (cases cs)
    case Nil
    then show ?thesis using assms(2) tk by (auto simp: separates_def)
  next
    case (Cons d ds)
    have "token_end False (47 # 47 # ds) \<noteq> Some (k, [])" "token_end False (47 # 42 # ds) \<noteq> Some (k, [])" for k
      by (auto simp: token_end_def prefix_length_def cc_pp_name_def cc_pp_digit_def operator_length_def
          operator_pairs_def bytes_of_def Let_def split: list.splits)
    then show ?thesis using assms(1) tk Cons by (auto simp: token_ok_def)
  qed
  moreover have "\<not> blank c" using assms(1) tk by (simp add: token_ok_def)
  ultimately show ?thesis unfolding tk append_Cons skip_layout.simps by metis
qed

lemma read_token:
  assumes "token_ok t" and "\<forall>b\<in>set ws. blank b" and "separates (tok_text t) rest"
    and "drop (rd_at r) (rd_text r) = ws @ tok_text t @ rest"
  shows "cc_pp_next False r =
    (\<lparr>tok_text = tok_text t, tok_at = rd_at r + length ws, tok_kind = tok_kind t, tok_hidden = 0, tok_space = (ws \<noteq> [])\<rparr>,
     r\<lparr>rd_at := rd_at r + length ws + length (tok_text t)\<rparr>)"
proof -
  have ne: "tok_text t \<noteq> []" using assms(1) by (simp add: token_ok_def)
  then have size: "length (rd_text r) = rd_at r + length ws + length (tok_text t) + length rest"
    using arg_cong [OF assms(4), of length] by (cases "tok_text t") auto
  have "skip_layout (drop (rd_at r) (rd_text r)) = Some (tok_text t @ rest)"
    by (simp add: assms(4) skip_layout_blanks [OF assms(2)] skip_layout_token [OF assms(1,3)])
  moreover have "token_end False (tok_text t @ rest) = Some (tok_kind t, rest)"
    using assms(1,3) by (intro token_end_append) (auto simp: token_ok_def)
  ultimately show ?thesis using ne by (simp add: cc_pp_next_def Let_def size)
qed

section \<open>Printing and reading\<close>

definition token_output :: "pp_token \<Rightarrow> mem" where
  "token_output t = tok_text t @ (if tok_kind t \<noteq> kind_newline then [32] else [])"

lemma emit_output: "cc_pp_emit t st = Some st' \<Longrightarrow> pp_output st' = pp_output st @ token_output t"
  by (auto simp: cc_pp_emit_def token_output_def Let_def split: if_splits)

lemma emit_tokens_output: "emit_tokens ts st = Some st' \<Longrightarrow> pp_output st' = pp_output st @ concat (map token_output ts)"
  by (induction ts arbitrary: st) (auto simp: bind_eq_Some_conv dest!: emit_output)

lemma emit_room:
  "length (pp_output st) + length (token_output t) \<le> CC_PP_OUTPUT \<Longrightarrow>
     cc_pp_emit t st = Some (st\<lparr>pp_output := pp_output st @ token_output t\<rparr>)"
  by (auto simp: cc_pp_emit_def token_output_def Let_def)

lemma emit_tokens_room:
  "length (pp_output st) + length (concat (map token_output ts)) \<le> CC_PP_OUTPUT \<Longrightarrow>
     emit_tokens ts st = Some (st\<lparr>pp_output := pp_output st @ concat (map token_output ts)\<rparr>)"
  by (induction ts arbitrary: st) (auto simp: emit_room)

text \<open>All tokens up to the end of the text.\<close>

function all_tokens :: "pp_reader \<Rightarrow> pp_token list option" where
  "all_tokens r =
     (case cc_pp_next False r of (t, r1) \<Rightarrow>
        if rd_failed r1 then None
        else if tok_kind t = 0 then Some []
        else map_option ((#) t) (all_tokens r1))"
  by auto
termination
  by (relation "measure (\<lambda>r. length (rd_text r) - rd_at r)") (auto dest: cc_pp_next_less [OF sym])

declare all_tokens.simps [simp del]

definition reader_on :: "mem \<Rightarrow> pp_reader" where
  "reader_on s = \<lparr>rd_text = s, rd_at = 0, rd_failed = False\<rparr>"

lemma all_tokens_ok: "all_tokens r = Some ts \<Longrightarrow> t \<in> set ts \<Longrightarrow> token_ok t"
proof (induction r arbitrary: ts rule: all_tokens.induct)
  case (1 r)
  obtain t1 r1 where n: "cc_pp_next False r = (t1, r1)" by fastforce
  show ?case
  proof (cases "rd_failed r1 \<or> tok_kind t1 = 0")
    case True
    then show ?thesis using 1(2,3) n by (subst (asm) all_tokens.simps) (auto split: if_splits)
  next
    case False
    then obtain ts1 where ts: "all_tokens r1 = Some ts1" "ts = t1 # ts1"
      using 1(2) n by (subst (asm) all_tokens.simps) auto
    show ?thesis
    proof (cases "t = t1")
      case True
      then show ?thesis using cc_pp_next_ok [OF n] False by blast
    next
      case t: False
      then show ?thesis using 1(1) [OF n [symmetric]] False ts 1(3) by auto
    qed
  qed
qed

definition spelled :: "pp_token \<Rightarrow> mem \<times> nat" where
  "spelled t = (tok_text t, tok_kind t)"

lemma all_tokens_printed:
  assumes "\<forall>t\<in>set ts. token_ok t" and "\<not> rd_failed r" and "\<forall>b\<in>set ws. blank b"
    and "drop (rd_at r) (rd_text r) = ws @ concat (map token_output ts)"
  shows "\<exists>us. all_tokens r = Some us \<and> map spelled us = map spelled ts"
  using assms
proof (induction ts arbitrary: r ws)
  case Nil
  have "skip_layout (drop (rd_at r) (rd_text r)) = Some []"
    using Nil(4) skip_layout_blanks [OF Nil(3), of "[]"] by simp
  then show ?case using Nil(2) by (subst all_tokens.simps) (simp add: cc_pp_next_def Let_def)
next
  case (Cons t ts)
  define gap where "gap = (if tok_kind t \<noteq> kind_newline then [32 :: u8] else [])"
  have at: "drop (rd_at r) (rd_text r) = ws @ tok_text t @ gap @ concat (map token_output ts)"
    unfolding Cons.prems(4) by (simp add: token_output_def [of t] gap_def)
  have ok: "token_ok t" and sep: "separates (tok_text t) (gap @ concat (map token_output ts))"
    using Cons.prems(1) token_ok_newline [of t] by (auto simp: separates_def gap_def)
  note n = read_token [OF ok Cons.prems(3) sep at]
  let ?r = "r\<lparr>rd_at := rd_at r + length ws + length (tok_text t)\<rparr>"
  have "drop (rd_at ?r) (rd_text ?r) = drop (length ws + length (tok_text t)) (drop (rd_at r) (rd_text r))"
    by (simp add: add.commute add.left_commute)
  then have "drop (rd_at ?r) (rd_text ?r) = gap @ concat (map token_output ts)" by (simp add: at)
  moreover have "\<forall>b\<in>set gap. blank b" by (simp add: gap_def blank_def)
  ultimately obtain us where "all_tokens ?r = Some us" "map spelled us = map spelled ts"
    using Cons.IH [of ?r gap] Cons.prems(1,2) by auto
  moreover have "tok_kind t \<noteq> 0" using ok token_end_suffix(2) by (auto simp: token_ok_def)
  ultimately show ?case using n Cons.prems(2) by (subst all_tokens.simps) (simp add: spelled_def)
qed

text \<open>
  C20. Printing tokens and reading them again is the identity: the tokens of any text that can be
  read, printed each with its separator as \<open>cc_pp_emit\<close> does, are read back with the same
  spellings and kinds. So no two tokens of the output grow together.
\<close>

theorem output_reads_back:
  assumes "all_tokens (reader_on s) = Some ts" and "emit_tokens ts st = Some st'"
  shows "\<exists>us. all_tokens (reader_on (drop (length (pp_output st)) (pp_output st'))) = Some us
           \<and> map spelled us = map spelled ts"
proof (rule all_tokens_printed [where ws = "[]"])
  show "\<forall>t\<in>set ts. token_ok t" using all_tokens_ok [OF assms(1)] by blast
qed (simp_all add: reader_on_def emit_tokens_output [OF assms(2)])

text \<open>A state without tables, for examples.\<close>

definition small_pp :: pp where
  "small_pp = \<lparr>pp_hide = \<lparr>hide_sets = [replicate CC_PP_HIDE_WORDS 0], hide_slots = []\<rparr>, pp_macros = [], pp_tokens = [],
     pp_text_count = 0, pp_output = [10], pp_parameter_names = [], pp_nodes_used = 0, pp_frozen_used = 0, pp_enabled = True,
     pp_skipping = False, pp_in_condition = False, pp_query_enabled = replicate 5 True, pp_groups = [], pp_group_floor = 0,
     pp_include_stack = [], pp_current_file = 0, pp_current_root = None, pp_include_file = None,
     pp_include_root = None, pp_file_once = [], pp_files = [], pp_roots = []\<rparr>"

lemma output_reads_back_witness:
  "\<exists>ts st' us. all_tokens (reader_on (bytes_of ''x+ +y'')) = Some ts \<and> length ts = 4 \<and> emit_tokens ts small_pp = Some st' \<and>
     all_tokens (reader_on (drop (length (pp_output small_pp)) (pp_output st'))) = Some us \<and> map spelled us = map spelled ts"
proof -
  have "map_option (\<lambda>ts. (length ts, length (concat (map token_output ts)))) (all_tokens (reader_on (bytes_of ''x+ +y''))) = Some (4, 8)"
    by code_simp
  then obtain ts where ts: "all_tokens (reader_on (bytes_of ''x+ +y'')) = Some ts" "length ts = 4"
      "length (concat (map token_output ts)) = 8"
    by auto
  then obtain st' where "emit_tokens ts small_pp = Some st'"
    using emit_tokens_room [of small_pp ts] by (auto simp: small_pp_def CC_PP_OUTPUT_def)
  then show ?thesis using output_reads_back [OF ts(1)] ts by blast
qed

end
