(* ===== verification/PpEvaluate.thy ===== *)
theory PpEvaluate
  imports PpLex
begin

text \<open>
  The evaluator of \<open>#if\<close> against the expressions of C: expressions as a tree with their values by
  integer arithmetic, how a tree is written with as few parentheses as the levels of the operators
  allow, and the proof that the evaluator computes the value of the tree from any text that spells
  it. An operand that is not evaluated has no value and cannot fail.
\<close>

section \<open>Expressions\<close>

datatype binop = Comma | LogOr | LogAnd | BitOr | BitXor | BitAnd | EqualTo | NotEqual | LessThan | LessEq | GreaterThan | GreaterEq | ShiftL | ShiftR | Add | Sub | Mul | Div | Rem

datatype unop = Plus | Minus | LogNot | Complement

datatype pp_expr =
  Const pp_token
| Unary unop pp_expr
| Binary binop pp_expr pp_expr
| Cond pp_expr pp_expr pp_expr

fun op_name :: "binop \<Rightarrow> string" where
  "op_name Comma = '',''" | "op_name LogOr = ''||''" | "op_name LogAnd = ''&&''" | "op_name BitOr = ''|''"
| "op_name BitXor = ''^''" | "op_name BitAnd = ''&''" | "op_name EqualTo = ''==''" | "op_name NotEqual = ''!=''"
| "op_name LessThan = ''<''" | "op_name LessEq = ''<=''" | "op_name GreaterThan = ''>''" | "op_name GreaterEq = ''>=''"
| "op_name ShiftL = ''<<''" | "op_name ShiftR = ''>>''" | "op_name Add = ''+''" | "op_name Sub = ''-''"
| "op_name Mul = ''*''" | "op_name Div = ''/''" | "op_name Rem = ''%''"

fun op_level :: "binop \<Rightarrow> nat" where
  "op_level Comma = 1" | "op_level LogOr = 3" | "op_level LogAnd = 4" | "op_level BitOr = 5"
| "op_level BitXor = 6" | "op_level BitAnd = 7" | "op_level EqualTo = 8" | "op_level NotEqual = 8"
| "op_level LessThan = 9" | "op_level LessEq = 9" | "op_level GreaterThan = 9" | "op_level GreaterEq = 9"
| "op_level ShiftL = 10" | "op_level ShiftR = 10" | "op_level Add = 11" | "op_level Sub = 11"
| "op_level Mul = 12" | "op_level Div = 12" | "op_level Rem = 12"

fun unop_name :: "unop \<Rightarrow> string" where
  "unop_name Plus = ''+''" | "unop_name Minus = ''-''" | "unop_name LogNot = ''!''" | "unop_name Complement = ''~''"

text \<open>The signedness of the result.\<close>

fun unsigned_result :: "binop \<Rightarrow> bool \<Rightarrow> bool \<Rightarrow> bool" where
  "unsigned_result op ua ub =
     (if op = Comma then ub
      else if op = ShiftL \<or> op = ShiftR then ua
      else if op \<in> {LogOr, LogAnd, EqualTo, NotEqual, LessThan, LessEq, GreaterThan, GreaterEq} then False
      else ua \<or> ub)"

text \<open>The value of bits read signed or unsigned.\<close>

definition reading :: "bool \<Rightarrow> u64 \<Rightarrow> int" where
  "reading u w = (if u then uint w else sint w)"

text \<open>
  The operators that evaluate both operands, by their integer readings. Shifts of 64 and more,
  divisions by zero and the signed quotient that does not fit have no value.
\<close>

fun arithmetic :: "binop \<Rightarrow> bool \<Rightarrow> bool \<Rightarrow> u64 \<Rightarrow> u64 \<Rightarrow> u64 option" where
  "arithmetic op ua ub x y =
     (let u = (ua \<or> ub); a = reading u x; b = reading u y; result = (\<lambda>i. Some (word_of_int i)); truth = (\<lambda>c. Some (of_bool c)) in
      case op of
        Comma \<Rightarrow> Some y
      | LogOr \<Rightarrow> truth (x \<noteq> 0 \<or> y \<noteq> 0)
      | LogAnd \<Rightarrow> truth (x \<noteq> 0 \<and> y \<noteq> 0)
      | BitOr \<Rightarrow> Some (x OR y)
      | BitXor \<Rightarrow> Some (x XOR y)
      | BitAnd \<Rightarrow> Some (x AND y)
      | EqualTo \<Rightarrow> truth (a = b)
      | NotEqual \<Rightarrow> truth (a \<noteq> b)
      | LessThan \<Rightarrow> truth (a < b)
      | LessEq \<Rightarrow> truth (a \<le> b)
      | GreaterThan \<Rightarrow> truth (a > b)
      | GreaterEq \<Rightarrow> truth (a \<ge> b)
      | ShiftL \<Rightarrow> if uint y \<ge> 64 then None else result (reading ua x * 2 ^ nat (uint y))
      | ShiftR \<Rightarrow> if uint y \<ge> 64 then None else result (reading ua x div 2 ^ nat (uint y))
      | Add \<Rightarrow> result (a + b)
      | Sub \<Rightarrow> result (a - b)
      | Mul \<Rightarrow> result (a * b)
      | Div \<Rightarrow> if b = 0 \<or> \<not> u \<and> a = - (2 ^ 63) \<and> b = - 1 then None else result (a sdiv b)
      | Rem \<Rightarrow> if b = 0 \<or> \<not> u \<and> a = - (2 ^ 63) \<and> b = - 1 then None else result (a smod b))"

definition constant_value :: "pp \<Rightarrow> pp_token \<Rightarrow> pp_value" where
  "constant_value st t = the (cc_pp_constant st t)"

fun is_unsigned :: "pp \<Rightarrow> pp_expr \<Rightarrow> bool" where
  "is_unsigned st (Const t) = val_unsign (constant_value st t)"
| "is_unsigned st (Unary op e) = (op \<noteq> LogNot \<and> is_unsigned st e)"
| "is_unsigned st (Binary op a b) = unsigned_result op (is_unsigned st a) (is_unsigned st b)"
| "is_unsigned st (Cond c a b) = (is_unsigned st a \<or> is_unsigned st b)"

fun expr_value :: "pp \<Rightarrow> pp_expr \<Rightarrow> u64 option" where
  "expr_value st (Const t) = Some (val_bits (constant_value st t))"
| "expr_value st (Unary op e) = map_option
     (\<lambda>x. case op of Plus \<Rightarrow> x | Minus \<Rightarrow> - x | LogNot \<Rightarrow> of_bool (x = 0) | Complement \<Rightarrow> NOT x) (expr_value st e)"
| "expr_value st (Binary op a b) =
     (case expr_value st a of
        None \<Rightarrow> None
      | Some x \<Rightarrow>
          if op = LogAnd \<and> x = 0 then Some 0
          else if op = LogOr \<and> x \<noteq> 0 then Some 1
          else case expr_value st b of
            None \<Rightarrow> None
          | Some y \<Rightarrow> arithmetic op (is_unsigned st a) (is_unsigned st b) x y)"
| "expr_value st (Cond c a b) =
     (case expr_value st c of None \<Rightarrow> None | Some x \<Rightarrow> if x \<noteq> 0 then expr_value st a else expr_value st b)"

text \<open>The constants are tokens with a value.\<close>

fun pp_expr_ok :: "pp \<Rightarrow> pp_expr \<Rightarrow> bool" where
  "pp_expr_ok st (Const t) \<longleftrightarrow> token_ok t \<and> cc_pp_constant st t \<noteq> None"
| "pp_expr_ok st (Unary op e) \<longleftrightarrow> pp_expr_ok st e"
| "pp_expr_ok st (Binary op a b) \<longleftrightarrow> pp_expr_ok st a \<and> pp_expr_ok st b"
| "pp_expr_ok st (Cond c a b) \<longleftrightarrow> pp_expr_ok st c \<and> pp_expr_ok st a \<and> pp_expr_ok st b"

section \<open>Writing expressions\<close>

definition op_token :: "string \<Rightarrow> pp_token" where
  "op_token s = empty_token\<lparr>tok_text := bytes_of s, tok_kind := unat (hd (bytes_of s))\<rparr>"

definition in_parens :: "pp_token list \<Rightarrow> pp_token list" where
  "in_parens ts = op_token ''('' # ts @ [op_token '')'']"

fun expr_tokens :: "nat \<Rightarrow> pp_expr \<Rightarrow> pp_token list" where
  "expr_tokens q (Const t) = [t]"
| "expr_tokens q (Unary op e) = op_token (unop_name op) # expr_tokens 13 e"
| "expr_tokens q (Binary op a b) =
     (let ts = expr_tokens (op_level op) a @ [op_token (op_name op)] @ expr_tokens (op_level op + 1) b
      in if op_level op < q then in_parens ts else ts)"
| "expr_tokens q (Cond c a b) =
     (let ts = expr_tokens 3 c @ [op_token ''?''] @ expr_tokens 1 a @ [op_token '':''] @ expr_tokens 2 b
      in if 2 < q then in_parens ts else ts)"

text \<open>The depth at which the evaluator reads an expression.\<close>

fun expr_depth :: "nat \<Rightarrow> pp_expr \<Rightarrow> nat" where
  "expr_depth q (Const t) = 2"
| "expr_depth q (Unary op e) = 1 + expr_depth 13 e"
| "expr_depth q (Binary op a b) =
     (if op_level op < q then 2 else 0) + max (expr_depth (op_level op) a) (1 + expr_depth (op_level op + 1) b)"
| "expr_depth q (Cond c a b) =
     (if 2 < q then 2 else 0) + max (expr_depth 3 c) (1 + max (expr_depth 1 a) (expr_depth 2 b))"

section \<open>Operators\<close>

lemma of_bool64 [simp]: "of_bool64 b = of_bool b"
  by (simp add: of_bool64_def)

lemma is_op_token [simp]: "cc_pp_is (op_token s) s' \<longleftrightarrow> bytes_of s = bytes_of s'"
  by (auto simp: cc_pp_is_def op_token_def)

lemma level_op_token [simp]: "cc_pp_precedence (op_token (op_name op)) = op_level op"
  by (cases op) (simp_all add: cc_pp_precedence_def operator_levels_def bytes_of_def)

lemma level_other_tokens [simp]:
  "cc_pp_precedence (op_token ''?'') = 2" "cc_pp_precedence (op_token '':'') = 0" "cc_pp_precedence (op_token '')'') = 0"
  by (simp_all add: cc_pp_precedence_def operator_levels_def bytes_of_def)

lemma word_of_reading [simp]: "(word_of_int (reading u x) :: u64) = x"
  by (cases u) (simp_all add: reading_def)

lemma reading_eq [simp]: "reading u x = reading u y \<longleftrightarrow> x = y"
  by (metis word_of_reading)

lemma reading_zero [simp]: "reading u x = 0 \<longleftrightarrow> x = 0"
  using reading_eq [of u x 0] unfolding reading_def by (metis unsigned_0 signed_0)

text \<open>The value of a pair of operands in a given mode.\<close>

definition mode_value :: "pp \<Rightarrow> bool \<Rightarrow> pp_expr \<Rightarrow> pp_value option" where
  "mode_value st run e =
     (if run then map_option (\<lambda>bits. \<lparr>val_bits = bits, val_unsign = is_unsigned st e\<rparr>) (expr_value st e)
      else Some \<lparr>val_bits = 0, val_unsign = is_unsigned st e\<rparr>)"

lemma binary_off:
  "val_bits b = 0 \<Longrightarrow> cc_pp_binary (op_token (op_name op)) a b False =
     Some \<lparr>val_bits = 0, val_unsign = unsigned_result op (val_unsign a) (val_unsign b)\<rparr>"
  unfolding cc_pp_binary_def Let_def level_op_token is_op_token
  by (cases op) (simp_all add: bytes_of_def)

lemma signed_minimum: "sint x = - (2 ^ 63) \<longleftrightarrow> x = push_bit 63 (1 :: u64)"
proof
  assume "sint x = - (2 ^ 63)"
  then have "x = word_of_int (- (2 ^ 63))" by (metis word_of_reading reading_def)
  then show "x = push_bit 63 1" by simp
qed simp

lemma signed_minus_one: "sint x = - 1 \<longleftrightarrow> x = (- 1 :: u64)"
  using reading_eq [of False x "- 1"] by (simp add: reading_def)

lemma less_reading: "(if u then x < y else sint x < sint y) \<longleftrightarrow> reading u x < reading u y"
  by (simp add: reading_def word_less_def)

lemma shift_left_reading: "word_of_int (reading u x * 2 ^ unat y) = push_bit (unat y) x" for x y :: u64
proof -
  have "(word_of_int (reading u x * 2 ^ unat y) :: u64) = word_of_int (reading u x) * word_of_int (2 ^ unat y)"
    by (rule of_int_mult)
  then show ?thesis by (simp add: push_bit_eq_mult)
qed

lemma shift_right_reading:
  "word_of_int (reading u x div 2 ^ unat y) = (if u then drop_bit (unat y) x else signed_drop_bit (unat y) x)" for x y :: u64
proof (cases u)
  case True
  have "take_bit 64 (uint x) = uint x" using uint_lt2p [of x] by (intro take_bit_int_eq_self) auto
  then have "uint (drop_bit (unat y) x) = uint x div 2 ^ unat y"
    by (subst unsigned_drop_bit_eq) (simp add: drop_bit_eq_div)
  then show ?thesis using True by (simp add: reading_def) (metis word_of_int_uint)
next
  case False
  have "sint (signed_drop_bit (unat y) x) = sint x div 2 ^ unat y" by (simp add: sint_signed_drop_bit_eq drop_bit_eq_div)
  then show ?thesis using False word_of_reading [of False "signed_drop_bit (unat y) x"] by (simp add: reading_def)
qed

lemma divide_reading:
  "(if u then x div y else word_of_int (sint x sdiv sint y)) = word_of_int (reading u x sdiv reading u y)"
  "(if u then x mod y else word_of_int (sint x smod sint y)) = word_of_int (reading u x smod reading u y)" for x y :: u64
proof -
  have "word_of_int (uint x sdiv uint y) = x div y" "word_of_int (uint x smod uint y) = x mod y"
    using uint_ge_0 [of x] uint_ge_0 [of y]
    by (auto simp: signed_divide_int_def signed_modulo_int_def word_div_def word_mod_def sgn_if not_less)
  then show "(if u then x div y else word_of_int (sint x sdiv sint y)) = word_of_int (reading u x sdiv reading u y)"
    "(if u then x mod y else word_of_int (sint x smod sint y)) = word_of_int (reading u x smod reading u y)"
    by (simp_all add: reading_def)
qed

lemma quotient_fits:
  "reading u y = 0 \<or> \<not> u \<and> reading u x = - (2 ^ 63) \<and> reading u y = - 1 \<longleftrightarrow> y = 0 \<or> \<not> u \<and> x = push_bit 63 1 \<and> y = - 1"
  by (cases u) (simp_all only: reading_zero simp_thms, simp only: reading_def if_False signed_minimum signed_minus_one)

lemma binary_on:
  "cc_pp_binary (op_token (op_name op)) a b True =
     map_option (\<lambda>bits. \<lparr>val_bits = bits, val_unsign = unsigned_result op (val_unsign a) (val_unsign b)\<rparr>)
       (arithmetic op (val_unsign a) (val_unsign b) (val_bits a) (val_bits b))"
proof -
  have wide: "val_bits b \<ge> 64 \<longleftrightarrow> uint (val_bits b) \<ge> 64" by (simp add: word_le_def)
  have nat: "nat (uint (val_bits b)) = unat (val_bits b)" by simp
  define u where "u = (val_unsign a \<or> val_unsign b)"
  note defs = cc_pp_binary_def Let_def level_op_token is_op_token less_reading arithmetic.simps quotient_fits
    wide nat shift_left_reading shift_right_reading u_def [symmetric]
  show ?thesis
  proof (cases op)
    case Div
    show ?thesis unfolding defs divide_reading(1) [symmetric] by (simp add: Div bytes_of_def) (simp add: u_def)
  next
    case Rem
    show ?thesis unfolding defs divide_reading(2) [symmetric] by (simp add: Rem bytes_of_def) (simp add: u_def)
  next
    case GreaterThan
    show ?thesis unfolding defs by (simp add: GreaterThan bytes_of_def) (metis reading_eq linorder_less_linear order.asym)
  next
    case GreaterEq
    show ?thesis unfolding defs by (simp add: GreaterEq bytes_of_def not_less)
  next
    case LessEq
    show ?thesis unfolding defs by (simp add: LessEq bytes_of_def) (metis reading_eq order.order_iff_strict)
  qed (unfold defs, simp_all add: bytes_of_def u_def [symmetric] del: push_bit_numeral)
qed

section \<open>Modes\<close>

lemma binary_logical:
  "cc_pp_binary (op_token ''&&'') a b True = Some \<lparr>val_bits = of_bool (val_bits a \<noteq> 0 \<and> val_bits b \<noteq> 0), val_unsign = False\<rparr>"
  "cc_pp_binary (op_token ''||'') a b True = Some \<lparr>val_bits = of_bool (val_bits a \<noteq> 0 \<or> val_bits b \<noteq> 0), val_unsign = False\<rparr>"
  using binary_on [of LogAnd a b] binary_on [of LogOr a b] by simp_all

lemma mode_binary:
  "mode_value st run (Binary op a b) =
     (case mode_value st run a of
        None \<Rightarrow> None
      | Some va \<Rightarrow>
          case mode_value st (run \<and> \<not> (op = LogAnd \<and> val_bits va = 0) \<and> \<not> (op = LogOr \<and> val_bits va \<noteq> 0)) b of
            None \<Rightarrow> None
          | Some vb \<Rightarrow> cc_pp_binary (op_token (op_name op)) va vb run)"
proof (cases run)
  case False
  then show ?thesis by (simp add: mode_value_def binary_off)
next
  case True
  show ?thesis
  proof (cases "expr_value st a")
    case None
    then show ?thesis using True by (simp add: mode_value_def)
  next
    case (Some x)
    then show ?thesis using True
      by (cases "expr_value st b"; cases "op = LogAnd"; cases "op = LogOr"; cases "x = 0")
        (simp_all add: mode_value_def binary_on binary_logical del: arithmetic.simps, simp_all add: Let_def)
  qed
qed

lemma mode_cond:
  "mode_value st run (Cond c a b) =
     (case mode_value st run c of
        None \<Rightarrow> None
      | Some v \<Rightarrow>
          case mode_value st (run \<and> val_bits v \<noteq> 0) a of
            None \<Rightarrow> None
          | Some va \<Rightarrow>
              case mode_value st (run \<and> val_bits v = 0) b of
                None \<Rightarrow> None
              | Some vb \<Rightarrow> Some \<lparr>val_bits = (if val_bits v \<noteq> 0 then val_bits va else val_bits vb),
                  val_unsign = (val_unsign va \<or> val_unsign vb)\<rparr>)"
  by (auto simp: mode_value_def split: option.splits)

lemma mode_unary:
  "mode_value st run (Unary op e) = map_option (unary_operator (op_token (unop_name op)) run) (mode_value st run e)"
  by (cases op) (auto simp: mode_value_def unary_operator_def signed_value_def bytes_of_def option.map_comp o_def
      intro!: option.map_cong)

section \<open>Reading what is written\<close>

text \<open>The evaluator stands at the begin of the tokens and will read all of them.\<close>

fun reads :: "pp_eval \<Rightarrow> pp_token list \<Rightarrow> bool" where
  "reads e [] \<longleftrightarrow> spelled (fst e) = ([], 0)"
| "reads e (t # ts) \<longleftrightarrow> spelled (fst e) = spelled t \<and> (\<exists>e'. cc_pp_eval_next e = Done e' \<and> reads e' ts)"

definition next_level :: "pp_token list \<Rightarrow> nat" where
  "next_level ts = (case ts of [] \<Rightarrow> 0 | t # _ \<Rightarrow> cc_pp_precedence t)"

lemma spelled_is: "spelled t = spelled u \<Longrightarrow> cc_pp_is t s = cc_pp_is u s"
  by (simp add: spelled_def cc_pp_is_def)

lemma spelled_level: "spelled t = spelled u \<Longrightarrow> cc_pp_precedence t = cc_pp_precedence u"
  by (simp add: cc_pp_precedence_def spelled_is [of t u])

lemma spelled_constant: "spelled t = spelled u \<Longrightarrow> cc_pp_constant st t = cc_pp_constant st u"
  by (simp add: spelled_def cc_pp_constant_def cc_pp_query_kind_def cc_pp_query_symbol_def cc_pp_is_def
      macro_present_def cc_pp_find_def cc_pp_equal_def)

lemma reads_level: "reads e rest \<Longrightarrow> cc_pp_precedence (fst e) = next_level rest"
proof (cases rest)
  case Nil
  assume "reads e rest"
  then show ?thesis using Nil spelled_level [of "fst e" empty_token]
    by (simp add: next_level_def spelled_def empty_token_def cc_pp_precedence_def operator_levels_def cc_pp_is_def bytes_of_def)
qed (auto simp: next_level_def dest: spelled_level)

lemma reads_nonempty: "reads e (expr_tokens q x @ rest) \<Longrightarrow> expr_tokens q x \<noteq> []"
  by (cases x) (auto simp: in_parens_def Let_def)

text \<open>A value (or an error) with the tokens \<open>rest\<close> still to be read; a value with the loop still to be run.\<close>

definition answers :: "pp_value option \<Rightarrow> pp_token list \<Rightarrow> (pp_value \<times> pp_eval) res \<Rightarrow> bool" where
  "answers v rest r \<longleftrightarrow> (case v of None \<Rightarrow> r = stopped | Some v \<Rightarrow> \<exists>e. reads e rest \<and> r = Done (v, e))"

definition continues :: "pp_value option \<Rightarrow> pp_token list \<Rightarrow> (nat \<Rightarrow> pp_value \<Rightarrow> pp_eval \<Rightarrow> (pp_value \<times> pp_eval) res)
    \<Rightarrow> (pp_value \<times> pp_eval) res \<Rightarrow> bool" where
  "continues v rest loop r \<longleftrightarrow>
     (case v of None \<Rightarrow> r = stopped | Some v \<Rightarrow> \<exists>fuel e. length rest < fuel \<and> reads e rest \<and> r = loop fuel v e)"

lemma answersE:
  assumes "answers v rest r"
  obtains "v = None" "r = stopped" | x e where "v = Some x" "r = Done (x, e)" "reads e rest"
  using assms by (cases v) (auto simp: answers_def)

lemma continuesE:
  assumes "continues v rest loop r"
  obtains "v = None" "r = stopped" | x e fuel where "v = Some x" "r = loop fuel x e" "length rest < fuel" "reads e rest"
  using assms by (cases v) (auto simp: continues_def)

lemma continuesI: "length rest < fuel \<Longrightarrow> reads e rest \<Longrightarrow> r = loop fuel v e \<Longrightarrow> continues (Some v) rest loop r"
  by (cases e) (auto simp: continues_def)

lemma answersI: "reads e rest \<Longrightarrow> r = Done (v, e) \<Longrightarrow> answers (Some v) rest r"
  by (cases e) (auto simp: answers_def)

lemma answers_None [simp]: "answers None rest stopped" and continues_None [simp]: "continues None rest loop stopped"
  by (simp_all add: answers_def continues_def)

definition unary_claim :: "pp \<Rightarrow> pp_expr \<Rightarrow> bool" where
  "unary_claim st x \<longleftrightarrow>
     (\<forall>l fuel run e rest. expr_depth 13 x \<le> Suc l \<longrightarrow> reads e (expr_tokens 13 x @ rest)
        \<longrightarrow> length (expr_tokens 13 x @ rest) < fuel \<longrightarrow> answers (mode_value st run x) rest (cc_pp_unary st l fuel run e))"

definition evaluate_claim :: "pp \<Rightarrow> nat \<Rightarrow> pp_expr \<Rightarrow> bool" where
  "evaluate_claim st q x \<longleftrightarrow>
     (\<forall>minimum l fuel run e rest. 1 \<le> minimum \<longrightarrow> minimum \<le> q \<longrightarrow> expr_depth q x \<le> Suc l
        \<longrightarrow> reads e (expr_tokens q x @ rest) \<longrightarrow> next_level rest \<le> (if q = 2 then 1 else q)
        \<longrightarrow> length (expr_tokens q x @ rest) < fuel \<longrightarrow>
        continues (mode_value st run x) rest (\<lambda>fuel. operators st l fuel minimum run)
          (cc_pp_evaluate st (Suc l) fuel minimum run e))"

lemma expr_depth_ge: "2 \<le> expr_depth q x"
  by (induction q x rule: expr_depth.induct) auto

lemma stopped_andthen [simp]: "andthen stopped f = stopped"
  by (simp add: stopped_def)

lemma read_head:
  assumes "reads e (t # ts)"
  obtains e' where "spelled (fst e) = spelled t" "cc_pp_eval_next e = Done e'" "reads e' ts"
  using assms by auto

lemma evaluate_from_unary:
  assumes "unary_claim st x" and "expr_tokens q x = expr_tokens 13 x" and "expr_depth q x = expr_depth 13 x"
  shows "evaluate_claim st q x"
  unfolding evaluate_claim_def
proof (intro allI impI, goal_cases)
  case (1 minimum l fuel run e rest)
  then have "answers (mode_value st run x) rest (cc_pp_unary st l fuel run e)"
    using assms(1) unfolding unary_claim_def assms(2,3) by blast
  then show ?case
  proof (cases rule: answersE)
    case (2 v e')
    show ?thesis unfolding 2(1) by (rule continuesI [of _ fuel e']) (use 1(6) 2 in simp_all)
  qed simp
qed

text \<open>A whole operand: the loop stops in front of what follows.\<close>

lemma evaluate_operand:
  assumes "evaluate_claim st q x" and "1 \<le> q" and "expr_depth q x \<le> l" and "reads e (expr_tokens q x @ rest)"
    and "next_level rest < q" and "length (expr_tokens q x @ rest) < fuel"
  shows "answers (mode_value st run x) rest (cc_pp_evaluate st l fuel q run e)"
proof -
  obtain l' where l: "l = Suc l'" using expr_depth_ge [of q x] assms(3) by (cases l) auto
  have "continues (mode_value st run x) rest (\<lambda>fuel. operators st l' fuel q run) (cc_pp_evaluate st (Suc l') fuel q run e)"
  proof (rule assms(1) [unfolded evaluate_claim_def, rule_format])
    show "next_level rest \<le> (if q = 2 then 1 else q)" using assms(5) by simp
  qed (use assms(2-4,6) l in simp_all)
  then show ?thesis
  proof (cases rule: continuesE)
    case (2 v e' fuel')
    have "operators st l' fuel' q run v e' = Done (v, e')"
      using reads_level [OF 2(4)] assms(5) by (cases fuel') simp_all
    then show ?thesis unfolding 2(1) l by (intro answersI [OF 2(4)]) (simp only: 2(2))
  qed (simp only: l answers_None)
qed

lemma unary_paren:
  assumes "evaluate_claim st 1 x" and "expr_tokens 13 x = in_parens (expr_tokens 1 x)"
    and "expr_depth 13 x = 2 + expr_depth 1 x"
  shows "unary_claim st x"
  unfolding unary_claim_def
proof (intro allI impI, goal_cases)
  case (1 l fuel run e rest)
  obtain l' where l: "l = Suc l'" and d: "expr_depth 1 x \<le> l'"
    using 1(1) expr_depth_ge [of 1 x] assms(3) by (cases l) auto
  have "reads e (op_token ''('' # expr_tokens 1 x @ op_token '')'' # rest)" and fuel: "length (expr_tokens 1 x @ op_token '')'' # rest) < fuel"
    using 1(2,3) by (simp_all add: assms(2) in_parens_def)
  then obtain e1 where e1: "spelled (fst e) = spelled (op_token ''('')" "cc_pp_eval_next e = Done e1"
      "reads e1 (expr_tokens 1 x @ op_token '')'' # rest)"
    by (elim read_head)
  have level: "next_level (op_token '')'' # rest) < 1" by (simp add: next_level_def)
  have "answers (mode_value st run x) (op_token '')'' # rest) (cc_pp_evaluate st l' fuel 1 run e1)"
    by (rule evaluate_operand [OF assms(1) order.refl d e1(3) level fuel])
  then show ?case
  proof (cases rule: answersE)
    case 1
    then show ?thesis using e1 by (simp add: l spelled_is [OF e1(1)])
  next
    case (2 v e2)
    obtain e3 where e3: "spelled (fst e2) = spelled (op_token '')'')" "cc_pp_eval_next e2 = Done e3" "reads e3 rest"
      using 2(3) by (elim read_head)
    show ?thesis unfolding 2(1)
      by (rule answersI [OF e3(3)]) (use 2(2) e1 e3 in \<open>simp add: l spelled_is [OF e1(1)] spelled_is [OF e3(1)]\<close>)
  qed
qed

section \<open>Every form of expression\<close>

lemma constant_not_operator:
  assumes "token_ok t" and "cc_pp_constant st t \<noteq> None"
  shows "\<not> cc_pp_is t ''(''" and "\<not> is_unary t" and "\<not> cc_pp_is t '':''"
proof -
  have kind: "tok_kind t \<ge> 256" using assms(2) by (auto simp: cc_pp_constant_def split: if_splits)
  have "\<not> cc_pp_is t [c]" if "c \<in> {CHR ''('', CHR '':'', CHR ''+'', CHR ''-'', CHR ''!'', CHR ''~''}" for c
  proof
    assume "cc_pp_is t [c]"
    then have "tok_kind t < 256" using assms(1) that
      by (auto simp: token_ok_def cc_pp_is_def bytes_of_def token_end_quoted quoted_def prefix_length_def
          cc_pp_name_def cc_pp_digit_def operator_length_def)
    with kind show False by simp
  qed
  then show "\<not> cc_pp_is t ''(''" "\<not> is_unary t" "\<not> cc_pp_is t '':''" by (auto simp: is_unary_def)
qed

lemma unary_const:
  assumes "pp_expr_ok st (Const t)"
  shows "unary_claim st (Const t)"
  unfolding unary_claim_def
proof (intro allI impI, goal_cases)
  case (1 l fuel run e rest)
  obtain l' where l: "l = Suc l'" using 1(1) by (cases l) auto
  obtain v where v: "cc_pp_constant st t = Some v" using assms by auto
  obtain e1 where e1: "spelled (fst e) = spelled t" "cc_pp_eval_next e = Done e1" "reads e1 rest"
    using 1(2) [unfolded expr_tokens.simps append_Cons append_Nil] by (elim read_head)
  have mode: "mode_value st run (Const t) = Some (if run then v else v\<lparr>val_bits := 0\<rparr>)"
    by (auto simp: mode_value_def constant_value_def v)
  have is_u: "is_unary (fst e) \<longleftrightarrow> is_unary t" by (simp add: is_unary_def spelled_is [OF e1(1)])
  show ?case unfolding mode
    by (rule answersI [OF e1(3)])
      (use assms constant_not_operator [of t st] in
        \<open>simp add: l e1(2) is_u spelled_is [OF e1(1)] spelled_constant [OF e1(1)] v\<close>)
qed

lemma unary_unary:
  assumes "unary_claim st x"
  shows "unary_claim st (Unary op x)"
  unfolding unary_claim_def
proof (intro allI impI, goal_cases)
  case (1 l fuel run e rest)
  obtain l' where l: "l = Suc l'" and d: "expr_depth 13 x \<le> Suc l'"
    using 1(1) expr_depth_ge [of 13 x] by (cases l) auto
  obtain e1 where e1: "spelled (fst e) = spelled (op_token (unop_name op))" "cc_pp_eval_next e = Done e1"
      "reads e1 (expr_tokens 13 x @ rest)"
    using 1(2) [unfolded expr_tokens.simps append_Cons append_Nil] by (elim read_head)
  have is_u: "is_unary (fst e)" "\<not> cc_pp_is (fst e) ''(''"
    using spelled_is [OF e1(1)] by (cases op; simp add: is_unary_def bytes_of_def)+
  have same: "unary_operator (fst e) = unary_operator (op_token (unop_name op))"
    by (rule ext)+ (simp add: unary_operator_def spelled_is [OF e1(1)])
  have "answers (mode_value st run x) rest (cc_pp_unary st l' fuel run e1)"
    by (rule assms [unfolded unary_claim_def, rule_format]) (use 1(3) d e1(3) in simp_all)
  then show ?case
  proof (cases rule: answersE)
    case (2 v e2)
    show ?thesis unfolding mode_unary 2(1) option.map
      by (rule answersI [OF 2(3)]) (simp add: l is_u e1(2) 2(2) same)
  qed (simp add: mode_unary l is_u e1(2))
qed

lemma expr_tokens_not_colon:
  "pp_expr_ok st x \<Longrightarrow> reads e (expr_tokens q x @ rest) \<Longrightarrow> \<not> cc_pp_is (fst e) '':''"
proof (induction q x arbitrary: rest rule: expr_tokens.induct)
  case (1 q t)
  then show ?case using constant_not_operator(3) [of t st] spelled_is [of "fst e" t "'':''"] by auto
next
  case (2 q op x)
  then have "spelled (fst e) = spelled (op_token (unop_name op))" by auto
  then show ?case using spelled_is [of "fst e" "op_token (unop_name op)" "'':''"] by (cases op) (auto simp: bytes_of_def)
next
  case (3 q op a b)
  show ?case
  proof (cases "op_level op < q")
    case True
    then have "spelled (fst e) = spelled (op_token ''('')" using 3(4) by (auto simp: in_parens_def)
    then show ?thesis using spelled_is by (auto simp: bytes_of_def)
  next
    case False
    then show ?thesis using 3(3,4) by (intro 3(1)) auto
  qed
next
  case (4 q c a b)
  show ?case
  proof (cases "2 < q")
    case True
    then have "spelled (fst e) = spelled (op_token ''('')" using 4(5) by (auto simp: in_parens_def)
    then show ?thesis using spelled_is by (auto simp: bytes_of_def)
  next
    case False
    then show ?thesis using 4(4,5) by (intro 4(1)) auto
  qed
qed

lemma op_level_bounds: "1 \<le> op_level op" "op_level op \<le> 12" "op_level op \<noteq> 2"
  by (cases op; simp)+

lemma op_not_question: "\<not> cc_pp_is (op_token (op_name op)) ''?''"
  by (cases op) (simp_all add: bytes_of_def)

lemma op_logical:
  "cc_pp_is (op_token (op_name op)) ''&&'' \<longleftrightarrow> op = LogAnd" "cc_pp_is (op_token (op_name op)) ''||'' \<longleftrightarrow> op = LogOr"
  by (cases op; simp add: bytes_of_def)+

lemma spelled_binary: "spelled t = spelled u \<Longrightarrow> cc_pp_binary t = cc_pp_binary u"
proof -
  assume s: "spelled t = spelled u"
  have "cc_pp_is t = cc_pp_is u" by (rule ext) (rule spelled_is [OF s])
  then show "cc_pp_binary t = cc_pp_binary u"
    by (intro ext) (simp only: cc_pp_binary_def spelled_level [OF s])
qed

lemma evaluate_binary:
  assumes a: "evaluate_claim st (op_level op) a" and b: "evaluate_claim st (op_level op + 1) b" and q: "1 \<le> q" "q \<le> op_level op"
  shows "evaluate_claim st q (Binary op a b)"
  unfolding evaluate_claim_def
proof (intro allI impI, goal_cases)
  case (1 minimum l fuel run e rest)
  let ?p = "op_level op" and ?op = "op_token (op_name op)"
  have d: "expr_depth ?p a \<le> Suc l" "expr_depth (?p + 1) b \<le> l" using 1(3) q by auto
  have tokens: "expr_tokens q (Binary op a b) @ rest = expr_tokens ?p a @ ?op # expr_tokens (?p + 1) b @ rest"
    using q by simp
  have follow: "next_level rest < ?p + 1" using 1(5) q by (auto split: if_splits)
  have "continues (mode_value st run a) (?op # expr_tokens (?p + 1) b @ rest) (\<lambda>fuel. operators st l fuel minimum run)
      (cc_pp_evaluate st (Suc l) fuel minimum run e)"
  proof (rule a [unfolded evaluate_claim_def, rule_format])
    show "next_level (?op # expr_tokens (?p + 1) b @ rest) \<le> (if ?p = 2 then 1 else ?p)"
      using op_level_bounds(3) [of op] by (simp add: next_level_def)
  qed (use 1(1,2,4,6) q d tokens in simp_all)
  then show ?case
  proof (cases rule: continuesE)
    case 1
    then show ?thesis by (simp only: mode_binary option.case continues_None)
  next
    case (2 va e1 f)
    obtain f' where f: "f = Suc f'" and f': "length (expr_tokens (?p + 1) b @ rest) < f'"
      using 2(3) by (cases f) auto
    obtain e2 where e2: "spelled (fst e1) = spelled ?op" "cc_pp_eval_next e1 = Done e2" "reads e2 (expr_tokens (?p + 1) b @ rest)"
      using 2(4) by (elim read_head)
    define right where "right = (run \<and> \<not> (op = LogAnd \<and> val_bits va = 0) \<and> \<not> (op = LogOr \<and> val_bits va \<noteq> 0))"
    have step: "operators st l f minimum run va e1 =
        andthen (cc_pp_evaluate st l f' (?p + 1) right e2) (\<lambda>(b, e).
          andthen (of_option (cc_pp_binary ?op va b run)) (\<lambda>v. operators st l f' minimum run v e))"
      using 1(2) q op_not_question [of op] op_logical [of op]
      by (simp add: f spelled_level [OF e2(1)] spelled_is [OF e2(1)] e2(2) spelled_binary [OF e2(1)] right_def Let_def
          del: is_op_token)
    have "answers (mode_value st right b) rest (cc_pp_evaluate st l f' (?p + 1) right e2)"
      by (rule evaluate_operand [OF b _ d(2) e2(3) follow f']) simp
    moreover have m: "mode_value st run (Binary op a b) =
        (case mode_value st right b of None \<Rightarrow> None | Some vb \<Rightarrow> cc_pp_binary ?op va vb run)"
      by (simp only: mode_binary 2(1) option.case right_def)
    ultimately show ?thesis
    proof (cases rule: answersE)
      case 1
      then show ?thesis unfolding m 2(2) step by simp
    next
      case (2 vb e3)
      then show ?thesis unfolding m \<open>cc_pp_evaluate st (Suc l) fuel minimum run e = _\<close> step
        using f' by (cases "cc_pp_binary ?op va vb run") (auto intro!: continuesI [of rest f' e3])
    qed
  qed
qed

lemma evaluate_cond:
  assumes c: "evaluate_claim st 3 c" and a: "evaluate_claim st 1 a" and b: "evaluate_claim st 2 b" and ok: "pp_expr_ok st a"
    and q: "1 \<le> q" "q \<le> 2"
  shows "evaluate_claim st q (Cond c a b)"
  unfolding evaluate_claim_def
proof (intro allI impI, goal_cases)
  case (1 minimum l fuel run e rest)
  let ?after = "expr_tokens 1 a @ op_token '':'' # expr_tokens 2 b @ rest"
  have d: "expr_depth 3 c \<le> Suc l" "expr_depth 1 a \<le> l" "expr_depth 2 b \<le> l" using 1(3) q by auto
  have tokens: "expr_tokens q (Cond c a b) @ rest = expr_tokens 3 c @ op_token ''?'' # ?after" using q by simp
  have follow: "next_level rest < 2" using 1(5) q by (auto split: if_splits)
  have "continues (mode_value st run c) (op_token ''?'' # ?after) (\<lambda>fuel. operators st l fuel minimum run)
      (cc_pp_evaluate st (Suc l) fuel minimum run e)"
    by (rule c [unfolded evaluate_claim_def, rule_format])
      (use 1(1,2,4,6) q d tokens in \<open>simp_all add: next_level_def\<close>)
  then show ?case
  proof (cases rule: continuesE)
    case 1
    then show ?thesis by (simp only: mode_cond option.case continues_None)
  next
    case (2 v e1 f)
    obtain f' where f: "f = Suc f'" and f': "length ?after < f'" using 2(3) by (cases f) auto
    obtain e2 where e2: "spelled (fst e1) = spelled (op_token ''?'')" "cc_pp_eval_next e1 = Done e2" "reads e2 ?after"
      using 2(4) by (elim read_head)
    let ?sel = "val_bits v \<noteq> 0"
    have step: "operators st l f minimum run v e1 =
        andthen (cc_pp_evaluate st l f' 1 (run \<and> ?sel) e2) (\<lambda>(a, e).
          if \<not> cc_pp_is (fst e) '':'' then stopped
          else andthen (cc_pp_eval_next e) (\<lambda>e. andthen (cc_pp_evaluate st l f' 2 (run \<and> \<not> ?sel) e) (\<lambda>(b, e).
            operators st l f' minimum run \<lparr>val_bits = (if ?sel then val_bits a else val_bits b),
              val_unsign = (val_unsign a \<or> val_unsign b)\<rparr> e)))"
    proof -
      have "cc_pp_precedence (fst e1) = 2" "cc_pp_is (fst e1) ''?''"
        by (simp_all add: spelled_level [OF e2(1)] spelled_is [OF e2(1)])
      then show ?thesis using 1(2) q expr_tokens_not_colon [OF ok e2(3)] by (simp add: f e2(2) Let_def cong: if_cong)
    qed
    have "answers (mode_value st (run \<and> ?sel) a) (op_token '':'' # expr_tokens 2 b @ rest) (cc_pp_evaluate st l f' 1 (run \<and> ?sel) e2)"
      by (rule evaluate_operand [OF a _ d(2) e2(3) _ f']) (simp_all add: next_level_def)
    then show ?thesis
    proof (cases rule: answersE)
      case 1
      then show ?thesis using 2(2) step by (simp add: mode_cond 2(1))
    next
      case a: (2 va e3)
      obtain e4 where e4: "spelled (fst e3) = spelled (op_token '':'')" "cc_pp_eval_next e3 = Done e4" "reads e4 (expr_tokens 2 b @ rest)"
        using a(3) by (elim read_head)
      have "answers (mode_value st (run \<and> \<not> ?sel) b) rest (cc_pp_evaluate st l f' 2 (run \<and> \<not> ?sel) e4)"
        by (rule evaluate_operand [OF b _ d(3) e4(3) follow]) (use f' in simp_all)
      then show ?thesis
      proof (cases rule: answersE)
        case 1
        then show ?thesis using 2(2) step a e4 by (simp add: mode_cond 2(1) spelled_is [OF e4(1)])
      next
        case b: (2 vb e5)
        have r: "cc_pp_evaluate st (Suc l) fuel minimum run e =
            operators st l f' minimum run \<lparr>val_bits = (if ?sel then val_bits va else val_bits vb),
              val_unsign = (val_unsign va \<or> val_unsign vb)\<rparr> e5"
          by (simp only: 2(2) step a(2) e4(2) b(2) andthen.simps case_prod_conv spelled_is [OF e4(1)]) (simp add: bytes_of_def)
        have m: "mode_value st run (Cond c a b) = Some \<lparr>val_bits = (if ?sel then val_bits va else val_bits vb),
            val_unsign = (val_unsign va \<or> val_unsign vb)\<rparr>"
          using a(1) b(1) by (simp add: mode_cond 2(1))
        have "length rest < f'" using f' by simp
        then show ?thesis unfolding m by (rule continuesI [of rest f' e5]) (use b(3) r in simp_all)
      qed
    qed
  qed
qed

lemma expression_claims:
  "pp_expr_ok st x \<Longrightarrow> unary_claim st x \<and> (\<forall>q. 1 \<le> q \<longrightarrow> q \<le> 13 \<longrightarrow> evaluate_claim st q x)"
proof (induction x)
  case (Const t)
  then show ?case using unary_const by (auto intro: evaluate_from_unary)
next
  case (Unary op x)
  then show ?case using unary_unary by (auto intro: evaluate_from_unary)
next
  case (Binary op a b)
  have bounds: "1 \<le> op_level op" "op_level op \<le> 12" by (rule op_level_bounds)+
  have low: "evaluate_claim st q (Binary op a b)" if "1 \<le> q" "q \<le> op_level op" for q
    using Binary bounds that by (intro evaluate_binary) simp_all
  have u: "unary_claim st (Binary op a b)"
    by (rule unary_paren [OF low]) (use bounds in auto)
  show ?case
  proof (intro conjI u allI impI)
    fix q :: nat
    assume q: "1 \<le> q" "q \<le> 13"
    show "evaluate_claim st q (Binary op a b)"
    proof (cases "q \<le> op_level op")
      case False
      then show ?thesis using bounds by (intro evaluate_from_unary [OF u]) auto
    qed (use low q in blast)
  qed
next
  case (Cond c a b)
  have low: "evaluate_claim st q (Cond c a b)" if "1 \<le> q" "q \<le> 2" for q
    using Cond that by (intro evaluate_cond) simp_all
  have u: "unary_claim st (Cond c a b)" by (rule unary_paren [OF low]) auto
  show ?case
  proof (intro conjI u allI impI)
    fix q :: nat
    assume q: "1 \<le> q" "q \<le> 13"
    show "evaluate_claim st q (Cond c a b)"
    proof (cases "q \<le> 2")
      case False
      then show ?thesis by (intro evaluate_from_unary [OF u]) auto
    qed (use low q in blast)
  qed
qed

text \<open>The tokens of a text are what the evaluator reads from it.\<close>

lemma all_tokens_reads:
  "all_tokens r = Some us \<Longrightarrow> map spelled us = map spelled ts \<Longrightarrow>
     \<exists>e. cc_pp_eval_next (t, r) = Done e \<and> reads e ts"
proof (induction us arbitrary: r t ts)
  case Nil
  obtain t1 r1 where n: "cc_pp_next False r = (t1, r1)" by fastforce
  then have "\<not> rd_failed r1" "tok_kind t1 = 0"
    using Nil(1) by (subst (asm) all_tokens.simps, simp split: if_splits)+
  moreover from this have "tok_text t1 = []"
    using n by (auto simp: cc_pp_next_def Let_def split: option.splits if_splits dest: token_end_suffix(2))
  ultimately show ?case using n Nil(2) by (auto simp: cc_pp_eval_next_def spelled_def)
next
  case (Cons u us)
  obtain t1 r1 where n: "cc_pp_next False r = (t1, r1)" by fastforce
  then have "\<not> rd_failed r1" "t1 = u" "all_tokens r1 = Some us"
    using Cons.prems(1) by (subst (asm) all_tokens.simps, auto split: if_splits)+
  moreover obtain v vs where "ts = v # vs" "spelled u = spelled v" "map spelled us = map spelled vs"
    using Cons.prems(2) by auto
  ultimately show ?case using Cons.IH [of r1 vs u] n by (auto simp: cc_pp_eval_next_def)
qed

lemma all_tokens_length: "all_tokens r = Some us \<Longrightarrow> length us \<le> length (rd_text r) - rd_at r"
proof (induction us arbitrary: r)
  case (Cons u us)
  obtain t1 r1 where n: "cc_pp_next False r = (t1, r1)" by fastforce
  then have "tok_kind t1 \<noteq> 0" "all_tokens r1 = Some us"
    using Cons.prems(1) by (subst (asm) all_tokens.simps, auto split: if_splits)+
  then show ?case using Cons.IH [of r1] cc_pp_next_less [OF n] by simp
qed simp

text \<open>
  C15. The expression of a condition has the value that C gives it: from any text whose tokens
  spell an expression tree, written with the parentheses that the levels of the operators need,
  the evaluator computes the value of the tree by integer arithmetic in 64 bits, with the
  signedness of the operands, or fails exactly when the tree has no value. Operands that are not
  evaluated, as in \<open>0 && 1 / 0\<close>, do not fail. The expression may nest up to the 64 levels of the
  evaluator.
\<close>

theorem condition_value:
  assumes "all_tokens (reader_on s) = Some us" and "map spelled us = map spelled (expr_tokens 1 x)"
    and "pp_expr_ok st x" and "expr_depth 1 x \<le> 64"
  shows "expression_value st s = of_option (expr_value st x)"
proof -
  obtain e where e: "cc_pp_eval_next (empty_token, reader_on s) = Done e" "reads e (expr_tokens 1 x)"
    using all_tokens_reads [OF assms(1,2)] by blast
  have "length (expr_tokens 1 x) = length us" using assms(2) by (metis length_map)
  then have "length (expr_tokens 1 x @ []) < length s + 1"
    using all_tokens_length [OF assms(1)] by (simp add: reader_on_def)
  then have "answers (mode_value st True x) [] (cc_pp_evaluate st 64 (length s + 1) 1 True e)"
    using expression_claims [OF assms(3)] e(2) assms(4)
    by (intro evaluate_operand [of st 1 x 64 e "[]"]) (simp_all add: next_level_def)
  then show ?thesis
  proof (cases rule: answersE)
    case 1
    then have "expr_value st x = None" by (simp add: mode_value_def)
    then show ?thesis using e(1) 1(2) by (simp add: expression_value_def reader_on_def)
  next
    case (2 v e')
    then show ?thesis using e(1)
      by (auto simp: expression_value_def reader_on_def mode_value_def spelled_def)
  qed
qed

lemma condition_value_witness:
  "expression_value small_pp (bytes_of ''(1+2)*3==9 && !x || 1/0'') = Done 1"
proof -
  let ?n = "\<lambda>s. Const (op_token s\<lparr>tok_kind := CC_PP_NUMBER\<rparr>)"
  let ?x = "Binary LogOr (Binary LogAnd (Binary EqualTo (Binary Mul (Binary Add (?n ''1'') (?n ''2'')) (?n ''3'')) (?n ''9''))
    (Unary LogNot (Const (op_token ''x''\<lparr>tok_kind := CC_PP_IDENT\<rparr>)))) (Binary Div (?n ''1'') (?n ''0''))"
  have "map_option (map spelled) (all_tokens (reader_on (bytes_of ''(1+2)*3==9 && !x || 1/0''))) = Some (map spelled (expr_tokens 1 ?x))"
    by code_simp
  then obtain us where us: "all_tokens (reader_on (bytes_of ''(1+2)*3==9 && !x || 1/0'')) = Some us"
      "map spelled us = map spelled (expr_tokens 1 ?x)"
    by auto
  have "pp_expr_ok small_pp ?x" "expr_depth 1 ?x \<le> 64" "expr_value small_pp ?x = Some 1" by code_simp+
  then show ?thesis using condition_value [OF us] by simp
qed

end
