(* ===== verification/PpLookup.thy ===== *)
theory PpLookup
  imports PpInclude
begin

text \<open>
  The lookup of included files against its specification: a header is searched in an ordered list
  of directories, and in each of them it is the file whose name is the resolved path. Resolving
  works on the components of the path, \<open>..\<close> removes the component before it, and a path that
  would leave the bundle names nothing.
\<close>

section \<open>Components\<close>

fun join_parts :: "mem list \<Rightarrow> mem" where
  "join_parts [] = []"
| "join_parts (p # ps) = p @ (if ps = [] then [] else slash # join_parts ps)"

fun resolve_components :: "mem list \<Rightarrow> mem list \<Rightarrow> mem list option" where
  "resolve_components stack [] = Some stack"
| "resolve_components stack (p # ps) =
     (if p = [] \<or> p = [dot] then resolve_components stack ps
      else if p = [dot, dot] then (if stack = [] then None else resolve_components (butlast stack) ps)
      else resolve_components (stack @ [p]) ps)"

definition plain_part :: "mem \<Rightarrow> bool" where
  "plain_part p \<longleftrightarrow> p \<noteq> [] \<and> slash \<notin> set p"

lemma join_parts_snoc: "join_parts (ps @ [p]) = (if ps = [] then p else join_parts ps @ slash # p)"
  by (induction ps) auto

lemma join_parts_Nil: "list_all plain_part ps \<Longrightarrow> join_parts ps = [] \<longleftrightarrow> ps = []"
  by (cases ps) (auto simp: plain_part_def)

lemma drop_component_join: "list_all plain_part ps \<Longrightarrow> drop_component (join_parts ps) = join_parts (butlast ps)"
proof (cases ps rule: rev_cases)
  case (snoc qs p)
  assume "list_all plain_part ps"
  then have p: "\<forall>b\<in>set (rev p). b \<noteq> slash" by (auto simp: snoc plain_part_def)
  then have "dropWhile (\<lambda>b. b \<noteq> slash) (rev p @ xs) = dropWhile (\<lambda>b. b \<noteq> slash) xs" for xs
    by (intro dropWhile_append2) blast
  from this [of "slash # rev (join_parts qs)"] have "dropWhile (\<lambda>b. b \<noteq> slash) (rev p @ slash # rev (join_parts qs)) = slash # rev (join_parts qs)"
    by simp
  moreover have "tl (dropWhile (\<lambda>b. b \<noteq> slash) (rev p)) = []" 
  proof -
    have "dropWhile (\<lambda>b. b \<noteq> slash) (rev p) = []" unfolding dropWhile_eq_Nil_conv by (rule p)
    then show ?thesis by (simp only: list.sel)
  qed
  ultimately show ?thesis by (simp add: snoc join_parts_snoc drop_component_def)
qed (simp add: drop_component_def)

lemma compact_path_resolves:
  "list_all plain_part stack \<Longrightarrow> \<forall>p\<in>set ps. slash \<notin> set p \<Longrightarrow>
     compact_path ps (join_parts stack) = map_option join_parts (resolve_components stack ps)"
proof (induction stack ps rule: resolve_components.induct)
  case (2 stack p ps)
  have low: "list_all plain_part (butlast stack)" using 2(4) by (auto simp: list_all_iff dest: in_set_butlastD)
  have high: "p \<noteq> [] \<Longrightarrow> list_all plain_part (stack @ [p])" using 2(4,5) by (simp add: plain_part_def [of p])
  have push: "(if join_parts stack \<noteq> [] then join_parts stack @ [slash] else []) @ p = join_parts (stack @ [p])"
    by (simp add: join_parts_snoc join_parts_Nil [OF 2(4)])
  have rest: "\<forall>p\<in>set ps. slash \<notin> set p" using 2(5) by simp
  consider "p = [] \<or> p = [dot]" | "p = [dot, dot]" | "p \<noteq> []" "p \<noteq> [dot]" "p \<noteq> [dot, dot]" by blast
  then show ?case
  proof cases
    case 1
    then show ?thesis using "2.IH"(1) [OF 1 2(4) rest] by auto
  next
    case 2
    then show ?thesis using "2.IH"(2) low rest "2.prems"(1)
      by (simp add: drop_component_join join_parts_Nil dot_def)
  next
    case 3
    then show ?thesis using "2.IH"(3) high rest by (simp only: compact_path.simps resolve_components.simps push) simp
  qed
qed simp

section \<open>The search\<close>

definition resolved_file :: "pp \<Rightarrow> mem \<Rightarrow> mem \<Rightarrow> nat option" where
  "resolved_file st directory name =
     (if name = [] \<or> hd name = slash \<or> length directory + length name + 1 > 8193 then None
      else
        case resolve_components [] (split_on slash directory @ split_on slash name) of
          None \<Rightarrow> None
        | Some ps \<Rightarrow> index_of (\<lambda>f. join_parts ps = fst f) (pp_files st))"

text \<open>The directories in the order of the search, each with the root it is.\<close>

definition search_path :: "pp \<Rightarrow> bool \<Rightarrow> bool \<Rightarrow> (mem \<times> nat option) list" where
  "search_path st quote is_next =
     (if quote \<and> \<not> is_next \<and> pp_current_file st < length (pp_files st)
      then [(drop_component (fst (pp_files st ! pp_current_file st)), None)] else []) @
     (let start = (if is_next then (case pp_current_root st of None \<Rightarrow> 0 | Some r \<Rightarrow> r + 1) else 0)
      in map (\<lambda>i. (pp_roots st ! i, Some i)) [start..<length (pp_roots st)])"

lemma candidate_resolved: "cc_pp_include_candidate st directory name = resolved_file st directory name"
proof -
  let ?path = "directory @ (if directory \<noteq> [] then [slash] else []) @ name"
  have parts: "\<forall>p\<in>set (split_on slash ?path). slash \<notin> set p" using split_on_no_sep by fast
  have drop: "resolve_components [] (split_on slash ?path) = resolve_components [] (split_on slash directory @ split_on slash name)"
    by (cases "directory = []") (simp_all add: split_on_append)
  have *: "compact_path (split_on slash ?path) [] = map_option join_parts (resolve_components [] (split_on slash directory @ split_on slash name))"
    using compact_path_resolves [of "[]", OF _ parts] unfolding drop by simp
  show ?thesis
    unfolding cc_pp_include_candidate_def resolved_file_def Let_def *
    by (cases "resolve_components [] (split_on slash directory @ split_on slash name)") simp_all
qed

lemma find_in_roots_first:
  "find_in_roots st name i roots = (case List.map_filter (\<lambda>(d, root). map_option (\<lambda>f. (f, root)) (resolved_file st d name))
       (map (\<lambda>j. (roots ! j, Some (i + j))) [0..<length roots]) of [] \<Rightarrow> None | hit # _ \<Rightarrow> Some hit)"
proof (induction roots arbitrary: i)
  case (Cons root roots)
  have *: "[0..<length (root # roots)] = 0 # map Suc [0..<length roots]" by (simp only: upt_conv_Cons map_Suc_upt length_Cons zero_less_Suc)
  show ?case unfolding * using Cons.IH [of "i + 1"]
    by (simp add: List.map_filter_simps candidate_resolved o_def split: option.split)
qed (simp add: List.map_filter_simps)

text \<open>
  C18. An included file is the first hit along the search path: for a quoted name the directory of
  the file at hand, then the roots in their order (for \<open>#include_next\<close> those behind the root of the
  file at hand), and the hit in a directory is the file of the bundle whose name is the path with
  its components resolved. A path that \<open>..\<close> would lead out of the bundle, an absolute name and a
  path of more than 8193 bytes hit nothing.
\<close>

theorem include_search:
  "cc_pp_include_find st name quote is_next =
     (case List.map_filter (\<lambda>(directory, root). map_option (\<lambda>file. (file, root)) (resolved_file st directory name))
        (search_path st quote is_next) of
        [] \<Rightarrow> None
      | hit # _ \<Rightarrow> Some hit)"
proof -
  let ?start = "if is_next then (case pp_current_root st of Some r \<Rightarrow> r + 1 | None \<Rightarrow> 0) else 0"
  have "map (\<lambda>j. (drop ?start (pp_roots st) ! j, Some (?start + j))) [0..<length (drop ?start (pp_roots st))]
      = map (\<lambda>i. (pp_roots st ! i, Some i)) [?start..<length (pp_roots st)]"
    by (rule nth_equalityI) simp_all
  then have roots: "find_in_roots st name ?start (drop ?start (pp_roots st)) =
      (case List.map_filter (\<lambda>(d, root). map_option (\<lambda>f. (f, root)) (resolved_file st d name))
         (map (\<lambda>i. (pp_roots st ! i, Some i)) [?start..<length (pp_roots st)]) of [] \<Rightarrow> None | hit # _ \<Rightarrow> Some hit)"
    by (simp only: find_in_roots_first)
  show ?thesis
    unfolding cc_pp_include_find_def search_path_def Let_def roots candidate_resolved
    by (simp add: List.map_filter_simps split: option.split)
qed

end
