(* ===== verification/PpMain.thy ===== *)
theory PpMain
  imports PpDirectives
begin

text \<open>
  The directives that are not conditional and the main loop: cc_pp_include_directive and
  cc_pp_pragma of runtime/copy_c/preprocess_include.h, cc_pp_directive and cc_preprocess_macros
  of runtime/copy_c/preprocess_macros.h.
\<close>

section \<open>Files\<close>

text \<open>What follows blanks and block comments.\<close>

function skip_blanks_comments :: "mem \<Rightarrow> mem option" where
  "skip_blanks_comments rest =
     (let rest = dropWhile blank rest in
      if length rest \<ge> 2 \<and> take 2 rest = [47, 42]
      then (case skip_comment (drop 2 rest) of None \<Rightarrow> None | Some after \<Rightarrow> skip_blanks_comments after)
      else Some rest)"
  by auto
termination
proof (relation "measure length", goal_cases)
  case (2 rest x after)
  have "length (dropWhile blank rest) \<le> length rest" by (rule length_dropWhile_le)
  with 2 length_skip_comment [OF 2(3)] show ?case by simp
qed simp

declare skip_blanks_comments.simps [simp del]

definition cc_pp_include_name :: "nat \<Rightarrow> pp_reader \<Rightarrow> pp \<Rightarrow> ((mem \<times> bool) \<times> pp_reader \<times> pp) res" where
  "cc_pp_include_name fuel r st =
     andthen (of_option (skip_blanks_comments (drop (rd_at r) (rd_text r)))) (\<lambda>rest.
       if rest \<noteq> [] \<and> (hd rest = 34 \<or> hd rest = 60) then
         (let quote = (hd rest = 34); close = (if quote then 34 else 62);
              name = takeWhile (\<lambda>b. b \<noteq> close) (tl rest); after = dropWhile (\<lambda>b. b \<noteq> close) (tl rest) in
          if \<not> header_bytes_ok name \<or> after = [] \<or> name = [] then stopped
          else andthen (ends_line (r\<lparr>rd_at := length (rd_text r) - length (tl after)\<rparr>) st) (\<lambda>(r, st).
            Done ((name, quote), r, st)))
       else
         andthen (of_option (line_tokens st r)) (\<lambda>(ts, r).
           andthen (of_option (cc_pp_node_new ts st)) (\<lambda>(nodes, st).
             andthen (cc_pp_rescan fuel nodes st) (\<lambda>(nodes, st).
               andthen (of_option (cc_pp_header_tokens (map nd_token nodes))) (\<lambda>name.
                 Done (name, r, cc_pp_list_release nodes st))))))"

definition cc_pp_include_directive :: "nat \<Rightarrow> bool \<Rightarrow> pp_reader \<Rightarrow> pp \<Rightarrow> (pp_reader \<times> pp) res" where
  "cc_pp_include_directive fuel is_next r st =
     andthen (cc_pp_include_name fuel r st) (\<lambda>((name, quote), r, st).
       case cc_pp_include_find st name quote is_next of
         None \<Rightarrow> stopped
       | Some (file, root) \<Rightarrow>
           Done (r, if pp_file_once st ! file then st else st\<lparr>pp_include_file := Some file, pp_include_root := root\<rparr>))"

definition cc_pp_pragma :: "pp_reader \<Rightarrow> pp \<Rightarrow> (pp_reader \<times> pp) res" where
  "cc_pp_pragma r st =
     (case pp_next st r of (t, r) \<Rightarrow>
      andthen (ends_line r st) (\<lambda>(r, st).
        if \<not> cc_pp_is t ''once'' \<or> pp_current_file st \<ge> length (pp_files st) then stopped
        else Done (r, st\<lparr>pp_file_once := (pp_file_once st)[pp_current_file st := True]\<rparr>)))"

section \<open>Definitions\<close>

text \<open>The checks of a body: every \<open>__VA_OPT__\<close> is closed and does not begin or end with \<open>##\<close>.\<close>

function va_opts_ok :: "pp_token list \<Rightarrow> bool" where
  "va_opts_ok [] = True"
| "va_opts_ok (b # rest) =
     (if \<not> cc_pp_is b ''__VA_OPT__'' then va_opts_ok rest
      else case cc_pp_va_opt_end (b # rest) of
        None \<Rightarrow> False
      | Some e \<Rightarrow>
          \<not> (e > 2 \<and> (cc_pp_is ((b # rest) ! 2) ''##'' \<or> cc_pp_is ((b # rest) ! (e - 1)) ''##''))
          \<and> va_opts_ok (drop e rest))"
  by pat_completeness auto
termination
  by (relation "measure length") auto

text \<open>Behind every \<open>#\<close> stands a parameter or \<open>__VA_OPT__\<close>.\<close>

fun stringify_ok :: "pp \<Rightarrow> pp_parameters \<Rightarrow> pp_token list \<Rightarrow> bool" where
  "stringify_ok st p [] = True"
| "stringify_ok st p (b # rest) =
     (if \<not> cc_pp_is b ''#'' then stringify_ok st p rest
      else case rest of
        [] \<Rightarrow> False
      | x # rest \<Rightarrow>
          (cc_pp_parameter_index st p x \<noteq> None \<or> par_variadic p \<and> cc_pp_is x ''__VA_OPT__'') \<and> stringify_ok st p rest)"

definition body_ok :: "pp \<Rightarrow> pp_token list \<Rightarrow> pp_parameters option \<Rightarrow> bool" where
  "body_ok st body p \<longleftrightarrow>
     length (pp_tokens st) + length body \<le> CC_PP_TOKENS \<and>
     (body \<noteq> [] \<longrightarrow> \<not> cc_pp_is (hd body) ''##'' \<and> \<not> cc_pp_is (last body) ''##'') \<and>
     (case p of None \<Rightarrow> True | Some p \<Rightarrow> (par_variadic p \<longrightarrow> va_opts_ok body) \<and> stringify_ok st p body)"

text \<open>The entry of a name in the table of macros, made if there is none.\<close>

definition macro_entry :: "pp_token \<Rightarrow> pp \<Rightarrow> (nat \<times> pp) option" where
  "macro_entry name st =
     (case cc_pp_find st name of
        Some i \<Rightarrow> Some (i, st)
      | None \<Rightarrow>
          if length (pp_macros st) = CC_PP_MACROS then None
          else Some (length (pp_macros st), st\<lparr>pp_macros := pp_macros st @
            [\<lparr>mac_name = name, mac_first = 0, mac_count = 0, mac_parameter_first = 0, mac_parameter_count = 0,
              mac_present = False, mac_function = False, mac_variadic = False\<rparr>]\<rparr>))"

text \<open>
  \<open>#define\<close>: a parenthesis right behind the name opens a parameter list. The line behind the
  name is read once for each of the two forms.
\<close>

definition define_macro :: "pp_token \<Rightarrow> pp_reader \<Rightarrow> pp \<Rightarrow> (pp_reader \<times> pp) res" where
  "define_macro name r st =
     (case pp_next st r of (t, behind) \<Rightarrow>
        if rd_failed behind then stopped
        else
          andthen (of_option (macro_entry name st)) (\<lambda>(i, st).
            let function_like = (tok_kind t = kind_open \<and> tok_at t = tok_at name + length (tok_text name)) in
            andthen (of_option (if function_like
                then map_option (\<lambda>(p, r, st). (Some p, r, st)) (cc_pp_read_parameters behind st)
                else Some (None, r, st))) (\<lambda>(p, r, st).
              andthen (of_option (line_tokens st r)) (\<lambda>(body, r).
                if \<not> body_ok st body p then stopped
                else
                  let m = \<lparr>mac_name = mac_name (pp_macros st ! i), mac_first = length (pp_tokens st), mac_count = length body,
                        mac_parameter_first = (case p of None \<Rightarrow> 0 | Some p \<Rightarrow> par_first p),
                        mac_parameter_count = (case p of None \<Rightarrow> 0 | Some p \<Rightarrow> par_count p),
                        mac_present = True, mac_function = (p \<noteq> None),
                        mac_variadic = (case p of None \<Rightarrow> False | Some p \<Rightarrow> par_variadic p)\<rparr>
                  in Done (r, st\<lparr>pp_macros := (pp_macros st)[i := m], pp_tokens := pp_tokens st @ body\<rparr>)))))"

definition undef_macro :: "pp_token \<Rightarrow> pp_reader \<Rightarrow> pp \<Rightarrow> (pp_reader \<times> pp) res" where
  "undef_macro name r st =
     (let query = cc_pp_query_symbol name;
          st = (if query \<noteq> 0 then st\<lparr>pp_query_enabled := (pp_query_enabled st)[query - 1 := False]\<rparr> else st) in
      andthen (ends_line r st) (\<lambda>(r, st).
        Done (r, case cc_pp_find st name of
          None \<Rightarrow> st
        | Some i \<Rightarrow> st\<lparr>pp_macros := (pp_macros st)[i := (pp_macros st ! i)\<lparr>mac_present := False\<rparr>]\<rparr>)))"

section \<open>Directives and the main loop\<close>

definition cc_pp_directive :: "nat \<Rightarrow> pp_reader \<Rightarrow> pp \<Rightarrow> (pp_reader \<times> pp) res" where
  "cc_pp_directive fuel r st =
     (case pp_next st r of (d, r) \<Rightarrow>
        if line_end d then (if rd_failed r then stopped else Done (r, st))
        else case cc_pp_condition_directive fuel r d st of
          Some result \<Rightarrow> result
        | None \<Rightarrow>
            if \<not> pp_enabled st then cc_pp_skip_line r st
            else if cc_pp_is d ''include'' \<or> cc_pp_is d ''include_next''
            then cc_pp_include_directive fuel (cc_pp_is d ''include_next'') r st
            else if cc_pp_is d ''pragma'' then cc_pp_pragma r st
            else if cc_pp_is d ''define'' \<or> cc_pp_is d ''undef'' then
              (case pp_next st r of (name, r) \<Rightarrow>
                 if rd_failed r \<or> tok_kind name \<noteq> CC_PP_IDENT then stopped
                 else if cc_pp_is d ''define'' then define_macro name r st
                 else undef_macro name r st)
            else stopped)"

text \<open>The reader on a file of the bundle.\<close>

definition bundle_reader :: "pp \<Rightarrow> nat \<Rightarrow> pp_reader" where
  "bundle_reader st file = \<lparr>rd_text = snd (pp_files st ! file), rd_at = 0, rd_failed = False\<rparr>"

text \<open>After a directive: enter the file it asked for.\<close>

definition enter_file :: "pp_reader \<Rightarrow> pp \<Rightarrow> (pp_reader \<times> pp) res" where
  "enter_file r st =
     (case pp_include_file st of
        None \<Rightarrow> Done (r, st)
      | Some file \<Rightarrow>
          if length (pp_include_stack st) = CC_PP_INCLUDE_DEPTH then stopped
          else
            let frame = \<lparr>fr_reader = r, fr_file = pp_current_file st, fr_floor = pp_group_floor st,
                  fr_root = pp_current_root st\<rparr> in
            Done (bundle_reader st file,
              st\<lparr>pp_include_stack := frame # pp_include_stack st, pp_current_file := file,
                 pp_current_root := pp_include_root st, pp_include_file := None,
                 pp_group_floor := length (pp_groups st)\<rparr>))"

definition leave_file :: "pp \<Rightarrow> pp_reader \<times> pp" where
  "leave_file st =
     (let frame = hd (pp_include_stack st) in
      (fr_reader frame, st\<lparr>pp_include_stack := tl (pp_include_stack st), pp_current_file := fr_file frame,
         pp_current_root := fr_root frame, pp_group_floor := fr_floor frame\<rparr>))"

text \<open>
  The loop: \<open>nodes\<close> are the tokens not expanded yet, \<open>beginning\<close> holds at the begin of a line.
  The result is the output. The inclusions make the number of rounds depend on the files.
\<close>

fun main_loop :: "nat \<Rightarrow> pp_reader \<Rightarrow> pp_node list \<Rightarrow> bool \<Rightarrow> pp \<Rightarrow> mem res" where
  "main_loop 0 r nodes beginning st = Undefined"
| "main_loop (Suc fuel) r nodes beginning st =
     (let st = st\<lparr>pp_skipping := \<not> pp_enabled st\<rparr> in
      case pp_next st r of (t, r) \<Rightarrow>
        if rd_failed r then stopped
        else if tok_kind t = 0 then
          (if length (pp_groups st) \<noteq> pp_group_floor st then stopped
           else if pp_include_stack st = [] then
             (if pp_groups st \<noteq> [] then stopped
              else andthen (cc_pp_flush fuel nodes st) (\<lambda>st. Done (pp_output st)))
           else
             andthen (cc_pp_flush fuel nodes st) (\<lambda>st.
               case leave_file st of (r, st) \<Rightarrow> main_loop fuel r [] True st))
        else if beginning \<and> cc_pp_is t ''#'' then
          andthen (cc_pp_flush_prefix fuel nodes st) (\<lambda>(nodes, st).
            andthen (cc_pp_directive fuel r st) (\<lambda>(r, st).
              andthen (enter_file r st) (\<lambda>(r, st). main_loop fuel r nodes True st)))
        else if pp_enabled st then
          andthen (of_option (cc_pp_node_new [t] st)) (\<lambda>(new, st).
            main_loop fuel r (nodes @ new) (tok_kind t = kind_newline) st)
        else main_loop fuel r nodes (tok_kind t = kind_newline) st)"

definition cc_pp_start :: "cc_input_file list \<Rightarrow> mem list \<Rightarrow> nat \<Rightarrow> pp" where
  "cc_pp_start files roots current =
     \<lparr>pp_hide = cc_pp_hide_reset, pp_macros = [], pp_tokens = [], pp_text_count = 0, pp_output = [],
      pp_parameter_names = [], pp_nodes_used = 0, pp_frozen_used = 0, pp_enabled = True, pp_skipping = False,
      pp_in_condition = False, pp_query_enabled = replicate 5 True, pp_groups = [], pp_group_floor = 0,
      pp_include_stack = [], pp_current_file = current, pp_current_root = None, pp_include_file = None,
      pp_include_root = None, pp_file_once = replicate CC_FILES_MAX False, pp_files = files, pp_roots = roots\<rparr>"

text \<open>A file after the translation phase before, which stays inside its buffer.\<close>

definition phase2_file :: "cc_input_file \<Rightarrow> cc_input_file option" where
  "phase2_file f = map_option (\<lambda>(text, size). (fst f, take size text))
     (cc_preprocess_phase2_text (snd f) (length (snd f)) 0 0)"

primrec phase2_files :: "cc_input_file list \<Rightarrow> cc_input_file list option" where
  "phase2_files [] = Some []"
| "phase2_files (f # fs) = do { f \<leftarrow> phase2_file f; fs \<leftarrow> phase2_files fs; Some (f # fs) }"

definition cc_preprocess_macros :: "nat \<Rightarrow> mem \<Rightarrow> mem res" where
  "cc_preprocess_macros fuel source =
     (if cc_files_magic source then
        andthen (of_option (cc_files_decode source)) (\<lambda>(main_file, roots, files).
          case phase2_files files of
            None \<Rightarrow> Undefined
          | Some files \<Rightarrow>
              let st = cc_pp_start files roots main_file in main_loop fuel (bundle_reader st main_file) [] True st)
      else main_loop fuel \<lparr>rd_text = source, rd_at = 0, rd_failed = False\<rparr> [] True (cc_pp_start [] [] CC_FILES_MAX))"

end
