(* ===== verification/PpFrame.thy ===== *)
theory PpFrame
  imports PpMain
begin

text \<open>
  What expansion leaves alone: it changes the hide sets, the fill counts of the text buffer, the
  nodes and the frozen macros, and nothing else of the state. \<open>tables\<close> is the rest of the state.
\<close>

definition tables :: "pp \<Rightarrow> pp" where
  "tables st = st\<lparr>pp_hide := \<lparr>hide_sets = [], hide_slots = []\<rparr>, pp_text_count := 0, pp_nodes_used := 0, pp_frozen_used := 0\<rparr>"

lemma tables_updates [simp]:
  "tables (st\<lparr>pp_hide := h\<rparr>) = tables st" "tables (st\<lparr>pp_text_count := n\<rparr>) = tables st"
  "tables (st\<lparr>pp_nodes_used := n\<rparr>) = tables st" "tables (st\<lparr>pp_frozen_used := n\<rparr>) = tables st"
  by (simp_all add: tables_def)

lemma tables_eqD:
  assumes "tables st' = tables st"
  shows "pp_macros st' = pp_macros st" "pp_tokens st' = pp_tokens st" "pp_parameter_names st' = pp_parameter_names st"
    "pp_output st' = pp_output st" "pp_enabled st' = pp_enabled st" "pp_groups st' = pp_groups st"
    "pp_group_floor st' = pp_group_floor st" "pp_query_enabled st' = pp_query_enabled st"
    "pp_in_condition st' = pp_in_condition st" "pp_skipping st' = pp_skipping st"
  using assms by (auto simp: tables_def dest: arg_cong [where f = pp_macros] arg_cong [where f = pp_tokens]
      arg_cong [where f = pp_parameter_names] arg_cong [where f = pp_output] arg_cong [where f = pp_enabled]
      arg_cong [where f = pp_groups] arg_cong [where f = pp_group_floor] arg_cong [where f = pp_query_enabled]
      arg_cong [where f = pp_in_condition] arg_cong [where f = pp_skipping])

lemma res_simps [simp]:
  "andthen r f = Done x \<longleftrightarrow> (\<exists>y. r = Done y \<and> f y = Done x)" "of_option o' = Done x \<longleftrightarrow> o' = Some x" "stopped \<noteq> Done x"
  by (cases r; simp) (cases o'; simp add: stopped_def)+

named_theorems frame \<open>f st = Some (x, st') ==> tables st' = tables st\<close>

lemma on_hide_tables [frame]: "on_hide f st = Some (x, st') \<Longrightarrow> tables st' = tables st"
  by (auto simp: on_hide_def bind_eq_Some_conv)

lemma text_room_tables [frame]: "text_room n st = Some st' \<Longrightarrow> tables st' = tables st"
  by (auto simp: text_room_def split: if_splits)

lemma node_new_tables [frame]: "cc_pp_node_new ts st = Some (x, st') \<Longrightarrow> tables st' = tables st"
  by (auto simp: cc_pp_node_new_def split: if_splits)

lemma freeze_tables [frame]: "cc_pp_freeze st = Some st' \<Longrightarrow> tables st' = tables st"
  by (auto simp: cc_pp_freeze_def split: if_splits)

lemma list_release_tables [simp]: "tables (cc_pp_list_release ns st) = tables st"
  by (simp add: cc_pp_list_release_def)

lemma paste_tables [frame]: "cc_pp_paste a b st = Some (x, st') \<Longrightarrow> tables st' = tables st"
  by (auto simp: cc_pp_paste_def bind_eq_Some_conv Let_def case_prod_beta split: if_splits dest!: frame)

lemma string_token_tables [frame]: "string_token body st = Some (x, st') \<Longrightarrow> tables st' = tables st"
  by (auto simp: string_token_def bind_eq_Some_conv dest!: frame)

lemma stringify_tables [frame]:
  "cc_pp_stringify r st = Some (x, st') \<Longrightarrow> tables st' = tables st"
  "cc_pp_stringify_tokens ts st = Some (x, st') \<Longrightarrow> tables st' = tables st"
  by (auto simp: cc_pp_stringify_def cc_pp_stringify_tokens_def bind_eq_Some_conv dest!: frame)

lemma paste_piece_tables [frame]: "paste_piece piece s st = Some (x, st') \<Longrightarrow> tables st' = tables st"
  by (auto simp: paste_piece_def bind_eq_Some_conv Let_def split: if_splits dest!: frame)

lemma put_piece_tables [frame]: "put_piece capacity leading piece s st = Some (x, st') \<Longrightarrow> tables st' = tables st"
  by (auto simp: put_piece_def bind_eq_Some_conv Let_def split: if_splits list.splits dest!: frame)

text \<open>What a round of \<open>object_tokens\<close> does, one case for each form.\<close>

lemma object_tokens_cases:
  assumes "object_tokens hidden (t # rest) st = Some (ts, st')"
  obtains (paste) right rest1 joined st1
    where "rest \<noteq> [] \<and> cc_pp_is (hd rest) ''##''" "dropWhile (\<lambda>b. cc_pp_is b ''##'') rest = right # rest1"
      "cc_pp_paste t right st = Some (joined, st1)" "object_tokens hidden (joined # rest1) st1 = Some (ts, st')"
  | (copy) merged st1 us
    where "\<not> (rest \<noteq> [] \<and> cc_pp_is (hd rest) ''##'')"
      "on_hide (cc_pp_hide_merge (tok_hidden t) hidden False) st = Some (merged, st1)"
      "object_tokens hidden rest st1 = Some (us, st')" "ts = t\<lparr>tok_hidden := merged\<rparr> # us"
proof (cases "rest \<noteq> [] \<and> cc_pp_is (hd rest) ''##''")
  case True
  then show ?thesis using assms paste
    by (subst (asm) object_tokens.simps) (simp split: list.splits option.splits prod.splits)
next
  case False
  then show ?thesis using assms copy by (subst (asm) object_tokens.simps) (auto split: option.splits)
qed

lemma object_tokens_tables [frame]: "object_tokens hidden ts st = Some (x, st') \<Longrightarrow> tables st' = tables st"
proof (induction hidden ts st arbitrary: x st' rule: object_tokens.induct)
  case (2 hidden t rest st)
  from 2(3) show ?case
  proof (cases rule: object_tokens_cases)
    case (paste right rest1 joined st1)
    then show ?thesis using 2(1) [OF paste(1,2,3) refl paste(4)] paste_tables by metis
  next
    case (copy merged st1 us)
    then show ?thesis using 2(2) [OF copy(1,2) refl copy(3)] on_hide_tables by metis
  qed
qed (simp add: object_tokens.simps)

lemma merge_hidden_tables [frame]: "merge_hidden hidden ns st = Some (x, st') \<Longrightarrow> tables st' = tables st"
  by (induction ns arbitrary: st x) (auto simp: bind_eq_Some_conv dest!: on_hide_tables)

lemma substitute_step:
  assumes "substitute_rest p args capacity (b # rest) s st = Some r"
    and inner: "\<And>ts s st1 us st2. length ts \<le> length rest \<Longrightarrow> substitute_rest p args capacity ts s st1 = Some (us, st2)
      \<Longrightarrow> tables st2 = tables st1"
  shows "\<exists>rest1 s1 st1. length rest1 \<le> length rest \<and> tables st1 = tables st \<and> substitute_rest p args capacity rest1 s1 st1 = Some r"
proof (cases "cc_pp_is b ''##''")
  case True
  then show ?thesis using assms(1) by (subst (asm) substitute_rest.simps) (auto split: if_splits)
next
  case False
  define comma where "comma = (par_variadic p \<and> tok_kind b = kind_comma \<and> length rest \<ge> 2 \<and> cc_pp_is (rest ! 0) ''##''
    \<and> 0 < par_count p \<and> cc_pp_parameter_index st p (rest ! 1) = Some (par_count p - 1))"
  define s1 where "s1 = (if comma then s\<lparr>sub_comma_paste := True\<rparr> else s)"
  define token where "token = (if cc_pp_is b ''#'' then hd rest else b)"
  define after where "after = (if cc_pp_is b ''#'' then tl rest else rest)"
  have len: "length after \<le> length rest" by (simp add: after_def)
  define Q where "Q \<longleftrightarrow> (\<exists>rest1 s1 st1. length rest1 \<le> length rest \<and> tables st1 = tables st \<and> substitute_rest p args capacity rest1 s1 st1 = Some r)"
  have found: "substitute_rest p args capacity rest1 s1 st1 = Some r \<Longrightarrow> length rest1 \<le> length rest \<Longrightarrow> tables st1 = tables st \<Longrightarrow> Q"
    for rest1 s1 st1 unfolding Q_def by blast
  have inner_part: "substitute_rest p args capacity (take k (drop j after)) s st1 = Some (us, st2) \<Longrightarrow> tables st2 = tables st1"
    for k j s st1 us st2 using len by (intro inner) simp_all
  have found_drop: "substitute_rest p args capacity (drop j after) s1 st1 = Some r \<Longrightarrow> tables st1 = tables st \<Longrightarrow> Q" for j s1 st1
    by (rule found, assumption) (use len in simp_all)
  have found_end: "substitute_rest p args capacity [] s1 st1 = Some r \<Longrightarrow> tables st1 = tables st \<Longrightarrow> Q" for s1 st1
    by (rule found, assumption) simp_all
  have found_after: "substitute_rest p args capacity after s1 st1 = Some r \<Longrightarrow> tables st1 = tables st \<Longrightarrow> Q" for s1 st1
    by (rule found, assumption) (use len in simp_all)
  note step = assms(1) [unfolded substitute_rest.simps Let_def if_not_P [OF False] comma_def [symmetric] s1_def [symmetric]
      token_def [symmetric] after_def [symmetric]]
  have Q
  proof (cases "comma \<and> arg_omitted (args ! (par_count p - 1))")
    case True
    then show Q using step by (simp add: found)
  next
    case omitted: False
    show Q
    proof (cases "par_variadic p \<and> cc_pp_is token ''__VA_OPT__''")
      case True
      then show Q using step omitted
        by (simp split: if_splits option.splits prod.splits)
          (auto dest!: put_piece_tables stringify_tables inner_part intro: found_drop found_end)
    next
      case False
      then show Q using step omitted
        by (simp split: if_splits option.splits prod.splits)
          (auto dest!: put_piece_tables stringify_tables intro: found_after)
    qed
  qed
  then show ?thesis unfolding Q_def .
qed

lemma substitute_rest_tables [frame]:
  "substitute_rest p args capacity ts s st = Some (us, st') \<Longrightarrow> tables st' = tables st"
proof (induction "length ts" arbitrary: ts s st us st' rule: less_induct)
  case less
  show ?case
  proof (cases ts)
    case Nil
    then show ?thesis using less.prems by (simp add: substitute_rest.simps)
  next
    case (Cons b rest)
    have "\<exists>rest1 s1 st1. length rest1 \<le> length rest \<and> tables st1 = tables st \<and>
        substitute_rest p args capacity rest1 s1 st1 = Some (us, st')"
      by (rule substitute_step [OF less.prems [unfolded Cons]]) (rule less.hyps, simp_all add: Cons)
    then obtain rest1 s1 st1 where *: "length rest1 \<le> length rest" "tables st1 = tables st"
        "substitute_rest p args capacity rest1 s1 st1 = Some (us, st')"
      by blast
    then show ?thesis using less.hyps [OF _ *(3)] by (simp add: Cons)
  qed
qed

section \<open>Rescanning\<close>

definition keeps_tables :: "rescan_fun \<Rightarrow> bool" where
  "keeps_tables sub \<longleftrightarrow> (\<forall>ns st ms st'. sub ns st = Done (ms, st') \<longrightarrow> tables st' = tables st)"

lemma keeps_tablesD: "keeps_tables sub \<Longrightarrow> sub ns st = Done (ms, st') \<Longrightarrow> tables st' = tables st"
  by (simp add: keeps_tables_def)

lemma call_argument_tables:
  "keeps_tables sub \<Longrightarrow> call_argument sub p body i v st = Done (a, st') \<Longrightarrow> tables st' = tables st"
  by (auto simp: call_argument_def Let_def split: if_splits dest!: node_new_tables keeps_tablesD [rotated])

lemma call_arguments_tables:
  "keeps_tables sub \<Longrightarrow> call_arguments sub p body i vs st = Done (as, st') \<Longrightarrow> tables st' = tables st"
  by (induction vs arbitrary: i st as) (auto dest!: call_argument_tables [rotated])

lemma function_replace_tables:
  "keeps_tables sub \<Longrightarrow> cc_pp_function_replace sub m ns depth st = Done (x, st') \<Longrightarrow> tables st' = tables st"
  by (auto simp: cc_pp_function_replace_def cc_pp_substitute_def Let_def split: option.splits if_splits
      dest!: call_arguments_tables [rotated] substitute_rest_tables node_new_tables)

lemma query_expand_tables:
  "keeps_tables sub \<Longrightarrow> cc_pp_query_expand sub kind depth n ns st = Done (ms, st') \<Longrightarrow> tables st' = tables st"
  by (auto simp: cc_pp_query_expand_def split: option.splits if_splits list.splits
      dest!: node_new_tables keeps_tablesD [of sub, rotated])

lemma replace_object_tables [frame]: "replace_object m i n ns st = Some (ms, st') \<Longrightarrow> tables st' = tables st"
  by (auto simp: replace_object_def bind_eq_Some_conv dest!: on_hide_tables object_tokens_tables node_new_tables)

lemma replace_call_tables:
  "keeps_tables sub \<Longrightarrow> replace_call sub depth m i n gap behind st = Done (ms, st') \<Longrightarrow> tables st' = tables st"
  by (auto simp: replace_call_def bind_eq_Some_conv dest!: on_hide_tables function_replace_tables [rotated] merge_hidden_tables)

lemma rescan_tables:
  "cc_pp_rescan_depth fuel incomplete depth ns st = Done (ms, blocked, st') \<Longrightarrow> tables st' = tables st"
proof (induction fuel arbitrary: incomplete depth ns st ms blocked st')
  case 0
  then show ?case by (cases ns) simp_all
next
  case (Suc fuel)
  show ?case
  proof (cases ns)
    case Nil
    then show ?thesis using Suc.prems by simp
  next
    case (Cons n rest)
    have sub: "keeps_tables (\<lambda>ns st. andthen (cc_pp_rescan_depth fuel False (Suc depth) ns st) (\<lambda>(ms, _, st). Done (ms, st)))"
      using Suc.IH by (auto simp: keeps_tables_def)
    note keep = query_expand_tables [OF sub] replace_call_tables [OF sub] replace_object_tables freeze_tables on_hide_tables Suc.IH
    show ?thesis using Suc.prems unfolding Cons
      by (auto simp: Let_def scanned_def split: if_splits option.splits dest!: keep)
  qed
qed

lemma cc_pp_rescan_tables: "cc_pp_rescan fuel ns st = Done (ms, st') \<Longrightarrow> tables st' = tables st"
  by (auto simp: cc_pp_rescan_def dest!: rescan_tables)

section \<open>The output\<close>

text \<open>What changes only by printing and expansion.\<close>

definition settings :: "pp \<Rightarrow> pp" where
  "settings st = (tables st)\<lparr>pp_output := []\<rparr>"

lemma settings_tables: "tables st' = tables st \<Longrightarrow> settings st' = settings st"
  by (simp add: settings_def)

lemma settings_output [simp]: "settings (st\<lparr>pp_output := out\<rparr>) = settings st"
  by (simp add: settings_def tables_def)

lemma settings_eqD:
  assumes "settings st' = settings st"
  shows "pp_macros st' = pp_macros st" "pp_enabled st' = pp_enabled st" "pp_groups st' = pp_groups st"
    "pp_group_floor st' = pp_group_floor st"
  using assms by (auto simp: settings_def tables_def dest: arg_cong [where f = pp_macros] arg_cong [where f = pp_enabled]
      arg_cong [where f = pp_groups] arg_cong [where f = pp_group_floor])

lemma emit_tokens_settings: "emit_tokens ts st = Some st' \<Longrightarrow> settings st' = settings st"
proof (induction ts arbitrary: st)
  case (Cons t ts)
  then obtain st1 where "cc_pp_emit t st = Some st1" "emit_tokens ts st1 = Some st'" by (auto simp: bind_eq_Some_conv)
  then show ?case using Cons.IH by (auto simp: cc_pp_emit_def Let_def split: if_splits)
qed simp

lemma flush_settings:
  assumes "cc_pp_flush fuel ns st = Done st'"
  shows "settings st' = settings st"
proof -
  obtain ms st1 st2 where "cc_pp_rescan fuel ns st = Done (ms, st1)" "emit_tokens (map nd_token ms) st1 = Some st2"
      "st' = cc_pp_list_release ms st2"
    using assms by (auto simp: cc_pp_flush_def)
  then show ?thesis
    using cc_pp_rescan_tables [THEN settings_tables] emit_tokens_settings settings_tables [OF list_release_tables] by metis
qed

lemma flush_prefix_settings:
  assumes "cc_pp_flush_prefix fuel ns st = Done (blocked, st')"
  shows "settings st' = settings st"
proof -
  obtain ms st1 st2 where "cc_pp_rescan_depth fuel True 0 ns st = Done (ms, blocked, st1)"
      "emit_tokens (map nd_token ms) st1 = Some st2" "st' = cc_pp_list_release ms st2"
    using assms by (auto simp: cc_pp_flush_prefix_def)
  then show ?thesis
    using rescan_tables [THEN settings_tables] emit_tokens_settings settings_tables [OF list_release_tables] by metis
qed

end
