(* ===== verification/PpGroups.thy ===== *)
theory PpGroups
  imports PpFrame PpLex
begin

text \<open>
  The conditional groups of preprocess_condition.h. The invariant of the array of groups is stated,
  every directive keeps it and leaves the groups of the including file alone, and a directive inside
  a group that is switched off changes the groups only.
\<close>

section \<open>What directives leave alone\<close>

definition ungrouped :: "pp \<Rightarrow> pp" where
  "ungrouped st = (tables st)\<lparr>pp_groups := [], pp_enabled := True, pp_skipping := False, pp_in_condition := False\<rparr>"

lemma ungrouped_updates [simp]:
  "ungrouped (st\<lparr>pp_groups := gs\<rparr>) = ungrouped st" "ungrouped (st\<lparr>pp_enabled := e\<rparr>) = ungrouped st"
  "ungrouped (st\<lparr>pp_skipping := b\<rparr>) = ungrouped st" "ungrouped (st\<lparr>pp_in_condition := b\<rparr>) = ungrouped st"
  by (simp_all add: ungrouped_def tables_def)

lemma ungrouped_tables: "tables st' = tables st \<Longrightarrow> ungrouped st' = ungrouped st"
  by (simp add: ungrouped_def)

lemma ungrouped_group [simp]: "ungrouped (open_group truth st) = ungrouped st" "ungrouped (set_group g st) = ungrouped st"
    "ungrouped (close_group st) = ungrouped st"
  by (simp_all add: open_group_def set_group_def close_group_def Let_def)

definition same_groups :: "pp \<Rightarrow> pp \<Rightarrow> bool" where
  "same_groups st st' \<longleftrightarrow> pp_enabled st' = pp_enabled st \<and> pp_groups st' = pp_groups st \<and> pp_group_floor st' = pp_group_floor st"

lemma same_groups_refl [simp]: "same_groups st st"
  by (simp add: same_groups_def)

lemma same_groups_trans: "same_groups a b \<Longrightarrow> same_groups b c \<Longrightarrow> same_groups a c"
  by (simp add: same_groups_def)

lemma same_groups_settings: "settings st' = settings st \<Longrightarrow> same_groups st st'"
  unfolding same_groups_def by (intro conjI; erule settings_eqD)

lemma same_groups_tables: "tables st' = tables st \<Longrightarrow> same_groups st st'"
  by (intro same_groups_settings settings_tables)

lemma ends_line_state: "ends_line r st = Done (r', st') \<Longrightarrow> st' = st"
  by (auto simp: ends_line_def split: prod.splits if_splits)

lemma skip_line_state: "cc_pp_skip_line r st = Done (r', st') \<Longrightarrow> st' = st"
  by (auto simp: cc_pp_skip_line_def)

lemma emit_tokens_state: "emit_tokens ts st = Some st' \<Longrightarrow> st' = st\<lparr>pp_output := pp_output st @ concat (map token_output ts)\<rparr>"
proof (induction ts arbitrary: st)
  case (Cons t ts)
  obtain st1 where t: "cc_pp_emit t st = Some st1" and ts: "emit_tokens ts st1 = Some st'" using Cons.prems by (auto simp: bind_eq_Some_conv)
  have "st1 = st\<lparr>pp_output := pp_output st @ token_output t\<rparr>"
    using t by (auto simp: cc_pp_emit_def token_output_def Let_def split: if_splits)
  then show ?case using Cons.IH [OF ts] by simp
qed simp

text \<open>The text of a condition is printed behind the output and taken back.\<close>

lemma condition_line_run_tables:
  assumes "cc_pp_condition_line_run fuel r st = Done (truth, r', st')"
  shows "tables st' = tables (st\<lparr>pp_skipping := False\<rparr>)"
proof -
  let ?st = "st\<lparr>pp_skipping := False\<rparr>"
  obtain ts nodes st1 st4 where new: "cc_pp_node_new ts ?st = Some (nodes, st1)" and flush: "cc_pp_flush fuel nodes st1 = Done st4"
      and st': "st' = st4\<lparr>pp_output := take (length (pp_output st)) (pp_output st4)\<rparr>"
    using assms by (auto simp: cc_pp_condition_line_run_def Let_def)
  obtain ms st2 st3 where rescan: "cc_pp_rescan fuel nodes st1 = Done (ms, st2)"
      and emit: "emit_tokens (map nd_token ms) st2 = Some st3" and st4: "st4 = cc_pp_list_release ms st3"
    using flush by (auto simp: cc_pp_flush_def)
  have st2: "tables st2 = tables ?st" using node_new_tables [OF new] cc_pp_rescan_tables [OF rescan] by simp
  then have start: "pp_output st2 = pp_output st" using tables_eqD(4) [OF st2] by simp
  have "pp_output (cc_pp_list_release ms s) = pp_output s" for s by (simp add: cc_pp_list_release_def)
  then have "st' = (cc_pp_list_release ms st2)\<lparr>pp_output := pp_output st2\<rparr>"
    unfolding st' st4 emit_tokens_state [OF emit] by (simp add: start cc_pp_list_release_def)
  then have "tables st' = tables st2" by (simp add: tables_def cc_pp_list_release_def)
  with st2 show ?thesis by simp
qed

lemma condition_line_run_groups: "cc_pp_condition_line_run fuel r st = Done (truth, r', st') \<Longrightarrow> same_groups st st'"
  by (drule condition_line_run_tables, drule same_groups_tables) (simp add: same_groups_def)

lemma condition_line_groups: "cc_pp_condition_line fuel r run st = Done (truth, r', st') \<Longrightarrow> same_groups st st'"
  by (auto simp: cc_pp_condition_line_def same_groups_def split: if_splits
      dest!: condition_line_run_groups skip_line_state)

lemma condition_line_ungrouped: "cc_pp_condition_line fuel r run st = Done (truth, r', st') \<Longrightarrow> ungrouped st' = ungrouped st"
  by (auto simp: cc_pp_condition_line_def split: if_splits
      dest!: condition_line_run_tables [THEN ungrouped_tables] skip_line_state)

lemma include_name_tables: "cc_pp_include_name fuel r st = Done (x, r', st') \<Longrightarrow> tables st' = tables st"
  by (auto simp: cc_pp_include_name_def Let_def split: if_splits prod.splits
      dest!: ends_line_state node_new_tables cc_pp_rescan_tables)

lemma include_directive_groups:
  assumes "cc_pp_include_directive fuel is_next r st = Done (r', st')"
  shows "same_groups st st'"
proof -
  obtain name r1 st1 found root where nm: "cc_pp_include_name fuel r st = Done (name, r1, st1)"
      and st': "st' = (if pp_file_once st1 ! found then st1 else st1\<lparr>pp_include_file := Some found, pp_include_root := root\<rparr>)"
    using assms by (force simp: cc_pp_include_directive_def split: option.splits)
  show ?thesis using same_groups_tables [OF include_name_tables [OF nm]] unfolding st' same_groups_def by simp
qed

lemma pragma_groups: "cc_pp_pragma r st = Done (r', st') \<Longrightarrow> same_groups st st'"
  by (auto simp: cc_pp_pragma_def same_groups_def split: prod.splits if_splits dest!: ends_line_state)

text \<open>A round reads one name, and the loop goes on behind a comma.\<close>

lemma read_parameter_step:
  assumes "read_parameter first t r st = Some (variadic, r', st')"
  obtains (last) st1 where "same_groups st st1" "st' = st1"
  | (more) st1 t3 r3 where "same_groups st st1" "length (rd_text r3) - rd_at r3 < length (rd_text r) - rd_at r"
      "read_parameter first t3 r3 st1 = Some (variadic, r', st')"
proof -
  have keeps: "same_groups st (st\<lparr>pp_parameter_names := names\<rparr>)" for names by (simp add: same_groups_def)
  show ?thesis using assms last [OF keeps] more [OF keeps]
    by (subst (asm) read_parameter.simps)
      (auto simp: Let_def split: if_splits prod.splits dest: pp_next_comma [OF sym _ sym])
qed

lemma read_parameter_groups: "read_parameter first t r st = Some (variadic, r', st') \<Longrightarrow> same_groups st st'"
proof (induction "length (rd_text r) - rd_at r" arbitrary: t r st rule: less_induct)
  case less
  from less.prems show ?case
  proof (cases rule: read_parameter_step)
    case (more st1 t3 r3)
    then show ?thesis using less.hyps same_groups_trans by blast
  qed simp
qed

lemma read_parameters_groups: "cc_pp_read_parameters r st = Some (p, r', st') \<Longrightarrow> same_groups st st'"
  by (auto simp: cc_pp_read_parameters_def Let_def bind_eq_Some_conv split: prod.splits if_splits
      dest!: read_parameter_groups)

lemma macro_entry_groups: "macro_entry name st = Some (i, st') \<Longrightarrow> same_groups st st'"
  by (auto simp: macro_entry_def same_groups_def split: option.splits if_splits)

lemma define_macro_groups: "define_macro name r st = Done (r', st') \<Longrightarrow> same_groups st st'"
  by (auto simp: define_macro_def same_groups_def Let_def split: prod.splits if_splits
      dest!: macro_entry_groups read_parameters_groups)

lemma undef_macro_groups: "undef_macro name r st = Done (r', st') \<Longrightarrow> same_groups st st'"
  by (auto simp: undef_macro_def same_groups_def Let_def split: option.splits if_splits dest!: ends_line_state)

section \<open>The invariant\<close>

text \<open>
  Each group's parent switch is the switch in which it was opened, and a group that is active was
  taken in an active parent.
\<close>

fun chained_groups :: "bool \<Rightarrow> pp_group list \<Rightarrow> bool" where
  "chained_groups enabled [] \<longleftrightarrow> enabled"
| "chained_groups enabled (g # gs) \<longleftrightarrow>
     gr_active g = enabled \<and> (gr_active g \<longrightarrow> gr_parent g \<and> gr_taken g) \<and> chained_groups (gr_parent g) gs"

lemma chained_groups_enabled: "chained_groups enabled gs \<Longrightarrow> enabled \<longleftrightarrow> list_all gr_active gs"
  by (induction gs arbitrary: enabled) auto

definition groups_ok :: "pp \<Rightarrow> bool" where
  "groups_ok st \<longleftrightarrow> chained_groups (pp_enabled st) (pp_groups st) \<and> pp_group_floor st \<le> length (pp_groups st)
     \<and> length (pp_groups st) \<le> 64"

text \<open>The groups of the files around the current one.\<close>

definition outer_groups :: "pp \<Rightarrow> pp_group list" where
  "outer_groups st = drop (length (pp_groups st) - pp_group_floor st) (pp_groups st)"

definition groups_step :: "pp \<Rightarrow> pp \<Rightarrow> bool" where
  "groups_step st st' \<longleftrightarrow> groups_ok st' \<and> outer_groups st' = outer_groups st \<and> pp_group_floor st' = pp_group_floor st"

lemma groups_step_same: "groups_ok st \<Longrightarrow> same_groups st st' \<Longrightarrow> groups_step st st'"
  by (simp add: groups_step_def groups_ok_def outer_groups_def same_groups_def)

lemma groups_step_before: "same_groups st st1 \<Longrightarrow> groups_step st1 st' \<Longrightarrow> groups_step st st'"
  by (auto simp: groups_step_def same_groups_def outer_groups_def)

lemma same_groups_ok: "same_groups st st' \<Longrightarrow> groups_ok st' \<longleftrightarrow> groups_ok st"
  by (simp add: same_groups_def groups_ok_def)

lemma open_group_step: "groups_ok st \<Longrightarrow> length (pp_groups st) \<noteq> 64 \<Longrightarrow> groups_step st (open_group truth st)"
  by (auto simp: groups_step_def groups_ok_def outer_groups_def open_group_def Let_def Suc_diff_le)

text \<open>The other operations are about the group on top, which belongs to the current file.\<close>

lemma set_group_step:
  assumes "groups_ok st" "length (pp_groups st) \<noteq> pp_group_floor st"
    and g: "gr_parent g = gr_parent (top_group st)" "gr_active g \<longrightarrow> gr_parent g \<and> gr_taken g"
  shows "groups_step st (set_group g st)"
proof (cases "pp_groups st")
  case Nil
  then show ?thesis using assms by (simp add: groups_ok_def)
next
  case (Cons h gs)
  then show ?thesis using assms
    by (auto simp: groups_step_def groups_ok_def outer_groups_def set_group_def top_group_def Suc_diff_le)
qed

lemma elif_group_step:
  "groups_ok st \<Longrightarrow> length (pp_groups st) \<noteq> pp_group_floor st \<Longrightarrow> groups_step st (set_group (elif_group truth (top_group st)) st)"
  by (rule set_group_step) (simp_all add: elif_group_def Let_def)

lemma else_group_step:
  "groups_ok st \<Longrightarrow> length (pp_groups st) \<noteq> pp_group_floor st \<Longrightarrow> groups_step st (set_group (else_group (top_group st)) st)"
  by (rule set_group_step) (simp_all add: else_group_def)

lemma close_group_step:
  assumes "groups_ok st" "length (pp_groups st) \<noteq> pp_group_floor st"
  shows "groups_step st (close_group st)"
proof (cases "pp_groups st")
  case Nil
  then show ?thesis using assms by (simp add: groups_ok_def)
next
  case (Cons h gs)
  then show ?thesis using assms
    by (auto simp: groups_step_def groups_ok_def outer_groups_def close_group_def top_group_def Suc_diff_le)
qed

lemma top_group_same: "same_groups st st' \<Longrightarrow> top_group st' = top_group st"
  by (simp add: top_group_def same_groups_def)

lemma condition_directive_step:
  assumes ok: "groups_ok st" and run: "cc_pp_condition_directive fuel r d st = Some (Done (r', st'))"
  shows "groups_step st st'"
proof -
  have opened: "groups_step st (open_group truth st1)" if same: "same_groups st st1" and few: "length (pp_groups st) \<noteq> 64" for truth st1
  proof (rule groups_step_before [OF same open_group_step])
    show "groups_ok st1" using ok by (simp only: same_groups_ok [OF same])
    show "length (pp_groups st1) \<noteq> 64" using few same by (simp add: same_groups_def)
  qed
  have elif: "groups_step st (set_group (elif_group truth (top_group st)) st1)"
    if same: "same_groups st st1" and own: "length (pp_groups st) \<noteq> pp_group_floor st" for truth st1
  proof (rule groups_step_before [OF same])
    have "groups_ok st1" using ok by (simp only: same_groups_ok [OF same])
    moreover have "length (pp_groups st1) \<noteq> pp_group_floor st1" using own same by (simp add: same_groups_def)
    ultimately show "groups_step st1 (set_group (elif_group truth (top_group st)) st1)"
      using elif_group_step [of st1 truth] unfolding top_group_same [OF same] by blast
  qed
  note def = cc_pp_condition_directive_def Let_def
  consider "cc_pp_is d ''if''" | "\<not> cc_pp_is d ''if''" "cc_pp_is d ''ifdef'' \<or> cc_pp_is d ''ifndef''"
    | "\<not> cc_pp_is d ''if''" "\<not> (cc_pp_is d ''ifdef'' \<or> cc_pp_is d ''ifndef'')" "cc_pp_is d ''elif''"
    | "\<not> cc_pp_is d ''if''" "\<not> (cc_pp_is d ''ifdef'' \<or> cc_pp_is d ''ifndef'')" "\<not> cc_pp_is d ''elif''" "cc_pp_is d ''else''"
    | "\<not> cc_pp_is d ''if''" "\<not> (cc_pp_is d ''ifdef'' \<or> cc_pp_is d ''ifndef'')" "\<not> cc_pp_is d ''elif''" "\<not> cc_pp_is d ''else''"
      "cc_pp_is d ''endif''"
  proof -
    have "cc_pp_is d ''if'' \<or> cc_pp_is d ''ifdef'' \<or> cc_pp_is d ''ifndef'' \<or> cc_pp_is d ''elif'' \<or> cc_pp_is d ''else''
        \<or> cc_pp_is d ''endif''"
      by (rule ccontr) (use run in \<open>simp add: def\<close>)
    then show thesis using that by blast
  qed
  then show ?thesis
  proof cases
    case 1
    then show ?thesis using run by (auto simp: def intro: opened dest!: condition_line_groups split: if_splits)
  next
    case 2
    then show ?thesis using run
      by (simp add: def split: if_splits prod.splits) (auto dest!: ends_line_state skip_line_state intro: opened)
  next
    case 3
    then show ?thesis using run by (auto simp: def intro: elif dest!: condition_line_groups split: if_splits)
  next
    case 4
    then show ?thesis using run ok by (auto simp: def intro: else_group_step dest!: ends_line_state split: if_splits)
  next
    case 5
    then show ?thesis using run ok by (auto simp: def intro: close_group_step dest!: ends_line_state split: if_splits)
  qed
qed

lemma condition_directive_ungrouped:
  assumes "cc_pp_condition_directive fuel r d st = Some (Done (r', st'))"
  shows "ungrouped st' = ungrouped st"
  using assms
  by (auto simp: cc_pp_condition_directive_def Let_def split: if_splits prod.splits
      dest!: condition_line_ungrouped ends_line_state skip_line_state)

lemma directive_step:
  assumes ok: "groups_ok st" and run: "cc_pp_directive fuel r st = Done (r', st')"
  shows "groups_step st st'"
proof -
  obtain d r1 where d: "pp_next st r = (d, r1)" by fastforce
  show ?thesis
  proof (cases "cc_pp_condition_directive fuel r1 d st")
    case None
    have "same_groups st st'" using run unfolding cc_pp_directive_def d
      by (simp add: None split: if_splits prod.splits)
        (auto dest: skip_line_state include_directive_groups pragma_groups define_macro_groups undef_macro_groups)
    with ok show ?thesis by (rule groups_step_same)
  next
    case (Some result)
    show ?thesis
    proof (cases "line_end d")
      case True
      then have "st' = st" using run unfolding cc_pp_directive_def d by (simp split: if_splits)
      with ok show ?thesis by (simp add: groups_step_same)
    next
      case False
      then have "result = Done (r', st')" using run unfolding cc_pp_directive_def d by (simp add: Some)
      with ok Some show ?thesis by (auto intro: condition_directive_step)
    qed
  qed
qed

text \<open>
  C21. In a group that is switched off a directive changes nothing but the conditional groups
  (\<open>ungrouped\<close> is the state without them and without the counters and hide sets of expansion): it
  defines, forgets, includes and prints nothing and marks no file, whatever its name is.
\<close>

theorem skipped_directive_harmless:
  assumes off: "\<not> pp_enabled st" and run: "cc_pp_directive fuel r st = Done (r', st')"
  shows "ungrouped st' = ungrouped st"
proof -
  obtain d r1 where d: "pp_next st r = (d, r1)" by fastforce
  show ?thesis
  proof (cases "line_end d \<or> cc_pp_condition_directive fuel r1 d st = None")
    case True
    then have "st' = st" using run off unfolding cc_pp_directive_def d by (auto split: if_splits dest: skip_line_state)
    then show ?thesis by simp
  next
    case False
    then have "cc_pp_condition_directive fuel r1 d st = Some (Done (r', st'))"
      using run unfolding cc_pp_directive_def d by auto
    then show ?thesis by (rule condition_directive_ungrouped)
  qed
qed

lemma skipped_directive_harmless_witness:
  "\<exists>r' st'. cc_pp_directive 9 \<lparr>rd_text = bytes_of ''define X 1'' @ [10], rd_at = 0, rd_failed = False\<rparr>
     (open_group False small_pp) = Done (r', st') \<and> ungrouped st' = ungrouped (open_group False small_pp)"
proof -
  let ?st = "open_group False small_pp"
  let ?r = "\<lparr>rd_text = bytes_of ''define X 1'' @ [10], rd_at = 0, rd_failed = False\<rparr>"
  have run: "cc_pp_directive 9 ?r ?st = Done (?r\<lparr>rd_at := 11\<rparr>, ?st)" by code_simp
  have "\<not> pp_enabled ?st" by code_simp
  from skipped_directive_harmless [OF this run] run show ?thesis by blast
qed

text \<open>
  C17. A directive keeps the conditional groups in order: at most 64 are open, text is read exactly
  when every open group is active, and a group is active only in an active parent, which it was
  taken in. A directive of an included file leaves the groups of the files around it as they were:
  it cannot close them or change their branch.
\<close>

theorem directive_keeps_groups:
  assumes "groups_ok st" and "cc_pp_directive fuel r st = Done (r', st')"
  shows "groups_ok st' \<and> pp_enabled st' = list_all gr_active (pp_groups st')
     \<and> pp_group_floor st' = pp_group_floor st \<and> outer_groups st' = outer_groups st"
  using directive_step [OF assms] by (auto simp: groups_step_def groups_ok_def dest: chained_groups_enabled)

lemma directive_keeps_groups_witness:
  "groups_ok (open_group True small_pp) \<and>
     (\<exists>r' st'. cc_pp_directive 9 \<lparr>rd_text = bytes_of '' else '' @ [10], rd_at = 0, rd_failed = False\<rparr>
        (open_group True small_pp) = Done (r', st') \<and> groups_ok st' \<and> \<not> pp_enabled st')"
proof -
  let ?st = "open_group True small_pp"
  let ?r = "\<lparr>rd_text = bytes_of '' else '' @ [10], rd_at = 0, rd_failed = False\<rparr>"
  have ok: "groups_ok ?st" by code_simp
  let ?st' = "set_group (else_group (top_group ?st)) ?st"
  have run: "cc_pp_directive 9 ?r ?st = Done (?r\<lparr>rd_at := 7\<rparr>, ?st')" by code_simp
  have "\<not> pp_enabled ?st'" by code_simp
  with directive_keeps_groups [OF ok run] ok run show ?thesis by blast
qed

end
