(* ===== verification/PpEnds.thy ===== *)
theory PpEnds
  imports PpFrame "HOL-Library.Multiset"
begin

text \<open>
  Rescanning a text without function-like macros ends. The result does not depend on the fuel once
  there is enough of it, and enough there is: a replacement puts names in the place of a name whose
  hide set is smaller than theirs, so the multiset of what the hide sets leave open gets smaller.
  What is left then is nothing that could be replaced.
\<close>

section \<open>More fuel\<close>

definition fuel_below :: "'a res \<Rightarrow> 'a res \<Rightarrow> bool" where
  "fuel_below r r' \<longleftrightarrow> r = Undefined \<or> r = r'"

lemma fuel_below_refl [simp]: "fuel_below r r"
  by (simp add: fuel_below_def)

lemma fuel_below_Undefined [simp]: "fuel_below Undefined r"
  by (simp add: fuel_below_def)

lemma fuel_below_andthen: "fuel_below r r' \<Longrightarrow> (\<And>x. fuel_below (f x) (f' x)) \<Longrightarrow> fuel_below (andthen r f) (andthen r' f')"
  unfolding fuel_below_def by (cases r) force+

lemma fuel_below_call_argument:
  "(\<And>ns st. fuel_below (sub ns st) (sub' ns st)) \<Longrightarrow> fuel_below (call_argument sub p body i v st) (call_argument sub' p body i v st)"
  by (auto simp: call_argument_def Let_def intro!: fuel_below_andthen split: prod.split)

lemma fuel_below_call_arguments:
  assumes "\<And>ns st. fuel_below (sub ns st) (sub' ns st)"
  shows "fuel_below (call_arguments sub p body i vs st) (call_arguments sub' p body i vs st)"
proof (induction vs arbitrary: i st)
  case (Cons v vs)
  then show ?case by (auto intro!: fuel_below_andthen fuel_below_call_argument assms split: prod.split)
qed simp

lemma fuel_below_function_replace:
  assumes "\<And>ns st. fuel_below (sub ns st) (sub' ns st)"
  shows "fuel_below (cc_pp_function_replace sub m ns depth st) (cc_pp_function_replace sub' m ns depth st)"
  by (auto simp: cc_pp_function_replace_def Let_def intro!: fuel_below_andthen fuel_below_call_arguments assms split: prod.split option.split)

lemma fuel_below_query_expand:
  assumes "\<And>ns st. fuel_below (sub ns st) (sub' ns st)"
  shows "fuel_below (cc_pp_query_expand sub kind depth n ns st) (cc_pp_query_expand sub' kind depth n ns st)"
  by (auto simp: cc_pp_query_expand_def intro!: fuel_below_andthen assms split: prod.split option.split list.split)

lemma fuel_below_replace_call:
  assumes "\<And>ns st. fuel_below (sub ns st) (sub' ns st)"
  shows "fuel_below (replace_call sub depth m i n gap behind st) (replace_call sub' depth m i n gap behind st)"
  by (auto simp: replace_call_def intro!: fuel_below_andthen fuel_below_function_replace assms split: prod.split)

lemma rescan_more_fuel:
  "fuel \<le> fuel' \<Longrightarrow> fuel_below (cc_pp_rescan_depth fuel incomplete depth ns st) (cc_pp_rescan_depth fuel' incomplete depth ns st)"
proof (induction fuel arbitrary: fuel' incomplete depth ns st)
  case 0
  then show ?case by (cases ns) (auto split: nat.split)
next
  case (Suc fuel)
  then obtain fuel2 where f: "fuel' = Suc fuel2" "fuel \<le> fuel2" by (cases fuel') auto
  note IH = Suc.IH [OF f(2)]
  have sub: "fuel_below (andthen (cc_pp_rescan_depth fuel False d ns st) (\<lambda>(done, _, st). Done (done, st)))
      (andthen (cc_pp_rescan_depth fuel2 False d ns st) (\<lambda>(done, _, st). Done (done, st)))" for d ns st
    by (intro fuel_below_andthen IH) simp
  show ?case
  proof (cases ns)
    case (Cons n rest)
    show ?thesis unfolding Cons f cc_pp_rescan_depth.simps Let_def scanned_def
      by (auto intro!: fuel_below_andthen fuel_below_query_expand fuel_below_replace_call IH sub split: option.split prod.split if_split)
  qed simp
qed

section \<open>Hide sets\<close>

definition known :: "pp \<Rightarrow> nat \<Rightarrow> bool" where
  "known st i \<longleftrightarrow> i < length (hide_sets (pp_hide st))"

definition set_of :: "pp \<Rightarrow> nat \<Rightarrow> nat set" where
  "set_of st i = hide_set (pp_hide st) i"

text \<open>Expansion only adds hide sets.\<close>

definition grows :: "pp \<Rightarrow> pp \<Rightarrow> bool" where
  "grows st st' \<longleftrightarrow> hide_extends (pp_hide st) (pp_hide st')"

lemma grows_ok: "grows st st' \<Longrightarrow> hide_ok (pp_hide st')"
  by (simp add: grows_def hide_extends_def)

lemma grows_trans: "grows a b \<Longrightarrow> grows b c \<Longrightarrow> grows a c"
  unfolding grows_def by (rule hide_extends_trans)

lemma grows_same: "hide_ok (pp_hide st) \<Longrightarrow> pp_hide st' = pp_hide st \<Longrightarrow> grows st st'"
  by (simp add: grows_def hide_extends_refl)

lemma grows_known: "grows st st' \<Longrightarrow> known st i \<Longrightarrow> known st' i"
  using hide_extends_set by (simp add: grows_def known_def)

lemma grows_set: "grows st st' \<Longrightarrow> known st i \<Longrightarrow> set_of st' i = set_of st i"
  using hide_extends_set by (simp add: grows_def known_def set_of_def)

lemma set_of_finite: "finite (set_of st i)" "card (set_of st i) \<le> CC_PP_MACROS"
proof -
  have sub: "set_of st i \<subseteq> {..<CC_PP_MACROS}" by (auto simp: set_of_def hide_set_def bits_set_def)
  then show "finite (set_of st i)" by (rule finite_subset) simp
  show "card (set_of st i) \<le> CC_PP_MACROS" using card_mono [OF _ sub] by simp
qed

lemma on_hide_add:
  assumes "on_hide (cc_pp_hide_add s m) st = Some (i, st')" and "hide_ok (pp_hide st)"
  shows "grows st st' \<and> known st' i \<and> set_of st' i = insert m (set_of st s)"
proof -
  have "s < length (hide_sets (pp_hide st))" "m < CC_PP_MACROS"
    using assms(1) by (auto simp: on_hide_def bind_eq_Some_conv cc_pp_hide_add_def split: if_splits)
  from hide_add_set [OF assms(2) this] show ?thesis
    using assms(1) by (auto simp: on_hide_def bind_eq_Some_conv grows_def known_def set_of_def)
qed

lemma on_hide_merge:
  assumes "on_hide (cc_pp_hide_merge s r c) st = Some (i, st')" and "hide_ok (pp_hide st)"
  shows "grows st st' \<and> known st' i \<and> set_of st' i = (if c then set_of st s \<inter> set_of st r else set_of st s \<union> set_of st r)"
proof -
  have "s < length (hide_sets (pp_hide st))" "r < length (hide_sets (pp_hide st))"
    using assms(1) by (auto simp: on_hide_def bind_eq_Some_conv cc_pp_hide_merge_def split: if_splits)
  from hide_merge_set [OF assms(2) this, of c] show ?thesis
    using assms(1) by (auto simp: on_hide_def bind_eq_Some_conv grows_def known_def set_of_def)
qed

lemma text_room_hide: "text_room n st = Some st' \<Longrightarrow> pp_hide st' = pp_hide st"
  by (auto simp: text_room_def split: if_splits)

lemma paste_hide:
  assumes "cc_pp_paste a b st = Some (t, st')" and ok: "hide_ok (pp_hide st)" and zero: "known st 0"
  shows "grows st st' \<and> known st' (tok_hidden t)"
proof -
  obtain st1 where room: "pp_hide st1 = pp_hide st"
    and "if tok_hidden a \<noteq> 0 \<or> tok_hidden b \<noteq> 0
      then on_hide (cc_pp_hide_merge (tok_hidden a) (tok_hidden b) True) st1 = Some (tok_hidden t, st')
      else tok_hidden t = 0 \<and> st' = st1"
    using assms(1) by (auto simp: cc_pp_paste_def bind_eq_Some_conv Let_def case_prod_beta split: if_splits dest!: text_room_hide)
  then show ?thesis
  proof (cases "tok_hidden a \<noteq> 0 \<or> tok_hidden b \<noteq> 0")
    case True
    then have "on_hide (cc_pp_hide_merge (tok_hidden a) (tok_hidden b) True) st1 = Some (tok_hidden t, st')"
      using \<open>if _ then _ else _\<close> by presburger
    from on_hide_merge [OF this] show ?thesis using ok room by (simp add: grows_def)
  next
    case False
    then have "tok_hidden t = 0 \<and> st' = st1" using \<open>if _ then _ else _\<close> by presburger
    then show ?thesis using ok room zero by (simp add: grows_same known_def)
  qed
qed


lemma object_tokens_hide:
  assumes "object_tokens hidden ts st = Some (us, st')" and "hide_ok (pp_hide st)" and "known st 0" and "known st hidden"
    and "\<forall>t\<in>set ts. known st (tok_hidden t)"
  shows "grows st st' \<and> (\<forall>u\<in>set us. known st' (tok_hidden u) \<and> set_of st hidden \<subseteq> set_of st' (tok_hidden u))"
  using assms
proof (induction hidden ts st arbitrary: us st' rule: object_tokens.induct)
  case (1 hidden st)
  then show ?case by (simp add: object_tokens.simps grows_same)
next
  case (2 hidden t rest st)
  from 2(3) show ?case
  proof (cases rule: object_tokens_cases)
    case (paste right rest1 joined st1)
    have step: "grows st st1" "known st1 (tok_hidden joined)" using paste_hide [OF paste(3) 2(4,5)] by auto
    have sub: "set rest1 \<subseteq> set rest"
    proof
      fix x assume "x \<in> set rest1"
      then have "x \<in> set (dropWhile (\<lambda>b. cc_pp_is b ''##'') rest)" unfolding paste(2) by simp
      then show "x \<in> set rest" by (rule set_dropWhileD)
    qed
    have "\<forall>t\<in>set (joined # rest1). known st1 (tok_hidden t)"
    proof
      fix t assume "t \<in> set (joined # rest1)"
      then show "known st1 (tok_hidden t)" using step(2) grows_known [OF step(1)] 2(7) sub by (cases "t = joined") auto
    qed
    from 2(1) [OF paste(1,2,3) refl paste(4) grows_ok [OF step(1)] grows_known [OF step(1) 2(5)] grows_known [OF step(1) 2(6)] this]
    have more: "grows st1 st' \<and> (\<forall>u\<in>set us. known st' (tok_hidden u) \<and> set_of st hidden \<subseteq> set_of st' (tok_hidden u))"
      unfolding grows_set [OF step(1) 2(6)] .
    show ?thesis using grows_trans [OF step(1) more [THEN conjunct1]] more [THEN conjunct2] by (rule conjI)
  next
    case (copy merged st1 vs)
    have step: "grows st st1" "known st1 merged" "set_of st hidden \<subseteq> set_of st1 merged" using on_hide_merge [OF copy(2) 2(4)] by auto
    have "\<forall>t\<in>set rest. known st1 (tok_hidden t)" using 2(7) grows_known [OF step(1)] by simp
    from 2(2) [OF copy(1,2) refl copy(3) grows_ok [OF step(1)] grows_known [OF step(1) 2(5)] grows_known [OF step(1) 2(6)] this]
    have more: "grows st1 st' \<and> (\<forall>u\<in>set vs. known st' (tok_hidden u) \<and> set_of st hidden \<subseteq> set_of st' (tok_hidden u))"
      unfolding grows_set [OF step(1) 2(6)] .
    have "known st' merged \<and> set_of st hidden \<subseteq> set_of st' merged"
      using grows_known [OF more [THEN conjunct1] step(2)] grows_set [OF more [THEN conjunct1] step(2)] step(3) by simp
    then show ?thesis using grows_trans [OF step(1) more [THEN conjunct1]] more [THEN conjunct2] by (simp add: copy(4))
  qed
qed

section \<open>What a replacement makes smaller\<close>

text \<open>How many macros a token could still stand for: none if it is not a name.\<close>

definition weight :: "pp \<Rightarrow> pp_token \<Rightarrow> nat" where
  "weight st t = (if tok_kind t = CC_PP_IDENT then CC_PP_MACROS + 1 - card (set_of st (tok_hidden t)) else 0)"

definition weights :: "pp \<Rightarrow> pp_node list \<Rightarrow> nat multiset" where
  "weights st ns = mset (map (\<lambda>n. weight st (nd_token n)) ns)"

lemma weights_simps [simp]: "weights st [] = {#}" "weights st (n # ns) = add_mset (weight st (nd_token n)) (weights st ns)"
    "weights st (ns @ ms) = weights st ns + weights st ms"
  by (simp_all add: weights_def)

lemma weights_with_space [simp]: "weights st (with_space b ns) = weights st ns"
  by (simp add: with_space_def weight_def split: list.split)

lemma weights_put_replacement [simp]: "weights st (put_replacement n ms ns) = weights st ms + weights st ns"
  by (simp add: put_replacement_def)

text \<open>The nodes of a list: no call was frozen among them, and their hide sets exist.\<close>

definition fresh :: "pp \<Rightarrow> pp_node list \<Rightarrow> bool" where
  "fresh st ns \<longleftrightarrow> (\<forall>n\<in>set ns. nd_frozen n = None \<and> known st (tok_hidden (nd_token n)))"

lemma fresh_simps [simp]: "fresh st []" "fresh st (ns @ ms) \<longleftrightarrow> fresh st ns \<and> fresh st ms"
    "fresh st (n # ns) \<longleftrightarrow> nd_frozen n = None \<and> known st (tok_hidden (nd_token n)) \<and> fresh st ns"
  by (auto simp: fresh_def)

lemma fresh_with_space [simp]: "fresh st (with_space b ns) \<longleftrightarrow> fresh st ns"
  by (simp add: with_space_def split: list.split)

lemma fresh_put_replacement [simp]: "fresh st (put_replacement n ms ns) \<longleftrightarrow> fresh st ms \<and> fresh st ns"
  by (simp add: put_replacement_def)

lemma fresh_grows: "grows st st' \<Longrightarrow> fresh st ns \<Longrightarrow> fresh st' ns"
  by (auto simp: fresh_def intro: grows_known)

lemma weights_grows: "grows st st' \<Longrightarrow> fresh st ns \<Longrightarrow> weights st' ns = weights st ns"
  by (induction ns) (simp_all add: weight_def grows_set)

text \<open>A state all of whose macros are object-like.\<close>

definition object_state :: "pp \<Rightarrow> bool" where
  "object_state st \<longleftrightarrow> hide_ok (pp_hide st) \<and> known st 0 \<and> (\<forall>t\<in>set (pp_tokens st). known st (tok_hidden t))
     \<and> (\<forall>m\<in>set (pp_macros st). mac_present m \<longrightarrow> \<not> mac_function m)"

lemma object_state_grows:
  assumes "object_state st" and "grows st st'" and "tables st' = tables st"
  shows "object_state st'"
  using assms(1,2) grows_ok [OF assms(2)] grows_known [OF assms(2)] tables_eqD(1,2) [OF assms(3)]
  by (simp add: object_state_def)

lemma replace_object_step:
  assumes run: "replace_object m i n ns st = Some (ns', st')" and ok: "object_state st" and nodes: "fresh st (n # ns)"
    and name: "tok_kind (nd_token n) = CC_PP_IDENT" and free: "i \<notin> set_of st (tok_hidden (nd_token n))"
  shows "grows st st' \<and> fresh st' ns' \<and> (weights st' ns', weights st (n # ns)) \<in> mult less_than"
proof -
  obtain hidden st1 ts st2 ms st3 where
      add: "on_hide (cc_pp_hide_add (tok_hidden (nd_token n)) i) st = Some (hidden, st1)"
      and object: "object_tokens hidden (macro_body st1 m) st1 = Some (ts, st2)"
      and new: "cc_pp_node_new ts st2 = Some (ms, st3)"
      and ns': "ns' = put_replacement n ms ns" and st': "st' = cc_pp_list_release [n] st3"
    using run by (auto simp: replace_object_def bind_eq_Some_conv)
  have ms: "ms = map new_node ts" and hide: "pp_hide st' = pp_hide st2"
    using new unfolding st' by (auto simp: cc_pp_node_new_def cc_pp_list_release_def split: if_splits)
  have same: "known st' = known st2" "set_of st' = set_of st2" "grows a st' = grows a st2" "weight st' = weight st2" for a
    by (auto simp: fun_eq_iff known_def set_of_def grows_def weight_def hide)
  have step1: "grows st st1" "known st1 hidden" "set_of st1 hidden = insert i (set_of st (tok_hidden (nd_token n)))"
    using on_hide_add [OF add] ok by (auto simp: object_state_def)
  have st1: "object_state st1" by (rule object_state_grows [OF ok step1(1) on_hide_tables [OF add]])
  then have body: "\<forall>t\<in>set (macro_body st1 m). known st1 (tok_hidden t)"
    by (auto simp: object_state_def macro_body_def dest!: in_set_takeD in_set_dropD)
  have step2: "grows st1 st2"
      "\<And>t. t \<in> set ts \<Longrightarrow> known st2 (tok_hidden t) \<and> insert i (set_of st (tok_hidden (nd_token n))) \<subseteq> set_of st2 (tok_hidden t)"
    using object_tokens_hide [OF object _ _ step1(2) body] st1 unfolding step1(3) by (auto simp: object_state_def)
  have grows: "grows st st'" using step1(1) step2(1) grows_trans unfolding same by blast
  have small: "weight st2 t < weight st (nd_token n)" if t: "t \<in> set ts" for t
  proof -
    have "card (insert i (set_of st (tok_hidden (nd_token n)))) \<le> card (set_of st2 (tok_hidden t))"
      using step2(2) [OF t] by (intro card_mono set_of_finite) auto
    then show ?thesis using free set_of_finite [of st2 "tok_hidden t"] set_of_finite [of st "tok_hidden (nd_token n)"]
      by (simp add: weight_def name) linarith
  qed
  have "fresh st' ms" using step2(2) by (auto simp: fresh_def ms new_node_def same)
  moreover have "fresh st' ns" using fresh_grows [OF grows] nodes by simp
  moreover have "(weights st' ns + weights st' ms, weights st ns + {#weight st (nd_token n)#}) \<in> mult less_than"
    unfolding weights_grows [OF grows, of ns, OF nodes [simplified, THEN conjunct2, THEN conjunct2]]
    by (rule one_step_implies_mult) (auto simp: weights_def ms new_node_def same small)
  ultimately show ?thesis using grows by (simp add: ns' add.commute)
qed

section \<open>Queries\<close>

lemma query_operand_split: "query_operand k ns = Some (operand, closing, rest) \<Longrightarrow> ns = operand @ closing # rest"
  by (induction k ns arbitrary: operand rule: query_operand.induct) (auto simp: Let_def split: if_splits)

lemma digit_token_simps [simp]: "tok_hidden (digit_token b) = 0" "weight st (digit_token b) = 0"
  by (simp_all add: digit_token_def weight_def)

lemma node_new_state: "cc_pp_node_new ts st = Some (ms, st') \<Longrightarrow> ms = map new_node ts \<and> pp_hide st' = pp_hide st"
  by (auto simp: cc_pp_node_new_def split: if_splits)

lemma list_release_hide [simp]: "pp_hide (cc_pp_list_release ns st) = pp_hide st"
  by (simp add: cc_pp_list_release_def)

text \<open>A rescan at the next depth that only adds hide sets.\<close>

definition growing :: "rescan_fun \<Rightarrow> bool" where
  "growing sub \<longleftrightarrow> (\<forall>ns st ms st'. object_state st \<longrightarrow> fresh st ns \<longrightarrow> sub ns st = Done (ms, st') \<longrightarrow> grows st st')"

text \<open>The operand of a query is copied before it is expanded.\<close>

lemma operand_copies:
  assumes "object_state st" and "fresh st ns" and "cc_pp_node_new (map nd_token ns) st = Some (ms, st')"
  shows "object_state st' \<and> fresh st' ms \<and> grows st st'"
proof -
  have new: "ms = map new_node (map nd_token ns)" "pp_hide st' = pp_hide st" using node_new_state [OF assms(3)] by auto
  have grows: "grows st st'" using assms(1) new(2) by (simp add: grows_same object_state_def)
  moreover have "fresh st' ms" using assms(2) by (auto simp: fresh_def known_def new new_node_def)
  ultimately show ?thesis using object_state_grows [OF assms(1) grows node_new_tables [OF assms(3)]] by blast
qed

lemma query_expand_step:
  assumes run: "cc_pp_query_expand sub kind depth n ns st = Done (ns', st')" and ok: "object_state st"
    and nodes: "fresh st (n # ns)" and name: "tok_kind (nd_token n) = CC_PP_IDENT" and sub: "growing sub"
  shows "grows st st' \<and> fresh st' ns' \<and> (weights st' ns', weights st (n # ns)) \<in> mult less_than"
proof -
  obtain b dropped rest where ns: "ns = dropped @ rest" and ns': "ns' = n\<lparr>nd_token := digit_token b\<rparr> # rest" and grows: "grows st st'"
  proof (cases "kind = 5")
    case True
    then show thesis using run ok that [of "[]" ns True]
      by (auto simp: cc_pp_query_expand_def grows_same object_state_def split: if_splits)
  next
    case False
    then obtain paren operand closing rest copies st1 copies2 st2 found where
        ns: "ns = paren # operand @ closing # rest"
        and new: "cc_pp_node_new (map nd_token operand) st = Some (copies, st1)"
        and expand: "sub copies st1 = Done (copies2, st2) \<or> (copies2 = copies \<and> st2 = st1)"
        and result: "ns' = n\<lparr>nd_token := digit_token found\<rparr> # rest" "pp_hide st' = pp_hide st2"
      using run by (fastforce simp: cc_pp_query_expand_def split: if_splits list.splits option.splits dest!: query_operand_split)
    have "fresh st operand" using nodes ns by simp
    from operand_copies [OF ok this new] have copies: "object_state st1" "fresh st1 copies" "grows st st1" by auto
    have "grows st st2" using expand sub copies grows_trans unfolding growing_def by blast
    then have "grows st st'" using result(2) by (simp add: grows_def)
    then show thesis using ns result(1) that [of "paren # operand @ [closing]" rest found] by simp
  qed
  have "known st' 0" using ok grows_known [OF grows] by (simp add: object_state_def)
  then have "fresh st' ns'" using fresh_grows [OF grows, of rest] nodes ns by (simp add: ns')
  moreover have "(weights st rest + {#0#}, weights st rest + (weights st dropped + {#weight st (nd_token n)#})) \<in> mult less_than"
  proof (rule one_step_implies_mult)
    have "0 < weight st (nd_token n)" using set_of_finite(2) [of st "tok_hidden (nd_token n)"] by (simp add: weight_def name)
    then show "\<forall>k\<in>set_mset {#0#}. \<exists>j\<in>set_mset (weights st dropped + {#weight st (nd_token n)#}). (k, j) \<in> less_than" by auto
  qed simp
  moreover have "weights st' rest = weights st rest" using weights_grows [OF grows] nodes ns by simp
  ultimately show ?thesis using grows by (simp add: ns ns' ac_simps)
qed

text \<open>A query runs out of fuel only where the rescan of its operand does.\<close>

lemma query_expand_calls:
  assumes ok: "object_state st" and nodes: "fresh st (n # ns)"
  shows "\<exists>ms st1. object_state st1 \<and> fresh st1 ms \<and> (\<forall>sub. sub ms st1 \<noteq> Undefined \<longrightarrow> cc_pp_query_expand sub kind depth n ns st \<noteq> Undefined)"
proof -
  show ?thesis
  proof (cases "\<exists>paren behind operand closing rest copies st1. ns = paren # behind \<and>
      query_operand 0 behind = Some (operand, closing, rest) \<and> cc_pp_node_new (map nd_token operand) st = Some (copies, st1)")
    case True
    then obtain paren behind operand closing rest copies st1 where 1: "ns = paren # behind"
        "query_operand 0 behind = Some (operand, closing, rest)" "cc_pp_node_new (map nd_token operand) st = Some (copies, st1)"
      by blast
    have "fresh st operand" using nodes 1(1) query_operand_split [OF 1(2)] by simp
    from operand_copies [OF ok this 1(3)] have "object_state st1 \<and> fresh st1 copies" by blast
    moreover have "cc_pp_query_expand sub kind depth n ns st \<noteq> Undefined" if called: "sub copies st1 \<noteq> Undefined" for sub
    proof -
      consider "\<exists>copies2 st2. sub copies st1 = Done (copies2, st2)" | "\<exists>msg. sub copies st1 = Fail msg"
        using called by (cases "sub copies st1") auto
      then show ?thesis
        by cases (auto simp: cc_pp_query_expand_def stopped_def 1 split: option.splits)
    qed
    ultimately show ?thesis by blast
  next
    case False
    then have "cc_pp_query_expand sub kind depth n ns st \<noteq> Undefined" for sub
    proof (cases ns)
      case (Cons paren behind)
      with False have "query_operand 0 behind = Some (operand, closing, rest) \<Longrightarrow> cc_pp_node_new (map nd_token operand) st = None"
        for operand closing rest
        by (cases "cc_pp_node_new (map nd_token operand) st") auto
      then show ?thesis by (auto simp: cc_pp_query_expand_def stopped_def Cons split: option.split)
    qed (simp add: cc_pp_query_expand_def stopped_def)
    then show ?thesis using ok by (intro exI [of _ "[]"] exI [of _ st]) simp
  qed
qed

section \<open>Rescanning\<close>

definition sub_rescan :: "nat \<Rightarrow> nat \<Rightarrow> rescan_fun" where
  "sub_rescan fuel depth ns st = andthen (cc_pp_rescan_depth fuel False depth ns st) (\<lambda>(done, _, st). Done (done, st))"

text \<open>Nothing is left to replace at a node.\<close>

definition spent :: "pp \<Rightarrow> pp_node \<Rightarrow> bool" where
  "spent st n \<longleftrightarrow> cc_pp_query_kind st (nd_token n) = 0 \<and>
     (case node_macro st n of None \<Rightarrow> True
      | Some (m, i) \<Rightarrow> \<not> mac_present m \<or> cc_pp_hide_contains (pp_hide st) (tok_hidden (nd_token n)) i)"

text \<open>A node of a name: what it stands for is in the table.\<close>

lemma node_macroD:
  assumes "node_macro st n = Some (m, i)" and "nd_frozen n = None"
  shows "tok_kind (nd_token n) = CC_PP_IDENT \<and> m \<in> set (pp_macros st)"
  using assms by (auto simp: node_macro_def cc_pp_find_def split: if_splits dest: index_of_Some(1))

text \<open>The round of a rescan in a state of object-like macros.\<close>

lemma object_round:
  assumes ok: "object_state st" and n: "nd_frozen n = None"
  obtains (query) "cc_pp_query_kind st (nd_token n) \<noteq> 0" "tok_kind (nd_token n) = CC_PP_IDENT"
      "\<And>fuel inc. cc_pp_rescan_depth (Suc fuel) inc depth (n # ns) st =
        (if cc_pp_query_kind st (nd_token n) \<le> 2 \<and> \<not> pp_in_condition st then stopped
         else andthen (cc_pp_query_expand (sub_rescan fuel (depth + 1)) (cc_pp_query_kind st (nd_token n)) depth n ns st)
           (\<lambda>(ns, st). cc_pp_rescan_depth fuel inc depth ns st))"
  | (keep) "spent st n"
      "\<And>fuel inc. cc_pp_rescan_depth (Suc fuel) inc depth (n # ns) st = scanned n (cc_pp_rescan_depth fuel inc depth ns st)"
  | (replace) m i where "tok_kind (nd_token n) = CC_PP_IDENT"
      "\<not> cc_pp_hide_contains (pp_hide st) (tok_hidden (nd_token n)) i"
      "\<And>fuel inc. cc_pp_rescan_depth (Suc fuel) inc depth (n # ns) st =
        andthen (of_option (replace_object m i n ns st)) (\<lambda>(ns, st). cc_pp_rescan_depth fuel inc depth ns st)"
proof (cases "cc_pp_query_kind st (nd_token n) = 0")
  case False
  moreover from this have "tok_kind (nd_token n) = CC_PP_IDENT"
    by (auto simp: cc_pp_query_kind_def cc_pp_query_symbol_def Let_def split: if_splits)
  ultimately show thesis by (rule query) (simp add: sub_rescan_def [abs_def] False Let_def)
next
  case no_query: True
  show thesis
  proof (cases "node_macro st n")
    case None
    then show thesis using no_query keep by (simp add: spent_def)
  next
    case (Some p)
    obtain m i where p: "p = (m, i)" by fastforce
    show thesis
    proof (cases "mac_present m \<and> \<not> cc_pp_hide_contains (pp_hide st) (tok_hidden (nd_token n)) i")
      case True
      then have "\<not> mac_function m" "tok_kind (nd_token n) = CC_PP_IDENT"
        using node_macroD [OF Some [unfolded p] n] ok by (auto simp: object_state_def)
      with True show thesis using no_query Some p by (intro replace [of i m]) (simp_all add: Let_def)
    next
      case False
      then show thesis using no_query Some p by (intro keep) (auto simp: spent_def Let_def)
    qed
  qed
qed

declare cc_pp_rescan_depth.simps(3) [simp del]

lemma growing_sub_rescan:
  assumes "\<And>inc ns st ms bl st'. object_state st \<Longrightarrow> fresh st ns \<Longrightarrow> cc_pp_rescan_depth fuel inc depth ns st = Done (ms, bl, st') \<Longrightarrow> grows st st'"
  shows "growing (sub_rescan fuel depth)"
  using assms by (auto simp: growing_def sub_rescan_def)

lemma spent_grows:
  assumes "spent st n" and "known st (tok_hidden (nd_token n))" and "grows st st'" and same: "tables st' = tables st"
  shows "spent st' n"
proof -
  note eq = tables_eqD [OF same]
  have "cc_pp_query_kind st' t = cc_pp_query_kind st t" for t
    unfolding cc_pp_query_kind_def macro_present_def cc_pp_find_def eq ..
  moreover have "node_macro st' n = node_macro st n"
    unfolding node_macro_def cc_pp_find_def eq ..
  moreover have "cc_pp_hide_contains (pp_hide st') (tok_hidden (nd_token n)) i \<longleftrightarrow>
      cc_pp_hide_contains (pp_hide st) (tok_hidden (nd_token n)) i" for i
    using assms(2,3) grows_known [OF assms(3,2)] grows_set [OF assms(3,2)]
    by (simp add: hide_contains_set known_def set_of_def)
  ultimately show ?thesis using assms(1) unfolding spent_def by (auto split: option.splits)
qed

lemma rescan_object_done:
  assumes "cc_pp_rescan_depth fuel inc depth ns st = Done (ms, bl, st')" and "object_state st" and "fresh st ns"
  shows "grows st st' \<and> bl = [] \<and> (\<forall>n\<in>set ms. spent st' n)"
  using assms
proof (induction fuel arbitrary: inc depth ns st ms bl st')
  case 0
  then show ?case by (cases ns) (auto simp: grows_same object_state_def)
next
  case (Suc fuel)
  show ?case
  proof (cases ns)
    case Nil
    then show ?thesis using Suc.prems by (auto simp: grows_same object_state_def)
  next
    case (Cons n rest)
    have frozen: "nd_frozen n = None" using Suc.prems(3) Cons by simp
    have go_on: "grows st st' \<and> bl = [] \<and> (\<forall>n\<in>set ms. spent st' n)"
      if "cc_pp_rescan_depth fuel inc depth ns' st1 = Done (ms, bl, st')" "grows st st1" "fresh st1 ns'" "tables st1 = tables st" for ns' st1
      using Suc.IH [OF that(1) object_state_grows [OF Suc.prems(2) that(2,4)] that(3)] grows_trans [OF that(2)] by blast
    from Suc.prems(2) frozen show ?thesis
    proof (cases rule: object_round [of st n depth rest])
      case query
      have sub: "growing (sub_rescan fuel (depth + 1))" using Suc.IH by (intro growing_sub_rescan) blast
      obtain ns' st1 where expand: "cc_pp_query_expand (sub_rescan fuel (depth + 1)) (cc_pp_query_kind st (nd_token n)) depth n rest st = Done (ns', st1)"
          and rest: "cc_pp_rescan_depth fuel inc depth ns' st1 = Done (ms, bl, st')"
        using Suc.prems(1) unfolding Cons query(3) by (auto split: if_splits)
      have "keeps_tables (sub_rescan fuel (depth + 1))" by (auto simp: keeps_tables_def sub_rescan_def dest: rescan_tables)
      from query_expand_tables [OF this expand] query_expand_step [OF expand Suc.prems(2) Suc.prems(3) [unfolded Cons] query(2) sub]
      show ?thesis using go_on [OF rest] by blast
    next
      case keep
      obtain ms' where ms: "ms = n # ms'" and rest: "cc_pp_rescan_depth fuel inc depth rest st = Done (ms', bl, st')"
        using Suc.prems(1) unfolding Cons keep(2) scanned_def by auto
      have "grows st st' \<and> bl = [] \<and> (\<forall>n\<in>set ms'. spent st' n)" using Suc.IH [OF rest Suc.prems(2)] Suc.prems(3) Cons by simp
      moreover from this have "spent st' n" using spent_grows [OF keep(1) _ _ rescan_tables [OF rest]] Suc.prems(3) Cons by simp
      ultimately show ?thesis by (simp add: ms)
    next
      case (replace m i)
      obtain ns' st1 where object: "replace_object m i n rest st = Some (ns', st1)"
          and rest: "cc_pp_rescan_depth fuel inc depth ns' st1 = Done (ms, bl, st')"
        using Suc.prems(1) unfolding Cons replace(3) by auto
      have "i \<notin> set_of st (tok_hidden (nd_token n))"
        using replace(2) Suc.prems(3) Cons by (simp add: hide_contains_set known_def set_of_def)
      from replace_object_step [OF object Suc.prems(2) Suc.prems(3) [unfolded Cons] replace(1) this] replace_object_tables [OF object]
      show ?thesis using go_on [OF rest] by blast
    qed
  qed
qed

text \<open>The depths left, then what the nodes leave open.\<close>

definition rescan_order :: "((nat \<times> pp_node list \<times> pp) \<times> (nat \<times> pp_node list \<times> pp)) set" where
  "rescan_order = inv_image (less_than <*lex*> mult less_than) (\<lambda>(depth, ns, st). (64 - depth, weights st ns))"

lemma wf_rescan_order: "wf rescan_order"
  unfolding rescan_order_def by (intro wf_inv_image wf_lex_prod wf_mult wf_less_than)

lemma rescan_order_smaller: "(weights st' ns', weights st ns) \<in> mult less_than \<Longrightarrow> ((depth, ns', st'), (depth, ns, st)) \<in> rescan_order"
  by (simp add: rescan_order_def)

lemma rescan_order_deeper: "depth < 64 \<Longrightarrow> ((Suc depth, ns', st'), (depth, ns, st)) \<in> rescan_order"
  by (auto simp: rescan_order_def)

lemma weights_less: "(weights st ns, weights st (n # ns)) \<in> mult less_than"
  using one_step_implies_mult [of "{#weight st (nd_token n)#}" "{#}" less_than "weights st ns"] by simp

lemma rescan_fuel_max:
  assumes "cc_pp_rescan_depth fuel inc depth ns st \<noteq> Undefined" and "fuel \<le> fuel'"
  shows "cc_pp_rescan_depth fuel' inc depth ns st = cc_pp_rescan_depth fuel inc depth ns st"
  using rescan_more_fuel [OF assms(2), of inc depth ns st] assms(1) by (auto simp: fuel_below_def)

lemma query_expand_fuel:
  assumes ok: "object_state st" and nodes: "fresh st (n # ns)"
    and sub: "\<And>ms st1. depth < 64 \<Longrightarrow> object_state st1 \<Longrightarrow> fresh st1 ms \<Longrightarrow>
      \<exists>fuel. cc_pp_rescan_depth fuel False (Suc depth) ms st1 \<noteq> Undefined"
  shows "\<exists>fuel q. q \<noteq> Undefined \<and> (\<forall>fuel'\<ge>fuel. cc_pp_query_expand (sub_rescan fuel' (depth + 1)) kind depth n ns st = q)"
proof (cases "depth < 64")
  case True
  obtain ms st1 where calls: "object_state st1" "fresh st1 ms"
      "\<And>sub. sub ms st1 \<noteq> Undefined \<Longrightarrow> cc_pp_query_expand sub kind depth n ns st \<noteq> Undefined"
    using query_expand_calls [OF ok nodes] by blast
  obtain fuel where fuel: "cc_pp_rescan_depth fuel False (Suc depth) ms st1 \<noteq> Undefined" using sub [OF True calls(1,2)] by blast
  have "sub_rescan fuel (depth + 1) ms st1 \<noteq> Undefined"
    using fuel by (cases "cc_pp_rescan_depth fuel False (Suc depth) ms st1") (auto simp: sub_rescan_def)
  note defined = calls(3) [of "sub_rescan fuel (depth + 1)", OF this]
  have "cc_pp_query_expand (sub_rescan fuel' (depth + 1)) kind depth n ns st = cc_pp_query_expand (sub_rescan fuel (depth + 1)) kind depth n ns st"
    if "fuel \<le> fuel'" for fuel'
  proof -
    have "fuel_below (sub_rescan fuel (depth + 1) ns st) (sub_rescan fuel' (depth + 1) ns st)" for ns st
      unfolding sub_rescan_def by (intro fuel_below_andthen rescan_more_fuel that) simp
    from fuel_below_query_expand [of "sub_rescan fuel (depth + 1)" "sub_rescan fuel' (depth + 1)", OF this, of kind depth n ns st] show ?thesis using defined
      unfolding fuel_below_def by simp
  qed
  then show ?thesis using defined by blast
next
  case False
  then show ?thesis by (intro exI [of _ 0] exI [of _ stopped]) (simp add: cc_pp_query_expand_def stopped_def)
qed

lemma rescan_object_ends:
  "object_state st \<Longrightarrow> fresh st ns \<Longrightarrow> \<exists>fuel. cc_pp_rescan_depth fuel inc depth ns st \<noteq> Undefined"
proof (induction "(depth, ns, st)" arbitrary: depth ns st inc rule: wf_induct_rule [OF wf_rescan_order])
  case (1 depth ns st)
  show ?case
  proof (cases ns)
    case Nil
    then show ?thesis by simp
  next
    case (Cons n rest)
    have frozen: "nd_frozen n = None" and all: "fresh st (n # rest)" and rest: "fresh st rest" using 1(3) Cons by simp_all
    from 1(2) frozen show ?thesis
    proof (cases rule: object_round [of st n depth rest])
      case query
      let ?kind = "cc_pp_query_kind st (nd_token n)"
      obtain fuel q where q: "q \<noteq> Undefined"
          "\<And>fuel'. fuel \<le> fuel' \<Longrightarrow> cc_pp_query_expand (sub_rescan fuel' (depth + 1)) ?kind depth n rest st = q"
        using query_expand_fuel [OF 1(2) all, of depth ?kind] 1(1) [OF rescan_order_deeper] by blast
      show ?thesis
      proof (cases q)
        case (Done p)
        obtain ns' st1 where p: "p = (ns', st1)" by fastforce
        have sub: "growing (sub_rescan fuel (depth + 1))" using rescan_object_done by (intro growing_sub_rescan) blast
        have "keeps_tables (sub_rescan fuel (depth + 1))" by (auto simp: keeps_tables_def sub_rescan_def dest: rescan_tables)
        note expand = q(2) [OF order_refl, unfolded Done p]
        note step = query_expand_step [OF expand 1(2) all query(2) sub]
        have "object_state st1" using object_state_grows [OF 1(2) _ query_expand_tables [OF \<open>keeps_tables _\<close> expand]] step by blast
        then obtain fuel2 where "cc_pp_rescan_depth fuel2 inc depth ns' st1 \<noteq> Undefined"
          using 1(1) [OF rescan_order_smaller] step unfolding Cons by blast
        then have "cc_pp_rescan_depth (max fuel fuel2) inc depth ns' st1 \<noteq> Undefined" using rescan_fuel_max by (metis max.cobounded2)
        then show ?thesis unfolding Cons
          by (intro exI [of _ "Suc (max fuel fuel2)"]) (simp add: query(3) q(2) [of "max fuel fuel2", simplified] Done p stopped_def)
      next
        case (Fail msg)
        then show ?thesis unfolding Cons by (intro exI [of _ "Suc fuel"]) (simp add: query(3) q(2) [of fuel, simplified] stopped_def)
      qed (use q(1) in simp)
    next
      case keep
      have "((depth, rest, st), (depth, ns, st)) \<in> rescan_order" unfolding Cons by (rule rescan_order_smaller [OF weights_less])
      then obtain fuel where "cc_pp_rescan_depth fuel inc depth rest st \<noteq> Undefined" using 1(1) [OF _ 1(2) rest] by blast
      then show ?thesis unfolding Cons
        by (intro exI [of _ "Suc fuel"]; cases "cc_pp_rescan_depth fuel inc depth rest st") (auto simp: keep(2) scanned_def)
    next
      case (replace m i)
      show ?thesis
      proof (cases "replace_object m i n rest st")
        case None
        then show ?thesis unfolding Cons by (intro exI [of _ 1]) (simp add: replace(3) [of 0, simplified] stopped_def)
      next
        case (Some p)
        obtain ns' st1 where p: "p = (ns', st1)" by fastforce
        note object = Some [unfolded p]
        have "i \<notin> set_of st (tok_hidden (nd_token n))"
          using replace(2) all by (simp add: hide_contains_set known_def set_of_def)
        note step = replace_object_step [OF object 1(2) all replace(1) this]
        have "object_state st1" using object_state_grows [OF 1(2) _ replace_object_tables [OF object]] step by blast
        then obtain fuel where "cc_pp_rescan_depth fuel inc depth ns' st1 \<noteq> Undefined"
          using 1(1) [OF rescan_order_smaller] step unfolding Cons by blast
        then show ?thesis unfolding Cons by (intro exI [of _ "Suc fuel"]) (simp add: replace(3) object)
      qed
    qed
  qed
qed

text \<open>
  C16. Expansion of object-like macros ends and is complete. In a state without function-like macros
  whose hide sets exist, for every list of tokens there is an amount of fuel from which on the
  rescan has one result, which is not that it ran out of fuel, also with macros that mention
  themselves and each other, with pasting and with queries inside queries. If the result is
  a list, nothing is left of the input, and no node of it can be replaced further: it is no query, and
  if it names a macro then that macro is undefined or in the node's hide set.
\<close>

theorem object_expansion_ends:
  assumes "object_state st" and "fresh st ns"
  shows "\<exists>fuel r. r \<noteq> Undefined \<and> (\<forall>fuel'\<ge>fuel. cc_pp_rescan_depth fuel' incomplete depth ns st = r) \<and>
    (case r of Done (ms, blocked, st') \<Rightarrow> blocked = [] \<and> (\<forall>n\<in>set ms. spent st' n) | _ \<Rightarrow> True)"
proof -
  obtain fuel where fuel: "cc_pp_rescan_depth fuel incomplete depth ns st \<noteq> Undefined"
    using rescan_object_ends [OF assms] by blast
  show ?thesis
  proof (intro exI conjI)
    show "cc_pp_rescan_depth fuel incomplete depth ns st \<noteq> Undefined" by (rule fuel)
    show "\<forall>fuel'\<ge>fuel. cc_pp_rescan_depth fuel' incomplete depth ns st = cc_pp_rescan_depth fuel incomplete depth ns st"
      using rescan_fuel_max [OF fuel] by blast
    show "case cc_pp_rescan_depth fuel incomplete depth ns st of
        Done (ms, blocked, st') \<Rightarrow> blocked = [] \<and> (\<forall>n\<in>set ms. spent st' n) | _ \<Rightarrow> True"
      using rescan_object_done [OF _ assms] by (auto split: res.split)
  qed
qed

text \<open>A macro that stands for itself and a number.\<close>

definition loop_macro :: pp where
  "loop_macro =
     (let name = \<lparr>tok_text = bytes_of ''A'', tok_at = 0, tok_kind = CC_PP_IDENT, tok_hidden = 0, tok_space = False\<rparr> in
      (cc_pp_start [] [] 0)\<lparr>pp_tokens := [name, digit_token True],
        pp_macros := [\<lparr>mac_name = name, mac_first = 0, mac_count = 2, mac_parameter_first = 0, mac_parameter_count = 0,
          mac_present = True, mac_function = False, mac_variadic = False\<rparr>]\<rparr>)"

lemma object_expansion_ends_witness:
  "\<exists>fuel r. r \<noteq> Undefined \<and> cc_pp_rescan_depth fuel False 0 [new_node (hd (pp_tokens loop_macro))] loop_macro = r"
proof -
  have "known loop_macro 0" using hide_reset_ok by (simp add: known_def loop_macro_def cc_pp_start_def Let_def)
  moreover have "hide_ok (pp_hide loop_macro)" using hide_reset_ok by (simp add: loop_macro_def cc_pp_start_def Let_def)
  ultimately have "object_state loop_macro" "fresh loop_macro [new_node (hd (pp_tokens loop_macro))]"
    by (simp_all add: object_state_def fresh_def new_node_def loop_macro_def Let_def digit_token_def)
  from object_expansion_ends [OF this, of False 0] show ?thesis by blast
qed

end
