(* ===== verification/Spec2Isabelle.thy ===== *)
theory Spec2Isabelle
  imports CopyRuns CoreBoot AssemblerText SpaceMainRuns LinkArchive GccListing GccMain GccTarget Rv32Refines VmGuestRun
  Fold64 PpEvaluate PpLookup PpGroups PpEnds
begin

text \<open>
  A verification development for copy-space, a machine whose only instruction copies a range
  of bits, and for the C programs around it.

  \<^bold>\<open>The program.\<close> The space is one bit-addressed memory; bit \<open>p\<close> is bit \<open>7 - p mod 8\<close> of byte
  \<open>p div 8\<close>. An instruction \<open>copy n, dst, src\<close> is three fields in the space itself, so a program
  computes by copying bits into the address fields of instructions that run later. The first
  instructions of the space are the processor: slot 1 reads from the input stream, slot 2 writes
  to the output stream, every other slot copies; one pass over the slots is a tick. The
  emulator (src/) executes this machine. The generator runtime/gcc/copy_emit.c writes
  instruction sequences for arithmetic, loads and stores into an image; the linker
  runtime/gcc/copy_link.c reads assembly text, archives and data and translates them through
  the generator into an image that the emulator boots. The gcc runtime (runtime/gcc) is a
  compiler hosted in the space: it receives a job packet, keeps the job's files in a file
  system of its own behind the system calls of the C library, runs the compiler, links and
  answers with a response packet. runtime/rv32i and runtime/gcc/target are the support
  library of the compiled programs. runtime/copy_c is the C compiler of the space itself; its
  preprocessor and constant folder are written in C. legacy/src/vm is the machine before this
  one: the same copies, with a mailbox of devices in the space and an RV32I processor that the
  devices run as a guest.

  \<^bold>\<open>How the theories follow the code.\<close>
  \<^item> Prelude: byte buffers with checked access, their bit view, the calculus \<open>yields\<close> of
    memory operations, counting loops. Tables: tables searched from their first entry.
    Digits: printing and parsing of numbers.
  \<^item> Bitcopy: src/bitcopy.c with all its paths (bit loop, byte copy, same offset, sliding
    window); the interfaces \<open>bit_writer\<close> and
    \<open>bit_store\<close> of single-bit access and \<open>memory_copy\<close> of a range copy. BitFields: numbers stored as
    bit fields and the interface \<open>field_codec\<close>; it is interpreted for the emulator's fields
    (SpaceCodec) and for the generator's (CopyField).
  \<^item> SpaceCodec, Space, SpaceRun: src/space.h, src/support.h, src/space.c, src/space_run.c,
    src/space_trace.c. The compile-time choices are the record \<open>config\<close>; the globals, the two
    streams and the observer's log are the record \<open>machine\<close>. SpaceSpec: the same machine over
    bits alone (\<open>spec_step\<close>), and the refinement; SpaceTrace the actions of its ticks, their text,
    and that the observer and the log report them. Core, CoreBoot:
    src/core.h, src/core.c, the built-in program that loads the first layer. SpaceMain,
    SpaceMainRuns: src/space_main.c, the command line of the emulator.
  \<^item> CopyEmit, CopyField, CopyArith, CopyBits, CopyCode, CopyProgram, CopyRuns:
    runtime/gcc/copy_emit.c. A struct that points to the image is a record passed beside the
    buffer. CopyArith and CopyBits are about the emitted rows when the machine executes them,
    CopyCode joins the two, CopyProgram is the growing chain of layers, CopyRuns runs a
    finished program in the emulator.
  \<^item> LinkText, LinkState, LinkData, LinkCode, LinkImage, LinkObjects, LinkArchive:
    runtime/gcc/copy_link.c in the order of the file: text, tables, sections and data,
    translation of operations, one image, several objects, archives. The struct \<open>context\<close> is
    the record \<open>link\<close>; a message that the C code stores in \<open>error\<close> is the value \<open>Fail\<close>.
  \<^item> PacketBytes, InputFiles, GccFiles, GccPaths, GccJob, GccResponse, GccSystem, GccMain:
    runtime/copy_c/input_files.h and runtime/gcc/files.c, job.c, response.c, syscalls.c,
    directories.c, main.c. GccFilesOk and GccFilesRun hold the invariant of the file system,
    GccSystemOk that of the whole guest, GccListing the enumeration of a directory.
    GccTarget: runtime/rv32i/runtime.c, runtime/gcc/target/muldi3.c and sync_up.c.
  \<^item> Assembler, AssemblerOk, AssemblerText: src/assembler.c. The state is the record \<open>assembly\<close>;
    AssemblerOk holds its invariant and that its writes stay in their buffers, AssemblerText the
    meaning of programs and their text. Results: the result type of the programs that stop at their first error.
  \<^item> Fold64, Phase2, PpTokens, PpHide, PpState, PpInclude, PpMacros, PpRescan, PpCondition,
    PpDirectives, PpMain: runtime/copy_c/integer64_fold.h, preprocess_phase2.h,
    preprocess_macros.h, preprocess_include.h, preprocess_queries.h and preprocess_condition.h.
    The static variables are the record \<open>pp\<close>; tokens carry their bytes, linked nodes are lists
    with their numbers counted; \<open>stopped\<close> is the result -1. PpLex holds the lexical facts,
    PpEvaluate the expressions of \<open>#if\<close> as trees, PpLookup the search path, PpFrame what
    expansion leaves alone, PpGroups the invariant of the conditional groups, PpEnds the order
    in which rescanning descends.
  \<^item> VmBitcpy, Vm, VmMailbox, VmService, Rv32: bitcpy.c, space.c, space.h and rv32.c under
    legacy/src/vm. The struct \<open>vm\<close> is a record, the host's streams and hooks are the record
    \<open>vm_io\<close>. Rv32Spec is the RV32I instruction set over registers and bytes, written down
    independently of the code; Rv32Refines shows that the executor implements it. VmServiceOk holds the
    well-formedness of the machine and VmGuestRun a guest run from its request to its end.

  \<^bold>\<open>What is shown.\<close>
  \<^item> The machine: \<open>bitcpy\<close> moves exactly the requested bits on every path and stays in its
    buffers; fields are read at every alignment; a tick of the code is a tick of the bit
    machine and never has undefined behaviour; runs, limits, traces and errors follow.
    The boot core turns a layer from the input into the processor or reports a short input;
    the emulator program with a limit returns what the bit machine computes from the core on,
    and its trace is the text of the machine's actions.
  \<^item> The generator: the code for a 32-bit sum, difference or bitwise operation computes it when
    the machine executes it; every program reachable by the operations keeps its layers inside
    its region and chained by jumps; a finished program, loaded and run by the emulator,
    leaves the result and stops.
  \<^item> The linker: numbers and names are read back as printed, names of private symbols are
    distinct across files up to one collision, the choice among definitions and the selection
    of archive members meet their specifications.
  \<^item> The hosted compiler: packets are decoded exactly when they have the format; every
    sequence of system calls keeps the guest well formed; writes overlay file contents; a
    directory is listed once and completely, unless the table of directory numbers is too full
    for it; captured output grows with a loop that
    terminates at its width; a run that ends with status 0 has delivered its output.
  \<^item> The assembler: it has no undefined behaviour on any input, where every write to a buffer or
    table is checked against its size in the model; from the text of a program it makes an image
    from which the emulator decodes the rows that the program means.
  \<^item> The preprocessor: joining spliced lines in place is the function on lists; hide sets behave
    as sets; printed tokens are read back; the evaluator of \<open>#if\<close> computes the value of the
    expression; expansion of object-like macros ends and leaves nothing to replace; directives
    keep the conditional groups in order and do nothing in a group that is switched off; an
    included file is the first hit of its search path. The folder computes 64-bit arithmetic.
  \<^item> The machine before: its executor is the RV32I instruction set; its devices acknowledge
    requests and keep the machine well formed; a guest run ends within its budget.

  \<^bold>\<open>Conventions.\<close> An operation returns \<open>None\<close> (or \<open>Undefined\<close>) only where the C code has
  undefined behaviour, so a result \<open>Some\<close> is also a proof of memory safety; return codes and
  messages are values. Machine integers are words, or natural numbers with the guards of the
  code where these exclude wrap-around: offsets of the bit copies and bit addresses of the
  machines are natural numbers, because the sizes the code admits keep them below \<open>2 ^ 56\<close>.
  Additions of signed guest words wrap. The unbounded run loop and the doubling loop of
  captured output are partial functions, and their termination is proved where it holds. The
  rescan and the main loop of the preprocessor take fuel, and \<open>Undefined\<close> is the result when it is
  used up: PpEnds shows that more fuel never changes a result and that some amount is enough
  for texts without function-like macros; files that include themselves run to the limit of 64
  open files. In the preprocessor \<open>None\<close> and \<open>Fail\<close> are the failure results of the C
  functions. The evaluator of \<open>#if\<close> takes one unit for each byte of its text, which is shown to be
  enough in PpEvaluate. All other loops are total functions.
  Interfaces are locales, interpreted on the code's model: \<open>bit_writer\<close>, \<open>bit_store\<close>,
  \<open>memory_copy\<close> and \<open>field_codec\<close> for the machine, \<open>byte_reader\<close> and \<open>byte_writer\<close> for the packets.

  \<^bold>\<open>Parameters.\<close> The compiler inside main.c, the device behind the guest's streams, the
  constants of the C library's headers and the environment of the target's system calls are
  arguments of the definitions that use them. Allocation is assumed to succeed where the C
  code allocates tables whose size is bounded by the input.

  \<^bold>\<open>Not modelled.\<close> The compiler proper under
  runtime/copy_c and the programs under runtime/pforth, which are Forth sources; the glue to the vendored
  interpreter under third_party; the headers of runtime/linux, which belong to a kernel that is
  not part of the repository. Of legacy/: the optional pointer checks (invariants.c) and
  statistics (vmrep.c), the builder of one fixed image (mkimage) and the host tools. The
  Python scripts, the tests and the examples.
\<close>

end
